(* ===== verification/Prelude.thy ===== *)
theory Prelude
  imports Main "HOL-Library.Word"
begin

text \<open>
  The vocabulary every other theory of the development shares.

  \<^item> Machine types of the C++ sources: a \<open>std::byte\<close> is an \<open>8 word\<close>, the unsigned integers
    are words of their width, a span or a fixed-size array is a list of bytes. \<open>std::size_t\<close>
    quantities that only count bytes held in memory are \<open>nat\<close>; every \<open>uint64_t\<close> that travels on
    the wire or is compared against a wire value is a \<open>64 word\<close>, so wrap-around is kept.
  \<^item> The state-and-error computations of the sources. A function that works on an object by
    reference and returns \<open>std::expected<T, E>\<close> is a function from the object to a result and
    the object as the call leaves it, on the error path too: \<open>('e, 's, 'a) sm\<close>. The early returns
    \<open>if (!x) return std::unexpected(x.error())\<close> are \<open>bindE\<close>.
  \<^item> The collections of rewrite rules the component proofs use.
\<close>

named_theorems sm_simps \<open>unfolding rules of the state-and-error computations\<close>
named_theorems size_defs \<open>numeric constants of the wire format\<close>

type_synonym byte = "8 word"
type_synonym u16 = "16 word"
type_synonym u32 = "32 word"
type_synonym u64 = "64 word"
type_synonym bytes = "8 word list"

subsection \<open>Computations that may fail and keep their state\<close>

type_synonym ('e, 's, 'a) sm = "'s \<Rightarrow> ('e + 'a) \<times> 's"

definition returnE :: "'a \<Rightarrow> ('e, 's, 'a) sm" where
  "returnE x = (\<lambda>s. (Inr x, s))"

definition throwE :: "'e \<Rightarrow> ('e, 's, 'a) sm" where
  "throwE e = (\<lambda>s. (Inl e, s))"

definition bindE :: "('e, 's, 'a) sm \<Rightarrow> ('a \<Rightarrow> ('e, 's, 'b) sm) \<Rightarrow> ('e, 's, 'b) sm" where
  "bindE m f = (\<lambda>s. case m s of (Inl e, s') \<Rightarrow> (Inl e, s') | (Inr x, s') \<Rightarrow> f x s')"

definition thenE :: "('e, 's, unit) sm \<Rightarrow> ('e, 's, 'b) sm \<Rightarrow> ('e, 's, 'b) sm" where
  "thenE m k = bindE m (\<lambda>_. k)"

text \<open>\<open>if (!cond) return std::unexpected(e);\<close>\<close>

definition checkE :: "bool \<Rightarrow> 'e \<Rightarrow> ('e, 's, unit) sm" where
  "checkE c e = (if c then returnE () else throwE e)"

lemma returnE_apply [simp, sm_simps]: "returnE x s = (Inr x, s)"
  by (simp add: returnE_def)

lemma throwE_apply [simp, sm_simps]: "throwE e s = (Inl e, s)"
  by (simp add: throwE_def)

lemma bindE_Inl [simp]: "m s = (Inl e, s') \<Longrightarrow> bindE m f s = (Inl e, s')"
  by (simp add: bindE_def)

lemma bindE_Inr [simp]: "m s = (Inr x, s') \<Longrightarrow> bindE m f s = f x s'"
  by (simp add: bindE_def)

lemma thenE_Inl [simp]: "m s = (Inl e, s') \<Longrightarrow> thenE m k s = (Inl e, s')"
  by (simp add: thenE_def)

lemma thenE_Inr [simp]: "m s = (Inr u, s') \<Longrightarrow> thenE m k s = k s'"
  by (simp add: thenE_def)

lemma checkE_apply [simp, sm_simps]:
  "checkE c e s = (if c then (Inr (), s) else (Inl e, s))"
  by (simp add: checkE_def)

lemma bindE_return [simp]: "bindE (returnE x) f = f x"
  by (simp add: bindE_def fun_eq_iff)

lemma bindE_throw [simp]: "bindE (throwE e) f = throwE e"
  by (simp add: bindE_def fun_eq_iff)

lemma bindE_returnE_right [simp]: "bindE m returnE = m"
  by (auto simp: bindE_def fun_eq_iff split: prod.splits sum.splits)

lemma bindE_assoc: "bindE (bindE m f) g = bindE m (\<lambda>x. bindE (f x) g)"
  by (auto simp: bindE_def fun_eq_iff split: prod.splits sum.splits)

lemma bindE_InrE:
  assumes "bindE m f s = (Inr y, s'')"
  obtains x s' where "m s = (Inr x, s')" and "f x s' = (Inr y, s'')"
  using assms by (auto simp: bindE_def split: prod.splits sum.splits)

lemma thenE_InrE:
  assumes "thenE m k s = (Inr y, s'')"
  obtains s' where "m s = (Inr (), s')" and "k s' = (Inr y, s'')"
  using assms by (auto simp: thenE_def elim: bindE_InrE)

lemma checkE_InrE:
  assumes "checkE c e s = (Inr u, s')"
  obtains c and "s' = s"
  using assms by (auto split: if_splits)

text \<open>Result values without a state: \<open>std::expected\<close> returned by a pure function.\<close>

definition bindR :: "'e + 'a \<Rightarrow> ('a \<Rightarrow> 'e + 'b) \<Rightarrow> 'e + 'b" where
  "bindR r f = (case r of Inl e \<Rightarrow> Inl e | Inr x \<Rightarrow> f x)"

lemma bindR_simps [simp]: "bindR (Inl e) f = Inl e" "bindR (Inr x) f = f x"
  by (simp_all add: bindR_def)

lemma bindR_eq_Inr: "bindR r f = Inr y \<longleftrightarrow> (\<exists>x. r = Inr x \<and> f x = Inr y)"
  by (cases r) auto

subsection \<open>Lists\<close>

text \<open>\<open>std::ranges::copy(src, dst.begin() + at)\<close> into a buffer that has the room.\<close>

definition blit :: "'a list \<Rightarrow> nat \<Rightarrow> 'a list \<Rightarrow> 'a list" where
  "blit buf at src = take at buf @ src @ drop (at + length src) buf"

lemma length_blit [simp]: "at + length src \<le> length buf \<Longrightarrow> length (blit buf at src) = length buf"
  by (simp add: blit_def)

lemma take_blit [simp]:
  "at + length src \<le> length buf \<Longrightarrow> take (at + length src) (blit buf at src) = take at buf @ src"
  by (simp add: blit_def)

lemma blit_append_at:
  "length src \<le> length room \<Longrightarrow> blit (done @ room) (length done) src = done @ src @ drop (length src) room"
  by (simp add: blit_def)

lemma take_append_length [simp]: "length xs = n \<Longrightarrow> take n (xs @ ys) = xs"
  by simp

lemma drop_append_length [simp]: "length xs = n \<Longrightarrow> drop n (xs @ ys) = ys"
  by simp

lemma append_eq_lengthD:
  "xs @ ys = xs' @ ys' \<Longrightarrow> length xs = length xs' \<Longrightarrow> xs = xs' \<and> ys = ys'"
  by simp

lemma split_take: "n \<le> length xs \<Longrightarrow> \<exists>ys zs. xs = ys @ zs \<and> length ys = n"
  by (rule exI [of _ "take n xs"], rule exI [of _ "drop n xs"]) simp

text \<open>\<open>std::ranges::find_if\<close> as the index it points to, and \<open>count_if\<close> under the update of one entry.\<close>

fun find_index :: "('a \<Rightarrow> bool) \<Rightarrow> 'a list \<Rightarrow> nat option" where
  "find_index P [] = None"
| "find_index P (x # xs) = (if P x then Some 0 else map_option Suc (find_index P xs))"

definition count_if :: "('a \<Rightarrow> bool) \<Rightarrow> 'a list \<Rightarrow> nat" where
  "count_if P xs = length (filter P xs)"

lemma find_index_Some: "find_index P xs = Some i \<Longrightarrow> i < length xs \<and> P (xs ! i)"
  by (induction xs arbitrary: i) (auto split: if_splits)

lemma find_index_None: "find_index P xs = None \<longleftrightarrow> (\<forall>i < length xs. \<not> P (xs ! i))"
proof (induction xs)
  case (Cons x xs)
  then show ?case by (simp add: All_less_Suc2)
qed simp

lemma find_index_unique:
  assumes "i < length xs" and "P (xs ! i)" and "\<And>j. j < length xs \<Longrightarrow> P (xs ! j) \<Longrightarrow> j = i"
  shows "find_index P xs = Some i"
proof (cases "find_index P xs")
  case None
  then show ?thesis using assms(1,2) by (simp add: find_index_None)
next
  case (Some j)
  moreover have "j = i" using find_index_Some [OF Some] assms(3) by blast
  ultimately show ?thesis by simp
qed

lemma count_if_update:
  "i < length xs \<Longrightarrow> count_if P (xs[i := x]) + (if P (xs ! i) then 1 else 0) = count_if P xs + (if P x then 1 else 0)"
proof (induction xs arbitrary: i)
  case (Cons y xs)
  then show ?case by (cases i) (auto simp: count_if_def)
qed simp

lemma count_if_pos: "i < length xs \<Longrightarrow> P (xs ! i) \<Longrightarrow> 0 < count_if P xs"
  by (auto simp: count_if_def filter_empty_conv dest: nth_mem)

subsection \<open>Words as bounded naturals\<close>

lemma unat_lt_u8: "unat (b :: byte) < 256"
  using unsigned_less [of b, where ?'a = nat] by simp

lemma unat_lt_u16: "unat (b :: u16) < 65536"
  using unsigned_less [of b, where ?'a = nat] by simp

lemma unat_of_nat_small: "n < 2 ^ LENGTH('a) \<Longrightarrow> unat (of_nat n :: 'a::len word) = n"
  by (simp add: unat_of_nat take_bit_nat_eq_self)

lemma unat_plus1:
  fixes w :: "'a::len word"
  assumes "w < l"
  shows "unat (w + 1) = unat w + 1"
proof -
  have "unat w < unat l" using assms by (simp add: word_less_nat_alt)
  then have "unat w + 1 < 2 ^ LENGTH('a)" using unsigned_less [of l, where ?'a = nat] by linarith
  then show ?thesis by (simp add: unat_word_ariths)
qed

lemma mixed_radix_inject:
  fixes a b x y M :: nat
  assumes "x < M" "y < M" "a * M + x = b * M + y"
  shows "a = b \<and> x = y"
proof -
  have "(a * M + x) div M = a" "(b * M + y) div M = b" using assms(1,2) by simp_all
  with assms(3) have "a = b" by simp
  with assms(3) show ?thesis by simp
qed

end
