(* ===== verification/Core_Bytes.thy ===== *)
theory Core_Bytes
  imports Prelude
begin

text \<open>
  \<^verbatim>\<open>src/core\<close>: protocol errors and their disposition (\<open>error.hpp\<close>), the bounds-checked
  \<open>ByteReader\<close> and \<open>ByteWriter\<close> every codec is written with.

  A reader is its data and position, as in the class. \<open>rd_at pre rest\<close> names the reader that has
  consumed \<open>pre\<close> and still holds \<open>rest\<close>; every reader whose position is inside its data has this
  form, and the rules below rewrite each read on it. \<open>wr_at done room\<close> is the same for a writer.
  The predicates \<open>parses\<close>, \<open>parses_all\<close>, \<open>accepts\<close> and \<open>writes\<close> state what a composed parser or
  writer does to the bytes, with one composition rule each.
\<close>

unbundle bit_operations_syntax

subsection \<open>Errors (error.hpp)\<close>

datatype EDisposition = Ignore | CloseConnection | KillSession

datatype EProtoError =
    Truncated | LengthLimitExceeded | MalformedField | UnknownMessageType
  | UnexpectedMessage | VersionMismatch | UnsupportedCriticalOption | NonceReused
  | AuthenticationFailed | BufferTooSmall | RekeyRequired | EpochsExhausted

type_synonym 'a proto_result = "EProtoError + 'a"

fun DispositionOf :: "EProtoError \<Rightarrow> EDisposition" where
  "DispositionOf UnknownMessageType = Ignore"
| "DispositionOf Truncated = CloseConnection"
| "DispositionOf LengthLimitExceeded = CloseConnection"
| "DispositionOf MalformedField = CloseConnection"
| "DispositionOf UnexpectedMessage = CloseConnection"
| "DispositionOf AuthenticationFailed = CloseConnection"
| "DispositionOf BufferTooSmall = CloseConnection"
| "DispositionOf RekeyRequired = CloseConnection"
| "DispositionOf EpochsExhausted = CloseConnection"
| "DispositionOf UnsupportedCriticalOption = CloseConnection"
| "DispositionOf NonceReused = CloseConnection"
| "DispositionOf VersionMismatch = KillSession"

subsection \<open>Big-endian integers\<close>

text \<open>\<open>EncodeBE\<close> and \<open>DecodeBE\<close>: \<open>sizeof(TValue)\<close> bytes, written as shifts.\<close>

definition EncodeBE :: "'a::len word \<Rightarrow> bytes" where
  "EncodeBE v = (let width = LENGTH('a) div 8 in
     map (\<lambda>i. ucast (drop_bit ((width - 1 - i) * 8) v AND 0xFF)) [0..<width])"

definition DecodeBE :: "bytes \<Rightarrow> 'a::len word" where
  "DecodeBE bs = foldl (\<lambda>v b. push_bit 8 v OR ucast b) 0 bs"

lemma length_EncodeBE: "length (EncodeBE (v :: 'a::len word)) = LENGTH('a) div 8"
  by (simp add: EncodeBE_def Let_def)

lemma length_EncodeBE_widths [simp]:
  "length (EncodeBE (a :: byte)) = 1" "length (EncodeBE (b :: u16)) = 2"
  "length (EncodeBE (c :: u32)) = 4" "length (EncodeBE (d :: u64)) = 8"
  by (simp_all add: length_EncodeBE)

lemma bit_byte_mask: "bit (0xFF :: 'a::len word) k \<longleftrightarrow> k < LENGTH('a) \<and> k < 8"
proof -
  have "(0xFF :: 'a word) = mask 8" by (simp add: mask_eq_decr_exp)
  then show ?thesis by (simp only: bit_mask_iff) (auto simp: not_le)
qed

lemma ucast_byte_mask: "ucast (x AND 0xFF :: 'a::len word) = (ucast x :: byte)"
proof (rule bit_word_eqI)
  fix n assume "n < LENGTH(8)"
  then have "n < 8" by simp
  then show "bit (ucast (x AND 0xFF) :: byte) n \<longleftrightarrow> bit (ucast x :: byte) n"
    using bit_byte_mask [of n, where ?'a = 'a] bit_imp_le_length [of x n]
    by (auto simp only: bit_ucast_iff bit_and_iff)
qed

lemma nth_EncodeBE:
  "i < LENGTH('a) div 8 \<Longrightarrow>
   EncodeBE (v :: 'a::len word) ! i = ucast (drop_bit ((LENGTH('a) div 8 - 1 - i) * 8) v)"
  by (simp add: EncodeBE_def Let_def ucast_byte_mask)

lemma bit_DecodeBE:
  "length bs * 8 \<le> LENGTH('a) \<Longrightarrow>
   bit (DecodeBE bs :: 'a::len word) n \<longleftrightarrow>
     n < length bs * 8 \<and> bit (bs ! (length bs - 1 - n div 8)) (n mod 8)"
proof (induction bs arbitrary: n rule: rev_induct)
  case Nil
  then show ?case by (simp add: DecodeBE_def)
next
  case (snoc b bs)
  have step: "DecodeBE (bs @ [b]) = push_bit 8 (DecodeBE bs :: 'a word) OR ucast b"
    by (simp add: DecodeBE_def)
  show ?case
  proof (cases "n < 8")
    case True
    with snoc.prems show ?thesis
      by (simp add: step bit_simps nth_append)
  next
    case False
    then have div: "n div 8 = Suc ((n - 8) div 8)" and mod: "n mod 8 = (n - 8) mod 8"
      using le_div_geq [of 8 n] le_mod_geq [of 8 n] by simp_all
    have high: "\<not> bit b n"
      using False bit_imp_le_length [of b n] by auto
    have idx: "n - 8 < length bs * 8 \<Longrightarrow> length bs - Suc ((n - 8) div 8) < length bs"
      by (cases bs) auto
    show ?thesis
      using False snoc.prems high
      by (auto simp: step bit_simps snoc.IH div mod nth_append idx)
  qed
qed

lemma DecodeBE_EncodeBE:
  assumes "LENGTH('a) = 8 * (LENGTH('a) div 8)"
  shows "DecodeBE (EncodeBE v) = (v :: 'a::len word)"
proof (rule bit_word_eqI)
  fix n assume n: "n < LENGTH('a)"
  let ?w = "LENGTH('a) div 8"
  have q: "n div 8 < ?w" using n assms by (metis less_mult_imp_div_less mult.commute)
  then have i: "?w - 1 - n div 8 < ?w" by simp
  have s: "?w - 1 - (?w - 1 - n div 8) = n div 8" using q by simp
  have "bit (EncodeBE v ! (?w - 1 - n div 8)) (n mod 8)
        \<longleftrightarrow> bit v (n div 8 * 8 + n mod 8)"
    using i s n assms by (simp add: nth_EncodeBE bit_simps)
  then show "bit (DecodeBE (EncodeBE v) :: 'a word) n \<longleftrightarrow> bit v n"
    using n assms by (simp add: bit_DecodeBE length_EncodeBE)
qed

lemma EncodeBE_DecodeBE:
  assumes "LENGTH('a) = 8 * length bs"
  shows "EncodeBE (DecodeBE bs :: 'a::len word) = bs"
proof (rule nth_equalityI)
  show len: "length (EncodeBE (DecodeBE bs :: 'a word)) = length bs"
    using assms by (simp add: length_EncodeBE)
  fix i assume "i < length (EncodeBE (DecodeBE bs :: 'a word))"
  with len have i: "i < length bs" by simp
  let ?w = "length bs"
  show "EncodeBE (DecodeBE bs :: 'a word) ! i = bs ! i"
  proof (rule bit_word_eqI)
    fix k assume k: "k < LENGTH(8)"
    let ?n = "(?w - 1 - i) * 8 + k"
    have "?n div 8 = ?w - 1 - i" "?n mod 8 = k" using k by simp_all
    moreover have "?n < ?w * 8" using i
      by (metis calculation(1) diff_Suc_less diff_diff_eq div_less_iff_less_mult length_greater_0_conv
          less_nat_zero_code list.size(3) plus_1_eq_Suc zero_less_numeral)
    ultimately show "bit (EncodeBE (DecodeBE bs :: 'a word) ! i) k \<longleftrightarrow> bit (bs ! i) k"
      using i k assms by (simp add: nth_EncodeBE bit_simps bit_DecodeBE)
  qed
qed

lemma DecodeBE_EncodeBE_widths [simp]:
  "DecodeBE (EncodeBE a) = (a :: byte)" "DecodeBE (EncodeBE b) = (b :: u16)"
  "DecodeBE (EncodeBE c) = (c :: u32)" "DecodeBE (EncodeBE d) = (d :: u64)"
  by (simp_all add: DecodeBE_EncodeBE)

lemma EncodeBE_byte: "EncodeBE (b :: byte) = [b]"
  by (rule nth_equalityI) (simp_all add: nth_EncodeBE)

lemma DecodeBE_byte: "DecodeBE [b] = (b :: byte)"
  using DecodeBE_EncodeBE_widths(1) [of b] by (simp only: EncodeBE_byte)

subsection \<open>ByteReader\<close>

record ByteReader =
  rd_Data :: bytes
  rd_Pos :: nat

type_synonym 'a reader = "(EProtoError, ByteReader, 'a) sm"

definition mk_reader :: "bytes \<Rightarrow> ByteReader" where
  "mk_reader data = \<lparr>rd_Data = data, rd_Pos = 0\<rparr>"

definition rd_Remaining :: "ByteReader \<Rightarrow> nat" where
  "rd_Remaining r = length (rd_Data r) - rd_Pos r"

definition Rest :: "ByteReader \<Rightarrow> bytes" where
  "Rest r = drop (rd_Pos r) (rd_Data r)"

definition Exhausted :: "ByteReader \<Rightarrow> bool" where
  "Exhausted r \<longleftrightarrow> rd_Pos r = length (rd_Data r)"

definition ReadBytes :: "nat \<Rightarrow> bytes reader" where
  "ReadBytes count r =
     (if count > rd_Remaining r then (Inl Truncated, r)
      else (Inr (take count (drop (rd_Pos r) (rd_Data r))), r\<lparr>rd_Pos := rd_Pos r + count\<rparr>))"

definition Skip :: "nat \<Rightarrow> unit reader" where
  "Skip count r =
     (if count > rd_Remaining r then (Inl Truncated, r)
      else (Inr (), r\<lparr>rd_Pos := rd_Pos r + count\<rparr>))"

definition ReadU8 :: "byte reader" where
  "ReadU8 = bindE (ReadBytes 1) (\<lambda>b. returnE (b ! 0))"

definition ReadU16BE :: "u16 reader" where
  "ReadU16BE = bindE (ReadBytes 2) (\<lambda>b. returnE (DecodeBE b))"

definition ReadU32BE :: "u32 reader" where
  "ReadU32BE = bindE (ReadBytes 4) (\<lambda>b. returnE (DecodeBE b))"

definition ReadU64BE :: "u64 reader" where
  "ReadU64BE = bindE (ReadBytes 8) (\<lambda>b. returnE (DecodeBE b))"

text \<open>The class invariant: the position never leaves the data.\<close>

definition reader_ok :: "ByteReader \<Rightarrow> bool" where
  "reader_ok r \<longleftrightarrow> rd_Pos r \<le> length (rd_Data r)"

text \<open>The reader that has consumed \<open>pre\<close> and still holds \<open>rest\<close>.\<close>

definition rd_at :: "bytes \<Rightarrow> bytes \<Rightarrow> ByteReader" where
  "rd_at pre rest = \<lparr>rd_Data = pre @ rest, rd_Pos = length pre\<rparr>"

lemma reader_ok_rd_at: "reader_ok r \<Longrightarrow> r = rd_at (take (rd_Pos r) (rd_Data r)) (Rest r)"
  by (cases r) (simp add: rd_at_def reader_ok_def Rest_def)

lemma mk_reader_rd_at: "mk_reader data = rd_at [] data"
  by (simp add: mk_reader_def rd_at_def)

lemma Rest_rd_at [simp]: "Rest (rd_at pre rest) = rest"
  by (simp add: rd_at_def Rest_def)

lemma Exhausted_rd_at [simp]: "Exhausted (rd_at pre rest) \<longleftrightarrow> rest = []"
  by (simp add: rd_at_def Exhausted_def)

lemma rd_at_inject [simp]: "rd_at pre rest = rd_at pre rest' \<longleftrightarrow> rest = rest'"
  by (simp add: rd_at_def)

lemma rd_at_eq_iff: "rd_at pre rest = rd_at pre' rest' \<longleftrightarrow> pre = pre' \<and> rest = rest'"
  by (auto simp: rd_at_def)

lemma ReadBytes_rd_at:
  "ReadBytes n (rd_at pre rest) =
     (if n > length rest then (Inl Truncated, rd_at pre rest)
      else (Inr (take n rest), rd_at (pre @ take n rest) (drop n rest)))"
  by (simp add: ReadBytes_def rd_at_def rd_Remaining_def)

lemma Skip_rd_at:
  "Skip n (rd_at pre rest) =
     (if n > length rest then (Inl Truncated, rd_at pre rest)
      else (Inr (), rd_at (pre @ take n rest) (drop n rest)))"
  by (simp add: Skip_def rd_at_def rd_Remaining_def)

subsection \<open>What a parser does to the bytes\<close>

text \<open>\<open>parses P bs x\<close>: whatever precedes and follows, \<open>P\<close> takes exactly \<open>bs\<close> and returns \<open>x\<close>.
  \<open>parses_all\<close> is the same for a parser that looks at everything up to the end.\<close>

definition parses :: "'a reader \<Rightarrow> bytes \<Rightarrow> 'a \<Rightarrow> bool" where
  "parses P bs x \<longleftrightarrow> (\<forall>pre t. P (rd_at pre (bs @ t)) = (Inr x, rd_at (pre @ bs) t))"

definition parses_all :: "'a reader \<Rightarrow> bytes \<Rightarrow> 'a \<Rightarrow> bool" where
  "parses_all P bs x \<longleftrightarrow> (\<forall>pre. P (rd_at pre bs) = (Inr x, rd_at (pre @ bs) []))"

text \<open>\<open>accepts P R\<close>: whenever \<open>P\<close> succeeds, what it consumed is related by \<open>R\<close> to its result.\<close>

definition accepts :: "'a reader \<Rightarrow> ('a \<Rightarrow> bytes \<Rightarrow> bool) \<Rightarrow> bool" where
  "accepts P R \<longleftrightarrow> (\<forall>pre bs x r'. P (rd_at pre bs) = (Inr x, r') \<longrightarrow>
     (\<exists>c t. bs = c @ t \<and> R x c \<and> r' = rd_at (pre @ c) t))"

named_theorems parse_intros \<open>what the parsers take and return\<close>
named_theorems accept_intros \<open>what a successful parse has consumed\<close>

lemma parses_bind: "parses A bs x \<Longrightarrow> parses (f x) cs y \<Longrightarrow> parses (bindE A f) (bs @ cs) y"
  by (auto simp: parses_def bindE_def)

lemma parses_all_bind:
  "parses A bs x \<Longrightarrow> parses_all (f x) cs y \<Longrightarrow> parses_all (bindE A f) (bs @ cs) y"
  by (auto simp: parses_def parses_all_def bindE_def)

lemma parses_all_then:
  "parses A bs () \<Longrightarrow> parses_all k cs y \<Longrightarrow> parses_all (thenE A k) (bs @ cs) y"
  by (simp add: thenE_def parses_all_bind)

lemma parses_return [parse_intros]: "parses (returnE x) [] x"
  by (simp add: parses_def)

lemma parses_check [parse_intros]: "c \<Longrightarrow> parses (checkE c e) [] ()"
  by (simp add: parses_def)

lemma parses_all_check: "c \<Longrightarrow> parses_all k bs y \<Longrightarrow> parses_all (thenE (checkE c e) k) bs y"
  using parses_all_then [OF parses_check] by fastforce

lemma parses_all_return [parse_intros]: "parses_all (returnE x) [] x"
  by (simp add: parses_all_def)

lemma parses_allD: "parses_all P bs x \<Longrightarrow> P (mk_reader bs) = (Inr x, rd_at bs [])"
  by (simp add: parses_all_def mk_reader_rd_at)

lemma parses_ReadBytes [parse_intros]: "length bs = n \<Longrightarrow> parses (ReadBytes n) bs bs"
  by (auto simp: parses_def ReadBytes_rd_at)

lemma parses_ReadU8 [parse_intros]: "parses ReadU8 [b] b"
  by (simp add: parses_def ReadU8_def bindE_def ReadBytes_rd_at)

lemma parses_ReadU16BE [parse_intros]: "parses ReadU16BE (EncodeBE v) v"
  by (simp add: parses_def ReadU16BE_def bindE_def ReadBytes_rd_at)

lemma parses_ReadU32BE [parse_intros]: "parses ReadU32BE (EncodeBE v) v"
  by (simp add: parses_def ReadU32BE_def bindE_def ReadBytes_rd_at)

lemma parses_ReadU64BE [parse_intros]: "parses ReadU64BE (EncodeBE v) v"
  by (simp add: parses_def ReadU64BE_def bindE_def ReadBytes_rd_at)

lemma accepts_bind:
  assumes "accepts A R" and "\<And>x. accepts (f x) (S x)"
  shows "accepts (bindE A f) (\<lambda>y c. \<exists>x c1 c2. c = c1 @ c2 \<and> R x c1 \<and> S x y c2)"
  unfolding accepts_def
proof (intro allI impI)
  fix pre bs y r''
  assume "bindE A f (rd_at pre bs) = (Inr y, r'')"
  then obtain x r' where A: "A (rd_at pre bs) = (Inr x, r')" and f: "f x r' = (Inr y, r'')"
    by (rule bindE_InrE)
  from A assms(1) obtain c1 t1 where 1: "bs = c1 @ t1" "R x c1" "r' = rd_at (pre @ c1) t1"
    unfolding accepts_def by blast
  with f assms(2) obtain c2 t2 where 2: "t1 = c2 @ t2" "S x y c2" "r'' = rd_at ((pre @ c1) @ c2) t2"
    unfolding accepts_def by blast
  have "bs = (c1 @ c2) @ t2 \<and> (\<exists>x c1' c2'. c1 @ c2 = c1' @ c2' \<and> R x c1' \<and> S x y c2')
      \<and> r'' = rd_at (pre @ (c1 @ c2)) t2"
    using 1 2 by auto
  then show "\<exists>c t. bs = c @ t \<and> (\<exists>x c1 c2. c = c1 @ c2 \<and> R x c1 \<and> S x y c2) \<and> r'' = rd_at (pre @ c) t"
    by blast
qed

lemma accepts_then:
  assumes "accepts A R" and "accepts k S"
  shows "accepts (thenE A k) (\<lambda>y c. \<exists>c1 c2. c = c1 @ c2 \<and> R () c1 \<and> S y c2)"
  using accepts_bind [of A R "\<lambda>_. k" "\<lambda>_. S"] assms by (simp add: thenE_def)

lemma accepts_mono:
  assumes "accepts A R" and "\<And>x c. R x c \<Longrightarrow> S x c"
  shows "accepts A S"
  unfolding accepts_def
proof (intro allI impI)
  fix pre bs x r'
  assume "A (rd_at pre bs) = (Inr x, r')"
  with assms(1) obtain c t where "bs = c @ t" "R x c" "r' = rd_at (pre @ c) t"
    unfolding accepts_def by blast
  with assms(2) show "\<exists>c t. bs = c @ t \<and> S x c \<and> r' = rd_at (pre @ c) t"
    by blast
qed

lemma accepts_return [accept_intros]: "accepts (returnE x) (\<lambda>y c. y = x \<and> c = [])"
  by (auto simp: accepts_def)

lemma accepts_throw [accept_intros]: "accepts (throwE e) (\<lambda>y c. False)"
  by (auto simp: accepts_def)

lemma accepts_check [accept_intros]: "accepts (checkE b e) (\<lambda>u c. b \<and> c = [])"
  by (auto simp: accepts_def split: if_splits)

lemma accepts_if [accept_intros]:
  "accepts A R \<Longrightarrow> accepts B S \<Longrightarrow>
   accepts (if p then A else B) (\<lambda>x c. (p \<longrightarrow> R x c) \<and> (\<not> p \<longrightarrow> S x c))"
  by (simp add: accepts_def)

lemma accepts_ReadBytes [accept_intros]: "accepts (ReadBytes n) (\<lambda>x c. x = c \<and> length c = n)"
  unfolding accepts_def
proof (intro allI impI)
  fix pre bs x r'
  assume "ReadBytes n (rd_at pre bs) = (Inr x, r')"
  then have "bs = take n bs @ drop n bs \<and> (x = take n bs \<and> length (take n bs) = n)
      \<and> r' = rd_at (pre @ take n bs) (drop n bs)"
    by (auto simp: ReadBytes_rd_at split: if_splits)
  then show "\<exists>c t. bs = c @ t \<and> (x = c \<and> length c = n) \<and> r' = rd_at (pre @ c) t"
    by blast
qed

lemma accepts_ReadU8 [accept_intros]: "accepts ReadU8 (\<lambda>x c. c = [x])"
  unfolding ReadU8_def
  by (rule accepts_mono [OF accepts_bind [OF accepts_ReadBytes accepts_return]])
    (auto simp: length_Suc_conv)

lemma accepts_ReadU16BE [accept_intros]: "accepts ReadU16BE (\<lambda>x c. c = EncodeBE x)"
  unfolding ReadU16BE_def
  by (rule accepts_mono [OF accepts_bind [OF accepts_ReadBytes accepts_return]])
    (auto simp: EncodeBE_DecodeBE)

lemma accepts_ReadU32BE [accept_intros]: "accepts ReadU32BE (\<lambda>x c. c = EncodeBE x)"
  unfolding ReadU32BE_def
  by (rule accepts_mono [OF accepts_bind [OF accepts_ReadBytes accepts_return]])
    (auto simp: EncodeBE_DecodeBE)

lemma accepts_ReadU64BE [accept_intros]: "accepts ReadU64BE (\<lambda>x c. c = EncodeBE x)"
  unfolding ReadU64BE_def
  by (rule accepts_mono [OF accepts_bind [OF accepts_ReadBytes accepts_return]])
    (auto simp: EncodeBE_DecodeBE)

lemma acceptsD:
  "accepts P R \<Longrightarrow> P (rd_at pre bs) = (Inr x, r') \<Longrightarrow> \<exists>c t. bs = c @ t \<and> R x c \<and> r' = rd_at (pre @ c) t"
  by (simp add: accepts_def)

subsection \<open>ByteWriter\<close>

record ByteWriter =
  wr_Out :: bytes
  wr_Pos :: nat

type_synonym writer = "(EProtoError, ByteWriter, unit) sm"

definition mk_writer :: "bytes \<Rightarrow> ByteWriter" where
  "mk_writer out = \<lparr>wr_Out = out, wr_Pos = 0\<rparr>"

definition wr_Remaining :: "ByteWriter \<Rightarrow> nat" where
  "wr_Remaining w = length (wr_Out w) - wr_Pos w"

definition Written :: "ByteWriter \<Rightarrow> bytes" where
  "Written w = take (wr_Pos w) (wr_Out w)"

definition Reserve :: "nat \<Rightarrow> (EProtoError, ByteWriter, nat) sm" where
  "Reserve count w =
     (if count > wr_Remaining w then (Inl BufferTooSmall, w)
      else (Inr (wr_Pos w), w\<lparr>wr_Pos := wr_Pos w + count\<rparr>))"

definition WriteBytes :: "bytes \<Rightarrow> writer" where
  "WriteBytes bs = bindE (Reserve (length bs))
     (\<lambda>slot w. (Inr (), w\<lparr>wr_Out := blit (wr_Out w) slot bs\<rparr>))"

definition WriteU8 :: "byte \<Rightarrow> writer" where
  "WriteU8 v = bindE (Reserve 1) (\<lambda>slot w. (Inr (), w\<lparr>wr_Out := blit (wr_Out w) slot (EncodeBE v)\<rparr>))"

definition WriteU16BE :: "u16 \<Rightarrow> writer" where
  "WriteU16BE v = bindE (Reserve 2) (\<lambda>slot w. (Inr (), w\<lparr>wr_Out := blit (wr_Out w) slot (EncodeBE v)\<rparr>))"

definition WriteU32BE :: "u32 \<Rightarrow> writer" where
  "WriteU32BE v = bindE (Reserve 4) (\<lambda>slot w. (Inr (), w\<lparr>wr_Out := blit (wr_Out w) slot (EncodeBE v)\<rparr>))"

definition WriteU64BE :: "u64 \<Rightarrow> writer" where
  "WriteU64BE v = bindE (Reserve 8) (\<lambda>slot w. (Inr (), w\<lparr>wr_Out := blit (wr_Out w) slot (EncodeBE v)\<rparr>))"

definition wr_at :: "bytes \<Rightarrow> bytes \<Rightarrow> ByteWriter" where
  "wr_at done room = \<lparr>wr_Out = done @ room, wr_Pos = length done\<rparr>"

lemma mk_writer_wr_at: "mk_writer out = wr_at [] out"
  by (simp add: mk_writer_def wr_at_def)

lemma Written_wr_at [simp]: "Written (wr_at done room) = done"
  by (simp add: Written_def wr_at_def)

lemma wr_Out_wr_at [simp]: "wr_Out (wr_at done room) = done @ room"
  by (simp add: wr_at_def)

lemma wr_Pos_wr_at [simp]: "wr_Pos (wr_at done room) = length done"
  by (simp add: wr_at_def)

lemma WriteBytes_wr_at:
  "WriteBytes bs (wr_at done room) =
     (if length bs > length room then (Inl BufferTooSmall, wr_at done room)
      else (Inr (), wr_at (done @ bs) (drop (length bs) room)))"
  by (simp add: WriteBytes_def bindE_def Reserve_def wr_at_def wr_Remaining_def blit_append_at)

lemma WriteU_as_WriteBytes:
  "WriteU8 a = WriteBytes (EncodeBE a)" "WriteU16BE b = WriteBytes (EncodeBE b)"
  "WriteU32BE c = WriteBytes (EncodeBE c)" "WriteU64BE d = WriteBytes (EncodeBE d)"
  by (simp_all add: WriteBytes_def WriteU8_def WriteU16BE_def WriteU32BE_def WriteU64BE_def)

text \<open>\<open>writes W bs\<close>: with the room, \<open>W\<close> appends exactly \<open>bs\<close> and touches nothing else; without it,
  \<open>W\<close> fails with \<open>BufferTooSmall\<close>.\<close>

definition writes :: "writer \<Rightarrow> bytes \<Rightarrow> bool" where
  "writes W bs \<longleftrightarrow> (\<forall>done room.
     (length bs \<le> length room \<longrightarrow>
        W (wr_at done room) = (Inr (), wr_at (done @ bs) (drop (length bs) room))) \<and>
     (length room < length bs \<longrightarrow> fst (W (wr_at done room)) = Inl BufferTooSmall))"

named_theorems write_intros \<open>what the writers append\<close>

lemma writes_WriteBytes [write_intros]: "writes (WriteBytes bs) bs"
  by (simp add: writes_def WriteBytes_wr_at)

lemma writes_WriteU8 [write_intros]: "writes (WriteU8 v) [v]"
  using writes_WriteBytes [of "[v]"] by (simp add: WriteU_as_WriteBytes EncodeBE_byte)

lemma writes_WriteU16BE [write_intros]: "writes (WriteU16BE v) (EncodeBE v)"
  by (simp add: WriteU_as_WriteBytes writes_WriteBytes)

lemma writes_WriteU32BE [write_intros]: "writes (WriteU32BE v) (EncodeBE v)"
  by (simp add: WriteU_as_WriteBytes writes_WriteBytes)

lemma writes_WriteU64BE [write_intros]: "writes (WriteU64BE v) (EncodeBE v)"
  by (simp add: WriteU_as_WriteBytes writes_WriteBytes)

lemma writes_return [write_intros]: "writes (returnE ()) []"
  by (simp add: writes_def)

lemma writes_then:
  assumes A: "writes A as" and B: "writes B bs"
  shows "writes (thenE A B) (as @ bs)"
  unfolding writes_def
proof (intro allI conjI impI)
  fix d room :: bytes
  assume "length (as @ bs) \<le> length room"
  then show "thenE A B (wr_at d room) = (Inr (), wr_at (d @ as @ bs) (drop (length (as @ bs)) room))"
    using A B by (simp add: writes_def thenE_def bindE_def add.commute)
next
  fix d room :: bytes
  assume short: "length room < length (as @ bs)"
  show "fst (thenE A B (wr_at d room)) = Inl BufferTooSmall"
  proof (cases "length as \<le> length room")
    case True
    moreover have "length (drop (length as) room) < length bs" using short True by simp
    ultimately show ?thesis using A B by (simp add: writes_def thenE_def bindE_def)
  next
    case False
    then have "fst (A (wr_at d room)) = Inl BufferTooSmall" using A by (simp add: writes_def)
    then show ?thesis by (cases "A (wr_at d room)") (simp add: thenE_def bindE_def)
  qed
qed

lemma writes_check: "c \<Longrightarrow> writes B bs \<Longrightarrow> writes (thenE (checkE c e) B) bs"
  by (simp add: writes_def thenE_def bindE_def)

lemma writes_ok:
  "writes W bs \<Longrightarrow> length bs \<le> length out \<Longrightarrow>
   W (mk_writer out) = (Inr (), wr_at bs (drop (length bs) out))"
  by (simp add: writes_def mk_writer_wr_at)

lemma writes_short: "writes W bs \<Longrightarrow> length out < length bs \<Longrightarrow> fst (W (mk_writer out)) = Inl BufferTooSmall"
  by (simp add: writes_def mk_writer_wr_at)

end
