(* ===== verification/Wire_Frame.thy ===== *)
theory Wire_Frame
  imports Core_Bytes
begin

text \<open>
  \<^verbatim>\<open>src/wire\<close>, framing: the limits of the protocol (\<open>limits.hpp\<close>), one frame in a buffer
  (\<open>frame.cpp\<close>) and the reassembly of frames from a byte stream (\<open>frame_stream.cpp\<close>).

  \<open>frame_bytes\<close> is the frame as it stands on the wire. The lemmas show that \<open>ReadFrame\<close> inverts it,
  that the stage limit is enforced before the body is looked at, that an answer other than
  \<open>Truncated\<close> does not change when more bytes arrive, and that \<open>FrameStream\<close> is a bounded queue of
  bytes from which frames are cut in order, however the bytes were chunked.
\<close>

subsection \<open>Limits (limits.hpp)\<close>

definition HEADER_SIZE :: nat where [size_defs]: "HEADER_SIZE = 5"
definition MAX_FRAME :: nat where [size_defs]: "MAX_FRAME = 256 * 1024"
definition MAX_HANDSHAKE_FRAME :: nat where [size_defs]: "MAX_HANDSHAKE_FRAME = 4 * 1024"
definition PROTOCOL_VERSION_MIN :: u16 where "PROTOCOL_VERSION_MIN = 1"
definition PROTOCOL_VERSION_MAX :: u16 where "PROTOCOL_VERSION_MAX = 2"
definition PROTOCOL_VERSION_GRID :: u16 where "PROTOCOL_VERSION_GRID = 2"
definition MAX_TLV_OPTIONS :: nat where [size_defs]: "MAX_TLV_OPTIONS = 16"
definition MAX_TLV_VALUE_SIZE :: nat where [size_defs]: "MAX_TLV_VALUE_SIZE = 0xFFFF"
definition MAX_REMEMBERED_NONCES :: nat where [size_defs]: "MAX_REMEMBERED_NONCES = 64"
definition SNAPSHOT_MAX_BYTES :: nat where [size_defs]: "SNAPSHOT_MAX_BYTES = 4 * 1024 * 1024"
definition TLV_GRID_CAPABLE :: u16 where "TLV_GRID_CAPABLE = 3"

lemmas version_defs = PROTOCOL_VERSION_MIN_def PROTOCOL_VERSION_MAX_def PROTOCOL_VERSION_GRID_def

subsection \<open>Frames (frame.cpp)\<close>

record FrameHeader =
  fh_Length :: u32
  fh_Epoch :: byte

record FrameView =
  fv_Header :: FrameHeader
  fv_Body :: bytes
  fv_Consumed :: nat

definition ReadFrameHeader :: "FrameHeader reader" where
  "ReadFrameHeader =
     bindE ReadU32BE (\<lambda>len.
     bindE ReadU8 (\<lambda>epoch.
     returnE \<lparr>fh_Length = len, fh_Epoch = epoch\<rparr>))"

definition WriteFrameHeader :: "FrameHeader \<Rightarrow> writer" where
  "WriteFrameHeader h = thenE (WriteU32BE (fh_Length h)) (WriteU8 (fh_Epoch h))"

definition ReadFrame :: "bytes \<Rightarrow> u32 \<Rightarrow> FrameView proto_result" where
  "ReadFrame buffer maxBodyLength =
     fst (bindE ReadFrameHeader (\<lambda>header.
          thenE (checkE (\<not> fh_Length header > maxBodyLength) LengthLimitExceeded)
         (thenE (checkE (fh_Length header \<noteq> 0) MalformedField)
         (bindE (ReadBytes (unat (fh_Length header))) (\<lambda>body.
          returnE \<lparr>fv_Header = header, fv_Body = body,
                   fv_Consumed = HEADER_SIZE + unat (fh_Length header)\<rparr>)))) (mk_reader buffer))"

text \<open>The bytes of a header and of a frame on the wire.\<close>

definition header_bytes :: "FrameHeader \<Rightarrow> bytes" where
  "header_bytes h = EncodeBE (fh_Length h) @ [fh_Epoch h]"

definition frame_bytes :: "FrameHeader \<Rightarrow> bytes \<Rightarrow> bytes" where
  "frame_bytes h body = header_bytes h @ body"

lemma length_header_bytes [simp]: "length (header_bytes h) = HEADER_SIZE"
  by (simp add: header_bytes_def size_defs)

lemma writes_WriteFrameHeader [write_intros]: "writes (WriteFrameHeader h) (header_bytes h)"
  unfolding WriteFrameHeader_def header_bytes_def by (intro writes_then write_intros)

lemma parses_ReadFrameHeader [parse_intros]: "parses ReadFrameHeader (header_bytes h) h"
proof -
  have "parses ReadFrameHeader (EncodeBE (fh_Length h) @ [fh_Epoch h] @ [])
          \<lparr>fh_Length = fh_Length h, fh_Epoch = fh_Epoch h\<rparr>"
    unfolding ReadFrameHeader_def by (rule parses_bind parse_intros)+
  then show ?thesis by (cases h) (simp add: header_bytes_def)
qed

lemma accepts_ReadFrameHeader [accept_intros]: "accepts ReadFrameHeader (\<lambda>h c. c = header_bytes h)"
  unfolding ReadFrameHeader_def
  by (rule accepts_mono [OF accepts_bind [OF accepts_ReadU32BE accepts_bind [OF accepts_ReadU8 accepts_return]]])
    (auto simp: header_bytes_def)

lemma ReadFrameHeader_short:
  "length bs < HEADER_SIZE \<Longrightarrow> fst (ReadFrameHeader (rd_at pre bs)) = Inl Truncated"
  by (auto simp: ReadFrameHeader_def bindE_def ReadU32BE_def ReadU8_def ReadBytes_rd_at size_defs)

text \<open>\<open>ReadFrame\<close> on a buffer that holds at least a header.\<close>

lemma ReadFrame_header:
  "ReadFrame (header_bytes h @ rest) mx =
     (if fh_Length h > mx then Inl LengthLimitExceeded
      else if fh_Length h = 0 then Inl MalformedField
      else if length rest < unat (fh_Length h) then Inl Truncated
      else Inr \<lparr>fv_Header = h, fv_Body = take (unat (fh_Length h)) rest,
                fv_Consumed = HEADER_SIZE + unat (fh_Length h)\<rparr>)"
proof -
  have "ReadFrameHeader (rd_at [] (header_bytes h @ rest)) = (Inr h, rd_at (header_bytes h) rest)"
    using parses_ReadFrameHeader [of h] unfolding parses_def by (metis append_Nil)
  then show ?thesis
    by (simp add: ReadFrame_def mk_reader_rd_at ReadBytes_rd_at thenE_def bindE_def)
qed

lemma ReadFrame_short: "length buf < HEADER_SIZE \<Longrightarrow> ReadFrame buf mx = Inl Truncated"
proof -
  assume "length buf < HEADER_SIZE"
  then have "fst (ReadFrameHeader (rd_at [] buf)) = Inl Truncated" by (rule ReadFrameHeader_short)
  then show ?thesis
    by (cases "ReadFrameHeader (rd_at [] buf)") (simp add: ReadFrame_def mk_reader_rd_at bindE_def)
qed

lemma header_split:
  assumes "HEADER_SIZE \<le> length buf"
  obtains h rest where "buf = header_bytes h @ rest"
proof -
  let ?l = "take 4 buf" and ?e = "buf ! 4"
  have "length ?l = 4" using assms by (simp add: size_defs)
  then have "EncodeBE (DecodeBE ?l :: u32) = ?l" by (intro EncodeBE_DecodeBE) simp
  moreover have "buf = ?l @ [?e] @ drop 5 buf"
    using assms id_take_nth_drop [of 4 buf] by (simp add: size_defs)
  ultimately have "buf = header_bytes \<lparr>fh_Length = DecodeBE ?l, fh_Epoch = ?e\<rparr> @ drop 5 buf"
    by (simp add: header_bytes_def)
  then show ?thesis by (rule that)
qed

lemma header_bytes_inject [simp]: "header_bytes h = header_bytes h' \<longleftrightarrow> h = h'"
proof
  assume "header_bytes h = header_bytes h'"
  then have "EncodeBE (fh_Length h) = EncodeBE (fh_Length h')" and "fh_Epoch h = fh_Epoch h'"
    by (auto simp: header_bytes_def)
  then have "fh_Length h = fh_Length h'" by (metis DecodeBE_EncodeBE_widths(3))
  with \<open>fh_Epoch h = fh_Epoch h'\<close> show "h = h'" by simp
qed simp

text \<open>A success: the frame is at the front of the buffer, within the limit, and never empty.\<close>

lemma ReadFrame_InrD:
  assumes "ReadFrame buf mx = Inr v"
  shows "buf = frame_bytes (fv_Header v) (fv_Body v) @ drop (fv_Consumed v) buf"
    and "length (fv_Body v) = unat (fh_Length (fv_Header v))"
    and "fv_Consumed v = HEADER_SIZE + length (fv_Body v)"
    and "0 < length (fv_Body v)" and "fh_Length (fv_Header v) \<le> mx"
proof -
  have "HEADER_SIZE \<le> length buf" using ReadFrame_short [of buf mx] assms by (cases "HEADER_SIZE \<le> length buf") auto
  then obtain h rest where buf: "buf = header_bytes h @ rest" by (rule header_split)
  have *: "fh_Length h \<le> mx" "fh_Length h \<noteq> 0" "unat (fh_Length h) \<le> length rest"
      "v = \<lparr>fv_Header = h, fv_Body = take (unat (fh_Length h)) rest,
            fv_Consumed = HEADER_SIZE + unat (fh_Length h)\<rparr>"
    using assms unfolding buf ReadFrame_header by (auto split: if_splits)
  then show "buf = frame_bytes (fv_Header v) (fv_Body v) @ drop (fv_Consumed v) buf"
    "length (fv_Body v) = unat (fh_Length (fv_Header v))"
    "fv_Consumed v = HEADER_SIZE + length (fv_Body v)"
    "0 < length (fv_Body v)" "fh_Length (fv_Header v) \<le> mx"
    by (simp_all add: buf frame_bytes_def unat_gt_0)
qed

lemma ReadFrame_consumed:
  "ReadFrame buf mx = Inr v \<Longrightarrow> HEADER_SIZE < fv_Consumed v \<and> fv_Consumed v \<le> length buf"
  using ReadFrame_InrD [of buf mx v]
  by (metis add.right_neutral append_take_drop_id frame_bytes_def length_append length_header_bytes
      le_add1 nat_add_left_cancel_less)

text \<open>More bytes only ever resolve \<open>Truncated\<close>.\<close>

lemma ReadFrame_append:
  assumes "ReadFrame buf mx \<noteq> Inl Truncated"
  shows "ReadFrame (buf @ extra) mx = ReadFrame buf mx"
proof -
  have "HEADER_SIZE \<le> length buf" using ReadFrame_short [of buf mx] assms by (cases "HEADER_SIZE \<le> length buf") auto
  then obtain h rest where buf: "buf = header_bytes h @ rest" by (rule header_split)
  with assms show ?thesis by (auto simp: ReadFrame_header split: if_splits)
qed

subsection \<open>Reassembly (frame_stream.cpp)\<close>

record FrameStream =
  fs_Storage :: bytes
  fs_Capacity :: nat
  fs_Size :: nat
  fs_Pending :: nat
  fs_MaxBodyLength :: u32

definition ApplyLimit :: "u32 \<Rightarrow> FrameStream \<Rightarrow> FrameStream" where
  "ApplyLimit maxBodyLength s =
     (let capacity = min (length (fs_Storage s)) (HEADER_SIZE + unat maxBodyLength) in
      s\<lparr>fs_Capacity := capacity,
        fs_MaxBodyLength := of_nat (capacity - min capacity HEADER_SIZE)\<rparr>)"

definition mk_FrameStream :: "bytes \<Rightarrow> u32 \<Rightarrow> FrameStream" where
  "mk_FrameStream storage maxBodyLength = ApplyLimit maxBodyLength
     \<lparr>fs_Storage = storage, fs_Capacity = 0, fs_Size = 0, fs_Pending = 0, fs_MaxBodyLength = 0\<rparr>"

definition RaiseLimit :: "u32 \<Rightarrow> FrameStream \<Rightarrow> FrameStream" where
  "RaiseLimit maxBodyLength s = ApplyLimit (max maxBodyLength (fs_MaxBodyLength s)) s"

definition DropPending :: "FrameStream \<Rightarrow> FrameStream" where
  "DropPending s =
     (if fs_Pending s = 0 then s
      else s\<lparr>fs_Storage := blit (fs_Storage s) 0
               (take (fs_Size s - fs_Pending s) (drop (fs_Pending s) (fs_Storage s))),
             fs_Size := fs_Size s - fs_Pending s,
             fs_Pending := 0\<rparr>)"

definition fs_Append :: "bytes \<Rightarrow> (EProtoError, FrameStream, unit) sm" where
  "fs_Append chunk s0 =
     (let s = DropPending s0 in
      if length chunk > fs_Capacity s - fs_Size s then (Inl LengthLimitExceeded, s)
      else (Inr (), s\<lparr>fs_Storage := blit (fs_Storage s) (fs_Size s) chunk,
                      fs_Size := fs_Size s + length chunk\<rparr>))"

definition fs_Next :: "(EProtoError, FrameStream, FrameView option) sm" where
  "fs_Next s0 =
     (let s = DropPending s0 in
      case ReadFrame (take (fs_Size s) (fs_Storage s)) (fs_MaxBodyLength s) of
        Inl e \<Rightarrow> (if e = Truncated then (Inr None, s) else (Inl e, s))
      | Inr frame \<Rightarrow> (Inr (Some frame), s\<lparr>fs_Pending := fv_Consumed frame\<rparr>))"

definition Buffered :: "FrameStream \<Rightarrow> nat" where
  "Buffered s = fs_Size s - fs_Pending s"

definition Room :: "FrameStream \<Rightarrow> nat" where
  "Room s = fs_Capacity s - Buffered s"

text \<open>Class invariant, and the bytes the stream stands for.\<close>

definition stream_ok :: "FrameStream \<Rightarrow> bool" where
  "stream_ok s \<longleftrightarrow> fs_Capacity s \<le> length (fs_Storage s) \<and> fs_Size s \<le> fs_Capacity s \<and>
     fs_Pending s \<le> fs_Size s \<and>
     unat (fs_MaxBodyLength s) = fs_Capacity s - HEADER_SIZE \<and>
     (fs_Capacity s < HEADER_SIZE \<longrightarrow> fs_Capacity s = length (fs_Storage s))"

definition held :: "FrameStream \<Rightarrow> bytes" where
  "held s = take (fs_Size s - fs_Pending s) (drop (fs_Pending s) (fs_Storage s))"

lemma length_held: "stream_ok s \<Longrightarrow> length (held s) = Buffered s"
  by (auto simp: stream_ok_def held_def Buffered_def)

lemma DropPending_pending [simp]: "fs_Pending (DropPending s) = 0"
  by (simp add: DropPending_def)

lemma DropPending_keeps [simp]:
  "fs_Capacity (DropPending s) = fs_Capacity s" "fs_MaxBodyLength (DropPending s) = fs_MaxBodyLength s"
  by (simp_all add: DropPending_def)

lemma DropPending_size: "fs_Size (DropPending s) = Buffered s"
  by (simp add: DropPending_def Buffered_def)

lemma DropPending_ok: "stream_ok s \<Longrightarrow> stream_ok (DropPending s)"
  by (auto simp: stream_ok_def DropPending_def blit_def)

lemma DropPending_prefix: "stream_ok s \<Longrightarrow> take (Buffered s) (fs_Storage (DropPending s)) = held s"
  by (auto simp: stream_ok_def DropPending_def blit_def held_def Buffered_def)

lemma held_DropPending: "stream_ok s \<Longrightarrow> held (DropPending s) = held s"
  by (simp add: held_def [of "DropPending s"] DropPending_size DropPending_prefix)

lemma ApplyLimit_MaxBodyLength:
  "unat (fs_MaxBodyLength (ApplyLimit mx s)) = fs_Capacity (ApplyLimit mx s) - HEADER_SIZE"
proof -
  let ?c = "min (length (fs_Storage s)) (HEADER_SIZE + unat mx)"
  have eq: "?c - min ?c HEADER_SIZE = ?c - HEADER_SIZE" by simp
  have "unat (of_nat (?c - HEADER_SIZE) :: u32) = ?c - HEADER_SIZE"
    using unsigned_less [of mx, where ?'a = nat] by (intro unat_of_nat_small) auto
  then show ?thesis unfolding ApplyLimit_def Let_def eq by simp
qed

lemma ApplyLimit_simps [simp]:
  "fs_Storage (ApplyLimit mx s) = fs_Storage s" "fs_Size (ApplyLimit mx s) = fs_Size s"
  "fs_Pending (ApplyLimit mx s) = fs_Pending s"
  "fs_Capacity (ApplyLimit mx s) = min (length (fs_Storage s)) (HEADER_SIZE + unat mx)"
  by (simp_all add: ApplyLimit_def Let_def)

lemma mk_FrameStream_ok: "stream_ok (mk_FrameStream storage mx)"
  unfolding mk_FrameStream_def stream_ok_def ApplyLimit_MaxBodyLength by auto

lemma held_mk_FrameStream: "held (mk_FrameStream storage mx) = []"
  by (simp add: mk_FrameStream_def held_def)

text \<open>\<open>Append\<close> is a bounded enqueue.\<close>

lemma fs_Append_Inr:
  assumes "stream_ok s" and "fs_Append chunk s = (Inr (), s')"
  shows "stream_ok s'" and "held s' = held s @ chunk" and "fs_MaxBodyLength s' = fs_MaxBodyLength s"
    and "fs_Capacity s' = fs_Capacity s"
proof -
  let ?d = "DropPending s"
  have fit: "length chunk \<le> fs_Capacity s - fs_Size ?d"
    and s': "s' = ?d\<lparr>fs_Storage := blit (fs_Storage ?d) (fs_Size ?d) chunk, fs_Size := fs_Size ?d + length chunk\<rparr>"
    using assms(2) by (auto simp: fs_Append_def Let_def split: if_splits)
  have d: "stream_ok ?d" using assms(1) by (rule DropPending_ok)
  then have room: "fs_Size ?d + length chunk \<le> length (fs_Storage ?d)" "fs_Size ?d \<le> fs_Capacity s"
    using fit by (auto simp: stream_ok_def)
  then show "stream_ok s'" using d fit by (auto simp: stream_ok_def s')
  show "held s' = held s @ chunk"
    using room(1) DropPending_prefix [OF assms(1)] unfolding s' held_def [of "_\<lparr>fs_Size := _\<rparr>"]
    by (simp add: DropPending_size)
  show "fs_MaxBodyLength s' = fs_MaxBodyLength s" "fs_Capacity s' = fs_Capacity s" by (simp_all add: s')
qed

lemma fs_Append_fits:
  "stream_ok s \<Longrightarrow> fst (fs_Append chunk s) = (if length chunk \<le> Room s then Inr () else Inl LengthLimitExceeded)"
  by (simp add: fs_Append_def Let_def DropPending_size Room_def)

lemma fs_Append_Inl: "fs_Append chunk s = (Inl e, s') \<Longrightarrow> e = LengthLimitExceeded \<and> s' = DropPending s"
  by (auto simp: fs_Append_def Let_def split: if_splits)

text \<open>\<open>Next\<close> cuts the frame at the front of the queue.\<close>

lemma fs_Next_held:
  assumes "stream_ok s"
  shows "fst (fs_Next s) = (case ReadFrame (held s) (fs_MaxBodyLength s) of
           Inl e \<Rightarrow> (if e = Truncated then Inr None else Inl e) | Inr v \<Rightarrow> Inr (Some v))"
    and "stream_ok (snd (fs_Next s))"
    and "held (snd (fs_Next s)) = (case ReadFrame (held s) (fs_MaxBodyLength s) of
           Inl e \<Rightarrow> held s | Inr v \<Rightarrow> drop (fv_Consumed v) (held s))"
    and "fs_MaxBodyLength (snd (fs_Next s)) = fs_MaxBodyLength s"
proof -
  let ?d = "DropPending s"
  have d: "stream_ok ?d" using assms by (rule DropPending_ok)
  have pre: "take (fs_Size ?d) (fs_Storage ?d) = held s"
    by (simp add: DropPending_size DropPending_prefix assms)
  have len: "length (held s) = fs_Size ?d" using assms by (simp add: length_held DropPending_size)
  show "fst (fs_Next s) = (case ReadFrame (held s) (fs_MaxBodyLength s) of
           Inl e \<Rightarrow> (if e = Truncated then Inr None else Inl e) | Inr v \<Rightarrow> Inr (Some v))"
    and "fs_MaxBodyLength (snd (fs_Next s)) = fs_MaxBodyLength s"
    by (auto simp: fs_Next_def Let_def pre split: sum.splits)
  show "stream_ok (snd (fs_Next s))"
    using d ReadFrame_consumed [of "held s" "fs_MaxBodyLength s"] len
    by (auto simp: fs_Next_def Let_def pre stream_ok_def split: sum.splits)
  show "held (snd (fs_Next s)) = (case ReadFrame (held s) (fs_MaxBodyLength s) of
           Inl e \<Rightarrow> held s | Inr v \<Rightarrow> drop (fv_Consumed v) (held s))"
  proof (cases "ReadFrame (held s) (fs_MaxBodyLength s)")
    case (Inl e)
    then show ?thesis by (simp add: fs_Next_def Let_def pre held_DropPending [OF assms])
  next
    case (Inr v)
    then have "snd (fs_Next s) = ?d\<lparr>fs_Pending := fv_Consumed v\<rparr>" by (simp add: fs_Next_def Let_def pre)
    then have "held (snd (fs_Next s)) = drop (fv_Consumed v) (take (fs_Size ?d) (fs_Storage ?d))"
      by (simp only: held_def) (simp add: drop_take)
    with Inr show ?thesis by (simp add: pre)
  qed
qed

lemma RaiseLimit_ok:
  assumes "stream_ok s"
  shows "stream_ok (RaiseLimit mx s)" and "held (RaiseLimit mx s) = held s"
    and "fs_Capacity s \<le> fs_Capacity (RaiseLimit mx s)"
proof -
  have "unat (fs_MaxBodyLength s) \<le> unat (max mx (fs_MaxBodyLength s))"
    by (simp add: word_le_nat_alt [symmetric])
  then show grow: "fs_Capacity s \<le> fs_Capacity (RaiseLimit mx s)"
    using assms by (auto simp: RaiseLimit_def stream_ok_def)
  with assms show "stream_ok (RaiseLimit mx s)"
    unfolding stream_ok_def RaiseLimit_def ApplyLimit_MaxBodyLength by auto
  show "held (RaiseLimit mx s) = held s"
    by (simp add: RaiseLimit_def held_def)
qed

subsection \<open>The stream against its specification\<close>

text \<open>
  What the frames of a byte sequence are, with no stream and no buffer: cut frames off the front
  until one is incomplete or refused. The answer is the frames, the bytes left, and why it stopped.
\<close>

function split_frames :: "u32 \<Rightarrow> bytes \<Rightarrow> FrameView list \<times> bytes \<times> EProtoError" where
  "split_frames mx buf =
     (case ReadFrame buf mx of
        Inl e \<Rightarrow> ([], buf, e)
      | Inr v \<Rightarrow> (let (vs, rest, e) = split_frames mx (drop (fv_Consumed v) buf) in (v # vs, rest, e)))"
  by pat_completeness auto
termination
proof (relation "measure (\<lambda>(mx, buf). length buf)", goal_cases)
  case (2 mx buf v)
  then show ?case using ReadFrame_consumed [of buf mx v] by (auto simp: size_defs)
qed simp

declare split_frames.simps [simp del]

text \<open>The loop a connection runs on its stream: take frames until there is none.\<close>

function fs_drain :: "FrameStream \<Rightarrow> FrameView list \<times> FrameStream \<times> EProtoError option" where
  "fs_drain s =
     (case fs_Next s of
        (Inl e, s') \<Rightarrow> ([], s', Some e)
      | (Inr None, s') \<Rightarrow> ([], s', None)
      | (Inr (Some v), s') \<Rightarrow> (let (vs, s'', e) = fs_drain s' in (v # vs, s'', e)))"
  by pat_completeness auto
termination
proof (relation "measure Buffered", goal_cases)
  case (2 s r s' w v)
  let ?d = "DropPending s"
  have v: "ReadFrame (take (fs_Size ?d) (fs_Storage ?d)) (fs_MaxBodyLength s) = Inr v"
    and s': "s' = ?d\<lparr>fs_Pending := fv_Consumed v\<rparr>"
    using 2 by (auto simp: fs_Next_def Let_def split: sum.splits if_splits)
  have "HEADER_SIZE < fv_Consumed v" "fv_Consumed v \<le> fs_Size ?d"
    using ReadFrame_consumed [OF v] by auto
  then show ?case by (simp add: s' Buffered_def [of "_\<lparr>fs_Pending := _\<rparr>"] DropPending_size)
qed simp

declare fs_drain.simps [simp del]

lemma fs_drain_split:
  assumes "stream_ok s" and "split_frames (fs_MaxBodyLength s) (held s) = (vs, rest, e)"
  shows "\<exists>s'. fs_drain s = (vs, s', if e = Truncated then None else Some e) \<and>
           stream_ok s' \<and> held s' = rest \<and> fs_MaxBodyLength s' = fs_MaxBodyLength s"
  using assms
proof (induction s arbitrary: vs rule: fs_drain.induct)
  case (1 s)
  note N = fs_Next_held [OF "1.prems"(1)]
  obtain r s' where next': "fs_Next s = (r, s')" by (cases "fs_Next s")
  have N': "stream_ok s'" "fs_MaxBodyLength s' = fs_MaxBodyLength s" using N next' by auto
  show ?case
  proof (cases "ReadFrame (held s) (fs_MaxBodyLength s)")
    case (Inl e')
    then have "vs = [] \<and> rest = held s \<and> e = e'" using "1.prems"(2) by (simp add: split_frames.simps)
    then show ?thesis using Inl N next' by (auto simp: fs_drain.simps [of s])
  next
    case (Inr v)
    obtain us where us: "split_frames (fs_MaxBodyLength s) (drop (fv_Consumed v) (held s)) = (us, rest, e)"
      and vs: "vs = v # us"
      using "1.prems"(2) Inr by (auto simp: split_frames.simps [of _ "held s"] split: prod.splits)
    have r: "r = Inr (Some v)" and h: "held s' = drop (fv_Consumed v) (held s)"
      using N Inr next' by auto
    have "\<exists>s''. fs_drain s' = (us, s'', if e = Truncated then None else Some e) \<and>
           stream_ok s'' \<and> held s'' = rest \<and> fs_MaxBodyLength s'' = fs_MaxBodyLength s'"
      using "1.IH" next' r N' us h by auto
    then show ?thesis using next' r vs N' by (auto simp: fs_drain.simps [of s])
  qed
qed

lemma split_frames_append:
  assumes "split_frames mx a = (vs, rest, Truncated)"
  shows "split_frames mx (a @ b) =
           (let (us, rest', e) = split_frames mx (rest @ b) in (vs @ us, rest', e))"
  using assms
proof (induction mx a arbitrary: vs rule: split_frames.induct)
  case (1 mx a)
  show ?case
  proof (cases "ReadFrame a mx")
    case (Inl e)
    then show ?thesis using "1.prems" by (simp add: split_frames.simps [of _ a])
  next
    case (Inr v)
    obtain us where us: "split_frames mx (drop (fv_Consumed v) a) = (us, rest, Truncated)" and vs: "vs = v # us"
      using "1.prems" Inr by (auto simp: split_frames.simps [of _ a] split: prod.splits)
    have "ReadFrame (a @ b) mx = Inr v" using Inr ReadFrame_append [of a mx b] by simp
    moreover have "drop (fv_Consumed v) (a @ b) = drop (fv_Consumed v) a @ b"
      using ReadFrame_consumed [OF Inr] by simp
    ultimately show ?thesis
      using "1.IH" [OF Inr us] vs by (simp add: split_frames.simps [of _ "a @ b"] split: prod.splits)
  qed
qed

lemma split_frames_rest: "split_frames mx a = (vs, rest, e) \<Longrightarrow> split_frames mx rest = ([], rest, e)"
proof (induction mx a arbitrary: vs rule: split_frames.induct)
  case (1 mx a)
  show ?case
  proof (cases "ReadFrame a mx")
    case (Inl e')
    then have "rest = a \<and> vs = []" using "1.prems" by (simp add: split_frames.simps [of _ a])
    then show ?thesis using "1.prems" by simp
  next
    case (Inr v)
    then obtain us where "split_frames mx (drop (fv_Consumed v) a) = (us, rest, e)"
      using "1.prems" by (auto simp: split_frames.simps [of _ a] split: prod.splits)
    with Inr show ?thesis by (rule "1.IH")
  qed
qed

text \<open>Feeding chunks and draining after each one.\<close>

fun fs_feed :: "FrameStream \<Rightarrow> bytes list \<Rightarrow> FrameView list \<times> FrameStream \<times> EProtoError option" where
  "fs_feed s [] = ([], s, None)"
| "fs_feed s (c # cs) =
     (case fs_Append c s of
        (Inl e, s') \<Rightarrow> ([], s', Some e)
      | (Inr u, s') \<Rightarrow>
          (case fs_drain s' of
             (vs, s'', Some e) \<Rightarrow> (vs, s'', Some e)
           | (vs, s'', None) \<Rightarrow> (let (us, t, e) = fs_feed s'' cs in (vs @ us, t, e))))"

lemma fs_feed_split:
  assumes "stream_ok s" and "split_frames (fs_MaxBodyLength s) (held s) = ([], held s, Truncated)"
    and "fs_feed s cs = (vs, s', None)"
  shows "split_frames (fs_MaxBodyLength s) (held s @ concat cs) = (vs, held s', Truncated)"
  using assms
proof (induction cs arbitrary: s vs)
  case Nil
  then show ?case by simp
next
  case (Cons c cs)
  obtain t where app: "fs_Append c s = (Inr (), t)"
    using Cons.prems(3) by (auto split: prod.splits sum.splits)
  note A = fs_Append_Inr [OF Cons.prems(1) app]
  obtain us rest e where sp: "split_frames (fs_MaxBodyLength s) (held s @ c) = (us, rest, e)"
    by (metis prod_cases3)
  obtain t' where dr: "fs_drain t = (us, t', if e = Truncated then None else Some e)"
    "stream_ok t'" "held t' = rest" "fs_MaxBodyLength t' = fs_MaxBodyLength s"
    using fs_drain_split [OF A(1)] sp A by auto
  with Cons.prems(3) app have e: "e = Truncated" by (auto split: if_splits prod.splits)
  obtain ws where ws: "fs_feed t' cs = (ws, s', None)" "vs = us @ ws"
    using Cons.prems(3) app dr e by (auto split: prod.splits)
  have "split_frames (fs_MaxBodyLength s) rest = ([], rest, Truncated)"
    using split_frames_rest [OF sp] e by simp
  then have "split_frames (fs_MaxBodyLength s) (rest @ concat cs) = (ws, held s', Truncated)"
    using Cons.IH [OF dr(2) _ ws(1)] dr by simp
  then show ?case using split_frames_append [of _ "held s @ c" us rest "concat cs"] sp e ws by simp
qed

end
