(* ===== verification/Wire_Message.thy ===== *)
theory Wire_Message
  imports Wire_Frame
begin

text \<open>
  \<^verbatim>\<open>src/wire/message.cpp\<close>, first half: message types, options (TLV) and the cleartext messages of
  the handshake and of the bootstrap.

  Fixed-size arrays are byte lists whose length is part of the message's well-formedness
  (\<open>..._wf\<close>, what the C++ types guarantee); \<open>..._ok\<close> is what the protocol demands on top. A
  \<open>TlvList\<close> or a \<open>BootstrapEnvironment\<close> (an array and a count) is the list of its occupied slots.

  The locale \<open>message_codec\<close> is the contract between a \<open>Write...\<close> and its \<open>Parse...\<close>: the
  writer appends the type byte and the body, the parser inverts it, and nothing but the canonical
  body is accepted. Every message of the protocol is an interpretation of it.
\<close>

unbundle bit_operations_syntax

subsection \<open>The codec contract\<close>

locale message_codec =
  fixes Write :: "'m \<Rightarrow> writer"
    and Parse :: "'m reader"
    and tag :: byte
    and body :: "'m \<Rightarrow> bytes"
    and ok :: "'m \<Rightarrow> bool"
  assumes write_ok: "ok m \<Longrightarrow> writes (Write m) (tag # body m)"
    and parse_ok: "ok m \<Longrightarrow> parses_all Parse (body m) m"
    and parse_only: "Parse (rd_at pre bs) = (Inr m, r') \<Longrightarrow> ok m \<and> bs = body m"
begin

lemma body_inj: "ok m \<Longrightarrow> ok m' \<Longrightarrow> body m = body m' \<Longrightarrow> m = m'"
  by (metis Inr_inject Pair_inject parse_ok parses_allD)

lemma parse_iff: "fst (Parse (mk_reader bs)) = Inr m \<longleftrightarrow> ok m \<and> bs = body m"
proof
  assume "fst (Parse (mk_reader bs)) = Inr m"
  then show "ok m \<and> bs = body m"
    by (cases "Parse (mk_reader bs)") (auto simp: mk_reader_rd_at dest: parse_only)
next
  assume "ok m \<and> bs = body m"
  then show "fst (Parse (mk_reader bs)) = Inr m" using parses_allD [OF parse_ok] by auto
qed

lemma roundtrip:
  assumes "ok m" and "length (tag # body m) \<le> length out"
  shows "\<exists>w. Write m (mk_writer out) = (Inr (), w) \<and> Written w = tag # body m \<and>
             fst (Parse (mk_reader (tl (Written w)))) = Inr m"
  using writes_ok [OF write_ok [OF assms(1)] assms(2)] parse_iff [of "body m" m] assms(1) by auto

lemma write_size:
  "ok m \<Longrightarrow> fst (Write m (mk_writer out)) = Inr () \<longleftrightarrow> Suc (length (body m)) \<le> length out"
  using writes_ok [OF write_ok, of m out] writes_short [OF write_ok, of m out]
  by (cases "Suc (length (body m)) \<le> length out") auto

end

text \<open>A codec whose writer checks what the parser would refuse, and refuses it untouched.\<close>

locale checked_codec = message_codec +
  fixes wf :: "'a \<Rightarrow> bool"
  assumes write_refuses: "wf m \<Longrightarrow> \<not> ok m \<Longrightarrow> \<exists>e. \<forall>w. Write m w = (Inl e, w)"
begin

lemma write_total:
  "wf m \<Longrightarrow> (ok m \<and> writes (Write m) (tag # body m)) \<or> (\<not> ok m \<and> (\<exists>e. \<forall>w. Write m w = (Inl e, w)))"
  using write_ok write_refuses by blast

end

subsection \<open>Helpers of message.cpp\<close>

definition ascii :: "string \<Rightarrow> bytes" where
  "ascii s = map of_char s"

definition KEY_SIZE :: nat where [size_defs]: "KEY_SIZE = 32"
definition PUBLIC_KEY_SIZE :: nat where [size_defs]: "PUBLIC_KEY_SIZE = 32"
definition NONCE_SIZE :: nat where [size_defs]: "NONCE_SIZE = 24"
definition TAG_SIZE :: nat where [size_defs]: "TAG_SIZE = 16"
definition MAC_SIZE :: nat where [size_defs]: "MAC_SIZE = 32"
definition HANDSHAKE_NONCE_SIZE :: nat where [size_defs]: "HANDSHAKE_NONCE_SIZE = 16"
definition BOOTSTRAP_NONCE_SIZE :: nat where [size_defs]: "BOOTSTRAP_NONCE_SIZE = 32"
definition SESSION_ID_SIZE :: nat where [size_defs]: "SESSION_ID_SIZE = 16"

definition ReadArray :: "nat \<Rightarrow> bytes reader" where
  "ReadArray tSize = ReadBytes tSize"

definition RequireExhausted :: "unit reader" where
  "RequireExhausted r = (if \<not> Exhausted r then (Inl MalformedField, r) else (Inr (), r))"

text \<open>\<open>parse_end x\<close>: the usual end of a parser, \<open>RequireExhausted\<close> and the message.\<close>

abbreviation parse_end :: "'a \<Rightarrow> 'a reader" where
  "parse_end x \<equiv> thenE RequireExhausted (returnE x)"

lemma parses_ReadArray [parse_intros]: "length bs = n \<Longrightarrow> parses (ReadArray n) bs bs"
  by (simp add: ReadArray_def parses_ReadBytes)

lemma accepts_ReadArray [accept_intros]: "accepts (ReadArray n) (\<lambda>x c. x = c \<and> length c = n)"
  unfolding ReadArray_def by (rule accepts_ReadBytes)

lemma parses_all_end [parse_intros]: "parses_all (parse_end x) [] x"
  by (simp add: parses_all_def RequireExhausted_def thenE_def bindE_def)

text \<open>A parser that, when it succeeds, has consumed everything and accepts only \<open>R\<close>.\<close>

definition accepts_all :: "'a reader \<Rightarrow> ('a \<Rightarrow> bytes \<Rightarrow> bool) \<Rightarrow> bool" where
  "accepts_all P R \<longleftrightarrow> (\<forall>pre bs x r'. P (rd_at pre bs) = (Inr x, r') \<longrightarrow> R x bs \<and> r' = rd_at (pre @ bs) [])"

lemma accepts_all_bind:
  assumes "accepts A R" and "\<And>x. accepts_all (f x) (S x)"
  shows "accepts_all (bindE A f) (\<lambda>y c. \<exists>x c1 c2. c = c1 @ c2 \<and> R x c1 \<and> S x y c2)"
  unfolding accepts_all_def
proof (intro allI impI)
  fix pre bs y r''
  assume "bindE A f (rd_at pre bs) = (Inr y, r'')"
  then obtain x r' where A: "A (rd_at pre bs) = (Inr x, r')" and f: "f x r' = (Inr y, r'')"
    by (rule bindE_InrE)
  from acceptsD [OF assms(1) A] obtain c1 t1 where 1: "bs = c1 @ t1" "R x c1" "r' = rd_at (pre @ c1) t1"
    by blast
  with f assms(2) have "S x y t1 \<and> r'' = rd_at ((pre @ c1) @ t1) []"
    unfolding accepts_all_def by blast
  with 1 show "(\<exists>x c1 c2. bs = c1 @ c2 \<and> R x c1 \<and> S x y c2) \<and> r'' = rd_at (pre @ bs) []"
    by auto
qed

lemma accepts_all_check:
  "accepts_all k S \<Longrightarrow> accepts_all (thenE (checkE b e) k) (\<lambda>y c. b \<and> S y c)"
  by (auto simp: accepts_all_def thenE_def bindE_def split: if_splits)

lemma accepts_all_end: "accepts_all (parse_end x) (\<lambda>y c. y = x \<and> c = [])"
  by (auto simp: accepts_all_def RequireExhausted_def thenE_def bindE_def split: if_splits)

lemma accepts_all_if:
  "accepts_all A R \<Longrightarrow> accepts_all B S \<Longrightarrow>
   accepts_all (if p then A else B) (\<lambda>x c. (p \<longrightarrow> R x c) \<and> (\<not> p \<longrightarrow> S x c))"
  by (simp add: accepts_all_def)

lemma accepts_allD: "accepts_all P R \<Longrightarrow> P (rd_at pre bs) = (Inr x, r') \<Longrightarrow> R x bs"
  by (simp add: accepts_all_def)

lemmas accept_all_intros = accepts_all_bind accepts_all_check accepts_all_end

subsection \<open>Message types\<close>

datatype EMessageType =
    Hello | Challenge | Auth | AuthOk | Resume | BootstrapOffer | BootstrapAccept
  | Data | Ack | Resize | Ping | Pong | SessionEnd
  | GridBegin | GridChunk | GridEnd | GridApplied
  | MuxRegister | MuxRegistered | MuxRefused | MuxHandoff

fun type_code :: "EMessageType \<Rightarrow> byte" where
  "type_code Hello = 0x01" | "type_code Challenge = 0x02" | "type_code Auth = 0x03"
| "type_code AuthOk = 0x04" | "type_code Resume = 0x05" | "type_code BootstrapOffer = 0x06"
| "type_code BootstrapAccept = 0x07" | "type_code Data = 0x10" | "type_code Ack = 0x11"
| "type_code Resize = 0x12" | "type_code Ping = 0x13" | "type_code Pong = 0x14"
| "type_code SessionEnd = 0x15" | "type_code GridBegin = 0x16" | "type_code GridChunk = 0x17"
| "type_code GridEnd = 0x18" | "type_code GridApplied = 0x19" | "type_code MuxRegister = 0x20"
| "type_code MuxRegistered = 0x21" | "type_code MuxRefused = 0x22" | "type_code MuxHandoff = 0x23"

definition known_types :: "EMessageType list" where
  "known_types = [Hello, Challenge, Auth, AuthOk, Resume, BootstrapOffer, BootstrapAccept,
     Data, Ack, Resize, Ping, Pong, SessionEnd, GridBegin, GridChunk, GridEnd, GridApplied,
     MuxRegister, MuxRegistered, MuxRefused, MuxHandoff]"

text \<open>The switch of \<open>ParseMessageType\<close>.\<close>

definition ParseMessageType :: "EMessageType reader" where
  "ParseMessageType = bindE ReadU8 (\<lambda>t.
     case find (\<lambda>ty. type_code ty = t) known_types of
       Some ty \<Rightarrow> returnE ty
     | None \<Rightarrow> throwE UnknownMessageType)"

definition WriteMessageType :: "EMessageType \<Rightarrow> writer" where
  "WriteMessageType ty = WriteU8 (type_code ty)"

lemma known_types_all: "ty \<in> set known_types"
  by (cases ty) (simp_all add: known_types_def)

lemma find_type_code: "find (\<lambda>x. type_code x = type_code ty) known_types = Some ty"
  by (cases ty) (simp_all add: known_types_def)

lemma type_code_inject: "type_code a = type_code b \<longleftrightarrow> a = b"
  by (metis find_type_code option.inject)

lemma parses_ParseMessageType [parse_intros]: "parses ParseMessageType [type_code ty] ty"
proof -
  have "parses ParseMessageType ([type_code ty] @ []) ty"
    unfolding ParseMessageType_def
    by (rule parses_bind, rule parses_ReadU8) (simp add: find_type_code parse_intros)
  then show ?thesis by simp
qed

lemma accepts_ParseMessageType [accept_intros]:
  "accepts ParseMessageType (\<lambda>ty c. c = [type_code ty])"
  unfolding ParseMessageType_def
proof (rule accepts_mono [OF accepts_bind [OF accepts_ReadU8, where
        S = "\<lambda>t ty c. find (\<lambda>x. type_code x = t) known_types = Some ty \<and> c = []"]])
  fix t
  show "accepts (case find (\<lambda>x. type_code x = t) known_types of Some ty \<Rightarrow> returnE ty
                 | None \<Rightarrow> throwE UnknownMessageType)
          (\<lambda>ty c. find (\<lambda>x. type_code x = t) known_types = Some ty \<and> c = [])"
    by (auto simp: accepts_def split: option.splits)
qed (auto simp: find_Some_iff)

lemma writes_WriteMessageType [write_intros]: "writes (WriteMessageType ty) [type_code ty]"
  by (simp add: WriteMessageType_def write_intros)

lemma writes_typed: "writes B bs \<Longrightarrow> writes (thenE (WriteMessageType ty) B) (type_code ty # bs)"
  using writes_then [OF writes_WriteMessageType [of ty], of B bs] by simp

subsection \<open>Options\<close>

definition TLV_CRITICAL_BIT :: u16 where "TLV_CRITICAL_BIT = 0x8000"

record TlvOption =
  opt_Type :: u16
  opt_Value :: bytes

type_synonym TlvList = "TlvOption list"

definition IsCritical :: "TlvOption \<Rightarrow> bool" where
  "IsCritical opt \<longleftrightarrow> opt_Type opt AND TLV_CRITICAL_BIT \<noteq> 0"

definition TlvList_Append :: "TlvOption \<Rightarrow> TlvList \<Rightarrow> TlvList proto_result" where
  "TlvList_Append opt items =
     (if length (opt_Value opt) > MAX_TLV_VALUE_SIZE then Inl LengthLimitExceeded
      else if \<exists>present \<in> set items. opt_Type present = opt_Type opt then Inl MalformedField
      else if length items = MAX_TLV_OPTIONS then Inl LengthLimitExceeded
      else Inr (items @ [opt]))"

definition ParseOption :: "TlvOption reader" where
  "ParseOption =
     bindE ReadU16BE (\<lambda>type.
     bindE ReadU16BE (\<lambda>len.
     bindE (ReadBytes (unat len)) (\<lambda>value.
     returnE \<lparr>opt_Type = type, opt_Value = value\<rparr>)))"

lemma ParseOption_Remaining: "ParseOption r = (Inr opt, r') \<Longrightarrow> rd_Remaining r' < rd_Remaining r"
  by (auto simp: ParseOption_def ReadU16BE_def ReadBytes_def rd_Remaining_def elim!: bindE_InrE
      split: if_splits)

text \<open>The \<open>while (!reader.Exhausted())\<close> loop of \<open>ParseOptions\<close>; every turn consumes at least four bytes.\<close>

function ParseOptionsLoop :: "TlvList \<Rightarrow> TlvList reader" where
  "ParseOptionsLoop options r =
     (if Exhausted r then (Inr options, r)
      else case ParseOption r of
        (Inl e, r') \<Rightarrow> (Inl e, r')
      | (Inr opt, r') \<Rightarrow>
          if IsCritical opt then (Inl UnsupportedCriticalOption, r')
          else case TlvList_Append opt options of
            Inl e \<Rightarrow> (Inl e, r')
          | Inr options' \<Rightarrow> ParseOptionsLoop options' r')"
  by pat_completeness auto
termination
  by (relation "measure (\<lambda>(options, r). rd_Remaining r)") (auto dest: ParseOption_Remaining [OF sym])

declare ParseOptionsLoop.simps [simp del]

definition ParseOptions :: "TlvList reader" where
  "ParseOptions = ParseOptionsLoop []"

definition WriteOption :: "TlvOption \<Rightarrow> writer" where
  "WriteOption opt =
     thenE (WriteU16BE (opt_Type opt))
    (thenE (WriteU16BE (of_nat (length (opt_Value opt))))
    (WriteBytes (opt_Value opt)))"

fun WriteOptions :: "TlvList \<Rightarrow> writer" where
  "WriteOptions [] = returnE ()"
| "WriteOptions (opt # opts) = thenE (WriteOption opt) (WriteOptions opts)"

definition option_bytes :: "TlvOption \<Rightarrow> bytes" where
  "option_bytes opt = EncodeBE (opt_Type opt) @ EncodeBE (of_nat (length (opt_Value opt)) :: u16) @ opt_Value opt"

definition options_bytes :: "TlvList \<Rightarrow> bytes" where
  "options_bytes opts = concat (map option_bytes opts)"

text \<open>What \<open>Append\<close> keeps true of a list, and what \<open>ParseOptions\<close> adds: nothing critical.\<close>

definition TlvList_ok :: "TlvList \<Rightarrow> bool" where
  "TlvList_ok opts \<longleftrightarrow> length opts \<le> MAX_TLV_OPTIONS \<and> distinct (map opt_Type opts) \<and>
     (\<forall>opt \<in> set opts. length (opt_Value opt) \<le> MAX_TLV_VALUE_SIZE)"

definition options_ok :: "TlvList \<Rightarrow> bool" where
  "options_ok opts \<longleftrightarrow> TlvList_ok opts \<and> (\<forall>opt \<in> set opts. \<not> IsCritical opt)"

lemma TlvList_ok_Nil [simp]: "TlvList_ok []"
  by (simp add: TlvList_ok_def)

lemma options_ok_Nil [simp]: "options_ok []"
  by (simp add: options_ok_def)

lemma TlvList_Append_ok: "TlvList_ok opts \<Longrightarrow> TlvList_Append opt opts = Inr opts' \<Longrightarrow> TlvList_ok opts'"
  by (fastforce simp: TlvList_Append_def TlvList_ok_def split: if_splits)

lemma TlvList_Append_snoc: "TlvList_ok (opts @ [opt]) \<Longrightarrow> TlvList_Append opt opts = Inr (opts @ [opt])"
  by (auto simp: TlvList_Append_def TlvList_ok_def image_iff)

lemma TlvList_ok_prefix: "TlvList_ok (a @ b) \<Longrightarrow> TlvList_ok a"
  by (auto simp: TlvList_ok_def)

lemma TlvList_Append_eq: "TlvList_Append opt opts = Inr opts' \<Longrightarrow> opts' = opts @ [opt]"
  by (auto simp: TlvList_Append_def split: if_splits)

lemma writes_WriteOptions [write_intros]: "writes (WriteOptions opts) (options_bytes opts)"
proof (induction opts)
  case Nil
  then show ?case by (simp add: options_bytes_def writes_def)
next
  case (Cons opt opts)
  have "writes (WriteOption opt) (option_bytes opt)"
    unfolding WriteOption_def option_bytes_def by (rule writes_then write_intros)+
  from writes_then [OF this Cons.IH] show ?case by (simp add: options_bytes_def)
qed

lemma parses_ParseOption:
  assumes "length (opt_Value opt) \<le> MAX_TLV_VALUE_SIZE"
  shows "parses ParseOption (option_bytes opt) opt"
proof -
  let ?n = "of_nat (length (opt_Value opt)) :: u16"
  have n: "unat ?n = length (opt_Value opt)"
    using assms by (intro unat_of_nat_small) (simp add: size_defs)
  have "parses ParseOption (EncodeBE (opt_Type opt) @ EncodeBE ?n @ opt_Value opt @ [])
          \<lparr>opt_Type = opt_Type opt, opt_Value = opt_Value opt\<rparr>"
    unfolding ParseOption_def
    by (rule parses_bind parses_ReadU16BE)+ (rule parses_ReadBytes parses_return parses_bind | simp add: n)+
  then show ?thesis by (cases opt) (simp add: option_bytes_def)
qed

lemma accepts_ParseOption:
  "accepts ParseOption (\<lambda>opt c. c = option_bytes opt \<and> length (opt_Value opt) \<le> MAX_TLV_VALUE_SIZE)"
  unfolding ParseOption_def
proof (rule accepts_mono [OF accepts_bind [OF accepts_ReadU16BE
        accepts_bind [OF accepts_ReadU16BE accepts_bind [OF accepts_ReadBytes accepts_return]]]])
  fix opt c
  assume "\<exists>t c1 c2. c = c1 @ c2 \<and> c1 = EncodeBE (t :: u16) \<and>
     (\<exists>n c1 c2'. c2 = c1 @ c2' \<and> c1 = EncodeBE (n :: u16) \<and>
       (\<exists>v c1 c2. c2' = c1 @ c2 \<and> (v = c1 \<and> length c1 = unat n) \<and>
          opt = \<lparr>opt_Type = t, opt_Value = v\<rparr> \<and> c2 = []))"
  then obtain t n v where "c = EncodeBE t @ EncodeBE (n :: u16) @ v" "length v = unat n"
      "opt = \<lparr>opt_Type = t, opt_Value = v\<rparr>"
    by auto
  then show "c = option_bytes opt \<and> length (opt_Value opt) \<le> MAX_TLV_VALUE_SIZE"
    using unat_lt_u16 [of n] by (simp add: option_bytes_def size_defs)
qed

lemma ParseOptionsLoop_ok:
  "options_ok (acc @ opts) \<Longrightarrow>
   ParseOptionsLoop acc (rd_at pre (options_bytes opts)) = (Inr (acc @ opts), rd_at (pre @ options_bytes opts) [])"
proof (induction opts arbitrary: acc pre)
  case Nil
  then show ?case by (simp add: ParseOptionsLoop.simps options_bytes_def)
next
  case (Cons opt opts)
  have "parses ParseOption (option_bytes opt) opt"
    using Cons.prems by (intro parses_ParseOption) (auto simp: options_ok_def TlvList_ok_def)
  then have one: "ParseOption (rd_at pre (options_bytes (opt # opts))) =
      (Inr opt, rd_at (pre @ option_bytes opt) (options_bytes opts))"
    by (simp add: parses_def options_bytes_def)
  have app: "TlvList_Append opt acc = Inr (acc @ [opt])" and crit: "\<not> IsCritical opt"
    using Cons.prems TlvList_ok_prefix [of "acc @ [opt]" opts]
    by (auto simp: options_ok_def intro: TlvList_Append_snoc)
  have "options_bytes (opt # opts) \<noteq> []"
    by (simp add: options_bytes_def option_bytes_def) (metis length_EncodeBE_widths(2) list.size(3) zero_neq_numeral)
  then show ?case
    using one app crit Cons.IH [of "acc @ [opt]"] Cons.prems
    by (simp add: ParseOptionsLoop.simps [of _ "rd_at _ _"]) (simp add: options_bytes_def)
qed

lemma ParseOptionsLoop_only:
  "ParseOptionsLoop acc (rd_at pre bs) = (Inr opts', r') \<Longrightarrow> options_ok acc \<Longrightarrow>
   options_ok opts' \<and> (\<exists>opts. opts' = acc @ opts \<and> bs = options_bytes opts) \<and> r' = rd_at (pre @ bs) []"
proof (induction "length bs" arbitrary: acc pre bs rule: less_induct)
  case (less bs acc pre)
  show ?case
  proof (cases "bs = []")
    case True
    with less.prems show ?thesis by (auto simp: ParseOptionsLoop.simps options_bytes_def)
  next
    case False
    then obtain opt r1 acc1 where opt: "ParseOption (rd_at pre bs) = (Inr opt, r1)"
        and crit: "\<not> IsCritical opt" and app: "TlvList_Append opt acc = Inr acc1"
        and rec: "ParseOptionsLoop acc1 r1 = (Inr opts', r')"
      using less.prems(1) by (auto simp: ParseOptionsLoop.simps [of acc] split: prod.splits sum.splits if_splits)
    obtain c t where c: "bs = c @ t" "c = option_bytes opt" "r1 = rd_at (pre @ c) t"
      using acceptsD [OF accepts_ParseOption opt] by blast
    have ok: "options_ok acc1"
      using less.prems(2) crit app TlvList_Append_ok TlvList_Append_eq [OF app] by (auto simp: options_ok_def)
    have "options_ok opts' \<and> (\<exists>opts. opts' = acc1 @ opts \<and> t = options_bytes opts) \<and> r' = rd_at ((pre @ c) @ t) []"
      using less.hyps [of t acc1 "pre @ c"] c rec ok by (simp add: option_bytes_def)
    then show ?thesis using c TlvList_Append_eq [OF app] by (auto simp: options_bytes_def)
  qed
qed

lemma parses_all_ParseOptions [parse_intros]: "options_ok opts \<Longrightarrow> parses_all ParseOptions (options_bytes opts) opts"
  using ParseOptionsLoop_ok [of "[]" opts] by (simp add: parses_all_def ParseOptions_def)

lemma accepts_all_ParseOptions: "accepts_all ParseOptions (\<lambda>opts c. options_ok opts \<and> c = options_bytes opts)"
  using ParseOptionsLoop_only [of "[]"] by (fastforce simp: accepts_all_def ParseOptions_def)

subsection \<open>Rewriting a parser along the bytes it is given\<close>

named_theorems read_simps \<open>each read on the bytes it expects\<close>

lemma read_U8 [read_simps]: "ReadU8 (rd_at pre (b # t)) = (Inr b, rd_at (pre @ [b]) t)"
  using parses_ReadU8 [of b] by (simp add: parses_def)

lemma read_U16 [read_simps]:
  "ReadU16BE (rd_at pre (EncodeBE v @ t)) = (Inr v, rd_at (pre @ EncodeBE v) t)"
  "ReadU16BE (rd_at pre (EncodeBE v)) = (Inr v, rd_at (pre @ EncodeBE v) [])"
  using parses_ReadU16BE [of v] unfolding parses_def by (simp, metis append_Nil2)

lemma read_U32 [read_simps]:
  "ReadU32BE (rd_at pre (EncodeBE v @ t)) = (Inr v, rd_at (pre @ EncodeBE v) t)"
  "ReadU32BE (rd_at pre (EncodeBE v)) = (Inr v, rd_at (pre @ EncodeBE v) [])"
  using parses_ReadU32BE [of v] unfolding parses_def by (simp, metis append_Nil2)

lemma read_U64 [read_simps]:
  "ReadU64BE (rd_at pre (EncodeBE v @ t)) = (Inr v, rd_at (pre @ EncodeBE v) t)"
  "ReadU64BE (rd_at pre (EncodeBE v)) = (Inr v, rd_at (pre @ EncodeBE v) [])"
  using parses_ReadU64BE [of v] unfolding parses_def by (simp, metis append_Nil2)

lemma read_Bytes [read_simps]:
  "length x = n \<Longrightarrow> ReadBytes n (rd_at pre (x @ t)) = (Inr x, rd_at (pre @ x) t)"
  "length x = n \<Longrightarrow> ReadBytes n (rd_at pre x) = (Inr x, rd_at (pre @ x) [])"
  by (auto simp: ReadBytes_rd_at)

lemma read_Array [read_simps]:
  "length x = n \<Longrightarrow> ReadArray n (rd_at pre (x @ t)) = (Inr x, rd_at (pre @ x) t)"
  "length x = n \<Longrightarrow> ReadArray n (rd_at pre x) = (Inr x, rd_at (pre @ x) [])"
  by (simp_all add: ReadArray_def read_simps)

lemma read_Exhausted [read_simps]: "RequireExhausted (rd_at pre []) = (Inr (), rd_at pre [])"
  by (simp add: RequireExhausted_def)

lemma read_Options [read_simps]:
  "options_ok opts \<Longrightarrow> ParseOptions (rd_at pre (options_bytes opts)) = (Inr opts, rd_at (pre @ options_bytes opts) [])"
  using parses_all_ParseOptions by (simp add: parses_all_def)

lemmas parse_simps = parses_all_def bindE_def thenE_def read_simps

lemma accepts_all_mono:
  "accepts_all A R \<Longrightarrow> (\<And>x c. R x c \<Longrightarrow> S x c) \<Longrightarrow> accepts_all A S"
  by (simp add: accepts_all_def)

lemma accepts_all_bind_return:
  "accepts_all A R \<Longrightarrow> accepts_all (bindE A (\<lambda>x. returnE (g x))) (\<lambda>y c. \<exists>x. y = g x \<and> R x c)"
  unfolding accepts_all_def by (blast elim!: bindE_InrE dest: returnE_apply [THEN sym, THEN trans])

lemmas accept_rules = accepts_all_check accepts_all_end accepts_all_bind_return
  accepts_all_ParseOptions accepts_all_bind accept_intros

subsection \<open>Handshake messages\<close>

definition HELLO_MAGIC :: bytes where "HELLO_MAGIC = ascii ''ZET1''"

lemma length_HELLO_MAGIC [simp]: "length HELLO_MAGIC = 4"
  by (simp add: HELLO_MAGIC_def ascii_def)

record HelloMessage =
  he_VersionMin :: u16
  he_VersionMax :: u16
  he_Id :: bytes
  he_ClientNonce :: bytes
  he_Options :: TlvList

definition ParseHello :: "HelloMessage reader" where
  "ParseHello =
     bindE (ReadBytes (length HELLO_MAGIC)) (\<lambda>magic.
     thenE (checkE (magic = HELLO_MAGIC) MalformedField)
    (bindE ReadU16BE (\<lambda>versionMin.
     bindE ReadU16BE (\<lambda>versionMax.
     thenE (checkE (\<not> versionMin > versionMax) MalformedField)
    (bindE (ReadArray SESSION_ID_SIZE) (\<lambda>id.
     bindE (ReadArray HANDSHAKE_NONCE_SIZE) (\<lambda>nonce.
     bindE ParseOptions (\<lambda>options.
     returnE \<lparr>he_VersionMin = versionMin, he_VersionMax = versionMax, he_Id = id,
              he_ClientNonce = nonce, he_Options = options\<rparr>))))))))"

definition WriteHello :: "HelloMessage \<Rightarrow> writer" where
  "WriteHello m =
     thenE (WriteMessageType Hello)
    (thenE (WriteBytes HELLO_MAGIC)
    (thenE (WriteU16BE (he_VersionMin m))
    (thenE (WriteU16BE (he_VersionMax m))
    (thenE (WriteBytes (he_Id m))
    (thenE (WriteBytes (he_ClientNonce m))
    (WriteOptions (he_Options m)))))))"

definition Hello_body :: "HelloMessage \<Rightarrow> bytes" where
  "Hello_body m = HELLO_MAGIC @ EncodeBE (he_VersionMin m) @ EncodeBE (he_VersionMax m) @
     he_Id m @ he_ClientNonce m @ options_bytes (he_Options m)"

definition Hello_ok :: "HelloMessage \<Rightarrow> bool" where
  "Hello_ok m \<longleftrightarrow> he_VersionMin m \<le> he_VersionMax m \<and> length (he_Id m) = SESSION_ID_SIZE \<and>
     length (he_ClientNonce m) = HANDSHAKE_NONCE_SIZE \<and> options_ok (he_Options m)"

lemma writes_WriteHello: "writes (WriteHello m) (type_code Hello # Hello_body m)"
  unfolding WriteHello_def Hello_body_def by (rule writes_typed, (rule writes_then write_intros)+)

lemma accepts_all_ParseHello: "accepts_all ParseHello (\<lambda>m c. Hello_ok m \<and> c = Hello_body m)"
  unfolding ParseHello_def
  by (rule accepts_all_mono, (rule accept_rules)+) (auto simp: Hello_ok_def Hello_body_def)

interpretation hello: message_codec WriteHello ParseHello "type_code Hello" Hello_body Hello_ok
proof
  show "Hello_ok m \<Longrightarrow> parses_all ParseHello (Hello_body m) m" for m
    by (cases m) (auto simp: ParseHello_def Hello_ok_def Hello_body_def parse_simps)
qed (use writes_WriteHello accepts_allD [OF accepts_all_ParseHello] in auto)

record ChallengeMessage =
  ch_Version :: u16
  ch_ServerNonce :: bytes
  ch_Options :: TlvList

definition ParseChallenge :: "ChallengeMessage reader" where
  "ParseChallenge =
     bindE ReadU16BE (\<lambda>version.
     bindE (ReadArray HANDSHAKE_NONCE_SIZE) (\<lambda>nonce.
     bindE ParseOptions (\<lambda>options.
     returnE \<lparr>ch_Version = version, ch_ServerNonce = nonce, ch_Options = options\<rparr>)))"

definition WriteChallenge :: "ChallengeMessage \<Rightarrow> writer" where
  "WriteChallenge m =
     thenE (WriteMessageType Challenge)
    (thenE (WriteU16BE (ch_Version m))
    (thenE (WriteBytes (ch_ServerNonce m))
    (WriteOptions (ch_Options m))))"

definition Challenge_body :: "ChallengeMessage \<Rightarrow> bytes" where
  "Challenge_body m = EncodeBE (ch_Version m) @ ch_ServerNonce m @ options_bytes (ch_Options m)"

definition Challenge_ok :: "ChallengeMessage \<Rightarrow> bool" where
  "Challenge_ok m \<longleftrightarrow> length (ch_ServerNonce m) = HANDSHAKE_NONCE_SIZE \<and> options_ok (ch_Options m)"

lemma writes_WriteChallenge: "writes (WriteChallenge m) (type_code Challenge # Challenge_body m)"
  unfolding WriteChallenge_def Challenge_body_def by (rule writes_typed, (rule writes_then write_intros)+)

lemma accepts_all_ParseChallenge: "accepts_all ParseChallenge (\<lambda>m c. Challenge_ok m \<and> c = Challenge_body m)"
  unfolding ParseChallenge_def
  by (rule accepts_all_mono, (rule accept_rules)+) (auto simp: Challenge_ok_def Challenge_body_def)

interpretation challenge: message_codec WriteChallenge ParseChallenge "type_code Challenge" Challenge_body Challenge_ok
proof
  show "Challenge_ok m \<Longrightarrow> parses_all ParseChallenge (Challenge_body m) m" for m
    by (cases m) (simp add: ParseChallenge_def Challenge_ok_def Challenge_body_def parse_simps)
qed (use writes_WriteChallenge accepts_allD [OF accepts_all_ParseChallenge] in auto)

record AuthMessage =
  au_ClientTag :: bytes

definition ParseAuth :: "AuthMessage reader" where
  "ParseAuth = bindE (ReadArray MAC_SIZE) (\<lambda>tag. parse_end \<lparr>au_ClientTag = tag\<rparr>)"

definition WriteAuth :: "AuthMessage \<Rightarrow> writer" where
  "WriteAuth m = thenE (WriteMessageType Auth) (WriteBytes (au_ClientTag m))"

definition Auth_ok :: "AuthMessage \<Rightarrow> bool" where
  "Auth_ok m \<longleftrightarrow> length (au_ClientTag m) = MAC_SIZE"

lemma writes_WriteAuth: "writes (WriteAuth m) (type_code Auth # au_ClientTag m)"
  unfolding WriteAuth_def by (rule writes_typed, (rule writes_then write_intros)+)

lemma accepts_all_ParseAuth: "accepts_all ParseAuth (\<lambda>m c. Auth_ok m \<and> c = au_ClientTag m)"
  unfolding ParseAuth_def
  by (rule accepts_all_mono, (rule accept_rules)+) (auto simp: Auth_ok_def)

interpretation auth: message_codec WriteAuth ParseAuth "type_code Auth" au_ClientTag Auth_ok
proof
  show "Auth_ok m \<Longrightarrow> parses_all ParseAuth (au_ClientTag m) m" for m
    by (cases m) (simp add: ParseAuth_def Auth_ok_def parse_simps)
qed (use writes_WriteAuth accepts_allD [OF accepts_all_ParseAuth] in auto)

record AuthOkMessage =
  ao_ServerTag :: bytes
  ao_ServerReceiveOffset :: u64

definition ParseAuthOk :: "AuthOkMessage reader" where
  "ParseAuthOk =
     bindE (ReadArray MAC_SIZE) (\<lambda>tag.
     bindE ReadU64BE (\<lambda>offset.
     parse_end \<lparr>ao_ServerTag = tag, ao_ServerReceiveOffset = offset\<rparr>))"

definition WriteAuthOk :: "AuthOkMessage \<Rightarrow> writer" where
  "WriteAuthOk m =
     thenE (WriteMessageType AuthOk)
    (thenE (WriteBytes (ao_ServerTag m))
    (WriteU64BE (ao_ServerReceiveOffset m)))"

definition AuthOk_body :: "AuthOkMessage \<Rightarrow> bytes" where
  "AuthOk_body m = ao_ServerTag m @ EncodeBE (ao_ServerReceiveOffset m)"

definition AuthOk_ok :: "AuthOkMessage \<Rightarrow> bool" where
  "AuthOk_ok m \<longleftrightarrow> length (ao_ServerTag m) = MAC_SIZE"

lemma writes_WriteAuthOk: "writes (WriteAuthOk m) (type_code AuthOk # AuthOk_body m)"
  unfolding WriteAuthOk_def AuthOk_body_def by (rule writes_typed, (rule writes_then write_intros)+)

lemma accepts_all_ParseAuthOk: "accepts_all ParseAuthOk (\<lambda>m c. AuthOk_ok m \<and> c = AuthOk_body m)"
  unfolding ParseAuthOk_def
  by (rule accepts_all_mono, (rule accept_rules)+) (auto simp: AuthOk_ok_def AuthOk_body_def)

interpretation authok: message_codec WriteAuthOk ParseAuthOk "type_code AuthOk" AuthOk_body AuthOk_ok
proof
  show "AuthOk_ok m \<Longrightarrow> parses_all ParseAuthOk (AuthOk_body m) m" for m
    by (cases m) (simp add: ParseAuthOk_def AuthOk_ok_def AuthOk_body_def parse_simps)
qed (use writes_WriteAuthOk accepts_allD [OF accepts_all_ParseAuthOk] in auto)

record ResumeMessage =
  re_StreamGen :: u32
  re_ClientReceiveOffset :: u64

definition ParseResume :: "u16 \<Rightarrow> ResumeMessage reader" where
  "ParseResume version =
     bindE (if version \<ge> PROTOCOL_VERSION_GRID then ReadU32BE else returnE 0) (\<lambda>gen.
     bindE ReadU64BE (\<lambda>offset.
     parse_end \<lparr>re_StreamGen = gen, re_ClientReceiveOffset = offset\<rparr>))"

definition WriteResume :: "u16 \<Rightarrow> ResumeMessage \<Rightarrow> writer" where
  "WriteResume version m =
     thenE (checkE (\<not> (version < PROTOCOL_VERSION_GRID \<and> re_StreamGen m \<noteq> 0)) MalformedField)
    (thenE (WriteMessageType Resume)
    (thenE (if version \<ge> PROTOCOL_VERSION_GRID then WriteU32BE (re_StreamGen m) else returnE ())
    (WriteU64BE (re_ClientReceiveOffset m))))"

definition Resume_body :: "u16 \<Rightarrow> ResumeMessage \<Rightarrow> bytes" where
  "Resume_body version m =
     (if version \<ge> PROTOCOL_VERSION_GRID then EncodeBE (re_StreamGen m) else []) @
     EncodeBE (re_ClientReceiveOffset m)"

definition Resume_ok :: "u16 \<Rightarrow> ResumeMessage \<Rightarrow> bool" where
  "Resume_ok version m \<longleftrightarrow> version \<ge> PROTOCOL_VERSION_GRID \<or> re_StreamGen m = 0"

lemma writes_if: "writes A x \<Longrightarrow> writes B y \<Longrightarrow> writes (if p then A else B) (if p then x else y)"
  by simp

lemma writes_WriteResume:
  "Resume_ok version m \<Longrightarrow> writes (WriteResume version m) (type_code Resume # Resume_body version m)"
proof -
  assume ok: "Resume_ok version m"
  have "writes (WriteResume version m) ([type_code Resume] @ Resume_body version m)"
    unfolding WriteResume_def Resume_body_def
    by (rule writes_check, use ok in \<open>simp add: Resume_ok_def not_less not_le\<close>)
      (rule writes_then writes_if write_intros)+
  then show ?thesis by simp
qed

lemma accepts_all_ParseResume:
  "accepts_all (ParseResume version) (\<lambda>m c. Resume_ok version m \<and> c = Resume_body version m)"
  unfolding ParseResume_def
  by (rule accepts_all_mono, (rule accept_rules accepts_if)+) (auto simp: Resume_ok_def Resume_body_def)

interpretation resume: checked_codec "WriteResume version" "ParseResume version" "type_code Resume"
  "Resume_body version" "Resume_ok version" "\<lambda>m. True" for version
proof
  show "Resume_ok version m \<Longrightarrow> parses_all (ParseResume version) (Resume_body version m) m" for m
    by (cases m) (auto simp: ParseResume_def Resume_ok_def Resume_body_def parse_simps)
  show "\<not> Resume_ok version m \<Longrightarrow> \<exists>e. \<forall>w. WriteResume version m w = (Inl e, w)" for m
    by (auto simp: WriteResume_def Resume_ok_def thenE_def bindE_def)
qed (use writes_WriteResume accepts_allD [OF accepts_all_ParseResume] in auto)

subsection \<open>Bootstrap messages\<close>

definition MAX_BOOTSTRAP_ENV :: nat where [size_defs]: "MAX_BOOTSTRAP_ENV = 17"
definition MAX_ENV_NAME :: nat where [size_defs]: "MAX_ENV_NAME = 20"
definition MAX_ENV_VALUE :: nat where [size_defs]: "MAX_ENV_VALUE = 64"

definition FORWARDED_NAMES :: "bytes list" where
  "FORWARDED_NAMES = map ascii
     [''TERM'', ''COLORTERM'', ''LANG'', ''LANGUAGE'', ''LC_ALL'', ''LC_ADDRESS'',
      ''LC_COLLATE'', ''LC_CTYPE'', ''LC_IDENTIFICATION'', ''LC_MEASUREMENT'', ''LC_MESSAGES'',
      ''LC_MONETARY'', ''LC_NAME'', ''LC_NUMERIC'', ''LC_PAPER'', ''LC_TELEPHONE'', ''LC_TIME'']"

definition IsPrintable :: "bytes \<Rightarrow> bool" where
  "IsPrintable text \<longleftrightarrow> list_all (\<lambda>c. 0x20 \<le> c \<and> c \<le> 0x7E) text"

definition IsForwardedVariable :: "bytes \<Rightarrow> bool" where
  "IsForwardedVariable name \<longleftrightarrow> List.member FORWARDED_NAMES name"

definition ReadShortText :: "bytes reader" where
  "ReadShortText = bindE ReadU8 (\<lambda>len. ReadBytes (unat len))"

definition WriteShortText :: "bytes \<Rightarrow> writer" where
  "WriteShortText text = thenE (WriteU8 (of_nat (length text))) (WriteBytes text)"

record EnvironmentVariable =
  env_Name :: bytes
  env_Value :: bytes

type_synonym BootstrapEnvironment = "EnvironmentVariable list"

text \<open>\<open>BootstrapEnvironment::Add\<close>: whether it was taken, and the environment after.\<close>

definition Env_Add :: "bytes \<Rightarrow> bytes \<Rightarrow> BootstrapEnvironment \<Rightarrow> bool \<times> BootstrapEnvironment" where
  "Env_Add name value entries =
     (if length entries = MAX_BOOTSTRAP_ENV \<or> length name > MAX_ENV_NAME \<or>
         length value > MAX_ENV_VALUE \<or> \<not> IsForwardedVariable name \<or> \<not> IsPrintable value
      then (False, entries)
      else if \<exists>v \<in> set entries. env_Name v = name then (False, entries)
      else (True, entries @ [\<lparr>env_Name = name, env_Value = value\<rparr>]))"

record BootstrapOfferMessage =
  bo_VersionMin :: u16
  bo_VersionMax :: u16
  bo_ClientKey :: bytes
  bo_ClientNonce :: bytes
  bo_Environment :: BootstrapEnvironment

text \<open>The loop \<open>for (i = 0; i < *count; ++i)\<close> of \<open>ParseBootstrapOffer\<close>.\<close>

fun ParseEnvironment :: "nat \<Rightarrow> BootstrapEnvironment \<Rightarrow> BootstrapEnvironment reader" where
  "ParseEnvironment 0 env = returnE env"
| "ParseEnvironment (Suc n) env =
     bindE ReadShortText (\<lambda>name.
     bindE ReadShortText (\<lambda>value.
     case Env_Add name value env of
       (False, _) \<Rightarrow> throwE MalformedField
     | (True, env') \<Rightarrow> ParseEnvironment n env'))"

definition ParseBootstrapOffer :: "BootstrapOfferMessage reader" where
  "ParseBootstrapOffer =
     bindE ReadU16BE (\<lambda>versionMin.
     bindE ReadU16BE (\<lambda>versionMax.
     thenE (checkE (\<not> versionMin > versionMax) MalformedField)
    (bindE (ReadArray PUBLIC_KEY_SIZE) (\<lambda>key.
     bindE (ReadArray BOOTSTRAP_NONCE_SIZE) (\<lambda>nonce.
     bindE ReadU8 (\<lambda>count.
     thenE (checkE (\<not> unat count > MAX_BOOTSTRAP_ENV) LengthLimitExceeded)
    (bindE (ParseEnvironment (unat count) []) (\<lambda>env.
     parse_end \<lparr>bo_VersionMin = versionMin, bo_VersionMax = versionMax, bo_ClientKey = key,
                bo_ClientNonce = nonce, bo_Environment = env\<rparr>))))))))"

fun WriteVariables :: "BootstrapEnvironment \<Rightarrow> writer" where
  "WriteVariables [] = returnE ()"
| "WriteVariables (v # vs) =
     thenE (WriteShortText (env_Name v)) (thenE (WriteShortText (env_Value v)) (WriteVariables vs))"

definition WriteBootstrapOffer :: "BootstrapOfferMessage \<Rightarrow> writer" where
  "WriteBootstrapOffer m =
     thenE (checkE (\<not> bo_VersionMin m > bo_VersionMax m) MalformedField)
    (thenE (WriteMessageType BootstrapOffer)
    (thenE (WriteU16BE (bo_VersionMin m))
    (thenE (WriteU16BE (bo_VersionMax m))
    (thenE (WriteBytes (bo_ClientKey m))
    (thenE (WriteBytes (bo_ClientNonce m))
    (thenE (WriteU8 (of_nat (length (bo_Environment m))))
    (WriteVariables (bo_Environment m))))))))"

text \<open>The invariant \<open>Add\<close> maintains: bounded, allow-listed, printable, no name twice.\<close>

definition env_ok :: "BootstrapEnvironment \<Rightarrow> bool" where
  "env_ok env \<longleftrightarrow> length env \<le> MAX_BOOTSTRAP_ENV \<and> distinct (map env_Name env) \<and>
     (\<forall>v \<in> set env. length (env_Name v) \<le> MAX_ENV_NAME \<and> length (env_Value v) \<le> MAX_ENV_VALUE \<and>
        IsForwardedVariable (env_Name v) \<and> IsPrintable (env_Value v))"

definition short_bytes :: "bytes \<Rightarrow> bytes" where
  "short_bytes text = of_nat (length text) # text"

definition env_bytes :: "BootstrapEnvironment \<Rightarrow> bytes" where
  "env_bytes env = concat (map (\<lambda>v. short_bytes (env_Name v) @ short_bytes (env_Value v)) env)"

definition Offer_body :: "BootstrapOfferMessage \<Rightarrow> bytes" where
  "Offer_body m = EncodeBE (bo_VersionMin m) @ EncodeBE (bo_VersionMax m) @ bo_ClientKey m @
     bo_ClientNonce m @ of_nat (length (bo_Environment m)) # env_bytes (bo_Environment m)"

definition Offer_wf :: "BootstrapOfferMessage \<Rightarrow> bool" where
  "Offer_wf m \<longleftrightarrow> length (bo_ClientKey m) = PUBLIC_KEY_SIZE \<and>
     length (bo_ClientNonce m) = BOOTSTRAP_NONCE_SIZE \<and> env_ok (bo_Environment m)"

definition Offer_ok :: "BootstrapOfferMessage \<Rightarrow> bool" where
  "Offer_ok m \<longleftrightarrow> Offer_wf m \<and> bo_VersionMin m \<le> bo_VersionMax m"

lemma env_ok_Nil [simp]: "env_ok []"
  by (simp add: env_ok_def)

lemma Env_Add_ok: "env_ok env \<Longrightarrow> Env_Add n v env = (b, env') \<Longrightarrow> env_ok env'"
  by (fastforce simp: Env_Add_def env_ok_def split: if_splits)

lemma Env_Add_eq: "Env_Add n v env = (True, env') \<Longrightarrow> env' = env @ [\<lparr>env_Name = n, env_Value = v\<rparr>]"
  by (auto simp: Env_Add_def split: if_splits)

lemma Env_Add_snoc: "env_ok (env @ [v]) \<Longrightarrow> Env_Add (env_Name v) (env_Value v) env = (True, env @ [v])"
  by (cases v) (fastforce simp: Env_Add_def env_ok_def)

lemma env_ok_prefix: "env_ok (a @ b) \<Longrightarrow> env_ok a"
  by (auto simp: env_ok_def)

lemma writes_WriteShortText [write_intros]: "writes (WriteShortText t) (short_bytes t)"
proof -
  have "writes (WriteShortText t) ([of_nat (length t)] @ t)"
    unfolding WriteShortText_def by (rule writes_then write_intros)+
  then show ?thesis by (simp add: short_bytes_def)
qed

lemma writes_WriteVariables [write_intros]: "writes (WriteVariables env) (env_bytes env)"
proof (induction env)
  case Nil
  then show ?case by (simp add: env_bytes_def writes_def)
next
  case (Cons v env)
  have "writes (WriteVariables (v # env)) (short_bytes (env_Name v) @ short_bytes (env_Value v) @ env_bytes env)"
    unfolding WriteVariables.simps by (rule writes_then write_intros Cons.IH)+
  then show ?case by (simp add: env_bytes_def)
qed

lemma read_ShortText [read_simps]:
  "length t < 256 \<Longrightarrow> ReadShortText (rd_at pre (short_bytes t @ u)) = (Inr t, rd_at (pre @ short_bytes t) u)"
  by (simp add: ReadShortText_def short_bytes_def bindE_def read_simps unat_of_nat_small)

lemma accepts_ReadShortText [accept_intros]:
  "accepts ReadShortText (\<lambda>t c. c = short_bytes t)"
  unfolding ReadShortText_def
  by (rule accepts_mono, (rule accepts_bind accept_intros)+) (auto simp: short_bytes_def)

lemma ParseEnvironment_ok:
  "env_ok (acc @ env) \<Longrightarrow>
   ParseEnvironment (length env) acc (rd_at pre (env_bytes env @ t)) = (Inr (acc @ env), rd_at (pre @ env_bytes env) t)"
proof (induction env arbitrary: acc pre)
  case Nil
  then show ?case by (simp add: env_bytes_def)
next
  case (Cons v env)
  have "env_ok (acc @ [v])" using Cons.prems env_ok_prefix [of "acc @ [v]" env] by simp
  note add = Env_Add_snoc [OF this]
  have "length (env_Name v) < 256" "length (env_Value v) < 256"
    using Cons.prems by (auto simp: env_ok_def size_defs)
  then show ?case
    using Cons.IH [of "acc @ [v]"] Cons.prems add by (simp add: bindE_def env_bytes_def read_simps)
qed

lemma accepts_ParseEnvironment:
  "accepts (ParseEnvironment n acc) (\<lambda>env' c. (env_ok acc \<longrightarrow> env_ok env') \<and>
     (\<exists>env. env' = acc @ env \<and> length env = n \<and> c = env_bytes env))"
proof (induction n arbitrary: acc)
  case 0
  then show ?case by (auto simp: accepts_def env_bytes_def)
next
  case (Suc n)
  have step: "accepts (case Env_Add name val acc of (False, _) \<Rightarrow> throwE MalformedField
          | (True, env') \<Rightarrow> ParseEnvironment n env')
        (\<lambda>env' c. (env_ok acc \<longrightarrow> env_ok env') \<and> (\<exists>env. env' = acc @ \<lparr>env_Name = name, env_Value = val\<rparr> # env
            \<and> length env = n \<and> c = env_bytes env))" for name val
  proof (cases "Env_Add name val acc")
    case (Pair b acc')
    show ?thesis
    proof (cases b)
      case False
      then show ?thesis using Pair by (simp add: accepts_def)
    next
      case True
      then have "acc' = acc @ [\<lparr>env_Name = name, env_Value = val\<rparr>]" "env_ok acc \<longrightarrow> env_ok acc'"
        using Pair Env_Add_eq Env_Add_ok by auto
      then show ?thesis using Pair True accepts_mono [OF Suc.IH [of acc']] by simp
    qed
  qed
  show ?case
    unfolding ParseEnvironment.simps
    by (rule accepts_mono, (rule accepts_bind accept_intros step)+) (fastforce simp: env_bytes_def)
qed

lemma writes_WriteBootstrapOffer:
  "Offer_ok m \<Longrightarrow> writes (WriteBootstrapOffer m) (type_code BootstrapOffer # Offer_body m)"
proof -
  assume "Offer_ok m"
  then have ok: "\<not> bo_VersionMin m > bo_VersionMax m" by (auto simp: Offer_ok_def)
  have "writes (WriteBootstrapOffer m) ([type_code BootstrapOffer] @ EncodeBE (bo_VersionMin m) @
      EncodeBE (bo_VersionMax m) @ bo_ClientKey m @ bo_ClientNonce m @ [of_nat (length (bo_Environment m))] @
      env_bytes (bo_Environment m))"
    unfolding WriteBootstrapOffer_def by (rule writes_check, rule ok) (rule writes_then write_intros)+
  then show ?thesis by (simp add: Offer_body_def)
qed

lemma accepts_all_ParseBootstrapOffer: "accepts_all ParseBootstrapOffer (\<lambda>m c. Offer_ok m \<and> c = Offer_body m)"
  unfolding ParseBootstrapOffer_def
  by (rule accepts_all_mono, (rule accept_rules accepts_ParseEnvironment)+)
    (auto simp: Offer_ok_def Offer_wf_def Offer_body_def)

interpretation offer: checked_codec WriteBootstrapOffer ParseBootstrapOffer "type_code BootstrapOffer"
  Offer_body Offer_ok Offer_wf
proof
  show "parses_all ParseBootstrapOffer (Offer_body m) m" if ok: "Offer_ok m" for m
  proof -
    have n: "unat (of_nat (length (bo_Environment m)) :: byte) = length (bo_Environment m)"
      using ok by (intro unat_of_nat_small) (auto simp: Offer_ok_def Offer_wf_def env_ok_def size_defs)
    have "length (bo_Environment m) \<le> MAX_BOOTSTRAP_ENV"
      using ok by (simp add: Offer_ok_def Offer_wf_def env_ok_def)
    then show ?thesis
      using ok n ParseEnvironment_ok [of "[]" "bo_Environment m" _ "[]"]
      by (cases m) (auto simp: ParseBootstrapOffer_def Offer_ok_def Offer_wf_def Offer_body_def parse_simps)
  qed
  show "\<not> Offer_ok m \<Longrightarrow> Offer_wf m \<Longrightarrow> \<exists>e. \<forall>w. WriteBootstrapOffer m w = (Inl e, w)" for m
    by (auto simp: WriteBootstrapOffer_def Offer_ok_def thenE_def bindE_def)
qed (use writes_WriteBootstrapOffer accepts_allD [OF accepts_all_ParseBootstrapOffer] in auto)

record BootstrapAcceptMessage =
  ba_Version :: u16
  ba_AgentKey :: bytes
  ba_ClientNonce :: bytes
  ba_AgentNonce :: bytes
  ba_Port :: u16
  ba_OrphanTimeoutSeconds :: u32

definition ParseBootstrapAccept :: "BootstrapAcceptMessage reader" where
  "ParseBootstrapAccept =
     bindE ReadU16BE (\<lambda>version.
     bindE (ReadArray PUBLIC_KEY_SIZE) (\<lambda>key.
     bindE (ReadArray BOOTSTRAP_NONCE_SIZE) (\<lambda>echoed.
     bindE (ReadArray BOOTSTRAP_NONCE_SIZE) (\<lambda>nonce.
     bindE ReadU16BE (\<lambda>port.
     thenE (checkE (port \<noteq> 0) MalformedField)
    (bindE ReadU32BE (\<lambda>orphanTimeout.
     parse_end \<lparr>ba_Version = version, ba_AgentKey = key, ba_ClientNonce = echoed,
                ba_AgentNonce = nonce, ba_Port = port, ba_OrphanTimeoutSeconds = orphanTimeout\<rparr>)))))))"

definition WriteBootstrapAccept :: "BootstrapAcceptMessage \<Rightarrow> writer" where
  "WriteBootstrapAccept m =
     thenE (checkE (ba_Port m \<noteq> 0) MalformedField)
    (thenE (WriteMessageType BootstrapAccept)
    (thenE (WriteU16BE (ba_Version m))
    (thenE (WriteBytes (ba_AgentKey m))
    (thenE (WriteBytes (ba_ClientNonce m))
    (thenE (WriteBytes (ba_AgentNonce m))
    (thenE (WriteU16BE (ba_Port m))
    (WriteU32BE (ba_OrphanTimeoutSeconds m))))))))"

definition Accept_body :: "BootstrapAcceptMessage \<Rightarrow> bytes" where
  "Accept_body m = EncodeBE (ba_Version m) @ ba_AgentKey m @ ba_ClientNonce m @ ba_AgentNonce m @
     EncodeBE (ba_Port m) @ EncodeBE (ba_OrphanTimeoutSeconds m)"

definition Accept_wf :: "BootstrapAcceptMessage \<Rightarrow> bool" where
  "Accept_wf m \<longleftrightarrow> length (ba_AgentKey m) = PUBLIC_KEY_SIZE \<and>
     length (ba_ClientNonce m) = BOOTSTRAP_NONCE_SIZE \<and> length (ba_AgentNonce m) = BOOTSTRAP_NONCE_SIZE"

definition Accept_ok :: "BootstrapAcceptMessage \<Rightarrow> bool" where
  "Accept_ok m \<longleftrightarrow> Accept_wf m \<and> ba_Port m \<noteq> 0"

lemma writes_WriteBootstrapAccept:
  "Accept_ok m \<Longrightarrow> writes (WriteBootstrapAccept m) (type_code BootstrapAccept # Accept_body m)"
proof -
  assume "Accept_ok m"
  then have ok: "ba_Port m \<noteq> 0" by (simp add: Accept_ok_def)
  have "writes (WriteBootstrapAccept m) ([type_code BootstrapAccept] @ Accept_body m)"
    unfolding WriteBootstrapAccept_def Accept_body_def
    by (rule writes_check, rule ok) (rule writes_then write_intros)+
  then show ?thesis by simp
qed

lemma accepts_all_ParseBootstrapAccept: "accepts_all ParseBootstrapAccept (\<lambda>m c. Accept_ok m \<and> c = Accept_body m)"
  unfolding ParseBootstrapAccept_def
  by (rule accepts_all_mono, (rule accept_rules)+) (auto simp: Accept_ok_def Accept_wf_def Accept_body_def)

interpretation accept: checked_codec WriteBootstrapAccept ParseBootstrapAccept "type_code BootstrapAccept"
  Accept_body Accept_ok Accept_wf
proof
  show "Accept_ok m \<Longrightarrow> parses_all ParseBootstrapAccept (Accept_body m) m" for m
    by (cases m) (auto simp: ParseBootstrapAccept_def Accept_ok_def Accept_wf_def Accept_body_def parse_simps)
  show "\<not> Accept_ok m \<Longrightarrow> Accept_wf m \<Longrightarrow> \<exists>e. \<forall>w. WriteBootstrapAccept m w = (Inl e, w)" for m
    by (auto simp: WriteBootstrapAccept_def Accept_ok_def thenE_def bindE_def)
qed (use writes_WriteBootstrapAccept accepts_allD [OF accepts_all_ParseBootstrapAccept] in auto)

end
