(* ===== verification/Wire_Session_Message.thy ===== *)
theory Wire_Session_Message
  imports Wire_Message
begin

text \<open>
  \<^verbatim>\<open>src/wire/message.cpp\<close>, second half: the sealed session messages, the grid snapshot
  messages, the messages on the socket between \<open>zet-muxd\<close> and the agents, and the two functions
  that look into a cleartext Hello (\<open>PeekHello\<close>, \<open>HasGridCapableTlv\<close>).

  The kinds of \<open>SessionEnd\<close> and \<open>MuxRefused\<close> are kept at the underlying type of their C++ enums, one
  byte: the writers check for values outside the enumeration, so the model must be able to hold them.
\<close>

unbundle bit_operations_syntax

definition MAX_DATA_PAYLOAD :: nat where [size_defs]: "MAX_DATA_PAYLOAD = MAX_FRAME - TAG_SIZE - 1 - 2 * 8"
definition GRID_CHUNK_MAX_DATA :: nat where [size_defs]: "GRID_CHUNK_MAX_DATA = MAX_FRAME - TAG_SIZE - 1 - 4"
definition MAX_HANDOFF_PREFIX :: nat where [size_defs]: "MAX_HANDOFF_PREFIX = HEADER_SIZE + MAX_HANDSHAKE_FRAME"

text \<open>\<open>reader.Rest()\<close> followed by \<open>Skip\<close>: the payload that runs to the end of the message.\<close>

definition ReadPayload :: "nat \<Rightarrow> bytes reader" where
  "ReadPayload limit r =
     (let payload = Rest r in
      if payload = [] then (Inl MalformedField, r)
      else if length payload > limit then (Inl LengthLimitExceeded, r)
      else case Skip (length payload) r of
        (Inl e, r') \<Rightarrow> (Inl e, r')
      | (Inr u, r') \<Rightarrow> (Inr payload, r'))"

lemma read_Payload [read_simps]:
  "p \<noteq> [] \<Longrightarrow> length p \<le> limit \<Longrightarrow> ReadPayload limit (rd_at pre p) = (Inr p, rd_at (pre @ p) [])"
  by (simp add: ReadPayload_def Skip_rd_at)

lemma accepts_all_ReadPayload: "accepts_all (ReadPayload limit) (\<lambda>p c. p = c \<and> c \<noteq> [] \<and> length c \<le> limit)"
  by (auto simp: accepts_all_def ReadPayload_def Skip_rd_at Let_def split: if_splits)

lemmas accept_payload_rules = accepts_all_check accepts_all_end accepts_all_bind_return
  accepts_all_ReadPayload accepts_all_bind accept_intros

subsection \<open>Session messages\<close>

record DataMessage =
  da_Ack :: u64
  da_Offset :: u64
  da_Payload :: bytes

definition ParseData :: "DataMessage reader" where
  "ParseData =
     bindE ReadU64BE (\<lambda>ack.
     bindE ReadU64BE (\<lambda>offset.
     bindE (ReadPayload MAX_DATA_PAYLOAD) (\<lambda>payload.
     returnE \<lparr>da_Ack = ack, da_Offset = offset, da_Payload = payload\<rparr>)))"

definition WriteData :: "DataMessage \<Rightarrow> writer" where
  "WriteData m =
     thenE (checkE (da_Payload m \<noteq> []) MalformedField)
    (thenE (checkE (\<not> length (da_Payload m) > MAX_DATA_PAYLOAD) LengthLimitExceeded)
    (thenE (WriteMessageType Data)
    (thenE (WriteU64BE (da_Ack m))
    (thenE (WriteU64BE (da_Offset m))
    (WriteBytes (da_Payload m))))))"

definition Data_body :: "DataMessage \<Rightarrow> bytes" where
  "Data_body m = EncodeBE (da_Ack m) @ EncodeBE (da_Offset m) @ da_Payload m"

definition Data_ok :: "DataMessage \<Rightarrow> bool" where
  "Data_ok m \<longleftrightarrow> da_Payload m \<noteq> [] \<and> length (da_Payload m) \<le> MAX_DATA_PAYLOAD"

lemma writes_WriteData: "Data_ok m \<Longrightarrow> writes (WriteData m) (type_code Data # Data_body m)"
proof -
  assume ok: "Data_ok m"
  have "writes (WriteData m) ([type_code Data] @ Data_body m)"
    unfolding WriteData_def Data_body_def
    by (rule writes_check, use ok in \<open>simp add: Data_ok_def\<close>)+ (rule writes_then write_intros)+
  then show ?thesis by simp
qed

lemma accepts_all_ParseData: "accepts_all ParseData (\<lambda>m c. Data_ok m \<and> c = Data_body m)"
  unfolding ParseData_def
  by (rule accepts_all_mono, (rule accept_payload_rules)+) (auto simp: Data_ok_def Data_body_def)

interpretation data: checked_codec WriteData ParseData "type_code Data" Data_body Data_ok "\<lambda>_. True"
proof
  show "Data_ok m \<Longrightarrow> parses_all ParseData (Data_body m) m" for m
    by (cases m) (simp add: ParseData_def Data_ok_def Data_body_def parse_simps read_Payload)
  show "\<not> Data_ok m \<Longrightarrow> \<exists>e. \<forall>w. WriteData m w = (Inl e, w)" for m
    by (auto simp: WriteData_def Data_ok_def thenE_def bindE_def)
qed (use writes_WriteData accepts_allD [OF accepts_all_ParseData] in auto)

record AckMessage =
  ac_Ack :: u64

definition ParseAck :: "AckMessage reader" where
  "ParseAck = bindE ReadU64BE (\<lambda>ack. parse_end \<lparr>ac_Ack = ack\<rparr>)"

definition WriteAck :: "AckMessage \<Rightarrow> writer" where
  "WriteAck m = thenE (WriteMessageType Ack) (WriteU64BE (ac_Ack m))"

lemma writes_WriteAck: "writes (WriteAck m) (type_code Ack # EncodeBE (ac_Ack m))"
  unfolding WriteAck_def by (rule writes_typed write_intros)+

lemma accepts_all_ParseAck: "accepts_all ParseAck (\<lambda>m c. c = EncodeBE (ac_Ack m))"
  unfolding ParseAck_def by (rule accepts_all_mono, (rule accept_rules)+) auto

interpretation ack: message_codec WriteAck ParseAck "type_code Ack" "\<lambda>m. EncodeBE (ac_Ack m)" "\<lambda>_. True"
proof
  show "parses_all ParseAck (EncodeBE (ac_Ack m)) m" for m
    by (cases m) (simp add: ParseAck_def parse_simps)
qed (use writes_WriteAck accepts_allD [OF accepts_all_ParseAck] in auto)

record ResizeMessage =
  rs_Rows :: u16
  rs_Cols :: u16
  rs_XPixel :: u16
  rs_YPixel :: u16

definition ParseResize :: "ResizeMessage reader" where
  "ParseResize =
     bindE ReadU16BE (\<lambda>rows.
     bindE ReadU16BE (\<lambda>cols.
     bindE ReadU16BE (\<lambda>xpixel.
     bindE ReadU16BE (\<lambda>ypixel.
     parse_end \<lparr>rs_Rows = rows, rs_Cols = cols, rs_XPixel = xpixel, rs_YPixel = ypixel\<rparr>))))"

definition WriteResize :: "ResizeMessage \<Rightarrow> writer" where
  "WriteResize m =
     thenE (WriteMessageType Resize)
    (thenE (WriteU16BE (rs_Rows m))
    (thenE (WriteU16BE (rs_Cols m))
    (thenE (WriteU16BE (rs_XPixel m))
    (WriteU16BE (rs_YPixel m)))))"

definition Resize_body :: "ResizeMessage \<Rightarrow> bytes" where
  "Resize_body m = EncodeBE (rs_Rows m) @ EncodeBE (rs_Cols m) @ EncodeBE (rs_XPixel m) @ EncodeBE (rs_YPixel m)"

lemma writes_WriteResize: "writes (WriteResize m) (type_code Resize # Resize_body m)"
  unfolding WriteResize_def Resize_body_def by (rule writes_typed, (rule writes_then write_intros)+)

lemma accepts_all_ParseResize: "accepts_all ParseResize (\<lambda>m c. c = Resize_body m)"
  unfolding ParseResize_def by (rule accepts_all_mono, (rule accept_rules)+) (auto simp: Resize_body_def)

interpretation resize: message_codec WriteResize ParseResize "type_code Resize" Resize_body "\<lambda>_. True"
proof
  show "parses_all ParseResize (Resize_body m) m" for m
    by (cases m) (simp add: ParseResize_def Resize_body_def parse_simps)
qed (use writes_WriteResize accepts_allD [OF accepts_all_ParseResize] in auto)

record PingMessage =
  pi_Token :: u64

definition ParsePing :: "PingMessage reader" where
  "ParsePing = bindE ReadU64BE (\<lambda>token. parse_end \<lparr>pi_Token = token\<rparr>)"

definition WritePing :: "PingMessage \<Rightarrow> writer" where
  "WritePing m = thenE (WriteMessageType Ping) (WriteU64BE (pi_Token m))"

lemma writes_WritePing: "writes (WritePing m) (type_code Ping # EncodeBE (pi_Token m))"
  unfolding WritePing_def by (rule writes_typed write_intros)+

lemma accepts_all_ParsePing: "accepts_all ParsePing (\<lambda>m c. c = EncodeBE (pi_Token m))"
  unfolding ParsePing_def by (rule accepts_all_mono, (rule accept_rules)+) auto

interpretation ping: message_codec WritePing ParsePing "type_code Ping" "\<lambda>m. EncodeBE (pi_Token m)" "\<lambda>_. True"
proof
  show "parses_all ParsePing (EncodeBE (pi_Token m)) m" for m
    by (cases m) (simp add: ParsePing_def parse_simps)
qed (use writes_WritePing accepts_allD [OF accepts_all_ParsePing] in auto)

record PongMessage =
  po_Token :: u64

definition ParsePong :: "PongMessage reader" where
  "ParsePong = bindE ReadU64BE (\<lambda>token. parse_end \<lparr>po_Token = token\<rparr>)"

definition WritePong :: "PongMessage \<Rightarrow> writer" where
  "WritePong m = thenE (WriteMessageType Pong) (WriteU64BE (po_Token m))"

lemma writes_WritePong: "writes (WritePong m) (type_code Pong # EncodeBE (po_Token m))"
  unfolding WritePong_def by (rule writes_typed write_intros)+

lemma accepts_all_ParsePong: "accepts_all ParsePong (\<lambda>m c. c = EncodeBE (po_Token m))"
  unfolding ParsePong_def by (rule accepts_all_mono, (rule accept_rules)+) auto

interpretation pong: message_codec WritePong ParsePong "type_code Pong" "\<lambda>m. EncodeBE (po_Token m)" "\<lambda>_. True"
proof
  show "parses_all ParsePong (EncodeBE (po_Token m)) m" for m
    by (cases m) (simp add: ParsePong_def parse_simps)
qed (use writes_WritePong accepts_allD [OF accepts_all_ParsePong] in auto)

text \<open>\<open>ESessionEndKind\<close>.\<close>

definition Exited :: byte where "Exited = 0"
definition Signaled :: byte where "Signaled = 1"
definition Overflow :: byte where "Overflow = 2"

record SessionEndMessage =
  se_Kind :: byte
  se_Value :: byte

definition IsSessionEndKind :: "byte \<Rightarrow> bool" where
  "IsSessionEndKind kind \<longleftrightarrow> kind = Exited \<or> kind = Signaled \<or> kind = Overflow"

definition ParseSessionEnd :: "u16 \<Rightarrow> SessionEndMessage reader" where
  "ParseSessionEnd version =
     bindE ReadU8 (\<lambda>kind.
     bindE ReadU8 (\<lambda>val.
     thenE (checkE (IsSessionEndKind kind) MalformedField)
    (thenE (checkE (\<not> (kind = Overflow \<and> version < PROTOCOL_VERSION_GRID)) MalformedField)
    (thenE (checkE (\<not> (kind = Overflow \<and> val \<noteq> 0)) MalformedField)
    (parse_end \<lparr>se_Kind = kind, se_Value = val\<rparr>)))))"

definition WriteSessionEnd :: "u16 \<Rightarrow> SessionEndMessage \<Rightarrow> writer" where
  "WriteSessionEnd version m =
     thenE (checkE (IsSessionEndKind (se_Kind m)) MalformedField)
    (thenE (checkE (\<not> (se_Kind m = Overflow \<and> version < PROTOCOL_VERSION_GRID)) MalformedField)
    (thenE (checkE (\<not> (se_Kind m = Overflow \<and> se_Value m \<noteq> 0)) MalformedField)
    (thenE (WriteMessageType SessionEnd)
    (thenE (WriteU8 (se_Kind m))
    (WriteU8 (se_Value m))))))"

definition SessionEnd_ok :: "u16 \<Rightarrow> SessionEndMessage \<Rightarrow> bool" where
  "SessionEnd_ok version m \<longleftrightarrow> IsSessionEndKind (se_Kind m) \<and>
     (se_Kind m = Overflow \<longrightarrow> version \<ge> PROTOCOL_VERSION_GRID \<and> se_Value m = 0)"

definition SessionEnd_body :: "SessionEndMessage \<Rightarrow> bytes" where
  "SessionEnd_body m = [se_Kind m, se_Value m]"

lemma writes_WriteSessionEnd:
  "SessionEnd_ok version m \<Longrightarrow> writes (WriteSessionEnd version m) (type_code SessionEnd # SessionEnd_body m)"
proof -
  assume ok: "SessionEnd_ok version m"
  have "writes (WriteSessionEnd version m) ([type_code SessionEnd] @ [se_Kind m] @ [se_Value m])"
    unfolding WriteSessionEnd_def
    by (rule writes_check, (use ok in \<open>auto simp: SessionEnd_ok_def\<close>)[1])+ (rule writes_then write_intros)+
  then show ?thesis by (simp add: SessionEnd_body_def)
qed

lemma accepts_all_ParseSessionEnd:
  "accepts_all (ParseSessionEnd version) (\<lambda>m c. SessionEnd_ok version m \<and> c = SessionEnd_body m)"
  unfolding ParseSessionEnd_def
  by (rule accepts_all_mono, (rule accept_rules)+) (auto simp: SessionEnd_ok_def SessionEnd_body_def)

interpretation sessionend: checked_codec "WriteSessionEnd version" "ParseSessionEnd version"
  "type_code SessionEnd" SessionEnd_body "SessionEnd_ok version" "\<lambda>_. True" for version
proof
  show "SessionEnd_ok version m \<Longrightarrow> parses_all (ParseSessionEnd version) (SessionEnd_body m) m" for m
    by (cases m) (auto simp: ParseSessionEnd_def SessionEnd_ok_def SessionEnd_body_def parse_simps)
  show "\<not> SessionEnd_ok version m \<Longrightarrow> \<exists>e. \<forall>w. WriteSessionEnd version m w = (Inl e, w)" for m
    by (auto simp: WriteSessionEnd_def SessionEnd_ok_def thenE_def bindE_def)
qed (use writes_WriteSessionEnd accepts_allD [OF accepts_all_ParseSessionEnd] in auto)

subsection \<open>Messages of the mux socket\<close>

record MuxRegisterMessage =
  mr_Registration :: bytes

definition ParseMuxRegister :: "MuxRegisterMessage reader" where
  "ParseMuxRegister = bindE (ReadArray KEY_SIZE) (\<lambda>key. parse_end \<lparr>mr_Registration = key\<rparr>)"

definition WriteMuxRegister :: "MuxRegisterMessage \<Rightarrow> writer" where
  "WriteMuxRegister m = thenE (WriteMessageType MuxRegister) (WriteBytes (mr_Registration m))"

definition MuxRegister_ok :: "MuxRegisterMessage \<Rightarrow> bool" where
  "MuxRegister_ok m \<longleftrightarrow> length (mr_Registration m) = KEY_SIZE"

lemma writes_WriteMuxRegister: "writes (WriteMuxRegister m) (type_code MuxRegister # mr_Registration m)"
  unfolding WriteMuxRegister_def by (rule writes_typed write_intros)+

lemma accepts_all_ParseMuxRegister:
  "accepts_all ParseMuxRegister (\<lambda>m c. MuxRegister_ok m \<and> c = mr_Registration m)"
  unfolding ParseMuxRegister_def
  by (rule accepts_all_mono, (rule accept_rules)+) (auto simp: MuxRegister_ok_def)

interpretation muxregister: message_codec WriteMuxRegister ParseMuxRegister "type_code MuxRegister"
  mr_Registration MuxRegister_ok
proof
  show "MuxRegister_ok m \<Longrightarrow> parses_all ParseMuxRegister (mr_Registration m) m" for m
    by (cases m) (simp add: ParseMuxRegister_def MuxRegister_ok_def parse_simps)
qed (use writes_WriteMuxRegister accepts_allD [OF accepts_all_ParseMuxRegister] in auto)

record MuxRegisteredMessage =
  md_Port :: u16

definition ParseMuxRegistered :: "MuxRegisteredMessage reader" where
  "ParseMuxRegistered =
     bindE ReadU16BE (\<lambda>port.
     thenE (checkE (port \<noteq> 0) MalformedField) (parse_end \<lparr>md_Port = port\<rparr>))"

definition WriteMuxRegistered :: "MuxRegisteredMessage \<Rightarrow> writer" where
  "WriteMuxRegistered m =
     thenE (checkE (md_Port m \<noteq> 0) MalformedField)
    (thenE (WriteMessageType MuxRegistered) (WriteU16BE (md_Port m)))"

definition MuxRegistered_ok :: "MuxRegisteredMessage \<Rightarrow> bool" where
  "MuxRegistered_ok m \<longleftrightarrow> md_Port m \<noteq> 0"

lemma writes_WriteMuxRegistered:
  "MuxRegistered_ok m \<Longrightarrow> writes (WriteMuxRegistered m) (type_code MuxRegistered # EncodeBE (md_Port m))"
  unfolding WriteMuxRegistered_def MuxRegistered_ok_def by (rule writes_check writes_typed write_intros | assumption)+

lemma accepts_all_ParseMuxRegistered:
  "accepts_all ParseMuxRegistered (\<lambda>m c. MuxRegistered_ok m \<and> c = EncodeBE (md_Port m))"
  unfolding ParseMuxRegistered_def
  by (rule accepts_all_mono, (rule accept_rules)+) (auto simp: MuxRegistered_ok_def)

interpretation muxregistered: checked_codec WriteMuxRegistered ParseMuxRegistered "type_code MuxRegistered"
  "\<lambda>m. EncodeBE (md_Port m)" MuxRegistered_ok "\<lambda>_. True"
proof
  show "MuxRegistered_ok m \<Longrightarrow> parses_all ParseMuxRegistered (EncodeBE (md_Port m)) m" for m
    by (cases m) (simp add: ParseMuxRegistered_def MuxRegistered_ok_def parse_simps)
  show "\<not> MuxRegistered_ok m \<Longrightarrow> \<exists>e. \<forall>w. WriteMuxRegistered m w = (Inl e, w)" for m
    by (auto simp: WriteMuxRegistered_def MuxRegistered_ok_def thenE_def bindE_def)
qed (use writes_WriteMuxRegistered accepts_allD [OF accepts_all_ParseMuxRegistered] in auto)

text \<open>\<open>EMuxRefusal\<close>.\<close>

definition Taken :: byte where "Taken = 1"
definition Limit :: byte where "Limit = 2"
definition Malformed :: byte where "Malformed = 3"

record MuxRefusedMessage =
  mf_Reason :: byte

definition IsMuxRefusal :: "byte \<Rightarrow> bool" where
  "IsMuxRefusal reason \<longleftrightarrow> reason = Taken \<or> reason = Limit \<or> reason = Malformed"

definition ParseMuxRefused :: "MuxRefusedMessage reader" where
  "ParseMuxRefused =
     bindE ReadU8 (\<lambda>reason.
     thenE (checkE (IsMuxRefusal reason) MalformedField) (parse_end \<lparr>mf_Reason = reason\<rparr>))"

definition WriteMuxRefused :: "MuxRefusedMessage \<Rightarrow> writer" where
  "WriteMuxRefused m =
     thenE (checkE (IsMuxRefusal (mf_Reason m)) MalformedField)
    (thenE (WriteMessageType MuxRefused) (WriteU8 (mf_Reason m)))"

lemma writes_WriteMuxRefused:
  "IsMuxRefusal (mf_Reason m) \<Longrightarrow> writes (WriteMuxRefused m) (type_code MuxRefused # [mf_Reason m])"
  unfolding WriteMuxRefused_def by (rule writes_check writes_typed write_intros | assumption)+

lemma accepts_all_ParseMuxRefused:
  "accepts_all ParseMuxRefused (\<lambda>m c. IsMuxRefusal (mf_Reason m) \<and> c = [mf_Reason m])"
  unfolding ParseMuxRefused_def by (rule accepts_all_mono, (rule accept_rules)+) auto

interpretation muxrefused: checked_codec WriteMuxRefused ParseMuxRefused "type_code MuxRefused"
  "\<lambda>m. [mf_Reason m]" "\<lambda>m. IsMuxRefusal (mf_Reason m)" "\<lambda>_. True"
proof
  show "IsMuxRefusal (mf_Reason m) \<Longrightarrow> parses_all ParseMuxRefused [mf_Reason m] m" for m
    by (cases m) (simp add: ParseMuxRefused_def parse_simps)
  show "\<not> IsMuxRefusal (mf_Reason m) \<Longrightarrow> \<exists>e. \<forall>w. WriteMuxRefused m w = (Inl e, w)" for m
    by (auto simp: WriteMuxRefused_def thenE_def bindE_def)
qed (use writes_WriteMuxRefused accepts_allD [OF accepts_all_ParseMuxRefused] in auto)

record MuxHandoffMessage =
  mh_Prefix :: bytes

definition ParseMuxHandoff :: "MuxHandoffMessage reader" where
  "ParseMuxHandoff =
     bindE ReadU16BE (\<lambda>len.
     thenE (checkE (\<not> (len = 0 \<or> unat len > MAX_HANDOFF_PREFIX)) MalformedField)
    (bindE (ReadBytes (unat len)) (\<lambda>prefix.
     parse_end \<lparr>mh_Prefix = prefix\<rparr>)))"

definition WriteMuxHandoff :: "MuxHandoffMessage \<Rightarrow> writer" where
  "WriteMuxHandoff m =
     thenE (checkE (\<not> (mh_Prefix m = [] \<or> length (mh_Prefix m) > MAX_HANDOFF_PREFIX)) MalformedField)
    (thenE (WriteMessageType MuxHandoff)
    (thenE (WriteU16BE (of_nat (length (mh_Prefix m))))
    (WriteBytes (mh_Prefix m))))"

definition MuxHandoff_ok :: "MuxHandoffMessage \<Rightarrow> bool" where
  "MuxHandoff_ok m \<longleftrightarrow> \<not> (mh_Prefix m = [] \<or> length (mh_Prefix m) > MAX_HANDOFF_PREFIX)"

definition MuxHandoff_body :: "MuxHandoffMessage \<Rightarrow> bytes" where
  "MuxHandoff_body m = EncodeBE (of_nat (length (mh_Prefix m)) :: u16) @ mh_Prefix m"

lemma writes_WriteMuxHandoff:
  "MuxHandoff_ok m \<Longrightarrow> writes (WriteMuxHandoff m) (type_code MuxHandoff # MuxHandoff_body m)"
  unfolding WriteMuxHandoff_def MuxHandoff_ok_def MuxHandoff_body_def
  by (rule writes_check writes_typed writes_then write_intros | assumption)+

lemma accepts_all_ParseMuxHandoff:
  "accepts_all ParseMuxHandoff (\<lambda>m c. MuxHandoff_ok m \<and> c = MuxHandoff_body m)"
  unfolding ParseMuxHandoff_def
  by (rule accepts_all_mono, (rule accept_rules)+) (auto simp: MuxHandoff_ok_def MuxHandoff_body_def unat_eq_0)

interpretation muxhandoff: checked_codec WriteMuxHandoff ParseMuxHandoff "type_code MuxHandoff"
  MuxHandoff_body MuxHandoff_ok "\<lambda>_. True"
proof
  show "parses_all ParseMuxHandoff (MuxHandoff_body m) m" if ok: "MuxHandoff_ok m" for m
  proof -
    have n: "unat (of_nat (length (mh_Prefix m)) :: u16) = length (mh_Prefix m)"
      using ok by (intro unat_of_nat_small) (simp add: MuxHandoff_ok_def size_defs)
    then have "(of_nat (length (mh_Prefix m)) :: u16) \<noteq> 0"
      using ok by (metis MuxHandoff_ok_def length_0_conv unat_0)
    with n ok show ?thesis
      by (cases m) (simp add: ParseMuxHandoff_def MuxHandoff_ok_def MuxHandoff_body_def parse_simps)
  qed
  show "\<not> MuxHandoff_ok m \<Longrightarrow> \<exists>e. \<forall>w. WriteMuxHandoff m w = (Inl e, w)" for m
    by (simp add: WriteMuxHandoff_def MuxHandoff_ok_def thenE_def bindE_def)
qed (use writes_WriteMuxHandoff accepts_allD [OF accepts_all_ParseMuxHandoff] in auto)

subsection \<open>Grid snapshot messages\<close>

definition GRID_BEGIN_FLAG_DEFINED_MASK :: byte where "GRID_BEGIN_FLAG_DEFINED_MASK = 0x01"

record GridBeginMessage =
  gb_Flags :: byte
  gb_StreamGen :: u32
  gb_ScrollbackLen :: u32
  gb_TotalLen :: u32

definition ParseGridBegin :: "GridBeginMessage reader" where
  "ParseGridBegin =
     bindE ReadU8 (\<lambda>flags.
     thenE (checkE (flags AND NOT GRID_BEGIN_FLAG_DEFINED_MASK = 0) MalformedField)
    (bindE ReadU32BE (\<lambda>gen.
     bindE ReadU32BE (\<lambda>scrollback.
     bindE ReadU32BE (\<lambda>total.
     thenE (checkE (\<not> (total = 0 \<or> unat total > SNAPSHOT_MAX_BYTES)) LengthLimitExceeded)
    (thenE (checkE (\<not> scrollback > total) LengthLimitExceeded)
    (parse_end \<lparr>gb_Flags = flags, gb_StreamGen = gen, gb_ScrollbackLen = scrollback,
                gb_TotalLen = total\<rparr>)))))))"

definition WriteGridBegin :: "GridBeginMessage \<Rightarrow> writer" where
  "WriteGridBegin m =
     thenE (checkE (gb_Flags m AND NOT GRID_BEGIN_FLAG_DEFINED_MASK = 0) MalformedField)
    (thenE (checkE (\<not> (gb_TotalLen m = 0 \<or> unat (gb_TotalLen m) > SNAPSHOT_MAX_BYTES)) LengthLimitExceeded)
    (thenE (checkE (\<not> gb_ScrollbackLen m > gb_TotalLen m) LengthLimitExceeded)
    (thenE (WriteMessageType GridBegin)
    (thenE (WriteU8 (gb_Flags m))
    (thenE (WriteU32BE (gb_StreamGen m))
    (thenE (WriteU32BE (gb_ScrollbackLen m))
    (WriteU32BE (gb_TotalLen m))))))))"

definition GridBegin_ok :: "GridBeginMessage \<Rightarrow> bool" where
  "GridBegin_ok m \<longleftrightarrow> gb_Flags m AND NOT GRID_BEGIN_FLAG_DEFINED_MASK = 0 \<and>
     \<not> (gb_TotalLen m = 0 \<or> unat (gb_TotalLen m) > SNAPSHOT_MAX_BYTES) \<and>
     \<not> gb_ScrollbackLen m > gb_TotalLen m"

definition GridBegin_body :: "GridBeginMessage \<Rightarrow> bytes" where
  "GridBegin_body m = [gb_Flags m] @ EncodeBE (gb_StreamGen m) @ EncodeBE (gb_ScrollbackLen m) @
     EncodeBE (gb_TotalLen m)"

lemma writes_WriteGridBegin:
  "GridBegin_ok m \<Longrightarrow> writes (WriteGridBegin m) (type_code GridBegin # GridBegin_body m)"
  unfolding WriteGridBegin_def GridBegin_ok_def GridBegin_body_def
  by (elim conjE) (rule writes_check writes_typed writes_then write_intros | assumption)+

lemma accepts_all_ParseGridBegin: "accepts_all ParseGridBegin (\<lambda>m c. GridBegin_ok m \<and> c = GridBegin_body m)"
  unfolding ParseGridBegin_def
  by (rule accepts_all_mono, (rule accept_rules)+) (auto simp: GridBegin_ok_def GridBegin_body_def)

interpretation gridbegin: checked_codec WriteGridBegin ParseGridBegin "type_code GridBegin"
  GridBegin_body GridBegin_ok "\<lambda>_. True"
proof
  show "GridBegin_ok m \<Longrightarrow> parses_all ParseGridBegin (GridBegin_body m) m" for m
    by (cases m) (simp add: ParseGridBegin_def GridBegin_ok_def GridBegin_body_def parse_simps)
  show "\<not> GridBegin_ok m \<Longrightarrow> \<exists>e. \<forall>w. WriteGridBegin m w = (Inl e, w)" for m
    by (auto simp: WriteGridBegin_def GridBegin_ok_def thenE_def bindE_def)
qed (use writes_WriteGridBegin accepts_allD [OF accepts_all_ParseGridBegin] in auto)

record GridChunkMessage =
  gc_ChunkOffset :: u32
  gc_Data :: bytes

definition ParseGridChunk :: "GridChunkMessage reader" where
  "ParseGridChunk =
     bindE ReadU32BE (\<lambda>offset.
     bindE (ReadPayload GRID_CHUNK_MAX_DATA) (\<lambda>data.
     returnE \<lparr>gc_ChunkOffset = offset, gc_Data = data\<rparr>))"

definition WriteGridChunk :: "GridChunkMessage \<Rightarrow> writer" where
  "WriteGridChunk m =
     thenE (checkE (gc_Data m \<noteq> []) MalformedField)
    (thenE (checkE (\<not> length (gc_Data m) > GRID_CHUNK_MAX_DATA) LengthLimitExceeded)
    (thenE (WriteMessageType GridChunk)
    (thenE (WriteU32BE (gc_ChunkOffset m))
    (WriteBytes (gc_Data m)))))"

definition GridChunk_ok :: "GridChunkMessage \<Rightarrow> bool" where
  "GridChunk_ok m \<longleftrightarrow> gc_Data m \<noteq> [] \<and> \<not> length (gc_Data m) > GRID_CHUNK_MAX_DATA"

definition GridChunk_body :: "GridChunkMessage \<Rightarrow> bytes" where
  "GridChunk_body m = EncodeBE (gc_ChunkOffset m) @ gc_Data m"

lemma writes_WriteGridChunk:
  "GridChunk_ok m \<Longrightarrow> writes (WriteGridChunk m) (type_code GridChunk # GridChunk_body m)"
  unfolding WriteGridChunk_def GridChunk_ok_def GridChunk_body_def
  by (elim conjE) (rule writes_check writes_typed writes_then write_intros | assumption)+

lemma accepts_all_ParseGridChunk: "accepts_all ParseGridChunk (\<lambda>m c. GridChunk_ok m \<and> c = GridChunk_body m)"
  unfolding ParseGridChunk_def
  by (rule accepts_all_mono, (rule accept_payload_rules)+) (auto simp: GridChunk_ok_def GridChunk_body_def)

interpretation gridchunk: checked_codec WriteGridChunk ParseGridChunk "type_code GridChunk"
  GridChunk_body GridChunk_ok "\<lambda>_. True"
proof
  show "GridChunk_ok m \<Longrightarrow> parses_all ParseGridChunk (GridChunk_body m) m" for m
    by (cases m) (simp add: ParseGridChunk_def GridChunk_ok_def GridChunk_body_def parse_simps read_Payload)
  show "\<not> GridChunk_ok m \<Longrightarrow> \<exists>e. \<forall>w. WriteGridChunk m w = (Inl e, w)" for m
    by (auto simp: WriteGridChunk_def GridChunk_ok_def thenE_def bindE_def)
qed (use writes_WriteGridChunk accepts_allD [OF accepts_all_ParseGridChunk] in auto)

text \<open>\<open>GridEndMessage\<close> carries nothing: it is the unit value.\<close>

definition ParseGridEnd :: "unit reader" where
  "ParseGridEnd = parse_end ()"

definition WriteGridEnd :: "unit \<Rightarrow> writer" where
  "WriteGridEnd m = WriteMessageType GridEnd"

lemma accepts_all_ParseGridEnd: "accepts_all ParseGridEnd (\<lambda>m c. c = [])"
  unfolding ParseGridEnd_def by (rule accepts_all_mono, rule accepts_all_end) auto

interpretation gridend: message_codec WriteGridEnd ParseGridEnd "type_code GridEnd" "\<lambda>_. []" "\<lambda>_. True"
proof
  show "writes (WriteGridEnd m) (type_code GridEnd # [])" for m
    unfolding WriteGridEnd_def by (rule writes_WriteMessageType)
  show "parses_all ParseGridEnd [] m" for m
    by (simp add: ParseGridEnd_def parse_simps)
qed (use accepts_allD [OF accepts_all_ParseGridEnd] in auto)

record GridAppliedMessage =
  ga_StreamGen :: u32

definition ParseGridApplied :: "GridAppliedMessage reader" where
  "ParseGridApplied = bindE ReadU32BE (\<lambda>gen. parse_end \<lparr>ga_StreamGen = gen\<rparr>)"

definition WriteGridApplied :: "GridAppliedMessage \<Rightarrow> writer" where
  "WriteGridApplied m = thenE (WriteMessageType GridApplied) (WriteU32BE (ga_StreamGen m))"

lemma writes_WriteGridApplied: "writes (WriteGridApplied m) (type_code GridApplied # EncodeBE (ga_StreamGen m))"
  unfolding WriteGridApplied_def by (rule writes_typed write_intros)+

lemma accepts_all_ParseGridApplied: "accepts_all ParseGridApplied (\<lambda>m c. c = EncodeBE (ga_StreamGen m))"
  unfolding ParseGridApplied_def by (rule accepts_all_mono, (rule accept_rules)+) auto

interpretation gridapplied: message_codec WriteGridApplied ParseGridApplied "type_code GridApplied"
  "\<lambda>m. EncodeBE (ga_StreamGen m)" "\<lambda>_. True"
proof
  show "parses_all ParseGridApplied (EncodeBE (ga_StreamGen m)) m" for m
    by (cases m) (simp add: ParseGridApplied_def parse_simps)
qed (use writes_WriteGridApplied accepts_allD [OF accepts_all_ParseGridApplied] in auto)

subsection \<open>Looking into a cleartext Hello\<close>

definition CLEARTEXT_EPOCH :: byte where "CLEARTEXT_EPOCH = 0"

record HelloPeek =
  hp_FrameSize :: nat
  hp_Id :: bytes

definition PeekHello :: "bytes \<Rightarrow> HelloPeek proto_result" where
  "PeekHello buffer =
     bindR (ReadFrame buffer (of_nat MAX_HANDSHAKE_FRAME)) (\<lambda>frame.
       if fh_Epoch (fv_Header frame) \<noteq> CLEARTEXT_EPOCH then Inl UnexpectedMessage
       else fst (bindE ParseMessageType (\<lambda>type.
            thenE (checkE (type = Hello) UnexpectedMessage)
           (bindE (ReadBytes (length HELLO_MAGIC)) (\<lambda>magic.
            thenE (checkE (magic = HELLO_MAGIC) MalformedField)
           (bindE ReadU16BE (\<lambda>versionMin.
            bindE ReadU16BE (\<lambda>versionMax.
            thenE (checkE (\<not> versionMin > versionMax) MalformedField)
           (bindE (ReadArray SESSION_ID_SIZE) (\<lambda>id.
            returnE \<lparr>hp_FrameSize = fv_Consumed frame, hp_Id = id\<rparr>)))))))) (mk_reader (fv_Body frame))))"

text \<open>Whatever the handshake would accept as a Hello is peeked at with the same session id.\<close>

lemma PeekHello_agrees:
  assumes "ReadFrame buffer (of_nat MAX_HANDSHAKE_FRAME) = Inr frame"
    and "fh_Epoch (fv_Header frame) = CLEARTEXT_EPOCH"
    and "fv_Body frame = type_code Hello # rest"
    and "fst (ParseHello (mk_reader rest)) = Inr m"
  shows "PeekHello buffer = Inr \<lparr>hp_FrameSize = fv_Consumed frame, hp_Id = he_Id m\<rparr>"
proof -
  have ok: "Hello_ok m" and rest: "rest = Hello_body m"
    using assms(4) by (simp_all add: hello.parse_iff)
  have ty: "ParseMessageType (rd_at [] (type_code Hello # t)) = (Inr Hello, rd_at [type_code Hello] t)" for t
    using parses_ParseMessageType [of Hello] unfolding parses_def by (metis append_Nil append_Cons)
  show ?thesis
    using ok ty
    by (auto simp: PeekHello_def assms(1,2,3) rest mk_reader_rd_at Hello_ok_def Hello_body_def parse_simps simp del: type_code.simps)
qed

definition AppendGridCapableTlv :: "bytes \<Rightarrow> (nat \<times> bytes) proto_result" where
  "AppendGridCapableTlv out =
     (if length out < 3 * 2 then Inl BufferTooSmall
      else let w0 = mk_writer (take (3 * 2) out);
               w1 = snd (WriteU16BE TLV_GRID_CAPABLE w0);
               w2 = snd (WriteU16BE 2 w1);
               w3 = snd (WriteU16BE 1 w2)
           in Inr (3 * 2, wr_Out w3 @ drop (3 * 2) out))"

text \<open>The \<open>while (!reader.Exhausted())\<close> loop of \<open>HasGridCapableTlv\<close>.\<close>

function HasGridCapableLoop :: "ByteReader \<Rightarrow> bool proto_result" where
  "HasGridCapableLoop r =
     (if Exhausted r then Inr False
      else case ParseOption r of
        (Inl e, r') \<Rightarrow> Inl e
      | (Inr opt, r') \<Rightarrow>
          if opt_Type opt = TLV_GRID_CAPABLE then
            (if length (opt_Value opt) \<noteq> 2 then Inl MalformedField
             else case ReadU16BE (mk_reader (opt_Value opt)) of
               (Inl e, _) \<Rightarrow> Inl e
             | (Inr v, _) \<Rightarrow> if v \<noteq> 1 then Inl MalformedField else Inr True)
          else HasGridCapableLoop r')"
  by pat_completeness auto
termination
  by (relation "measure rd_Remaining") (auto dest: ParseOption_Remaining [OF sym])

declare HasGridCapableLoop.simps [simp del]

definition HasGridCapableTlv :: "bytes \<Rightarrow> bool proto_result" where
  "HasGridCapableTlv tlvs = HasGridCapableLoop (mk_reader tlvs)"

text \<open>What it computes on a list of options.\<close>

definition grid_capability :: "TlvList \<Rightarrow> bool proto_result" where
  "grid_capability opts =
     (case find (\<lambda>opt. opt_Type opt = TLV_GRID_CAPABLE) opts of
        None \<Rightarrow> Inr False
      | Some opt \<Rightarrow> if opt_Value opt = EncodeBE (1 :: u16) then Inr True else Inl MalformedField)"

lemma option_bytes_nonempty [simp]: "option_bytes opt @ t \<noteq> []"
  by (metis append_is_Nil_conv length_EncodeBE_widths(2) list.size(3) option_bytes_def zero_neq_numeral)

lemma ReadU16BE_mk_reader:
  assumes "length v = 2"
  shows "ReadU16BE (mk_reader v) = (Inr (DecodeBE v), rd_at v [])"
    and "(DecodeBE v :: u16) = 1 \<longleftrightarrow> v = EncodeBE (1 :: u16)"
proof -
  have v: "EncodeBE (DecodeBE v :: u16) = v" using assms by (intro EncodeBE_DecodeBE) simp
  then show "ReadU16BE (mk_reader v) = (Inr (DecodeBE v), rd_at v [])"
    using read_U16(2) [of "[]" "DecodeBE v"] by (simp add: mk_reader_rd_at)
  show "(DecodeBE v :: u16) = 1 \<longleftrightarrow> v = EncodeBE (1 :: u16)"
    using v by (metis DecodeBE_EncodeBE_widths(2))
qed

lemma HasGridCapableLoop_options:
  "\<forall>opt \<in> set opts. length (opt_Value opt) \<le> MAX_TLV_VALUE_SIZE \<Longrightarrow>
   HasGridCapableLoop (rd_at pre (options_bytes opts)) = grid_capability opts"
proof (induction opts arbitrary: pre)
  case Nil
  then show ?case by (simp add: HasGridCapableLoop.simps options_bytes_def grid_capability_def)
next
  case (Cons opt opts)
  have "parses ParseOption (option_bytes opt) opt" using Cons.prems by (intro parses_ParseOption) simp
  then have one: "ParseOption (rd_at pre (option_bytes opt @ options_bytes opts)) =
      (Inr opt, rd_at (pre @ option_bytes opt) (options_bytes opts))"
    by (simp add: parses_def)
  have len: "opt_Value opt = EncodeBE (1 :: u16) \<Longrightarrow> length (opt_Value opt) = 2" by simp
  have all: "options_bytes (opt # opts) = option_bytes opt @ options_bytes opts"
    by (simp add: options_bytes_def)
  show ?case
    using Cons.IH [of "pre @ option_bytes opt"] Cons.prems len ReadU16BE_mk_reader [of "opt_Value opt"]
    by (auto simp: HasGridCapableLoop.simps [of "rd_at _ _"] all one grid_capability_def
        simp del: append_is_Nil_conv)
qed

lemma HasGridCapableTlv_options:
  "TlvList_ok opts \<Longrightarrow> HasGridCapableTlv (options_bytes opts) = grid_capability opts"
  using HasGridCapableLoop_options [of opts "[]"]
  by (simp add: HasGridCapableTlv_def mk_reader_rd_at TlvList_ok_def)

end
