(* ===== verification/Crypto.thy ===== *)
theory Crypto
  imports Wire_Message
begin

text \<open>
  \<^verbatim>\<open>src/crypto/crypto.cpp\<close> and \<^verbatim>\<open>src/wire/key_schedule.cpp\<close>: the wrappers around libsodium and
  the key tree built on them.

  libsodium itself is not part of the repository. It is a parameter of every definition that calls
  it, the record \<open>sodium\<close> of the functions used, each total, with the return code of the fallible
  ones as \<open>None\<close>. What the program relies on is stated as the predicates \<open>aead_correct\<close>,
  \<open>auth_correct\<close>, \<open>kx_correct\<close> and \<open>widths_correct\<close> (documented behaviour: decryption inverts
  encryption under the same key, nonce and associated data; verification accepts exactly the tag
  computed; both ends of a key exchange derive mirrored keys; outputs have the requested width).
  No secrecy or unforgeability is assumed anywhere. A \<open>Secret\<close> key is its 32 bytes; wiping is the
  all-zero key.
\<close>

record sodium =
  aead_encrypt :: "bytes \<Rightarrow> bytes \<Rightarrow> bytes \<Rightarrow> bytes \<Rightarrow> bytes option" \<comment> \<open>plaintext, ad, nonce, key\<close>
  aead_decrypt :: "bytes \<Rightarrow> bytes \<Rightarrow> bytes \<Rightarrow> bytes \<Rightarrow> bytes option" \<comment> \<open>ciphertext, ad, nonce, key\<close>
  kdf_derive_from_key :: "nat \<Rightarrow> u64 \<Rightarrow> bytes \<Rightarrow> bytes \<Rightarrow> bytes" \<comment> \<open>width, subkey id, context, key\<close>
  generichash :: "nat \<Rightarrow> bytes \<Rightarrow> bytes \<Rightarrow> bytes" \<comment> \<open>width, message, key (empty for none)\<close>
  auth :: "bytes \<Rightarrow> bytes \<Rightarrow> bytes" \<comment> \<open>message, key\<close>
  auth_verify :: "bytes \<Rightarrow> bytes \<Rightarrow> bytes \<Rightarrow> bool" \<comment> \<open>mac, message, key\<close>
  kx_seed_keypair :: "bytes \<Rightarrow> bytes \<times> bytes" \<comment> \<open>seed to public and private\<close>
  kx_client_session_keys :: "bytes \<Rightarrow> bytes \<Rightarrow> bytes \<Rightarrow> (bytes \<times> bytes) option" \<comment> \<open>own pk, sk, peer pk to rx, tx\<close>
  kx_server_session_keys :: "bytes \<Rightarrow> bytes \<Rightarrow> bytes \<Rightarrow> (bytes \<times> bytes) option"

definition aead_correct :: "sodium \<Rightarrow> bool" where
  "aead_correct S \<longleftrightarrow> (\<forall>p ad n k c. aead_encrypt S p ad n k = Some c \<longrightarrow>
     length c = length p + TAG_SIZE \<and> aead_decrypt S c ad n k = Some p)"

definition aead_total :: "sodium \<Rightarrow> bool" where
  "aead_total S \<longleftrightarrow> (\<forall>p ad n k. aead_encrypt S p ad n k \<noteq> None)"

definition auth_correct :: "sodium \<Rightarrow> bool" where
  "auth_correct S \<longleftrightarrow> (\<forall>m k. length (auth S m k) = MAC_SIZE \<and> auth_verify S (auth S m k) m k)"

definition kx_correct :: "sodium \<Rightarrow> bool" where
  "kx_correct S \<longleftrightarrow> (\<forall>cs ss. let (cpk, csk) = kx_seed_keypair S cs; (spk, ssk) = kx_seed_keypair S ss in
     (\<exists>rx tx. kx_client_session_keys S cpk csk spk = Some (rx, tx) \<and>
              kx_server_session_keys S spk ssk cpk = Some (tx, rx)))"

definition widths_correct :: "sodium \<Rightarrow> bool" where
  "widths_correct S \<longleftrightarrow> (\<forall>n i c k. length (kdf_derive_from_key S n i c k) = n) \<and>
     (\<forall>n m k. length (generichash S n m k) = n) \<and>
     (\<forall>s. length (fst (kx_seed_keypair S s)) = PUBLIC_KEY_SIZE)"

subsection \<open>Wrappers (crypto.cpp)\<close>

type_synonym Key = bytes

definition zero_key :: Key where
  "zero_key = replicate KEY_SIZE 0"

record KeyPair =
  kp_Public :: bytes
  kp_Private :: Key

record SessionKeys =
  sk_Receive :: Key
  sk_Transmit :: Key

definition KeyPairFromSeed :: "sodium \<Rightarrow> Key \<Rightarrow> KeyPair" where
  "KeyPairFromSeed S seed = (let (pk, sk) = kx_seed_keypair S seed in \<lparr>kp_Public = pk, kp_Private = sk\<rparr>)"

definition DeriveClientKeys :: "sodium \<Rightarrow> KeyPair \<Rightarrow> bytes \<Rightarrow> SessionKeys proto_result" where
  "DeriveClientKeys S own peer =
     (case kx_client_session_keys S (kp_Public own) (kp_Private own) peer of
        None \<Rightarrow> Inl MalformedField
      | Some (rx, tx) \<Rightarrow> Inr \<lparr>sk_Receive = rx, sk_Transmit = tx\<rparr>)"

definition DeriveServerKeys :: "sodium \<Rightarrow> KeyPair \<Rightarrow> bytes \<Rightarrow> SessionKeys proto_result" where
  "DeriveServerKeys S own peer =
     (case kx_server_session_keys S (kp_Public own) (kp_Private own) peer of
        None \<Rightarrow> Inl MalformedField
      | Some (rx, tx) \<Rightarrow> Inr \<lparr>sk_Receive = rx, sk_Transmit = tx\<rparr>)"

definition DeriveSubkey :: "sodium \<Rightarrow> Key \<Rightarrow> u64 \<Rightarrow> bytes \<Rightarrow> Key" where
  "DeriveSubkey S master subkeyId context = kdf_derive_from_key S KEY_SIZE subkeyId context master"

definition DeriveBytes :: "sodium \<Rightarrow> nat \<Rightarrow> Key \<Rightarrow> u64 \<Rightarrow> bytes \<Rightarrow> bytes" where
  "DeriveBytes S tSize master subkeyId context = kdf_derive_from_key S tSize subkeyId context master"

definition Hash :: "sodium \<Rightarrow> nat \<Rightarrow> bytes \<Rightarrow> bytes" where
  "Hash S tSize message = generichash S tSize message []"

definition DeriveFromInfo :: "sodium \<Rightarrow> Key \<Rightarrow> bytes \<Rightarrow> Key" where
  "DeriveFromInfo S master info = generichash S KEY_SIZE info master"

text \<open>A result is the length written and the output buffer after the call.\<close>

definition AeadSeal :: "sodium \<Rightarrow> bytes \<Rightarrow> bytes \<Rightarrow> bytes \<Rightarrow> Key \<Rightarrow> bytes \<Rightarrow> (nat \<times> bytes) proto_result" where
  "AeadSeal S out plaintext associatedData key nonce =
     (if length nonce \<noteq> NONCE_SIZE then Inl MalformedField
      else if length out < length plaintext + TAG_SIZE then Inl BufferTooSmall
      else case aead_encrypt S plaintext associatedData nonce key of
        None \<Rightarrow> Inl MalformedField
      | Some c \<Rightarrow> Inr (length c, blit out 0 c))"

definition AeadOpen :: "sodium \<Rightarrow> bytes \<Rightarrow> bytes \<Rightarrow> bytes \<Rightarrow> Key \<Rightarrow> bytes \<Rightarrow> (nat \<times> bytes) proto_result" where
  "AeadOpen S out ciphertext associatedData key nonce =
     (if length nonce \<noteq> NONCE_SIZE then Inl MalformedField
      else if length ciphertext < TAG_SIZE then Inl AuthenticationFailed
      else if length out < length ciphertext - TAG_SIZE then Inl BufferTooSmall
      else case aead_decrypt S ciphertext associatedData nonce key of
        None \<Rightarrow> Inl AuthenticationFailed
      | Some p \<Rightarrow> Inr (length p, blit out 0 p))"

definition Authenticate :: "sodium \<Rightarrow> bytes \<Rightarrow> Key \<Rightarrow> bytes" where
  "Authenticate S message key = auth S message key"

definition VerifyMac :: "sodium \<Rightarrow> bytes \<Rightarrow> bytes \<Rightarrow> Key \<Rightarrow> bool" where
  "VerifyMac S mac message key = auth_verify S mac message key"

text \<open>Opening what was sealed, whatever the buffers.\<close>

lemma AeadOpen_AeadSeal:
  assumes "aead_correct S" and "AeadSeal S out p ad k n = Inr (len, out')" and "length p \<le> length into"
  shows "len = length p + TAG_SIZE" and "length (take len out') = len"
    and "AeadOpen S into (take len out') ad k n = Inr (length p, blit into 0 p)"
proof -
  obtain c where c: "aead_encrypt S p ad n k = Some c" "len = length c" "out' = blit out 0 c"
      "length n = NONCE_SIZE" "length p + TAG_SIZE \<le> length out"
    using assms(2) by (auto simp: AeadSeal_def split: if_splits option.splits)
  then have len: "length c = length p + TAG_SIZE" and dec: "aead_decrypt S c ad n k = Some p"
    using assms(1) by (auto simp: aead_correct_def)
  have tk: "take len out' = c" using c(2,3) by (simp add: blit_def)
  show "len = length p + TAG_SIZE" "length (take len out') = len" using len tk c(2) by simp_all
  show "AeadOpen S into (take len out') ad k n = Inr (length p, blit into 0 p)"
    using assms(3) len dec tk c(4) by (simp add: AeadOpen_def)
qed

subsection \<open>The key tree (key_schedule.cpp)\<close>

definition SESSION_CONTEXT :: bytes where "SESSION_CONTEXT = ascii ''zet-sess''"
definition CONNECTION_CONTEXT :: bytes where "CONNECTION_CONTEXT = ascii ''zet-conn''"
definition SEED_RATCHET_CONTEXT :: bytes where "SEED_RATCHET_CONTEXT = ascii ''zet-rtch''"
definition BOOTSTRAP_LABEL :: bytes where "BOOTSTRAP_LABEL = ascii ''zet-boot''"
definition SALT_SIZE :: nat where [size_defs]: "SALT_SIZE = NONCE_SIZE - 8"

record SessionSecrets =
  ss_Id :: bytes
  ss_Registration :: Key
  ss_Auth :: Key
  ss_ConnectionSeed :: Key

record ConnectionKeys =
  ck_ClientToServer :: Key
  ck_ServerToClient :: Key
  ck_SaltClientToServer :: bytes
  ck_SaltServerToClient :: bytes

definition SessionIdOf :: "sodium \<Rightarrow> Key \<Rightarrow> bytes" where
  "SessionIdOf S registration = Hash S SESSION_ID_SIZE registration"

definition DeriveSessionSecrets :: "sodium \<Rightarrow> Key \<Rightarrow> SessionSecrets" where
  "DeriveSessionSecrets S master =
     (let registration = DeriveSubkey S master 1 SESSION_CONTEXT in
      \<lparr>ss_Id = SessionIdOf S registration,
       ss_Registration = registration,
       ss_Auth = DeriveSubkey S master 2 SESSION_CONTEXT,
       ss_ConnectionSeed = DeriveSubkey S master 3 SESSION_CONTEXT\<rparr>)"

definition DeriveDecoySecrets :: "sodium \<Rightarrow> Key \<Rightarrow> bytes \<Rightarrow> SessionSecrets" where
  "DeriveDecoySecrets S localSecret sid =
     (let master = DeriveFromInfo S localSecret sid in (DeriveSessionSecrets S master)\<lparr>ss_Id := sid\<rparr>)"

text \<open>The \<open>info\<close> buffers are zero-filled arrays exactly as wide as what is written into them; the results
  of the writes are discarded, as in the source.\<close>

definition DeriveConnectionKeys :: "sodium \<Rightarrow> Key \<Rightarrow> bytes \<Rightarrow> bytes \<Rightarrow> ConnectionKeys" where
  "DeriveConnectionKeys S connectionSeed clientNonce serverNonce =
     (let w0 = mk_writer (replicate (2 * HANDSHAKE_NONCE_SIZE) 0);
          w1 = snd (WriteBytes clientNonce w0);
          w2 = snd (WriteBytes serverNonce w1);
          connection = DeriveFromInfo S connectionSeed (wr_Out w2)
      in \<lparr>ck_ClientToServer = DeriveSubkey S connection 1 CONNECTION_CONTEXT,
          ck_ServerToClient = DeriveSubkey S connection 2 CONNECTION_CONTEXT,
          ck_SaltClientToServer = DeriveBytes S SALT_SIZE connection 3 CONNECTION_CONTEXT,
          ck_SaltServerToClient = DeriveBytes S SALT_SIZE connection 4 CONNECTION_CONTEXT\<rparr>)"

definition DeriveBootstrapMaster :: "sodium \<Rightarrow> Key \<Rightarrow> u16 \<Rightarrow> bytes \<Rightarrow> bytes \<Rightarrow> Key" where
  "DeriveBootstrapMaster S exchanged version clientNonce agentNonce =
     (let w0 = mk_writer (replicate (length BOOTSTRAP_LABEL + 2 + 2 * BOOTSTRAP_NONCE_SIZE) 0);
          w1 = snd (WriteBytes BOOTSTRAP_LABEL w0);
          w2 = snd (WriteU16BE version w1);
          w3 = snd (WriteBytes clientNonce w2);
          w4 = snd (WriteBytes agentNonce w3)
      in DeriveFromInfo S exchanged (wr_Out w4))"

definition AdvanceConnectionSeed :: "sodium \<Rightarrow> Key \<Rightarrow> Key" where
  "AdvanceConnectionSeed S connectionSeed = DeriveSubkey S connectionSeed 1 SEED_RATCHET_CONTEXT"

text \<open>"The writes cannot fail": both derivations hash exactly the bytes their comments announce.\<close>

lemma DeriveConnectionKeys_info:
  assumes "length cn = HANDSHAKE_NONCE_SIZE" and "length sn = HANDSHAKE_NONCE_SIZE"
  shows "wr_Out (snd (WriteBytes sn (snd (WriteBytes cn (mk_writer (replicate (2 * HANDSHAKE_NONCE_SIZE) 0)))))) = cn @ sn"
  using assms by (simp add: mk_writer_wr_at WriteBytes_wr_at)

lemma DeriveBootstrapMaster_info:
  assumes "length cn = BOOTSTRAP_NONCE_SIZE" and "length an = BOOTSTRAP_NONCE_SIZE"
  shows "DeriveBootstrapMaster S ex version cn an =
     DeriveFromInfo S ex (BOOTSTRAP_LABEL @ EncodeBE version @ cn @ an)"
  using assms
  by (simp add: DeriveBootstrapMaster_def mk_writer_wr_at WriteBytes_wr_at WriteU_as_WriteBytes Let_def)

lemma ck_salt_width:
  "widths_correct S \<Longrightarrow> length (ck_SaltClientToServer (DeriveConnectionKeys S seed cn sn)) = SALT_SIZE"
  "widths_correct S \<Longrightarrow> length (ck_SaltServerToClient (DeriveConnectionKeys S seed cn sn)) = SALT_SIZE"
  by (simp_all add: DeriveConnectionKeys_def Let_def DeriveBytes_def widths_correct_def)

end
