(* ===== verification/Wire_Seal.thy ===== *)
theory Wire_Seal
  imports Crypto
begin

text \<open>
  \<^verbatim>\<open>src/wire/sealed_frame.cpp\<close>: \<open>FrameSealer\<close> and \<open>FrameOpener\<close>, the two ends of one direction of a
  connection.

  The counter is implicit, so the two objects must move in step. \<open>in_step\<close> is the relation that makes
  them so: equal generation and counter, or the sealer one generation ahead with nothing sent yet.
  Every frame the sealer produces from such a pair opens to the plaintext and restores the relation;
  a rejected frame moves nothing; and the frames of a stream are the encryptions under each generation's key
  with the nonces of their positions, no two under the same key and nonce.
\<close>

definition REKEY_CONTEXT :: bytes where "REKEY_CONTEXT = ascii ''zet-rkey''"
definition MAX_FRAMES_PER_EPOCH :: u64 where "MAX_FRAMES_PER_EPOCH = 2 ^ 24"
definition MAX_BYTES_PER_EPOCH :: u64 where "MAX_BYTES_PER_EPOCH = 2 ^ 30"

text \<open>\<open>MakeNonce\<close>: a zeroed array, the salt copied to its front, the counter written behind it.\<close>

definition MakeNonce :: "bytes \<Rightarrow> u64 \<Rightarrow> bytes" where
  "MakeNonce salt counter =
     (let nonce = blit (replicate NONCE_SIZE 0) 0 salt;
          w = snd (WriteU64BE counter (mk_writer (drop SALT_SIZE nonce)))
      in take SALT_SIZE nonce @ wr_Out w)"

lemma MakeNonce_eq: "length salt = SALT_SIZE \<Longrightarrow> MakeNonce salt counter = salt @ EncodeBE counter"
  by (simp add: MakeNonce_def blit_def WriteU_as_WriteBytes mk_writer_wr_at WriteBytes_wr_at size_defs Let_def)

lemma MakeNonce_inject:
  "length salt = SALT_SIZE \<Longrightarrow> MakeNonce salt a = MakeNonce salt b \<longleftrightarrow> a = b"
  by (simp add: MakeNonce_eq) (metis DecodeBE_EncodeBE_widths(4))

lemma length_MakeNonce: "length salt = SALT_SIZE \<Longrightarrow> length (MakeNonce salt c) = NONCE_SIZE"
  by (simp add: MakeNonce_eq size_defs)

subsection \<open>FrameSealer\<close>

record FrameSealer =
  sl_Key :: Key
  sl_Salt :: bytes
  sl_FrameLimit :: u64
  sl_ByteLimit :: u64
  sl_Counter :: u64
  sl_BytesSealed :: u64
  sl_Epoch :: byte

definition mk_FrameSealer :: "Key \<Rightarrow> bytes \<Rightarrow> u64 \<Rightarrow> u64 \<Rightarrow> FrameSealer" where
  "mk_FrameSealer key salt frameLimit byteLimit =
     \<lparr>sl_Key = key, sl_Salt = salt, sl_FrameLimit = frameLimit, sl_ByteLimit = byteLimit,
      sl_Counter = 0, sl_BytesSealed = 0, sl_Epoch = 0\<rparr>"

text \<open>The result of a successful \<open>Seal\<close>: the total length and the output buffer.\<close>

definition Seal :: "sodium \<Rightarrow> bytes \<Rightarrow> bytes \<Rightarrow> (EProtoError, FrameSealer, nat \<times> bytes) sm" where
  "Seal S out plaintext s =
     (if sl_Counter s \<ge> sl_FrameLimit s then (Inl RekeyRequired, s)
      else let bodyLength = length plaintext + TAG_SIZE in
      if bodyLength > MAX_FRAME then (Inl LengthLimitExceeded, s)
      else if length out < HEADER_SIZE + bodyLength then (Inl BufferTooSmall, s)
      else let header = \<lparr>fh_Length = of_nat bodyLength, fh_Epoch = sl_Epoch s\<rparr> in
      case WriteFrameHeader header (mk_writer out) of
        (Inl e, w) \<Rightarrow> (Inl e, s)
      | (Inr u, w) \<Rightarrow>
          (let out1 = wr_Out w;
               associatedData = take HEADER_SIZE out1;
               nonce = MakeNonce (sl_Salt s) (sl_Counter s) in
           case AeadSeal S (drop HEADER_SIZE out1) plaintext associatedData (sl_Key s) nonce of
             Inl e \<Rightarrow> (Inl e, s)
           | Inr (sealed, rest) \<Rightarrow>
               (Inr (HEADER_SIZE + sealed, take HEADER_SIZE out1 @ rest),
                s\<lparr>sl_Counter := sl_Counter s + 1,
                  sl_BytesSealed := sl_BytesSealed s + of_nat (length plaintext)\<rparr>)))"

definition NeedsRekey :: "FrameSealer \<Rightarrow> bool" where
  "NeedsRekey s \<longleftrightarrow> sl_Counter s \<ge> sl_FrameLimit s \<or> sl_BytesSealed s \<ge> sl_ByteLimit s"

definition Rekey :: "sodium \<Rightarrow> (EProtoError, FrameSealer, unit) sm" where
  "Rekey S s =
     (if sl_Epoch s = 0xFF then (Inl EpochsExhausted, s)
      else (Inr (), s\<lparr>sl_Key := DeriveSubkey S (sl_Key s) (ucast (sl_Epoch s) + 1) REKEY_CONTEXT,
                      sl_Epoch := sl_Epoch s + 1,
                      sl_Counter := 0,
                      sl_BytesSealed := 0\<rparr>))"

subsection \<open>FrameOpener\<close>

record FrameOpener =
  op_Key :: Key
  op_NextKey :: Key
  op_Salt :: bytes
  op_FrameLimit :: u64
  op_Counter :: u64
  op_NextCounter :: u64
  op_Epoch :: byte
  op_NextReady :: bool

definition mk_FrameOpener :: "Key \<Rightarrow> bytes \<Rightarrow> u64 \<Rightarrow> FrameOpener" where
  "mk_FrameOpener key salt frameLimit =
     \<lparr>op_Key = key, op_NextKey = zero_key, op_Salt = salt, op_FrameLimit = frameLimit,
      op_Counter = 0, op_NextCounter = 0, op_Epoch = 0, op_NextReady = False\<rparr>"

definition PrepareNext :: "sodium \<Rightarrow> FrameOpener \<Rightarrow> FrameOpener" where
  "PrepareNext S o' =
     (if op_NextReady o' \<or> op_Epoch o' = 0xFF then o'
      else o'\<lparr>op_NextKey := DeriveSubkey S (op_Key o') (ucast (op_Epoch o') + 1) REKEY_CONTEXT,
             op_NextCounter := 0,
             op_NextReady := True\<rparr>)"

text \<open>On success the result is the opened plaintext, the front of the output buffer. Moving \<open>NextKey_\<close>
  out wipes it.\<close>

definition Open :: "sodium \<Rightarrow> bytes \<Rightarrow> FrameView \<Rightarrow> (EProtoError, FrameOpener, bytes) sm" where
  "Open S out frame o0 =
     (let isNextEpoch = (fh_Epoch (fv_Header frame) = op_Epoch o0 + 1) in
      if \<not> isNextEpoch \<and> fh_Epoch (fv_Header frame) \<noteq> op_Epoch o0
      then (Inl AuthenticationFailed, o0)
      else let o1 = (if isNextEpoch then PrepareNext S o0 else o0);
               counter = (if isNextEpoch then op_NextCounter o1 else op_Counter o1) in
      if counter \<ge> op_FrameLimit o1 then (Inl RekeyRequired, o1)
      else let headerBytes = wr_Out (snd (WriteFrameHeader (fv_Header frame) (mk_writer (replicate HEADER_SIZE 0))));
               key = (if isNextEpoch then op_NextKey o1 else op_Key o1);
               nonce = MakeNonce (op_Salt o1) counter in
      case AeadOpen S out (fv_Body frame) headerBytes key nonce of
        Inl e \<Rightarrow> (Inl e, o1)
      | Inr (opened, out') \<Rightarrow>
          (Inr (take opened out'),
           if isNextEpoch
           then o1\<lparr>op_Key := op_NextKey o1, op_NextKey := zero_key,
                   op_Counter := counter + 1, op_Epoch := op_Epoch o1 + 1,
                   op_NextReady := False, op_NextCounter := 0\<rparr>
           else o1\<lparr>op_Counter := counter + 1\<rparr>))"

subsection \<open>A sealed frame\<close>

lemma header_written: "wr_Out (snd (WriteFrameHeader h (mk_writer (replicate HEADER_SIZE 0)))) = header_bytes h"
  using writes_ok [OF writes_WriteFrameHeader, of h "replicate HEADER_SIZE 0"] by simp

text \<open>What a successful \<open>Seal\<close> leaves in the buffer: header and ciphertext, one well-formed frame.\<close>

lemma Seal_InrD:
  assumes "Seal S out p s = (Inr (n, out'), s')"
  obtains c where
    "aead_encrypt S p (header_bytes \<lparr>fh_Length = of_nat (length p + TAG_SIZE), fh_Epoch = sl_Epoch s\<rparr>)
       (MakeNonce (sl_Salt s) (sl_Counter s)) (sl_Key s) = Some c"
    "take n out' = frame_bytes \<lparr>fh_Length = of_nat (length p + TAG_SIZE), fh_Epoch = sl_Epoch s\<rparr> c"
    "n = HEADER_SIZE + length c"
    "length p + TAG_SIZE \<le> MAX_FRAME" "sl_Counter s < sl_FrameLimit s"
    "length (MakeNonce (sl_Salt s) (sl_Counter s)) = NONCE_SIZE"
    "s' = s\<lparr>sl_Counter := sl_Counter s + 1, sl_BytesSealed := sl_BytesSealed s + of_nat (length p)\<rparr>"
proof -
  let ?h = "\<lparr>fh_Length = of_nat (length p + TAG_SIZE), fh_Epoch = sl_Epoch s\<rparr> :: FrameHeader"
  have guards: "sl_Counter s < sl_FrameLimit s" "length p + TAG_SIZE \<le> MAX_FRAME"
      "HEADER_SIZE + (length p + TAG_SIZE) \<le> length out"
    using assms by (auto simp: Seal_def Let_def not_le split: if_splits)
  then have w: "WriteFrameHeader ?h (mk_writer out) = (Inr (), wr_at (header_bytes ?h) (drop HEADER_SIZE out))"
    using writes_ok [OF writes_WriteFrameHeader, of ?h out] by simp
  obtain sealed rest where
      a: "AeadSeal S (drop HEADER_SIZE out) p (header_bytes ?h) (sl_Key s) (MakeNonce (sl_Salt s) (sl_Counter s)) = Inr (sealed, rest)"
      and n: "n = HEADER_SIZE + sealed" "out' = header_bytes ?h @ rest"
      and s': "s' = s\<lparr>sl_Counter := sl_Counter s + 1, sl_BytesSealed := sl_BytesSealed s + of_nat (length p)\<rparr>"
    using assms guards w by (auto simp: Seal_def Let_def split: if_splits sum.splits)
  from a obtain c where c: "aead_encrypt S p (header_bytes ?h) (MakeNonce (sl_Salt s) (sl_Counter s)) (sl_Key s) = Some c"
      "sealed = length c" "rest = blit (drop HEADER_SIZE out) 0 c"
      "length (MakeNonce (sl_Salt s) (sl_Counter s)) = NONCE_SIZE"
    by (auto simp: AeadSeal_def split: if_splits option.splits)
  have "take n out' = frame_bytes ?h c" using n c by (simp add: frame_bytes_def blit_def)
  with c n s' guards show ?thesis by (intro that) auto
qed

text \<open>The two ends in step.\<close>

definition synced :: "FrameSealer \<Rightarrow> FrameOpener \<Rightarrow> bool" where
  "synced s o' \<longleftrightarrow> sl_Key s = op_Key o' \<and> sl_Epoch s = op_Epoch o' \<and> sl_Counter s = op_Counter o'"

definition ahead :: "sodium \<Rightarrow> FrameSealer \<Rightarrow> FrameOpener \<Rightarrow> bool" where
  "ahead S s o' \<longleftrightarrow> op_Epoch o' \<noteq> 0xFF \<and> sl_Epoch s = op_Epoch o' + 1 \<and> sl_Counter s = 0 \<and>
     sl_Key s = DeriveSubkey S (op_Key o') (ucast (op_Epoch o') + 1) REKEY_CONTEXT"

definition in_step :: "sodium \<Rightarrow> FrameSealer \<Rightarrow> FrameOpener \<Rightarrow> bool" where
  "in_step S s o' \<longleftrightarrow> sl_Salt s = op_Salt o' \<and> sl_FrameLimit s = op_FrameLimit o' \<and>
     (op_NextReady o' \<longrightarrow> op_Epoch o' \<noteq> 0xFF \<and> op_NextCounter o' = 0 \<and>
        op_NextKey o' = DeriveSubkey S (op_Key o') (ucast (op_Epoch o') + 1) REKEY_CONTEXT) \<and>
     (synced s o' \<or> ahead S s o')"

lemma in_step_init: "in_step S (mk_FrameSealer key salt fl bl) (mk_FrameOpener key salt fl)"
  by (simp add: in_step_def synced_def mk_FrameSealer_def mk_FrameOpener_def)

lemma byte_succ_neq: "(b :: byte) \<noteq> b + 1"
  by simp

text \<open>The frame \<open>ReadFrame\<close> finds in what \<open>Seal\<close> wrote.\<close>

lemma Seal_ReadFrame:
  assumes "aead_correct S" and "Seal S out p s = (Inr (n, out'), s')"
  obtains c where "ReadFrame (take n out') (of_nat MAX_FRAME) =
      Inr \<lparr>fv_Header = \<lparr>fh_Length = of_nat (length p + TAG_SIZE), fh_Epoch = sl_Epoch s\<rparr>,
           fv_Body = c, fv_Consumed = n\<rparr>"
    "aead_encrypt S p (header_bytes \<lparr>fh_Length = of_nat (length p + TAG_SIZE), fh_Epoch = sl_Epoch s\<rparr>)
       (MakeNonce (sl_Salt s) (sl_Counter s)) (sl_Key s) = Some c"
    "length c = length p + TAG_SIZE"
proof -
  let ?h = "\<lparr>fh_Length = of_nat (length p + TAG_SIZE), fh_Epoch = sl_Epoch s\<rparr> :: FrameHeader"
  from assms(2) obtain c where c: "aead_encrypt S p (header_bytes ?h) (MakeNonce (sl_Salt s) (sl_Counter s)) (sl_Key s) = Some c"
      "take n out' = frame_bytes ?h c" "n = HEADER_SIZE + length c" "length p + TAG_SIZE \<le> MAX_FRAME"
    by (rule Seal_InrD)
  have len: "length c = length p + TAG_SIZE" using assms(1) c(1) by (auto simp: aead_correct_def)
  have u: "unat (of_nat (length p + TAG_SIZE) :: u32) = length p + TAG_SIZE"
    using c(4) by (intro unat_of_nat_small) (simp add: size_defs)
  then have "0 < (of_nat (length p + TAG_SIZE) :: u32)" "\<not> (of_nat MAX_FRAME :: u32) < of_nat (length p + TAG_SIZE)"
    using c(4) unat_of_nat_small [of MAX_FRAME, where ?'a = 32] by (auto simp: word_less_nat_alt size_defs)
  then have "ReadFrame (take n out') (of_nat MAX_FRAME) = Inr \<lparr>fv_Header = ?h, fv_Body = c, fv_Consumed = n\<rparr>"
    using u len c(3) unfolding c(2) frame_bytes_def ReadFrame_header by (auto simp del: of_nat_add)
  then show ?thesis using c(1) len by (rule that)
qed

subsection \<open>The two ends together\<close>

text \<open>Opening the frame that was just sealed.\<close>

lemma Open_in_step:
  assumes S: "aead_correct S" and step: "in_step S s o'"
    and seal: "Seal S out p s = (Inr (n, out'), s')"
    and frame: "ReadFrame (take n out') (of_nat MAX_FRAME) = Inr frame"
    and room: "length p \<le> length into"
  shows "\<exists>o''. Open S into frame o' = (Inr p, o'') \<and> in_step S s' o'' \<and> synced s' o''"
proof -
  let ?h = "\<lparr>fh_Length = of_nat (length p + TAG_SIZE), fh_Epoch = sl_Epoch s\<rparr> :: FrameHeader"
  let ?n = "MakeNonce (sl_Salt s) (sl_Counter s)"
  obtain c where rf: "ReadFrame (take n out') (of_nat MAX_FRAME) = Inr \<lparr>fv_Header = ?h, fv_Body = c, fv_Consumed = n\<rparr>"
      and enc: "aead_encrypt S p (header_bytes ?h) ?n (sl_Key s) = Some c" and len: "length c = length p + TAG_SIZE"
    using S seal by (rule Seal_ReadFrame)
  have f: "frame = \<lparr>fv_Header = ?h, fv_Body = c, fv_Consumed = n\<rparr>" using rf frame by simp
  have dec: "aead_decrypt S c (header_bytes ?h) ?n (sl_Key s) = Some p" using S enc by (auto simp: aead_correct_def)
  obtain guards: "sl_Counter s < sl_FrameLimit s" "length ?n = NONCE_SIZE"
      and s': "s' = s\<lparr>sl_Counter := sl_Counter s + 1, sl_BytesSealed := sl_BytesSealed s + of_nat (length p)\<rparr>"
    using Seal_InrD [OF seal] by metis
  have open_c: "AeadOpen S into c (header_bytes ?h) (sl_Key s) ?n = Inr (length p, blit into 0 p)"
    using dec len room guards(2) by (simp add: AeadOpen_def)
  have tk: "take (length p) (blit into 0 p) = p" by (simp add: blit_def)
  show ?thesis
  proof (cases "synced s o'")
    case True
    then have "Open S into frame o' = (Inr p, o'\<lparr>op_Counter := op_Counter o' + 1\<rparr>)"
      using step guards(1) open_c tk unfolding Open_def f
      by (simp add: header_written in_step_def synced_def not_le Let_def)
    then show ?thesis using step True by (auto simp: in_step_def synced_def s')
  next
    case False
    then have ah: "ahead S s o'" using step by (simp add: in_step_def)
    let ?o1 = "PrepareNext S o'"
    have o1: "op_NextKey ?o1 = sl_Key s" "op_NextCounter ?o1 = 0" "op_Salt ?o1 = sl_Salt s"
        "op_FrameLimit ?o1 = sl_FrameLimit s" "op_Epoch ?o1 = op_Epoch o'" "op_Epoch o' + 1 = sl_Epoch s"
      using ah step by (auto simp: PrepareNext_def in_step_def ahead_def)
    then have "Open S into frame o' = (Inr p, ?o1\<lparr>op_Key := sl_Key s, op_NextKey := zero_key, op_Counter := 1,
        op_Epoch := sl_Epoch s, op_NextReady := False, op_NextCounter := 0\<rparr>)"
      using ah guards(1) open_c tk unfolding Open_def f
      by (simp add: header_written ahead_def not_le Let_def)
    then show ?thesis using o1 ah by (auto simp: in_step_def synced_def ahead_def s')
  qed
qed

lemma Rekey_in_step:
  "in_step S s o' \<Longrightarrow> synced s o' \<Longrightarrow> Rekey S s = (Inr (), s') \<Longrightarrow> in_step S s' o'"
  by (auto simp: Rekey_def in_step_def synced_def ahead_def split: if_splits)

text \<open>A frame that does not open moves neither the generation, nor the counter, nor the step relation.\<close>

lemma Open_Inl_keeps:
  assumes "Open S into frame o' = (Inl e, o'')"
  shows "op_Key o'' = op_Key o' \<and> op_Counter o'' = op_Counter o' \<and> op_Epoch o'' = op_Epoch o' \<and>
         op_Salt o'' = op_Salt o' \<and> (o'' = o' \<or> o'' = PrepareNext S o')"
  using assms by (auto simp: Open_def PrepareNext_def Let_def split: if_splits sum.splits prod.splits)

lemma Open_Inl_in_step:
  assumes "in_step S s o'" and "Open S into frame o' = (Inl e, o'')"
  shows "in_step S s o''"
  using assms Open_Inl_keeps [OF assms(2)]
  by (auto simp: in_step_def synced_def ahead_def PrepareNext_def split: if_splits)

subsection \<open>A whole stream of frames\<close>

text \<open>
  The sending side of a connection: each message, optionally preceded by a rekey, sealed into a
  buffer of exactly the size it needs; and the receiving side on the frames as they arrive.
\<close>

fun send_all :: "sodium \<Rightarrow> FrameSealer \<Rightarrow> (bool \<times> bytes) list \<Rightarrow> bytes list proto_result" where
  "send_all S s [] = Inr []"
| "send_all S s ((rekey, p) # ms) =
     (case (if rekey then Rekey S s else (Inr (), s)) of
        (Inl e, _) \<Rightarrow> Inl e
      | (Inr u, s1) \<Rightarrow>
          (case Seal S (replicate (HEADER_SIZE + length p + TAG_SIZE) 0) p s1 of
             (Inl e, _) \<Rightarrow> Inl e
           | (Inr (n, out), s2) \<Rightarrow> bindR (send_all S s2 ms) (\<lambda>fs. Inr (take n out # fs))))"

fun receive_all :: "sodium \<Rightarrow> FrameOpener \<Rightarrow> bytes list \<Rightarrow> bytes list proto_result" where
  "receive_all S o' [] = Inr []"
| "receive_all S o' (f # fs) =
     bindR (ReadFrame f (of_nat MAX_FRAME)) (\<lambda>frame.
       case Open S (replicate (length (fv_Body frame)) 0) frame o' of
         (Inl e, _) \<Rightarrow> Inl e
       | (Inr p, o'') \<Rightarrow> bindR (receive_all S o'' fs) (\<lambda>ps. Inr (p # ps)))"

lemma receive_send_all:
  assumes "aead_correct S" and "in_step S s o'" and "synced s o'" and "send_all S s ms = Inr fs"
  shows "receive_all S o' fs = Inr (map snd ms)"
  using assms
proof (induction ms arbitrary: s o' fs)
  case Nil
  then show ?case by simp
next
  case (Cons m ms)
  obtain rekey p where m: "m = (rekey, p)" by (cases m)
  obtain s1 where s1: "(if rekey then Rekey S s else (Inr (), s)) = (Inr (), s1)"
    using Cons.prems(4) m by (auto split: prod.splits sum.splits)
  then obtain n out s2 fs' where seal: "Seal S (replicate (HEADER_SIZE + length p + TAG_SIZE) 0) p s1 = (Inr (n, out), s2)"
      and rest: "send_all S s2 ms = Inr fs'" and fs: "fs = take n out # fs'"
    using Cons.prems(4) m by (auto simp: bindR_eq_Inr split: prod.splits sum.splits)
  have step: "in_step S s1 o'"
    using s1 Cons.prems(2,3) Rekey_in_step [of S s o' s1] by (cases rekey) auto
  obtain c where frame: "ReadFrame (take n out) (of_nat MAX_FRAME) =
      Inr \<lparr>fv_Header = \<lparr>fh_Length = of_nat (length p + TAG_SIZE), fh_Epoch = sl_Epoch s1\<rparr>, fv_Body = c, fv_Consumed = n\<rparr>"
      and len: "length c = length p + TAG_SIZE"
    using Cons.prems(1) seal by (rule Seal_ReadFrame)
  obtain o'' where "Open S (replicate (length c) 0)
        \<lparr>fv_Header = \<lparr>fh_Length = of_nat (length p + TAG_SIZE), fh_Epoch = sl_Epoch s1\<rparr>, fv_Body = c, fv_Consumed = n\<rparr> o' = (Inr p, o'')"
      "in_step S s2 o''" "synced s2 o''"
    using Open_in_step [OF Cons.prems(1) step seal frame, of "replicate (length c) 0"] len by auto
  then show ?case using Cons.IH [OF Cons.prems(1) _ _ rest] frame by (simp add: m fs)
qed

text \<open>Sealing succeeds while the generation's frame budget lasts, and a whole stream is sent while the
  generations last.\<close>

lemma Seal_total:
  assumes "aead_correct S" and "aead_total S" and "length (sl_Salt s) = SALT_SIZE" and "sl_Counter s < sl_FrameLimit s"
    and "length p + TAG_SIZE \<le> MAX_FRAME" and "HEADER_SIZE + length p + TAG_SIZE \<le> length out"
  shows "\<exists>n out'. 0 < n \<and> Seal S out p s =
    (Inr (n, out'), s\<lparr>sl_Counter := sl_Counter s + 1, sl_BytesSealed := sl_BytesSealed s + of_nat (length p)\<rparr>)"
proof -
  let ?h = "\<lparr>fh_Length = of_nat (length p + TAG_SIZE), fh_Epoch = sl_Epoch s\<rparr> :: FrameHeader"
  let ?nc = "MakeNonce (sl_Salt s) (sl_Counter s)"
  obtain c where c: "aead_encrypt S p (header_bytes ?h) ?nc (sl_Key s) = Some c"
    using assms(2) unfolding aead_total_def by blast
  have w: "WriteFrameHeader ?h (mk_writer out) = (Inr (), wr_at (header_bytes ?h) (drop HEADER_SIZE out))"
    using writes_ok [OF writes_WriteFrameHeader, of ?h out] assms(6) by simp
  show ?thesis
    using assms c w length_MakeNonce [OF assms(3), of "sl_Counter s"]
    by (simp add: Seal_def Let_def AeadSeal_def not_le size_defs)
qed

lemma send_all_total:
  assumes "aead_correct S" and "aead_total S"
  shows "length (sl_Salt s) = SALT_SIZE \<Longrightarrow> unat (sl_Counter s) + length ms \<le> unat (sl_FrameLimit s) \<Longrightarrow>
    unat (sl_Epoch s) + length (filter fst ms) \<le> 255 \<Longrightarrow> list_all (\<lambda>m. length (snd m) + TAG_SIZE \<le> MAX_FRAME) ms \<Longrightarrow>
    \<exists>fs. send_all S s ms = Inr fs"
proof (induction ms arbitrary: s)
  case Nil
  then show ?case by simp
next
  case (Cons m ms)
  obtain rekey p where m: "m = (rekey, p)" by (cases m)
  have "\<exists>s1. (if rekey then Rekey S s else (Inr (), s)) = (Inr (), s1) \<and> sl_Salt s1 = sl_Salt s \<and>
      sl_FrameLimit s1 = sl_FrameLimit s \<and> unat (sl_Counter s1) \<le> unat (sl_Counter s) \<and>
      unat (sl_Epoch s1) + length (filter fst ms) \<le> 255"
  proof (cases rekey)
    case True
    have u: "unat (sl_Epoch s) < 255" using Cons.prems(3) m True by simp
    then have "sl_Epoch s \<noteq> 0xFF" by auto
    moreover have "unat (sl_Epoch s + 1) = unat (sl_Epoch s) + 1" using u by (intro unat_plus1 [of _ 255]) (simp add: word_less_nat_alt)
    ultimately show ?thesis using Cons.prems(3) m True by (simp add: Rekey_def)
  next
    case False
    then show ?thesis using Cons.prems(3) m by simp
  qed
  then obtain s1 where s1: "(if rekey then Rekey S s else (Inr (), s)) = (Inr (), s1)"
      "sl_Salt s1 = sl_Salt s" "sl_FrameLimit s1 = sl_FrameLimit s" "unat (sl_Counter s1) \<le> unat (sl_Counter s)"
      "unat (sl_Epoch s1) + length (filter fst ms) \<le> 255" by blast
  have room: "unat (sl_Counter s1) + 1 + length ms \<le> unat (sl_FrameLimit s1)" using Cons.prems(2) s1(3,4) by simp
  then have lt: "sl_Counter s1 < sl_FrameLimit s1" by (simp add: word_less_nat_alt)
  moreover have "length p + TAG_SIZE \<le> MAX_FRAME" using Cons.prems(4) m by simp
  ultimately obtain n out' where seal: "Seal S (replicate (HEADER_SIZE + length p + TAG_SIZE) 0) p s1 =
      (Inr (n, out'), s1\<lparr>sl_Counter := sl_Counter s1 + 1, sl_BytesSealed := sl_BytesSealed s1 + of_nat (length p)\<rparr>)"
    using Seal_total [OF assms, of s1 p "replicate (HEADER_SIZE + length p + TAG_SIZE) 0"] Cons.prems(1) s1(2) by auto
  have "unat (sl_Counter s1 + 1) = unat (sl_Counter s1) + 1"
    using lt by (rule unat_plus1)
  then have "\<exists>fs. send_all S (s1\<lparr>sl_Counter := sl_Counter s1 + 1, sl_BytesSealed := sl_BytesSealed s1 + of_nat (length p)\<rparr>) ms = Inr fs"
    using Cons.IH Cons.prems(1,4) s1 room by simp
  then show ?case using s1(1) seal m by auto
qed

text \<open>
  What a stream of frames should be: the key of each generation, the generation and the position in it of every message, and
  the frame at such a place, an encryption under that generation's key with the nonce of that position.
\<close>

fun generation_key :: "sodium \<Rightarrow> Key \<Rightarrow> nat \<Rightarrow> Key" where
  "generation_key S key 0 = key"
| "generation_key S key (Suc e) = DeriveSubkey S (generation_key S key e) (of_nat (Suc e)) REKEY_CONTEXT"

fun frame_places :: "nat \<Rightarrow> nat \<Rightarrow> (bool \<times> bytes) list \<Rightarrow> (nat \<times> nat) list" where
  "frame_places e c [] = []"
| "frame_places e c ((rekey, p) # ms) =
     (if rekey then (Suc e, 0) # frame_places (Suc e) 1 ms else (e, c) # frame_places e (Suc c) ms)"

definition frame_at :: "sodium \<Rightarrow> Key \<Rightarrow> bytes \<Rightarrow> nat \<times> nat \<Rightarrow> bytes \<Rightarrow> bytes option" where
  "frame_at S key salt place p =
     (let h = \<lparr>fh_Length = of_nat (length p + TAG_SIZE), fh_Epoch = of_nat (fst place)\<rparr> in
      map_option (frame_bytes h)
        (aead_encrypt S p (header_bytes h) (MakeNonce salt (of_nat (snd place))) (generation_key S key (fst place))))"

text \<open>The key and the nonce behind a place.\<close>

definition key_and_nonce :: "sodium \<Rightarrow> Key \<Rightarrow> bytes \<Rightarrow> nat \<times> nat \<Rightarrow> Key \<times> bytes" where
  "key_and_nonce S key salt place = (generation_key S key (fst place), MakeNonce salt (of_nat (snd place)))"

lemma byte_not_last: "(e :: byte) \<noteq> 0xFF \<Longrightarrow> unat (e + 1) = unat e + 1"
proof -
  assume "e \<noteq> 0xFF"
  moreover have "e \<le> 0xFF" using unat_lt_u8 [of e] by (simp add: word_le_nat_alt)
  ultimately have "e < 0xFF" by simp
  then show ?thesis by (rule unat_plus1)
qed

text \<open>A sealer that stands at a place of the stream.\<close>

definition sealer_at :: "sodium \<Rightarrow> Key \<Rightarrow> bytes \<Rightarrow> nat \<Rightarrow> nat \<Rightarrow> FrameSealer \<Rightarrow> bool" where
  "sealer_at S key salt e c s \<longleftrightarrow> sl_Key s = generation_key S key e \<and> sl_Salt s = salt \<and> unat (sl_Epoch s) = e \<and> unat (sl_Counter s) = c"

lemma sealer_at_words: "sealer_at S key salt e c s \<Longrightarrow> sl_Epoch s = of_nat e \<and> sl_Counter s = of_nat c"
  by (auto simp: sealer_at_def)

lemma Rekey_place:
  assumes "sealer_at S key salt e c s" "Rekey S s = (Inr (), s1)"
  shows "sealer_at S key salt (Suc e) 0 s1"
proof -
  have "sl_Epoch s \<noteq> 0xFF" and s1: "s1 = s\<lparr>sl_Key := DeriveSubkey S (sl_Key s) (ucast (sl_Epoch s) + 1) REKEY_CONTEXT,
      sl_Epoch := sl_Epoch s + 1, sl_Counter := 0, sl_BytesSealed := 0\<rparr>"
    using assms(2) by (auto simp: Rekey_def split: if_splits)
  moreover have "(ucast (sl_Epoch s) :: u64) + 1 = of_nat (Suc e)"
    using assms(1) by (auto simp: sealer_at_def unsigned_word_eqI of_nat_unat)
  ultimately show ?thesis using assms(1) byte_not_last [of "sl_Epoch s"] by (simp add: sealer_at_def)
qed

lemma Seal_place:
  assumes "sealer_at S key salt e c s" "Seal S out p s = (Inr (n, out'), s')"
  shows "sealer_at S key salt e (Suc c) s'" "Some (take n out') = frame_at S key salt (e, c) p"
proof -
  obtain ct where *: "aead_encrypt S p (header_bytes \<lparr>fh_Length = of_nat (length p + TAG_SIZE), fh_Epoch = sl_Epoch s\<rparr>)
       (MakeNonce (sl_Salt s) (sl_Counter s)) (sl_Key s) = Some ct"
    "take n out' = frame_bytes \<lparr>fh_Length = of_nat (length p + TAG_SIZE), fh_Epoch = sl_Epoch s\<rparr> ct"
    "sl_Counter s < sl_FrameLimit s"
    "s' = s\<lparr>sl_Counter := sl_Counter s + 1, sl_BytesSealed := sl_BytesSealed s + of_nat (length p)\<rparr>"
    using Seal_InrD [OF assms(2)] by metis
  show "sealer_at S key salt e (Suc c) s'" using assms(1) * unat_plus1 [OF *(3)] by (simp add: sealer_at_def)
  show "Some (take n out') = frame_at S key salt (e, c) p"
    using assms(1) * sealer_at_words [OF assms(1)] by (simp add: frame_at_def sealer_at_def Let_def)
qed

lemma send_all_frames:
  assumes "sealer_at S key salt e c s" "send_all S s ms = Inr fs"
  shows "map Some fs = map2 (frame_at S key salt) (frame_places e c ms) (map snd ms) \<and>
    (\<forall>place\<in>set (frame_places e c ms). snd place < 2 ^ 64)"
  using assms
proof (induction ms arbitrary: e c s fs)
  case (Cons m ms)
  obtain rekey p where m: "m = (rekey, p)" by (cases m)
  define e1 c1 where "e1 = (if rekey then Suc e else e)" and "c1 = (if rekey then 0 else c)"
  obtain s1 where s1: "(if rekey then Rekey S s else (Inr (), s)) = (Inr (), s1)"
    using Cons.prems(2) m by (auto split: prod.splits sum.splits)
  then obtain n out s2 fs' where seal: "Seal S (replicate (HEADER_SIZE + length p + TAG_SIZE) 0) p s1 = (Inr (n, out), s2)"
      and rest: "send_all S s2 ms = Inr fs'" and fs: "fs = take n out # fs'"
    using Cons.prems(2) m by (auto simp: bindR_eq_Inr split: prod.splits sum.splits)
  have at: "sealer_at S key salt e1 c1 s1"
    using s1 Cons.prems(1) Rekey_place [of S key salt e c s s1] by (cases rekey) (auto simp: e1_def c1_def)
  then have "c1 < 2 ^ 64" using unsigned_less [of "sl_Counter s1", where ?'a = nat] by (simp add: sealer_at_def)
  moreover have "frame_places e c (m # ms) = (e1, c1) # frame_places e1 (Suc c1) ms" by (simp add: m e1_def c1_def)
  ultimately show ?case
    using Cons.IH [OF Seal_place(1) [OF at seal] rest] Seal_place(2) [OF at seal] by (simp add: m fs)
qed simp

lemma frame_places_bounds:
  "place \<in> set (frame_places e c ms) \<Longrightarrow> (e < fst place \<or> e = fst place \<and> c \<le> snd place) \<and> fst place \<le> e + length (filter fst ms)"
proof (induction e c ms rule: frame_places.induct)
  case (2 e c rekey p ms)
  then show ?case by (cases rekey) fastforce+
qed simp

lemma frame_places_distinct: "distinct (frame_places e c ms)"
proof (induction e c ms rule: frame_places.induct)
  case (2 e c rekey p ms)
  then show ?case
    using frame_places_bounds [of "(Suc e, 0)" "Suc e" 1 ms] frame_places_bounds [of "(e, c)" e "Suc c" ms] by (cases rekey) auto
qed simp

text \<open>Places never share a nonce under one key, as long as the generations have different keys.\<close>

lemma key_and_nonce_distinct:
  assumes "length salt = SALT_SIZE" "inj_on (generation_key S key) {..length (filter fst ms)}"
    and "\<forall>place\<in>set (frame_places 0 0 ms). snd place < 2 ^ 64"
  shows "distinct (map (key_and_nonce S key salt) (frame_places 0 0 ms))"
proof -
  have "inj_on (key_and_nonce S key salt) (set (frame_places 0 0 ms))"
  proof (rule inj_onI)
    fix a b assume ab: "a \<in> set (frame_places 0 0 ms)" "b \<in> set (frame_places 0 0 ms)" "key_and_nonce S key salt a = key_and_nonce S key salt b"
    have "fst a = fst b"
      using ab frame_places_bounds [OF ab(1)] frame_places_bounds [OF ab(2)] inj_onD [OF assms(2), of "fst a" "fst b"]
      by (simp add: key_and_nonce_def)
    moreover have "(of_nat (snd a) :: u64) = of_nat (snd b)"
      using ab(3) MakeNonce_inject [OF assms(1)] by (simp add: key_and_nonce_def)
    then have "unat (of_nat (snd a) :: u64) = unat (of_nat (snd b) :: u64)" by simp
    then have "snd a = snd b"
      using bspec [OF assms(3) ab(1)] bspec [OF assms(3) ab(2)] by (simp add: unat_of_nat_small)
    ultimately show "a = b" by (simp add: prod_eq_iff)
  qed
  then show ?thesis by (simp add: distinct_map frame_places_distinct)
qed

subsection \<open>The last generation\<close>

text \<open>What every opener looks like between calls: no key is kept that is not announced by \<open>NextReady_\<close>.\<close>

definition opener_ok :: "FrameOpener \<Rightarrow> bool" where
  "opener_ok o' \<longleftrightarrow>
     (if op_NextReady o' then op_Epoch o' \<noteq> 0xFF
      else op_NextKey o' = zero_key \<and> op_NextCounter o' = 0)"

lemma mk_FrameOpener_ok: "opener_ok (mk_FrameOpener key salt fl)"
  by (simp add: opener_ok_def mk_FrameOpener_def)

lemma Open_ok: "opener_ok o' \<Longrightarrow> opener_ok (snd (Open S into frame o'))"
  by (auto simp: Open_def PrepareNext_def opener_ok_def Let_def split: sum.splits prod.splits if_splits)

text \<open>At generation 255 the comparison \<open>Epoch == uint8_t(Epoch_ + 1)\<close> wraps: a frame labelled 0 counts
  as the next generation although \<open>PrepareNext\<close> derived no key for it.\<close>

lemma Open_after_last_epoch:
  assumes "opener_ok o'" and "op_Epoch o' = 0xFF" and "fh_Epoch (fv_Header frame) = 0"
    and "0 < op_FrameLimit o'"
    and "aead_correct S"
    and "aead_encrypt S p (header_bytes (fv_Header frame)) (MakeNonce (op_Salt o') 0) zero_key = Some (fv_Body frame)"
    and "length (op_Salt o') = SALT_SIZE" and "length p \<le> length into"
  shows "Open S into frame o' = (Inr p, o'\<lparr>op_Key := zero_key, op_Counter := 1, op_Epoch := 0\<rparr>)"
proof -
  have nr: "\<not> op_NextReady o'" "op_NextKey o' = zero_key" "op_NextCounter o' = 0"
    using assms(1,2) by (auto simp: opener_ok_def split: if_splits)
  have dec: "aead_decrypt S (fv_Body frame) (header_bytes (fv_Header frame)) (MakeNonce (op_Salt o') 0) zero_key = Some p"
    and len: "length (fv_Body frame) = length p + TAG_SIZE"
    using assms(5,6) by (auto simp: aead_correct_def)
  have "AeadOpen S into (fv_Body frame) (header_bytes (fv_Header frame)) zero_key (MakeNonce (op_Salt o') 0)
      = Inr (length p, blit into 0 p)"
    using dec len assms(7,8) by (simp add: AeadOpen_def length_MakeNonce)
  then show ?thesis
    using nr assms(2,3,4)
    by (simp add: Open_def PrepareNext_def header_written blit_def Let_def not_le)
qed

end
