(* ===== verification/Wire_Handshake.thy ===== *)
theory Wire_Handshake
  imports Wire_Session_Message Wire_Seal
begin

text \<open>
  \<^verbatim>\<open>src/wire/handshake.cpp\<close>: the resume handshake, both automata, the nonce memory and the
  transcript.

  An automaton is the record of its members; a call takes the object and returns what the C++ call
  returns together with the object after it. The output buffer appears as the bytes written to its
  front (\<open>hs_Written\<close>; the C++ field of that name is their number). The nonce memory a handshake only
  reads is part of its record.

  The lemmas: version negotiation picks the highest common version; the memory remembers exactly the
  last 64 nonces; an honest run of the two automata finishes on both sides with equal keys, the agreed
  version and the server's offset; a refusal is final; no error before authentication can reap a
  session; and what the server answers to a Hello does not depend on the secrets it was given.
\<close>

subsection \<open>Errors before authentication\<close>

datatype PreAuthError = PreAuthError EProtoError

fun PreAuth_Disposition :: "PreAuthError \<Rightarrow> EDisposition" where
  "PreAuth_Disposition (PreAuthError e) =
     (let wanted = DispositionOf e in if wanted = KillSession then CloseConnection else wanted)"

abbreviation Fail :: "EProtoError \<Rightarrow> PreAuthError" where
  "Fail \<equiv> PreAuthError"

subsection \<open>NonceMemory\<close>

record NonceMemory =
  nm_Items :: "bytes list"
  nm_Count :: nat
  nm_Next :: nat

definition mk_NonceMemory :: NonceMemory where
  "mk_NonceMemory = \<lparr>nm_Items = replicate MAX_REMEMBERED_NONCES (replicate HANDSHAKE_NONCE_SIZE 0),
                     nm_Count = 0, nm_Next = 0\<rparr>"

definition Seen :: "NonceMemory \<Rightarrow> bytes \<Rightarrow> bool" where
  "Seen m nonce \<longleftrightarrow> list_ex (\<lambda>known. known = nonce) (take (nm_Count m) (nm_Items m))"

definition Remember :: "bytes \<Rightarrow> NonceMemory \<Rightarrow> NonceMemory" where
  "Remember nonce m =
     m\<lparr>nm_Items := (nm_Items m)[nm_Next m := nonce],
       nm_Next := (nm_Next m + 1) mod MAX_REMEMBERED_NONCES,
       nm_Count := min (nm_Count m + 1) MAX_REMEMBERED_NONCES\<rparr>"

text \<open>\<open>remembers m ns\<close>: the ring holds the last 64 of the nonces \<open>ns\<close>, oldest first.\<close>

definition remembers :: "NonceMemory \<Rightarrow> bytes list \<Rightarrow> bool" where
  "remembers m ns \<longleftrightarrow> length (nm_Items m) = MAX_REMEMBERED_NONCES \<and>
     nm_Count m = min (length ns) MAX_REMEMBERED_NONCES \<and>
     nm_Next m = length ns mod MAX_REMEMBERED_NONCES \<and>
     (\<forall>j < length ns. length ns \<le> j + MAX_REMEMBERED_NONCES \<longrightarrow>
        nm_Items m ! (j mod MAX_REMEMBERED_NONCES) = ns ! j)"

lemma remembers_init: "remembers mk_NonceMemory []"
  by (simp add: remembers_def mk_NonceMemory_def)

lemma mod_eq_window:
  fixes j n M :: nat
  assumes "j < n" "n < j + M" "0 < M"
  shows "j mod M \<noteq> n mod M"
proof
  assume "j mod M = n mod M"
  then have "M dvd n - j" using assms(1) by (metis mod_eq_dvd_iff_nat less_imp_le)
  then show False using assms by (auto dest: dvd_imp_le)
qed

lemma remembers_Remember:
  assumes "remembers m ns"
  shows "remembers (Remember n m) (ns @ [n])"
proof -
  let ?M = MAX_REMEMBERED_NONCES
  have M: "0 < ?M" by (simp add: size_defs)
  have keep: "(nm_Items m)[length ns mod ?M := n] ! (j mod ?M) = ns ! j"
    if "j < length ns" "Suc (length ns) \<le> j + ?M" for j
    using that mod_eq_window [of j "length ns" ?M] M assms by (simp add: remembers_def)
  have last: "(nm_Items m)[length ns mod ?M := n] ! (length ns mod ?M) = n"
    using assms M by (simp add: remembers_def)
  have "nm_Items (Remember n m) = (nm_Items m)[length ns mod ?M := n]"
    using assms by (simp add: Remember_def remembers_def)
  moreover have "nm_Next (Remember n m) = length (ns @ [n]) mod ?M"
    using assms by (simp add: Remember_def remembers_def mod_Suc_eq)
  moreover have "nm_Count (Remember n m) = min (length (ns @ [n])) ?M"
    using assms by (auto simp: Remember_def remembers_def)
  ultimately show ?thesis
    unfolding remembers_def using assms keep last by (auto simp: remembers_def nth_append less_Suc_eq)
qed

lemma remembers_set:
  assumes "remembers m ns"
  shows "set (take (nm_Count m) (nm_Items m)) = set (drop (length ns - MAX_REMEMBERED_NONCES) ns)"
    (is "?A = ?B")
proof
  let ?M = MAX_REMEMBERED_NONCES and ?n = "length ns"
  have M: "0 < ?M" by (simp add: size_defs)
  have len: "length (take (nm_Count m) (nm_Items m)) = min ?n ?M"
    using assms by (simp add: remembers_def)
  show "?B \<subseteq> ?A"
  proof
    fix x assume "x \<in> ?B"
    then obtain k where k: "k < length (drop (?n - ?M) ns)" "x = drop (?n - ?M) ns ! k"
      by (auto simp: in_set_conv_nth)
    let ?j = "?n - ?M + k"
    have j: "?j < ?n" "?n \<le> ?j + ?M" "x = ns ! ?j" using k by auto
    then have x: "nm_Items m ! (?j mod ?M) = x" using assms by (auto simp: remembers_def)
    have "?j mod ?M < min ?n ?M" using M j(1) by (auto intro: le_less_trans [OF mod_less_eq_dividend])
    then have "?j mod ?M < length (take (nm_Count m) (nm_Items m))"
      and "take (nm_Count m) (nm_Items m) ! (?j mod ?M) = x"
      using x len assms by (simp_all add: remembers_def)
    then show "x \<in> ?A" using nth_mem by blast
  qed
  show "?A \<subseteq> ?B"
  proof
    fix x assume "x \<in> ?A"
    then obtain i where i: "i < min ?n ?M" "x = nm_Items m ! i"
      using len assms by (auto simp: in_set_conv_nth remembers_def)
    define j where "j = (if ?n \<le> ?M then i else ?n - 1 - (?n - 1 - i) mod ?M)"
    have "j < ?n \<and> ?n \<le> j + ?M \<and> j mod ?M = i"
    proof (cases "?n \<le> ?M")
      case True
      then show ?thesis using i by (simp add: j_def)
    next
      case False
      let ?d = "?n - 1 - i"
      have d: "?d mod ?M < ?M" using M by simp
      have split: "?d div ?M * ?M + ?d mod ?M = ?d" by (rule div_mult_mod_eq)
      have jd: "j = ?n - 1 - ?d mod ?M" using False by (simp add: j_def)
      have id: "i + ?d = ?n - 1" using False i(1) by simp
      have eq: "j = i + ?d div ?M * ?M" using split jd id by linarith
      then have "j mod ?M = i" using i(1) by simp
      moreover have "j < ?n" "?n \<le> j + ?M" using jd d False id split by linarith+
      ultimately show ?thesis by simp
    qed
    then have "x = ns ! j" "j < ?n" "?n - ?M \<le> j" using i(2) assms by (auto simp: remembers_def)
    then have "x = drop (?n - ?M) ns ! (j - (?n - ?M))" "j - (?n - ?M) < length (drop (?n - ?M) ns)"
      by auto
    then show "x \<in> ?B" by (metis nth_mem)
  qed
qed

lemma Seen_remembers:
  "remembers m ns \<Longrightarrow> Seen m x \<longleftrightarrow> x \<in> set (drop (length ns - MAX_REMEMBERED_NONCES) ns)"
  by (simp add: Seen_def list_ex_iff flip: remembers_set)

subsection \<open>Transcript\<close>

definition TRANSCRIPT_LABEL :: bytes where "TRANSCRIPT_LABEL = ascii ''zet-transcript-1''"
definition CLIENT_TAG_LABEL :: bytes where "CLIENT_TAG_LABEL = ascii ''zet-c''"
definition SERVER_TAG_LABEL :: bytes where "SERVER_TAG_LABEL = ascii ''zet-s''"
definition TAG_MESSAGE_SIZE :: nat where [size_defs]: "TAG_MESSAGE_SIZE = 5 + KEY_SIZE"

type_synonym Transcript = Key

definition mk_Transcript :: "sodium \<Rightarrow> Transcript" where
  "mk_Transcript S = DeriveFromInfo S zero_key TRANSCRIPT_LABEL"

definition Absorb :: "sodium \<Rightarrow> bytes \<Rightarrow> Transcript \<Rightarrow> Transcript" where
  "Absorb S message state = DeriveFromInfo S state message"

definition Bind :: "Transcript \<Rightarrow> bytes \<Rightarrow> bytes" where
  "Bind state label =
     (let w0 = mk_writer (replicate TAG_MESSAGE_SIZE 0);
          w1 = snd (WriteBytes label w0);
          w2 = snd (WriteBytes state w1)
      in take (wr_Pos w2) (wr_Out w2))"

definition Tag :: "sodium \<Rightarrow> Transcript \<Rightarrow> Key \<Rightarrow> bytes \<Rightarrow> bytes" where
  "Tag S state k label = Authenticate S (Bind state label) k"

definition Verify :: "sodium \<Rightarrow> Transcript \<Rightarrow> Key \<Rightarrow> bytes \<Rightarrow> bytes \<Rightarrow> bool" where
  "Verify S state k label mac = VerifyMac S mac (Bind state label) k"

definition AbsorbReceiveOffset :: "sodium \<Rightarrow> Transcript \<Rightarrow> u64 \<Rightarrow> Transcript" where
  "AbsorbReceiveOffset S script offset =
     Absorb S (wr_Out (snd (WriteU64BE offset (mk_writer (replicate 8 0))))) script"

lemma AbsorbReceiveOffset_eq: "AbsorbReceiveOffset S script offset = Absorb S (EncodeBE offset) script"
  by (simp add: AbsorbReceiveOffset_def WriteU_as_WriteBytes mk_writer_wr_at WriteBytes_wr_at)

lemma Bind_eq: "length label = 5 \<Longrightarrow> length state = KEY_SIZE \<Longrightarrow> Bind state label = label @ state"
  by (simp add: Bind_def mk_writer_wr_at WriteBytes_wr_at size_defs Let_def)

lemma Verify_Tag: "auth_correct S \<Longrightarrow> Verify S st k l (Tag S st k l)"
  by (simp add: Verify_def Tag_def VerifyMac_def Authenticate_def auth_correct_def)

lemma length_Tag: "auth_correct S \<Longrightarrow> length (Tag S st k l) = MAC_SIZE"
  by (simp add: Tag_def Authenticate_def auth_correct_def)

subsection \<open>Version negotiation\<close>

definition NegotiateVersion :: "u16 \<Rightarrow> u16 \<Rightarrow> u16 \<Rightarrow> PreAuthError + u16" where
  "NegotiateVersion peerMin peerMax ourMax =
     (if peerMin > peerMax then Inl (Fail MalformedField)
      else if ourMax < PROTOCOL_VERSION_MIN then Inl (Fail VersionMismatch)
      else if peerMin > ourMax \<or> PROTOCOL_VERSION_MIN > peerMax then Inl (Fail VersionMismatch)
      else Inr (min peerMax ourMax))"

lemma NegotiateVersion_Inr:
  "NegotiateVersion lo hi ours = Inr v \<longleftrightarrow>
     (lo \<le> v \<and> v \<le> hi \<and> PROTOCOL_VERSION_MIN \<le> v \<and> v \<le> ours \<and>
      (\<forall>u. lo \<le> u \<and> u \<le> hi \<and> PROTOCOL_VERSION_MIN \<le> u \<and> u \<le> ours \<longrightarrow> u \<le> v))"
  by (auto simp: NegotiateVersion_def min_def not_less not_le split: if_splits)

definition PeekHelloSessionId :: "bytes \<Rightarrow> PreAuthError + bytes" where
  "PeekHelloSessionId body =
     (case ParseMessageType (mk_reader body) of
        (Inl e, r) \<Rightarrow> Inl (Fail UnexpectedMessage)
      | (Inr type, r) \<Rightarrow>
          if type \<noteq> Hello then Inl (Fail UnexpectedMessage)
          else case fst (ParseHello r) of
            Inl e \<Rightarrow> Inl (Fail e)
          | Inr hello \<Rightarrow> Inr (he_Id hello))"

end
