(* ===== verification/Wire_Automata.thy ===== *)
theory Wire_Automata
  imports Wire_Handshake
begin

text \<open>
  \<^verbatim>\<open>src/wire/handshake.cpp\<close>, the two automata: \<open>ClientHandshake\<close> and \<open>ServerHandshake\<close>.
\<close>

record HandshakeStep =
  hs_Written :: bytes
  hs_Complete :: bool

record HandshakeResult =
  hr_Keys :: ConnectionKeys
  hr_PeerReceiveOffset :: u64
  hr_ClientNonce :: bytes
  hr_ServerNonce :: bytes
  hr_FallbackKeys :: "ConnectionKeys option"
  hr_Version :: u16

definition no_keys :: ConnectionKeys where
  "no_keys = \<lparr>ck_ClientToServer = zero_key, ck_ServerToClient = zero_key,
              ck_SaltClientToServer = replicate SALT_SIZE 0, ck_SaltServerToClient = replicate SALT_SIZE 0\<rparr>"

subsection \<open>ClientHandshake\<close>

datatype EClientStage = CFresh | SentHello | SentAuth | CDone | CSpent

record ClientHandshake =
  hc_Id :: bytes
  hc_Auth :: Key
  hc_ConnectionSeed :: Key
  hc_ClientNonce :: bytes
  hc_ServerNonce :: bytes
  hc_Seen :: NonceMemory
  hc_Script :: Transcript
  hc_Keys :: ConnectionKeys
  hc_PeerReceiveOffset :: u64
  hc_Version :: u16
  hc_Ceiling :: u16
  hc_GridCapable :: bool
  hc_Stage :: EClientStage

type_synonym 'a client_step = "(PreAuthError, ClientHandshake, 'a) sm"

definition mk_ClientHandshake ::
  "sodium \<Rightarrow> bytes \<Rightarrow> Key \<Rightarrow> Key \<Rightarrow> bytes \<Rightarrow> NonceMemory \<Rightarrow> u16 \<Rightarrow> bool \<Rightarrow> ClientHandshake" where
  "mk_ClientHandshake S sid k seed clientNonce seen ceiling gridCapable =
     \<lparr>hc_Id = sid, hc_Auth = k, hc_ConnectionSeed = seed, hc_ClientNonce = clientNonce,
      hc_ServerNonce = replicate HANDSHAKE_NONCE_SIZE 0, hc_Seen = seen, hc_Script = mk_Transcript S,
      hc_Keys = no_keys, hc_PeerReceiveOffset = 0, hc_Version = 0, hc_Ceiling = ceiling,
      hc_GridCapable = gridCapable, hc_Stage = CFresh\<rparr>"

definition StartStep :: "sodium \<Rightarrow> bytes \<Rightarrow> bytes client_step" where
  "StartStep S out h =
     (if hc_Stage h \<noteq> CFresh then (Inl (Fail UnexpectedMessage), h)
      else if Seen (hc_Seen h) (hc_ClientNonce h) then (Inl (Fail NonceReused), h)
      else case (if hc_GridCapable h
                 then TlvList_Append \<lparr>opt_Type = TLV_GRID_CAPABLE, opt_Value = [0, 1]\<rparr> []
                 else Inr []) of
        Inl e \<Rightarrow> (Inl (Fail e), h)
      | Inr options \<Rightarrow>
          (let hello = \<lparr>he_VersionMin = PROTOCOL_VERSION_MIN, he_VersionMax = hc_Ceiling h,
                        he_Id = hc_Id h, he_ClientNonce = hc_ClientNonce h, he_Options = options\<rparr> in
           case WriteHello hello (mk_writer out) of
             (Inl e, _) \<Rightarrow> (Inl (Fail e), h)
           | (Inr _, w) \<Rightarrow>
               (Inr (Written w), h\<lparr>hc_Script := Absorb S (Written w) (hc_Script h),
                                   hc_Stage := SentHello\<rparr>)))"

definition Start :: "sodium \<Rightarrow> bytes \<Rightarrow> bytes client_step" where
  "Start S out h =
     (case StartStep S out h of
        (Inl e, h') \<Rightarrow> (Inl e, h'\<lparr>hc_Stage := CSpent\<rparr>)
      | (Inr x, h') \<Rightarrow> (Inr x, h'))"

definition OnChallenge :: "sodium \<Rightarrow> ByteReader \<Rightarrow> bytes \<Rightarrow> bytes \<Rightarrow> HandshakeStep client_step" where
  "OnChallenge S reader body out h =
     (case fst (ParseChallenge reader) of
        Inl e \<Rightarrow> (Inl (Fail e), h)
      | Inr challenge \<Rightarrow>
          if ch_Version challenge < PROTOCOL_VERSION_MIN \<or> ch_Version challenge > hc_Ceiling h
          then (Inl (Fail VersionMismatch), h)
          else if Seen (hc_Seen h) (ch_ServerNonce challenge) then (Inl (Fail NonceReused), h)
          else let h1 = h\<lparr>hc_ServerNonce := ch_ServerNonce challenge,
                          hc_Version := ch_Version challenge,
                          hc_Script := Absorb S body (hc_Script h)\<rparr>;
                   message = \<lparr>au_ClientTag = Tag S (hc_Script h1) (hc_Auth h1) CLIENT_TAG_LABEL\<rparr> in
          case WriteAuth message (mk_writer out) of
            (Inl e, _) \<Rightarrow> (Inl (Fail e), h1)
          | (Inr _, w) \<Rightarrow>
              (Inr \<lparr>hs_Written = Written w, hs_Complete = False\<rparr>,
               h1\<lparr>hc_Script := Absorb S (Written w) (hc_Script h1), hc_Stage := SentAuth\<rparr>))"

definition OnAuthOk :: "sodium \<Rightarrow> ByteReader \<Rightarrow> HandshakeStep client_step" where
  "OnAuthOk S reader h =
     (case fst (ParseAuthOk reader) of
        Inl e \<Rightarrow> (Inl (Fail e), h)
      | Inr message \<Rightarrow>
          let h1 = h\<lparr>hc_Script := AbsorbReceiveOffset S (hc_Script h) (ao_ServerReceiveOffset message)\<rparr> in
          if \<not> Verify S (hc_Script h1) (hc_Auth h1) SERVER_TAG_LABEL (ao_ServerTag message)
          then (Inl (Fail AuthenticationFailed), h1)
          else (Inr \<lparr>hs_Written = [], hs_Complete = True\<rparr>,
                h1\<lparr>hc_Keys := DeriveConnectionKeys S (hc_ConnectionSeed h1) (hc_ClientNonce h1) (hc_ServerNonce h1),
                   hc_PeerReceiveOffset := ao_ServerReceiveOffset message,
                   hc_Stage := CDone\<rparr>))"

definition ClientHandleStep :: "sodium \<Rightarrow> bytes \<Rightarrow> bytes \<Rightarrow> HandshakeStep client_step" where
  "ClientHandleStep S body out h =
     (case ParseMessageType (mk_reader body) of
        (Inl e, _) \<Rightarrow> (Inl (Fail UnexpectedMessage), h)
      | (Inr type, reader) \<Rightarrow>
          if hc_Stage h = SentHello \<and> type = Challenge then OnChallenge S reader body out h
          else if hc_Stage h = SentAuth \<and> type = AuthOk then OnAuthOk S reader h
          else (Inl (Fail UnexpectedMessage), h))"

definition ClientHandle :: "sodium \<Rightarrow> bytes \<Rightarrow> bytes \<Rightarrow> HandshakeStep client_step" where
  "ClientHandle S body out h =
     (case ClientHandleStep S body out h of
        (Inl e, h') \<Rightarrow> (Inl e, h'\<lparr>hc_Stage := CSpent\<rparr>)
      | (Inr x, h') \<Rightarrow> (Inr x, h'))"

text \<open>Moving the keys out leaves them wiped behind.\<close>

definition ClientTakeResult :: "ClientHandshake \<Rightarrow> HandshakeResult option \<times> ClientHandshake" where
  "ClientTakeResult h =
     (if hc_Stage h \<noteq> CDone then (None, h)
      else (Some \<lparr>hr_Keys = hc_Keys h, hr_PeerReceiveOffset = hc_PeerReceiveOffset h,
                  hr_ClientNonce = hc_ClientNonce h, hr_ServerNonce = hc_ServerNonce h,
                  hr_FallbackKeys = None, hr_Version = hc_Version h\<rparr>,
            h\<lparr>hc_Stage := CSpent,
              hc_Keys := (hc_Keys h)\<lparr>ck_ClientToServer := zero_key, ck_ServerToClient := zero_key\<rparr>\<rparr>))"

subsection \<open>ServerHandshake\<close>

datatype EServerStage = SFresh | SentChallenge | SDone | SSpent

record ServerHandshake =
  hv_Auth :: Key
  hv_ConnectionSeed :: Key
  hv_ServerNonce :: bytes
  hv_ClientNonce :: bytes
  hv_ReceiveOffset :: u64
  hv_Seen :: NonceMemory
  hv_PreviousSeed :: "Key option"
  hv_Script :: Transcript
  hv_Keys :: ConnectionKeys
  hv_FallbackKeys :: "ConnectionKeys option"
  hv_Version :: u16
  hv_Ceiling :: u16
  hv_Stage :: EServerStage

type_synonym 'a server_step = "(PreAuthError, ServerHandshake, 'a) sm"

definition mk_ServerHandshake ::
  "sodium \<Rightarrow> Key \<Rightarrow> Key \<Rightarrow> bytes \<Rightarrow> u64 \<Rightarrow> NonceMemory \<Rightarrow> Key option \<Rightarrow> u16 \<Rightarrow> ServerHandshake" where
  "mk_ServerHandshake S k seed serverNonce receiveOffset seen previousSeed ceiling =
     \<lparr>hv_Auth = k, hv_ConnectionSeed = seed, hv_ServerNonce = serverNonce,
      hv_ClientNonce = replicate HANDSHAKE_NONCE_SIZE 0, hv_ReceiveOffset = receiveOffset,
      hv_Seen = seen, hv_PreviousSeed = previousSeed, hv_Script = mk_Transcript S,
      hv_Keys = no_keys, hv_FallbackKeys = None, hv_Version = 0, hv_Ceiling = ceiling,
      hv_Stage = SFresh\<rparr>"

definition OnHello :: "sodium \<Rightarrow> ByteReader \<Rightarrow> bytes \<Rightarrow> bytes \<Rightarrow> HandshakeStep server_step" where
  "OnHello S reader body out h =
     (case fst (ParseHello reader) of
        Inl e \<Rightarrow> (Inl (Fail e), h)
      | Inr hello \<Rightarrow>
          (case NegotiateVersion (he_VersionMin hello) (he_VersionMax hello) (hv_Ceiling h) of
             Inl e \<Rightarrow> (Inl e, h)
           | Inr version \<Rightarrow>
               if Seen (hv_Seen h) (he_ClientNonce hello) \<or> Seen (hv_Seen h) (hv_ServerNonce h)
               then (Inl (Fail NonceReused), h)
               else let h1 = h\<lparr>hv_ClientNonce := he_ClientNonce hello, hv_Version := version,
                               hv_Script := Absorb S body (hv_Script h)\<rparr>;
                        challenge = \<lparr>ch_Version = version, ch_ServerNonce = hv_ServerNonce h1, ch_Options = []\<rparr> in
               case WriteChallenge challenge (mk_writer out) of
                 (Inl e, _) \<Rightarrow> (Inl (Fail e), h1)
               | (Inr _, w) \<Rightarrow>
                   (Inr \<lparr>hs_Written = Written w, hs_Complete = False\<rparr>,
                    h1\<lparr>hv_Script := Absorb S (Written w) (hv_Script h1), hv_Stage := SentChallenge\<rparr>)))"

definition OnAuth :: "sodium \<Rightarrow> ByteReader \<Rightarrow> bytes \<Rightarrow> bytes \<Rightarrow> HandshakeStep server_step" where
  "OnAuth S reader body out h =
     (case fst (ParseAuth reader) of
        Inl e \<Rightarrow> (Inl (Fail e), h)
      | Inr message \<Rightarrow>
          if \<not> Verify S (hv_Script h) (hv_Auth h) CLIENT_TAG_LABEL (au_ClientTag message)
          then (Inl (Fail AuthenticationFailed), h)
          else let h1 = h\<lparr>hv_Script := AbsorbReceiveOffset S (Absorb S body (hv_Script h)) (hv_ReceiveOffset h),
                          hv_Keys := DeriveConnectionKeys S (hv_ConnectionSeed h) (hv_ClientNonce h) (hv_ServerNonce h),
                          hv_FallbackKeys := (case hv_PreviousSeed h of
                              None \<Rightarrow> hv_FallbackKeys h
                            | Some seed \<Rightarrow> Some (DeriveConnectionKeys S seed (hv_ClientNonce h) (hv_ServerNonce h)))\<rparr>;
                   ok = \<lparr>ao_ServerTag = Tag S (hv_Script h1) (hv_Auth h1) SERVER_TAG_LABEL,
                         ao_ServerReceiveOffset = hv_ReceiveOffset h1\<rparr> in
          case WriteAuthOk ok (mk_writer out) of
            (Inl e, _) \<Rightarrow> (Inl (Fail e), h1)
          | (Inr _, w) \<Rightarrow>
              (Inr \<lparr>hs_Written = Written w, hs_Complete = True\<rparr>, h1\<lparr>hv_Stage := SDone\<rparr>))"

definition ServerHandleStep :: "sodium \<Rightarrow> bytes \<Rightarrow> bytes \<Rightarrow> HandshakeStep server_step" where
  "ServerHandleStep S body out h =
     (case ParseMessageType (mk_reader body) of
        (Inl e, _) \<Rightarrow> (Inl (Fail UnexpectedMessage), h)
      | (Inr type, reader) \<Rightarrow>
          if hv_Stage h = SFresh \<and> type = Hello then OnHello S reader body out h
          else if hv_Stage h = SentChallenge \<and> type = Auth then OnAuth S reader body out h
          else (Inl (Fail UnexpectedMessage), h))"

definition ServerHandle :: "sodium \<Rightarrow> bytes \<Rightarrow> bytes \<Rightarrow> HandshakeStep server_step" where
  "ServerHandle S body out h =
     (case ServerHandleStep S body out h of
        (Inl e, h') \<Rightarrow> (Inl e, h'\<lparr>hv_Stage := SSpent\<rparr>)
      | (Inr x, h') \<Rightarrow> (Inr x, h'))"

definition ServerTakeResult :: "ServerHandshake \<Rightarrow> HandshakeResult option \<times> ServerHandshake" where
  "ServerTakeResult h =
     (if hv_Stage h \<noteq> SDone then (None, h)
      else (Some \<lparr>hr_Keys = hv_Keys h, hr_PeerReceiveOffset = 0,
                  hr_ClientNonce = hv_ClientNonce h, hr_ServerNonce = hv_ServerNonce h,
                  hr_FallbackKeys = hv_FallbackKeys h, hr_Version = hv_Version h\<rparr>,
            h\<lparr>hv_Stage := SSpent,
              hv_Keys := (hv_Keys h)\<lparr>ck_ClientToServer := zero_key, ck_ServerToClient := zero_key\<rparr>\<rparr>))"

subsection \<open>An honest run\<close>

lemma parse_type: "ParseMessageType (mk_reader (type_code ty # t)) = (Inr ty, rd_at [type_code ty] t)"
  using parses_ParseMessageType [of ty] unfolding parses_def mk_reader_rd_at by (metis append_Nil append_Cons)

lemma write_mk:
  "writes W bs \<Longrightarrow> length bs \<le> length out \<Longrightarrow> \<exists>w. W (mk_writer out) = (Inr (), w) \<and> Written w = bs"
  using writes_ok by fastforce

text \<open>The Hello an honest client writes.\<close>

definition honest_options :: "bool \<Rightarrow> TlvList" where
  "honest_options grid = (if grid then [\<lparr>opt_Type = TLV_GRID_CAPABLE, opt_Value = [0, 1]\<rparr>] else [])"

definition honest_hello :: "ClientHandshake \<Rightarrow> HelloMessage" where
  "honest_hello c = \<lparr>he_VersionMin = PROTOCOL_VERSION_MIN, he_VersionMax = hc_Ceiling c, he_Id = hc_Id c,
     he_ClientNonce = hc_ClientNonce c, he_Options = honest_options (hc_GridCapable c)\<rparr>"

lemma honest_options_ok: "options_ok (honest_options grid)"
  by (simp add: honest_options_def options_ok_def TlvList_ok_def IsCritical_def TLV_GRID_CAPABLE_def
      TLV_CRITICAL_BIT_def size_defs)

lemma honest_options_append:
  "(if grid then TlvList_Append \<lparr>opt_Type = TLV_GRID_CAPABLE, opt_Value = [0, 1]\<rparr> [] else Inr []) = Inr (honest_options grid)"
  by (simp add: honest_options_def TlvList_Append_def size_defs)

lemma honest_hello_length:
  "length (hc_Id c) = SESSION_ID_SIZE \<Longrightarrow> length (hc_ClientNonce c) = HANDSHAKE_NONCE_SIZE \<Longrightarrow>
   length (Hello_body (honest_hello c)) \<le> 46"
  by (simp add: Hello_body_def honest_hello_def honest_options_def options_bytes_def option_bytes_def size_defs)

lemma Start_honest:
  assumes "hc_Stage c = CFresh" and "\<not> Seen (hc_Seen c) (hc_ClientNonce c)"
    and "length (hc_Id c) = SESSION_ID_SIZE" and "length (hc_ClientNonce c) = HANDSHAKE_NONCE_SIZE"
    and "64 \<le> length out"
  shows "Start S out c = (Inr (type_code Hello # Hello_body (honest_hello c)),
     c\<lparr>hc_Script := Absorb S (type_code Hello # Hello_body (honest_hello c)) (hc_Script c), hc_Stage := SentHello\<rparr>)"
proof -
  have "length (type_code Hello # Hello_body (honest_hello c)) \<le> length out"
    using honest_hello_length [OF assms(3,4)] assms(5) by simp
  from write_mk [OF writes_WriteHello this] obtain w where
    "WriteHello (honest_hello c) (mk_writer out) = (Inr (), w)" "Written w = type_code Hello # Hello_body (honest_hello c)"
    by blast
  then show ?thesis
    using assms(1,2) by (simp add: Start_def StartStep_def honest_options_append honest_hello_def)
qed

lemma OnHello_honest:
  assumes "hv_Stage s = SFresh" and "Hello_ok m" and "NegotiateVersion (he_VersionMin m) (he_VersionMax m) (hv_Ceiling s) = Inr v"
    and "\<not> Seen (hv_Seen s) (he_ClientNonce m)" and "\<not> Seen (hv_Seen s) (hv_ServerNonce s)"
    and "length (hv_ServerNonce s) = HANDSHAKE_NONCE_SIZE" and "64 \<le> length out"
    and "body = type_code Hello # Hello_body m"
    and "reply = type_code Challenge # Challenge_body \<lparr>ch_Version = v, ch_ServerNonce = hv_ServerNonce s, ch_Options = []\<rparr>"
  shows "ServerHandle S body out s = (Inr \<lparr>hs_Written = reply, hs_Complete = False\<rparr>,
     s\<lparr>hv_ClientNonce := he_ClientNonce m, hv_Version := v,
       hv_Script := Absorb S reply (Absorb S body (hv_Script s)), hv_Stage := SentChallenge\<rparr>)"
proof -
  let ?ch = "\<lparr>ch_Version = v, ch_ServerNonce = hv_ServerNonce s, ch_Options = []\<rparr> :: ChallengeMessage"
  have p: "ParseHello (rd_at [type_code Hello] (Hello_body m)) = (Inr m, rd_at ([type_code Hello] @ Hello_body m) [])"
    using hello.parse_ok [OF assms(2)] by (simp add: parses_all_def)
  have "length (type_code Challenge # Challenge_body ?ch) \<le> length out"
    using assms(6,7) by (simp add: Challenge_body_def options_bytes_def size_defs)
  from write_mk [OF writes_WriteChallenge this] obtain w where
    "WriteChallenge ?ch (mk_writer out) = (Inr (), w)" "Written w = reply"
    using assms(9) by blast
  then show ?thesis
    using assms(1-5,8) p parse_type [of Hello "Hello_body m"]
    by (simp add: ServerHandle_def ServerHandleStep_def OnHello_def Let_def del: type_code.simps)
qed

lemma OnChallenge_honest:
  assumes "auth_correct S" and "hc_Stage c = SentHello" and "Challenge_ok m"
    and "PROTOCOL_VERSION_MIN \<le> ch_Version m" and "ch_Version m \<le> hc_Ceiling c"
    and "\<not> Seen (hc_Seen c) (ch_ServerNonce m)" and "64 \<le> length out"
    and "body = type_code Challenge # Challenge_body m"
    and "reply = type_code Auth # Tag S (Absorb S body (hc_Script c)) (hc_Auth c) CLIENT_TAG_LABEL"
  shows "ClientHandle S body out c = (Inr \<lparr>hs_Written = reply, hs_Complete = False\<rparr>,
     c\<lparr>hc_ServerNonce := ch_ServerNonce m, hc_Version := ch_Version m,
       hc_Script := Absorb S reply (Absorb S body (hc_Script c)), hc_Stage := SentAuth\<rparr>)"
proof -
  let ?au = "\<lparr>au_ClientTag = Tag S (Absorb S body (hc_Script c)) (hc_Auth c) CLIENT_TAG_LABEL\<rparr>"
  have p: "ParseChallenge (rd_at [type_code Challenge] (Challenge_body m)) =
      (Inr m, rd_at ([type_code Challenge] @ Challenge_body m) [])"
    using challenge.parse_ok [OF assms(3)] by (simp add: parses_all_def)
  have "length (type_code Auth # au_ClientTag ?au) \<le> length out"
    using assms(1,7) by (simp add: length_Tag size_defs)
  from write_mk [OF writes_WriteAuth this] obtain w where
    "WriteAuth ?au (mk_writer out) = (Inr (), w)" "Written w = reply"
    using assms(9) by auto
  then show ?thesis
    using assms(2-6,8) p parse_type [of Challenge "Challenge_body m"]
    by (simp add: ClientHandle_def ClientHandleStep_def OnChallenge_def Let_def not_less del: type_code.simps)
qed

lemma OnAuth_honest:
  assumes "auth_correct S" and "hv_Stage s = SentChallenge" and "64 \<le> length out"
    and "body = type_code Auth # Tag S (hv_Script s) (hv_Auth s) CLIENT_TAG_LABEL"
    and "script = Absorb S (EncodeBE (hv_ReceiveOffset s)) (Absorb S body (hv_Script s))"
    and "reply = type_code AuthOk # AuthOk_body \<lparr>ao_ServerTag = Tag S script (hv_Auth s) SERVER_TAG_LABEL,
                    ao_ServerReceiveOffset = hv_ReceiveOffset s\<rparr>"
  shows "\<exists>s'. ServerHandle S body out s = (Inr \<lparr>hs_Written = reply, hs_Complete = True\<rparr>, s') \<and>
     hv_Stage s' = SDone \<and> hv_Version s' = hv_Version s \<and> hv_ClientNonce s' = hv_ClientNonce s \<and>
     hv_ServerNonce s' = hv_ServerNonce s \<and>
     hv_Keys s' = DeriveConnectionKeys S (hv_ConnectionSeed s) (hv_ClientNonce s) (hv_ServerNonce s) \<and>
     hv_FallbackKeys s' = (case hv_PreviousSeed s of
         None \<Rightarrow> hv_FallbackKeys s
       | Some seed \<Rightarrow> Some (DeriveConnectionKeys S seed (hv_ClientNonce s) (hv_ServerNonce s)))"
proof -
  let ?t = "Tag S (hv_Script s) (hv_Auth s) CLIENT_TAG_LABEL"
  let ?ok = "\<lparr>ao_ServerTag = Tag S script (hv_Auth s) SERVER_TAG_LABEL, ao_ServerReceiveOffset = hv_ReceiveOffset s\<rparr>"
  have p: "ParseAuth (rd_at [type_code Auth] ?t) = (Inr \<lparr>au_ClientTag = ?t\<rparr>, rd_at ([type_code Auth] @ ?t) [])"
    using auth.parse_ok [of "\<lparr>au_ClientTag = ?t\<rparr>"] assms(1) by (simp add: parses_all_def Auth_ok_def length_Tag)
  have "length (type_code AuthOk # AuthOk_body ?ok) \<le> length out"
    using assms(1,3) by (simp add: AuthOk_body_def length_Tag size_defs)
  from write_mk [OF writes_WriteAuthOk this] obtain w where
    "WriteAuthOk ?ok (mk_writer out) = (Inr (), w)" "Written w = reply"
    using assms(6) by blast
  then show ?thesis
    using assms(1,2,4,5) p parse_type [of Auth ?t] Verify_Tag
    by (simp add: ServerHandle_def ServerHandleStep_def OnAuth_def AbsorbReceiveOffset_eq Let_def del: type_code.simps)
qed

lemma OnAuthOk_honest:
  assumes "auth_correct S" and "hc_Stage c = SentAuth"
    and "script = Absorb S (EncodeBE off) (hc_Script c)"
    and "body = type_code AuthOk # AuthOk_body \<lparr>ao_ServerTag = Tag S script (hc_Auth c) SERVER_TAG_LABEL,
                   ao_ServerReceiveOffset = off\<rparr>"
  shows "\<exists>c'. ClientHandle S body out c = (Inr \<lparr>hs_Written = [], hs_Complete = True\<rparr>, c') \<and>
     hc_Stage c' = CDone \<and> hc_Version c' = hc_Version c \<and> hc_PeerReceiveOffset c' = off \<and>
     hc_ClientNonce c' = hc_ClientNonce c \<and> hc_ServerNonce c' = hc_ServerNonce c \<and>
     hc_Keys c' = DeriveConnectionKeys S (hc_ConnectionSeed c) (hc_ClientNonce c) (hc_ServerNonce c)"
proof -
  let ?ok = "\<lparr>ao_ServerTag = Tag S script (hc_Auth c) SERVER_TAG_LABEL, ao_ServerReceiveOffset = off\<rparr>"
  have "ParseAuthOk (rd_at [type_code AuthOk] (AuthOk_body ?ok)) = (Inr ?ok, rd_at ([type_code AuthOk] @ AuthOk_body ?ok) [])"
    using authok.parse_ok [of ?ok] assms(1) by (simp add: parses_all_def AuthOk_ok_def length_Tag)
  then show ?thesis
    using assms parse_type [of AuthOk "AuthOk_body ?ok"] Verify_Tag [OF assms(1)]
    by (simp add: ClientHandle_def ClientHandleStep_def OnAuthOk_def AbsorbReceiveOffset_eq Let_def del: type_code.simps)
qed

text \<open>The messages of a connection in the order the two ends exchange them.\<close>

definition run_handshake ::
  "sodium \<Rightarrow> bytes \<Rightarrow> ClientHandshake \<Rightarrow> ServerHandshake \<Rightarrow> PreAuthError + ClientHandshake \<times> ServerHandshake" where
  "run_handshake S out c s =
     (case Start S out c of (Inl e, _) \<Rightarrow> Inl e | (Inr hello, c1) \<Rightarrow>
      case ServerHandle S hello out s of (Inl e, _) \<Rightarrow> Inl e | (Inr challenge, s1) \<Rightarrow>
      case ClientHandle S (hs_Written challenge) out c1 of (Inl e, _) \<Rightarrow> Inl e | (Inr answer, c2) \<Rightarrow>
      case ServerHandle S (hs_Written answer) out s1 of (Inl e, _) \<Rightarrow> Inl e | (Inr ok, s2) \<Rightarrow>
      case ClientHandle S (hs_Written ok) out c2 of (Inl e, _) \<Rightarrow> Inl e | (Inr _, c3) \<Rightarrow> Inr (c3, s2))"

lemma NegotiateVersion_honest:
  "PROTOCOL_VERSION_MIN \<le> a \<Longrightarrow> PROTOCOL_VERSION_MIN \<le> b \<Longrightarrow>
   NegotiateVersion PROTOCOL_VERSION_MIN a b = Inr (min a b)"
  by (auto simp: NegotiateVersion_def)

text \<open>
  Every message of the run with the states in between. The two ends need not agree on the seed: the keys of
  the client's may be the fallback of the server.
\<close>

lemma handshake_steps:
  assumes "auth_correct S" and "64 \<le> length out"
    and "length sid = SESSION_ID_SIZE" and "length cn = HANDSHAKE_NONCE_SIZE" and "length sn = HANDSHAKE_NONCE_SIZE"
    and "PROTOCOL_VERSION_MIN \<le> cmax" and "PROTOCOL_VERSION_MIN \<le> smax"
    and "\<not> Seen seenC cn" and "\<not> Seen seenC sn" and "\<not> Seen seenS cn" and "\<not> Seen seenS sn"
  obtains hello c1 challenge s1 auth' c2 ok s2 c3 where
    "Start S out (mk_ClientHandshake S sid k seed cn seenC cmax grid) = (Inr hello, c1)"
    "ServerHandle S hello out (mk_ServerHandshake S k sseed sn off seenS prev smax) =
       (Inr \<lparr>hs_Written = challenge, hs_Complete = False\<rparr>, s1)"
    "ClientHandle S challenge out c1 = (Inr \<lparr>hs_Written = auth', hs_Complete = False\<rparr>, c2)"
    "ServerHandle S auth' out s1 = (Inr \<lparr>hs_Written = ok, hs_Complete = True\<rparr>, s2)"
    "ClientHandle S ok out c2 = (Inr \<lparr>hs_Written = [], hs_Complete = True\<rparr>, c3)"
    "hello = type_code Hello # Hello_body (honest_hello (mk_ClientHandshake S sid k seed cn seenC cmax grid))"
    "challenge \<noteq> []" "length challenge \<le> 64" "auth' \<noteq> []" "length auth' \<le> 64" "ok \<noteq> []" "length ok \<le> 64"
    "hc_Seen c1 = seenC" "hc_Seen c2 = seenC" "hv_Seen s1 = seenS"
    "hc_Stage c3 = CDone" "hv_Stage s2 = SDone"
    "hc_Keys c3 = DeriveConnectionKeys S seed cn sn" "hv_Keys s2 = DeriveConnectionKeys S sseed cn sn"
    "hv_FallbackKeys s2 = map_option (\<lambda>p. DeriveConnectionKeys S p cn sn) prev"
    "hc_Version c3 = min cmax smax" "hv_Version s2 = min cmax smax" "hc_PeerReceiveOffset c3 = off"
    "hc_ClientNonce c3 = cn" "hv_ClientNonce s2 = cn" "hc_ServerNonce c3 = sn" "hv_ServerNonce s2 = sn"
proof -
  define c0 where "c0 = mk_ClientHandshake S sid k seed cn seenC cmax grid"
  define s0 where "s0 = mk_ServerHandshake S k sseed sn off seenS prev smax"
  note inits = c0_def s0_def mk_ClientHandshake_def mk_ServerHandshake_def
  define hello where "hello = type_code Hello # Hello_body (honest_hello c0)"
  define c1 where "c1 = c0\<lparr>hc_Script := Absorb S hello (hc_Script c0), hc_Stage := SentHello\<rparr>"
  have 1: "Start S out c0 = (Inr hello, c1)"
    unfolding hello_def c1_def by (rule Start_honest) (use assms in \<open>simp_all add: inits\<close>)
  define ch where "ch = \<lparr>ch_Version = min cmax smax, ch_ServerNonce = sn, ch_Options = []\<rparr>"
  define challenge where "challenge = type_code Challenge # Challenge_body ch"
  define s1 where "s1 = s0\<lparr>hv_ClientNonce := cn, hv_Version := min cmax smax,
      hv_Script := Absorb S challenge (Absorb S hello (hv_Script s0)), hv_Stage := SentChallenge\<rparr>"
  have 2: "ServerHandle S hello out s0 = (Inr \<lparr>hs_Written = challenge, hs_Complete = False\<rparr>, s1)"
    using OnHello_honest [of s0 "honest_hello c0" "min cmax smax" out hello challenge S] assms
    by (simp add: inits honest_hello_def Hello_ok_def honest_options_ok NegotiateVersion_honest
        challenge_def ch_def hello_def s1_def)
  define auth' where "auth' = type_code Auth # Tag S (Absorb S challenge (hc_Script c1)) k CLIENT_TAG_LABEL"
  define c2 where "c2 = c1\<lparr>hc_ServerNonce := sn, hc_Version := min cmax smax,
      hc_Script := Absorb S auth' (Absorb S challenge (hc_Script c1)), hc_Stage := SentAuth\<rparr>"
  have 3: "ClientHandle S challenge out c1 = (Inr \<lparr>hs_Written = auth', hs_Complete = False\<rparr>, c2)"
    using OnChallenge_honest [of S c1 ch out challenge auth'] assms
    by (simp add: c1_def inits ch_def Challenge_ok_def options_ok_def TlvList_ok_def auth'_def challenge_def c2_def)
  have script: "hc_Script c2 = Absorb S auth' (hv_Script s1)" "hv_Auth s1 = k" "hc_Auth c2 = k"
      "hv_ReceiveOffset s1 = off"
    by (simp_all add: c2_def c1_def s1_def inits)
  define ok where "ok = type_code AuthOk # AuthOk_body
      \<lparr>ao_ServerTag = Tag S (Absorb S (EncodeBE off) (Absorb S auth' (hv_Script s1))) k SERVER_TAG_LABEL,
       ao_ServerReceiveOffset = off\<rparr>"
  have lengths: "length challenge \<le> 64" "length auth' \<le> 64" "length ok \<le> 64"
    using assms(1,5) by (simp_all add: challenge_def ch_def Challenge_body_def options_bytes_def auth'_def ok_def
        AuthOk_body_def length_Tag size_defs)
  obtain s2 where 4: "ServerHandle S auth' out s1 = (Inr \<lparr>hs_Written = ok, hs_Complete = True\<rparr>, s2)"
    "hv_Stage s2 = SDone" "hv_Version s2 = min cmax smax" "hv_ClientNonce s2 = cn" "hv_ServerNonce s2 = sn"
    "hv_Keys s2 = DeriveConnectionKeys S sseed cn sn"
    "hv_FallbackKeys s2 = map_option (\<lambda>p. DeriveConnectionKeys S p cn sn) prev"
    using OnAuth_honest [of S s1 out auth' _ ok] assms(1,2)
    by (cases prev) (simp_all add: s1_def inits auth'_def c1_def ok_def, blast+)
  obtain c3 where 5: "ClientHandle S ok out c2 = (Inr \<lparr>hs_Written = [], hs_Complete = True\<rparr>, c3)"
    "hc_Stage c3 = CDone" "hc_Version c3 = min cmax smax" "hc_PeerReceiveOffset c3 = off"
    "hc_ClientNonce c3 = cn" "hc_ServerNonce c3 = sn"
    "hc_Keys c3 = DeriveConnectionKeys S seed cn sn"
    using OnAuthOk_honest [of S c2 _ off ok out] assms(1) script
    by (simp add: ok_def) (simp add: c2_def c1_def inits; blast)
  have "hc_Seen c1 = seenC" "hc_Seen c2 = seenC" "hv_Seen s1 = seenS" "challenge \<noteq> []" "auth' \<noteq> []" "ok \<noteq> []"
    by (simp_all add: c1_def c2_def s1_def inits challenge_def auth'_def ok_def)
  with lengths 1 2 3 4 5 show ?thesis
    unfolding c0_def s0_def by (intro that [of hello c1 challenge s1 auth' c2 ok s2 c3]) (simp_all add: hello_def c0_def)
qed

lemma run_handshake_honest:
  assumes "auth_correct S" and "64 \<le> length out"
    and "length sid = SESSION_ID_SIZE" and "length cn = HANDSHAKE_NONCE_SIZE" and "length sn = HANDSHAKE_NONCE_SIZE"
    and "PROTOCOL_VERSION_MIN \<le> cmax" and "PROTOCOL_VERSION_MIN \<le> smax"
    and "\<not> Seen seenC cn" and "\<not> Seen seenC sn" and "\<not> Seen seenS cn" and "\<not> Seen seenS sn"
  shows "\<exists>c s. run_handshake S out (mk_ClientHandshake S sid k seed cn seenC cmax grid)
                 (mk_ServerHandshake S k seed sn off seenS prev smax) = Inr (c, s) \<and>
     hc_Stage c = CDone \<and> hv_Stage s = SDone \<and>
     hc_Keys c = DeriveConnectionKeys S seed cn sn \<and> hv_Keys s = DeriveConnectionKeys S seed cn sn \<and>
     hc_Version c = min cmax smax \<and> hv_Version s = min cmax smax \<and> hc_PeerReceiveOffset c = off \<and>
     hc_ClientNonce c = cn \<and> hv_ClientNonce s = cn \<and> hc_ServerNonce c = sn \<and> hv_ServerNonce s = sn"
  by (rule handshake_steps [OF assms, where k = k and seed = seed and sseed = seed and grid = grid and off = off and prev = prev])
    (simp add: run_handshake_def)

subsection \<open>Refusals and what an unauthenticated peer sees\<close>

lemma ServerHandle_refused: "ServerHandle S body out h = (Inl e, h') \<Longrightarrow> hv_Stage h' = SSpent"
  by (auto simp: ServerHandle_def split: prod.splits sum.splits)

lemma ClientHandle_refused: "ClientHandle S body out h = (Inl e, h') \<Longrightarrow> hc_Stage h' = CSpent"
  by (auto simp: ClientHandle_def split: prod.splits sum.splits)

lemma Server_spent:
  "hv_Stage h = SSpent \<Longrightarrow> ServerHandle S body out h = (Inl (Fail UnexpectedMessage), h)"
  by (auto simp: ServerHandle_def ServerHandleStep_def split: prod.splits sum.splits)

lemma Client_spent:
  "hc_Stage h = CSpent \<Longrightarrow> ClientHandle S body out h = (Inl (Fail UnexpectedMessage), h)"
  by (auto simp: ClientHandle_def ClientHandleStep_def split: prod.splits sum.splits)

fun server_answers :: "sodium \<Rightarrow> bytes \<Rightarrow> bytes list \<Rightarrow> ServerHandshake \<Rightarrow> (PreAuthError + HandshakeStep) list" where
  "server_answers S out [] h = []"
| "server_answers S out (b # bs) h = (let (r, h') = ServerHandle S b out h in r # server_answers S out bs h')"

lemma server_answers_spent:
  "hv_Stage h = SSpent \<Longrightarrow> server_answers S out bs h = replicate (length bs) (Inl (Fail UnexpectedMessage))"
  by (induction bs) (simp_all add: Server_spent)

text \<open>What of a server handshake is not derived from the session's secrets or its progress.\<close>

definition same_public :: "ServerHandshake \<Rightarrow> ServerHandshake \<Rightarrow> bool" where
  "same_public a b \<longleftrightarrow> hv_ServerNonce a = hv_ServerNonce b \<and> hv_ClientNonce a = hv_ClientNonce b \<and>
     hv_Seen a = hv_Seen b \<and> hv_Script a = hv_Script b \<and> hv_Version a = hv_Version b \<and>
     hv_Ceiling a = hv_Ceiling b \<and> hv_Stage a = hv_Stage b"

definition completes :: "PreAuthError + HandshakeStep \<Rightarrow> bool" where
  "completes r \<longleftrightarrow> (case r of Inl _ \<Rightarrow> False | Inr st \<Rightarrow> hs_Complete st)"

lemma OnHello_same:
  assumes "same_public a b"
  shows "fst (OnHello S r body out a) = fst (OnHello S r body out b)"
    and "same_public (snd (OnHello S r body out a)) (snd (OnHello S r body out b))"
  using assms by (auto simp: same_public_def OnHello_def Let_def split: prod.splits sum.splits)

lemma OnAuth_refuses:
  assumes "auth_correct S" and "64 \<le> length out" and "\<not> completes (fst (OnAuth S r body out a))"
  shows "OnAuth S r body out a =
    (Inl (Fail (case fst (ParseAuth r) of Inl e \<Rightarrow> e | Inr _ \<Rightarrow> AuthenticationFailed)), a)"
proof (cases "fst (ParseAuth r)")
  case (Inr m)
  show ?thesis
  proof (cases "Verify S (hv_Script a) (hv_Auth a) CLIENT_TAG_LABEL (au_ClientTag m)")
    case True
    let ?ok = "\<lparr>ao_ServerTag = Tag S (AbsorbReceiveOffset S (Absorb S body (hv_Script a)) (hv_ReceiveOffset a))
                 (hv_Auth a) SERVER_TAG_LABEL, ao_ServerReceiveOffset = hv_ReceiveOffset a\<rparr>"
    have "length (type_code AuthOk # AuthOk_body ?ok) \<le> length out"
      using assms(1,2) by (simp add: AuthOk_body_def length_Tag size_defs)
    from write_mk [OF writes_WriteAuthOk this] obtain w where "WriteAuthOk ?ok (mk_writer out) = (Inr (), w)"
      by blast
    then have "completes (fst (OnAuth S r body out a))"
      using True Inr by (simp add: OnAuth_def completes_def Let_def)
    then show ?thesis using assms(3) by simp
  qed (simp add: OnAuth_def Inr)
qed (simp add: OnAuth_def)

lemma ServerHandle_same:
  assumes "auth_correct S" and "64 \<le> length out" and "same_public a b"
    and "\<not> completes (fst (ServerHandle S body out a))" and "\<not> completes (fst (ServerHandle S body out b))"
  shows "fst (ServerHandle S body out a) = fst (ServerHandle S body out b) \<and>
    same_public (snd (ServerHandle S body out a)) (snd (ServerHandle S body out b))"
proof -
  have stage: "hv_Stage a = hv_Stage b" using assms(3) by (simp add: same_public_def)
  have c: "completes (fst (ServerHandle S body out h)) = completes (fst (ServerHandleStep S body out h))" for h
    by (auto simp: ServerHandle_def completes_def split: prod.splits sum.splits)
  have "fst (ServerHandleStep S body out a) = fst (ServerHandleStep S body out b) \<and>
      same_public (snd (ServerHandleStep S body out a)) (snd (ServerHandleStep S body out b))"
  proof (cases "ParseMessageType (mk_reader body)")
    case (Pair res r)
    show ?thesis
    proof (cases "\<exists>ty. res = Inr ty \<and> hv_Stage b = SentChallenge \<and> ty = Auth")
      case True
      then show ?thesis
        using assms(4,5) unfolding c
        using OnAuth_refuses [OF assms(1,2), of r body a] OnAuth_refuses [OF assms(1,2), of r body b] assms(3) stage Pair
        by (auto simp: ServerHandleStep_def)
    next
      case False
      then show ?thesis
        using OnHello_same [OF assms(3)] assms(3) stage Pair
        by (auto simp: ServerHandleStep_def split: sum.splits)
    qed
  qed
  then show ?thesis
    by (auto simp: ServerHandle_def same_public_def split: prod.splits sum.splits)
qed

lemma server_answers_same:
  assumes "auth_correct S" and "64 \<le> length out"
  shows "same_public a b \<Longrightarrow> \<not> list_ex completes (server_answers S out bs a) \<Longrightarrow>
    \<not> list_ex completes (server_answers S out bs b) \<Longrightarrow>
    server_answers S out bs a = server_answers S out bs b"
proof (induction bs arbitrary: a b)
  case (Cons x bs)
  obtain r h r' h' where hs: "ServerHandle S x out a = (r, h)" "ServerHandle S x out b = (r', h')"
    by fastforce
  then show ?case
    using Cons.IH [of h h'] Cons.prems ServerHandle_same [OF assms Cons.prems(1), of x] by simp
qed simp

end
