(* ===== verification/Example_Sodium.thy ===== *)
theory Example_Sodium
  imports Crypto
begin

text \<open>
  A concrete instance of the record \<open>sodium\<close> that meets every law the properties assume of the
  library: a checksum in place of the tag and of the hashes, and a key exchange that mixes the two
  seeds. It protects nothing; it shows that the hypotheses hold together, and it is what the
  witnesses evaluate.
\<close>

definition checksum :: "bytes \<Rightarrow> byte" where
  "checksum bs = foldl (\<lambda>h b. h * 31 + b) 7 bs"

definition example_sodium :: sodium where
  "example_sodium =
    \<lparr>aead_encrypt = (\<lambda>p ad n k. Some (p @ replicate TAG_SIZE (checksum (p @ ad @ n @ k)))),
     aead_decrypt = (\<lambda>c ad n k. let p = take (length c - TAG_SIZE) c in
        if drop (length c - TAG_SIZE) c = replicate TAG_SIZE (checksum (p @ ad @ n @ k)) then Some p else None),
     kdf_derive_from_key = (\<lambda>n i ctx k. replicate n (checksum (EncodeBE i @ ctx @ k))),
     generichash = (\<lambda>n m k. replicate n (checksum (m @ k))),
     auth = (\<lambda>m k. replicate MAC_SIZE (checksum (m @ k))),
     auth_verify = (\<lambda>mac m k. mac = replicate MAC_SIZE (checksum (m @ k))),
     kx_seed_keypair = (\<lambda>s. (replicate PUBLIC_KEY_SIZE (checksum s), replicate KEY_SIZE (checksum s))),
     kx_client_session_keys = (\<lambda>pk sk peer.
        Some (replicate KEY_SIZE (hd sk + hd peer), replicate KEY_SIZE (hd sk * hd peer))),
     kx_server_session_keys = (\<lambda>pk sk peer.
        Some (replicate KEY_SIZE (hd sk * hd peer), replicate KEY_SIZE (hd sk + hd peer)))\<rparr>"

lemma example_aead: "aead_correct example_sodium" "aead_total example_sodium"
  by (simp_all add: aead_correct_def aead_total_def example_sodium_def)

lemma example_auth: "auth_correct example_sodium"
  by (simp add: auth_correct_def example_sodium_def)

lemma example_kx: "kx_correct example_sodium"
  by (simp add: kx_correct_def example_sodium_def size_defs ac_simps)

lemma example_widths: "widths_correct example_sodium"
  by (simp add: widths_correct_def example_sodium_def)

end
