(* ===== verification/Wire_Properties.thy ===== *)
theory Wire_Properties
  imports Wire_Automata Example_Sodium
begin

text \<open>
  What the wire layer promises its users, stated over the model of the source with the library of the
  component theories behind it: framing, sealing, the handshake and the codecs. Each property whose
  statement has hypotheses is followed by an instance in which they hold.
\<close>

subsection \<open>Framing\<close>

text \<open>C23 (refinement). Whatever the chunks a connection reads, the frames a \<open>FrameStream\<close> hands out and
  the bytes it still holds are those of the concatenated bytes cut by \<open>ReadFrame\<close> alone: the ring, the
  pending frame and the chunk boundaries are invisible.\<close>

theorem frame_stream_chunking:
  assumes "fs_feed (mk_FrameStream storage mx) cs = (vs, s', None)"
  shows "split_frames (fs_MaxBodyLength (mk_FrameStream storage mx)) (concat cs) = (vs, held s', Truncated)"
proof -
  have "split_frames m [] = ([], [], Truncated)" for m
    by (simp add: split_frames.simps ReadFrame_short size_defs)
  then show ?thesis
    using fs_feed_split [OF mk_FrameStream_ok _ assms] by (simp add: held_mk_FrameStream)
qed

theorem frame_stream_chunking_witness:
  "\<exists>vs s'. fs_feed (mk_FrameStream (replicate 16 0) 8) [[0, 0], [0, 1, 0, 7, 0]] = (vs, s', None) \<and>
     split_frames (fs_MaxBodyLength (mk_FrameStream (replicate 16 0) 8)) (concat [[0, 0], [0, 1, 0, 7, 0]]) =
       (vs, held s', Truncated)"
proof -
  let ?run = "fs_feed (mk_FrameStream (replicate 16 0) 8) [[0, 0], [0, 1, 0, 7, 0]]"
  have "snd (snd ?run) = None" by code_simp
  then have "?run = (fst ?run, fst (snd ?run), None)" by (metis prod.collapse)
  then show ?thesis using frame_stream_chunking by blast
qed

text \<open>A frame is delivered whole or not at all, and never past the limit: \<open>ReadFrame\<close> succeeds
  exactly on a buffer that starts with a header announcing a body of between one and the permitted number
  of bytes, followed by that body; it consumes exactly those bytes.\<close>

theorem ReadFrame_exact:
  "ReadFrame buf mx = Inr v \<longleftrightarrow>
     (\<exists>rest. buf = header_bytes (fv_Header v) @ fv_Body v @ rest \<and> fv_Body v \<noteq> [] \<and>
        length (fv_Body v) = unat (fh_Length (fv_Header v)) \<and> fh_Length (fv_Header v) \<le> mx \<and>
        fv_Consumed v = HEADER_SIZE + length (fv_Body v))"
proof
  assume "ReadFrame buf mx = Inr v"
  from ReadFrame_InrD [OF this] show "\<exists>rest. buf = header_bytes (fv_Header v) @ fv_Body v @ rest \<and> fv_Body v \<noteq> [] \<and>
      length (fv_Body v) = unat (fh_Length (fv_Header v)) \<and> fh_Length (fv_Header v) \<le> mx \<and>
      fv_Consumed v = HEADER_SIZE + length (fv_Body v)"
    by (intro exI [of _ "drop (fv_Consumed v) buf"])
      (simp add: frame_bytes_def flip: length_greater_0_conv)
next
  assume "\<exists>rest. buf = header_bytes (fv_Header v) @ fv_Body v @ rest \<and> fv_Body v \<noteq> [] \<and>
      length (fv_Body v) = unat (fh_Length (fv_Header v)) \<and> fh_Length (fv_Header v) \<le> mx \<and>
      fv_Consumed v = HEADER_SIZE + length (fv_Body v)"
  then show "ReadFrame buf mx = Inr v" by (cases v) (auto simp: ReadFrame_header unat_eq_zero)
qed

subsection \<open>Sealing\<close>

text \<open>C8 (liveness). A stream of messages, with rekeys anywhere in between, that fits the frame budget of a
  generation and the 255 rekeys there are, is sealed without error and is opened by the peer to the same
  messages in the same order.\<close>

theorem sealed_stream_delivered:
  assumes "aead_correct S" and "aead_total S" and "length salt = SALT_SIZE" and "length ms \<le> unat frameLimit"
    and "length (filter fst ms) \<le> 255" and "list_all (\<lambda>m. length (snd m) + TAG_SIZE \<le> MAX_FRAME) ms"
  shows "\<exists>fs. send_all S (mk_FrameSealer key salt frameLimit byteLimit) ms = Inr fs \<and>
    receive_all S (mk_FrameOpener key salt frameLimit) fs = Inr (map snd ms)"
proof -
  let ?s = "mk_FrameSealer key salt frameLimit byteLimit"
  obtain fs where fs: "send_all S ?s ms = Inr fs"
    using send_all_total [OF assms(1,2), of ?s ms] assms(3-6) by (auto simp: mk_FrameSealer_def)
  have "synced ?s (mk_FrameOpener key salt frameLimit)"
    by (simp add: synced_def mk_FrameSealer_def mk_FrameOpener_def)
  from receive_send_all [OF assms(1) in_step_init this fs] fs show ?thesis by blast
qed

theorem sealed_stream_delivered_witness:
  "\<exists>fs. send_all example_sodium (mk_FrameSealer zero_key (replicate SALT_SIZE 9) 10 100) [(False, [1, 2]), (True, [3])] = Inr fs \<and>
     receive_all example_sodium (mk_FrameOpener zero_key (replicate SALT_SIZE 9) 10) fs = Inr [[1, 2], [3]]"
  using sealed_stream_delivered [OF example_aead, of "replicate SALT_SIZE 9" "[(False, [1, 2]), (True, [3])]" 10 zero_key 100]
  by (simp add: size_defs)

text \<open>C9 (safety). No nonce is used twice under one key. Whatever is sealed and whenever it is rekeyed, each frame a new
  sealer sends is the encryption of its message under the key of its generation, which every rekey derives from the one
  before, with the salt and the position in the generation as nonce; and as long as the generations have different keys,
  no two frames share both key and nonce.\<close>

theorem sealer_never_repeats_nonce:
  assumes "send_all S (mk_FrameSealer key salt frameLimit byteLimit) ms = Inr fs" and "length salt = SALT_SIZE"
    and "inj_on (generation_key S key) {..length (filter fst ms)}"
  shows "map Some fs = map2 (frame_at S key salt) (frame_places 0 0 ms) (map snd ms) \<and>
    distinct (map (key_and_nonce S key salt) (frame_places 0 0 ms))"
proof -
  have "sealer_at S key salt 0 0 (mk_FrameSealer key salt frameLimit byteLimit)" by (simp add: sealer_at_def mk_FrameSealer_def)
  from send_all_frames [OF this assms(1)] show ?thesis using key_and_nonce_distinct [OF assms(2,3)] by blast
qed

lemma checksum_zeros: "foldl (\<lambda>h b. h * 31 + b) (a :: byte) (replicate n 0) = a * 31 ^ n"
  by (induction n arbitrary: a) (simp_all add: mult.assoc)

theorem sealer_never_repeats_nonce_witness:
  "\<exists>fs. send_all example_sodium (mk_FrameSealer zero_key (replicate SALT_SIZE 9) 10 100) [(False, [1, 2]), (True, [3])] = Inr fs \<and>
     map Some fs = [frame_at example_sodium zero_key (replicate SALT_SIZE 9) (0, 0) [1, 2],
                    frame_at example_sodium zero_key (replicate SALT_SIZE 9) (1, 0) [3]]"
proof -
  let ?ms = "[(False, [1, 2]), (True, [3])]" and ?s = "mk_FrameSealer zero_key (replicate SALT_SIZE 9) 10 100"
  obtain fs where fs: "send_all example_sodium ?s ?ms = Inr fs"
    using send_all_total [OF example_aead, of ?s ?ms] by (auto simp: mk_FrameSealer_def size_defs)
  have "generation_key example_sodium zero_key 1 \<noteq> generation_key example_sodium zero_key 0"
    by (simp add: DeriveSubkey_def example_sodium_def checksum_def REKEY_CONTEXT_def ascii_def zero_key_def EncodeBE_def size_defs upt_rec checksum_zeros)
  then have "inj_on (generation_key example_sodium zero_key) {..length (filter fst ?ms)}" by (auto simp: inj_on_def le_Suc_eq)
  with sealer_never_repeats_nonce [OF fs] fs show ?thesis by auto
qed

text \<open>A frame that does not open, whoever made it, cannot desynchronise the two ends: after any
  refused frame the next genuine one still opens to its plaintext.\<close>

theorem forged_frame_harmless:
  assumes "aead_correct S" and "in_step S s o1" and "Open S into forged o1 = (Inl e, o2)"
    and "Seal S out p s = (Inr (n, out'), s')" and "ReadFrame (take n out') (of_nat MAX_FRAME) = Inr frame"
    and "length p \<le> length into"
  shows "\<exists>o3. Open S into frame o2 = (Inr p, o3) \<and> in_step S s' o3"
  using Open_in_step [OF assms(1) Open_Inl_in_step [OF assms(2,3)] assms(4,5,6)] by blast

theorem forged_frame_harmless_witness:
  "\<exists>n out' s' frame o3.
     Seal example_sodium (replicate 64 0) [5, 6] (mk_FrameSealer zero_key (replicate SALT_SIZE 9) 10 100) = (Inr (n, out'), s') \<and>
     ReadFrame (take n out') (of_nat MAX_FRAME) = Inr frame \<and>
     Open example_sodium (replicate 64 0) frame
       (snd (Open example_sodium (replicate 64 0) \<lparr>fv_Header = \<lparr>fh_Length = 1, fh_Epoch = 7\<rparr>, fv_Body = [0], fv_Consumed = 6\<rparr>
          (mk_FrameOpener zero_key (replicate SALT_SIZE 9) 10))) = (Inr [5, 6], o3)"
proof -
  let ?s = "mk_FrameSealer zero_key (replicate SALT_SIZE 9) 10 100"
  let ?o = "mk_FrameOpener zero_key (replicate SALT_SIZE 9) 10"
  let ?f = "\<lparr>fv_Header = \<lparr>fh_Length = 1, fh_Epoch = 7\<rparr>, fv_Body = [0], fv_Consumed = 6\<rparr> :: FrameView"
  have bad: "Open example_sodium (replicate 64 0) ?f ?o = (Inl AuthenticationFailed, ?o)"
    by (simp add: Open_def mk_FrameOpener_def)
  obtain n out' s' where seal: "Seal example_sodium (replicate 64 0) [5, 6] ?s = (Inr (n, out'), s')"
    using Seal_total [OF example_aead, of ?s "[5, 6]" "replicate 64 0"] by (auto simp: mk_FrameSealer_def size_defs)
  obtain frame where frame: "ReadFrame (take n out') (of_nat MAX_FRAME) = Inr frame"
    using Seal_ReadFrame [OF example_aead(1) seal] by metis
  from forged_frame_harmless [OF example_aead(1) in_step_init bad seal frame]
  obtain o3 where "Open example_sodium (replicate 64 0) frame ?o = (Inr [5, 6], o3)" by auto
  with seal frame bad show ?thesis by auto
qed

text \<open>C37 (safety). What the opener does once its last generation is in use: a frame labelled with generation
  0 is taken for the next generation, whose key was never derived and is the wiped, all-zero key. A frame
  encrypted under that public key is accepted, and the opener continues under it.\<close>

theorem Open_wraps_after_last_epoch:
  assumes "opener_ok o'" and "op_Epoch o' = 0xFF" and "fh_Epoch (fv_Header frame) = 0" and "0 < op_FrameLimit o'"
    and "aead_correct S"
    and "aead_encrypt S p (header_bytes (fv_Header frame)) (MakeNonce (op_Salt o') 0) zero_key = Some (fv_Body frame)"
    and "length (op_Salt o') = SALT_SIZE" and "length p \<le> length into"
  shows "Open S into frame o' = (Inr p, o'\<lparr>op_Key := zero_key, op_Counter := 1, op_Epoch := 0\<rparr>)"
  using assms by (rule Open_after_last_epoch)

theorem Open_wraps_after_last_epoch_witness:
  "\<exists>body o'. Open example_sodium (replicate 8 0) \<lparr>fv_Header = \<lparr>fh_Length = 18, fh_Epoch = 0\<rparr>, fv_Body = body, fv_Consumed = 23\<rparr>
     ((mk_FrameOpener (replicate KEY_SIZE 77) (replicate SALT_SIZE 9) 10)\<lparr>op_Epoch := 0xFF, op_Counter := 3\<rparr>) = (Inr [1, 2], o') \<and>
     op_Key o' = zero_key"
proof -
  let ?o = "(mk_FrameOpener (replicate KEY_SIZE 77) (replicate SALT_SIZE 9) 10)\<lparr>op_Epoch := 0xFF, op_Counter := 3\<rparr>"
  let ?h = "\<lparr>fh_Length = 18, fh_Epoch = 0\<rparr> :: FrameHeader"
  obtain body where "aead_encrypt example_sodium [1, 2] (header_bytes ?h) (MakeNonce (replicate SALT_SIZE 9) 0) zero_key = Some body"
    using example_aead(2) unfolding aead_total_def by blast
  moreover have "opener_ok ?o" by (simp add: opener_ok_def mk_FrameOpener_def)
  ultimately have "Open example_sodium (replicate 8 0) \<lparr>fv_Header = ?h, fv_Body = body, fv_Consumed = 23\<rparr> ?o =
      (Inr [1, 2], ?o\<lparr>op_Key := zero_key, op_Counter := 1, op_Epoch := 0\<rparr>)"
    using Open_wraps_after_last_epoch [OF _ _ _ _ example_aead(1), of ?o "\<lparr>fv_Header = ?h, fv_Body = body, fv_Consumed = 23\<rparr>" "[1, 2]" "replicate 8 0"]
    by (simp add: mk_FrameOpener_def)
  then show ?thesis by (intro exI conjI) (assumption, simp)
qed

subsection \<open>The handshake\<close>

text \<open>C6 (functional). A client and a server of one session, whose nonces neither has seen, complete the
  handshake and agree: the same connection keys, the highest version both speak, the receive offset the
  server sent, and each other's nonces.\<close>

theorem handshake_agreement:
  assumes "auth_correct S" and "64 \<le> length out"
    and "length sid = SESSION_ID_SIZE" and "length cn = HANDSHAKE_NONCE_SIZE" and "length sn = HANDSHAKE_NONCE_SIZE"
    and "PROTOCOL_VERSION_MIN \<le> cmax" and "PROTOCOL_VERSION_MIN \<le> smax"
    and "\<not> Seen seenC cn" and "\<not> Seen seenC sn" and "\<not> Seen seenS cn" and "\<not> Seen seenS sn"
  shows "\<exists>c s. run_handshake S out (mk_ClientHandshake S sid k seed cn seenC cmax grid)
                 (mk_ServerHandshake S k seed sn off seenS prev smax) = Inr (c, s) \<and>
     hc_Stage c = CDone \<and> hv_Stage s = SDone \<and>
     hc_Keys c = DeriveConnectionKeys S seed cn sn \<and> hv_Keys s = DeriveConnectionKeys S seed cn sn \<and>
     hc_Version c = min cmax smax \<and> hv_Version s = min cmax smax \<and> hc_PeerReceiveOffset c = off \<and>
     hc_ClientNonce c = cn \<and> hv_ClientNonce s = cn \<and> hc_ServerNonce c = sn \<and> hv_ServerNonce s = sn"
  using assms by (rule run_handshake_honest)

theorem handshake_agreement_witness:
  "\<exists>c s. run_handshake example_sodium (replicate 64 0)
       (mk_ClientHandshake example_sodium (replicate SESSION_ID_SIZE 1) zero_key zero_key
          (replicate HANDSHAKE_NONCE_SIZE 2) mk_NonceMemory 2 True)
       (mk_ServerHandshake example_sodium zero_key zero_key (replicate HANDSHAKE_NONCE_SIZE 3) 40 mk_NonceMemory None 1) = Inr (c, s) \<and>
     hc_Version c = 1 \<and> hv_Version s = 1 \<and> hc_PeerReceiveOffset c = 40"
proof -
  have "\<not> Seen mk_NonceMemory n" for n by (simp add: Seen_def mk_NonceMemory_def)
  then show ?thesis
    using handshake_agreement [OF example_auth, of "replicate 64 0" "replicate SESSION_ID_SIZE 1" "replicate HANDSHAKE_NONCE_SIZE 2"
        "replicate HANDSHAKE_NONCE_SIZE 3" 2 1 mk_NonceMemory mk_NonceMemory zero_key zero_key True 40 None]
    by (auto simp: version_defs)
qed

text \<open>A session that does not exist answers like one that does: two server handshakes that
  differ only in their secrets, fed the same messages, give the same answers byte for byte as long as
  neither peer proves it knows the secret.\<close>

theorem decoy_indistinguishable:
  assumes "auth_correct S" and "64 \<le> length out" and "same_public a b"
    and "\<not> list_ex completes (server_answers S out bs a)" and "\<not> list_ex completes (server_answers S out bs b)"
  shows "server_answers S out bs a = server_answers S out bs b"
  using server_answers_same [OF assms(1,2)] assms(3-5) by blast

lemma unseen_by_new_memory [simp]: "\<not> Seen mk_NonceMemory n"
  by (simp add: Seen_def mk_NonceMemory_def)

definition example_hello :: HelloMessage where
  "example_hello = \<lparr>he_VersionMin = 1, he_VersionMax = 2, he_Id = replicate SESSION_ID_SIZE 1,
     he_ClientNonce = replicate HANDSHAKE_NONCE_SIZE 2, he_Options = []\<rparr>"

definition example_server :: "Key \<Rightarrow> ServerHandshake" where
  "example_server k = mk_ServerHandshake example_sodium k zero_key (replicate HANDSHAKE_NONCE_SIZE 3) 0 mk_NonceMemory None 2"

lemma empty_message_refused:
  "ServerHandle S [] out h = (Inl (Fail UnexpectedMessage), h\<lparr>hv_Stage := SSpent\<rparr>)"
  by (simp add: ServerHandle_def ServerHandleStep_def ParseMessageType_def ReadU8_def bindE_def ReadBytes_def
      mk_reader_def rd_Remaining_def)

lemma example_server_answers:
  "\<exists>reply. server_answers example_sodium (replicate 64 0) [type_code Hello # Hello_body example_hello, []] (example_server k) =
     [Inr \<lparr>hs_Written = reply, hs_Complete = False\<rparr>, Inl (Fail UnexpectedMessage)]"
proof -
  have "Hello_ok example_hello" by (simp add: Hello_ok_def example_hello_def options_ok_def)
  moreover have "NegotiateVersion 1 2 2 = Inr 2" by (simp add: NegotiateVersion_Inr version_defs)
  ultimately show ?thesis
    using OnHello_honest [of "example_server k" example_hello 2 "replicate 64 0" _ _ example_sodium]
    by (simp add: example_server_def example_hello_def mk_ServerHandshake_def empty_message_refused del: type_code.simps)
qed

theorem decoy_indistinguishable_witness:
  "server_answers example_sodium (replicate 64 0) [type_code Hello # Hello_body example_hello, []] (example_server zero_key) =
   server_answers example_sodium (replicate 64 0) [type_code Hello # Hello_body example_hello, []] (example_server (replicate KEY_SIZE 5))"
proof (rule decoy_indistinguishable [OF example_auth])
  have "\<not> list_ex completes (server_answers example_sodium (replicate 64 0) [type_code Hello # Hello_body example_hello, []] (example_server k))" for k
    using example_server_answers [of k] by (auto simp: completes_def)
  then show "\<not> list_ex completes (server_answers example_sodium (replicate 64 0) [type_code Hello # Hello_body example_hello, []] (example_server zero_key))"
    "\<not> list_ex completes (server_answers example_sodium (replicate 64 0) [type_code Hello # Hello_body example_hello, []] (example_server (replicate KEY_SIZE 5)))"
    by blast+
  show "same_public (example_server zero_key) (example_server (replicate KEY_SIZE 5))"
    by (simp add: same_public_def example_server_def mk_ServerHandshake_def)
qed simp

text \<open>A refused handshake is over: the server that refused one message refuses every later one the
  same way, whatever it is.\<close>

theorem refused_handshake_is_final:
  assumes "ServerHandle S body out h = (Inl e, h')"
  shows "server_answers S out bs h' = replicate (length bs) (Inl (Fail UnexpectedMessage))"
  using ServerHandle_refused [OF assms] by (rule server_answers_spent)

theorem refused_handshake_is_final_witness:
  "\<exists>h'. ServerHandle example_sodium [] (replicate 64 0) (example_server zero_key) = (Inl (Fail UnexpectedMessage), h') \<and>
     server_answers example_sodium (replicate 64 0) [[1], [2]] h' =
       [Inl (Fail UnexpectedMessage), Inl (Fail UnexpectedMessage)]"
  using refused_handshake_is_final [OF empty_message_refused, of example_sodium "replicate 64 0" "[[1], [2]]" "example_server zero_key"]
  by (simp add: empty_message_refused numeral_2_eq_2)

text \<open>\<open>NonceMemory\<close> is a sliding window: after any sequence of connections it recognises
  exactly the last \<open>MAX_REMEMBERED_NONCES\<close> nonces.\<close>

theorem nonce_memory_window:
  "Seen (fold Remember ns mk_NonceMemory) x \<longleftrightarrow> x \<in> set (drop (length ns - MAX_REMEMBERED_NONCES) ns)"
proof -
  have "remembers m ms \<Longrightarrow> remembers (fold Remember ns m) (ms @ ns)" for m ms
  proof (induction ns arbitrary: m ms)
    case (Cons n ns)
    from Cons.IH [OF remembers_Remember [OF Cons.prems]] show ?case by simp
  qed simp
  from Seen_remembers [OF this [OF remembers_init]] show ?thesis by simp
qed

text \<open>Version negotiation picks the highest version both ranges contain, and fails only when
  they have none in common.\<close>

theorem negotiated_version_is_best:
  "NegotiateVersion lo hi ours = Inr v \<longleftrightarrow>
     (lo \<le> v \<and> v \<le> hi \<and> PROTOCOL_VERSION_MIN \<le> v \<and> v \<le> ours \<and>
      \<not> (\<exists>u. lo \<le> u \<and> u \<le> hi \<and> PROTOCOL_VERSION_MIN \<le> u \<and> u \<le> ours \<and> v < u))"
  unfolding NegotiateVersion_Inr by (auto simp: not_less) 

subsection \<open>Messages\<close>

text \<open>C29 (equivalence). Parsing the handshake and registration messages is exact: each parser accepts the
  canonical encoding of a well-formed message and nothing else, with no trailing bytes, no repeated or
  critical option, no forbidden value.\<close>

theorem handshake_parsers_exact:
  "(fst (ParseHello (mk_reader bs)) = Inr he \<longleftrightarrow> Hello_ok he \<and> bs = Hello_body he) \<and>
   (fst (ParseChallenge (mk_reader bs)) = Inr ch \<longleftrightarrow> Challenge_ok ch \<and> bs = Challenge_body ch) \<and>
   (fst (ParseAuth (mk_reader bs)) = Inr au \<longleftrightarrow> Auth_ok au \<and> bs = au_ClientTag au) \<and>
   (fst (ParseAuthOk (mk_reader bs)) = Inr ao \<longleftrightarrow> AuthOk_ok ao \<and> bs = AuthOk_body ao) \<and>
   (fst (ParseResume v (mk_reader bs)) = Inr re \<longleftrightarrow> Resume_ok v re \<and> bs = Resume_body v re) \<and>
   (fst (ParseBootstrapOffer (mk_reader bs)) = Inr bo \<longleftrightarrow> Offer_ok bo \<and> bs = Offer_body bo) \<and>
   (fst (ParseBootstrapAccept (mk_reader bs)) = Inr ba \<longleftrightarrow> Accept_ok ba \<and> bs = Accept_body ba)"
  by (intro conjI) (rule hello.parse_iff challenge.parse_iff auth.parse_iff authok.parse_iff resume.parse_iff offer.parse_iff
      accept.parse_iff)+

text \<open>C30 (equivalence). Parsing is exact in the same sense for every message of an established session, of a snapshot and of
  the router's socket: a parser accepts the canonical body of a well-formed message, nothing before and nothing after it.\<close>

theorem session_parsers_exact:
  "(fst (ParseData (mk_reader bs)) = Inr da \<longleftrightarrow> Data_ok da \<and> bs = Data_body da) \<and>
   (fst (ParseAck (mk_reader bs)) = Inr ac \<longleftrightarrow> bs = EncodeBE (ac_Ack ac)) \<and>
   (fst (ParseResize (mk_reader bs)) = Inr rz \<longleftrightarrow> bs = Resize_body rz) \<and>
   (fst (ParsePing (mk_reader bs)) = Inr pi \<longleftrightarrow> bs = EncodeBE (pi_Token pi)) \<and>
   (fst (ParsePong (mk_reader bs)) = Inr po \<longleftrightarrow> bs = EncodeBE (po_Token po)) \<and>
   (fst (ParseSessionEnd v (mk_reader bs)) = Inr se \<longleftrightarrow> SessionEnd_ok v se \<and> bs = SessionEnd_body se) \<and>
   (fst (ParseGridBegin (mk_reader bs)) = Inr gb \<longleftrightarrow> GridBegin_ok gb \<and> bs = GridBegin_body gb) \<and>
   (fst (ParseGridChunk (mk_reader bs)) = Inr gc \<longleftrightarrow> GridChunk_ok gc \<and> bs = GridChunk_body gc) \<and>
   (fst (ParseGridEnd (mk_reader bs)) = Inr ge \<longleftrightarrow> bs = []) \<and>
   (fst (ParseGridApplied (mk_reader bs)) = Inr ga \<longleftrightarrow> bs = EncodeBE (ga_StreamGen ga)) \<and>
   (fst (ParseMuxRegister (mk_reader bs)) = Inr mr \<longleftrightarrow> MuxRegister_ok mr \<and> bs = mr_Registration mr) \<and>
   (fst (ParseMuxRegistered (mk_reader bs)) = Inr md \<longleftrightarrow> MuxRegistered_ok md \<and> bs = EncodeBE (md_Port md)) \<and>
   (fst (ParseMuxRefused (mk_reader bs)) = Inr mf \<longleftrightarrow> IsMuxRefusal (mf_Reason mf) \<and> bs = [mf_Reason mf]) \<and>
   (fst (ParseMuxHandoff (mk_reader bs)) = Inr mh \<longleftrightarrow> MuxHandoff_ok mh \<and> bs = MuxHandoff_body mh)"
  unfolding data.parse_iff ack.parse_iff resize.parse_iff ping.parse_iff pong.parse_iff sessionend.parse_iff gridbegin.parse_iff
    gridchunk.parse_iff gridend.parse_iff gridapplied.parse_iff muxregister.parse_iff muxregistered.parse_iff muxrefused.parse_iff
    muxhandoff.parse_iff
  by simp

text \<open>A bootstrap offer that fits the buffer is written and read back unchanged, environment
  included, and what was written is exactly the type byte and the canonical body.\<close>

theorem offer_roundtrip:
  assumes "Offer_ok m" and "Suc (length (Offer_body m)) \<le> length out"
  shows "\<exists>w. WriteBootstrapOffer m (mk_writer out) = (Inr (), w) \<and> Written w = type_code BootstrapOffer # Offer_body m \<and>
    fst (ParseBootstrapOffer (mk_reader (tl (Written w)))) = Inr m"
  using offer.roundtrip [OF assms(1), of out] assms(2) by simp

theorem offer_roundtrip_witness:
  "\<exists>m w. length (bo_Environment m) = 1 \<and> WriteBootstrapOffer m (mk_writer (replicate 128 0)) = (Inr (), w) \<and>
     fst (ParseBootstrapOffer (mk_reader (tl (Written w)))) = Inr m"
proof -
  define m where "m = \<lparr>bo_VersionMin = 1, bo_VersionMax = 2, bo_ClientKey = replicate PUBLIC_KEY_SIZE 1,
    bo_ClientNonce = replicate BOOTSTRAP_NONCE_SIZE 2,
    bo_Environment = [\<lparr>env_Name = ascii ''TERM'', env_Value = ascii ''vt220''\<rparr>]\<rparr>"
  have "IsForwardedVariable (ascii ''TERM'')" "IsPrintable (ascii ''vt220'')" by code_simp+
  then have "Offer_ok m" by (simp add: m_def Offer_ok_def Offer_wf_def env_ok_def size_defs ascii_def)
  moreover have "Suc (length (Offer_body m)) \<le> length (replicate 128 (0 :: byte))"
    by (simp add: m_def Offer_body_def env_bytes_def short_bytes_def size_defs ascii_def)
  moreover have "length (bo_Environment m) = 1" by (simp add: m_def)
  ultimately show ?thesis using offer_roundtrip [of m "replicate 128 0"] by blast
qed

text \<open>Routing a connection by its Hello without parsing it all: wherever the full parser
  accepts the first frame, \<open>PeekHello\<close> finds the same session id and the same frame length.\<close>

theorem peek_agrees_with_parse:
  assumes "ReadFrame buffer (of_nat MAX_HANDSHAKE_FRAME) = Inr frame" and "fh_Epoch (fv_Header frame) = CLEARTEXT_EPOCH"
    and "fv_Body frame = type_code Hello # rest" and "fst (ParseHello (mk_reader rest)) = Inr m"
  shows "PeekHello buffer = Inr \<lparr>hp_FrameSize = fv_Consumed frame, hp_Id = he_Id m\<rparr>"
  using assms by (rule PeekHello_agrees)

theorem peek_agrees_with_parse_witness:
  "\<exists>h. PeekHello (frame_bytes h (type_code Hello # Hello_body example_hello)) =
     Inr \<lparr>hp_FrameSize = HEADER_SIZE + Suc (length (Hello_body example_hello)), hp_Id = replicate SESSION_ID_SIZE 1\<rparr>"
proof -
  let ?body = "type_code Hello # Hello_body example_hello"
  let ?h = "\<lparr>fh_Length = of_nat (length ?body), fh_Epoch = CLEARTEXT_EPOCH\<rparr> :: FrameHeader"
  let ?v = "\<lparr>fv_Header = ?h, fv_Body = ?body, fv_Consumed = HEADER_SIZE + length ?body\<rparr> :: FrameView"
  have len: "length (Hello_body example_hello) = 40"
    by (simp add: Hello_body_def example_hello_def options_bytes_def size_defs HELLO_MAGIC_def ascii_def)
  have "ReadFrame (header_bytes ?h @ ?body) (of_nat MAX_HANDSHAKE_FRAME) = Inr ?v"
    unfolding ReadFrame_header using len by (simp add: size_defs del: type_code.simps)
  moreover have "fst (ParseHello (mk_reader (Hello_body example_hello))) = Inr example_hello"
    by (simp add: hello.parse_iff Hello_ok_def example_hello_def options_ok_def)
  ultimately show ?thesis
    using peek_agrees_with_parse [of "header_bytes ?h @ ?body" ?v "Hello_body example_hello" example_hello]
    by (intro exI [of _ ?h]) (simp add: frame_bytes_def example_hello_def del: type_code.simps)
qed

text \<open>The grid capability is read from the raw option bytes with the same answer as from the
  parsed list of options: present and well formed, absent, or an error.\<close>

theorem grid_capability_from_bytes:
  assumes "TlvList_ok opts"
  shows "HasGridCapableTlv (options_bytes opts) = grid_capability opts"
  using assms by (rule HasGridCapableTlv_options)

theorem grid_capability_from_bytes_witness:
  "HasGridCapableTlv (options_bytes [\<lparr>opt_Type = 9, opt_Value = [1]\<rparr>, \<lparr>opt_Type = TLV_GRID_CAPABLE, opt_Value = [0, 1]\<rparr>]) =
   grid_capability [\<lparr>opt_Type = 9, opt_Value = [1]\<rparr>, \<lparr>opt_Type = TLV_GRID_CAPABLE, opt_Value = [0, 1]\<rparr>]"
  by (rule grid_capability_from_bytes) (simp add: TlvList_ok_def size_defs TLV_GRID_CAPABLE_def)

end
