(* ===== verification/Core_Time.thy ===== *)
theory Core_Time
  imports Prelude
begin

text \<open>
  \<^verbatim>\<open>src/core/include/zet/core/time.hpp\<close>: timestamps and deadlines.

  A \<open>Timestamp\<close> is a signed count of nanoseconds and a \<open>Duration\<close> a difference of two; both are
  \<open>int\<close> here. The C++ type is a signed 64-bit integer, whose overflow is undefined, so a run that
  leaves that range has no meaning in the source either. The lemmas show that \<open>Earliest\<close> is the
  minimum in which a deadline that is not set lies after every other.
\<close>

type_synonym Timestamp = int
type_synonym Duration = int

record Deadline =
  dl_At :: Timestamp
  dl_IsSet :: bool

definition no_deadline :: Deadline where
  "no_deadline = \<lparr>dl_At = 0, dl_IsSet = False\<rparr>"

definition deadline_at :: "Timestamp \<Rightarrow> Deadline" where
  "deadline_at t = \<lparr>dl_At = t, dl_IsSet = True\<rparr>"

definition HasExpired :: "Deadline \<Rightarrow> Timestamp \<Rightarrow> bool" where
  "HasExpired d now \<longleftrightarrow> dl_IsSet d \<and> now \<ge> dl_At d"

definition Earliest :: "Deadline \<Rightarrow> Deadline \<Rightarrow> Deadline" where
  "Earliest a b = (if \<not> dl_IsSet a then b else if \<not> dl_IsSet b then a else if dl_At a \<le> dl_At b then a else b)"

lemma HasExpired_simps [simp]: "\<not> HasExpired no_deadline now" "HasExpired (deadline_at t) now \<longleftrightarrow> t \<le> now"
  by (simp_all add: HasExpired_def no_deadline_def deadline_at_def)

lemma HasExpired_Earliest: "HasExpired (Earliest a b) now \<longleftrightarrow> HasExpired a now \<or> HasExpired b now"
  by (auto simp: HasExpired_def Earliest_def)

lemma IsSet_Earliest: "dl_IsSet (Earliest a b) \<longleftrightarrow> dl_IsSet a \<or> dl_IsSet b"
  by (auto simp: Earliest_def)

lemma Earliest_assoc: "Earliest (Earliest a b) c = Earliest a (Earliest b c)"
  by (auto simp: Earliest_def)

end
