(* ===== verification/Session_Buffer.thy ===== *)
theory Session_Buffer
  imports Core_Bytes Core_Time
begin

text \<open>
  \<^verbatim>\<open>src/session/receive_cursor.cpp\<close> and \<^verbatim>\<open>src/session/send_buffer.cpp\<close>: the two ends of a byte
  stream addressed by absolute 64-bit offsets, and the errors of the session layer.

  Offsets are \<open>64 word\<close>s, so the additions of the source wrap as they do there. The ring of a send
  buffer is the list of its storage bytes; \<open>sb_held\<close> reads it as the queue of unacknowledged bytes.
  The lemmas show that every operation of the ring is the corresponding operation of that queue
  (\<open>Append\<close> appends what fits, \<open>Acknowledge\<close> drops from the front, \<open>CopyOut\<close> reads a slice), and that
  the receive cursor hands over exactly the bytes it has not handed over before.
\<close>

datatype ESessionError =
    AckBeyondSent | StreamGap | DisconnectBufferOverflow | NotAuthenticated | UnknownSeed
  | PeerBehindBuffer | OrphanTimeout | SessionReaped | HandshakeTimeout | Superseded | PeerSilent

type_synonym 'a session_result = "ESessionError + 'a"

fun SessionDispositionOf :: "ESessionError \<Rightarrow> EDisposition" where
  "SessionDispositionOf AckBeyondSent = CloseConnection"
| "SessionDispositionOf StreamGap = CloseConnection"
| "SessionDispositionOf NotAuthenticated = CloseConnection"
| "SessionDispositionOf UnknownSeed = CloseConnection"
| "SessionDispositionOf HandshakeTimeout = CloseConnection"
| "SessionDispositionOf Superseded = CloseConnection"
| "SessionDispositionOf PeerSilent = CloseConnection"
| "SessionDispositionOf DisconnectBufferOverflow = KillSession"
| "SessionDispositionOf PeerBehindBuffer = KillSession"
| "SessionDispositionOf OrphanTimeout = KillSession"
| "SessionDispositionOf SessionReaped = KillSession"

subsection \<open>Offsets\<close>

lemma unat_add_u64: "unat (a :: u64) + n < 2 ^ 64 \<Longrightarrow> unat (a + of_nat n) = unat a + n"
  by (simp add: unat_word_ariths unat_of_nat_small)

lemma unat_sub_u64: "b \<le> (a :: u64) \<Longrightarrow> unat (a - b) = unat a - unat b"
  by (simp add: unat_sub_if_size word_le_nat_alt)

lemma unat_u64_lt: "unat (a :: u64) < 2 ^ 64"
  using unsigned_less [of a] by simp

lemmas offset_simps = word_le_nat_alt word_less_nat_alt unat_sub_u64 not_less not_le

subsection \<open>ReceiveCursor\<close>

datatype EInputAck = OnReceipt | OnDelivery

record ReceiveCursor =
  rc_RecvOffset :: u64
  rc_Pending :: u64
  rc_Ack :: EInputAck

definition mk_ReceiveCursor :: "u64 \<Rightarrow> EInputAck \<Rightarrow> ReceiveCursor" where
  "mk_ReceiveCursor initialOffset ack = \<lparr>rc_RecvOffset = initialOffset, rc_Pending = 0, rc_Ack = ack\<rparr>"

definition Receive :: "u64 \<Rightarrow> bytes \<Rightarrow> ReceiveCursor \<Rightarrow> bytes session_result \<times> ReceiveCursor" where
  "Receive offset bs c =
     (if length bs > unat (- 1 - offset) then (Inl StreamGap, c)
      else let endOffset = offset + of_nat (length bs) in
        if offset > rc_RecvOffset c then (Inl StreamGap, c)
        else if endOffset \<le> rc_RecvOffset c then (Inr [], c)
        else let skip = rc_RecvOffset c - offset;
                 newBytes = drop (unat skip) bs;
                 c1 = c\<lparr>rc_RecvOffset := rc_RecvOffset c + of_nat (length newBytes)\<rparr>;
                 c2 = (if rc_Ack c1 = OnDelivery
                       then c1\<lparr>rc_Pending := rc_Pending c1 + of_nat (length newBytes)\<rparr> else c1)
             in (Inr newBytes, c2))"

definition AckOffset :: "ReceiveCursor \<Rightarrow> u64" where
  "AckOffset c = rc_RecvOffset c - rc_Pending c"

definition MarkDelivered :: "u64 \<Rightarrow> ReceiveCursor \<Rightarrow> bool \<times> ReceiveCursor" where
  "MarkDelivered count c =
     (if count > rc_Pending c then (False, c) else (True, c\<lparr>rc_Pending := rc_Pending c - count\<rparr>))"

definition Unreceive :: "u64 \<Rightarrow> ReceiveCursor \<Rightarrow> bool \<times> ReceiveCursor" where
  "Unreceive count c =
     (if count > rc_Pending c then (False, c)
      else (True, c\<lparr>rc_Pending := rc_Pending c - count, rc_RecvOffset := rc_RecvOffset c - count\<rparr>))"

definition rc_Reset :: "u64 \<Rightarrow> ReceiveCursor \<Rightarrow> ReceiveCursor" where
  "rc_Reset offset c = c\<lparr>rc_RecvOffset := offset, rc_Pending := 0\<rparr>"

text \<open>The cursor's invariant: what is pending was received.\<close>

definition cursor_ok :: "ReceiveCursor \<Rightarrow> bool" where
  "cursor_ok c \<longleftrightarrow> rc_Pending c \<le> rc_RecvOffset c \<and> (rc_Ack c = OnReceipt \<longrightarrow> rc_Pending c = 0)"

lemma unat_AckOffset: "cursor_ok c \<Longrightarrow> unat (AckOffset c) = unat (rc_RecvOffset c) - unat (rc_Pending c)"
  by (simp add: cursor_ok_def AckOffset_def unat_sub_u64)

lemma AckOffset_le: "cursor_ok c \<Longrightarrow> AckOffset c \<le> rc_RecvOffset c"
  by (simp add: unat_AckOffset word_le_nat_alt)

lemma unat_max_minus: "unat (- 1 - (a :: u64)) = 2 ^ 64 - 1 - unat a"
proof -
  have "unat (- 1 - a) = unat (- 1 :: u64) - unat a"
    by (rule unat_sub_u64) simp
  then show ?thesis by (simp add: unsigned_minus_1_eq_mask mask_eq_exp_minus_1)
qed

lemma Receive_in_order:
  assumes "unat offset + length bs < 2 ^ 64" and "offset \<le> rc_RecvOffset c"
  shows "fst (Receive offset bs c) = Inr (drop (unat (rc_RecvOffset c) - unat offset) bs)"
    and "unat (rc_RecvOffset (snd (Receive offset bs c))) = max (unat (rc_RecvOffset c)) (unat offset + length bs)"
proof -
  have le: "length bs \<le> unat (- 1 - offset)"
    using assms(1) by (simp add: unat_max_minus)
  have e: "unat (offset + of_nat (length bs)) = unat offset + length bs"
    using assms(1) by (rule unat_add_u64)
  have s: "unat (rc_RecvOffset c - offset) = unat (rc_RecvOffset c) - unat offset"
    using assms(2) by (rule unat_sub_u64)
  have o: "unat offset \<le> unat (rc_RecvOffset c)" using assms(2) by (simp add: word_le_nat_alt)
  have n: "unat (rc_RecvOffset c + of_nat (length bs - (unat (rc_RecvOffset c) - unat offset)))
      = unat offset + length bs" if "unat (rc_RecvOffset c) < unat offset + length bs"
    using that o assms(1) by (subst unat_add_u64) simp_all
  show "fst (Receive offset bs c) = Inr (drop (unat (rc_RecvOffset c) - unat offset) bs)"
    using le assms(2) e s by (auto simp: Receive_def Let_def offset_simps)
  show "unat (rc_RecvOffset (snd (Receive offset bs c))) = max (unat (rc_RecvOffset c)) (unat offset + length bs)"
    using le assms(2) e s n by (auto simp: Receive_def Let_def offset_simps max_def)
qed

lemma Receive_gap:
  "rc_RecvOffset c < offset \<or> 2 ^ 64 \<le> unat offset + length bs \<Longrightarrow> Receive offset bs c = (Inl StreamGap, c)"
  using unat_u64_lt [of offset] by (auto simp: Receive_def Let_def unat_max_minus)

lemma Receive_ack: "rc_Ack (snd (Receive offset bs c)) = rc_Ack c"
  by (simp add: Receive_def Let_def)

text \<open>Receiving never changes what the peer is told under \<open>OnDelivery\<close>, and always under \<open>OnReceipt\<close>.\<close>

lemma Receive_AckOffset: "rc_Ack c = OnDelivery \<Longrightarrow> AckOffset (snd (Receive offset bs c)) = AckOffset c"
  by (simp add: Receive_def Let_def AckOffset_def)

lemma Receive_Pending: "rc_Ack c = OnReceipt \<Longrightarrow> rc_Pending (snd (Receive offset bs c)) = rc_Pending c"
  by (simp add: Receive_def Let_def)

lemma Receive_ok:
  assumes "cursor_ok c"
  shows "cursor_ok (snd (Receive offset bs c))"
proof (cases "unat offset + length bs < 2 ^ 64 \<and> offset \<le> rc_RecvOffset c")
  case True
  then have grows: "unat (rc_RecvOffset c) \<le> unat (rc_RecvOffset (snd (Receive offset bs c)))"
    using Receive_in_order(2) [of offset bs c] by simp
  show ?thesis
  proof (cases "rc_Ack c")
    case OnReceipt
    then show ?thesis using assms Receive_Pending [of c] by (simp add: cursor_ok_def Receive_ack)
  next
    case OnDelivery
    let ?c = "snd (Receive offset bs c)"
    have "rc_RecvOffset ?c - rc_Pending ?c \<le> rc_RecvOffset ?c"
      using Receive_AckOffset [OF OnDelivery, of offset bs] AckOffset_le [OF assms] grows
      by (simp add: AckOffset_def word_le_nat_alt)
    then have "rc_Pending ?c \<le> rc_RecvOffset ?c" by (metis word_sub_le_iff)
    then show ?thesis using OnDelivery by (simp add: cursor_ok_def Receive_ack)
  qed
next
  case False
  then have "rc_RecvOffset c < offset \<or> 2 ^ 64 \<le> unat offset + length bs" by (auto simp: not_less not_le)
  then show ?thesis using assms Receive_gap [of c offset bs] by simp
qed

lemma MarkDelivered_ok: "cursor_ok c \<Longrightarrow> cursor_ok (snd (MarkDelivered n c))"
  by (auto simp: cursor_ok_def MarkDelivered_def offset_simps unat_eq_0)

lemma MarkDelivered_AckOffset:
  "cursor_ok c \<Longrightarrow> AckOffset c \<le> AckOffset (snd (MarkDelivered n c))"
  using MarkDelivered_ok [of c n]
  by (auto simp: word_le_nat_alt unat_AckOffset unat_sub_u64 MarkDelivered_def not_less cursor_ok_def split: if_splits)

lemma Unreceive_ok: "cursor_ok c \<Longrightarrow> cursor_ok (snd (Unreceive n c))"
  by (auto simp: cursor_ok_def Unreceive_def offset_simps unat_eq_0)

lemma Unreceive_AckOffset: "AckOffset (snd (Unreceive n c)) = AckOffset c"
  by (simp add: Unreceive_def AckOffset_def)

subsection \<open>SendBuffer\<close>

record SendBuffer =
  sb_Storage :: bytes
  sb_Base :: u64
  sb_End :: u64
  sb_SendNext :: u64
  sb_RingOverflowed :: bool
  sb_SessionGen :: u32

definition mk_SendBuffer :: "bytes \<Rightarrow> u64 \<Rightarrow> SendBuffer" where
  "mk_SendBuffer storage initialBase =
     \<lparr>sb_Storage = storage, sb_Base = initialBase, sb_End = initialBase, sb_SendNext = initialBase,
      sb_RingOverflowed = False, sb_SessionGen = 0\<rparr>"

definition sb_Size :: "SendBuffer \<Rightarrow> nat" where
  "sb_Size b = unat (sb_End b - sb_Base b)"

definition sb_Room :: "SendBuffer \<Rightarrow> nat" where
  "sb_Room b = length (sb_Storage b) - sb_Size b"

definition sb_Unsent :: "SendBuffer \<Rightarrow> nat" where
  "sb_Unsent b = unat (sb_End b - sb_SendNext b)"

definition sb_Append :: "bytes \<Rightarrow> SendBuffer \<Rightarrow> nat \<times> SendBuffer" where
  "sb_Append bs b =
     (if sb_Storage b = [] then (0, b)
      else let tk = min (length bs) (sb_Room b) in
        if tk = 0 then (0, b)
        else let cap = length (sb_Storage b);
                 writePos = unat (sb_End b mod of_nat cap);
                 firstPiece = min tk (cap - writePos);
                 s1 = blit (sb_Storage b) writePos (take firstPiece bs);
                 s2 = (if firstPiece < tk then blit s1 0 (take (tk - firstPiece) (drop firstPiece bs)) else s1)
             in (tk, b\<lparr>sb_Storage := s2, sb_End := sb_End b + of_nat tk\<rparr>))"

definition Acknowledge :: "u64 \<Rightarrow> SendBuffer \<Rightarrow> unit session_result \<times> SendBuffer" where
  "Acknowledge ackOffset b =
     (if ackOffset \<le> sb_Base b then (Inr (), b)
      else if ackOffset > sb_End b then (Inl AckBeyondSent, b)
      else let b1 = b\<lparr>sb_Base := ackOffset\<rparr> in
           (Inr (), if sb_SendNext b1 < sb_Base b1 then b1\<lparr>sb_SendNext := sb_Base b1\<rparr> else b1))"

text \<open>\<open>CopyOut\<close> is the bytes written to the front of a destination of \<open>dest\<close> bytes.\<close>

definition CopyOut :: "u64 \<Rightarrow> nat \<Rightarrow> SendBuffer \<Rightarrow> bytes" where
  "CopyOut fromOffset dest b =
     (if sb_Storage b = [] \<or> fromOffset < sb_Base b \<or> fromOffset \<ge> sb_End b then []
      else let cap = length (sb_Storage b);
               available = unat (sb_End b - fromOffset);
               tk = min dest available in
        if tk = 0 then []
        else let readPos = unat (fromOffset mod of_nat cap);
                 firstPiece = min tk (cap - readPos);
                 one = take firstPiece (drop readPos (sb_Storage b)) in
             if firstPiece < tk then one @ take (tk - firstPiece) (sb_Storage b) else one)"

definition ResetSendNext :: "u64 \<Rightarrow> SendBuffer \<Rightarrow> unit session_result \<times> SendBuffer" where
  "ResetSendNext peerRecvOffset b =
     (if peerRecvOffset > sb_End b then (Inl AckBeyondSent, b)
      else if peerRecvOffset < sb_Base b then (Inl PeerBehindBuffer, b)
      else (Inr (), (snd (Acknowledge peerRecvOffset b))\<lparr>sb_SendNext := peerRecvOffset\<rparr>))"

definition AdvanceSendNext :: "nat \<Rightarrow> SendBuffer \<Rightarrow> SendBuffer" where
  "AdvanceSendNext count b =
     (let nxt = sb_SendNext b + of_nat count in
      b\<lparr>sb_SendNext := (if nxt > sb_End b then sb_End b else nxt)\<rparr>)"

definition SetRingOverflowed :: "SendBuffer \<Rightarrow> SendBuffer" where
  "SetRingOverflowed b = b\<lparr>sb_RingOverflowed := True\<rparr>"

definition NewGeneration :: "SendBuffer \<Rightarrow> SendBuffer" where
  "NewGeneration b = b\<lparr>sb_SessionGen := sb_SessionGen b + 1, sb_Base := 0, sb_End := 0, sb_SendNext := 0,
                       sb_RingOverflowed := False\<rparr>"

text \<open>The class invariant, and the bytes a buffer holds: those at offsets \<open>Base\<close> up to \<open>End\<close>.\<close>

definition buffer_ok :: "SendBuffer \<Rightarrow> bool" where
  "buffer_ok b \<longleftrightarrow> sb_Base b \<le> sb_SendNext b \<and> sb_SendNext b \<le> sb_End b \<and>
     sb_Size b \<le> length (sb_Storage b) \<and> length (sb_Storage b) < 2 ^ 64"

definition ring_slice :: "'a list \<Rightarrow> nat \<Rightarrow> nat \<Rightarrow> 'a list" where
  "ring_slice s start n = map (\<lambda>i. s ! ((start + i) mod length s)) [0..<n]"

definition sb_held :: "SendBuffer \<Rightarrow> bytes" where
  "sb_held b = ring_slice (sb_Storage b) (unat (sb_Base b)) (sb_Size b)"

subsection \<open>The ring as a queue\<close>

lemma length_ring_slice [simp]: "length (ring_slice s start n) = n"
  by (simp add: ring_slice_def)

lemma ring_slice_nth [simp]: "i < n \<Longrightarrow> ring_slice s start n ! i = s ! ((start + i) mod length s)"
  by (simp add: ring_slice_def)

lemma ring_slice_take: "take k (ring_slice s start n) = ring_slice s start (min k n)"
  by (rule nth_equalityI) simp_all

lemma ring_slice_drop: "drop k (ring_slice s start n) = ring_slice s (start + k) (n - k)"
  by (rule nth_equalityI) (simp_all add: add.assoc)

lemma ring_index:
  fixes start i cap :: nat
  assumes "i < cap"
  shows "(start + i) mod cap = (if i < cap - start mod cap then start mod cap + i else i - (cap - start mod cap))"
proof -
  have lt: "start mod cap < cap" using assms by simp
  have "(start + i) mod cap = (start mod cap + i) mod cap" by (simp add: mod_add_left_eq)
  also have "\<dots> = (if i < cap - start mod cap then start mod cap + i else i - (cap - start mod cap))"
  proof (cases "i < cap - start mod cap")
    case False
    then have "(start mod cap + i) mod cap = (start mod cap + i - cap) mod cap" by (intro le_mod_geq) simp
    also have "\<dots> = start mod cap + i - cap" using assms lt by (intro mod_less) linarith
    finally show ?thesis using False lt by simp
  qed simp
  finally show ?thesis .
qed

text \<open>Reading the ring in two pieces, and writing it in two pieces.\<close>

lemma ring_read:
  assumes "n \<le> length s" and "pos = start mod length s" and "p = min n (length s - pos)"
  shows "take p (drop pos s) @ take (n - p) s = ring_slice s start n"
proof (cases "s = []")
  case False
  then have lt: "pos < length s" using assms(2) by simp
  show ?thesis
  proof (rule nth_equalityI)
    fix i assume "i < length (take p (drop pos s) @ take (n - p) s)"
    then have "i < n" using assms by simp
    then show "(take p (drop pos s) @ take (n - p) s) ! i = ring_slice s start n ! i"
      using assms lt ring_index [of i "length s" start] by (auto simp: nth_append min_def)
  qed (use assms in auto)
qed (use assms in \<open>simp add: ring_slice_def\<close>)

definition ring_write :: "'a list \<Rightarrow> nat \<Rightarrow> 'a list \<Rightarrow> 'a list" where
  "ring_write s start xs =
     (let pos = start mod length s; p = min (length xs) (length s - pos); s1 = blit s pos (take p xs)
      in if p < length xs then blit s1 0 (drop p xs) else s1)"

lemma nth_blit:
  "at + length src \<le> length buf \<Longrightarrow> i < length buf \<Longrightarrow>
   blit buf at src ! i = (if at \<le> i \<and> i < at + length src then src ! (i - at) else buf ! i)"
  by (auto simp: blit_def nth_append min_def)

lemma length_ring_write [simp]:
  assumes "length xs \<le> length s"
  shows "length (ring_write s start xs) = length s"
proof (cases "s = []")
  case False
  then have "start mod length s < length s" by simp
  then show ?thesis using assms by (auto simp: ring_write_def Let_def min_def)
qed (use assms in \<open>simp add: ring_write_def blit_def\<close>)

lemma ring_write_nth:
  assumes "length xs \<le> length s" and "j < length s"
  shows "ring_write s start xs ! ((start + j) mod length s) =
         (if j < length xs then xs ! j else s ! ((start + j) mod length s))"
proof -
  let ?n = "length s" and ?pos = "start mod length s"
  let ?p = "min (length xs) (?n - ?pos)"
  have lt: "?pos < ?n" using assms(2) by (metis gr_implies_not0 mod_less_divisor neq0_conv)
  have idx: "(start + j) mod ?n = (if j < ?n - ?pos then ?pos + j else j - (?n - ?pos))"
    using ring_index [OF assms(2)] .
  show ?thesis
  proof (cases "j < ?n - ?pos")
    case True
    then show ?thesis using assms lt idx by (auto simp: ring_write_def Let_def nth_blit min_def)
  next
    case False
    then show ?thesis using assms lt idx by (auto simp: ring_write_def Let_def nth_blit min_def)
  qed
qed

lemma ring_write_slice:
  assumes "n + length xs \<le> length s"
  shows "ring_slice (ring_write s (start + n) xs) start (n + length xs) = ring_slice s start n @ xs"
proof (rule nth_equalityI)
  fix i assume "i < length (ring_slice (ring_write s (start + n) xs) start (n + length xs))"
  then have i: "i < n + length xs" by simp
  then have pos: "0 < length s" using assms by linarith
  show "ring_slice (ring_write s (start + n) xs) start (n + length xs) ! i = (ring_slice s start n @ xs) ! i"
  proof (cases "i < n")
    case True
    let ?j = "i + length s - n"
    have "start + n + ?j = (start + i) + length s" using True assms by simp
    then have e: "(start + n + ?j) mod length s = (start + i) mod length s" by (simp only: mod_add_self2)
    have "?j < length s" "length xs \<le> ?j" using True assms by linarith+
    then show ?thesis
      using ring_write_nth [of xs s ?j "start + n"] e assms True i by (simp add: nth_append)
  next
    case False
    then have "i - n < length s" "i - n < length xs" using i assms by linarith+
    then show ?thesis
      using ring_write_nth [of xs s "i - n" "start + n"] False assms i by (simp add: nth_append)
  qed
qed simp

subsection \<open>Each operation on the queue\<close>

lemma buffer_okD:
  assumes "buffer_ok b"
  shows "unat (sb_Base b) \<le> unat (sb_SendNext b)" "unat (sb_SendNext b) \<le> unat (sb_End b)"
    "unat (sb_Base b) \<le> unat (sb_End b)"
    "sb_Size b = unat (sb_End b) - unat (sb_Base b)" "sb_Size b \<le> length (sb_Storage b)"
    "length (sb_Storage b) < 2 ^ 64"
    "sb_Unsent b = unat (sb_End b) - unat (sb_SendNext b)"
  using assms by (auto simp: buffer_ok_def offset_simps sb_Size_def sb_Unsent_def)

lemma length_sb_held [simp]: "length (sb_held b) = sb_Size b"
  by (simp add: sb_held_def)

lemma unat_mod_cap: "n < 2 ^ 64 \<Longrightarrow> unat ((w :: u64) mod of_nat n) = unat w mod n"
  by (simp add: unat_mod_distrib unat_of_nat_small)

lemma sb_Append_ring_write:
  assumes "buffer_ok b"
  shows "sb_Append bs b = (min (length bs) (sb_Room b),
     if min (length bs) (sb_Room b) = 0 then b
     else b\<lparr>sb_Storage := ring_write (sb_Storage b) (unat (sb_End b)) (take (sb_Room b) bs),
            sb_End := sb_End b + of_nat (min (length bs) (sb_Room b))\<rparr>)"
proof -
  have e: "unat (sb_End b mod of_nat (length (sb_Storage b))) = unat (sb_End b) mod length (sb_Storage b)"
    using buffer_okD(6) [OF assms] by (rule unat_mod_cap)
  have t: "take (min (min (length bs) r) x) bs = take (min (min (length bs) r) x) (take r bs)" for r x
    by (simp add: min_def)
  have d: "take (min (length bs) r - q) (drop q bs) = drop q (take r bs)" for r q
    by (auto simp: drop_take min_def)
  show ?thesis
  proof (cases "min (length bs) (sb_Room b) = 0")
    case True
    then show ?thesis unfolding sb_Append_def Let_def by simp
  next
    case False
    then have "sb_Storage b \<noteq> []" by (auto simp: sb_Room_def)
    with False show ?thesis
      by (simp add: sb_Append_def e Let_def ring_write_def d t [symmetric]) (simp add: min_def split: if_splits)
  qed
qed

lemma sb_Append_spec:
  assumes "buffer_ok b" and "unat (sb_End b) + length bs < 2 ^ 64" and "sb_Append bs b = (n, b')"
  shows "n = min (length bs) (sb_Room b)" and "buffer_ok b'" and "sb_held b' = sb_held b @ take n bs"
    and "unat (sb_End b') = unat (sb_End b) + n"
    and "sb_Base b' = sb_Base b" and "sb_SendNext b' = sb_SendNext b"
    and "length (sb_Storage b') = length (sb_Storage b)"
    and "sb_RingOverflowed b' = sb_RingOverflowed b" and "sb_SessionGen b' = sb_SessionGen b"
proof -
  note ok = buffer_okD [OF assms(1)]
  note step = assms(3) [unfolded sb_Append_ring_write [OF assms(1)]]
  show n: "n = min (length bs) (sb_Room b)" using step by simp
  have b': "b' = (if n = 0 then b else b\<lparr>sb_Storage := ring_write (sb_Storage b) (unat (sb_End b)) (take n bs),
      sb_End := sb_End b + of_nat n\<rparr>)"
    using step by (auto simp: min_def)
  have room: "n \<le> sb_Room b" "sb_Room b = length (sb_Storage b) - sb_Size b" "length (take n bs) = n"
    using n by (simp_all add: sb_Room_def)
  show E: "unat (sb_End b') = unat (sb_End b) + n"
    using b' assms(2) n by (auto simp: unat_add_u64)
  show rest: "sb_Base b' = sb_Base b" "sb_SendNext b' = sb_SendNext b" "sb_RingOverflowed b' = sb_RingOverflowed b"
      "sb_SessionGen b' = sb_SessionGen b"
    using b' by simp_all
  show len: "length (sb_Storage b') = length (sb_Storage b)"
    using b' room ok by (simp add: length_ring_write)
  have size: "sb_Size b' = sb_Size b + n"
    using E ok rest(1) by (simp add: sb_Size_def offset_simps)
  then show "buffer_ok b'"
    using E ok room len rest by (simp add: buffer_ok_def offset_simps)
  show "sb_held b' = sb_held b @ take n bs"
    using ring_write_slice [of "sb_Size b" "take n bs" "sb_Storage b" "unat (sb_Base b)"] ok room size b' rest(1)
    by (auto simp: sb_held_def)
qed

lemma sb_Append_fits:
  assumes "buffer_ok b" and "length bs \<le> sb_Room b" and "unat (sb_End b) + length bs < 2 ^ 64"
  shows "\<exists>b'. sb_Append bs b = (length bs, b') \<and> buffer_ok b' \<and> sb_held b' = sb_held b @ bs \<and>
    sb_RingOverflowed b' = sb_RingOverflowed b \<and> length (sb_Storage b') = length (sb_Storage b)"
proof -
  obtain n b' where "sb_Append bs b = (n, b')" by fastforce
  then show ?thesis using sb_Append_spec [OF assms(1,3)] assms(2) by simp
qed

lemma Acknowledge_spec:
  assumes "buffer_ok b" and "a \<le> sb_End b" and "Acknowledge a b = (r, b')"
  shows "r = Inr ()" and "buffer_ok b'" and "sb_held b' = drop (unat a - unat (sb_Base b)) (sb_held b)"
    and "sb_Base b' = max a (sb_Base b)" and "sb_End b' = sb_End b"
    and "sb_SendNext b' = max (sb_SendNext b) a"
    and "sb_Storage b' = sb_Storage b"
proof -
  note ok = buffer_okD [OF assms(1)]
  have *: "r = Inr () \<and> b' = b\<lparr>sb_Base := max a (sb_Base b), sb_SendNext := max (sb_SendNext b) a\<rparr>"
  proof (cases "a \<le> sb_Base b")
    case True
    moreover have "a \<le> sb_SendNext b" using True assms(1) order_trans unfolding buffer_ok_def by blast
    ultimately show ?thesis using assms(3) by (simp add: Acknowledge_def max.absorb1 max.absorb2)
  next
    case False
    moreover have "\<not> sb_End b < a" using assms(2) by simp
    ultimately show ?thesis
      using assms(3) by (cases "sb_SendNext b < a")
        (auto simp: Acknowledge_def Let_def max_def simp del: not_le not_less)
  qed
  show "r = Inr ()" "sb_Base b' = max a (sb_Base b)" "sb_End b' = sb_End b" "sb_SendNext b' = max (sb_SendNext b) a"
      "sb_Storage b' = sb_Storage b"
    using * by simp_all
  have size: "sb_Size b' = sb_Size b - (unat a - unat (sb_Base b))"
    using * ok assms(2) by (auto simp: sb_Size_def offset_simps max_def)
  then show "buffer_ok b'"
    using * ok assms(2) by (auto simp: buffer_ok_def offset_simps max_def)
  show "sb_held b' = drop (unat a - unat (sb_Base b)) (sb_held b)"
    using * size by (auto simp: sb_held_def ring_slice_drop offset_simps max_def)
qed

lemma Acknowledge_beyond: "buffer_ok b \<Longrightarrow> sb_End b < a \<Longrightarrow> Acknowledge a b = (Inl AckBeyondSent, b)"
  using buffer_okD(3) [of b] by (auto simp: Acknowledge_def offset_simps)

lemma CopyOut_spec:
  assumes "buffer_ok b" and "sb_Base b \<le> f" and "f \<le> sb_End b"
  shows "CopyOut f n b = take n (drop (unat f - unat (sb_Base b)) (sb_held b))"
proof -
  note ok = buffer_okD [OF assms(1)]
  let ?tk = "min n (unat (sb_End b) - unat f)"
  have m: "unat (f mod of_nat (length (sb_Storage b))) = unat f mod length (sb_Storage b)"
    using ok(6) by (rule unat_mod_cap)
  have le: "?tk \<le> length (sb_Storage b)" using ok assms(2,3) by (simp add: offset_simps)
  define pos where "pos = unat f mod length (sb_Storage b)"
  define p where "p = min ?tk (length (sb_Storage b) - pos)"
  have "CopyOut f n b = ring_slice (sb_Storage b) (unat f) ?tk"
  proof (cases "?tk = 0")
    case True
    then show ?thesis using assms(3) by (simp add: CopyOut_def Let_def unat_sub_u64 ring_slice_def)
  next
    case False
    have "sb_Storage b \<noteq> []" using False ok assms(2) by (auto simp: offset_simps)
    moreover have "\<not> f < sb_Base b" "\<not> sb_End b \<le> f"
      using assms(2) False by (auto simp: offset_simps)
    ultimately have "CopyOut f n b = (if p < ?tk then take p (drop pos (sb_Storage b)) @ take (?tk - p) (sb_Storage b)
        else take p (drop pos (sb_Storage b)))"
      using False unfolding CopyOut_def Let_def m unat_sub_u64 [OF assms(3)] p_def pos_def by (simp only: if_False simp_thms)
    then show ?thesis
      using ring_read [OF le pos_def p_def] by (cases "p < ?tk") auto
  qed
  also have "\<dots> = take n (drop (unat f - unat (sb_Base b)) (sb_held b))"
    using ok assms(2,3) by (simp add: sb_held_def ring_slice_drop ring_slice_take offset_simps)
  finally show ?thesis .
qed

lemma CopyOut_outside: "f < sb_Base b \<or> sb_End b \<le> f \<Longrightarrow> CopyOut f n b = []"
  by (auto simp: CopyOut_def)

lemma ResetSendNext_spec:
  assumes "buffer_ok b"
  shows "sb_End b < p \<Longrightarrow> ResetSendNext p b = (Inl AckBeyondSent, b)"
    and "p < sb_Base b \<Longrightarrow> ResetSendNext p b = (Inl PeerBehindBuffer, b)"
    and "sb_Base b \<le> p \<Longrightarrow> p \<le> sb_End b \<Longrightarrow> \<exists>b'. ResetSendNext p b = (Inr (), b') \<and> buffer_ok b' \<and>
      sb_Base b' = p \<and> sb_SendNext b' = p \<and> sb_End b' = sb_End b \<and> sb_Storage b' = sb_Storage b \<and>
      sb_held b' = drop (unat p - unat (sb_Base b)) (sb_held b)"
proof -
  note ok = buffer_okD [OF assms]
  show "sb_End b < p \<Longrightarrow> ResetSendNext p b = (Inl AckBeyondSent, b)" by (simp add: ResetSendNext_def)
  show "p < sb_Base b \<Longrightarrow> ResetSendNext p b = (Inl PeerBehindBuffer, b)"
    using ok by (auto simp: ResetSendNext_def offset_simps)
  assume p: "sb_Base b \<le> p" "p \<le> sb_End b"
  obtain r b1 where a: "Acknowledge p b = (r, b1)" by fastforce
  note spec = Acknowledge_spec [OF assms p(2) a]
  have "buffer_ok (b1\<lparr>sb_SendNext := p\<rparr>)"
    using spec p by (simp add: buffer_ok_def sb_Size_def max_def split: if_splits)
  moreover have "sb_held (b1\<lparr>sb_SendNext := p\<rparr>) = sb_held b1" by (simp add: sb_held_def sb_Size_def)
  ultimately show "\<exists>b'. ResetSendNext p b = (Inr (), b') \<and> buffer_ok b' \<and>
      sb_Base b' = p \<and> sb_SendNext b' = p \<and> sb_End b' = sb_End b \<and> sb_Storage b' = sb_Storage b \<and>
      sb_held b' = drop (unat p - unat (sb_Base b)) (sb_held b)"
    using spec p a by (auto simp: ResetSendNext_def max_def)
qed

lemma AdvanceSendNext_spec:
  assumes "buffer_ok b" and "n \<le> sb_Unsent b"
  shows "buffer_ok (AdvanceSendNext n b)" and "unat (sb_SendNext (AdvanceSendNext n b)) = unat (sb_SendNext b) + n"
    and "sb_held (AdvanceSendNext n b) = sb_held b" and "sb_Base (AdvanceSendNext n b) = sb_Base b"
    and "sb_End (AdvanceSendNext n b) = sb_End b" and "sb_Storage (AdvanceSendNext n b) = sb_Storage b"
proof -
  note ok = buffer_okD [OF assms(1)]
  have nx: "unat (sb_SendNext b + of_nat n) = unat (sb_SendNext b) + n"
    using ok assms(2) unat_u64_lt [of "sb_End b"] by (intro unat_add_u64) linarith
  then show e: "unat (sb_SendNext (AdvanceSendNext n b)) = unat (sb_SendNext b) + n"
    using ok assms(2) by (auto simp: AdvanceSendNext_def Let_def offset_simps)
  then show "buffer_ok (AdvanceSendNext n b)"
    using ok assms(2) by (auto simp: buffer_ok_def sb_Size_def AdvanceSendNext_def Let_def offset_simps)
qed (simp_all add: AdvanceSendNext_def Let_def sb_held_def sb_Size_def)

lemma NewGeneration_spec:
  "length (sb_Storage b) < 2 ^ 64 \<Longrightarrow> buffer_ok (NewGeneration b)" "sb_held (NewGeneration b) = []"
  by (simp_all add: NewGeneration_def buffer_ok_def sb_held_def sb_Size_def ring_slice_def)

lemma mk_SendBuffer_spec:
  "length storage < 2 ^ 64 \<Longrightarrow> buffer_ok (mk_SendBuffer storage base)" "sb_held (mk_SendBuffer storage base) = []"
  by (simp_all add: mk_SendBuffer_def buffer_ok_def sb_held_def sb_Size_def ring_slice_def)

end
