(* ===== verification/Session_Stream.thy ===== *)
theory Session_Stream
  imports Session_Buffer Wire_Frame
begin

text \<open>
  \<^verbatim>\<open>src/session/stream_state.cpp\<close> and \<^verbatim>\<open>src/session/include/zet/session/limits.hpp\<close>: the part of a
  session that outlives its connections, its two streams and the life cycle
  \<open>Detached\<close>, \<open>Live\<close>, \<open>Reaped\<close>.

  Lemmas: the state invariant and that every operation keeps it; \<open>Write\<close> either appends a prefix of
  what it is given and says how long it was, or leaves a mark (a reaped session with its reason, or the
  overflow flag that forbids replay), so no byte is lost silently; \<open>AcceptsWrites\<close> is exactly when a
  write makes progress, with the one exception recorded in \<open>Resync_full_stalls\<close>; a superseded
  connection cannot detach the one that replaced it; a reaped session stays as it is.
\<close>

subsection \<open>limits.hpp\<close>

definition RESEND_BUFFER_MAX :: nat where "RESEND_BUFFER_MAX = 4 * 1024 * 1024"
definition DISCONNECT_BUFFER_MAX :: nat where "DISCONNECT_BUFFER_MAX = 16 * 1024 * 1024"
definition MILLISECOND :: Duration where "MILLISECOND = 1000000"
definition SECOND :: Duration where "SECOND = 1000000000"
definition ACK_IDLE_DELAY :: Duration where "ACK_IDLE_DELAY = 200 * MILLISECOND"
definition DEFAULT_ORPHAN_TIMEOUT :: Duration where "DEFAULT_ORPHAN_TIMEOUT = 30 * 60 * SECOND"
definition REKEY_INTERVAL :: Duration where "REKEY_INTERVAL = 60 * 60 * SECOND"
definition HANDSHAKE_TIMEOUT :: Duration where "HANDSHAKE_TIMEOUT = 5 * SECOND"
definition KEEPALIVE_INTERVAL :: Duration where "KEEPALIVE_INTERVAL = 5 * SECOND"
definition PEER_SILENCE_TIMEOUT :: Duration where "PEER_SILENCE_TIMEOUT = 15 * SECOND"
definition RESIZE_WAIT_TIMEOUT :: Duration where "RESIZE_WAIT_TIMEOUT = 2 * SECOND"
definition SUPPLY_SNAPSHOT_TIMEOUT :: Duration where "SUPPLY_SNAPSHOT_TIMEOUT = 30 * SECOND"
definition GRID_APPLIED_TIMEOUT :: Duration where "GRID_APPLIED_TIMEOUT = 30 * SECOND"
definition SNAPSHOT_SCROLLBACK_BYTES :: u32 where "SNAPSHOT_SCROLLBACK_BYTES = 512 * 1024"
definition SNAPSHOT_BYTES_PER_CELL :: u32 where "SNAPSHOT_BYTES_PER_CELL = 35"

definition SnapshotEstimateBytes :: "u32 \<Rightarrow> u32 \<Rightarrow> u64" where
  "SnapshotEstimateBytes rows cols =
     ucast rows * ucast cols * ucast SNAPSHOT_BYTES_PER_CELL + ucast SNAPSHOT_SCROLLBACK_BYTES"

record LivenessLimits =
  ll_KeepaliveInterval :: Duration
  ll_PeerSilenceTimeout :: Duration

datatype EForcePath = FP_None | FP_A | FP_B

record SessionLimits =
  lim_ResendMax :: nat
  lim_DisconnectMax :: nat
  lim_OrphanTimeout :: Duration
  lim_Liveness :: LivenessLimits
  lim_ForcePath :: EForcePath

definition default_limits :: SessionLimits where
  "default_limits = \<lparr>lim_ResendMax = RESEND_BUFFER_MAX, lim_DisconnectMax = DISCONNECT_BUFFER_MAX,
     lim_OrphanTimeout = DEFAULT_ORPHAN_TIMEOUT,
     lim_Liveness = \<lparr>ll_KeepaliveInterval = KEEPALIVE_INTERVAL, ll_PeerSilenceTimeout = PEER_SILENCE_TIMEOUT\<rparr>,
     lim_ForcePath = FP_None\<rparr>"

subsection \<open>StreamState\<close>

record SessionStreams =
  st_Storage :: bytes
  st_Now :: Timestamp
  st_Limits :: SessionLimits

datatype ESessionState = Detached | Live | Reaped
datatype EDetachedOverflow = OverflowReap | Backpressure | Resync

record StreamState =
  ss_Output :: SendBuffer
  ss_Input :: ReceiveCursor
  ss_Limits :: SessionLimits
  ss_Overflow :: EDetachedOverflow
  ss_State :: ESessionState
  ss_ReapReason :: "ESessionError option"
  ss_DetachedSince :: Timestamp
  ss_Generation :: u64

definition mk_StreamState :: "SessionStreams \<Rightarrow> EDetachedOverflow \<Rightarrow> EInputAck \<Rightarrow> StreamState" where
  "mk_StreamState streams overflow inputAck =
     \<lparr>ss_Output = mk_SendBuffer (st_Storage streams) 0, ss_Input = mk_ReceiveCursor 0 inputAck,
      ss_Limits = st_Limits streams, ss_Overflow = overflow, ss_State = Detached, ss_ReapReason = None,
      ss_DetachedSince = st_Now streams, ss_Generation = 0\<rparr>"

definition Reap :: "ESessionError \<Rightarrow> StreamState \<Rightarrow> StreamState" where
  "Reap reason s = (if ss_State s = Reaped then s else s\<lparr>ss_State := Reaped, ss_ReapReason := Some reason\<rparr>)"

definition ss_Kill :: "ESessionError \<Rightarrow> StreamState \<Rightarrow> StreamState" where
  "ss_Kill reason s = Reap reason s"

definition write_room :: "StreamState \<Rightarrow> nat" where
  "write_room s =
     (let ceiling = (if ss_State s = Live then lim_ResendMax (ss_Limits s) else lim_DisconnectMax (ss_Limits s));
          held = sb_Size (ss_Output s)
      in min (if held < ceiling then ceiling - held else 0) (sb_Room (ss_Output s)))"

definition ss_Write :: "bytes \<Rightarrow> StreamState \<Rightarrow> nat session_result \<times> StreamState" where
  "ss_Write bs s =
     (if ss_State s = Reaped then (Inl SessionReaped, s)
      else if ss_State s = Detached \<and> ss_Overflow s = Resync \<and> sb_RingOverflowed (ss_Output s)
      then (Inr (length bs), s)
      else let room = write_room s in
        if length bs > room \<and> ss_State s = Detached \<and> ss_Overflow s = OverflowReap
        then (Inl DisconnectBufferOverflow, Reap DisconnectBufferOverflow s)
        else if length bs > room \<and> ss_State s = Detached \<and> ss_Overflow s = Resync
        then (if room = 0
              then (Inr (length bs), s\<lparr>ss_Output := SetRingOverflowed (ss_Output s)\<rparr>)
              else (Inr (length bs),
                    s\<lparr>ss_Output := SetRingOverflowed (snd (sb_Append (take room bs) (ss_Output s)))\<rparr>))
        else let (n, b) = sb_Append (take (min (length bs) room) bs) (ss_Output s)
             in (Inr n, s\<lparr>ss_Output := b\<rparr>))"

definition AcceptsWrites :: "StreamState \<Rightarrow> bool" where
  "AcceptsWrites s =
     (case ss_State s of
        Live \<Rightarrow> sb_Size (ss_Output s) < lim_ResendMax (ss_Limits s) \<and> sb_Room (ss_Output s) > 0
      | Detached \<Rightarrow>
          if ss_Overflow s = OverflowReap then True
          else if sb_RingOverflowed (ss_Output s) then True
          else sb_Size (ss_Output s) < lim_DisconnectMax (ss_Limits s) \<and> sb_Room (ss_Output s) > 0
      | Reaped \<Rightarrow> False)"

definition ss_NextDeadline :: "StreamState \<Rightarrow> Deadline" where
  "ss_NextDeadline s =
     (if ss_State s \<noteq> Detached \<or> lim_OrphanTimeout (ss_Limits s) = 0 then no_deadline
      else deadline_at (ss_DetachedSince s + lim_OrphanTimeout (ss_Limits s)))"

definition ss_OnTimer :: "Timestamp \<Rightarrow> StreamState \<Rightarrow> StreamState" where
  "ss_OnTimer now s = (if HasExpired (ss_NextDeadline s) now then Reap OrphanTimeout s else s)"

definition ReceiveOffset :: "StreamState \<Rightarrow> u64" where
  "ReceiveOffset s = AckOffset (ss_Input s)"

definition SetOverflowMode :: "u16 \<Rightarrow> bool \<Rightarrow> StreamState \<Rightarrow> StreamState" where
  "SetOverflowMode negotiatedVer gridCapable s =
     s\<lparr>ss_Overflow := (if negotiatedVer \<ge> PROTOCOL_VERSION_GRID \<and> gridCapable then Resync else OverflowReap)\<rparr>"

definition ss_NewGeneration :: "StreamState \<Rightarrow> StreamState" where
  "ss_NewGeneration s = s\<lparr>ss_Output := NewGeneration (ss_Output s)\<rparr>"

definition AttachPathB :: "StreamState \<Rightarrow> u64 session_result \<times> StreamState" where
  "AttachPathB s =
     (if ss_State s = Reaped then (Inl SessionReaped, s)
      else let s1 = s\<lparr>ss_State := Live, ss_Generation := ss_Generation s + 1\<rparr> in (Inr (ss_Generation s1), s1))"

definition Attach :: "u64 \<Rightarrow> StreamState \<Rightarrow> u64 session_result \<times> StreamState" where
  "Attach peerReceiveOffset s =
     (if ss_State s = Reaped then (Inl SessionReaped, s)
      else case ResetSendNext peerReceiveOffset (ss_Output s) of
        (Inl e, b) \<Rightarrow> (Inl e, s\<lparr>ss_Output := b\<rparr>)
      | (Inr _, b) \<Rightarrow>
          let s1 = s\<lparr>ss_Output := b, ss_State := Live, ss_Generation := ss_Generation s + 1\<rparr>
          in (Inr (ss_Generation s1), s1))"

definition IsCurrent :: "u64 \<Rightarrow> StreamState \<Rightarrow> bool" where
  "IsCurrent generation s \<longleftrightarrow> ss_State s = Live \<and> generation = ss_Generation s"

definition Detach :: "u64 \<Rightarrow> Timestamp \<Rightarrow> StreamState \<Rightarrow> StreamState" where
  "Detach generation now s =
     (if \<not> IsCurrent generation s then s else s\<lparr>ss_State := Detached, ss_DetachedSince := now\<rparr>)"

subsection \<open>Invariant\<close>

definition stream_state_ok :: "StreamState \<Rightarrow> bool" where
  "stream_state_ok s \<longleftrightarrow> buffer_ok (ss_Output s) \<and> cursor_ok (ss_Input s) \<and>
     (ss_State s = Reaped \<longleftrightarrow> ss_ReapReason s \<noteq> None)"

lemma mk_StreamState_ok:
  "length (st_Storage st) < 2 ^ 64 \<Longrightarrow> stream_state_ok (mk_StreamState st ov ack)"
  by (simp add: stream_state_ok_def mk_StreamState_def mk_SendBuffer_spec cursor_ok_def mk_ReceiveCursor_def)

lemma Reap_ok: "stream_state_ok s \<Longrightarrow> stream_state_ok (Reap e s)"
  by (simp add: stream_state_ok_def Reap_def)

lemma SetRingOverflowed_simps [simp]:
  "sb_held (SetRingOverflowed b) = sb_held b" "buffer_ok (SetRingOverflowed b) = buffer_ok b"
  "sb_RingOverflowed (SetRingOverflowed b)" "sb_Size (SetRingOverflowed b) = sb_Size b"
  "sb_End (SetRingOverflowed b) = sb_End b" "sb_Base (SetRingOverflowed b) = sb_Base b"
  by (simp_all add: SetRingOverflowed_def sb_held_def buffer_ok_def sb_Size_def)

lemma write_room_le: "write_room s \<le> sb_Room (ss_Output s)"
  by (simp add: write_room_def Let_def)

text \<open>The whole of \<open>Write\<close>, branch by branch.\<close>

lemma ss_Write_cases:
  assumes "stream_state_ok s" and "unat (sb_End (ss_Output s)) + length bs < 2 ^ 64" and "ss_Write bs s = (r, s')"
  obtains
    (reaped) "ss_State s = Reaped" "r = Inl SessionReaped" "s' = s"
  | (dropped) "ss_State s = Detached" "ss_Overflow s = Resync" "sb_RingOverflowed (ss_Output s)"
      "r = Inr (length bs)" "s' = s"
  | (overflow) "ss_State s = Detached" "ss_Overflow s = OverflowReap" "write_room s < length bs"
      "r = Inl DisconnectBufferOverflow" "s' = Reap DisconnectBufferOverflow s"
  | (resync) b where "ss_State s = Detached" "ss_Overflow s = Resync" "write_room s < length bs"
      "r = Inr (length bs)" "s' = s\<lparr>ss_Output := SetRingOverflowed b\<rparr>" "buffer_ok b"
      "sb_held b = sb_held (ss_Output s) @ take (write_room s) bs"
  | (appended) n b where "ss_State s \<noteq> Reaped" "n = min (length bs) (write_room s)" "r = Inr n"
      "ss_State s = Detached \<Longrightarrow> ss_Overflow s = Backpressure \<or> n = length bs"
      "s' = s\<lparr>ss_Output := b\<rparr>" "buffer_ok b" "sb_held b = sb_held (ss_Output s) @ take n bs"
      "sb_RingOverflowed b = sb_RingOverflowed (ss_Output s)" "length (sb_Storage b) = length (sb_Storage (ss_Output s))"
proof -
  have ok: "buffer_ok (ss_Output s)" using assms(1) by (simp add: stream_state_ok_def)
  have app: "fst (sb_Append (take k bs) (ss_Output s)) = k \<and> buffer_ok (snd (sb_Append (take k bs) (ss_Output s))) \<and>
      sb_held (snd (sb_Append (take k bs) (ss_Output s))) = sb_held (ss_Output s) @ take k bs \<and>
      sb_RingOverflowed (snd (sb_Append (take k bs) (ss_Output s))) = sb_RingOverflowed (ss_Output s) \<and>
      length (sb_Storage (snd (sb_Append (take k bs) (ss_Output s)))) = length (sb_Storage (ss_Output s))"
    if "k \<le> length bs" "k \<le> write_room s" for k
  proof -
    have "length (take k bs) = k" using that(1) by simp
    moreover have "k \<le> sb_Room (ss_Output s)" using that(2) write_room_le [of s] by (rule order_trans)
    moreover have "unat (sb_End (ss_Output s)) + k < 2 ^ 64" using that(1) assms(2) by linarith
    ultimately obtain b where "sb_Append (take k bs) (ss_Output s) = (k, b)" "buffer_ok b"
      "sb_held b = sb_held (ss_Output s) @ take k bs" "sb_RingOverflowed b = sb_RingOverflowed (ss_Output s)"
      "length (sb_Storage b) = length (sb_Storage (ss_Output s))"
      using sb_Append_fits [OF ok, of "take k bs"] by metis
    then show ?thesis by simp
  qed
  show thesis
  proof (cases "ss_State s = Reaped")
    case True
    then have "ss_Write bs s = (Inl SessionReaped, s)" by (simp add: ss_Write_def)
    with True show thesis using assms(3) by (intro reaped) simp_all
  next
    case False
    show thesis
    proof (cases "ss_State s = Detached \<and> ss_Overflow s = Resync \<and> sb_RingOverflowed (ss_Output s)")
      case True
      then have "ss_Write bs s = (Inr (length bs), s)" by (simp add: ss_Write_def)
      with True show thesis using assms(3) by (intro dropped) simp_all
    next
      case keep: False
      let ?app = "\<lambda>k. sb_Append (take k bs) (ss_Output s)"
      show thesis
      proof (cases "write_room s < length bs \<and> ss_State s = Detached \<and> ss_Overflow s \<noteq> Backpressure")
        case True
        show thesis
        proof (cases "ss_Overflow s")
          case OverflowReap
          then have "ss_Write bs s = (Inl DisconnectBufferOverflow, Reap DisconnectBufferOverflow s)"
            using True by (simp add: ss_Write_def)
          with True OverflowReap show thesis using assms(3) by (intro overflow) simp_all
        next
          case Resync
          have "s' = s\<lparr>ss_Output := SetRingOverflowed (if write_room s = 0 then ss_Output s else snd (?app (write_room s)))\<rparr>"
            "r = Inr (length bs)"
            using True Resync keep assms(3) by (auto simp: ss_Write_def Let_def split: if_splits)
          moreover have "buffer_ok (if write_room s = 0 then ss_Output s else snd (?app (write_room s)))"
            "sb_held (if write_room s = 0 then ss_Output s else snd (?app (write_room s))) =
             sb_held (ss_Output s) @ take (write_room s) bs"
            using app [of "write_room s"] ok True by auto
          ultimately show thesis using True Resync by (intro resync) simp_all
        qed (use True in simp)
      next
        case inside: False
        let ?n = "min (length bs) (write_room s)"
        have "ss_Write bs s = (Inr (fst (?app ?n)), s\<lparr>ss_Output := snd (?app ?n)\<rparr>)"
          using False keep inside by (auto simp: ss_Write_def Let_def split: prod.split)
        moreover have "ss_Overflow s = Backpressure \<or> ?n = length bs" if "ss_State s = Detached"
          using inside that by auto
        ultimately show thesis
          using False assms(3) app [of ?n] by (intro appended [of ?n "snd (?app ?n)"]) simp_all
      qed
    qed
  qed
qed

lemma Reap_simps:
  "ss_State (Reap e s) = Reaped" "ss_Output (Reap e s) = ss_Output s" "ss_Input (Reap e s) = ss_Input s"
  "ss_ReapReason (Reap e s) = (if ss_State s = Reaped then ss_ReapReason s else Some e)"
  by (simp_all add: Reap_def)

lemma ss_Write_ok:
  assumes "stream_state_ok s" and "unat (sb_End (ss_Output s)) + length bs < 2 ^ 64"
  shows "stream_state_ok (snd (ss_Write bs s))"
proof -
  obtain r s' where w: "ss_Write bs s = (r, s')" by fastforce
  from assms(1,2) w show ?thesis
    by (cases rule: ss_Write_cases) (use assms(1) w in \<open>auto simp: stream_state_ok_def Reap_simps\<close>)
qed

lemma Write_accounts_every_byte:
  assumes "stream_state_ok s" and "unat (sb_End (ss_Output s)) + length bs < 2 ^ 64" and "ss_Write bs s = (r, s')"
  shows "case r of
      Inl e \<Rightarrow> ss_State s' = Reaped \<and> sb_held (ss_Output s') = sb_held (ss_Output s)
    | Inr n \<Rightarrow> n \<le> length bs \<and> ss_State s' = ss_State s \<and>
        (sb_held (ss_Output s') = sb_held (ss_Output s) @ take n bs \<or>
         sb_RingOverflowed (ss_Output s') \<and> ss_State s = Detached \<and> ss_Overflow s = Resync)"
  using assms(1,2,3) by (cases rule: ss_Write_cases) (auto simp: Reap_simps)

lemma Attach_ok:
  assumes "stream_state_ok s"
  shows "stream_state_ok (snd (Attach p s))"
proof -
  have ok: "buffer_ok (ss_Output s)" using assms by (simp add: stream_state_ok_def)
  have "buffer_ok (snd (ResetSendNext p (ss_Output s)))"
    using ResetSendNext_spec [OF ok, of p] ok by (metis linorder_not_less snd_conv)
  then show ?thesis
    using assms by (auto simp: Attach_def stream_state_ok_def Let_def split: prod.splits sum.splits)
qed

lemma AttachPathB_ok: "stream_state_ok s \<Longrightarrow> stream_state_ok (snd (AttachPathB s))"
  by (auto simp: AttachPathB_def stream_state_ok_def Let_def)

lemma Detach_ok: "stream_state_ok s \<Longrightarrow> stream_state_ok (Detach g t s)"
  by (auto simp: Detach_def stream_state_ok_def IsCurrent_def)

lemma OnTimer_ok: "stream_state_ok s \<Longrightarrow> stream_state_ok (ss_OnTimer t s)"
  by (simp add: ss_OnTimer_def Reap_ok)

lemma SetOverflowMode_ok: "stream_state_ok s \<Longrightarrow> stream_state_ok (SetOverflowMode v g s)"
  by (simp add: SetOverflowMode_def stream_state_ok_def)

lemma NewGeneration_ok: "stream_state_ok s \<Longrightarrow> stream_state_ok (ss_NewGeneration s)"
  using NewGeneration_spec buffer_okD(6) by (auto simp: ss_NewGeneration_def stream_state_ok_def)

subsection \<open>When a write makes progress\<close>

lemma write_room_pos:
  "0 < write_room s \<longleftrightarrow> sb_Size (ss_Output s) <
     (if ss_State s = Live then lim_ResendMax (ss_Limits s) else lim_DisconnectMax (ss_Limits s)) \<and>
     0 < sb_Room (ss_Output s)"
  by (auto simp: write_room_def Let_def)

text \<open>The exception to \<open>AcceptsWrites\<close>: a detached \<open>Resync\<close> session whose buffer is exactly full.\<close>

definition resync_full :: "StreamState \<Rightarrow> bool" where
  "resync_full s \<longleftrightarrow> ss_State s = Detached \<and> ss_Overflow s = Resync \<and>
     \<not> sb_RingOverflowed (ss_Output s) \<and> write_room s = 0"

lemma AcceptsWrites_progress:
  assumes "stream_state_ok s" and "unat (sb_End (ss_Output s)) + length bs < 2 ^ 64" and "bs \<noteq> []"
    and "\<not> (ss_State s = Detached \<and> ss_Overflow s = Backpressure \<and> sb_RingOverflowed (ss_Output s))"
    and "\<not> resync_full s"
  shows "AcceptsWrites s \<longleftrightarrow> ss_State s \<noteq> Reaped \<and> fst (ss_Write bs s) \<noteq> Inr 0"
proof -
  obtain r s' where w: "ss_Write bs s = (r, s')" by fastforce
  from assms(1,2) w show ?thesis
  proof (cases rule: ss_Write_cases)
    case (appended n b)
    have n: "r \<noteq> Inr 0 \<longleftrightarrow> 0 < write_room s" using appended(2,3) assms(3) by (cases bs) (auto simp: min_def)
    show ?thesis
    proof (cases "ss_State s")
      case Live
      then show ?thesis using w n by (simp add: AcceptsWrites_def write_room_pos)
    next
      case Detached
      have fits: "ss_Overflow s \<noteq> Backpressure \<Longrightarrow> length bs \<le> write_room s"
        using appended(2,4) Detached by linarith
      show ?thesis
      proof (cases "ss_Overflow s = OverflowReap")
        case True
        then have "0 < write_room s" using fits assms(3) by (cases "write_room s") auto
        then show ?thesis using w n True Detached by (simp add: AcceptsWrites_def)
      next
        case False
        show ?thesis
        proof (cases "sb_RingOverflowed (ss_Output s)")
          case True
          then have "ss_Overflow s = Resync" using assms(4) Detached False by (cases "ss_Overflow s") auto
          then have "r = Inr (length bs)" using Detached True w by (simp add: ss_Write_def)
          then show ?thesis using w Detached True False assms(3) by (simp add: AcceptsWrites_def)
        qed (use w n Detached False in \<open>simp add: AcceptsWrites_def write_room_pos\<close>)
      qed
    next
      case Reaped
      then show ?thesis using appended(1) by simp
    qed
  qed (use w assms(3,5) write_room_pos [of s] in \<open>auto simp: AcceptsWrites_def resync_full_def\<close>)
qed

lemma sb_Size_held: "sb_Size b = length (sb_held b)"
  by simp

lemma Resync_full_stalls:
  assumes "stream_state_ok s" and "unat (sb_End (ss_Output s)) + length bs < 2 ^ 64"
    and "ss_State s = Detached" and "ss_Overflow s = Resync" and "\<not> sb_RingOverflowed (ss_Output s)"
    and "length bs = write_room s" and "ss_Write bs s = (r, s')"
  shows "r = Inr (length bs)" and "\<not> AcceptsWrites s'" and "resync_full s'"
proof -
  from assms(1,2,7) have "r = Inr (length bs) \<and> \<not> AcceptsWrites s' \<and> resync_full s'"
  proof (cases rule: ss_Write_cases)
    case (appended n b)
    have "sb_Size b = sb_Size (ss_Output s) + length bs"
      using appended(2,7) assms(6) by (simp add: sb_Size_held del: length_sb_held)
    then have "write_room s' = 0"
      using assms(3,6) appended(5,9) by (auto simp: write_room_def Let_def sb_Room_def min_def split: if_splits)
    moreover from this have "\<not> AcceptsWrites s'"
      using write_room_pos [of s'] appended assms(3,4,5) by (auto simp: AcceptsWrites_def)
    ultimately show ?thesis using appended assms by (auto simp: resync_full_def)
  qed (use assms in auto)
  then show "r = Inr (length bs)" "\<not> AcceptsWrites s'" "resync_full s'" by simp_all
qed

lemma Write_bounded:
  assumes "stream_state_ok s" and "unat (sb_End (ss_Output s)) + length bs < 2 ^ 64"
  shows "sb_Size (ss_Output (snd (ss_Write bs s))) \<le> max (sb_Size (ss_Output s))
     (if ss_State s = Live then lim_ResendMax (ss_Limits s) else lim_DisconnectMax (ss_Limits s))"
proof -
  obtain r s' where w: "ss_Write bs s = (r, s')" by fastforce
  have room: "sb_Size (ss_Output s) + min k (write_room s) \<le> max (sb_Size (ss_Output s))
     (if ss_State s = Live then lim_ResendMax (ss_Limits s) else lim_DisconnectMax (ss_Limits s))" for k
    by (auto simp: write_room_def Let_def)
  from assms(1,2) w show ?thesis
  proof (cases rule: ss_Write_cases)
    case (resync b)
    then show ?thesis using room [of "length bs"] w by (simp add: sb_Size_held del: length_sb_held)
  next
    case (appended n b)
    then show ?thesis using room [of "length bs"] w by (simp add: sb_Size_held min.commute del: length_sb_held)
  qed (use w in \<open>simp_all add: Reap_simps\<close>)
qed

subsection \<open>Life cycle\<close>

lemma Attach_Inr:
  assumes "Attach p s = (Inr g, s')"
  shows "IsCurrent g s'" and "g = ss_Generation s + 1" and "ss_State s \<noteq> Reaped"
  using assms by (auto simp: Attach_def IsCurrent_def Let_def split: if_splits prod.splits sum.splits)

lemma Attach_supersedes:
  assumes "IsCurrent g s" and "Attach p s = (Inr g', s')"
  shows "\<not> IsCurrent g s'" and "Detach g t s' = s'" and "IsCurrent g' s'"
proof -
  show "IsCurrent g' s'" using Attach_Inr(1) [OF assms(2)] .
  then show n: "\<not> IsCurrent g s'"
    using Attach_Inr(2) [OF assms(2)] assms(1) by (auto simp: IsCurrent_def)
  then show "Detach g t s' = s'" by (simp add: Detach_def)
qed

lemma Attach_outcome:
  assumes "stream_state_ok s" and "ss_State s \<noteq> Reaped"
  shows "fst (Attach p s) =
    (if sb_End (ss_Output s) < p then Inl AckBeyondSent
     else if p < sb_Base (ss_Output s) then Inl PeerBehindBuffer
     else Inr (ss_Generation s + 1))"
  using assms by (auto simp: Attach_def ResetSendNext_def Let_def)

text \<open>The operations on a session, as one relation: what any history of it is made of.\<close>

datatype stream_op =
    OpWrite bytes | OpAttach u64 | OpAttachPathB | OpDetach u64 Timestamp | OpTimer Timestamp
  | OpKill ESessionError | OpMode u16 bool | OpNewGeneration

fun apply_op :: "stream_op \<Rightarrow> StreamState \<Rightarrow> StreamState" where
  "apply_op (OpWrite bs) s = snd (ss_Write bs s)"
| "apply_op (OpAttach p) s = snd (Attach p s)"
| "apply_op OpAttachPathB s = snd (AttachPathB s)"
| "apply_op (OpDetach g t) s = Detach g t s"
| "apply_op (OpTimer t) s = ss_OnTimer t s"
| "apply_op (OpKill e) s = ss_Kill e s"
| "apply_op (OpMode v g) s = SetOverflowMode v g s"
| "apply_op OpNewGeneration s = ss_NewGeneration s"

lemma reaped_step:
  "ss_State s = Reaped \<Longrightarrow> ss_State (apply_op opn s) = Reaped \<and> ss_ReapReason (apply_op opn s) = ss_ReapReason s"
  by (cases opn) (simp_all add: ss_Write_def Attach_def AttachPathB_def Detach_def IsCurrent_def ss_OnTimer_def
      ss_NextDeadline_def Reap_def ss_Kill_def SetOverflowMode_def ss_NewGeneration_def)

lemma reaped_for_good:
  "ss_State s = Reaped \<Longrightarrow> ss_State (fold apply_op ops s) = Reaped \<and> ss_ReapReason (fold apply_op ops s) = ss_ReapReason s"
  using reaped_step by (induction ops arbitrary: s) simp_all

lemma orphan_timer:
  "ss_State s = Detached \<Longrightarrow>
   ss_State (ss_OnTimer now s) = Reaped \<longleftrightarrow> lim_OrphanTimeout (ss_Limits s) \<noteq> 0 \<and>
     ss_DetachedSince s + lim_OrphanTimeout (ss_Limits s) \<le> now"
  by (simp add: ss_OnTimer_def ss_NextDeadline_def Reap_simps)

end
