(* ===== verification/Session_Link.thy ===== *)
theory Session_Link
  imports Session_Stream
begin

text \<open>
  One direction of a session end to end: a send buffer, the connection it is sent over, and the receive
  cursor at the other end (\<^verbatim>\<open>src/session/send_buffer.cpp\<close>, \<^verbatim>\<open>src/session/receive_cursor.cpp\<close>, put
  together the way \<^verbatim>\<open>src/session/channel.cpp\<close> does).

  The locale \<open>resend_queue\<close> states what a sender relies on: appending, acknowledging and reading keep
  the bytes that are still held. It is interpreted on the send buffer. The step relation \<open>link_step\<close>
  interleaves the operations of both ends with a connection that may be cut at any moment, losing
  everything in flight. Its invariant gives the guarantee of the session layer: in every reachable
  state the receiver has been handed exactly a prefix of what was written, no step of an honest peer
  is ever refused, and a drained connection has delivered everything.
\<close>

subsection \<open>What a sender relies on\<close>

locale resend_queue =
  fixes ok :: "'b \<Rightarrow> bool"
    and held :: "'b \<Rightarrow> 'a list"
    and base :: "'b \<Rightarrow> nat"
    and append_to :: "'a list \<Rightarrow> 'b \<Rightarrow> 'b"
    and ack_to :: "nat \<Rightarrow> 'b \<Rightarrow> 'b"
    and copy :: "nat \<Rightarrow> nat \<Rightarrow> 'b \<Rightarrow> 'a list"
    and fits :: "'a list \<Rightarrow> 'b \<Rightarrow> bool"
  assumes append_ok: "ok b \<Longrightarrow> fits xs b \<Longrightarrow> ok (append_to xs b)"
    and append_held: "ok b \<Longrightarrow> fits xs b \<Longrightarrow> \<exists>n \<le> length xs. held (append_to xs b) = held b @ take n xs"
    and append_base: "ok b \<Longrightarrow> fits xs b \<Longrightarrow> base (append_to xs b) = base b"
    and ack_ok: "ok b \<Longrightarrow> base b \<le> a \<Longrightarrow> a \<le> base b + length (held b) \<Longrightarrow> ok (ack_to a b)"
    and ack_held: "ok b \<Longrightarrow> base b \<le> a \<Longrightarrow> a \<le> base b + length (held b) \<Longrightarrow> held (ack_to a b) = drop (a - base b) (held b)"
    and ack_base: "ok b \<Longrightarrow> base b \<le> a \<Longrightarrow> a \<le> base b + length (held b) \<Longrightarrow> base (ack_to a b) = a"
    and copy_held: "ok b \<Longrightarrow> base b \<le> f \<Longrightarrow> f \<le> base b + length (held b) \<Longrightarrow> copy f n b = take n (drop (f - base b) (held b))"
begin

lemma copy_append:
  assumes "ok b" and "fits xs b" and "base b \<le> f" and "f + n \<le> base b + length (held b)"
  shows "copy f n (append_to xs b) = copy f n b"
proof -
  obtain m where m: "held (append_to xs b) = held b @ take m xs" using append_held assms by blast
  then have "f \<le> base (append_to xs b) + length (held (append_to xs b))" using assms append_base by simp
  then show ?thesis
    using assms m copy_held [of "append_to xs b" f n] copy_held [of b f n] append_ok append_base by simp
qed

lemma copy_ack:
  assumes "ok b" and "base b \<le> a" and "a \<le> f" and "f \<le> base b + length (held b)"
  shows "copy f n (ack_to a b) = copy f n b"
proof -
  have "a \<le> base b + length (held b)" using assms by simp
  note a = ack_ok [OF assms(1,2) this] ack_held [OF assms(1,2) this] ack_base [OF assms(1,2) this]
  show ?thesis
    using assms a copy_held [of "ack_to a b" f n] copy_held [of b f n] by simp
qed

text \<open>A resend after any further write and acknowledgement carries the bytes of the first send.\<close>

lemma resend_same:
  assumes "ok b" and "fits xs b" and "base b \<le> a" and "a \<le> f" and "f + n \<le> base b + length (held b)"
  shows "copy f n (ack_to a (append_to xs b)) = copy f n b"
proof -
  obtain m where "held (append_to xs b) = held b @ take m xs" using append_held assms by blast
  then have "copy f n (ack_to a (append_to xs b)) = copy f n (append_to xs b)"
    using assms append_ok append_base by (intro copy_ack) simp_all
  then show ?thesis using copy_append [OF assms(1,2)] assms by simp
qed

end

lemma of_nat_unat_le: "n \<le> unat (w :: u64) \<Longrightarrow> unat (of_nat n :: u64) = n"
  using unat_u64_lt [of w] by (intro unat_of_nat_small) simp

interpretation sbuf: resend_queue buffer_ok sb_held "\<lambda>b. unat (sb_Base b)" "\<lambda>xs b. snd (sb_Append xs b)"
  "\<lambda>a b. snd (Acknowledge (of_nat a) b)" "\<lambda>f n b. CopyOut (of_nat f) n b"
  "\<lambda>xs b. unat (sb_End b) + length xs < 2 ^ 64"
proof
  fix b and xs :: bytes assume a: "buffer_ok b" "unat (sb_End b) + length xs < 2 ^ 64"
  obtain n b' where s: "sb_Append xs b = (n, b')" by fastforce
  note spec = sb_Append_spec [OF a s]
  show "buffer_ok (snd (sb_Append xs b))" using spec s by simp
  show "\<exists>n\<le>length xs. sb_held (snd (sb_Append xs b)) = sb_held b @ take n xs"
    using spec s by (intro exI [of _ n]) simp
  show "unat (sb_Base (snd (sb_Append xs b))) = unat (sb_Base b)" using spec s by simp
next
  fix b a assume h: "buffer_ok b" "unat (sb_Base b) \<le> a" "a \<le> unat (sb_Base b) + length (sb_held b)"
  have le: "a \<le> unat (sb_End b)" using h buffer_okD [OF h(1)] by simp
  note u = of_nat_unat_le [OF le]
  obtain r b' where s: "Acknowledge (of_nat a) b = (r, b')" by fastforce
  have "of_nat a \<le> sb_End b" using le u by (simp add: word_le_nat_alt)
  note spec = Acknowledge_spec [OF h(1) this s]
  show "buffer_ok (snd (Acknowledge (of_nat a) b))" using spec s by simp
  show "sb_held (snd (Acknowledge (of_nat a) b)) = drop (a - unat (sb_Base b)) (sb_held b)" using spec s u by simp
  show "unat (sb_Base (snd (Acknowledge (of_nat a) b))) = a"
    using spec s u h(2) by (simp add: max_def word_le_nat_alt)
next
  fix b f n assume h: "buffer_ok b" "unat (sb_Base b) \<le> f" "f \<le> unat (sb_Base b) + length (sb_held b)"
  have le: "f \<le> unat (sb_End b)" using h buffer_okD [OF h(1)] by simp
  note u = of_nat_unat_le [OF le]
  show "CopyOut (of_nat f) n b = take n (drop (f - unat (sb_Base b)) (sb_held b))"
    using CopyOut_spec [OF h(1), of "of_nat f" n] u h(2) le by (simp add: word_le_nat_alt)
qed

subsection \<open>One direction of a session over connections that come and go\<close>

record link =
  lk_Out :: SendBuffer
  lk_In :: ReceiveCursor
  lk_Up :: bool
  lk_Data :: "(u64 \<times> bytes) list"
  lk_Acks :: "u64 list"
  lk_Written :: bytes
  lk_Delivered :: bytes

text \<open>
  Each rule is one call at one end, or the loss of the connection. \<open>lk_Data\<close> and \<open>lk_Acks\<close> are what
  the ordered connection still carries, \<open>lk_Written\<close> everything the writer was told was taken and
  \<open>lk_Delivered\<close> everything the reader was handed and has kept.
\<close>

inductive link_step :: "link \<Rightarrow> link \<Rightarrow> bool" where
  written: "sb_Append bs (lk_Out l) = (n, b) \<Longrightarrow> unat (sb_End (lk_Out l)) + length bs < 2 ^ 64 \<Longrightarrow>
    link_step l (l\<lparr>lk_Out := b, lk_Written := lk_Written l @ take n bs\<rparr>)"
| send: "lk_Up l \<Longrightarrow> bs = CopyOut (sb_SendNext (lk_Out l)) n (lk_Out l) \<Longrightarrow>
    link_step l (l\<lparr>lk_Out := AdvanceSendNext (length bs) (lk_Out l),
                   lk_Data := lk_Data l @ [(sb_SendNext (lk_Out l), bs)]\<rparr>)"
| receive: "lk_Up l \<Longrightarrow> lk_Data l = (off, bs) # ds \<Longrightarrow> Receive off bs (lk_In l) = (Inr fresh, c) \<Longrightarrow>
    link_step l (l\<lparr>lk_In := c, lk_Data := ds, lk_Delivered := lk_Delivered l @ fresh\<rparr>)"
| mark: "MarkDelivered n (lk_In l) = (True, c) \<Longrightarrow> link_step l (l\<lparr>lk_In := c\<rparr>)"
| ack: "lk_Up l \<Longrightarrow> link_step l (l\<lparr>lk_Acks := lk_Acks l @ [AckOffset (lk_In l)]\<rparr>)"
| acked: "lk_Up l \<Longrightarrow> lk_Acks l = a # as \<Longrightarrow> Acknowledge a (lk_Out l) = (Inr (), b) \<Longrightarrow>
    link_step l (l\<lparr>lk_Out := b, lk_Acks := as\<rparr>)"
| cut: "link_step l (l\<lparr>lk_Up := False, lk_Data := [], lk_Acks := []\<rparr>)"
| refuse: "Unreceive n (lk_In l) = (True, c) \<Longrightarrow>
    link_step l (l\<lparr>lk_In := c, lk_Up := False, lk_Data := [], lk_Acks := [],
                   lk_Delivered := take (length (lk_Delivered l) - unat n) (lk_Delivered l)\<rparr>)"
| connect: "\<not> lk_Up l \<Longrightarrow> ResetSendNext (AckOffset (lk_In l)) (lk_Out l) = (Inr (), b) \<Longrightarrow>
    link_step l (l\<lparr>lk_Out := b, lk_Up := True\<rparr>)"

definition link_init :: "bytes \<Rightarrow> EInputAck \<Rightarrow> link" where
  "link_init storage ack = \<lparr>lk_Out = mk_SendBuffer storage 0, lk_In = mk_ReceiveCursor 0 ack, lk_Up = False,
     lk_Data = [], lk_Acks = [], lk_Written = [], lk_Delivered = []\<rparr>"

text \<open>
  \<open>flow w r ds q\<close>: the frames in flight are slices of the stream \<open>w\<close>, none starts beyond what a receiver
  at offset \<open>r\<close> will hold by the time it arrives, and neither does the next one, to be sent from \<open>q\<close>.
\<close>

fun flow :: "bytes \<Rightarrow> nat \<Rightarrow> (u64 \<times> bytes) list \<Rightarrow> nat \<Rightarrow> bool" where
  "flow w r [] q \<longleftrightarrow> q \<le> r"
| "flow w r ((off, bs) # ds) q \<longleftrightarrow> unat off \<le> r \<and> unat off + length bs \<le> length w \<and>
     bs = take (length bs) (drop (unat off) w) \<and> flow w (max r (unat off + length bs)) ds q"

definition link_inv :: "link \<Rightarrow> bool" where
  "link_inv l \<longleftrightarrow> buffer_ok (lk_Out l) \<and> cursor_ok (lk_In l) \<and>
     unat (sb_End (lk_Out l)) = length (lk_Written l) \<and>
     sb_held (lk_Out l) = drop (unat (sb_Base (lk_Out l))) (lk_Written l) \<and>
     unat (rc_RecvOffset (lk_In l)) \<le> length (lk_Written l) \<and>
     lk_Delivered l = take (unat (rc_RecvOffset (lk_In l))) (lk_Written l) \<and>
     sb_Base (lk_Out l) \<le> AckOffset (lk_In l) \<and>
     list_all (\<lambda>a. a \<le> AckOffset (lk_In l)) (lk_Acks l) \<and> (\<not> lk_Up l \<longrightarrow> lk_Data l = []) \<and>
     (lk_Up l \<longrightarrow> flow (lk_Written l) (unat (rc_RecvOffset (lk_In l))) (lk_Data l) (unat (sb_SendNext (lk_Out l))))"

lemma flow_snoc:
  "flow w r ds (unat off) \<Longrightarrow> bs = take (length bs) (drop (unat off) w) \<Longrightarrow> unat off + length bs \<le> length w \<Longrightarrow>
   flow w r (ds @ [(off, bs)]) (unat off + length bs)"
  by (induction w r ds "unat off" rule: flow.induct) auto

lemma flow_grow: "flow w r ds q \<Longrightarrow> flow (w @ x) r ds q"
  by (induction w r ds q rule: flow.induct) auto

lemma flow_max: "flow w r ds q \<Longrightarrow> a \<le> r \<Longrightarrow> flow w r ds (max q a)"
  by (induction w r ds q rule: flow.induct) auto

lemma link_inv_init: "length storage < 2 ^ 64 \<Longrightarrow> link_inv (link_init storage ack)"
  by (simp add: link_inv_def link_init_def mk_SendBuffer_spec mk_SendBuffer_def mk_ReceiveCursor_def cursor_ok_def
      AckOffset_def mk_SendBuffer_spec [unfolded mk_SendBuffer_def])

subsection \<open>The invariant\<close>

lemma inv_written:
  assumes "link_inv l" and "sb_Append bs (lk_Out l) = (n, b)" and "unat (sb_End (lk_Out l)) + length bs < 2 ^ 64"
  shows "link_inv (l\<lparr>lk_Out := b, lk_Written := lk_Written l @ take n bs\<rparr>)"
proof -
  have ok: "buffer_ok (lk_Out l)" using assms(1) by (simp add: link_inv_def)
  note spec = sb_Append_spec [OF ok assms(3,2)]
  have "unat (sb_Base (lk_Out l)) \<le> length (lk_Written l)"
    using buffer_okD [OF ok] assms(1) by (simp add: link_inv_def)
  then show ?thesis
    using assms(1) spec by (auto simp: link_inv_def intro: flow_grow)
qed

lemma inv_send:
  assumes "link_inv l" and "lk_Up l" and "bs = CopyOut (sb_SendNext (lk_Out l)) n (lk_Out l)"
  shows "link_inv (l\<lparr>lk_Out := AdvanceSendNext (length bs) (lk_Out l),
                     lk_Data := lk_Data l @ [(sb_SendNext (lk_Out l), bs)]\<rparr>)"
proof -
  let ?b = "lk_Out l" and ?w = "lk_Written l"
  have ok: "buffer_ok ?b" and E: "unat (sb_End ?b) = length ?w"
    and held: "sb_held ?b = drop (unat (sb_Base ?b)) ?w" using assms(1) by (simp_all add: link_inv_def)
  note o = buffer_okD [OF ok]
  have "bs = take n (drop (unat (sb_SendNext ?b)) ?w)"
    using assms(3) CopyOut_spec [OF ok, of "sb_SendNext ?b" n] ok o held by (simp add: buffer_ok_def)
  then have bs: "bs = take (length bs) (drop (unat (sb_SendNext ?b)) ?w)"
      and len: "unat (sb_SendNext ?b) + length bs \<le> length ?w"
    using o E by (auto simp: min_def)
  have "length bs \<le> sb_Unsent ?b" using len o E by simp
  note adv = AdvanceSendNext_spec [OF ok this]
  have "flow ?w (unat (rc_RecvOffset (lk_In l))) (lk_Data l @ [(sb_SendNext ?b, bs)]) (unat (sb_SendNext ?b) + length bs)"
    using assms(1,2) flow_snoc [OF _ bs len] by (simp add: link_inv_def)
  then show ?thesis
    using assms(1,2) adv by (auto simp: link_inv_def)
qed

lemma drop_take_append:
  assumes "k \<le> r" and "k + length bs \<le> length w" and "bs = take (length bs) (drop k w)"
  shows "take r w @ drop (r - k) bs = take (max r (k + length bs)) w"
proof (cases "k + length bs \<le> r")
  case False
  have "drop (r - k) (take (length bs) (drop k w)) = take (k + length bs - r) (drop r w)"
    using assms(1) False by (simp add: drop_take add.commute)
  then have "drop (r - k) bs = take (k + length bs - r) (drop r w)" using assms(3) by simp
  moreover have "take (r + (k + length bs - r)) w = take r w @ take (k + length bs - r) (drop r w)"
    by (rule take_add)
  ultimately show ?thesis using False by (simp add: max_def)
qed (simp add: max_def)

lemma inv_receive:
  assumes "link_inv l" and "lk_Up l" and "lk_Data l = (off, bs) # ds" and "Receive off bs (lk_In l) = (Inr fresh, c)"
  shows "link_inv (l\<lparr>lk_In := c, lk_Data := ds, lk_Delivered := lk_Delivered l @ fresh\<rparr>)"
proof -
  let ?w = "lk_Written l" and ?r = "unat (rc_RecvOffset (lk_In l))"
  have E: "unat (sb_End (lk_Out l)) = length ?w" and cok: "cursor_ok (lk_In l)" using assms(1) by (simp_all add: link_inv_def)
  have fl: "flow ?w ?r ((off, bs) # ds) (unat (sb_SendNext (lk_Out l)))"
    using assms(1-3) by (simp add: link_inv_def)
  then have off: "unat off \<le> ?r" "unat off + length bs \<le> length ?w" "bs = take (length bs) (drop (unat off) ?w)"
    by simp_all
  have "length ?w < 2 ^ 64" using E unat_u64_lt [of "sb_End (lk_Out l)"] by linarith
  then have small: "unat off + length bs < 2 ^ 64" using off(2) by linarith
  have le: "off \<le> rc_RecvOffset (lk_In l)" using off(1) by (simp add: word_le_nat_alt)
  have fresh: "fresh = drop (?r - unat off) bs" and R: "unat (rc_RecvOffset c) = max ?r (unat off + length bs)"
    using Receive_in_order [OF small le] assms(4) by simp_all
  have c: "cursor_ok c" using Receive_ok [OF cok, of off bs] assms(4) by simp
  have "AckOffset (lk_In l) \<le> AckOffset c"
  proof (cases "rc_Ack (lk_In l)")
    case OnReceipt
    then have "rc_Pending c = 0" "rc_Pending (lk_In l) = 0"
      using Receive_Pending [OF OnReceipt, of off bs] assms(4) cok by (simp_all add: cursor_ok_def)
    then show ?thesis using R by (simp add: AckOffset_def word_le_nat_alt)
  next
    case OnDelivery
    then show ?thesis using Receive_AckOffset [OF OnDelivery, of off bs] assms(4) by simp
  qed
  moreover have "flow ?w (max ?r (unat off + length bs)) ds (unat (sb_SendNext (lk_Out l)))" using fl by simp
  moreover have "lk_Delivered l @ fresh = take (max ?r (unat off + length bs)) ?w"
    using assms(1) fresh drop_take_append [OF off] by (simp add: link_inv_def)
  ultimately show ?thesis
    using assms(1,2) c R off(2) unfolding link_inv_def list_all_iff
    by (auto elim: order_trans)
qed

lemma inv_mark:
  assumes "link_inv l" and "MarkDelivered n (lk_In l) = (True, c)"
  shows "link_inv (l\<lparr>lk_In := c\<rparr>)"
proof -
  have "cursor_ok (lk_In l)" using assms(1) by (simp add: link_inv_def)
  then have "cursor_ok c" "AckOffset (lk_In l) \<le> AckOffset c"
    using MarkDelivered_ok [of "lk_In l" n] MarkDelivered_AckOffset [of "lk_In l" n] assms(2) by simp_all
  moreover have "rc_RecvOffset c = rc_RecvOffset (lk_In l)"
    using assms(2) by (auto simp: MarkDelivered_def split: if_splits)
  ultimately show ?thesis using assms(1) by (auto simp: link_inv_def list_all_iff elim: order_trans)
qed

lemma inv_acked:
  assumes "link_inv l" and "lk_Up l" and "lk_Acks l = a # as" and "Acknowledge a (lk_Out l) = (Inr (), b)"
  shows "link_inv (l\<lparr>lk_Out := b, lk_Acks := as\<rparr>)"
proof -
  have ok: "buffer_ok (lk_Out l)" and cok: "cursor_ok (lk_In l)" and a: "a \<le> AckOffset (lk_In l)"
    using assms(1,3) by (simp_all add: link_inv_def)
  have "AckOffset (lk_In l) \<le> rc_RecvOffset (lk_In l)" using AckOffset_le [OF cok] .
  then have ar: "unat a \<le> unat (rc_RecvOffset (lk_In l))"
    using a by (simp add: word_le_nat_alt)
  then have "a \<le> sb_End (lk_Out l)" using assms(1) by (simp add: link_inv_def word_le_nat_alt)
  note spec = Acknowledge_spec [OF ok this assms(4)]
  have u: "unat (max x y) = max (unat x) (unat y)" for x y :: u64
    by (simp add: max_def word_le_nat_alt)
  have "sb_held b = drop (max (unat a) (unat (sb_Base (lk_Out l)))) (lk_Written l)"
    using spec(3) assms(1) by (auto simp: link_inv_def max_def)
  moreover have "flow (lk_Written l) (unat (rc_RecvOffset (lk_In l))) (lk_Data l) (unat (sb_SendNext b))"
    using assms(1,2) flow_max [OF _ ar] spec(6) by (simp add: link_inv_def u)
  ultimately show ?thesis
    using assms(1,3) spec(2,4,5) a by (simp add: link_inv_def u)
qed

lemma inv_refuse:
  assumes "link_inv l" and "Unreceive n (lk_In l) = (True, c)"
  shows "link_inv (l\<lparr>lk_In := c, lk_Up := False, lk_Data := [], lk_Acks := [],
                   lk_Delivered := take (length (lk_Delivered l) - unat n) (lk_Delivered l)\<rparr>)"
proof -
  have cok: "cursor_ok (lk_In l)" using assms(1) by (simp add: link_inv_def)
  have c: "cursor_ok c" "AckOffset c = AckOffset (lk_In l)"
    using Unreceive_ok [OF cok, of n] Unreceive_AckOffset [of n "lk_In l"] assms(2) by simp_all
  have "n \<le> rc_RecvOffset (lk_In l)" "rc_RecvOffset c = rc_RecvOffset (lk_In l) - n"
    using assms(2) cok by (auto simp: Unreceive_def cursor_ok_def word_le_nat_alt word_less_nat_alt split: if_splits)
  then have "unat (rc_RecvOffset c) = unat (rc_RecvOffset (lk_In l)) - unat n" by (simp add: unat_sub_u64)
  then show ?thesis using assms(1) c by (auto simp: link_inv_def min_def)
qed

lemma inv_connect:
  assumes "link_inv l" and "\<not> lk_Up l" and "ResetSendNext (AckOffset (lk_In l)) (lk_Out l) = (Inr (), b)"
  shows "link_inv (l\<lparr>lk_Out := b, lk_Up := True\<rparr>)"
proof -
  let ?b = "lk_Out l" and ?a = "AckOffset (lk_In l)"
  have ok: "buffer_ok ?b" and cok: "cursor_ok (lk_In l)" and base: "sb_Base ?b \<le> ?a"
    using assms(1) by (simp_all add: link_inv_def)
  have ar: "unat ?a \<le> unat (rc_RecvOffset (lk_In l))" using AckOffset_le [OF cok] by (simp add: word_le_nat_alt)
  then have "?a \<le> sb_End ?b" using assms(1) by (simp add: link_inv_def word_le_nat_alt)
  from ResetSendNext_spec(3) [OF ok base this] have b: "buffer_ok b" "sb_Base b = ?a" "sb_SendNext b = ?a"
    "sb_End b = sb_End ?b" "sb_held b = drop (unat ?a - unat (sb_Base ?b)) (sb_held ?b)"
    using assms(3) by auto
  have "unat (sb_Base ?b) \<le> unat ?a" using base by (simp add: word_le_nat_alt)
  then have "sb_held b = drop (unat ?a) (lk_Written l)" using b(5) assms(1) by (simp add: link_inv_def)
  moreover have "flow (lk_Written l) (unat (rc_RecvOffset (lk_In l))) (lk_Data l) (unat ?a)"
    using ar assms(1,2) by (simp add: link_inv_def)
  ultimately show ?thesis using assms(1) b by (simp add: link_inv_def)
qed

lemma link_inv_step: "link_step l l' \<Longrightarrow> link_inv l \<Longrightarrow> link_inv l'"
proof (induction rule: link_step.induct)
  case (cut l)
  then show ?case by (simp add: link_inv_def)
next
  case (ack l)
  then show ?case by (simp add: link_inv_def)
qed (rule inv_written inv_send inv_receive inv_mark inv_acked inv_refuse inv_connect; assumption)+

lemma link_inv_reachable:
  "link_step\<^sup>*\<^sup>* (link_init storage ack) l \<Longrightarrow> length storage < 2 ^ 64 \<Longrightarrow> link_inv l"
  by (induction rule: rtranclp_induct) (auto intro: link_inv_init link_inv_step)

subsection \<open>No step of an honest peer is refused\<close>

lemma receive_accepted:
  assumes "link_inv l" and "lk_Up l" and "lk_Data l = (off, bs) # ds"
  shows "\<exists>fresh. fst (Receive off bs (lk_In l)) = Inr fresh"
proof -
  have fl: "unat off \<le> unat (rc_RecvOffset (lk_In l))" "unat off + length bs \<le> length (lk_Written l)"
    and E: "unat (sb_End (lk_Out l)) = length (lk_Written l)"
    using assms by (simp_all add: link_inv_def)
  have "unat off + length bs < 2 ^ 64" using fl(2) E unat_u64_lt [of "sb_End (lk_Out l)"] by linarith
  then show ?thesis using Receive_in_order(1) fl(1) by (auto simp: word_le_nat_alt)
qed

lemma acked_accepted:
  assumes "link_inv l" and "a \<in> set (lk_Acks l)"
  shows "fst (Acknowledge a (lk_Out l)) = Inr ()"
proof -
  have ok: "buffer_ok (lk_Out l)" and cok: "cursor_ok (lk_In l)" and a: "a \<le> AckOffset (lk_In l)"
    using assms by (auto simp: link_inv_def list_all_iff)
  have "a \<le> sb_End (lk_Out l)"
    using a AckOffset_le [OF cok] assms(1) by (simp add: link_inv_def word_le_nat_alt)
  then show ?thesis by (simp add: Acknowledge_def Let_def leD)
qed

lemma connect_accepted:
  assumes "link_inv l"
  shows "fst (ResetSendNext (AckOffset (lk_In l)) (lk_Out l)) = Inr ()"
proof -
  have ok: "buffer_ok (lk_Out l)" and cok: "cursor_ok (lk_In l)" and b: "sb_Base (lk_Out l) \<le> AckOffset (lk_In l)"
    using assms by (simp_all add: link_inv_def)
  have "AckOffset (lk_In l) \<le> sb_End (lk_Out l)"
    using AckOffset_le [OF cok] assms by (simp add: link_inv_def word_le_nat_alt)
  then show ?thesis using ResetSendNext_spec(3) [OF ok b] by auto
qed

lemma link_safe:
  "link_inv l \<Longrightarrow> lk_Delivered l = take (unat (rc_RecvOffset (lk_In l))) (lk_Written l)"
  by (simp add: link_inv_def)

lemma link_complete:
  "link_inv l \<Longrightarrow> lk_Up l \<Longrightarrow> lk_Data l = [] \<Longrightarrow> sb_Unsent (lk_Out l) = 0 \<Longrightarrow> lk_Delivered l = lk_Written l"
  using buffer_okD [of "lk_Out l"] by (auto simp: link_inv_def)

end
