(* ===== verification/Session_Channel.thy ===== *)
theory Session_Channel
  imports Session_Link Wire_Automata
begin

text \<open>
  \<^verbatim>\<open>src/session/channel.cpp\<close> and \<^verbatim>\<open>src/session/include/zet/session/channel_error.hpp\<close>: the sealed
  traffic of one authenticated connection, the same code for client and agent.

  The record \<open>Channel\<close> has the members of the class; the send buffer and the receive cursor, which the
  C++ object borrows from the session, are members here and are what a call hands back to the
  session. \<open>ch_Receive\<close> is one incoming frame, with one definition per case of its switch; \<open>Poll\<close> is
  one outgoing frame, with one definition per priority of \<open>PollOnce\<close>, tried in the source's order. A
  stage that sends nothing answers \<open>None\<close> and hands on the state it left. The scratch buffer matters
  only through its size; what is staged in it is the plaintext that is sealed.
\<close>

subsection \<open>SessionError\<close>

datatype SessionError = ProtoErr EProtoError | SessErr ESessionError | PreAuthErr EProtoError

fun Session_Disposition :: "SessionError \<Rightarrow> EDisposition" where
  "Session_Disposition (PreAuthErr e) = PreAuth_Disposition (PreAuthError e)"
| "Session_Disposition (ProtoErr e) = DispositionOf e"
| "Session_Disposition (SessErr e) = SessionDispositionOf e"

type_synonym 'a channel_result = "SessionError + 'a"

subsection \<open>Channel\<close>

datatype ERole = RClient | RAgent

datatype IncomingEvent =
    DeliveredData bytes u64
  | DeliveredResize ResizeMessage
  | DeliveredSessionEnd SessionEndMessage
  | DeliveredGridSnapshot bytes u32 u32 byte \<comment> \<open>bytes, stream generation, scrollback length, flags\<close>
  | DeliveredGridApplied u32
  | DeliveredNothing

record DirectionFrames =
  df_Sealer :: FrameSealer
  df_Opener :: FrameOpener
  df_Role :: ERole

definition MakeDirectionFrames :: "ConnectionKeys \<Rightarrow> ERole \<Rightarrow> u64 \<Rightarrow> u64 \<Rightarrow> DirectionFrames" where
  "MakeDirectionFrames keys role frameLimit byteLimit =
     (let client = (role = RClient) in
      \<lparr>df_Sealer = mk_FrameSealer (if client then ck_ClientToServer keys else ck_ServerToClient keys)
                     (if client then ck_SaltClientToServer keys else ck_SaltServerToClient keys) frameLimit byteLimit,
       df_Opener = mk_FrameOpener (if client then ck_ServerToClient keys else ck_ClientToServer keys)
                     (if client then ck_SaltServerToClient keys else ck_SaltClientToServer keys) frameLimit,
       df_Role = role\<rparr>)"

record GridEmission =
  ge_Snapshot :: bytes
  ge_StreamGen :: u32
  ge_TotalLen :: u32
  ge_ScrollbackLen :: u32
  ge_Flags :: byte
  ge_BytesSent :: u32
  ge_BeginSent :: bool

record GridReception =
  gr_StreamGen :: u32
  gr_TotalLen :: u32
  gr_ScrollbackLen :: u32
  gr_Flags :: byte
  gr_BytesReceived :: u32

record Channel =
  cn_SendBuf :: SendBuffer
  cn_RecvCursor :: ReceiveCursor
  cn_EpochStart :: Timestamp
  cn_LastAckedOffset :: u64
  cn_UnknownTypeCount :: u64
  cn_LastHeard :: Timestamp
  cn_LastSent :: Timestamp
  cn_ReadGateClosed :: bool
  cn_SendGateClosed :: bool
  cn_NextPingToken :: u64
  cn_Liveness :: LivenessLimits
  cn_AckPendingSince :: "Timestamp option"
  cn_PendingPong :: "PongMessage option"
  cn_SnapshotBuf :: bytes
  cn_GridEmitting :: "GridEmission option"
  cn_GridReceiving :: "GridReception option"
  cn_Sealer :: FrameSealer
  cn_Opener :: FrameOpener
  cn_AgentStreamGen :: u32
  cn_PendingGridApplied :: "u32 option"
  cn_Version :: u16
  cn_PendingResize :: "ResizeMessage option"
  cn_Role :: ERole
  cn_EndSent :: bool
  cn_GridAwaitingApplied :: bool
  cn_GridExpectedAppliedGen :: u32
  cn_AwaitingSnapshotSupply :: bool
  cn_PendingEnd :: "SessionEndMessage option"

definition mk_Channel ::
  "DirectionFrames \<Rightarrow> SendBuffer \<Rightarrow> ReceiveCursor \<Rightarrow> Timestamp \<Rightarrow> LivenessLimits \<Rightarrow> u16 \<Rightarrow> bytes \<Rightarrow> u32 \<Rightarrow> Channel" where
  "mk_Channel frames sendBuf recvCursor now liveness version snapshotBuf agentStreamGen =
     \<lparr>cn_SendBuf = sendBuf, cn_RecvCursor = recvCursor, cn_EpochStart = now,
      cn_LastAckedOffset = AckOffset recvCursor, cn_UnknownTypeCount = 0, cn_LastHeard = now, cn_LastSent = now,
      cn_ReadGateClosed = False, cn_SendGateClosed = False, cn_NextPingToken = 1, cn_Liveness = liveness,
      cn_AckPendingSince = None, cn_PendingPong = None, cn_SnapshotBuf = snapshotBuf, cn_GridEmitting = None,
      cn_GridReceiving = None, cn_Sealer = df_Sealer frames, cn_Opener = df_Opener frames,
      cn_AgentStreamGen = agentStreamGen, cn_PendingGridApplied = None, cn_Version = version,
      cn_PendingResize = None, cn_Role = df_Role frames, cn_EndSent = False, cn_GridAwaitingApplied = False,
      cn_GridExpectedAppliedGen = 0, cn_AwaitingSnapshotSupply = False, cn_PendingEnd = None\<rparr>"

type_synonym 'a channel_step = "(SessionError, Channel, 'a) sm"

subsection \<open>Incoming: one case of the switch each\<close>

definition AcceptAck :: "u64 \<Rightarrow> unit channel_step" where
  "AcceptAck ack c =
     (if cn_GridAwaitingApplied c then (Inr (), c)
      else case Acknowledge ack (cn_SendBuf c) of
        (Inl e, b) \<Rightarrow> (Inl (SessErr e), c\<lparr>cn_SendBuf := b\<rparr>)
      | (Inr _, b) \<Rightarrow> (Inr (), c\<lparr>cn_SendBuf := b\<rparr>))"

definition cn_OnData :: "ByteReader \<Rightarrow> IncomingEvent channel_step" where
  "cn_OnData reader c =
     (if cn_Role c = RClient \<and> cn_GridReceiving c \<noteq> None then (Inl (ProtoErr UnexpectedMessage), c)
      else case fst (ParseData reader) of
        Inl e \<Rightarrow> (Inl (ProtoErr e), c)
      | Inr msg \<Rightarrow>
          (case AcceptAck (da_Ack msg) c of
             (Inl e, c1) \<Rightarrow> (Inl e, c1)
           | (Inr _, c1) \<Rightarrow>
               (let tailOffset = rc_RecvOffset (cn_RecvCursor c1) in
                case Receive (da_Offset msg) (da_Payload msg) (cn_RecvCursor c1) of
                  (Inl e, r) \<Rightarrow> (Inl (SessErr e), c1\<lparr>cn_RecvCursor := r\<rparr>)
                | (Inr delivered, r) \<Rightarrow>
                    (Inr (if delivered = [] then DeliveredNothing else DeliveredData delivered tailOffset),
                     c1\<lparr>cn_RecvCursor := r\<rparr>))))"

definition cn_OnAck :: "ByteReader \<Rightarrow> IncomingEvent channel_step" where
  "cn_OnAck reader c =
     (case fst (ParseAck reader) of
        Inl e \<Rightarrow> (Inl (ProtoErr e), c)
      | Inr msg \<Rightarrow>
          (case AcceptAck (ac_Ack msg) c of
             (Inl e, c1) \<Rightarrow> (Inl e, c1)
           | (Inr _, c1) \<Rightarrow> (Inr DeliveredNothing, c1)))"

definition cn_OnResize :: "ByteReader \<Rightarrow> IncomingEvent channel_step" where
  "cn_OnResize reader c =
     (case fst (ParseResize reader) of Inl e \<Rightarrow> (Inl (ProtoErr e), c) | Inr msg \<Rightarrow> (Inr (DeliveredResize msg), c))"

definition cn_OnPing :: "ByteReader \<Rightarrow> IncomingEvent channel_step" where
  "cn_OnPing reader c =
     (case fst (ParsePing reader) of
        Inl e \<Rightarrow> (Inl (ProtoErr e), c)
      | Inr msg \<Rightarrow> (Inr DeliveredNothing, c\<lparr>cn_PendingPong := Some \<lparr>po_Token = pi_Token msg\<rparr>\<rparr>))"

definition cn_OnPong :: "ByteReader \<Rightarrow> IncomingEvent channel_step" where
  "cn_OnPong reader c =
     (case fst (ParsePong reader) of Inl e \<Rightarrow> (Inl (ProtoErr e), c) | Inr msg \<Rightarrow> (Inr DeliveredNothing, c))"

definition cn_OnSessionEnd :: "ByteReader \<Rightarrow> IncomingEvent channel_step" where
  "cn_OnSessionEnd reader c =
     (if cn_Role c \<noteq> RClient then (Inl (ProtoErr UnexpectedMessage), c)
      else case fst (ParseSessionEnd (cn_Version c) reader) of
        Inl e \<Rightarrow> (Inl (ProtoErr e), c)
      | Inr msg \<Rightarrow> (Inr (DeliveredSessionEnd msg), c))"

definition cn_OnGridBegin :: "ByteReader \<Rightarrow> IncomingEvent channel_step" where
  "cn_OnGridBegin reader c =
     (if cn_Version c < PROTOCOL_VERSION_GRID then (Inl (ProtoErr UnexpectedMessage), c)
      else if cn_Role c \<noteq> RClient then (Inl (ProtoErr UnexpectedMessage), c)
      else case fst (ParseGridBegin reader) of
        Inl e \<Rightarrow> (Inl (ProtoErr e), c)
      | Inr msg \<Rightarrow>
          if cn_GridReceiving c \<noteq> None then (Inl (ProtoErr UnexpectedMessage), c)
          else if unat (gb_TotalLen msg) > SNAPSHOT_MAX_BYTES \<or> unat (gb_TotalLen msg) > length (cn_SnapshotBuf c)
          then (Inl (ProtoErr UnexpectedMessage), c)
          else if gb_ScrollbackLen msg > gb_TotalLen msg then (Inl (ProtoErr UnexpectedMessage), c)
          else if gb_StreamGen msg \<le> cn_AgentStreamGen c then (Inl (ProtoErr UnexpectedMessage), c)
          else (Inr DeliveredNothing,
                c\<lparr>cn_GridReceiving := Some \<lparr>gr_StreamGen = gb_StreamGen msg, gr_TotalLen = gb_TotalLen msg,
                     gr_ScrollbackLen = gb_ScrollbackLen msg, gr_Flags = gb_Flags msg, gr_BytesReceived = 0\<rparr>\<rparr>))"

definition cn_OnGridChunk :: "ByteReader \<Rightarrow> IncomingEvent channel_step" where
  "cn_OnGridChunk reader c =
     (if cn_Version c < PROTOCOL_VERSION_GRID then (Inl (ProtoErr UnexpectedMessage), c)
      else if cn_Role c \<noteq> RClient then (Inl (ProtoErr UnexpectedMessage), c)
      else case fst (ParseGridChunk reader) of
        Inl e \<Rightarrow> (Inl (ProtoErr e), c)
      | Inr msg \<Rightarrow>
          (case cn_GridReceiving c of
             None \<Rightarrow> (Inl (ProtoErr UnexpectedMessage), c)
           | Some g \<Rightarrow>
               if gc_Data msg = [] then (Inl (ProtoErr UnexpectedMessage), c)
               else if gc_ChunkOffset msg \<noteq> gr_BytesReceived g then (Inl (ProtoErr UnexpectedMessage), c)
               else let remaining = gr_TotalLen g - gr_BytesReceived g in
               if length (gc_Data msg) > unat remaining then (Inl (ProtoErr UnexpectedMessage), c)
               else (Inr DeliveredNothing,
                     c\<lparr>cn_SnapshotBuf := blit (cn_SnapshotBuf c) (unat (gr_BytesReceived g)) (gc_Data msg),
                       cn_GridReceiving := Some (g\<lparr>gr_BytesReceived := gr_BytesReceived g + of_nat (length (gc_Data msg))\<rparr>)\<rparr>)))"

definition cn_OnGridEnd :: "ByteReader \<Rightarrow> IncomingEvent channel_step" where
  "cn_OnGridEnd reader c =
     (if cn_Version c < PROTOCOL_VERSION_GRID then (Inl (ProtoErr UnexpectedMessage), c)
      else if cn_Role c \<noteq> RClient then (Inl (ProtoErr UnexpectedMessage), c)
      else case cn_GridReceiving c of
        None \<Rightarrow> (Inl (ProtoErr UnexpectedMessage), c)
      | Some rec \<Rightarrow>
          if gr_BytesReceived rec \<noteq> gr_TotalLen rec then (Inl (ProtoErr UnexpectedMessage), c)
          else (Inr (DeliveredGridSnapshot (take (unat (gr_TotalLen rec)) (cn_SnapshotBuf c)) (gr_StreamGen rec)
                       (gr_ScrollbackLen rec) (gr_Flags rec)),
                c\<lparr>cn_RecvCursor := rc_Reset 0 (cn_RecvCursor c), cn_LastAckedOffset := 0, cn_AckPendingSince := None,
                  cn_GridReceiving := None, cn_AgentStreamGen := gr_StreamGen rec\<rparr>))"

definition cn_OnGridApplied :: "ByteReader \<Rightarrow> IncomingEvent channel_step" where
  "cn_OnGridApplied reader c =
     (if cn_Version c < PROTOCOL_VERSION_GRID then (Inl (ProtoErr UnexpectedMessage), c)
      else if cn_Role c \<noteq> RAgent then (Inl (ProtoErr UnexpectedMessage), c)
      else case fst (ParseGridApplied reader) of
        Inl e \<Rightarrow> (Inl (ProtoErr e), c)
      | Inr msg \<Rightarrow>
          if \<not> cn_GridAwaitingApplied c \<or> cn_GridEmitting c \<noteq> None then (Inl (ProtoErr UnexpectedMessage), c)
          else if ga_StreamGen msg \<noteq> cn_GridExpectedAppliedGen c then (Inl (ProtoErr MalformedField), c)
          else (Inr (DeliveredGridApplied (ga_StreamGen msg)), c\<lparr>cn_GridAwaitingApplied := False\<rparr>))"

fun Dispatch :: "EMessageType \<Rightarrow> ByteReader \<Rightarrow> IncomingEvent channel_step" where
  "Dispatch Data = cn_OnData"
| "Dispatch Ack = cn_OnAck"
| "Dispatch Resize = cn_OnResize"
| "Dispatch Ping = cn_OnPing"
| "Dispatch Pong = cn_OnPong"
| "Dispatch SessionEnd = cn_OnSessionEnd"
| "Dispatch GridBegin = cn_OnGridBegin"
| "Dispatch GridChunk = cn_OnGridChunk"
| "Dispatch GridEnd = cn_OnGridEnd"
| "Dispatch GridApplied = cn_OnGridApplied"
| "Dispatch _ = (\<lambda>reader c. (Inl (ProtoErr UnexpectedMessage), c))"

definition ch_Receive :: "sodium \<Rightarrow> Timestamp \<Rightarrow> FrameView \<Rightarrow> bytes \<Rightarrow> IncomingEvent channel_step" where
  "ch_Receive S now frame scratch c =
     (case Open S scratch frame (cn_Opener c) of
        (Inl e, op) \<Rightarrow> (Inl (ProtoErr e), c\<lparr>cn_Opener := op\<rparr>)
      | (Inr opened, op) \<Rightarrow>
          (let c1 = c\<lparr>cn_Opener := op, cn_LastHeard := now\<rparr> in
           case ParseMessageType (mk_reader opened) of
             (Inl e, r) \<Rightarrow>
               if e = UnknownMessageType
               then (Inr DeliveredNothing, c1\<lparr>cn_UnknownTypeCount := cn_UnknownTypeCount c1 + 1\<rparr>)
               else (Inl (ProtoErr e), c1)
           | (Inr type, r) \<Rightarrow> Dispatch type r c1))"

subsection \<open>Outgoing: one priority of the poll each\<close>

text \<open>The result of a poll: the length of the frame and the output buffer. Zero means nothing to send.\<close>

type_synonym poll_stage = "Channel \<Rightarrow> (nat \<times> bytes) channel_result option \<times> Channel"

definition or_else :: "poll_stage \<Rightarrow> poll_stage \<Rightarrow> poll_stage" where
  "or_else a b c = (case a c of (Some r, c1) \<Rightarrow> (Some r, c1) | (None, c1) \<Rightarrow> b c1)"

definition SealInto :: "sodium \<Rightarrow> bytes \<Rightarrow> bytes \<Rightarrow> (nat \<times> bytes) channel_step" where
  "SealInto S out plaintext c =
     (case Seal S out plaintext (cn_Sealer c) of
        (Inl e, sl) \<Rightarrow> (Inl (ProtoErr e), c\<lparr>cn_Sealer := sl\<rparr>)
      | (Inr r, sl) \<Rightarrow> (Inr r, c\<lparr>cn_Sealer := sl\<rparr>))"

definition SealControl :: "sodium \<Rightarrow> nat \<Rightarrow> bytes \<Rightarrow> writer \<Rightarrow> (nat \<times> bytes) channel_step" where
  "SealControl S tSize out write c =
     (case write (mk_writer (replicate tSize 0)) of
        (Inl e, w) \<Rightarrow> (Inl (ProtoErr e), c)
      | (Inr _, w) \<Rightarrow> SealInto S out (Written w) c)"

text \<open>Sealing the staged plaintext: an error leaves the poll, success updates the state and leaves it too.\<close>

definition emit :: "sodium \<Rightarrow> bytes \<Rightarrow> bytes \<Rightarrow> (Channel \<Rightarrow> Channel) \<Rightarrow> poll_stage" where
  "emit S out plaintext upd c =
     (case SealInto S out plaintext c of
        (Inl e, c1) \<Rightarrow> (Some (Inl e), c1)
      | (Inr r, c1) \<Rightarrow> (Some (Inr r), upd c1))"

text \<open>A message staged in a fixed array; if it does not encode, the poll goes on.\<close>

definition emit_fixed :: "sodium \<Rightarrow> bytes \<Rightarrow> nat \<Rightarrow> writer \<Rightarrow> (Channel \<Rightarrow> Channel) \<Rightarrow> poll_stage" where
  "emit_fixed S out tSize write upd c =
     (case write (mk_writer (replicate tSize 0)) of
        (Inl e, w) \<Rightarrow> (None, c)
      | (Inr _, w) \<Rightarrow> emit S out (Written w) upd c)"

definition RekeyIfNeeded :: "sodium \<Rightarrow> Timestamp \<Rightarrow> unit channel_step" where
  "RekeyIfNeeded S now c =
     (let timeExpired = (now \<ge> cn_EpochStart c + REKEY_INTERVAL) in
      if \<not> NeedsRekey (cn_Sealer c) \<and> \<not> timeExpired then (Inr (), c)
      else case Rekey S (cn_Sealer c) of
        (Inl e, sl) \<Rightarrow> (Inl (ProtoErr e), c\<lparr>cn_Sealer := sl\<rparr>)
      | (Inr _, sl) \<Rightarrow> (Inr (), c\<lparr>cn_Sealer := sl, cn_EpochStart := now\<rparr>))"

definition GridInFlight :: "Channel \<Rightarrow> bool" where
  "GridInFlight c \<longleftrightarrow> cn_GridEmitting c \<noteq> None \<or> cn_GridAwaitingApplied c"

definition GridEmissionDone :: "Channel \<Rightarrow> bool" where
  "GridEmissionDone c \<longleftrightarrow> cn_GridAwaitingApplied c"

definition PollPong :: "sodium \<Rightarrow> bytes \<Rightarrow> poll_stage" where
  "PollPong S out c =
     (case cn_PendingPong c of
        None \<Rightarrow> (None, c)
      | Some pong \<Rightarrow> emit_fixed S out 9 (WritePong pong) (\<lambda>c. c\<lparr>cn_PendingPong := None\<rparr>) c)"

definition PollGridApplied :: "sodium \<Rightarrow> bytes \<Rightarrow> poll_stage" where
  "PollGridApplied S out c =
     (if cn_Role c \<noteq> RClient then (None, c)
      else case cn_PendingGridApplied c of
        None \<Rightarrow> (None, c)
      | Some gen \<Rightarrow> emit_fixed S out 5 (WriteGridApplied \<lparr>ga_StreamGen = gen\<rparr>) (\<lambda>c. c\<lparr>cn_PendingGridApplied := None\<rparr>) c)"

definition PollGridBegin :: "sodium \<Rightarrow> bytes \<Rightarrow> poll_stage" where
  "PollGridBegin S out c =
     (case cn_GridEmitting c of
        None \<Rightarrow> (None, c)
      | Some ge \<Rightarrow>
          if ge_BeginSent ge then (None, c)
          else emit_fixed S out 14
                 (WriteGridBegin \<lparr>gb_Flags = ge_Flags ge, gb_StreamGen = ge_StreamGen ge,
                                  gb_ScrollbackLen = ge_ScrollbackLen ge, gb_TotalLen = ge_TotalLen ge\<rparr>)
                 (\<lambda>c. c\<lparr>cn_GridEmitting := Some (ge\<lparr>ge_BeginSent := True\<rparr>)\<rparr>) c)"

definition CHUNK_HDR :: nat where [size_defs]: "CHUNK_HDR = 1 + 4"

definition PollGridChunk :: "sodium \<Rightarrow> bytes \<Rightarrow> bytes \<Rightarrow> poll_stage" where
  "PollGridChunk S out scratch c =
     (case cn_GridEmitting c of
        None \<Rightarrow> (None, c)
      | Some ge \<Rightarrow>
          if \<not> (ge_BeginSent ge \<and> ge_BytesSent ge < ge_TotalLen ge) then (None, c)
          else if length scratch < CHUNK_HDR + 1 then (Some (Inl (ProtoErr BufferTooSmall)), c)
          else let maxData = min GRID_CHUNK_MAX_DATA (length scratch - CHUNK_HDR);
                   remaining = unat (ge_TotalLen ge - ge_BytesSent ge);
                   chunkSize = min maxData remaining in
          case WriteGridChunk \<lparr>gc_ChunkOffset = ge_BytesSent ge,
                               gc_Data = take chunkSize (drop (unat (ge_BytesSent ge)) (ge_Snapshot ge))\<rparr>
                 (mk_writer (take (CHUNK_HDR + chunkSize) scratch)) of
            (Inl e, w) \<Rightarrow> (Some (Inl (ProtoErr e)), c)
          | (Inr _, w) \<Rightarrow>
              emit S out (Written w)
                (\<lambda>c. c\<lparr>cn_GridEmitting := Some (ge\<lparr>ge_BytesSent := ge_BytesSent ge + of_nat chunkSize\<rparr>)\<rparr>) c)"

definition PollGridEnd :: "sodium \<Rightarrow> bytes \<Rightarrow> poll_stage" where
  "PollGridEnd S out c =
     (case cn_GridEmitting c of
        None \<Rightarrow> (None, c)
      | Some ge \<Rightarrow>
          if \<not> (ge_BeginSent ge \<and> ge_BytesSent ge = ge_TotalLen ge) then (None, c)
          else emit_fixed S out 1 (WriteGridEnd ())
                 (\<lambda>c. c\<lparr>cn_GridEmitting := None, cn_GridAwaitingApplied := True\<rparr>) c)"

definition PollGrid :: "sodium \<Rightarrow> bytes \<Rightarrow> bytes \<Rightarrow> poll_stage" where
  "PollGrid S out scratch c =
     (if cn_Role c = RAgent \<and> cn_GridEmitting c \<noteq> None
      then or_else (PollGridBegin S out) (or_else (PollGridChunk S out scratch) (PollGridEnd S out)) c
      else (None, c))"

definition DATA_HEADER :: nat where [size_defs]: "DATA_HEADER = 1 + 2 * 8"

definition PollData :: "sodium \<Rightarrow> bytes \<Rightarrow> bytes \<Rightarrow> poll_stage" where
  "PollData S out scratch c =
     (if sb_Unsent (cn_SendBuf c) > 0 \<and>
         \<not> (cn_Role c = RAgent \<and> (GridInFlight c \<or> cn_AwaitingSnapshotSupply c))
      then if length scratch < DATA_HEADER + 1 then (Some (Inl (ProtoErr BufferTooSmall)), c)
        else let payloadCap = min MAX_DATA_PAYLOAD (length scratch - DATA_HEADER);
                 payloadSize = min payloadCap (sb_Unsent (cn_SendBuf c)) in
        if payloadSize > 0
        then let w1 = snd (WriteU8 (type_code Data) (mk_writer (take DATA_HEADER scratch)));
                 w2 = snd (WriteU64BE (AckOffset (cn_RecvCursor c)) w1);
                 w3 = snd (WriteU64BE (sb_SendNext (cn_SendBuf c)) w2);
                 payload = CopyOut (sb_SendNext (cn_SendBuf c)) payloadSize (cn_SendBuf c) in
             emit S out (wr_Out w3 @ payload)
               (\<lambda>c. c\<lparr>cn_SendBuf := AdvanceSendNext (length payload) (cn_SendBuf c),
                      cn_LastAckedOffset := AckOffset (cn_RecvCursor c),
                      cn_AckPendingSince := None\<rparr>) c
        else (None, c)
      else (None, c))"

definition PollSessionEnd :: "sodium \<Rightarrow> bytes \<Rightarrow> poll_stage" where
  "PollSessionEnd S out c =
     (case cn_PendingEnd c of
        None \<Rightarrow> (None, c)
      | Some end' \<Rightarrow>
          if cn_EndSent c \<or> sb_Size (cn_SendBuf c) \<noteq> 0 then (None, c)
          else case SealControl S 3 out (WriteSessionEnd (cn_Version c) end') c of
            (Inl e, c1) \<Rightarrow> (Some (Inl e), c1)
          | (Inr r, c1) \<Rightarrow> (Some (Inr r), c1\<lparr>cn_EndSent := True\<rparr>))"

definition PollResize :: "sodium \<Rightarrow> bytes \<Rightarrow> poll_stage" where
  "PollResize S out c =
     (case cn_PendingResize c of
        None \<Rightarrow> (None, c)
      | Some resize \<Rightarrow> emit_fixed S out 9 (WriteResize resize) (\<lambda>c. c\<lparr>cn_PendingResize := None\<rparr>) c)"

definition PollAck :: "sodium \<Rightarrow> Timestamp \<Rightarrow> bytes \<Rightarrow> poll_stage" where
  "PollAck S now out c =
     (let recvOff = AckOffset (cn_RecvCursor c) in
      if recvOff > cn_LastAckedOffset c
      then case cn_AckPendingSince c of
          None \<Rightarrow> (None, c\<lparr>cn_AckPendingSince := Some now\<rparr>)
        | Some since \<Rightarrow>
            if now \<ge> since + ACK_IDLE_DELAY
            then emit_fixed S out 9 (WriteAck \<lparr>ac_Ack = recvOff\<rparr>)
                   (\<lambda>c. c\<lparr>cn_LastAckedOffset := recvOff, cn_AckPendingSince := None\<rparr>) c
            else (None, c)
      else (None, c))"

definition PollKeepalive :: "sodium \<Rightarrow> Timestamp \<Rightarrow> bytes \<Rightarrow> poll_stage" where
  "PollKeepalive S now out c =
     (if ll_KeepaliveInterval (cn_Liveness c) > 0 \<and> now \<ge> cn_LastSent c + ll_KeepaliveInterval (cn_Liveness c)
      then case SealControl S 9 out (WritePing \<lparr>pi_Token = cn_NextPingToken c\<rparr>) c of
          (Inl e, c1) \<Rightarrow> (Some (Inl e), c1)
        | (Inr r, c1) \<Rightarrow> (Some (Inr r), c1\<lparr>cn_NextPingToken := cn_NextPingToken c1 + 1\<rparr>)
      else (None, c))"

definition MIN_FRAME :: nat where [size_defs]: "MIN_FRAME = HEADER_SIZE + 1 + TAG_SIZE"

definition poll_stages :: "sodium \<Rightarrow> Timestamp \<Rightarrow> bytes \<Rightarrow> bytes \<Rightarrow> poll_stage" where
  "poll_stages S now out scratch =
     or_else (PollPong S out) (or_else (PollGridApplied S out) (or_else (PollGrid S out scratch)
    (or_else (PollData S out scratch) (or_else (PollSessionEnd S out) (or_else (PollResize S out)
    (or_else (PollAck S now out) (PollKeepalive S now out)))))))"

definition PollOnce :: "sodium \<Rightarrow> Timestamp \<Rightarrow> bytes \<Rightarrow> bytes \<Rightarrow> (nat \<times> bytes) channel_step" where
  "PollOnce S now out scratch c =
     (case RekeyIfNeeded S now c of
        (Inl e, c1) \<Rightarrow> (Inl e, c1)
      | (Inr _, c1) \<Rightarrow>
          if length out < MIN_FRAME then (Inl (ProtoErr BufferTooSmall), c1)
          else case poll_stages S now out scratch c1 of
            (Some r, c2) \<Rightarrow> (r, c2)
          | (None, c2) \<Rightarrow> (Inr (0, out), c2))"

definition Poll :: "sodium \<Rightarrow> Timestamp \<Rightarrow> bytes \<Rightarrow> bytes \<Rightarrow> (nat \<times> bytes) channel_step" where
  "Poll S now out scratch c =
     (if \<not> cn_ReadGateClosed c \<and> ll_PeerSilenceTimeout (cn_Liveness c) > 0 \<and>
         now \<ge> cn_LastHeard c + ll_PeerSilenceTimeout (cn_Liveness c)
      then (Inl (SessErr PeerSilent), c)
      else if cn_SendGateClosed c then (Inr (0, out), c)
      else case PollOnce S now out scratch c of
        (Inl e, c1) \<Rightarrow> (Inl e, c1)
      | (Inr (n, out'), c1) \<Rightarrow> (Inr (n, out'), if n > 0 then c1\<lparr>cn_LastSent := now\<rparr> else c1))"

subsection \<open>Timers, gates and queues\<close>

definition ch_NextDeadline :: "Channel \<Rightarrow> Deadline" where
  "ch_NextDeadline c =
     (let ackDeadline = (case cn_AckPendingSince c of None \<Rightarrow> no_deadline | Some t \<Rightarrow> deadline_at (t + ACK_IDLE_DELAY));
          rekeyDeadline = deadline_at (cn_EpochStart c + REKEY_INTERVAL);
          keepaliveDeadline = (if ll_KeepaliveInterval (cn_Liveness c) > 0
            then deadline_at (cn_LastSent c + ll_KeepaliveInterval (cn_Liveness c)) else no_deadline);
          silenceDeadline = (if \<not> cn_ReadGateClosed c \<and> ll_PeerSilenceTimeout (cn_Liveness c) > 0
            then deadline_at (cn_LastHeard c + ll_PeerSilenceTimeout (cn_Liveness c)) else no_deadline)
      in if cn_SendGateClosed c then silenceDeadline
         else Earliest (Earliest ackDeadline rekeyDeadline) (Earliest keepaliveDeadline silenceDeadline))"

definition SetReadGate :: "bool \<Rightarrow> Timestamp \<Rightarrow> Channel \<Rightarrow> Channel" where
  "SetReadGate open' now c =
     (let c1 = (if open' \<and> cn_ReadGateClosed c then c\<lparr>cn_LastHeard := now\<rparr> else c) in c1\<lparr>cn_ReadGateClosed := \<not> open'\<rparr>)"

definition SetSendGate :: "bool \<Rightarrow> Channel \<Rightarrow> Channel" where
  "SetSendGate open' c = c\<lparr>cn_SendGateClosed := \<not> open'\<rparr>"

definition QueueResize :: "ResizeMessage \<Rightarrow> Channel \<Rightarrow> Channel" where
  "QueueResize resize c = c\<lparr>cn_PendingResize := Some resize\<rparr>"

definition QueueSessionEnd :: "SessionEndMessage \<Rightarrow> Channel \<Rightarrow> Channel" where
  "QueueSessionEnd end' c = (if cn_PendingEnd c = None then c\<lparr>cn_PendingEnd := Some end'\<rparr> else c)"

definition StartGrid :: "bytes \<Rightarrow> byte \<Rightarrow> u32 \<Rightarrow> u32 \<Rightarrow> Channel \<Rightarrow> bool \<times> Channel" where
  "StartGrid snapshot flags streamGen scrollbackLen c =
     (if cn_Role c \<noteq> RAgent then (False, c)
      else if cn_GridEmitting c \<noteq> None \<or> cn_GridAwaitingApplied c then (False, c)
      else if snapshot = [] \<or> length snapshot > SNAPSHOT_MAX_BYTES then (False, c)
      else (True, c\<lparr>cn_GridAwaitingApplied := True, cn_GridExpectedAppliedGen := streamGen,
                    cn_AwaitingSnapshotSupply := False,
                    cn_GridEmitting := Some \<lparr>ge_Snapshot = snapshot, ge_StreamGen = streamGen,
                      ge_TotalLen = of_nat (length snapshot), ge_ScrollbackLen = scrollbackLen, ge_Flags = flags,
                      ge_BytesSent = 0, ge_BeginSent = False\<rparr>\<rparr>))"

definition QueueGridApplied :: "u32 \<Rightarrow> Channel \<Rightarrow> Channel" where
  "QueueGridApplied streamGen c = (if cn_Role c \<noteq> RClient then c else c\<lparr>cn_PendingGridApplied := Some streamGen\<rparr>)"

definition SuppressDataUntilGrid :: "Channel \<Rightarrow> Channel" where
  "SuppressDataUntilGrid c = (if cn_Role c = RAgent then c\<lparr>cn_AwaitingSnapshotSupply := True\<rparr> else c)"

end
