(* ===== verification/Session_Transfer.thy ===== *)
theory Session_Transfer
  imports Session_Channel
begin

text \<open>
  What the two channels of a connection do together (\<^verbatim>\<open>src/session/channel.cpp\<close>).

  A frame one end seals and the other opens reaches the handler of its type with its body
  (\<open>sealed_dispatch\<close>); so a \<open>Data\<close> frame is the send and the receive step of the link model, and a
  snapshot is rebuilt byte for byte from its chunks. On one channel: no key is used past its limit, no
  \<open>Data\<close> overtakes a snapshot, \<open>SessionEnd\<close> waits for the last acknowledgement, and a poll that had
  nothing to send leaves no timer due.
\<close>

subsection \<open>One frame across\<close>

lemma SealInto_InrD:
  "SealInto S out pl c = (Inr r, c') \<Longrightarrow> \<exists>sl. Seal S out pl (cn_Sealer c) = (Inr r, sl) \<and> c' = c\<lparr>cn_Sealer := sl\<rparr>"
  by (auto simp: SealInto_def split: prod.splits sum.splits)

lemma sealed_dispatch:
  assumes "aead_correct S" and "in_step S (cn_Sealer c) (cn_Opener p)"
    and "SealInto S out (type_code ty # body) c = (Inr (n, out'), c')"
    and "ReadFrame (take n out') (of_nat MAX_FRAME) = Inr frame" and "length body < length into"
  shows "\<exists>op. ch_Receive S now frame into p =
      Dispatch ty (rd_at [type_code ty] body) (p\<lparr>cn_Opener := op, cn_LastHeard := now\<rparr>) \<and>
    in_step S (cn_Sealer c') op \<and> synced (cn_Sealer c') op"
proof -
  obtain sl where sl: "Seal S out (type_code ty # body) (cn_Sealer c) = (Inr (n, out'), sl)" "cn_Sealer c' = sl"
    using SealInto_InrD [OF assms(3)] by auto
  obtain op where "Open S into frame (cn_Opener p) = (Inr (type_code ty # body), op)" "in_step S sl op" "synced sl op"
    using Open_in_step [OF assms(1,2) sl(1) assms(4), of into] assms(5) by auto
  then show ?thesis
    using parse_type [of ty body] sl(2) by (intro exI [of _ op]) (simp add: ch_Receive_def Let_def del: type_code.simps)
qed

subsection \<open>Data\<close>

lemma data_plaintext:
  assumes "DATA_HEADER \<le> length scratch"
  shows "wr_Out (snd (WriteU64BE off (snd (WriteU64BE ack (snd (WriteU8 (type_code Data) (mk_writer (take DATA_HEADER scratch)))))))) @ payload
    = type_code Data # Data_body \<lparr>da_Ack = ack, da_Offset = off, da_Payload = payload\<rparr>"
  using assms by (simp add: WriteU_as_WriteBytes mk_writer_wr_at WriteBytes_wr_at Data_body_def EncodeBE_byte size_defs del: type_code.simps)

lemma PollData_InrD:
  assumes "PollData S out scratch c = (Some (Inr (n, out')), c')"
  obtains payload c1 k where "payload = CopyOut (sb_SendNext (cn_SendBuf c)) k (cn_SendBuf c)"
    "k \<le> MAX_DATA_PAYLOAD" "0 < k" "k \<le> sb_Unsent (cn_SendBuf c)"
    "SealInto S out (type_code Data # Data_body \<lparr>da_Ack = AckOffset (cn_RecvCursor c), da_Offset = sb_SendNext (cn_SendBuf c),
        da_Payload = payload\<rparr>) c = (Inr (n, out'), c1)"
    "c' = c1\<lparr>cn_SendBuf := AdvanceSendNext (length payload) (cn_SendBuf c),
             cn_LastAckedOffset := AckOffset (cn_RecvCursor c), cn_AckPendingSince := None\<rparr>"
proof -
  let ?k = "min (min MAX_DATA_PAYLOAD (length scratch - DATA_HEADER)) (sb_Unsent (cn_SendBuf c))"
  let ?p = "CopyOut (sb_SendNext (cn_SendBuf c)) ?k (cn_SendBuf c)"
  have g: "DATA_HEADER + 1 \<le> length scratch" "0 < ?k"
    using assms by (auto simp: PollData_def Let_def not_le not_less split: if_splits)
  have "emit S out (type_code Data # Data_body \<lparr>da_Ack = AckOffset (cn_RecvCursor c), da_Offset = sb_SendNext (cn_SendBuf c),
        da_Payload = ?p\<rparr>) (\<lambda>c. c\<lparr>cn_SendBuf := AdvanceSendNext (length ?p) (cn_SendBuf c),
             cn_LastAckedOffset := AckOffset (cn_RecvCursor c), cn_AckPendingSince := None\<rparr>) c = (Some (Inr (n, out')), c')"
    using assms g data_plaintext [of scratch] by (auto simp: PollData_def Let_def split: if_splits)
  then obtain c1 where c1: "SealInto S out (type_code Data # Data_body \<lparr>da_Ack = AckOffset (cn_RecvCursor c),
        da_Offset = sb_SendNext (cn_SendBuf c), da_Payload = ?p\<rparr>) c = (Inr (n, out'), c1)"
      "c' = c1\<lparr>cn_SendBuf := AdvanceSendNext (length ?p) (cn_SendBuf c1),
             cn_LastAckedOffset := AckOffset (cn_RecvCursor c1), cn_AckPendingSince := None\<rparr>"
    by (auto simp: emit_def split: prod.splits sum.splits)
  have "cn_SendBuf c1 = cn_SendBuf c" "cn_RecvCursor c1 = cn_RecvCursor c"
    using SealInto_InrD [OF c1(1)] by auto
  then show thesis using c1 g by (intro that [of ?p ?k c1]) auto
qed

text \<open>A \<open>Data\<close> frame that arrives: first the acknowledgement, then the bytes.\<close>

lemma OnData_msg:
  assumes "Data_ok m" and "cn_Role p = RClient \<longrightarrow> cn_GridReceiving p = None"
    and "AcceptAck (da_Ack m) p = (Inr (), p1)" and "Receive (da_Offset m) (da_Payload m) (cn_RecvCursor p1) = (Inr fresh, r)"
  shows "Dispatch Data (rd_at [type_code Data] (Data_body m)) p =
    (Inr (if fresh = [] then DeliveredNothing else DeliveredData fresh (rc_RecvOffset (cn_RecvCursor p1))),
     p1\<lparr>cn_RecvCursor := r\<rparr>)"
proof -
  have "fst (ParseData (rd_at [type_code Data] (Data_body m))) = Inr m"
    using data.parse_ok [OF assms(1)] by (simp add: parses_all_def)
  then show ?thesis using assms(2-4) by (auto simp: cn_OnData_def Let_def)
qed

lemma Data_across:
  assumes "aead_correct S" and "in_step S (cn_Sealer c) (cn_Opener p)" and "buffer_ok (cn_SendBuf c)"
    and "PollData S out scratch c = (Some (Inr (n, out')), c')"
    and "ReadFrame (take n out') (of_nat MAX_FRAME) = Inr frame" and "MAX_FRAME \<le> length into"
    and "cn_Role p = RClient \<longrightarrow> cn_GridReceiving p = None" and "\<not> cn_GridAwaitingApplied p"
    and "Acknowledge (AckOffset (cn_RecvCursor c)) (cn_SendBuf p) = (Inr (), b)"
    and "bs = CopyOut (sb_SendNext (cn_SendBuf c)) (unat (sb_SendNext (cn_SendBuf c')) - unat (sb_SendNext (cn_SendBuf c))) (cn_SendBuf c)"
    and "Receive (sb_SendNext (cn_SendBuf c)) bs (cn_RecvCursor p) = (Inr fresh, r)"
  shows "\<exists>p'. ch_Receive S now frame into p =
      (Inr (if fresh = [] then DeliveredNothing else DeliveredData fresh (rc_RecvOffset (cn_RecvCursor p))), p') \<and>
    cn_RecvCursor p' = r \<and> cn_SendBuf p' = b \<and> in_step S (cn_Sealer c') (cn_Opener p')"
proof -
  obtain payload c1 k where P: "payload = CopyOut (sb_SendNext (cn_SendBuf c)) k (cn_SendBuf c)"
    "k \<le> MAX_DATA_PAYLOAD" "0 < k" "k \<le> sb_Unsent (cn_SendBuf c)"
    "SealInto S out (type_code Data # Data_body \<lparr>da_Ack = AckOffset (cn_RecvCursor c), da_Offset = sb_SendNext (cn_SendBuf c),
        da_Payload = payload\<rparr>) c = (Inr (n, out'), c1)"
    "c' = c1\<lparr>cn_SendBuf := AdvanceSendNext (length payload) (cn_SendBuf c),
             cn_LastAckedOffset := AckOffset (cn_RecvCursor c), cn_AckPendingSince := None\<rparr>"
    using PollData_InrD [OF assms(4)] by metis
  note ok = buffer_okD [OF assms(3)]
  have "payload = take k (drop (unat (sb_SendNext (cn_SendBuf c)) - unat (sb_Base (cn_SendBuf c))) (sb_held (cn_SendBuf c)))"
    unfolding P(1) using assms(3) by (intro CopyOut_spec) (auto simp: buffer_ok_def)
  then have len: "length payload = k" using P(4) ok by simp
  have "unat (sb_SendNext (cn_SendBuf c')) = unat (sb_SendNext (cn_SendBuf c)) + k"
    using P(6) AdvanceSendNext_spec(2) [OF assms(3), of k] P(4) len by simp
  then have bs: "bs = payload" using assms(10) P(1) by simp
  define m where "m = \<lparr>da_Ack = AckOffset (cn_RecvCursor c), da_Offset = sb_SendNext (cn_SendBuf c), da_Payload = payload\<rparr>"
  have mok: "Data_ok m" using len P(2,3) by (auto simp: m_def Data_ok_def)
  have room: "length (Data_body m) < length into"
    using assms(6) len P(2) by (simp add: Data_body_def m_def size_defs)
  obtain op where op: "ch_Receive S now frame into p = Dispatch Data (rd_at [type_code Data] (Data_body m)) (p\<lparr>cn_Opener := op, cn_LastHeard := now\<rparr>)"
    "in_step S (cn_Sealer c1) op"
    using sealed_dispatch [OF assms(1,2) P(5) [folded m_def] assms(5) room] by blast
  let ?p = "p\<lparr>cn_Opener := op, cn_LastHeard := now\<rparr>"
  have "AcceptAck (da_Ack m) ?p = (Inr (), ?p\<lparr>cn_SendBuf := b\<rparr>)"
    using assms(8,9) by (simp add: AcceptAck_def m_def)
  moreover have "Receive (da_Offset m) (da_Payload m) (cn_RecvCursor (?p\<lparr>cn_SendBuf := b\<rparr>)) = (Inr fresh, r)"
    using assms(11) bs by (simp add: m_def)
  ultimately have "ch_Receive S now frame into p =
      (Inr (if fresh = [] then DeliveredNothing else DeliveredData fresh (rc_RecvOffset (cn_RecvCursor p))),
       ?p\<lparr>cn_SendBuf := b, cn_RecvCursor := r\<rparr>)"
    using OnData_msg [OF mok, of ?p] assms(7) op(1) by simp
  then show ?thesis using op(2) P(6) by simp
qed

subsection \<open>A snapshot from agent to client\<close>

lemma across:
  assumes "aead_correct S" and "aead_total S" and "in_step S (cn_Sealer a) (cn_Opener p)"
    and "length (sl_Salt (cn_Sealer a)) = SALT_SIZE" and "sl_Counter (cn_Sealer a) < sl_FrameLimit (cn_Sealer a)"
    and "Suc (length body) + TAG_SIZE \<le> MAX_FRAME" and "HEADER_SIZE + MAX_FRAME \<le> length out" and "MAX_FRAME \<le> length into"
  obtains n out' frame op sl where
    "SealInto S out (type_code ty # body) a = (Inr (n, out'), a\<lparr>cn_Sealer := sl\<rparr>)"
    "ReadFrame (take n out') (of_nat MAX_FRAME) = Inr frame"
    "ch_Receive S now frame into p = Dispatch ty (rd_at [type_code ty] body) (p\<lparr>cn_Opener := op, cn_LastHeard := now\<rparr>)"
    "in_step S sl op" "sl_Salt sl = sl_Salt (cn_Sealer a)" "sl_FrameLimit sl = sl_FrameLimit (cn_Sealer a)"
    "unat (sl_Counter sl) = unat (sl_Counter (cn_Sealer a)) + 1"
proof -
  let ?pl = "type_code ty # body"
  have "length ?pl + TAG_SIZE \<le> MAX_FRAME" "HEADER_SIZE + length ?pl + TAG_SIZE \<le> length out"
    using assms(6,7) by simp_all
  from Seal_total [OF assms(1,2,4,5) this] obtain n out' where
    seal: "Seal S out ?pl (cn_Sealer a) = (Inr (n, out'), (cn_Sealer a)\<lparr>sl_Counter := sl_Counter (cn_Sealer a) + 1,
       sl_BytesSealed := sl_BytesSealed (cn_Sealer a) + of_nat (length ?pl)\<rparr>)"
    by blast
  define sl where "sl = (cn_Sealer a)\<lparr>sl_Counter := sl_Counter (cn_Sealer a) + 1,
       sl_BytesSealed := sl_BytesSealed (cn_Sealer a) + of_nat (length ?pl)\<rparr>"
  have into: "SealInto S out ?pl a = (Inr (n, out'), a\<lparr>cn_Sealer := sl\<rparr>)"
    using seal by (simp add: SealInto_def sl_def)
  obtain frame where frame: "ReadFrame (take n out') (of_nat MAX_FRAME) = Inr frame"
    using Seal_ReadFrame [OF assms(1) seal] by metis
  have "length body < length into" using assms(6,8) by simp
  from sealed_dispatch [OF assms(1,3) into frame this] obtain op where
    "ch_Receive S now frame into p = Dispatch ty (rd_at [type_code ty] body) (p\<lparr>cn_Opener := op, cn_LastHeard := now\<rparr>)"
    "in_step S sl op"
    by auto
  moreover have "unat (sl_Counter sl) = unat (sl_Counter (cn_Sealer a)) + 1"
    unfolding sl_def using unat_plus1 [OF assms(5)] by simp
  moreover have "sl_Salt sl = sl_Salt (cn_Sealer a)" "sl_FrameLimit sl = sl_FrameLimit (cn_Sealer a)"
    by (simp_all add: sl_def)
  ultimately show thesis using into frame that by blast
qed

text \<open>The agent's grid stage and the client's receive, frame by frame, until the client reports an event.\<close>

fun grid_pump ::
  "nat \<Rightarrow> sodium \<Rightarrow> Timestamp \<Rightarrow> bytes \<Rightarrow> bytes \<Rightarrow> bytes \<Rightarrow> Channel \<Rightarrow> Channel \<Rightarrow> (IncomingEvent \<times> Channel \<times> Channel) option" where
  "grid_pump 0 S now out scratch into a p = None"
| "grid_pump (Suc k) S now out scratch into a p =
     (case PollGrid S out scratch a of
        (Some (Inr (n, out')), a') \<Rightarrow>
          (case ReadFrame (take n out') (of_nat MAX_FRAME) of
             Inl _ \<Rightarrow> None
           | Inr frame \<Rightarrow>
               (case ch_Receive S now frame into p of
                  (Inl _, _) \<Rightarrow> None
                | (Inr e, p') \<Rightarrow>
                    if e = DeliveredNothing then grid_pump k S now out scratch into a' p' else Some (e, a', p')))
      | _ \<Rightarrow> None)"

text \<open>Between chunks: the agent has sent \<open>k\<close> bytes of the snapshot and the client holds them.\<close>

definition mid_transfer :: "sodium \<Rightarrow> bytes \<Rightarrow> u32 \<Rightarrow> u32 \<Rightarrow> byte \<Rightarrow> nat \<Rightarrow> Channel \<Rightarrow> Channel \<Rightarrow> bool" where
  "mid_transfer S snap gen sbl flags k a p \<longleftrightarrow>
     in_step S (cn_Sealer a) (cn_Opener p) \<and> length (sl_Salt (cn_Sealer a)) = SALT_SIZE \<and>
     unat (sl_Counter (cn_Sealer a)) + (length snap - k) + 1 \<le> unat (sl_FrameLimit (cn_Sealer a)) \<and>
     cn_Role a = RAgent \<and> cn_Role p = RClient \<and> PROTOCOL_VERSION_GRID \<le> cn_Version p \<and>
     cn_GridEmitting a = Some \<lparr>ge_Snapshot = snap, ge_StreamGen = gen, ge_TotalLen = of_nat (length snap),
       ge_ScrollbackLen = sbl, ge_Flags = flags, ge_BytesSent = of_nat k, ge_BeginSent = True\<rparr> \<and>
     cn_GridReceiving p = Some \<lparr>gr_StreamGen = gen, gr_TotalLen = of_nat (length snap), gr_ScrollbackLen = sbl,
       gr_Flags = flags, gr_BytesReceived = of_nat k\<rparr> \<and>
     k \<le> length snap \<and> length snap \<le> SNAPSHOT_MAX_BYTES \<and> length snap \<le> length (cn_SnapshotBuf p) \<and>
     take k (cn_SnapshotBuf p) = take k snap"

lemma unat_u32_small: "n \<le> SNAPSHOT_MAX_BYTES \<Longrightarrow> unat (of_nat n :: u32) = n"
  by (intro unat_of_nat_small) (simp add: size_defs)

lemma grid_end_step:
  assumes "aead_correct S" and "aead_total S" and "mid_transfer S snap gen sbl flags (length snap) a p"
    and "HEADER_SIZE + MAX_FRAME \<le> length out" and "MAX_FRAME \<le> length into"
  shows "\<exists>a' p'. grid_pump (Suc f) S now out scratch into a p = Some (DeliveredGridSnapshot snap gen sbl flags, a', p') \<and>
    cn_GridEmitting a' = None \<and> cn_GridAwaitingApplied a' \<and> cn_AgentStreamGen p' = gen \<and>
    rc_RecvOffset (cn_RecvCursor p') = 0"
proof -
  note m = assms(3) [unfolded mid_transfer_def]
  have ctr: "sl_Counter (cn_Sealer a) < sl_FrameLimit (cn_Sealer a)" using m by (simp add: word_less_nat_alt)
  obtain n out' frame op sl where x:
    "SealInto S out (type_code GridEnd # []) a = (Inr (n, out'), a\<lparr>cn_Sealer := sl\<rparr>)"
    "ReadFrame (take n out') (of_nat MAX_FRAME) = Inr frame"
    "ch_Receive S now frame into p = Dispatch GridEnd (rd_at [type_code GridEnd] []) (p\<lparr>cn_Opener := op, cn_LastHeard := now\<rparr>)"
    by (rule across [OF assms(1,2), of a p "[]" out into GridEnd now]) (use m ctr assms(4,5) in \<open>auto simp: size_defs\<close>)
  obtain w where w: "WriteGridEnd () (mk_writer (replicate 1 0)) = (Inr (), w)" "Written w = [type_code GridEnd]"
    using write_mk [OF gridend.write_ok [of "()"], of "replicate 1 0"] by auto
  have poll: "PollGrid S out scratch a =
      (Some (Inr (n, out')), a\<lparr>cn_Sealer := sl, cn_GridEmitting := None, cn_GridAwaitingApplied := True\<rparr>)"
    using m x(1) w by (simp add: PollGrid_def or_else_def PollGridBegin_def PollGridChunk_def PollGridEnd_def emit_fixed_def emit_def
        del: type_code.simps)
  have full: "take (length snap) (cn_SnapshotBuf p) = snap" using m by simp
  have "ch_Receive S now frame into p = (Inr (DeliveredGridSnapshot snap gen sbl flags),
      p\<lparr>cn_Opener := op, cn_LastHeard := now, cn_RecvCursor := rc_Reset 0 (cn_RecvCursor p), cn_LastAckedOffset := 0,
        cn_AckPendingSince := None, cn_GridReceiving := None, cn_AgentStreamGen := gen\<rparr>)"
    using x(3) m full by (simp add: cn_OnGridEnd_def unat_u32_small leD)
  then show ?thesis using poll x(2) by (simp add: rc_Reset_def)
qed

lemma grid_chunk_step:
  assumes "aead_correct S" and "aead_total S" and "mid_transfer S snap gen sbl flags k a p" and "k < length snap"
    and "HEADER_SIZE + MAX_FRAME \<le> length out" and "MAX_FRAME \<le> length into" and "CHUNK_HDR < length scratch"
  shows "\<exists>j a' p'. k < j \<and> j \<le> length snap \<and> mid_transfer S snap gen sbl flags j a' p' \<and>
    (\<forall>f. grid_pump (Suc f) S now out scratch into a p = grid_pump f S now out scratch into a' p')"
proof -
  note m = assms(3) [unfolded mid_transfer_def]
  have lim: "unat (sl_Counter (cn_Sealer a)) + (length snap - k) + 1 \<le> unat (sl_FrameLimit (cn_Sealer a))" "k \<le> length snap"
    using m by blast+
  then have ctr: "sl_Counter (cn_Sealer a) < sl_FrameLimit (cn_Sealer a)" by (simp add: word_less_nat_alt)
  define sz where "sz = min (min GRID_CHUNK_MAX_DATA (length scratch - CHUNK_HDR)) (length snap - k)"
  define data where "data = take sz (drop k snap)"
  have lens: "length snap \<le> SNAPSHOT_MAX_BYTES" "k \<le> SNAPSHOT_MAX_BYTES" using m assms(4) by simp_all
  have u: "unat (of_nat k :: u32) = k" "unat (of_nat (length snap) :: u32) = length snap"
    using lens by (simp_all add: unat_u32_small)
  have rem: "unat (of_nat (length snap) - of_nat k :: u32) = length snap - k"
    using u assms(4) by (simp add: unat_sub_if_size word_le_nat_alt)
  have sz: "0 < sz" "sz \<le> length snap - k" "sz \<le> GRID_CHUNK_MAX_DATA" "CHUNK_HDR + sz \<le> length scratch" "length data = sz"
    using assms(4,7) by (auto simp: sz_def data_def size_defs)
  define ms where "ms = \<lparr>gc_ChunkOffset = of_nat k, gc_Data = data\<rparr>"
  have ok: "GridChunk_ok ms" using sz by (auto simp: GridChunk_ok_def ms_def)
  have blen: "length (GridChunk_body ms) = 4 + sz" using sz by (simp add: GridChunk_body_def ms_def)
  obtain n out' frame op sl where x:
    "SealInto S out (type_code GridChunk # GridChunk_body ms) a = (Inr (n, out'), a\<lparr>cn_Sealer := sl\<rparr>)"
    "ReadFrame (take n out') (of_nat MAX_FRAME) = Inr frame"
    "ch_Receive S now frame into p = Dispatch GridChunk (rd_at [type_code GridChunk] (GridChunk_body ms)) (p\<lparr>cn_Opener := op, cn_LastHeard := now\<rparr>)"
    "in_step S sl op" "sl_Salt sl = sl_Salt (cn_Sealer a)" "sl_FrameLimit sl = sl_FrameLimit (cn_Sealer a)"
    "unat (sl_Counter sl) = unat (sl_Counter (cn_Sealer a)) + 1"
    by (rule across [OF assms(1,2), of a p "GridChunk_body ms" out into GridChunk now])
      (use m ctr assms(5,6) blen sz(3) in \<open>auto simp: size_defs\<close>)
  obtain w where w: "WriteGridChunk ms (mk_writer (take (CHUNK_HDR + sz) scratch)) = (Inr (), w)"
      "Written w = type_code GridChunk # GridChunk_body ms"
    using write_mk [OF writes_WriteGridChunk [OF ok], of "take (CHUNK_HDR + sz) scratch"] blen sz(4) by (auto simp: size_defs)
  let ?ge = "\<lparr>ge_Snapshot = snap, ge_StreamGen = gen, ge_TotalLen = of_nat (length snap),
       ge_ScrollbackLen = sbl, ge_Flags = flags, ge_BytesSent = of_nat k, ge_BeginSent = True\<rparr> :: GridEmission"
  define a' where "a' = a\<lparr>cn_Sealer := sl, cn_GridEmitting := Some (?ge\<lparr>ge_BytesSent := of_nat k + of_nat sz\<rparr>)\<rparr>"
  have lt: "(of_nat k :: u32) < of_nat (length snap)" using u assms(4) by (simp add: word_less_nat_alt)
  have "PollGridChunk S out scratch a = (Some (Inr (n, out')), a')"
    using m x(1) w sz(1,4) lt
    by (simp add: PollGridChunk_def Let_def rem u not_less ms_def [symmetric] data_def [symmetric] sz_def [symmetric]
        emit_def a'_def del: type_code.simps)
  then have poll: "PollGrid S out scratch a = (Some (Inr (n, out')), a')"
    using m by (simp add: PollGrid_def or_else_def PollGridBegin_def)
  define p' where "p' = p\<lparr>cn_Opener := op, cn_LastHeard := now, cn_SnapshotBuf := blit (cn_SnapshotBuf p) k data,
      cn_GridReceiving := Some \<lparr>gr_StreamGen = gen, gr_TotalLen = of_nat (length snap), gr_ScrollbackLen = sbl,
       gr_Flags = flags, gr_BytesReceived = of_nat k + of_nat sz\<rparr>\<rparr>"
  have ne: "data \<noteq> []" using sz(1,5) by auto
  have "fst (ParseGridChunk (rd_at [type_code GridChunk] (GridChunk_body ms))) = Inr ms"
    using gridchunk.parse_ok [OF ok] by (simp add: parses_all_def)
  then have recv: "ch_Receive S now frame into p = (Inr DeliveredNothing, p')"
    using x(3) m sz u rem ne by (simp add: cn_OnGridChunk_def ms_def p'_def Let_def leD)
  have fit: "k + sz \<le> length (cn_SnapshotBuf p)" using m sz(2) by linarith
  have "take (k + sz) (blit (cn_SnapshotBuf p) k data) = take k snap @ data"
    using take_blit [of k data "cn_SnapshotBuf p"] fit sz(5) m by simp
  then have "take (k + sz) (blit (cn_SnapshotBuf p) k data) = take (k + sz) snap"
    by (simp add: data_def take_add)
  moreover have "length (blit (cn_SnapshotBuf p) k data) = length (cn_SnapshotBuf p)"
    using fit sz(5) by (intro length_blit) simp
  moreover have "k + sz \<le> length snap" using lim(2) sz(2) by linarith
  moreover have "unat (sl_Counter sl) + (length snap - (k + sz)) + 1 \<le> unat (sl_FrameLimit sl)"
    unfolding x(6,7) using lim sz(1,2) by linarith
  ultimately have "mid_transfer S snap gen sbl flags (k + sz) a' p'"
    using m x(4-7) by (simp add: mid_transfer_def a'_def p'_def)
  then show ?thesis
    using poll recv x(2) sz(1,2) by (intro exI [of _ "k + sz"] exI [of _ a'] exI [of _ p']) simp
qed

lemma grid_chunks:
  assumes "aead_correct S" and "aead_total S" and "HEADER_SIZE + MAX_FRAME \<le> length out" and "MAX_FRAME \<le> length into"
    and "CHUNK_HDR < length scratch"
  shows "mid_transfer S snap gen sbl flags k a p \<Longrightarrow> length snap - k < f \<Longrightarrow>
    \<exists>a' p'. grid_pump f S now out scratch into a p = Some (DeliveredGridSnapshot snap gen sbl flags, a', p') \<and>
    cn_GridEmitting a' = None \<and> cn_GridAwaitingApplied a' \<and> cn_AgentStreamGen p' = gen \<and>
    rc_RecvOffset (cn_RecvCursor p') = 0"
proof (induction "length snap - k" arbitrary: k a p f rule: less_induct)
  case less
  obtain f' where f: "f = Suc f'" using less.prems(2) by (cases f) auto
  have le: "k \<le> length snap" using less.prems(1) by (simp add: mid_transfer_def)
  show ?case
  proof (cases "k = length snap")
    case True
    then show ?thesis using grid_end_step [OF assms(1,2) _ assms(3,4)] less.prems(1) f by simp
  next
    case False
    then have "k < length snap" using le by simp
    from grid_chunk_step [OF assms(1,2) less.prems(1) this assms(3-5)] obtain j a' p' where
      j: "k < j" "j \<le> length snap" "mid_transfer S snap gen sbl flags j a' p'"
      "\<And>f. grid_pump (Suc f) S now out scratch into a p = grid_pump f S now out scratch into a' p'"
      by blast
    have "length snap - j < length snap - k" "length snap - j < f'" using j(1,2) less.prems(2) f by simp_all
    from less.hyps [OF this(1) j(3) this(2)] show ?thesis using j(4) f by simp
  qed
qed

text \<open>From \<open>StartGrid\<close> on: the client is handed exactly the snapshot the agent was given.\<close>

lemma snapshot_transfer:
  assumes S: "aead_correct S" "aead_total S"
    and bufs: "HEADER_SIZE + MAX_FRAME \<le> length out" "MAX_FRAME \<le> length into" "CHUNK_HDR < length scratch"
    and start: "StartGrid snap flags gen sbl a0 = (True, a)"
    and wf: "flags AND NOT GRID_BEGIN_FLAG_DEFINED_MASK = 0" "unat sbl \<le> length snap"
    and keys: "in_step S (cn_Sealer a0) (cn_Opener p)" "length (sl_Salt (cn_Sealer a0)) = SALT_SIZE"
      "unat (sl_Counter (cn_Sealer a0)) + length snap + 2 \<le> unat (sl_FrameLimit (cn_Sealer a0))"
    and client: "cn_Role p = RClient" "PROTOCOL_VERSION_GRID \<le> cn_Version p" "cn_GridReceiving p = None"
      "length snap \<le> length (cn_SnapshotBuf p)" "cn_AgentStreamGen p < gen"
  shows "\<exists>a' p'. grid_pump (length snap + 2) S now out scratch into a p =
      Some (DeliveredGridSnapshot snap gen sbl flags, a', p') \<and>
    cn_GridEmitting a' = None \<and> cn_GridAwaitingApplied a' \<and> cn_AgentStreamGen p' = gen \<and>
    rc_RecvOffset (cn_RecvCursor p') = 0"
proof -
  let ?ge = "\<lparr>ge_Snapshot = snap, ge_StreamGen = gen, ge_TotalLen = of_nat (length snap),
       ge_ScrollbackLen = sbl, ge_Flags = flags, ge_BytesSent = 0, ge_BeginSent = False\<rparr> :: GridEmission"
  have a: "cn_Role a = RAgent" "cn_GridEmitting a = Some ?ge" "cn_Sealer a = cn_Sealer a0"
    "snap \<noteq> []" "length snap \<le> SNAPSHOT_MAX_BYTES"
    using start by (auto simp: StartGrid_def split: if_splits)
  have u: "unat (of_nat (length snap) :: u32) = length snap" using a(5) by (rule unat_u32_small)
  define ms where "ms = \<lparr>gb_Flags = flags, gb_StreamGen = gen, gb_ScrollbackLen = sbl, gb_TotalLen = of_nat (length snap)\<rparr>"
  have "(of_nat (length snap) :: u32) \<noteq> 0" using a(4) u by (metis length_0_conv unat_0)
  then have ok: "GridBegin_ok ms" using wf a(5) u by (simp add: GridBegin_ok_def ms_def word_less_nat_alt)
  have blen: "length (GridBegin_body ms) = 13" by (simp add: GridBegin_body_def)
  have ctr: "sl_Counter (cn_Sealer a) < sl_FrameLimit (cn_Sealer a)" using keys(3) a(3) by (simp add: word_less_nat_alt)
  obtain n out' frame op sl where x:
    "SealInto S out (type_code GridBegin # GridBegin_body ms) a = (Inr (n, out'), a\<lparr>cn_Sealer := sl\<rparr>)"
    "ReadFrame (take n out') (of_nat MAX_FRAME) = Inr frame"
    "ch_Receive S now frame into p = Dispatch GridBegin (rd_at [type_code GridBegin] (GridBegin_body ms)) (p\<lparr>cn_Opener := op, cn_LastHeard := now\<rparr>)"
    "in_step S sl op" "sl_Salt sl = sl_Salt (cn_Sealer a)" "sl_FrameLimit sl = sl_FrameLimit (cn_Sealer a)"
    "unat (sl_Counter sl) = unat (sl_Counter (cn_Sealer a)) + 1"
    by (rule across [OF S, of a p "GridBegin_body ms" out into GridBegin now])
      (use keys a(3) ctr bufs blen in \<open>auto simp: size_defs\<close>)
  obtain w where w: "WriteGridBegin ms (mk_writer (replicate 14 0)) = (Inr (), w)" "Written w = type_code GridBegin # GridBegin_body ms"
    using write_mk [OF writes_WriteGridBegin [OF ok], of "replicate 14 0"] blen by auto
  define a' where "a' = a\<lparr>cn_Sealer := sl, cn_GridEmitting := Some (?ge\<lparr>ge_BeginSent := True\<rparr>)\<rparr>"
  have poll: "PollGrid S out scratch a = (Some (Inr (n, out')), a')"
    using a x(1) w by (simp add: PollGrid_def or_else_def PollGridBegin_def emit_fixed_def emit_def a'_def ms_def [symmetric]
        del: type_code.simps)
  define p' where "p' = p\<lparr>cn_Opener := op, cn_LastHeard := now,
      cn_GridReceiving := Some \<lparr>gr_StreamGen = gen, gr_TotalLen = of_nat (length snap), gr_ScrollbackLen = sbl,
       gr_Flags = flags, gr_BytesReceived = 0\<rparr>\<rparr>"
  have "fst (ParseGridBegin (rd_at [type_code GridBegin] (GridBegin_body ms))) = Inr ms"
    using gridbegin.parse_ok [OF ok] by (simp add: parses_all_def)
  then have recv: "ch_Receive S now frame into p = (Inr DeliveredNothing, p')"
    using x(3) client u a(5) wf(2) by (simp add: cn_OnGridBegin_def ms_def p'_def word_less_nat_alt word_le_nat_alt leD)
  have "mid_transfer S snap gen sbl flags 0 a' p'"
    using x(4-7) keys a client by (simp add: mid_transfer_def a'_def p'_def)
  from grid_chunks [OF S bufs this, of "length snap + 1"] show ?thesis
    using poll recv x(2) by simp
qed

subsection \<open>What a poll may and may not do\<close>

lemma SealInto_cases:
  obtains (refused) e sl where "SealInto S out pl c = (Inl e, c\<lparr>cn_Sealer := sl\<rparr>)"
  | (sealed) n out' sl where "SealInto S out pl c = (Inr (n, out'), c\<lparr>cn_Sealer := sl\<rparr>)" "0 < n"
proof (cases "Seal S out pl (cn_Sealer c)")
  case (Pair r sl)
  show thesis
  proof (cases r)
    case (Inl e)
    then have "SealInto S out pl c = (Inl (ProtoErr e), c\<lparr>cn_Sealer := sl\<rparr>)" using Pair by (simp add: SealInto_def)
    then show thesis by (rule refused)
  next
    case (Inr x)
    obtain n out' where x: "x = (n, out')" by (cases x)
    have "Seal S out pl (cn_Sealer c) = (Inr (n, out'), sl)" using Pair Inr x by simp
    then have "0 < n" by (rule Seal_InrD) (simp add: size_defs)
    moreover have "SealInto S out pl c = (Inr (n, out'), c\<lparr>cn_Sealer := sl\<rparr>)" using Pair Inr x by (simp add: SealInto_def)
    ultimately show thesis using sealed by blast
  qed
qed

lemma SealControl_cases:
  obtains (refused) e sl where "SealControl S k out w c = (Inl e, c\<lparr>cn_Sealer := sl\<rparr>)"
  | (sealed) n out' sl where "SealControl S k out w c = (Inr (n, out'), c\<lparr>cn_Sealer := sl\<rparr>)" "0 < n"
proof (cases "w (mk_writer (replicate k 0))")
  case (Pair r w')
  show thesis
  proof (cases r)
    case (Inl e)
    then have "SealControl S k out w c = (Inl (ProtoErr e), c\<lparr>cn_Sealer := cn_Sealer c\<rparr>)"
      using Pair by (simp add: SealControl_def)
    then show thesis by (rule refused)
  next
    case (Inr u)
    then have "SealControl S k out w c = SealInto S out (Written w') c" using Pair by (simp add: SealControl_def)
    then show thesis using SealInto_cases [of S out "Written w'" c] refused sealed by metis
  qed
qed

text \<open>
  A stage sends a frame of positive length or nothing, and when it sends nothing it leaves the channel
  alone.
\<close>

definition honest_stage :: "poll_stage \<Rightarrow> bool" where
  "honest_stage st \<longleftrightarrow> (\<forall>c. (fst (st c) = None \<longrightarrow> snd (st c) = c) \<and>
     (\<forall>n out'. fst (st c) = Some (Inr (n, out')) \<longrightarrow> 0 < n))"

lemma honest_stageI:
  assumes "\<And>c c'. st c = (None, c') \<Longrightarrow> c' = c" and "\<And>c n out' c'. st c = (Some (Inr (n, out')), c') \<Longrightarrow> 0 < n"
  shows "honest_stage st"
  unfolding honest_stage_def using assms by (metis prod.collapse)

lemma honest_emit: "honest_stage (emit S out pl upd)"
proof (rule honest_stageI)
  show "emit S out pl upd c = (None, c') \<Longrightarrow> c' = c" for c c'
    by (simp add: emit_def split: prod.splits sum.splits)
  show "emit S out pl upd c = (Some (Inr (n, out')), c') \<Longrightarrow> 0 < n" for c n out' c'
    by (rule SealInto_cases [of S out pl c]) (auto simp: emit_def)
qed

lemma honest_stageD:
  assumes "honest_stage st"
  shows "st c = (None, c') \<Longrightarrow> c' = c" and "st c = (Some (Inr (n, out')), c') \<Longrightarrow> 0 < n"
proof -
  have h: "(fst (st c) = None \<longrightarrow> snd (st c) = c) \<and> (\<forall>n out'. fst (st c) = Some (Inr (n, out')) \<longrightarrow> 0 < n)"
    using assms unfolding honest_stage_def by blast
  show "st c = (None, c') \<Longrightarrow> c' = c" using h by simp
  show "st c = (Some (Inr (n, out')), c') \<Longrightarrow> 0 < n" using h by simp
qed

lemma honest_emit_fixed: "honest_stage (emit_fixed S out k w upd)"
  unfolding honest_stage_def
  using honest_emit [unfolded honest_stage_def] by (auto simp: emit_fixed_def split: prod.splits sum.splits)

lemma honest_or_else: "honest_stage a \<Longrightarrow> honest_stage b \<Longrightarrow> honest_stage (or_else a b)"
  by (rule honest_stageI) (auto simp: or_else_def dest: honest_stageD split: prod.splits option.splits)

lemma honest_Pong: "honest_stage (PollPong S out)"
  using honest_emit_fixed unfolding PollPong_def honest_stage_def by (auto split: option.splits)

lemma honest_GridApplied: "honest_stage (PollGridApplied S out)"
  using honest_emit_fixed unfolding PollGridApplied_def honest_stage_def by (auto split: option.splits)

lemma honest_GridBegin: "honest_stage (PollGridBegin S out)"
  using honest_emit_fixed unfolding PollGridBegin_def honest_stage_def by (auto split: option.splits)

lemma honest_GridEnd: "honest_stage (PollGridEnd S out)"
  using honest_emit_fixed unfolding PollGridEnd_def honest_stage_def by (auto split: option.splits)

lemma honest_GridChunk: "honest_stage (PollGridChunk S out scratch)"
  using honest_emit unfolding PollGridChunk_def honest_stage_def
  by (auto simp: Let_def split: option.splits prod.splits sum.splits)

lemma honest_Grid: "honest_stage (PollGrid S out scratch)"
  using honest_or_else [OF honest_GridBegin honest_or_else [OF honest_GridChunk honest_GridEnd]]
  unfolding PollGrid_def honest_stage_def by auto

lemma honest_Data: "honest_stage (PollData S out scratch)"
  using honest_emit unfolding PollData_def honest_stage_def by (auto simp: Let_def)

lemma honest_Resize: "honest_stage (PollResize S out)"
  using honest_emit_fixed unfolding PollResize_def honest_stage_def by (auto split: option.splits)

lemma honest_SessionEnd: "honest_stage (PollSessionEnd S out)"
proof -
  have "(fst (PollSessionEnd S out c) = None \<longrightarrow> snd (PollSessionEnd S out c) = c) \<and>
     (\<forall>n out'. fst (PollSessionEnd S out c) = Some (Inr (n, out')) \<longrightarrow> 0 < n)" for c
  proof (cases "cn_PendingEnd c")
    case (Some e)
    show ?thesis
      by (rule SealControl_cases [of S 3 out "WriteSessionEnd (cn_Version c) e" c])
        (auto simp: PollSessionEnd_def Some)
  qed (simp add: PollSessionEnd_def)
  then show ?thesis by (simp add: honest_stage_def)
qed

lemmas honest_stages = honest_Pong honest_GridApplied honest_Grid honest_Data honest_SessionEnd honest_Resize

text \<open>A stage \<open>keeps\<close> a function of the channel that sealing does not touch.\<close>

definition keeps :: "(Channel \<Rightarrow> 'a) \<Rightarrow> poll_stage \<Rightarrow> bool" where
  "keeps f st \<longleftrightarrow> (\<forall>c. f (snd (st c)) = f c)"

lemma keepsD: "keeps f st \<Longrightarrow> st c = (r, c') \<Longrightarrow> f c' = f c"
  unfolding keeps_def by (metis snd_conv)

lemma keeps_emit:
  assumes "\<And>c sl. f (c\<lparr>cn_Sealer := sl\<rparr>) = f c" and "\<And>c. f (upd c) = f c"
  shows "keeps f (emit S out pl upd)"
  unfolding keeps_def
proof
  fix c show "f (snd (emit S out pl upd c)) = f c"
    by (rule SealInto_cases [of S out pl c]) (auto simp: emit_def assms)
qed

lemma keeps_emit_fixed:
  assumes "\<And>c sl. f (c\<lparr>cn_Sealer := sl\<rparr>) = f c" and "\<And>c. f (upd c) = f c"
  shows "keeps f (emit_fixed S out k w upd)"
  using keeps_emit [of f upd, OF assms] unfolding keeps_def
  by (auto simp: emit_fixed_def split: prod.splits sum.splits)

lemma keeps_or_else: "keeps f a \<Longrightarrow> keeps f b \<Longrightarrow> keeps f (or_else a b)"
  unfolding keeps_def or_else_def by (auto split: prod.splits option.splits) (metis snd_conv)+

lemma keeps_SessionEnd:
  assumes "\<And>c sl. f (c\<lparr>cn_Sealer := sl\<rparr>) = f c" and "\<And>c. f (c\<lparr>cn_EndSent := True\<rparr>) = f c"
  shows "keeps f (PollSessionEnd S out)"
  unfolding keeps_def
proof
  fix c show "f (snd (PollSessionEnd S out c)) = f c"
  proof (cases "cn_PendingEnd c")
    case (Some e)
    show ?thesis
      by (rule SealControl_cases [of S 3 out "WriteSessionEnd (cn_Version c) e" c])
        (auto simp: PollSessionEnd_def Some assms)
  qed (simp add: PollSessionEnd_def)
qed

lemma keeps_Keepalive:
  assumes "\<And>c sl. f (c\<lparr>cn_Sealer := sl\<rparr>) = f c" and "\<And>c n. f (c\<lparr>cn_NextPingToken := n\<rparr>) = f c"
  shows "keeps f (PollKeepalive S now out)"
  unfolding keeps_def
proof
  fix c show "f (snd (PollKeepalive S now out c)) = f c"
    by (rule SealControl_cases [of S 9 out "WritePing \<lparr>pi_Token = cn_NextPingToken c\<rparr>" c])
      (auto simp: PollKeepalive_def assms)
qed

text \<open>The functions of the channel that only the \<open>Data\<close> stage, or only the \<open>SessionEnd\<close> stage, may change.\<close>

definition untouched :: "(Channel \<Rightarrow> 'a) \<Rightarrow> bool" where
  "untouched f \<longleftrightarrow> (\<forall>c x. f (c\<lparr>cn_Sealer := x\<rparr>) = f c) \<and> (\<forall>c x. f (c\<lparr>cn_PendingPong := x\<rparr>) = f c) \<and>
     (\<forall>c x. f (c\<lparr>cn_PendingGridApplied := x\<rparr>) = f c) \<and> (\<forall>c x. f (c\<lparr>cn_GridEmitting := x\<rparr>) = f c) \<and>
     (\<forall>c x. f (c\<lparr>cn_GridAwaitingApplied := x\<rparr>) = f c) \<and> (\<forall>c x. f (c\<lparr>cn_PendingResize := x\<rparr>) = f c) \<and>
     (\<forall>c x. f (c\<lparr>cn_LastAckedOffset := x\<rparr>) = f c) \<and> (\<forall>c x. f (c\<lparr>cn_AckPendingSince := x\<rparr>) = f c) \<and>
     (\<forall>c x. f (c\<lparr>cn_NextPingToken := x\<rparr>) = f c) \<and> (\<forall>c x. f (c\<lparr>cn_EpochStart := x\<rparr>) = f c) \<and>
     (\<forall>c x. f (c\<lparr>cn_LastSent := x\<rparr>) = f c)"

lemma keeps_stages:
  assumes "untouched f"
  shows "keeps f (PollPong S out)" "keeps f (PollGridApplied S out)" "keeps f (PollGrid S out scratch)"
    "keeps f (PollResize S out)" "keeps f (PollAck S now out)" "keeps f (PollKeepalive S now out)"
proof -
  note u = assms [unfolded untouched_def]
  have fixed: "keeps f (emit_fixed S out k w upd)" if "\<And>c. f (upd c) = f c" for k w upd
    by (rule keeps_emit_fixed) (use u that in simp_all)
  show "keeps f (PollPong S out)"
    using fixed [of "\<lambda>c. c\<lparr>cn_PendingPong := None\<rparr>"] u by (auto simp: keeps_def PollPong_def split: option.splits)
  show "keeps f (PollGridApplied S out)"
    using fixed [of "\<lambda>c. c\<lparr>cn_PendingGridApplied := None\<rparr>"] u
    by (auto simp: keeps_def PollGridApplied_def split: option.splits)
  show "keeps f (PollResize S out)"
    using fixed [of "\<lambda>c. c\<lparr>cn_PendingResize := None\<rparr>"] u by (auto simp: keeps_def PollResize_def split: option.splits)
  have "keeps f (emit_fixed S out 9 w (\<lambda>c. c\<lparr>cn_LastAckedOffset := o', cn_AckPendingSince := None\<rparr>))" for w o'
    by (rule fixed) (use u in simp)
  then show "keeps f (PollAck S now out)"
    using u by (auto simp: keeps_def PollAck_def Let_def split: option.splits)
  show "keeps f (PollKeepalive S now out)" using u by (intro keeps_Keepalive) auto
  have "keeps f (PollGridBegin S out)"
    using fixed u by (auto simp: keeps_def PollGridBegin_def split: option.splits)
  moreover have "keeps f (PollGridEnd S out)"
    using fixed [of "\<lambda>c. c\<lparr>cn_GridEmitting := None, cn_GridAwaitingApplied := True\<rparr>"] u
    by (auto simp: keeps_def PollGridEnd_def split: option.splits)
  moreover have "keeps f (emit S out pl (\<lambda>c. c\<lparr>cn_GridEmitting := g\<rparr>))" for pl g
    using u by (intro keeps_emit) auto
  then have "keeps f (PollGridChunk S out scratch)"
    by (auto simp: keeps_def PollGridChunk_def Let_def split: option.splits prod.splits sum.splits)
  ultimately have "keeps f (or_else (PollGridBegin S out) (or_else (PollGridChunk S out scratch) (PollGridEnd S out)))"
    by (intro keeps_or_else)
  then show "keeps f (PollGrid S out scratch)" by (simp add: keeps_def PollGrid_def)
qed

lemma untouched_EndSent: "untouched cn_EndSent" and untouched_SendBuf: "untouched cn_SendBuf"
  by (simp_all add: untouched_def)

lemma RekeyIfNeeded_keeps:
  assumes "untouched f" and "RekeyIfNeeded S now c = (r, c')"
  shows "f c' = f c"
  using assms by (auto simp: RekeyIfNeeded_def untouched_def Let_def split: if_splits prod.splits sum.splits)

text \<open>From the stages to the poll.\<close>

lemma Poll_keeps:
  assumes "untouched f"
    and "\<And>c1. cn_SendBuf c1 = cn_SendBuf c \<Longrightarrow> cn_EndSent c1 = cn_EndSent c \<Longrightarrow> cn_PendingEnd c1 = cn_PendingEnd c \<Longrightarrow>
           cn_Role c1 = cn_Role c \<Longrightarrow> GridInFlight c1 = GridInFlight c \<Longrightarrow>
           cn_AwaitingSnapshotSupply c1 = cn_AwaitingSnapshotSupply c \<Longrightarrow> f c1 = f c \<Longrightarrow>
           f (snd (poll_stages S now out scratch c1)) = f c"
  shows "f (snd (Poll S now out scratch c)) = f c"
proof -
  obtain r c1 where rk: "RekeyIfNeeded S now c = (r, c1)" by fastforce
  have same: "cn_SendBuf c1 = cn_SendBuf c" "cn_EndSent c1 = cn_EndSent c" "cn_PendingEnd c1 = cn_PendingEnd c"
     "cn_Role c1 = cn_Role c" "GridInFlight c1 = GridInFlight c"
     "cn_AwaitingSnapshotSupply c1 = cn_AwaitingSnapshotSupply c"
    using rk by (auto simp: RekeyIfNeeded_def GridInFlight_def Let_def split: if_splits prod.splits sum.splits)
  have fc: "f c1 = f c" using RekeyIfNeeded_keeps [OF assms(1) rk] .
  have "f (snd (PollOnce S now out scratch c)) = f c"
    using rk fc assms(2) [OF same fc]
    by (auto simp: PollOnce_def split: prod.splits sum.splits option.splits)
  then show ?thesis
    using assms(1) by (auto simp: Poll_def untouched_def split: prod.splits sum.splits)
qed

text \<open>No stage but \<open>Data\<close> touches the send buffer, and \<open>Data\<close> waits for the snapshot.\<close>

lemma PollData_blocked:
  "cn_Role c = RAgent \<Longrightarrow> GridInFlight c \<or> cn_AwaitingSnapshotSupply c \<Longrightarrow> PollData S out scratch c = (None, c)"
  by (auto simp: PollData_def)

lemma or_else_front:
  assumes "keeps f st" and "honest_stage st" and "f (snd (k x)) = f x"
  shows "f (snd (or_else st k x)) = f x"
proof (cases "st x")
  case (Pair r x')
  then show ?thesis
    using keepsD [OF assms(1) Pair] honest_stageD(1) [OF assms(2), of x x'] assms(3)
    by (cases r) (simp_all add: or_else_def)
qed

lemma Poll_no_data_in_flight:
  assumes "cn_Role c = RAgent" and "GridInFlight c \<or> cn_AwaitingSnapshotSupply c"
  shows "cn_SendBuf (snd (Poll S now out scratch c)) = cn_SendBuf c"
proof (rule Poll_keeps [OF untouched_SendBuf])
  fix c1 assume c1: "cn_SendBuf c1 = cn_SendBuf c" "cn_Role c1 = cn_Role c" "GridInFlight c1 = GridInFlight c"
     "cn_AwaitingSnapshotSupply c1 = cn_AwaitingSnapshotSupply c"
  let ?tail = "or_else (PollSessionEnd S out) (or_else (PollResize S out) (or_else (PollAck S now out) (PollKeepalive S now out)))"
  have tail: "keeps cn_SendBuf ?tail"
    by (intro keeps_or_else keeps_stages [OF untouched_SendBuf] keeps_SessionEnd) simp_all
  have "PollData S out scratch c1 = (None, c1)" using assms c1 by (intro PollData_blocked) auto
  then have data: "cn_SendBuf (snd (or_else (PollData S out scratch) ?tail c1)) = cn_SendBuf c1"
    using tail by (simp add: or_else_def keeps_def)
  have "cn_SendBuf (snd (poll_stages S now out scratch c1)) = cn_SendBuf c1"
    unfolding poll_stages_def by (intro or_else_front keeps_stages [OF untouched_SendBuf] honest_stages data)
  then show "cn_SendBuf (snd (poll_stages S now out scratch c1)) = cn_SendBuf c" using c1(1) by simp
qed

text \<open>\<open>SessionEnd\<close> goes out only when the peer has acknowledged every byte of the stream.\<close>

lemma Poll_end_last:
  assumes "sb_Size (cn_SendBuf c) \<noteq> 0 \<or> cn_PendingEnd c = None"
  shows "cn_EndSent (snd (Poll S now out scratch c)) = cn_EndSent c"
proof (rule Poll_keeps [OF untouched_EndSent])
  fix c1 :: Channel
  assume c1: "cn_SendBuf c1 = cn_SendBuf c" "cn_PendingEnd c1 = cn_PendingEnd c" "cn_EndSent c1 = cn_EndSent c"
  let ?tail = "or_else (PollResize S out) (or_else (PollAck S now out) (PollKeepalive S now out))"
  have tail: "keeps cn_EndSent ?tail" by (intro keeps_or_else keeps_stages [OF untouched_EndSent])
  have "PollSessionEnd S out c1 = (None, c1)" using assms c1 by (auto simp: PollSessionEnd_def split: option.splits)
  then have end': "cn_EndSent (snd (or_else (PollSessionEnd S out) ?tail c1)) = cn_EndSent c1"
    using tail by (simp add: or_else_def keeps_def)
  have emit: "keeps cn_EndSent (emit S out pl (\<lambda>c. c\<lparr>cn_SendBuf := g (cn_SendBuf c),
      cn_LastAckedOffset := AckOffset (cn_RecvCursor c), cn_AckPendingSince := None\<rparr>))" for pl g
    by (rule keeps_emit) simp_all
  have data: "keeps cn_EndSent (PollData S out scratch)"
    using emit unfolding keeps_def PollData_def by (auto simp: Let_def)
  have "cn_EndSent (snd (poll_stages S now out scratch c1)) = cn_EndSent c1"
    unfolding poll_stages_def
    by (intro or_else_front keeps_stages [OF untouched_EndSent] honest_stages data end')
  then show "cn_EndSent (snd (poll_stages S now out scratch c1)) = cn_EndSent c" using c1(3) by simp
qed

subsection \<open>Timers\<close>

text \<open>The idle-acknowledgement timer runs only while there is something to acknowledge.\<close>

definition ack_timer_ok :: "Channel \<Rightarrow> bool" where
  "ack_timer_ok c \<longleftrightarrow> (cn_AckPendingSince c \<noteq> None \<longrightarrow> cn_LastAckedOffset c < AckOffset (cn_RecvCursor c))"

lemma PollAck_None:
  assumes "PollAck S now out c = (None, c')" and "ack_timer_ok c"
  shows "cn_AckPendingSince c' = Some t \<Longrightarrow> now < t + ACK_IDLE_DELAY" and "\<exists>x. c' = c\<lparr>cn_AckPendingSince := x\<rparr>"
proof -
  have pos: "0 < ACK_IDLE_DELAY" by (simp add: ACK_IDLE_DELAY_def MILLISECOND_def)
  let ?msg = "\<lparr>ac_Ack = AckOffset (cn_RecvCursor c)\<rparr>"
  obtain w where w: "WriteAck ?msg (mk_writer (replicate 9 0)) = (Inr (), w)"
    using write_mk [OF ack.write_ok [of ?msg], of "replicate 9 0"] by auto
  have em: "fst (emit S out pl upd c) \<noteq> None" for pl upd by (simp add: emit_def split: prod.split sum.split)
  have cases: "c' = c \<and> (cn_AckPendingSince c = None \<or> (\<exists>s. cn_AckPendingSince c = Some s \<and> now < s + ACK_IDLE_DELAY)) \<or>
      c' = c\<lparr>cn_AckPendingSince := Some now\<rparr>"
  proof (cases "cn_LastAckedOffset c < AckOffset (cn_RecvCursor c)")
    case True
    show ?thesis
    proof (cases "cn_AckPendingSince c")
      case None
      then show ?thesis using assms(1) True by (simp add: PollAck_def)
    next
      case (Some s)
      have "\<not> s + ACK_IDLE_DELAY \<le> now"
      proof
        assume "s + ACK_IDLE_DELAY \<le> now"
        then have "fst (PollAck S now out c) \<noteq> None"
          using True Some em w by (simp add: PollAck_def emit_fixed_def)
        then show False using assms(1) by simp
      qed
      then show ?thesis using assms(1) True Some by (simp add: PollAck_def)
    qed
  next
    case False
    then have "cn_AckPendingSince c = None" using assms(2) by (cases "cn_AckPendingSince c") (auto simp: ack_timer_ok_def)
    then show ?thesis using assms(1) False by (simp add: PollAck_def)
  qed
  then show "cn_AckPendingSince c' = Some t \<Longrightarrow> now < t + ACK_IDLE_DELAY" using pos by auto
  show "\<exists>x. c' = c\<lparr>cn_AckPendingSince := x\<rparr>" using cases by (cases c) auto
qed

lemma or_else_None:
  assumes "honest_stage st" and "or_else st k c = (None, c')"
  shows "k c = (None, c')"
proof (cases "st c")
  case (Pair r x)
  then show ?thesis using assms(2) honest_stageD(1) [OF assms(1), of c x] by (cases r) (simp_all add: or_else_def)
qed

lemma Keepalive_None:
  assumes "PollKeepalive S now out c = (None, c')"
  shows "c' = c" and "0 < ll_KeepaliveInterval (cn_Liveness c) \<Longrightarrow> now < cn_LastSent c + ll_KeepaliveInterval (cn_Liveness c)"
  using assms by (auto simp: PollKeepalive_def split: if_splits prod.splits sum.splits)

lemma poll_stages_None:
  assumes "poll_stages S now out scratch c = (None, c')" and "ack_timer_ok c"
  obtains x where "c' = c\<lparr>cn_AckPendingSince := x\<rparr>" "\<And>t. x = Some t \<Longrightarrow> now < t + ACK_IDLE_DELAY"
    "0 < ll_KeepaliveInterval (cn_Liveness c) \<Longrightarrow> now < cn_LastSent c + ll_KeepaliveInterval (cn_Liveness c)"
proof -
  have last: "or_else (PollAck S now out) (PollKeepalive S now out) c = (None, c')"
    using or_else_None [OF honest_Resize, OF or_else_None [OF honest_SessionEnd, OF or_else_None [OF honest_Data,
        OF or_else_None [OF honest_Grid, OF or_else_None [OF honest_GridApplied, OF or_else_None [OF honest_Pong,
        OF assms(1) [unfolded poll_stages_def]]]]]]] .
  then obtain c1 where c1: "PollAck S now out c = (None, c1)" "PollKeepalive S now out c1 = (None, c')"
    by (auto simp: or_else_def split: prod.splits option.splits)
  obtain x where x: "c1 = c\<lparr>cn_AckPendingSince := x\<rparr>" using PollAck_None(2) [OF c1(1) assms(2)] by blast
  have t: "now < t + ACK_IDLE_DELAY" if "x = Some t" for t
    using PollAck_None(1) [OF c1(1) assms(2), of t] x that by simp
  have c': "c' = c\<lparr>cn_AckPendingSince := x\<rparr>" using Keepalive_None(1) [OF c1(2)] x by simp
  have "0 < ll_KeepaliveInterval (cn_Liveness c) \<Longrightarrow> now < cn_LastSent c + ll_KeepaliveInterval (cn_Liveness c)"
    using Keepalive_None(2) [OF c1(2)] x by simp
  then show thesis using that c' t by blast
qed

text \<open>A stage result of length zero is impossible, so zero means that every stage passed.\<close>

definition positive :: "poll_stage \<Rightarrow> bool" where
  "positive st \<longleftrightarrow> (\<forall>c n out' c'. st c = (Some (Inr (n, out')), c') \<longrightarrow> 0 < n)"

lemma positive_honest: "honest_stage st \<Longrightarrow> positive st"
  unfolding positive_def using honest_stageD(2) by blast

lemma positive_or_else: "positive a \<Longrightarrow> positive b \<Longrightarrow> positive (or_else a b)"
  unfolding positive_def or_else_def by (auto split: prod.splits option.splits)

lemma positive_Keepalive: "positive (PollKeepalive S now out)"
  unfolding positive_def
proof (intro allI impI)
  fix x n out' c' assume k: "PollKeepalive S now out x = (Some (Inr (n, out')), c')"
  show "0 < n"
  proof (cases rule: SealControl_cases [of S 9 out "WritePing \<lparr>pi_Token = cn_NextPingToken x\<rparr>" x])
    case (refused e sl)
    then show ?thesis using k by (simp add: PollKeepalive_def split: if_splits)
  next
    case (sealed m out'' sl)
    then show ?thesis using k by (simp add: PollKeepalive_def split: if_splits)
  qed
qed

lemma positive_Ack: "positive (PollAck S now out)"
  unfolding positive_def using honest_stageD(2) [OF honest_emit_fixed]
  by (auto simp: PollAck_def Let_def split: if_splits option.splits)

lemma Some_pos: "poll_stages S now out scratch c = (Some (Inr (n, out')), c') \<Longrightarrow> 0 < n"
proof -
  have "positive (poll_stages S now out scratch)"
    unfolding poll_stages_def
    by (intro positive_or_else positive_Keepalive positive_Ack honest_stages [THEN positive_honest])
  then show "poll_stages S now out scratch c = (Some (Inr (n, out')), c') \<Longrightarrow> 0 < n" unfolding positive_def by blast
qed

lemma RekeyIfNeeded_fresh:
  assumes "RekeyIfNeeded S now c = (Inr u, c1)"
  shows "now < cn_EpochStart c1 + REKEY_INTERVAL" and "ack_timer_ok c \<Longrightarrow> ack_timer_ok c1"
    and "cn_LastHeard c1 = cn_LastHeard c" and "cn_Liveness c1 = cn_Liveness c"
    and "cn_ReadGateClosed c1 = cn_ReadGateClosed c" and "cn_SendGateClosed c1 = cn_SendGateClosed c"
    and "cn_LastSent c1 = cn_LastSent c"
  using assms by (auto simp: RekeyIfNeeded_def REKEY_INTERVAL_def SECOND_def ack_timer_ok_def Let_def
      split: if_splits prod.splits sum.splits)

lemma Poll_idle_no_deadline:
  assumes "ack_timer_ok c" and "\<not> cn_SendGateClosed c" and "Poll S now out scratch c = (Inr (0, out'), c')"
  shows "\<not> HasExpired (ch_NextDeadline c') now"
proof -
  have live: "\<not> (\<not> cn_ReadGateClosed c \<and> 0 < ll_PeerSilenceTimeout (cn_Liveness c) \<and>
      cn_LastHeard c + ll_PeerSilenceTimeout (cn_Liveness c) \<le> now)"
    using assms(3) by (auto simp: Poll_def)
  have once: "PollOnce S now out scratch c = (Inr (0, out'), c')"
    using assms(2,3) live by (auto simp: Poll_def split: prod.splits sum.splits)
  obtain u c1 where rk: "RekeyIfNeeded S now c = (Inr u, c1)"
    using once by (auto simp: PollOnce_def split: prod.splits sum.splits)
  note f = RekeyIfNeeded_fresh [OF rk]
  obtain r where st: "poll_stages S now out scratch c1 = (r, c')" "r = None \<or> r = Some (Inr (0, out'))"
    using once rk by (auto simp: PollOnce_def split: prod.splits sum.splits option.splits if_splits)
  have "r = None" using st Some_pos [of S now out scratch c1 0 out' c'] by auto
  then obtain x where x: "c' = c1\<lparr>cn_AckPendingSince := x\<rparr>" "\<And>t. x = Some t \<Longrightarrow> now < t + ACK_IDLE_DELAY"
    "0 < ll_KeepaliveInterval (cn_Liveness c1) \<Longrightarrow> now < cn_LastSent c1 + ll_KeepaliveInterval (cn_Liveness c1)"
    using poll_stages_None [of S now out scratch c1 c'] st(1) f(2) [OF assms(1)] by metis
  show ?thesis
    using f(1) f(3-7) live assms(2) x
    by (auto simp: ch_NextDeadline_def Let_def HasExpired_Earliest not_le split: option.splits)
qed

subsection \<open>Keeping the timer invariant\<close>

lemma Receive_AckOffset_mono:
  assumes "cursor_ok c"
  shows "AckOffset c \<le> AckOffset (snd (Receive offset bs c))"
proof (cases "rc_Ack c")
  case OnReceipt
  then have p: "rc_Pending c = 0" "rc_Pending (snd (Receive offset bs c)) = 0"
    using Receive_Pending [OF OnReceipt] assms by (simp_all add: cursor_ok_def)
  show ?thesis
  proof (cases "unat offset + length bs < 2 ^ 64 \<and> offset \<le> rc_RecvOffset c")
    case True
    then show ?thesis using Receive_in_order(2) [of offset bs c] p by (simp add: AckOffset_def word_le_nat_alt)
  next
    case False
    then have "rc_RecvOffset c < offset \<or> 2 ^ 64 \<le> unat offset + length bs" by (auto simp: not_less not_le)
    then show ?thesis using Receive_gap [of c offset bs] by simp
  qed
qed (simp add: Receive_AckOffset)

lemma AcceptAck_keeps:
  "cn_RecvCursor (snd (AcceptAck a c)) = cn_RecvCursor c" "cn_AckPendingSince (snd (AcceptAck a c)) = cn_AckPendingSince c"
  "cn_LastAckedOffset (snd (AcceptAck a c)) = cn_LastAckedOffset c"
  by (simp_all add: AcceptAck_def split: prod.splits sum.splits)

lemma OnData_timer:
  assumes "cursor_ok (cn_RecvCursor c)" and "ack_timer_ok c"
  shows "ack_timer_ok (snd (cn_OnData r c))"
proof -
  have "ack_timer_ok (c1\<lparr>cn_RecvCursor := snd (Receive off bs (cn_RecvCursor c1))\<rparr>)"
    if "cn_RecvCursor c1 = cn_RecvCursor c" "cn_AckPendingSince c1 = cn_AckPendingSince c"
      "cn_LastAckedOffset c1 = cn_LastAckedOffset c" for c1 :: Channel and off bs
    using assms Receive_AckOffset_mono [OF assms(1), of off bs] that
    by (auto simp: ack_timer_ok_def intro: less_le_trans)
  moreover have "ack_timer_ok (snd (AcceptAck a c))" for a
    using assms(2) by (simp add: ack_timer_ok_def AcceptAck_keeps)
  ultimately show ?thesis
    using assms(2) AcceptAck_keeps unfolding cn_OnData_def Let_def
    by (auto split: sum.splits prod.splits if_splits) (metis snd_conv)+
qed

lemma Dispatch_timer:
  assumes "cursor_ok (cn_RecvCursor c)" and "ack_timer_ok c"
  shows "ack_timer_ok (snd (Dispatch ty r c))"
proof (cases ty)
  case Data
  then show ?thesis using OnData_timer [OF assms] by simp
next
  case Ack
  have "ack_timer_ok (snd (AcceptAck a c))" for a
    using assms(2) by (simp add: ack_timer_ok_def AcceptAck_keeps)
  then show ?thesis
    using Ack assms(2) by (auto simp: cn_OnAck_def split: sum.splits prod.splits) (metis snd_conv)+
qed (use assms(2) in \<open>auto simp: cn_OnResize_def cn_OnPing_def cn_OnPong_def cn_OnSessionEnd_def cn_OnGridBegin_def
   cn_OnGridChunk_def cn_OnGridEnd_def cn_OnGridApplied_def ack_timer_ok_def Let_def split: sum.splits option.splits\<close>)

lemma ch_Receive_timer:
  assumes "cursor_ok (cn_RecvCursor c)" and "ack_timer_ok c"
  shows "ack_timer_ok (snd (ch_Receive S now frame into c))"
proof -
  have "ack_timer_ok (snd (Dispatch ty r (c\<lparr>cn_Opener := op, cn_LastHeard := now\<rparr>)))" for ty r op
    by (rule Dispatch_timer) (use assms in \<open>simp_all add: ack_timer_ok_def\<close>)
  then show ?thesis
    using assms by (auto simp: ch_Receive_def ack_timer_ok_def Let_def split: prod.splits sum.splits)
qed

end
