(* ===== verification/Session_Properties.thy ===== *)
theory Session_Properties
  imports Session_Transfer Example_Sodium
begin

text \<open>
  What the session layer promises, stated over the model of the source: exactly-once delivery over
  connections that come and go, the ring buffer as a queue, the life cycle of a session, the channel
  and the snapshot transfer. Each property whose statement has hypotheses is followed by an instance
  in which they hold.
\<close>

subsection \<open>One direction of a session\<close>

text \<open>A run to evaluate: three bytes written before the first connection, sent and received.\<close>

definition example_buffer :: SendBuffer where
  "example_buffer = mk_SendBuffer (replicate 8 0) 0"

definition example_written :: SendBuffer where
  "example_written = snd (sb_Append [1, 2, 3] example_buffer)"

definition example_connected :: SendBuffer where
  "example_connected = snd (ResetSendNext 0 example_written)"

definition example_sent :: SendBuffer where
  "example_sent = AdvanceSendNext 3 example_connected"

definition example_received :: ReceiveCursor where
  "example_received = snd (Receive 0 [1, 2, 3] (mk_ReceiveCursor 0 OnReceipt))"

definition example_link :: "bool \<Rightarrow> link" where
  "example_link arrived =
     \<lparr>lk_Out = example_sent, lk_In = (if arrived then example_received else mk_ReceiveCursor 0 OnReceipt), lk_Up = True,
      lk_Data = (if arrived then [] else [(0, [1, 2, 3])]), lk_Acks = [], lk_Written = [1, 2, 3],
      lk_Delivered = (if arrived then [1, 2, 3] else [])\<rparr>"

lemma example_values:
  "sb_Append [1, 2, 3] example_buffer = (3, example_written)"
  "ResetSendNext (AckOffset (mk_ReceiveCursor 0 OnReceipt)) example_written = (Inr (), example_connected)"
  "CopyOut (sb_SendNext example_connected) 3 example_connected = [1, 2, 3]"
  "sb_SendNext example_connected = 0"
  "unat (sb_End example_buffer) = 0" "sb_Unsent example_sent = 0"
  by code_simp+

lemma example_receipt: "Receive 0 [1, 2, 3] (mk_ReceiveCursor 0 OnReceipt) = (Inr [1, 2, 3], example_received)"
  using Receive_in_order(1) [of 0 "[1, 2, 3]" "mk_ReceiveCursor 0 OnReceipt"]
  by (simp add: example_received_def mk_ReceiveCursor_def prod_eq_iff)

lemma example_buffers_ok: "buffer_ok example_written" "buffer_ok example_connected"
proof -
  show w: "buffer_ok example_written"
    using sb_Append_spec(2) [of example_buffer "[1, 2, 3]" 3 example_written] example_values
    by (simp add: example_buffer_def mk_SendBuffer_spec)
  have "sb_Base example_written \<le> 0" "0 \<le> sb_End example_written" by code_simp+
  from ResetSendNext_spec(3) [OF w this] show "buffer_ok example_connected" by (auto simp: example_connected_def)
qed

lemma example_run_sent: "link_step\<^sup>*\<^sup>* (link_init (replicate 8 0) OnReceipt) (example_link False)"
proof -
  let ?l0 = "link_init (replicate 8 0) OnReceipt"
  let ?l1 = "?l0\<lparr>lk_Out := example_written, lk_Written := [1, 2, 3]\<rparr>"
  let ?l2 = "?l1\<lparr>lk_Out := example_connected, lk_Up := True\<rparr>"
  have l0: "lk_Out ?l0 = example_buffer" "lk_In ?l0 = mk_ReceiveCursor 0 OnReceipt" "lk_Written ?l0 = []" "\<not> lk_Up ?l0"
      "lk_Data ?l0 = []"
    by (simp_all add: link_init_def example_buffer_def)
  have "link_step ?l0 ?l1"
    using link_step.written [of "[1, 2, 3]" ?l0 3 example_written] l0 example_values by simp
  moreover have "link_step ?l1 ?l2"
    using link_step.connect [of ?l1 example_connected] l0 example_values by simp
  moreover have "link_step ?l2 (example_link False)"
    using link_step.send [of ?l2 "[1, 2, 3]" 3] l0 example_values
    by (simp add: example_link_def link_init_def example_sent_def numeral_3_eq_3)
  ultimately show ?thesis by (meson converse_rtranclp_into_rtranclp rtranclp.rtrancl_refl)
qed

lemma example_run: "link_step\<^sup>*\<^sup>* (link_init (replicate 8 0) OnReceipt) (example_link True)"
proof (rule rtranclp.rtrancl_into_rtrancl [OF example_run_sent])
  show "link_step (example_link False) (example_link True)"
    using link_step.receive [of "example_link False" 0 "[1, 2, 3]" "[]" "[1, 2, 3]" example_received] example_receipt
    by (simp add: example_link_def)
qed

text \<open>C1 (safety). Exactly once, in order: over any sequence of writes, sends, receipts, acknowledgements, lost
  connections, refusals and reconnections, what the reader has been handed and has kept is exactly the prefix
  of what the writer was told was taken, up to the reader's receive offset.\<close>

theorem exactly_once_in_order:
  assumes "link_step\<^sup>*\<^sup>* (link_init storage ack) l" and "length storage < 2 ^ 64"
  shows "lk_Delivered l = take (unat (rc_RecvOffset (lk_In l))) (lk_Written l)"
  using link_inv_reachable [OF assms] by (rule link_safe)

theorem exactly_once_in_order_witness:
  "lk_Delivered (example_link False) = take (unat (rc_RecvOffset (lk_In (example_link False)))) (lk_Written (example_link False))"
  by (rule exactly_once_in_order [OF example_run_sent]) simp

text \<open>C5 (liveness). Nothing is left behind: on a live connection, once every byte has been sent and every
  frame in flight has been received, the reader has everything that was ever written, whatever connections
  were lost before.\<close>

theorem drained_link_is_complete:
  assumes "link_step\<^sup>*\<^sup>* (link_init storage ack) l" and "length storage < 2 ^ 64"
    and "lk_Up l" and "lk_Data l = []" and "sb_Unsent (lk_Out l) = 0"
  shows "lk_Delivered l = lk_Written l"
  using link_inv_reachable [OF assms(1,2)] assms(3-5) by (rule link_complete)

theorem drained_link_is_complete_witness:
  "lk_Delivered (example_link True) = lk_Written (example_link True)"
  by (rule drained_link_is_complete [OF example_run]) (simp_all add: example_link_def example_values)

text \<open>C22 (safety). Two honest ends never refuse each other: in every reachable state the next frame in flight
  is accepted, every acknowledgement in flight is accepted, and a reconnection from the reader's acknowledged
  offset is accepted, so no session is lost to \<open>StreamGap\<close>, \<open>AckBeyondSent\<close> or \<open>PeerBehindBuffer\<close>.\<close>

theorem honest_ends_never_refuse:
  assumes "link_step\<^sup>*\<^sup>* (link_init storage ack) l" and "length storage < 2 ^ 64"
  shows "fst (ResetSendNext (AckOffset (lk_In l)) (lk_Out l)) = Inr () \<and>
    (\<forall>a \<in> set (lk_Acks l). fst (Acknowledge a (lk_Out l)) = Inr ()) \<and>
    (\<forall>off bs ds. lk_Up l \<and> lk_Data l = (off, bs) # ds \<longrightarrow> (\<exists>fresh. fst (Receive off bs (lk_In l)) = Inr fresh))"
  using link_inv_reachable [OF assms] by (blast intro: connect_accepted acked_accepted receive_accepted)

theorem honest_ends_never_refuse_witness:
  "fst (ResetSendNext (AckOffset (lk_In (example_link False))) (lk_Out (example_link False))) = Inr () \<and>
   (\<exists>fresh. fst (Receive 0 [1, 2, 3] (lk_In (example_link False))) = Inr fresh)"
  using honest_ends_never_refuse [OF example_run_sent] by (simp add: example_link_def)

subsection \<open>The send buffer\<close>

text \<open>C17 (refinement). The ring with its three wrapping 64-bit offsets is a queue of bytes: appending adds the
  longest prefix there is room for, acknowledging drops from the front, reading at an offset returns the bytes
  at that offset, and each keeps the invariant.\<close>

theorem send_buffer_is_a_queue:
  assumes "buffer_ok b"
  shows "(\<forall>bs n b'. unat (sb_End b) + length bs < 2 ^ 64 \<and> sb_Append bs b = (n, b') \<longrightarrow>
      buffer_ok b' \<and> n = min (length bs) (sb_Room b) \<and> sb_held b' = sb_held b @ take n bs) \<and>
    (\<forall>a r b'. a \<le> sb_End b \<and> Acknowledge a b = (r, b') \<longrightarrow>
      r = Inr () \<and> buffer_ok b' \<and> sb_held b' = drop (unat a - unat (sb_Base b)) (sb_held b)) \<and>
    (\<forall>f m. sb_Base b \<le> f \<and> f \<le> sb_End b \<longrightarrow> CopyOut f m b = take m (drop (unat f - unat (sb_Base b)) (sb_held b)))"
proof (intro conjI allI impI; elim conjE)
  fix bs n b' assume "unat (sb_End b) + length bs < 2 ^ 64" "sb_Append bs b = (n, b')"
  note spec = sb_Append_spec [OF assms this]
  then show "buffer_ok b'" "n = min (length bs) (sb_Room b)" "sb_held b' = sb_held b @ take n bs" by blast+
next
  fix a r b' assume "a \<le> sb_End b" "Acknowledge a b = (r, b')"
  note spec = Acknowledge_spec [OF assms this]
  then show "r = Inr ()" "buffer_ok b'" "sb_held b' = drop (unat a - unat (sb_Base b)) (sb_held b)" by blast+
qed (rule CopyOut_spec [OF assms])

theorem send_buffer_is_a_queue_witness:
  "buffer_ok example_written \<and> sb_held example_written = [1, 2, 3] \<and> CopyOut 1 9 example_written = [2, 3]"
proof -
  have ok: "buffer_ok example_buffer" and held: "sb_held example_buffer = []"
    by (simp_all add: example_buffer_def mk_SendBuffer_spec)
  have "unat (sb_End example_buffer) + length [1, 2, 3 :: byte] < 2 ^ 64" using example_values by simp
  then have w: "buffer_ok example_written" "sb_held example_written = [1, 2, 3]"
    using send_buffer_is_a_queue [OF ok] held example_values(1) by fastforce+
  moreover have "sb_Base example_written \<le> 1" "1 \<le> sb_End example_written" "sb_Base example_written = 0" by code_simp+
  ultimately show ?thesis using send_buffer_is_a_queue [OF w(1)] by simp
qed

text \<open>A resend carries the bytes of the first send: whatever was appended and acknowledged in
  between, a range that has not been acknowledged reads the same.\<close>

theorem resend_is_faithful:
  assumes "buffer_ok b" and "unat (sb_End b) + length xs < 2 ^ 64" and "sb_Base b \<le> a" and "a \<le> f"
    and "unat f + n \<le> unat (sb_End b)"
  shows "CopyOut f n (snd (Acknowledge a (snd (sb_Append xs b)))) = CopyOut f n b"
proof -
  have le: "unat a \<le> unat f" "unat (sb_Base b) \<le> unat a" using assms(3,4) by (simp_all add: word_le_nat_alt)
  have "unat (sb_Base b) + length (sb_held b) = unat (sb_End b)" using buffer_okD [OF assms(1)] by simp
  then show ?thesis using sbuf.resend_same [OF assms(1,2), of "unat a" "unat f" n] le assms(5) by simp
qed

theorem resend_is_faithful_witness:
  "CopyOut 1 2 (snd (Acknowledge 1 (snd (sb_Append [4, 5] example_written)))) = CopyOut 1 2 example_written"
proof (rule resend_is_faithful)
  show "buffer_ok example_written" by (rule example_buffers_ok)
  have "unat (sb_End example_written) = 3" "sb_Base example_written = 0" by code_simp+
  then show "unat (sb_End example_written) + length [4, 5 :: byte] < 2 ^ 64" "sb_Base example_written \<le> 1"
    "unat (1 :: u64) + 2 \<le> unat (sb_End example_written)" by simp_all
qed simp

subsection \<open>The session\<close>

text \<open>C25 (safety). No byte of output is lost silently: a write to a session either is refused and the session is
  reaped with nothing changed in its buffer, or reports how long a prefix it appended, or the session carries
  the overflow mark that forbids replay and forces a fresh snapshot.\<close>

theorem write_accounts_for_every_byte:
  assumes "stream_state_ok s" and "unat (sb_End (ss_Output s)) + length bs < 2 ^ 64" and "ss_Write bs s = (r, s')"
  shows "case r of
      Inl e \<Rightarrow> ss_State s' = Reaped \<and> sb_held (ss_Output s') = sb_held (ss_Output s)
    | Inr n \<Rightarrow> n \<le> length bs \<and> ss_State s' = ss_State s \<and>
        (sb_held (ss_Output s') = sb_held (ss_Output s) @ take n bs \<or>
         sb_RingOverflowed (ss_Output s') \<and> ss_State s = Detached \<and> ss_Overflow s = Resync)"
  using assms by (rule Write_accounts_every_byte)

definition example_session :: "EDetachedOverflow \<Rightarrow> nat \<Rightarrow> StreamState" where
  "example_session overflow n =
     mk_StreamState \<lparr>st_Storage = replicate n 0, st_Now = 0, st_Limits = default_limits\<rparr> overflow OnReceipt"

lemma example_session_ok: "n < 2 ^ 64 \<Longrightarrow> stream_state_ok (example_session overflow n)"
  by (simp add: example_session_def mk_StreamState_ok)

lemma example_session_simps [simp]:
  "sb_End (ss_Output (example_session overflow n)) = 0" "ss_State (example_session overflow n) = Detached"
  "ss_Overflow (example_session overflow n) = overflow" "\<not> sb_RingOverflowed (ss_Output (example_session overflow n))"
  "sb_held (ss_Output (example_session overflow n)) = []" "ss_ReapReason (example_session overflow n) = None"
  "ss_Limits (example_session overflow n) = default_limits" "ss_DetachedSince (example_session overflow n) = 0"
  "ss_Generation (example_session overflow n) = 0" "sb_Base (ss_Output (example_session overflow n)) = 0"
  "write_room (example_session overflow n) = min DISCONNECT_BUFFER_MAX n"
  by (simp_all add: example_session_def mk_StreamState_def mk_SendBuffer_def sb_held_def ring_slice_def sb_Size_def
      write_room_def sb_Room_def default_limits_def DISCONNECT_BUFFER_MAX_def)

theorem write_accounts_for_every_byte_witness:
  "\<exists>s'. ss_Write [1, 2, 3] (example_session OverflowReap 2) = (Inl DisconnectBufferOverflow, s') \<and> ss_State s' = Reaped"
proof -
  have "ss_Write [1, 2, 3] (example_session OverflowReap 2) =
      (Inl DisconnectBufferOverflow, Reap DisconnectBufferOverflow (example_session OverflowReap 2))"
    by (simp add: ss_Write_def DISCONNECT_BUFFER_MAX_def)
  then show ?thesis
    using write_accounts_for_every_byte [of "example_session OverflowReap 2" "[1, 2, 3]"] example_session_ok [of 2]
    by fastforce
qed

text \<open>Writing never takes the output buffer past the limit of the session's state, whatever is
  written.\<close>

theorem write_respects_limit:
  assumes "stream_state_ok s" and "unat (sb_End (ss_Output s)) + length bs < 2 ^ 64"
  shows "sb_Size (ss_Output (snd (ss_Write bs s))) \<le> max (sb_Size (ss_Output s))
     (if ss_State s = Live then lim_ResendMax (ss_Limits s) else lim_DisconnectMax (ss_Limits s))"
  using assms by (rule Write_bounded)

theorem write_respects_limit_witness:
  "sb_Size (ss_Output (snd (ss_Write [1, 2, 3] (example_session Backpressure 8)))) \<le>
     max (sb_Size (ss_Output (example_session Backpressure 8))) DISCONNECT_BUFFER_MAX"
  using write_respects_limit [of "example_session Backpressure 8" "[1, 2, 3]"] example_session_ok [of 8]
  by (simp add: default_limits_def)

text \<open>\<open>AcceptsWrites\<close> tells the agent when to read more output from the shell: outside the one
  state singled out next, it is true exactly when a non-empty write would take at least one byte or be
  answered by a definite error.\<close>

theorem accepts_writes_iff_progress:
  assumes "stream_state_ok s" and "unat (sb_End (ss_Output s)) + length bs < 2 ^ 64" and "bs \<noteq> []"
    and "\<not> (ss_State s = Detached \<and> ss_Overflow s = Backpressure \<and> sb_RingOverflowed (ss_Output s))"
    and "\<not> resync_full s"
  shows "AcceptsWrites s \<longleftrightarrow> ss_State s \<noteq> Reaped \<and> fst (ss_Write bs s) \<noteq> Inr 0"
  using assms by (rule AcceptsWrites_progress)

theorem accepts_writes_iff_progress_witness:
  "AcceptsWrites (example_session Resync 8) \<longleftrightarrow>
     ss_State (example_session Resync 8) \<noteq> Reaped \<and> fst (ss_Write [7] (example_session Resync 8)) \<noteq> Inr 0"
  by (rule accepts_writes_iff_progress) (simp_all add: example_session_ok resync_full_def DISCONNECT_BUFFER_MAX_def)

text \<open>C34 (liveness). The state singled out above is reached by ordinary use: a detached session that
  resynchronises, filled exactly to its limit by a write, accepts no more writes although a further write would
  be taken and would only set the overflow mark. Its shell stays blocked until a client returns.\<close>

theorem resync_session_stalls_when_full:
  assumes "stream_state_ok s" and "unat (sb_End (ss_Output s)) + length bs < 2 ^ 64"
    and "ss_State s = Detached" and "ss_Overflow s = Resync" and "\<not> sb_RingOverflowed (ss_Output s)"
    and "length bs = write_room s" and "ss_Write bs s = (r, s')" and "cs \<noteq> []"
  shows "r = Inr (length bs) \<and> \<not> AcceptsWrites s' \<and> fst (ss_Write cs s') = Inr (length cs)"
proof -
  have "resync_full s'" using Resync_full_stalls [OF assms(1-7)] by blast
  then have "fst (ss_Write cs s') = Inr (length cs)"
    using assms(8) by (auto simp: resync_full_def ss_Write_def)
  then show ?thesis using Resync_full_stalls [OF assms(1-7)] by blast
qed

theorem resync_session_stalls_when_full_witness:
  "\<exists>s'. ss_Write [1, 2] (example_session Resync 2) = (Inr 2, s') \<and> \<not> AcceptsWrites s' \<and> fst (ss_Write [3] s') = Inr 1"
proof -
  obtain r s' where w: "ss_Write [1, 2] (example_session Resync 2) = (r, s')" by fastforce
  from resync_session_stalls_when_full [OF example_session_ok _ _ _ _ _ w, of "[3]"] w
  show ?thesis by (auto simp: DISCONNECT_BUFFER_MAX_def)
qed

text \<open>A reaped session is over: no sequence of operations revives it or changes the reason.\<close>

theorem reaped_session_stays_reaped:
  assumes "ss_State s = Reaped"
  shows "ss_State (fold apply_op ops s) = Reaped \<and> ss_ReapReason (fold apply_op ops s) = ss_ReapReason s"
  using assms by (rule reaped_for_good)

theorem reaped_session_stays_reaped_witness:
  "ss_ReapReason (fold apply_op [OpAttach 0, OpWrite [1], OpKill OrphanTimeout]
     (Reap DisconnectBufferOverflow (example_session OverflowReap 4))) = Some DisconnectBufferOverflow"
  using reaped_session_stays_reaped [of "Reap DisconnectBufferOverflow (example_session OverflowReap 4)"
      "[OpAttach 0, OpWrite [1], OpKill OrphanTimeout]"]
  by (simp add: Reap_def)

text \<open>A newer connection supersedes an older one for good: after a successful attach the previous
  generation is not current and its late detach changes nothing.\<close>

theorem superseded_connection_cannot_detach:
  assumes "IsCurrent g s" and "Attach p s = (Inr g', s')"
  shows "\<not> IsCurrent g s' \<and> Detach g t s' = s' \<and> IsCurrent g' s'"
  using Attach_supersedes [OF assms] by blast

theorem superseded_connection_cannot_detach_witness:
  "\<exists>s1 s2. Attach 0 (example_session Resync 8) = (Inr 1, s1) \<and> Attach 0 s1 = (Inr 2, s2) \<and> Detach 1 5 s2 = s2"
proof -
  let ?s = "example_session Resync 8"
  let ?s1 = "?s\<lparr>ss_State := Live, ss_Generation := 1\<rparr>" and ?s2 = "?s\<lparr>ss_State := Live, ss_Generation := 2\<rparr>"
  have s1: "Attach 0 ?s = (Inr 1, ?s1)" and s2: "Attach 0 ?s1 = (Inr 2, ?s2)"
    by (simp_all add: Attach_def ResetSendNext_def Acknowledge_def example_session_def mk_StreamState_def mk_SendBuffer_def)
  have cur: "IsCurrent 1 ?s1" by (simp add: IsCurrent_def)
  from superseded_connection_cannot_detach [OF cur s2] s1 s2 show ?thesis by blast
qed

text \<open>The orphan timer reaps a detached session exactly when its timeout is set and has passed
  since the session was detached.\<close>

theorem orphan_timer_exact:
  assumes "ss_State s = Detached"
  shows "ss_State (ss_OnTimer now s) = Reaped \<longleftrightarrow> lim_OrphanTimeout (ss_Limits s) \<noteq> 0 \<and>
     ss_DetachedSince s + lim_OrphanTimeout (ss_Limits s) \<le> now"
  using assms by (rule orphan_timer)

theorem orphan_timer_exact_witness:
  "ss_State (ss_OnTimer DEFAULT_ORPHAN_TIMEOUT (example_session Resync 8)) = Reaped"
  using orphan_timer_exact [of "example_session Resync 8" DEFAULT_ORPHAN_TIMEOUT]
  by (simp add: default_limits_def DEFAULT_ORPHAN_TIMEOUT_def SECOND_def)

subsection \<open>The channel\<close>

text \<open>Two channels on the same connection keys to evaluate.\<close>

definition example_keys :: ConnectionKeys where
  "example_keys = \<lparr>ck_ClientToServer = replicate KEY_SIZE 1, ck_ServerToClient = replicate KEY_SIZE 2,
     ck_SaltClientToServer = replicate SALT_SIZE 3, ck_SaltServerToClient = replicate SALT_SIZE 4\<rparr>"

definition example_channel :: "ERole \<Rightarrow> SendBuffer \<Rightarrow> Channel" where
  "example_channel role b = mk_Channel (MakeDirectionFrames example_keys role MAX_FRAMES_PER_EPOCH MAX_BYTES_PER_EPOCH) b
     (mk_ReceiveCursor 0 OnReceipt) 0 \<lparr>ll_KeepaliveInterval = KEEPALIVE_INTERVAL, ll_PeerSilenceTimeout = PEER_SILENCE_TIMEOUT\<rparr>
     2 (replicate 16 0) 0"

lemma example_channel_simps:
  "cn_Role (example_channel role b) = role" "cn_SendBuf (example_channel role b) = b"
  "cn_RecvCursor (example_channel role b) = mk_ReceiveCursor 0 OnReceipt" "cn_GridReceiving (example_channel role b) = None"
  "cn_GridEmitting (example_channel role b) = None" "\<not> cn_GridAwaitingApplied (example_channel role b)"
  "\<not> cn_AwaitingSnapshotSupply (example_channel role b)" "cn_Version (example_channel role b) = 2"
  "cn_AgentStreamGen (example_channel role b) = 0" "length (cn_SnapshotBuf (example_channel role b)) = 16"
  "sl_Counter (cn_Sealer (example_channel role b)) = 0" "unat (sl_FrameLimit (cn_Sealer (example_channel role b))) = 2 ^ 24"
  "length (sl_Salt (cn_Sealer (example_channel role b))) = SALT_SIZE"
  by (simp_all add: example_channel_def mk_Channel_def MakeDirectionFrames_def mk_FrameSealer_def MAX_FRAMES_PER_EPOCH_def
      example_keys_def Let_def)

lemma example_channels_in_step:
  "in_step S (cn_Sealer (example_channel RAgent b)) (cn_Opener (example_channel RClient b'))"
  by (simp add: example_channel_def mk_Channel_def MakeDirectionFrames_def in_step_init)

text \<open>C14 (liveness). A snapshot crosses: once the agent has started one, polling the agent and handing each
  frame to the client, with no other traffic, ends within one frame per byte and two more with the client
  holding exactly the snapshot, its generation, scrollback length and flags, its receive offset reset, and
  the agent waiting for the confirmation.\<close>

theorem snapshot_crosses:
  assumes "aead_correct S" and "aead_total S"
    and "HEADER_SIZE + MAX_FRAME \<le> length out" and "MAX_FRAME \<le> length into" and "CHUNK_HDR < length scratch"
    and "StartGrid snap flags gen sbl a0 = (True, a)"
    and "flags AND NOT GRID_BEGIN_FLAG_DEFINED_MASK = 0" and "unat sbl \<le> length snap"
    and "in_step S (cn_Sealer a0) (cn_Opener p)" and "length (sl_Salt (cn_Sealer a0)) = SALT_SIZE"
    and "unat (sl_Counter (cn_Sealer a0)) + length snap + 2 \<le> unat (sl_FrameLimit (cn_Sealer a0))"
    and "cn_Role p = RClient" and "PROTOCOL_VERSION_GRID \<le> cn_Version p" and "cn_GridReceiving p = None"
    and "length snap \<le> length (cn_SnapshotBuf p)" and "cn_AgentStreamGen p < gen"
  shows "\<exists>a' p'. grid_pump (length snap + 2) S now out scratch into a p =
      Some (DeliveredGridSnapshot snap gen sbl flags, a', p') \<and>
    cn_GridEmitting a' = None \<and> cn_GridAwaitingApplied a' \<and> cn_AgentStreamGen p' = gen \<and>
    rc_RecvOffset (cn_RecvCursor p') = 0"
  using assms by (rule snapshot_transfer)

theorem snapshot_crosses_witness:
  "\<exists>a' p'. grid_pump 5 example_sodium 0 (replicate (HEADER_SIZE + MAX_FRAME) 0) (replicate 6 0) (replicate MAX_FRAME 0)
      (snd (StartGrid [7, 8, 9] 1 4 2 (example_channel RAgent example_buffer))) (example_channel RClient example_buffer) =
    Some (DeliveredGridSnapshot [7, 8, 9] 4 2 1, a', p')"
proof -
  let ?a0 = "example_channel RAgent example_buffer" and ?p = "example_channel RClient example_buffer"
  have "StartGrid [7, 8, 9] 1 4 2 ?a0 = (True, snd (StartGrid [7, 8, 9] 1 4 2 ?a0))"
    by (simp add: StartGrid_def example_channel_simps size_defs)
  from snapshot_crosses [OF example_aead _ _ _ this _ _ example_channels_in_step, of "replicate (HEADER_SIZE + MAX_FRAME) 0"
      "replicate MAX_FRAME 0" "replicate 6 0" example_buffer 0]
  have "\<exists>a' p'. grid_pump (length [7 :: byte, 8, 9] + 2) example_sodium 0 (replicate (HEADER_SIZE + MAX_FRAME) 0) (replicate 6 0)
      (replicate MAX_FRAME 0) (snd (StartGrid [7, 8, 9] 1 4 2 ?a0)) ?p = Some (DeliveredGridSnapshot [7, 8, 9] 4 2 1, a', p')"
    by (auto simp: example_channel_simps GRID_BEGIN_FLAG_DEFINED_MASK_def CHUNK_HDR_def version_defs simp del: grid_pump.simps)
  moreover have "length [7 :: byte, 8, 9] + 2 = 5" by simp
  ultimately show ?thesis by metis
qed

text \<open>C15 (functional). A frame of stream data sealed by one end, and accepted by the receive cursor of the other,
  is delivered as exactly the bytes the cursor had not yet seen, its acknowledgement reaches the peer's send
  buffer, and the two ends stay in step.\<close>

theorem data_crosses:
  assumes "aead_correct S" and "in_step S (cn_Sealer c) (cn_Opener p)" and "buffer_ok (cn_SendBuf c)"
    and "PollData S out scratch c = (Some (Inr (n, out')), c')"
    and "ReadFrame (take n out') (of_nat MAX_FRAME) = Inr frame" and "MAX_FRAME \<le> length into"
    and "cn_Role p = RClient \<longrightarrow> cn_GridReceiving p = None" and "\<not> cn_GridAwaitingApplied p"
    and "Acknowledge (AckOffset (cn_RecvCursor c)) (cn_SendBuf p) = (Inr (), b)"
    and "bs = CopyOut (sb_SendNext (cn_SendBuf c)) (unat (sb_SendNext (cn_SendBuf c')) - unat (sb_SendNext (cn_SendBuf c))) (cn_SendBuf c)"
    and "Receive (sb_SendNext (cn_SendBuf c)) bs (cn_RecvCursor p) = (Inr fresh, r)"
  shows "\<exists>p'. ch_Receive S now frame into p =
      (Inr (if fresh = [] then DeliveredNothing else DeliveredData fresh (rc_RecvOffset (cn_RecvCursor p))), p') \<and>
    cn_RecvCursor p' = r \<and> cn_SendBuf p' = b \<and> in_step S (cn_Sealer c') (cn_Opener p')"
  using assms by (rule Data_across)

theorem data_crosses_witness:
  "\<exists>n out' c' frame p'. PollData example_sodium (replicate 64 0) (replicate 64 0) (example_channel RAgent example_connected) =
      (Some (Inr (n, out')), c') \<and> ReadFrame (take n out') (of_nat MAX_FRAME) = Inr frame \<and>
    ch_Receive example_sodium 0 frame (replicate MAX_FRAME 0) (example_channel RClient example_buffer) =
      (Inr (DeliveredData [1, 2, 3] 0), p')"
proof -
  let ?c = "example_channel RAgent example_connected" and ?p = "example_channel RClient example_buffer"
  let ?pl = "type_code Data # Data_body \<lparr>da_Ack = 0, da_Offset = 0, da_Payload = [1, 2, 3]\<rparr>"
  have unsent: "sb_Unsent example_connected = 3" by code_simp
  have next3: "unat (sb_SendNext (AdvanceSendNext 3 example_connected)) = 3" by code_simp
  have "length ?pl = 20" by (simp add: Data_body_def del: type_code.simps)
  then obtain n out' sl where seal: "Seal example_sodium (replicate 64 0) ?pl (cn_Sealer ?c) = (Inr (n, out'), sl)"
    using Seal_total [OF example_aead, of "cn_Sealer ?c" ?pl "replicate 64 0"]
    by (auto simp: example_channel_simps word_less_nat_alt size_defs simp del: type_code.simps)
  have poll: "PollData example_sodium (replicate 64 0) (replicate 64 0) ?c = (Some (Inr (n, out')),
      ?c\<lparr>cn_Sealer := sl, cn_SendBuf := AdvanceSendNext 3 example_connected, cn_LastAckedOffset := 0, cn_AckPendingSince := None\<rparr>)"
    using seal unsent example_values data_plaintext [of "replicate 64 0" 0 0 "[1, 2, 3]"]
    by (simp add: PollData_def example_channel_simps emit_def SealInto_def GridInFlight_def size_defs Let_def AckOffset_def
        mk_ReceiveCursor_def numeral_3_eq_3 del: type_code.simps)
  obtain frame where frame: "ReadFrame (take n out') (of_nat MAX_FRAME) = Inr frame"
    using Seal_ReadFrame [OF example_aead(1) seal] by metis
  have ok: "buffer_ok (cn_SendBuf ?c)" by (simp add: example_channel_simps example_buffers_ok)
  let ?c' = "?c\<lparr>cn_Sealer := sl, cn_SendBuf := AdvanceSendNext 3 example_connected, cn_LastAckedOffset := 0, cn_AckPendingSince := None\<rparr>"
  have acked: "Acknowledge (AckOffset (cn_RecvCursor ?c)) (cn_SendBuf ?p) = (Inr (), example_buffer)"
    by (simp add: example_channel_simps Acknowledge_def AckOffset_def mk_ReceiveCursor_def example_buffer_def mk_SendBuffer_def)
  have bytes: "[1, 2, 3] = CopyOut (sb_SendNext (cn_SendBuf ?c)) (unat (sb_SendNext (cn_SendBuf ?c')) - unat (sb_SendNext (cn_SendBuf ?c))) (cn_SendBuf ?c)"
    using next3 example_values by (simp add: example_channel_simps)
  have recv: "Receive (sb_SendNext (cn_SendBuf ?c)) [1, 2, 3] (cn_RecvCursor ?p) = (Inr [1, 2, 3], example_received)"
    using example_receipt example_values by (simp add: example_channel_simps)
  have "\<exists>p'. ch_Receive example_sodium 0 frame (replicate MAX_FRAME 0) ?p = (Inr (DeliveredData [1, 2, 3] 0), p')"
    using data_crosses [OF example_aead(1) example_channels_in_step ok poll frame _ _ _ acked bytes recv, of "replicate MAX_FRAME 0" 0]
    by (auto simp: example_channel_simps mk_ReceiveCursor_def)
  with poll frame show ?thesis by blast
qed

text \<open>While a snapshot is being sent, is unconfirmed or is awaited, the agent sends no stream data:
  no poll moves its send buffer.\<close>

theorem no_data_while_grid_in_flight:
  assumes "cn_Role c = RAgent" and "GridInFlight c \<or> cn_AwaitingSnapshotSupply c"
  shows "cn_SendBuf (snd (Poll S now out scratch c)) = cn_SendBuf c"
  using assms by (rule Poll_no_data_in_flight)

theorem no_data_while_grid_in_flight_witness:
  "cn_SendBuf (snd (Poll example_sodium 0 (replicate 64 0) (replicate 64 0)
     (SuppressDataUntilGrid (example_channel RAgent example_connected)))) = example_connected"
  using no_data_while_grid_in_flight [of "SuppressDataUntilGrid (example_channel RAgent example_connected)"
      example_sodium 0 "replicate 64 0" "replicate 64 0"]
  by (simp add: SuppressDataUntilGrid_def example_channel_def mk_Channel_def MakeDirectionFrames_def)

text \<open>The end of the session is announced last: no poll marks the announcement sent while any byte
  of output is unacknowledged, or when none was queued.\<close>

theorem session_end_is_last:
  assumes "sb_Size (cn_SendBuf c) \<noteq> 0 \<or> cn_PendingEnd c = None"
  shows "cn_EndSent (snd (Poll S now out scratch c)) = cn_EndSent c"
  using assms by (rule Poll_end_last)

theorem session_end_is_last_witness:
  "\<not> cn_EndSent (snd (Poll example_sodium 0 (replicate 64 0) (replicate 64 0)
     (QueueSessionEnd \<lparr>se_Kind = Exited, se_Value = 0\<rparr> (example_channel RAgent example_connected))))"
proof -
  have "sb_Size example_connected \<noteq> 0" by code_simp
  then show ?thesis
    using session_end_is_last [of "QueueSessionEnd \<lparr>se_Kind = Exited, se_Value = 0\<rparr> (example_channel RAgent example_connected)"
        example_sodium 0 "replicate 64 0" "replicate 64 0"]
    by (simp add: QueueSessionEnd_def example_channel_def mk_Channel_def)
qed

text \<open>An idle poll leaves no expired timer: after a poll that had nothing to send, the channel's
  next deadline lies in the future, so a loop that sleeps until it does not spin.\<close>

theorem idle_poll_leaves_no_expired_deadline:
  assumes "ack_timer_ok c" and "\<not> cn_SendGateClosed c" and "Poll S now out scratch c = (Inr (0, out'), c')"
  shows "\<not> HasExpired (ch_NextDeadline c') now"
  using assms by (rule Poll_idle_no_deadline)

theorem idle_poll_leaves_no_expired_deadline_witness:
  "\<exists>c'. Poll example_sodium 0 (replicate 64 0) [] (example_channel RAgent example_buffer) = (Inr (0, replicate 64 0), c') \<and>
     \<not> HasExpired (ch_NextDeadline c') 0"
proof -
  let ?c = "example_channel RAgent example_buffer"
  have "Poll example_sodium 0 (replicate 64 0) [] ?c = (Inr (0, replicate 64 0), ?c)"
    by (simp add: Poll_def PollOnce_def RekeyIfNeeded_def NeedsRekey_def poll_stages_def or_else_def PollPong_def PollGridApplied_def
        PollGrid_def PollData_def PollSessionEnd_def PollResize_def PollAck_def PollKeepalive_def example_channel_def mk_Channel_def
        MakeDirectionFrames_def mk_FrameSealer_def example_buffer_def mk_SendBuffer_def sb_Unsent_def mk_ReceiveCursor_def
        AckOffset_def KEEPALIVE_INTERVAL_def PEER_SILENCE_TIMEOUT_def REKEY_INTERVAL_def SECOND_def MAX_FRAMES_PER_EPOCH_def
        MAX_BYTES_PER_EPOCH_def size_defs)
  moreover have "ack_timer_ok ?c" "\<not> cn_SendGateClosed ?c"
    by (simp_all add: ack_timer_ok_def example_channel_def mk_Channel_def)
  ultimately show ?thesis using idle_poll_leaves_no_expired_deadline by blast
qed

text \<open>\<open>GridEmissionDone\<close> answers true from the moment a snapshot is started, before any of it
  has been sent.\<close>

theorem emission_done_at_start:
  assumes "StartGrid snap flags gen sbl a0 = (True, a)"
  shows "GridEmissionDone a \<and> (\<exists>ge. cn_GridEmitting a = Some ge \<and> \<not> ge_BeginSent ge \<and> ge_BytesSent ge = 0 \<and> ge_Snapshot ge = snap)"
  using assms by (auto simp: StartGrid_def GridEmissionDone_def split: if_splits)

theorem emission_done_at_start_witness:
  "GridEmissionDone (snd (StartGrid [7, 8, 9] 1 4 2 (example_channel RAgent example_buffer)))"
  using emission_done_at_start [of "[7, 8, 9]" 1 4 2 "example_channel RAgent example_buffer"]
  by (simp add: StartGrid_def example_channel_simps size_defs)

text \<open>A data message that opens a gap is refused, but the acknowledgement it carries has already been
  applied: the refusal is not free of effects.\<close>

theorem refused_data_still_acknowledges:
  assumes "cn_Role c = RClient \<longrightarrow> cn_GridReceiving c = None" and "\<not> cn_GridAwaitingApplied c"
    and "fst (ParseData reader) = Inr msg" and "Acknowledge (da_Ack msg) (cn_SendBuf c) = (Inr (), b)"
    and "rc_RecvOffset (cn_RecvCursor c) < da_Offset msg"
  shows "cn_OnData reader c = (Inl (SessErr StreamGap), c\<lparr>cn_SendBuf := b\<rparr>)"
  using assms by (auto simp: cn_OnData_def AcceptAck_def Receive_gap)

theorem refused_data_still_acknowledges_witness:
  "\<exists>b. cn_OnData (mk_reader (Data_body \<lparr>da_Ack = 2, da_Offset = 9, da_Payload = [5]\<rparr>)) (example_channel RClient example_sent) =
      (Inl (SessErr StreamGap), (example_channel RClient example_sent)\<lparr>cn_SendBuf := b\<rparr>) \<and> sb_Size b = 1"
proof -
  have "fst (ParseData (mk_reader (Data_body \<lparr>da_Ack = 2, da_Offset = 9, da_Payload = [5]\<rparr>))) =
      Inr \<lparr>da_Ack = 2, da_Offset = 9, da_Payload = [5]\<rparr>"
    by (simp add: data.parse_iff Data_ok_def size_defs)
  moreover have "fst (Acknowledge 2 example_sent) = Inr ()" "sb_Size (snd (Acknowledge 2 example_sent)) = 1" by code_simp+
  ultimately show ?thesis
    using refused_data_still_acknowledges [of "example_channel RClient example_sent" _ _ "snd (Acknowledge 2 example_sent)"]
    by (auto simp: example_channel_simps mk_ReceiveCursor_def prod_eq_iff)
qed

end
