(* ===== verification/Core_Shell.thy ===== *)
theory Core_Shell
  imports Core_Bytes
begin

text \<open>
  \<^verbatim>\<open>src/core/shell_quote.cpp\<close>: a text as one word of a POSIX shell command line.

  A character is its byte. \<open>shell_word\<close> is what a POSIX shell reads back: inside single quotes every
  character stands for itself, outside them a backslash makes the next character stand for itself, and
  nothing else occurs in what \<open>ShellQuote\<close> writes. The lemma is the round trip, so nothing in the text
  is ever interpreted.
\<close>

definition QUOTE :: byte where "QUOTE = 0x27"
definition BACKSLASH :: byte where "BACKSLASH = 0x5C"

definition ShellQuotedSize :: "bytes \<Rightarrow> nat" where
  "ShellQuotedSize tx = foldl (\<lambda>size c. size + (if c = QUOTE then 4 else 1)) 2 tx"

definition escapedQuote :: bytes where
  "escapedQuote = [QUOTE, BACKSLASH, QUOTE, QUOTE]"

text \<open>The loop over the tx: the write position and the buffer.\<close>

fun quote_loop :: "bytes \<Rightarrow> nat \<times> bytes \<Rightarrow> nat \<times> bytes" where
  "quote_loop [] st = st"
| "quote_loop (c # cs) (at, out) =
     (if c = QUOTE then quote_loop cs (at + length escapedQuote, blit out at escapedQuote)
      else quote_loop cs (at + 1, out[at := c]))"

definition ShellQuote :: "bytes \<Rightarrow> bytes \<Rightarrow> (nat \<times> bytes) proto_result" where
  "ShellQuote tx out =
     (if List.member tx 0 then Inl MalformedField
      else if length out < ShellQuotedSize tx then Inl BufferTooSmall
      else let (at, out1) = quote_loop tx (1, out[0 := QUOTE]) in Inr (at + 1, out1[at := QUOTE]))"

subsection \<open>What a shell reads\<close>

fun shell_word :: "bool \<Rightarrow> bytes \<Rightarrow> bytes option" where
  "shell_word True [] = None"
| "shell_word True (c # cs) = (if c = QUOTE then shell_word False cs else map_option ((#) c) (shell_word True cs))"
| "shell_word False [] = Some []"
| "shell_word False (c # cs) =
     (if c = QUOTE then shell_word True cs
      else if c = BACKSLASH then (case cs of [] \<Rightarrow> None | d # ds \<Rightarrow> map_option ((#) d) (shell_word False ds))
      else None)"

definition quoted :: "bytes \<Rightarrow> bytes" where
  "quoted tx = concat (map (\<lambda>c. if c = QUOTE then escapedQuote else [c]) tx)"

lemma ShellQuotedSize_eq: "ShellQuotedSize tx = length (quoted tx) + 2"
proof -
  have "foldl (\<lambda>n c. n + (if c = QUOTE then 4 else 1)) k tx = length (quoted tx) + k" for k
    by (induction tx arbitrary: k) (simp_all add: quoted_def escapedQuote_def)
  then show ?thesis by (simp add: ShellQuotedSize_def)
qed

lemma quote_loop_spec:
  "length (quoted tx) \<le> length room \<Longrightarrow>
   quote_loop tx (length done, done @ room) = (length (done @ quoted tx), done @ quoted tx @ drop (length (quoted tx)) room)"
proof (induction tx arbitrary: "done" room)
  case Nil
  then show ?case by (simp add: quoted_def)
next
  case (Cons c cs)
  let ?q = "if c = QUOTE then escapedQuote else [c]"
  have q: "quoted (c # cs) = ?q @ quoted cs" by (simp add: quoted_def)
  have len: "length ?q + length (quoted cs) \<le> length room" using Cons.prems by (simp add: q)
  have "quote_loop (c # cs) (length done, done @ room) = quote_loop cs (length (done @ ?q), (done @ ?q) @ drop (length ?q) room)"
  proof (cases "c = QUOTE")
    case True
    then show ?thesis using len blit_append_at [of escapedQuote room "done"] by simp
  next
    case False
    then obtain x xs where "room = x # xs" using len by (cases room) auto
    then show ?thesis using False by simp
  qed
  then show ?case using Cons.IH [of "drop (length ?q) room" "done @ ?q"] len by (simp add: q add.commute)
qed

lemma ShellQuote_spec:
  assumes "0 \<notin> set tx" and "ShellQuotedSize tx \<le> length out"
  shows "\<exists>out'. ShellQuote tx out = Inr (ShellQuotedSize tx, out') \<and>
    take (ShellQuotedSize tx) out' = QUOTE # quoted tx @ [QUOTE]"
proof -
  obtain x room where out: "out = x # room" using assms(2) by (cases out) (auto simp: ShellQuotedSize_eq)
  then have len: "length (quoted tx) + 1 \<le> length room" using assms(2) by (simp add: ShellQuotedSize_eq)
  have loop: "quote_loop tx (1, out[0 := QUOTE]) =
      (Suc (length (quoted tx)), QUOTE # quoted tx @ drop (length (quoted tx)) room)"
    using quote_loop_spec [of tx room "[QUOTE]"] len out by simp
  obtain y rest where "drop (length (quoted tx)) room = y # rest" using len by (cases "drop (length (quoted tx)) room") auto
  then show ?thesis
    using assms loop by (simp add: ShellQuote_def ShellQuotedSize_eq)
qed

lemma shell_word_quoted: "shell_word True (quoted tx @ [QUOTE]) = Some tx"
proof (induction tx)
  case Nil
  then show ?case by (simp add: quoted_def)
next
  case (Cons c cs)
  then show ?case by (simp add: quoted_def escapedQuote_def QUOTE_def BACKSLASH_def)
qed

end
