(* ===== verification/Wire_Armor.thy ===== *)
theory Wire_Armor
  imports Wire_Message
begin

unbundle bit_operations_syntax

text \<open>
  \<^verbatim>\<open>src/wire/armor.cpp\<close>: the bootstrap frames as text that survives a login shell's output, base64
  between two marker lines.

  A character is its byte. A buffer filled from its front is the bytes written; the line and text
  arrays of the scanner, with their lengths, are the prefixes they delimit. Lemmas: decoding inverts
  encoding and accepts nothing else, so a frame has one spelling; the scanner finds an armoured frame
  in whatever noise surrounds it; how the input is cut into chunks does not matter, which is a lemma
  of the locale \<open>line_scanner\<close> and holds for the probe's scanner too.
\<close>

subsection \<open>Base64\<close>

definition ALPHABET :: bytes where
  "ALPHABET = ascii ''ABCDEFGHIJKLMNOPQRSTUVWXYZabcdefghijklmnopqrstuvwxyz0123456789+/''"

definition PADDING :: byte where "PADDING = 0x3D"
definition NEWLINE :: byte where "NEWLINE = 0x0A"
definition RETURN :: byte where "RETURN = 0x0D"
definition SEXTET_BITS :: nat where [size_defs]: "SEXTET_BITS = 6"
definition BYTE_BITS :: nat where [size_defs]: "BYTE_BITS = 8"
definition SEXTET_MASK :: u32 where "SEXTET_MASK = 0x3F"
definition BYTE_MASK :: u32 where "BYTE_MASK = 0xFF"
definition QUAD :: nat where [size_defs]: "QUAD = 4"
definition TRIPLE :: nat where [size_defs]: "TRIPLE = 3"

text \<open>\<open>std::string_view::find\<close>: the position of the first occurrence.\<close>

fun find_char :: "byte \<Rightarrow> bytes \<Rightarrow> nat option" where
  "find_char c [] = None"
| "find_char c (x # xs) = (if x = c then Some 0 else map_option Suc (find_char c xs))"

definition SextetOf :: "byte \<Rightarrow> u32 option" where
  "SextetOf c = (case find_char c ALPHABET of None \<Rightarrow> None | Some at \<Rightarrow> Some (of_nat at))"

definition IsArmorText :: "byte \<Rightarrow> bool" where
  "IsArmorText c \<longleftrightarrow> c = PADDING \<or> find_char c ALPHABET \<noteq> None"

text \<open>The two inner loops of the encoder: three bytes into a group, four characters out of it.\<close>

definition encode_group :: "bytes \<Rightarrow> u32" where
  "encode_group bs =
     foldl (\<lambda>group k. let group = push_bit BYTE_BITS group in
              if k < length bs then group OR ucast (bs ! k) else group) 0 [0..<TRIPLE]"

definition encode_quad :: "bytes \<Rightarrow> bytes" where
  "encode_quad bs =
     map (\<lambda>k. let shift = (QUAD - 1 - k) * SEXTET_BITS in
            if k \<le> length bs then ALPHABET ! unat (drop_bit shift (encode_group bs) AND SEXTET_MASK) else PADDING)
       [0..<QUAD]"

function encode_loop :: "bytes \<Rightarrow> bytes" where
  "encode_loop bs = (if bs = [] then [] else encode_quad (take TRIPLE bs) @ encode_loop (drop TRIPLE bs))"
  by pat_completeness auto
termination by (relation "measure length") (auto simp: size_defs)

definition Base64Encode :: "bytes \<Rightarrow> bytes \<Rightarrow> (nat \<times> bytes) proto_result" where
  "Base64Encode bs out =
     (let needed = (length bs + 2) div TRIPLE * QUAD in
      if length out < needed then Inl BufferTooSmall
      else let text = encode_loop bs in Inr (length text, blit out 0 text))"

text \<open>The decoder's loop over the characters of one group, and the bytes it carries.\<close>

fun decode_group :: "nat \<Rightarrow> nat \<Rightarrow> u32 \<Rightarrow> bytes \<Rightarrow> u32 proto_result" where
  "decode_group k carried g [] = Inr g"
| "decode_group k carried g (c # cs) =
     (let g = push_bit SEXTET_BITS g in
      if k \<ge> carried then decode_group (k + 1) carried g cs
      else case SextetOf c of None \<Rightarrow> Inl MalformedField | Some sextet \<Rightarrow> decode_group (k + 1) carried (g OR sextet) cs)"

definition decode_quad :: "nat \<Rightarrow> bytes \<Rightarrow> bytes proto_result" where
  "decode_quad carried quad =
     bindR (decode_group 0 carried 0 quad) (\<lambda>group.
       let n = carried - 1; unused = (TRIPLE - n) * BYTE_BITS in
       if n < TRIPLE \<and> group AND (push_bit unused 1 - 1) \<noteq> 0 then Inl MalformedField
       else Inr (map (\<lambda>k. ucast (drop_bit ((TRIPLE - 1 - k) * BYTE_BITS) group AND BYTE_MASK)) [0..<n]))"

function decode_loop :: "nat \<Rightarrow> bytes \<Rightarrow> bytes proto_result" where
  "decode_loop padding text =
     (if text = [] then Inr []
      else let last = (length text = QUAD); carried = (if last then QUAD - padding else QUAD) in
        bindR (decode_quad carried (take QUAD text)) (\<lambda>bs.
        bindR (decode_loop padding (drop QUAD text)) (\<lambda>rest. Inr (bs @ rest))))"
  by pat_completeness auto
termination by (relation "measure (\<lambda>(p, t). length t)") (auto simp: size_defs)

definition padding_of :: "bytes \<Rightarrow> nat" where
  "padding_of text =
     (if text \<noteq> [] \<and> last text = PADDING
      then (if length text \<ge> 2 \<and> text ! (length text - 2) = PADDING then 2 else 1)
      else 0)"

definition Base64Decode :: "bytes \<Rightarrow> bytes \<Rightarrow> (nat \<times> bytes) proto_result" where
  "Base64Decode text out =
     (if length text mod QUAD \<noteq> 0 then Inl MalformedField
      else let padding = padding_of text; decoded = length text div QUAD * TRIPLE - padding in
      if length out < decoded then Inl BufferTooSmall
      else bindR (decode_loop padding text) (\<lambda>bs. Inr (length bs, blit out 0 bs)))"

declare encode_loop.simps [simp del] decode_loop.simps [simp del]

text \<open>The alphabet: 64 different characters, none of them the padding.\<close>

lemma ALPHABET_codes: "ALPHABET = map of_nat ([65..<91] @ [97..<123] @ [48..<58] @ [43, 47])"
  by code_simp

lemma length_ALPHABET: "length ALPHABET = 64"
  by (simp add: ALPHABET_codes)

lemma distinct_ALPHABET: "distinct ALPHABET" and PADDING_ALPHABET: "PADDING \<notin> set ALPHABET"
proof -
  have inj: "inj_on (of_nat :: nat \<Rightarrow> byte) {..<256}"
    by (rule inj_on_inverseI [of _ unat]) (simp add: unat_of_nat_small)
  have "set ([65..<91] @ [97..<123] @ [48..<58] @ [43, 47]) \<subseteq> {..<256 :: nat}" by auto
  then have "inj_on (of_nat :: nat \<Rightarrow> byte) (set ([65..<91] @ [97..<123] @ [48..<58] @ [43, 47]))"
    by (rule inj_on_subset [OF inj])
  moreover have "distinct ([65..<91] @ [97..<123] @ [48..<58] @ [43, 47 :: nat])" by simp
  ultimately show "distinct ALPHABET" unfolding ALPHABET_codes distinct_map by blast
  show "PADDING \<notin> set ALPHABET" by (simp add: ALPHABET_codes PADDING_def)
qed

lemma find_char_nth: "distinct xs \<Longrightarrow> i < length xs \<Longrightarrow> find_char (xs ! i) xs = Some i"
proof (induction xs arbitrary: i)
  case (Cons x xs)
  then show ?case by (cases i) auto
qed simp

lemma SextetOf_ALPHABET: "i < 64 \<Longrightarrow> SextetOf (ALPHABET ! i) = Some (of_nat i)" "i < 64 \<Longrightarrow> ALPHABET ! i \<noteq> PADDING"
proof -
  assume i: "i < 64"
  show "SextetOf (ALPHABET ! i) = Some (of_nat i)"
    using find_char_nth [OF distinct_ALPHABET, of i] i by (simp add: SextetOf_def length_ALPHABET)
  show "ALPHABET ! i \<noteq> PADDING" using PADDING_ALPHABET i by (metis length_ALPHABET nth_mem)
qed

lemma find_char_Some: "find_char c xs = Some i \<Longrightarrow> i < length xs \<and> xs ! i = c"
  by (induction xs arbitrary: i) (auto split: if_splits)

lemma SextetOf_Some: "SextetOf c = Some v \<Longrightarrow> v < 64 \<and> c = ALPHABET ! unat v"
  using find_char_Some [of c ALPHABET]
  by (auto simp: SextetOf_def length_ALPHABET word_less_nat_alt unat_of_nat_small split: option.splits)

text \<open>One group: six bits at a time and eight bits at a time are the same 24 bits.\<close>

lemma sextet_lt: "unat (w AND SEXTET_MASK) < 64"
proof -
  have "w AND SEXTET_MASK = take_bit 6 w" by (simp add: SEXTET_MASK_def take_bit_eq_mask mask_eq_exp_minus_1)
  then show ?thesis using take_bit_nat_less_exp [of 6 "unat w"] by (simp add: unsigned_take_bit_eq)
qed

lemma SextetOf_masked: "SextetOf (ALPHABET ! unat (w AND SEXTET_MASK)) = Some (w AND SEXTET_MASK)"
  using SextetOf_ALPHABET(1) [OF sextet_lt, of w] by simp

definition join4 :: "u32 \<Rightarrow> u32 \<Rightarrow> u32 \<Rightarrow> u32 \<Rightarrow> u32" where
  "join4 a b c d = push_bit 6 (push_bit 6 (push_bit 6 a OR b) OR c) OR d"

lemma upt_unrolled:
  "[0..<32] = [0, 1, 2, 3, 4, 5, 6, 7, 8, 9, 10, 11, 12, 13, 14, 15,
     16, 17, 18, 19, 20, 21, 22, 23, 24, 25, 26, 27, 28, 29, 30, 31]"
  "[0..<8] = [0, 1, 2, 3, 4, 5, 6, 7]"
  by code_simp+

lemma word32_eqI: "list_all (\<lambda>n. bit a n = bit b n)
    [0, 1, 2, 3, 4, 5, 6, 7, 8, 9, 10, 11, 12, 13, 14, 15,
     16, 17, 18, 19, 20, 21, 22, 23, 24, 25, 26, 27, 28, 29, 30, 31] \<Longrightarrow> a = (b :: u32)"
  unfolding upt_unrolled [symmetric] by (rule bit_word_eqI) (simp add: list_all_iff)

lemma word8_eqI: "list_all (\<lambda>n. bit a n = bit b n) [0, 1, 2, 3, 4, 5, 6, 7] \<Longrightarrow> a = (b :: byte)"
  unfolding upt_unrolled [symmetric] by (rule bit_word_eqI) (simp add: list_all_iff)

lemma bit_mask_simps: "bit SEXTET_MASK n \<longleftrightarrow> n < 6" "bit BYTE_MASK n \<longleftrightarrow> n < 8"
proof -
  have *: "SEXTET_MASK = mask 6" "BYTE_MASK = mask 8" by (simp_all add: SEXTET_MASK_def BYTE_MASK_def mask_eq_exp_minus_1)
  show "bit SEXTET_MASK n \<longleftrightarrow> n < 6" "bit BYTE_MASK n \<longleftrightarrow> n < 8" unfolding * bit_mask_iff by auto
qed

lemma join_sextets:
  assumes "\<And>n. 24 \<le> n \<Longrightarrow> \<not> bit g n"
  shows "join4 (drop_bit 18 g AND SEXTET_MASK) (drop_bit 12 g AND SEXTET_MASK) (drop_bit 6 g AND SEXTET_MASK) (g AND SEXTET_MASK) = g"
  by (rule word32_eqI) (simp add: assms join4_def bit_simps bit_mask_simps)

lemma encode_group_bits: "length bs \<le> 3 \<Longrightarrow> 24 \<le> n \<Longrightarrow> \<not> bit (encode_group bs) n"
  by (auto simp: encode_group_def size_defs upt_rec bit_simps Let_def dest: bit_imp_le_length)

lemma encode_quad_three:
  "encode_quad [a, b, c] = (let g = encode_group [a, b, c] in
     map (\<lambda>w. ALPHABET ! unat (w AND SEXTET_MASK)) [drop_bit 18 g, drop_bit 12 g, drop_bit 6 g, g])"
  "encode_quad [a, b] = (let g = encode_group [a, b] in
     map (\<lambda>w. ALPHABET ! unat (w AND SEXTET_MASK)) [drop_bit 18 g, drop_bit 12 g, drop_bit 6 g] @ [PADDING])"
  "encode_quad [a] = (let g = encode_group [a] in
     map (\<lambda>w. ALPHABET ! unat (w AND SEXTET_MASK)) [drop_bit 18 g, drop_bit 12 g] @ [PADDING, PADDING])"
  by (simp_all add: encode_quad_def size_defs upt_rec Let_def)


lemma decode_group_sextets:
  assumes "SextetOf a = Some u" "SextetOf b = Some v"
  shows "decode_group 0 2 0 [a, b, c, d] = Inr (join4 u v 0 0)"
    and "SextetOf c = Some w \<Longrightarrow> decode_group 0 3 0 [a, b, c, d] = Inr (join4 u v w 0)"
    and "SextetOf c = Some w \<Longrightarrow> SextetOf d = Some x \<Longrightarrow> decode_group 0 4 0 [a, b, c, d] = Inr (join4 u v w x)"
  using assms by (simp_all add: join4_def size_defs)

lemma group_of_short:
  "encode_group [a, b] AND SEXTET_MASK = 0" "encode_group [a] AND SEXTET_MASK = 0" "drop_bit 6 (encode_group [a]) AND SEXTET_MASK = 0"
  by (rule word32_eqI, simp add: encode_group_def upt_rec size_defs bit_simps bit_mask_simps Let_def)+

lemma low_bits: "push_bit 8 1 - 1 = BYTE_MASK" "bit (push_bit 16 1 - 1 :: u32) n \<longleftrightarrow> n < 16"
proof -
  show "push_bit 8 1 - 1 = BYTE_MASK" by (simp add: BYTE_MASK_def push_bit_eq_mult)
  have *: "push_bit 16 1 - 1 = (mask 16 :: u32)" by (simp add: push_bit_eq_mult mask_eq_exp_minus_1)
  show "bit (push_bit 16 1 - 1 :: u32) n \<longleftrightarrow> n < 16" unfolding * bit_mask_iff by auto
qed

lemma bit_byte_high [simp]: "8 \<le> n \<Longrightarrow> \<not> bit (b :: byte) n"
  using bit_imp_le_length [of b n] by auto

lemmas group_bit_simps = encode_group_def size_defs upt_rec bit_simps bit_mask_simps low_bits Let_def

lemma group_bytes:
  "ucast (drop_bit 16 (encode_group (a # t)) AND BYTE_MASK) = a"
  "ucast (drop_bit 8 (encode_group (a # b # t)) AND BYTE_MASK) = b"
  "ucast (encode_group [a, b, c] AND BYTE_MASK) = c"
  by (rule word8_eqI, simp add: group_bit_simps)+

lemma group_unused: "encode_group [a, b] AND (push_bit 8 1 - 1) = 0" "encode_group [a] AND (push_bit 16 1 - 1) = 0"
  by (rule word32_eqI, simp add: group_bit_simps)+

lemma bit_sextet_high: "v < 64 \<Longrightarrow> 6 \<le> n \<Longrightarrow> \<not> bit (v :: u32) n"
proof -
  assume "v < 64" "6 \<le> n"
  then have "unat v < 2 ^ 6" by (simp add: word_less_nat_alt)
  then have "take_bit 6 (unat v) = unat v" by (rule take_bit_nat_eq_self)
  then have "take_bit 6 v = v" by (metis unsigned_take_bit_eq word_unat_eq_iff)
  then show ?thesis using \<open>6 \<le> n\<close> by (metis bit_take_bit_iff not_le)
qed

lemma join4_sextets:
  assumes "a < 64" "b < 64" "c < 64" "d < 64"
  shows "drop_bit 18 (join4 a b c d) AND SEXTET_MASK = a" "drop_bit 12 (join4 a b c d) AND SEXTET_MASK = b"
    "drop_bit 6 (join4 a b c d) AND SEXTET_MASK = c" "join4 a b c d AND SEXTET_MASK = d"
  by (rule word32_eqI, simp add: assms join4_def bit_simps bit_mask_simps bit_sextet_high)+

lemma join4_high: "a < 64 \<Longrightarrow> b < 64 \<Longrightarrow> c < 64 \<Longrightarrow> d < 64 \<Longrightarrow> 24 \<le> n \<Longrightarrow> \<not> bit (join4 a b c d) n"
  by (simp add: join4_def bit_simps bit_sextet_high)

text \<open>Eight bits at a time, what was cut off being zero.\<close>

lemma regroup:
  assumes "\<And>n. 24 \<le> n \<Longrightarrow> \<not> bit g n"
  shows "encode_group [ucast (drop_bit 16 g AND BYTE_MASK), ucast (drop_bit 8 g AND BYTE_MASK), ucast (g AND BYTE_MASK)] = g"
    and "g AND (push_bit 8 1 - 1) = 0 \<Longrightarrow> encode_group [ucast (drop_bit 16 g AND BYTE_MASK), ucast (drop_bit 8 g AND BYTE_MASK)] = g"
    and "g AND (push_bit 16 1 - 1) = 0 \<Longrightarrow> encode_group [ucast (drop_bit 16 g AND BYTE_MASK)] = g"
proof -
  have low: "\<not> bit g n" if "g AND m = 0" "bit m n" for m n
    using that by (metis bit_and_iff bit_0_eq bot_apply bot_bool_def)
  show "encode_group [ucast (drop_bit 16 g AND BYTE_MASK), ucast (drop_bit 8 g AND BYTE_MASK), ucast (g AND BYTE_MASK)] = g"
    by (rule word32_eqI) (simp add: assms group_bit_simps)
  show "encode_group [ucast (drop_bit 16 g AND BYTE_MASK), ucast (drop_bit 8 g AND BYTE_MASK)] = g"
    if "g AND (push_bit 8 1 - 1) = 0"
    by (rule word32_eqI) (simp add: assms group_bit_simps low [OF that])
  show "encode_group [ucast (drop_bit 16 g AND BYTE_MASK)] = g" if "g AND (push_bit 16 1 - 1) = 0"
    by (rule word32_eqI) (simp add: assms group_bit_simps low [OF that])
qed

lemma decode_encode_quad:
  "decode_quad 4 (encode_quad [a, b, c]) = Inr [a, b, c]"
  "decode_quad 3 (encode_quad [a, b]) = Inr [a, b]"
  "decode_quad 2 (encode_quad [a]) = Inr [a]"
proof -
  have high: "24 \<le> n \<Longrightarrow> \<not> bit (encode_group bs) n" if "length bs \<le> 3" for bs n using encode_group_bits [OF that] .
  have g3: "decode_group 0 4 0 (encode_quad [a, b, c]) = Inr (encode_group [a, b, c])"
    using join_sextets [OF high, of "[a, b, c]"] by (simp add: encode_quad_three Let_def decode_group_sextets(3) SextetOf_masked del: decode_group.simps)
  have g2: "decode_group 0 3 0 (encode_quad [a, b]) = Inr (encode_group [a, b])"
    using join_sextets [OF high, of "[a, b]"]
    by (simp add: encode_quad_three Let_def decode_group_sextets(2) SextetOf_masked group_of_short del: decode_group.simps)
  have g1: "decode_group 0 2 0 (encode_quad [a]) = Inr (encode_group [a])"
    using join_sextets [OF high, of "[a]"]
    by (simp add: encode_quad_three Let_def decode_group_sextets(1) SextetOf_masked group_of_short del: decode_group.simps)
  show "decode_quad 4 (encode_quad [a, b, c]) = Inr [a, b, c]"
    by (simp add: decode_quad_def g3 Let_def size_defs upt_rec group_bytes)
  show "decode_quad 3 (encode_quad [a, b]) = Inr [a, b]"
    using group_unused(1) [of a b] by (simp add: decode_quad_def g2 Let_def size_defs upt_rec group_bytes)
  show "decode_quad 2 (encode_quad [a]) = Inr [a]"
    using group_unused(2) [of a] by (simp add: decode_quad_def g1 Let_def size_defs upt_rec group_bytes)
qed

lemma decode_group_Inr:
  "decode_group 0 4 0 [p, q, r, t] = Inr g \<Longrightarrow>
     \<exists>u v w x. SextetOf p = Some u \<and> SextetOf q = Some v \<and> SextetOf r = Some w \<and> SextetOf t = Some x \<and> g = join4 u v w x"
  "decode_group 0 3 0 [p, q, r, t] = Inr g \<Longrightarrow>
     \<exists>u v w. SextetOf p = Some u \<and> SextetOf q = Some v \<and> SextetOf r = Some w \<and> g = join4 u v w 0"
  "decode_group 0 2 0 [p, q, r, t] = Inr g \<Longrightarrow> \<exists>u v. SextetOf p = Some u \<and> SextetOf q = Some v \<and> g = join4 u v 0 0"
  by (auto simp: join4_def size_defs Let_def split: option.splits)

lemma encode_decode_quad:
  "decode_quad 4 [p, q, r, t] = Inr bs \<Longrightarrow> length bs = 3 \<and> encode_quad bs = [p, q, r, t]"
  "decode_quad 3 [p, q, r, t] = Inr bs \<Longrightarrow> length bs = 2 \<and> encode_quad bs = [p, q, r, PADDING]"
  "decode_quad 2 [p, q, r, t] = Inr bs \<Longrightarrow> length bs = 1 \<and> encode_quad bs = [p, q, PADDING, PADDING]"
proof -
  show "length bs = 3 \<and> encode_quad bs = [p, q, r, t]" if a: "decode_quad 4 [p, q, r, t] = Inr bs"
  proof -
    obtain g where g: "decode_group 0 4 0 [p, q, r, t] = Inr g"
        and bs: "bs = [ucast (drop_bit 16 g AND BYTE_MASK), ucast (drop_bit 8 g AND BYTE_MASK), ucast (g AND BYTE_MASK)]"
      using a by (auto simp: decode_quad_def bindR_eq_Inr Let_def size_defs upt_rec simp del: decode_group.simps)
    from decode_group_Inr(1) [OF g] obtain u v w x where u: "SextetOf p = Some u" "SextetOf q = Some v" "SextetOf r = Some w"
        "SextetOf t = Some x" "g = join4 u v w x" by blast
    then have lt: "u < 64" "v < 64" "w < 64" "x < 64" and cs: "p = ALPHABET ! unat u" "q = ALPHABET ! unat v"
        "r = ALPHABET ! unat w" "t = ALPHABET ! unat x"
      using SextetOf_Some by blast+
    have "encode_group bs = g" unfolding bs by (rule regroup(1)) (simp add: u(5) join4_high lt)
    then show ?thesis using bs cs lt u(5) by (simp add: encode_quad_three Let_def join4_sextets)
  qed
  show "length bs = 2 \<and> encode_quad bs = [p, q, r, PADDING]" if a: "decode_quad 3 [p, q, r, t] = Inr bs"
  proof -
    obtain g where g: "decode_group 0 3 0 [p, q, r, t] = Inr g" and z: "g AND (push_bit 8 1 - 1) = 0"
        and bs: "bs = [ucast (drop_bit 16 g AND BYTE_MASK), ucast (drop_bit 8 g AND BYTE_MASK)]"
      using a by (auto simp: decode_quad_def bindR_eq_Inr Let_def size_defs upt_rec simp del: decode_group.simps split: if_splits)
    from decode_group_Inr(2) [OF g] obtain u v w where u: "SextetOf p = Some u" "SextetOf q = Some v" "SextetOf r = Some w"
        "g = join4 u v w 0" by blast
    then have lt: "u < 64" "v < 64" "w < 64" and cs: "p = ALPHABET ! unat u" "q = ALPHABET ! unat v" "r = ALPHABET ! unat w"
      using SextetOf_Some by blast+
    have "encode_group bs = g" unfolding bs by (rule regroup(2) [OF _ z]) (simp add: u(4) join4_high lt)
    then show ?thesis using bs cs lt u(4) by (simp add: encode_quad_three Let_def join4_sextets)
  qed
  show "length bs = 1 \<and> encode_quad bs = [p, q, PADDING, PADDING]" if a: "decode_quad 2 [p, q, r, t] = Inr bs"
  proof -
    obtain g where g: "decode_group 0 2 0 [p, q, r, t] = Inr g" and z: "g AND (push_bit 16 1 - 1) = 0"
        and bs: "bs = [ucast (drop_bit 16 g AND BYTE_MASK)]"
      using a by (auto simp: decode_quad_def bindR_eq_Inr Let_def size_defs upt_rec simp del: decode_group.simps split: if_splits)
    from decode_group_Inr(3) [OF g] obtain u v where u: "SextetOf p = Some u" "SextetOf q = Some v" "g = join4 u v 0 0" by blast
    then have lt: "u < 64" "v < 64" and cs: "p = ALPHABET ! unat u" "q = ALPHABET ! unat v" using SextetOf_Some by blast+
    have "encode_group bs = g" unfolding bs by (rule regroup(3) [OF _ z]) (simp add: u(3) join4_high lt)
    then show ?thesis using bs cs lt u(3) by (simp add: encode_quad_three Let_def join4_sextets)
  qed
qed

text \<open>The whole text.\<close>

lemma length_encode_quad [simp]: "length (encode_quad bs) = 4"
  by (simp add: encode_quad_def size_defs)

lemma encode_quad_nonempty [simp]: "encode_quad bs \<noteq> []"
  using length_encode_quad [of bs] by fastforce

lemma length_encode_loop: "length (encode_loop bs) = (length bs + 2) div 3 * 4"
proof (induction bs rule: encode_loop.induct)
  case (1 bs)
  show ?case
  proof (cases "bs = []")
    case False
    then have "0 < length bs" by simp
    then have "(length bs - 3 + 2) div 3 + 1 = (length bs + 2) div 3" by presburger
    then show ?thesis using 1 False by (simp add: encode_loop.simps [of bs] size_defs)
  qed (simp add: encode_loop.simps)
qed

lemma encode_quad_padding:
  "padding_of (encode_quad [a, b, c]) = 0" "padding_of (encode_quad [a, b]) = 1" "padding_of (encode_quad [a]) = 2"
  using SextetOf_ALPHABET(2) [OF sextet_lt] by (simp_all add: padding_of_def encode_quad_three Let_def)

lemma padding_of_append: "2 \<le> length t \<Longrightarrow> padding_of (q @ t) = padding_of t"
  by (cases "t = []") (auto simp: padding_of_def nth_append)

lemma triple_cases:
  assumes "bs \<noteq> []"
  obtains a where "bs = [a]" | a b where "bs = [a, b]" | a b c where "bs = [a, b, c]" | a b c d t where "bs = a # b # c # d # t"
  using assms by (metis neq_Nil_conv)

lemma decode_encode_loop: "decode_loop (padding_of (encode_loop bs)) (encode_loop bs) = Inr bs"
proof (induction bs rule: encode_loop.induct)
  case (1 bs)
  show ?case
  proof (cases "bs = []")
    case True
    then show ?thesis by (simp add: encode_loop.simps decode_loop.simps)
  next
    case False
    then show ?thesis
    proof (cases rule: triple_cases)
      case (4 a b c d t)
      let ?rest = "encode_loop (d # t)"
      have eq: "encode_loop bs = encode_quad [a, b, c] @ ?rest" unfolding 4 by (subst encode_loop.simps) (simp add: size_defs)
      have len: "4 \<le> length ?rest" by (simp add: length_encode_loop)
      have "decode_loop (padding_of ?rest) ?rest = Inr (d # t)" using "1.IH" 4 by (simp add: size_defs)
      moreover have "padding_of (encode_loop bs) = padding_of ?rest" using len by (simp add: eq padding_of_append)
      ultimately show ?thesis
        unfolding eq using len 4 by (subst decode_loop.simps) (auto simp: size_defs decode_encode_quad)
    qed (simp_all add: encode_loop.simps decode_loop.simps size_defs encode_quad_padding decode_encode_quad)
  qed
qed

text \<open>The size the decoder computes beforehand.\<close>

lemma padding_encode_loop: "padding_of (encode_loop bs) = (3 - length bs mod 3) mod 3"
proof (induction bs rule: encode_loop.induct)
  case (1 bs)
  show ?case
  proof (cases "bs = []")
    case True
    then show ?thesis by (simp add: encode_loop.simps padding_of_def)
  next
    case False
    then show ?thesis
    proof (cases rule: triple_cases)
      case (4 a b c d t)
      have "encode_loop bs = encode_quad [a, b, c] @ encode_loop (d # t)"
        unfolding 4 by (subst encode_loop.simps) (simp add: size_defs)
      then have "padding_of (encode_loop bs) = padding_of (encode_loop (d # t))"
        by (simp add: padding_of_append length_encode_loop)
      moreover have "length bs mod 3 = length (d # t) mod 3" using mod_add_self2 [of "length (d # t)" 3] by (simp add: 4)
      ultimately show ?thesis using "1.IH" 4 by (simp add: size_defs)
    qed (simp_all add: encode_loop.simps size_defs encode_quad_padding)
  qed
qed

lemma decoded_size: "length (encode_loop bs) div 4 * 3 - padding_of (encode_loop bs) = length bs"
proof -
  have "(n + 2) div 3 * 3 - (3 - n mod 3) mod 3 = n" for n :: nat
  proof -
    obtain k r where n: "n = 3 * k + r" and "r < 3" by (metis mult_div_mod_eq mod_less_divisor zero_less_numeral)
    from \<open>r < 3\<close> have "r = 0 \<or> r = 1 \<or> r = 2" by linarith
    then have "(n + 2) div 3 * 3 - (3 - r) mod 3 = n" by (elim disjE) (simp_all add: n)
    moreover have "n mod 3 = r" using n \<open>r < 3\<close> by simp
    ultimately show ?thesis by simp
  qed
  then show ?thesis by (simp add: length_encode_loop padding_encode_loop)
qed

lemma quad_cases:
  assumes "tx \<noteq> []" and "length tx mod 4 = 0"
  obtains p q r t rest where "tx = p # q # r # t # rest" and "length rest mod 4 = 0" and "rest = [] \<or> 4 \<le> length rest"
proof -
  have four: "n \<noteq> 0 \<Longrightarrow> n mod 4 = 0 \<Longrightarrow> 4 \<le> n" for n :: nat by presburger
  have "4 \<le> length tx" using four assms by simp
  then obtain p t1 where "tx = p # t1" "3 \<le> length t1" by (cases tx) auto
  moreover then obtain q t2 where "t1 = q # t2" "2 \<le> length t2" by (cases t1) auto
  moreover then obtain r t3 where "t2 = r # t3" "1 \<le> length t3" by (cases t2) auto
  moreover then obtain t rest where "t3 = t # rest" by (cases t3) auto
  ultimately have t: "tx = p # q # r # t # rest" by simp
  then have m: "length rest mod 4 = 0" using assms(2) by simp
  then have "rest = [] \<or> 4 \<le> length rest" using four [of "length rest"] by (cases rest) auto
  with t m show thesis by (rule that)
qed

lemma encode_decode_loop:
  "decode_loop (padding_of tx) tx = Inr bs \<Longrightarrow> length tx mod 4 = 0 \<Longrightarrow> tx = encode_loop bs"
proof (induction "length tx" arbitrary: tx bs rule: less_induct)
  case less
  show ?case
  proof (cases "tx = []")
    case True
    then show ?thesis using less.prems by (simp add: decode_loop.simps encode_loop.simps)
  next
    case False
    from this less.prems(2) obtain p q r t rest where eq: "tx = p # q # r # t # rest" "length rest mod 4 = 0"
        and rest: "rest = [] \<or> 4 \<le> length rest" by (rule quad_cases)
    from rest show ?thesis
    proof
      assume "rest = []"
      then have d: "decode_quad (4 - padding_of [p, q, r, t]) [p, q, r, t] = Inr bs"
        using less.prems(1) eq by (auto simp: decode_loop.simps size_defs bindR_eq_Inr)
      have one: "encode_loop bs = encode_quad bs" if "length bs \<le> 3" "0 < length bs"
        using that by (subst encode_loop.simps, simp add: size_defs) (simp add: encode_loop.simps)
      have "0 < length bs \<and> length bs \<le> 3 \<and> encode_quad bs = tx"
        using d encode_decode_quad [of p q r t bs] \<open>rest = []\<close> eq by (auto simp: padding_of_def split: if_splits)
      then show ?thesis using one by simp
    next
      assume len: "4 \<le> length rest"
      then have "padding_of tx = padding_of rest"
        using padding_of_append [of rest "[p, q, r, t]"] eq by simp
      moreover have "decode_loop k (p # q # r # t # rest) = bindR (decode_quad 4 [p, q, r, t]) (\<lambda>bs.
          bindR (decode_loop k rest) (\<lambda>rest. Inr (bs @ rest)))" for k
        using len by (subst decode_loop.simps) (auto simp: size_defs)
      ultimately obtain b1 b2 where b: "decode_quad 4 [p, q, r, t] = Inr b1" "decode_loop (padding_of rest) rest = Inr b2" "bs = b1 @ b2"
        using less.prems(1) eq by (auto simp: bindR_eq_Inr)
      have "rest = encode_loop b2" using less.hyps [OF _ b(2) eq(2)] eq by simp
      moreover have "length b1 = 3" "encode_quad b1 = [p, q, r, t]" using encode_decode_quad(1) [OF b(1)] by blast+
      ultimately show ?thesis
        using eq b(3) by (subst encode_loop.simps) (auto simp: size_defs)
    qed
  qed
qed

text \<open>Decoding accepts exactly the encodings.\<close>

lemma Base64Decode_iff:
  "Base64Decode tx out = Inr (n, out') \<longleftrightarrow>
     (\<exists>bs. tx = encode_loop bs \<and> n = length bs \<and> out' = blit out 0 bs \<and> length bs \<le> length out)"
proof
  assume a: "Base64Decode tx out = Inr (n, out')"
  then obtain bs where bs: "decode_loop (padding_of tx) tx = Inr bs" "n = length bs" "out' = blit out 0 bs"
      and m: "length tx mod 4 = 0" and room: "length tx div 4 * 3 - padding_of tx \<le> length out"
    by (auto simp: Base64Decode_def bindR_eq_Inr Let_def size_defs not_less split: if_splits)
  have tx: "tx = encode_loop bs" using encode_decode_loop [OF bs(1) m] .
  have "length tx div 4 * 3 - padding_of tx = length bs" using decoded_size [of bs] tx by simp
  then show "\<exists>bs. tx = encode_loop bs \<and> n = length bs \<and> out' = blit out 0 bs \<and> length bs \<le> length out"
    using tx bs room by auto
next
  assume "\<exists>bs. tx = encode_loop bs \<and> n = length bs \<and> out' = blit out 0 bs \<and> length bs \<le> length out"
  then obtain bs where bs: "tx = encode_loop bs" "n = length bs" "out' = blit out 0 bs" "length bs \<le> length out" by blast
  have "length tx mod 4 = 0" by (simp add: bs(1) length_encode_loop)
  then show "Base64Decode tx out = Inr (n, out')"
    unfolding Base64Decode_def Let_def size_defs
    using bs decode_encode_loop [of bs] decoded_size [of bs] by simp
qed

subsection \<open>Writing a block\<close>

definition ARMOR_BEGIN :: bytes where "ARMOR_BEGIN = ascii ''-----BEGIN ZET BOOTSTRAP-----''"
definition ARMOR_END :: bytes where "ARMOR_END = ascii ''-----END ZET BOOTSTRAP-----''"
definition MAX_ARMORED_FRAME :: nat where [size_defs]: "MAX_ARMORED_FRAME = 2048"
definition MAX_ARMOR_TEXT :: nat where [size_defs]: "MAX_ARMOR_TEXT = (MAX_ARMORED_FRAME + 2) div 3 * 4"
definition MAX_ARMOR_LINE :: nat where [size_defs]: "MAX_ARMOR_LINE = 128"
definition ARMOR_LINE_WIDTH :: nat where [size_defs]: "ARMOR_LINE_WIDTH = 64"

definition ArmoredSize :: "nat \<Rightarrow> nat" where
  "ArmoredSize frameSize =
     (let txt = (frameSize + 2) div 3 * 4; lns = (txt + ARMOR_LINE_WIDTH - 1) div ARMOR_LINE_WIDTH
      in 1 + length ARMOR_BEGIN + 1 + txt + lns + length ARMOR_END + 1)"

definition Put :: "bytes \<Rightarrow> nat \<times> bytes \<Rightarrow> nat \<times> bytes" where
  "Put txt = (\<lambda>(at, out). (at + length txt, blit out at txt))"

function put_lines :: "bytes \<Rightarrow> nat \<times> bytes \<Rightarrow> nat \<times> bytes" where
  "put_lines body st =
     (if body = [] then st
      else let width = min ARMOR_LINE_WIDTH (length body)
           in put_lines (drop width body) (Put [NEWLINE] (Put (take width body) st)))"
  by pat_completeness auto
termination by (relation "measure (\<lambda>(b, s). length b)") (auto simp: size_defs)

definition WriteArmor :: "bytes \<Rightarrow> bytes \<Rightarrow> (nat \<times> bytes) proto_result" where
  "WriteArmor frame out =
     (if length frame > MAX_ARMORED_FRAME then Inl LengthLimitExceeded
      else if length out < ArmoredSize (length frame) then Inl BufferTooSmall
      else bindR (Base64Encode frame (replicate MAX_ARMOR_TEXT 0)) (\<lambda>(encoded, txt).
        let body = take encoded txt;
            st = Put [NEWLINE] (Put ARMOR_BEGIN (Put [NEWLINE] (0, out)))
        in Inr (Put [NEWLINE] (Put ARMOR_END (put_lines body st)))))"

declare put_lines.simps [simp del]

text \<open>The lines of a body, each with its newline, and the block they make.\<close>

function armor_lines :: "bytes \<Rightarrow> bytes list" where
  "armor_lines body = (if body = [] then [] else take ARMOR_LINE_WIDTH body # armor_lines (drop ARMOR_LINE_WIDTH body))"
  by pat_completeness auto
termination by (relation "measure length") (auto simp: size_defs)

declare armor_lines.simps [simp del]

definition with_newline :: "bytes \<Rightarrow> bytes" where
  "with_newline l = l @ [NEWLINE]"

definition armor_block :: "bytes \<Rightarrow> bytes" where
  "armor_block frame =
     [NEWLINE] @ concat (map with_newline (ARMOR_BEGIN # armor_lines (encode_loop frame) @ [ARMOR_END]))"

lemma concat_armor_lines: "concat (armor_lines body) = body"
  by (induction body rule: armor_lines.induct) (subst armor_lines.simps, simp add: size_defs)

lemma length_armor_lines: "length (armor_lines body) = (length body + ARMOR_LINE_WIDTH - 1) div ARMOR_LINE_WIDTH"
proof (induction body rule: armor_lines.induct)
  case (1 body)
  show ?case
  proof (cases "body = []")
    case True
    then show ?thesis by (simp add: armor_lines.simps size_defs)
  next
    case False
    then have "0 < length body" by simp
    then obtain k where k: "length body = Suc k" by (cases "length body") auto
    have "Suc ((length body - 64 + 64 - 1) div 64) = (length body + 64 - 1) div 64"
    proof (cases "64 \<le> length body")
      case True
      then have "length body + 64 - 1 = (length body - 1) + 64" by simp
      then have "(length body + 64 - 1) div 64 = Suc ((length body - 1) div 64)" by (simp add: div_add_self2)
      then show ?thesis using True by simp
    next
      case False
      then show ?thesis using k by simp
    qed
    then show ?thesis using 1 False by (subst armor_lines.simps) (simp add: size_defs)
  qed
qed

lemma length_with_newline: "length (with_newline l) = Suc (length l)"
  by (simp add: with_newline_def)

lemma length_with_newlines: "length (concat (map with_newline ls)) = length (concat ls) + length ls"
  by (induction ls) (simp_all add: with_newline_def)

lemma Put_append: "length txt \<le> length room \<Longrightarrow>
    Put txt (length done, done @ room) = (length (done @ txt), (done @ txt) @ drop (length txt) room)"
  by (simp add: Put_def blit_append_at)

lemma put_lines_append:
  "length (concat (map with_newline (armor_lines body))) \<le> length room \<Longrightarrow>
   put_lines body (length done, done @ room) =
     (let txt = concat (map with_newline (armor_lines body))
      in (length (done @ txt), (done @ txt) @ drop (length txt) room))"
proof (induction body arbitrary: "done" room rule: armor_lines.induct)
  case (1 body)
  show ?case
  proof (cases "body = []")
    case True
    then show ?thesis by (simp add: put_lines.simps armor_lines.simps)
  next
    case False
    let ?l = "take ARMOR_LINE_WIDTH body" and ?r = "concat (map with_newline (armor_lines (drop ARMOR_LINE_WIDTH body)))"
    have eq: "concat (map with_newline (armor_lines body)) = with_newline ?l @ ?r"
      using False by (subst armor_lines.simps) simp
    have room: "length (with_newline ?l) + length ?r \<le> length room" using 1(2) unfolding eq by simp
    have step: "Put [NEWLINE] (Put ?l (length done, done @ room)) =
        (length (done @ with_newline ?l), (done @ with_newline ?l) @ drop (length (with_newline ?l)) room)"
      using room Put_append [of ?l room "done"] Put_append [of "[NEWLINE]" "drop (length ?l) room" "done @ ?l"]
      by (simp add: with_newline_def)
    have mn: "take (min ARMOR_LINE_WIDTH (length body)) body = ?l" "drop (min ARMOR_LINE_WIDTH (length body)) body = drop ARMOR_LINE_WIDTH body"
      by (auto simp: min_def)
    have "put_lines body (length done, done @ room) =
        put_lines (drop ARMOR_LINE_WIDTH body) (Put [NEWLINE] (Put ?l (length done, done @ room)))"
      using False by (subst put_lines.simps) (simp only: Let_def mn if_False)
    moreover have "length ?r \<le> length (drop (length (with_newline ?l)) room)" using room by simp
    ultimately show ?thesis
      using 1(1) [OF False, of "drop (length (with_newline ?l)) room" "done @ with_newline ?l"]
      unfolding step eq Let_def by (simp add: add.assoc add.commute)
  qed
qed

lemma length_armor_block: "length (armor_block frame) = ArmoredSize (length frame)"
  by (simp add: armor_block_def ArmoredSize_def length_with_newlines concat_armor_lines length_armor_lines length_encode_loop
      with_newline_def Let_def)

lemma WriteArmor_spec:
  assumes "length frame \<le> MAX_ARMORED_FRAME" and "ArmoredSize (length frame) \<le> length out"
  shows "WriteArmor frame out = Inr (ArmoredSize (length frame), armor_block frame @ drop (ArmoredSize (length frame)) out)"
proof -
  let ?body = "encode_loop frame"
  let ?lines = "concat (map with_newline (armor_lines ?body))"
  let ?head = "[NEWLINE] @ ARMOR_BEGIN @ [NEWLINE]"
  have "length ?body \<le> MAX_ARMOR_TEXT"
    unfolding length_encode_loop MAX_ARMOR_TEXT_def using assms(1) by (intro mult_right_mono div_le_mono) auto
  then have enc: "Base64Encode frame (replicate MAX_ARMOR_TEXT 0) = Inr (length ?body, blit (replicate MAX_ARMOR_TEXT 0) 0 ?body)"
    by (simp add: Base64Encode_def Let_def length_encode_loop TRIPLE_def QUAD_def not_less)
  have blk: "armor_block frame = (?head @ ?lines) @ ARMOR_END @ [NEWLINE]"
    by (simp add: armor_block_def with_newline_def)
  then have room: "length ?head + length ?lines + length ARMOR_END + 1 \<le> length out"
    using assms(2) length_armor_block [of frame] by simp
  have head: "Put [NEWLINE] (Put ARMOR_BEGIN (Put [NEWLINE] (0, out))) = (length ?head, ?head @ drop (length ?head) out)"
    using room Put_append [of "[NEWLINE]" out "[]"] Put_append [of ARMOR_BEGIN "drop 1 out" "[NEWLINE]"]
      Put_append [of "[NEWLINE]" "drop (length ARMOR_BEGIN + 1) out" "NEWLINE # ARMOR_BEGIN"]
    by (simp add: add.commute)
  have mid: "put_lines ?body (length ?head, ?head @ drop (length ?head) out) =
      (length (?head @ ?lines), (?head @ ?lines) @ drop (length ?lines) (drop (length ?head) out))"
    using put_lines_append [of ?body "drop (length ?head) out" ?head] room by (simp add: Let_def)
  let ?rest = "drop (length ?lines) (drop (length ?head) out)"
  have tail: "Put [NEWLINE] (Put ARMOR_END (length (?head @ ?lines), (?head @ ?lines) @ ?rest)) =
      (length (armor_block frame), armor_block frame @ drop (length ARMOR_END + 1) ?rest)"
    using room Put_append [of ARMOR_END ?rest "?head @ ?lines"]
      Put_append [of "[NEWLINE]" "drop (length ARMOR_END) ?rest" "(?head @ ?lines) @ ARMOR_END"]
    by (simp add: blk add.commute add.left_commute)
  have "WriteArmor frame out = Inr (Put [NEWLINE] (Put ARMOR_END (put_lines ?body (Put [NEWLINE] (Put ARMOR_BEGIN (Put [NEWLINE] (0, out)))))))"
    unfolding WriteArmor_def enc using assms by (simp add: not_less Let_def blit_def)
  also have "\<dots> = Inr (length (armor_block frame), armor_block frame @ drop (length (armor_block frame)) out)"
    unfolding head mid tail by (simp add: blk add.commute add.left_commute)
  finally show ?thesis by (simp add: length_armor_block)
qed

subsection \<open>Finding a block\<close>

record ArmorScan =
  ar_Consumed :: nat
  ar_Block :: "bytes option"

record ArmorScanner =
  as_Line :: bytes
  as_LineTooLong :: bool
  as_InBlock :: bool
  as_Text :: bytes
  as_Decoded :: bytes
  as_Ready :: "nat option"
  as_Skipped :: u64

definition mk_ArmorScanner :: ArmorScanner where
  "mk_ArmorScanner = \<lparr>as_Line = [], as_LineTooLong = False, as_InBlock = False, as_Text = [],
     as_Decoded = replicate MAX_ARMORED_FRAME 0, as_Ready = None, as_Skipped = 0\<rparr>"

definition Abandon :: "ArmorScanner \<Rightarrow> ArmorScanner" where
  "Abandon s = s\<lparr>as_InBlock := False, as_Text := [], as_Skipped := as_Skipped s + 1\<rparr>"

definition strip_return :: "bytes \<Rightarrow> bytes" where
  "strip_return line = (if line \<noteq> [] \<and> last line = RETURN then butlast line else line)"

definition as_EndLine :: "ArmorScanner \<Rightarrow> ArmorScanner" where
  "as_EndLine s0 =
     (let line = strip_return (as_Line s0);
          tooLong = as_LineTooLong s0;
          s = s0\<lparr>as_Line := [], as_LineTooLong := False\<rparr> in
      if \<not> as_InBlock s
      then if \<not> tooLong \<and> line = ARMOR_BEGIN then s\<lparr>as_InBlock := True, as_Text := []\<rparr> else s
      else if tooLong then Abandon s
      else if line = ARMOR_END
      then let s1 = s\<lparr>as_InBlock := False\<rparr> in
           (case Base64Decode (as_Text s1) (as_Decoded s1) of
              Inr (n, decoded) \<Rightarrow> s1\<lparr>as_Decoded := decoded, as_Ready := Some n\<rparr>
            | Inl _ \<Rightarrow> s1\<lparr>as_Skipped := as_Skipped s1 + 1\<rparr>)
      else if line = ARMOR_BEGIN then s\<lparr>as_Skipped := as_Skipped s + 1, as_Text := []\<rparr>
      else if line = [] \<or> \<not> list_all IsArmorText line \<or> length line > MAX_ARMOR_TEXT - length (as_Text s) then Abandon s
      else s\<lparr>as_Text := as_Text s @ line\<rparr>)"

definition as_push :: "byte \<Rightarrow> ArmorScanner \<Rightarrow> ArmorScanner" where
  "as_push c s = (if length (as_Line s) < MAX_ARMOR_LINE then s\<lparr>as_Line := as_Line s @ [c]\<rparr> else s\<lparr>as_LineTooLong := True\<rparr>)"

fun armor_loop :: "nat \<Rightarrow> bytes \<Rightarrow> ArmorScanner \<Rightarrow> ArmorScan \<times> ArmorScanner" where
  "armor_loop i [] s = (\<lparr>ar_Consumed = i, ar_Block = None\<rparr>, s)"
| "armor_loop i (c # cs) s =
     (if c = NEWLINE
      then let s1 = as_EndLine s in
        case as_Ready s1 of
          Some n \<Rightarrow> (\<lparr>ar_Consumed = i + 1, ar_Block = Some (take n (as_Decoded s1))\<rparr>, s1)
        | None \<Rightarrow> armor_loop (i + 1) cs s1
      else armor_loop (i + 1) cs (as_push c s))"

definition Armor_Feed :: "bytes \<Rightarrow> ArmorScanner \<Rightarrow> ArmorScan \<times> ArmorScanner" where
  "Armor_Feed chunk s = armor_loop 0 chunk (s\<lparr>as_Ready := None\<rparr>)"

subsection \<open>Scanners and chunks\<close>

text \<open>
  A scanner is fed a chunk, says how much it consumed and what it found, and is fed the rest again. The
  loop of its callers, on any scanner:
\<close>

function scan_all :: "(bytes \<Rightarrow> 's \<Rightarrow> nat \<times> 'a option \<times> 's) \<Rightarrow> bytes \<Rightarrow> 's \<Rightarrow> 'a list \<times> 's" where
  "scan_all feed chunk s =
     (if chunk = [] then ([], s)
      else case feed chunk s of
        (n, None, s1) \<Rightarrow> ([], s1)
      | (n, Some x, s1) \<Rightarrow> (case scan_all feed (drop (max 1 n) chunk) s1 of (xs, s2) \<Rightarrow> (x # xs, s2)))"
  by pat_completeness auto
termination by (relation "measure (\<lambda>(f, c, s). length c)") auto

declare scan_all.simps [simp del]

locale line_scanner =
  fixes feed :: "bytes \<Rightarrow> 's \<Rightarrow> nat \<times> 'a option \<times> 's"
    and step :: "byte \<Rightarrow> 's \<Rightarrow> 'a option \<times> 's"
    and clear :: "'s \<Rightarrow> 's"
  assumes feed_Nil: "feed [] s = (0, None, clear s)"
    and feed_Cons: "feed (c # cs) s = (case step c (clear s) of
        (Some x, s1) \<Rightarrow> (1, Some x, s1)
      | (None, s1) \<Rightarrow> (case feed cs s1 of (n, a, s2) \<Rightarrow> (Suc n, a, s2)))"
    and step_clear: "step c (clear s) = (None, s1) \<Longrightarrow> clear s1 = s1"
    and clear_clear: "clear (clear s) = clear s"
begin

lemma feed_clear: "feed cs (clear s) = feed cs s"
  by (cases cs) (simp_all add: feed_Nil feed_Cons clear_clear)

lemma feed_None: "feed a s = (n, None, s1) \<Longrightarrow> n = length a \<and> feed (a @ b) s = (case feed b s1 of (m, x, s2) \<Rightarrow> (n + m, x, s2))"
proof (induction a arbitrary: s n)
  case Nil
  then show ?case by (auto simp: feed_Nil feed_clear split: prod.splits)
next
  case (Cons c a)
  obtain s2 k where "step c (clear s) = (None, s2)" and f: "feed a s2 = (k, None, s1)" and "n = Suc k"
    using Cons.prems by (auto simp: feed_Cons split: prod.splits option.splits)
  then show ?case using Cons.IH [OF f] by (auto simp: feed_Cons split: prod.splits)
qed

lemma feed_Some: "feed a s = (n, Some x, s1) \<Longrightarrow> 0 < n \<and> n \<le> length a \<and> feed (a @ b) s = (n, Some x, s1)"
proof (induction a arbitrary: s n)
  case Nil
  then show ?case by (simp add: feed_Nil)
next
  case (Cons c a)
  show ?case
  proof (cases "step c (clear s)")
    case (Pair r s2)
    show ?thesis
    proof (cases r)
      case None
      then obtain k where "feed a s2 = (k, Some x, s1)" and "n = Suc k"
        using Cons.prems Pair by (auto simp: feed_Cons split: prod.splits)
      then show ?thesis using Cons.IH [of s2 k] Pair None by (simp add: feed_Cons)
    next
      case (Some y)
      then show ?thesis using Cons.prems Pair by (simp add: feed_Cons)
    qed
  qed
qed

text \<open>Where a chunk ends does not matter.\<close>

lemma scan_append:
  "scan_all feed (a @ b) s =
     (case scan_all feed a s of (xs, s1) \<Rightarrow> (case scan_all feed b s1 of (ys, s2) \<Rightarrow> (xs @ ys, s2)))"
proof (induction "length a" arbitrary: a s rule: less_induct)
  case less
  show ?case
  proof (cases "a = []")
    case True
    then show ?thesis by (simp add: scan_all.simps [of feed "[]"] split: prod.splits)
  next
    case False
    obtain n r s1 where f: "feed a s = (n, r, s1)" by (cases "feed a s") auto
    show ?thesis
    proof (cases r)
      case None
      have fb: "feed (a @ b) s = (case feed b s1 of (m, x, s2) \<Rightarrow> (n + m, x, s2))" and n: "n = length a"
        using feed_None f None by auto
      have a: "scan_all feed a s = ([], s1)" using False f None by (subst scan_all.simps) simp
      obtain m x s2 where b: "feed b s1 = (m, x, s2)" by (cases "feed b s1") auto
      show ?thesis
      proof (cases "b = []")
        case True
        then show ?thesis using a by (simp add: scan_all.simps [of feed "[]"])
      next
        case nb: False
        have "drop (max 1 (n + m)) (a @ b) = drop (max 1 m) b" if "x = Some y" for y
          using feed_Some [of b s1 m y s2] b that n False by (auto simp: max_def not_le)
        then have "scan_all feed (a @ b) s = scan_all feed b s1"
          using False nb fb b by (subst (1 2) scan_all.simps) (auto split: option.splits)
        then show ?thesis using a by (simp split: prod.splits)
      qed
    next
      case (Some x)
      have fa: "feed (a @ b) s = (n, Some x, s1)" "0 < n" "n \<le> length a" using feed_Some f Some by auto
      have d: "drop (max 1 n) (a @ b) = drop n a @ b" using fa by (simp add: max_def)
      have "scan_all feed (drop n a @ b) s1 =
          (case scan_all feed (drop n a) s1 of (xs, s1) \<Rightarrow> (case scan_all feed b s1 of (ys, s2) \<Rightarrow> (xs @ ys, s2)))"
        using fa False by (intro less.hyps) simp
      moreover have "max 1 n = n" using fa by simp
      ultimately show ?thesis
        using False f Some fa d by (subst (1 2) scan_all.simps) (auto split: prod.splits)
    qed
  qed
qed

end

definition armor_step :: "byte \<Rightarrow> ArmorScanner \<Rightarrow> bytes option \<times> ArmorScanner" where
  "armor_step c s =
     (if c = NEWLINE
      then let s1 = as_EndLine s in (map_option (\<lambda>n. take n (as_Decoded s1)) (as_Ready s1), s1)
      else (None, as_push c s))"

definition armor_feed :: "bytes \<Rightarrow> ArmorScanner \<Rightarrow> nat \<times> bytes option \<times> ArmorScanner" where
  "armor_feed chunk s = (case Armor_Feed chunk s of (r, s1) \<Rightarrow> (ar_Consumed r, ar_Block r, s1))"

lemma armor_loop_shift:
  "armor_loop (i + k) cs s = (case armor_loop k cs s of (r, s1) \<Rightarrow> (r\<lparr>ar_Consumed := i + ar_Consumed r\<rparr>, s1))"
proof (induction cs arbitrary: k s)
  case (Cons c cs)
  have "Suc (i + k) = i + Suc k" by simp
  then show ?case using Cons.IH [of "Suc k"] by (auto simp: Let_def split: option.splits prod.splits)
qed simp

lemma armor_ready:
  "as_Ready s = None \<Longrightarrow> as_Ready (as_push c s) = None"
  by (simp add: as_push_def)

interpretation armor: line_scanner armor_feed armor_step "\<lambda>s. s\<lparr>as_Ready := None\<rparr>"
proof
  fix c cs and s :: ArmorScanner
  let ?s = "s\<lparr>as_Ready := None\<rparr>"
  have clear: "t\<lparr>as_Ready := None\<rparr> = t" if "as_Ready t = None" for t :: ArmorScanner using that by (cases t) simp
  have sh: "armor_loop 1 cs t = (case armor_loop 0 cs t of (r, s1) \<Rightarrow> (r\<lparr>ar_Consumed := Suc (ar_Consumed r)\<rparr>, s1))" for t
    using armor_loop_shift [of 1 0 cs t] by simp
  have fed: "armor_feed cs t = (case armor_loop 0 cs t of (r, s1) \<Rightarrow> (ar_Consumed r, ar_Block r, s1))" if "as_Ready t = None" for t
    using clear [OF that] by (simp add: armor_feed_def Armor_Feed_def)
  have one: "armor_feed (c # cs) s = (case armor_loop 0 (c # cs) ?s of (r, s1) \<Rightarrow> (ar_Consumed r, ar_Block r, s1))"
    by (simp only: armor_feed_def Armor_Feed_def)
  have pushed: "as_Ready (as_push c ?s) = None" by (simp add: armor_ready)
  show "armor_feed (c # cs) s = (case armor_step c ?s of (Some x, s1) \<Rightarrow> (1, Some x, s1)
      | (None, s1) \<Rightarrow> (case armor_feed cs s1 of (n, a, s2) \<Rightarrow> (Suc n, a, s2)))"
  proof (cases "c = NEWLINE")
    case True
    then show ?thesis
      unfolding one using fed [of "as_EndLine ?s"] sh [of "as_EndLine ?s"]
      by (cases "as_Ready (as_EndLine ?s)")
        (simp_all add: armor_step_def Let_def split: prod.splits)
  next
    case False
    then show ?thesis
      using fed [OF pushed] sh [of "as_push c ?s"]
      by (simp add: one armor_step_def split: prod.splits)
  qed
  fix s1 assume "armor_step c ?s = (None, s1)"
  then have "as_Ready s1 = None" using pushed by (auto simp: armor_step_def Let_def split: if_splits)
  then show "s1\<lparr>as_Ready := None\<rparr> = s1" by (rule clear)
qed (simp_all add: armor_feed_def Armor_Feed_def)

subsection \<open>A block among noise\<close>

lemma armor_text_char: "IsArmorText c \<Longrightarrow> c \<noteq> NEWLINE \<and> c \<noteq> RETURN \<and> c \<noteq> 0x2D"
proof -
  have "NEWLINE \<notin> set ALPHABET \<and> RETURN \<notin> set ALPHABET \<and> 0x2D \<notin> set ALPHABET"
    by (simp add: ALPHABET_codes NEWLINE_def RETURN_def)
  moreover assume "IsArmorText c"
  then have "c = PADDING \<or> c \<in> set ALPHABET"
    using find_char_Some by (fastforce simp: IsArmorText_def)
  ultimately show ?thesis by (auto simp: PADDING_def NEWLINE_def RETURN_def)
qed

lemma markers:
  "NEWLINE \<notin> set ARMOR_BEGIN" "NEWLINE \<notin> set ARMOR_END" "strip_return ARMOR_BEGIN = ARMOR_BEGIN" "strip_return ARMOR_END = ARMOR_END"
  "ARMOR_BEGIN \<noteq> ARMOR_END" "length ARMOR_BEGIN \<le> MAX_ARMOR_LINE" "length ARMOR_END \<le> MAX_ARMOR_LINE"
  "hd ARMOR_BEGIN = 0x2D" "hd ARMOR_END = 0x2D" "ARMOR_BEGIN \<noteq> []" "ARMOR_END \<noteq> []"
  by code_simp+

lemma loop_push:
  "NEWLINE \<notin> set l \<Longrightarrow> length (as_Line s) + length l \<le> MAX_ARMOR_LINE \<Longrightarrow>
   armor_loop i (l @ t) s = armor_loop (i + length l) t (s\<lparr>as_Line := as_Line s @ l\<rparr>)"
proof (induction l arbitrary: i s)
  case (Cons c l)
  have "as_push c s = s\<lparr>as_Line := as_Line s @ [c]\<rparr>" using Cons.prems by (simp add: as_push_def)
  then show ?case using Cons.prems Cons.IH [of "s\<lparr>as_Line := as_Line s @ [c]\<rparr>" "Suc i"] by auto
qed simp

lemma loop_line:
  assumes "NEWLINE \<notin> set l" and "length l \<le> MAX_ARMOR_LINE" and "as_Line s = []"
  shows "armor_loop i (with_newline l @ t) s =
    (let s1 = as_EndLine (s\<lparr>as_Line := l\<rparr>) in
     case as_Ready s1 of Some n \<Rightarrow> (\<lparr>ar_Consumed = i + length l + 1, ar_Block = Some (take n (as_Decoded s1))\<rparr>, s1)
     | None \<Rightarrow> armor_loop (i + length l + 1) t s1)"
  using loop_push [of l s i "NEWLINE # t"] assms by (simp add: with_newline_def)

text \<open>The lines of text, in a block.\<close>

lemma loop_text:
  assumes "as_InBlock s" and "as_Line s = []" and "\<not> as_LineTooLong s" and "as_Ready s = None"
    and "list_all (\<lambda>l. l \<noteq> [] \<and> length l \<le> MAX_ARMOR_LINE \<and> list_all IsArmorText l) ls"
    and "length (as_Text s) + length (concat ls) \<le> MAX_ARMOR_TEXT"
  shows "armor_loop i (concat (map with_newline ls) @ t) s =
    armor_loop (i + length (concat (map with_newline ls))) t (s\<lparr>as_Text := as_Text s @ concat ls\<rparr>)"
  using assms
proof (induction ls arbitrary: i s)
  case (Cons l ls)
  have l: "l \<noteq> []" "length l \<le> MAX_ARMOR_LINE" "list_all IsArmorText l" using Cons.prems(5) by simp_all
  have "NEWLINE \<notin> set l" "last l \<noteq> RETURN" "hd l \<noteq> 0x2D"
    using l armor_text_char by (auto simp: list_all_iff)
  then have e: "as_EndLine (s\<lparr>as_Line := l\<rparr>) = s\<lparr>as_Text := as_Text s @ l\<rparr>"
    using l Cons.prems(1-4,6) markers by (auto simp: as_EndLine_def strip_return_def Let_def)
  show ?case
    using Cons.IH [of "s\<lparr>as_Text := as_Text s @ l\<rparr>" "i + length l + 1"] Cons.prems
      loop_line [of l s i "concat (map with_newline ls) @ t"] \<open>NEWLINE \<notin> set l\<close> l e
    by (simp add: length_with_newline add.assoc)
qed simp

lemma encode_quad_text: "bs \<noteq> [] \<Longrightarrow> length bs \<le> 3 \<Longrightarrow> list_all IsArmorText (encode_quad bs)"
proof -
  have "IsArmorText (ALPHABET ! unat (w AND SEXTET_MASK))" for w
    using find_char_nth [OF distinct_ALPHABET, of "unat (w AND SEXTET_MASK)"] sextet_lt [of w]
    by (simp add: IsArmorText_def length_ALPHABET)
  then show "list_all IsArmorText (encode_quad bs)" by (auto simp: encode_quad_def list_all_iff Let_def IsArmorText_def)
qed

lemma encode_loop_text: "list_all IsArmorText (encode_loop bs)"
proof (induction bs rule: encode_loop.induct)
  case (1 bs)
  then show ?case using encode_quad_text [of "take TRIPLE bs"] by (subst encode_loop.simps) (auto simp: size_defs)
qed

lemma armor_lines_ok:
  "list_all IsArmorText body \<Longrightarrow>
   list_all (\<lambda>l. l \<noteq> [] \<and> length l \<le> MAX_ARMOR_LINE \<and> list_all IsArmorText l) (armor_lines body)"
proof (induction body rule: armor_lines.induct)
  case (1 body)
  show ?case
  proof (cases "body = []")
    case True
    then show ?thesis by (simp add: armor_lines.simps)
  next
    case False
    moreover have "list_all IsArmorText (take ARMOR_LINE_WIDTH body)" "list_all IsArmorText (drop ARMOR_LINE_WIDTH body)"
      using 1(2) by (auto simp: list_all_iff dest: in_set_takeD in_set_dropD)
    ultimately show ?thesis using 1(1) by (subst armor_lines.simps) (simp add: size_defs)
  qed
qed

text \<open>
  Whatever came before, a block is found, whole and as it was written. The one exception is a line
  already begun that this block's leading newline turns into the end of an earlier block: then that
  one is reported first.
\<close>

lemma Armor_Feed_block:
  assumes "length (as_Decoded s) = MAX_ARMORED_FRAME" and "length frame \<le> MAX_ARMORED_FRAME"
    and "\<not> (as_InBlock s \<and> \<not> as_LineTooLong s \<and> strip_return (as_Line s) = ARMOR_END)"
  shows "\<exists>s'. Armor_Feed (armor_block frame @ t) s =
      (\<lparr>ar_Consumed = ArmoredSize (length frame), ar_Block = Some frame\<rparr>, s') \<and> length (as_Decoded s') = MAX_ARMORED_FRAME \<and>
      \<not> as_InBlock s' \<and> as_Line s' = [] \<and> \<not> as_LineTooLong s'"
proof -
  let ?lines = "armor_lines (encode_loop frame)"
  define s1 where "s1 = as_EndLine (s\<lparr>as_Ready := None\<rparr>)"
  have s1: "as_Ready s1 = None" "as_Line s1 = []" "\<not> as_LineTooLong s1" "as_Decoded s1 = as_Decoded s"
    using assms(3) by (auto simp: s1_def as_EndLine_def Abandon_def Let_def)
  define s2 where "s2 = as_EndLine (s1\<lparr>as_Line := ARMOR_BEGIN\<rparr>)"
  have s2: "as_Ready s2 = None" "as_Line s2 = []" "\<not> as_LineTooLong s2" "as_Decoded s2 = as_Decoded s" "as_InBlock s2" "as_Text s2 = []"
    using s1 markers by (auto simp: s2_def as_EndLine_def Let_def)
  define s3 where "s3 = s2\<lparr>as_Text := encode_loop frame\<rparr>"
  define s4 where "s4 = as_EndLine (s3\<lparr>as_Line := ARMOR_END\<rparr>)"
  have dec: "Base64Decode (encode_loop frame) (as_Decoded s) = Inr (length frame, blit (as_Decoded s) 0 frame)"
    unfolding Base64Decode_iff using assms(1,2) by auto
  have s4: "s4 = s3\<lparr>as_InBlock := False, as_Decoded := blit (as_Decoded s) 0 frame, as_Ready := Some (length frame)\<rparr>"
    using s2 markers dec by (simp add: s4_def s3_def as_EndLine_def Let_def)
  have line3: "as_Line s3 = []" using s2 by (simp add: s3_def)
  have ready: "as_Ready s4 = Some (length frame)" and found: "take (length frame) (as_Decoded s4) = frame"
    using assms(1,2) by (simp_all add: s4 blit_def)
  have fits: "length (encode_loop frame) \<le> MAX_ARMOR_TEXT"
    unfolding length_encode_loop MAX_ARMOR_TEXT_def using assms(2) by (intro mult_right_mono div_le_mono) auto
  have "Armor_Feed (armor_block frame @ t) s =
      armor_loop 1 (with_newline ARMOR_BEGIN @ concat (map with_newline ?lines) @ with_newline ARMOR_END @ t) s1"
    using s1(1) by (simp add: Armor_Feed_def armor_block_def s1_def)
  also have "\<dots> = armor_loop (1 + length ARMOR_BEGIN + 1) (concat (map with_newline ?lines) @ with_newline ARMOR_END @ t) s2"
    using loop_line [of ARMOR_BEGIN s1] markers s1 s2(1) by (simp add: s2_def)
  also have "\<dots> = armor_loop (1 + length ARMOR_BEGIN + 1 + length (concat (map with_newline ?lines))) (with_newline ARMOR_END @ t) s3"
    using loop_text [of s2 ?lines] armor_lines_ok [OF encode_loop_text] fits s2 by (simp add: s3_def concat_armor_lines)
  also have "\<dots> = (\<lparr>ar_Consumed = 1 + length ARMOR_BEGIN + 1 + length (concat (map with_newline ?lines)) + length ARMOR_END + 1,
      ar_Block = Some frame\<rparr>, s4)"
    unfolding loop_line [OF markers(2,7) line3] Let_def s4_def [symmetric] ready by (simp add: found)
  also have "1 + length ARMOR_BEGIN + 1 + length (concat (map with_newline ?lines)) + length ARMOR_END + 1 = ArmoredSize (length frame)"
    using length_armor_block [of frame] by (simp add: armor_block_def length_with_newline)
  finally show ?thesis using s4 s2 assms(1,2) by (simp add: s3_def)
qed

end
