(* ===== verification/Wire_Probe.thy ===== *)
theory Wire_Probe
  imports Wire_Armor
begin

text \<open>
  \<^verbatim>\<open>src/wire/probe.cpp\<close>: the answers of the remote installer, one marker line each, found in the
  output of a login shell.

  The views into the line buffer that the source hands out are the bytes they cover. Lemmas: exactly
  which lines are a probe answer; how the input is cut into chunks does not matter.
\<close>

definition PROBE_MARKER :: bytes where "PROBE_MARKER = ascii ''ZET-PROBE''"
definition HAVE_MARKER :: bytes where "HAVE_MARKER = ascii ''ZET-HAVE''"
definition SEND_MARKER :: bytes where "SEND_MARKER = ascii ''ZET-SEND''"
definition STORED_MARKER :: bytes where "STORED_MARKER = ascii ''ZET-STORED''"
definition FAILED_MARKER :: bytes where "FAILED_MARKER = ascii ''ZET-FAILED ''"
definition PROBE_VERSION_1 :: bytes where "PROBE_VERSION_1 = ascii ''1''"
definition MAX_PROBE_LINE :: nat where [size_defs]: "MAX_PROBE_LINE = 128"
definition SPACE :: byte where "SPACE = 0x20"

record ProbeInfo =
  pi_Arch :: bytes
  pi_NoExec :: bool

datatype ProbeAnswer = AnswerInfo ProbeInfo | ProbeHave | ProbeSend | ProbeStored | ProbeFailed bytes

record ProbeScan =
  pr_Consumed :: nat
  pr_Answer :: "ProbeAnswer option"

definition StartsWith :: "bytes \<Rightarrow> bytes \<Rightarrow> bool" where
  "StartsWith line prefix \<longleftrightarrow> length line \<ge> length prefix \<and> take (length prefix) line = prefix"

definition NextToken :: "bytes \<Rightarrow> nat \<Rightarrow> bytes \<times> nat" where
  "NextToken line pos =
     (if pos \<ge> length line \<or> line ! pos \<noteq> SPACE then ([], pos)
      else let start = pos + 1; token = takeWhile (\<lambda>c. c \<noteq> SPACE) (drop start line)
           in (token, start + length token))"

definition ParseProbe :: "bytes \<Rightarrow> ProbeInfo option" where
  "ParseProbe line =
     (if \<not> StartsWith line PROBE_MARKER then None
      else if length line \<le> length PROBE_MARKER \<or> line ! length PROBE_MARKER \<noteq> SPACE then None
      else let (version, pos) = NextToken line (length PROBE_MARKER) in
        if version \<noteq> PROBE_VERSION_1 then None
        else let (arch, pos) = NextToken line pos in
        if arch = [] then None
        else let (exec, pos) = NextToken line pos in
        if exec = [] then None
        else let noexec = (exec = ascii ''noexec'') in
        if \<not> noexec \<and> exec \<noteq> ascii ''exec'' then None
        else if fst (NextToken line pos) \<noteq> [] then None
        else Some \<lparr>pi_Arch = arch, pi_NoExec = noexec\<rparr>)"

text \<open>A token, read and written.\<close>

lemma NextToken_word:
  assumes "w \<noteq> []" and "SPACE \<notin> set w" and "rest = [] \<or> hd rest = SPACE"
  shows "NextToken (pre @ SPACE # w @ rest) (length pre) = (w, length (pre @ SPACE # w))"
proof -
  have "takeWhile (\<lambda>c. c \<noteq> SPACE) (w @ rest) = w"
    using assms(2,3) by (induction w) (auto simp: takeWhile_eq_Nil_iff)
  then show ?thesis by (simp add: NextToken_def)
qed

lemma NextToken_wordD:
  assumes "NextToken (pre @ r) (length pre) = (w, pos)" and "w \<noteq> []"
  shows "\<exists>rest. r = SPACE # w @ rest \<and> pos = length (pre @ SPACE # w) \<and> SPACE \<notin> set w \<and> (rest = [] \<or> hd rest = SPACE)"
proof (cases r)
  case Nil
  then show ?thesis using assms by (simp add: NextToken_def)
next
  case (Cons c cs)
  then have c: "c = SPACE" and w: "w = takeWhile (\<lambda>c. c \<noteq> SPACE) cs" and "pos = length (pre @ SPACE # w)"
    using assms by (auto simp: NextToken_def Let_def split: if_splits)
  moreover have "cs = w @ dropWhile (\<lambda>c. c \<noteq> SPACE) cs" using w by simp
  moreover have "SPACE \<notin> set w" using w by (auto dest: set_takeWhileD)
  moreover have "dropWhile (\<lambda>c. c \<noteq> SPACE) cs = [] \<or> hd (dropWhile (\<lambda>c. c \<noteq> SPACE) cs) = SPACE"
    using hd_dropWhile [of "\<lambda>c. c \<noteq> SPACE" cs] by auto
  ultimately show ?thesis using Cons by metis
qed

text \<open>What may follow the last field: nothing, or a space that no field follows.\<close>

definition probe_tail :: "bytes \<Rightarrow> bool" where
  "probe_tail rest \<longleftrightarrow> rest = [] \<or> hd rest = SPACE \<and> (tl rest = [] \<or> hd (tl rest) = SPACE)"

lemma NextToken_end:
  "rest = [] \<or> hd rest = SPACE \<Longrightarrow> fst (NextToken (pre @ rest) (length pre)) = [] \<longleftrightarrow> probe_tail rest"
proof (cases rest)
  case (Cons c cs)
  then show "rest = [] \<or> hd rest = SPACE \<Longrightarrow> ?thesis"
    by (cases cs) (auto simp: NextToken_def probe_tail_def Let_def)
qed (simp add: NextToken_def probe_tail_def)

definition exec_field :: "bool \<Rightarrow> bytes" where
  "exec_field noexec = ascii (if noexec then ''noexec'' else ''exec'')"

lemma probe_words:
  "PROBE_VERSION_1 \<noteq> []" "SPACE \<notin> set PROBE_VERSION_1" "ascii ''noexec'' \<noteq> ascii ''exec''" "ascii ''noexec'' \<noteq> []" "ascii ''exec'' \<noteq> []"
  "SPACE \<notin> set (ascii ''noexec'')" "SPACE \<notin> set (ascii ''exec'')"
  by code_simp+

lemma ParseProbe_iff:
  "ParseProbe line = Some info \<longleftrightarrow>
     (\<exists>rest. line = PROBE_MARKER @ SPACE # PROBE_VERSION_1 @ SPACE # pi_Arch info @ SPACE # exec_field (pi_NoExec info) @ rest \<and>
        pi_Arch info \<noteq> [] \<and> SPACE \<notin> set (pi_Arch info) \<and> probe_tail rest)"
  (is "_ \<longleftrightarrow> (\<exists>rest. ?P rest)")
proof
  assume a: "ParseProbe line = Some info"
  obtain version pos1 where v: "NextToken line (length PROBE_MARKER) = (version, pos1)" by fastforce
  obtain arch pos2 where r: "NextToken line pos1 = (arch, pos2)" by fastforce
  obtain exec pos3 where e: "NextToken line pos2 = (exec, pos3)" by fastforce
  have facts: "StartsWith line PROBE_MARKER" "version = PROBE_VERSION_1" "arch \<noteq> []" "exec = exec_field (pi_NoExec info)"
      "fst (NextToken line pos3) = []" "pi_Arch info = arch"
    using a v r e probe_words(3) by (auto simp: ParseProbe_def exec_field_def Let_def split: if_splits)
  obtain r0 where line: "line = PROBE_MARKER @ r0"
    using facts(1) unfolding StartsWith_def by (metis append_take_drop_id)
  obtain r1 where r1: "r0 = SPACE # version @ r1" "pos1 = length (PROBE_MARKER @ SPACE # version)"
    using NextToken_wordD [OF v [unfolded line]] facts(2) probe_words(1) by auto
  let ?p1 = "PROBE_MARKER @ SPACE # version"
  have "line = ?p1 @ r1" using line r1 by simp
  with r r1(2) facts(3) obtain r2 where r2: "r1 = SPACE # arch @ r2" "pos2 = length (?p1 @ SPACE # arch)" "SPACE \<notin> set arch"
    using NextToken_wordD [of ?p1 r1 arch pos2] by auto
  let ?p2 = "?p1 @ SPACE # arch"
  have "line = ?p2 @ r2" using line r1 r2 by simp
  moreover have "exec \<noteq> []" using facts(4) probe_words(4,5) by (simp add: exec_field_def)
  ultimately obtain r3 where r3: "r2 = SPACE # exec @ r3" "pos3 = length (?p2 @ SPACE # exec)" "r3 = [] \<or> hd r3 = SPACE"
    using NextToken_wordD [of ?p2 r2 exec pos3] e r2(2) by auto
  have "line = (?p2 @ SPACE # exec) @ r3" using line r1 r2 r3 by simp
  then have "probe_tail r3" using NextToken_end [OF r3(3), of "?p2 @ SPACE # exec"] facts(5) r3(2) by simp
  then have "?P r3" using line r1 r2 r3 facts by simp
  then show "\<exists>rest. ?P rest" ..
next
  assume "\<exists>rest. ?P rest"
  then obtain rest where p: "?P rest" ..
  let ?arch = "pi_Arch info" and ?exec = "exec_field (pi_NoExec info)"
  let ?p1 = "PROBE_MARKER @ SPACE # PROBE_VERSION_1" let ?p2 = "?p1 @ SPACE # ?arch" let ?p3 = "?p2 @ SPACE # ?exec"
  have x: "?exec \<noteq> []" "SPACE \<notin> set ?exec" "rest = [] \<or> hd rest = SPACE"
    using probe_words p by (auto simp: exec_field_def probe_tail_def)
  have "NextToken line (length PROBE_MARKER) = (PROBE_VERSION_1, length ?p1)"
    using NextToken_word [OF probe_words(1,2), of "SPACE # ?arch @ SPACE # ?exec @ rest" PROBE_MARKER] p by simp
  moreover have "NextToken line (length ?p1) = (?arch, length ?p2)"
    using NextToken_word [of ?arch "SPACE # ?exec @ rest" ?p1] p by simp
  moreover have "NextToken line (length ?p2) = (?exec, length ?p3)"
    using NextToken_word [OF x, of ?p2] p by simp
  moreover have "fst (NextToken line (length ?p3)) = []"
    using NextToken_end [OF x(3), of ?p3] p by simp
  moreover have "StartsWith line PROBE_MARKER" "\<not> length line \<le> length PROBE_MARKER" "line ! length PROBE_MARKER = SPACE"
    using p by (auto simp: StartsWith_def nth_append)
  moreover have "(?exec = ascii ''noexec'') = pi_NoExec info" "?exec = ascii ''noexec'' \<or> ?exec = ascii ''exec''"
    using probe_words(3) by (auto simp: exec_field_def)
  moreover have "?arch \<noteq> []" using p by blast
  ultimately show "ParseProbe line = Some info"
    using x(1) unfolding ParseProbe_def by (auto simp: Let_def)
qed

subsection \<open>ProbeScanner\<close>

datatype EReadyTag = TagNone | TagInfo | TagHave | TagSend | TagStored | TagFailed

record ProbeScanner =
  ps_Line :: bytes
  ps_LineTooLong :: bool
  ps_ReadyTag :: EReadyTag
  ps_ReadyArch :: bytes
  ps_ReadyNoExec :: bool
  ps_ReadyReason :: bytes
  ps_Skipped :: u64

definition mk_ProbeScanner :: ProbeScanner where
  "mk_ProbeScanner = \<lparr>ps_Line = [], ps_LineTooLong = False, ps_ReadyTag = TagNone, ps_ReadyArch = [],
     ps_ReadyNoExec = False, ps_ReadyReason = [], ps_Skipped = 0\<rparr>"

definition ps_EndLine :: "ProbeScanner \<Rightarrow> ProbeScanner" where
  "ps_EndLine s0 =
     (let line = strip_return (ps_Line s0);
          tooLong = ps_LineTooLong s0;
          s = s0\<lparr>ps_Line := [], ps_LineTooLong := False\<rparr> in
      if \<not> StartsWith line (ascii ''ZET-'') then s
      else if tooLong then s\<lparr>ps_Skipped := ps_Skipped s + 1\<rparr>
      else case ParseProbe line of
        Some info \<Rightarrow> s\<lparr>ps_ReadyTag := TagInfo, ps_ReadyArch := pi_Arch info, ps_ReadyNoExec := pi_NoExec info\<rparr>
      | None \<Rightarrow>
          if line = HAVE_MARKER then s\<lparr>ps_ReadyTag := TagHave\<rparr>
          else if line = SEND_MARKER then s\<lparr>ps_ReadyTag := TagSend\<rparr>
          else if line = STORED_MARKER then s\<lparr>ps_ReadyTag := TagStored\<rparr>
          else if StartsWith line FAILED_MARKER
          then s\<lparr>ps_ReadyTag := TagFailed, ps_ReadyReason := drop (length FAILED_MARKER) line\<rparr>
          else if line = ascii ''ZET-FAILED'' then s\<lparr>ps_ReadyTag := TagFailed, ps_ReadyReason := []\<rparr>
          else s\<lparr>ps_Skipped := ps_Skipped s + 1\<rparr>)"

fun ready_answer :: "EReadyTag \<Rightarrow> ProbeScanner \<Rightarrow> ProbeAnswer option" where
  "ready_answer TagNone s = None"
| "ready_answer TagInfo s = Some (AnswerInfo \<lparr>pi_Arch = ps_ReadyArch s, pi_NoExec = ps_ReadyNoExec s\<rparr>)"
| "ready_answer TagHave s = Some ProbeHave"
| "ready_answer TagSend s = Some ProbeSend"
| "ready_answer TagStored s = Some ProbeStored"
| "ready_answer TagFailed s = Some (ProbeFailed (ps_ReadyReason s))"

definition ps_push :: "byte \<Rightarrow> ProbeScanner \<Rightarrow> ProbeScanner" where
  "ps_push c s = (if length (ps_Line s) < MAX_PROBE_LINE then s\<lparr>ps_Line := ps_Line s @ [c]\<rparr> else s\<lparr>ps_LineTooLong := True\<rparr>)"

fun probe_loop :: "nat \<Rightarrow> bytes \<Rightarrow> ProbeScanner \<Rightarrow> ProbeScan \<times> ProbeScanner" where
  "probe_loop i [] s = (\<lparr>pr_Consumed = i, pr_Answer = None\<rparr>, s)"
| "probe_loop i (c # cs) s =
     (if c = NEWLINE
      then let s1 = ps_EndLine s in
        case ready_answer (ps_ReadyTag s1) s1 of
          Some a \<Rightarrow> (\<lparr>pr_Consumed = i + 1, pr_Answer = Some a\<rparr>, s1\<lparr>ps_ReadyTag := TagNone\<rparr>)
        | None \<Rightarrow> probe_loop (i + 1) cs s1
      else probe_loop (i + 1) cs (ps_push c s))"

definition Probe_Feed :: "bytes \<Rightarrow> ProbeScanner \<Rightarrow> ProbeScan \<times> ProbeScanner" where
  "Probe_Feed chunk s = probe_loop 0 chunk (s\<lparr>ps_ReadyTag := TagNone\<rparr>)"

subsection \<open>Chunks\<close>

definition probe_step :: "byte \<Rightarrow> ProbeScanner \<Rightarrow> ProbeAnswer option \<times> ProbeScanner" where
  "probe_step c s =
     (if c = NEWLINE
      then let s1 = ps_EndLine s in
        case ready_answer (ps_ReadyTag s1) s1 of None \<Rightarrow> (None, s1) | Some a \<Rightarrow> (Some a, s1\<lparr>ps_ReadyTag := TagNone\<rparr>)
      else (None, ps_push c s))"

definition probe_feed :: "bytes \<Rightarrow> ProbeScanner \<Rightarrow> nat \<times> ProbeAnswer option \<times> ProbeScanner" where
  "probe_feed chunk s = (case Probe_Feed chunk s of (r, s1) \<Rightarrow> (pr_Consumed r, pr_Answer r, s1))"

lemma probe_loop_shift:
  "probe_loop (i + k) cs s = (case probe_loop k cs s of (r, s1) \<Rightarrow> (r\<lparr>pr_Consumed := i + pr_Consumed r\<rparr>, s1))"
proof (induction cs arbitrary: k s)
  case (Cons c cs)
  have "Suc (i + k) = i + Suc k" by simp
  then show ?case using Cons.IH [of "Suc k"] by (auto simp: Let_def split: option.splits prod.splits)
qed simp

lemma ready_answer_None: "ready_answer t s = None \<longleftrightarrow> t = TagNone"
  by (cases t) simp_all

interpretation probe: line_scanner probe_feed probe_step "\<lambda>s. s\<lparr>ps_ReadyTag := TagNone\<rparr>"
proof
  fix c cs and s :: ProbeScanner
  let ?s = "s\<lparr>ps_ReadyTag := TagNone\<rparr>"
  have clear: "t\<lparr>ps_ReadyTag := TagNone\<rparr> = t" if "ps_ReadyTag t = TagNone" for t :: ProbeScanner using that by (cases t) simp
  have sh: "probe_loop 1 cs t = (case probe_loop 0 cs t of (r, s1) \<Rightarrow> (r\<lparr>pr_Consumed := Suc (pr_Consumed r)\<rparr>, s1))" for t
    using probe_loop_shift [of 1 0 cs t] by simp
  have fed: "probe_feed cs t = (case probe_loop 0 cs t of (r, s1) \<Rightarrow> (pr_Consumed r, pr_Answer r, s1))" if "ps_ReadyTag t = TagNone" for t
    using clear [OF that] by (simp add: probe_feed_def Probe_Feed_def)
  have one: "probe_feed (c # cs) s = (case probe_loop 0 (c # cs) ?s of (r, s1) \<Rightarrow> (pr_Consumed r, pr_Answer r, s1))"
    by (simp only: probe_feed_def Probe_Feed_def)
  have pushed: "ps_ReadyTag (ps_push c ?s) = TagNone" by (simp add: ps_push_def)
  show "probe_feed (c # cs) s = (case probe_step c ?s of (Some x, s1) \<Rightarrow> (1, Some x, s1)
      | (None, s1) \<Rightarrow> (case probe_feed cs s1 of (n, a, s2) \<Rightarrow> (Suc n, a, s2)))"
  proof (cases "c = NEWLINE")
    case True
    then show ?thesis
      unfolding one using fed [of "ps_EndLine ?s"] sh [of "ps_EndLine ?s"]
      by (cases "ready_answer (ps_ReadyTag (ps_EndLine ?s)) (ps_EndLine ?s)")
        (simp_all add: probe_step_def Let_def ready_answer_None split: prod.splits)
  next
    case False
    then show ?thesis
      using fed [OF pushed] sh [of "ps_push c ?s"] by (simp add: one probe_step_def split: prod.splits)
  qed
  fix s1 assume "probe_step c ?s = (None, s1)"
  then have "ps_ReadyTag s1 = TagNone"
    using pushed by (auto simp: probe_step_def Let_def ready_answer_None split: if_splits option.splits)
  then show "s1\<lparr>ps_ReadyTag := TagNone\<rparr> = s1" by (rule clear)
qed (simp_all add: probe_feed_def Probe_Feed_def)

end
