(* ===== verification/Session_Mux.thy ===== *)
theory Session_Mux
  imports Session_Stream Wire_Session_Message Crypto
begin

text \<open>
  \<^verbatim>\<open>src/session/mux_router.cpp\<close>: what zet-muxd decides. Which agent registered which session id, and
  where a new connection goes once its Hello is in.

  The two fixed tables of the router are lists of their C++ lengths, the storage it borrows is one flat
  byte list in which slot \<open>i\<close> owns \<open>MUX_PENDING_BUFFER\<close> bytes, and the counters are kept beside them as
  the code keeps them. \<open>registered\<close> and \<open>pending\<close> read the tables as maps; the lemmas give every
  operation as an update of these maps, and show the invariant \<open>mux_ok\<close>: counters equal to the live
  entries, no id or connection twice, the per-user and per-address shares, no slot past the storage.
\<close>

subsection \<open>Constants and data\<close>

type_synonym MuxAgentId = u64
type_synonym MuxConnectionId = u64
type_synonym Uid = u32
type_synonym PeerAddress = bytes

definition MAX_MUX_REGISTRATIONS :: nat where "MAX_MUX_REGISTRATIONS = 1024"
definition MAX_REGISTRATIONS_PER_UID :: nat where "MAX_REGISTRATIONS_PER_UID = 32"
definition MAX_PENDING_CONNECTIONS :: nat where "MAX_PENDING_CONNECTIONS = 256"
definition MAX_PENDING_PER_ADDRESS :: nat where "MAX_PENDING_PER_ADDRESS = 16"
definition MUX_PENDING_BUFFER :: nat where "MUX_PENDING_BUFFER = MAX_HANDOFF_PREFIX"

datatype EMuxClose = CloseMalformed | CloseExpired | CloseLimit | CloseUnknown

datatype MuxDecision =
    MuxNeedMore
  | MuxHandoffTo MuxConnectionId MuxAgentId bytes
  | MuxDecoy MuxConnectionId bytes
  | MuxClose MuxConnectionId EMuxClose

record Registration =
  rg_Id :: bytes
  rg_Agent :: MuxAgentId
  rg_Owner :: Uid
  rg_Live :: bool

record Waiting =
  wt_Connection :: MuxConnectionId
  wt_From :: PeerAddress
  wt_Until :: Timestamp
  wt_Length :: nat
  wt_Live :: bool

record MuxRouter =
  mx_Storage :: bytes
  mx_Slots :: nat
  mx_Registrations :: "Registration list"
  mx_RegistrationCount :: nat
  mx_Waiting :: "Waiting list"
  mx_PendingCount :: nat

definition no_registration :: Registration where
  "no_registration = \<lparr>rg_Id = replicate SESSION_ID_SIZE 0, rg_Agent = 0, rg_Owner = 0, rg_Live = False\<rparr>"

definition no_waiting :: Waiting where
  "no_waiting = \<lparr>wt_Connection = 0, wt_From = replicate 16 0, wt_Until = 0, wt_Length = 0, wt_Live = False\<rparr>"

definition mk_MuxRouter :: "bytes \<Rightarrow> MuxRouter" where
  "mk_MuxRouter pendingStorage =
     \<lparr>mx_Storage = pendingStorage,
      mx_Slots = min MAX_PENDING_CONNECTIONS (length pendingStorage div MUX_PENDING_BUFFER),
      mx_Registrations = replicate MAX_MUX_REGISTRATIONS no_registration, mx_RegistrationCount = 0,
      mx_Waiting = replicate MAX_PENDING_CONNECTIONS no_waiting, mx_PendingCount = 0\<rparr>"

subsection \<open>Registrations\<close>

definition Register :: "sodium \<Rightarrow> MuxAgentId \<Rightarrow> Uid \<Rightarrow> Key \<Rightarrow> MuxRouter \<Rightarrow> (byte + unit) \<times> MuxRouter" where
  "Register S agent uid registration r =
     (let sid = SessionIdOf S registration; regs = mx_Registrations r in
      case find_index (\<lambda>x. rg_Live x \<and> rg_Id x = sid) regs of
        Some i \<Rightarrow>
          if rg_Owner (regs ! i) \<noteq> uid then (Inl Taken, r)
          else (Inr (), r\<lparr>mx_Registrations := regs[i := (regs ! i)\<lparr>rg_Agent := agent\<rparr>]\<rparr>)
      | None \<Rightarrow>
          if count_if (\<lambda>x. rg_Live x \<and> rg_Owner x = uid) regs \<ge> MAX_REGISTRATIONS_PER_UID then (Inl Limit, r)
          else case find_index (\<lambda>x. \<not> rg_Live x) regs of
            None \<Rightarrow> (Inl Limit, r)
          | Some i \<Rightarrow>
              (Inr (), r\<lparr>mx_Registrations := regs[i := \<lparr>rg_Id = sid, rg_Agent = agent, rg_Owner = uid, rg_Live = True\<rparr>],
                         mx_RegistrationCount := mx_RegistrationCount r + 1\<rparr>))"

text \<open>The loop of \<open>Unregister\<close> over the table: the entries left, and how many were freed.\<close>

fun unregister_loop :: "MuxAgentId \<Rightarrow> Registration list \<Rightarrow> Registration list \<times> nat" where
  "unregister_loop agent [] = ([], 0)"
| "unregister_loop agent (x # xs) =
     (let (ys, n) = unregister_loop agent xs in
      if rg_Live x \<and> rg_Agent x = agent then (no_registration # ys, n + 1) else (x # ys, n))"

definition Unregister :: "MuxAgentId \<Rightarrow> MuxRouter \<Rightarrow> MuxRouter" where
  "Unregister agent r =
     (let (regs, freed) = unregister_loop agent (mx_Registrations r) in
      r\<lparr>mx_Registrations := regs, mx_RegistrationCount := mx_RegistrationCount r - freed\<rparr>)"

definition FindAgent :: "bytes \<Rightarrow> MuxRouter \<Rightarrow> MuxAgentId option" where
  "FindAgent sid r =
     map_option (\<lambda>i. rg_Agent (mx_Registrations r ! i))
       (find_index (\<lambda>x. rg_Live x \<and> rg_Id x = sid) (mx_Registrations r))"

subsection \<open>Pending connections\<close>

definition FindWaiting :: "MuxConnectionId \<Rightarrow> MuxRouter \<Rightarrow> nat option" where
  "FindWaiting connection r = find_index (\<lambda>w. wt_Live w \<and> wt_Connection w = connection) (mx_Waiting r)"

definition BufferOf :: "nat \<Rightarrow> MuxRouter \<Rightarrow> bytes" where
  "BufferOf slot r = take MUX_PENDING_BUFFER (drop (slot * MUX_PENDING_BUFFER) (mx_Storage r))"

definition Release :: "nat \<Rightarrow> MuxRouter \<Rightarrow> MuxRouter" where
  "Release slot r =
     r\<lparr>mx_Waiting := (mx_Waiting r)[slot := (mx_Waiting r ! slot)\<lparr>wt_Live := False\<rparr>],
       mx_PendingCount := mx_PendingCount r - 1\<rparr>"

definition mx_Accept ::
  "MuxConnectionId \<Rightarrow> PeerAddress \<Rightarrow> Timestamp \<Rightarrow> MuxRouter \<Rightarrow> (EMuxClose + unit) \<times> MuxRouter" where
  "mx_Accept connection peer now r =
     (if FindWaiting connection r \<noteq> None then (Inl CloseUnknown, r)
      else if count_if (\<lambda>w. wt_Live w \<and> wt_From w = peer) (mx_Waiting r) \<ge> MAX_PENDING_PER_ADDRESS
      then (Inl CloseLimit, r)
      else case find_index (\<lambda>w. \<not> wt_Live w) (take (mx_Slots r) (mx_Waiting r)) of
        None \<Rightarrow> (Inl CloseLimit, r)
      | Some i \<Rightarrow>
          (Inr (), r\<lparr>mx_Waiting := (mx_Waiting r)[i := \<lparr>wt_Connection = connection, wt_From = peer,
                       wt_Until = now + HANDSHAKE_TIMEOUT, wt_Length = 0, wt_Live = True\<rparr>],
                     mx_PendingCount := mx_PendingCount r + 1\<rparr>))"

definition mx_Room :: "MuxConnectionId \<Rightarrow> MuxRouter \<Rightarrow> nat" where
  "mx_Room connection r =
     (case FindWaiting connection r of
        None \<Rightarrow> 0
      | Some i \<Rightarrow> MUX_PENDING_BUFFER - wt_Length (mx_Waiting r ! i))"

text \<open>The copy of \<open>Feed\<close> into the slot's share of the storage.\<close>

definition mx_Store :: "nat \<Rightarrow> bytes \<Rightarrow> MuxRouter \<Rightarrow> MuxRouter" where
  "mx_Store slot taken r =
     (let w = mx_Waiting r ! slot; at = slot * MUX_PENDING_BUFFER + wt_Length w in
      r\<lparr>mx_Storage := blit (mx_Storage r) at taken,
        mx_Waiting := (mx_Waiting r)[slot := w\<lparr>wt_Length := wt_Length w + length taken\<rparr>]\<rparr>)"

definition mx_Feed :: "MuxConnectionId \<Rightarrow> bytes \<Rightarrow> MuxRouter \<Rightarrow> MuxDecision \<times> MuxRouter" where
  "mx_Feed connection bytes r =
     (case FindWaiting connection r of
        None \<Rightarrow> (MuxClose connection CloseUnknown, r)
      | Some i \<Rightarrow>
          let room = length (BufferOf i r) - wt_Length (mx_Waiting r ! i);
              taken = min room (length bytes);
              r1 = mx_Store i (take taken bytes) r;
              held = take (wt_Length (mx_Waiting r1 ! i)) (BufferOf i r1)
          in case PeekHello held of
               Inl e \<Rightarrow>
                 if e = Truncated \<and> taken = length bytes then (MuxNeedMore, r1)
                 else (MuxClose connection CloseMalformed, Release i r1)
             | Inr peek \<Rightarrow>
                 (case FindAgent (hp_Id peek) (Release i r1) of
                    Some agent \<Rightarrow> MuxHandoffTo connection agent held
                  | None \<Rightarrow> MuxDecoy connection held,
                  Release i r1))"

definition mx_Closed :: "MuxConnectionId \<Rightarrow> MuxRouter \<Rightarrow> MuxRouter" where
  "mx_Closed connection r = (case FindWaiting connection r of None \<Rightarrow> r | Some i \<Rightarrow> Release i r)"

definition mx_NextDeadline :: "MuxRouter \<Rightarrow> Deadline" where
  "mx_NextDeadline r =
     fold (\<lambda>w earliest. if wt_Live w then Earliest earliest (deadline_at (wt_Until w)) else earliest)
       (mx_Waiting r) no_deadline"

definition mx_Expire :: "Timestamp \<Rightarrow> MuxRouter \<Rightarrow> (MuxConnectionId \<times> EMuxClose) option \<times> MuxRouter" where
  "mx_Expire now r =
     (case find_index (\<lambda>w. wt_Live w \<and> wt_Until w \<le> now) (mx_Waiting r) of
        None \<Rightarrow> (None, r)
      | Some i \<Rightarrow> (Some (wt_Connection (mx_Waiting r ! i), CloseExpired), Release i r))"

subsection \<open>Tables of slots\<close>

text \<open>
  Both tables are arrays of entries of which the live ones carry a key, at most one per key. The
  locale is that contract, with the index of a key as a map; the registrations and the pending
  connections are its two instances.
\<close>

definition slot_of :: "('a \<Rightarrow> bool) \<Rightarrow> ('a \<Rightarrow> 'k) \<Rightarrow> 'a list \<Rightarrow> 'k \<Rightarrow> nat option" where
  "slot_of live key xs k = find_index (\<lambda>x. live x \<and> key x = k) xs"

definition slots_unique :: "('a \<Rightarrow> bool) \<Rightarrow> ('a \<Rightarrow> 'k) \<Rightarrow> 'a list \<Rightarrow> bool" where
  "slots_unique live key xs \<longleftrightarrow>
     (\<forall>i < length xs. \<forall>j < length xs. live (xs ! i) \<longrightarrow> live (xs ! j) \<longrightarrow> key (xs ! i) = key (xs ! j) \<longrightarrow> i = j)"

lemma slots_uniqueD:
  "slots_unique live key xs \<Longrightarrow> i < length xs \<Longrightarrow> j < length xs \<Longrightarrow> live (xs ! i) \<Longrightarrow> live (xs ! j) \<Longrightarrow>
   key (xs ! i) = key (xs ! j) \<Longrightarrow> i = j"
  by (auto simp: slots_unique_def)

locale slot_table =
  fixes live :: "'a \<Rightarrow> bool" and key :: "'a \<Rightarrow> 'k" and clear :: "'a \<Rightarrow> 'a"
  assumes dead_clear: "\<not> live (clear x)"
begin

lemma slot_SomeD: "slot_of live key xs k = Some i \<Longrightarrow> i < length xs \<and> live (xs ! i) \<and> key (xs ! i) = k"
  unfolding slot_of_def by (drule find_index_Some) simp

lemma slot_None: "slot_of live key xs k = None \<longleftrightarrow> (\<forall>i < length xs. live (xs ! i) \<longrightarrow> key (xs ! i) \<noteq> k)"
  unfolding slot_of_def find_index_None by auto

lemma slot_SomeI:
  assumes "slots_unique live key xs" "i < length xs" "live (xs ! i)"
  shows "slot_of live key xs (key (xs ! i)) = Some i"
  unfolding slot_of_def by (rule find_index_unique) (use assms slots_uniqueD in fastforce)+

lemma slot_iff:
  "slots_unique live key xs \<Longrightarrow>
   slot_of live key xs k = Some i \<longleftrightarrow> i < length xs \<and> live (xs ! i) \<and> key (xs ! i) = k"
  using slot_SomeD slot_SomeI by blast

lemma slots_eqI:
  assumes "slots_unique live key xs"
    and "\<And>k i. m k = Some i \<longleftrightarrow> i < length xs \<and> live (xs ! i) \<and> key (xs ! i) = k"
  shows "slot_of live key xs = m"
proof
  fix k
  have "slot_of live key xs k = Some i \<longleftrightarrow> m k = Some i" for i
    using assms by (simp add: slot_iff)
  then show "slot_of live key xs k = m k" by (metis not_None_eq)
qed

lemma take_slot:
  assumes "slots_unique live key xs" "i < length xs" "\<not> live (xs ! i)" "live x" "slot_of live key xs (key x) = None"
  shows "slots_unique live key (xs[i := x])" "slot_of live key (xs[i := x]) = (slot_of live key xs)(key x \<mapsto> i)"
proof -
  show u: "slots_unique live key (xs[i := x])"
    using assms unfolding slots_unique_def slot_None by (auto simp: nth_list_update)
  show "slot_of live key (xs[i := x]) = (slot_of live key xs)(key x \<mapsto> i)"
    using u by (rule slots_eqI) (use assms slot_None in \<open>auto simp: slot_iff nth_list_update\<close>)
qed

lemma update_slot:
  assumes "slots_unique live key xs" "i < length xs" "live (xs ! i)" "live x" "key x = key (xs ! i)"
  shows "slots_unique live key (xs[i := x])" "slot_of live key (xs[i := x]) = slot_of live key xs"
proof -
  show u: "slots_unique live key (xs[i := x])"
    using assms unfolding slots_unique_def by (auto simp: nth_list_update)
  show "slot_of live key (xs[i := x]) = slot_of live key xs"
    using u by (rule slots_eqI) (use assms in \<open>auto simp: slot_iff nth_list_update\<close>)
qed

lemma clear_slot:
  assumes "slots_unique live key xs" "i < length xs" "live (xs ! i)"
  shows "slots_unique live key (xs[i := clear (xs ! i)])"
    "slot_of live key (xs[i := clear (xs ! i)]) = (slot_of live key xs)(key (xs ! i) := None)"
proof -
  show u: "slots_unique live key (xs[i := clear (xs ! i)])"
    using assms dead_clear unfolding slots_unique_def by (auto simp: nth_list_update)
  show "slot_of live key (xs[i := clear (xs ! i)]) = (slot_of live key xs)(key (xs ! i) := None)"
    using u by (rule slots_eqI)
      (use assms dead_clear slots_uniqueD [OF assms(1)] in \<open>auto simp: slot_iff nth_list_update\<close>)
qed

text \<open>Clearing every live entry with a given property.\<close>

lemma clear_all:
  fixes P :: "'a \<Rightarrow> bool"
  assumes "slots_unique live key xs"
  defines "ys \<equiv> map (\<lambda>x. if live x \<and> P x then clear x else x) xs"
  shows "slots_unique live key ys"
    "slot_of live key ys = (\<lambda>k. case slot_of live key xs k of
        None \<Rightarrow> None | Some i \<Rightarrow> if P (xs ! i) then None else Some i)"
proof -
  show u: "slots_unique live key ys"
    using assms dead_clear unfolding slots_unique_def ys_def by (auto split: if_splits)
  have eq: "i < length ys \<and> live (ys ! i) \<and> key (ys ! i) = k \<longleftrightarrow>
    i < length xs \<and> live (xs ! i) \<and> key (xs ! i) = k \<and> \<not> P (xs ! i)" for i k
    using dead_clear by (auto simp: ys_def split: if_splits)
  show "slot_of live key ys = (\<lambda>k. case slot_of live key xs k of
        None \<Rightarrow> None | Some i \<Rightarrow> if P (xs ! i) then None else Some i)"
    (is "_ = ?m")
  proof (rule slots_eqI [OF u])
    fix k j
    have "?m k = Some j \<longleftrightarrow> slot_of live key xs k = Some j \<and> \<not> P (xs ! j)" by (auto split: option.splits)
    then show "?m k = Some j \<longleftrightarrow> j < length ys \<and> live (ys ! j) \<and> key (ys ! j) = k"
      by (simp add: eq slot_iff [OF assms(1)])
  qed
qed

end

interpretation regs: slot_table rg_Live rg_Id "\<lambda>_. no_registration"
  by unfold_locales (simp add: no_registration_def)

interpretation waits: slot_table wt_Live wt_Connection "\<lambda>w. w\<lparr>wt_Live := False\<rparr>"
  by unfold_locales simp

subsection \<open>The invariant\<close>

definition registrations_ok :: "Registration list \<Rightarrow> nat \<Rightarrow> bool" where
  "registrations_ok xs n \<longleftrightarrow>
     length xs = MAX_MUX_REGISTRATIONS \<and> n = count_if rg_Live xs \<and> slots_unique rg_Live rg_Id xs \<and>
     (\<forall>uid. count_if (\<lambda>x. rg_Live x \<and> rg_Owner x = uid) xs \<le> MAX_REGISTRATIONS_PER_UID)"

definition waiting_ok :: "nat \<Rightarrow> Waiting list \<Rightarrow> nat \<Rightarrow> bool" where
  "waiting_ok slots ws n \<longleftrightarrow>
     length ws = MAX_PENDING_CONNECTIONS \<and> n = count_if wt_Live ws \<and> slots_unique wt_Live wt_Connection ws \<and>
     (\<forall>peer. count_if (\<lambda>w. wt_Live w \<and> wt_From w = peer) ws \<le> MAX_PENDING_PER_ADDRESS) \<and>
     (\<forall>i < length ws. wt_Live (ws ! i) \<longrightarrow> i < slots \<and> wt_Length (ws ! i) \<le> MUX_PENDING_BUFFER)"

definition mux_ok :: "MuxRouter \<Rightarrow> bool" where
  "mux_ok r \<longleftrightarrow>
     mx_Slots r = min MAX_PENDING_CONNECTIONS (length (mx_Storage r) div MUX_PENDING_BUFFER) \<and>
     registrations_ok (mx_Registrations r) (mx_RegistrationCount r) \<and>
     waiting_ok (mx_Slots r) (mx_Waiting r) (mx_PendingCount r)"

lemma mux_ok_registrations:
  "mux_ok r \<Longrightarrow> registrations_ok xs n \<Longrightarrow> mux_ok (r\<lparr>mx_Registrations := xs, mx_RegistrationCount := n\<rparr>)"
  by (auto simp: mux_ok_def)

lemma mux_ok_waiting:
  "mux_ok r \<Longrightarrow> waiting_ok (mx_Slots r) ws n \<Longrightarrow> mux_ok (r\<lparr>mx_Waiting := ws, mx_PendingCount := n\<rparr>)"
  by (auto simp: mux_ok_def)

text \<open>What the tables mean: who holds a session id, and what a pending connection has sent so far.\<close>

definition registered :: "MuxRouter \<Rightarrow> bytes \<rightharpoonup> MuxAgentId \<times> Uid" where
  "registered r sid =
     map_option (\<lambda>i. (rg_Agent (mx_Registrations r ! i), rg_Owner (mx_Registrations r ! i)))
       (slot_of rg_Live rg_Id (mx_Registrations r) sid)"

definition pending :: "MuxRouter \<Rightarrow> MuxConnectionId \<rightharpoonup> bytes \<times> PeerAddress \<times> Timestamp" where
  "pending r connection =
     map_option (\<lambda>i. let w = mx_Waiting r ! i in (take (wt_Length w) (BufferOf i r), wt_From w, wt_Until w))
       (slot_of wt_Live wt_Connection (mx_Waiting r) connection)"

lemma FindAgent_registered: "FindAgent sid r = map_option fst (registered r sid)"
  by (simp add: FindAgent_def registered_def slot_of_def option.map_comp comp_def)

lemma FindWaiting_slot: "FindWaiting c r = slot_of wt_Live wt_Connection (mx_Waiting r) c"
  by (simp add: FindWaiting_def slot_of_def)

lemma pending_frame:
  "mx_Waiting r' = mx_Waiting r \<Longrightarrow> mx_Storage r' = mx_Storage r \<Longrightarrow> pending r' = pending r"
  by (auto simp: pending_def BufferOf_def fun_eq_iff)

lemma registered_frame: "mx_Registrations r' = mx_Registrations r \<Longrightarrow> registered r' = registered r"
  by (simp add: registered_def fun_eq_iff)

lemma count_if_replicate_none: "\<not> P x \<Longrightarrow> count_if P (replicate n x) = 0"
  by (simp add: count_if_def)

lemma mux_ok_mk: "mux_ok (mk_MuxRouter storage)"
  by (simp add: mux_ok_def mk_MuxRouter_def registrations_ok_def waiting_ok_def slots_unique_def no_registration_def
      no_waiting_def count_if_replicate_none)

lemma registered_mk: "registered (mk_MuxRouter storage) = Map.empty"
  using find_index_None [of _ "replicate MAX_MUX_REGISTRATIONS no_registration"]
  by (simp add: fun_eq_iff registered_def slot_of_def mk_MuxRouter_def no_registration_def)

lemma pending_mk: "pending (mk_MuxRouter storage) = Map.empty"
  using find_index_None [of _ "replicate MAX_PENDING_CONNECTIONS no_waiting"]
  by (simp add: fun_eq_iff pending_def slot_of_def mk_MuxRouter_def no_waiting_def)

subsection \<open>Registering\<close>

lemma registrations_take:
  assumes "registrations_ok xs n" "i < length xs" "\<not> rg_Live (xs ! i)" "rg_Live x"
    and "slot_of rg_Live rg_Id xs (rg_Id x) = None"
    and "count_if (\<lambda>y. rg_Live y \<and> rg_Owner y = rg_Owner x) xs < MAX_REGISTRATIONS_PER_UID"
  shows "registrations_ok (xs[i := x]) (n + 1)"
proof -
  have "count_if (\<lambda>y. rg_Live y \<and> rg_Owner y = uid) (xs[i := x]) \<le> MAX_REGISTRATIONS_PER_UID" for uid
    using assms count_if_update [OF assms(2), of "\<lambda>y. rg_Live y \<and> rg_Owner y = uid" x]
    by (auto simp: registrations_ok_def split: if_splits)
  with assms regs.take_slot(1) [of xs i x] count_if_update [OF assms(2), of rg_Live x] show ?thesis
    by (simp add: registrations_ok_def)
qed

lemma registrations_move:
  assumes "registrations_ok xs n" "i < length xs" "rg_Live (xs ! i)"
  shows "registrations_ok (xs[i := (xs ! i)\<lparr>rg_Agent := agent\<rparr>]) n"
proof -
  let ?x = "(xs ! i)\<lparr>rg_Agent := agent\<rparr>"
  have "count_if P (xs[i := ?x]) = count_if P xs" if "P ?x \<longleftrightarrow> P (xs ! i)" for P
    using count_if_update [OF assms(2), of P ?x] that by simp
  with assms regs.update_slot(1) [of xs i ?x] show ?thesis
    by (simp add: registrations_ok_def)
qed

lemma registered_move:
  assumes "mux_ok r" "slot_of rg_Live rg_Id (mx_Registrations r) sid = Some i"
    and r': "r' = r\<lparr>mx_Registrations := (mx_Registrations r)[i := (mx_Registrations r ! i)\<lparr>rg_Agent := agent\<rparr>]\<rparr>"
  shows "registered r' = (registered r)(sid \<mapsto> (agent, rg_Owner (mx_Registrations r ! i)))" "mux_ok r'"
    "pending r' = pending r"
proof -
  let ?xs = "mx_Registrations r"
  have i: "i < length ?xs" "rg_Live (?xs ! i)" "rg_Id (?xs ! i) = sid" using assms(2) regs.slot_SomeD by auto
  have ok: "registrations_ok ?xs (mx_RegistrationCount r)" and u: "slots_unique rg_Live rg_Id ?xs"
    using assms(1) by (auto simp: mux_ok_def registrations_ok_def)
  have "slot_of rg_Live rg_Id (mx_Registrations r') = slot_of rg_Live rg_Id ?xs"
    using i u by (simp add: r' regs.update_slot)
  then have "registered r' k = ((registered r)(sid \<mapsto> (agent, rg_Owner (?xs ! i)))) k" for k
    using assms(2) i u by (auto simp: registered_def r' nth_list_update regs.slot_iff
        intro!: option.map_cong0 dest: regs.slot_SomeD)
  then show "registered r' = (registered r)(sid \<mapsto> (agent, rg_Owner (?xs ! i)))" by blast
  show "mux_ok r'" "pending r' = pending r"
    using assms(1) registrations_move [OF ok i(1,2), of agent]
    by (auto simp: mux_ok_def r' intro: pending_frame)
qed

lemma registered_fresh:
  assumes "mux_ok r" "slot_of rg_Live rg_Id (mx_Registrations r) sid = None"
    and "find_index (\<lambda>x. \<not> rg_Live x) (mx_Registrations r) = Some i"
    and "count_if (\<lambda>y. rg_Live y \<and> rg_Owner y = uid) (mx_Registrations r) < MAX_REGISTRATIONS_PER_UID"
    and r': "r' = r\<lparr>mx_Registrations :=
         (mx_Registrations r)[i := \<lparr>rg_Id = sid, rg_Agent = agent, rg_Owner = uid, rg_Live = True\<rparr>],
       mx_RegistrationCount := mx_RegistrationCount r + 1\<rparr>"
  shows "registered r' = (registered r)(sid \<mapsto> (agent, uid))" "mux_ok r'" "pending r' = pending r"
proof -
  let ?xs = "mx_Registrations r" and ?x = "\<lparr>rg_Id = sid, rg_Agent = agent, rg_Owner = uid, rg_Live = True\<rparr>"
  have i: "i < length ?xs" "\<not> rg_Live (?xs ! i)" using assms(3) find_index_Some by fastforce+
  have ok: "registrations_ok ?xs (mx_RegistrationCount r)" and u: "slots_unique rg_Live rg_Id ?xs"
    using assms(1) by (auto simp: mux_ok_def registrations_ok_def)
  have "slot_of rg_Live rg_Id (mx_Registrations r') = (slot_of rg_Live rg_Id ?xs)(sid \<mapsto> i)"
    using i u assms(2) regs.take_slot(2) [of ?xs i ?x] by (simp add: r')
  then have "registered r' k = ((registered r)(sid \<mapsto> (agent, uid))) k" for k
    using i by (auto simp: registered_def r' nth_list_update intro!: option.map_cong0 dest: regs.slot_SomeD)
  then show "registered r' = (registered r)(sid \<mapsto> (agent, uid))" by blast
  show "mux_ok r'" "pending r' = pending r"
    using assms(1,2,4) registrations_take [OF ok i, of ?x]
    by (auto simp: mux_ok_def r' intro: pending_frame)
qed

text \<open>Every answer of \<open>Register\<close>, and what it means for the map.\<close>

lemma Register_cases:
  fixes S registration
  assumes "mux_ok r"
  defines "sid \<equiv> SessionIdOf S registration"
  obtains
    (held) a o' where "Register S agent uid registration r = (Inl Taken, r)"
        "registered r sid = Some (a, o')" "o' \<noteq> uid"
  | (full) "Register S agent uid registration r = (Inl Limit, r)" "registered r sid = None"
        "count_if (\<lambda>x. rg_Live x \<and> rg_Owner x = uid) (mx_Registrations r) = MAX_REGISTRATIONS_PER_UID \<or>
         mx_RegistrationCount r = MAX_MUX_REGISTRATIONS"
  | (ok) r' where "Register S agent uid registration r = (Inr (), r')"
        "\<forall>a o'. registered r sid = Some (a, o') \<longrightarrow> o' = uid" "registered r' = (registered r)(sid \<mapsto> (agent, uid))"
        "mux_ok r'" "pending r' = pending r"
proof -
  let ?xs = "mx_Registrations r"
  have tab: "registrations_ok ?xs (mx_RegistrationCount r)" using assms(1) by (auto simp: mux_ok_def)
  note R = Register_def Let_def slot_of_def [symmetric] sid_def [symmetric]
  consider (a) i where "slot_of rg_Live rg_Id ?xs sid = Some i"
    | (b) "slot_of rg_Live rg_Id ?xs sid = None"
          "count_if (\<lambda>x. rg_Live x \<and> rg_Owner x = uid) ?xs \<ge> MAX_REGISTRATIONS_PER_UID"
    | (c) "slot_of rg_Live rg_Id ?xs sid = None" "find_index (\<lambda>x. \<not> rg_Live x) ?xs = None"
          "count_if (\<lambda>x. rg_Live x \<and> rg_Owner x = uid) ?xs < MAX_REGISTRATIONS_PER_UID"
    | (d) i where "slot_of rg_Live rg_Id ?xs sid = None" "find_index (\<lambda>x. \<not> rg_Live x) ?xs = Some i"
          "count_if (\<lambda>x. rg_Live x \<and> rg_Owner x = uid) ?xs < MAX_REGISTRATIONS_PER_UID"
    by (meson not_Some_eq not_le)
  then show thesis
  proof cases
    case a
    then have reg: "registered r sid = Some (rg_Agent (?xs ! i), rg_Owner (?xs ! i))" by (simp add: registered_def)
    with a registered_move [OF assms(1) a refl, of agent] show thesis
      by (cases "rg_Owner (?xs ! i) = uid") (auto simp: R intro: held ok)
  next
    case b
    with tab show thesis by (intro full) (auto simp: R registered_def registrations_ok_def intro: antisym)
  next
    case c
    then have "filter rg_Live ?xs = ?xs" by (auto simp: find_index_None filter_id_conv in_set_conv_nth)
    with c tab show thesis by (intro full) (auto simp: R registered_def registrations_ok_def count_if_def)
  next
    case d
    show thesis
      by (rule ok [OF _ _ registered_fresh [OF assms(1) d refl, of agent]]) (use d in \<open>auto simp: R registered_def\<close>)
  qed
qed

lemma unregister_loop_eq:
  "unregister_loop agent xs =
     (map (\<lambda>x. if rg_Live x \<and> rg_Agent x = agent then no_registration else x) xs,
      count_if (\<lambda>x. rg_Live x \<and> rg_Agent x = agent) xs)"
  by (induction xs) (auto simp: count_if_def)

lemma count_if_map_le:
  "(\<And>x. P (f x) \<Longrightarrow> P x) \<Longrightarrow> count_if P (map f xs) \<le> count_if P xs"
  by (induction xs) (auto simp: count_if_def)

lemma count_live_cleared:
  "count_if rg_Live (map (\<lambda>x. if rg_Live x \<and> P x then no_registration else x) xs) =
   count_if rg_Live xs - count_if (\<lambda>x. rg_Live x \<and> P x) xs"
proof -
  have "count_if rg_Live (map (\<lambda>x. if rg_Live x \<and> P x then no_registration else x) xs) +
      count_if (\<lambda>x. rg_Live x \<and> P x) xs = count_if rg_Live xs"
    by (induction xs) (auto simp: count_if_def no_registration_def)
  then show ?thesis by simp
qed

lemma Unregister_map:
  assumes "mux_ok r"
  shows "registered (Unregister agent r) =
      (\<lambda>sid. case registered r sid of None \<Rightarrow> None | Some (a, o') \<Rightarrow> if a = agent then None else Some (a, o'))"
    "mux_ok (Unregister agent r)" "pending (Unregister agent r) = pending r"
proof -
  let ?xs = "mx_Registrations r"
  have tab: "registrations_ok ?xs (mx_RegistrationCount r)" and u: "slots_unique rg_Live rg_Id ?xs"
    using assms by (auto simp: mux_ok_def registrations_ok_def)
  let ?ys = "map (\<lambda>x. if rg_Live x \<and> rg_Agent x = agent then no_registration else x) ?xs"
  have eq: "Unregister agent r = r\<lparr>mx_Registrations := ?ys,
      mx_RegistrationCount := mx_RegistrationCount r - count_if (\<lambda>x. rg_Live x \<and> rg_Agent x = agent) ?xs\<rparr>"
    by (simp add: Unregister_def unregister_loop_eq)
  have "registrations_ok ?ys (mx_RegistrationCount r - count_if (\<lambda>x. rg_Live x \<and> rg_Agent x = agent) ?xs)"
    unfolding registrations_ok_def
    using tab regs.clear_all(1) [OF u, of "\<lambda>x. rg_Agent x = agent"]
    by (auto simp: registrations_ok_def count_live_cleared no_registration_def
        intro: order_trans [OF count_if_map_le] split: if_splits)
  with assms show "mux_ok (Unregister agent r)" unfolding eq by (rule mux_ok_registrations)
  show "pending (Unregister agent r) = pending r" by (rule pending_frame) (simp_all add: eq)
  show "registered (Unregister agent r) =
      (\<lambda>sid. case registered r sid of None \<Rightarrow> None | Some (a, o') \<Rightarrow> if a = agent then None else Some (a, o'))"
    using regs.slot_SomeD [of ?xs]
    by (auto simp: registered_def eq regs.clear_all(2) [OF u] fun_eq_iff split: option.splits)
qed

subsection \<open>Pending connections as a map\<close>

lemma waiting_okD:
  assumes "mux_ok r" "slot_of wt_Live wt_Connection (mx_Waiting r) c = Some i"
  shows "i < length (mx_Waiting r)" "wt_Live (mx_Waiting r ! i)" "wt_Connection (mx_Waiting r ! i) = c"
    "i < mx_Slots r" "wt_Length (mx_Waiting r ! i) \<le> MUX_PENDING_BUFFER" "slots_unique wt_Live wt_Connection (mx_Waiting r)"
  using waits.slot_SomeD [OF assms(2)] assms(1) by (auto simp: mux_ok_def waiting_ok_def)

lemma slot_fits:
  assumes "mux_ok r" "i < mx_Slots r"
  shows "i * MUX_PENDING_BUFFER + MUX_PENDING_BUFFER \<le> length (mx_Storage r)"
proof -
  have "Suc i \<le> length (mx_Storage r) div MUX_PENDING_BUFFER" using assms by (auto simp: mux_ok_def)
  then have "Suc i * MUX_PENDING_BUFFER \<le> length (mx_Storage r) div MUX_PENDING_BUFFER * MUX_PENDING_BUFFER"
    by (rule mult_le_mono1)
  also have "\<dots> \<le> length (mx_Storage r)" by simp
  finally show ?thesis by simp
qed

lemma length_BufferOf: "mux_ok r \<Longrightarrow> i < mx_Slots r \<Longrightarrow> length (BufferOf i r) = MUX_PENDING_BUFFER"
  using slot_fits by (fastforce simp: BufferOf_def)

lemma Release_map:
  assumes "mux_ok r" "slot_of wt_Live wt_Connection (mx_Waiting r) c = Some i"
  shows "mux_ok (Release i r)" "pending (Release i r) = (pending r)(c := None)"
    "registered (Release i r) = registered r"
proof -
  let ?ws = "mx_Waiting r" and ?w = "(mx_Waiting r ! i)\<lparr>wt_Live := False\<rparr>"
  note i = waiting_okD [OF assms]
  have cl: "slots_unique wt_Live wt_Connection (?ws[i := ?w])"
    "slot_of wt_Live wt_Connection (?ws[i := ?w]) = (slot_of wt_Live wt_Connection ?ws)(c := None)"
    using waits.clear_slot [OF i(6,1,2)] i(3) by simp_all
  have "count_if (\<lambda>w. wt_Live w \<and> wt_From w = peer) (?ws[i := ?w]) \<le> MAX_PENDING_PER_ADDRESS" for peer
  proof -
    have "count_if (\<lambda>w. wt_Live w \<and> wt_From w = peer) ?ws \<le> MAX_PENDING_PER_ADDRESS"
      using assms(1) by (simp add: mux_ok_def waiting_ok_def)
    with count_if_update [OF i(1), of "\<lambda>w. wt_Live w \<and> wt_From w = peer" ?w] show ?thesis by simp
  qed
  then show "mux_ok (Release i r)"
    using assms(1) cl(1) i count_if_update [OF i(1), of wt_Live ?w]
    by (auto simp: mux_ok_def waiting_ok_def Release_def nth_list_update)
  show "pending (Release i r) = (pending r)(c := None)"
  proof
    fix d
    have new: "slot_of wt_Live wt_Connection (mx_Waiting (Release i r)) d =
        (if d = c then None else slot_of wt_Live wt_Connection ?ws d)"
      using cl(2) by (simp add: Release_def)
    have "mx_Waiting (Release i r) ! j = ?ws ! j \<and> BufferOf j (Release i r) = BufferOf j r" if "j \<noteq> i" for j
      using that by (simp add: Release_def BufferOf_def)
    moreover have "j \<noteq> i" if "slot_of wt_Live wt_Connection ?ws d = Some j" "d \<noteq> c" for j
      using waits.slot_SomeD [OF that(1)] that(2) i(3) by auto
    ultimately show "pending (Release i r) d = ((pending r)(c := None)) d"
      unfolding pending_def new by (cases "slot_of wt_Live wt_Connection ?ws d") auto
  qed
  show "registered (Release i r) = registered r" by (rule registered_frame) (simp add: Release_def)
qed

lemma mx_Closed_map:
  assumes "mux_ok r"
  shows "mux_ok (mx_Closed c r)" "pending (mx_Closed c r) = (pending r)(c := None)" "registered (mx_Closed c r) = registered r"
proof -
  have "(pending r)(c := None) = pending r" if "slot_of wt_Live wt_Connection (mx_Waiting r) c = None"
    using that by (auto simp: pending_def fun_eq_iff)
  then show "mux_ok (mx_Closed c r)" "pending (mx_Closed c r) = (pending r)(c := None)"
    "registered (mx_Closed c r) = registered r"
    using assms Release_map [OF assms, of c]
    by (auto simp: mx_Closed_def FindWaiting_slot split: option.splits)
qed

lemma waiting_take:
  assumes "waiting_ok slots ws n" "i < length ws" "i < slots" "\<not> wt_Live (ws ! i)" "wt_Live w" "wt_Length w \<le> MUX_PENDING_BUFFER"
    and "slot_of wt_Live wt_Connection ws (wt_Connection w) = None"
    and "count_if (\<lambda>y. wt_Live y \<and> wt_From y = wt_From w) ws < MAX_PENDING_PER_ADDRESS"
  shows "waiting_ok slots (ws[i := w]) (n + 1)"
proof -
  have "count_if (\<lambda>y. wt_Live y \<and> wt_From y = peer) (ws[i := w]) \<le> MAX_PENDING_PER_ADDRESS" for peer
    using assms count_if_update [OF assms(2), of "\<lambda>y. wt_Live y \<and> wt_From y = peer" w]
    by (auto simp: waiting_ok_def split: if_splits)
  with assms waits.take_slot(1) [of ws i w] count_if_update [OF assms(2), of wt_Live w] show ?thesis
    by (simp add: waiting_ok_def nth_list_update)
qed

lemma all_slots_live:
  assumes "waiting_ok slots ws n" "slots \<le> length ws" "find_index (\<lambda>w. \<not> wt_Live w) (take slots ws) = None"
  shows "n = slots"
proof -
  have "filter wt_Live (take slots ws) = take slots ws"
    using assms(2,3) by (auto simp: find_index_None filter_id_conv in_set_conv_nth)
  moreover have "\<not> wt_Live w" if "w \<in> set (drop slots ws)" for w
  proof -
    from that obtain k where "k < length (drop slots ws)" and w: "w = drop slots ws ! k" by (auto simp: in_set_conv_nth)
    then have "slots + k < length ws" "w = ws ! (slots + k)" by (auto simp: nth_drop)
    with assms(1) show ?thesis unfolding waiting_ok_def by (metis not_add_less1)
  qed
  ultimately have "filter wt_Live (take slots ws @ drop slots ws) = take slots ws"
    by (simp only: filter_append) (simp add: filter_empty_conv)
  with assms(1,2) show ?thesis by (simp add: waiting_ok_def count_if_def)
qed

lemma pending_cong:
  assumes "slot_of wt_Live wt_Connection (mx_Waiting r') d = slot_of wt_Live wt_Connection (mx_Waiting r) d"
    and "\<And>j. slot_of wt_Live wt_Connection (mx_Waiting r) d = Some j \<Longrightarrow>
      mx_Waiting r' ! j = mx_Waiting r ! j \<and> BufferOf j r' = BufferOf j r"
  shows "pending r' d = pending r d"
  using assms by (cases "slot_of wt_Live wt_Connection (mx_Waiting r) d") (auto simp: pending_def)

lemma mx_Accept_cases:
  fixes c peer now
  assumes "mux_ok r"
  obtains
    (known) "mx_Accept c peer now r = (Inl CloseUnknown, r)" "pending r c \<noteq> None"
  | (full) "mx_Accept c peer now r = (Inl CloseLimit, r)" "pending r c = None"
      "count_if (\<lambda>w. wt_Live w \<and> wt_From w = peer) (mx_Waiting r) = MAX_PENDING_PER_ADDRESS \<or>
       mx_PendingCount r = mx_Slots r"
  | (ok) r' where "mx_Accept c peer now r = (Inr (), r')" "pending r c = None"
      "pending r' = (pending r)(c \<mapsto> ([], peer, now + HANDSHAKE_TIMEOUT))" "mux_ok r'" "registered r' = registered r"
proof -
  let ?ws = "mx_Waiting r" and ?mine = "\<lambda>w. wt_Live w \<and> wt_From w = peer"
  have tab: "waiting_ok (mx_Slots r) ?ws (mx_PendingCount r)" and le: "mx_Slots r \<le> length ?ws"
    using assms by (auto simp: mux_ok_def waiting_ok_def)
  have share: "count_if ?mine ?ws \<le> MAX_PENDING_PER_ADDRESS" using tab by (simp add: waiting_ok_def)
  note A = mx_Accept_def FindWaiting_slot
  consider (a) "slot_of wt_Live wt_Connection ?ws c \<noteq> None"
    | (b) "slot_of wt_Live wt_Connection ?ws c = None" "count_if ?mine ?ws \<ge> MAX_PENDING_PER_ADDRESS"
    | (c) "slot_of wt_Live wt_Connection ?ws c = None" "count_if ?mine ?ws < MAX_PENDING_PER_ADDRESS"
        "find_index (\<lambda>w. \<not> wt_Live w) (take (mx_Slots r) ?ws) = None"
    | (d) i where "slot_of wt_Live wt_Connection ?ws c = None" "count_if ?mine ?ws < MAX_PENDING_PER_ADDRESS"
        "find_index (\<lambda>w. \<not> wt_Live w) (take (mx_Slots r) ?ws) = Some i"
    by (meson not_Some_eq not_le)
  then show thesis
  proof cases
    case a
    then show thesis by (intro known) (auto simp: A pending_def)
  next
    case b
    with share show thesis by (intro full) (auto simp: A pending_def)
  next
    case c
    with all_slots_live [OF tab le] show thesis by (intro full) (auto simp: A pending_def)
  next
    case d
    let ?w = "\<lparr>wt_Connection = c, wt_From = peer, wt_Until = now + HANDSHAKE_TIMEOUT, wt_Length = 0, wt_Live = True\<rparr>"
    define r' where "r' = r\<lparr>mx_Waiting := ?ws[i := ?w], mx_PendingCount := mx_PendingCount r + 1\<rparr>"
    have i: "i < length ?ws" "i < mx_Slots r" "\<not> wt_Live (?ws ! i)" using find_index_Some [OF d(3)] by auto
    have "mux_ok r'" unfolding r'_def using assms waiting_take [OF tab i, of ?w] d by (simp add: mux_ok_waiting)
    moreover have "registered r' = registered r" by (rule registered_frame) (simp add: r'_def)
    moreover have "pending r' k = ((pending r)(c \<mapsto> ([], peer, now + HANDSHAKE_TIMEOUT))) k" for k
    proof -
      have new: "slot_of wt_Live wt_Connection (mx_Waiting r') = (slot_of wt_Live wt_Connection ?ws)(c \<mapsto> i)"
        using waits.take_slot(2) [of ?ws i ?w] tab i d by (simp add: r'_def waiting_ok_def)
      show ?thesis
      proof (cases "k = c")
        case True
        with new i show ?thesis by (simp add: pending_def r'_def)
      next
        case False
        have "pending r' k = pending r k"
          by (rule pending_cong) (use False new i in \<open>auto simp: r'_def BufferOf_def nth_list_update dest: waits.slot_SomeD\<close>)
        with False show ?thesis by simp
      qed
    qed
    ultimately show thesis using d by (intro ok [of r']) (auto simp: A r'_def pending_def)
  qed
qed

subsection \<open>Feeding\<close>

lemma blit_elsewhere:
  assumes "at + length t \<le> length xs" "s + n \<le> at \<or> at + length t \<le> s"
  shows "take n (drop s (blit xs at t)) = take n (drop s xs)"
  by (rule nth_equalityI) (use assms in \<open>auto simp: nth_blit\<close>)

lemma blit_own:
  assumes "l + length t \<le> n" "s + n \<le> length xs"
  shows "take (l + length t) (take n (drop s (blit xs (s + l) t))) = take l (take n (drop s xs)) @ t"
  by (rule nth_equalityI) (use assms in \<open>auto simp: nth_blit nth_append\<close>)

lemma mx_Store_map:
  assumes "mux_ok r" "slot_of wt_Live wt_Connection (mx_Waiting r) c = Some i"
    and "wt_Length (mx_Waiting r ! i) + length t \<le> MUX_PENDING_BUFFER"
    and "pending r c = Some (hs, peer, until)"
  shows "mux_ok (mx_Store i t r)" "slot_of wt_Live wt_Connection (mx_Waiting (mx_Store i t r)) c = Some i"
    "pending (mx_Store i t r) = (pending r)(c \<mapsto> (hs @ t, peer, until))"
    "registered (mx_Store i t r) = registered r"
proof -
  let ?ws = "mx_Waiting r" and ?B = MUX_PENDING_BUFFER
  let ?w = "(?ws ! i)\<lparr>wt_Length := wt_Length (?ws ! i) + length t\<rparr>"
  define at where "at = i * ?B + wt_Length (?ws ! i)"
  note i = waiting_okD [OF assms(1,2)]
  have eq: "mx_Store i t r = r\<lparr>mx_Storage := blit (mx_Storage r) at t, mx_Waiting := ?ws[i := ?w]\<rparr>"
    by (simp add: mx_Store_def Let_def at_def)
  have fits: "i * ?B + ?B \<le> length (mx_Storage r)" "at + length t \<le> length (mx_Storage r)"
    using slot_fits [OF assms(1) i(4)] assms(3) by (auto simp: at_def)
  have up: "slots_unique wt_Live wt_Connection (?ws[i := ?w])"
    "slot_of wt_Live wt_Connection (?ws[i := ?w]) = slot_of wt_Live wt_Connection ?ws"
    using waits.update_slot [OF i(6,1,2), of ?w] i(2) by simp_all
  have cnt: "count_if P (?ws[i := ?w]) = count_if P ?ws" if "P ?w \<longleftrightarrow> P (?ws ! i)" for P
    using count_if_update [OF i(1), of P ?w] that by simp
  show "mux_ok (mx_Store i t r)"
    using assms(1,3) up(1) cnt [of wt_Live] cnt [of "\<lambda>w. wt_Live w \<and> wt_From w = peer" for peer] i fits
    by (auto simp: mux_ok_def waiting_ok_def eq nth_list_update)
  show "slot_of wt_Live wt_Connection (mx_Waiting (mx_Store i t r)) c = Some i"
    using assms(2) up(2) by (simp add: eq)
  show "registered (mx_Store i t r) = registered r" by (rule registered_frame) (simp add: eq)
  show "pending (mx_Store i t r) = (pending r)(c \<mapsto> (hs @ t, peer, until))"
  proof
    fix d
    show "pending (mx_Store i t r) d = ((pending r)(c \<mapsto> (hs @ t, peer, until))) d"
    proof (cases "d = c")
      case True
      have "take (wt_Length (?ws ! i) + length t) (BufferOf i (mx_Store i t r)) = take (wt_Length (?ws ! i)) (BufferOf i r) @ t"
        using blit_own [OF assms(3) fits(1)] by (simp add: BufferOf_def eq at_def)
      with True assms(2,4) up(2) i(1) show ?thesis by (auto simp: pending_def eq Let_def)
    next
      case False
      have "pending (mx_Store i t r) d = pending r d"
      proof (rule pending_cong)
        fix j assume "slot_of wt_Live wt_Connection ?ws d = Some j"
        then have "j \<noteq> i" using False i(3) waits.slot_SomeD by metis
        then have "j * ?B + ?B \<le> at \<or> at + length t \<le> j * ?B"
          using assms(3) mult_le_mono1 [of "Suc j" i ?B] mult_le_mono1 [of "Suc i" j ?B]
          by (cases "j < i") (auto simp: at_def)
        with \<open>j \<noteq> i\<close> show "mx_Waiting (mx_Store i t r) ! j = ?ws ! j \<and> BufferOf j (mx_Store i t r) = BufferOf j r"
          using blit_elsewhere [OF fits(2)] by (simp add: eq BufferOf_def)
      qed (simp add: eq up(2))
      with False show ?thesis by simp
    qed
  qed
qed

text \<open>
  The answer to a chunk depends on nothing but what this connection has sent and on who holds the
  session id named there; only this connection's entry changes.
\<close>

definition feed_answer :: "MuxConnectionId \<Rightarrow> bytes \<Rightarrow> bool \<Rightarrow> (bytes \<rightharpoonup> MuxAgentId \<times> Uid) \<Rightarrow> MuxDecision" where
  "feed_answer c hs whole owners =
     (case PeekHello hs of
        Inl e \<Rightarrow> if e = Truncated \<and> whole then MuxNeedMore else MuxClose c CloseMalformed
      | Inr peek \<Rightarrow> (case owners (hp_Id peek) of
            Some (agent, _) \<Rightarrow> MuxHandoffTo c agent hs
          | None \<Rightarrow> MuxDecoy c hs))"

lemma mx_Feed_map:
  fixes bs
  assumes "mux_ok r" "pending r c = Some (hs, peer, until)"
  defines "now \<equiv> hs @ take (MUX_PENDING_BUFFER - length hs) bs"
    and "whole \<equiv> length hs + length bs \<le> MUX_PENDING_BUFFER"
  shows "fst (mx_Feed c bs r) = feed_answer c now whole (registered r)"
    "pending (snd (mx_Feed c bs r)) =
       (pending r)(c := if fst (mx_Feed c bs r) = MuxNeedMore then Some (now, peer, until) else None)"
    "mux_ok (snd (mx_Feed c bs r))" "registered (snd (mx_Feed c bs r)) = registered r"
proof -
  let ?ws = "mx_Waiting r" and ?B = MUX_PENDING_BUFFER
  from assms(2) obtain i where slot: "slot_of wt_Live wt_Connection ?ws c = Some i"
    and h: "hs = take (wt_Length (?ws ! i)) (BufferOf i r)"
    by (auto simp: pending_def Let_def)
  note i = waiting_okD [OF assms(1) slot]
  have len: "length (BufferOf i r) = ?B" using length_BufferOf [OF assms(1) i(4)] .
  then have lh: "length hs = wt_Length (?ws ! i)" using i(5) by (simp add: h)
  define t where "t = take (?B - length hs) bs"
  have t: "take (min (?B - length hs) (length bs)) bs = t" "wt_Length (?ws ! i) + length t \<le> ?B"
    "min (?B - length hs) (length bs) = length bs \<longleftrightarrow> whole"
    using i(5) lh by (auto simp: t_def whole_def min_def)
  define r1 where "r1 = mx_Store i t r"
  note st = mx_Store_map [OF assms(1) slot t(2) assms(2), folded r1_def]
  have "pending r1 c = Some (now, peer, until)" using st(3) by (simp add: now_def t_def)
  then have h1: "take (wt_Length (mx_Waiting r1 ! i)) (BufferOf i r1) = now"
    using st(2) by (simp add: pending_def Let_def)
  note rel = Release_map [OF st(1,2)]
  have F: "mx_Feed c bs r =
      (case PeekHello now of
         Inl e \<Rightarrow> if e = Truncated \<and> whole then (MuxNeedMore, r1) else (MuxClose c CloseMalformed, Release i r1)
       | Inr peek \<Rightarrow> (case FindAgent (hp_Id peek) (Release i r1) of
            Some agent \<Rightarrow> MuxHandoffTo c agent now | None \<Rightarrow> MuxDecoy c now, Release i r1))"
    unfolding mx_Feed_def FindWaiting_slot slot option.case Let_def len lh [symmetric] t(1,3) r1_def [symmetric] h1 ..
  show "fst (mx_Feed c bs r) = feed_answer c now whole (registered r)"
    using rel(3) st(4) by (auto simp: F feed_answer_def FindAgent_registered split: sum.splits option.splits)
  show "pending (snd (mx_Feed c bs r)) =
       (pending r)(c := if fst (mx_Feed c bs r) = MuxNeedMore then Some (now, peer, until) else None)"
    using rel(2) st(3) by (auto simp: F now_def t_def split: sum.splits option.splits)
  show "mux_ok (snd (mx_Feed c bs r))" using rel(1) st(1) by (auto simp: F split: sum.splits)
  show "registered (snd (mx_Feed c bs r)) = registered r" using rel(3) st(4) by (auto simp: F split: sum.splits)
qed

lemma mx_Feed_unknown: "pending r c = None \<Longrightarrow> mx_Feed c bs r = (MuxClose c CloseUnknown, r)"
  by (simp add: mx_Feed_def FindWaiting_slot pending_def)

subsection \<open>Expiry\<close>

definition overdue :: "Timestamp \<Rightarrow> MuxRouter \<Rightarrow> MuxConnectionId \<Rightarrow> bool" where
  "overdue now r c \<longleftrightarrow> (\<exists>hs peer until. pending r c = Some (hs, peer, until) \<and> until \<le> now)"

lemma overdue_iff:
  assumes "mux_ok r"
  shows "overdue now r c \<longleftrightarrow> (\<exists>i < length (mx_Waiting r). wt_Live (mx_Waiting r ! i) \<and>
    wt_Connection (mx_Waiting r ! i) = c \<and> wt_Until (mx_Waiting r ! i) \<le> now)"
proof -
  have "slots_unique wt_Live wt_Connection (mx_Waiting r)" using assms by (simp add: mux_ok_def waiting_ok_def)
  from waits.slot_iff [OF this] show ?thesis by (auto simp: overdue_def pending_def Let_def)
qed

lemma mx_Expire_None: "mux_ok r \<Longrightarrow> mx_Expire now r = (None, r') \<Longrightarrow> r' = r \<and> (\<forall>c. \<not> overdue now r c)"
  by (auto simp: mx_Expire_def overdue_iff find_index_None split: option.splits)

lemma mx_Expire_Some:
  assumes "mux_ok r" "mx_Expire now r = (Some (c, reason), r')"
  shows "reason = CloseExpired" "overdue now r c" "mux_ok r'" "pending r' = (pending r)(c := None)" "registered r' = registered r"
proof -
  from assms(2) obtain i where ix: "find_index (\<lambda>w. wt_Live w \<and> wt_Until w \<le> now) (mx_Waiting r) = Some i"
    and c: "c = wt_Connection (mx_Waiting r ! i)" "r' = Release i r" and "reason = CloseExpired"
    by (auto simp: mx_Expire_def split: option.splits)
  then show "reason = CloseExpired" by simp
  have i: "i < length (mx_Waiting r)" "wt_Live (mx_Waiting r ! i)" "wt_Until (mx_Waiting r ! i) \<le> now"
    using find_index_Some [OF ix] by auto
  then show "overdue now r c" using c assms(1) by (auto simp: overdue_iff)
  have "slot_of wt_Live wt_Connection (mx_Waiting r) c = Some i"
    using assms(1) i by (simp add: c mux_ok_def waiting_ok_def waits.slot_SomeI)
  from Release_map [OF assms(1) this] show "mux_ok r'" "pending r' = (pending r)(c := None)" "registered r' = registered r"
    by (simp_all add: c)
qed

text \<open>The loop of \<open>Mux::Run\<close> that calls \<open>Expire\<close> until it has nothing more to say.\<close>

function expire_loop :: "Timestamp \<Rightarrow> MuxRouter \<Rightarrow> MuxConnectionId list \<times> MuxRouter" where
  "expire_loop now r =
     (case mx_Expire now r of
        (None, r') \<Rightarrow> ([], r')
      | (Some (c, _), r') \<Rightarrow> (let (cs, r'') = expire_loop now r' in (c # cs, r'')))"
  by pat_completeness auto

lemma mx_Expire_decreases:
  assumes "mx_Expire now r = (Some x, r')"
  shows "count_if wt_Live (mx_Waiting r') < count_if wt_Live (mx_Waiting r)"
proof -
  from assms obtain i where ix: "find_index (\<lambda>w. wt_Live w \<and> wt_Until w \<le> now) (mx_Waiting r) = Some i" and "r' = Release i r"
    by (auto simp: mx_Expire_def split: option.splits)
  with find_index_Some [OF ix] count_if_update [of i "mx_Waiting r" wt_Live "(mx_Waiting r ! i)\<lparr>wt_Live := False\<rparr>"]
  show ?thesis by (simp add: Release_def)
qed

termination expire_loop
  by (relation "measure (\<lambda>(now, r). count_if wt_Live (mx_Waiting r))") (auto dest: mx_Expire_decreases [OF sym])

declare expire_loop.simps [simp del]

lemma expire_loop_map:
  assumes "mux_ok r" "expire_loop now r = (cs, r')"
  shows "mux_ok r' \<and> registered r' = registered r \<and> set cs = {c. overdue now r c} \<and> distinct cs \<and>
    pending r' = (\<lambda>c. if overdue now r c then None else pending r c)"
  using assms
proof (induction now r arbitrary: cs r' rule: expire_loop.induct)
  case (1 now r)
  obtain x r1 where e: "mx_Expire now r = (x, r1)" by (cases "mx_Expire now r")
  show ?case
  proof (cases x)
    case None
    with 1 e mx_Expire_None [of r now r1] show ?thesis by (subst (asm) (2) expire_loop.simps) auto
  next
    case (Some y)
    obtain c reason where y: "y = (c, reason)" by (cases y)
    obtain ds r2 where rec: "expire_loop now r1 = (ds, r2)" by (cases "expire_loop now r1")
    have out: "cs = c # ds" "r' = r2"
      using 1(3) e Some y rec by (subst (asm) expire_loop.simps; simp)+
    note E = mx_Expire_Some [OF 1(2) e [unfolded Some y]]
    have IH: "mux_ok r2 \<and> registered r2 = registered r1 \<and> set ds = {c. overdue now r1 c} \<and> distinct ds \<and>
      pending r2 = (\<lambda>c. if overdue now r1 c then None else pending r1 c)"
      using 1(1) [OF e [symmetric] Some y [symmetric] E(3) rec] .
    have ov: "overdue now r1 d \<longleftrightarrow> overdue now r d \<and> d \<noteq> c" for d
      using E(4) by (auto simp: overdue_def)
    from IH E(2,4,5) show ?thesis by (auto simp: out ov fun_eq_iff)
  qed
qed

lemma HasExpired_deadlines:
  "HasExpired (fold (\<lambda>w earliest. if wt_Live w then Earliest earliest (deadline_at (wt_Until w)) else earliest) ws d) now \<longleftrightarrow>
   HasExpired d now \<or> (\<exists>w \<in> set ws. wt_Live w \<and> wt_Until w \<le> now)"
  by (induction ws arbitrary: d) (auto simp: HasExpired_Earliest)

lemma mx_NextDeadline_iff: "mux_ok r \<Longrightarrow> HasExpired (mx_NextDeadline r) now \<longleftrightarrow> (\<exists>c. overdue now r c)"
  by (auto simp: mx_NextDeadline_def HasExpired_deadlines overdue_iff Bex_def in_set_conv_nth)

subsection \<open>Runs\<close>

datatype mux_event =
    EvRegister MuxAgentId Uid Key
  | EvUnregister MuxAgentId
  | EvAccept MuxConnectionId PeerAddress Timestamp
  | EvFeed MuxConnectionId bytes
  | EvClosed MuxConnectionId
  | EvExpire Timestamp

fun mux_step :: "sodium \<Rightarrow> mux_event \<Rightarrow> MuxRouter \<Rightarrow> MuxRouter" where
  "mux_step S (EvRegister agent uid registration) r = snd (Register S agent uid registration r)"
| "mux_step S (EvUnregister agent) r = Unregister agent r"
| "mux_step S (EvAccept c peer now) r = snd (mx_Accept c peer now r)"
| "mux_step S (EvFeed c bs) r = snd (mx_Feed c bs r)"
| "mux_step S (EvClosed c) r = mx_Closed c r"
| "mux_step S (EvExpire now) r = snd (mx_Expire now r)"

lemma mux_step_ok:
  assumes r: "mux_ok r"
  shows "mux_ok (mux_step S e r)"
proof (cases e)
  case (EvRegister agent uid key)
  from r show ?thesis unfolding EvRegister mux_step.simps
    by (rule Register_cases [where S = S and registration = key and agent = agent and uid = uid]) (use r in auto)
next
  case (EvAccept c peer now)
  from r show ?thesis unfolding EvAccept mux_step.simps
    by (rule mx_Accept_cases [where c = c and peer = peer and now = now]) (use r in auto)
next
  case (EvFeed c bs)
  with r show ?thesis by (cases "pending r c") (auto simp: mx_Feed_unknown mx_Feed_map)
next
  case (EvExpire now)
  obtain x r' where "mx_Expire now r = (x, r')" by (cases "mx_Expire now r")
  with r mx_Expire_None [OF r] mx_Expire_Some(3) [OF r] show ?thesis unfolding EvExpire mux_step.simps
    by (cases x) auto
qed (use r in \<open>auto simp: Unregister_map mx_Closed_map\<close>)

text \<open>Only the agents change who holds what.\<close>

lemma mux_step_registered:
  assumes r: "mux_ok r"
  shows "registered (mux_step S (EvFeed c bs) r) = registered r" "registered (mux_step S (EvAccept c peer now) r) = registered r"
    "registered (mux_step S (EvClosed c) r) = registered r" "registered (mux_step S (EvExpire now) r) = registered r"
proof -
  show "registered (mux_step S (EvFeed c bs) r) = registered r"
    using r by (cases "pending r c") (auto simp: mx_Feed_unknown mx_Feed_map)
  show "registered (mux_step S (EvAccept c peer now) r) = registered r" unfolding mux_step.simps
    by (rule mx_Accept_cases [OF r, where c = c and peer = peer and now = now]) auto
  show "registered (mux_step S (EvClosed c) r) = registered r" using r by (simp add: mx_Closed_map)
  obtain x r' where x: "mx_Expire now r = (x, r')" by (cases "mx_Expire now r")
  show "registered (mux_step S (EvExpire now) r) = registered r"
    using x mx_Expire_None [OF r, of now r'] mx_Expire_Some(5) [OF r, of now _ _ r'] by (cases x) auto
qed

lemma mux_run_ok: "mux_ok r \<Longrightarrow> mux_ok (fold (mux_step S) es r)"
  by (induction es arbitrary: r) (auto simp: mux_step_ok)

text \<open>What a run feeds one connection, and the events that end its wait before its Hello is in.\<close>

fun fed :: "MuxConnectionId \<Rightarrow> mux_event \<Rightarrow> bytes" where
  "fed c (EvFeed d bs) = (if d = c then bs else [])"
| "fed c _ = []"

definition sent :: "MuxConnectionId \<Rightarrow> mux_event list \<Rightarrow> bytes" where
  "sent c es = concat (map (fed c) es)"

fun ends_wait :: "MuxConnectionId \<Rightarrow> Timestamp \<Rightarrow> mux_event \<Rightarrow> bool" where
  "ends_wait c until (EvClosed d) \<longleftrightarrow> d = c"
| "ends_wait c until (EvExpire now) \<longleftrightarrow> until \<le> now"
| "ends_wait c until _ \<longleftrightarrow> False"

lemma PeekHello_prefix_truncated:
  assumes "PeekHello (a @ b) = Inl Truncated" shows "PeekHello a = Inl Truncated"
proof (cases "ReadFrame a (of_nat MAX_HANDSHAKE_FRAME) = Inl Truncated")
  case False
  then have "ReadFrame (a @ b) (of_nat MAX_HANDSHAKE_FRAME) = ReadFrame a (of_nat MAX_HANDSHAKE_FRAME)"
    by (rule ReadFrame_append)
  with assms show ?thesis by (simp add: PeekHello_def)
qed (simp add: PeekHello_def)

lemma mux_step_waits:
  assumes r: "mux_ok r" and p: "pending r c = Some (hs, peer, until)" and e: "\<not> ends_wait c until e"
    and w: "PeekHello (hs @ fed c e) = Inl Truncated" "length (hs @ fed c e) \<le> MUX_PENDING_BUFFER"
  shows "pending (mux_step S e r) c = Some (hs @ fed c e, peer, until)"
proof (cases e)
  case (EvRegister agent uid key)
  from r show ?thesis unfolding EvRegister mux_step.simps
    by (rule Register_cases [where S = S and registration = key and agent = agent and uid = uid]) (use p in auto)
next
  case (EvAccept d peer' now)
  from r show ?thesis unfolding EvAccept mux_step.simps
    by (rule mx_Accept_cases [where c = d and peer = peer' and now = now]) (use p in auto)
next
  case (EvFeed d bs)
  show ?thesis
  proof (cases "d = c")
    case True
    with EvFeed w have "feed_answer c (hs @ take (MUX_PENDING_BUFFER - length hs) bs)
        (length hs + length bs \<le> MUX_PENDING_BUFFER) (registered r) = MuxNeedMore"
      by (simp add: feed_answer_def)
    with mx_Feed_map(1,2) [OF r p, of bs] EvFeed True w(2) show ?thesis by simp
  next
    case False
    with EvFeed p show ?thesis
      by (cases "pending r d") (auto simp: mx_Feed_unknown mx_Feed_map(2) [OF r])
  qed
next
  case (EvExpire now)
  obtain x r' where x: "mx_Expire now r = (x, r')" by (cases "mx_Expire now r")
  show ?thesis
  proof (cases x)
    case None
    with x mx_Expire_None [OF r, of now r'] p EvExpire show ?thesis by simp
  next
    case (Some y)
    obtain d reason where "x = Some (d, reason)" by (cases y) (use Some in auto)
    note E = mx_Expire_Some [OF r x [unfolded this]]
    from E(2) p e EvExpire have "d \<noteq> c" by (auto simp: overdue_def)
    with E(4) p x EvExpire show ?thesis by simp
  qed
qed (use r p e in \<open>auto simp: Unregister_map mx_Closed_map\<close>)

lemma mux_run_waits:
  assumes "mux_ok r" "pending r c = Some (hs, peer, until)" "\<forall>e \<in> set es. \<not> ends_wait c until e"
    and "PeekHello (hs @ sent c es) = Inl Truncated" "length (hs @ sent c es) \<le> MUX_PENDING_BUFFER"
  shows "pending (fold (mux_step S) es r) c = Some (hs @ sent c es, peer, until)"
  using assms
proof (induction es arbitrary: r hs)
  case (Cons e es)
  have split: "hs @ sent c (e # es) = (hs @ fed c e) @ sent c es" by (simp add: sent_def)
  have "pending (mux_step S e r) c = Some (hs @ fed c e, peer, until)"
    using Cons.prems PeekHello_prefix_truncated by (intro mux_step_waits) (auto simp: split)
  then have "pending (fold (mux_step S) es (mux_step S e r)) c = Some ((hs @ fed c e) @ sent c es, peer, until)"
    using Cons.prems by (intro Cons.IH mux_step_ok) (auto simp: split)
  then show ?case by (simp add: split)
qed (simp add: sent_def)

text \<open>A proper prefix of a Hello frame never decides.\<close>

lemma PeekHello_frame:
  assumes "PeekHello buf = Inr p"
  obtains v where "ReadFrame buf (of_nat MAX_HANDSHAKE_FRAME) = Inr v" "fv_Consumed v = hp_FrameSize p"
  using assms by (auto simp: PeekHello_def bindR_eq_Inr bindE_def thenE_def returnE_def split: sum.splits prod.splits if_splits)

lemma PeekHello_partial:
  assumes "PeekHello (a @ b) = Inr p" "hp_FrameSize p = length (a @ b)" "b \<noteq> []"
  shows "PeekHello a = Inl Truncated"
proof -
  obtain v where v: "ReadFrame (a @ b) (of_nat MAX_HANDSHAKE_FRAME) = Inr v" "fv_Consumed v = length (a @ b)"
    using PeekHello_frame [OF assms(1)] assms(2) by metis
  have "ReadFrame a (of_nat MAX_HANDSHAKE_FRAME) = Inl Truncated"
  proof (rule ccontr)
    assume "ReadFrame a (of_nat MAX_HANDSHAKE_FRAME) \<noteq> Inl Truncated"
    with v(1) have "ReadFrame a (of_nat MAX_HANDSHAKE_FRAME) = Inr v" by (metis ReadFrame_append)
    from ReadFrame_consumed [OF this] v(2) assms(3) show False by simp
  qed
  then show ?thesis by (simp add: PeekHello_def)
qed

lemma PeekHello_fits:
  assumes "PeekHello buf = Inr p" shows "hp_FrameSize p \<le> MUX_PENDING_BUFFER"
proof -
  obtain v where v: "ReadFrame buf (of_nat MAX_HANDSHAKE_FRAME) = Inr v" "fv_Consumed v = hp_FrameSize p"
    using PeekHello_frame [OF assms] by metis
  have "unat (fh_Length (fv_Header v)) \<le> MAX_HANDSHAKE_FRAME"
    using ReadFrame_InrD(5) [OF v(1)] by (simp add: word_le_nat_alt size_defs)
  then show ?thesis using ReadFrame_InrD(2,3) [OF v(1)] v(2) by (simp add: MUX_PENDING_BUFFER_def MAX_HANDOFF_PREFIX_def)
qed

lemma hello_routed_run:
  fixes S
  assumes "mux_ok r" "pending r c = Some ([], peer, until)" "\<forall>e \<in> set es. \<not> ends_wait c until e"
    and "PeekHello (sent c es @ bs) = Inr p" "hp_FrameSize p = length (sent c es @ bs)" "bs \<noteq> []"
  defines "r' \<equiv> fold (mux_step S) es r"
  shows "fst (mx_Feed c bs r') = (case registered r' (hp_Id p) of
      Some (agent, _) \<Rightarrow> MuxHandoffTo c agent (sent c es @ bs) | None \<Rightarrow> MuxDecoy c (sent c es @ bs))"
proof -
  have fit: "length (sent c es @ bs) \<le> MUX_PENDING_BUFFER" using PeekHello_fits [OF assms(4)] assms(5) by simp
  have "pending r' c = Some ([] @ sent c es, peer, until)" unfolding r'_def
    by (rule mux_run_waits) (use assms fit PeekHello_partial [OF assms(4,5,6)] in auto)
  moreover have "mux_ok r'" using assms(1) by (simp add: r'_def mux_run_ok)
  moreover have "take (MUX_PENDING_BUFFER - length (sent c es)) bs = bs" using fit by simp
  ultimately show ?thesis using mx_Feed_map(1) [of r' c "sent c es" peer until bs] assms(4)
    by (simp add: feed_answer_def)
qed

text \<open>
  A cleartext frame that is all there and names itself a Hello, but whose body ends before the session
  id, is also \<open>Truncated\<close>: it can never become a Hello, and the connection is kept until its deadline.
\<close>

lemma short_hello_truncated:
  assumes "ReadFrame buf (of_nat MAX_HANDSHAKE_FRAME) = Inr v" "fh_Epoch (fv_Header v) = CLEARTEXT_EPOCH"
    and "fv_Body v = [type_code Hello]"
  shows "PeekHello (buf @ extra) = Inl Truncated"
proof -
  have "ReadFrame (buf @ extra) (of_nat MAX_HANDSHAKE_FRAME) = Inr v" using assms(1) ReadFrame_append by force
  moreover have "ParseMessageType (rd_at [] [type_code Hello]) = (Inr Hello, rd_at [type_code Hello] [])"
    using parses_ParseMessageType [of Hello] unfolding parses_def by (metis append_Nil append_Cons)
  ultimately show ?thesis
    by (simp add: PeekHello_def assms(2,3) mk_reader_rd_at parse_simps ReadBytes_rd_at bindE_def thenE_def HELLO_MAGIC_def ascii_def del: type_code.simps)
qed

text \<open>The frame in which a client sends its Hello.\<close>

definition hello_frame :: "HelloMessage \<Rightarrow> bytes" where
  "hello_frame m = frame_bytes \<lparr>fh_Length = of_nat (Suc (length (Hello_body m))), fh_Epoch = CLEARTEXT_EPOCH\<rparr>
     (type_code Hello # Hello_body m)"

lemma PeekHello_hello_frame:
  assumes "Hello_ok m" "Suc (length (Hello_body m)) \<le> MAX_HANDSHAKE_FRAME"
  shows "PeekHello (hello_frame m) = Inr \<lparr>hp_FrameSize = length (hello_frame m), hp_Id = he_Id m\<rparr>"
proof -
  let ?body = "type_code Hello # Hello_body m"
  let ?h = "\<lparr>fh_Length = of_nat (Suc (length (Hello_body m))), fh_Epoch = CLEARTEXT_EPOCH\<rparr> :: FrameHeader"
  let ?v = "\<lparr>fv_Header = ?h, fv_Body = ?body, fv_Consumed = HEADER_SIZE + length ?body\<rparr> :: FrameView"
  have lt: "Suc (length (Hello_body m)) < 2 ^ 32" using assms(2) by (simp add: size_defs)
  then have un: "unat (of_nat (Suc (length (Hello_body m))) :: u32) = Suc (length (Hello_body m))"
    by (simp add: unat_of_nat_small del: of_nat_Suc)
  have "ReadFrame (header_bytes ?h @ ?body) (of_nat MAX_HANDSHAKE_FRAME) = Inr ?v"
    unfolding ReadFrame_header using un assms(2)
    by (simp add: word_le_nat_alt word_less_nat_alt unat_eq_zero size_defs word_unat_eq_iff del: type_code.simps of_nat_Suc)
  moreover have "fst (ParseHello (mk_reader (Hello_body m))) = Inr m" using assms(1) by (simp add: hello.parse_iff)
  ultimately have "PeekHello (header_bytes ?h @ ?body) = Inr \<lparr>hp_FrameSize = fv_Consumed ?v, hp_Id = he_Id m\<rparr>"
    by (intro PeekHello_agrees) simp_all
  then show ?thesis by (simp add: hello_frame_def frame_bytes_def del: type_code.simps)
qed

end
