(* ===== verification/Bootstrap_Properties.thy ===== *)
theory Bootstrap_Properties
  imports Core_Shell Wire_Probe Session_Mux Example_Sodium
begin

text \<open>
  What the parts promise that get a session going: the shell command line, the armored block and the
  probe line of the bootstrap, and the router that brings a new connection to the agent of its session.
\<close>

subsection \<open>The remote shell\<close>

text \<open>C33 (roundtrip). A text without a zero byte, quoted by \<open>ShellQuote\<close> into a buffer of the size
  \<open>ShellQuotedSize\<close> asks for, is read back by a POSIX shell as that text and nothing else.\<close>

theorem shell_quote_roundtrip:
  assumes "0 \<notin> set tx" and "ShellQuotedSize tx \<le> length out"
  shows "\<exists>out'. ShellQuote tx out = Inr (ShellQuotedSize tx, out') \<and>
    shell_word False (take (ShellQuotedSize tx) out') = Some tx"
  using ShellQuote_spec [OF assms] by (auto simp: shell_word_quoted)

theorem shell_quote_roundtrip_witness:
  "\<exists>out'. ShellQuote [0x24, QUOTE, 0x20] (replicate 8 0) = Inr (8, out') \<and> shell_word False (take 8 out') = Some [0x24, QUOTE, 0x20]"
  using shell_quote_roundtrip [of "[0x24, QUOTE, 0x20]" "replicate 8 0"]
  by (simp add: ShellQuotedSize_def QUOTE_def)

subsection \<open>Armor and probe\<close>

text \<open>The base64 of the armor is canonical: \<open>Base64Decode\<close> accepts a text exactly when it is the
  encoding of the bytes it returns, and then only if they fit the buffer; no two texts decode to the same
  bytes.\<close>

theorem base64_canonical:
  "Base64Decode tx out = Inr (n, out') \<longleftrightarrow>
     (\<exists>bs. tx = encode_loop bs \<and> n = length bs \<and> out' = blit out 0 bs \<and> length bs \<le> length out)"
  by (rule Base64Decode_iff)

text \<open>C32 (roundtrip). A block written by \<open>WriteArmor\<close> is found by \<open>ArmorScanner\<close> in the output of the remote
  shell, whatever lines came before it and whatever follows, and decodes to the frame; exactly the bytes of
  the block are consumed. The one exception is a scanner that stands inside another block right at its end
  line.\<close>

theorem armor_crosses:
  assumes "length frame \<le> MAX_ARMORED_FRAME" and "ArmoredSize (length frame) \<le> length out"
    and "length (as_Decoded s) = MAX_ARMORED_FRAME"
    and "\<not> (as_InBlock s \<and> \<not> as_LineTooLong s \<and> strip_return (as_Line s) = ARMOR_END)"
  shows "\<exists>n out' s'. WriteArmor frame out = Inr (n, out') \<and>
    Armor_Feed (take n out' @ t) s = (\<lparr>ar_Consumed = n, ar_Block = Some frame\<rparr>, s')"
  using WriteArmor_spec [OF assms(1,2)] Armor_Feed_block [OF assms(3,1,4), of t]
  by (auto simp: length_armor_block)

theorem armor_crosses_witness:
  "\<exists>n out' s'. WriteArmor [1, 2] (replicate (ArmoredSize (length [1, 2 :: byte])) 0) = Inr (n, out') \<and>
    Armor_Feed (take n out' @ [NEWLINE]) mk_ArmorScanner = (\<lparr>ar_Consumed = n, ar_Block = Some [1, 2]\<rparr>, s')"
  using armor_crosses [of "[1, 2]" "replicate (ArmoredSize (length [1, 2 :: byte])) 0" mk_ArmorScanner "[NEWLINE]"]
  by (simp add: mk_ArmorScanner_def MAX_ARMORED_FRAME_def)

text \<open>Both scanners of the bootstrap are indifferent to how the remote shell's output is cut
  into reads: scanning two chunks one after the other gives the answers, and leaves the state, of scanning
  them as one.\<close>

theorem scanners_ignore_chunks:
  "scan_all armor_feed (a @ b) s =
     (case scan_all armor_feed a s of (xs, s1) \<Rightarrow> (case scan_all armor_feed b s1 of (ys, s2) \<Rightarrow> (xs @ ys, s2))) \<and>
   scan_all probe_feed (a @ b) t =
     (case scan_all probe_feed a t of (xs, t1) \<Rightarrow> (case scan_all probe_feed b t1 of (ys, t2) \<Rightarrow> (xs @ ys, t2)))"
  by (rule conjI [OF armor.scan_append probe.scan_append])

text \<open>C35 (equivalence). The probe lines that are accepted, exactly: marker, version, an architecture without
  spaces and the exec field, separated by single spaces; but a space at the end of the line, and anything
  after two spaces there, is accepted too.\<close>

theorem probe_lines_accepted:
  "ParseProbe line = Some info \<longleftrightarrow>
     (\<exists>rest. line = PROBE_MARKER @ SPACE # PROBE_VERSION_1 @ SPACE # pi_Arch info @ SPACE # exec_field (pi_NoExec info) @ rest \<and>
        pi_Arch info \<noteq> [] \<and> SPACE \<notin> set (pi_Arch info) \<and> probe_tail rest)"
  by (rule ParseProbe_iff)

subsection \<open>The router\<close>

text \<open>C21 (invariant). Whatever the agents and the peers do, in whatever order, the router's tables stay sound:
  the counters are the numbers of live entries, no session id and no connection has two, nobody has more than
  his share, and every pending connection has its own part of the storage.\<close>

theorem mux_tables_sound: "mux_ok (fold (mux_step S) es (mk_MuxRouter storage))"
  by (rule mux_run_ok [OF mux_ok_mk])

text \<open>C24 (refinement). Registrations are a map from session ids to agents and owners. \<open>Register\<close> sets the entry of
  the id the secret hashes to, unless another user holds it, his share is used up or the table is full, and
  then it changes nothing; \<open>Unregister\<close> removes the entries of one agent and no other.\<close>

theorem registrations_refine_map:
  assumes "mux_ok r"
  shows "(case Register S agent uid registration r of
        (Inr _, r') \<Rightarrow>
          registered r' = (registered r)(SessionIdOf S registration \<mapsto> (agent, uid)) \<and>
          (\<forall>a owner. registered r (SessionIdOf S registration) = Some (a, owner) \<longrightarrow> owner = uid)
      | (Inl refusal, r') \<Rightarrow>
          r' = r \<and>
          (if refusal = Taken then \<exists>a owner. registered r (SessionIdOf S registration) = Some (a, owner) \<and> owner \<noteq> uid
           else refusal = Limit \<and> registered r (SessionIdOf S registration) = None \<and>
             (count_if (\<lambda>x. rg_Live x \<and> rg_Owner x = uid) (mx_Registrations r) = MAX_REGISTRATIONS_PER_UID \<or>
              mx_RegistrationCount r = MAX_MUX_REGISTRATIONS))) \<and>
    registered (Unregister agent r) = (\<lambda>sid. case registered r sid of
        None \<Rightarrow> None | Some (a, owner) \<Rightarrow> if a = agent then None else Some (a, owner))"
    (is "?register \<and> _")
proof (rule conjI [OF _ Unregister_map(1) [OF assms]],
    rule Register_cases [OF assms, where S = S and registration = registration and agent = agent and uid = uid])
  fix a owner
  assume "Register S agent uid registration r = (Inl Taken, r)"
    and "registered r (SessionIdOf S registration) = Some (a, owner)" and "owner \<noteq> uid"
  then show ?register by auto
next
  assume "Register S agent uid registration r = (Inl Limit, r)"
    and "registered r (SessionIdOf S registration) = None"
    and "count_if (\<lambda>x. rg_Live x \<and> rg_Owner x = uid) (mx_Registrations r) = MAX_REGISTRATIONS_PER_UID \<or>
      mx_RegistrationCount r = MAX_MUX_REGISTRATIONS"
  then show ?register by (simp add: Taken_def Limit_def)
next
  fix r'
  assume "Register S agent uid registration r = (Inr (), r')"
    and "\<forall>a o'. registered r (SessionIdOf S registration) = Some (a, o') \<longrightarrow> o' = uid"
    and "registered r' = (registered r)(SessionIdOf S registration \<mapsto> (agent, uid))"
  then show ?register by simp
qed

theorem registrations_refine_map_witness:
  "\<exists>r'. Register example_sodium 3 1000 zero_key (mk_MuxRouter []) = (Inr (), r') \<and>
     registered r' = [SessionIdOf example_sodium zero_key \<mapsto> (3, 1000)]"
proof -
  have empty: "registered (mk_MuxRouter []) = Map.empty" by (rule registered_mk)
  have none: "count_if (\<lambda>x. rg_Live x \<and> rg_Owner x = 1000) (mx_Registrations (mk_MuxRouter [])) = 0"
    by (simp add: mk_MuxRouter_def no_registration_def count_if_replicate_none)
  have "mx_RegistrationCount (mk_MuxRouter []) = 0" by (simp add: mk_MuxRouter_def)
  with none empty registrations_refine_map [OF mux_ok_mk [of "[]"], where S = example_sodium and agent = 3 and uid = 1000 and registration = zero_key]
  show ?thesis
    by (cases "Register example_sodium 3 1000 zero_key (mk_MuxRouter [])" rule: prod.exhaust, rename_tac x y, case_tac x)
      (simp_all add: MAX_REGISTRATIONS_PER_UID_def MAX_MUX_REGISTRATIONS_def split: if_splits)
qed

text \<open>A router with one connection waiting, and a Hello.\<close>

definition example_router :: MuxRouter where
  "example_router = snd (mx_Accept 7 [] 0 (mk_MuxRouter (replicate MUX_PENDING_BUFFER 0)))"

definition example_client_hello :: HelloMessage where
  "example_client_hello = \<lparr>he_VersionMin = 1, he_VersionMax = 2, he_Id = replicate SESSION_ID_SIZE 1,
     he_ClientNonce = replicate HANDSHAKE_NONCE_SIZE 2, he_Options = []\<rparr>"

lemma example_router_facts:
  "mux_ok example_router" "pending example_router = [7 \<mapsto> ([], [], HANDSHAKE_TIMEOUT)]" "registered example_router = Map.empty"
proof -
  let ?r = "mk_MuxRouter (replicate MUX_PENDING_BUFFER 0)"
  have p: "pending ?r = Map.empty" by (rule pending_mk)
  have q: "mx_PendingCount ?r = 0" "mx_Slots ?r = 1" "count_if (\<lambda>w. wt_Live w \<and> wt_From w = []) (mx_Waiting ?r) = 0"
    by (simp_all add: mk_MuxRouter_def no_waiting_def count_if_replicate_none MUX_PENDING_BUFFER_def MAX_PENDING_CONNECTIONS_def size_defs)
  show "mux_ok example_router" "pending example_router = [7 \<mapsto> ([], [], HANDSHAKE_TIMEOUT)]" "registered example_router = Map.empty"
    by (rule mx_Accept_cases [OF mux_ok_mk [of "replicate MUX_PENDING_BUFFER 0"], where c = 7 and peer = "[]" and now = 0];
        use p q in \<open>simp add: example_router_def MAX_PENDING_PER_ADDRESS_def registered_mk\<close>)+
qed

text \<open>C20 (safety). A Hello reaches the agent of its session. However a client's Hello frame is cut into reads, and
  whatever other connections and agents do in between, the read that completes it hands the connection, with
  the whole frame, to the agent that holds the session id at that moment, or to the decoy if nobody does; only
  the peer's own close or the deadline ends the wait before.\<close>

theorem hello_reaches_its_agent:
  assumes "mux_ok r" and "pending r c = Some ([], peer, until)" and "\<forall>e \<in> set es. \<not> ends_wait c until e"
    and "Hello_ok m" and "Suc (length (Hello_body m)) \<le> MAX_HANDSHAKE_FRAME"
    and "sent c es @ bs = hello_frame m" and "bs \<noteq> []"
  shows "fst (mx_Feed c bs (fold (mux_step S) es r)) =
    (case registered (fold (mux_step S) es r) (he_Id m) of
       Some (agent, _) \<Rightarrow> MuxHandoffTo c agent (hello_frame m) | None \<Rightarrow> MuxDecoy c (hello_frame m))"
  using hello_routed_run [OF assms(1,2,3), of bs "\<lparr>hp_FrameSize = length (hello_frame m), hp_Id = he_Id m\<rparr>" S]
    PeekHello_hello_frame [OF assms(4,5)] assms(6,7)
  unfolding assms(6) by simp

theorem hello_reaches_its_agent_witness:
  "fst (mx_Feed 7 (drop 3 (hello_frame example_client_hello))
      (fold (mux_step example_sodium)
         [EvFeed 7 (take 3 (hello_frame example_client_hello)), EvFeed 8 [1], EvExpire 1] example_router)) =
   MuxDecoy 7 (hello_frame example_client_hello)"
proof -
  let ?f = "hello_frame example_client_hello"
  let ?es = "[EvFeed 7 (take 3 ?f), EvFeed 8 [1], EvExpire 1]"
  have m: "Hello_ok example_client_hello" "length (Hello_body example_client_hello) = 40"
    by (simp_all add: Hello_ok_def Hello_body_def example_client_hello_def options_ok_def options_bytes_def size_defs
        HELLO_MAGIC_def ascii_def)
  then have len: "length ?f = 46" by (simp add: hello_frame_def frame_bytes_def header_bytes_def del: type_code.simps)
  have "fst (mx_Feed 7 (drop 3 ?f) (fold (mux_step example_sodium) ?es example_router)) =
    (case registered (fold (mux_step example_sodium) ?es example_router) (he_Id example_client_hello) of
       Some (agent, _) \<Rightarrow> MuxHandoffTo 7 agent ?f | None \<Rightarrow> MuxDecoy 7 ?f)"
    by (rule hello_reaches_its_agent [where peer = "[]" and until = HANDSHAKE_TIMEOUT])
      (use m len in \<open>simp_all add: example_router_facts sent_def size_defs HANDSHAKE_TIMEOUT_def SECOND_def\<close>)
  moreover have "registered (fold (mux_step example_sodium) ?es example_router) = registered example_router"
    by (simp add: mux_step_registered mux_step_ok example_router_facts(1) del: mux_step.simps)
  ultimately show ?thesis by (simp add: example_router_facts)
qed

text \<open>C31 (termination). The sweep of \<open>Mux::Run\<close> over \<open>Expire\<close> ends, reports each overdue connection exactly once and
  drops these and no others; after it no deadline the router announces has passed, so the poll that follows
  does not spin.\<close>

theorem expire_sweep_complete:
  assumes "mux_ok r"
  shows "distinct (fst (expire_loop now r)) \<and> set (fst (expire_loop now r)) = {c. overdue now r c} \<and>
    pending (snd (expire_loop now r)) = (\<lambda>c. if overdue now r c then None else pending r c) \<and>
    \<not> HasExpired (mx_NextDeadline (snd (expire_loop now r))) now"
proof -
  obtain cs r' where e: "expire_loop now r = (cs, r')" by (cases "expire_loop now r")
  note M = expire_loop_map [OF assms e]
  then have "\<not> overdue now r' c" for c by (auto simp: overdue_def)
  with M show ?thesis by (simp add: e mx_NextDeadline_iff)
qed

theorem expire_sweep_complete_witness:
  "set (fst (expire_loop HANDSHAKE_TIMEOUT example_router)) = {7} \<and>
   \<not> HasExpired (mx_NextDeadline (snd (expire_loop HANDSHAKE_TIMEOUT example_router))) HANDSHAKE_TIMEOUT"
proof -
  have "{c. overdue HANDSHAKE_TIMEOUT example_router c} = {7}"
    by (auto simp: overdue_def example_router_facts split: if_splits)
  then show ?thesis using expire_sweep_complete [OF example_router_facts(1), of HANDSHAKE_TIMEOUT] by simp
qed

end
