(* ===== verification/Session_Ends.thy ===== *)
theory Session_Ends
  imports Session_Channel
begin

text \<open>
  \<^verbatim>\<open>src/session/agent_session.cpp\<close> and \<^verbatim>\<open>src/session/client_session.cpp\<close>: what either end keeps of a session
  across its connections, and the attempts and handles through which a connection may change it.

  A handle or an attempt holds a pointer to its session in C++; here it takes the session and hands it
  back. A handshake borrows the session's nonce memory, so every step is given the memory as it is at
  that moment.

  Lemmas: nothing of a session changes before the handshake has ended (design rule one); the ratchet of
  the connection seed, for connections that are confirmed in the order of their handshakes, always
  leaves the two ends with a seed in common; and what happens when they are not.
\<close>

subsection \<open>AgentSession\<close>

datatype EResumeKeys = UsedCurrent | UsedPrevious

record AgentSession =
  gs_Id :: bytes
  gs_Auth :: Key
  gs_Seed :: Key
  gs_PreviousSeed :: "Key option"
  gs_Seen :: NonceMemory
  gs_Streams :: StreamState
  gs_End :: "SessionEndMessage option"
  gs_ShouldReportOverflow :: bool
  gs_LastKnownSize :: "ResizeMessage option"

definition mk_AgentSession :: "SessionSecrets \<Rightarrow> SessionStreams \<Rightarrow> AgentSession" where
  "mk_AgentSession secrets streams =
     \<lparr>gs_Id = ss_Id secrets, gs_Auth = ss_Auth secrets, gs_Seed = ss_ConnectionSeed secrets,
      gs_PreviousSeed = None, gs_Seen = mk_NonceMemory, gs_Streams = mk_StreamState streams OverflowReap OnDelivery,
      gs_End = None, gs_ShouldReportOverflow = False, gs_LastKnownSize = None\<rparr>"

definition gs_EndWith :: "SessionEndMessage \<Rightarrow> AgentSession \<Rightarrow> AgentSession" where
  "gs_EndWith e s = (case gs_End s of None \<Rightarrow> s\<lparr>gs_End := Some e\<rparr> | Some _ \<Rightarrow> s)"

definition gs_Write :: "bytes \<Rightarrow> AgentSession \<Rightarrow> nat session_result \<times> AgentSession" where
  "gs_Write output s =
     (case ss_Write output (gs_Streams s) of (result, streams) \<Rightarrow>
        let s1 = s\<lparr>gs_Streams := streams\<rparr> in
        (result,
         if result = Inl DisconnectBufferOverflow \<and> gs_ShouldReportOverflow s1
         then gs_EndWith \<lparr>se_Kind = Overflow, se_Value = 0\<rparr> s1 else s1))"

definition gs_InputDelivered :: "u64 \<Rightarrow> AgentSession \<Rightarrow> bool \<times> AgentSession" where
  "gs_InputDelivered count s =
     (case MarkDelivered count (ss_Input (gs_Streams s)) of (ok, c) \<Rightarrow>
        (ok, s\<lparr>gs_Streams := (gs_Streams s)\<lparr>ss_Input := c\<rparr>\<rparr>))"

definition gs_InputRejected :: "u64 \<Rightarrow> AgentSession \<Rightarrow> bool \<times> AgentSession" where
  "gs_InputRejected count s =
     (case Unreceive count (ss_Input (gs_Streams s)) of (ok, c) \<Rightarrow>
        (ok, s\<lparr>gs_Streams := (gs_Streams s)\<lparr>ss_Input := c\<rparr>\<rparr>))"

definition gs_OnTimer :: "Timestamp \<Rightarrow> AgentSession \<Rightarrow> AgentSession" where
  "gs_OnTimer now s = s\<lparr>gs_Streams := ss_OnTimer now (gs_Streams s)\<rparr>"

subsection \<open>SessionHandle\<close>

record SessionHandle =
  sh_Generation :: u64

definition new_handle :: SessionHandle where "new_handle = \<lparr>sh_Generation = 0\<rparr>"

definition ConfirmResume :: "sodium \<Rightarrow> EResumeKeys \<Rightarrow> AgentSession \<Rightarrow> unit session_result \<times> AgentSession" where
  "ConfirmResume S used s =
     (if used = UsedPrevious \<and> gs_PreviousSeed s = None then (Inl UnknownSeed, s)
      else let s1 = (if used = UsedPrevious then s\<lparr>gs_Seed := the (gs_PreviousSeed s)\<rparr> else s)
           in (Inr (), s1\<lparr>gs_PreviousSeed := Some (gs_Seed s1), gs_Seed := AdvanceConnectionSeed S (gs_Seed s1)\<rparr>))"

definition sh_IsCurrent :: "SessionHandle \<Rightarrow> AgentSession \<Rightarrow> bool" where
  "sh_IsCurrent h s = IsCurrent (sh_Generation h) (gs_Streams s)"

definition sh_Attach ::
  "u64 \<Rightarrow> SessionHandle \<times> AgentSession \<Rightarrow> unit session_result \<times> SessionHandle \<times> AgentSession" where
  "sh_Attach clientReceiveOffset hs =
     (case hs of (h, s) \<Rightarrow>
      case Attach clientReceiveOffset (gs_Streams s) of
        (Inl e, streams) \<Rightarrow> (Inl e, h, s\<lparr>gs_Streams := streams\<rparr>)
      | (Inr generation, streams) \<Rightarrow> (Inr (), h\<lparr>sh_Generation := generation\<rparr>, s\<lparr>gs_Streams := streams\<rparr>))"

definition sh_AttachPathB ::
  "SessionHandle \<times> AgentSession \<Rightarrow> unit session_result \<times> SessionHandle \<times> AgentSession" where
  "sh_AttachPathB hs =
     (case hs of (h, s) \<Rightarrow>
      case AttachPathB (gs_Streams s) of
        (Inl e, streams) \<Rightarrow> (Inl e, h, s\<lparr>gs_Streams := streams\<rparr>)
      | (Inr generation, streams) \<Rightarrow> (Inr (), h\<lparr>sh_Generation := generation\<rparr>, s\<lparr>gs_Streams := streams\<rparr>))"

definition sh_Detach :: "SessionHandle \<Rightarrow> Timestamp \<Rightarrow> AgentSession \<Rightarrow> AgentSession" where
  "sh_Detach h now s = s\<lparr>gs_Streams := Detach (sh_Generation h) now (gs_Streams s)\<rparr>"

definition sh_Kill :: "ESessionError \<Rightarrow> AgentSession \<Rightarrow> AgentSession" where
  "sh_Kill reason s = s\<lparr>gs_Streams := ss_Kill reason (gs_Streams s)\<rparr>"

definition SetGridInfo :: "u16 \<Rightarrow> bool \<Rightarrow> AgentSession \<Rightarrow> AgentSession" where
  "SetGridInfo ver gridCapable s =
     s\<lparr>gs_Streams := SetOverflowMode ver gridCapable (gs_Streams s),
       gs_ShouldReportOverflow := (ver \<ge> PROTOCOL_VERSION_GRID \<and> \<not> gridCapable)\<rparr>"

definition sh_NewGeneration :: "SessionHandle \<Rightarrow> AgentSession \<Rightarrow> AgentSession" where
  "sh_NewGeneration h s =
     (if \<not> sh_IsCurrent h s then s else s\<lparr>gs_Streams := ss_NewGeneration (gs_Streams s)\<rparr>)"

definition sh_SessionGen :: "AgentSession \<Rightarrow> u32" where
  "sh_SessionGen s = sb_SessionGen (ss_Output (gs_Streams s))"

definition sh_RingOverflowed :: "AgentSession \<Rightarrow> bool" where
  "sh_RingOverflowed s = sb_RingOverflowed (ss_Output (gs_Streams s))"

definition ReportResize :: "SessionHandle \<Rightarrow> ResizeMessage \<Rightarrow> AgentSession \<Rightarrow> AgentSession" where
  "ReportResize h sz s = (if \<not> sh_IsCurrent h s then s else s\<lparr>gs_LastKnownSize := Some sz\<rparr>)"

subsection \<open>ResumeAttempt\<close>

text \<open>\<open>ra_Known\<close> is whether \<open>Session_\<close> points to a session; without one the handshake is the decoy's and has
  a nonce memory of its own.\<close>

record ResumeAttempt =
  ra_Known :: bool
  ra_Shake :: ServerHandshake

definition mk_ResumeAttempt :: "sodium \<Rightarrow> AgentSession \<Rightarrow> bytes \<Rightarrow> u16 \<Rightarrow> ResumeAttempt" where
  "mk_ResumeAttempt S s serverNonce ceiling =
     \<lparr>ra_Known = True,
      ra_Shake = mk_ServerHandshake S (gs_Auth s) (gs_Seed s) serverNonce (ReceiveOffset (gs_Streams s)) (gs_Seen s)
        (gs_PreviousSeed s) ceiling\<rparr>"

definition ForUnknown :: "sodium \<Rightarrow> Key \<Rightarrow> bytes \<Rightarrow> bytes \<Rightarrow> u16 \<Rightarrow> ResumeAttempt" where
  "ForUnknown S localSecret sid serverNonce ceiling =
     (let decoy = DeriveDecoySecrets S localSecret sid in
      \<lparr>ra_Known = False,
       ra_Shake = mk_ServerHandshake S (ss_Auth decoy) (ss_ConnectionSeed decoy) serverNonce 0 mk_NonceMemory None ceiling\<rparr>)"

definition ra_Handle ::
  "sodium \<Rightarrow> AgentSession option \<Rightarrow> bytes \<Rightarrow> bytes \<Rightarrow> ResumeAttempt \<Rightarrow> (PreAuthError + HandshakeStep) \<times> ResumeAttempt" where
  "ra_Handle S session body out a =
     (let shake = (case session of Some s \<Rightarrow> if ra_Known a then (ra_Shake a)\<lparr>hv_Seen := gs_Seen s\<rparr> else ra_Shake a
                                 | None \<Rightarrow> ra_Shake a)
      in case ServerHandle S body out shake of (r, shake') \<Rightarrow> (r, a\<lparr>ra_Shake := shake'\<rparr>))"

definition ra_Finish :: "ResumeAttempt \<Rightarrow> AgentSession option \<Rightarrow> HandshakeResult session_result \<times> AgentSession option" where
  "ra_Finish a session =
     (case (fst (ServerTakeResult (ra_Shake a)), session) of
        (Some result, Some s) \<Rightarrow>
          if ra_Known a
          then (Inr result, Some (s\<lparr>gs_Seen := Remember (hr_ServerNonce result) (Remember (hr_ClientNonce result) (gs_Seen s))\<rparr>))
          else (Inl NotAuthenticated, session)
      | _ \<Rightarrow> (Inl NotAuthenticated, session))"

subsection \<open>ClientSession\<close>

record ClientSession =
  cs_Id :: bytes
  cs_Auth :: Key
  cs_Seed :: Key
  cs_Seen :: NonceMemory
  cs_Streams :: StreamState
  cs_End :: "SessionEndMessage option"
  cs_StreamGen :: u32

definition mk_ClientSession :: "SessionSecrets \<Rightarrow> SessionStreams \<Rightarrow> ClientSession" where
  "mk_ClientSession secrets streams =
     \<lparr>cs_Id = ss_Id secrets, cs_Auth = ss_Auth secrets, cs_Seed = ss_ConnectionSeed secrets, cs_Seen = mk_NonceMemory,
      cs_Streams = mk_StreamState streams Backpressure OnReceipt, cs_End = None, cs_StreamGen = 0\<rparr>"

definition cs_Write :: "bytes \<Rightarrow> ClientSession \<Rightarrow> nat session_result \<times> ClientSession" where
  "cs_Write input s = (case ss_Write input (cs_Streams s) of (r, streams) \<Rightarrow> (r, s\<lparr>cs_Streams := streams\<rparr>))"

record ClientSessionHandle =
  kh_Generation :: u64
  kh_Confirmed :: bool

definition new_client_handle :: ClientSessionHandle where
  "new_client_handle = \<lparr>kh_Generation = 0, kh_Confirmed = False\<rparr>"

definition ConfirmAgentFrame ::
  "sodium \<Rightarrow> ClientSessionHandle \<times> ClientSession \<Rightarrow> ClientSessionHandle \<times> ClientSession" where
  "ConfirmAgentFrame S hs =
     (case hs of (h, s) \<Rightarrow>
        if kh_Confirmed h then (h, s)
        else (h\<lparr>kh_Confirmed := True\<rparr>, s\<lparr>cs_Seed := AdvanceConnectionSeed S (cs_Seed s)\<rparr>))"

definition kh_IsCurrent :: "ClientSessionHandle \<Rightarrow> ClientSession \<Rightarrow> bool" where
  "kh_IsCurrent h s = IsCurrent (kh_Generation h) (cs_Streams s)"

definition kh_Attach ::
  "u64 \<Rightarrow> ClientSessionHandle \<times> ClientSession \<Rightarrow> unit session_result \<times> ClientSessionHandle \<times> ClientSession" where
  "kh_Attach agentReceiveOffset hs =
     (case hs of (h, s) \<Rightarrow>
      case Attach agentReceiveOffset (cs_Streams s) of
        (Inl e, streams) \<Rightarrow> (Inl e, h, s\<lparr>cs_Streams := streams\<rparr>)
      | (Inr generation, streams) \<Rightarrow> (Inr (), h\<lparr>kh_Generation := generation\<rparr>, s\<lparr>cs_Streams := streams\<rparr>))"

definition kh_Detach :: "ClientSessionHandle \<Rightarrow> Timestamp \<Rightarrow> ClientSession \<Rightarrow> ClientSession" where
  "kh_Detach h now s = s\<lparr>cs_Streams := Detach (kh_Generation h) now (cs_Streams s)\<rparr>"

definition kh_Kill :: "ESessionError \<Rightarrow> ClientSession \<Rightarrow> ClientSession" where
  "kh_Kill reason s = s\<lparr>cs_Streams := ss_Kill reason (cs_Streams s)\<rparr>"

definition RecordEnd :: "SessionEndMessage \<Rightarrow> ClientSession \<Rightarrow> ClientSession" where
  "RecordEnd e s = (case cs_End s of None \<Rightarrow> s\<lparr>cs_End := Some e\<rparr> | Some _ \<Rightarrow> s)"

definition SetStreamGen :: "u32 \<Rightarrow> ClientSession \<Rightarrow> ClientSession" where
  "SetStreamGen gen s = s\<lparr>cs_StreamGen := gen\<rparr>"

definition mk_ClientResumeAttempt :: "sodium \<Rightarrow> ClientSession \<Rightarrow> bytes \<Rightarrow> bool \<Rightarrow> u16 \<Rightarrow> ClientHandshake" where
  "mk_ClientResumeAttempt S s clientNonce gridCapable ceiling =
     mk_ClientHandshake S (cs_Id s) (cs_Auth s) (cs_Seed s) clientNonce (cs_Seen s) ceiling gridCapable"

definition ca_Handle ::
  "sodium \<Rightarrow> ClientSession \<Rightarrow> bytes \<Rightarrow> bytes \<Rightarrow> ClientHandshake \<Rightarrow> (PreAuthError + HandshakeStep) \<times> ClientHandshake" where
  "ca_Handle S s body out h = ClientHandle S body out (h\<lparr>hc_Seen := cs_Seen s\<rparr>)"

definition ca_Finish :: "ClientHandshake \<Rightarrow> ClientSession \<Rightarrow> HandshakeResult session_result \<times> ClientSession" where
  "ca_Finish h s =
     (case fst (ClientTakeResult h) of
        None \<Rightarrow> (Inl NotAuthenticated, s)
      | Some result \<Rightarrow>
          (Inr result, s\<lparr>cs_Seen := Remember (hr_ServerNonce result) (Remember (hr_ClientNonce result) (cs_Seen s))\<rparr>))"

subsection \<open>Before the handshake has ended nothing changes\<close>

text \<open>
  An attempt is given the session only to read; the one function that writes it, \<open>Finish\<close>, leaves it as it
  is unless the handshake is done, and a decoy never has one to write.
\<close>

lemma ra_Finish_refused:
  assumes "hv_Stage (ra_Shake a) \<noteq> SDone \<or> \<not> ra_Known a"
  shows "ra_Finish a session = (Inl NotAuthenticated, session)"
  using assms by (auto simp: ra_Finish_def ServerTakeResult_def split: option.splits)

lemma ca_Finish_refused: "hc_Stage h \<noteq> CDone \<Longrightarrow> ca_Finish h s = (Inl NotAuthenticated, s)"
  by (simp add: ca_Finish_def ClientTakeResult_def)

lemma ra_Finish_Inr:
  assumes "ra_Finish a (Some s) = (Inr result, s')"
  shows "ra_Known a" "hv_Stage (ra_Shake a) = SDone"
    "s' = Some (s\<lparr>gs_Seen := Remember (hr_ServerNonce result) (Remember (hr_ClientNonce result) (gs_Seen s))\<rparr>)"
  using assms by (auto simp: ra_Finish_def ServerTakeResult_def split: option.splits if_splits)

subsection \<open>The seed ratchet\<close>

text \<open>
  The agent can open a Resume sealed under its seed or under the one before; the client seals under its
  own. \<open>seed_used\<close> is what the agent's two openers find: the current seed is tried first.
\<close>

definition seed_used :: "AgentSession \<Rightarrow> ClientSession \<Rightarrow> EResumeKeys option" where
  "seed_used a c =
     (if cs_Seed c = gs_Seed a then Some UsedCurrent
      else if gs_PreviousSeed a = Some (cs_Seed c) then Some UsedPrevious
      else None)"

text \<open>
  A connection after the other: \<open>resume\<close> is a Resume the agent opens, with the seeds as the handshake of
  this connection found them; \<open>confirm\<close> is the first frame of the agent that the client opens on it;
  \<open>lost\<close> is the end of the connection at any moment in between.
\<close>

inductive ratchet :: "sodium \<Rightarrow> AgentSession \<times> ClientSession \<times> ClientSessionHandle option \<Rightarrow>
    AgentSession \<times> ClientSession \<times> ClientSessionHandle option \<Rightarrow> bool" for S where
  resume: "seed_used a c = Some used \<Longrightarrow> ConfirmResume S used a = (Inr (), a') \<Longrightarrow>
     ratchet S (a, c, h) (a', c, Some new_client_handle)"
| confirm: "ConfirmAgentFrame S (h, c) = (h', c') \<Longrightarrow> ratchet S (a, c, Some h) (a, c', Some h')"
| lost: "ratchet S (a, c, h) (a, c, None)"

inductive_cases ratchetE: "ratchet S st st'"

lemma ConfirmResume_seeds:
  assumes "seed_used a c = Some used"
  shows "\<exists>a'. ConfirmResume S used a = (Inr (), a') \<and> gs_PreviousSeed a' = Some (cs_Seed c) \<and>
    gs_Seed a' = AdvanceConnectionSeed S (cs_Seed c)"
  using assms by (auto simp: seed_used_def ConfirmResume_def Let_def split: if_splits)

fun ratchet_inv :: "sodium \<Rightarrow> AgentSession \<times> ClientSession \<times> ClientSessionHandle option \<Rightarrow> bool" where
  "ratchet_inv S (a, c, h) \<longleftrightarrow>
     (case h of
        Some h \<Rightarrow>
          if kh_Confirmed h then cs_Seed c = gs_Seed a
          else gs_PreviousSeed a = Some (cs_Seed c) \<and> gs_Seed a = AdvanceConnectionSeed S (cs_Seed c)
      | None \<Rightarrow> cs_Seed c = gs_Seed a \<or> gs_PreviousSeed a = Some (cs_Seed c))"

lemma ratchet_inv_step: "ratchet S st st' \<Longrightarrow> ratchet_inv S st \<Longrightarrow> ratchet_inv S st'"
proof (induction rule: ratchet.induct)
  case (resume a c used a' h)
  with ConfirmResume_seeds [OF resume(1), of S] show ?case by (auto simp: new_client_handle_def)
next
  case (confirm h c h' c' a)
  then show ?case by (auto simp: ConfirmAgentFrame_def split: if_splits)
next
  case (lost a c h)
  then show ?case by (auto split: option.splits if_splits)
qed

lemma ratchet_inv_run: "(ratchet S)\<^sup>*\<^sup>* st st' \<Longrightarrow> ratchet_inv S st \<Longrightarrow> ratchet_inv S st'"
  by (induction rule: rtranclp_induct) (auto intro: ratchet_inv_step)

lemma ratchet_inv_seed_used: "ratchet_inv S (a, c, h) \<Longrightarrow> \<exists>used. seed_used a c = Some used"
  by (auto simp: seed_used_def split: option.splits if_splits)

text \<open>
  Two connections whose handshakes found the same seeds, both still waiting for their Resume: the agent
  ratchets from its present seed, whatever the seed of the connection was, and after the second Resume
  the client's seed is two steps behind.
\<close>

lemma two_resumes_of_one_seed:
  assumes "seed_used a c = Some UsedCurrent"
    and "AdvanceConnectionSeed S (cs_Seed c) \<noteq> cs_Seed c"
    and "AdvanceConnectionSeed S (AdvanceConnectionSeed S (cs_Seed c)) \<noteq> cs_Seed c"
  shows "seed_used (snd (ConfirmResume S UsedCurrent (snd (ConfirmResume S UsedCurrent a)))) c = None"
  using assms by (auto simp: seed_used_def ConfirmResume_def Let_def split: if_splits)

end
