(* ===== verification/Session_Connection.thy ===== *)
theory Session_Connection
  imports Session_Ends
begin

text \<open>
  \<^verbatim>\<open>src/session/connection.cpp\<close>: one TCP connection of a session from its first byte to its last, on either
  end. \<open>ConnectionBase\<close> is the record both ends extend, as the C++ classes derive from it.

  A connection borrows its session, so every operation takes the pair of both and hands it back. The
  channel of a live connection borrows the session's two streams: \<open>borrow\<close> puts them into the channel
  before it is used and \<open>give_back\<close> takes them out again. The callbacks of \<open>PumpLive\<close> act on what the
  calling end keeps, a parameter of the loop. \<open>SendFrame\<close> carries the bytes at the front of \<open>out\<close>; the
  buffers themselves matter only through their sizes.

  Dereferencing an optional that the stage of the connection guarantees to be set is a case distinction
  here, whose other branch does nothing.
\<close>

definition CONNECTION_FRAME_STORAGE :: nat where "CONNECTION_FRAME_STORAGE = HEADER_SIZE + MAX_FRAME"
definition CONNECTION_OUT_SIZE :: nat where "CONNECTION_OUT_SIZE = HEADER_SIZE + MAX_FRAME"
definition CONNECTION_SCRATCH_SIZE :: nat where "CONNECTION_SCRATCH_SIZE = MAX_FRAME"
definition RESUME_PLAINTEXT_MAX :: nat where "RESUME_PLAINTEXT_MAX = 1 + 8 + 4"

datatype ConnectionEvent =
    NeedsSession bytes
  | SendFrame bytes
  | Deliver bytes
  | Resized ResizeMessage
  | Ended SessionEndMessage
  | Idle
  | NeedsSnapshot u16 u16
  | ApplySnapshot bytes u32 u32 byte
  | SessionOverflowed

type_synonym connection_result = "SessionError + ConnectionEvent"

subsection \<open>ConnectionBase\<close>

record ConnectionBase =
  kb_Frames :: FrameStream
  kb_Started :: Timestamp
  kb_Channel :: "Channel option"
  kb_Failed :: "SessionError option"
  kb_SnapshotBuf :: bytes
  kb_NegotiatedVersion :: u16
  kb_Ceiling :: u16

definition kb_Fail :: "SessionError \<Rightarrow> 'k ConnectionBase_scheme \<Rightarrow> SessionError \<times> 'k ConnectionBase_scheme" where
  "kb_Fail error k =
     (case kb_Failed k of
        None \<Rightarrow> (error, k\<lparr>kb_Failed := Some error\<rparr>)
      | Some e \<Rightarrow> (e, k))"

definition OnBytes :: "bytes \<Rightarrow> 'k ConnectionBase_scheme \<Rightarrow> unit channel_result \<times> 'k ConnectionBase_scheme" where
  "OnBytes chunk k =
     (case kb_Failed k of
        Some e \<Rightarrow> (Inl e, k)
      | None \<Rightarrow>
          case fs_Append chunk (kb_Frames k) of
            (Inl e, frames) \<Rightarrow> (case kb_Fail (ProtoErr e) (k\<lparr>kb_Frames := frames\<rparr>) of (f, k') \<Rightarrow> (Inl f, k'))
          | (Inr _, frames) \<Rightarrow> (Inr (), k\<lparr>kb_Frames := frames\<rparr>))"

definition kb_NextDeadline :: "'k ConnectionBase_scheme \<Rightarrow> Deadline" where
  "kb_NextDeadline k =
     (if kb_Failed k \<noteq> None then no_deadline
      else case kb_Channel k of
        Some c \<Rightarrow> ch_NextDeadline c
      | None \<Rightarrow> deadline_at (kb_Started k + HANDSHAKE_TIMEOUT))"

definition kb_SetReadGate :: "bool \<Rightarrow> Timestamp \<Rightarrow> 'k ConnectionBase_scheme \<Rightarrow> 'k ConnectionBase_scheme" where
  "kb_SetReadGate open' now k = k\<lparr>kb_Channel := map_option (SetReadGate open' now) (kb_Channel k)\<rparr>"

definition kb_SetSendGate :: "bool \<Rightarrow> 'k ConnectionBase_scheme \<Rightarrow> 'k ConnectionBase_scheme" where
  "kb_SetSendGate open' k = k\<lparr>kb_Channel := map_option (SetSendGate open') (kb_Channel k)\<rparr>"

definition HandshakeExpired :: "Timestamp \<Rightarrow> 'k ConnectionBase_scheme \<Rightarrow> bool" where
  "HandshakeExpired now k \<longleftrightarrow> kb_Channel k = None \<and> now \<ge> kb_Started k + HANDSHAKE_TIMEOUT"

definition CheckBuffers :: "bytes \<Rightarrow> bytes \<Rightarrow> unit channel_result" where
  "CheckBuffers out scratch =
     (if length out < CONNECTION_OUT_SIZE \<or> length scratch < CONNECTION_SCRATCH_SIZE
      then Inl (ProtoErr BufferTooSmall) else Inr ())"

text \<open>The whole frame \<open>FrameCleartext\<close> leaves at the front of \<open>out\<close>, for a body already written behind it.\<close>

definition FrameCleartext :: "bytes \<Rightarrow> bytes" where
  "FrameCleartext body =
     wr_Out (snd (WriteFrameHeader \<lparr>fh_Length = of_nat (length body), fh_Epoch = CLEARTEXT_EPOCH\<rparr>
       (mk_writer (replicate HEADER_SIZE 0)))) @ body"

definition HandshakeBody :: "bytes \<Rightarrow> bytes" where
  "HandshakeBody out = take (min (length out - HEADER_SIZE) MAX_HANDSHAKE_FRAME) (drop HEADER_SIZE out)"

definition borrow :: "StreamState \<Rightarrow> Channel \<Rightarrow> Channel" where
  "borrow st c = c\<lparr>cn_SendBuf := ss_Output st, cn_RecvCursor := ss_Input st\<rparr>"

definition give_back :: "Channel \<Rightarrow> StreamState \<Rightarrow> StreamState" where
  "give_back c st = st\<lparr>ss_Output := cn_SendBuf c, ss_Input := cn_RecvCursor c\<rparr>"

lemma fs_Next_decreases: "fs_Next s = (Inr (Some v), s') \<Longrightarrow> Buffered s' < Buffered s"
proof -
  assume *: "fs_Next s = (Inr (Some v), s')"
  let ?d = "DropPending s"
  have v: "ReadFrame (take (fs_Size ?d) (fs_Storage ?d)) (fs_MaxBodyLength s) = Inr v"
    and s': "s' = ?d\<lparr>fs_Pending := fv_Consumed v\<rparr>"
    using * by (auto simp: fs_Next_def Let_def split: sum.splits if_splits)
  have "HEADER_SIZE < fv_Consumed v" "fv_Consumed v \<le> fs_Size ?d"
    using ReadFrame_consumed [OF v] by auto
  then show ?thesis by (simp add: s' Buffered_def [of "_\<lparr>fs_Pending := _\<rparr>"] DropPending_size)
qed

text \<open>The loop over the frames that are already in. It ends with an event, or with none left.\<close>

function live_loop ::
  "sodium \<Rightarrow> Timestamp \<Rightarrow> bytes \<Rightarrow> ('x \<Rightarrow> 'x) \<Rightarrow> (bytes \<times> u32 \<times> u32 \<times> byte \<Rightarrow> 'x \<Rightarrow> ConnectionEvent option \<times> 'x) \<Rightarrow>
   FrameStream \<times> Channel \<times> 'x \<Rightarrow> (SessionError + ConnectionEvent option) \<times> FrameStream \<times> Channel \<times> 'x" where
  "live_loop S now scratch onOpened onGridSnap (frames, c, x) =
     (case fs_Next frames of
        (Inl e, frames1) \<Rightarrow> (Inl (ProtoErr e), frames1, c, x)
      | (Inr None, frames1) \<Rightarrow> (Inr None, frames1, c, x)
      | (Inr (Some frame), frames1) \<Rightarrow>
          case ch_Receive S now frame scratch c of
            (Inl e, c1) \<Rightarrow> (Inl e, frames1, c1, x)
          | (Inr event, c1) \<Rightarrow>
              let x1 = onOpened x in
              case event of
                DeliveredData bs _ \<Rightarrow> (Inr (Some (Deliver bs)), frames1, c1, x1)
              | DeliveredResize sz \<Rightarrow> (Inr (Some (Resized sz)), frames1, c1, x1)
              | DeliveredSessionEnd e \<Rightarrow>
                  (Inr (Some (if se_Kind e = Overflow then SessionOverflowed else Ended e)), frames1, c1, x1)
              | DeliveredGridSnapshot bs gen scrollbackLen flags \<Rightarrow>
                  (case onGridSnap (bs, gen, scrollbackLen, flags) x1 of
                     (Some r, x2) \<Rightarrow> (Inr (Some r), frames1, c1, x2)
                   | (None, x2) \<Rightarrow> live_loop S now scratch onOpened onGridSnap (frames1, c1, x2))
              | DeliveredGridApplied _ \<Rightarrow> live_loop S now scratch onOpened onGridSnap (frames1, c1, x1)
              | DeliveredNothing \<Rightarrow> live_loop S now scratch onOpened onGridSnap (frames1, c1, x1))"
  by pat_completeness auto

termination live_loop
  by (relation "measure (\<lambda>(S, now, scratch, onOpened, onGridSnap, frames, c, x). Buffered frames)")
    (auto dest: fs_Next_decreases [OF sym])

declare live_loop.simps [simp del]

definition PumpLive ::
  "sodium \<Rightarrow> Timestamp \<Rightarrow> bytes \<Rightarrow> bytes \<Rightarrow> ('x \<Rightarrow> 'x) \<Rightarrow> (bytes \<times> u32 \<times> u32 \<times> byte \<Rightarrow> 'x \<Rightarrow> ConnectionEvent option \<times> 'x) \<Rightarrow>
   'k ConnectionBase_scheme \<Rightarrow> StreamState \<Rightarrow> 'x \<Rightarrow> connection_result \<times> 'k ConnectionBase_scheme \<times> StreamState \<times> 'x" where
  "PumpLive S now out scratch onOpened onGridSnap k st x =
     (case kb_Channel k of
        None \<Rightarrow> (Inr Idle, k, st, x)
      | Some c0 \<Rightarrow>
          case live_loop S now scratch onOpened onGridSnap (kb_Frames k, borrow st c0, x) of
            (Inl e, frames, c, x1) \<Rightarrow>
              (case kb_Fail e (k\<lparr>kb_Frames := frames, kb_Channel := Some c\<rparr>) of (f, k') \<Rightarrow> (Inl f, k', give_back c st, x1))
          | (Inr (Some event), frames, c, x1) \<Rightarrow>
              (Inr event, k\<lparr>kb_Frames := frames, kb_Channel := Some c\<rparr>, give_back c st, x1)
          | (Inr None, frames, c, x1) \<Rightarrow>
              (let k1 = k\<lparr>kb_Frames := frames\<rparr> in
               case Poll S now out scratch c of
                 (Inl e, c2) \<Rightarrow>
                   (case kb_Fail e (k1\<lparr>kb_Channel := Some c2\<rparr>) of (f, k') \<Rightarrow> (Inl f, k', give_back c2 st, x1))
               | (Inr (n, out'), c2) \<Rightarrow>
                   (Inr (if n > 0 then SendFrame (take n out') else Idle), k1\<lparr>kb_Channel := Some c2\<rparr>, give_back c2 st, x1)))"

subsection \<open>AgentConnection\<close>

datatype EAgentStage = AwaitHello | AwaitRoute | AHandshake | AwaitResume | AwaitSnapshot | ALive

record AgentConnection = ConnectionBase +
  ak_Stage :: EAgentStage
  ak_Hello :: bytes
  ak_HelloId :: bytes
  ak_HelloAnswered :: bool
  ak_HelloGridCapable :: bool
  ak_SnapshotReminderSent :: bool
  ak_WaitForResize :: bool
  ak_ResizeWaitDeadline :: "Timestamp option"
  ak_SupplySnapshotDeadline :: "Timestamp option"
  ak_GridAppliedDeadline :: "Timestamp option"
  ak_Attempt :: "ResumeAttempt option"
  ak_Handle :: "SessionHandle option"
  ak_Current :: "DirectionFrames option"
  ak_Fallback :: "DirectionFrames option"

definition mk_AgentConnection :: "bytes \<Rightarrow> Timestamp \<Rightarrow> u16 \<Rightarrow> AgentConnection" where
  "mk_AgentConnection frameStorage now ceiling =
     \<lparr>kb_Frames = mk_FrameStream frameStorage (of_nat MAX_HANDSHAKE_FRAME), kb_Started = now, kb_Channel = None,
      kb_Failed = None, kb_SnapshotBuf = [], kb_NegotiatedVersion = PROTOCOL_VERSION_MIN, kb_Ceiling = ceiling,
      ak_Stage = AwaitHello, ak_Hello = [], ak_HelloId = replicate SESSION_ID_SIZE 0, ak_HelloAnswered = False,
      ak_HelloGridCapable = False, ak_SnapshotReminderSent = False, ak_WaitForResize = False,
      ak_ResizeWaitDeadline = None, ak_SupplySnapshotDeadline = None, ak_GridAppliedDeadline = None,
      ak_Attempt = None, ak_Handle = None, ak_Current = None, ak_Fallback = None\<rparr>"

type_synonym agent_state = "AgentConnection \<times> AgentSession"
type_synonym agent_step = "agent_state \<Rightarrow> connection_result \<times> agent_state"

definition deadline_of :: "Timestamp option \<Rightarrow> Deadline" where
  "deadline_of t = (case t of Some t \<Rightarrow> deadline_at t | None \<Rightarrow> no_deadline)"

definition ak_NextDeadline :: "AgentConnection \<Rightarrow> Deadline" where
  "ak_NextDeadline k =
     Earliest (Earliest (Earliest (kb_NextDeadline k) (deadline_of (ak_ResizeWaitDeadline k)))
                 (deadline_of (ak_SupplySnapshotDeadline k)))
       (deadline_of (ak_GridAppliedDeadline k))"

definition Route :: "sodium \<Rightarrow> bytes \<Rightarrow> agent_state \<Rightarrow> agent_state" where
  "Route S serverNonce ks =
     (case ks of (k, s) \<Rightarrow>
        if ak_Stage k \<noteq> AwaitRoute then (k, s)
        else (k\<lparr>ak_Attempt := Some (mk_ResumeAttempt S s serverNonce (kb_Ceiling k)), ak_Stage := AHandshake\<rparr>, s))"

definition RouteUnknown :: "sodium \<Rightarrow> Key \<Rightarrow> bytes \<Rightarrow> agent_state \<Rightarrow> agent_state" where
  "RouteUnknown S localSecret serverNonce ks =
     (case ks of (k, s) \<Rightarrow>
        if ak_Stage k \<noteq> AwaitRoute then (k, s)
        else (k\<lparr>ak_Attempt := Some (ForUnknown S localSecret (ak_HelloId k) serverNonce (kb_Ceiling k)), ak_Stage := AHandshake\<rparr>, s))"

definition ak_Refuse :: "SessionError \<Rightarrow> agent_step" where
  "ak_Refuse error ks =
     (case ks of (k, s) \<Rightarrow>
        case kb_Fail error k of
          (failed, k') \<Rightarrow>
            (Inl failed,
             k', (case (Session_Disposition failed, ak_Handle k', failed) of
                    (KillSession, Some _, SessErr reason) \<Rightarrow> sh_Kill reason s
                  | _ \<Rightarrow> s)))"

text \<open>The TLV that \<open>PumpHello\<close> looks for in the stored Hello.\<close>

definition hello_grid_capable :: "bytes \<Rightarrow> bool" where
  "hello_grid_capable hello =
     (case fst (ParseHello (snd (ParseMessageType (mk_reader hello)))) of
        Inl _ \<Rightarrow> False
      | Inr m \<Rightarrow> list_ex (\<lambda>opt. opt_Type opt = TLV_GRID_CAPABLE \<and> length (opt_Value opt) = 2 \<and>
                    fst (ReadU16BE (mk_reader (opt_Value opt))) = Inr 1) (he_Options m))"

definition PumpHello :: agent_step where
  "PumpHello ks =
     (case ks of (k, s) \<Rightarrow>
      case fs_Next (kb_Frames k) of
        (Inl e, frames) \<Rightarrow> ak_Refuse (ProtoErr e) (k\<lparr>kb_Frames := frames\<rparr>, s)
      | (Inr None, frames) \<Rightarrow> (Inr Idle, k\<lparr>kb_Frames := frames\<rparr>, s)
      | (Inr (Some frame), frames) \<Rightarrow>
          let k1 = k\<lparr>kb_Frames := frames\<rparr> in
          if fh_Epoch (fv_Header frame) \<noteq> CLEARTEXT_EPOCH then ak_Refuse (PreAuthErr UnexpectedMessage) (k1, s)
          else case PeekHelloSessionId (fv_Body frame) of
            Inl (PreAuthError e) \<Rightarrow> ak_Refuse (PreAuthErr e) (k1, s)
          | Inr sid \<Rightarrow>
              (Inr (NeedsSession sid),
               k1\<lparr>ak_Hello := fv_Body frame, ak_HelloId := sid,
                  ak_HelloGridCapable := (ak_HelloGridCapable k1 \<or> hello_grid_capable (fv_Body frame)),
                  ak_Stage := AwaitRoute\<rparr>, s))"

text \<open>The handshake has authenticated the peer: keys of both seeds, frames of full size, a handle.\<close>

definition agent_authenticated :: "HandshakeResult \<Rightarrow> AgentConnection \<Rightarrow> AgentConnection" where
  "agent_authenticated result k =
     k\<lparr>kb_Frames := RaiseLimit (of_nat MAX_FRAME) (kb_Frames k), kb_NegotiatedVersion := hr_Version result,
       ak_Current := Some (MakeDirectionFrames (hr_Keys result) RAgent MAX_FRAMES_PER_EPOCH MAX_BYTES_PER_EPOCH),
       ak_Fallback := (case hr_FallbackKeys result of
           Some keys \<Rightarrow> Some (MakeDirectionFrames keys RAgent MAX_FRAMES_PER_EPOCH MAX_BYTES_PER_EPOCH)
         | None \<Rightarrow> ak_Fallback k),
       ak_Handle := Some new_handle, ak_Attempt := None, ak_Stage := AwaitResume\<rparr>"

definition agent_shake :: "sodium \<Rightarrow> bytes \<Rightarrow> bytes \<Rightarrow> agent_step" where
  "agent_shake S body out ks =
     (case ks of (k, s) \<Rightarrow>
      case ak_Attempt k of
        None \<Rightarrow> (Inr Idle, k, s)
      | Some attempt \<Rightarrow>
          let session = (if ra_Known attempt then Some s else None) in
          case ra_Handle S session body (HandshakeBody out) attempt of
            (Inl (PreAuthError e), attempt1) \<Rightarrow> ak_Refuse (PreAuthErr e) (k\<lparr>ak_Attempt := Some attempt1\<rparr>, s)
          | (Inr step, attempt1) \<Rightarrow>
              let k1 = k\<lparr>ak_Attempt := Some attempt1\<rparr>;
                  answer = (if hs_Written step = [] then Idle else SendFrame (FrameCleartext (hs_Written step))) in
              if hs_Complete step
              then (case ra_Finish attempt1 session of
                      (Inl e, _) \<Rightarrow> ak_Refuse (SessErr e) (k1, s)
                    | (Inr result, s1) \<Rightarrow>
                        (Inr answer, agent_authenticated result k1,
                         SetGridInfo (hr_Version result) (ak_HelloGridCapable k1) (the s1)))
              else (Inr answer, k1, s))"

definition ak_PumpHandshake :: "sodium \<Rightarrow> bytes \<Rightarrow> agent_step" where
  "ak_PumpHandshake S out ks =
     (case ks of (k, s) \<Rightarrow>
        if \<not> ak_HelloAnswered k then agent_shake S (ak_Hello k) out (k\<lparr>ak_HelloAnswered := True\<rparr>, s)
        else case fs_Next (kb_Frames k) of
          (Inl e, frames) \<Rightarrow> ak_Refuse (ProtoErr e) (k\<lparr>kb_Frames := frames\<rparr>, s)
        | (Inr None, frames) \<Rightarrow> (Inr Idle, k\<lparr>kb_Frames := frames\<rparr>, s)
        | (Inr (Some frame), frames) \<Rightarrow>
            if fh_Epoch (fv_Header frame) \<noteq> CLEARTEXT_EPOCH
            then ak_Refuse (PreAuthErr UnexpectedMessage) (k\<lparr>kb_Frames := frames\<rparr>, s)
            else agent_shake S (fv_Body frame) out (k\<lparr>kb_Frames := frames\<rparr>, s))"

definition QueueEnd :: "agent_state \<Rightarrow> agent_state" where
  "QueueEnd ks =
     (case ks of (k, s) \<Rightarrow>
      case gs_End s of
        None \<Rightarrow> (k, s)
      | Some e \<Rightarrow> (k\<lparr>kb_Channel := map_option (QueueSessionEnd e) (kb_Channel k)\<rparr>, s))"

text \<open>\<open>PumpLive\<close> with the agent's callbacks, and the size of a Resize handed to the session.\<close>

definition agent_live :: "sodium \<Rightarrow> Timestamp \<Rightarrow> bytes \<Rightarrow> bytes \<Rightarrow> agent_step" where
  "agent_live S now out scratch ks =
     (case ks of (k, s) \<Rightarrow>
      case PumpLive S now out scratch id (\<lambda>_ x. (None, x)) k (gs_Streams s) () of
        (r, k1, st, _) \<Rightarrow> (r, k1, s\<lparr>gs_Streams := st\<rparr>))"

definition report_resized :: "connection_result \<Rightarrow> agent_state \<Rightarrow> agent_state" where
  "report_resized r ks =
     (case ks of (k, s) \<Rightarrow>
      case (r, ak_Handle k) of
        (Inr (Resized sz), Some h) \<Rightarrow> (k, ReportResize h sz s)
      | _ \<Rightarrow> (k, s))"

text \<open>
  The keys of the current seed first, then those of the seed before it. A failed open hands back the
  opener as it was, so both are kept.
\<close>

definition open_resume ::
  "sodium \<Rightarrow> FrameView \<Rightarrow> bytes \<Rightarrow> AgentConnection \<Rightarrow> (bytes proto_result \<times> EResumeKeys) \<times> AgentConnection" where
  "open_resume S frame scratch k =
     (case ak_Current k of
        None \<Rightarrow> ((Inl AuthenticationFailed, UsedCurrent), k)
      | Some current \<Rightarrow>
          case Open S scratch frame (df_Opener current) of
            (r, op) \<Rightarrow>
              let k1 = k\<lparr>ak_Current := Some (current\<lparr>df_Opener := op\<rparr>)\<rparr> in
              (case ak_Fallback k of
                 Some fallback \<Rightarrow>
                   if r = Inl AuthenticationFailed
                   then (case Open S scratch frame (df_Opener fallback) of
                           (r2, op2) \<Rightarrow> ((r2, UsedPrevious), k1\<lparr>ak_Fallback := Some (fallback\<lparr>df_Opener := op2\<rparr>)\<rparr>))
                   else ((r, UsedCurrent), k1)
               | None \<Rightarrow> ((r, UsedCurrent), k1)))"

text \<open>The decision between replay (path A) and snapshot (path B).\<close>

definition use_path_b :: "AgentConnection \<Rightarrow> ResumeMessage \<Rightarrow> AgentSession \<Rightarrow> bool" where
  "use_path_b k resume s =
     (let gridCapable = (kb_NegotiatedVersion k \<ge> PROTOCOL_VERSION_GRID \<and> ak_HelloGridCapable k);
          mandatoryB = (gridCapable \<and> (sh_RingOverflowed s \<or> re_StreamGen resume < sh_SessionGen s));
          force = lim_ForcePath (ss_Limits (gs_Streams s)) in
      if mandatoryB then True
      else if gridCapable \<and> force = FP_B then True
      else if gridCapable \<and> force = FP_None
      then (let end' = sb_End (ss_Output (gs_Streams s));
                replayCost = (if end' > re_ClientReceiveOffset resume then end' - re_ClientReceiveOffset resume else 0) in
            case gs_LastKnownSize s of
              Some sz \<Rightarrow> replayCost > SnapshotEstimateBytes (ucast (rs_Rows sz)) (ucast (rs_Cols sz))
            | None \<Rightarrow> False)
      else False)"

definition agent_channel :: "DirectionFrames \<Rightarrow> Timestamp \<Rightarrow> AgentConnection \<Rightarrow> AgentSession \<Rightarrow> Channel" where
  "agent_channel chosen now k s =
     mk_Channel chosen (ss_Output (gs_Streams s)) (ss_Input (gs_Streams s)) now (lim_Liveness (ss_Limits (gs_Streams s)))
       (kb_NegotiatedVersion k) (kb_SnapshotBuf k) 0"

text \<open>The loop of \<open>PumpAwaitSnapshot\<close> over the frames that are already in; a Resize ends the wait for one.\<close>

function await_loop ::
  "sodium \<Rightarrow> Timestamp \<Rightarrow> bytes \<Rightarrow> FrameStream \<times> Channel \<Rightarrow>
   (SessionError + ConnectionEvent option) \<times> FrameStream \<times> Channel" where
  "await_loop S now scratch (frames, c) =
     (case fs_Next frames of
        (Inl e, frames1) \<Rightarrow> (Inl (ProtoErr e), frames1, c)
      | (Inr None, frames1) \<Rightarrow> (Inr None, frames1, c)
      | (Inr (Some frame), frames1) \<Rightarrow>
          case ch_Receive S now frame scratch c of
            (Inl e, c1) \<Rightarrow> (Inl e, frames1, c1)
          | (Inr (DeliveredData bs _), c1) \<Rightarrow> (Inr (Some (Deliver bs)), frames1, c1)
          | (Inr (DeliveredResize sz), c1) \<Rightarrow> (Inr (Some (Resized sz)), frames1, c1)
          | (Inr _, c1) \<Rightarrow> await_loop S now scratch (frames1, c1))"
  by pat_completeness auto

termination await_loop
  by (relation "measure (\<lambda>(S, now, scratch, frames, c). Buffered frames)") (auto dest: fs_Next_decreases [OF sym])

declare await_loop.simps [simp del]

text \<open>What is left to do once every frame is read: the wait for the Resize, then the reminder, once.\<close>

definition await_idle :: "Timestamp \<Rightarrow> agent_step" where
  "await_idle now ks =
     (case ks of (k, s) \<Rightarrow>
        let expired = (case ak_ResizeWaitDeadline k of Some t \<Rightarrow> now \<ge> t | None \<Rightarrow> False) in
        if ak_WaitForResize k \<and> \<not> expired then (Inr Idle, k, s)
        else let k1 = (if ak_WaitForResize k then k\<lparr>ak_WaitForResize := False, ak_ResizeWaitDeadline := None\<rparr> else k) in
          if \<not> ak_SnapshotReminderSent k1
          then (Inr (case gs_LastKnownSize s of
                       Some sz \<Rightarrow> NeedsSnapshot (rs_Rows sz) (rs_Cols sz)
                     | None \<Rightarrow> NeedsSnapshot 0 0),
                k1\<lparr>ak_SnapshotReminderSent := True\<rparr>, s)
          else (Inr Idle, k1, s))"

definition PumpAwaitSnapshot :: "sodium \<Rightarrow> Timestamp \<Rightarrow> bytes \<Rightarrow> bytes \<Rightarrow> agent_step" where
  "PumpAwaitSnapshot S now out scratch ks =
     (case ks of (k, s) \<Rightarrow>
        if (case ak_SupplySnapshotDeadline k of Some t \<Rightarrow> now \<ge> t | None \<Rightarrow> False)
        then ak_Refuse (SessErr HandshakeTimeout) (k, s)
        else case kb_Channel k of
          None \<Rightarrow> (Inr Idle, k, s)
        | Some c0 \<Rightarrow>
            let back = (\<lambda>c. s\<lparr>gs_Streams := give_back c (gs_Streams s)\<rparr>) in
            case await_loop S now scratch (kb_Frames k, borrow (gs_Streams s) c0) of
              (Inl e, frames, c) \<Rightarrow>
                (case kb_Fail e (k\<lparr>kb_Frames := frames, kb_Channel := Some c\<rparr>) of (f, k') \<Rightarrow> (Inl f, k', back c))
            | (Inr (Some (Resized sz)), frames, c) \<Rightarrow>
                (Inr (Resized sz),
                 k\<lparr>kb_Frames := frames, kb_Channel := Some c, ak_WaitForResize := False, ak_ResizeWaitDeadline := None,
                   ak_SnapshotReminderSent := False\<rparr>,
                 case ak_Handle k of Some h \<Rightarrow> ReportResize h sz (back c) | None \<Rightarrow> back c)
            | (Inr (Some event), frames, c) \<Rightarrow>
                (Inr event, k\<lparr>kb_Frames := frames, kb_Channel := Some c\<rparr>, back c)
            | (Inr None, frames, c) \<Rightarrow>
                (let k1 = k\<lparr>kb_Frames := frames\<rparr> in
                 case Poll S now out scratch c of
                   (Inl e, c2) \<Rightarrow> (case kb_Fail e (k1\<lparr>kb_Channel := Some c2\<rparr>) of (f, k') \<Rightarrow> (Inl f, k', back c2))
                 | (Inr (n, out'), c2) \<Rightarrow>
                     if n > 0 then (Inr (SendFrame (take n out')), k1\<lparr>kb_Channel := Some c2\<rparr>, back c2)
                     else await_idle now (k1\<lparr>kb_Channel := Some c2\<rparr>, back c2)))"

definition resume_path_b :: "sodium \<Rightarrow> Timestamp \<Rightarrow> bytes \<Rightarrow> bytes \<Rightarrow> DirectionFrames \<Rightarrow> SessionHandle \<Rightarrow> agent_step" where
  "resume_path_b S now out scratch chosen h ks =
     (case ks of (k, s) \<Rightarrow>
      case sh_AttachPathB (h, s) of
        (Inl e, h1, s1) \<Rightarrow> ak_Refuse (SessErr e) (k\<lparr>ak_Handle := Some h1\<rparr>, s1)
      | (Inr _, h1, s1) \<Rightarrow>
          let k1 = k\<lparr>ak_Handle := Some h1, kb_Channel := Some (SuppressDataUntilGrid (agent_channel chosen now k s1)),
                ak_Stage := AwaitSnapshot, ak_SupplySnapshotDeadline := Some (now + SUPPLY_SNAPSHOT_TIMEOUT),
                ak_WaitForResize := True, ak_ResizeWaitDeadline := Some (now + RESIZE_WAIT_TIMEOUT),
                ak_SnapshotReminderSent := False\<rparr> in
          if Buffered (kb_Frames k1) > 0 then PumpAwaitSnapshot S now out scratch (k1, s1)
          else (Inr Idle, k1, s1))"

definition resume_path_a ::
  "sodium \<Rightarrow> Timestamp \<Rightarrow> bytes \<Rightarrow> bytes \<Rightarrow> DirectionFrames \<Rightarrow> u64 \<Rightarrow> SessionHandle \<Rightarrow> agent_step" where
  "resume_path_a S now out scratch chosen clientReceiveOffset h ks =
     (case ks of (k, s) \<Rightarrow>
      case sh_Attach clientReceiveOffset (h, s) of
        (Inl e, h1, s1) \<Rightarrow>
          (case (e, gs_End s1) of
             (SessionReaped, Some end') \<Rightarrow>
               if se_Kind end' = Overflow
               then (Inr SessionOverflowed, snd (kb_Fail (SessErr e) (k\<lparr>ak_Handle := Some h1\<rparr>)), s1)
               else ak_Refuse (SessErr e) (k\<lparr>ak_Handle := Some h1\<rparr>, s1)
           | _ \<Rightarrow> ak_Refuse (SessErr e) (k\<lparr>ak_Handle := Some h1\<rparr>, s1))
      | (Inr _, h1, s1) \<Rightarrow>
          let k1 = k\<lparr>ak_Handle := Some h1, kb_Channel := Some (agent_channel chosen now k s1), ak_Stage := ALive\<rparr> in
          case agent_live S now out scratch (QueueEnd (k1, s1)) of
            (r, ks2) \<Rightarrow> (r, report_resized r ks2))"

text \<open>The part of \<open>PumpResume\<close> from the opened Resume on.\<close>

definition resume_opened ::
  "sodium \<Rightarrow> Timestamp \<Rightarrow> bytes \<Rightarrow> bytes \<Rightarrow> bytes \<Rightarrow> EResumeKeys \<Rightarrow> SessionHandle \<Rightarrow> agent_step" where
  "resume_opened S now out scratch opened used h ks =
     (case ks of (k, s) \<Rightarrow>
      case ParseMessageType (mk_reader opened) of
        (Inl _, _) \<Rightarrow> ak_Refuse (ProtoErr UnexpectedMessage) (k, s)
      | (Inr type, reader) \<Rightarrow>
          if type \<noteq> Resume then ak_Refuse (ProtoErr UnexpectedMessage) (k, s)
          else case fst (ParseResume (kb_NegotiatedVersion k) reader) of
            Inl e \<Rightarrow> ak_Refuse (ProtoErr e) (k, s)
          | Inr resume \<Rightarrow>
              case ConfirmResume S used s of
                (Inl e, s1) \<Rightarrow> ak_Refuse (SessErr e) (k, s1)
              | (Inr _, s1) \<Rightarrow>
                  if re_StreamGen resume > sh_SessionGen s1 then ak_Refuse (ProtoErr MalformedField) (k, s1)
                  else case (if used = UsedCurrent then ak_Current k else ak_Fallback k) of
                    None \<Rightarrow> (Inr Idle, k, s1)
                  | Some chosen \<Rightarrow>
                      let pathB = use_path_b k resume s1; k1 = k\<lparr>ak_Current := None, ak_Fallback := None\<rparr> in
                      if pathB then resume_path_b S now out scratch chosen h (k1, s1)
                      else resume_path_a S now out scratch chosen (re_ClientReceiveOffset resume) h (k1, s1))"

definition PumpResume :: "sodium \<Rightarrow> Timestamp \<Rightarrow> bytes \<Rightarrow> bytes \<Rightarrow> agent_step" where
  "PumpResume S now out scratch ks =
     (case ks of (k, s) \<Rightarrow>
      case fs_Next (kb_Frames k) of
        (Inl e, frames) \<Rightarrow> ak_Refuse (ProtoErr e) (k\<lparr>kb_Frames := frames\<rparr>, s)
      | (Inr None, frames) \<Rightarrow> (Inr Idle, k\<lparr>kb_Frames := frames\<rparr>, s)
      | (Inr (Some frame), frames) \<Rightarrow>
          case open_resume S frame scratch (k\<lparr>kb_Frames := frames\<rparr>) of
            ((Inl e, _), k1) \<Rightarrow> ak_Refuse (ProtoErr e) (k1, s)
          | ((Inr opened, used), k1) \<Rightarrow>
              case ak_Handle k1 of
                None \<Rightarrow> (Inr Idle, k1, s)
              | Some h \<Rightarrow> resume_opened S now out scratch opened used h (k1, s))"

definition current_or_refuse :: "agent_step \<Rightarrow> agent_step" where
  "current_or_refuse step ks =
     (case ks of (k, s) \<Rightarrow>
      case ak_Handle k of
        Some h \<Rightarrow> if \<not> sh_IsCurrent h s then ak_Refuse (SessErr Superseded) (k, s) else step (k, s)
      | None \<Rightarrow> (Inr Idle, k, s))"

definition pump_live_stage :: "sodium \<Rightarrow> Timestamp \<Rightarrow> bytes \<Rightarrow> bytes \<Rightarrow> agent_step" where
  "pump_live_stage S now out scratch ks =
     (case ks of (k, s) \<Rightarrow>
        if (case ak_GridAppliedDeadline k of Some t \<Rightarrow> now \<ge> t | None \<Rightarrow> False)
        then ak_Refuse (SessErr HandshakeTimeout) (k, s)
        else case agent_live S now out scratch (QueueEnd (k, s)) of
          (r, k1, s1) \<Rightarrow>
            let k2 = (case kb_Channel k1 of
                        Some c \<Rightarrow> if \<not> GridInFlight c then k1\<lparr>ak_GridAppliedDeadline := None\<rparr> else k1
                      | None \<Rightarrow> k1)
            in (r, report_resized r (k2, s1)))"

definition ak_Pump :: "sodium \<Rightarrow> Timestamp \<Rightarrow> bytes \<Rightarrow> bytes \<Rightarrow> agent_step" where
  "ak_Pump S now out scratch ks =
     (case ks of (k, s) \<Rightarrow>
      case kb_Failed k of
        Some e \<Rightarrow> (Inl e, k, s)
      | None \<Rightarrow>
          case CheckBuffers out scratch of
            Inl e \<Rightarrow> (Inl e, k, s)
          | Inr _ \<Rightarrow>
              if HandshakeExpired now k then ak_Refuse (SessErr HandshakeTimeout) (k, s)
              else (case ak_Stage k of
                      AwaitHello \<Rightarrow> PumpHello (k, s)
                    | AwaitRoute \<Rightarrow> (Inr (NeedsSession (ak_HelloId k)), k, s)
                    | AHandshake \<Rightarrow> ak_PumpHandshake S out (k, s)
                    | AwaitResume \<Rightarrow> PumpResume S now out scratch (k, s)
                    | AwaitSnapshot \<Rightarrow> current_or_refuse (PumpAwaitSnapshot S now out scratch) (k, s)
                    | ALive \<Rightarrow> current_or_refuse (pump_live_stage S now out scratch) (k, s)))"

definition DeliveredEnd :: "agent_state \<Rightarrow> bool" where
  "DeliveredEnd ks =
     (case ks of (k, s) \<Rightarrow>
      case (ak_Handle k, kb_Channel k) of
        (Some h, Some c) \<Rightarrow> ak_Stage k = ALive \<and> sh_IsCurrent h s \<and> cn_EndSent c
      | _ \<Rightarrow> False)"

definition SupplySnapshot :: "Timestamp \<Rightarrow> bytes \<Rightarrow> u32 \<Rightarrow> byte \<Rightarrow> agent_state \<Rightarrow> agent_state" where
  "SupplySnapshot now snapshot scrollbackLen flags ks =
     (case ks of (k, s) \<Rightarrow>
      case (ak_Stage k, kb_Channel k, ak_Handle k) of
        (AwaitSnapshot, Some c, Some h) \<Rightarrow>
          if \<not> sh_IsCurrent h s then (k, s)
          else if snapshot = [] \<or> length snapshot > SNAPSHOT_MAX_BYTES then (k\<lparr>ak_SnapshotReminderSent := False\<rparr>, s)
          else let s1 = sh_NewGeneration h s;
                   c1 = snd (StartGrid snapshot flags (sh_SessionGen s1) scrollbackLen c) in
            QueueEnd (k\<lparr>ak_SupplySnapshotDeadline := None, kb_Channel := Some c1,
                        ak_GridAppliedDeadline := Some (now + GRID_APPLIED_TIMEOUT), ak_Stage := ALive\<rparr>, s1)
      | _ \<Rightarrow> (k, s))"

definition ak_GridEmissionDone :: "AgentConnection \<Rightarrow> bool" where
  "ak_GridEmissionDone k = (case kb_Channel k of Some c \<Rightarrow> GridEmissionDone c | None \<Rightarrow> False)"

definition ak_Close :: "Timestamp \<Rightarrow> agent_state \<Rightarrow> agent_state" where
  "ak_Close now ks =
     (case ks of (k, s) \<Rightarrow> (k, case ak_Handle k of Some h \<Rightarrow> sh_Detach h now s | None \<Rightarrow> s))"

subsection \<open>ClientConnection\<close>

datatype EClientConnStage = SendHello | KHandshake | KLive

record ClientConnection = ConnectionBase +
  ck_Stage :: EClientConnStage
  ck_Attempt :: ClientHandshake
  ck_Handle :: "ClientSessionHandle option"
  ck_PendingResize :: "ResizeMessage option"
  ck_PendingApplyGen :: "u32 option"

type_synonym client_state = "ClientConnection \<times> ClientSession"
type_synonym client_conn_step = "client_state \<Rightarrow> connection_result \<times> client_state"

definition mk_ClientConnection ::
  "sodium \<Rightarrow> ClientSession \<Rightarrow> bytes \<Rightarrow> bytes \<Rightarrow> Timestamp \<Rightarrow> bool \<Rightarrow> u16 \<Rightarrow> bytes \<Rightarrow> ClientConnection" where
  "mk_ClientConnection S s clientNonce frameStorage now gridCapable ceiling snapshotBuf =
     \<lparr>kb_Frames = mk_FrameStream frameStorage (of_nat MAX_HANDSHAKE_FRAME), kb_Started = now, kb_Channel = None,
      kb_Failed = None, kb_SnapshotBuf = snapshotBuf, kb_NegotiatedVersion = PROTOCOL_VERSION_MIN, kb_Ceiling = ceiling,
      ck_Stage = SendHello, ck_Attempt = mk_ClientResumeAttempt S s clientNonce gridCapable ceiling,
      ck_Handle = None, ck_PendingResize = None, ck_PendingApplyGen = None\<rparr>"

definition ck_QueueResize :: "ResizeMessage \<Rightarrow> ClientConnection \<Rightarrow> ClientConnection" where
  "ck_QueueResize sz k =
     (case kb_Channel k of
        Some c \<Rightarrow> k\<lparr>kb_Channel := Some (QueueResize sz c)\<rparr>
      | None \<Rightarrow> k\<lparr>ck_PendingResize := Some sz\<rparr>)"

definition ck_Refuse :: "SessionError \<Rightarrow> client_conn_step" where
  "ck_Refuse error ks =
     (case ks of (k, s) \<Rightarrow>
        case kb_Fail error k of
          (failed, k') \<Rightarrow>
            (Inl failed,
             k', (case (Session_Disposition failed, ck_Handle k', failed) of
                    (KillSession, Some _, SessErr reason) \<Rightarrow> kh_Kill reason s
                  | _ \<Rightarrow> s)))"

definition client_resume :: "ClientConnection \<Rightarrow> ClientSession \<Rightarrow> ResumeMessage" where
  "client_resume k s =
     \<lparr>re_StreamGen = (if kb_NegotiatedVersion k \<ge> PROTOCOL_VERSION_GRID then cs_StreamGen s else 0),
      re_ClientReceiveOffset = ReceiveOffset (cs_Streams s)\<rparr>"

definition client_channel ::
  "DirectionFrames \<Rightarrow> Timestamp \<Rightarrow> ClientConnection \<Rightarrow> ClientSession \<Rightarrow> Channel" where
  "client_channel frames now k s =
     mk_Channel frames (ss_Output (cs_Streams s)) (ss_Input (cs_Streams s)) now (lim_Liveness (ss_Limits (cs_Streams s)))
       (kb_NegotiatedVersion k) (kb_SnapshotBuf k)
       (if kb_NegotiatedVersion k \<ge> PROTOCOL_VERSION_GRID then cs_StreamGen s else 0)"

definition SendResume :: "sodium \<Rightarrow> Timestamp \<Rightarrow> bytes \<Rightarrow> client_conn_step" where
  "SendResume S now out ks =
     (case ks of (k, s) \<Rightarrow>
      case ca_Finish (ck_Attempt k) s of
        (Inl e, s1) \<Rightarrow> ck_Refuse (SessErr e) (k, s1)
      | (Inr result, s1) \<Rightarrow>
          case kh_Attach (hr_PeerReceiveOffset result) (new_client_handle, s1) of
            (Inl e, h, s2) \<Rightarrow> ck_Refuse (SessErr e) (k\<lparr>ck_Handle := Some h\<rparr>, s2)
          | (Inr _, h, s2) \<Rightarrow>
              let k1 = k\<lparr>ck_Handle := Some h, kb_Frames := RaiseLimit (of_nat MAX_FRAME) (kb_Frames k),
                    kb_NegotiatedVersion := hr_Version result\<rparr>;
                  frames = MakeDirectionFrames (hr_Keys result) RClient MAX_FRAMES_PER_EPOCH MAX_BYTES_PER_EPOCH in
              case WriteResume (kb_NegotiatedVersion k1) (client_resume k1 s2) (mk_writer (replicate RESUME_PLAINTEXT_MAX 0)) of
                (Inl e, w) \<Rightarrow> ck_Refuse (ProtoErr e) (k1, s2)
              | (Inr _, w) \<Rightarrow>
                  case Seal S out (Written w) (df_Sealer frames) of
                    (Inl e, sl) \<Rightarrow> ck_Refuse (ProtoErr e) (k1, s2)
                  | (Inr (n, out'), sl) \<Rightarrow>
                      let c = client_channel (frames\<lparr>df_Sealer := sl\<rparr>) now k1 s2;
                          c1 = (case ck_PendingResize k1 of Some sz \<Rightarrow> QueueResize sz c | None \<Rightarrow> c) in
                      (Inr (SendFrame (take n out')),
                       k1\<lparr>kb_Channel := Some c1, ck_PendingResize := None, ck_Stage := KLive\<rparr>, s2))"

definition ck_PumpHandshake :: "sodium \<Rightarrow> Timestamp \<Rightarrow> bytes \<Rightarrow> client_conn_step" where
  "ck_PumpHandshake S now out ks =
     (case ks of (k, s) \<Rightarrow>
      case fs_Next (kb_Frames k) of
        (Inl e, frames) \<Rightarrow> ck_Refuse (ProtoErr e) (k\<lparr>kb_Frames := frames\<rparr>, s)
      | (Inr None, frames) \<Rightarrow> (Inr Idle, k\<lparr>kb_Frames := frames\<rparr>, s)
      | (Inr (Some frame), frames) \<Rightarrow>
          if fh_Epoch (fv_Header frame) \<noteq> CLEARTEXT_EPOCH
          then ck_Refuse (PreAuthErr UnexpectedMessage) (k\<lparr>kb_Frames := frames\<rparr>, s)
          else case ca_Handle S s (fv_Body frame) (HandshakeBody out) (ck_Attempt k) of
            (Inl (PreAuthError e), h) \<Rightarrow> ck_Refuse (PreAuthErr e) (k\<lparr>kb_Frames := frames, ck_Attempt := h\<rparr>, s)
          | (Inr step, h) \<Rightarrow>
              let k1 = k\<lparr>kb_Frames := frames, ck_Attempt := h\<rparr> in
              if hs_Complete step then SendResume S now out (k1, s)
              else (Inr (if hs_Written step = [] then Idle else SendFrame (FrameCleartext (hs_Written step))), k1, s))"

text \<open>The client's callbacks of \<open>PumpLive\<close>: the handle's first frame ratchets the seed, and a snapshot waits to
  be confirmed.\<close>

type_synonym client_callback_state = "ClientSessionHandle \<times> ClientSession \<times> u32 option"

definition on_agent_frame :: "sodium \<Rightarrow> client_callback_state \<Rightarrow> client_callback_state" where
  "on_agent_frame S x =
     (case x of (h, s, gen) \<Rightarrow> case ConfirmAgentFrame S (h, s) of (h', s') \<Rightarrow> (h', s', gen))"

definition on_snapshot ::
  "bytes \<times> u32 \<times> u32 \<times> byte \<Rightarrow> client_callback_state \<Rightarrow> ConnectionEvent option \<times> client_callback_state" where
  "on_snapshot snap x =
     (case snap of (bs, gen, scrollbackLen, flags) \<Rightarrow> case x of (h, s, _) \<Rightarrow>
        (Some (ApplySnapshot bs gen scrollbackLen flags), h, s, Some gen))"

definition record_end_of :: "connection_result \<Rightarrow> ClientSession \<Rightarrow> ClientSession" where
  "record_end_of r s =
     (case r of
        Inr (Ended e) \<Rightarrow> RecordEnd e s
      | Inr SessionOverflowed \<Rightarrow> RecordEnd \<lparr>se_Kind = Overflow, se_Value = 0\<rparr> s
      | _ \<Rightarrow> s)"

definition client_live :: "sodium \<Rightarrow> Timestamp \<Rightarrow> bytes \<Rightarrow> bytes \<Rightarrow> client_conn_step" where
  "client_live S now out scratch ks =
     (case ks of (k, s) \<Rightarrow>
      case ck_Handle k of
        None \<Rightarrow> (Inr Idle, k, s)
      | Some h \<Rightarrow>
          if \<not> kh_IsCurrent h s then ck_Refuse (SessErr Superseded) (k, s)
          else case PumpLive S now out scratch (on_agent_frame S) on_snapshot k (cs_Streams s) (h, s, ck_PendingApplyGen k) of
            (r, k1, st, h1, s1, gen) \<Rightarrow>
              (r, k1\<lparr>ck_Handle := Some h1, ck_PendingApplyGen := gen\<rparr>, record_end_of r (s1\<lparr>cs_Streams := st\<rparr>)))"

definition ck_Pump :: "sodium \<Rightarrow> Timestamp \<Rightarrow> bytes \<Rightarrow> bytes \<Rightarrow> client_conn_step" where
  "ck_Pump S now out scratch ks =
     (case ks of (k, s) \<Rightarrow>
      case kb_Failed k of
        Some e \<Rightarrow> (Inl e, k, s)
      | None \<Rightarrow>
          case CheckBuffers out scratch of
            Inl e \<Rightarrow> (Inl e, k, s)
          | Inr _ \<Rightarrow>
              if HandshakeExpired now k then ck_Refuse (SessErr HandshakeTimeout) (k, s)
              else (case ck_Stage k of
                      SendHello \<Rightarrow>
                        (case Start S (HandshakeBody out) ((ck_Attempt k)\<lparr>hc_Seen := cs_Seen s\<rparr>) of
                           (Inl (PreAuthError e), h) \<Rightarrow> ck_Refuse (PreAuthErr e) (k\<lparr>ck_Attempt := h\<rparr>, s)
                         | (Inr hello, h) \<Rightarrow>
                             (Inr (SendFrame (FrameCleartext hello)), k\<lparr>ck_Attempt := h, ck_Stage := KHandshake\<rparr>, s))
                    | KHandshake \<Rightarrow> ck_PumpHandshake S now out (k, s)
                    | KLive \<Rightarrow> client_live S now out scratch (k, s)))"

definition ck_Close :: "Timestamp \<Rightarrow> client_state \<Rightarrow> client_state" where
  "ck_Close now ks =
     (case ks of (k, s) \<Rightarrow> (k, case ck_Handle k of Some h \<Rightarrow> kh_Detach h now s | None \<Rightarrow> s))"

definition ConfirmApply :: "u32 \<Rightarrow> client_state \<Rightarrow> client_state" where
  "ConfirmApply gen ks =
     (case ks of (k, s) \<Rightarrow>
        if ck_PendingApplyGen k \<noteq> Some gen then (k, s)
        else (k\<lparr>ck_PendingApplyGen := None, kb_Channel := map_option (QueueGridApplied gen) (kb_Channel k)\<rparr>,
              case ck_Handle k of
                Some h \<Rightarrow> if kh_IsCurrent h s then SetStreamGen gen s else s
              | None \<Rightarrow> s))"

definition DenyApply :: "u32 \<Rightarrow> ClientConnection \<Rightarrow> ClientConnection" where
  "DenyApply gen k = (if ck_PendingApplyGen k \<noteq> Some gen then k else k\<lparr>ck_PendingApplyGen := None\<rparr>)"

end
