(* ===== verification/Session_Guard.thy ===== *)
theory Session_Guard
  imports Session_Connection Session_Transfer
begin

text \<open>
  What an \<open>AgentConnection\<close> can do to its session, over sequences of the operations its owner calls in any
  order. Between two of them the other connections of the agent may have changed the session.

  Lemmas: the optional members the code dereferences are set in every stage that does so, and the Hello
  it keeps fits its array (\<open>agent_wf\<close>); a connection that has no handle has not touched the session, and
  only one routed to it ever gets one; a failed connection stays failed; a superseded one is inert.
\<close>

subsection \<open>The operations of an agent's connection\<close>

datatype agent_op =
    AOnBytes bytes
  | APump Timestamp bytes bytes
  | ARoute bytes
  | ARouteUnknown Key bytes
  | ASupplySnapshot Timestamp bytes u32 byte
  | AClose Timestamp
  | AReadGate bool Timestamp
  | ASendGate bool

fun agent_apply :: "sodium \<Rightarrow> agent_op \<Rightarrow> agent_state \<Rightarrow> agent_state" where
  "agent_apply S (AOnBytes chunk) (k, s) = (snd (OnBytes chunk k), s)"
| "agent_apply S (APump now out scratch) ks = snd (ak_Pump S now out scratch ks)"
| "agent_apply S (ARoute nonce) ks = Route S nonce ks"
| "agent_apply S (ARouteUnknown localSecret nonce) ks = RouteUnknown S localSecret nonce ks"
| "agent_apply S (ASupplySnapshot now snapshot scrollbackLen flags) ks = SupplySnapshot now snapshot scrollbackLen flags ks"
| "agent_apply S (AClose now) ks = ak_Close now ks"
| "agent_apply S (AReadGate open' now) (k, s) = (kb_SetReadGate open' now k, s)"
| "agent_apply S (ASendGate open') (k, s) = (kb_SetSendGate open' k, s)"

text \<open>A run: what the rest of the agent does to the session (\<open>others\<close>), then an operation, and so on.\<close>

fun agent_run :: "sodium \<Rightarrow> ((AgentSession \<Rightarrow> AgentSession) \<times> agent_op) list \<Rightarrow> agent_state \<Rightarrow> agent_state" where
  "agent_run S [] ks = ks"
| "agent_run S ((others, op) # ops) (k, s) = agent_run S ops (agent_apply S op (k, others s))"

lemma kb_Fail_simps [simp]:
  "kb_Failed (snd (kb_Fail e k)) \<noteq> None"
  "ak_Stage (snd (kb_Fail e ka)) = ak_Stage ka" "ak_Handle (snd (kb_Fail e ka)) = ak_Handle ka"
  "ak_Attempt (snd (kb_Fail e ka)) = ak_Attempt ka"
  "kb_Channel (snd (kb_Fail e k)) = kb_Channel k" "kb_Frames (snd (kb_Fail e k)) = kb_Frames k"
  "ak_Hello (snd (kb_Fail e ka)) = ak_Hello ka"
  by (auto simp: kb_Fail_def split: option.splits)

subsection \<open>Well-formedness\<close>

text \<open>What each stage has set, unless the connection has failed; the Hello always fits.\<close>

definition stage_wf :: "AgentConnection \<Rightarrow> bool" where
  "stage_wf k =
     (case ak_Stage k of
        AwaitHello \<Rightarrow> ak_Handle k = None \<and> kb_Channel k = None
      | AwaitRoute \<Rightarrow> ak_Handle k = None \<and> kb_Channel k = None
      | AHandshake \<Rightarrow> ak_Attempt k \<noteq> None \<and> ak_Handle k = None \<and> kb_Channel k = None
      | AwaitResume \<Rightarrow> ak_Handle k \<noteq> None \<and> ak_Current k \<noteq> None \<and> kb_Channel k = None
      | AwaitSnapshot \<Rightarrow> ak_Handle k \<noteq> None \<and> kb_Channel k \<noteq> None
      | ALive \<Rightarrow> ak_Handle k \<noteq> None \<and> kb_Channel k \<noteq> None)"

definition agent_wf :: "AgentConnection \<Rightarrow> bool" where
  "agent_wf k \<longleftrightarrow>
     (kb_Failed k \<noteq> None \<or> stage_wf k) \<and>
     length (ak_Hello k) \<le> MAX_HANDSHAKE_FRAME \<and>
     (ak_Stage k = AwaitHello \<longrightarrow> fs_MaxBodyLength (kb_Frames k) \<le> of_nat MAX_HANDSHAKE_FRAME)"

lemma agent_wf_failed:
  assumes "kb_Failed k \<noteq> None" and "length (ak_Hello k) \<le> MAX_HANDSHAKE_FRAME"
    and "ak_Stage k = AwaitHello \<longrightarrow> fs_MaxBodyLength (kb_Frames k) \<le> of_nat MAX_HANDSHAKE_FRAME"
  shows "agent_wf k"
  using assms by (simp add: agent_wf_def)

lemma ak_Refuse_connection: "fst (snd (ak_Refuse e (k, s))) = snd (kb_Fail e k)"
  by (simp add: ak_Refuse_def split: prod.splits)

lemma fs_Next_MaxBodyLength: "fs_MaxBodyLength (snd (fs_Next f)) = fs_MaxBodyLength f"
  by (auto simp: fs_Next_def Let_def split: sum.splits)

lemma fs_Append_MaxBodyLength: "fs_MaxBodyLength (snd (fs_Append chunk f)) = fs_MaxBodyLength f"
  by (auto simp: fs_Append_def Let_def)

lemma fs_Next_body: "fs_Next f = (Inr (Some v), f') \<Longrightarrow> length (fv_Body v) \<le> unat (fs_MaxBodyLength f)"
  using ReadFrame_InrD(2,5) [of _ "fs_MaxBodyLength f" v]
  by (auto simp: fs_Next_def Let_def word_le_nat_alt split: sum.splits if_splits)

text \<open>What the operations keep: a value \<open>f\<close> of the connection that no step of the loops writes.\<close>

lemma PumpLive_keeps:
  assumes "PumpLive S now out scratch onOpened onGridSnap k st x = (r, k', st', x')"
  shows "ak_Stage k' = ak_Stage k \<and> ak_Handle k' = ak_Handle k \<and> ak_Hello k' = ak_Hello k \<and>
    (kb_Channel k' = None \<longleftrightarrow> kb_Channel k = None)"
  using assms
  by (auto simp: PumpLive_def kb_Fail_def Let_def split: option.splits prod.splits sum.splits if_splits)


lemma agent_wf_Refuse:
  assumes "length (ak_Hello k) \<le> MAX_HANDSHAKE_FRAME"
    and "ak_Stage k = AwaitHello \<longrightarrow> fs_MaxBodyLength (kb_Frames k) \<le> of_nat MAX_HANDSHAKE_FRAME"
  shows "agent_wf (fst (snd (ak_Refuse e (k, s))))"
  unfolding ak_Refuse_connection by (rule agent_wf_failed) (use assms in simp_all)

lemma agent_wf_PumpHello:
  assumes "agent_wf k" and "ak_Stage k = AwaitHello" and "kb_Failed k = None"
  shows "agent_wf (fst (snd (PumpHello (k, s))))"
proof -
  have wf: "stage_wf k" "length (ak_Hello k) \<le> MAX_HANDSHAKE_FRAME"
    "fs_MaxBodyLength (kb_Frames k) \<le> of_nat MAX_HANDSHAKE_FRAME"
    using assms by (auto simp: agent_wf_def)
  obtain r f where n: "fs_Next (kb_Frames k) = (r, f)" by fastforce
  have f: "fs_MaxBodyLength f \<le> of_nat MAX_HANDSHAKE_FRAME"
    using fs_Next_MaxBodyLength [of "kb_Frames k"] wf(3) n by simp
  have b: "length (fv_Body v) \<le> MAX_HANDSHAKE_FRAME" if "r = Inr (Some v)" for v
  proof -
    have "length (fv_Body v) \<le> unat (fs_MaxBodyLength (kb_Frames k))" using fs_Next_body n that by blast
    also have "\<dots> \<le> unat (of_nat MAX_HANDSHAKE_FRAME :: u32)" using wf(3) by (simp add: word_le_nat_alt)
    also have "\<dots> = MAX_HANDSHAKE_FRAME" by (simp add: MAX_HANDSHAKE_FRAME_def)
    finally show ?thesis .
  qed
  have refused: "agent_wf (fst (snd (ak_Refuse e (k\<lparr>kb_Frames := f\<rparr>, s))))" for e
    by (rule agent_wf_Refuse) (use wf(2) f in simp_all)
  have idle: "agent_wf (k\<lparr>kb_Frames := f\<rparr>)" using wf f assms(2) by (simp add: agent_wf_def stage_wf_def)
  have kept: "agent_wf (k\<lparr>kb_Frames := f, ak_Hello := fv_Body v, ak_HelloId := sid, ak_HelloGridCapable := g, ak_Stage := AwaitRoute\<rparr>)"
    if "r = Inr (Some v)" for v sid g
    using b [OF that] wf(1) assms(2) by (simp add: agent_wf_def stage_wf_def)
  show ?thesis using n refused idle kept
    by (auto simp: PumpHello_def Let_def split: sum.splits option.splits PreAuthError.splits)
qed

lemma agent_wf_shake:
  assumes "agent_wf k" and "ak_Stage k = AHandshake" and "kb_Failed k = None"
  shows "agent_wf (fst (snd (agent_shake S body out (k, s))))"
proof -
  have wf: "stage_wf k" "length (ak_Hello k) \<le> MAX_HANDSHAKE_FRAME" using assms by (auto simp: agent_wf_def)
  have refused: "agent_wf (fst (snd (ak_Refuse e (k\<lparr>ak_Attempt := a\<rparr>, s))))" for e a
    by (rule agent_wf_Refuse) (use wf assms(2) in simp_all)
  have "agent_wf (k\<lparr>ak_Attempt := Some a\<rparr>)" "agent_wf (agent_authenticated result (k\<lparr>ak_Attempt := Some a\<rparr>))" for a result
    using wf assms(2) by (simp_all add: agent_wf_def stage_wf_def agent_authenticated_def)
  then show ?thesis using refused assms(1)
    by (auto simp: agent_shake_def Let_def split: option.splits prod.splits sum.splits PreAuthError.splits)
qed

lemma agent_wf_PumpHandshake:
  assumes "agent_wf k" and "ak_Stage k = AHandshake" and "kb_Failed k = None"
  shows "agent_wf (fst (snd (ak_PumpHandshake S out (k, s))))"
proof -
  have "agent_wf (k\<lparr>ak_HelloAnswered := True\<rparr>)" "agent_wf (k\<lparr>kb_Frames := f\<rparr>)" for f
    using assms by (auto simp: agent_wf_def stage_wf_def)
  moreover have "agent_wf (fst (snd (ak_Refuse e (k\<lparr>kb_Frames := f\<rparr>, s))))" for e f
    by (rule agent_wf_Refuse) (use assms in \<open>auto simp: agent_wf_def\<close>)
  ultimately show ?thesis using assms
    by (auto simp: ak_PumpHandshake_def Let_def intro: agent_wf_shake split: option.splits prod.splits sum.splits)
qed

text \<open>Past the handshake the invariant is what the stages after it share.\<close>

lemma agent_wf_later:
  assumes "ak_Stage k = AwaitSnapshot \<or> ak_Stage k = ALive"
  shows "agent_wf k \<longleftrightarrow> (kb_Failed k \<noteq> None \<or> ak_Handle k \<noteq> None \<and> kb_Channel k \<noteq> None) \<and>
    length (ak_Hello k) \<le> MAX_HANDSHAKE_FRAME"
  using assms by (auto simp: agent_wf_def stage_wf_def)

lemma agent_live_keeps:
  assumes "agent_live S now out scratch (k, s) = (r, k', s')"
  shows "ak_Stage k' = ak_Stage k" "ak_Handle k' = ak_Handle k" "ak_Hello k' = ak_Hello k"
    "kb_Channel k' = None \<longleftrightarrow> kb_Channel k = None"
  using assms by (auto simp: agent_live_def dest!: PumpLive_keeps split: prod.splits)

lemma agent_wf_live:
  assumes "agent_wf k" and "ak_Stage k = ALive" and "kb_Failed k = None"
  shows "agent_wf (fst (snd (agent_live S now out scratch (k, s))))"
proof -
  obtain r k' s' where *: "agent_live S now out scratch (k, s) = (r, k', s')" by (metis prod_cases3)
  note keeps = agent_live_keeps [OF *]
  from keeps(1) assms(2) have "ak_Stage k' = ALive" by simp
  with keeps assms * show ?thesis by (simp add: agent_wf_later)
qed

lemma QueueEnd_wf: "agent_wf k \<Longrightarrow> agent_wf (fst (QueueEnd (k, s)))"
  by (auto simp: QueueEnd_def agent_wf_def stage_wf_def split: option.splits EAgentStage.splits)

lemma QueueEnd_keeps:
  "snd (QueueEnd (k, s)) = s" "ak_Stage (fst (QueueEnd (k, s))) = ak_Stage k" "kb_Failed (fst (QueueEnd (k, s))) = kb_Failed k"
  "ak_Handle (fst (QueueEnd (k, s))) = ak_Handle k"
  by (auto simp: QueueEnd_def split: option.splits)

lemma report_resized_connection: "fst (report_resized r ks) = fst ks"
  by (auto simp: report_resized_def split: prod.splits option.splits sum.splits ConnectionEvent.splits)

lemma await_idle_keeps:
  assumes "await_idle now (k, s) = (r, k', s')"
  shows "ak_Stage k' = ak_Stage k \<and> ak_Handle k' = ak_Handle k \<and> ak_Hello k' = ak_Hello k \<and>
    kb_Channel k' = kb_Channel k \<and> kb_Failed k' = kb_Failed k \<and> s' = s"
  using assms by (auto simp: await_idle_def Let_def split: if_splits)

lemma ak_Refuse_keeps:
  assumes "ak_Refuse e (k, s) = (r, k', s')"
  shows "ak_Stage k' = ak_Stage k" "ak_Handle k' = ak_Handle k" "ak_Hello k' = ak_Hello k" "kb_Channel k' = kb_Channel k"
    "kb_Failed k' \<noteq> None" "kb_Frames k' = kb_Frames k" "\<exists>f. r = Inl f \<and> kb_Failed k' = Some f"
  using assms by (auto simp: ak_Refuse_def kb_Fail_def split: option.splits prod.splits)

lemma PumpAwaitSnapshot_keeps:
  assumes p: "PumpAwaitSnapshot S now out scratch (k, s) = (r, k', s')"
  shows "ak_Stage k' = ak_Stage k \<and> ak_Handle k' = ak_Handle k \<and> ak_Hello k' = ak_Hello k \<and>
    (kb_Channel k' = None \<longleftrightarrow> kb_Channel k = None)"
proof (cases "(case ak_SupplySnapshotDeadline k of Some t \<Rightarrow> now \<ge> t | None \<Rightarrow> False) \<or> kb_Channel k = None")
  case True
  with p show ?thesis by (auto simp: PumpAwaitSnapshot_def dest: ak_Refuse_keeps split: if_splits)
next
  case False
  then obtain c0 where c0: "kb_Channel k = Some c0"
    and q: "\<not> (case ak_SupplySnapshotDeadline k of Some t \<Rightarrow> now \<ge> t | None \<Rightarrow> False)" by blast
  obtain lr frames c where l: "await_loop S now scratch (kb_Frames k, borrow (gs_Streams s) c0) = (lr, frames, c)"
    by (metis prod_cases3)
  obtain pr c2 where po: "Poll S now out scratch c = (pr, c2)" by fastforce
  note eqs = PumpAwaitSnapshot_def prod.case c0 option.case l if_not_P [OF q] Let_def po
  consider (fail) e where "lr = Inl e" | (event) ev where "lr = Inr (Some ev)" | (none) "lr = Inr None"
    by (metis option.exhaust sum.exhaust)
  then show ?thesis
  proof cases
    case fail
    with p show ?thesis by (auto simp: eqs kb_Fail_def split: option.splits)
  next
    case event
    with p show ?thesis by (auto simp: eqs split: ConnectionEvent.splits)
  next
    case none
    with p show ?thesis
      by (cases pr) (auto simp: eqs kb_Fail_def dest!: await_idle_keeps split: option.splits prod.splits if_splits)
  qed
qed

lemma agent_wf_await:
  assumes "agent_wf k" and "ak_Stage k = AwaitSnapshot" and "kb_Failed k = None"
  shows "agent_wf (fst (snd (PumpAwaitSnapshot S now out scratch (k, s))))"
proof -
  obtain r k' s' where *: "PumpAwaitSnapshot S now out scratch (k, s) = (r, k', s')" by (metis prod_cases3)
  note keeps = PumpAwaitSnapshot_keeps [OF *]
  then have "ak_Stage k' = AwaitSnapshot" using assms(2) by simp
  with keeps assms * show ?thesis by (simp add: agent_wf_later)
qed


lemma open_resume_keeps:
  assumes "open_resume S frame scratch k = (r, k')"
  shows "ak_Stage k' = ak_Stage k \<and> ak_Handle k' = ak_Handle k \<and> ak_Hello k' = ak_Hello k \<and>
    kb_Channel k' = kb_Channel k \<and> kb_Failed k' = kb_Failed k \<and> (ak_Current k' = None \<longleftrightarrow> ak_Current k = None) \<and>
    (snd r = UsedPrevious \<longrightarrow> ak_Fallback k' \<noteq> None)"
  using assms by (auto simp: open_resume_def Let_def split: option.splits prod.splits if_splits)

lemma agent_wf_path_b:
  assumes "length (ak_Hello k) \<le> MAX_HANDSHAKE_FRAME" and "kb_Failed k = None" and "ak_Stage k = AwaitResume"
  shows "agent_wf (fst (snd (resume_path_b S now out scratch chosen h (k, s))))"
proof -
  have refused: "agent_wf (fst (snd (ak_Refuse e (k\<lparr>ak_Handle := h'\<rparr>, s'))))" for e h' s'
    by (rule agent_wf_Refuse) (use assms in simp_all)
  show ?thesis
    unfolding resume_path_b_def prod.case Let_def using refused assms
    by (auto intro!: agent_wf_await simp: agent_wf_later split: prod.splits sum.splits)
qed

lemma agent_wf_path_a:
  assumes "length (ak_Hello k) \<le> MAX_HANDSHAKE_FRAME" and "kb_Failed k = None" and "ak_Stage k = AwaitResume"
  shows "agent_wf (fst (snd (resume_path_a S now out scratch chosen offset h (k, s))))"
proof -
  obtain r h1 s1 where at: "sh_Attach offset (h, s) = (r, h1, s1)" by (metis prod_cases3)
  let ?k = "k\<lparr>ak_Handle := Some h1\<rparr>"
  let ?k1 = "k\<lparr>ak_Handle := Some h1, kb_Channel := Some (agent_channel chosen now k s1), ak_Stage := ALive\<rparr>"
  have refused: "agent_wf (fst (snd (ak_Refuse e (?k, s1))))" for e
    by (rule agent_wf_Refuse) (use assms in simp_all)
  have failed: "agent_wf (snd (kb_Fail e ?k))" for e
    by (rule agent_wf_failed) (use assms in simp_all)
  obtain k2 s2 where q: "QueueEnd (?k1, s1) = (k2, s2)" by fastforce
  have k2: "agent_wf k2" "ak_Stage k2 = ALive" "kb_Failed k2 = None"
    using QueueEnd_wf [of ?k1 s1] QueueEnd_keeps [of ?k1 s1] assms by (simp_all add: q agent_wf_later)
  show ?thesis
  proof (cases r)
    case (Inl e)
    then show ?thesis using refused failed at
      by (auto simp: resume_path_a_def split: ESessionError.splits option.splits)
  next
    case (Inr u)
    with agent_wf_live [OF k2, of S now out scratch s2] show ?thesis
      by (simp add: resume_path_a_def at q Let_def report_resized_connection split: prod.splits)
         (metis fst_conv report_resized_connection snd_conv)
  qed
qed

lemma agent_wf_opened:
  assumes "length (ak_Hello k) \<le> MAX_HANDSHAKE_FRAME" and "kb_Failed k = None" and "ak_Stage k = AwaitResume"
    and "stage_wf k" and "used = UsedPrevious \<Longrightarrow> ak_Fallback k \<noteq> None"
  shows "agent_wf (fst (snd (resume_opened S now out scratch opened used h (k, s))))"
proof -
  have refused: "agent_wf (fst (snd (ak_Refuse e (k, s'))))" for e s'
    by (rule agent_wf_Refuse) (use assms in simp_all)
  have keep: "agent_wf k" using assms by (simp add: agent_wf_def)
  have b: "agent_wf (fst (snd (resume_path_b S now out scratch chosen h (k\<lparr>ak_Current := None, ak_Fallback := None\<rparr>, s'))))"
    and a: "agent_wf (fst (snd (resume_path_a S now out scratch chosen offset h (k\<lparr>ak_Current := None, ak_Fallback := None\<rparr>, s'))))"
    for chosen offset s'
    by (rule agent_wf_path_b agent_wf_path_a; use assms in simp)+
  show ?thesis
    unfolding resume_opened_def prod.case Let_def using refused keep a b
    by (auto split: prod.splits sum.splits option.splits)
qed


lemma agent_wf_PumpResume:
  assumes "agent_wf k" and "ak_Stage k = AwaitResume" and "kb_Failed k = None"
  shows "agent_wf (fst (snd (PumpResume S now out scratch (k, s))))"
proof -
  obtain r f where n: "fs_Next (kb_Frames k) = (r, f)" by fastforce
  let ?k = "k\<lparr>kb_Frames := f\<rparr>"
  have hello: "length (ak_Hello k) \<le> MAX_HANDSHAKE_FRAME" and wf: "stage_wf ?k"
    using assms by (auto simp: agent_wf_def stage_wf_def)
  have refused: "agent_wf (fst (snd (ak_Refuse e (?k, s))))" for e
    by (rule agent_wf_Refuse) (use assms hello in simp_all)
  have idle: "agent_wf ?k" using wf hello assms by (simp add: agent_wf_def)
  show ?thesis
  proof (cases "\<exists>v. r = Inr (Some v)")
    case False
    with n refused idle show ?thesis by (auto simp: PumpResume_def split: sum.splits option.splits)
  next
    case True
    then obtain v where v: "r = Inr (Some v)" by blast
    obtain o' used k1 where o: "open_resume S v scratch ?k = ((o', used), k1)" by (metis prod.exhaust)
    note keeps = open_resume_keeps [OF o]
    have k1: "length (ak_Hello k1) \<le> MAX_HANDSHAKE_FRAME" "kb_Failed k1 = None" "ak_Stage k1 = AwaitResume" "stage_wf k1"
      using keeps hello wf assms by (simp_all add: stage_wf_def)
    have "agent_wf (fst (snd (ak_Refuse e (k1, s))))" for e
      by (rule agent_wf_Refuse) (use k1 in simp_all)
    moreover have "agent_wf (fst (snd (resume_opened S now out scratch opened used h (k1, s))))" for opened h
      by (rule agent_wf_opened) (use k1 keeps in auto)
    moreover have "agent_wf k1" using k1 by (simp add: agent_wf_def)
    ultimately show ?thesis using n v o by (auto simp: PumpResume_def split: sum.splits option.splits)
  qed
qed

lemma agent_wf_live_stage:
  assumes "agent_wf k" and "ak_Stage k = ALive" and "kb_Failed k = None"
  shows "agent_wf (fst (snd (pump_live_stage S now out scratch (k, s))))"
proof -
  have refused: "agent_wf (fst (snd (ak_Refuse e (k, s))))" for e
    by (rule agent_wf_Refuse) (use assms in \<open>auto simp: agent_wf_def\<close>)
  obtain k1 s1 where q: "QueueEnd (k, s) = (k1, s1)" by fastforce
  have k1: "agent_wf k1" "ak_Stage k1 = ALive" "kb_Failed k1 = None"
    using QueueEnd_wf [OF assms(1), of s] QueueEnd_keeps [of k s] assms by (simp_all add: q)
  obtain r k2 s2 where l: "agent_live S now out scratch (k1, s1) = (r, k2, s2)" by (metis prod_cases3)
  have k2: "agent_wf k2" "agent_wf (k2\<lparr>ak_GridAppliedDeadline := None\<rparr>)"
    using agent_wf_live [OF k1, of S now out scratch s1] l
    by (auto simp: agent_wf_def stage_wf_def split: EAgentStage.splits)
  show ?thesis
    unfolding pump_live_stage_def prod.case q l Let_def
    using refused k2 by (auto simp: report_resized_connection split: option.splits)
qed

lemma agent_wf_Pump:
  assumes "agent_wf k"
  shows "agent_wf (fst (snd (ak_Pump S now out scratch (k, s))))"
proof (cases "kb_Failed k")
  case (Some e)
  with assms show ?thesis by (simp add: ak_Pump_def)
next
  case None
  have refused: "agent_wf (fst (snd (ak_Refuse e (k, s))))" for e
    by (rule agent_wf_Refuse) (use assms in \<open>auto simp: agent_wf_def\<close>)
  show ?thesis
    unfolding ak_Pump_def prod.case None option.case
    using assms None refused
    by (cases "ak_Stage k")
      (auto simp: current_or_refuse_def intro: agent_wf_PumpHello agent_wf_PumpHandshake agent_wf_PumpResume
        agent_wf_await agent_wf_live_stage split: sum.splits option.splits)
qed

lemma agent_wf_apply:
  assumes "agent_wf k"
  shows "agent_wf (fst (agent_apply S op (k, s)))"
proof (cases op)
  case (AOnBytes chunk)
  show ?thesis
    using assms fs_Append_MaxBodyLength [of chunk "kb_Frames k"]
    by (auto simp: AOnBytes OnBytes_def kb_Fail_def agent_wf_def stage_wf_def split: option.splits prod.splits sum.splits EAgentStage.splits)
next
  case (APump now out scratch)
  with agent_wf_Pump [OF assms] show ?thesis by simp
next
  case (ASupplySnapshot now snapshot scrollbackLen flags)
  have "agent_wf (k\<lparr>ak_SnapshotReminderSent := b\<rparr>)"
    "ak_Stage k = AwaitSnapshot \<Longrightarrow> kb_Channel k \<noteq> None \<Longrightarrow> ak_Handle k \<noteq> None \<Longrightarrow>
     agent_wf (k\<lparr>ak_SupplySnapshotDeadline := None, kb_Channel := Some c, ak_GridAppliedDeadline := t, ak_Stage := ALive\<rparr>)" for b c t
    using assms by (auto simp: agent_wf_def stage_wf_def split: EAgentStage.splits)
  with assms show ?thesis
    by (auto simp: ASupplySnapshot SupplySnapshot_def Let_def intro!: QueueEnd_wf split: EAgentStage.splits option.splits)
qed (use assms in \<open>auto simp: Route_def RouteUnknown_def ak_Close_def kb_SetReadGate_def kb_SetSendGate_def agent_wf_def
        stage_wf_def split: EAgentStage.splits\<close>)

lemma mk_FrameStream_limit: "fs_MaxBodyLength (mk_FrameStream storage mx) \<le> mx"
  by (simp add: mk_FrameStream_def word_le_nat_alt ApplyLimit_MaxBodyLength)

lemma agent_wf_mk: "agent_wf (mk_AgentConnection frameStorage now ceiling)"
  by (auto simp: mk_AgentConnection_def agent_wf_def stage_wf_def intro: mk_FrameStream_limit)

lemma agent_wf_run: "agent_wf (fst ks) \<Longrightarrow> agent_wf (fst (agent_run S ops ks))"
proof (induction S ops ks rule: agent_run.induct)
  case (2 S others op ops k s)
  then show ?case using agent_wf_apply [of k S op "others s"] by simp
qed simp


subsection \<open>Who may change the session\<close>

lemma ak_Refuse_without_handle: "ak_Handle k = None \<Longrightarrow> snd (snd (ak_Refuse e (k, s))) = s"
  by (auto simp: ak_Refuse_def kb_Fail_def split: option.splits EDisposition.splits)

text \<open>All that a completed handshake writes into the session.\<close>

definition admitted :: "HandshakeResult \<Rightarrow> bool \<Rightarrow> AgentSession \<Rightarrow> AgentSession" where
  "admitted result gridCapable s =
     SetGridInfo (hr_Version result) gridCapable
       (s\<lparr>gs_Seen := Remember (hr_ServerNonce result) (Remember (hr_ClientNonce result) (gs_Seen s))\<rparr>)"

lemma agent_shake_touches:
  assumes st: "agent_shake S body out (k, s) = (r, k', s')" and h: "ak_Handle k = None"
  shows "s' = s \<and> ak_Handle k' = None \<and> ak_Stage k' = ak_Stage k \<and>
      (\<forall>a'. ak_Attempt k' = Some a' \<longrightarrow> (\<exists>a. ak_Attempt k = Some a \<and> ra_Known a' = ra_Known a)) \<or>
    (\<exists>a. ak_Attempt k = Some a \<and> ra_Known a)"
proof (cases "ak_Attempt k")
  case None
  with assms show ?thesis by (auto simp: agent_shake_def)
next
  case (Some a)
  let ?session = "if ra_Known a then Some s else None"
  obtain r1 a1 where ha: "ra_Handle S ?session body (HandshakeBody out) a = (r1, a1)" by fastforce
  have known: "ra_Known a1 = ra_Known a" using ha by (auto simp: ra_Handle_def Let_def split: prod.splits)
  have refused: "s' = s \<and> ak_Handle k' = None \<and> ak_Stage k' = ak_Stage k \<and> ak_Attempt k' = Some a1"
    if "ak_Refuse e (k\<lparr>ak_Attempt := Some a1\<rparr>, s) = (r, k', s')" for e
    using that ak_Refuse_without_handle [of "k\<lparr>ak_Attempt := Some a1\<rparr>" e s] h ak_Refuse_connection [of e "k\<lparr>ak_Attempt := Some a1\<rparr>" s]
    by (auto simp: ak_Refuse_keeps)
  have done': "?thesis" if "ra_Finish a1 ?session = (Inr result, s1)" for result s1
    using that known Some by (cases "ra_Known a") (auto simp: ra_Finish_def split: option.splits)
  have plain: "?thesis" if "s' = s" "k' = k\<lparr>ak_Attempt := Some a1\<rparr>" using that known h Some by auto
  note eqs = agent_shake_def prod.case Some option.case ha Let_def
  show ?thesis
  proof (cases r1)
    case (Inl e)
    then show ?thesis using st refused known Some by (cases e) (auto simp: eqs)
  next
    case (Inr step)
    obtain fr s1 where fin: "ra_Finish a1 ?session = (fr, s1)" by fastforce
    show ?thesis
    proof (cases "hs_Complete step")
      case True
      then show ?thesis using st Inr refused known Some done' fin by (cases fr) (auto simp: eqs)
    next
      case False
      then show ?thesis using st Inr plain by (auto simp: eqs)
    qed
  qed
qed


lemma PumpHello_touches:
  assumes "PumpHello (k, s) = (r, k', s')" and "ak_Handle k = None"
  shows "s' = s \<and> ak_Handle k' = None \<and> ak_Attempt k' = ak_Attempt k \<and> (ak_Stage k' = ak_Stage k \<or> ak_Stage k' = AwaitRoute)"
  using assms
  by (auto simp: PumpHello_def ak_Refuse_def kb_Fail_def Let_def split: prod.splits sum.splits option.splits PreAuthError.splits if_splits EDisposition.splits)

text \<open>An unauthenticated connection with the attempt \<open>a\<close>, if it has one: its steps leave the session alone
  unless the attempt is a known session's.\<close>

definition early :: "AgentConnection \<Rightarrow> bool" where
  "early k \<longleftrightarrow> ak_Handle k = None \<and> (kb_Failed k \<noteq> None \<or> ak_Stage k \<in> {AwaitHello, AwaitRoute, AHandshake})"

definition aloof :: "(ResumeAttempt \<Rightarrow> bool) \<Rightarrow> agent_state \<Rightarrow> agent_state \<Rightarrow> bool" where
  "aloof P ks ks' \<longleftrightarrow> snd ks' = snd ks \<and> early (fst ks') \<and> (pred_option P (ak_Attempt (fst ks)) \<longrightarrow> pred_option P (ak_Attempt (fst ks')))"

definition known_attempt :: "agent_state \<Rightarrow> bool" where
  "known_attempt ks \<longleftrightarrow> (\<exists>a. ak_Attempt (fst ks) = Some a \<and> ra_Known a)"

lemma aloof_refl: "early k \<Longrightarrow> aloof P (k, s) (k, s)" by (simp add: aloof_def)

lemma aloof_Refuse: "early k \<Longrightarrow> aloof P (k, s) (snd (ak_Refuse e (k, s)))"
proof -
  assume "early k"
  moreover obtain r k' s' where *: "ak_Refuse e (k, s) = (r, k', s')" by (metis prod_cases3)
  ultimately show ?thesis
    using ak_Refuse_keeps [OF *] ak_Refuse_connection [of e k s] ak_Refuse_without_handle [of k e s]
    by (auto simp: aloof_def early_def)
qed

lemma aloof_upd:
  assumes "aloof P (k1, s) ks'" and "ak_Attempt k1 = ak_Attempt k"
  shows "aloof P (k, s) ks'"
  using assms by (simp add: aloof_def)

lemma agent_shake_aloof:
  assumes "ak_Handle k = None" and "ak_Stage k = AHandshake"
  shows "aloof (\<lambda>a. \<not> ra_Known a) (k, s) (snd (agent_shake S body out (k, s))) \<or> known_attempt (k, s)"
proof -
  obtain r k' s' where *: "agent_shake S body out (k, s) = (r, k', s')" by (metis prod_cases3)
  show ?thesis using agent_shake_touches [OF * assms(1)] assms(2) *
    by (fastforce simp: aloof_def known_attempt_def early_def option.pred_set elim!: disjE)
qed

lemma PumpHandshake_aloof:
  assumes "ak_Handle k = None" and "ak_Stage k = AHandshake"
  shows "aloof (\<lambda>a. \<not> ra_Known a) (k, s) (snd (ak_PumpHandshake S out (k, s))) \<or> known_attempt (k, s)"
proof -
  have e: "early (k\<lparr>kb_Frames := f\<rparr>)" for f using assms by (simp add: early_def)
  have refused: "aloof P (k, s) (snd (ak_Refuse e (k\<lparr>kb_Frames := f\<rparr>, s)))"
    and idle: "aloof P (k, s) (k\<lparr>kb_Frames := f\<rparr>, s)" for P e f
    using aloof_upd [OF aloof_Refuse [OF e]] aloof_upd [OF aloof_refl [OF e]] by auto
  have shake: "aloof (\<lambda>a. \<not> ra_Known a) (k, s) (snd (agent_shake S body out (k1, s))) \<or>
      known_attempt (k, s)"
    if "ak_Attempt k1 = ak_Attempt k" "ak_Handle k1 = None" "ak_Stage k1 = AHandshake"
      "ak_HelloGridCapable k1 = ak_HelloGridCapable k" for k1 body
    using agent_shake_aloof [OF that(2,3), of s S body out] that by (auto simp: known_attempt_def dest: aloof_upd)
  have s1: "aloof (\<lambda>a. \<not> ra_Known a) (k, s) (snd (agent_shake S body out (k\<lparr>ak_HelloAnswered := True\<rparr>, s))) \<or>
      known_attempt (k, s)"
    and s2: "aloof (\<lambda>a. \<not> ra_Known a) (k, s) (snd (agent_shake S body out (k\<lparr>kb_Frames := f\<rparr>, s))) \<or>
      known_attempt (k, s)" for body f
    by (rule shake; use assms in simp)+
  show ?thesis
    using s1 s2 refused idle
    by (auto simp: ak_PumpHandshake_def split: prod.splits sum.splits option.splits)
qed

lemma Pump_aloof:
  assumes "early k"
  shows "aloof (\<lambda>a. \<not> ra_Known a) (k, s) (snd (ak_Pump S now out scratch (k, s))) \<or>
    known_attempt (k, s)"
proof (cases "kb_Failed k")
  case (Some e)
  with assms show ?thesis by (simp add: ak_Pump_def aloof_refl)
next
  case None
  have hello: "aloof P (k, s) (snd (PumpHello (k, s)))" if "ak_Stage k = AwaitHello" for P
  proof -
    obtain r k' s' where *: "PumpHello (k, s) = (r, k', s')" by (metis prod_cases3)
    show ?thesis using PumpHello_touches [OF *] assms that by (auto simp: * aloof_def early_def)
  qed
  show ?thesis
    unfolding ak_Pump_def prod.case None option.case
    using assms None hello PumpHandshake_aloof [of k s S out] aloof_refl [OF assms, of _ s] aloof_Refuse [OF assms, of _ s]
    by (auto simp: early_def split: sum.splits)
qed

lemma apply_aloof:
  assumes "early k" and "\<forall>nonce. op \<noteq> ARoute nonce"
  shows "aloof (\<lambda>a. \<not> ra_Known a) (k, s) (agent_apply S op (k, s)) \<or> known_attempt (k, s)"
proof (cases op)
  case (APump now out scratch)
  with Pump_aloof [OF assms(1)] show ?thesis by simp
next
  case (AOnBytes chunk)
  with assms(1) show ?thesis
    by (auto simp: OnBytes_def aloof_def early_def kb_Fail_def split: option.splits prod.splits sum.splits)
next
  case (ASupplySnapshot now snapshot scrollbackLen flags)
  with assms(1) show ?thesis
    by (auto simp: SupplySnapshot_def aloof_def early_def split: EAgentStage.splits option.splits)
qed (use assms in \<open>auto simp: RouteUnknown_def ForUnknown_def ak_Close_def kb_SetReadGate_def kb_SetSendGate_def
        aloof_def early_def Let_def\<close>)


lemma wf_early: "agent_wf k \<Longrightarrow> ak_Handle k = None \<Longrightarrow> early k"
  by (auto simp: agent_wf_def stage_wf_def early_def split: EAgentStage.splits)

text \<open>What the others alone make of the session.\<close>

definition others_alone :: "((AgentSession \<Rightarrow> AgentSession) \<times> agent_op) list \<Rightarrow> AgentSession \<Rightarrow> AgentSession" where
  "others_alone ops s = fold fst ops s"

fun is_route :: "agent_op \<Rightarrow> bool" where
  "is_route (ARoute _) = True"
| "is_route _ = False"

lemma decoy_run:
  assumes "early k" and "pred_option (\<lambda>a. \<not> ra_Known a) (ak_Attempt k)" and "\<not> list_ex (is_route \<circ> snd) ops"
  shows "early (fst (agent_run S ops (k, s))) \<and> snd (agent_run S ops (k, s)) = others_alone ops s"
  using assms
proof (induction ops arbitrary: k s)
  case Nil
  then show ?case by (simp add: others_alone_def)
next
  case (Cons x ops)
  obtain others op where x: "x = (others, op)" by (cases x)
  obtain k' s' where st: "agent_apply S op (k, others s) = (k', s')" by fastforce
  have "\<forall>nonce. op \<noteq> ARoute nonce" using Cons.prems(3) x by auto
  then have "aloof (\<lambda>a. \<not> ra_Known a) (k, others s) (k', s')"
    using apply_aloof [OF Cons.prems(1), of op "others s" S] Cons.prems(2) st
    by (auto simp: known_attempt_def)
  then have "early k'" "pred_option (\<lambda>a. \<not> ra_Known a) (ak_Attempt k')" "s' = others s"
    using Cons.prems(2) by (auto simp: aloof_def)
  with Cons.IH [of k' s'] Cons.prems(3) show ?case by (simp add: x st others_alone_def)
qed

subsection \<open>After a failure, and after a newer connection\<close>

text \<open>A connection that has failed, or whose handle is no longer the current one: all it still does is nothing.\<close>

definition retired :: "agent_state \<Rightarrow> bool" where
  "retired ks \<longleftrightarrow>
     (\<exists>h. ak_Handle (fst ks) = Some h \<and> \<not> sh_IsCurrent h (snd ks)) \<and>
     (kb_Failed (fst ks) \<noteq> None \<or> ak_Stage (fst ks) \<in> {AwaitSnapshot, ALive})"

lemma retired_Pump:
  assumes "agent_wf k" and "retired (k, s)"
  shows "snd (snd (ak_Pump S now out scratch (k, s))) = s \<and> ak_Handle (fst (snd (ak_Pump S now out scratch (k, s)))) = ak_Handle k \<and>
    (kb_Failed (fst (snd (ak_Pump S now out scratch (k, s)))) \<noteq> None \<or> fst (snd (ak_Pump S now out scratch (k, s))) = k) \<and>
    (kb_Failed k = None \<longrightarrow> CheckBuffers out scratch = Inr () \<longrightarrow> fst (ak_Pump S now out scratch (k, s)) = Inl (SessErr Superseded))"
proof (cases "kb_Failed k")
  case (Some e)
  then show ?thesis by (simp add: ak_Pump_def)
next
  case None
  then have "\<not> HandshakeExpired now k" using assms by (auto simp: retired_def agent_wf_later HandshakeExpired_def)
  then show ?thesis using assms(2) None
    by (auto simp: retired_def ak_Pump_def current_or_refuse_def ak_Refuse_def kb_Fail_def Session_Disposition.simps split: sum.splits)
qed

lemma retired_apply:
  assumes "agent_wf k" and "retired (k, s)"
  shows "snd (agent_apply S op (k, s)) = s \<and> ak_Handle (fst (agent_apply S op (k, s))) = ak_Handle k \<and>
    retired (agent_apply S op (k, s))"
proof (cases op)
  case (APump now out scratch)
  obtain r k' s' where p: "ak_Pump S now out scratch (k, s) = (r, k', s')" by (metis prod_cases3)
  show ?thesis using retired_Pump [OF assms, of S now out scratch] assms(2) by (auto simp: APump p retired_def)
next
  case (AOnBytes chunk)
  with assms(2) show ?thesis
    by (auto simp: OnBytes_def retired_def kb_Fail_def split: option.splits prod.splits sum.splits)
next
  case (ASupplySnapshot now snapshot scrollbackLen flags)
  with assms(2) show ?thesis
    by (auto simp: SupplySnapshot_def retired_def split: EAgentStage.splits option.splits)
next
  case (AClose now)
  with assms(2) show ?thesis
    by (auto simp: ak_Close_def sh_Detach_def sh_IsCurrent_def Detach_def retired_def split: option.splits)
qed (use assms in \<open>auto simp: Route_def RouteUnknown_def kb_SetReadGate_def kb_SetSendGate_def retired_def\<close>)


text \<open>A run in which no one makes the handle current again.\<close>

lemma retired_run:
  assumes "agent_wf k" and "retired (k, s)" and "ak_Handle k = Some h"
    and "\<forall>(others, op) \<in> set ops. \<forall>s. \<not> sh_IsCurrent h s \<longrightarrow> \<not> sh_IsCurrent h (others s)"
  shows "snd (agent_run S ops (k, s)) = others_alone ops s"
  using assms
proof (induction ops arbitrary: k s)
  case Nil
  then show ?case by (simp add: others_alone_def)
next
  case (Cons x ops)
  obtain others op where x: "x = (others, op)" by (cases x)
  obtain k' s' where st: "agent_apply S op (k, others s) = (k', s')" by fastforce
  have r: "retired (k, others s)" using Cons.prems by (auto simp: retired_def x)
  have "s' = others s" "ak_Handle k' = Some h" "retired (k', s')" "agent_wf k'"
    using retired_apply [OF Cons.prems(1) r, of S op] agent_wf_apply [OF Cons.prems(1), of S op "others s"] st Cons.prems(3)
    by auto
  with Cons.IH [of k' s'] Cons.prems(4) show ?case by (simp add: x st others_alone_def)
qed

end
