(* ===== verification/Session_Resume.thy ===== *)
theory Session_Resume
  imports Session_Guard
begin

text \<open>
  A whole reconnection: an \<open>AgentConnection\<close> and a \<open>ClientConnection\<close> of the same session, fed with what the
  other one sends, from the client's first Hello to the Resume the agent opens. Shown is that honest ends
  get through, whatever their sessions went through before.
\<close>

subsection \<open>One frame through a stream that holds nothing\<close>

definition idle_stream :: "nat \<Rightarrow> nat \<Rightarrow> FrameStream \<Rightarrow> bool" where
  "idle_stream storage mx f \<longleftrightarrow>
     stream_ok f \<and> held f = [] \<and> length (fs_Storage f) = storage \<and> unat (fs_MaxBodyLength f) = mx"

lemma blit_length: "i + length xs \<le> length ys \<Longrightarrow> length (blit ys i xs) = length ys"
  by (simp add: blit_def)

lemma DropPending_storage: "stream_ok f \<Longrightarrow> length (fs_Storage (DropPending f)) = length (fs_Storage f)"
  by (auto simp: DropPending_def stream_ok_def intro: blit_length)

lemma fs_Next_storage: "stream_ok f \<Longrightarrow> length (fs_Storage (snd (fs_Next f))) = length (fs_Storage f)"
  by (auto simp: fs_Next_def Let_def DropPending_storage split: sum.splits)

lemma fs_Append_storage:
  assumes "stream_ok f" and "fs_Append chunk f = (Inr (), f')"
  shows "length (fs_Storage f') = length (fs_Storage f)"
proof -
  have "fs_Size (DropPending f) + length chunk \<le> length (fs_Storage (DropPending f))"
    using assms DropPending_ok [OF assms(1)] by (auto simp: fs_Append_def Let_def stream_ok_def split: if_splits)
  with assms show ?thesis by (auto simp: fs_Append_def Let_def DropPending_storage blit_length split: if_splits)
qed

lemma idle_stream_mk:
  "HEADER_SIZE + mx \<le> length storage \<Longrightarrow> mx < 2 ^ 32 \<Longrightarrow> idle_stream (length storage) mx (mk_FrameStream storage (of_nat mx))"
  unfolding idle_stream_def
  by (intro conjI mk_FrameStream_ok held_mk_FrameStream)
    (simp_all add: mk_FrameStream_def ApplyLimit_MaxBodyLength unat_of_nat_small)

lemma idle_stream_RaiseLimit:
  assumes "idle_stream storage m f" and "m \<le> mx" and "HEADER_SIZE + mx \<le> storage" and "mx < 2 ^ 32"
  shows "idle_stream storage mx (RaiseLimit (of_nat mx) f)"
proof -
  have "unat (of_nat mx :: u32) = mx" using assms(4) by (simp add: unat_of_nat_small)
  then have "max (of_nat mx) (fs_MaxBodyLength f) = (of_nat mx :: u32)"
    using assms(1,2) by (auto simp: idle_stream_def max_def word_le_nat_alt)
  with assms \<open>unat (of_nat mx :: u32) = mx\<close> show ?thesis
    by (auto simp: idle_stream_def RaiseLimit_ok) (auto simp: RaiseLimit_def ApplyLimit_MaxBodyLength)
qed

lemma frame_through:
  assumes "idle_stream storage mx f" and "body \<noteq> []" and "length body \<le> mx" and "fh_Length h = of_nat (length body)"
    and "length body < 2 ^ 32"
  shows "\<exists>f1 f2. fs_Append (frame_bytes h body) f = (Inr (), f1) \<and>
    fs_Next f1 = (Inr (Some \<lparr>fv_Header = h, fv_Body = body, fv_Consumed = HEADER_SIZE + length body\<rparr>), f2) \<and>
    idle_stream storage mx f2"
proof -
  have ok: "stream_ok f" "held f = []" "unat (fs_MaxBodyLength f) = mx" using assms(1) by (auto simp: idle_stream_def)
  have fl: "length (frame_bytes h body) = HEADER_SIZE + length body" by (simp add: frame_bytes_def)
  have "Buffered f = 0" using ok length_held by fastforce
  moreover have "0 < length body" using assms(2) by simp
  then have "HEADER_SIZE + length body \<le> fs_Capacity f" using ok(1,3) assms(3) unfolding stream_ok_def by linarith
  ultimately have "fst (fs_Append (frame_bytes h body) f) = Inr ()" using fs_Append_fits [OF ok(1)] fl by (simp add: Room_def)
  then obtain f1 where a: "fs_Append (frame_bytes h body) f = (Inr (), f1)" by (metis prod.collapse)
  note a' = fs_Append_Inr [OF ok(1) a]
  let ?v = "\<lparr>fv_Header = h, fv_Body = body, fv_Consumed = HEADER_SIZE + length body\<rparr>"
  have u: "unat (fh_Length h) = length body" using assms(4,5) by (simp add: unat_of_nat_small)
  have "ReadFrame (held f1) (fs_MaxBodyLength f1) = Inr ?v"
    using a'(2,3) ok assms(2,3) u unfolding frame_bytes_def
    by (auto simp: ReadFrame_header word_less_nat_alt)
  with fs_Next_held [OF a'(1)] a'(2) fl have n: "fst (fs_Next f1) = Inr (Some ?v)" "stream_ok (snd (fs_Next f1))"
      "held (snd (fs_Next f1)) = []" "fs_MaxBodyLength (snd (fs_Next f1)) = fs_MaxBodyLength f1"
    by (auto simp: ok)
  have "idle_stream storage mx (snd (fs_Next f1))"
    using n(2-4) a'(3) assms(1) fs_Next_storage [OF a'(1)] fs_Append_storage [OF ok(1) a] by (auto simp: idle_stream_def)
  with a n(1) show ?thesis by (metis prod.collapse)
qed

lemma FrameCleartext_bytes: "FrameCleartext body = frame_bytes \<lparr>fh_Length = of_nat (length body), fh_Epoch = CLEARTEXT_EPOCH\<rparr> body"
  by (simp add: FrameCleartext_def header_written frame_bytes_def)


subsection \<open>The reconnection\<close>

definition feed :: "bytes \<Rightarrow> 'k ConnectionBase_scheme \<times> 's \<Rightarrow> 'k ConnectionBase_scheme \<times> 's" where
  "feed chunk ks = (snd (OnBytes chunk (fst ks)), snd ks)"

definition sent_frame :: "connection_result \<times> 'st \<Rightarrow> (bytes \<times> 'st) option" where
  "sent_frame x = (case x of (Inr (SendFrame bs), st) \<Rightarrow> Some (bs, st) | _ \<Rightarrow> None)"

text \<open>Each frame an end sends is handed to the other one. The result is the agent's answer to the Resume and
  the two ends after it.\<close>

definition resume_run ::
  "sodium \<Rightarrow> Timestamp \<Rightarrow> bytes \<Rightarrow> bytes \<Rightarrow> bytes \<Rightarrow> client_state \<Rightarrow> agent_state \<Rightarrow>
   (connection_result \<times> client_state \<times> agent_state) option" where
  "resume_run S now out scratch serverNonce c0 a0 =
     Option.bind (sent_frame (ck_Pump S now out scratch c0)) (\<lambda>(hello, c1).
     case ak_Pump S now out scratch (feed hello a0) of (_, a1) \<Rightarrow>
     Option.bind (sent_frame (ak_Pump S now out scratch (Route S serverNonce a1))) (\<lambda>(challenge, a2).
     Option.bind (sent_frame (ck_Pump S now out scratch (feed challenge c1))) (\<lambda>(auth', c2).
     Option.bind (sent_frame (ak_Pump S now out scratch (feed auth' a2))) (\<lambda>(ok, a3).
     Option.bind (sent_frame (ck_Pump S now out scratch (feed ok c2))) (\<lambda>(resume, c3).
     case ak_Pump S now out scratch (feed resume a3) of (answer, a4) \<Rightarrow> Some (answer, c3, a4))))))"

text \<open>A connection that has not failed, within its time.\<close>

definition awake :: "Timestamp \<Rightarrow> 'k ConnectionBase_scheme \<Rightarrow> bool" where
  "awake now k \<longleftrightarrow> kb_Failed k = None \<and> kb_Channel k = None \<and> now < kb_Started k + HANDSHAKE_TIMEOUT"

definition roomy :: "bytes \<Rightarrow> bytes \<Rightarrow> bool" where
  "roomy out scratch \<longleftrightarrow> CONNECTION_OUT_SIZE \<le> length out \<and> CONNECTION_SCRATCH_SIZE \<le> length scratch"

lemma roomy_CheckBuffers: "roomy out scratch \<Longrightarrow> CheckBuffers out scratch = Inr ()"
  by (simp add: roomy_def CheckBuffers_def)

lemma roomy_HandshakeBody: "roomy out scratch \<Longrightarrow> 64 \<le> length (HandshakeBody out)"
  by (auto simp: roomy_def HandshakeBody_def CONNECTION_OUT_SIZE_def size_defs)

lemma awake_Pump:
  "awake now ka \<Longrightarrow> roomy out scratch \<Longrightarrow> ak_Pump S now out scratch (ka, sa) =
     (case ak_Stage ka of
        AwaitHello \<Rightarrow> PumpHello (ka, sa)
      | AwaitRoute \<Rightarrow> (Inr (NeedsSession (ak_HelloId ka)), ka, sa)
      | AHandshake \<Rightarrow> ak_PumpHandshake S out (ka, sa)
      | AwaitResume \<Rightarrow> PumpResume S now out scratch (ka, sa)
      | AwaitSnapshot \<Rightarrow> current_or_refuse (PumpAwaitSnapshot S now out scratch) (ka, sa)
      | ALive \<Rightarrow> current_or_refuse (pump_live_stage S now out scratch) (ka, sa))"
  "awake now kc \<Longrightarrow> roomy out scratch \<Longrightarrow> ck_Stage kc = KHandshake \<Longrightarrow>
     ck_Pump S now out scratch (kc, sc) = ck_PumpHandshake S now out (kc, sc)"
  by (auto simp: awake_def ak_Pump_def ck_Pump_def roomy_CheckBuffers HandshakeExpired_def)

text \<open>A frame fed to an end whose stream is idle: what the next call of \<open>Next\<close> finds.\<close>

lemma feed_frame:
  assumes "kb_Failed k = None" and "idle_stream storage mx (kb_Frames k)" and "body \<noteq> []" and "length body \<le> mx"
    and "fh_Length h = of_nat (length body)" and "length body < 2 ^ 32"
  obtains f1 f2 where "feed (frame_bytes h body) (k, s) = (k\<lparr>kb_Frames := f1\<rparr>, s)"
    "fs_Next f1 = (Inr (Some \<lparr>fv_Header = h, fv_Body = body, fv_Consumed = HEADER_SIZE + length body\<rparr>), f2)"
    "idle_stream storage mx f2"
proof -
  obtain f1 f2 where "fs_Append (frame_bytes h body) (kb_Frames k) = (Inr (), f1)"
    "fs_Next f1 = (Inr (Some \<lparr>fv_Header = h, fv_Body = body, fv_Consumed = HEADER_SIZE + length body\<rparr>), f2)"
    "idle_stream storage mx f2"
    using frame_through [OF assms(2-6)] by blast
  with assms(1) show ?thesis by (intro that) (auto simp: feed_def OnBytes_def)
qed

lemma feed_cleartext:
  assumes "kb_Failed k = None" and "idle_stream storage MAX_HANDSHAKE_FRAME (kb_Frames k)" and "body \<noteq> []" and "length body \<le> 64"
  obtains f1 f2 v where "feed (FrameCleartext body) (k, s) = (k\<lparr>kb_Frames := f1\<rparr>, s)"
    "fs_Next f1 = (Inr (Some v), f2)" "fv_Body v = body" "fh_Epoch (fv_Header v) = CLEARTEXT_EPOCH"
    "idle_stream storage MAX_HANDSHAKE_FRAME f2"
  unfolding FrameCleartext_bytes
  by (rule feed_frame [OF assms(1-3), of "\<lparr>fh_Length = of_nat (length body), fh_Epoch = CLEARTEXT_EPOCH\<rparr>" s])
    (use assms(4) in \<open>auto simp: size_defs intro: that\<close>)

subsection \<open>The steps of the handshake\<close>

lemma step_hello:
  assumes "awake now k" and "roomy out scratch" and "ck_Stage k = SendHello"
    and "Start S (HandshakeBody out) ((ck_Attempt k)\<lparr>hc_Seen := cs_Seen s\<rparr>) = (Inr hello, c1)"
  shows "sent_frame (ck_Pump S now out scratch (k, s)) =
    Some (FrameCleartext hello, k\<lparr>ck_Attempt := c1, ck_Stage := KHandshake\<rparr>, s)"
  using assms by (simp add: sent_frame_def awake_def ck_Pump_def roomy_CheckBuffers HandshakeExpired_def)

lemma step_route:
  assumes "awake now k" and "roomy out scratch" and "ak_Stage k = AwaitHello"
    and "idle_stream storage MAX_HANDSHAKE_FRAME (kb_Frames k)" and "Hello_ok m" and "length (Hello_body m) < 64"
  obtains f where "idle_stream storage MAX_HANDSHAKE_FRAME f"
    "snd (ak_Pump S now out scratch (feed (FrameCleartext (type_code Hello # Hello_body m)) (k, s))) =
       (k\<lparr>kb_Frames := f, ak_Hello := type_code Hello # Hello_body m, ak_HelloId := he_Id m,
          ak_HelloGridCapable := (ak_HelloGridCapable k \<or> hello_grid_capable (type_code Hello # Hello_body m)),
          ak_Stage := AwaitRoute\<rparr>, s)"
proof -
  let ?b = "type_code Hello # Hello_body m"
  obtain f1 f2 v where f: "feed (FrameCleartext ?b) (k, s) = (k\<lparr>kb_Frames := f1\<rparr>, s)"
    "fs_Next f1 = (Inr (Some v), f2)" "fv_Body v = ?b" "fh_Epoch (fv_Header v) = CLEARTEXT_EPOCH"
    "idle_stream storage MAX_HANDSHAKE_FRAME f2"
    by (rule feed_cleartext [of k storage ?b s]) (use assms(1,4,6) in \<open>auto simp: awake_def\<close>)
  have "ParseHello (rd_at [type_code Hello] (Hello_body m)) = (Inr m, rd_at ([type_code Hello] @ Hello_body m) [])"
    using hello.parse_ok [OF assms(5)] by (simp add: parses_all_def)
  then have "PeekHelloSessionId ?b = Inr (he_Id m)"
    using parse_type [of Hello "Hello_body m"] by (simp add: PeekHelloSessionId_def del: type_code.simps)
  moreover have "awake now (k\<lparr>kb_Frames := f1\<rparr>)" using assms(1) by (simp add: awake_def)
  ultimately show ?thesis using assms(2,3) f
    by (intro that [OF f(5)]) (simp add: awake_Pump PumpHello_def Let_def del: type_code.simps)
qed

lemma hello_grid_capable_honest:
  assumes "Hello_ok m" "he_Options m = honest_options grid"
  shows "hello_grid_capable (type_code Hello # Hello_body m) = grid"
proof -
  have "ParseHello (rd_at [type_code Hello] (Hello_body m)) = (Inr m, rd_at ([type_code Hello] @ Hello_body m) [])"
    using hello.parse_ok [OF assms(1)] by (simp add: parses_all_def)
  then have "hello_grid_capable (type_code Hello # Hello_body m) = list_ex (\<lambda>opt. opt_Type opt = TLV_GRID_CAPABLE \<and> length (opt_Value opt) = 2 \<and>
      fst (ReadU16BE (mk_reader (opt_Value opt))) = Inr 1) (honest_options grid)"
    using parse_type [of Hello "Hello_body m"] assms(2) by (simp add: hello_grid_capable_def del: type_code.simps)
  moreover have "fst (ReadU16BE (mk_reader [0, 1])) = Inr 1" by code_simp
  ultimately show ?thesis by (simp add: honest_options_def)
qed

lemma step_challenge:
  assumes "awake now k" and "roomy out scratch" and "ak_Stage k = AwaitRoute" and "\<not> ak_HelloAnswered k"
    and "ServerHandle S (ak_Hello k) (HandshakeBody out)
           (mk_ServerHandshake S (gs_Auth s) (gs_Seed s) serverNonce (ReceiveOffset (gs_Streams s)) (gs_Seen s) (gs_PreviousSeed s) (kb_Ceiling k)) =
         (Inr \<lparr>hs_Written = challenge, hs_Complete = False\<rparr>, s1)" and "challenge \<noteq> []"
  shows "sent_frame (ak_Pump S now out scratch (Route S serverNonce (k, s))) =
    Some (FrameCleartext challenge, k\<lparr>ak_Stage := AHandshake, ak_HelloAnswered := True,
      ak_Attempt := Some \<lparr>ra_Known = True, ra_Shake = s1\<rparr>\<rparr>, s)"
proof -
  let ?a = "mk_ResumeAttempt S s serverNonce (kb_Ceiling k)"
  have "ra_Known ?a" "(ra_Shake ?a)\<lparr>hv_Seen := gs_Seen s\<rparr> = ra_Shake ?a"
    by (simp_all add: mk_ResumeAttempt_def mk_ServerHandshake_def)
  then have "ra_Handle S (Some s) (ak_Hello k) (HandshakeBody out) ?a =
      (Inr \<lparr>hs_Written = challenge, hs_Complete = False\<rparr>, \<lparr>ra_Known = True, ra_Shake = s1\<rparr>)"
    using assms(5) by (simp add: ra_Handle_def Let_def mk_ResumeAttempt_def)
  moreover have "awake now (k\<lparr>ak_Attempt := Some ?a, ak_Stage := AHandshake\<rparr>)" using assms(1) by (simp add: awake_def)
  ultimately show ?thesis using assms(2-4,6) \<open>ra_Known ?a\<close>
    by (simp add: Route_def awake_Pump ak_PumpHandshake_def agent_shake_def Let_def sent_frame_def)
qed

lemma step_auth:
  assumes "awake now k" and "roomy out scratch" and "ck_Stage k = KHandshake"
    and "idle_stream storage MAX_HANDSHAKE_FRAME (kb_Frames k)" and "challenge \<noteq> []" and "length challenge \<le> 64"
    and "hc_Seen (ck_Attempt k) = cs_Seen s"
    and "ClientHandle S challenge (HandshakeBody out) (ck_Attempt k) = (Inr \<lparr>hs_Written = auth', hs_Complete = False\<rparr>, c2)" and "auth' \<noteq> []"
  obtains f where "idle_stream storage MAX_HANDSHAKE_FRAME f"
    "sent_frame (ck_Pump S now out scratch (feed (FrameCleartext challenge) (k, s))) =
       Some (FrameCleartext auth', k\<lparr>kb_Frames := f, ck_Attempt := c2\<rparr>, s)"
proof -
  obtain f1 f2 v where f: "feed (FrameCleartext challenge) (k, s) = (k\<lparr>kb_Frames := f1\<rparr>, s)"
    "fs_Next f1 = (Inr (Some v), f2)" "fv_Body v = challenge" "fh_Epoch (fv_Header v) = CLEARTEXT_EPOCH"
    "idle_stream storage MAX_HANDSHAKE_FRAME f2"
    by (rule feed_cleartext [of k storage challenge s]) (use assms(1,4-6) in \<open>auto simp: awake_def\<close>)
  have "awake now (k\<lparr>kb_Frames := f1\<rparr>)" using assms(1) by (simp add: awake_def)
  moreover have "(ck_Attempt k)\<lparr>hc_Seen := cs_Seen s\<rparr> = ck_Attempt k" using assms(7) by simp
  ultimately show ?thesis using assms(2,3,8,9) f
    by (intro that [OF f(5)]) (simp add: awake_Pump ck_PumpHandshake_def ca_Handle_def Let_def sent_frame_def)
qed


lemma step_authok:
  assumes "awake now k" and "roomy out scratch" and "ak_Stage k = AHandshake" and "ak_HelloAnswered k"
    and "ak_Attempt k = Some \<lparr>ra_Known = True, ra_Shake = s1\<rparr>" and "hv_Seen s1 = gs_Seen s"
    and "idle_stream storage MAX_HANDSHAKE_FRAME (kb_Frames k)" and "auth' \<noteq> []" and "length auth' \<le> 64"
    and "ServerHandle S auth' (HandshakeBody out) s1 = (Inr \<lparr>hs_Written = ok, hs_Complete = True\<rparr>, s2)" and "ok \<noteq> []"
    and "fst (ServerTakeResult s2) = Some result"
  obtains f where "idle_stream storage MAX_HANDSHAKE_FRAME f"
    "sent_frame (ak_Pump S now out scratch (feed (FrameCleartext auth') (k, s))) =
       Some (FrameCleartext ok, agent_authenticated result (k\<lparr>kb_Frames := f, ak_Attempt := Some \<lparr>ra_Known = True, ra_Shake = s2\<rparr>\<rparr>),
             admitted result (ak_HelloGridCapable k) s)"
proof -
  obtain f1 f2 v where f: "feed (FrameCleartext auth') (k, s) = (k\<lparr>kb_Frames := f1\<rparr>, s)"
    "fs_Next f1 = (Inr (Some v), f2)" "fv_Body v = auth'" "fh_Epoch (fv_Header v) = CLEARTEXT_EPOCH"
    "idle_stream storage MAX_HANDSHAKE_FRAME f2"
    by (rule feed_cleartext [of k storage auth' s]) (use assms(1,7-9) in \<open>auto simp: awake_def\<close>)
  have "awake now (k\<lparr>kb_Frames := f1\<rparr>)" using assms(1) by (simp add: awake_def)
  moreover have "s1\<lparr>hv_Seen := gs_Seen s\<rparr> = s1" using assms(6) by simp
  ultimately show ?thesis using assms(2-5,10-12) f
    by (intro that [OF f(5)])
      (simp add: awake_Pump ak_PumpHandshake_def agent_shake_def ra_Handle_def ra_Finish_def admitted_def Let_def sent_frame_def)
qed

text \<open>The Resume an honest client writes for the version \<open>v\<close>.\<close>

definition honest_resume :: "u16 \<Rightarrow> ClientSession \<Rightarrow> ResumeMessage" where
  "honest_resume v s =
     \<lparr>re_StreamGen = (if v \<ge> PROTOCOL_VERSION_GRID then cs_StreamGen s else 0), re_ClientReceiveOffset = ReceiveOffset (cs_Streams s)\<rparr>"

definition resume_plaintext :: "u16 \<Rightarrow> ClientSession \<Rightarrow> bytes" where
  "resume_plaintext v s = type_code Resume # Resume_body v (honest_resume v s)"

lemma Resume_ok_honest: "Resume_ok v (honest_resume v s)"
  by (simp add: Resume_ok_def honest_resume_def)

lemma length_resume_plaintext: "length (resume_plaintext v s) \<le> RESUME_PLAINTEXT_MAX"
  by (simp add: resume_plaintext_def Resume_body_def RESUME_PLAINTEXT_MAX_def)

lemma client_resume_honest:
  assumes "ss_Input (cs_Streams s2) = ss_Input (cs_Streams s)" and "cs_StreamGen s2 = cs_StreamGen s"
  shows "client_resume k s2 = honest_resume (kb_NegotiatedVersion k) s"
  using assms by (simp add: client_resume_def honest_resume_def ReceiveOffset_def)

abbreviation client_frames :: "ConnectionKeys \<Rightarrow> DirectionFrames" where
  "client_frames keys \<equiv> MakeDirectionFrames keys RClient MAX_FRAMES_PER_EPOCH MAX_BYTES_PER_EPOCH"

abbreviation agent_frames :: "ConnectionKeys \<Rightarrow> DirectionFrames" where
  "agent_frames keys \<equiv> MakeDirectionFrames keys RAgent MAX_FRAMES_PER_EPOCH MAX_BYTES_PER_EPOCH"

lemma Attach_keeps: "Attach p st = (r, st') \<Longrightarrow> ss_Input st' = ss_Input st \<and> ss_Limits st' = ss_Limits st"
  by (auto simp: Attach_def Let_def split: if_splits prod.splits sum.splits)

text \<open>The last step of the client: its streams are attached, and the Resume is the first frame it seals.\<close>

lemma SendResume_honest:
  assumes S: "aead_correct S" "aead_total S" and salt: "length (ck_SaltClientToServer (hc_Keys (ck_Attempt k))) = SALT_SIZE"
    and k: "roomy out scratch" "kb_Failed k = None" "hc_Stage (ck_Attempt k) = CDone"
    and at: "Attach (hc_PeerReceiveOffset (ck_Attempt k)) (cs_Streams s) = (Inr g, st)"
  obtains n out' sl k' s' c h where
    "SendResume S now out (k, s) = (Inr (SendFrame (take n out')), k', s')"
    "Seal S out (resume_plaintext (hc_Version (ck_Attempt k)) s) (df_Sealer (client_frames (hc_Keys (ck_Attempt k)))) = (Inr (n, out'), sl)"
    "kb_Failed k' = None" "ck_Stage k' = KLive" "kb_Channel k' = Some c" "cn_Sealer c = sl"
    "cn_Opener c = df_Opener (client_frames (hc_Keys (ck_Attempt k)))"
    "ck_Handle k' = Some h" "kh_IsCurrent h s'" "\<not> kh_Confirmed h"
    "cs_Seed s' = cs_Seed s" "cs_Streams s' = st"
proof -
  let ?c3 = "ck_Attempt k"
  let ?p = "resume_plaintext (hc_Version ?c3) s"
  have st: "ss_Input st = ss_Input (cs_Streams s)" using Attach_keeps [OF at] by simp
  have "length ?p \<le> length (replicate RESUME_PLAINTEXT_MAX (0 :: byte))" using length_resume_plaintext by simp
  from write_mk [OF writes_WriteResume [OF Resume_ok_honest] this [unfolded resume_plaintext_def]] obtain w where
    w: "WriteResume (hc_Version ?c3) (honest_resume (hc_Version ?c3) s) (mk_writer (replicate RESUME_PLAINTEXT_MAX 0)) = (Inr (), w)"
    "Written w = ?p" by (auto simp: resume_plaintext_def)
  obtain n out' sl where se: "Seal S out ?p (df_Sealer (client_frames (hc_Keys ?c3))) = (Inr (n, out'), sl)"
    using Seal_total [OF S, of "df_Sealer (client_frames (hc_Keys ?c3))" ?p out] salt k(1)
      length_resume_plaintext [of "hc_Version ?c3" s]
    by (auto simp: MakeDirectionFrames_def mk_FrameSealer_def MAX_FRAMES_PER_EPOCH_def RESUME_PLAINTEXT_MAX_def
        roomy_def CONNECTION_OUT_SIZE_def size_defs)
  obtain r k' s' where p: "SendResume S now out (k, s) = (r, k', s')" by (metis prod_cases3)
  have r: "r = Inr (SendFrame (take n out')) \<and> kb_Failed k' = None \<and> ck_Stage k' = KLive \<and>
     (\<exists>c. kb_Channel k' = Some c \<and> cn_Sealer c = sl \<and> cn_Opener c = df_Opener (client_frames (hc_Keys ?c3))) \<and>
     ck_Handle k' = Some \<lparr>kh_Generation = g, kh_Confirmed = False\<rparr> \<and> cs_Seed s' = cs_Seed s \<and> cs_Streams s' = st"
    using p k at w se st
    by (auto simp: SendResume_def ca_Finish_def ClientTakeResult_def kh_Attach_def Let_def new_client_handle_def
        client_resume_honest [where s = s] client_channel_def mk_Channel_def QueueResize_def split: option.splits)
  then obtain c where "kb_Channel k' = Some c" "cn_Sealer c = sl" "cn_Opener c = df_Opener (client_frames (hc_Keys ?c3))" by blast
  with r p se Attach_Inr(1) [OF at] show ?thesis
    by (intro that [of n out' k' s' sl c "\<lparr>kh_Generation = g, kh_Confirmed = False\<rparr>"]) (simp_all add: kh_IsCurrent_def)
qed

lemma step_resume:
  assumes S: "aead_correct S" "aead_total S" and salt: "length (ck_SaltClientToServer (hc_Keys c3)) = SALT_SIZE"
    and k: "awake now k" "roomy out scratch" "ck_Stage k = KHandshake"
    and f: "idle_stream storage MAX_HANDSHAKE_FRAME (kb_Frames k)"
    and ok: "ok \<noteq> []" "length ok \<le> 64" "hc_Seen (ck_Attempt k) = cs_Seen s"
    and h: "ClientHandle S ok (HandshakeBody out) (ck_Attempt k) = (Inr \<lparr>hs_Written = [], hs_Complete = True\<rparr>, c3)" "hc_Stage c3 = CDone"
    and at: "Attach (hc_PeerReceiveOffset c3) (cs_Streams s) = (Inr g, st)"
  obtains n out' sl k' s' c h where
    "sent_frame (ck_Pump S now out scratch (feed (FrameCleartext ok) (k, s))) = Some (take n out', k', s')"
    "Seal S out (resume_plaintext (hc_Version c3) s) (df_Sealer (client_frames (hc_Keys c3))) = (Inr (n, out'), sl)"
    "kb_Failed k' = None" "ck_Stage k' = KLive" "kb_Channel k' = Some c" "cn_Sealer c = sl"
    "cn_Opener c = df_Opener (client_frames (hc_Keys c3))"
    "ck_Handle k' = Some h" "kh_IsCurrent h s'" "\<not> kh_Confirmed h"
    "cs_Seed s' = cs_Seed s" "cs_Streams s' = st"
proof -
  obtain f1 f2 v where f: "feed (FrameCleartext ok) (k, s) = (k\<lparr>kb_Frames := f1\<rparr>, s)"
    "fs_Next f1 = (Inr (Some v), f2)" "fv_Body v = ok" "fh_Epoch (fv_Header v) = CLEARTEXT_EPOCH"
    "idle_stream storage MAX_HANDSHAKE_FRAME f2"
    by (rule feed_cleartext [of k storage ok s]) (use k(1) f ok in \<open>auto simp: awake_def\<close>)
  have aw: "awake now (k\<lparr>kb_Frames := f1\<rparr>)" using k(1) by (simp add: awake_def)
  have "(ck_Attempt k)\<lparr>hc_Seen := cs_Seen s\<rparr> = ck_Attempt k" using ok(3) by simp
  then have pump: "ck_Pump S now out scratch (feed (FrameCleartext ok) (k, s)) = SendResume S now out (k\<lparr>kb_Frames := f2, ck_Attempt := c3\<rparr>, s)"
    using aw k(2,3) f h by (simp add: awake_Pump ck_PumpHandshake_def ca_Handle_def Let_def)
  show ?thesis
    by (rule SendResume_honest [OF S, of "k\<lparr>kb_Frames := f2, ck_Attempt := c3\<rparr>" out scratch s g st now])
      (use salt k h at in \<open>auto simp: awake_def pump sent_frame_def intro: that\<close>)
qed


subsection \<open>The agent opens the Resume\<close>

text \<open>A frame sealed first under the keys \<open>old\<close> does not open first under the keys \<open>new\<close>.\<close>

definition stale_refused :: "sodium \<Rightarrow> ConnectionKeys \<Rightarrow> ConnectionKeys \<Rightarrow> bool" where
  "stale_refused S old new \<longleftrightarrow>
     (\<forall>p ad c. aead_encrypt S p ad (MakeNonce (ck_SaltClientToServer old) 0) (ck_ClientToServer old) = Some c \<longrightarrow>
        aead_decrypt S c ad (MakeNonce (ck_SaltClientToServer new) 0) (ck_ClientToServer new) = None)"

lemma in_step_frames: "in_step S (df_Sealer (client_frames keys)) (df_Opener (agent_frames keys))"
  "in_step S (df_Sealer (agent_frames keys)) (df_Opener (client_frames keys))"
  by (simp_all add: MakeDirectionFrames_def in_step_init)

lemma Open_stale:
  assumes "aead_correct S" and "stale_refused S old new"
    and "Seal S out p (df_Sealer (client_frames old)) = (Inr (n, out'), sl)"
    and "ReadFrame (take n out') (of_nat MAX_FRAME) = Inr frame" and "length p \<le> length into"
    and "length (ck_SaltClientToServer new) = SALT_SIZE"
  shows "Open S into frame (df_Opener (agent_frames new)) = (Inl AuthenticationFailed, df_Opener (agent_frames new))"
proof -
  let ?s = "df_Sealer (client_frames old)"
  let ?o = "df_Opener (agent_frames new)"
  let ?h = "\<lparr>fh_Length = of_nat (length p + TAG_SIZE), fh_Epoch = sl_Epoch ?s\<rparr> :: FrameHeader"
  obtain c where rf: "ReadFrame (take n out') (of_nat MAX_FRAME) = Inr \<lparr>fv_Header = ?h, fv_Body = c, fv_Consumed = n\<rparr>"
      and enc: "aead_encrypt S p (header_bytes ?h) (MakeNonce (sl_Salt ?s) (sl_Counter ?s)) (sl_Key ?s) = Some c"
      and len: "length c = length p + TAG_SIZE"
    using assms(1,3) by (rule Seal_ReadFrame)
  have f: "fh_Epoch (fv_Header frame) = sl_Epoch ?s" "fv_Header frame = ?h" "fv_Body frame = c" using rf assms(4) by auto
  have s: "sl_Epoch ?s = 0" "sl_Counter ?s = 0" "sl_Salt ?s = ck_SaltClientToServer old" "sl_Key ?s = ck_ClientToServer old"
    by (simp_all add: MakeDirectionFrames_def mk_FrameSealer_def)
  have o: "op_Epoch ?o = 0" "op_Counter ?o = 0" "op_Salt ?o = ck_SaltClientToServer new" "op_Key ?o = ck_ClientToServer new"
      "op_FrameLimit ?o \<noteq> 0"
    by (simp_all add: MakeDirectionFrames_def mk_FrameOpener_def MAX_FRAMES_PER_EPOCH_def)
  have "aead_decrypt S c (header_bytes ?h) (MakeNonce (ck_SaltClientToServer new) 0) (ck_ClientToServer new) = None"
    using assms(2) enc unfolding stale_refused_def s by blast
  then have "AeadOpen S into c (header_bytes ?h) (ck_ClientToServer new) (MakeNonce (ck_SaltClientToServer new) 0) = Inl AuthenticationFailed"
    using len assms(5) length_MakeNonce [OF assms(6), of 0] by (simp add: AeadOpen_def)
  then show ?thesis
    unfolding Open_def Let_def header_written f s o by (simp add: o f s)
qed

lemma open_resume_honest:
  assumes S: "aead_correct S" and keys: "ak_Current k = Some (agent_frames current)" "ak_Fallback k = map_option agent_frames previous"
    and used: "used = UsedCurrent \<Longrightarrow> keys = current" "used = UsedPrevious \<Longrightarrow> previous = Some keys"
      "used = UsedPrevious \<Longrightarrow> stale_refused S keys current" "length (ck_SaltClientToServer current) = SALT_SIZE"
    and seal: "Seal S out p (df_Sealer (client_frames keys)) = (Inr (n, out'), sl)"
    and frame: "ReadFrame (take n out') (of_nat MAX_FRAME) = Inr frame" and room: "length p \<le> length scratch"
  obtains cur fb chosen where
    "open_resume S frame scratch k = ((Inr p, used), k\<lparr>ak_Current := cur, ak_Fallback := fb\<rparr>)"
    "(if used = UsedCurrent then cur else fb) = Some chosen" "in_step S sl (df_Opener chosen)"
    "df_Sealer chosen = df_Sealer (agent_frames keys)" "df_Role chosen = RAgent"
proof -
  obtain op where o: "Open S scratch frame (df_Opener (agent_frames keys)) = (Inr p, op)" "in_step S sl op"
    using Open_in_step [OF S in_step_frames(1) seal frame room] by blast
  let ?chosen = "(agent_frames keys)\<lparr>df_Opener := op\<rparr>"
  show ?thesis
  proof (cases used)
    case UsedCurrent
    with used(1) o keys show ?thesis
      by (intro that [where cur = "Some ?chosen" and fb = "ak_Fallback k" and chosen = ?chosen])
        (auto simp: open_resume_def Let_def MakeDirectionFrames_def split: option.splits)
  next
    case UsedPrevious
    with used(2,3) Open_stale [OF S _ seal frame room, of current] used(4) o keys show ?thesis
      by (intro that [where cur = "ak_Current k" and fb = "Some ?chosen" and chosen = ?chosen]) (auto simp: open_resume_def Let_def MakeDirectionFrames_def)
  qed
qed

subsection \<open>The first poll of a new channel\<close>

lemma length_CopyOut: "buffer_ok b \<Longrightarrow> length (CopyOut from' n b) \<le> n"
proof (cases "sb_Base b \<le> from' \<and> from' \<le> sb_End b")
  case False
  then have "CopyOut from' n b = []" by (intro CopyOut_outside) auto
  then show ?thesis by simp
qed (simp add: CopyOut_spec)

lemma fresh_Poll:
  assumes S: "aead_correct S" "aead_total S" and roomy: "roomy out scratch"
    and sealer: "df_Sealer chosen = mk_FrameSealer key salt MAX_FRAMES_PER_EPOCH MAX_BYTES_PER_EPOCH" "length salt = SALT_SIZE"
    and role: "df_Role chosen = RAgent" and buf: "buffer_ok b"
    and c: "c = mk_Channel chosen b cur now liveness v snap gen"
  shows "\<exists>n out' c'. Poll S now out scratch c = (Inr (n, out'), c') \<and> cn_Opener c' = cn_Opener c \<and>
    (if sb_Unsent b = 0 then n = 0 \<and> c' = c
     else 0 < n \<and> (\<exists>m sl. 0 < m \<and> Seal S out (type_code Data #
       Data_body \<lparr>da_Ack = AckOffset cur, da_Offset = sb_SendNext b, da_Payload = CopyOut (sb_SendNext b) m b\<rparr>) (df_Sealer chosen) = (Inr (n, out'), sl)))"
proof -
  have fresh: "cn_SendBuf c = b" "cn_RecvCursor c = cur" "cn_EpochStart c = now" "cn_LastAckedOffset c = AckOffset cur"
      "cn_LastHeard c = now" "cn_LastSent c = now" "\<not> cn_ReadGateClosed c" "\<not> cn_SendGateClosed c" "cn_PendingPong c = None"
      "cn_GridEmitting c = None" "cn_Role c = RAgent" "cn_PendingResize c = None" "cn_PendingEnd c = None"
      "\<not> cn_GridAwaitingApplied c" "\<not> cn_AwaitingSnapshotSupply c" "cn_AckPendingSince c = None"
      "cn_Sealer c = df_Sealer chosen"
    by (simp_all add: c mk_Channel_def role)
  have rk: "RekeyIfNeeded S now c = (Inr (), c)"
    by (simp add: RekeyIfNeeded_def NeedsRekey_def fresh sealer(1) mk_FrameSealer_def MAX_FRAMES_PER_EPOCH_def
        MAX_BYTES_PER_EPOCH_def REKEY_INTERVAL_def SECOND_def)
  have out: "\<not> length out < MIN_FRAME" using roomy by (simp add: roomy_def CONNECTION_OUT_SIZE_def size_defs)
  have quiet: "PollPong S out c = (None, c)" "PollGridApplied S out c = (None, c)" "PollGrid S out scratch c = (None, c)"
    "PollSessionEnd S out c = (None, c)" "PollResize S out c = (None, c)" "PollAck S now out c = (None, c)"
    "PollKeepalive S now out c = (None, c)"
    by (auto simp: fresh PollPong_def PollGridApplied_def PollGrid_def PollSessionEnd_def PollResize_def PollAck_def
        PollKeepalive_def)
  have stages: "poll_stages S now out scratch c =
      (case PollData S out scratch c of (Some r, c1) \<Rightarrow> (Some r, c1) | (None, c1) \<Rightarrow> or_else (PollSessionEnd S out) (or_else (PollResize S out)
    (or_else (PollAck S now out) (PollKeepalive S now out))) c1)"
    by (simp add: poll_stages_def or_else_def [of "PollPong S out"] or_else_def [of "PollGridApplied S out"]
        or_else_def [of "PollGrid S out scratch"] or_else_def [of "PollData S out scratch"] quiet)
  have alive: "\<not> (\<not> cn_ReadGateClosed c \<and> 0 < ll_PeerSilenceTimeout (cn_Liveness c) \<and>
      cn_LastHeard c + ll_PeerSilenceTimeout (cn_Liveness c) \<le> now)" "\<not> cn_SendGateClosed c"
    by (simp_all add: fresh)
  show ?thesis
  proof (cases "sb_Unsent b = 0")
    case True
    then have "PollData S out scratch c = (None, c)" by (simp add: PollData_def fresh)
    then have "poll_stages S now out scratch c = (None, c)" by (simp add: stages or_else_def quiet)
    then have "Poll S now out scratch c = (Inr (0, out), c)" using alive out rk by (simp add: Poll_def PollOnce_def)
    with True show ?thesis by simp
  next
    case False
    let ?k = "min (min MAX_DATA_PAYLOAD (length scratch - DATA_HEADER)) (sb_Unsent b)"
    let ?p = "CopyOut (sb_SendNext b) ?k b"
    have k: "0 < ?k" "DATA_HEADER + 1 \<le> length scratch"
      using False roomy by (auto simp: roomy_def CONNECTION_SCRATCH_SIZE_def size_defs)
    let ?pl = "type_code Data # Data_body \<lparr>da_Ack = AckOffset cur, da_Offset = sb_SendNext b, da_Payload = ?p\<rparr>"
    have pd: "PollData S out scratch c = emit S out ?pl (\<lambda>c. c\<lparr>cn_SendBuf := AdvanceSendNext (length ?p) (cn_SendBuf c),
        cn_LastAckedOffset := AckOffset (cn_RecvCursor c), cn_AckPendingSince := None\<rparr>) c"
      using False k data_plaintext [of scratch] by (simp add: PollData_def fresh GridInFlight_def Let_def)
    have "length ?p \<le> ?k" using buf by (rule length_CopyOut)
    then have fits: "length ?pl + TAG_SIZE \<le> MAX_FRAME" by (simp add: Data_body_def size_defs)
    then have "HEADER_SIZE + length ?pl + TAG_SIZE \<le> length out" using roomy by (simp add: roomy_def CONNECTION_OUT_SIZE_def)
    moreover have "length (sl_Salt (cn_Sealer c)) = SALT_SIZE" "sl_Counter (cn_Sealer c) < sl_FrameLimit (cn_Sealer c)"
      using sealer by (simp_all add: fresh mk_FrameSealer_def MAX_FRAMES_PER_EPOCH_def)
    ultimately obtain n out' where "0 < n" and seal: "Seal S out ?pl (cn_Sealer c) = (Inr (n, out'), (cn_Sealer c)\<lparr>sl_Counter := sl_Counter (cn_Sealer c) + 1,
        sl_BytesSealed := sl_BytesSealed (cn_Sealer c) + of_nat (length ?pl)\<rparr>)"
      using Seal_total [OF S _ _ fits] by blast
    from seal obtain c' where "PollData S out scratch c = (Some (Inr (n, out')), c')" "cn_Opener c' = cn_Opener c"
      by (simp add: pd emit_def SealInto_def del: type_code.simps)
    then have "Poll S now out scratch c = (Inr (n, out'), c'\<lparr>cn_LastSent := now\<rparr>)"
      using alive out rk \<open>0 < n\<close> by (simp add: Poll_def PollOnce_def stages)
    moreover have "\<exists>m sl. 0 < m \<and> Seal S out (type_code Data #
        Data_body \<lparr>da_Ack = AckOffset cur, da_Offset = sb_SendNext b, da_Payload = CopyOut (sb_SendNext b) m b\<rparr>) (df_Sealer chosen) = (Inr (n, out'), sl)"
      using k(1) seal [unfolded fresh] by blast
    ultimately show ?thesis
      using \<open>0 < n\<close> \<open>cn_Opener c' = cn_Opener c\<close> False
      by (intro exI [of _ n] exI [of _ out'] exI [of _ "c'\<lparr>cn_LastSent := now\<rparr>"]) (simp del: type_code.simps)
  qed
qed


subsection \<open>The agent's answer\<close>

lemma idle_Next: "idle_stream storage mx f \<Longrightarrow> \<exists>f'. fs_Next f = (Inr None, f')"
proof -
  assume "idle_stream storage mx f"
  then have "fst (fs_Next f) = Inr None" using fs_Next_held(1) [of f] by (simp add: idle_stream_def ReadFrame_short HEADER_SIZE_def)
  then show ?thesis by (metis prod.collapse)
qed

lemma idle_live:
  assumes "idle_stream storage mx (kb_Frames k)" and "kb_Channel k = Some c" and "borrow (gs_Streams s) c = c"
    and "kb_Failed k = None" and "Poll S now out scratch c = (Inr (n, out'), c')"
  shows "\<exists>f. agent_live S now out scratch (k, s) =
    (Inr (if n > 0 then SendFrame (take n out') else Idle), k\<lparr>kb_Frames := f, kb_Channel := Some c'\<rparr>,
     s\<lparr>gs_Streams := give_back c' (gs_Streams s)\<rparr>)"
proof -
  obtain f where "fs_Next (kb_Frames k) = (Inr None, f)" using idle_Next [OF assms(1)] by blast
  with assms show ?thesis
    by (auto simp: agent_live_def PumpLive_def live_loop.simps [of S now scratch id] Let_def)
qed

lemma use_path_b_cong:
  assumes "gs_Streams s' = gs_Streams s" and "gs_LastKnownSize s' = gs_LastKnownSize s"
    and "kb_NegotiatedVersion k' = kb_NegotiatedVersion k" and "ak_HelloGridCapable k' = ak_HelloGridCapable k"
  shows "use_path_b k' m s' = use_path_b k m s"
  using assms by (simp add: use_path_b_def sh_RingOverflowed_def sh_SessionGen_def)

text \<open>
  What a live agent owes the client: \<open>owed\<close> is the output from the client's offset on. The answer is the first frame of the
  resend, which the client's opener opens to a Data message that starts at that offset and carries the first bytes owed; if
  nothing is owed there is none to send.
\<close>

definition answered :: "sodium \<Rightarrow> FrameOpener \<Rightarrow> u64 \<Rightarrow> u64 \<Rightarrow> bytes \<Rightarrow> connection_result \<Rightarrow> bool" where
  "answered S op ack offset owed r \<longleftrightarrow>
     (if owed = [] then r = Inr Idle
      else \<exists>bs frame payload rest op'. r = Inr (SendFrame bs) \<and> ReadFrame bs (of_nat MAX_FRAME) = Inr frame \<and>
        Open S (replicate MAX_FRAME 0) frame op =
          (Inr (type_code Data # Data_body \<lparr>da_Ack = ack, da_Offset = offset, da_Payload = payload\<rparr>), op') \<and>
        owed = payload @ rest \<and> payload \<noteq> [])"

definition owed_from :: "u64 \<Rightarrow> SendBuffer \<Rightarrow> bytes" where
  "owed_from offset b = drop (unat offset - unat (sb_Base b)) (sb_held b)"

lemma answered_sealed:
  assumes "aead_correct S" "0 < m" "owed \<noteq> []" "0 < n"
    and "Seal S out (type_code Data # Data_body \<lparr>da_Ack = ack, da_Offset = offset, da_Payload = take m owed\<rparr>) (df_Sealer (agent_frames keys)) = (Inr (n, out'), sl)"
  shows "answered S (df_Opener (client_frames keys)) ack offset owed (Inr (SendFrame (take n out')))"
proof -
  let ?pl = "type_code Data # Data_body \<lparr>da_Ack = ack, da_Offset = offset, da_Payload = take m owed\<rparr>"
  obtain frame where frame: "ReadFrame (take n out') (of_nat MAX_FRAME) = Inr frame"
    using Seal_ReadFrame [OF assms(1,5)] by metis
  have "length ?pl + TAG_SIZE \<le> MAX_FRAME" using Seal_InrD [OF assms(5)] by metis
  then obtain op' where "Open S (replicate MAX_FRAME 0) frame (df_Opener (client_frames keys)) = (Inr ?pl, op')"
    using Open_in_step [OF assms(1) in_step_frames(2) assms(5) frame, of "replicate MAX_FRAME 0"] by auto
  moreover have "take m owed \<noteq> []" using assms(2,3) by (cases owed) auto
  ultimately show ?thesis
    using assms(3) frame unfolding answered_def by (metis append_take_drop_id)
qed

lemma path_a_honest:
  assumes S: "aead_correct S" "aead_total S" and roomy: "roomy out scratch"
    and chosen: "df_Sealer chosen = df_Sealer (agent_frames keys)" "df_Role chosen = RAgent"
      "length (ck_SaltServerToClient keys) = SALT_SIZE"
    and f: "idle_stream storage mx (kb_Frames k)" "kb_Failed k = None" "gs_End s = None"
    and st: "stream_state_ok (gs_Streams s)" "ss_State (gs_Streams s) \<noteq> Reaped"
      "sb_Base (ss_Output (gs_Streams s)) \<le> off" "off \<le> sb_End (ss_Output (gs_Streams s))"
  obtains r k' s' c h' where
    "resume_path_a S now out scratch chosen off h (k, s) = (r, k', s')"
    "kb_Failed k' = None" "ak_Stage k' = ALive" "kb_Channel k' = Some c" "cn_Opener c = df_Opener chosen"
    "ak_Handle k' = Some h'" "sh_IsCurrent h' s'" "gs_Seed s' = gs_Seed s" "gs_PreviousSeed s' = gs_PreviousSeed s"
    "answered S (df_Opener (client_frames keys)) (AckOffset (ss_Input (gs_Streams s))) off (owed_from off (ss_Output (gs_Streams s))) r"
proof -
  let ?st = "gs_Streams s"
  obtain b where b: "ResetSendNext off (ss_Output ?st) = (Inr (), b)" "buffer_ok b" "sb_SendNext b = off"
      "sb_End b = sb_End (ss_Output ?st)" "sb_Base b = off" "sb_held b = owed_from off (ss_Output ?st)"
    using ResetSendNext_spec(3) [of "ss_Output ?st" off] st by (auto simp: stream_state_ok_def owed_from_def)
  let ?st' = "?st\<lparr>ss_Output := b, ss_State := Live, ss_Generation := ss_Generation ?st + 1\<rparr>"
  let ?s1 = "s\<lparr>gs_Streams := ?st'\<rparr>"
  let ?h = "h\<lparr>sh_Generation := ss_Generation ?st + 1\<rparr>"
  have at: "sh_Attach off (h, s) = (Inr (), ?h, ?s1)"
    using b(1) st(2) by (simp add: sh_Attach_def Attach_def Let_def)
  let ?c = "agent_channel chosen now k ?s1"
  let ?k1 = "k\<lparr>ak_Handle := Some ?h, kb_Channel := Some ?c, ak_Stage := ALive\<rparr>"
  have c: "?c = mk_Channel chosen b (ss_Input ?st) now (lim_Liveness (ss_Limits ?st)) (kb_NegotiatedVersion k) (kb_SnapshotBuf k) 0"
    by (simp add: agent_channel_def)
  obtain n out' c' where p: "Poll S now out scratch ?c = (Inr (n, out'), c')" "cn_Opener c' = cn_Opener ?c"
      "if sb_Unsent b = 0 then n = 0 \<and> c' = ?c
       else 0 < n \<and> (\<exists>m sl. 0 < m \<and> Seal S out (type_code Data #
         Data_body \<lparr>da_Ack = AckOffset (ss_Input ?st), da_Offset = off, da_Payload = CopyOut off m b\<rparr>) (df_Sealer chosen) = (Inr (n, out'), sl))"
    using fresh_Poll [OF S roomy _ chosen(3) chosen(2) b(2) c, of "ck_ServerToClient keys"] chosen(1) b(3)
    by (auto simp: MakeDirectionFrames_def simp del: type_code.simps)
  have op: "cn_Opener ?c = df_Opener chosen" by (simp add: agent_channel_def mk_Channel_def)
  have bo: "borrow (gs_Streams ?s1) ?c = ?c" by (simp add: borrow_def agent_channel_def mk_Channel_def)
  have fr: "idle_stream storage mx (kb_Frames ?k1)" using f(1) by simp
  obtain f' where l: "agent_live S now out scratch (?k1, ?s1) =
    (Inr (if n > 0 then SendFrame (take n out') else Idle), ?k1\<lparr>kb_Frames := f', kb_Channel := Some c'\<rparr>,
     ?s1\<lparr>gs_Streams := give_back c' (gs_Streams ?s1)\<rparr>)"
    using idle_live [OF fr _ bo _ p(1)] f(2) by auto
  let ?owed = "owed_from off (ss_Output ?st)"
  have owed: "sb_Unsent b = length ?owed" "CopyOut off m b = take m ?owed" for m
    using buffer_okD [OF b(2)] CopyOut_spec [OF b(2), of off m] b(3-6) length_sb_held [of b] by (simp_all add: word_le_nat_alt)
  have "answered S (df_Opener (client_frames keys)) (AckOffset (ss_Input ?st)) off ?owed (Inr (if n > 0 then SendFrame (take n out') else Idle))"
  proof (cases "?owed = []")
    case True
    then show ?thesis using p(3) owed(1) by (simp add: answered_def)
  next
    case False
    then obtain m sl where "0 < n" "0 < m" "Seal S out (type_code Data #
         Data_body \<lparr>da_Ack = AckOffset (ss_Input ?st), da_Offset = off, da_Payload = take m ?owed\<rparr>) (df_Sealer (agent_frames keys)) = (Inr (n, out'), sl)"
      using p(3) owed chosen(1) by (auto simp del: type_code.simps)
    then show ?thesis using answered_sealed [OF S(1) _ False, of m n out _ off keys] by simp
  qed
  moreover have "resume_path_a S now out scratch chosen off h (k, s) =
      (Inr (if n > 0 then SendFrame (take n out') else Idle), ?k1\<lparr>kb_Frames := f', kb_Channel := Some c'\<rparr>,
       ?s1\<lparr>gs_Streams := give_back c' (gs_Streams ?s1)\<rparr>)"
    using at l f(3) by (simp add: resume_path_a_def QueueEnd_def report_resized_def Let_def)
  ultimately show ?thesis
    by (rule that [rotated -1, where h' = ?h and c = c'])
      (use f(2) op p(2) in \<open>simp_all add: sh_IsCurrent_def IsCurrent_def give_back_def\<close>)
qed

lemma path_b_honest:
  assumes chosen: "df_Sealer chosen = df_Sealer (agent_frames keys)" "df_Role chosen = RAgent"
    and f: "idle_stream storage mx (kb_Frames k)" "kb_Failed k = None" and st: "ss_State (gs_Streams s) \<noteq> Reaped"
  obtains k' s' c h' where
    "resume_path_b S now out scratch chosen h (k, s) = (Inr Idle, k', s')"
    "kb_Failed k' = None" "ak_Stage k' = AwaitSnapshot" "kb_Channel k' = Some c" "cn_Opener c = df_Opener chosen"
    "ak_Handle k' = Some h'" "sh_IsCurrent h' s'" "gs_Seed s' = gs_Seed s" "gs_PreviousSeed s' = gs_PreviousSeed s"
proof -
  have "Buffered (kb_Frames k) = 0" using f(1) length_held by (fastforce simp: idle_stream_def)
  then have *: "resume_path_b S now out scratch chosen h (k, s) =
      (Inr Idle, fst (snd (resume_path_b S now out scratch chosen h (k, s))), snd (snd (resume_path_b S now out scratch chosen h (k, s))))"
    using st by (auto simp: resume_path_b_def sh_AttachPathB_def AttachPathB_def Let_def)
  show ?thesis
    by (rule that [OF * _ _ _ _ _ _ _ _, where h' = "h\<lparr>sh_Generation := ss_Generation (gs_Streams s) + 1\<rparr>"
          and c = "SuppressDataUntilGrid (agent_channel chosen now k (snd (snd (sh_AttachPathB (h, s)))))"])
      (use \<open>Buffered (kb_Frames k) = 0\<close> f(2) st chosen in \<open>auto simp: resume_path_b_def sh_AttachPathB_def AttachPathB_def Let_def
        SuppressDataUntilGrid_def agent_channel_def mk_Channel_def sh_IsCurrent_def IsCurrent_def\<close>)
qed

lemma resume_opened_honest:
  assumes v: "kb_NegotiatedVersion k = v" and seeds: "seed_used s sc = Some used"
    and gen: "re_StreamGen (honest_resume v sc) \<le> sh_SessionGen s"
    and chosen: "(if used = UsedCurrent then ak_Current k else ak_Fallback k) = Some chosen"
  obtains s1 where
    "resume_opened S now out scratch (resume_plaintext v sc) used h (k, s) =
       (if use_path_b k (honest_resume v sc) s
        then resume_path_b S now out scratch chosen h (k\<lparr>ak_Current := None, ak_Fallback := None\<rparr>, s1)
        else resume_path_a S now out scratch chosen (ReceiveOffset (cs_Streams sc)) h (k\<lparr>ak_Current := None, ak_Fallback := None\<rparr>, s1))"
    "gs_PreviousSeed s1 = Some (cs_Seed sc)" "gs_Seed s1 = AdvanceConnectionSeed S (cs_Seed sc)"
    "gs_Streams s1 = gs_Streams s" "gs_End s1 = gs_End s"
proof -
  obtain s1 where s1: "ConfirmResume S used s = (Inr (), s1)" "gs_PreviousSeed s1 = Some (cs_Seed sc)"
      "gs_Seed s1 = AdvanceConnectionSeed S (cs_Seed sc)"
    using ConfirmResume_seeds [OF seeds, of S] by blast
  have keep: "gs_Streams s1 = gs_Streams s" "gs_End s1 = gs_End s" "gs_LastKnownSize s1 = gs_LastKnownSize s"
    using s1(1) by (auto simp: ConfirmResume_def Let_def split: if_splits)
  have "ParseResume v (rd_at [type_code Resume] (Resume_body v (honest_resume v sc))) =
      (Inr (honest_resume v sc), rd_at ([type_code Resume] @ Resume_body v (honest_resume v sc)) [])"
    using resume.parse_ok [OF Resume_ok_honest] by (simp add: parses_all_def)
  moreover have "use_path_b k (honest_resume v sc) s1 = use_path_b k (honest_resume v sc) s"
    by (rule use_path_b_cong) (simp_all add: keep)
  moreover have "sh_SessionGen s1 = sh_SessionGen s" using keep by (simp add: sh_SessionGen_def)
  ultimately show ?thesis
    using v s1 chosen gen keep parse_type [of Resume "Resume_body v (honest_resume v sc)"]
    by (intro that [OF _ s1(2,3) keep(1,2)])
      (auto simp: resume_opened_def resume_plaintext_def Let_def not_less honest_resume_def simp del: type_code.simps)
qed

text \<open>
  What the agent has become: on the snapshot path it waits for the snapshot, on the replay path it is live and has answered.
  \<open>sl\<close> and \<open>op\<close> are the client's sealer and opener.
\<close>

definition resumed_agent :: "sodium \<Rightarrow> ClientSession \<Rightarrow> AgentSession \<Rightarrow> bool \<Rightarrow> FrameSealer \<Rightarrow> FrameOpener \<Rightarrow> connection_result \<Rightarrow> agent_state \<Rightarrow> bool" where
  "resumed_agent S sc sa pathB sl op answer ks \<longleftrightarrow>
     (case ks of (k, s) \<Rightarrow>
        kb_Failed k = None \<and>
        (\<exists>c. kb_Channel k = Some c \<and> in_step S sl (cn_Opener c)) \<and>
        (\<exists>h. ak_Handle k = Some h \<and> sh_IsCurrent h s) \<and>
        gs_PreviousSeed s = Some (cs_Seed sc) \<and> gs_Seed s = AdvanceConnectionSeed S (cs_Seed sc) \<and>
        (if pathB then ak_Stage k = AwaitSnapshot \<and> answer = Inr Idle
         else ak_Stage k = ALive \<and> answered S op (ReceiveOffset (gs_Streams sa)) (ReceiveOffset (cs_Streams sc))
                (owed_from (ReceiveOffset (cs_Streams sc)) (ss_Output (gs_Streams sa))) answer))"

text \<open>When the snapshot path is taken: both ends speak the version that has it, the client asked for it, and the replay is
  impossible (the ring has overflowed, the client is on an older generation), forbidden, or dearer than a snapshot.\<close>

definition snapshot_chosen :: "u16 \<Rightarrow> bool \<Rightarrow> ClientSession \<Rightarrow> AgentSession \<Rightarrow> bool" where
  "snapshot_chosen v grid sc sa \<longleftrightarrow> PROTOCOL_VERSION_GRID \<le> v \<and> grid \<and>
     (sh_RingOverflowed sa \<or> cs_StreamGen sc < sh_SessionGen sa \<or>
      (case lim_ForcePath (ss_Limits (gs_Streams sa)) of
         FP_A \<Rightarrow> False
       | FP_B \<Rightarrow> True
       | FP_None \<Rightarrow>
           (case gs_LastKnownSize sa of
              None \<Rightarrow> False
            | Some sz \<Rightarrow> unat (SnapshotEstimateBytes (ucast (rs_Rows sz)) (ucast (rs_Cols sz))) <
                length (owed_from (ReceiveOffset (cs_Streams sc)) (ss_Output (gs_Streams sa))))))"

lemma use_path_b_chosen:
  assumes "stream_state_ok (gs_Streams s)" "sb_Base (ss_Output (gs_Streams s)) \<le> ReceiveOffset (cs_Streams sc)"
    and "ReceiveOffset (cs_Streams sc) \<le> sb_End (ss_Output (gs_Streams s))"
  shows "use_path_b k (honest_resume (kb_NegotiatedVersion k) sc) s = snapshot_chosen (kb_NegotiatedVersion k) (ak_HelloGridCapable k) sc s"
proof -
  let ?b = "ss_Output (gs_Streams s)" and ?off = "ReceiveOffset (cs_Streams sc)"
  have ok: "buffer_ok ?b" using assms(1) by (simp add: stream_state_ok_def)
  have "(if sb_End ?b > ?off then sb_End ?b - ?off else 0) = sb_End ?b - ?off" using assms(3) by (auto simp: not_less)
  moreover have "unat (sb_End ?b - ?off) = length (owed_from ?off ?b)"
    using buffer_okD [OF ok] assms(2,3) by (simp add: owed_from_def unat_sub_u64 word_le_nat_alt)
  ultimately show ?thesis
    by (auto simp: use_path_b_def snapshot_chosen_def honest_resume_def Let_def word_less_nat_alt split: option.splits EForcePath.splits)
qed

lemma step_answer:
  assumes S: "aead_correct S" "aead_total S"
    and salts: "length (ck_SaltClientToServer current) = SALT_SIZE" "length (ck_SaltServerToClient keys) = SALT_SIZE"
    and k: "awake now k" "roomy out scratch" "ak_Stage k = AwaitResume" "ak_Handle k = Some h" "kb_NegotiatedVersion k = v"
      "ak_Current k = Some (agent_frames current)" "ak_Fallback k = map_option agent_frames previous"
    and f: "idle_stream storage MAX_FRAME (kb_Frames k)"
    and used: "used = UsedCurrent \<Longrightarrow> keys = current" "used = UsedPrevious \<Longrightarrow> previous = Some keys"
      "used = UsedPrevious \<Longrightarrow> stale_refused S keys current"
    and seal: "Seal S out (resume_plaintext v sc) (df_Sealer (client_frames keys)) = (Inr (n, out'), sl)"
    and seeds: "seed_used s sc = Some used" and gen: "re_StreamGen (honest_resume v sc) \<le> sh_SessionGen s"
    and st: "stream_state_ok (gs_Streams s)" "ss_State (gs_Streams s) \<noteq> Reaped" "gs_End s = None"
      "sb_Base (ss_Output (gs_Streams s)) \<le> ReceiveOffset (cs_Streams sc)" "ReceiveOffset (cs_Streams sc) \<le> sb_End (ss_Output (gs_Streams s))"
  shows "resumed_agent S sc s (use_path_b k (honest_resume v sc) s) sl (df_Opener (client_frames keys)) (fst (ak_Pump S now out scratch (feed (take n out') (k, s))))
    (snd (ak_Pump S now out scratch (feed (take n out') (k, s))))"
proof -
  let ?p = "resume_plaintext v sc"
  let ?h = "\<lparr>fh_Length = of_nat (length ?p + TAG_SIZE), fh_Epoch = sl_Epoch (df_Sealer (client_frames keys))\<rparr> :: FrameHeader"
  obtain body where b: "take n out' = frame_bytes ?h body" "n = HEADER_SIZE + length body" "length ?p + TAG_SIZE \<le> MAX_FRAME"
    using seal by (rule Seal_InrD)
  obtain body' where rf: "ReadFrame (take n out') (of_nat MAX_FRAME) = Inr \<lparr>fv_Header = ?h, fv_Body = body', fv_Consumed = n\<rparr>"
      and len: "length body' = length ?p + TAG_SIZE"
    using S(1) seal by (rule Seal_ReadFrame)
  have "body' = body"
    using ReadFrame_InrD(1) [OF rf] ReadFrame_InrD(3) [OF rf] b(1,2) by (auto simp: frame_bytes_def)
  then have bl: "length body = length ?p + TAG_SIZE" and rf: "ReadFrame (take n out') (of_nat MAX_FRAME) = Inr \<lparr>fv_Header = ?h, fv_Body = body, fv_Consumed = n\<rparr>"
    using len rf by auto
  obtain f1 f2 where fe: "feed (frame_bytes ?h body) (k, s) = (k\<lparr>kb_Frames := f1\<rparr>, s)"
    "fs_Next f1 = (Inr (Some \<lparr>fv_Header = ?h, fv_Body = body, fv_Consumed = HEADER_SIZE + length body\<rparr>), f2)"
    "idle_stream storage MAX_FRAME f2"
    by (rule feed_frame [of k storage MAX_FRAME body ?h s]) (use k(1) f bl b(3) in \<open>auto simp: awake_def size_defs\<close>)
  let ?k2 = "k\<lparr>kb_Frames := f2\<rparr>"
  have room: "length ?p \<le> length scratch"
    using k(2) b(3) by (simp add: roomy_def CONNECTION_SCRATCH_SIZE_def)
  obtain cur fb chosen where o: "open_resume S \<lparr>fv_Header = ?h, fv_Body = body, fv_Consumed = n\<rparr> scratch ?k2 =
        ((Inr ?p, used), ?k2\<lparr>ak_Current := cur, ak_Fallback := fb\<rparr>)"
    "(if used = UsedCurrent then cur else fb) = Some chosen" "in_step S sl (df_Opener chosen)"
    "df_Sealer chosen = df_Sealer (agent_frames keys)" "df_Role chosen = RAgent"
    by (rule open_resume_honest [OF S(1) _ _ _ _ _ salts(1) seal rf room, of ?k2 previous used])
      (use k(6,7) used in simp_all)
  let ?k3 = "?k2\<lparr>ak_Current := cur, ak_Fallback := fb\<rparr>"
  have pump: "ak_Pump S now out scratch (feed (take n out') (k, s)) = resume_opened S now out scratch ?p used h (?k3, s)"
    using k fe b(1,2) o(1) by (simp add: awake_Pump(1) [of now "k\<lparr>kb_Frames := f1\<rparr>"] awake_def PumpResume_def)
  obtain s1 where r: "resume_opened S now out scratch ?p used h (?k3, s) =
       (if use_path_b ?k3 (honest_resume v sc) s
        then resume_path_b S now out scratch chosen h (?k3\<lparr>ak_Current := None, ak_Fallback := None\<rparr>, s1)
        else resume_path_a S now out scratch chosen (ReceiveOffset (cs_Streams sc)) h (?k3\<lparr>ak_Current := None, ak_Fallback := None\<rparr>, s1))"
    "gs_PreviousSeed s1 = Some (cs_Seed sc)" "gs_Seed s1 = AdvanceConnectionSeed S (cs_Seed sc)"
    "gs_Streams s1 = gs_Streams s" "gs_End s1 = gs_End s"
    by (rule resume_opened_honest [of ?k3 v s sc used chosen S now out scratch h]) (use k(5) seeds gen o(2) in auto)
  have pb: "use_path_b ?k3 (honest_resume v sc) s = use_path_b k (honest_resume v sc) s" by (rule use_path_b_cong) auto
  let ?k4 = "?k3\<lparr>ak_Current := None, ak_Fallback := None\<rparr>"
  have k4: "idle_stream storage MAX_FRAME (kb_Frames ?k4)" "kb_Failed ?k4 = None" using fe(3) k(1) by (simp_all add: awake_def)
  show ?thesis
  proof (cases "use_path_b k (honest_resume v sc) s")
    case True
    show ?thesis
      by (rule path_b_honest [OF o(4,5) k4, of s1 S now out scratch h])
        (use r o(3) True pb st(2) in \<open>auto simp: pump resumed_agent_def\<close>)
  next
    case False
    show ?thesis
      by (rule path_a_honest [OF S k(2) o(4,5) salts(2) k4, of s1 "ReceiveOffset (cs_Streams sc)" now h])
        (use r o(3) False pb st in \<open>auto simp: pump resumed_agent_def ReceiveOffset_def\<close>)
  qed
qed


subsection \<open>The whole reconnection\<close>

lemma admitted_keeps [simp]:
  "gs_Seed (admitted r g s) = gs_Seed s" "gs_PreviousSeed (admitted r g s) = gs_PreviousSeed s"
  "gs_End (admitted r g s) = gs_End s" "sh_SessionGen (admitted r g s) = sh_SessionGen s"
  "ss_Output (gs_Streams (admitted r g s)) = ss_Output (gs_Streams s)"
  "ss_State (gs_Streams (admitted r g s)) = ss_State (gs_Streams s)"
  "ss_Input (gs_Streams (admitted r g s)) = ss_Input (gs_Streams s)" "ss_Limits (gs_Streams (admitted r g s)) = ss_Limits (gs_Streams s)"
  "gs_LastKnownSize (admitted r g s) = gs_LastKnownSize s" "ReceiveOffset (gs_Streams (admitted r g s)) = ReceiveOffset (gs_Streams s)"
  by (simp_all add: admitted_def SetGridInfo_def SetOverflowMode_def sh_SessionGen_def ReceiveOffset_def)

lemma resumed_agent_admitted:
  "resumed_agent S sc (admitted r g s) pathB sl op answer ks = resumed_agent S sc s pathB sl op answer ks"
  by (cases ks) (simp add: resumed_agent_def)

lemma admitted_ok: "stream_state_ok (gs_Streams s) \<Longrightarrow> stream_state_ok (gs_Streams (admitted r g s))"
  by (simp add: admitted_def SetGridInfo_def SetOverflowMode_ok)

lemma agent_authenticated_keeps [simp]:
  "kb_Failed (agent_authenticated r k) = kb_Failed k" "kb_Channel (agent_authenticated r k) = kb_Channel k"
  "kb_Started (agent_authenticated r k) = kb_Started k" "ak_Stage (agent_authenticated r k) = AwaitResume"
  "ak_Handle (agent_authenticated r k) = Some new_handle" "kb_NegotiatedVersion (agent_authenticated r k) = hr_Version r"
  "kb_Frames (agent_authenticated r k) = RaiseLimit (of_nat MAX_FRAME) (kb_Frames k)"
  "ak_Current (agent_authenticated r k) = Some (agent_frames (hr_Keys r))"
  "ak_HelloGridCapable (agent_authenticated r k) = ak_HelloGridCapable k"
  by (simp_all add: agent_authenticated_def)

lemma connection_salts:
  assumes "widths_correct S"
  shows "length (ck_SaltClientToServer (DeriveConnectionKeys S seed cn sn)) = SALT_SIZE"
    "length (ck_SaltServerToClient (DeriveConnectionKeys S seed cn sn)) = SALT_SIZE"
  using assms by (simp_all add: DeriveConnectionKeys_def DeriveBytes_def widths_correct_def Let_def)

text \<open>What the client has become: live, and about to resend from what the agent has.\<close>

definition resumed_client :: "ClientSession \<Rightarrow> AgentSession \<Rightarrow> client_state \<Rightarrow> FrameSealer \<Rightarrow> FrameOpener \<Rightarrow> bool" where
  "resumed_client sc sa ks sl op \<longleftrightarrow>
     (case ks of (k, s) \<Rightarrow>
        kb_Failed k = None \<and> ck_Stage k = KLive \<and> (\<exists>c. kb_Channel k = Some c \<and> cn_Sealer c = sl \<and> cn_Opener c = op) \<and>
        (\<exists>h. ck_Handle k = Some h \<and> kh_IsCurrent h s \<and> \<not> kh_Confirmed h) \<and> cs_Seed s = cs_Seed sc \<and>
        sb_SendNext (ss_Output (cs_Streams s)) = ReceiveOffset (gs_Streams sa) \<and>
        sb_held (ss_Output (cs_Streams s)) = owed_from (ReceiveOffset (gs_Streams sa)) (ss_Output (cs_Streams sc)))"

lemma Attach_next:
  assumes "stream_state_ok st" "Attach off st = (Inr g, st')" "sb_Base (ss_Output st) \<le> off" "off \<le> sb_End (ss_Output st)"
  shows "sb_SendNext (ss_Output st') = off" "sb_held (ss_Output st') = owed_from off (ss_Output st)"
  using ResetSendNext_spec(3) [of "ss_Output st" off] assms
  by (auto simp: Attach_def stream_state_ok_def owed_from_def Let_def split: if_splits)

text \<open>
  Two sessions that can be resumed: they are the same session, neither end has reaped it, each end has
  acknowledged no more than the other one sent and no less than it still keeps, and the nonces are fresh.
  If the client is on the previous seed, a frame under its keys is not mistaken for one under the current.
\<close>

definition resumable :: "sodium \<Rightarrow> ClientSession \<Rightarrow> AgentSession \<Rightarrow> bytes \<Rightarrow> bytes \<Rightarrow> bool" where
  "resumable S sc sa cn sn \<longleftrightarrow>
     gs_Auth sa = cs_Auth sc \<and> length (cs_Id sc) = SESSION_ID_SIZE \<and>
     (case seed_used sa sc of
        None \<Rightarrow> False
      | Some UsedCurrent \<Rightarrow> True
      | Some UsedPrevious \<Rightarrow>
          stale_refused S (DeriveConnectionKeys S (cs_Seed sc) cn sn) (DeriveConnectionKeys S (gs_Seed sa) cn sn)) \<and>
     length cn = HANDSHAKE_NONCE_SIZE \<and> length sn = HANDSHAKE_NONCE_SIZE \<and>
     \<not> Seen (cs_Seen sc) cn \<and> \<not> Seen (cs_Seen sc) sn \<and> \<not> Seen (gs_Seen sa) cn \<and> \<not> Seen (gs_Seen sa) sn \<and>
     stream_state_ok (cs_Streams sc) \<and> stream_state_ok (gs_Streams sa) \<and>
     ss_State (cs_Streams sc) \<noteq> Reaped \<and> ss_State (gs_Streams sa) \<noteq> Reaped \<and> gs_End sa = None \<and>
     sb_Base (ss_Output (cs_Streams sc)) \<le> ReceiveOffset (gs_Streams sa) \<and>
     ReceiveOffset (gs_Streams sa) \<le> sb_End (ss_Output (cs_Streams sc)) \<and>
     sb_Base (ss_Output (gs_Streams sa)) \<le> ReceiveOffset (cs_Streams sc) \<and>
     ReceiveOffset (cs_Streams sc) \<le> sb_End (ss_Output (gs_Streams sa)) \<and>
     cs_StreamGen sc \<le> sh_SessionGen sa"

text \<open>The first five frames: the client holds the server's proof, and the agent waits for the Resume.\<close>

lemma handshake_completes:
  assumes S: "auth_correct S" and r: "resumable S sc sa cn sn"
    and bufs: "roomy out scratch" "CONNECTION_FRAME_STORAGE \<le> length storageC" "CONNECTION_FRAME_STORAGE \<le> length storageA"
    and versions: "PROTOCOL_VERSION_MIN \<le> cmax" "PROTOCOL_VERSION_MIN \<le> smax"
  obtains hello c1 a1 challenge a2 auth' kc2 ok ka3 result g c3 where
    "ak_HelloGridCapable ka3 = grid"
    "sent_frame (ck_Pump S now out scratch (mk_ClientConnection S sc cn storageC now grid cmax snap, sc)) = Some (hello, c1)"
    "snd (ak_Pump S now out scratch (feed hello (mk_AgentConnection storageA now smax, sa))) = a1"
    "sent_frame (ak_Pump S now out scratch (Route S sn a1)) = Some (challenge, a2)"
    "sent_frame (ck_Pump S now out scratch (feed challenge c1)) = Some (auth', kc2, sc)"
    "sent_frame (ak_Pump S now out scratch (feed auth' a2)) = Some (FrameCleartext ok, ka3, admitted result g sa)"
    "awake now kc2" "ck_Stage kc2 = KHandshake" "idle_stream (length storageC) MAX_HANDSHAKE_FRAME (kb_Frames kc2)"
    "ok \<noteq> []" "length ok \<le> 64" "hc_Seen (ck_Attempt kc2) = cs_Seen sc"
    "ClientHandle S ok (HandshakeBody out) (ck_Attempt kc2) = (Inr \<lparr>hs_Written = [], hs_Complete = True\<rparr>, c3)"
    "hc_Stage c3 = CDone" "hc_Keys c3 = DeriveConnectionKeys S (cs_Seed sc) cn sn" "hc_Version c3 = min cmax smax"
    "hc_PeerReceiveOffset c3 = ReceiveOffset (gs_Streams sa)"
    "awake now ka3" "ak_Stage ka3 = AwaitResume" "ak_Handle ka3 = Some new_handle" "kb_NegotiatedVersion ka3 = min cmax smax"
    "ak_Current ka3 = Some (agent_frames (DeriveConnectionKeys S (gs_Seed sa) cn sn))"
    "ak_Fallback ka3 = map_option agent_frames (map_option (\<lambda>p. DeriveConnectionKeys S p cn sn) (gs_PreviousSeed sa))"
    "idle_stream (length storageA) MAX_FRAME (kb_Frames ka3)"
proof -
  have same: "gs_Auth sa = cs_Auth sc" "length (cs_Id sc) = SESSION_ID_SIZE"
    and nonces: "length cn = HANDSHAKE_NONCE_SIZE" "length sn = HANDSHAKE_NONCE_SIZE"
      "\<not> Seen (cs_Seen sc) cn" "\<not> Seen (cs_Seen sc) sn" "\<not> Seen (gs_Seen sa) cn" "\<not> Seen (gs_Seen sa) sn"
    using r by (simp_all add: resumable_def)
  let ?kc = "mk_ClientConnection S sc cn storageC now grid cmax snap" and ?ka = "mk_AgentConnection storageA now smax"
  let ?hc = "mk_ClientHandshake S (cs_Id sc) (cs_Auth sc) (cs_Seed sc) cn (cs_Seen sc) cmax grid"
  let ?hs = "mk_ServerHandshake S (gs_Auth sa) (gs_Seed sa) sn (ReceiveOffset (gs_Streams sa)) (gs_Seen sa) (gs_PreviousSeed sa) smax"
  note body = roomy_HandshakeBody [OF bufs(1)]
  obtain hello c1 challenge s1 auth' c2 ok s2 c3 where
    h: "Start S (HandshakeBody out) ?hc = (Inr hello, c1)"
    "ServerHandle S hello (HandshakeBody out) ?hs = (Inr \<lparr>hs_Written = challenge, hs_Complete = False\<rparr>, s1)"
    "ClientHandle S challenge (HandshakeBody out) c1 = (Inr \<lparr>hs_Written = auth', hs_Complete = False\<rparr>, c2)"
    "ServerHandle S auth' (HandshakeBody out) s1 = (Inr \<lparr>hs_Written = ok, hs_Complete = True\<rparr>, s2)"
    "ClientHandle S ok (HandshakeBody out) c2 = (Inr \<lparr>hs_Written = [], hs_Complete = True\<rparr>, c3)"
    and hello: "hello = type_code Hello # Hello_body (honest_hello ?hc)"
    and sizes: "challenge \<noteq> []" "length challenge \<le> 64" "auth' \<noteq> []" "length auth' \<le> 64" "ok \<noteq> []" "length ok \<le> 64"
    and seen: "hc_Seen c1 = cs_Seen sc" "hc_Seen c2 = cs_Seen sc" "hv_Seen s1 = gs_Seen sa"
    and stages: "hc_Stage c3 = CDone" "hv_Stage s2 = SDone"
    and keys: "hc_Keys c3 = DeriveConnectionKeys S (cs_Seed sc) cn sn" "hv_Keys s2 = DeriveConnectionKeys S (gs_Seed sa) cn sn"
      "hv_FallbackKeys s2 = map_option (\<lambda>p. DeriveConnectionKeys S p cn sn) (gs_PreviousSeed sa)"
    and agreed: "hc_Version c3 = min cmax smax" "hv_Version s2 = min cmax smax"
      "hc_PeerReceiveOffset c3 = ReceiveOffset (gs_Streams sa)"
    by (rule handshake_steps [OF S body same(2) nonces(1,2) versions nonces(3-6), where k = "cs_Auth sc" and seed = "cs_Seed sc"
          and sseed = "gs_Seed sa" and grid = grid and off = "ReceiveOffset (gs_Streams sa)" and prev = "gs_PreviousSeed sa"])
      (use same(1) in auto)
  have fc: "idle_stream (length storageC) MAX_HANDSHAKE_FRAME (kb_Frames ?kc)"
    and fa: "idle_stream (length storageA) MAX_HANDSHAKE_FRAME (kb_Frames ?ka)"
    using idle_stream_mk [of MAX_HANDSHAKE_FRAME] bufs(2,3)
    by (simp_all add: mk_ClientConnection_def mk_AgentConnection_def CONNECTION_FRAME_STORAGE_def size_defs)
  have aw: "awake now ?kc" "awake now ?ka"
    by (simp_all add: awake_def mk_ClientConnection_def mk_AgentConnection_def HANDSHAKE_TIMEOUT_def SECOND_def)
  define kc1 where "kc1 = ?kc\<lparr>ck_Attempt := c1, ck_Stage := KHandshake\<rparr>"
  have 1: "sent_frame (ck_Pump S now out scratch (?kc, sc)) = Some (FrameCleartext hello, kc1, sc)"
    unfolding kc1_def
    by (rule step_hello) (use aw bufs h(1) in \<open>simp_all add: mk_ClientConnection_def mk_ClientResumeAttempt_def mk_ClientHandshake_def\<close>)
  have hello_ok: "Hello_ok (honest_hello ?hc)" "length (Hello_body (honest_hello ?hc)) < 64"
    using honest_hello_length [of ?hc] same(2) nonces(1) versions(1)
    by (auto simp: Hello_ok_def honest_hello_def honest_options_ok mk_ClientHandshake_def)
  have capable: "hello_grid_capable hello = grid"
    unfolding hello by (rule hello_grid_capable_honest [OF hello_ok(1)]) (simp add: honest_hello_def mk_ClientHandshake_def)
  obtain f1 where 2: "idle_stream (length storageA) MAX_HANDSHAKE_FRAME f1"
    "snd (ak_Pump S now out scratch (feed (FrameCleartext hello) (?ka, sa))) =
       (?ka\<lparr>kb_Frames := f1, ak_Hello := hello, ak_HelloId := he_Id (honest_hello ?hc), ak_HelloGridCapable := grid, ak_Stage := AwaitRoute\<rparr>, sa)"
  proof -
    have ka: "ak_Stage ?ka = AwaitHello" "(ak_HelloGridCapable ?ka \<or> grid) = grid" by (simp_all add: mk_AgentConnection_def)
    show ?thesis
      by (rule step_route [OF aw(2) bufs(1) ka(1) fa hello_ok, of S sa, folded hello, unfolded capable ka(2)]) (rule that)
  qed
  define ka1 where "ka1 = ?ka\<lparr>kb_Frames := f1, ak_Hello := hello, ak_HelloId := he_Id (honest_hello ?hc), ak_HelloGridCapable := grid, ak_Stage := AwaitRoute\<rparr>"
  define ka2 where "ka2 = ka1\<lparr>ak_Stage := AHandshake, ak_HelloAnswered := True, ak_Attempt := Some \<lparr>ra_Known = True, ra_Shake = s1\<rparr>\<rparr>"
  have 3: "sent_frame (ak_Pump S now out scratch (Route S sn (ka1, sa))) = Some (FrameCleartext challenge, ka2, sa)"
    unfolding ka2_def
    by (rule step_challenge) (use aw bufs h(2) sizes(1) in \<open>simp_all add: ka1_def mk_AgentConnection_def awake_def\<close>)
  obtain f2 where 4: "idle_stream (length storageC) MAX_HANDSHAKE_FRAME f2"
    "sent_frame (ck_Pump S now out scratch (feed (FrameCleartext challenge) (kc1, sc))) = Some (FrameCleartext auth', kc1\<lparr>kb_Frames := f2, ck_Attempt := c2\<rparr>, sc)"
    by (rule step_auth [of now kc1 out scratch "length storageC" challenge sc S auth' c2])
      (use aw bufs fc sizes seen h(3) in \<open>simp_all add: kc1_def awake_def\<close>)
  define result where "result = the (fst (ServerTakeResult s2))"
  have result: "fst (ServerTakeResult s2) = Some result" "hr_Keys result = DeriveConnectionKeys S (gs_Seed sa) cn sn"
    "hr_FallbackKeys result = map_option (\<lambda>p. DeriveConnectionKeys S p cn sn) (gs_PreviousSeed sa)" "hr_Version result = min cmax smax"
    using stages(2) keys agreed by (simp_all add: result_def ServerTakeResult_def)
  obtain f3 where 5: "idle_stream (length storageA) MAX_HANDSHAKE_FRAME f3"
    "sent_frame (ak_Pump S now out scratch (feed (FrameCleartext auth') (ka2, sa))) =
       Some (FrameCleartext ok, agent_authenticated result (ka2\<lparr>kb_Frames := f3, ak_Attempt := Some \<lparr>ra_Known = True, ra_Shake = s2\<rparr>\<rparr>),
             admitted result (ak_HelloGridCapable ka2) sa)"
    by (rule step_authok [of now ka2 out scratch s1 sa "length storageA" auth' S ok s2 result])
      (use aw bufs 2(1) sizes seen h(4) result(1) in \<open>simp_all add: ka2_def ka1_def mk_AgentConnection_def awake_def\<close>)
  define ka3 where "ka3 = agent_authenticated result (ka2\<lparr>kb_Frames := f3, ak_Attempt := Some \<lparr>ra_Known = True, ra_Shake = s2\<rparr>\<rparr>)"
  have ka3: "awake now ka3" "ak_Fallback ka3 = map_option agent_frames (map_option (\<lambda>p. DeriveConnectionKeys S p cn sn) (gs_PreviousSeed sa))"
    using aw(2) result by (auto simp: ka3_def ka2_def ka1_def mk_AgentConnection_def awake_def agent_authenticated_def split: option.splits)
  have kc2: "awake now (kc1\<lparr>kb_Frames := f2, ck_Attempt := c2\<rparr>)" using aw(1) by (simp add: kc1_def awake_def)
  have f4: "idle_stream (length storageA) MAX_FRAME (kb_Frames ka3)"
    using idle_stream_RaiseLimit [OF 5(1), of MAX_FRAME] bufs(3) by (simp add: ka3_def CONNECTION_FRAME_STORAGE_def size_defs)
  show ?thesis
    by (rule that [OF _ 1 2(2) 3 [unfolded ka1_def] 4(2) 5(2) [folded ka3_def] kc2 _ _ sizes(5,6) _ _ stages(1) keys(1) agreed(1,3) ka3(1) _ _ _ _ ka3(2) f4])
      (use 4(1) seen(2) h(5) result in \<open>simp_all add: kc1_def ka3_def ka2_def ka1_def\<close>)
qed

lemma resume_completes:
  assumes S: "auth_correct S" "aead_correct S" "aead_total S" "widths_correct S" and r: "resumable S sc sa cn sn"
    and bufs: "roomy out scratch" "CONNECTION_FRAME_STORAGE \<le> length storageC" "CONNECTION_FRAME_STORAGE \<le> length storageA"
    and versions: "PROTOCOL_VERSION_MIN \<le> cmax" "PROTOCOL_VERSION_MIN \<le> smax"
  shows "\<exists>answer c a sl op. resume_run S now out scratch sn
      (mk_ClientConnection S sc cn storageC now grid cmax snap, sc) (mk_AgentConnection storageA now smax, sa) = Some (answer, c, a) \<and>
    resumed_client sc sa c sl op \<and> resumed_agent S sc sa (snapshot_chosen (min cmax smax) grid sc sa) sl op answer a"
proof -
  let ?c0 = "(mk_ClientConnection S sc cn storageC now grid cmax snap, sc)" and ?a0 = "(mk_AgentConnection storageA now smax, sa)"
  let ?v = "min cmax smax" and ?keys = "DeriveConnectionKeys S (cs_Seed sc) cn sn" and ?cur = "DeriveConnectionKeys S (gs_Seed sa) cn sn"
  obtain hello c1 a1 challenge a2 auth' kc2 ok ka3 result g c3 where
    capable: "ak_HelloGridCapable ka3 = grid" and
    1: "sent_frame (ck_Pump S now out scratch ?c0) = Some (hello, c1)" "snd (ak_Pump S now out scratch (feed hello ?a0)) = a1"
      "sent_frame (ak_Pump S now out scratch (Route S sn a1)) = Some (challenge, a2)"
      "sent_frame (ck_Pump S now out scratch (feed challenge c1)) = Some (auth', kc2, sc)"
      "sent_frame (ak_Pump S now out scratch (feed auth' a2)) = Some (FrameCleartext ok, ka3, admitted result g sa)"
    and kc2: "awake now kc2" "ck_Stage kc2 = KHandshake" "idle_stream (length storageC) MAX_HANDSHAKE_FRAME (kb_Frames kc2)"
      "ok \<noteq> []" "length ok \<le> 64" "hc_Seen (ck_Attempt kc2) = cs_Seen sc"
      "ClientHandle S ok (HandshakeBody out) (ck_Attempt kc2) = (Inr \<lparr>hs_Written = [], hs_Complete = True\<rparr>, c3)"
    and c3: "hc_Stage c3 = CDone" "hc_Keys c3 = ?keys" "hc_Version c3 = ?v" "hc_PeerReceiveOffset c3 = ReceiveOffset (gs_Streams sa)"
    and ka3: "awake now ka3" "ak_Stage ka3 = AwaitResume" "ak_Handle ka3 = Some new_handle" "kb_NegotiatedVersion ka3 = ?v"
      "ak_Current ka3 = Some (agent_frames ?cur)"
      "ak_Fallback ka3 = map_option agent_frames (map_option (\<lambda>p. DeriveConnectionKeys S p cn sn) (gs_PreviousSeed sa))"
      "idle_stream (length storageA) MAX_FRAME (kb_Frames ka3)"
    by (rule handshake_completes [OF S(1) r bufs versions, where now = now and grid = grid and snap = snap]) (rule that)
  let ?sa3 = "admitted result g sa"
  obtain gn st where at: "Attach (hc_PeerReceiveOffset c3) (cs_Streams sc) = (Inr gn, st)"
    using Attach_outcome [of "cs_Streams sc" "ReceiveOffset (gs_Streams sa)"] r c3(4)
    by (auto simp: resumable_def not_less [symmetric] split: if_splits) (metis not_less prod.collapse)
  obtain n out' sl kc4 sc4 c hd where 2:
    "sent_frame (ck_Pump S now out scratch (feed (FrameCleartext ok) (kc2, sc))) = Some (take n out', kc4, sc4)"
    "Seal S out (resume_plaintext ?v sc) (df_Sealer (client_frames ?keys)) = (Inr (n, out'), sl)"
    "kb_Failed kc4 = None" "ck_Stage kc4 = KLive" "kb_Channel kc4 = Some c" "cn_Sealer c = sl"
    "cn_Opener c = df_Opener (client_frames ?keys)" "cs_Streams sc4 = st"
    "ck_Handle kc4 = Some hd" "kh_IsCurrent hd sc4" "\<not> kh_Confirmed hd" "cs_Seed sc4 = cs_Seed sc"
    unfolding c3(2,3) [symmetric]
    by (rule step_resume [OF S(2,3) _ kc2(1) bufs(1) kc2(2-7) c3(1) at]) (use connection_salts [OF S(4)] in \<open>simp_all add: c3\<close>)
  obtain used where used: "seed_used sa sc = Some used" "used = UsedPrevious \<Longrightarrow> stale_refused S ?keys ?cur"
    using r by (auto simp: resumable_def split: option.splits EResumeKeys.splits)
  let ?p = "ak_Pump S now out scratch (feed (take n out') (ka3, ?sa3))"
  have "resumed_agent S sc ?sa3 (use_path_b ka3 (honest_resume ?v sc) ?sa3) sl (df_Opener (client_frames ?keys)) (fst ?p) (snd ?p)"
  proof (rule step_answer [OF S(2,3) connection_salts [OF S(4)] ka3(1) bufs(1) ka3(2-7) _ _ _ 2(2)])
    show "seed_used ?sa3 sc = Some used" using used(1) by (auto simp: seed_used_def split: if_splits)
  qed (use r used in \<open>auto simp: resumable_def honest_resume_def admitted_ok seed_used_def split: if_splits\<close>)
  moreover have "use_path_b ka3 (honest_resume ?v sc) ?sa3 = snapshot_chosen ?v grid sc sa"
    using use_path_b_chosen [of ?sa3 sc ka3] capable ka3(4) r
    by (simp add: resumable_def admitted_ok snapshot_chosen_def sh_RingOverflowed_def cong: option.case_cong EForcePath.case_cong)
  ultimately have "resumed_agent S sc sa (snapshot_chosen ?v grid sc sa) sl (df_Opener (client_frames ?keys)) (fst ?p) (snd ?p)"
    by (simp only: resumed_agent_admitted)
  moreover have "resumed_client sc sa (kc4, sc4) sl (df_Opener (client_frames ?keys))"
    using 2 Attach_next [OF _ at] r c3(4) by (simp add: resumed_client_def resumable_def)
  moreover have "resume_run S now out scratch sn ?c0 ?a0 = Some (fst ?p, (kc4, sc4), snd ?p)"
    using 1 2(1) by (simp add: resume_run_def case_prod_unfold)
  ultimately show ?thesis by blast
qed

end
