(* ===== verification/Session_Admission.thy ===== *)
theory Session_Admission
  imports Session_Guard
begin

text \<open>
  What a peer has to send before the agent lets it near a session. \<open>proof_received\<close> reads the bytes the peer sent: a Hello,
  then an Auth whose tag is valid under the session's key over a transcript with the agent's own nonce. \<open>pre_auth\<close> is the
  invariant of a connection without a handle that ties what it holds (the stored Hello, the handshake, the bytes not yet
  cut into frames) to those bytes.
\<close>

text \<open>What the peer sent, and the nonces the connection was routed with.\<close>

definition peer_input :: "((AgentSession \<Rightarrow> AgentSession) \<times> agent_op) list \<Rightarrow> bytes" where
  "peer_input ops = concat (map (\<lambda>(others, op). case op of AOnBytes chunk \<Rightarrow> chunk | _ \<Rightarrow> []) ops)"

definition routed_nonces :: "((AgentSession \<Rightarrow> AgentSession) \<times> agent_op) list \<Rightarrow> bytes list" where
  "routed_nonces ops = concat (map (\<lambda>(others, op). case op of ARoute nonce \<Rightarrow> [nonce] | _ \<Rightarrow> []) ops)"

lemma peer_input_simps [simp]: "peer_input [] = []" "routed_nonces [] = []" by (simp_all add: peer_input_def routed_nonces_def)

definition cleartext_frame :: "bytes \<Rightarrow> bytes" where
  "cleartext_frame body = frame_bytes \<lparr>fh_Length = of_nat (length body), fh_Epoch = CLEARTEXT_EPOCH\<rparr> body"

text \<open>The transcript of the agent once it has answered a Hello.\<close>

definition challenge_script :: "sodium \<Rightarrow> HelloMessage \<Rightarrow> u16 \<Rightarrow> bytes \<Rightarrow> Transcript" where
  "challenge_script S hello version nonce =
     Absorb S (type_code Challenge # Challenge_body \<lparr>ch_Version = version, ch_ServerNonce = nonce, ch_Options = []\<rparr>)
       (Absorb S (type_code Hello # Hello_body hello) (mk_Transcript S))"

definition proof_received :: "sodium \<Rightarrow> Key \<Rightarrow> bytes list \<Rightarrow> bytes \<Rightarrow> HelloMessage \<Rightarrow> u16 \<Rightarrow> bytes \<Rightarrow> bool" where
  "proof_received S key nonces input hello version nonce \<longleftrightarrow> nonce \<in> set nonces \<and>
     (\<exists>tag rest. input = cleartext_frame (type_code Hello # Hello_body hello) @ cleartext_frame (type_code Auth # tag) @ rest \<and>
        Verify S (challenge_script S hello version nonce) key CLIENT_TAG_LABEL tag)"

text \<open>All that letting a peer in writes into the session.\<close>

definition admitted_as :: "HelloMessage \<Rightarrow> u16 \<Rightarrow> bytes \<Rightarrow> bool \<Rightarrow> AgentSession \<Rightarrow> AgentSession" where
  "admitted_as hello version nonce gridCapable s =
     SetGridInfo version gridCapable (s\<lparr>gs_Seen := Remember nonce (Remember (he_ClientNonce hello) (gs_Seen s))\<rparr>)"

subsection \<open>The server's handshake, message by message\<close>

lemma writes_Written:
  assumes "writes W bs" "W (mk_writer out) = (Inr (), w)"
  shows "Written w = bs"
  using writes_ok [OF assms(1), of out] writes_short [OF assms(1), of out] assms(2) by (cases "length bs \<le> length out") auto

lemma ServerHandle_message:
  assumes "ServerHandle S body out h = (Inr step, h')"
  shows "(hv_Stage h = SFresh \<and> \<not> hs_Complete step \<and> hv_Stage h' = SentChallenge \<and> hv_Auth h' = hv_Auth h \<and> hv_ServerNonce h' = hv_ServerNonce h \<and>
      (\<exists>m. body = type_code Hello # Hello_body m \<and> hv_ClientNonce h' = he_ClientNonce m \<and>
        (hv_Script h = mk_Transcript S \<longrightarrow> hv_Script h' = challenge_script S m (hv_Version h') (hv_ServerNonce h)))) \<or>
    (hv_Stage h = SentChallenge \<and> hs_Complete step \<and> hv_Stage h' = SDone \<and> hv_Version h' = hv_Version h \<and>
      hv_ServerNonce h' = hv_ServerNonce h \<and> hv_ClientNonce h' = hv_ClientNonce h \<and>
      (\<exists>tag. body = type_code Auth # tag \<and> Verify S (hv_Script h) (hv_Auth h) CLIENT_TAG_LABEL tag))"
proof -
  obtain ty reader where ty: "ParseMessageType (mk_reader body) = (Inr ty, reader)"
    using assms by (auto simp: ServerHandle_def ServerHandleStep_def split: prod.splits sum.splits)
  then obtain t where t: "body = type_code ty # t" "reader = rd_at [type_code ty] t"
    using acceptsD [OF accepts_ParseMessageType, of "[]" body ty reader] unfolding mk_reader_rd_at by auto
  consider (hello) "hv_Stage h = SFresh" "ty = Hello" "OnHello S reader body out h = (Inr step, h')"
    | (auth) "hv_Stage h = SentChallenge" "ty = Auth" "OnAuth S reader body out h = (Inr step, h')"
    using assms ty by (auto simp: ServerHandle_def ServerHandleStep_def split: prod.splits sum.splits if_splits)
  then show ?thesis
  proof cases
    case hello
    obtain m where m: "fst (ParseHello reader) = Inr m"
      using hello(3) by (auto simp: OnHello_def split: sum.splits)
    then have body: "body = type_code Hello # Hello_body m"
      using hello.parse_only [of "[type_code Hello]" t m] t hello(2) by (metis prod.collapse)
    obtain v w where w: "WriteChallenge \<lparr>ch_Version = v, ch_ServerNonce = hv_ServerNonce h, ch_Options = []\<rparr> (mk_writer out) = (Inr (), w)"
        and step: "step = \<lparr>hs_Written = Written w, hs_Complete = False\<rparr>"
        and h': "h' = h\<lparr>hv_ClientNonce := he_ClientNonce m, hv_Version := v,
          hv_Script := Absorb S (Written w) (Absorb S body (hv_Script h)), hv_Stage := SentChallenge\<rparr>"
      using hello(3) m by (auto simp: OnHello_def Let_def split: sum.splits prod.splits if_splits)
    have "Written w = type_code Challenge # Challenge_body \<lparr>ch_Version = v, ch_ServerNonce = hv_ServerNonce h, ch_Options = []\<rparr>"
      using writes_Written [OF writes_WriteChallenge w] .
    then show ?thesis using hello(1) body step h' by (auto simp: challenge_script_def)
  next
    case auth
    then obtain m where m: "fst (ParseAuth reader) = Inr m" "Verify S (hv_Script h) (hv_Auth h) CLIENT_TAG_LABEL (au_ClientTag m)"
      by (auto simp: OnAuth_def Let_def split: sum.splits if_splits)
    then have "body = type_code Auth # au_ClientTag m"
      using auth.parse_only [of "[type_code Auth]" t m] t auth(2) by (metis prod.collapse)
    then show ?thesis using auth m by (auto simp: OnAuth_def Let_def split: sum.splits prod.splits if_splits)
  qed
qed

text \<open>One message of the handshake, at the agent's connection: a refusal, the answer to a Hello, or a peer let in.\<close>

lemma agent_shake_message:
  assumes "ak_Handle k = None" "ak_Attempt k = Some a" "agent_shake S body out (k, s) = (r, k', s')"
  defines "h \<equiv> ra_Shake a"
  shows "(s' = s \<and> ak_Handle k' = None \<and> kb_Failed k' \<noteq> None) \<or>
    (hv_Stage h = SFresh \<and> s' = s \<and> (\<exists>a'. k' = k\<lparr>ak_Attempt := Some a'\<rparr> \<and> ra_Known a' = ra_Known a \<and>
      hv_Stage (ra_Shake a') = SentChallenge \<and> hv_Auth (ra_Shake a') = hv_Auth h \<and> hv_ServerNonce (ra_Shake a') = hv_ServerNonce h \<and>
      (\<exists>m. body = type_code Hello # Hello_body m \<and> hv_ClientNonce (ra_Shake a') = he_ClientNonce m \<and>
        (hv_Script h = mk_Transcript S \<longrightarrow> hv_Script (ra_Shake a') = challenge_script S m (hv_Version (ra_Shake a')) (hv_ServerNonce h))))) \<or>
    (hv_Stage h = SentChallenge \<and> ra_Known a \<and> ak_Handle k' \<noteq> None \<and>
      s' = SetGridInfo (hv_Version h) (ak_HelloGridCapable k) (s\<lparr>gs_Seen := Remember (hv_ServerNonce h) (Remember (hv_ClientNonce h) (gs_Seen s))\<rparr>) \<and>
      (\<exists>tag. body = type_code Auth # tag \<and> Verify S (hv_Script h) (hv_Auth h) CLIENT_TAG_LABEL tag))"
proof -
  let ?session = "if ra_Known a then Some s else None"
  define h0 where "h0 = (if ra_Known a then h\<lparr>hv_Seen := gs_Seen s\<rparr> else h)"
  have h0: "hv_Stage h0 = hv_Stage h" "hv_Auth h0 = hv_Auth h" "hv_ServerNonce h0 = hv_ServerNonce h" "hv_Script h0 = hv_Script h"
      "hv_Version h0 = hv_Version h" "hv_ClientNonce h0 = hv_ClientNonce h"
    by (simp_all add: h0_def)
  obtain r1 h1 where sh: "ServerHandle S body (HandshakeBody out) h0 = (r1, h1)" by fastforce
  have ha: "ra_Handle S ?session body (HandshakeBody out) a = (r1, a\<lparr>ra_Shake := h1\<rparr>)"
    using sh unfolding h0_def assms(4) by (cases "ra_Known a") (simp_all add: ra_Handle_def)
  have refused: "s' = s \<and> ak_Handle k' = None \<and> kb_Failed k' \<noteq> None" if "ak_Refuse e (k\<lparr>ak_Attempt := a'\<rparr>, s) = (r, k', s')" for e a'
    using ak_Refuse_keeps [OF that] ak_Refuse_without_handle [of "k\<lparr>ak_Attempt := a'\<rparr>" e s] that assms(1) by simp
  note eqs = agent_shake_def prod.case assms(2) option.case ha Let_def
  show ?thesis
  proof (cases r1)
    case (Inl e)
    then show ?thesis using assms(3) refused by (cases e) (auto simp: eqs)
  next
    case (Inr step)
    from ServerHandle_message [OF sh [unfolded Inr]] show ?thesis
    proof (elim disjE conjE)
      assume c: "hv_Stage h0 = SFresh" "\<not> hs_Complete step" "hv_Stage h1 = SentChallenge" "hv_Auth h1 = hv_Auth h0" "hv_ServerNonce h1 = hv_ServerNonce h0"
        and m: "\<exists>m. body = type_code Hello # Hello_body m \<and> hv_ClientNonce h1 = he_ClientNonce m \<and>
          (hv_Script h0 = mk_Transcript S \<longrightarrow> hv_Script h1 = challenge_script S m (hv_Version h1) (hv_ServerNonce h0))"
      have "s' = s" "k' = k\<lparr>ak_Attempt := Some (a\<lparr>ra_Shake := h1\<rparr>)\<rparr>" using assms(3) Inr c(2) by (simp_all add: eqs)
      then show ?thesis using c m h0 by (intro disjI2 disjI1 conjI exI [of _ "a\<lparr>ra_Shake := h1\<rparr>"]) simp_all
    next
      assume c: "hv_Stage h0 = SentChallenge" "hs_Complete step" "hv_Stage h1 = SDone" "hv_Version h1 = hv_Version h0"
          "hv_ServerNonce h1 = hv_ServerNonce h0" "hv_ClientNonce h1 = hv_ClientNonce h0"
        and t: "\<exists>tag. body = type_code Auth # tag \<and> Verify S (hv_Script h0) (hv_Auth h0) CLIENT_TAG_LABEL tag"
      show ?thesis
      proof (cases "ra_Known a")
        case True
        then obtain result where fin: "ra_Finish (a\<lparr>ra_Shake := h1\<rparr>) ?session =
              (Inr result, Some (s\<lparr>gs_Seen := Remember (hr_ServerNonce result) (Remember (hr_ClientNonce result) (gs_Seen s))\<rparr>))"
            and result: "hr_ServerNonce result = hv_ServerNonce h" "hr_ClientNonce result = hv_ClientNonce h" "hr_Version result = hv_Version h"
          using c h0 by (simp add: ra_Finish_def ServerTakeResult_def)
        have "k' = agent_authenticated result (k\<lparr>ak_Attempt := Some (a\<lparr>ra_Shake := h1\<rparr>)\<rparr>)"
            "s' = SetGridInfo (hv_Version h) (ak_HelloGridCapable k) (s\<lparr>gs_Seen := Remember (hv_ServerNonce h) (Remember (hv_ClientNonce h) (gs_Seen s))\<rparr>)"
          using assms(3) Inr c(2) fin result by (simp_all add: eqs)
        then show ?thesis using True c(1) t h0 by (intro disjI2) (simp add: agent_authenticated_def)
      next
        case False
        then have "ra_Finish (a\<lparr>ra_Shake := h1\<rparr>) ?session = (Inl NotAuthenticated, None)"
          by (auto simp: ra_Finish_def split: option.splits)
        then have "ak_Refuse (SessErr NotAuthenticated) (k\<lparr>ak_Attempt := Some (a\<lparr>ra_Shake := h1\<rparr>)\<rparr>, s) = (r, k', s')"
          using assms(3) Inr c(2) by (simp add: eqs)
        from refused [OF this] show ?thesis by simp
      qed
    qed
  qed
qed

subsection \<open>Until a peer is let in\<close>

text \<open>The attempt of a connection whose Hello is the first frame the peer sent.\<close>

definition attempt_ok :: "sodium \<Rightarrow> Key \<Rightarrow> bytes list \<Rightarrow> AgentConnection \<Rightarrow> ResumeAttempt \<Rightarrow> bool" where
  "attempt_ok S key nonces k a \<longleftrightarrow>
     (ra_Known a \<longrightarrow> hv_Auth (ra_Shake a) = key \<and> hv_ServerNonce (ra_Shake a) \<in> set nonces) \<and>
     (if ak_HelloAnswered k
      then hv_Stage (ra_Shake a) = SentChallenge \<and>
        (\<exists>m. ak_Hello k = type_code Hello # Hello_body m \<and> hv_ClientNonce (ra_Shake a) = he_ClientNonce m \<and>
           hv_Script (ra_Shake a) = challenge_script S m (hv_Version (ra_Shake a)) (hv_ServerNonce (ra_Shake a)))
      else hv_Stage (ra_Shake a) = SFresh \<and> hv_Script (ra_Shake a) = mk_Transcript S)"

lemma attempt_ok_frames [simp]: "attempt_ok S key nonces (k\<lparr>kb_Frames := f\<rparr>) a = attempt_ok S key nonces k a"
  by (simp add: attempt_ok_def)

definition pre_auth :: "sodium \<Rightarrow> Key \<Rightarrow> bytes list \<Rightarrow> bytes \<Rightarrow> AgentConnection \<Rightarrow> bool" where
  "pre_auth S key nonces input k \<longleftrightarrow> stream_ok (kb_Frames k) \<and>
     (case ak_Stage k of
        AwaitHello \<Rightarrow> \<not> ak_HelloAnswered k \<and> input = held (kb_Frames k)
      | AwaitRoute \<Rightarrow> \<not> ak_HelloAnswered k \<and> input = cleartext_frame (ak_Hello k) @ held (kb_Frames k)
      | AHandshake \<Rightarrow> input = cleartext_frame (ak_Hello k) @ held (kb_Frames k) \<and> (\<exists>a. ak_Attempt k = Some a \<and> attempt_ok S key nonces k a)
      | _ \<Rightarrow> False)"

definition unadmitted :: "sodium \<Rightarrow> Key \<Rightarrow> bytes list \<Rightarrow> bytes \<Rightarrow> agent_state \<Rightarrow> bool" where
  "unadmitted S key nonces input ks \<longleftrightarrow> agent_wf (fst ks) \<and>
     (ak_Handle (fst ks) = None \<longrightarrow> gs_Auth (snd ks) = key \<and> (kb_Failed (fst ks) = None \<longrightarrow> pre_auth S key nonces input (fst ks)))"

lemma fs_Next_cleartext:
  assumes "stream_ok f" "fs_Next f = (Inr (Some v), f')" "fh_Epoch (fv_Header v) = CLEARTEXT_EPOCH"
  shows "stream_ok f'" "held f = cleartext_frame (fv_Body v) @ held f'"
proof -
  have r: "ReadFrame (held f) (fs_MaxBodyLength f) = Inr v"
    using fs_Next_held(1) [OF assms(1)] assms(2) by (auto split: sum.splits if_splits)
  note d = ReadFrame_InrD [OF r]
  have "fv_Header v = \<lparr>fh_Length = of_nat (length (fv_Body v)), fh_Epoch = CLEARTEXT_EPOCH\<rparr>"
    using d(2) assms(3) by simp
  then show "held f = cleartext_frame (fv_Body v) @ held f'"
    using d(1) fs_Next_held(3) [OF assms(1)] assms(2) r by (simp add: cleartext_frame_def)
  show "stream_ok f'" using fs_Next_held(2) [OF assms(1)] assms(2) by simp
qed

lemma fs_Next_none:
  assumes "stream_ok f" "fs_Next f = (Inr None, f')"
  shows "stream_ok f'" "held f' = held f"
  using fs_Next_held [OF assms(1)] assms(2) by (auto split: sum.splits if_splits)

text \<open>A step of a connection without a handle: nothing happens to the session and the invariant stays, or the peer has sent its
  proof and is let in.\<close>

definition admission :: "sodium \<Rightarrow> Key \<Rightarrow> bytes list \<Rightarrow> bytes \<Rightarrow> agent_state \<Rightarrow> agent_state \<Rightarrow> bool" where
  "admission S key nonces input ks ks' \<longleftrightarrow> ak_Handle (fst ks') \<noteq> None \<and>
     (\<exists>hello version nonce. proof_received S key nonces input hello version nonce \<and>
        snd ks' = admitted_as hello version nonce (ak_HelloGridCapable (fst ks)) (snd ks))"

definition held_off :: "sodium \<Rightarrow> Key \<Rightarrow> bytes list \<Rightarrow> bytes \<Rightarrow> agent_state \<Rightarrow> agent_state \<Rightarrow> bool" where
  "held_off S key nonces input ks ks' \<longleftrightarrow> snd ks' = snd ks \<and> ak_Handle (fst ks') = None \<and>
     (kb_Failed (fst ks') = None \<longrightarrow> pre_auth S key nonces input (fst ks'))"

lemma held_off_Refuse: "ak_Handle k = None \<Longrightarrow> held_off S key nonces input ks (snd (ak_Refuse e (k, snd ks)))"
proof -
  assume h: "ak_Handle k = None"
  obtain r k' s' where *: "ak_Refuse e (k, snd ks) = (r, k', s')" by (metis prod_cases3)
  then show ?thesis
    using ak_Refuse_keeps [OF *] ak_Refuse_without_handle [OF h, of e "snd ks"] h by (auto simp: held_off_def)
qed

lemma PumpHello_held_off:
  assumes "pre_auth S key nonces input k" "ak_Stage k = AwaitHello" "ak_Handle k = None"
  shows "held_off S key nonces input (k, s) (snd (PumpHello (k, s)))"
proof -
  have k: "stream_ok (kb_Frames k)" "\<not> ak_HelloAnswered k" "input = held (kb_Frames k)" using assms(1,2) by (simp_all add: pre_auth_def)
  obtain r f where n: "fs_Next (kb_Frames k) = (r, f)" by fastforce
  have refused: "held_off S key nonces input (k, s) (snd (ak_Refuse e (k\<lparr>kb_Frames := f\<rparr>, s)))" for e
    using held_off_Refuse [of "k\<lparr>kb_Frames := f\<rparr>" S key nonces input "(k, s)" e] assms(3) by simp
  have idle: "held_off S key nonces input (k, s) (k\<lparr>kb_Frames := f\<rparr>, s)" if "r = Inr None"
    using fs_Next_none [OF k(1)] n that k assms(2,3) by (simp add: held_off_def pre_auth_def)
  have kept: "held_off S key nonces input (k, s) (k\<lparr>kb_Frames := f, ak_Hello := fv_Body v, ak_HelloId := sid, ak_HelloGridCapable := g, ak_Stage := AwaitRoute\<rparr>, s)"
    if "r = Inr (Some v)" "fh_Epoch (fv_Header v) = CLEARTEXT_EPOCH" for v sid g
    using fs_Next_cleartext [OF k(1) n [unfolded that(1)] that(2)] k assms(3) by (simp add: held_off_def pre_auth_def)
  show ?thesis using n refused idle kept
    by (auto simp: PumpHello_def Let_def split: sum.splits option.splits PreAuthError.splits)
qed

text \<open>The Hello is answered, or refused.\<close>

lemma shake_hello:
  assumes "pre_auth S key nonces input k" "ak_Stage k = AHandshake" "ak_Handle k = None" "\<not> ak_HelloAnswered k"
  shows "held_off S key nonces input (k, s) (snd (agent_shake S (ak_Hello k) out (k\<lparr>ak_HelloAnswered := True\<rparr>, s)))"
proof -
  obtain a where a: "ak_Attempt k = Some a" "attempt_ok S key nonces k a" "stream_ok (kb_Frames k)"
      "input = cleartext_frame (ak_Hello k) @ held (kb_Frames k)"
    using assms(1,2) by (auto simp: pre_auth_def)
  obtain r k' s' where sh: "agent_shake S (ak_Hello k) out (k\<lparr>ak_HelloAnswered := True\<rparr>, s) = (r, k', s')" by (metis prod_cases3)
  have fresh: "hv_Stage (ra_Shake a) = SFresh" "hv_Script (ra_Shake a) = mk_Transcript S" using a(2) assms(4) by (simp_all add: attempt_ok_def)
  have "ak_Handle (k\<lparr>ak_HelloAnswered := True\<rparr>) = None" "ak_Attempt (k\<lparr>ak_HelloAnswered := True\<rparr>) = Some a" using assms(3) a(1) by simp_all
  note message = agent_shake_message [OF this sh]
  from message [unfolded fresh simp_thms] show ?thesis
  proof (elim disjE conjE exE)
    assume "s' = s" "ak_Handle k' = None" "kb_Failed k' \<noteq> None"
    then show ?thesis by (auto simp: sh held_off_def)
  next
    fix a' m assume answered: "s' = s" "k' = k\<lparr>ak_HelloAnswered := True, ak_Attempt := Some a'\<rparr>" "ra_Known a' = ra_Known a"
        "hv_Stage (ra_Shake a') = SentChallenge" "hv_Auth (ra_Shake a') = hv_Auth (ra_Shake a)"
        "hv_ServerNonce (ra_Shake a') = hv_ServerNonce (ra_Shake a)" "ak_Hello k = type_code Hello # Hello_body m"
        "hv_ClientNonce (ra_Shake a') = he_ClientNonce m"
        "hv_Script (ra_Shake a') = challenge_script S m (hv_Version (ra_Shake a')) (hv_ServerNonce (ra_Shake a))"
    then have "attempt_ok S key nonces k' a'" using a(2) by (auto simp: attempt_ok_def)
    with answered a(3,4) assms(2,3) show ?thesis unfolding sh by (simp add: held_off_def pre_auth_def)
  next
    assume "SFresh = SentChallenge"
    then show ?thesis by simp
  qed
qed

text \<open>The next frame is a valid proof, or refused.\<close>

lemma shake_auth:
  assumes "pre_auth S key nonces input k" "ak_Stage k = AHandshake" "ak_Handle k = None" "ak_HelloAnswered k"
    and "fs_Next (kb_Frames k) = (Inr (Some v), f)" "fh_Epoch (fv_Header v) = CLEARTEXT_EPOCH"
  shows "held_off S key nonces input (k, s) (snd (agent_shake S (fv_Body v) out (k\<lparr>kb_Frames := f\<rparr>, s))) \<or>
    admission S key nonces input (k, s) (snd (agent_shake S (fv_Body v) out (k\<lparr>kb_Frames := f\<rparr>, s)))"
proof -
  obtain a where a: "ak_Attempt k = Some a" "attempt_ok S key nonces k a" "stream_ok (kb_Frames k)"
      "input = cleartext_frame (ak_Hello k) @ held (kb_Frames k)"
    using assms(1,2) by (auto simp: pre_auth_def)
  obtain m where m: "hv_Stage (ra_Shake a) = SentChallenge" "ak_Hello k = type_code Hello # Hello_body m" "hv_ClientNonce (ra_Shake a) = he_ClientNonce m"
      "hv_Script (ra_Shake a) = challenge_script S m (hv_Version (ra_Shake a)) (hv_ServerNonce (ra_Shake a))"
    using a(2) assms(4) by (auto simp: attempt_ok_def)
  obtain r k' s' where sh: "agent_shake S (fv_Body v) out (k\<lparr>kb_Frames := f\<rparr>, s) = (r, k', s')" by (metis prod_cases3)
  have "ak_Handle (k\<lparr>kb_Frames := f\<rparr>) = None" "ak_Attempt (k\<lparr>kb_Frames := f\<rparr>) = Some a" using assms(3) a(1) by simp_all
  from agent_shake_message [OF this sh] m(1) consider (refused) "s' = s" "ak_Handle k' = None" "kb_Failed k' \<noteq> None"
    | (proved) tag where "ra_Known a" "ak_Handle k' \<noteq> None" "s' = admitted_as m (hv_Version (ra_Shake a)) (hv_ServerNonce (ra_Shake a)) (ak_HelloGridCapable k) s"
        "fv_Body v = type_code Auth # tag" "Verify S (hv_Script (ra_Shake a)) (hv_Auth (ra_Shake a)) CLIENT_TAG_LABEL tag"
    by (auto simp: admitted_as_def m(3))
  then show ?thesis
  proof cases
    case refused
    then show ?thesis by (auto simp: sh held_off_def)
  next
    case proved
    have "input = cleartext_frame (type_code Hello # Hello_body m) @ cleartext_frame (type_code Auth # tag) @ held f"
      using a(4) fs_Next_cleartext(2) [OF a(3) assms(5,6)] m(2) proved(4) by simp
    then have "proof_received S key nonces input m (hv_Version (ra_Shake a)) (hv_ServerNonce (ra_Shake a))"
      using proved(1,5) a(2) m(4) unfolding proof_received_def attempt_ok_def by metis
    with proved show ?thesis unfolding sh by (auto simp: admission_def)
  qed
qed

lemma PumpHandshake_step:
  assumes "pre_auth S key nonces input k" "ak_Stage k = AHandshake" "ak_Handle k = None"
  shows "held_off S key nonces input (k, s) (snd (ak_PumpHandshake S out (k, s))) \<or> admission S key nonces input (k, s) (snd (ak_PumpHandshake S out (k, s)))"
proof (cases "ak_HelloAnswered k")
  case False
  then show ?thesis using shake_hello [OF assms False, of s out] by (simp add: ak_PumpHandshake_def)
next
  case True
  obtain r f where n: "fs_Next (kb_Frames k) = (r, f)" by fastforce
  have ok: "stream_ok (kb_Frames k)" using assms(1) by (simp add: pre_auth_def)
  have refused: "held_off S key nonces input (k, s) (snd (ak_Refuse e (k\<lparr>kb_Frames := f\<rparr>, s)))" for e
    using held_off_Refuse [of "k\<lparr>kb_Frames := f\<rparr>" S key nonces input "(k, s)" e] assms(3) by simp
  have idle: "held_off S key nonces input (k, s) (k\<lparr>kb_Frames := f\<rparr>, s)" if "r = Inr None"
    using fs_Next_none [OF ok] n that assms by (simp add: held_off_def pre_auth_def)
  show ?thesis
    using n True refused idle shake_auth [OF assms True, of _ f s out]
    by (auto simp: ak_PumpHandshake_def split: sum.splits option.splits)
qed

lemma Pump_step:
  assumes "pre_auth S key nonces input k" "ak_Handle k = None" "kb_Failed k = None"
  shows "held_off S key nonces input (k, s) (snd (ak_Pump S now out scratch (k, s))) \<or> admission S key nonces input (k, s) (snd (ak_Pump S now out scratch (k, s)))"
proof -
  have same: "held_off S key nonces input (k, s) (k, s)" using assms by (simp add: held_off_def)
  have refused: "held_off S key nonces input (k, s) (snd (ak_Refuse e (k, s)))" for e
    using held_off_Refuse [OF assms(2), of S key nonces input "(k, s)" e] by simp
  show ?thesis
  proof (cases "ak_Stage k")
    case AwaitHello
    then show ?thesis
      using same refused PumpHello_held_off [OF assms(1) AwaitHello assms(2), of s] by (auto simp: ak_Pump_def assms(3) split: sum.splits)
  next
    case AwaitRoute
    then show ?thesis using same refused by (auto simp: ak_Pump_def assms(3) split: sum.splits)
  next
    case AHandshake
    then show ?thesis
      using same refused PumpHandshake_step [OF assms(1) AHandshake assms(2), of s out] by (auto simp: ak_Pump_def assms(3) split: sum.splits)
  qed (use assms(1) in \<open>simp_all add: pre_auth_def\<close>)
qed

text \<open>What an operation adds to the bytes received and to the nonces used.\<close>

definition op_input :: "agent_op \<Rightarrow> bytes" where
  "op_input op = (case op of AOnBytes chunk \<Rightarrow> chunk | _ \<Rightarrow> [])"

definition op_nonces :: "agent_op \<Rightarrow> bytes list" where
  "op_nonces op = (case op of ARoute nonce \<Rightarrow> [nonce] | _ \<Rightarrow> [])"

lemma pre_auth_more_nonces: "pre_auth S key nonces input k \<Longrightarrow> pre_auth S key (nonces @ nonces') input k"
  by (auto simp: pre_auth_def attempt_ok_def split: EAgentStage.splits if_splits)

lemma OnBytes_held_off:
  assumes "pre_auth S key nonces input k" "ak_Handle k = None" "kb_Failed k = None"
  shows "held_off S key nonces (input @ chunk) (k, s) (snd (OnBytes chunk k), s)"
proof -
  have ok: "stream_ok (kb_Frames k)" using assms(1) by (simp add: pre_auth_def)
  obtain r f where a: "fs_Append chunk (kb_Frames k) = (r, f)" by fastforce
  show ?thesis
  proof (cases r)
    case (Inl e)
    then show ?thesis using a assms by (auto simp: OnBytes_def held_off_def kb_Fail_def)
  next
    case (Inr u)
    then show ?thesis
      using a fs_Append_Inr(1,2) [OF ok, of chunk f] assms by (auto simp: OnBytes_def held_off_def pre_auth_def split: EAgentStage.splits)
  qed
qed

lemma Route_held_off:
  assumes "pre_auth S key nonces input k" "ak_Handle k = None" "gs_Auth s = key"
  shows "held_off S key (nonces @ [nonce]) input (k, s) (Route S nonce (k, s))"
    and "held_off S key nonces input (k, s) (RouteUnknown S localSecret nonce (k, s))"
proof -
  show "held_off S key (nonces @ [nonce]) input (k, s) (Route S nonce (k, s))"
  proof (cases "ak_Stage k = AwaitRoute")
    case True
    then show ?thesis
      using assms by (simp add: Route_def held_off_def pre_auth_def attempt_ok_def mk_ResumeAttempt_def mk_ServerHandshake_def)
  next
    case False
    then show ?thesis using assms(2) pre_auth_more_nonces [OF assms(1)] by (simp add: Route_def held_off_def)
  qed
  show "held_off S key nonces input (k, s) (RouteUnknown S localSecret nonce (k, s))"
  proof (cases "ak_Stage k = AwaitRoute")
    case True
    then show ?thesis
      using assms by (simp add: RouteUnknown_def held_off_def pre_auth_def attempt_ok_def ForUnknown_def mk_ServerHandshake_def Let_def)
  next
    case False
    then show ?thesis using assms(1,2) by (simp add: RouteUnknown_def held_off_def)
  qed
qed

lemma failed_without_handle:
  assumes "kb_Failed k \<noteq> None" "ak_Handle k = None"
  shows "snd (agent_apply S op (k, s)) = s" "ak_Handle (fst (agent_apply S op (k, s))) = None" "kb_Failed (fst (agent_apply S op (k, s))) \<noteq> None"
  using assms
  by (cases op; auto simp: OnBytes_def ak_Pump_def Route_def RouteUnknown_def SupplySnapshot_def ak_Close_def kb_SetReadGate_def kb_SetSendGate_def
      split: EAgentStage.splits option.splits)+

lemma apply_step:
  assumes "unadmitted S key nonces input (k, s)" "ak_Handle k = None"
  shows "held_off S key (nonces @ op_nonces op) (input @ op_input op) (k, s) (agent_apply S op (k, s)) \<or>
    admission S key nonces input (k, s) (agent_apply S op (k, s))"
proof (cases "kb_Failed k = None")
  case False
  then show ?thesis using failed_without_handle [OF False assms(2), of S op s] by (auto simp: held_off_def)
next
  case True
  then have pre: "pre_auth S key nonces input k" and auth: "gs_Auth s = key" using assms by (simp_all add: unadmitted_def)
  show ?thesis
  proof (cases op)
    case (AOnBytes chunk)
    then show ?thesis using OnBytes_held_off [OF pre assms(2) True, of chunk s] by (simp add: op_input_def op_nonces_def)
  next
    case (APump now out scratch)
    then show ?thesis using Pump_step [OF pre assms(2) True, of s now out scratch] by (simp add: op_input_def op_nonces_def)
  next
    case (ARoute nonce)
    then show ?thesis using Route_held_off(1) [OF pre assms(2) auth, of nonce] by (simp add: op_input_def op_nonces_def)
  next
    case (ARouteUnknown localSecret nonce)
    then show ?thesis using Route_held_off(2) [OF pre assms(2) auth, of localSecret nonce] by (simp add: op_input_def op_nonces_def)
  next
    case (ASupplySnapshot now snapshot scrollbackLen flags)
    then show ?thesis using pre assms(2)
      by (auto simp: op_input_def op_nonces_def SupplySnapshot_def held_off_def split: EAgentStage.splits option.splits)
  qed (use pre assms(2) in \<open>auto simp: op_input_def op_nonces_def ak_Close_def kb_SetReadGate_def kb_SetSendGate_def held_off_def
      pre_auth_def attempt_ok_def split: EAgentStage.splits\<close>)
qed

subsection \<open>Over a whole run\<close>

text \<open>A handle, once there, stays.\<close>

lemma resume_opened_handle:
  assumes "ak_Handle k \<noteq> None"
  shows "ak_Handle (fst (snd (resume_opened S now out scratch opened used h (k, s)))) \<noteq> None"
proof -
  have refused: "ak_Handle (fst (snd (ak_Refuse e (k', s')))) \<noteq> None" if "ak_Handle k' \<noteq> None" for e k' s'
    using that by (simp add: ak_Refuse_connection)
  have await: "ak_Handle (fst (snd (PumpAwaitSnapshot S now out scratch (k', s')))) = ak_Handle k'" for k' s'
    using PumpAwaitSnapshot_keeps [of S now out scratch k' s'] by (metis prod.collapse)
  have live: "ak_Handle (fst (snd (agent_live S now out scratch (k', s')))) = ak_Handle k'" for k' s'
    using agent_live_keeps(2) [of S now out scratch k' s'] by (metis prod.collapse)
  have b: "ak_Handle (fst (snd (resume_path_b S now out scratch chosen h (k', s')))) \<noteq> None" for chosen k' s'
    using refused await by (auto simp: resume_path_b_def Let_def split: prod.splits sum.splits)
  have a: "ak_Handle (fst (snd (resume_path_a S now out scratch chosen offset h (k', s')))) \<noteq> None" for chosen offset k' s'
  proof -
    obtain r h1 s1 where at: "sh_Attach offset (h, s') = (r, h1, s1)" by (metis prod_cases3)
    obtain k2 s2 where q: "QueueEnd (k'\<lparr>ak_Handle := Some h1, kb_Channel := Some (agent_channel chosen now k' s1), ak_Stage := ALive\<rparr>, s1) = (k2, s2)"
      by fastforce
    have "ak_Handle k2 = Some h1" using QueueEnd_keeps(4) [of "k'\<lparr>ak_Handle := Some h1, kb_Channel := Some (agent_channel chosen now k' s1), ak_Stage := ALive\<rparr>" s1] q by simp
    then have "ak_Handle (fst (snd (agent_live S now out scratch (k2, s2)))) \<noteq> None" by (simp add: live)
    then show ?thesis using refused
      by (auto simp: resume_path_a_def at q Let_def report_resized_connection split: prod.splits sum.splits ESessionError.splits option.splits)
  qed
  show ?thesis
    using refused a b assms by (auto simp: resume_opened_def Let_def split: prod.splits sum.splits option.splits)
qed

lemma PumpResume_handle:
  assumes "ak_Handle k \<noteq> None"
  shows "ak_Handle (fst (snd (PumpResume S now out scratch (k, s)))) \<noteq> None"
proof -
  obtain r f where n: "fs_Next (kb_Frames k) = (r, f)" by fastforce
  show ?thesis
  proof (cases "\<exists>v. r = Inr (Some v)")
    case False
    with n assms show ?thesis by (auto simp: PumpResume_def ak_Refuse_connection split: sum.splits option.splits)
  next
    case True
    then obtain v where v: "r = Inr (Some v)" by blast
    obtain o' used k1 where o: "open_resume S v scratch (k\<lparr>kb_Frames := f\<rparr>) = ((o', used), k1)" by (metis prod.exhaust)
    then have "ak_Handle k1 \<noteq> None" using open_resume_keeps [OF o] assms by simp
    with n v o resume_opened_handle show ?thesis by (auto simp: PumpResume_def ak_Refuse_connection split: sum.splits)
  qed
qed

lemma handle_stays:
  assumes "agent_wf k" "ak_Handle k \<noteq> None"
  shows "ak_Handle (fst (agent_apply S op (k, s))) \<noteq> None"
proof (cases op)
  case (APump now out scratch)
  have await: "ak_Handle (fst (snd (PumpAwaitSnapshot S now out scratch (k, s)))) = ak_Handle k"
    using PumpAwaitSnapshot_keeps [of S now out scratch k s] by (metis prod.collapse)
  obtain k1 s1 where q: "QueueEnd (k, s) = (k1, s1)" by fastforce
  obtain r k2 s2 where l: "agent_live S now out scratch (k1, s1) = (r, k2, s2)" by (metis prod_cases3)
  have "ak_Handle k2 = ak_Handle k" using agent_live_keeps(2) [OF l] QueueEnd_keeps(4) [of k s] q by simp
  then have live: "ak_Handle (fst (snd (pump_live_stage S now out scratch (k, s)))) = ak_Handle k"
    unfolding pump_live_stage_def prod.case q l Let_def
    by (auto simp: report_resized_connection ak_Refuse_connection split: option.splits)
  show ?thesis
  proof (cases "kb_Failed k")
    case None
    with assms have "ak_Stage k \<in> {AwaitResume, AwaitSnapshot, ALive}" by (auto simp: agent_wf_def stage_wf_def split: EAgentStage.splits)
    then show ?thesis
      using assms(2) await live PumpResume_handle [OF assms(2), of S now out scratch s]
      by (auto simp: APump ak_Pump_def None current_or_refuse_def ak_Refuse_connection split: sum.splits option.splits)
  qed (use assms(2) in \<open>auto simp: APump ak_Pump_def\<close>)
next
  case (AOnBytes chunk)
  then show ?thesis using assms(2) by (auto simp: OnBytes_def kb_Fail_def split: option.splits prod.splits sum.splits)
next
  case (ASupplySnapshot now snapshot scrollbackLen flags)
  then show ?thesis using assms(2) QueueEnd_keeps(4)
    by (auto simp: SupplySnapshot_def Let_def split: EAgentStage.splits option.splits)
qed (use assms(2) in \<open>auto simp: Route_def RouteUnknown_def ak_Close_def kb_SetReadGate_def kb_SetSendGate_def\<close>)

lemma run_inputs [simp]:
  "peer_input ((others, op) # ops) = op_input op @ peer_input ops" "routed_nonces ((others, op) # ops) = op_nonces op @ routed_nonces ops"
  by (simp_all add: peer_input_def routed_nonces_def op_input_def op_nonces_def)

lemma unadmitted_apply:
  assumes "unadmitted S key nonces input (k, s)"
  shows "unadmitted S key (nonces @ op_nonces op) (input @ op_input op) (agent_apply S op (k, s))"
proof -
  have wf: "agent_wf k" and wf': "agent_wf (fst (agent_apply S op (k, s)))"
    using assms agent_wf_apply [of k S op s] by (simp_all add: unadmitted_def)
  show ?thesis
  proof (cases "ak_Handle k = None")
    case True
    have "gs_Auth s = key" using assms True by (simp add: unadmitted_def)
    with apply_step [OF assms True, of op] wf' show ?thesis by (auto simp: unadmitted_def held_off_def admission_def)
  next
    case False
    then show ?thesis using handle_stays [OF wf False, of S op s] wf' by (auto simp: unadmitted_def)
  qed
qed

lemma unadmitted_run:
  assumes "unadmitted S key nonces input ks" "\<forall>(others, op)\<in>set ops. \<forall>s. gs_Auth (others s) = gs_Auth s"
  shows "unadmitted S key (nonces @ routed_nonces ops) (input @ peer_input ops) (agent_run S ops ks)"
  using assms
proof (induction S ops ks arbitrary: nonces input rule: agent_run.induct)
  case (2 S others op ops k s)
  have "unadmitted S key nonces input (k, others s)" using "2.prems" by (auto simp: unadmitted_def)
  from "2.IH" [OF unadmitted_apply [OF this, of op]] "2.prems"(2) show ?case by simp
qed simp

lemma unadmitted_mk: "unadmitted S (gs_Auth s) [] [] (mk_AgentConnection frameStorage now ceiling, s)"
  by (simp add: unadmitted_def agent_wf_mk) (simp add: mk_AgentConnection_def pre_auth_def mk_FrameStream_ok held_mk_FrameStream)

end
