(* ===== verification/Session_Bootstrap.thy ===== *)
theory Session_Bootstrap
  imports Session_Channel Wire_Armor
begin

text \<open>
  \<^verbatim>\<open>src/session/bootstrap.cpp\<close>: the exchange over ssh that creates a session. The client writes an armored
  Offer to the agent's standard input, the agent answers with an armored Accept among whatever else its
  standard output carries.

  The closure each end gives to \<open>Scan\<close> is the argument \<open>consider\<close>, a step on the state of that end; the
  scanner inside the state is reached through a pair of functions, since the loop is shared. The loop
  ends because a scanner never leaves a chunk untouched.

  Lemmas: an Offer and the Accept that answers it leave both ends with the same secrets, version and
  settings; an Accept that does not echo the client's nonce is counted and ignored.
\<close>

definition BOOTSTRAP_OFFER_SIZE :: nat where [size_defs]:
  "BOOTSTRAP_OFFER_SIZE = 1 + 2 * 2 + PUBLIC_KEY_SIZE + BOOTSTRAP_NONCE_SIZE + 1 +
     MAX_BOOTSTRAP_ENV * (2 * 1 + MAX_ENV_NAME + MAX_ENV_VALUE)"

definition BOOTSTRAP_ACCEPT_SIZE :: nat where [size_defs]:
  "BOOTSTRAP_ACCEPT_SIZE = 1 + 2 + PUBLIC_KEY_SIZE + 2 * BOOTSTRAP_NONCE_SIZE + 2 + 4"

definition BOOTSTRAP_OFFER_TEXT_SIZE :: nat where
  "BOOTSTRAP_OFFER_TEXT_SIZE = ArmoredSize (HEADER_SIZE + BOOTSTRAP_OFFER_SIZE)"

definition BOOTSTRAP_ACCEPT_TEXT_SIZE :: nat where
  "BOOTSTRAP_ACCEPT_TEXT_SIZE = ArmoredSize (HEADER_SIZE + BOOTSTRAP_ACCEPT_SIZE)"

record BootstrapResult =
  br_Secrets :: SessionSecrets
  br_Version :: u16
  br_Port :: u16
  br_OrphanTimeoutSeconds :: u32
  br_Environment :: BootstrapEnvironment

record BootstrapStep =
  bs_Consumed :: nat
  bs_Result :: "BootstrapResult option"

subsection \<open>Helpers\<close>

definition WriteArmoredMessage :: "nat \<Rightarrow> writer \<Rightarrow> bytes \<Rightarrow> (nat \<times> bytes) proto_result" where
  "WriteArmoredMessage maxBodySize write_body out =
     (case write_body (mk_writer (replicate maxBodySize 0)) of
        (Inl e, _) \<Rightarrow> Inl e
      | (Inr _, body) \<Rightarrow>
          case WriteFrameHeader \<lparr>fh_Length = of_nat (length (Written body)), fh_Epoch = CLEARTEXT_EPOCH\<rparr>
                 (mk_writer (replicate HEADER_SIZE 0)) of
            (Inl e, _) \<Rightarrow> Inl e
          | (Inr _, head) \<Rightarrow> WriteArmor (wr_Out head @ Written body) out)"

definition FrameBody :: "bytes \<Rightarrow> bytes option" where
  "FrameBody block =
     (case ReadFrame block (of_nat MAX_HANDSHAKE_FRAME) of
        Inl _ \<Rightarrow> None
      | Inr frame \<Rightarrow>
          if fv_Consumed frame \<noteq> length block \<or> fh_Epoch (fv_Header frame) \<noteq> CLEARTEXT_EPOCH then None
          else Some (fv_Body frame))"

definition PickVersion :: "u16 \<Rightarrow> u16 \<Rightarrow> u16 option" where
  "PickVersion peerMin peerMax =
     (let high = min peerMax PROTOCOL_VERSION_MAX; low = max peerMin PROTOCOL_VERSION_MIN in
      if low > high then None else Some high)"

lemma armor_loop_consumes: "n < ar_Consumed (fst (armor_loop n (c # cs) s))"
proof (induction cs arbitrary: n c s)
  case Nil
  then show ?case by (auto simp: Let_def split: option.splits)
next
  case (Cons d cs)
  have "n < ar_Consumed (fst (armor_loop (n + 1) (d # cs) s'))" for s'
    using Cons.IH [of "n + 1" d s'] by simp
  then show ?case by (subst armor_loop.simps(2)) (auto simp: Let_def simp del: armor_loop.simps(2) split: option.splits)
qed

lemma Armor_Feed_consumes: "chunk \<noteq> [] \<Longrightarrow> 0 < ar_Consumed (fst (Armor_Feed chunk s))"
  unfolding Armor_Feed_def by (cases chunk) (simp_all only: armor_loop_consumes, simp)

lemma Armor_Feed_progress: "Armor_Feed chunk s = (scan, s') \<Longrightarrow> chunk \<noteq> [] \<Longrightarrow> 0 < ar_Consumed scan"
  using Armor_Feed_consumes [of chunk s] by simp

text \<open>The loop of \<open>Scan\<close>. \<open>get\<close> and \<open>set_scanner\<close> reach the scanner in the state of either end.\<close>

function Scan ::
  "('s \<Rightarrow> ArmorScanner) \<Rightarrow> (ArmorScanner \<Rightarrow> 's \<Rightarrow> 's) \<Rightarrow> (bytes \<Rightarrow> (SessionError, 's, BootstrapResult option) sm) \<Rightarrow>
   nat \<Rightarrow> bytes \<Rightarrow> (SessionError, 's, BootstrapStep) sm" where
  "Scan get set_scanner consider consumed chunk s =
     (if consumed \<ge> length chunk then (Inr \<lparr>bs_Consumed = consumed, bs_Result = None\<rparr>, s)
      else case Armor_Feed (drop consumed chunk) (get s) of
        (scan, scanner) \<Rightarrow>
          let consumed' = consumed + ar_Consumed scan; s1 = set_scanner scanner s in
          case ar_Block scan of
            None \<Rightarrow> Scan get set_scanner consider consumed' chunk s1
          | Some block \<Rightarrow>
              (case consider block s1 of
                 (Inl e, s2) \<Rightarrow> (Inl e, s2)
               | (Inr (Some r), s2) \<Rightarrow> (Inr \<lparr>bs_Consumed = consumed', bs_Result = Some r\<rparr>, s2)
               | (Inr None, s2) \<Rightarrow> Scan get set_scanner consider consumed' chunk s2))"
  by pat_completeness auto

termination Scan
  by (relation "measure (\<lambda>(get, set_scanner, consider, consumed, chunk, s). length chunk - consumed)")
    (auto dest!: Armor_Feed_progress [OF sym])

declare Scan.simps [simp del]

subsection \<open>BootstrapClient\<close>

record BootstrapClient =
  bc_Keys :: KeyPair
  bc_Nonce :: bytes
  bc_Environment :: BootstrapEnvironment
  bc_Scanner :: ArmorScanner
  bc_Ignored :: u64
  bc_Done :: bool

definition mk_BootstrapClient :: "sodium \<Rightarrow> Key \<Rightarrow> bytes \<Rightarrow> BootstrapEnvironment \<Rightarrow> BootstrapClient" where
  "mk_BootstrapClient S seed nonce environment =
     \<lparr>bc_Keys = KeyPairFromSeed S seed, bc_Nonce = nonce, bc_Environment = environment,
      bc_Scanner = mk_ArmorScanner, bc_Ignored = 0, bc_Done = False\<rparr>"

definition client_offer :: "BootstrapClient \<Rightarrow> BootstrapOfferMessage" where
  "client_offer b =
     \<lparr>bo_VersionMin = PROTOCOL_VERSION_MIN, bo_VersionMax = PROTOCOL_VERSION_MAX, bo_ClientKey = kp_Public (bc_Keys b),
      bo_ClientNonce = bc_Nonce b, bo_Environment = bc_Environment b\<rparr>"

definition WriteOffer :: "BootstrapClient \<Rightarrow> bytes \<Rightarrow> (nat \<times> bytes) proto_result" where
  "WriteOffer b out = WriteArmoredMessage BOOTSTRAP_OFFER_SIZE (WriteBootstrapOffer (client_offer b)) out"

definition bc_Consider :: "sodium \<Rightarrow> bytes \<Rightarrow> (SessionError, BootstrapClient, BootstrapResult option) sm" where
  "bc_Consider S frame b =
     (let ignore = (Inr None, b\<lparr>bc_Ignored := bc_Ignored b + 1\<rparr>) in
      case FrameBody frame of
        None \<Rightarrow> ignore
      | Some body \<Rightarrow>
          case ParseMessageType (mk_reader body) of
            (Inl _, _) \<Rightarrow> ignore
          | (Inr type, reader) \<Rightarrow>
              if type \<noteq> BootstrapAccept then ignore
              else case fst (ParseBootstrapAccept reader) of
                Inl _ \<Rightarrow> ignore
              | Inr accept \<Rightarrow>
                  if ba_ClientNonce accept \<noteq> bc_Nonce b then ignore
                  else if ba_Version accept < PROTOCOL_VERSION_MIN \<or> ba_Version accept > PROTOCOL_VERSION_MAX
                  then (Inl (ProtoErr VersionMismatch), b)
                  else case DeriveClientKeys S (bc_Keys b) (ba_AgentKey accept) of
                    Inl e \<Rightarrow> (Inl (ProtoErr e), b)
                  | Inr exchanged \<Rightarrow>
                      let master = DeriveBootstrapMaster S (sk_Transmit exchanged) (ba_Version accept) (bc_Nonce b)
                                     (ba_AgentNonce accept)
                      in (Inr (Some \<lparr>br_Secrets = DeriveSessionSecrets S master, br_Version = ba_Version accept,
                            br_Port = ba_Port accept, br_OrphanTimeoutSeconds = ba_OrphanTimeoutSeconds accept,
                            br_Environment = bc_Environment b\<rparr>), b))"

definition bc_Feed :: "sodium \<Rightarrow> bytes \<Rightarrow> (SessionError, BootstrapClient, BootstrapStep) sm" where
  "bc_Feed S chunk b =
     (if bc_Done b then (Inr \<lparr>bs_Consumed = 0, bs_Result = None\<rparr>, b)
      else case Scan bc_Scanner (\<lambda>sc b. b\<lparr>bc_Scanner := sc\<rparr>) (bc_Consider S) 0 chunk b of
        (Inl e, b') \<Rightarrow> (Inl e, b')
      | (Inr step, b') \<Rightarrow> (Inr step, if bs_Result step \<noteq> None then b'\<lparr>bc_Done := True\<rparr> else b'))"

subsection \<open>BootstrapAgent\<close>

record BootstrapAgent =
  bg_Keys :: KeyPair
  bg_Nonce :: bytes
  bg_Port :: u16
  bg_OrphanTimeoutSeconds :: u32
  bg_Scanner :: ArmorScanner
  bg_Accept :: "BootstrapAcceptMessage option"
  bg_Ignored :: u64

definition mk_BootstrapAgent :: "sodium \<Rightarrow> Key \<Rightarrow> bytes \<Rightarrow> u16 \<Rightarrow> u32 \<Rightarrow> BootstrapAgent" where
  "mk_BootstrapAgent S seed nonce port orphanTimeoutSeconds =
     \<lparr>bg_Keys = KeyPairFromSeed S seed, bg_Nonce = nonce, bg_Port = port,
      bg_OrphanTimeoutSeconds = orphanTimeoutSeconds, bg_Scanner = mk_ArmorScanner, bg_Accept = None, bg_Ignored = 0\<rparr>"

definition bg_Consider :: "sodium \<Rightarrow> bytes \<Rightarrow> (SessionError, BootstrapAgent, BootstrapResult option) sm" where
  "bg_Consider S frame g =
     (let ignore = (Inr None, g\<lparr>bg_Ignored := bg_Ignored g + 1\<rparr>) in
      case FrameBody frame of
        None \<Rightarrow> ignore
      | Some body \<Rightarrow>
          case ParseMessageType (mk_reader body) of
            (Inl _, _) \<Rightarrow> ignore
          | (Inr type, reader) \<Rightarrow>
              if type \<noteq> BootstrapOffer then ignore
              else case fst (ParseBootstrapOffer reader) of
                Inl e \<Rightarrow> (Inl (ProtoErr e), g)
              | Inr offer \<Rightarrow>
                  case PickVersion (bo_VersionMin offer) (bo_VersionMax offer) of
                    None \<Rightarrow> (Inl (ProtoErr VersionMismatch), g)
                  | Some version \<Rightarrow>
                      case DeriveServerKeys S (bg_Keys g) (bo_ClientKey offer) of
                        Inl e \<Rightarrow> (Inl (ProtoErr e), g)
                      | Inr exchanged \<Rightarrow>
                          let master = DeriveBootstrapMaster S (sk_Receive exchanged) version (bo_ClientNonce offer) (bg_Nonce g);
                              accept = \<lparr>ba_Version = version, ba_AgentKey = kp_Public (bg_Keys g),
                                ba_ClientNonce = bo_ClientNonce offer, ba_AgentNonce = bg_Nonce g, ba_Port = bg_Port g,
                                ba_OrphanTimeoutSeconds = bg_OrphanTimeoutSeconds g\<rparr>
                          in (Inr (Some \<lparr>br_Secrets = DeriveSessionSecrets S master, br_Version = version,
                                br_Port = bg_Port g, br_OrphanTimeoutSeconds = bg_OrphanTimeoutSeconds g,
                                br_Environment = bo_Environment offer\<rparr>),
                              g\<lparr>bg_Accept := Some accept\<rparr>))"

definition bg_Feed :: "sodium \<Rightarrow> bytes \<Rightarrow> (SessionError, BootstrapAgent, BootstrapStep) sm" where
  "bg_Feed S chunk g =
     (if bg_Accept g \<noteq> None then (Inr \<lparr>bs_Consumed = 0, bs_Result = None\<rparr>, g)
      else Scan bg_Scanner (\<lambda>sc g. g\<lparr>bg_Scanner := sc\<rparr>) (bg_Consider S) 0 chunk g)"

definition AnnouncePort :: "u16 \<Rightarrow> BootstrapAgent \<Rightarrow> BootstrapAgent" where
  "AnnouncePort port g =
     g\<lparr>bg_Port := port, bg_Accept := map_option (\<lambda>a. a\<lparr>ba_Port := port\<rparr>) (bg_Accept g)\<rparr>"

definition bg_WriteAccept :: "BootstrapAgent \<Rightarrow> bytes \<Rightarrow> (nat \<times> bytes) proto_result" where
  "bg_WriteAccept g out =
     (case bg_Accept g of
        None \<Rightarrow> Inl UnexpectedMessage
      | Some accept \<Rightarrow> WriteArmoredMessage BOOTSTRAP_ACCEPT_SIZE (WriteBootstrapAccept accept) out)"

subsection \<open>One armored message\<close>

text \<open>The frame around a message, and that the room the header files reserve is enough.\<close>

definition message_frame :: "bytes \<Rightarrow> bytes" where
  "message_frame m = frame_bytes \<lparr>fh_Length = of_nat (length m), fh_Epoch = CLEARTEXT_EPOCH\<rparr> m"

lemma length_message_frame: "length (message_frame m) = HEADER_SIZE + length m"
  by (simp add: message_frame_def frame_bytes_def)

lemma FrameBody_message_frame:
  assumes "m \<noteq> []" "length m \<le> MAX_HANDSHAKE_FRAME"
  shows "FrameBody (message_frame m) = Some m"
proof -
  let ?h = "\<lparr>fh_Length = of_nat (length m), fh_Epoch = CLEARTEXT_EPOCH\<rparr> :: FrameHeader"
  have un: "unat (of_nat (length m) :: u32) = length m"
    using assms(2) by (intro unat_of_nat_small) (simp add: size_defs)
  have "ReadFrame (header_bytes ?h @ m) (of_nat MAX_HANDSHAKE_FRAME) =
      Inr \<lparr>fv_Header = ?h, fv_Body = m, fv_Consumed = HEADER_SIZE + length m\<rparr>"
    unfolding ReadFrame_header using un assms
    by (simp add: word_less_nat_alt word_unat_eq_iff size_defs)
  then show ?thesis by (simp add: FrameBody_def message_frame_def frame_bytes_def)
qed

lemma WriteArmoredMessage_ok:
  assumes "writes write_body m" "length m \<le> maxBodySize" "HEADER_SIZE + maxBodySize \<le> MAX_ARMORED_FRAME"
    and "ArmoredSize (length (message_frame m)) \<le> length out"
  shows "WriteArmoredMessage maxBodySize write_body out =
    Inr (ArmoredSize (length (message_frame m)), armor_block (message_frame m) @ drop (ArmoredSize (length (message_frame m))) out)"
proof -
  obtain w where w: "write_body (mk_writer (replicate maxBodySize 0)) = (Inr (), w)" "Written w = m"
    using write_mk [OF assms(1), of "replicate maxBodySize 0"] assms(2) by auto
  let ?h = "\<lparr>fh_Length = of_nat (length m), fh_Epoch = CLEARTEXT_EPOCH\<rparr> :: FrameHeader"
  obtain hw where hw: "WriteFrameHeader ?h (mk_writer (replicate HEADER_SIZE 0)) = (Inr (), hw)" "Written hw = header_bytes ?h"
    using write_mk [OF writes_WriteFrameHeader, of ?h "replicate HEADER_SIZE 0"] by auto
  have "wr_Out hw = header_bytes ?h" using header_written [of ?h] hw(1) by simp
  then have "WriteArmoredMessage maxBodySize write_body out = WriteArmor (message_frame m) out"
    by (simp add: WriteArmoredMessage_def w hw message_frame_def frame_bytes_def)
  with WriteArmor_spec [of "message_frame m" out] assms(2,3,4) show ?thesis by (simp add: length_message_frame)
qed

text \<open>A scanner that will find the next block: its buffer is whole and it does not stand at an end marker.\<close>

definition scanner_ready :: "ArmorScanner \<Rightarrow> bool" where
  "scanner_ready s \<longleftrightarrow> length (as_Decoded s) = MAX_ARMORED_FRAME \<and>
     \<not> (as_InBlock s \<and> \<not> as_LineTooLong s \<and> strip_return (as_Line s) = ARMOR_END)"

lemma scanner_ready_mk: "scanner_ready mk_ArmorScanner"
  by (simp add: scanner_ready_def mk_ArmorScanner_def)

lemma Scan_block:
  assumes "scanner_ready (get s)" "length frame \<le> MAX_ARMORED_FRAME"
  shows "\<exists>sc. scanner_ready sc \<and> (\<forall>r s2. consider frame (set_scanner sc s) = (Inr (Some r), s2) \<longrightarrow>
    Scan get set_scanner consider 0 (armor_block frame @ t) s =
      (Inr \<lparr>bs_Consumed = ArmoredSize (length frame), bs_Result = Some r\<rparr>, s2))"
proof -
  obtain sc where sc: "Armor_Feed (armor_block frame @ t) (get s) =
      (\<lparr>ar_Consumed = ArmoredSize (length frame), ar_Block = Some frame\<rparr>, sc)"
    "length (as_Decoded sc) = MAX_ARMORED_FRAME" "\<not> as_InBlock sc"
    using Armor_Feed_block [of "get s" frame t] assms by (auto simp: scanner_ready_def)
  have "0 < length (armor_block frame)" by (simp add: length_armor_block ArmoredSize_def Let_def)
  then have "armor_block frame \<noteq> []" by auto
  then show ?thesis using sc by (intro exI [of _ sc]) (auto simp: scanner_ready_def Scan.simps)
qed

subsection \<open>Agreement\<close>

lemma length_env_bytes: "env_ok env \<Longrightarrow> length (env_bytes env) \<le> MAX_BOOTSTRAP_ENV * (2 * 1 + MAX_ENV_NAME + MAX_ENV_VALUE)"
proof -
  assume ok: "env_ok env"
  have "length (env_bytes env) \<le> length env * (2 * 1 + MAX_ENV_NAME + MAX_ENV_VALUE)"
    if "\<forall>v \<in> set env. length (env_Name v) \<le> MAX_ENV_NAME \<and> length (env_Value v) \<le> MAX_ENV_VALUE" for env
    using that by (induction env) (fastforce simp: env_bytes_def short_bytes_def)+
  then have "length (env_bytes env) \<le> length env * (2 * 1 + MAX_ENV_NAME + MAX_ENV_VALUE)"
    using ok by (simp add: env_ok_def)
  also have "\<dots> \<le> MAX_BOOTSTRAP_ENV * (2 * 1 + MAX_ENV_NAME + MAX_ENV_VALUE)"
    using ok by (intro mult_le_mono1) (simp add: env_ok_def)
  finally show ?thesis .
qed

lemma length_offer: "Offer_ok m \<Longrightarrow> length (type_code BootstrapOffer # Offer_body m) \<le> BOOTSTRAP_OFFER_SIZE"
  using length_env_bytes [of "bo_Environment m"]
  by (simp add: Offer_ok_def Offer_wf_def Offer_body_def BOOTSTRAP_OFFER_SIZE_def del: type_code.simps)

lemma length_accept: "Accept_ok m \<Longrightarrow> length (type_code BootstrapAccept # Accept_body m) = BOOTSTRAP_ACCEPT_SIZE"
  by (simp add: Accept_ok_def Accept_wf_def Accept_body_def BOOTSTRAP_ACCEPT_SIZE_def del: type_code.simps)

lemma ArmoredSize_mono: "a \<le> b \<Longrightarrow> ArmoredSize a \<le> ArmoredSize b"
  by (auto simp: ArmoredSize_def Let_def intro!: add_mono mult_le_mono1 div_le_mono diff_le_mono)

text \<open>What the agent makes of an honest Offer, and the client of the Accept that answers it.\<close>

lemma bg_Consider_offer:
  assumes "Offer_ok m" "PickVersion (bo_VersionMin m) (bo_VersionMax m) = Some version"
    and "DeriveServerKeys S (bg_Keys g) (bo_ClientKey m) = Inr exchanged"
  shows "bg_Consider S (message_frame (type_code BootstrapOffer # Offer_body m)) g =
    (Inr (Some \<lparr>br_Secrets = DeriveSessionSecrets S
          (DeriveBootstrapMaster S (sk_Receive exchanged) version (bo_ClientNonce m) (bg_Nonce g)),
        br_Version = version, br_Port = bg_Port g, br_OrphanTimeoutSeconds = bg_OrphanTimeoutSeconds g,
        br_Environment = bo_Environment m\<rparr>),
     g\<lparr>bg_Accept := Some \<lparr>ba_Version = version, ba_AgentKey = kp_Public (bg_Keys g), ba_ClientNonce = bo_ClientNonce m,
        ba_AgentNonce = bg_Nonce g, ba_Port = bg_Port g, ba_OrphanTimeoutSeconds = bg_OrphanTimeoutSeconds g\<rparr>\<rparr>)"
proof -
  have "length (type_code BootstrapOffer # Offer_body m) \<le> MAX_HANDSHAKE_FRAME"
    using length_offer [OF assms(1)] by (simp add: size_defs del: type_code.simps)
  then have "FrameBody (message_frame (type_code BootstrapOffer # Offer_body m)) = Some (type_code BootstrapOffer # Offer_body m)"
    by (intro FrameBody_message_frame) simp_all
  moreover have "fst (ParseBootstrapOffer (rd_at [type_code BootstrapOffer] (Offer_body m))) = Inr m"
    using offer.parse_ok [OF assms(1)] by (simp add: parses_all_def del: type_code.simps)
  ultimately show ?thesis
    by (simp add: bg_Consider_def parse_type assms(2,3) Let_def del: type_code.simps)
qed

lemma accept_read:
  assumes "Accept_ok m"
  shows "FrameBody (message_frame (type_code BootstrapAccept # Accept_body m)) = Some (type_code BootstrapAccept # Accept_body m)"
    and "fst (ParseBootstrapAccept (rd_at [type_code BootstrapAccept] (Accept_body m))) = Inr m"
proof -
  have "length (type_code BootstrapAccept # Accept_body m) \<le> MAX_HANDSHAKE_FRAME"
    using length_accept [OF assms(1)] by (simp add: size_defs del: type_code.simps)
  then show "FrameBody (message_frame (type_code BootstrapAccept # Accept_body m)) = Some (type_code BootstrapAccept # Accept_body m)"
    by (intro FrameBody_message_frame) simp_all
  show "fst (ParseBootstrapAccept (rd_at [type_code BootstrapAccept] (Accept_body m))) = Inr m"
    using accept.parse_ok [OF assms(1)] by (simp add: parses_all_def del: type_code.simps)
qed

lemma bc_Consider_accept:
  assumes "Accept_ok m" "ba_ClientNonce m = bc_Nonce b" "PROTOCOL_VERSION_MIN \<le> ba_Version m" "ba_Version m \<le> PROTOCOL_VERSION_MAX"
    and "DeriveClientKeys S (bc_Keys b) (ba_AgentKey m) = Inr exchanged"
  shows "bc_Consider S (message_frame (type_code BootstrapAccept # Accept_body m)) b =
    (Inr (Some \<lparr>br_Secrets = DeriveSessionSecrets S
          (DeriveBootstrapMaster S (sk_Transmit exchanged) (ba_Version m) (bc_Nonce b) (ba_AgentNonce m)),
        br_Version = ba_Version m, br_Port = ba_Port m, br_OrphanTimeoutSeconds = ba_OrphanTimeoutSeconds m,
        br_Environment = bc_Environment b\<rparr>), b)"
  using accept_read [OF assms(1)] assms(2,3,4)
  by (simp add: bc_Consider_def parse_type assms(5) Let_def not_less del: type_code.simps)

text \<open>An Accept of another run is noise.\<close>

lemma bc_Consider_foreign:
  assumes "Accept_ok m" "ba_ClientNonce m \<noteq> bc_Nonce b"
  shows "bc_Consider S (message_frame (type_code BootstrapAccept # Accept_body m)) b =
    (Inr None, b\<lparr>bc_Ignored := bc_Ignored b + 1\<rparr>)"
  using accept_read [OF assms(1)] assms(2) by (simp add: bc_Consider_def parse_type Let_def del: type_code.simps)

lemma bg_Feed_offer:
  assumes "Offer_ok m" "PickVersion (bo_VersionMin m) (bo_VersionMax m) = Some version"
    and "DeriveServerKeys S (bg_Keys g) (bo_ClientKey m) = Inr exchanged"
    and "scanner_ready (bg_Scanner g)" "bg_Accept g = None"
  shows "\<exists>sc. scanner_ready sc \<and>
    bg_Feed S (armor_block (message_frame (type_code BootstrapOffer # Offer_body m)) @ t) g =
     (Inr \<lparr>bs_Consumed = ArmoredSize (length (message_frame (type_code BootstrapOffer # Offer_body m))),
       bs_Result = Some \<lparr>br_Secrets = DeriveSessionSecrets S
          (DeriveBootstrapMaster S (sk_Receive exchanged) version (bo_ClientNonce m) (bg_Nonce g)),
        br_Version = version, br_Port = bg_Port g, br_OrphanTimeoutSeconds = bg_OrphanTimeoutSeconds g,
        br_Environment = bo_Environment m\<rparr>\<rparr>,
     g\<lparr>bg_Scanner := sc, bg_Accept := Some \<lparr>ba_Version = version, ba_AgentKey = kp_Public (bg_Keys g),
        ba_ClientNonce = bo_ClientNonce m, ba_AgentNonce = bg_Nonce g, ba_Port = bg_Port g,
        ba_OrphanTimeoutSeconds = bg_OrphanTimeoutSeconds g\<rparr>\<rparr>)"
proof -
  let ?frame = "message_frame (type_code BootstrapOffer # Offer_body m)"
  have len: "length ?frame \<le> MAX_ARMORED_FRAME"
    using length_offer [OF assms(1)] by (simp add: length_message_frame size_defs del: type_code.simps)
  obtain sc where "scanner_ready sc" and sc: "\<forall>r s2. bg_Consider S ?frame (g\<lparr>bg_Scanner := sc\<rparr>) = (Inr (Some r), s2) \<longrightarrow>
      Scan bg_Scanner (\<lambda>sc g. g\<lparr>bg_Scanner := sc\<rparr>) (bg_Consider S) 0 (armor_block ?frame @ t) g =
        (Inr \<lparr>bs_Consumed = ArmoredSize (length ?frame), bs_Result = Some r\<rparr>, s2)"
    using Scan_block [of bg_Scanner g ?frame "bg_Consider S" "\<lambda>sc g. g\<lparr>bg_Scanner := sc\<rparr>" t] assms(4) len by blast
  then show ?thesis
    using bg_Consider_offer [of m version S "g\<lparr>bg_Scanner := sc\<rparr>" exchanged] assms(1,2,3,5)
    by (intro exI [of _ sc]) (simp add: bg_Feed_def del: type_code.simps)
qed

lemma bc_Feed_accept:
  assumes "Accept_ok m" "ba_ClientNonce m = bc_Nonce b" "PROTOCOL_VERSION_MIN \<le> ba_Version m" "ba_Version m \<le> PROTOCOL_VERSION_MAX"
    and "DeriveClientKeys S (bc_Keys b) (ba_AgentKey m) = Inr exchanged"
    and "scanner_ready (bc_Scanner b)" "\<not> bc_Done b"
  shows "\<exists>sc. scanner_ready sc \<and>
    bc_Feed S (armor_block (message_frame (type_code BootstrapAccept # Accept_body m)) @ t) b =
     (Inr \<lparr>bs_Consumed = ArmoredSize (length (message_frame (type_code BootstrapAccept # Accept_body m))),
       bs_Result = Some \<lparr>br_Secrets = DeriveSessionSecrets S
          (DeriveBootstrapMaster S (sk_Transmit exchanged) (ba_Version m) (bc_Nonce b) (ba_AgentNonce m)),
        br_Version = ba_Version m, br_Port = ba_Port m, br_OrphanTimeoutSeconds = ba_OrphanTimeoutSeconds m,
        br_Environment = bc_Environment b\<rparr>\<rparr>, b\<lparr>bc_Scanner := sc, bc_Done := True\<rparr>)"
proof -
  let ?frame = "message_frame (type_code BootstrapAccept # Accept_body m)"
  have len: "length ?frame \<le> MAX_ARMORED_FRAME"
    using length_accept [OF assms(1)] by (simp add: length_message_frame size_defs del: type_code.simps)
  obtain sc where "scanner_ready sc" and sc: "\<forall>r s2. bc_Consider S ?frame (b\<lparr>bc_Scanner := sc\<rparr>) = (Inr (Some r), s2) \<longrightarrow>
      Scan bc_Scanner (\<lambda>sc b. b\<lparr>bc_Scanner := sc\<rparr>) (bc_Consider S) 0 (armor_block ?frame @ t) b =
        (Inr \<lparr>bs_Consumed = ArmoredSize (length ?frame), bs_Result = Some r\<rparr>, s2)"
    using Scan_block [of bc_Scanner b ?frame "bc_Consider S" "\<lambda>sc b. b\<lparr>bc_Scanner := sc\<rparr>" t] assms(6) len by blast
  then show ?thesis
    using bc_Consider_accept [of m "b\<lparr>bc_Scanner := sc\<rparr>" S exchanged] assms(1-5,7)
    by (intro exI [of _ sc]) (simp add: bc_Feed_def del: type_code.simps)
qed

text \<open>Both ends of a key exchange.\<close>

lemma exchange_agrees:
  assumes "kx_correct S"
  shows "\<exists>c g. DeriveClientKeys S (KeyPairFromSeed S cseed) (kp_Public (KeyPairFromSeed S gseed)) = Inr c \<and>
    DeriveServerKeys S (KeyPairFromSeed S gseed) (kp_Public (KeyPairFromSeed S cseed)) = Inr g \<and>
    sk_Transmit c = sk_Receive g"
proof -
  obtain cpk csk where c: "kx_seed_keypair S cseed = (cpk, csk)" by (cases "kx_seed_keypair S cseed")
  obtain spk ssk where g: "kx_seed_keypair S gseed = (spk, ssk)" by (cases "kx_seed_keypair S gseed")
  obtain rx tx where "kx_client_session_keys S cpk csk spk = Some (rx, tx)" "kx_server_session_keys S spk ssk cpk = Some (tx, rx)"
    using assms [unfolded kx_correct_def, rule_format, of cseed gseed] by (auto simp: c g)
  then show ?thesis by (simp add: KeyPairFromSeed_def c g DeriveClientKeys_def DeriveServerKeys_def)
qed

lemma bootstrap_run:
  assumes S: "kx_correct S" "widths_correct S"
    and b: "bc_Keys b = KeyPairFromSeed S cseed" "length (bc_Nonce b) = BOOTSTRAP_NONCE_SIZE" "env_ok (bc_Environment b)"
      "scanner_ready (bc_Scanner b)" "\<not> bc_Done b"
    and g: "bg_Keys g = KeyPairFromSeed S gseed" "length (bg_Nonce g) = BOOTSTRAP_NONCE_SIZE" "bg_Port g \<noteq> 0"
      "scanner_ready (bg_Scanner g)" "bg_Accept g = None"
    and room: "BOOTSTRAP_OFFER_TEXT_SIZE \<le> length out1" "BOOTSTRAP_ACCEPT_TEXT_SIZE \<le> length out2"
  shows "\<exists>n1 o1 n2 o2 r g' b'. WriteOffer b out1 = Inr (n1, o1) \<and>
    bg_Feed S (take n1 o1 @ t) g = (Inr \<lparr>bs_Consumed = n1, bs_Result = Some r\<rparr>, g') \<and>
    bg_WriteAccept g' out2 = Inr (n2, o2) \<and>
    bc_Feed S (take n2 o2 @ u) b = (Inr \<lparr>bs_Consumed = n2, bs_Result = Some r\<rparr>, b') \<and>
    br_Version r = PROTOCOL_VERSION_MAX \<and> br_Port r = bg_Port g \<and> br_Environment r = bc_Environment b \<and> bc_Done b'"
proof -
  let ?m = "client_offer b" and ?V = PROTOCOL_VERSION_MAX
  have pk: "length (kp_Public (KeyPairFromSeed S s)) = PUBLIC_KEY_SIZE" for s
    using S(2) by (cases "kx_seed_keypair S s") (auto simp: widths_correct_def KeyPairFromSeed_def dest: spec [of _ s])
  have ok: "Offer_ok ?m"
    using b pk by (simp add: Offer_ok_def Offer_wf_def client_offer_def PROTOCOL_VERSION_MIN_def PROTOCOL_VERSION_MAX_def)
  have ver: "PickVersion (bo_VersionMin ?m) (bo_VersionMax ?m) = Some ?V"
    by (simp add: PickVersion_def client_offer_def PROTOCOL_VERSION_MIN_def PROTOCOL_VERSION_MAX_def Let_def)
  obtain kc kg where k: "DeriveClientKeys S (bc_Keys b) (kp_Public (bg_Keys g)) = Inr kc"
    "DeriveServerKeys S (bg_Keys g) (bo_ClientKey ?m) = Inr kg" "sk_Transmit kc = sk_Receive kg"
    using exchange_agrees [OF S(1), of cseed gseed] b(1) g(1) by (auto simp: client_offer_def)
  let ?of = "message_frame (type_code BootstrapOffer # Offer_body ?m)"
  define a where "a = \<lparr>ba_Version = ?V, ba_AgentKey = kp_Public (bg_Keys g), ba_ClientNonce = bo_ClientNonce ?m,
        ba_AgentNonce = bg_Nonce g, ba_Port = bg_Port g, ba_OrphanTimeoutSeconds = bg_OrphanTimeoutSeconds g\<rparr>"
  let ?af = "message_frame (type_code BootstrapAccept # Accept_body a)"
  have "ArmoredSize (length ?of) \<le> length out1"
    using room(1) length_offer [OF ok] ArmoredSize_mono [of "length ?of" "HEADER_SIZE + BOOTSTRAP_OFFER_SIZE"]
    by (simp add: BOOTSTRAP_OFFER_TEXT_SIZE_def length_message_frame del: type_code.simps)
  then have w1: "WriteOffer b out1 = Inr (ArmoredSize (length ?of), armor_block ?of @ drop (ArmoredSize (length ?of)) out1)"
    unfolding WriteOffer_def using length_offer [OF ok]
    by (intro WriteArmoredMessage_ok offer.write_ok ok) (simp_all add: size_defs del: type_code.simps)
  have aok: "Accept_ok a" using b(2) g pk by (simp add: a_def Accept_ok_def Accept_wf_def client_offer_def)
  obtain sc where f1: "bg_Feed S (armor_block ?of @ t) g = (Inr \<lparr>bs_Consumed = ArmoredSize (length ?of),
       bs_Result = Some \<lparr>br_Secrets = DeriveSessionSecrets S (DeriveBootstrapMaster S (sk_Receive kg) ?V (bc_Nonce b) (bg_Nonce g)),
        br_Version = ?V, br_Port = bg_Port g, br_OrphanTimeoutSeconds = bg_OrphanTimeoutSeconds g,
        br_Environment = bc_Environment b\<rparr>\<rparr>, g\<lparr>bg_Scanner := sc, bg_Accept := Some a\<rparr>)"
    using bg_Feed_offer [OF ok ver k(2) g(4,5), of t] by (auto simp: a_def client_offer_def simp del: type_code.simps)
  have "ArmoredSize (length ?af) \<le> length out2"
    using room(2) length_accept [OF aok] by (simp add: BOOTSTRAP_ACCEPT_TEXT_SIZE_def length_message_frame del: type_code.simps)
  then have w2: "bg_WriteAccept (g\<lparr>bg_Scanner := sc, bg_Accept := Some a\<rparr>) out2 =
      Inr (ArmoredSize (length ?af), armor_block ?af @ drop (ArmoredSize (length ?af)) out2)"
    unfolding bg_WriteAccept_def using length_accept [OF aok] WriteArmoredMessage_ok [OF accept.write_ok [OF aok]]
    by (simp add: size_defs del: type_code.simps)
  obtain sc' where "bc_Feed S (armor_block ?af @ u) b = (Inr \<lparr>bs_Consumed = ArmoredSize (length ?af),
       bs_Result = Some \<lparr>br_Secrets = DeriveSessionSecrets S (DeriveBootstrapMaster S (sk_Receive kg) ?V (bc_Nonce b) (bg_Nonce g)),
        br_Version = ?V, br_Port = bg_Port g, br_OrphanTimeoutSeconds = bg_OrphanTimeoutSeconds g,
        br_Environment = bc_Environment b\<rparr>\<rparr>, b\<lparr>bc_Scanner := sc', bc_Done := True\<rparr>)"
    using bc_Feed_accept [OF aok, of b S kc u] b k(1,3)
    by (auto simp: a_def client_offer_def PROTOCOL_VERSION_MIN_def PROTOCOL_VERSION_MAX_def simp del: type_code.simps)
  with w1 f1 w2 show ?thesis by (simp add: length_armor_block del: type_code.simps)
qed

end
