(* ===== verification/Connection_Properties.thy ===== *)
theory Connection_Properties
  imports Session_Resume Session_Admission Session_Bootstrap Example_Sodium
begin

text \<open>
  What a connection promises: an honest reconnection goes through, nothing of a session can be changed
  before its key is proved or after a newer connection took over, the seeds of the two ends stay
  together, and the bootstrap gives both the same secret. Each property whose statement has hypotheses
  is followed by an instance in which they hold.
\<close>

subsection \<open>Reconnecting\<close>

definition example_secrets :: SessionSecrets where
  "example_secrets = \<lparr>ss_Id = replicate SESSION_ID_SIZE 1, ss_Registration = replicate KEY_SIZE 4, ss_Auth = replicate KEY_SIZE 2, ss_ConnectionSeed = replicate KEY_SIZE 3\<rparr>"

definition example_streams :: SessionStreams where
  "example_streams = \<lparr>st_Storage = replicate 8 0, st_Now = 0, st_Limits = default_limits\<rparr>"

lemma example_resumable:
  "resumable S (mk_ClientSession example_secrets example_streams) (mk_AgentSession example_secrets example_streams)
     (replicate HANDSHAKE_NONCE_SIZE 7) (replicate HANDSHAKE_NONCE_SIZE 9)"
proof -
  have "stream_state_ok (mk_StreamState example_streams ov ack)" for ov ack
    by (rule mk_StreamState_ok) (simp add: example_streams_def)
  then show ?thesis
    unfolding resumable_def seed_used_def
    by (simp add: mk_ClientSession_def mk_AgentSession_def example_secrets_def Seen_def mk_NonceMemory_def)
      (simp add: ReceiveOffset_def sh_SessionGen_def mk_StreamState_def mk_SendBuffer_def mk_ReceiveCursor_def AckOffset_def)
qed

lemma example_roomy: "roomy (replicate CONNECTION_OUT_SIZE 0) (replicate CONNECTION_SCRATCH_SIZE 0)"
  by (simp add: roomy_def)

text \<open>C2 (liveness). A client and an agent whose sessions are resumable complete a reconnection: Hello, route, challenge, proof of
  the key, Resume. The client is live, on the seed it used, and resends from what the agent has; the agent opens what the client
  seals, has moved to the next seed and keeps the client's as the previous one. Unless the snapshot path is due, the agent is live
  too and the missed output comes first: if the client misses anything, the agent's answer is a frame that the client
  opens to the next bytes it misses, from exactly its offset; if it misses nothing, there is nothing to send. On the snapshot path
  the agent sends nothing and waits for the snapshot.\<close>

theorem reconnection_completes:
  assumes "auth_correct S" "aead_correct S" "aead_total S" "widths_correct S" and "resumable S sc sa cn sn"
    and "roomy out scratch" "CONNECTION_FRAME_STORAGE \<le> length storageC" "CONNECTION_FRAME_STORAGE \<le> length storageA"
    and "PROTOCOL_VERSION_MIN \<le> cmax" "PROTOCOL_VERSION_MIN \<le> smax"
  shows "\<exists>answer c a sl op. resume_run S now out scratch sn
      (mk_ClientConnection S sc cn storageC now grid cmax snap, sc) (mk_AgentConnection storageA now smax, sa) = Some (answer, c, a) \<and>
    resumed_client sc sa c sl op \<and> resumed_agent S sc sa (snapshot_chosen (min cmax smax) grid sc sa) sl op answer a"
  using assms by (rule resume_completes)

theorem reconnection_completes_witness:
  "\<exists>answer c a sl op. resume_run example_sodium 0 (replicate CONNECTION_OUT_SIZE 0) (replicate CONNECTION_SCRATCH_SIZE 0)
      (replicate HANDSHAKE_NONCE_SIZE 9)
      (mk_ClientConnection example_sodium (mk_ClientSession example_secrets example_streams) (replicate HANDSHAKE_NONCE_SIZE 7)
         (replicate CONNECTION_FRAME_STORAGE 0) 0 True 2 [], mk_ClientSession example_secrets example_streams)
      (mk_AgentConnection (replicate CONNECTION_FRAME_STORAGE 0) 0 2, mk_AgentSession example_secrets example_streams) = Some (answer, c, a) \<and>
    resumed_client (mk_ClientSession example_secrets example_streams) (mk_AgentSession example_secrets example_streams) c sl op \<and>
    resumed_agent example_sodium (mk_ClientSession example_secrets example_streams) (mk_AgentSession example_secrets example_streams)
      (snapshot_chosen (min 2 2) True (mk_ClientSession example_secrets example_streams) (mk_AgentSession example_secrets example_streams)) sl op answer a"
  by (rule reconnection_completes [OF example_auth example_aead example_widths example_resumable example_roomy])
    (simp_all add: version_defs)

subsection \<open>Who may change a session\<close>

text \<open>C18 (type). Whatever an agent's owner calls in whatever order, and whatever happens to the session in
  between, every optional member of the connection that its next step dereferences is set, unless the
  connection has failed, and the Hello it keeps fits the array it is kept in.\<close>

theorem connection_well_formed:
  "agent_wf (fst (agent_run S ops (mk_AgentConnection frameStorage now ceiling, s)))"
  by (rule agent_wf_run) (simp add: agent_wf_mk)

text \<open>C7 (safety). A connection that holds no handle leaves the session as it is, by every operation, unless the bytes its peer
  has sent begin with a Hello and an Auth whose tag is valid under the session's key, over that Hello and the challenge
  with a nonce this very connection was routed with. Even then the operation only remembers the two nonces and
  the version, and gives the connection its handle.\<close>

theorem unauthenticated_peer_changes_nothing:
  assumes "agent_run S ops (mk_AgentConnection frameStorage now ceiling, s0) = (k, s)" and "ak_Handle k = None"
    and "\<forall>(others, op)\<in>set ops. \<forall>s. gs_Auth (others s) = gs_Auth s"
  shows "snd (agent_apply S op (k, s)) = s \<or>
    (ak_Handle (fst (agent_apply S op (k, s))) \<noteq> None \<and>
     (\<exists>hello version nonce. proof_received S (gs_Auth s0) (routed_nonces ops) (peer_input ops) hello version nonce \<and>
        snd (agent_apply S op (k, s)) = admitted_as hello version nonce (ak_HelloGridCapable k) s))"
proof -
  have "unadmitted S (gs_Auth s0) (routed_nonces ops) (peer_input ops) (k, s)"
    using unadmitted_run [OF unadmitted_mk assms(3), of S s0 frameStorage now ceiling] assms(1) by simp
  from apply_step [OF this assms(2), of op] show ?thesis by (auto simp: held_off_def admission_def)
qed

theorem unauthenticated_peer_changes_nothing_witness:
  "snd (agent_apply example_sodium (APump 1 (replicate CONNECTION_OUT_SIZE 0) (replicate CONNECTION_SCRATCH_SIZE 0))
     (snd (OnBytes (replicate 40 0) (mk_AgentConnection [0, 0, 0] 0 2)), mk_AgentSession example_secrets example_streams)) =
   mk_AgentSession example_secrets example_streams"
proof -
  let ?k = "snd (OnBytes (replicate 40 0) (mk_AgentConnection [0, 0, 0] 0 2))" and ?s = "mk_AgentSession example_secrets example_streams"
  let ?op = "APump 1 (replicate CONNECTION_OUT_SIZE 0) (replicate CONNECTION_SCRATCH_SIZE 0)"
  let ?ops = "[(id, AOnBytes (replicate 40 0)), (id, ARoute (replicate HANDSHAKE_NONCE_SIZE 9))]"
  have k: "ak_Handle ?k = None" "ak_Stage ?k = AwaitHello"
    by (auto simp: OnBytes_def mk_AgentConnection_def kb_Fail_def split: prod.splits sum.splits)
  then have r: "agent_run example_sodium ?ops (mk_AgentConnection [0, 0, 0] 0 2, ?s) = (?k, ?s)" by (simp add: Route_def)
  have "\<not> proof_received example_sodium key nonces (peer_input ?ops) hello version nonce" for key nonces hello version nonce
  proof
    assume "proof_received example_sodium key nonces (peer_input ?ops) hello version nonce"
    then obtain rest where "replicate 40 0 = cleartext_frame (type_code Hello # Hello_body hello) @ rest"
      by (auto simp: proof_received_def op_input_def)
    then have "replicate 40 0 ! HEADER_SIZE = (cleartext_frame (type_code Hello # Hello_body hello) @ rest) ! HEADER_SIZE" by simp
    then show False by (simp add: cleartext_frame_def frame_bytes_def nth_append size_defs)
  qed
  with unauthenticated_peer_changes_nothing [OF r k(1), of ?op] show ?thesis by simp
qed

text \<open>C11 (safety). A connection that is never routed to the session, as one that asks for an unknown id is not,
  never gets a handle, and the session is what the others made of it.\<close>

theorem decoy_is_harmless:
  assumes "\<not> list_ex (is_route \<circ> snd) ops"
  shows "ak_Handle (fst (agent_run S ops (mk_AgentConnection frameStorage now ceiling, s))) = None \<and>
    snd (agent_run S ops (mk_AgentConnection frameStorage now ceiling, s)) = others_alone ops s"
  using decoy_run [OF wf_early [OF agent_wf_mk] _ assms, of frameStorage now ceiling S s]
  by (simp add: early_def mk_AgentConnection_def)

theorem decoy_is_harmless_witness:
  "\<not> list_ex (is_route \<circ> snd) [(gs_OnTimer 5, ARouteUnknown (replicate KEY_SIZE 4) (replicate HANDSHAKE_NONCE_SIZE 9))] \<and>
   snd (agent_run example_sodium [(gs_OnTimer 5, ARouteUnknown (replicate KEY_SIZE 4) (replicate HANDSHAKE_NONCE_SIZE 9))]
     (mk_AgentConnection [] 0 2, mk_AgentSession example_secrets example_streams)) = gs_OnTimer 5 (mk_AgentSession example_secrets example_streams)"
proof -
  let ?ops = "[(gs_OnTimer 5, ARouteUnknown (replicate KEY_SIZE 4) (replicate HANDSHAKE_NONCE_SIZE 9))]"
  have "\<not> list_ex (is_route \<circ> snd) ?ops" by simp
  from this decoy_is_harmless [OF this, of example_sodium "[]" 0 2 "mk_AgentSession example_secrets example_streams"]
  show ?thesis by (simp add: others_alone_def)
qed


text \<open>C12 (safety). Once a newer connection has taken the streams, an older one that was live or waited for its
  snapshot changes nothing any more, whatever is called on it, as long as nobody makes its handle current
  again; it answers the next \<open>Pump\<close> with \<open>Superseded\<close>.\<close>

theorem superseded_connection_is_inert:
  assumes "agent_wf k" and "retired (k, s)" and "ak_Handle k = Some h"
    and "\<forall>(others, op) \<in> set ops. \<forall>s. \<not> sh_IsCurrent h s \<longrightarrow> \<not> sh_IsCurrent h (others s)"
  shows "snd (agent_run S ops (k, s)) = others_alone ops s \<and>
    (kb_Failed k = None \<longrightarrow> CheckBuffers out scratch = Inr () \<longrightarrow> fst (ak_Pump S now out scratch (k, s)) = Inl (SessErr Superseded))"
  using retired_run [OF assms] retired_Pump [OF assms(1,2)] by blast

definition example_superseded :: AgentConnection where
  "example_superseded = (mk_AgentConnection [] 0 2)\<lparr>ak_Stage := ALive, ak_Handle := Some \<lparr>sh_Generation = 1\<rparr>,
     kb_Channel := Some (mk_Channel (agent_frames no_keys) (mk_SendBuffer [] 0) (mk_ReceiveCursor 0 OnDelivery) 0
       (lim_Liveness default_limits) 2 [] 0)\<rparr>"

theorem superseded_connection_is_inert_witness:
  "agent_wf example_superseded \<and> retired (example_superseded, mk_AgentSession example_secrets example_streams) \<and>
   snd (agent_run example_sodium [(gs_OnTimer 5, AClose 3)] (example_superseded, mk_AgentSession example_secrets example_streams)) =
     gs_OnTimer 5 (mk_AgentSession example_secrets example_streams)"
proof -
  let ?s = "mk_AgentSession example_secrets example_streams"
  have wf: "agent_wf example_superseded"
    by (simp add: example_superseded_def agent_wf_def stage_wf_def mk_AgentConnection_def)
  have h: "ak_Handle example_superseded = Some \<lparr>sh_Generation = 1\<rparr>" by (simp add: example_superseded_def)
  have r: "retired (example_superseded, ?s)"
    by (simp add: retired_def h) (simp add: example_superseded_def sh_IsCurrent_def IsCurrent_def mk_AgentSession_def mk_StreamState_def)
  have "\<forall>(others, op) \<in> set [(gs_OnTimer 5, AClose 3)]. \<forall>s. \<not> sh_IsCurrent \<lparr>sh_Generation = 1\<rparr> s \<longrightarrow>
      \<not> sh_IsCurrent \<lparr>sh_Generation = 1\<rparr> (others s)"
    by (auto simp: sh_IsCurrent_def IsCurrent_def gs_OnTimer_def ss_OnTimer_def Reap_def)
  from wf r superseded_connection_is_inert [OF wf r h this, of example_sodium "[]" "[]" 0]
  show ?thesis by (simp add: others_alone_def)
qed

subsection \<open>The seeds of the two ends\<close>

text \<open>C10 (invariant). However often a session is resumed, one connection after the other, and wherever each is
  cut, the agent can open a Resume of the client: its seed is the agent's current or previous one.\<close>

theorem ratchet_never_loses_client:
  assumes "(ratchet S)\<^sup>*\<^sup>* (mk_AgentSession secrets agentStreams, mk_ClientSession secrets clientStreams, None) (a, c, h)"
  shows "\<exists>used. seed_used a c = Some used"
proof -
  have "ratchet_inv S (mk_AgentSession secrets agentStreams, mk_ClientSession secrets clientStreams, None)"
    by (simp add: mk_AgentSession_def mk_ClientSession_def)
  from ratchet_inv_seed_used [OF ratchet_inv_run [OF assms this]] show ?thesis .
qed

theorem ratchet_never_loses_client_witness:
  "\<exists>a c h. (ratchet example_sodium)\<^sup>*\<^sup>* (mk_AgentSession example_secrets example_streams, mk_ClientSession example_secrets example_streams, None) (a, c, h) \<and>
     gs_PreviousSeed a = Some (cs_Seed c) \<and> (\<exists>used. seed_used a c = Some used)"
proof -
  let ?a = "mk_AgentSession example_secrets example_streams" and ?c = "mk_ClientSession example_secrets example_streams"
  have u: "seed_used ?a ?c = Some UsedCurrent" by (simp add: seed_used_def mk_AgentSession_def mk_ClientSession_def)
  obtain a where a: "ConfirmResume example_sodium UsedCurrent ?a = (Inr (), a)" "gs_PreviousSeed a = Some (cs_Seed ?c)"
    using ConfirmResume_seeds [OF u, of example_sodium] by blast
  have run: "(ratchet example_sodium)\<^sup>*\<^sup>* (?a, ?c, None) (a, ?c, Some new_client_handle)"
    using ratchet.resume [OF u a(1)] by blast
  from ratchet_never_loses_client [OF run] run a(2) show ?thesis by blast
qed

text \<open>C36 (error). Connections that are not one after the other: if the handshakes of two connections found the
  agent's seed and both their Resumes are opened before the client opens a frame of the agent, the agent has
  advanced from a seed the client never had, and no later Resume of this client can be opened.\<close>

theorem two_open_resumes_lose_client:
  assumes "seed_used a c = Some UsedCurrent"
    and "AdvanceConnectionSeed S (cs_Seed c) \<noteq> cs_Seed c"
    and "AdvanceConnectionSeed S (AdvanceConnectionSeed S (cs_Seed c)) \<noteq> cs_Seed c"
  shows "seed_used (snd (ConfirmResume S UsedCurrent (snd (ConfirmResume S UsedCurrent a)))) c = None"
  using assms by (rule two_resumes_of_one_seed)

theorem two_open_resumes_lose_client_witness:
  "seed_used (snd (ConfirmResume example_sodium UsedCurrent (snd (ConfirmResume example_sodium UsedCurrent
      (mk_AgentSession example_secrets example_streams))))) (mk_ClientSession example_secrets example_streams) = None"
proof (rule two_open_resumes_lose_client)
  have c: "checksum (EncodeBE (1 :: u64) @ SEED_RATCHET_CONTEXT @ replicate KEY_SIZE 3) = 211"
      "checksum (EncodeBE (1 :: u64) @ SEED_RATCHET_CONTEXT @ replicate KEY_SIZE 211) = 211"
    by code_simp+
  then have a: "AdvanceConnectionSeed example_sodium (replicate KEY_SIZE 3) = replicate KEY_SIZE 211"
      "AdvanceConnectionSeed example_sodium (replicate KEY_SIZE 211) = replicate KEY_SIZE 211"
    by (simp_all add: AdvanceConnectionSeed_def DeriveSubkey_def example_sodium_def)
  have s: "cs_Seed (mk_ClientSession example_secrets example_streams) = replicate KEY_SIZE 3"
    by (simp add: mk_ClientSession_def example_secrets_def)
  show "seed_used (mk_AgentSession example_secrets example_streams) (mk_ClientSession example_secrets example_streams) = Some UsedCurrent"
    by (simp add: seed_used_def mk_AgentSession_def mk_ClientSession_def)
  show "AdvanceConnectionSeed example_sodium (cs_Seed (mk_ClientSession example_secrets example_streams)) \<noteq>
      cs_Seed (mk_ClientSession example_secrets example_streams)"
    unfolding s a by (simp add: KEY_SIZE_def replicate_eq_replicate)
  show "AdvanceConnectionSeed example_sodium (AdvanceConnectionSeed example_sodium (cs_Seed (mk_ClientSession example_secrets example_streams))) \<noteq>
      cs_Seed (mk_ClientSession example_secrets example_streams)"
    unfolding s a by (simp add: KEY_SIZE_def replicate_eq_replicate)
qed

subsection \<open>Bootstrap\<close>

text \<open>C13 (functional). The bootstrap over the login shell: the offer the client writes makes the agent accept, the
  acceptance it writes makes the client finish, each leaves what follows in its stream alone, and both
  hold the same session, keys and limits, with the agent's port and the client's environment.\<close>

theorem bootstrap_agreement:
  assumes "kx_correct S" "widths_correct S" and "length clientNonce = BOOTSTRAP_NONCE_SIZE" "length agentNonce = BOOTSTRAP_NONCE_SIZE"
    and "env_ok environment" and "port \<noteq> 0"
    and "BOOTSTRAP_OFFER_TEXT_SIZE \<le> length out1" "BOOTSTRAP_ACCEPT_TEXT_SIZE \<le> length out2"
  shows "\<exists>n1 o1 n2 o2 r g' b'. WriteOffer (mk_BootstrapClient S clientSeed clientNonce environment) out1 = Inr (n1, o1) \<and>
    bg_Feed S (take n1 o1 @ t) (mk_BootstrapAgent S agentSeed agentNonce port orphanTimeoutSeconds) =
      (Inr \<lparr>bs_Consumed = n1, bs_Result = Some r\<rparr>, g') \<and>
    bg_WriteAccept g' out2 = Inr (n2, o2) \<and>
    bc_Feed S (take n2 o2 @ u) (mk_BootstrapClient S clientSeed clientNonce environment) =
      (Inr \<lparr>bs_Consumed = n2, bs_Result = Some r\<rparr>, b') \<and>
    br_Version r = PROTOCOL_VERSION_MAX \<and> br_Port r = port \<and> br_Environment r = environment \<and> bc_Done b'"
  using bootstrap_run [OF assms(1,2), of "mk_BootstrapClient S clientSeed clientNonce environment" clientSeed
      "mk_BootstrapAgent S agentSeed agentNonce port orphanTimeoutSeconds" agentSeed out1 out2 t u] assms(3-8)
  by (simp add: mk_BootstrapClient_def mk_BootstrapAgent_def scanner_ready_mk)


theorem bootstrap_agreement_witness:
  "\<exists>n1 o1 n2 o2 r g' b'. WriteOffer (mk_BootstrapClient example_sodium (replicate KEY_SIZE 1) (replicate BOOTSTRAP_NONCE_SIZE 2) [])
        (replicate BOOTSTRAP_OFFER_TEXT_SIZE 0) = Inr (n1, o1) \<and>
    bg_Feed example_sodium (take n1 o1 @ [10]) (mk_BootstrapAgent example_sodium (replicate KEY_SIZE 3) (replicate BOOTSTRAP_NONCE_SIZE 4) 2022 60) =
      (Inr \<lparr>bs_Consumed = n1, bs_Result = Some r\<rparr>, g') \<and>
    bg_WriteAccept g' (replicate BOOTSTRAP_ACCEPT_TEXT_SIZE 0) = Inr (n2, o2) \<and>
    bc_Feed example_sodium (take n2 o2 @ [11]) (mk_BootstrapClient example_sodium (replicate KEY_SIZE 1) (replicate BOOTSTRAP_NONCE_SIZE 2) []) =
      (Inr \<lparr>bs_Consumed = n2, bs_Result = Some r\<rparr>, b') \<and>
    br_Version r = PROTOCOL_VERSION_MAX \<and> br_Port r = 2022 \<and> br_Environment r = [] \<and> bc_Done b'"
  by (rule bootstrap_agreement [OF example_kx example_widths]) (simp_all add: env_ok_def)

end
