(* ===== verification/Grid_Screen.thy ===== *)
theory Grid_Screen
  imports Prelude
begin

text \<open>
  The terminal grid: \<^verbatim>\<open>grid/cell.hpp\<close>, \<^verbatim>\<open>grid/grid.hpp\<close> and \<^verbatim>\<open>grid/grid.cpp\<close>, the data and every operation
  the parser calls.

  The seven rendition members that \<open>Cell\<close>, \<open>SavedCursor\<close>, the pen of \<open>Grid\<close> and the pen of the snapshot
  each list (\<open>Attrs\<close>, \<open>FgKind\<close>, \<open>BgKind\<close>, \<open>Fg\<close>, \<open>Bg\<close>, \<open>AttrEx\<close>, \<open>UlIdx\<close>) are one record \<open>Pen\<close>. A row is
  the list of its cells and a screen the list of its rows, so a rotation of line pointers is a rotation
  of rows. A null \<open>HistoryLines_\<close> is the empty list. The 16-bit coordinates and parameters are natural
  numbers; where the source's arithmetic can leave its type, the wrap-around is written with \<open>u16\<close> and
  \<open>u16_minus\<close>. A loop over indices is a \<open>fold\<close> over them. Whether an allocation succeeds is an argument:
  \<open>alloc k\<close> answers the \<open>k\<close>-th request of a call.
\<close>

unbundle bit_operations_syntax

subsection \<open>Limits and cells\<close>

definition MAX_COLS :: nat where "MAX_COLS = 4096"
definition MAX_ROWS :: nat where "MAX_ROWS = 1024"
definition MAX_SCREEN_CELLS :: nat where "MAX_SCREEN_CELLS = 2 ^ 20"
definition DEFAULT_TAB_INTERVAL :: nat where "DEFAULT_TAB_INTERVAL = 8"
definition MAX_SCROLLBACK_BYTES :: nat where "MAX_SCROLLBACK_BYTES = 128 * 1024 * 1024"
definition TAB_WORDS :: nat where "TAB_WORDS = MAX_COLS div 64"
definition CELL_SIZE :: nat where "CELL_SIZE = 16"

definition u16 :: "nat \<Rightarrow> nat" where
  "u16 n = n mod 65536"

definition u16_minus :: "nat \<Rightarrow> nat \<Rightarrow> nat" where
  "u16_minus a b = nat ((int a - int b) mod 65536)"

definition u8 :: "nat \<Rightarrow> nat" where
  "u8 n = n mod 256"

datatype EAttr = Bold | Dim | Italic | Underline | Blink | Inverse | Invisible | StrikeThrough

fun attr_flag :: "EAttr \<Rightarrow> byte" where
  "attr_flag Bold = 0x01"
| "attr_flag Dim = 0x02"
| "attr_flag Italic = 0x04"
| "attr_flag Underline = 0x08"
| "attr_flag Blink = 0x10"
| "attr_flag Inverse = 0x20"
| "attr_flag Invisible = 0x40"
| "attr_flag StrikeThrough = 0x80"

datatype EColorKind = Default | Indexed | TrueColor

type_synonym color = "byte \<times> byte \<times> byte"

record Pen =
  p_Attrs :: byte
  p_FgKind :: EColorKind
  p_BgKind :: EColorKind
  p_Fg :: color
  p_Bg :: color
  p_AttrEx :: byte
  p_UlIdx :: byte

definition default_pen :: Pen where
  "default_pen = \<lparr> p_Attrs = 0, p_FgKind = Default, p_BgKind = Default, p_Fg = (0, 0, 0),
     p_Bg = (0, 0, 0), p_AttrEx = 0, p_UlIdx = 0 \<rparr>"

record Cell =
  c_Codepoint :: nat
  c_Width :: nat
  c_Pen :: Pen

definition default_cell :: Cell where
  "default_cell = \<lparr> c_Codepoint = 0, c_Width = 1, c_Pen = default_pen \<rparr>"

type_synonym row = "Cell list"

record SavedCursor =
  sc_Row :: nat
  sc_Col :: nat
  sc_Pen :: Pen
  sc_Decom :: bool
  sc_PendingWrap :: bool
  sc_CharsetG0 :: nat
  sc_CharsetG1 :: nat
  sc_CharsetActive :: nat

definition default_saved :: SavedCursor where
  "default_saved = \<lparr> sc_Row = 0, sc_Col = 0, sc_Pen = default_pen, sc_Decom = False,
     sc_PendingWrap = False, sc_CharsetG0 = 0, sc_CharsetG1 = 0, sc_CharsetActive = 0 \<rparr>"

subsection \<open>The grid\<close>

datatype EGridError = AllocationFailed | SizeTooLarge | ScrollbackTooLarge | SnapshotTooLarge

datatype EMode = Awm | Irm | Lnm | Decom | Dectcem | Decckm | AltScreen | Mouse1000 | Mouse1002
  | Mouse1003 | Mouse1005 | Mouse1006 | Mouse1015 | BracketedPaste | FocusEvents | SyncOutput

fun mode_bit :: "EMode \<Rightarrow> nat" where
  "mode_bit Awm = 0" | "mode_bit Irm = 1" | "mode_bit Lnm = 2" | "mode_bit Decom = 3"
| "mode_bit Dectcem = 4" | "mode_bit Decckm = 5" | "mode_bit AltScreen = 6" | "mode_bit Mouse1000 = 7"
| "mode_bit Mouse1002 = 8" | "mode_bit Mouse1003 = 9" | "mode_bit Mouse1005 = 10"
| "mode_bit Mouse1006 = 11" | "mode_bit Mouse1015 = 12" | "mode_bit BracketedPaste = 13"
| "mode_bit FocusEvents = 14" | "mode_bit SyncOutput = 15"

definition ModeFlag :: "EMode \<Rightarrow> u32" where
  "ModeFlag m = push_bit (mode_bit m) 1"

record Grid =
  gr_Main :: "row list"
  gr_Alt :: "row list"
  gr_History :: "row list"
  gr_HistoryStart :: nat
  gr_HistorySize :: nat
  gr_Cols :: nat
  gr_Rows :: nat
  gr_ScrollbackLimit :: nat
  gr_CursorRow :: nat
  gr_CursorCol :: nat
  gr_PendingWrap :: bool
  gr_ScrollTop :: nat
  gr_ScrollBot :: nat
  gr_Modes :: u32
  gr_Pen :: Pen
  gr_SavedMain :: SavedCursor
  gr_SavedAlt :: SavedCursor
  gr_CharsetG0 :: nat
  gr_CharsetG1 :: nat
  gr_CharsetActive :: nat
  gr_CursorStyle :: nat
  gr_TabStops :: "u64 list"
  gr_LastChar :: nat
  gr_LastWidth :: nat
  gr_PossiblyDiverged :: bool

definition ModeSet :: "EMode \<Rightarrow> Grid \<Rightarrow> bool" where
  "ModeSet m g = (gr_Modes g AND ModeFlag m \<noteq> 0)"

definition IsAltScreen :: "Grid \<Rightarrow> bool" where
  "IsAltScreen g = ModeSet AltScreen g"

text \<open>\<open>Modes_ |= flag\<close> and \<open>Modes_ &= ~flag\<close>.\<close>

definition set_mode_bit :: "EMode \<Rightarrow> bool \<Rightarrow> Grid \<Rightarrow> Grid" where
  "set_mode_bit m v g = g\<lparr>gr_Modes :=
     (if v then gr_Modes g OR ModeFlag m else gr_Modes g AND NOT (ModeFlag m))\<rparr>"

definition ClampCol :: "Grid \<Rightarrow> nat \<Rightarrow> nat" where
  "ClampCol g c = (if c < gr_Cols g then c else u16_minus (gr_Cols g) 1)"

definition ClampRow :: "Grid \<Rightarrow> nat \<Rightarrow> nat" where
  "ClampRow g r = (if r < gr_Rows g then r else u16_minus (gr_Rows g) 1)"

subsection \<open>Construction\<close>

definition ClampScreenSize :: "nat \<Rightarrow> nat \<Rightarrow> nat \<times> nat" where
  "ClampScreenSize cols rows =
    (let cols = (if cols = 0 then 1 else cols);
         rows = (if rows = 0 then 1 else rows);
         cols = (if cols > MAX_COLS then MAX_COLS else cols);
         maxRows = min MAX_ROWS (MAX_SCREEN_CELLS div cols);
         rows = (if rows > maxRows then u16 maxRows else rows)
     in (cols, rows))"

text \<open>\<open>TabStops_[c / 64] |= 1 << (c % 64)\<close>, its complement, and the test of one stop.\<close>

definition set_stop :: "nat \<Rightarrow> u64 list \<Rightarrow> u64 list" where
  "set_stop c ts = ts[c div 64 := ts ! (c div 64) OR push_bit (c mod 64) 1]"

definition clear_stop :: "nat \<Rightarrow> u64 list \<Rightarrow> u64 list" where
  "clear_stop c ts = ts[c div 64 := ts ! (c div 64) AND NOT (push_bit (c mod 64) 1)]"

definition stop_at :: "u64 list \<Rightarrow> nat \<Rightarrow> bool" where
  "stop_at ts c = (drop_bit (c mod 64) (ts ! (c div 64)) AND 1 \<noteq> 0)"

text \<open>\<open>for (c = first; c < cols; c += DEFAULT_TAB_INTERVAL)\<close> set a stop.\<close>

function default_stops :: "nat \<Rightarrow> nat \<Rightarrow> u64 list \<Rightarrow> u64 list" where
  "default_stops c cols ts =
    (if c < cols then default_stops (c + DEFAULT_TAB_INTERVAL) cols (set_stop c ts) else ts)"
  by pat_completeness auto
termination
  by (relation "measure (\<lambda>(c, cols, ts). cols - c)") (auto simp: DEFAULT_TAB_INTERVAL_def)

declare default_stops.simps [simp del]

definition blank_screen :: "nat \<Rightarrow> nat \<Rightarrow> row list" where
  "blank_screen cols rows = replicate rows (replicate cols default_cell)"

definition no_stops :: "u64 list" where
  "no_stops = replicate TAB_WORDS 0"

definition default_modes :: u32 where
  "default_modes = ModeFlag Awm OR ModeFlag Dectcem"

text \<open>\<open>Grid::Allocate\<close>: four requests for the screens, then two for the history. The grid it fills is
  the one a default-constructed \<open>Grid\<close> becomes.\<close>

definition Allocate :: "(nat \<Rightarrow> bool) \<Rightarrow> nat \<Rightarrow> nat \<Rightarrow> nat \<Rightarrow> Grid option" where
  "Allocate alloc cols rows scrollbackLimit =
    (if \<not> (alloc 1 \<and> alloc 2 \<and> alloc 3 \<and> alloc 4) then None
     else if scrollbackLimit > 0 \<and> scrollbackLimit * cols * CELL_SIZE > MAX_SCROLLBACK_BYTES then None
     else if scrollbackLimit > 0 \<and> \<not> (alloc 5 \<and> alloc 6) then None
     else Some \<lparr> gr_Main = blank_screen cols rows, gr_Alt = blank_screen cols rows,
       gr_History = blank_screen cols scrollbackLimit, gr_HistoryStart = 0, gr_HistorySize = 0,
       gr_Cols = cols, gr_Rows = rows, gr_ScrollbackLimit = scrollbackLimit,
       gr_CursorRow = 0, gr_CursorCol = 0, gr_PendingWrap = False,
       gr_ScrollTop = 0, gr_ScrollBot = u16_minus rows 1,
       gr_Modes = default_modes, gr_Pen = default_pen,
       gr_SavedMain = default_saved, gr_SavedAlt = default_saved,
       gr_CharsetG0 = 0, gr_CharsetG1 = 0, gr_CharsetActive = 0, gr_CursorStyle = 0,
       gr_TabStops = default_stops 0 cols no_stops,
       gr_LastChar = 0, gr_LastWidth = 1, gr_PossiblyDiverged = False \<rparr>)"

definition g_Create :: "(nat \<Rightarrow> bool) \<Rightarrow> nat \<Rightarrow> nat \<Rightarrow> nat \<Rightarrow> EGridError + Grid" where
  "g_Create alloc cols rows scrollbackLimit =
    (if scrollbackLimit > 0x7FFFFFFF then Inl ScrollbackTooLarge
     else if \<not> alloc 0 then Inl AllocationFailed
     else let (cols, rows) = ClampScreenSize cols rows in
       case Allocate alloc cols rows scrollbackLimit of
         None \<Rightarrow> Inl AllocationFailed
       | Some g \<Rightarrow> Inr g)"

subsection \<open>Cells, rows and the scrollback ring\<close>

definition ActiveLine :: "Grid \<Rightarrow> nat \<Rightarrow> row" where
  "ActiveLine g r = (if IsAltScreen g then gr_Alt g ! r else gr_Main g ! r)"

text \<open>Writing through the reference \<open>ActiveLine(r)\<close> returns.\<close>

definition upd_line :: "nat \<Rightarrow> (row \<Rightarrow> row) \<Rightarrow> Grid \<Rightarrow> Grid" where
  "upd_line r f g =
    (if IsAltScreen g then g\<lparr>gr_Alt := (gr_Alt g)[r := f (gr_Alt g ! r)]\<rparr>
     else g\<lparr>gr_Main := (gr_Main g)[r := f (gr_Main g ! r)]\<rparr>)"

definition CellAt :: "Grid \<Rightarrow> nat \<Rightarrow> nat \<Rightarrow> Cell" where
  "CellAt g r c = ActiveLine g r ! c"

definition MainCellAt :: "Grid \<Rightarrow> nat \<Rightarrow> nat \<Rightarrow> Cell" where
  "MainCellAt g r c = gr_Main g ! r ! c"

definition IsTabStop :: "Grid \<Rightarrow> nat \<Rightarrow> bool" where
  "IsTabStop g c = (if c \<ge> gr_Cols g then False else stop_at (gr_TabStops g) c)"

definition ScrollbackLine :: "Grid \<Rightarrow> nat \<Rightarrow> row option" where
  "ScrollbackLine g idx =
    (if gr_History g = [] \<or> idx \<ge> gr_HistorySize g then None
     else Some (gr_History g ! ((gr_HistoryStart g + idx) mod gr_ScrollbackLimit g)))"

definition BlankCell :: "Grid \<Rightarrow> Cell" where
  "BlankCell g = default_cell\<lparr>c_Pen := default_pen\<lparr>p_BgKind := p_BgKind (gr_Pen g),
     p_Bg := p_Bg (gr_Pen g)\<rparr>\<rparr>"

definition PenToCell :: "Grid \<Rightarrow> Cell \<Rightarrow> Cell" where
  "PenToCell g c = c\<lparr>c_Pen := gr_Pen g\<rparr>"

definition ClearLine :: "Cell \<Rightarrow> nat \<Rightarrow> row \<Rightarrow> row" where
  "ClearLine blank cols line = fold (\<lambda>c l. l[c := blank]) [0..<cols] line"

definition ClearCells :: "Cell \<Rightarrow> nat \<Rightarrow> nat \<Rightarrow> row \<Rightarrow> row" where
  "ClearCells blank at count line = fold (\<lambda>i l. l[at + i := blank]) [0..<count] line"

definition CopyCells :: "row \<Rightarrow> nat \<Rightarrow> row \<Rightarrow> row" where
  "CopyCells src count dst = fold (\<lambda>i d. d[i := src ! i]) [0..<count] dst"

definition MoveCells :: "nat \<Rightarrow> nat \<Rightarrow> nat \<Rightarrow> row \<Rightarrow> row" where
  "MoveCells dst src count line =
    (if dst < src then fold (\<lambda>i l. l[dst + i := l ! (src + i)]) [0..<count] line
     else if dst > src then fold (\<lambda>i l. l[dst + i := l ! (src + i)]) (rev [0..<count]) line
     else line)"

definition blank_from_to :: "Cell \<Rightarrow> nat \<Rightarrow> nat \<Rightarrow> row \<Rightarrow> row" where
  "blank_from_to blank first lim line = fold (\<lambda>c l. l[c := blank]) [first..<lim] line"

definition RepairWideOrphans :: "Cell \<Rightarrow> nat \<Rightarrow> nat \<Rightarrow> nat \<Rightarrow> row \<Rightarrow> row" where
  "RepairWideOrphans blank cols first lim line =
    (let line = (if first > 0 \<and> c_Width (line ! (first - 1)) = 2
                 then line[first - 1 := blank] else line)
     in if lim < cols \<and> c_Width (line ! lim) = 0 then line[lim := blank] else line)"

definition PushScrollback :: "nat \<Rightarrow> Grid \<Rightarrow> Grid" where
  "PushScrollback r g =
    (if gr_History g = [] \<or> gr_ScrollbackLimit g = 0 then g
     else let slot = (gr_HistoryStart g + gr_HistorySize g) mod gr_ScrollbackLimit g;
              g = g\<lparr>gr_History := (gr_History g)[slot :=
                    CopyCells (gr_Main g ! r) (gr_Cols g) (gr_History g ! slot)]\<rparr>
          in if gr_HistorySize g < gr_ScrollbackLimit g
             then g\<lparr>gr_HistorySize := gr_HistorySize g + 1\<rparr>
             else g\<lparr>gr_HistoryStart := (gr_HistoryStart g + 1) mod gr_ScrollbackLimit g\<rparr>)"

subsection \<open>Scrolling\<close>

text \<open>\<open>std::rotate\<close> of the range \<open>[lo, hi)\<close> that brings \<open>mid\<close> to the front.\<close>

definition std_rotate :: "nat \<Rightarrow> nat \<Rightarrow> nat \<Rightarrow> 'a list \<Rightarrow> 'a list" where
  "std_rotate lo mid hi xs = take lo xs @ drop mid (take hi xs) @ drop lo (take mid xs) @ drop hi xs"

definition rotate_active :: "nat \<Rightarrow> nat \<Rightarrow> nat \<Rightarrow> Grid \<Rightarrow> Grid" where
  "rotate_active lo mid hi g =
    (if IsAltScreen g then g\<lparr>gr_Alt := std_rotate lo mid hi (gr_Alt g)\<rparr>
     else g\<lparr>gr_Main := std_rotate lo mid hi (gr_Main g)\<rparr>)"

definition clear_active :: "nat \<Rightarrow> Grid \<Rightarrow> Grid" where
  "clear_active r g = upd_line r (ClearLine (BlankCell g) (gr_Cols g)) g"

definition region_height :: "Grid \<Rightarrow> nat" where
  "region_height g = u16_minus (gr_ScrollBot g + 1) (gr_ScrollTop g)"

definition ScrollRegionUp :: "nat \<Rightarrow> bool \<Rightarrow> Grid \<Rightarrow> Grid" where
  "ScrollRegionUp n push g =
    (if n = 0 then g
     else let n = (if n > region_height g then region_height g else n);
              g = (if push \<and> gr_ScrollTop g = 0 \<and> \<not> IsAltScreen g
                   then fold PushScrollback [0..<n] g else g);
              g = rotate_active (gr_ScrollTop g) (gr_ScrollTop g + n) (gr_ScrollBot g + 1) g
          in fold clear_active [u16_minus (gr_ScrollBot g + 1) n..<gr_ScrollBot g + 1] g)"

definition ScrollRegionDown :: "nat \<Rightarrow> Grid \<Rightarrow> Grid" where
  "ScrollRegionDown n g =
    (if n = 0 then g
     else let n = (if n > region_height g then region_height g else n);
              g = fold (\<lambda>r g. upd_line r (CopyCells (ActiveLine g (u16_minus r n)) (gr_Cols g)) g)
                    (rev [gr_ScrollTop g + n..<gr_ScrollBot g + 1]) g
          in fold clear_active [gr_ScrollTop g..<gr_ScrollTop g + n] g)"

subsection \<open>Control characters and cursor movement\<close>

definition CarriageReturn :: "Grid \<Rightarrow> Grid" where
  "CarriageReturn g = g\<lparr>gr_CursorCol := 0, gr_PendingWrap := False\<rparr>"

definition g_Index :: "Grid \<Rightarrow> Grid" where
  "g_Index g =
    (let g = g\<lparr>gr_PendingWrap := False\<rparr> in
     if gr_CursorRow g = gr_ScrollBot g then ScrollRegionUp 1 True g
     else if gr_CursorRow g < gr_Rows g - 1 then g\<lparr>gr_CursorRow := gr_CursorRow g + 1\<rparr>
     else g)"

definition LineFeed :: "Grid \<Rightarrow> Grid" where
  "LineFeed g =
    (let g = (if ModeSet Lnm g then g\<lparr>gr_CursorCol := 0\<rparr> else g);
         g = g\<lparr>gr_PendingWrap := False\<rparr> in
     if gr_CursorRow g = gr_ScrollBot g then ScrollRegionUp 1 True g
     else if gr_CursorRow g < gr_Rows g - 1 then g\<lparr>gr_CursorRow := gr_CursorRow g + 1\<rparr>
     else g)"

definition ReverseIndex :: "Grid \<Rightarrow> Grid" where
  "ReverseIndex g =
    (let g = g\<lparr>gr_PendingWrap := False\<rparr> in
     if gr_CursorRow g = gr_ScrollTop g then ScrollRegionDown 1 g
     else if gr_CursorRow g > 0 then g\<lparr>gr_CursorRow := gr_CursorRow g - 1\<rparr>
     else g)"

definition Backspace :: "Grid \<Rightarrow> Grid" where
  "Backspace g =
    (let g = g\<lparr>gr_PendingWrap := False\<rparr> in
     if gr_CursorCol g > 0 then g\<lparr>gr_CursorCol := gr_CursorCol g - 1\<rparr> else g)"

definition HorizontalTab :: "Grid \<Rightarrow> Grid" where
  "HorizontalTab g =
    (let g = g\<lparr>gr_PendingWrap := False\<rparr> in
     case find (stop_at (gr_TabStops g)) [u16 (gr_CursorCol g + 1)..<gr_Cols g] of
       Some c \<Rightarrow> g\<lparr>gr_CursorCol := c\<rparr>
     | None \<Rightarrow> g\<lparr>gr_CursorCol := u16_minus (gr_Cols g) 1\<rparr>)"

fun tab_back_steps :: "nat \<Rightarrow> Grid \<Rightarrow> Grid" where
  "tab_back_steps 0 g = g"
| "tab_back_steps (Suc n) g =
    (if gr_CursorCol g = 0 then g
     else case find (stop_at (gr_TabStops g)) (rev [0..<gr_CursorCol g]) of
       Some c \<Rightarrow> tab_back_steps n (g\<lparr>gr_CursorCol := c\<rparr>)
     | None \<Rightarrow> g\<lparr>gr_CursorCol := 0\<rparr>)"

definition HorizontalTabBack :: "nat \<Rightarrow> Grid \<Rightarrow> Grid" where
  "HorizontalTabBack n g = tab_back_steps (if n = 0 then 1 else n) (g\<lparr>gr_PendingWrap := False\<rparr>)"

text \<open>The comparison \<open>n > CursorRow_ - limit\<close> is one of signed integers; the assignments wrap in 16 bits.\<close>

definition up_limit :: "Grid \<Rightarrow> nat" where
  "up_limit g =
    (if gr_CursorRow g \<ge> gr_ScrollTop g \<and> gr_CursorRow g \<le> gr_ScrollBot g then gr_ScrollTop g
     else if gr_CursorRow g > gr_ScrollBot g then u16 (gr_ScrollBot g + 1)
     else if ModeSet Decom g then gr_ScrollTop g else 0)"

definition MoveCursorUp :: "nat \<Rightarrow> Grid \<Rightarrow> Grid" where
  "MoveCursorUp n g =
    (let limit = up_limit g;
         n = (if int n > int (gr_CursorRow g) - int limit
              then u16_minus (gr_CursorRow g) limit else n)
     in g\<lparr>gr_PendingWrap := False, gr_CursorRow := u16_minus (gr_CursorRow g) n\<rparr>)"

definition down_limit :: "Grid \<Rightarrow> nat" where
  "down_limit g =
    (if gr_CursorRow g \<le> gr_ScrollBot g then gr_ScrollBot g
     else if ModeSet Decom g then gr_ScrollBot g else u16_minus (gr_Rows g) 1)"

definition MoveCursorDown :: "nat \<Rightarrow> Grid \<Rightarrow> Grid" where
  "MoveCursorDown n g =
    (let limit = down_limit g;
         n = (if gr_CursorRow g + n > limit then u16_minus limit (gr_CursorRow g) else n)
     in g\<lparr>gr_PendingWrap := False, gr_CursorRow := u16 (gr_CursorRow g + n)\<rparr>)"

definition MoveCursorRight :: "nat \<Rightarrow> Grid \<Rightarrow> Grid" where
  "MoveCursorRight n g =
    (let max = u16_minus (gr_Cols g) 1 in
     g\<lparr>gr_PendingWrap := False, gr_CursorCol :=
       (if gr_CursorCol g + n \<le> max then u16 (gr_CursorCol g + n) else max)\<rparr>)"

definition MoveCursorLeft :: "nat \<Rightarrow> Grid \<Rightarrow> Grid" where
  "MoveCursorLeft n g = g\<lparr>gr_PendingWrap := False, gr_CursorCol :=
     (if n \<le> gr_CursorCol g then gr_CursorCol g - n else 0)\<rparr>"

text \<open>The row both absolute moves go to: relative to the scroll region in origin mode, summed in 32 bits.\<close>

definition origin_row :: "nat \<Rightarrow> Grid \<Rightarrow> nat" where
  "origin_row row1 g =
    (let rowOff = (if ModeSet Decom g then gr_ScrollTop g else 0);
         maxRow = (if ModeSet Decom g then gr_ScrollBot g else u16_minus (gr_Rows g) 1);
         row0 = (if row1 > 0 then row1 - 1 else 0);
         row = rowOff + row0
     in if row < maxRow then u16 row else maxRow)"

definition MoveCursorTo :: "nat \<Rightarrow> nat \<Rightarrow> Grid \<Rightarrow> Grid" where
  "MoveCursorTo row1 col1 g = g\<lparr>gr_PendingWrap := False, gr_CursorRow := origin_row row1 g,
     gr_CursorCol := ClampCol g (if col1 > 0 then col1 - 1 else 0)\<rparr>"

definition MoveCursorToCol :: "nat \<Rightarrow> Grid \<Rightarrow> Grid" where
  "MoveCursorToCol col1 g = g\<lparr>gr_PendingWrap := False,
     gr_CursorCol := ClampCol g (if col1 > 0 then col1 - 1 else 0)\<rparr>"

definition MoveCursorToRow :: "nat \<Rightarrow> Grid \<Rightarrow> Grid" where
  "MoveCursorToRow row1 g = g\<lparr>gr_PendingWrap := False, gr_CursorRow := origin_row row1 g\<rparr>"

definition CursorNextLine :: "nat \<Rightarrow> Grid \<Rightarrow> Grid" where
  "CursorNextLine n g = (MoveCursorDown n g)\<lparr>gr_CursorCol := 0\<rparr>"

definition CursorPrevLine :: "nat \<Rightarrow> Grid \<Rightarrow> Grid" where
  "CursorPrevLine n g = (MoveCursorUp n g)\<lparr>gr_CursorCol := 0\<rparr>"

definition SaveCursor :: "Grid \<Rightarrow> Grid" where
  "SaveCursor g =
    (let sc = \<lparr> sc_Row = gr_CursorRow g, sc_Col = gr_CursorCol g, sc_Pen = gr_Pen g,
                sc_Decom = ModeSet Decom g, sc_PendingWrap = gr_PendingWrap g,
                sc_CharsetG0 = gr_CharsetG0 g, sc_CharsetG1 = gr_CharsetG1 g,
                sc_CharsetActive = gr_CharsetActive g \<rparr>
     in if IsAltScreen g then g\<lparr>gr_SavedAlt := sc\<rparr> else g\<lparr>gr_SavedMain := sc\<rparr>)"

definition RestoreCursor :: "Grid \<Rightarrow> Grid" where
  "RestoreCursor g =
    (let sc = (if IsAltScreen g then gr_SavedAlt g else gr_SavedMain g);
         g = g\<lparr>gr_CursorRow := ClampRow g (sc_Row sc), gr_CursorCol := ClampCol g (sc_Col sc)\<rparr>;
         g = set_mode_bit Decom (sc_Decom sc) g;
         g = (if sc_Decom sc \<and> gr_CursorRow g > gr_ScrollBot g
              then g\<lparr>gr_CursorRow := gr_ScrollBot g\<rparr> else g)
     in g\<lparr>gr_Pen := sc_Pen sc, gr_CharsetG0 := sc_CharsetG0 sc, gr_CharsetG1 := sc_CharsetG1 sc,
          gr_CharsetActive := sc_CharsetActive sc,
          gr_PendingWrap := (sc_PendingWrap sc \<and> gr_CursorCol g + 1 = gr_Cols g)\<rparr>)"

subsection \<open>Erasing, inserting and deleting\<close>

definition EraseInLine :: "nat \<Rightarrow> Grid \<Rightarrow> Grid" where
  "EraseInLine param g =
    (let g = g\<lparr>gr_PendingWrap := False\<rparr>; blank = BlankCell g; cols = gr_Cols g; col = gr_CursorCol g in
     upd_line (gr_CursorRow g) (\<lambda>line.
       if param = 0 then
         blank_from_to blank col cols (RepairWideOrphans blank cols col col line)
       else if param = 1 then
         (let lim = u16 (col + 1) in
          blank_from_to blank 0 (min lim cols) (RepairWideOrphans blank cols 0 lim line))
       else if param = 2 then ClearLine blank cols line
       else line) g)"

definition EraseInDisplay :: "nat \<Rightarrow> Grid \<Rightarrow> Grid" where
  "EraseInDisplay param g =
    (let g = g\<lparr>gr_PendingWrap := False\<rparr> in
     if param = 0 then
       fold clear_active [u16 (gr_CursorRow g + 1)..<gr_Rows g] (EraseInLine 0 g)
     else if param = 1 then
       EraseInLine 1 (fold clear_active [0..<gr_CursorRow g] g)
     else if param = 2 \<or> param = 3 then
       (let g = fold clear_active [0..<gr_Rows g] g in
        if param = 3 \<and> \<not> IsAltScreen g then g\<lparr>gr_HistoryStart := 0, gr_HistorySize := 0\<rparr> else g)
     else g)"

definition EraseChars :: "nat \<Rightarrow> Grid \<Rightarrow> Grid" where
  "EraseChars n g =
    (let g = g\<lparr>gr_PendingWrap := False\<rparr>; n = (if n = 0 then 1 else n);
         blank = BlankCell g; col = gr_CursorCol g;
         lim = (if col + n < gr_Cols g then u16 (col + n) else gr_Cols g) in
     upd_line (gr_CursorRow g) (\<lambda>line.
       blank_from_to blank col lim (RepairWideOrphans blank (gr_Cols g) col lim line)) g)"

text \<open>\<open>if (cond) BlankCell(line.Cells[i])\<close>\<close>

definition blank_if :: "bool \<Rightarrow> Cell \<Rightarrow> nat \<Rightarrow> row \<Rightarrow> row" where
  "blank_if b blank i line = (if b then line[i := blank] else line)"

definition delete_cells :: "Cell \<Rightarrow> nat \<Rightarrow> nat \<Rightarrow> nat \<Rightarrow> row \<Rightarrow> row" where
  "delete_cells blank cols col n line =
    (let avail = u16_minus cols col;
         n = (if n > avail then avail else n);
         line = (if col > 0 \<and> c_Width (line ! col) = 0
                 then line[col - 1 := blank, col := blank] else line);
         line = MoveCells col (col + n) (avail - n) line;
         line = ClearCells blank (cols - n) n line;
         line = blank_if (c_Width (line ! col) = 0) blank col line;
         tailStart = u16_minus cols n
     in blank_if (tailStart > 0 \<and> c_Width (line ! (tailStart - 1)) = 2) blank (tailStart - 1) line)"

definition DeleteChars :: "nat \<Rightarrow> Grid \<Rightarrow> Grid" where
  "DeleteChars n g =
    (let g = g\<lparr>gr_PendingWrap := False\<rparr> in
     upd_line (gr_CursorRow g)
       (delete_cells (BlankCell g) (gr_Cols g) (gr_CursorCol g) (if n = 0 then 1 else n)) g)"

definition insert_cells :: "Cell \<Rightarrow> nat \<Rightarrow> nat \<Rightarrow> nat \<Rightarrow> row \<Rightarrow> row" where
  "insert_cells blank cols col n line =
    (let avail = u16_minus cols col;
         n = (if n > avail then avail else n);
         line = MoveCells (col + n) col (avail - n) line;
         line = ClearCells blank col n line;
         line = blank_if (col > 0 \<and> c_Width (line ! (col - 1)) = 2) blank (col - 1) line;
         movedStart = u16 (col + n);
         line = blank_if (movedStart < cols \<and> c_Width (line ! movedStart) = 0) blank movedStart line
     in blank_if (c_Width (line ! (cols - 1)) = 2) blank (cols - 1) line)"

definition InsertChars :: "nat \<Rightarrow> Grid \<Rightarrow> Grid" where
  "InsertChars n g =
    (let g = g\<lparr>gr_PendingWrap := False\<rparr> in
     upd_line (gr_CursorRow g)
       (insert_cells (BlankCell g) (gr_Cols g) (gr_CursorCol g) (if n = 0 then 1 else n)) g)"

definition InsertLines :: "nat \<Rightarrow> Grid \<Rightarrow> Grid" where
  "InsertLines n g =
    (if gr_CursorRow g < gr_ScrollTop g \<or> gr_CursorRow g > gr_ScrollBot g then g
     else let savedTop = gr_ScrollTop g;
              g = g\<lparr>gr_PendingWrap := False, gr_ScrollTop := gr_CursorRow g\<rparr>;
              g = ScrollRegionDown n g
          in g\<lparr>gr_ScrollTop := savedTop, gr_CursorCol := 0\<rparr>)"

definition DeleteLines :: "nat \<Rightarrow> Grid \<Rightarrow> Grid" where
  "DeleteLines n g =
    (if gr_CursorRow g < gr_ScrollTop g \<or> gr_CursorRow g > gr_ScrollBot g then g
     else let savedTop = gr_ScrollTop g;
              g = g\<lparr>gr_PendingWrap := False, gr_ScrollTop := gr_CursorRow g\<rparr>;
              g = ScrollRegionUp n False g
          in g\<lparr>gr_ScrollTop := savedTop, gr_CursorCol := 0\<rparr>)"

definition ScrollDown :: "nat \<Rightarrow> Grid \<Rightarrow> Grid" where
  "ScrollDown n g = ScrollRegionDown n g"

definition ScrollUp :: "nat \<Rightarrow> Grid \<Rightarrow> Grid" where
  "ScrollUp n g = ScrollRegionUp n True g"

subsection \<open>Printing\<close>

definition DEC_GFX :: "nat list" where
  "DEC_GFX = [
    0x25C6, 0x2592, 0x2409, 0x240C, 0x240D, 0x240A, 0x00B0, 0x00B1,
    0x2424, 0x240B, 0x2518, 0x2510, 0x250C, 0x2514, 0x253C, 0x23BA,
    0x23BB, 0x2500, 0x23BC, 0x23BD, 0x251C, 0x2524, 0x2534, 0x252C,
    0x2502, 0x2264, 0x2265, 0x03C0, 0x2260, 0x00A3, 0x00B7]"

definition translate_charset :: "Grid \<Rightarrow> nat \<Rightarrow> nat" where
  "translate_charset g cp =
    (let cs = (if gr_CharsetActive g = 0 then gr_CharsetG0 g else gr_CharsetG1 g) in
     if cs = 1 \<and> cp \<ge> 0x60 \<and> cp \<le> 0x7E then DEC_GFX ! (cp - 0x60) else cp)"

text \<open>The cells a character of the given width changes in its row: the glyph, its continuation, and the
  halves of the wide characters it overwrites.\<close>

definition write_glyph :: "Cell \<Rightarrow> Pen \<Rightarrow> nat \<Rightarrow> nat \<Rightarrow> nat \<Rightarrow> nat \<Rightarrow> row \<Rightarrow> row" where
  "write_glyph blank pen cols col cp width line =
    (let line = (if col > 0 \<and> c_Width (line ! (col - 1)) = 2
                 then line[col - 1 := (line ! (col - 1))\<lparr>c_Width := 1\<rparr>] else line);
         line = blank_if (c_Width (line ! col) = 2 \<and> col + 1 < cols) blank (col + 1) line;
         line = line[col := (line ! col)\<lparr>c_Pen := pen, c_Codepoint := cp, c_Width := u8 width\<rparr>]
     in if width = 2 \<and> col + 1 < cols then
          (let line = blank_if (c_Width (line ! (col + 1)) = 2 \<and> u16 (col + 2) < cols) blank
                        (u16 (col + 2)) line
           in line[col + 1 := default_cell\<lparr>c_Width := 0\<rparr>])
        else line)"

definition put_cell :: "nat \<Rightarrow> nat \<Rightarrow> Grid \<Rightarrow> Grid" where
  "put_cell cp width g =
    (let g = upd_line (gr_CursorRow g)
               (write_glyph (BlankCell g) (gr_Pen g) (gr_Cols g) (gr_CursorCol g) cp width) g;
         g = g\<lparr>gr_LastChar := cp, gr_LastWidth := width\<rparr>
     in if gr_CursorCol g + width \<ge> gr_Cols g
        then g\<lparr>gr_CursorCol := u16_minus (gr_Cols g) 1, gr_PendingWrap := True\<rparr>
        else g\<lparr>gr_CursorCol := u16 (gr_CursorCol g + width)\<rparr>)"

definition PutChar :: "nat \<Rightarrow> nat \<Rightarrow> Grid \<Rightarrow> Grid" where
  "PutChar cp width g =
    (let cp = translate_charset g cp in
     if width = 0 then g
     else
       let g = (if gr_PendingWrap g \<and> ModeSet Awm g then LineFeed (g\<lparr>gr_CursorCol := 0\<rparr>) else g);
           g = g\<lparr>gr_PendingWrap := False\<rparr>;
           g = (if ModeSet Irm g then InsertChars (u16 width) g else g);
           (width, cp) = (if width = 2 \<and> gr_Cols g = 1 then (1, 0x20) else (width, cp))
       in if width = 2 \<and> gr_CursorCol g + 1 \<ge> gr_Cols g then
            (if ModeSet Awm g then put_cell cp width (LineFeed (g\<lparr>gr_CursorCol := 0\<rparr>)) else g)
          else put_cell cp width g)"

definition RepeatChar :: "nat \<Rightarrow> Grid \<Rightarrow> Grid" where
  "RepeatChar n g =
    (if gr_LastChar g = 0 \<or> n = 0 then g
     else ((\<lambda>g. PutChar (gr_LastChar g) (gr_LastWidth g) g) ^^ n) g)"

subsection \<open>Scroll region, modes and the two screens\<close>

definition SetScrollRegion :: "nat \<Rightarrow> nat \<Rightarrow> Grid \<Rightarrow> Grid" where
  "SetScrollRegion top1 bot1 g =
    (let t = (if top1 > 0 then top1 - 1 else 0);
         b = (if bot1 > 0 then bot1 - 1 else u16_minus (gr_Rows g) 1);
         t = (if t \<ge> gr_Rows g then 0 else t);
         b = (if b \<ge> gr_Rows g then u16_minus (gr_Rows g) 1 else b)
     in if t \<ge> b then g
        else g\<lparr>gr_ScrollTop := t, gr_ScrollBot := b,
               gr_CursorRow := (if ModeSet Decom g then t else 0), gr_CursorCol := 0,
               gr_PendingWrap := False\<rparr>)"

definition SwitchAltScreen :: "bool \<Rightarrow> Grid \<Rightarrow> Grid" where
  "SwitchAltScreen enter g =
    (if enter = IsAltScreen g then g else set_mode_bit AltScreen enter g)"

definition ClearAltScreen :: "Grid \<Rightarrow> Grid" where
  "ClearAltScreen g =
    (fold (\<lambda>r g. g\<lparr>gr_Alt := (gr_Alt g)[r := ClearLine (BlankCell g) (gr_Cols g) (gr_Alt g ! r)]\<rparr>)
       [0..<gr_Rows g] g)\<lparr>gr_PendingWrap := False\<rparr>"

definition SetMode :: "nat \<Rightarrow> bool \<Rightarrow> Grid \<Rightarrow> Grid" where
  "SetMode param v g =
    (if param = 1 then set_mode_bit Decckm v g
     else if param = 4 then set_mode_bit Irm v g
     else if param = 6 then
       (set_mode_bit Decom v g)\<lparr>gr_CursorRow := (if v then gr_ScrollTop g else 0),
          gr_CursorCol := 0, gr_PendingWrap := False\<rparr>
     else if param = 7 then set_mode_bit Awm v g
     else if param = 20 then set_mode_bit Lnm v g
     else if param = 25 then set_mode_bit Dectcem v g
     else if param = 47 then SwitchAltScreen v g
     else if param = 1047 then
       SwitchAltScreen v (if \<not> v \<and> IsAltScreen g then ClearAltScreen g else g)
     else if param = 1048 then (if v then SaveCursor g else RestoreCursor g)
     else if param = 1000 then set_mode_bit Mouse1000 v g
     else if param = 1002 then set_mode_bit Mouse1002 v g
     else if param = 1003 then set_mode_bit Mouse1003 v g
     else if param = 1004 then set_mode_bit FocusEvents v g
     else if param = 1005 then set_mode_bit Mouse1005 v g
     else if param = 1006 then set_mode_bit Mouse1006 v g
     else if param = 1015 then set_mode_bit Mouse1015 v g
     else if param = 1049 then
       (if v then ClearAltScreen (SwitchAltScreen True (SaveCursor g))
        else RestoreCursor (SwitchAltScreen False g))
     else if param = 2004 then set_mode_bit BracketedPaste v g
     else if param = 2026 then set_mode_bit SyncOutput v g
     else g)"

subsection \<open>Select graphic rendition\<close>

definition with_attr :: "EAttr \<Rightarrow> Pen \<Rightarrow> Pen" where
  "with_attr a pen = pen\<lparr>p_Attrs := p_Attrs pen OR attr_flag a\<rparr>"

definition without_attr :: "EAttr \<Rightarrow> Pen \<Rightarrow> Pen" where
  "without_attr a pen = pen\<lparr>p_Attrs := p_Attrs pen AND NOT (attr_flag a)\<rparr>"

definition set_fg :: "EColorKind \<Rightarrow> color \<Rightarrow> Pen \<Rightarrow> Pen" where
  "set_fg k c pen = pen\<lparr>p_FgKind := k, p_Fg := c\<rparr>"

definition set_bg :: "EColorKind \<Rightarrow> color \<Rightarrow> Pen \<Rightarrow> Pen" where
  "set_bg k c pen = pen\<lparr>p_BgKind := k, p_Bg := c\<rparr>"

fun apply_color :: "(EColorKind \<Rightarrow> color \<Rightarrow> Pen \<Rightarrow> Pen) \<Rightarrow> (EColorKind \<times> color) option \<Rightarrow> Pen \<Rightarrow> Pen" where
  "apply_color set_color None pen = pen"
| "apply_color set_color (Some (k, c)) pen = set_color k c pen"

fun apply_underline_color :: "byte option \<Rightarrow> Pen \<Rightarrow> Pen" where
  "apply_underline_color None pen = pen"
| "apply_underline_color (Some u) pen = pen\<lparr>p_UlIdx := u\<rparr>"

text \<open>\<open>while (sub + 1 < count && colon[sub + 1]) ++sub;\<close>\<close>

function sub_end :: "bool list \<Rightarrow> nat \<Rightarrow> nat" where
  "sub_end colon sub =
    (if sub + 1 < length colon \<and> colon ! (sub + 1) then sub_end colon (sub + 1) else sub)"
  by pat_completeness auto
termination
  by (relation "measure (\<lambda>(colon, sub). length colon - sub)") auto

declare sub_end.simps [simp del]

text \<open>The parameters after a 38 or a 48: the colour they name, if any, and the index of the last one
  they use.\<close>

definition sgr_color :: "nat list \<Rightarrow> bool list \<Rightarrow> nat \<Rightarrow> (EColorKind \<times> color) option \<times> nat" where
  "sgr_color params colon i =
    (let n = length params; byte_at = (\<lambda>k. word_of_nat (params ! k) :: byte) in
     if i + 1 < n \<and> colon ! (i + 1) then
       (let sub = sub_end colon (i + 1); nsub = sub - i in
        (if nsub \<ge> 2 \<and> params ! (i + 1) = 5 then Some (Indexed, (byte_at (i + 2), 0, 0))
         else if nsub \<ge> 5 \<and> params ! (i + 1) = 2 then
           Some (TrueColor, (byte_at (i + 3), byte_at (i + 4), byte_at (i + 5)))
         else if nsub \<ge> 4 \<and> params ! (i + 1) = 2 then
           Some (TrueColor, (byte_at (i + 2), byte_at (i + 3), byte_at (i + 4)))
         else None, sub))
     else if i + 2 < n \<and> params ! (i + 1) = 5 then
       (Some (Indexed, (byte_at (i + 2), 0, 0)), i + 2)
     else if i + 4 < n \<and> params ! (i + 1) = 2 then
       (Some (TrueColor, (byte_at (i + 2), byte_at (i + 3), byte_at (i + 4))), i + 4)
     else (None, i))"

definition sgr_underline_color :: "nat list \<Rightarrow> bool list \<Rightarrow> nat \<Rightarrow> byte option \<times> nat" where
  "sgr_underline_color params colon i =
    (let n = length params in
     if i + 1 < n \<and> colon ! (i + 1) then
       (let sub = sub_end colon (i + 1); nsub = sub - i in
        (if nsub \<ge> 2 \<and> params ! (i + 1) = 5 then Some (word_of_nat (params ! (i + 2))) else None, sub))
     else if i + 2 < n \<and> params ! (i + 1) = 5 then (Some (word_of_nat (params ! (i + 2))), i + 2)
     else if i + 4 < n \<and> params ! (i + 1) = 2 then (None, i + 4)
     else (None, i))"

text \<open>One round of the loop: the pen after parameter \<open>i\<close> and the index before \<open>++i\<close>.\<close>

definition sgr_step :: "nat list \<Rightarrow> bool list \<Rightarrow> nat \<Rightarrow> Pen \<Rightarrow> Pen \<times> nat" where
  "sgr_step params colon i pen =
    (let p = params ! i in
     if p = 0 then (default_pen, i)
     else if p = 1 then (with_attr Bold pen, i)
     else if p = 2 then (with_attr Dim pen, i)
     else if p = 3 then (with_attr Italic pen, i)
     else if p = 4 then
       (if i + 1 < length params \<and> colon ! (i + 1) \<and> params ! (i + 1) \<le> 5 then
          (let style = params ! (i + 1) in
           (if style = 0 then (without_attr Underline pen)\<lparr>p_AttrEx := 0\<rparr>
            else (with_attr Underline pen)\<lparr>p_AttrEx := word_of_nat style\<rparr>, i + 1))
        else ((with_attr Underline pen)\<lparr>p_AttrEx := 1\<rparr>, i))
     else if p = 5 then (with_attr Blink pen, i)
     else if p = 7 then (with_attr Inverse pen, i)
     else if p = 8 then (with_attr Invisible pen, i)
     else if p = 9 then (with_attr StrikeThrough pen, i)
     else if p = 21 then ((with_attr Underline pen)\<lparr>p_AttrEx := 2\<rparr>, i)
     else if p = 22 then (without_attr Bold (without_attr Dim pen), i)
     else if p = 23 then (without_attr Italic pen, i)
     else if p = 24 then ((without_attr Underline pen)\<lparr>p_AttrEx := 0\<rparr>, i)
     else if p = 25 then (without_attr Blink pen, i)
     else if p = 27 then (without_attr Inverse pen, i)
     else if p = 28 then (without_attr Invisible pen, i)
     else if p = 29 then (without_attr StrikeThrough pen, i)
     else if 30 \<le> p \<and> p \<le> 37 then (set_fg Indexed (word_of_nat (p - 30), 0, 0) pen, i)
     else if p = 38 then
       (case sgr_color params colon i of (c, j) \<Rightarrow> (apply_color set_fg c pen, j))
     else if p = 39 then (set_fg Default (0, 0, 0) pen, i)
     else if 40 \<le> p \<and> p \<le> 47 then (set_bg Indexed (word_of_nat (p - 40), 0, 0) pen, i)
     else if p = 48 then
       (case sgr_color params colon i of (c, j) \<Rightarrow> (apply_color set_bg c pen, j))
     else if p = 49 then (set_bg Default (0, 0, 0) pen, i)
     else if p = 58 then
       (case sgr_underline_color params colon i of (u, j) \<Rightarrow> (apply_underline_color u pen, j))
     else if p = 59 then (pen\<lparr>p_UlIdx := 0\<rparr>, i)
     else if 90 \<le> p \<and> p \<le> 97 then (set_fg Indexed (word_of_nat (p - 90 + 8), 0, 0) pen, i)
     else if 100 \<le> p \<and> p \<le> 107 then (set_bg Indexed (word_of_nat (p - 100 + 8), 0, 0) pen, i)
     else (pen, i))"

lemma sub_end_ge: "sub \<le> sub_end colon sub"
  by (induction colon sub rule: sub_end.induct) (subst sub_end.simps, auto)

lemma sgr_color_ge: "i \<le> snd (sgr_color params colon i)"
  using sub_end_ge [of "i + 1" colon] by (simp add: sgr_color_def Let_def)

lemma sgr_underline_color_ge: "i \<le> snd (sgr_underline_color params colon i)"
  using sub_end_ge [of "i + 1" colon] by (simp add: sgr_underline_color_def Let_def)

lemma sgr_step_ge: "i \<le> snd (sgr_step params colon i pen)"
  using sgr_color_ge [of i params colon] sgr_underline_color_ge [of i params colon]
  by (cases "sgr_color params colon i"; cases "sgr_underline_color params colon i")
     (simp add: sgr_step_def Let_def)

function sgr_loop :: "nat list \<Rightarrow> bool list \<Rightarrow> nat \<Rightarrow> Pen \<Rightarrow> Pen" where
  "sgr_loop params colon i pen =
    (if i < length params then
       sgr_loop params colon (snd (sgr_step params colon i pen) + 1) (fst (sgr_step params colon i pen))
     else pen)"
  by pat_completeness auto
termination
proof (relation "measure (\<lambda>(params, colon, i, pen). length params - i)", goal_cases)
  case (2 params colon i pen)
  then show ?case
    using sgr_step_ge [of i params colon pen] by auto
qed simp

declare sgr_loop.simps [simp del]

definition ApplySgr :: "nat list \<Rightarrow> bool list \<Rightarrow> Grid \<Rightarrow> Grid" where
  "ApplySgr params colon g =
    g\<lparr>gr_Pen := (if params = [] then default_pen else sgr_loop params colon 0 (gr_Pen g))\<rparr>"

subsection \<open>Reset and the rest\<close>

definition g_Reset :: "bool \<Rightarrow> Grid \<Rightarrow> Grid" where
  "g_Reset hard g =
    (let g = g\<lparr>gr_Pen := default_pen, gr_ScrollTop := 0, gr_ScrollBot := u16_minus (gr_Rows g) 1,
               gr_CharsetActive := 0, gr_CharsetG0 := 0, gr_CharsetG1 := 0\<rparr> in
     if hard then
       (let g = g\<lparr>gr_CursorRow := 0, gr_CursorCol := 0, gr_PendingWrap := False,
                  gr_Modes := default_modes\<rparr>;
            g = fold (\<lambda>r g. g\<lparr>
                  gr_Main := (gr_Main g)[r := ClearLine (BlankCell g) (gr_Cols g) (gr_Main g ! r)],
                  gr_Alt := (gr_Alt g)[r := ClearLine (BlankCell g) (gr_Cols g) (gr_Alt g ! r)]\<rparr>)
                  [0..<gr_Rows g] g
        in g\<lparr>gr_HistoryStart := 0, gr_HistorySize := 0,
             gr_TabStops := default_stops 0 (gr_Cols g) no_stops,
             gr_SavedMain := default_saved, gr_SavedAlt := default_saved, gr_CursorStyle := 0\<rparr>)
     else
       (let wasAlt = ModeSet AltScreen g;
            g = g\<lparr>gr_Modes := default_modes\<rparr>
        in if wasAlt then g\<lparr>gr_Modes := gr_Modes g OR ModeFlag AltScreen\<rparr> else g))"

definition SetCursorStyle :: "nat \<Rightarrow> Grid \<Rightarrow> Grid" where
  "SetCursorStyle style g = g\<lparr>gr_CursorStyle := style\<rparr>"

definition SetTabStop :: "Grid \<Rightarrow> Grid" where
  "SetTabStop g =
    (if gr_CursorCol g < gr_Cols g
     then g\<lparr>gr_TabStops := set_stop (gr_CursorCol g) (gr_TabStops g)\<rparr> else g)"

definition ClearTabStop :: "nat \<Rightarrow> Grid \<Rightarrow> Grid" where
  "ClearTabStop param g =
    (if param = 0 then
       (if gr_CursorCol g < gr_Cols g
        then g\<lparr>gr_TabStops := clear_stop (gr_CursorCol g) (gr_TabStops g)\<rparr> else g)
     else if param = 3 then g\<lparr>gr_TabStops := no_stops\<rparr>
     else g)"

definition ShiftCharset :: "bool \<Rightarrow> Grid \<Rightarrow> Grid" where
  "ShiftCharset out g = g\<lparr>gr_CharsetActive := (if out then 1 else 0)\<rparr>"

definition DesignateCharset :: "nat \<Rightarrow> nat \<Rightarrow> Grid \<Rightarrow> Grid" where
  "DesignateCharset gset designator g =
    (let mapped = (if designator = 0x30 then 1 else 0) in
     if gset = 0 then g\<lparr>gr_CharsetG0 := mapped\<rparr> else g\<lparr>gr_CharsetG1 := mapped\<rparr>)"

definition SetPossiblyDiverged :: "bool \<Rightarrow> Grid \<Rightarrow> Grid" where
  "SetPossiblyDiverged v g = g\<lparr>gr_PossiblyDiverged := v\<rparr>"

subsection \<open>Resize\<close>

text \<open>The wide head at the last column that survives, blanked in the old buffers.\<close>

definition blank_cut :: "Cell \<Rightarrow> nat \<Rightarrow> row \<Rightarrow> row" where
  "blank_cut blank newCols line =
    (if c_Width (line ! (newCols - 1)) = 2 then line[newCols - 1 := blank] else line)"

definition blank_cuts :: "nat \<Rightarrow> Grid \<Rightarrow> Grid" where
  "blank_cuts newCols g =
    (if newCols < gr_Cols g then
       (let blank = BlankCell g;
            g = g\<lparr>gr_Main := map (blank_cut blank newCols) (gr_Main g),
                  gr_Alt := map (blank_cut blank newCols) (gr_Alt g)\<rparr>
        in if gr_History g \<noteq> [] then
             fold (\<lambda>i g.
               let src = (gr_HistoryStart g + i) mod gr_ScrollbackLimit g in
               g\<lparr>gr_History := (gr_History g)[src := blank_cut blank newCols (gr_History g ! src)]\<rparr>)
               [0..<gr_HistorySize g] g
           else g)
     else g)"

text \<open>A new row filled from the first \<open>clampCols\<close> cells of an old one.\<close>

definition fit_row :: "nat \<Rightarrow> nat \<Rightarrow> row \<Rightarrow> row" where
  "fit_row newCols clampCols line = CopyCells line clampCols (replicate newCols default_cell)"

definition fit_screen :: "nat \<Rightarrow> nat \<Rightarrow> nat \<Rightarrow> nat \<Rightarrow> row list \<Rightarrow> row list" where
  "fit_screen newCols newRows clampCols oldRows lines =
    (let copyRows = (if newRows < oldRows then newRows else oldRows);
         srcStart = (if newRows < oldRows then oldRows - newRows else 0)
     in fold (\<lambda>r scr. scr[r := fit_row newCols clampCols (lines ! (srcStart + r))])
          [0..<copyRows] (blank_screen newCols newRows))"

definition fit_history :: "nat \<Rightarrow> nat \<Rightarrow> Grid \<Rightarrow> row list" where
  "fit_history newCols clampCols g =
    fold (\<lambda>i h. h[i := fit_row newCols clampCols
             (gr_History g ! ((gr_HistoryStart g + i) mod gr_ScrollbackLimit g))])
      [0..<min (gr_HistorySize g) (gr_ScrollbackLimit g)]
      (blank_screen newCols (gr_ScrollbackLimit g))"

definition clamp_saved :: "nat \<Rightarrow> nat \<Rightarrow> SavedCursor \<Rightarrow> SavedCursor" where
  "clamp_saved newCols newRows sc =
    (let sc = (if sc_Row sc \<ge> newRows then sc\<lparr>sc_Row := u16_minus newRows 1\<rparr> else sc)
     in if sc_Col sc \<ge> newCols then sc\<lparr>sc_Col := u16_minus newCols 1\<rparr> else sc)"

text \<open>Phase 1 of the code: four requests for the screens, and two for the history when the columns change. The new buffers are
  locals of \<open>Resize\<close> until every request has succeeded, and none of the requests reads what another one returned, so only
  whether all of them succeed matters to what follows.\<close>

definition resize_allocates :: "(nat \<Rightarrow> bool) \<Rightarrow> nat \<Rightarrow> Grid \<Rightarrow> bool" where
  "resize_allocates alloc newCols g =
    (alloc 0 \<and> alloc 1 \<and> alloc 2 \<and> alloc 3 \<and>
     (newCols \<noteq> gr_Cols g \<and> gr_History g \<noteq> [] \<longrightarrow>
        gr_ScrollbackLimit g * newCols * CELL_SIZE \<le> MAX_SCROLLBACK_BYTES \<and> alloc 4 \<and> alloc 5))"

text \<open>Phase 2, once every request has succeeded.\<close>

definition resize_to :: "nat \<Rightarrow> nat \<Rightarrow> Grid \<Rightarrow> Grid" where
  "resize_to newCols newRows g =
    (let oldRows = gr_Rows g; oldCols = gr_Cols g;
         clampCols = (if newCols < oldCols then newCols else oldCols);
         g = blank_cuts newCols g;
         g = (if newRows < oldRows \<and> \<not> IsAltScreen g
              then fold PushScrollback [0..<oldRows - newRows] g else g);
         g = g\<lparr>gr_Main := fit_screen newCols newRows clampCols oldRows (gr_Main g),
               gr_Alt := fit_screen newCols newRows clampCols oldRows (gr_Alt g)\<rparr>;
         g = (if newCols \<noteq> oldCols \<and> gr_History g \<noteq> []
              then g\<lparr>gr_History := fit_history newCols clampCols g, gr_HistoryStart := 0\<rparr> else g);
         g = (if newCols > oldCols
              then g\<lparr>gr_TabStops := default_stops
                      (u16 ((oldCols + DEFAULT_TAB_INTERVAL - 1) div DEFAULT_TAB_INTERVAL
                            * DEFAULT_TAB_INTERVAL)) newCols (gr_TabStops g)\<rparr> else g);
         g = g\<lparr>gr_Cols := newCols, gr_Rows := newRows, gr_ScrollTop := 0,
               gr_ScrollBot := u16_minus newRows 1\<rparr>;
         g = (if newRows < oldRows then
                g\<lparr>gr_CursorRow := (if gr_CursorRow g \<ge> oldRows - newRows
                                   then gr_CursorRow g - (oldRows - newRows) else 0)\<rparr>
              else if gr_CursorRow g \<ge> newRows then g\<lparr>gr_CursorRow := u16_minus newRows 1\<rparr> else g);
         g = (if gr_CursorCol g \<ge> newCols then g\<lparr>gr_CursorCol := u16_minus newCols 1\<rparr> else g)
     in g\<lparr>gr_PendingWrap := False,
          gr_SavedMain := clamp_saved newCols newRows (gr_SavedMain g),
          gr_SavedAlt := clamp_saved newCols newRows (gr_SavedAlt g)\<rparr>)"

definition g_Resize :: "(nat \<Rightarrow> bool) \<Rightarrow> nat \<Rightarrow> nat \<Rightarrow> Grid \<Rightarrow> (EGridError + unit) \<times> Grid" where
  "g_Resize alloc newCols newRows g =
    (let (newCols, newRows) = ClampScreenSize newCols newRows in
     if newCols = gr_Cols g \<and> newRows = gr_Rows g then (Inr (), g)
     else if \<not> resize_allocates alloc newCols g then (Inl AllocationFailed, g)
     else (Inr (), resize_to newCols newRows g))"

end
