(* ===== verification/Grid_Parser.thy ===== *)
theory Grid_Parser
  imports Grid_Screen Grid_Unicode
begin

text \<open>
  The VT parser: \<^verbatim>\<open>grid/vt_parser.hpp\<close> and \<^verbatim>\<open>grid/vt_parser.cpp\<close>. A parser is a record of the members of
  \<open>VtParser\<close>; \<open>ParamBuf_\<close> and \<open>Intermediates_\<close> are the bytes held (the first \<open>ParamLen_\<close> and
  \<open>IntermediateCount_\<close> of the arrays). The calls of the bypass callback are logged in \<open>vp_Bypass\<close>, oldest
  first. Every operation takes the parser and the grid it feeds and hands both back.
\<close>

unbundle bit_operations_syntax

subsection \<open>State\<close>

definition MAX_PARAM_BYTES :: nat where "MAX_PARAM_BYTES = 256"
definition MAX_PARAMS :: nat where "MAX_PARAMS = 16"
definition MAX_INTERMEDIATES :: nat where "MAX_INTERMEDIATES = 2"
definition BYPASS_LIMIT_BYTES :: nat where "BYPASS_LIMIT_BYTES = 1 * 1024 * 1024"

datatype EParserState = Ground | Escape | EscapeIntermediate | CsiEntry | CsiParam | CsiIntermediate
  | CsiIgnore | DcsEntry | DcsParam | DcsIntermediate | DcsPassthrough | DcsIgnore | OscString
  | SosPmApcString | Bypass

datatype EBypassEvent = BypassStart | BypassByte | BypassEnd

record VtParser =
  vp_State :: EParserState
  vp_Utf8Accumulator :: nat
  vp_Utf8Remaining :: nat
  vp_Utf8SeqLen :: nat
  vp_Params :: bytes
  vp_Intermediates :: bytes
  vp_PrivateMarker :: nat
  vp_InOsc :: bool
  vp_BypassBytes :: nat
  vp_Bypass :: "(EBypassEvent \<times> byte) list"
  vp_UnknownSeqCount :: u64

definition vt_Reset :: "VtParser \<Rightarrow> VtParser" where
  "vt_Reset p = p\<lparr>vp_State := Ground, vp_Utf8Accumulator := 0, vp_Utf8Remaining := 0, vp_Params := [],
     vp_Intermediates := [], vp_PrivateMarker := 0, vp_InOsc := False, vp_BypassBytes := 0\<rparr>"

definition mk_VtParser :: VtParser where
  "mk_VtParser = vt_Reset \<lparr> vp_State = Ground, vp_Utf8Accumulator = 0, vp_Utf8Remaining = 0,
     vp_Utf8SeqLen = 0, vp_Params = [], vp_Intermediates = [], vp_PrivateMarker = 0, vp_InOsc = False,
     vp_BypassBytes = 0, vp_Bypass = [], vp_UnknownSeqCount = 0 \<rparr>"

subsection \<open>Helpers\<close>

definition IsUtf8Continuation :: "byte \<Rightarrow> bool" where
  "IsUtf8Continuation b = (b AND 0xC0 = 0x80)"

definition Utf8LeadLength :: "byte \<Rightarrow> nat" where
  "Utf8LeadLength b =
    (if b AND 0xE0 = 0xC0 then 1
     else if b AND 0xF0 = 0xE0 then 2
     else if b AND 0xF8 = 0xF0 then 3
     else 0)"

definition LEAD_MASK :: "byte list" where
  "LEAD_MASK = [0, 0x1F, 0x0F, 0x07]"

definition MIN_CP :: "nat list" where
  "MIN_CP = [0, 0x80, 0x800, 0x10000]"

definition ClearParams :: "VtParser \<Rightarrow> VtParser" where
  "ClearParams p = p\<lparr>vp_Params := []\<rparr>"

definition AddParam :: "byte \<Rightarrow> VtParser \<Rightarrow> VtParser" where
  "AddParam ch p =
    (if length (vp_Params p) < MAX_PARAM_BYTES - 1 then p\<lparr>vp_Params := vp_Params p @ [ch]\<rparr> else p)"

definition CollectIntermediate :: "byte \<Rightarrow> VtParser \<Rightarrow> VtParser" where
  "CollectIntermediate ch p =
    (if length (vp_Intermediates p) < MAX_INTERMEDIATES
     then p\<lparr>vp_Intermediates := vp_Intermediates p @ [ch]\<rparr> else p)"

definition EmitBypass :: "EBypassEvent \<Rightarrow> byte \<Rightarrow> VtParser \<Rightarrow> VtParser" where
  "EmitBypass e b p = p\<lparr>vp_Bypass := vp_Bypass p @ [(e, b)]\<rparr>"

definition CountUnknown :: "VtParser \<Rightarrow> VtParser" where
  "CountUnknown p = p\<lparr>vp_UnknownSeqCount := vp_UnknownSeqCount p + 1\<rparr>"

text \<open>\<open>ClearParams(); IntermediateCount_ = 0; PrivateMarker_ = 0;\<close>\<close>

definition clear_sequence :: "VtParser \<Rightarrow> VtParser" where
  "clear_sequence p = (ClearParams p)\<lparr>vp_Intermediates := [], vp_PrivateMarker := 0\<rparr>"

definition TransitionTo :: "EParserState \<Rightarrow> VtParser \<Rightarrow> VtParser" where
  "TransitionTo next p =
    (case next of
       Ground \<Rightarrow> (clear_sequence p)\<lparr>vp_BypassBytes := 0, vp_InOsc := False\<rparr>
     | CsiEntry \<Rightarrow> clear_sequence p
     | DcsEntry \<Rightarrow> clear_sequence p
     | _ \<Rightarrow> p)\<lparr>vp_State := next\<rparr>"

definition HandleControl :: "nat \<Rightarrow> Grid \<Rightarrow> Grid" where
  "HandleControl c g =
    (if c = 0x08 then Backspace g
     else if c = 0x09 then HorizontalTab g
     else if c = 0x0A \<or> c = 0x0B \<or> c = 0x0C then LineFeed g
     else if c = 0x0D then CarriageReturn g
     else if c = 0x0E then ShiftCharset True g
     else if c = 0x0F then ShiftCharset False g
     else g)"

subsection \<open>Parameters\<close>

text \<open>The loop of \<open>ParseParams\<close>: the values found so far with their separators, the accumulator, whether
  it holds a digit, and whether a colon preceded it.\<close>

fun parse_params_loop :: "nat \<Rightarrow> (nat \<times> bool) list \<Rightarrow> nat \<Rightarrow> bool \<Rightarrow> bool \<Rightarrow> bytes \<Rightarrow> (nat \<times> bool) list" where
  "parse_params_loop maxOut out acc hasDigit prevColon [] =
    (if length out < maxOut then out @ [(if hasDigit then u16 acc else 0, prevColon)] else out)"
| "parse_params_loop maxOut out acc hasDigit prevColon (ch # rest) =
    (if 0x30 \<le> ch \<and> ch \<le> 0x39 then
       (let acc = acc * 10 + (unat ch - 0x30);
            acc = (if acc > 0xFFFF then 0xFFFF else acc)
        in parse_params_loop maxOut out acc True prevColon rest)
     else if ch = 0x3B \<or> ch = 0x3A then
       parse_params_loop maxOut
         (if length out < maxOut then out @ [(if hasDigit then u16 acc else 0, prevColon)] else out)
         0 False (ch = 0x3A) rest
     else parse_params_loop maxOut out acc hasDigit prevColon rest)"

definition ParseParams :: "nat \<Rightarrow> VtParser \<Rightarrow> (nat \<times> bool) list" where
  "ParseParams maxOut p =
    (let buf = vp_Params p;
         start = (if buf \<noteq> [] \<and> 0x3C \<le> buf ! 0 \<and> buf ! 0 \<le> 0x3F then 1 else 0)
     in parse_params_loop maxOut [] 0 False False (drop start buf))"

subsection \<open>Dispatch\<close>

text \<open>\<open>++UnknownSeqCount_\<close> with the grid untouched, and a grid mutator with the parser untouched.\<close>

abbreviation unknown :: "VtParser \<times> Grid \<Rightarrow> VtParser \<times> Grid" where
  "unknown \<equiv> apfst CountUnknown"

definition DispatchEsc :: "nat \<Rightarrow> VtParser \<times> Grid \<Rightarrow> VtParser \<times> Grid" where
  "DispatchEsc fin pg =
    (let p = fst pg; inter = vp_Intermediates p in
     if length inter = 0 then
       (if fin = 0x37 then apsnd SaveCursor pg
        else if fin = 0x38 then apsnd RestoreCursor pg
        else if fin = 0x44 then apsnd g_Index pg
        else if fin = 0x45 then apsnd (\<lambda>g. LineFeed (CarriageReturn g)) pg
        else if fin = 0x48 then apsnd SetTabStop pg
        else if fin = 0x4D then apsnd ReverseIndex pg
        else if fin = 0x63 then apsnd (g_Reset True) pg
        else if fin = 0x5C then pg
        else unknown pg)
     else if length inter = 1 \<and> inter ! 0 = 0x28 then apsnd (DesignateCharset 0 fin) pg
     else if length inter = 1 \<and> inter ! 0 = 0x29 then apsnd (DesignateCharset 1 fin) pg
     else unknown pg)"

text \<open>The two lambdas of \<open>DispatchCsi\<close>: a parameter with a default, and one without.\<close>

definition csi_p :: "nat list \<Rightarrow> nat \<Rightarrow> nat \<Rightarrow> nat" where
  "csi_p params idx def =
    (if idx < length params \<and> (params ! idx > 0 \<or> idx < length params)
     then (if params ! idx > 0 then params ! idx else def) else def)"

definition csi_p0 :: "nat list \<Rightarrow> nat \<Rightarrow> nat" where
  "csi_p0 params idx = (if idx < length params then params ! idx else 0)"

definition set_private_modes :: "bool \<Rightarrow> nat list \<Rightarrow> Grid \<Rightarrow> Grid" where
  "set_private_modes v params g =
    fold (\<lambda>p g. if p = 4 \<or> p = 20 then g else SetMode p v g) params g"

definition set_ansi_modes :: "bool \<Rightarrow> nat list \<Rightarrow> Grid \<Rightarrow> Grid" where
  "set_ansi_modes v params g =
    fold (\<lambda>p g. let g = (if p = 4 then SetMode 4 v g else g) in
                if p = 20 then SetMode 20 v g else g) params g"

definition csi_private :: "nat list \<Rightarrow> nat \<Rightarrow> VtParser \<times> Grid \<Rightarrow> VtParser \<times> Grid" where
  "csi_private params fin pg =
    (if vp_PrivateMarker (fst pg) = 0x3F \<and> fin = 0x68 then apsnd (set_private_modes True params) pg
     else if vp_PrivateMarker (fst pg) = 0x3F \<and> fin = 0x6C then apsnd (set_private_modes False params) pg
     else unknown pg)"

definition csi_public :: "nat list \<Rightarrow> bool list \<Rightarrow> nat \<Rightarrow> VtParser \<times> Grid \<Rightarrow> VtParser \<times> Grid" where
  "csi_public params colon fin pg =
    (let inter = vp_Intermediates (fst pg); p = csi_p params; p0 = csi_p0 params in
     if fin = 0x41 then apsnd (MoveCursorUp (p 0 1)) pg
     else if fin = 0x42 then apsnd (MoveCursorDown (p 0 1)) pg
     else if fin = 0x43 then apsnd (MoveCursorRight (p 0 1)) pg
     else if fin = 0x44 then apsnd (MoveCursorLeft (p 0 1)) pg
     else if fin = 0x45 then apsnd (CursorNextLine (p 0 1)) pg
     else if fin = 0x46 then apsnd (CursorPrevLine (p 0 1)) pg
     else if fin = 0x47 then apsnd (MoveCursorToCol (p 0 1)) pg
     else if fin = 0x48 \<or> fin = 0x66 then apsnd (MoveCursorTo (p 0 1) (p 1 1)) pg
     else if fin = 0x49 then apsnd (HorizontalTab ^^ p 0 1) pg
     else if fin = 0x5A then apsnd (HorizontalTabBack (p 0 1)) pg
     else if fin = 0x61 then apsnd (MoveCursorRight (p 0 1)) pg
     else if fin = 0x65 then apsnd (MoveCursorDown (p 0 1)) pg
     else if fin = 0x64 then apsnd (MoveCursorToRow (p 0 1)) pg
     else if fin = 0x4A then apsnd (EraseInDisplay (u8 (p0 0))) pg
     else if fin = 0x4B then apsnd (EraseInLine (u8 (p0 0))) pg
     else if fin = 0x58 then apsnd (EraseChars (p 0 1)) pg
     else if fin = 0x4C then apsnd (InsertLines (p 0 1)) pg
     else if fin = 0x4D then apsnd (DeleteLines (p 0 1)) pg
     else if fin = 0x50 then apsnd (DeleteChars (p 0 1)) pg
     else if fin = 0x40 then apsnd (InsertChars (p 0 1)) pg
     else if fin = 0x53 then apsnd (ScrollUp (p 0 1)) pg
     else if fin = 0x54 then apsnd (ScrollDown (p 0 1)) pg
     else if fin = 0x6D then apsnd (ApplySgr params colon) pg
     else if fin = 0x68 then apsnd (set_ansi_modes True params) pg
     else if fin = 0x6C then apsnd (set_ansi_modes False params) pg
     else if fin = 0x72 then
       (if length inter = 0 \<and> vp_PrivateMarker (fst pg) = 0
        then apsnd (\<lambda>g. SetScrollRegion (p 0 1) (p 1 (gr_Rows g)) g) pg else unknown pg)
     else if fin = 0x67 then apsnd (ClearTabStop (u8 (p0 0))) pg
     else if fin = 0x73 then apsnd SaveCursor pg
     else if fin = 0x75 then apsnd RestoreCursor pg
     else if fin = 0x70 then
       (if length inter = 1 \<and> inter ! 0 = 0x21 then apsnd (g_Reset False) pg else unknown pg)
     else if fin = 0x71 then
       (if length inter = 1 \<and> inter ! 0 = 0x20 then apsnd (SetCursorStyle (u8 (p0 0))) pg
        else unknown pg)
     else if fin = 0x62 then apsnd (RepeatChar (p 0 1)) pg
     else if fin = 0x63 \<or> fin = 0x6E then pg
     else unknown pg)"

definition DispatchCsi :: "nat \<Rightarrow> VtParser \<times> Grid \<Rightarrow> VtParser \<times> Grid" where
  "DispatchCsi fin pg =
    (let pc = ParseParams MAX_PARAMS (fst pg); params = map fst pc; colon = map snd pc in
     if vp_PrivateMarker (fst pg) \<noteq> 0 then csi_private params fin pg
     else csi_public params colon fin pg)"

subsection \<open>One byte\<close>

text \<open>The end of a bypassed string: \<open>EmitBypassEnd(); BypassBytes_ = 0; InOsc_ = false;\<close> and the state.\<close>

definition leave_bypass :: "EParserState \<Rightarrow> VtParser \<Rightarrow> VtParser" where
  "leave_bypass next p = (EmitBypass BypassEnd 0 p)\<lparr>vp_BypassBytes := 0, vp_InOsc := False, vp_State := next\<rparr>"

definition enter_bypass :: "bool \<Rightarrow> VtParser \<Rightarrow> VtParser" where
  "enter_bypass osc p = EmitBypass BypassStart 0 (p\<lparr>vp_InOsc := osc, vp_BypassBytes := 0, vp_State := Bypass\<rparr>)"

definition feed_bypass :: "byte \<Rightarrow> VtParser \<times> Grid \<Rightarrow> VtParser \<times> Grid" where
  "feed_bypass b pg =
    (let p = fst pg; g = snd pg; raw = unat b in
     if raw = 0x18 \<or> raw = 0x1A then (leave_bypass Ground p, g)
     else if raw = 0x1B then (leave_bypass Escape p, g)
     else if raw = 0x07 \<and> vp_InOsc p then (leave_bypass Ground p, g)
     else
       let p = p\<lparr>vp_BypassBytes := vp_BypassBytes p + 1\<rparr> in
       if vp_BypassBytes p \<ge> BYPASS_LIMIT_BYTES
       then (leave_bypass Ground p, SetPossiblyDiverged True g)
       else (EmitBypass BypassByte b p, g))"

text \<open>The code point a finished UTF-8 sequence stands for, and what becomes of it.\<close>

definition utf8_value :: "nat \<Rightarrow> nat \<Rightarrow> nat" where
  "utf8_value sl cp =
    (if cp < MIN_CP ! (if sl < 4 then sl else 3) \<or> cp > 0x10FFFF \<or> (0xD800 \<le> cp \<and> cp \<le> 0xDFFF)
     then 0xFFFD else cp)"

definition put_codepoint :: "nat \<Rightarrow> Grid \<Rightarrow> Grid" where
  "put_codepoint cp g = (let w = Wcwidth cp in PutChar cp (if w \<ge> 0 then nat w else 1) g)"

definition utf8_continue :: "byte \<Rightarrow> VtParser \<times> Grid \<Rightarrow> VtParser \<times> Grid" where
  "utf8_continue b pg =
    (let p = fst pg; g = snd pg;
         p = p\<lparr>vp_Utf8Accumulator :=
                take_bit 32 (push_bit 6 (vp_Utf8Accumulator p)) OR (unat b AND 0x3F),
               vp_Utf8Remaining := vp_Utf8Remaining p - 1\<rparr>
     in if vp_Utf8Remaining p = 0 then
          (let cp = utf8_value (vp_Utf8SeqLen p) (vp_Utf8Accumulator p) in
           if 0x80 \<le> cp \<and> cp \<le> 0x9F then (p, g)
           else if vp_State p = Ground then (p, put_codepoint cp g)
           else (p, g))
        else (p, g))"

text \<open>The rest of \<open>FeedByte\<close>, once no UTF-8 sequence is open: the switch over the state.\<close>

definition dispatch_esc_ground :: "byte \<Rightarrow> VtParser \<times> Grid \<Rightarrow> VtParser \<times> Grid" where
  "dispatch_esc_ground b pg = apfst (TransitionTo Ground) (DispatchEsc (unat b) pg)"

definition dispatch_csi_ground :: "byte \<Rightarrow> VtParser \<times> Grid \<Rightarrow> VtParser \<times> Grid" where
  "dispatch_csi_ground b pg = apfst (TransitionTo Ground) (DispatchCsi (unat b) pg)"

definition feed_escape :: "byte \<Rightarrow> VtParser \<times> Grid \<Rightarrow> VtParser \<times> Grid" where
  "feed_escape b pg =
    (let raw = unat b in
     if 0x20 \<le> raw \<and> raw \<le> 0x2F then
       apfst (\<lambda>p. (CollectIntermediate b p)\<lparr>vp_State := EscapeIntermediate\<rparr>) pg
     else if 0x30 \<le> raw \<and> raw \<le> 0x4F then dispatch_esc_ground b pg
     else if raw = 0x50 then apfst (TransitionTo DcsEntry) pg
     else if raw = 0x5B then apfst (\<lambda>p. (clear_sequence p)\<lparr>vp_State := CsiEntry\<rparr>) pg
     else if raw = 0x5D then apfst (enter_bypass True) pg
     else if raw = 0x58 \<or> raw = 0x5E \<or> raw = 0x5F then apfst (enter_bypass False) pg
     else if 0x51 \<le> raw \<and> raw \<le> 0x57 then dispatch_esc_ground b pg
     else if 0x59 \<le> raw \<and> raw \<le> 0x7E then dispatch_esc_ground b pg
     else pg)"

definition feed_csi_entry :: "byte \<Rightarrow> VtParser \<times> Grid \<Rightarrow> VtParser \<times> Grid" where
  "feed_csi_entry b pg =
    (let raw = unat b in
     if 0x30 \<le> raw \<and> raw \<le> 0x39 then apfst (\<lambda>p. (AddParam b p)\<lparr>vp_State := CsiParam\<rparr>) pg
     else if raw = 0x3A \<or> raw = 0x3B then apfst (\<lambda>p. (AddParam b p)\<lparr>vp_State := CsiParam\<rparr>) pg
     else if 0x3C \<le> raw \<and> raw \<le> 0x3F then
       apfst (\<lambda>p. (AddParam b (p\<lparr>vp_PrivateMarker := raw\<rparr>))\<lparr>vp_State := CsiParam\<rparr>) pg
     else if 0x20 \<le> raw \<and> raw \<le> 0x2F then
       apfst (\<lambda>p. (CollectIntermediate b p)\<lparr>vp_State := CsiIntermediate\<rparr>) pg
     else if 0x40 \<le> raw \<and> raw \<le> 0x7E then dispatch_csi_ground b pg
     else pg)"

definition feed_state :: "byte \<Rightarrow> VtParser \<times> Grid \<Rightarrow> VtParser \<times> Grid" where
  "feed_state b pg =
    (let raw = unat b in
     case vp_State (fst pg) of
       Ground \<Rightarrow> (if 0x20 \<le> raw \<and> raw \<le> 0x7E then apsnd (PutChar raw 1) pg else pg)
     | Escape \<Rightarrow> feed_escape b pg
     | EscapeIntermediate \<Rightarrow>
         (if 0x20 \<le> raw \<and> raw \<le> 0x2F then apfst (CollectIntermediate b) pg
          else if 0x30 \<le> raw \<and> raw \<le> 0x7E then dispatch_esc_ground b pg
          else pg)
     | CsiEntry \<Rightarrow> feed_csi_entry b pg
     | CsiParam \<Rightarrow>
         (if 0x30 \<le> raw \<and> raw \<le> 0x3F then apfst (AddParam b) pg
          else if 0x20 \<le> raw \<and> raw \<le> 0x2F then
            apfst (\<lambda>p. (CollectIntermediate b p)\<lparr>vp_State := CsiIntermediate\<rparr>) pg
          else if 0x40 \<le> raw \<and> raw \<le> 0x7E then dispatch_csi_ground b pg
          else pg)
     | CsiIntermediate \<Rightarrow>
         (if 0x20 \<le> raw \<and> raw \<le> 0x2F then apfst (CollectIntermediate b) pg
          else if 0x40 \<le> raw \<and> raw \<le> 0x7E then dispatch_csi_ground b pg
          else if 0x30 \<le> raw \<and> raw \<le> 0x3F then apfst (\<lambda>p. p\<lparr>vp_State := CsiIgnore\<rparr>) pg
          else pg)
     | CsiIgnore \<Rightarrow>
         (if 0x40 \<le> raw \<and> raw \<le> 0x7E then apfst (\<lambda>p. TransitionTo Ground (CountUnknown p)) pg else pg)
     | DcsEntry \<Rightarrow> apfst (\<lambda>p. EmitBypass BypassByte b (enter_bypass False p)) pg
     | DcsParam \<Rightarrow> apfst (\<lambda>p. EmitBypass BypassByte b (enter_bypass False p)) pg
     | DcsIntermediate \<Rightarrow> apfst (\<lambda>p. EmitBypass BypassByte b (enter_bypass False p)) pg
     | DcsPassthrough \<Rightarrow> apfst (\<lambda>p. EmitBypass BypassByte b (enter_bypass False p)) pg
     | DcsIgnore \<Rightarrow> apfst (\<lambda>p. EmitBypass BypassByte b (enter_bypass False p)) pg
     | OscString \<Rightarrow> apfst (\<lambda>p. EmitBypass BypassByte b
                     (EmitBypass BypassStart 0 (p\<lparr>vp_State := Bypass\<rparr>))) pg
     | SosPmApcString \<Rightarrow> apfst (\<lambda>p. EmitBypass BypassByte b
                          (EmitBypass BypassStart 0 (p\<lparr>vp_State := Bypass\<rparr>))) pg
     | Bypass \<Rightarrow> pg)"

definition feed_plain :: "byte \<Rightarrow> VtParser \<times> Grid \<Rightarrow> VtParser \<times> Grid" where
  "feed_plain b pg =
    (let raw = unat b in
     if 0xC0 \<le> raw \<and> raw \<le> 0xFF \<and> vp_State (fst pg) = Ground then
       (let extra = Utf8LeadLength b in
        if extra > 0 then
          apfst (\<lambda>p. p\<lparr>vp_Utf8Accumulator := unat (b AND LEAD_MASK ! extra),
                       vp_Utf8Remaining := extra, vp_Utf8SeqLen := extra\<rparr>) pg
        else apsnd (PutChar 0xFFFD 1) pg)
     else if raw < 0x20 then apsnd (HandleControl raw) pg
     else if raw = 0x7F then pg
     else feed_state b pg)"

definition FeedByte :: "byte \<Rightarrow> VtParser \<times> Grid \<Rightarrow> VtParser \<times> Grid" where
  "FeedByte b pg =
    (let raw = unat b in
     if vp_State (fst pg) = Bypass then feed_bypass b pg
     else if raw = 0x18 \<or> raw = 0x1A then
       (let pg = apfst (\<lambda>p. TransitionTo Ground (p\<lparr>vp_Utf8Remaining := 0\<rparr>)) pg in
        if raw = 0x1A then apsnd (PutChar 0xFFFD 1) pg else pg)
     else if raw = 0x1B then
       apfst (\<lambda>p. (clear_sequence (p\<lparr>vp_Utf8Remaining := 0\<rparr>))\<lparr>vp_State := Escape\<rparr>) pg
     else if vp_Utf8Remaining (fst pg) > 0 then
       (if IsUtf8Continuation b then utf8_continue b pg
        else
          let pg = (if vp_State (fst pg) = Ground then apsnd (PutChar 0xFFFD 1) pg else pg);
              pg = apfst (\<lambda>p. p\<lparr>vp_Utf8Remaining := 0\<rparr>) pg
          in feed_plain b pg)
     else feed_plain b pg)"

definition Feed :: "bytes \<Rightarrow> VtParser \<times> Grid \<Rightarrow> VtParser \<times> Grid" where
  "Feed bs pg = fold FeedByte bs pg"

end
