(* ===== verification/Grid_Rows.thy ===== *)
theory Grid_Rows
  imports Grid_Screen Grid_Unicode
begin

text \<open>
  What the row operations of \<^verbatim>\<open>grid.cpp\<close> do cell by cell, and that they keep rows well formed: every wide
  glyph is followed by its continuation, every continuation is preceded by its glyph, and every cell holds
  a printable character of its width in a consistent rendition.
\<close>

subsection \<open>Well-formed cells and rows\<close>

definition printable :: "nat \<Rightarrow> bool" where
  "printable cp = (0x20 \<le> cp \<and> cp \<noteq> 0x7F \<and> \<not> (0x80 \<le> cp \<and> cp \<le> 0x9F) \<and>
     \<not> (0xD800 \<le> cp \<and> cp \<le> 0xDFFF) \<and> cp \<le> 0x10FFFF)"

fun color_ok :: "EColorKind \<Rightarrow> color \<Rightarrow> bool" where
  "color_ok Default c = (c = (0, 0, 0))"
| "color_ok Indexed c = (snd c = (0, 0))"
| "color_ok TrueColor c = True"

definition pen_ok :: "Pen \<Rightarrow> bool" where
  "pen_ok pen = ((p_Attrs pen AND attr_flag Underline \<noteq> 0) = (p_AttrEx pen \<noteq> 0) \<and> p_AttrEx pen \<le> 5 \<and>
     color_ok (p_FgKind pen) (p_Fg pen) \<and> color_ok (p_BgKind pen) (p_Bg pen))"

definition continuation :: Cell where
  "continuation = default_cell\<lparr>c_Width := 0\<rparr>"

definition cell_ok :: "Cell \<Rightarrow> bool" where
  "cell_ok c \<longleftrightarrow> pen_ok (c_Pen c) \<and>
    (c_Width c = 0 \<and> c = continuation
     \<or> c_Width c = 1 \<and> (c_Codepoint c = 0 \<or> printable (c_Codepoint c) \<and> Wcwidth (c_Codepoint c) \<in> {1, 2})
     \<or> c_Width c = 2 \<and> printable (c_Codepoint c) \<and> Wcwidth (c_Codepoint c) = 2)"

definition row_ok :: "nat \<Rightarrow> row \<Rightarrow> bool" where
  "row_ok cols line \<longleftrightarrow> length line = cols \<and>
    (\<forall>i<cols. cell_ok (line ! i) \<and>
      (c_Width (line ! i) = 2 \<longrightarrow> i + 1 < cols \<and> c_Width (line ! (i + 1)) = 0) \<and>
      (c_Width (line ! i) = 0 \<longrightarrow> i > 0 \<and> c_Width (line ! (i - 1)) = 2))"

definition blank_ok :: "Cell \<Rightarrow> bool" where
  "blank_ok c \<longleftrightarrow> cell_ok c \<and> c_Width c = 1"

lemma row_okI:
  assumes "length line = cols"
    and "\<And>i. i < cols \<Longrightarrow> cell_ok (line ! i)"
    and "\<And>i. i < cols \<Longrightarrow> c_Width (line ! i) = 2 \<Longrightarrow> i + 1 < cols \<and> c_Width (line ! (i + 1)) = 0"
    and "\<And>i. i < cols \<Longrightarrow> c_Width (line ! i) = 0 \<Longrightarrow> i > 0 \<and> c_Width (line ! (i - 1)) = 2"
  shows "row_ok cols line"
  using assms by (simp add: row_ok_def)

lemma row_okD:
  assumes "row_ok cols line"
  shows "length line = cols"
    and "i < cols \<Longrightarrow> cell_ok (line ! i)"
    and "i < cols \<Longrightarrow> c_Width (line ! i) = 2 \<Longrightarrow> Suc i < cols"
    and "i < cols \<Longrightarrow> c_Width (line ! i) = 2 \<Longrightarrow> c_Width (line ! Suc i) = 0"
    and "i < cols \<Longrightarrow> c_Width (line ! i) = 0 \<Longrightarrow> 0 < i"
    and "i < cols \<Longrightarrow> c_Width (line ! i) = 0 \<Longrightarrow> c_Width (line ! (i - Suc 0)) = 2"
  using assms by (simp_all add: row_ok_def)

lemma cell_ok_width: "cell_ok c \<Longrightarrow> c_Width c = 0 \<or> c_Width c = 1 \<or> c_Width c = 2"
  by (auto simp: cell_ok_def)

lemma default_pen_ok [simp]: "pen_ok default_pen"
  by (simp add: pen_ok_def default_pen_def)

lemma default_cell_blank [simp]: "blank_ok default_cell"
  by (simp add: blank_ok_def cell_ok_def) (simp add: default_cell_def)

lemma continuation_ok [simp]: "cell_ok continuation" "c_Width continuation = 0"
  by (simp_all add: cell_ok_def) (simp_all add: continuation_def default_cell_def)

lemma blank_okD [simp]: "blank_ok c \<Longrightarrow> cell_ok c" "blank_ok c \<Longrightarrow> c_Width c = 1"
  by (simp_all add: blank_ok_def)

lemma blank_row_ok: "blank_ok c \<Longrightarrow> row_ok cols (replicate cols c)"
  by (rule row_okI) auto

lemma in_table_simps: "in_table [] cp = False"
  "in_table ((a, b) # rs) cp = (a \<le> cp \<and> cp \<le> b \<or> in_table rs cp)"
  by (auto simp: in_table_def)

text \<open>The line-drawing characters and the replacement character are printable and narrow.\<close>

lemma DEC_GFX_narrow: "list_all (\<lambda>cp. printable cp \<and> Wcwidth cp = 1) DEC_GFX"
  by (simp add: DEC_GFX_def printable_def Wcwidth_spec in_table_simps WIDE_def ZERO_WIDTH_def)

lemma replacement_narrow [simp]: "printable 0xFFFD" "Wcwidth 0xFFFD = 1"
  by (simp_all add: printable_def Wcwidth_spec in_table_simps WIDE_def ZERO_WIDTH_def)

subsection \<open>The loops, cell by cell\<close>

lemma nth_update: "k < length xs \<Longrightarrow> xs[i := x] ! k = (if k = i then x else xs ! k)"
  by (cases "i < length xs") auto

lemma fold_update_nth:
  "length (fold (\<lambda>c l. l[c := b]) [i..<j] l) = length l \<and>
   (\<forall>k<length l. fold (\<lambda>c l. l[c := b]) [i..<j] l ! k = (if i \<le> k \<and> k < j then b else l ! k))"
proof (induction j)
  case (Suc j)
  then show ?case by (cases "i \<le> j") (auto simp: nth_update)
qed auto

lemma length_ClearLine [simp]: "length (ClearLine b cols l) = length l"
  and nth_ClearLine: "k < length l \<Longrightarrow> ClearLine b cols l ! k = (if k < cols then b else l ! k)"
  using fold_update_nth [of b 0 cols l] by (simp_all add: ClearLine_def)

lemma ClearLine_row: "length l = cols \<Longrightarrow> ClearLine b cols l = replicate cols b"
  by (rule nth_equalityI) (simp_all add: nth_ClearLine)

lemma length_blank_from_to [simp]: "length (blank_from_to b i j l) = length l"
  and nth_blank_from_to: "k < length l \<Longrightarrow> blank_from_to b i j l ! k = (if i \<le> k \<and> k < j then b else l ! k)"
  using fold_update_nth [of b i j l] by (simp_all add: blank_from_to_def)

lemma ClearCells_as_blank: "ClearCells b at n l = blank_from_to b at (at + n) l"
  unfolding ClearCells_def blank_from_to_def
  by (induction n) simp_all

lemma CopyCells_nth:
  "length (CopyCells src n dst) = length dst \<and>
   (\<forall>k<length dst. CopyCells src n dst ! k = (if k < n then src ! k else dst ! k))"
  unfolding CopyCells_def
  by (induction n) (auto simp: nth_update)

lemma length_CopyCells [simp]: "length (CopyCells src n dst) = length dst"
  and nth_CopyCells: "k < length dst \<Longrightarrow> CopyCells src n dst ! k = (if k < n then src ! k else dst ! k)"
  using CopyCells_nth [of src n dst] by simp_all

lemma CopyCells_row: "length src = cols \<Longrightarrow> length dst = cols \<Longrightarrow> CopyCells src cols dst = src"
  by (rule nth_equalityI) (simp_all add: nth_CopyCells)

lemma move_left_nth:
  "dst < src \<Longrightarrow> src + n \<le> length l \<Longrightarrow>
   length (fold (\<lambda>i l. l[dst + i := l ! (src + i)]) [0..<n] l) = length l \<and>
   (\<forall>k<length l. fold (\<lambda>i l. l[dst + i := l ! (src + i)]) [0..<n] l ! k =
      (if dst \<le> k \<and> k < dst + n then l ! (src + (k - dst)) else l ! k))"
  by (induction n) (auto simp: nth_update)

lemma move_right_nth:
  "src < dst \<Longrightarrow> dst + n \<le> length l \<Longrightarrow>
   length (fold (\<lambda>i l. l[dst + i := l ! (src + i)]) (rev [0..<n]) l) = length l \<and>
   (\<forall>k<length l. fold (\<lambda>i l. l[dst + i := l ! (src + i)]) (rev [0..<n]) l ! k =
      (if dst \<le> k \<and> k < dst + n then l ! (src + (k - dst)) else l ! k))"
  by (induction n arbitrary: l) (auto simp: nth_update less_Suc_eq)

lemma MoveCells_nth:
  assumes "dst + n \<le> length l" and "src + n \<le> length l"
  shows "length (MoveCells dst src n l) = length l"
    and "k < length l \<Longrightarrow> MoveCells dst src n l ! k =
      (if dst \<le> k \<and> k < dst + n then l ! (src + (k - dst)) else l ! k)"
proof -
  consider "dst < src" | "src < dst" | "dst = src"
    by linarith
  then have "length (MoveCells dst src n l) = length l \<and> (\<forall>k<length l. MoveCells dst src n l ! k =
      (if dst \<le> k \<and> k < dst + n then l ! (src + (k - dst)) else l ! k))"
  proof cases
    case 1
    then show ?thesis using move_left_nth [of dst src n l] assms by (simp add: MoveCells_def)
  next
    case 2
    then show ?thesis using move_right_nth [of src dst n l] assms by (simp add: MoveCells_def)
  qed (simp add: MoveCells_def)
  then show "length (MoveCells dst src n l) = length l"
    and "k < length l \<Longrightarrow> MoveCells dst src n l ! k =
      (if dst \<le> k \<and> k < dst + n then l ! (src + (k - dst)) else l ! k)"
    by auto
qed

subsection \<open>Small numbers do not wrap\<close>

lemma u16_small [simp]: "n < 65536 \<Longrightarrow> u16 n = n"
  by (simp add: u16_def)

lemma u16_minus_le [simp]: "b \<le> a \<Longrightarrow> a < 65536 \<Longrightarrow> u16_minus a b = a - b"
  by (simp add: u16_minus_def flip: of_nat_diff)

lemma u8_small [simp]: "n < 256 \<Longrightarrow> u8 n = n"
  by (simp add: u8_def)

subsection \<open>Rows stay well formed\<close>

lemma ClearLine_ok: "length l = cols \<Longrightarrow> blank_ok b \<Longrightarrow> row_ok cols (ClearLine b cols l)"
  by (simp add: ClearLine_row blank_row_ok)

text \<open>The part of a row left of a cut, its last cell replaced when it lost its continuation, and the part
  right of a cut, its first cell replaced when it lost its glyph. Every row operation puts such parts
  together.\<close>

definition cut_left :: "Cell \<Rightarrow> row \<Rightarrow> row" where
  "cut_left r l = (if l \<noteq> [] \<and> c_Width (last l) = 2 then butlast l @ [r] else l)"

definition cut_right :: "Cell \<Rightarrow> row \<Rightarrow> row" where
  "cut_right r l = (if l \<noteq> [] \<and> c_Width (hd l) = 0 then r # tl l else l)"

lemma length_cut [simp]: "length (cut_left r l) = length l" "length (cut_right r l) = length l"
  by (auto simp: cut_left_def cut_right_def)

lemma nth_cut_left: "k < length l \<Longrightarrow>
    cut_left r l ! k = (if Suc k = length l \<and> c_Width (l ! k) = 2 then r else l ! k)"
proof (cases "Suc k = length l")
  case True
  then have "last l = l ! k" "l \<noteq> []" by (cases l rule: rev_cases; auto simp: nth_append)+
  then show ?thesis using True by (auto simp: cut_left_def nth_append)
qed (auto simp: cut_left_def nth_append nth_butlast)

lemma nth_cut_right: "k < length l \<Longrightarrow>
    cut_right r l ! k = (if k = 0 \<and> c_Width (l ! k) = 0 then r else l ! k)"
  by (cases l) (auto simp: cut_right_def nth_Cons split: nat.splits)

lemma row_ok_append:
  assumes "row_ok m xs" and "row_ok n ys"
  shows "row_ok (m + n) (xs @ ys)"
proof (rule row_okI, goal_cases)
  case 1 then show ?case using assms by (simp add: row_ok_def)
next
  case (2 i) then show ?case using assms by (auto simp: row_ok_def nth_append)
next
  case (3 i)
  then have "\<not> i < m \<Longrightarrow> i - m < n" by linarith
  with 3 show ?case
    using assms row_okD(3,4) [OF assms(1), of i] row_okD(3,4) [OF assms(2), of "i - m"]
    by (auto simp: nth_append row_okD(1) Suc_diff_le split: if_splits)
next
  case (4 i)
  then have "\<not> i < m \<Longrightarrow> i - m < n" by linarith
  with 4 show ?case
    using assms row_okD(5,6) [OF assms(1), of i] row_okD(5,6) [OF assms(2), of "i - m"]
    by (auto simp: nth_append row_okD(1) split: if_splits)
qed

lemma cut_left_ok:
  assumes "row_ok cols l" and "blank_ok r" and "j \<le> cols"
  shows "row_ok j (cut_left r (take j l))"
proof (rule row_okI, goal_cases)
  case 1 then show ?case using assms by (simp add: row_okD(1))
next
  case (2 i) then show ?case using assms by (simp add: nth_cut_left row_okD)
next
  case (3 i)
  then show ?case
    using assms row_okD(3,4) [OF assms(1), of i] by (auto simp: nth_cut_left row_okD(1) split: if_splits)
next
  case (4 i)
  then show ?case
    using assms row_okD(5,6) [OF assms(1), of i] by (auto simp: nth_cut_left row_okD(1) split: if_splits)
qed

lemma cut_right_ok:
  assumes "row_ok cols l" and "blank_ok r" and "j \<le> cols"
  shows "row_ok (cols - j) (cut_right r (drop j l))"
proof (rule row_okI, goal_cases)
  case 1 then show ?case using assms by (simp add: row_okD(1))
next
  case (2 i) then show ?case using assms by (simp add: nth_cut_right row_okD)
next
  case (3 i)
  then show ?case
    using assms row_okD(3,4) [OF assms(1), of "j + i"] less_diff_conv [of i cols j]
    by (auto simp: nth_cut_right row_okD(1) split: if_splits)
next
  case (4 i)
  then show ?case
    using assms row_okD(5,6) [OF assms(1), of "j + i"] less_diff_conv [of i cols j]
    by (cases "i = 1") (auto simp: nth_cut_right row_okD(1) split: if_splits)
qed

lemma RepairWideOrphans_nth:
  assumes "k < length l" and "first \<le> lim" and "length l = cols"
  shows "RepairWideOrphans b cols first lim l ! k =
    (if k + 1 = first \<and> c_Width (l ! k) = 2 \<or> k = lim \<and> c_Width (l ! k) = 0 then b else l ! k)"
  using assms by (auto simp: RepairWideOrphans_def Let_def nth_update)

lemma length_RepairWideOrphans [simp]: "length (RepairWideOrphans b cols first lim l) = length l"
  by (simp add: RepairWideOrphans_def Let_def)

text \<open>Blanking a range after the repair of the halves it cuts off.\<close>

lemma erase_range:
  assumes "length l = cols" and "first \<le> upper" "upper \<le> cols" and "first \<le> lim" and "lim = upper \<or> upper = cols"
  shows "blank_from_to b first upper (RepairWideOrphans b cols first lim l) =
    cut_left b (take first l) @ replicate (upper - first) b @ cut_right b (drop upper l)"
  using assms
  by (intro nth_equalityI)
     (auto simp: nth_blank_from_to RepairWideOrphans_nth nth_append nth_cut_left nth_cut_right)

lemma delete_cells_eq:
  assumes ok: "row_ok cols l" and c: "col < cols" "cols < 65536" and b: "blank_ok b"
    and n: "0 < n" and m: "m = min n (cols - col)"
  shows "delete_cells b cols col n l =
    cut_left b (take col l) @ cut_right b (drop (col + m) l) @ replicate m b"
proof -
  note okD = row_okD [OF ok]
  have nums: "u16_minus cols col = cols - col" "(if n > cols - col then cols - col else n) = m"
      "u16_minus cols m = cols - m" and nm: "m \<le> cols - col" "0 < m"
    using c n by (auto simp: m)
  define l1 where "l1 = (if col > 0 \<and> c_Width (l ! col) = 0 then l[col - 1 := b, col := b] else l)"
  have l1: "length l1 = cols" "k < cols \<Longrightarrow> l1 ! k =
      (if c_Width (l ! col) = 0 \<and> (k = col \<or> k + 1 = col) then b else l ! k)" for k
    using okD(1,5) c by (auto simp: l1_def nth_update)
  define l2 where "l2 = ClearCells b (cols - m) m (MoveCells col (col + m) (cols - col - m) l1)"
  have l2: "length l2 = cols" "k < cols \<Longrightarrow> l2 ! k =
      (if cols - m \<le> k then b else if col \<le> k then l1 ! (k + m) else l1 ! k)" for k
    using nm c l1(1) by (auto simp: l2_def ClearCells_as_blank nth_blank_from_to MoveCells_nth add_ac)
  define l3 where "l3 = blank_if (c_Width (l2 ! col) = 0) b col l2"
  have l3: "length l3 = cols" "k < cols \<Longrightarrow> l3 ! k =
      (if k = col \<and> c_Width (l2 ! k) = 0 then b else l2 ! k)" for k
    using l2(1) by (auto simp: l3_def blank_if_def nth_update)
  define l4 where "l4 = blank_if (cols - m > 0 \<and> c_Width (l3 ! (cols - m - 1)) = 2) b (cols - m - 1) l3"
  have l4: "length l4 = cols" "k < cols \<Longrightarrow> l4 ! k =
      (if k + 1 = cols - m \<and> c_Width (l3 ! k) = 2 then b else l3 ! k)" for k
    using l3(1) by (auto simp: l4_def blank_if_def nth_update)
  have "delete_cells b cols col n l = l4"
    unfolding delete_cells_def Let_def nums l4_def l3_def l2_def l1_def by (rule refl)
  also have "l4 = cut_left b (take col l) @ cut_right b (drop (col + m) l) @ replicate m b"
  proof (rule nth_equalityI)
    fix k assume "k < length l4"
    then have k: "k < cols" by (simp add: l4)
    show "l4 ! k = (cut_left b (take col l) @ cut_right b (drop (col + m) l) @ replicate m b) ! k"
    proof -
      consider (left) "k < col" | (mid) "col \<le> k" "k < cols - m" | (right) "cols - m \<le> k"
        by linarith
      then show ?thesis
      proof cases
        case left
        have "Suc k = col \<Longrightarrow> c_Width (l ! k) = 2 \<longleftrightarrow> c_Width (l ! col) = 0"
          using okD(4) [of k] okD(6) [of col] k c by auto
        then show ?thesis
          using left nm c k by (auto simp: l4 l3 l2 l1 nth_append nth_cut_left okD(1))
      next
        case mid
        have last: "c_Width (l ! (k + m)) = 2 \<Longrightarrow> Suc (k + m) < cols"
          using okD(3) [of "k + m"] mid by simp
        have l2k: "l2 ! k = l ! (k + m)"
          using mid k nm by (simp add: l2 l1)
        show ?thesis
          using mid nm c k last l2k b
          by (cases "k = col") (auto simp: l4 l3 nth_append nth_cut_right okD(1) add_ac)
      next
        case right
        then show ?thesis
          using nm c k by (auto simp: l4 l3 l2 nth_append okD(1))
      qed
    qed
  qed (use nm c in \<open>auto simp: l4 okD(1)\<close>)
  finally show ?thesis .
qed

lemma insert_cells_eq:
  assumes ok: "row_ok cols l" and c: "col < cols" "cols < 65536" and b: "blank_ok b"
    and n: "0 < n" and m: "m = min n (cols - col)"
  shows "insert_cells b cols col n l =
    cut_left b (take col l) @ replicate m b @ cut_left b (take (cols - (col + m)) (cut_right b (drop col l)))"
proof -
  note okD = row_okD [OF ok]
  have nums: "u16_minus cols col = cols - col" "(if n > cols - col then cols - col else n) = m"
      "u16 (col + m) = col + m" and nm: "m \<le> cols - col" "0 < m"
    using c n by (auto simp: m)
  define l1 where "l1 = ClearCells b col m (MoveCells (col + m) col (cols - col - m) l)"
  have l1: "length l1 = cols" "k < cols \<Longrightarrow> l1 ! k =
      (if k < col then l ! k else if k < col + m then b else l ! (k - m))" for k
    using okD(1) c nm
    by (auto simp: l1_def ClearCells_as_blank nth_blank_from_to MoveCells_nth diff_diff_left add_ac)
  define l2 where "l2 = blank_if (col > 0 \<and> c_Width (l1 ! (col - 1)) = 2) b (col - 1) l1"
  have l2: "length l2 = cols" "k < cols \<Longrightarrow> l2 ! k =
      (if k + 1 = col \<and> c_Width (l1 ! k) = 2 then b else l1 ! k)" for k
    using l1(1) by (auto simp: l2_def blank_if_def nth_update)
  define l3 where "l3 = blank_if (col + m < cols \<and> c_Width (l2 ! (col + m)) = 0) b (col + m) l2"
  have l3: "length l3 = cols" "k < cols \<Longrightarrow> l3 ! k =
      (if k = col + m \<and> c_Width (l2 ! k) = 0 then b else l2 ! k)" for k
    using l2(1) by (auto simp: l3_def blank_if_def nth_update)
  define l4 where "l4 = blank_if (c_Width (l3 ! (cols - 1)) = 2) b (cols - 1) l3"
  have l4: "length l4 = cols" "k < cols \<Longrightarrow> l4 ! k =
      (if k + 1 = cols \<and> c_Width (l3 ! k) = 2 then b else l3 ! k)" for k
    using l3(1) by (auto simp: l4_def blank_if_def nth_update)
  have "insert_cells b cols col n l = l4"
    unfolding insert_cells_def Let_def nums l4_def l3_def l2_def l1_def by (rule refl)
  also have "l4 = cut_left b (take col l) @ replicate m b @
      cut_left b (take (cols - (col + m)) (cut_right b (drop col l)))"
  proof (rule nth_equalityI)
    fix k assume "k < length l4"
    then have k: "k < cols" by (simp add: l4)
    consider (left) "k < col" | (mid) "col \<le> k" "k < col + m" | (right) "col + m \<le> k"
      by linarith
    then show "l4 ! k = (cut_left b (take col l) @ replicate m b @
        cut_left b (take (cols - (col + m)) (cut_right b (drop col l)))) ! k"
    proof cases
      case left
      then show ?thesis using nm c k b by (auto simp: l4 l3 l2 l1 nth_append nth_cut_left okD(1))
    next
      case mid
      then show ?thesis using nm c k b by (auto simp: l4 l3 l2 l1 nth_append okD(1))
    next
      case right
      then have kk: "l1 ! k = l ! (k - m)" "k - m < cols" "k - (col + m) < cols - (col + m)"
          "col + (k - (col + m)) = k - m"
        using k nm by (auto simp: l1)
      have inner: "cut_right b (drop col l) ! (k - (col + m)) =
          (if k = col + m \<and> c_Width (l ! (k - m)) = 0 then b else l ! (k - m))"
        using kk right k okD(1) by (auto simp: nth_cut_right)
      have outer: "cut_left b (take (cols - (col + m)) (cut_right b (drop col l))) ! (k - (col + m)) =
          (if k + 1 = cols \<and> c_Width (cut_right b (drop col l) ! (k - (col + m))) = 2 then b
           else cut_right b (drop col l) ! (k - (col + m)))"
        using kk right k nm okD(1) by (auto simp: nth_cut_left)
      have "l2 ! k = l ! (k - m)"
        using right nm k kk(1) by (simp add: l2)
      then have l3k: "l3 ! k = cut_right b (drop col l) ! (k - (col + m))"
        unfolding inner by (auto simp: l3(2) [OF k])
      have "(cut_left b (take col l) @ replicate m b @
          cut_left b (take (cols - (col + m)) (cut_right b (drop col l)))) ! k =
          cut_left b (take (cols - (col + m)) (cut_right b (drop col l))) ! (k - (col + m))"
        using right k c nm okD(1) by (simp add: nth_append diff_diff_left)
      then show ?thesis
        unfolding outer by (simp add: l4(2) [OF k] l3k)
    qed
  qed (use nm c in \<open>auto simp: l4 okD(1)\<close>)
  finally show ?thesis .
qed

lemma write_glyph_eq:
  assumes ok: "row_ok cols l" and c: "col < cols" "cols < 65536" and b: "blank_ok b"
    and w: "width = 1 \<or> width = 2 \<and> col + 1 < cols"
  shows "write_glyph b pen cols col cp width l =
    cut_left ((l ! (col - 1))\<lparr>c_Width := 1\<rparr>) (take col l) @
    \<lparr> c_Codepoint = cp, c_Width = width, c_Pen = pen \<rparr> # replicate (width - 1) continuation @
    cut_right b (drop (col + width) l)"
proof -
  note okD = row_okD [OF ok]
  define l1 where "l1 = (if col > 0 \<and> c_Width (l ! (col - 1)) = 2
                 then l[col - 1 := (l ! (col - 1))\<lparr>c_Width := 1\<rparr>] else l)"
  have l1: "length l1 = cols" "k < cols \<Longrightarrow> l1 ! k =
      (if k + 1 = col \<and> c_Width (l ! k) = 2 then (l ! k)\<lparr>c_Width := 1\<rparr> else l ! k)" for k
    using okD(1) by (auto simp: l1_def nth_update)
  define l2 where "l2 = blank_if (c_Width (l1 ! col) = 2 \<and> col + 1 < cols) b (col + 1) l1"
  have l2: "length l2 = cols" "k < cols \<Longrightarrow> l2 ! k =
      (if k = col + 1 \<and> c_Width (l ! col) = 2 then b else l1 ! k)" for k
    using l1 c by (auto simp: l2_def blank_if_def nth_update)
  define cell where "cell = \<lparr> c_Codepoint = cp, c_Width = width, c_Pen = pen \<rparr>"
  define l3 where "l3 = l2[col := (l2 ! col)\<lparr>c_Pen := pen, c_Codepoint := cp, c_Width := u8 width\<rparr>]"
  have "(l2 ! col)\<lparr>c_Pen := pen, c_Codepoint := cp, c_Width := u8 width\<rparr> = cell"
    using w by (cases "l2 ! col") (auto simp: cell_def)
  then have l3: "length l3 = cols" "k < cols \<Longrightarrow> l3 ! k = (if k = col then cell else l2 ! k)" for k
    using l2(1) by (auto simp: l3_def nth_update)
  define l4 where "l4 = (if width = 2 \<and> col + 1 < cols then
          (blank_if (c_Width (l3 ! (col + 1)) = 2 \<and> u16 (col + 2) < cols) b (u16 (col + 2)) l3)
             [col + 1 := default_cell\<lparr>c_Width := 0\<rparr>] else l3)"
  have eq: "write_glyph b pen cols col cp width l = l4"
    unfolding write_glyph_def Let_def l4_def l3_def l2_def l1_def by (rule refl)
  have len4: "length l4 = cols"
    by (simp add: l4_def blank_if_def l3(1))
  have head: "k < col \<Longrightarrow> l4 ! k = cut_left ((l ! (col - 1))\<lparr>c_Width := 1\<rparr>) (take col l) ! k" for k
    using c okD(1) by (auto simp: l4_def blank_if_def nth_update l3 l2 l1 nth_cut_left)
  have nxt: "Suc k < cols \<Longrightarrow> c_Width (l ! Suc k) = 0 \<longleftrightarrow> c_Width (l ! k) = 2" for k
    using okD(4) [of k] okD(6) [of "Suc k"] by auto
  have tail: "col + width \<le> k \<Longrightarrow> k < cols \<Longrightarrow> l4 ! k = cut_right b (drop (col + width) l) ! (k - (col + width))" for k
    using c okD(1) w nxt [of col] nxt [of "Suc col"] b
    by (auto simp: l4_def blank_if_def nth_update l3 l2 l1 nth_cut_right)
  show ?thesis
    unfolding eq cell_def [symmetric]
  proof (rule nth_equalityI)
    fix k assume "k < length l4"
    then have k: "k < cols" by (simp add: len4)
    have mid: "l4 ! col = cell" "width = 2 \<Longrightarrow> l4 ! Suc col = continuation"
      using w c by (auto simp: l4_def blank_if_def nth_update l3 continuation_def)
    show "l4 ! k = (cut_left ((l ! (col - 1))\<lparr>c_Width := 1\<rparr>) (take col l) @
        cell # replicate (width - 1) continuation @ cut_right b (drop (col + width) l)) ! k"
    proof -
      consider (left) "k < col" | (at) "k = col" | (cont) "width = 2" "k = Suc col" | (right) "col + width \<le> k"
        using w by linarith
      then show ?thesis
      proof cases
        case right
        then obtain j where j: "k = col + width + j" by (auto simp: le_iff_add)
        show ?thesis using tail [OF right k] w c okD(1) by (auto simp: j nth_append nth_Cons)
      qed (use head [of k] mid c okD(1) in \<open>auto simp: nth_append\<close>)
    qed
  qed (use w c okD(1) in \<open>auto simp: len4\<close>)
qed

end
