(* ===== verification/Grid_Invariant.thy ===== *)
theory Grid_Invariant
  imports Grid_Rows
begin

text \<open>
  The invariant of the grid, \<open>grid_wf\<close>, and that every operation of \<^verbatim>\<open>grid.cpp\<close> keeps it: the screens have
  their dimensions and hold well-formed rows, the cursor and the scroll region are on the screen, the ring
  of the scrollback is in range. Every index the operations compute is then in bounds.
\<close>

subsection \<open>The operations keep rows well formed\<close>

lemma row_ok_replicate [simp]: "blank_ok b \<Longrightarrow> row_ok n (replicate n b)"
  by (rule blank_row_ok)

lemma row_ok_append3:
  assumes "row_ok m xs" and "row_ok n ys" and "row_ok k zs" and "m + (n + k) = cols"
  shows "row_ok cols (xs @ ys @ zs)"
  using row_ok_append [OF assms(1) row_ok_append [OF assms(2,3)]] assms(4) by simp

lemma erase_range_ok:
  assumes "row_ok cols l" and "blank_ok b" and "first \<le> upper" "upper \<le> cols" and "first \<le> lim"
    and "lim = upper \<or> upper = cols"
  shows "row_ok cols (blank_from_to b first upper (RepairWideOrphans b cols first lim l))"
  unfolding erase_range [OF row_okD(1) [OF assms(1)] assms(3-6)]
  by (rule row_ok_append3 [OF cut_left_ok [OF assms(1,2)] row_ok_replicate [OF assms(2)]
        cut_right_ok [OF assms(1,2)]]) (use assms in auto)

lemma delete_cells_ok:
  assumes "row_ok cols l" and "col < cols" "cols < 65536" and "blank_ok b" and "0 < n"
  shows "row_ok cols (delete_cells b cols col n l)"
  unfolding delete_cells_eq [OF assms refl]
  by (rule row_ok_append3 [OF cut_left_ok [OF assms(1,4)] cut_right_ok [OF assms(1,4)]
        row_ok_replicate [OF assms(4)]]) (use assms in auto)

lemma insert_cells_ok:
  assumes "row_ok cols l" and "col < cols" "cols < 65536" and "blank_ok b" and "0 < n"
  shows "row_ok cols (insert_cells b cols col n l)"
  unfolding insert_cells_eq [OF assms refl]
  by (rule row_ok_append3 [OF cut_left_ok [OF assms(1,4)] row_ok_replicate [OF assms(4)]
        cut_left_ok [OF cut_right_ok [OF assms(1,4)] assms(4)]]) (use assms in auto)

definition put_ok :: "nat \<Rightarrow> nat \<Rightarrow> bool" where
  "put_ok cp w \<longleftrightarrow> w = 0 \<or> printable cp \<and> (w = 1 \<or> w = 2) \<and> Wcwidth cp = int w"

lemma c_Pen_continuation [simp]: "c_Pen continuation = default_pen"
  by (simp add: continuation_def default_cell_def)

lemma narrowed_ok: "cell_ok c \<Longrightarrow> c_Width c = 2 \<Longrightarrow> blank_ok (c\<lparr>c_Width := 1\<rparr>)"
  by (simp add: blank_ok_def cell_ok_def del: blank_okD)

lemma glyph_ok:
  assumes "put_ok cp width" and "width = 1 \<or> width = 2" and "pen_ok pen"
  shows "row_ok width (\<lparr> c_Codepoint = cp, c_Width = width, c_Pen = pen \<rparr> # replicate (width - 1) continuation)"
proof -
  let ?c = "\<lparr> c_Codepoint = cp, c_Width = width, c_Pen = pen \<rparr>"
  have c: "cell_ok ?c"
    using assms by (auto simp: cell_ok_def put_ok_def)
  from assms(2) show ?thesis
  proof
    assume "width = 2"
    then show ?thesis using c by (intro row_okI) (auto simp: less_Suc_eq numeral_2_eq_2)
  qed (use c in \<open>simp add: row_ok_def\<close>)
qed

lemma write_glyph_ok:
  assumes ok: "row_ok cols l" and c: "col < cols" "cols < 65536" and b: "blank_ok b"
    and w: "width = 1 \<or> width = 2 \<and> col + 1 < cols" and cp: "put_ok cp width" and pen: "pen_ok pen"
  shows "row_ok cols (write_glyph b pen cols col cp width l)"
proof -
  let ?left = "cut_left ((l ! (col - 1))\<lparr>c_Width := 1\<rparr>) (take col l)"
  have left: "row_ok col ?left"
  proof (cases "col > 0 \<and> c_Width (l ! (col - 1)) = 2")
    case True
    then have "blank_ok ((l ! (col - 1))\<lparr>c_Width := 1\<rparr>)"
      using row_okD(2) [OF ok, of "col - 1"] c by (intro narrowed_ok) auto
    then show ?thesis using cut_left_ok [OF ok] c by simp
  next
    case False
    then have "?left = cut_left b (take col l)"
      using c row_okD(1) [OF ok] by (auto simp: cut_left_def last_conv_nth)
    then show ?thesis using cut_left_ok [OF ok b] c by simp
  qed
  have mid: "row_ok width (\<lparr> c_Codepoint = cp, c_Width = width, c_Pen = pen \<rparr> # replicate (width - 1) continuation)"
    using glyph_ok [OF cp _ pen] w by auto
  have right: "row_ok (cols - (col + width)) (cut_right b (drop (col + width) l))"
    using w c by (intro cut_right_ok [OF ok b]) auto
  show ?thesis
    using row_ok_append3 [OF left mid right, of cols] w c
    unfolding write_glyph_eq [OF ok c b w] by auto
qed

subsection \<open>The invariant\<close>

definition screen_ok :: "nat \<Rightarrow> nat \<Rightarrow> row list \<Rightarrow> bool" where
  "screen_ok cols rows lines \<longleftrightarrow> length lines = rows \<and> (\<forall>line\<in>set lines. row_ok cols line)"

definition saved_ok :: "nat \<Rightarrow> nat \<Rightarrow> SavedCursor \<Rightarrow> bool" where
  "saved_ok cols rows sc \<longleftrightarrow> sc_Row sc < rows \<and> sc_Col sc < cols \<and> pen_ok (sc_Pen sc) \<and>
     sc_CharsetG0 sc \<le> 1 \<and> sc_CharsetG1 sc \<le> 1 \<and> sc_CharsetActive sc \<le> 1"

definition dims_ok :: "nat \<Rightarrow> nat \<Rightarrow> bool" where
  "dims_ok cols rows \<longleftrightarrow> 1 \<le> cols \<and> cols \<le> MAX_COLS \<and> 1 \<le> rows \<and> rows \<le> MAX_ROWS \<and>
     cols * rows \<le> MAX_SCREEN_CELLS"

definition content_ok :: "Grid \<Rightarrow> bool" where
  "content_ok g \<longleftrightarrow> dims_ok (gr_Cols g) (gr_Rows g) \<and>
     screen_ok (gr_Cols g) (gr_Rows g) (gr_Main g) \<and> screen_ok (gr_Cols g) (gr_Rows g) (gr_Alt g) \<and>
     screen_ok (gr_Cols g) (gr_ScrollbackLimit g) (gr_History g) \<and>
     gr_HistorySize g \<le> gr_ScrollbackLimit g \<and>
     (gr_ScrollbackLimit g > 0 \<longrightarrow> gr_HistoryStart g < gr_ScrollbackLimit g)"

definition cursor_ok :: "Grid \<Rightarrow> bool" where
  "cursor_ok g \<longleftrightarrow> gr_CursorRow g < gr_Rows g \<and> gr_CursorCol g < gr_Cols g \<and>
     gr_ScrollTop g \<le> gr_ScrollBot g \<and> gr_ScrollBot g < gr_Rows g \<and>
     (gr_PendingWrap g \<longrightarrow> gr_CursorCol g + 1 = gr_Cols g) \<and>
     (ModeSet Decom g \<longrightarrow> gr_CursorRow g \<le> gr_ScrollBot g)"

definition rendition_ok :: "Grid \<Rightarrow> bool" where
  "rendition_ok g \<longleftrightarrow> pen_ok (gr_Pen g) \<and>
     saved_ok (gr_Cols g) (gr_Rows g) (gr_SavedMain g) \<and> saved_ok (gr_Cols g) (gr_Rows g) (gr_SavedAlt g) \<and>
     gr_CharsetG0 g \<le> 1 \<and> gr_CharsetG1 g \<le> 1 \<and> gr_CharsetActive g \<le> 1 \<and>
     length (gr_TabStops g) = TAB_WORDS \<and>
     (gr_LastChar g = 0 \<or> gr_LastWidth g > 0 \<and> put_ok (gr_LastChar g) (gr_LastWidth g))"

definition grid_wf :: "Grid \<Rightarrow> bool" where
  "grid_wf g \<longleftrightarrow> content_ok g \<and> cursor_ok g \<and> rendition_ok g"

named_theorems wf_defs \<open>the parts of the invariant of the grid\<close>

lemmas [wf_defs] = grid_wf_def content_ok_def cursor_ok_def rendition_ok_def

lemma dims_okD:
  "dims_ok cols rows \<Longrightarrow> 0 < cols \<and> cols \<le> 4096 \<and> 0 < rows \<and> rows \<le> 1024"
  by (auto simp: dims_ok_def MAX_COLS_def MAX_ROWS_def)

lemma grid_wf_dims:
  assumes "grid_wf g"
  shows "0 < gr_Cols g" "gr_Cols g \<le> 4096" "0 < gr_Rows g" "gr_Rows g \<le> 1024"
  using assms dims_okD by (auto simp: wf_defs)

lemma grid_wf_cursor:
  assumes "grid_wf g"
  shows "gr_CursorRow g < gr_Rows g" "gr_CursorCol g < gr_Cols g" "gr_ScrollTop g \<le> gr_ScrollBot g"
    "gr_ScrollBot g < gr_Rows g" "gr_PendingWrap g \<Longrightarrow> gr_CursorCol g + 1 = gr_Cols g"
    "ModeSet Decom g \<Longrightarrow> gr_CursorRow g \<le> gr_ScrollBot g"
  using assms by (auto simp: wf_defs)

lemma screen_ok_nth: "screen_ok cols rows ls \<Longrightarrow> r < rows \<Longrightarrow> row_ok cols (ls ! r)"
  by (auto simp: screen_ok_def)

lemma screen_ok_update:
  "screen_ok cols rows ls \<Longrightarrow> (r < rows \<Longrightarrow> row_ok cols x) \<Longrightarrow> screen_ok cols rows (ls[r := x])"
  by (cases "r < length ls")
     (auto simp: screen_ok_def list_update_beyond dest!: subsetD [OF set_update_subset_insert])

lemma screen_ok_blank: "screen_ok cols rows (blank_screen cols rows)"
  by (auto simp: screen_ok_def blank_screen_def)

subsection \<open>Mode bits\<close>

lemma mode_bit_less [simp]: "mode_bit m < 32"
  by (cases m) simp_all

lemma mode_bit_inj [simp]: "mode_bit m = mode_bit m' \<longleftrightarrow> m = m'"
  by (cases m; cases m') simp_all

lemma ModeSet_bit: "ModeSet m g \<longleftrightarrow> bit (gr_Modes g) (mode_bit m)"
  by (simp add: ModeSet_def ModeFlag_def bit_iff_and_push_bit_not_eq_0)

lemma bit_ModeFlag: "bit (ModeFlag m) (mode_bit m') \<longleftrightarrow> m = m'"
  by (simp add: ModeFlag_def push_bit_of_1 bit_exp_iff possible_bit_word eq_commute)

lemma ModeSet_set_mode_bit [simp]:
  "ModeSet m (set_mode_bit m' v g) \<longleftrightarrow> (if m = m' then v else ModeSet m g)"
  by (auto simp: ModeSet_bit set_mode_bit_def bit_or_iff bit_and_iff bit_not_iff bit_ModeFlag)

lemma ModeSet_default [simp]:
  "ModeSet m (g\<lparr>gr_Modes := default_modes\<rparr>) \<longleftrightarrow> m = Awm \<or> m = Dectcem"
  by (auto simp: ModeSet_bit default_modes_def bit_or_iff bit_ModeFlag)

lemma ModeSet_cong: "gr_Modes g = gr_Modes g' \<Longrightarrow> ModeSet m g = ModeSet m g'"
  by (simp add: ModeSet_def)

lemma ModeSet_frame [simp]:
  "ModeSet m (g\<lparr>gr_Main := xMain\<rparr>) = ModeSet m g"
  "ModeSet m (g\<lparr>gr_Alt := xAlt\<rparr>) = ModeSet m g"
  "ModeSet m (g\<lparr>gr_History := xHistory\<rparr>) = ModeSet m g"
  "ModeSet m (g\<lparr>gr_HistoryStart := xHistoryStart\<rparr>) = ModeSet m g"
  "ModeSet m (g\<lparr>gr_HistorySize := xHistorySize\<rparr>) = ModeSet m g"
  "ModeSet m (g\<lparr>gr_Cols := xCols\<rparr>) = ModeSet m g"
  "ModeSet m (g\<lparr>gr_Rows := xRows\<rparr>) = ModeSet m g"
  "ModeSet m (g\<lparr>gr_ScrollbackLimit := xScrollbackLimit\<rparr>) = ModeSet m g"
  "ModeSet m (g\<lparr>gr_CursorRow := xCursorRow\<rparr>) = ModeSet m g"
  "ModeSet m (g\<lparr>gr_CursorCol := xCursorCol\<rparr>) = ModeSet m g"
  "ModeSet m (g\<lparr>gr_PendingWrap := xPendingWrap\<rparr>) = ModeSet m g"
  "ModeSet m (g\<lparr>gr_ScrollTop := xScrollTop\<rparr>) = ModeSet m g"
  "ModeSet m (g\<lparr>gr_ScrollBot := xScrollBot\<rparr>) = ModeSet m g"
  "ModeSet m (g\<lparr>gr_Pen := xPen\<rparr>) = ModeSet m g"
  "ModeSet m (g\<lparr>gr_SavedMain := xSavedMain\<rparr>) = ModeSet m g"
  "ModeSet m (g\<lparr>gr_SavedAlt := xSavedAlt\<rparr>) = ModeSet m g"
  "ModeSet m (g\<lparr>gr_CharsetG0 := xCharsetG0\<rparr>) = ModeSet m g"
  "ModeSet m (g\<lparr>gr_CharsetG1 := xCharsetG1\<rparr>) = ModeSet m g"
  "ModeSet m (g\<lparr>gr_CharsetActive := xCharsetActive\<rparr>) = ModeSet m g"
  "ModeSet m (g\<lparr>gr_CursorStyle := xCursorStyle\<rparr>) = ModeSet m g"
  "ModeSet m (g\<lparr>gr_TabStops := xTabStops\<rparr>) = ModeSet m g"
  "ModeSet m (g\<lparr>gr_LastChar := xLastChar\<rparr>) = ModeSet m g"
  "ModeSet m (g\<lparr>gr_LastWidth := xLastWidth\<rparr>) = ModeSet m g"
  "ModeSet m (g\<lparr>gr_PossiblyDiverged := xPossiblyDiverged\<rparr>) = ModeSet m g"
  by (simp_all add: ModeSet_def)

lemma IsAltScreen_frame [simp]:
  "IsAltScreen (g\<lparr>gr_Main := xMain\<rparr>) = IsAltScreen g"
  "IsAltScreen (g\<lparr>gr_Alt := xAlt\<rparr>) = IsAltScreen g"
  "IsAltScreen (g\<lparr>gr_History := xHistory\<rparr>) = IsAltScreen g"
  "IsAltScreen (g\<lparr>gr_HistoryStart := xHistoryStart\<rparr>) = IsAltScreen g"
  "IsAltScreen (g\<lparr>gr_HistorySize := xHistorySize\<rparr>) = IsAltScreen g"
  "IsAltScreen (g\<lparr>gr_Cols := xCols\<rparr>) = IsAltScreen g"
  "IsAltScreen (g\<lparr>gr_Rows := xRows\<rparr>) = IsAltScreen g"
  "IsAltScreen (g\<lparr>gr_ScrollbackLimit := xScrollbackLimit\<rparr>) = IsAltScreen g"
  "IsAltScreen (g\<lparr>gr_CursorRow := xCursorRow\<rparr>) = IsAltScreen g"
  "IsAltScreen (g\<lparr>gr_CursorCol := xCursorCol\<rparr>) = IsAltScreen g"
  "IsAltScreen (g\<lparr>gr_PendingWrap := xPendingWrap\<rparr>) = IsAltScreen g"
  "IsAltScreen (g\<lparr>gr_ScrollTop := xScrollTop\<rparr>) = IsAltScreen g"
  "IsAltScreen (g\<lparr>gr_ScrollBot := xScrollBot\<rparr>) = IsAltScreen g"
  "IsAltScreen (g\<lparr>gr_Pen := xPen\<rparr>) = IsAltScreen g"
  "IsAltScreen (g\<lparr>gr_SavedMain := xSavedMain\<rparr>) = IsAltScreen g"
  "IsAltScreen (g\<lparr>gr_SavedAlt := xSavedAlt\<rparr>) = IsAltScreen g"
  "IsAltScreen (g\<lparr>gr_CharsetG0 := xCharsetG0\<rparr>) = IsAltScreen g"
  "IsAltScreen (g\<lparr>gr_CharsetG1 := xCharsetG1\<rparr>) = IsAltScreen g"
  "IsAltScreen (g\<lparr>gr_CharsetActive := xCharsetActive\<rparr>) = IsAltScreen g"
  "IsAltScreen (g\<lparr>gr_CursorStyle := xCursorStyle\<rparr>) = IsAltScreen g"
  "IsAltScreen (g\<lparr>gr_TabStops := xTabStops\<rparr>) = IsAltScreen g"
  "IsAltScreen (g\<lparr>gr_LastChar := xLastChar\<rparr>) = IsAltScreen g"
  "IsAltScreen (g\<lparr>gr_LastWidth := xLastWidth\<rparr>) = IsAltScreen g"
  "IsAltScreen (g\<lparr>gr_PossiblyDiverged := xPossiblyDiverged\<rparr>) = IsAltScreen g"
  by (simp_all add: IsAltScreen_def)

subsection \<open>Operations on the contents\<close>

text \<open>An operation that changes nothing but the screens and the scrollback.\<close>

definition content_frame :: "Grid \<Rightarrow> Grid \<Rightarrow> bool" where
  "content_frame g g' \<longleftrightarrow> (\<exists>m a h st sz. g' = g\<lparr>gr_Main := m, gr_Alt := a, gr_History := h,
     gr_HistoryStart := st, gr_HistorySize := sz\<rparr>)"

lemma content_frame_update:
  "content_frame g (g\<lparr>gr_Main := m, gr_Alt := a, gr_History := h, gr_HistoryStart := st, gr_HistorySize := sz\<rparr>)"
  unfolding content_frame_def by blast

lemma content_frameE:
  assumes "content_frame g g'"
  obtains m a h st sz where "g' = g\<lparr>gr_Main := m, gr_Alt := a, gr_History := h, gr_HistoryStart := st,
     gr_HistorySize := sz\<rparr>"
  using assms unfolding content_frame_def by blast

lemma content_frame_trans: "content_frame g g' \<Longrightarrow> content_frame g' g'' \<Longrightarrow> content_frame g g''"
  by (auto elim!: content_frameE simp: content_frame_update)

lemma content_frameI:
  "content_frame g g"
  "content_frame g (g\<lparr>gr_Main := m\<rparr>)" "content_frame g (g\<lparr>gr_Alt := a\<rparr>)"
  "content_frame g (g\<lparr>gr_History := h\<rparr>)" "content_frame g (g\<lparr>gr_HistoryStart := st\<rparr>)"
  "content_frame g (g\<lparr>gr_HistorySize := sz\<rparr>)"
  "content_frame g (g\<lparr>gr_History := h, gr_HistoryStart := st\<rparr>)"
  "content_frame g (g\<lparr>gr_History := h, gr_HistorySize := sz\<rparr>)"
  using content_frame_update [where g = g and m = "gr_Main g" and a = "gr_Alt g" and h = "gr_History g" and st = "gr_HistoryStart g" and sz = "gr_HistorySize g"]
    content_frame_update [where g = g and m = m and a = "gr_Alt g" and h = "gr_History g" and st = "gr_HistoryStart g" and sz = "gr_HistorySize g"]
    content_frame_update [where g = g and m = "gr_Main g" and a = a and h = "gr_History g" and st = "gr_HistoryStart g" and sz = "gr_HistorySize g"]
    content_frame_update [where g = g and m = "gr_Main g" and a = "gr_Alt g" and h = h and st = "gr_HistoryStart g" and sz = "gr_HistorySize g"]
    content_frame_update [where g = g and m = "gr_Main g" and a = "gr_Alt g" and h = "gr_History g" and st = st and sz = "gr_HistorySize g"]
    content_frame_update [where g = g and m = "gr_Main g" and a = "gr_Alt g" and h = "gr_History g" and st = "gr_HistoryStart g" and sz = sz]
    content_frame_update [where g = g and m = "gr_Main g" and a = "gr_Alt g" and h = h and st = st and sz = "gr_HistorySize g"]
    content_frame_update [where g = g and m = "gr_Main g" and a = "gr_Alt g" and h = h and st = "gr_HistoryStart g" and sz = sz]
  by simp_all

lemma content_frameD:
  assumes "content_frame g g'"
  shows "gr_Cols g' = gr_Cols g" "gr_Rows g' = gr_Rows g" "gr_ScrollbackLimit g' = gr_ScrollbackLimit g"
    "gr_CursorRow g' = gr_CursorRow g" "gr_CursorCol g' = gr_CursorCol g"
    "gr_PendingWrap g' = gr_PendingWrap g" "gr_ScrollTop g' = gr_ScrollTop g"
    "gr_ScrollBot g' = gr_ScrollBot g" "gr_Modes g' = gr_Modes g" "gr_Pen g' = gr_Pen g"
    "gr_SavedMain g' = gr_SavedMain g" "gr_SavedAlt g' = gr_SavedAlt g"
    "gr_CharsetG0 g' = gr_CharsetG0 g" "gr_CharsetG1 g' = gr_CharsetG1 g"
    "gr_CharsetActive g' = gr_CharsetActive g" "gr_CursorStyle g' = gr_CursorStyle g"
    "gr_TabStops g' = gr_TabStops g" "gr_LastChar g' = gr_LastChar g" "gr_LastWidth g' = gr_LastWidth g"
    "gr_PossiblyDiverged g' = gr_PossiblyDiverged g" "ModeSet m g' = ModeSet m g"
    "IsAltScreen g' = IsAltScreen g" "BlankCell g' = BlankCell g"
  using assms by (auto simp: content_frame_def BlankCell_def)

lemma content_frame_fold:
  assumes "\<And>x g. content_frame g (f x g)"
  shows "content_frame g (fold f xs g)"
  by (induction xs arbitrary: g) (auto intro: content_frameI content_frame_trans assms)

lemma frame_upd_line: "content_frame g (upd_line r f g)"
  by (auto simp: upd_line_def intro: content_frameI)

lemma frame_clear_active: "content_frame g (clear_active r g)"
  by (simp add: clear_active_def frame_upd_line)

lemma frame_PushScrollback: "content_frame g (PushScrollback r g)"
  by (simp add: PushScrollback_def Let_def content_frameI)

lemma frame_rotate_active: "content_frame g (rotate_active lo mid hi g)"
  by (auto simp: rotate_active_def intro: content_frameI)

lemmas content_frames = frame_upd_line frame_clear_active frame_PushScrollback frame_rotate_active
  content_frame_fold [of clear_active, OF frame_clear_active]
  content_frame_fold [of PushScrollback, OF frame_PushScrollback]

lemma frame_ScrollRegionUp: "content_frame g (ScrollRegionUp n push g)"
  by (simp add: ScrollRegionUp_def Let_def content_frameI del: upt_Suc)
     (intro conjI impI content_frames content_frame_trans [OF _ content_frames(5)]
       content_frame_trans [OF content_frames(6) content_frames(4)] content_frameI)

lemma frame_ScrollRegionDown: "content_frame g (ScrollRegionDown n g)"
  by (simp add: ScrollRegionDown_def Let_def content_frameI del: upt_Suc)
     (intro conjI impI content_frame_trans [OF _ content_frames(5)] content_frame_fold frame_upd_line)

lemma grid_wf_frame:
  assumes "content_frame g g'" and "grid_wf g" and "content_ok g'"
  shows "grid_wf g'"
  using assms(2,3) by (simp add: grid_wf_def cursor_ok_def rendition_ok_def content_frameD [OF assms(1)])

lemma content_ok_upd_line:
  assumes "content_ok g" and "\<And>l. row_ok (gr_Cols g) l \<Longrightarrow> row_ok (gr_Cols g) (f l)"
  shows "content_ok (upd_line r f g)"
  using assms by (auto simp: content_ok_def upd_line_def intro!: screen_ok_update dest: screen_ok_nth)

lemma grid_wf_upd_line:
  assumes "grid_wf g" and "\<And>l. row_ok (gr_Cols g) l \<Longrightarrow> row_ok (gr_Cols g) (f l)"
  shows "grid_wf (upd_line r f g)"
  using assms by (intro grid_wf_frame [OF frame_upd_line] content_ok_upd_line) (auto simp: grid_wf_def)

lemma BlankCell_ok: "pen_ok (gr_Pen g) \<Longrightarrow> blank_ok (BlankCell g)"
  by (simp add: blank_ok_def cell_ok_def BlankCell_def default_cell_def pen_ok_def default_pen_def
      del: blank_okD)

lemma grid_wf_blank: "grid_wf g \<Longrightarrow> blank_ok (BlankCell g)"
  by (simp add: BlankCell_ok wf_defs)

lemma ClearLine_row_ok: "blank_ok b \<Longrightarrow> row_ok cols l \<Longrightarrow> row_ok cols (ClearLine b cols l)"
  by (simp add: ClearLine_row row_okD(1))

lemma wf_clear_active: "grid_wf g \<Longrightarrow> grid_wf (clear_active r g)"
  by (simp add: clear_active_def grid_wf_upd_line ClearLine_row_ok grid_wf_blank)

lemma wf_fold:
  assumes "\<And>x g. x \<in> set xs \<Longrightarrow> P g \<Longrightarrow> P (f x g)" and "P g"
  shows "P (fold f xs g)"
  using assms by (induction xs arbitrary: g) auto

lemma wf_fold_clear: "grid_wf g \<Longrightarrow> grid_wf (fold clear_active rs g)"
  by (rule wf_fold [where P = grid_wf]) (simp_all add: wf_clear_active)

lemma wf_PushScrollback:
  assumes wf: "grid_wf g" and r: "r < gr_Rows g"
  shows "grid_wf (PushScrollback r g)"
proof (cases "gr_History g = [] \<or> gr_ScrollbackLimit g = 0")
  case False
  let ?slot = "(gr_HistoryStart g + gr_HistorySize g) mod gr_ScrollbackLimit g"
  have c: "content_ok g" using wf by (simp add: grid_wf_def)
  have slot: "?slot < gr_ScrollbackLimit g" using False by simp
  have "row_ok (gr_Cols g) (gr_Main g ! r)" "row_ok (gr_Cols g) (gr_History g ! ?slot)"
    using c r slot by (auto simp: content_ok_def intro: screen_ok_nth)
  then have "row_ok (gr_Cols g) (CopyCells (gr_Main g ! r) (gr_Cols g) (gr_History g ! ?slot))"
    by (simp add: CopyCells_row row_okD(1))
  then have "content_ok (PushScrollback r g)"
    using c False by (auto simp: content_ok_def PushScrollback_def Let_def intro!: screen_ok_update)
  then show ?thesis
    by (rule grid_wf_frame [OF frame_PushScrollback wf])
qed (simp add: PushScrollback_def wf)

lemma set_std_rotate: "lo \<le> mid \<Longrightarrow> mid \<le> hi \<Longrightarrow> hi \<le> length xs \<Longrightarrow>
    set (std_rotate lo mid hi xs) = set xs \<and> length (std_rotate lo mid hi xs) = length xs"
proof -
  assume le: "lo \<le> mid" "mid \<le> hi" "hi \<le> length xs"
  have mid: "take mid xs = take lo xs @ drop lo (take mid xs)"
    using append_take_drop_id [of lo "take mid xs"] le by (simp add: min_def)
  have hi: "take hi xs = take mid xs @ drop mid (take hi xs)"
    using append_take_drop_id [of mid "take hi xs"] le by (simp add: min_def)
  have "xs = take lo xs @ drop lo (take mid xs) @ drop mid (take hi xs) @ drop hi xs"
    by (metis append_assoc append_take_drop_id hi mid)
  then have "set xs = set (take lo xs) \<union> set (drop lo (take mid xs)) \<union> set (drop mid (take hi xs)) \<union> set (drop hi xs)"
    by (metis set_append Un_assoc)
  then show ?thesis
    using le by (auto simp: std_rotate_def)
qed

lemma wf_rotate_active:
  assumes "grid_wf g" and "lo \<le> mid" "mid \<le> hi" "hi \<le> gr_Rows g"
  shows "grid_wf (rotate_active lo mid hi g)"
  using assms set_std_rotate [of lo mid hi "gr_Main g"] set_std_rotate [of lo mid hi "gr_Alt g"]
  by (intro grid_wf_frame [OF frame_rotate_active])
     (auto simp: grid_wf_def content_ok_def rotate_active_def screen_ok_def)

lemma region_height_eq: "grid_wf g \<Longrightarrow> region_height g = gr_ScrollBot g + 1 - gr_ScrollTop g"
  using grid_wf_cursor [of g] grid_wf_dims [of g] by (simp add: region_height_def)

lemma wf_ScrollRegionUp:
  assumes wf: "grid_wf g"
  shows "grid_wf (ScrollRegionUp n push g)"
proof (cases "n = 0")
  case False
  define k where "k = (if n > region_height g then region_height g else n)"
  have k: "gr_ScrollTop g + k \<le> gr_ScrollBot g + 1" "k \<le> gr_Rows g"
    using region_height_eq [OF wf] grid_wf_cursor [OF wf] by (auto simp: k_def)
  define g1 where "g1 = (if push \<and> gr_ScrollTop g = 0 \<and> \<not> IsAltScreen g
                   then fold PushScrollback [0..<k] g else g)"
  have f1: "content_frame g g1"
    by (simp add: g1_def content_frames content_frameI)
  have "grid_wf g1 \<and> gr_Rows g1 = gr_Rows g"
  proof -
    have "grid_wf (fold PushScrollback [0..<k] g) \<and> gr_Rows (fold PushScrollback [0..<k] g) = gr_Rows g"
      using wf k by (intro wf_fold [where P = "\<lambda>g'. grid_wf g' \<and> gr_Rows g' = gr_Rows g"])
        (auto simp: wf_PushScrollback content_frameD [OF frame_PushScrollback])
    then show ?thesis using wf by (simp add: g1_def)
  qed
  then have "grid_wf (rotate_active (gr_ScrollTop g1) (gr_ScrollTop g1 + k) (gr_ScrollBot g1 + 1) g1)"
    using k grid_wf_cursor [OF wf] by (intro wf_rotate_active) (auto simp: content_frameD [OF f1])
  then have "grid_wf (fold clear_active rs (rotate_active (gr_ScrollTop g1) (gr_ScrollTop g1 + k) (gr_ScrollBot g1 + 1) g1))" for rs
    by (simp add: wf_fold_clear del: upt_Suc)
  then show ?thesis
    using False unfolding ScrollRegionUp_def Let_def k_def [symmetric] g1_def [symmetric] by simp
qed (simp add: ScrollRegionUp_def wf)

lemma wf_ScrollRegionDown:
  assumes wf: "grid_wf g"
  shows "grid_wf (ScrollRegionDown n g)"
proof (cases "n = 0")
  case False
  define k where "k = (if n > region_height g then region_height g else n)"
  define step where "step = (\<lambda>r g. upd_line r (CopyCells (ActiveLine g (u16_minus r k)) (gr_Cols g)) g)"
  have "grid_wf (fold step (rev [gr_ScrollTop g + k..<gr_ScrollBot g + 1]) g) \<and>
      gr_Rows (fold step (rev [gr_ScrollTop g + k..<gr_ScrollBot g + 1]) g) = gr_Rows g"
  proof (rule wf_fold [where P = "\<lambda>g'. grid_wf g' \<and> gr_Rows g' = gr_Rows g"])
    fix r g' assume r: "r \<in> set (rev [gr_ScrollTop g + k..<gr_ScrollBot g + 1])"
      and g': "grid_wf g' \<and> gr_Rows g' = gr_Rows g"
    then have "u16_minus r k < gr_Rows g'"
      using grid_wf_cursor [OF wf] grid_wf_dims [OF wf] by auto
    then have "row_ok (gr_Cols g') (ActiveLine g' (u16_minus r k))"
      using g' by (auto simp: ActiveLine_def wf_defs intro: screen_ok_nth)
    then show "grid_wf (step r g') \<and> gr_Rows (step r g') = gr_Rows g"
      using g' unfolding step_def
      by (auto simp: CopyCells_row row_okD(1) content_frameD [OF frame_upd_line] intro!: grid_wf_upd_line)
  qed (simp add: wf)
  then have "grid_wf (fold clear_active rs (fold step (rev [gr_ScrollTop g + k..<gr_ScrollBot g + 1]) g))" for rs
    by (simp add: wf_fold_clear del: upt_Suc)
  then show ?thesis
    using False unfolding ScrollRegionDown_def Let_def k_def [symmetric] step_def [symmetric] by simp
qed (simp add: ScrollRegionDown_def wf)

subsection \<open>Operations on the cursor\<close>

text \<open>What most operations do: move the cursor to a place on the screen and settle the pending wrap.\<close>

lemma grid_wf_move:
  assumes "grid_wf g"
  shows "r < gr_Rows g \<Longrightarrow> (ModeSet Decom g \<Longrightarrow> r \<le> gr_ScrollBot g) \<Longrightarrow> grid_wf (g\<lparr>gr_CursorRow := r\<rparr>)"
    and "c < gr_Cols g \<Longrightarrow> (gr_PendingWrap g \<Longrightarrow> c + 1 = gr_Cols g) \<Longrightarrow> grid_wf (g\<lparr>gr_CursorCol := c\<rparr>)"
    and "(w \<Longrightarrow> gr_CursorCol g + 1 = gr_Cols g) \<Longrightarrow> grid_wf (g\<lparr>gr_PendingWrap := w\<rparr>)"
  using assms by (simp_all add: wf_defs)

lemma grid_wf_no_wrap [simp]: "grid_wf g \<Longrightarrow> grid_wf (g\<lparr>gr_PendingWrap := False\<rparr>)"
  by (simp add: grid_wf_move)

lemma wf_CarriageReturn: "grid_wf g \<Longrightarrow> grid_wf (CarriageReturn g)"
  using dims_okD by (auto simp: CarriageReturn_def wf_defs)

lemma wf_ScrollOrDown:
  assumes "grid_wf g"
  shows "grid_wf (if gr_CursorRow g = gr_ScrollBot g then ScrollRegionUp 1 True g
     else if gr_CursorRow g < gr_Rows g - 1 then g\<lparr>gr_CursorRow := gr_CursorRow g + 1\<rparr> else g)"
  using assms grid_wf_cursor [OF assms] by (auto intro!: wf_ScrollRegionUp grid_wf_move(1))

lemma wf_g_Index: "grid_wf g \<Longrightarrow> grid_wf (g_Index g)"
  unfolding g_Index_def Let_def by (intro wf_ScrollOrDown grid_wf_no_wrap)

text \<open>A line feed settles the pending wrap, so a cursor that was already moved is no obstacle.\<close>

lemma wf_LineFeed:
  assumes "grid_wf (g\<lparr>gr_PendingWrap := False\<rparr>)"
  shows "grid_wf (LineFeed g)"
proof -
  have "grid_wf ((if ModeSet Lnm g then g\<lparr>gr_CursorCol := 0\<rparr> else g)\<lparr>gr_PendingWrap := False\<rparr>)"
    using assms dims_okD by (auto simp: wf_defs)
  then show ?thesis
    unfolding LineFeed_def Let_def by (rule wf_ScrollOrDown)
qed

lemma wf_ReverseIndex:
  assumes "grid_wf g"
  shows "grid_wf (ReverseIndex g)"
  using assms grid_wf_cursor [OF assms]
  by (auto simp: ReverseIndex_def Let_def intro!: wf_ScrollRegionDown grid_wf_move(1) [of "g\<lparr>gr_PendingWrap := False\<rparr>"])

lemma wf_col: "grid_wf g \<Longrightarrow> c < gr_Cols g \<Longrightarrow> grid_wf (g\<lparr>gr_PendingWrap := False, gr_CursorCol := c\<rparr>)"
  by (simp add: wf_defs)

lemma wf_Backspace: "grid_wf g \<Longrightarrow> grid_wf (Backspace g)"
  by (auto simp: Backspace_def Let_def wf_defs)

lemma find_mem: "find P xs = Some x \<Longrightarrow> x \<in> set xs"
  by (auto simp: find_Some_iff)

lemma wf_HorizontalTab: "grid_wf g \<Longrightarrow> grid_wf (HorizontalTab g)"
  using grid_wf_dims [of g]
  by (auto simp: HorizontalTab_def Let_def wf_defs dest!: find_mem split: option.splits)

lemma wf_tab_back_steps: "grid_wf g \<Longrightarrow> \<not> gr_PendingWrap g \<Longrightarrow> grid_wf (tab_back_steps n g)"
proof (induction n arbitrary: g)
  case (Suc n)
  show ?case
  proof (cases "find (stop_at (gr_TabStops g)) (rev [0..<gr_CursorCol g])")
    case None
    then show ?thesis using Suc.prems grid_wf_dims [OF Suc.prems(1)] by (auto intro: grid_wf_move)
  next
    case (Some c)
    then show ?thesis
      using find_mem [OF Some] Suc.prems grid_wf_cursor [OF Suc.prems(1)]
      by (auto intro!: Suc.IH grid_wf_move)
  qed
qed simp

lemma wf_HorizontalTabBack: "grid_wf g \<Longrightarrow> grid_wf (HorizontalTabBack n g)"
  by (simp add: HorizontalTabBack_def wf_tab_back_steps)

lemma u16_minus_minus: "b < 65536 \<Longrightarrow> u16_minus a (u16_minus a b) = b"
  by (simp add: u16_minus_def mod_diff_right_eq)

lemma u16_add_minus: "b < 65536 \<Longrightarrow> u16 (a + u16_minus b a) = b"
proof -
  assume "b < 65536"
  moreover have "int (u16 (a + u16_minus b a)) = int b mod 65536"
    by (simp add: u16_def u16_minus_def zmod_int mod_add_right_eq)
  ultimately show ?thesis by simp
qed

text \<open>Both relative moves end at the limit when they would pass it, also when the limit is on the far side
  of the cursor and the count wraps around.\<close>

lemma MoveCursorUp_eq:
  assumes wf: "grid_wf g"
  shows "MoveCursorUp n g = g\<lparr>gr_PendingWrap := False, gr_CursorRow :=
    (if int n > int (gr_CursorRow g) - int (up_limit g) then up_limit g else gr_CursorRow g - n)\<rparr>"
proof -
  have "up_limit g < 65536" "gr_CursorRow g < 65536"
    using grid_wf_cursor [OF wf] grid_wf_dims [OF wf] by (auto simp: up_limit_def)
  then show ?thesis
    by (auto simp: MoveCursorUp_def Let_def u16_minus_minus)
qed

lemma MoveCursorDown_eq:
  assumes wf: "grid_wf g"
  shows "MoveCursorDown n g = g\<lparr>gr_PendingWrap := False, gr_CursorRow :=
    (if gr_CursorRow g + n > down_limit g then down_limit g else gr_CursorRow g + n)\<rparr>"
proof -
  have "down_limit g < 65536"
    using grid_wf_cursor [OF wf] grid_wf_dims [OF wf] by (auto simp: down_limit_def)
  then show ?thesis
    by (auto simp: MoveCursorDown_def Let_def u16_add_minus)
qed

lemma wf_row: "grid_wf g \<Longrightarrow> r < gr_Rows g \<Longrightarrow> (ModeSet Decom g \<Longrightarrow> r \<le> gr_ScrollBot g) \<Longrightarrow>
    grid_wf (g\<lparr>gr_PendingWrap := False, gr_CursorRow := r\<rparr>)"
  by (simp add: wf_defs)

lemma wf_MoveCursorUp: "grid_wf g \<Longrightarrow> grid_wf (MoveCursorUp n g)"
  using grid_wf_cursor [of g] grid_wf_dims [of g]
  by (auto simp: MoveCursorUp_eq up_limit_def intro!: wf_row)

lemma wf_MoveCursorDown: "grid_wf g \<Longrightarrow> grid_wf (MoveCursorDown n g)"
  using grid_wf_cursor [of g] grid_wf_dims [of g]
  by (auto simp: MoveCursorDown_eq down_limit_def intro!: wf_row)

lemma wf_MoveCursorRight: "grid_wf g \<Longrightarrow> grid_wf (MoveCursorRight n g)"
  using grid_wf_cursor [of g] grid_wf_dims [of g]
  by (auto simp: MoveCursorRight_def Let_def intro!: wf_col)

lemma wf_MoveCursorLeft: "grid_wf g \<Longrightarrow> grid_wf (MoveCursorLeft n g)"
  using grid_wf_cursor [of g] grid_wf_dims [of g]
  by (auto simp: MoveCursorLeft_def Let_def intro!: wf_col)

lemma ClampCol_less: "grid_wf g \<Longrightarrow> ClampCol g c < gr_Cols g"
  using grid_wf_dims [of g] by (simp add: ClampCol_def)

lemma ClampRow_less: "grid_wf g \<Longrightarrow> ClampRow g r < gr_Rows g"
  using grid_wf_dims [of g] by (simp add: ClampRow_def)

lemma origin_row_ok:
  assumes "grid_wf g"
  shows "origin_row r g < gr_Rows g" "ModeSet Decom g \<Longrightarrow> origin_row r g \<le> gr_ScrollBot g"
  using grid_wf_cursor [OF assms] grid_wf_dims [OF assms] by (auto simp: origin_row_def Let_def)

lemma wf_MoveCursorTo: "grid_wf g \<Longrightarrow> grid_wf (MoveCursorTo r c g)"
  unfolding MoveCursorTo_def
  by (rule grid_wf_move(2) [OF wf_row]) (simp_all add: origin_row_ok ClampCol_less)

lemma wf_MoveCursorToCol: "grid_wf g \<Longrightarrow> grid_wf (MoveCursorToCol c g)"
  by (simp add: MoveCursorToCol_def wf_col ClampCol_less)

lemma wf_MoveCursorToRow: "grid_wf g \<Longrightarrow> grid_wf (MoveCursorToRow r g)"
  by (simp add: MoveCursorToRow_def wf_row origin_row_ok)

lemma wf_home_col: "grid_wf g \<Longrightarrow> \<not> gr_PendingWrap g \<Longrightarrow> grid_wf (g\<lparr>gr_CursorCol := 0\<rparr>)"
  using grid_wf_dims [of g] by (auto intro!: grid_wf_move(2))

lemma wf_CursorNextLine: "grid_wf g \<Longrightarrow> grid_wf (CursorNextLine n g)"
  unfolding CursorNextLine_def by (intro wf_home_col wf_MoveCursorDown) (simp_all add: MoveCursorDown_def Let_def)

lemma wf_CursorPrevLine: "grid_wf g \<Longrightarrow> grid_wf (CursorPrevLine n g)"
  unfolding CursorPrevLine_def by (intro wf_home_col wf_MoveCursorUp) (simp_all add: MoveCursorUp_def Let_def)

lemma wf_SaveCursor: "grid_wf g \<Longrightarrow> grid_wf (SaveCursor g)"
  by (simp add: SaveCursor_def Let_def wf_defs saved_ok_def)

text \<open>Changing a mode other than the origin mode keeps the invariant.\<close>

lemma set_mode_bit_fields [simp]:
  "gr_Main (set_mode_bit m v g) = gr_Main g" "gr_Alt (set_mode_bit m v g) = gr_Alt g"
  "gr_History (set_mode_bit m v g) = gr_History g" "gr_HistoryStart (set_mode_bit m v g) = gr_HistoryStart g"
  "gr_HistorySize (set_mode_bit m v g) = gr_HistorySize g" "gr_Cols (set_mode_bit m v g) = gr_Cols g"
  "gr_Rows (set_mode_bit m v g) = gr_Rows g" "gr_ScrollbackLimit (set_mode_bit m v g) = gr_ScrollbackLimit g"
  "gr_CursorRow (set_mode_bit m v g) = gr_CursorRow g" "gr_CursorCol (set_mode_bit m v g) = gr_CursorCol g"
  "gr_PendingWrap (set_mode_bit m v g) = gr_PendingWrap g" "gr_ScrollTop (set_mode_bit m v g) = gr_ScrollTop g"
  "gr_ScrollBot (set_mode_bit m v g) = gr_ScrollBot g" "gr_Pen (set_mode_bit m v g) = gr_Pen g"
  "gr_SavedMain (set_mode_bit m v g) = gr_SavedMain g" "gr_SavedAlt (set_mode_bit m v g) = gr_SavedAlt g"
  "gr_CharsetG0 (set_mode_bit m v g) = gr_CharsetG0 g" "gr_CharsetG1 (set_mode_bit m v g) = gr_CharsetG1 g"
  "gr_CharsetActive (set_mode_bit m v g) = gr_CharsetActive g"
  "gr_CursorStyle (set_mode_bit m v g) = gr_CursorStyle g"
  "gr_TabStops (set_mode_bit m v g) = gr_TabStops g" "gr_LastChar (set_mode_bit m v g) = gr_LastChar g"
  "gr_LastWidth (set_mode_bit m v g) = gr_LastWidth g"
  "gr_PossiblyDiverged (set_mode_bit m v g) = gr_PossiblyDiverged g"
  by (simp_all add: set_mode_bit_def)

lemma wf_set_mode_bit: "grid_wf g \<Longrightarrow> m \<noteq> Decom \<Longrightarrow> grid_wf (set_mode_bit m v g)"
  by (simp add: wf_defs)

lemma wf_RestoreCursor:
  assumes wf: "grid_wf g"
  shows "grid_wf (RestoreCursor g)"
proof -
  define sc where "sc = (if IsAltScreen g then gr_SavedAlt g else gr_SavedMain g)"
  have sc: "saved_ok (gr_Cols g) (gr_Rows g) sc"
    using wf by (simp add: sc_def wf_defs)
  then show ?thesis
    using wf ClampRow_less [OF wf, of "sc_Row sc"] ClampCol_less [OF wf, of "sc_Col sc"]
    unfolding RestoreCursor_def Let_def sc_def [symmetric]
    by (auto simp: wf_defs saved_ok_def)
qed

subsection \<open>Erasing, inserting, deleting, printing\<close>

text \<open>The operations on the row of the cursor start by settling the pending wrap.\<close>

lemma wf_on_row:
  assumes "grid_wf g" and "\<And>l. row_ok (gr_Cols g) l \<Longrightarrow> row_ok (gr_Cols g) (f l)"
  shows "grid_wf (upd_line r f (g\<lparr>gr_PendingWrap := False\<rparr>))"
  using assms by (intro grid_wf_upd_line) auto

lemma BlankCell_no_wrap [simp]: "BlankCell (g\<lparr>gr_PendingWrap := w\<rparr>) = BlankCell g"
  by (simp add: BlankCell_def)

lemma wf_EraseInLine:
  assumes wf: "grid_wf g"
  shows "grid_wf (EraseInLine n g)"
  unfolding EraseInLine_def Let_def
  using grid_wf_cursor [OF wf] grid_wf_dims [OF wf] grid_wf_blank [OF wf]
  by (intro wf_on_row [OF wf]) (auto intro!: erase_range_ok ClearLine_row_ok)

lemma wf_EraseInDisplay:
  assumes wf: "grid_wf g"
  shows "grid_wf (EraseInDisplay n g)"
proof -
  let ?g = "g\<lparr>gr_PendingWrap := False\<rparr>"
  have "grid_wf ((fold clear_active rs ?g)\<lparr>gr_HistoryStart := 0, gr_HistorySize := 0\<rparr>)" for rs
    using wf_fold_clear [OF grid_wf_no_wrap [OF wf], of rs] by (simp add: wf_defs)
  then show ?thesis
    using wf by (simp add: EraseInDisplay_def Let_def wf_fold_clear wf_EraseInLine del: upt_Suc)
qed

lemma wf_EraseChars:
  assumes wf: "grid_wf g"
  shows "grid_wf (EraseChars n g)"
  unfolding EraseChars_def Let_def
  using grid_wf_cursor [OF wf] grid_wf_dims [OF wf] grid_wf_blank [OF wf]
  by (intro wf_on_row [OF wf]) (auto intro!: erase_range_ok)

lemma wf_DeleteChars:
  assumes wf: "grid_wf g"
  shows "grid_wf (DeleteChars n g)"
  unfolding DeleteChars_def Let_def
  using grid_wf_cursor [OF wf] grid_wf_dims [OF wf] grid_wf_blank [OF wf]
  by (intro wf_on_row [OF wf]) (auto intro!: delete_cells_ok)

lemma wf_InsertChars:
  assumes wf: "grid_wf g"
  shows "grid_wf (InsertChars n g)"
  unfolding InsertChars_def Let_def
  using grid_wf_cursor [OF wf] grid_wf_dims [OF wf] grid_wf_blank [OF wf]
  by (intro wf_on_row [OF wf]) (auto intro!: insert_cells_ok)

lemma wf_region_top: "grid_wf g \<Longrightarrow> t \<le> gr_ScrollBot g \<Longrightarrow> grid_wf (g\<lparr>gr_ScrollTop := t\<rparr>)"
  by (simp add: wf_defs)

lemma wf_line_operation:
  assumes wf: "grid_wf g" and inside: "gr_CursorRow g \<le> gr_ScrollBot g"
    and op: "\<And>g. grid_wf g \<Longrightarrow> grid_wf (f g)" "\<And>g. content_frame g (f g)"
  shows "grid_wf ((f (g\<lparr>gr_PendingWrap := False, gr_ScrollTop := gr_CursorRow g\<rparr>))
    \<lparr>gr_ScrollTop := gr_ScrollTop g, gr_CursorCol := 0\<rparr>)"
proof -
  let ?g = "g\<lparr>gr_PendingWrap := False, gr_ScrollTop := gr_CursorRow g\<rparr>"
  have "grid_wf ?g"
    using wf inside by (intro wf_region_top) auto
  note wf' = op(1) [OF this] and fr = content_frameD [OF op(2) [of ?g]]
  show ?thesis
    using wf' grid_wf_cursor [OF wf] grid_wf_dims [OF wf]
    by (intro grid_wf_move(2) wf_region_top) (auto simp: fr)
qed

lemma wf_InsertLines: "grid_wf g \<Longrightarrow> grid_wf (InsertLines n g)"
  using wf_line_operation [of g "ScrollRegionDown n"]
  by (simp add: InsertLines_def Let_def wf_ScrollRegionDown frame_ScrollRegionDown)

lemma wf_DeleteLines: "grid_wf g \<Longrightarrow> grid_wf (DeleteLines n g)"
  using wf_line_operation [of g "ScrollRegionUp n False"]
  by (simp add: DeleteLines_def Let_def wf_ScrollRegionUp frame_ScrollRegionUp)

lemma put_ok_translate:
  assumes "put_ok cp w"
  shows "put_ok (translate_charset g cp) w"
proof (cases "translate_charset g cp = cp")
  case False
  then have cp: "0x60 \<le> cp" "cp \<le> 0x7E" "translate_charset g cp = DEC_GFX ! (cp - 0x60)"
    by (auto simp: translate_charset_def Let_def split: if_splits)
  moreover have "length DEC_GFX = 31"
    by (simp add: DEC_GFX_def)
  ultimately have "translate_charset g cp \<in> set DEC_GFX"
    by simp
  then have "printable (translate_charset g cp)" "Wcwidth (translate_charset g cp) = 1"
    using DEC_GFX_narrow by (auto simp: list_all_iff)
  then show ?thesis
    using assms cp(1,2) by (auto simp: put_ok_def)
qed (simp add: assms)

lemma put_ok_space [simp]: "put_ok 0x20 (Suc 0)"
  by (simp add: put_ok_def printable_def)

lemma put_ok_replacement [simp]: "put_ok 0xFFFD (Suc 0)"
  by (simp add: put_ok_def)

lemma wf_put_cell:
  assumes wf: "grid_wf g" and cp: "put_ok cp width" and w: "width = 1 \<or> width = 2 \<and> gr_CursorCol g + 1 < gr_Cols g"
    and np: "\<not> gr_PendingWrap g"
  shows "grid_wf (put_cell cp width g)"
proof -
  let ?g = "upd_line (gr_CursorRow g)
               (write_glyph (BlankCell g) (gr_Pen g) (gr_Cols g) (gr_CursorCol g) cp width) g"
  note cur = grid_wf_cursor [OF wf] grid_wf_dims [OF wf] and fr = content_frameD [OF frame_upd_line]
  have wf1: "grid_wf ?g"
    using cur w cp wf
    by (intro grid_wf_upd_line [OF wf] write_glyph_ok grid_wf_blank) (auto simp: wf_defs)
  then have "grid_wf (?g\<lparr>gr_LastChar := cp, gr_LastWidth := width\<rparr>)"
    using cp w by (auto simp: wf_defs)
  then show ?thesis
    unfolding put_cell_def Let_def
    using cur w np
    by (auto simp: fr wf_defs)
qed

lemma LineFeed_fields [simp]:
  "gr_Cols (LineFeed g) = gr_Cols g" "gr_PendingWrap (LineFeed g) = False"
  "gr_CursorCol (LineFeed g) = (if ModeSet Lnm g then 0 else gr_CursorCol g)"
  "gr_LastChar (LineFeed g) = gr_LastChar g"
  by (auto simp: LineFeed_def Let_def content_frameD [OF frame_ScrollRegionUp])

lemma wf_wrap: "grid_wf g \<Longrightarrow> grid_wf (LineFeed (g\<lparr>gr_CursorCol := 0\<rparr>))"
  using grid_wf_dims [of g] by (intro wf_LineFeed) (auto simp: wf_defs)

lemma InsertChars_fields [simp]:
  "gr_Cols (InsertChars n g) = gr_Cols g" "gr_PendingWrap (InsertChars n g) = False"
  "gr_CursorCol (InsertChars n g) = gr_CursorCol g" "gr_LastChar (InsertChars n g) = gr_LastChar g"
  "gr_Modes (InsertChars n g) = gr_Modes g"
  by (simp_all add: InsertChars_def Let_def content_frameD [OF frame_upd_line])

lemma PutChar_unfold:
  assumes wf: "grid_wf g" and cp: "put_ok cp width" and w0: "width \<noteq> 0"
  obtains g3 cp' w' where "grid_wf g3" "\<not> gr_PendingWrap g3" "gr_LastChar g3 = gr_LastChar g"
    "put_ok cp' w'" "w' = 1 \<or> w' = 2 \<and> gr_Cols g3 \<noteq> 1"
    "PutChar cp width g = (if w' = 2 \<and> gr_CursorCol g3 + 1 \<ge> gr_Cols g3 then
       (if ModeSet Awm g3 then put_cell cp' w' (LineFeed (g3\<lparr>gr_CursorCol := 0\<rparr>)) else g3)
     else put_cell cp' w' g3)"
proof -
  define g1 where "g1 = (if gr_PendingWrap g \<and> ModeSet Awm g then LineFeed (g\<lparr>gr_CursorCol := 0\<rparr>) else g)"
  define g2 where "g2 = g1\<lparr>gr_PendingWrap := False\<rparr>"
  define g3 where "g3 = (if ModeSet Irm g2 then InsertChars (u16 width) g2 else g2)"
  define c where "c = (if width = 2 \<and> gr_Cols g3 = 1 then (1, 0x20) else (width, translate_charset g cp))"
  show ?thesis
  proof (rule that [of g3 "snd c" "fst c"])
    show "grid_wf g3" "\<not> gr_PendingWrap g3" "gr_LastChar g3 = gr_LastChar g"
      using wf by (simp_all add: g3_def g2_def g1_def wf_InsertChars wf_wrap)
    show "put_ok (snd c) (fst c)" "fst c = 1 \<or> fst c = 2 \<and> gr_Cols g3 \<noteq> 1"
      using w0 cp put_ok_translate [OF cp, of g] by (auto simp: c_def put_ok_def [of cp])
    show "PutChar cp width g = (if fst c = 2 \<and> gr_CursorCol g3 + 1 \<ge> gr_Cols g3 then
        (if ModeSet Awm g3 then put_cell (snd c) (fst c) (LineFeed (g3\<lparr>gr_CursorCol := 0\<rparr>)) else g3)
        else put_cell (snd c) (fst c) g3)"
      using w0 unfolding PutChar_def Let_def g1_def [symmetric] g2_def [symmetric] g3_def [symmetric]
        c_def [symmetric] by (simp add: case_prod_beta)
  qed
qed

lemma put_cell_last [simp]: "gr_LastChar (put_cell cp w g) = cp"
  by (simp add: put_cell_def Let_def)

lemma PutChar_ok:
  assumes wf: "grid_wf g" and cp: "put_ok cp width"
  shows "grid_wf (PutChar cp width g) \<and> (gr_LastChar g \<noteq> 0 \<longrightarrow> gr_LastChar (PutChar cp width g) \<noteq> 0)"
proof (cases "width = 0")
  case False
  obtain g3 cp' w' where g3: "grid_wf g3" "\<not> gr_PendingWrap g3" "gr_LastChar g3 = gr_LastChar g"
    and c: "put_ok cp' w'" "w' = 1 \<or> w' = 2 \<and> gr_Cols g3 \<noteq> 1"
    and eq: "PutChar cp width g = (if w' = 2 \<and> gr_CursorCol g3 + 1 \<ge> gr_Cols g3 then
       (if ModeSet Awm g3 then put_cell cp' w' (LineFeed (g3\<lparr>gr_CursorCol := 0\<rparr>)) else g3)
     else put_cell cp' w' g3)"
    by (rule PutChar_unfold [OF assms False])
  have "cp' \<noteq> 0"
    using c by (auto simp: put_ok_def printable_def)
  then show ?thesis
    unfolding eq using g3 c grid_wf_dims [OF g3(1)] by (auto intro!: wf_put_cell wf_wrap)
qed (simp add: PutChar_def wf)

lemmas wf_PutChar = PutChar_ok [THEN conjunct1]
lemmas PutChar_last = PutChar_ok [THEN conjunct2, rule_format]

lemma put_ok_last: "grid_wf g \<Longrightarrow> gr_LastChar g \<noteq> 0 \<Longrightarrow> put_ok (gr_LastChar g) (gr_LastWidth g)"
  by (simp add: wf_defs)

lemma wf_RepeatChar:
  assumes "grid_wf g"
  shows "grid_wf (RepeatChar n g)"
proof -
  have "grid_wf (((\<lambda>g. PutChar (gr_LastChar g) (gr_LastWidth g) g) ^^ n) g) \<and>
      gr_LastChar (((\<lambda>g. PutChar (gr_LastChar g) (gr_LastWidth g) g) ^^ n) g) \<noteq> 0" if "gr_LastChar g \<noteq> 0"
    using assms that by (induction n) (simp_all add: wf_PutChar put_ok_last PutChar_last del: not_gr_zero neq0_conv)
  then show ?thesis using assms by (simp add: RepeatChar_def)
qed

subsection \<open>Modes, rendition, reset\<close>

lemma wf_SetScrollRegion: "grid_wf g \<Longrightarrow> grid_wf (SetScrollRegion t b g)"
  using grid_wf_dims [of g]
  by (auto simp: SetScrollRegion_def Let_def wf_defs)

lemma wf_SwitchAltScreen: "grid_wf g \<Longrightarrow> grid_wf (SwitchAltScreen e g)"
  by (simp add: SwitchAltScreen_def wf_set_mode_bit)

lemma wf_ClearAltScreen:
  assumes "grid_wf g"
  shows "grid_wf (ClearAltScreen g)"
proof -
  let ?f = "\<lambda>r g. g\<lparr>gr_Alt := (gr_Alt g)[r := ClearLine (BlankCell g) (gr_Cols g) (gr_Alt g ! r)]\<rparr>"
  have "grid_wf (fold ?f rs g)" for rs
  proof (rule wf_fold [where P = grid_wf])
    fix r g assume wf: "grid_wf g"
    then show "grid_wf (?f r g)"
      using grid_wf_blank [OF wf]
      by (intro grid_wf_frame [OF content_frameI(3) wf])
         (auto simp: wf_defs intro!: screen_ok_update ClearLine_row_ok dest: screen_ok_nth)
  qed (rule assms)
  then show ?thesis by (simp add: ClearAltScreen_def)
qed

lemma wf_origin_mode:
  "grid_wf g \<Longrightarrow> grid_wf ((set_mode_bit Decom v g)\<lparr>gr_CursorRow := (if v then gr_ScrollTop g else 0),
     gr_CursorCol := 0, gr_PendingWrap := False\<rparr>)"
  using grid_wf_dims [of g] by (simp add: wf_defs)

lemma wf_SetMode: "grid_wf g \<Longrightarrow> grid_wf (SetMode n v g)"
  unfolding SetMode_def
  by (auto simp: wf_set_mode_bit wf_origin_mode wf_SwitchAltScreen wf_ClearAltScreen wf_SaveCursor wf_RestoreCursor)

text \<open>The pen: the underline flag and the underline style go together, and so do the kind of a colour and
  its bytes.\<close>

fun attr_bit :: "EAttr \<Rightarrow> nat" where
  "attr_bit Bold = 0" | "attr_bit Dim = 1" | "attr_bit Italic = 2" | "attr_bit Underline = 3"
| "attr_bit Blink = 4" | "attr_bit Inverse = 5" | "attr_bit Invisible = 6" | "attr_bit StrikeThrough = 7"

lemma attr_bit_less [simp]: "attr_bit a < 8"
  by (cases a) simp_all

lemma attr_bit_inj [simp]: "attr_bit a = attr_bit b \<longleftrightarrow> a = b"
  by (cases a; cases b) simp_all

lemma attr_flag_bit: "attr_flag a = push_bit (attr_bit a) 1"
  by (cases a) (simp_all add: push_bit_of_1)

lemma attr_set_bit: "w AND attr_flag a \<noteq> 0 \<longleftrightarrow> bit w (attr_bit a)"
  unfolding attr_flag_bit by (simp add: bit_iff_and_push_bit_not_eq_0)

lemma bit_attr_flag: "bit (attr_flag a) (attr_bit b) \<longleftrightarrow> a = b"
  unfolding attr_flag_bit by (simp add: push_bit_of_1 bit_exp_iff possible_bit_word eq_commute)

lemma attr_test:
  "(w OR attr_flag a) AND attr_flag b \<noteq> 0 \<longleftrightarrow> a = b \<or> w AND attr_flag b \<noteq> 0"
  "(w AND NOT (attr_flag a)) AND attr_flag b \<noteq> 0 \<longleftrightarrow> a \<noteq> b \<and> w AND attr_flag b \<noteq> 0"
  unfolding attr_set_bit by (auto simp: bit_or_iff bit_and_iff bit_not_iff bit_attr_flag possible_bit_word)

lemma pen_ok_bit:
  "pen_ok pen \<longleftrightarrow> bit (p_Attrs pen) (attr_bit Underline) = (p_AttrEx pen \<noteq> 0) \<and> p_AttrEx pen \<le> 5 \<and>
     color_ok (p_FgKind pen) (p_Fg pen) \<and> color_ok (p_BgKind pen) (p_Bg pen)"
  unfolding pen_ok_def attr_set_bit ..

lemma pen_ok_attr:
  "pen_ok pen \<Longrightarrow> a \<noteq> Underline \<Longrightarrow> pen_ok (with_attr a pen)"
  "pen_ok pen \<Longrightarrow> a \<noteq> Underline \<Longrightarrow> pen_ok (without_attr a pen)"
  "pen_ok pen \<Longrightarrow> pen_ok ((without_attr Underline pen)\<lparr>p_AttrEx := 0\<rparr>)"
  "pen_ok pen \<Longrightarrow> x \<noteq> 0 \<Longrightarrow> x \<le> 5 \<Longrightarrow> pen_ok ((with_attr Underline pen)\<lparr>p_AttrEx := x\<rparr>)"
  by (simp_all add: pen_ok_bit with_attr_def without_attr_def bit_or_iff bit_and_iff bit_not_iff bit_attr_flag
      possible_bit_word del: attr_bit.simps attr_flag.simps)

lemma pen_ok_color:
  "pen_ok pen \<Longrightarrow> color_ok k c \<Longrightarrow> pen_ok (set_fg k c pen)"
  "pen_ok pen \<Longrightarrow> color_ok k c \<Longrightarrow> pen_ok (set_bg k c pen)"
  "pen_ok pen \<Longrightarrow> pen_ok (pen\<lparr>p_UlIdx := u\<rparr>)"
  by (simp_all add: pen_ok_def set_fg_def set_bg_def)

lemma sgr_color_ok: "fst (sgr_color params colon i) = Some (k, c) \<Longrightarrow> color_ok k c"
  by (auto simp: sgr_color_def Let_def split: if_splits)

lemma pen_ok_apply_color:
  assumes "pen_ok pen" and "sgr_color params colon i = (c, j)"
  shows "pen_ok (apply_color set_fg c pen)" "pen_ok (apply_color set_bg c pen)"
  using assms sgr_color_ok [of params colon i] by (cases c; auto simp: pen_ok_color)+

lemma pen_ok_underline_color: "pen_ok pen \<Longrightarrow> pen_ok (apply_underline_color u pen)"
  by (cases u) (simp_all add: pen_ok_color)

lemma style_byte: "n \<le> 5 \<Longrightarrow> n \<noteq> 0 \<Longrightarrow> (word_of_nat n :: byte) \<noteq> 0 \<and> (word_of_nat n :: byte) \<le> 5"
  by (auto simp: word_le_nat_alt unat_of_nat unat_eq_0 [symmetric] simp del: unat_eq_0 dest: arg_cong [of _ _ unat])

lemma pen_ok_sgr_step:
  assumes "pen_ok pen"
  shows "pen_ok (fst (sgr_step params colon i pen))"
  using assms style_byte [of "params ! (i + 1)"] pen_ok_apply_color [OF assms, of params colon i]
  by (cases "sgr_color params colon i"; cases "sgr_underline_color params colon i")
     (simp add: sgr_step_def Let_def pen_ok_attr pen_ok_color pen_ok_underline_color)

lemma pen_ok_sgr_loop: "pen_ok pen \<Longrightarrow> pen_ok (sgr_loop params colon i pen)"
proof (induction params colon i pen rule: sgr_loop.induct)
  case (1 params colon i pen)
  then show ?case
    by (subst sgr_loop.simps) (auto simp: pen_ok_sgr_step)
qed

lemma wf_pen: "grid_wf g \<Longrightarrow> pen_ok pen \<Longrightarrow> grid_wf (g\<lparr>gr_Pen := pen\<rparr>)"
  by (simp add: wf_defs)

lemma wf_ApplySgr: "grid_wf g \<Longrightarrow> grid_wf (ApplySgr params colon g)"
  by (simp add: ApplySgr_def wf_pen) (simp add: wf_pen pen_ok_sgr_loop wf_defs)

lemma length_stops [simp]:
  "length (set_stop c ts) = length ts" "length (clear_stop c ts) = length ts" "length no_stops = TAB_WORDS"
  by (simp_all add: set_stop_def clear_stop_def no_stops_def)

lemma length_default_stops [simp]: "length (default_stops c cols ts) = length ts"
proof (induction c cols ts rule: default_stops.induct)
  case (1 c cols ts)
  then show ?case by (subst default_stops.simps) simp
qed

lemma wf_soft_reset:
  "grid_wf g \<Longrightarrow> grid_wf (g\<lparr>gr_Pen := default_pen, gr_ScrollTop := 0, gr_ScrollBot := u16_minus (gr_Rows g) 1,
     gr_CharsetActive := 0, gr_CharsetG0 := 0, gr_CharsetG1 := 0\<rparr>)"
  using grid_wf_dims [of g] by (auto simp: wf_defs)

lemma saved_default: "0 < cols \<Longrightarrow> 0 < rows \<Longrightarrow> saved_ok cols rows default_saved"
  by (simp add: saved_ok_def default_saved_def)

lemma wf_modes: "grid_wf g \<Longrightarrow> \<not> bit w (mode_bit Decom) \<Longrightarrow> grid_wf (g\<lparr>gr_Modes := w\<rparr>)"
  by (simp add: wf_defs ModeSet_bit del: mode_bit.simps)

lemma wf_g_Reset:
  assumes wf: "grid_wf g"
  shows "grid_wf (g_Reset hard g)"
proof -
  define g0 where "g0 = g\<lparr>gr_Pen := default_pen, gr_ScrollTop := 0, gr_ScrollBot := u16_minus (gr_Rows g) 1,
     gr_CharsetActive := 0, gr_CharsetG0 := 0, gr_CharsetG1 := 0\<rparr>"
  have wf0: "grid_wf g0"
    unfolding g0_def using wf by (rule wf_soft_reset)
  define g1 where "g1 = g0\<lparr>gr_CursorRow := 0, gr_CursorCol := 0, gr_PendingWrap := False,
                  gr_Modes := default_modes\<rparr>"
  have wf1: "grid_wf g1"
    using wf0 grid_wf_dims [OF wf0] by (simp add: g1_def wf_defs)
  let ?f = "\<lambda>r g. g\<lparr>
                  gr_Main := (gr_Main g)[r := ClearLine (BlankCell g) (gr_Cols g) (gr_Main g ! r)],
                  gr_Alt := (gr_Alt g)[r := ClearLine (BlankCell g) (gr_Cols g) (gr_Alt g ! r)]\<rparr>"
  have wf2: "grid_wf (fold ?f rs g1)" for rs
  proof (rule wf_fold [where P = grid_wf])
    fix r h assume h: "grid_wf h"
    then show "grid_wf (?f r h)"
      using grid_wf_blank [OF h]
      by (auto simp: wf_defs intro!: screen_ok_update ClearLine_row_ok dest: screen_ok_nth)
  qed (rule wf1)
  define g2 where "g2 = fold ?f [0..<gr_Rows g1] g1"
  have hard: "grid_wf (g2\<lparr>gr_HistoryStart := 0, gr_HistorySize := 0,
             gr_TabStops := default_stops 0 (gr_Cols g2) no_stops,
             gr_SavedMain := default_saved, gr_SavedAlt := default_saved, gr_CursorStyle := 0\<rparr>)"
    using wf2 [of "[0..<gr_Rows g1]"] grid_wf_dims [of g2] unfolding g2_def [symmetric]
    by (simp add: wf_defs saved_default)
  have soft: "grid_wf (g0\<lparr>gr_Modes := default_modes\<rparr>)"
    "grid_wf (g0\<lparr>gr_Modes := default_modes OR ModeFlag AltScreen\<rparr>)"
    by (auto intro!: wf_modes [OF wf0] simp: default_modes_def bit_or_iff bit_ModeFlag simp del: mode_bit.simps)
  show ?thesis
    unfolding g_Reset_def Let_def g0_def [symmetric] g1_def [symmetric] g2_def [symmetric]
    using hard soft by simp
qed

lemma wf_SetCursorStyle: "grid_wf g \<Longrightarrow> grid_wf (SetCursorStyle n g)"
  by (simp add: SetCursorStyle_def wf_defs)

lemma wf_SetTabStop: "grid_wf g \<Longrightarrow> grid_wf (SetTabStop g)"
  by (simp add: SetTabStop_def wf_defs)

lemma wf_ClearTabStop: "grid_wf g \<Longrightarrow> grid_wf (ClearTabStop n g)"
  by (simp add: ClearTabStop_def wf_defs)

lemma wf_ShiftCharset: "grid_wf g \<Longrightarrow> grid_wf (ShiftCharset out g)"
  by (simp add: ShiftCharset_def wf_defs)

lemma wf_DesignateCharset: "grid_wf g \<Longrightarrow> grid_wf (DesignateCharset gs d g)"
  by (simp add: DesignateCharset_def Let_def wf_defs)

lemma wf_SetPossiblyDiverged: "grid_wf g \<Longrightarrow> grid_wf (SetPossiblyDiverged v g)"
  by (simp add: SetPossiblyDiverged_def wf_defs)

subsection \<open>Construction and resize\<close>

lemma ClampScreenSize_ok:
  assumes "ClampScreenSize cols rows = (c, r)"
  shows "dims_ok c r"
proof -
  define c0 where "c0 = (if cols = 0 then 1 else cols)"
  define c1 where "c1 = (if c0 > MAX_COLS then MAX_COLS else c0)"
  define m where "m = min MAX_ROWS (MAX_SCREEN_CELLS div c1)"
  define r0 where "r0 = (if rows = 0 then 1 else rows)"
  have c1: "1 \<le> c1" "c1 \<le> 4096"
    by (auto simp: c1_def c0_def MAX_COLS_def)
  have "256 \<le> MAX_SCREEN_CELLS div c1"
    using c1 by (simp add: less_eq_div_iff_mult_less_eq MAX_SCREEN_CELLS_def)
  then have m: "1 \<le> m" "m \<le> 1024" "c1 * m \<le> MAX_SCREEN_CELLS"
    using c1 times_div_less_eq_dividend [of c1 MAX_SCREEN_CELLS]
    by (auto simp: m_def MAX_ROWS_def min_def intro: order_trans [OF mult_le_mono2])
  have "c = c1" "r = (if r0 > m then u16 m else r0)"
    using assms unfolding ClampScreenSize_def Let_def c0_def [symmetric] r0_def [symmetric]
      c1_def [symmetric] m_def [symmetric] by simp_all
  moreover have "c1 * r0 \<le> MAX_SCREEN_CELLS" if "r0 \<le> m"
    by (rule order_trans [OF mult_le_mono2 [OF that] m(3)])
  ultimately show ?thesis
    using c1 m by (auto simp: dims_ok_def MAX_COLS_def MAX_ROWS_def r0_def)
qed

lemma wf_Allocate: "Allocate alloc cols rows limit = Some g \<Longrightarrow> dims_ok cols rows \<Longrightarrow> grid_wf g"
  using dims_okD [of cols rows]
  by (auto simp: Allocate_def wf_defs screen_ok_blank saved_default ModeSet_bit default_modes_def bit_or_iff
      bit_ModeFlag simp del: mode_bit.simps split: if_splits)

lemma wf_g_Create: "g_Create alloc cols rows limit = Inr g \<Longrightarrow> grid_wf g"
  by (auto simp: g_Create_def Let_def split: if_splits prod.splits option.splits
      intro: wf_Allocate dest: ClampScreenSize_ok)

end
