(* ===== verification/Grid_Scrollback.thy ===== *)
theory Grid_Scrollback
  imports Grid_Invariant
begin

text \<open>
  The scrollback ring as a bounded queue of rows, and \<open>Grid::Resize\<close>: it keeps the invariant whatever the
  requested size, and does nothing when an allocation fails.
\<close>

subsection \<open>The ring is a bounded queue\<close>

text \<open>The rows of the scrollback, oldest first.\<close>

definition scrollback :: "Grid \<Rightarrow> row list" where
  "scrollback g = map (\<lambda>i. gr_History g ! ((gr_HistoryStart g + i) mod gr_ScrollbackLimit g)) [0..<gr_HistorySize g]"

lemma length_scrollback [simp]: "length (scrollback g) = gr_HistorySize g"
  by (simp add: scrollback_def)

lemma nth_scrollback: "i < gr_HistorySize g \<Longrightarrow>
    scrollback g ! i = gr_History g ! ((gr_HistoryStart g + i) mod gr_ScrollbackLimit g)"
  by (simp add: scrollback_def)

lemma ring_inj:
  assumes "(s + i) mod L = (s + j) mod L" and "i < L" and "j < (L :: nat)"
  shows "i = j"
proof -
  have "i = j" if "i \<le> j" "(s + j) mod L = (s + i) mod L" "j < L" for i j :: nat
  proof -
    have "L dvd (s + j) - (s + i)"
      using that(1,2) by (subst mod_eq_dvd_iff_nat [symmetric]) auto
    then have "j - i = 0"
      using that(3) by (auto dest: dvd_imp_le)
    then show ?thesis using that(1) by simp
  qed
  from this [of i j] this [of j i] assms show ?thesis
    by (cases "i \<le> j") auto
qed

text \<open>What the ring needs of the grid for a row to be pushed.\<close>

definition ring_ok :: "Grid \<Rightarrow> bool" where
  "ring_ok g \<longleftrightarrow> length (gr_History g) = gr_ScrollbackLimit g \<and> gr_HistorySize g \<le> gr_ScrollbackLimit g \<and>
     (gr_ScrollbackLimit g > 0 \<longrightarrow> gr_HistoryStart g < gr_ScrollbackLimit g) \<and>
     (\<forall>l\<in>set (gr_History g). length l = gr_Cols g)"

lemma ring_ok_wf: "grid_wf g \<Longrightarrow> ring_ok g"
  by (auto simp: ring_ok_def wf_defs screen_ok_def row_okD(1))

lemma scrollback_push:
  assumes ring: "ring_ok g" and L: "gr_ScrollbackLimit g > 0" and row: "length (gr_Main g ! r) = gr_Cols g"
  shows "scrollback (PushScrollback r g) =
    (if gr_HistorySize g < gr_ScrollbackLimit g then scrollback g else tl (scrollback g)) @ [gr_Main g ! r]"
    and "ring_ok (PushScrollback r g)"
proof -
  let ?L = "gr_ScrollbackLimit g" and ?s = "gr_HistoryStart g" and ?n = "gr_HistorySize g"
  let ?slot = "(?s + ?n) mod ?L"
  have slot: "?slot < length (gr_History g)" and ne: "gr_History g \<noteq> []"
    using ring L by (auto simp: ring_ok_def)
  have copy: "CopyCells (gr_Main g ! r) (gr_Cols g) (gr_History g ! ?slot) = gr_Main g ! r"
    using ring slot row by (intro CopyCells_row) (auto simp: ring_ok_def)
  have push: "PushScrollback r g =
      (let g' = g\<lparr>gr_History := (gr_History g)[?slot := gr_Main g ! r]\<rparr> in
       if ?n < ?L then g'\<lparr>gr_HistorySize := ?n + 1\<rparr> else g'\<lparr>gr_HistoryStart := (?s + 1) mod ?L\<rparr>)"
    using ne L by (simp add: PushScrollback_def Let_def copy)
  show "ring_ok (PushScrollback r g)"
    using ring L row by (auto simp: push Let_def ring_ok_def dest!: subsetD [OF set_update_subset_insert])
  show "scrollback (PushScrollback r g) =
    (if ?n < ?L then scrollback g else tl (scrollback g)) @ [gr_Main g ! r]"
  proof (cases "?n < ?L")
    case True
    have other: "?slot \<noteq> (?s + i) mod ?L" if "i < ?n" for i
      using ring_inj [of ?s i ?L ?n] that True by auto
    show ?thesis
      using True slot other
      by (intro nth_equalityI [where ?ys = "_ @ _"]) (auto simp: push Let_def nth_scrollback nth_append nth_list_update less_Suc_eq)
  next
    case False
    then have n: "?n = ?L" using ring by (simp add: ring_ok_def)
    have slot_s: "?slot = ?s mod ?L" using n by simp
    have shift: "((?s + 1) mod ?L + i) mod ?L = (?s + Suc i) mod ?L" for i
      by (simp add: mod_add_left_eq)
    have other: "(?s + Suc i) mod ?L \<noteq> ?slot" if "Suc i < ?L" for i
      using ring_inj [of ?s "Suc i" ?L 0] that slot_s L by auto
    have last: "(?s + ?L) mod ?L = ?slot" using n by simp
    show ?thesis
    proof (rule nth_equalityI)
      fix i assume "i < length (scrollback (PushScrollback r g))"
      then have i: "i < ?L" using n False by (simp add: push Let_def)
      have "scrollback (PushScrollback r g) ! i =
          (gr_History g)[?slot := gr_Main g ! r] ! ((?s + Suc i) mod ?L)"
        using False i n by (simp add: push Let_def nth_scrollback shift [simplified])
      also have "\<dots> = (tl (scrollback g) @ [gr_Main g ! r]) ! i"
        using i n slot other [of i] last L
        by (cases "Suc i = ?L") (auto simp: nth_append nth_tl nth_scrollback nth_list_update)
      finally show "scrollback (PushScrollback r g) ! i =
          ((if ?n < ?L then scrollback g else tl (scrollback g)) @ [gr_Main g ! r]) ! i"
        using False by simp
    qed (use n L False in \<open>simp add: push Let_def\<close>)
  qed
qed

subsection \<open>Resize\<close>

text \<open>A row whose first cells, with blanks after them, make a well-formed row of the new width.\<close>

definition fits_row :: "nat \<Rightarrow> nat \<Rightarrow> row \<Rightarrow> bool" where
  "fits_row newCols cols l \<longleftrightarrow> length l = cols \<and> row_ok newCols (fit_row newCols (min newCols cols) l)"

definition cut_row :: "Cell \<Rightarrow> nat \<Rightarrow> nat \<Rightarrow> row \<Rightarrow> row" where
  "cut_row b newCols cols l = (if newCols < cols then blank_cut b newCols l else l)"

lemma fit_row_shrink: "newCols \<le> length l \<Longrightarrow> fit_row newCols newCols l = take newCols l"
  by (intro nth_equalityI) (auto simp: fit_row_def nth_CopyCells)

lemma fit_row_grow:
  "length l = cols \<Longrightarrow> cols \<le> newCols \<Longrightarrow> fit_row newCols cols l = l @ replicate (newCols - cols) default_cell"
  by (intro nth_equalityI) (auto simp: fit_row_def nth_CopyCells nth_append)

lemma take_blank_cut:
  "0 < n \<Longrightarrow> n \<le> length l \<Longrightarrow> take n (blank_cut b n l) = cut_left b (take n l)"
  by (intro nth_equalityI) (auto simp: blank_cut_def nth_cut_left nth_update)

lemma cut_row_fits:
  assumes "row_ok cols l" and "blank_ok b" and "0 < newCols"
  shows "fits_row newCols cols (cut_row b newCols cols l)"
proof (cases "newCols < cols")
  case True
  then have len: "length (blank_cut b newCols l) = cols"
    using assms by (simp add: blank_cut_def row_okD(1))
  show ?thesis
    using True assms len cut_left_ok [OF assms(1,2), of newCols]
    by (simp add: fits_row_def cut_row_def fit_row_shrink take_blank_cut row_okD(1) min_def)
next
  case False
  then show ?thesis
    using assms row_ok_append [OF assms(1) row_ok_replicate [OF default_cell_blank], of "newCols - cols"]
    by (simp add: fits_row_def cut_row_def fit_row_grow row_okD(1) min_def)
qed

lemma ring_update:
  assumes "ring_ok g" and "k < gr_HistorySize g" and "length x = gr_Cols g"
  defines "g' \<equiv> g\<lparr>gr_History := (gr_History g)[(gr_HistoryStart g + k) mod gr_ScrollbackLimit g := x]\<rparr>"
  shows "scrollback g' = (scrollback g)[k := x]" and "ring_ok g'"
proof -
  let ?L = "gr_ScrollbackLimit g" and ?s = "gr_HistoryStart g"
  have L: "gr_HistorySize g \<le> ?L" "0 < ?L" "length (gr_History g) = ?L"
    using assms(1,2) by (auto simp: ring_ok_def)
  have neq: "(?s + k) mod ?L \<noteq> (?s + i) mod ?L" if "i < gr_HistorySize g" "i \<noteq> k" for i
    using ring_inj [of ?s k ?L i] that assms(2) L by auto
  show "scrollback g' = (scrollback g)[k := x]"
  proof (rule nth_equalityI)
    fix i assume "i < length (scrollback g')"
    then have i: "i < gr_HistorySize g" by (simp add: g'_def)
    then show "scrollback g' ! i = (scrollback g)[k := x] ! i"
      using neq [OF i] L assms(2) by (cases "i = k") (auto simp: g'_def nth_scrollback nth_update)
  qed (simp add: g'_def)
  show "ring_ok g'"
    using assms(1,3) by (auto simp: g'_def ring_ok_def dest!: subsetD [OF set_update_subset_insert])
qed

lemma cut_history:
  assumes ring: "ring_ok g" and k: "k \<le> gr_HistorySize g" and f: "\<And>l. length (f l) = length l"
  defines "step \<equiv> \<lambda>i g. g\<lparr>gr_History := (gr_History g)[(gr_HistoryStart g + i) mod gr_ScrollbackLimit g :=
      f (gr_History g ! ((gr_HistoryStart g + i) mod gr_ScrollbackLimit g))]\<rparr>"
  shows "\<exists>h. fold step [0..<k] g = g\<lparr>gr_History := h\<rparr> \<and> ring_ok (g\<lparr>gr_History := h\<rparr>) \<and>
    scrollback (g\<lparr>gr_History := h\<rparr>) = map f (take k (scrollback g)) @ drop k (scrollback g)"
  using k
proof (induction k)
  case 0
  then show ?case using ring by (intro exI [of _ "gr_History g"]) simp
next
  case (Suc k)
  then obtain h where h: "fold step [0..<k] g = g\<lparr>gr_History := h\<rparr>" "ring_ok (g\<lparr>gr_History := h\<rparr>)"
    "scrollback (g\<lparr>gr_History := h\<rparr>) = map f (take k (scrollback g)) @ drop k (scrollback g)"
    by auto
  let ?p = "(gr_HistoryStart g + k) mod gr_ScrollbackLimit g"
  have kn: "k < gr_HistorySize g" using Suc.prems by simp
  have "h ! ?p = scrollback (g\<lparr>gr_History := h\<rparr>) ! k"
    using nth_scrollback [of k "g\<lparr>gr_History := h\<rparr>"] kn by simp
  then have row: "h ! ?p = scrollback g ! k"
    using kn by (simp add: h(3) nth_append)
  have p: "?p < length h"
    using h(2) kn by (auto simp: ring_ok_def intro!: mod_less_divisor)
  then have "length (f (h ! ?p)) = gr_Cols g"
    using h(2) f by (simp add: ring_ok_def)
  note upd = ring_update [OF h(2), of k "f (h ! ?p)", simplified, OF kn this]
  have "(map f (take k (scrollback g)) @ drop k (scrollback g))[k := f (scrollback g ! k)] =
      map f (take (Suc k) (scrollback g)) @ drop (Suc k) (scrollback g)"
    using kn by (simp add: list_update_append take_Suc_conv_app_nth flip: Cons_nth_drop_Suc)
  then show ?case
    using upd h(1,3) row by (intro exI [of _ "h[?p := f (h ! ?p)]"]) (simp add: step_def)
qed

lemma length_blank_cut [simp]: "length (blank_cut b n l) = length l"
  by (simp add: blank_cut_def)

lemma blank_cuts_spec:
  assumes wf: "grid_wf g"
  obtains h where "blank_cuts n g = g\<lparr>gr_Main := map (cut_row (BlankCell g) n (gr_Cols g)) (gr_Main g),
      gr_Alt := map (cut_row (BlankCell g) n (gr_Cols g)) (gr_Alt g), gr_History := h\<rparr>"
    and "ring_ok (blank_cuts n g)"
    and "scrollback (blank_cuts n g) = map (cut_row (BlankCell g) n (gr_Cols g)) (scrollback g)"
proof (cases "n < gr_Cols g")
  case False
  then have "cut_row (BlankCell g) n (gr_Cols g) = (\<lambda>l. l)" "blank_cuts n g = g"
    by (auto simp: cut_row_def blank_cuts_def)
  then show ?thesis
    using that [of "gr_History g"] ring_ok_wf [OF wf] by simp
next
  case True
  then have cut: "cut_row (BlankCell g) n (gr_Cols g) = blank_cut (BlankCell g) n"
    by (auto simp: cut_row_def)
  define g1 where "g1 = g\<lparr>gr_Main := map (blank_cut (BlankCell g) n) (gr_Main g),
                  gr_Alt := map (blank_cut (BlankCell g) n) (gr_Alt g)\<rparr>"
  have ring: "ring_ok g1" and same: "scrollback g1 = scrollback g" "gr_HistorySize g1 = gr_HistorySize g"
    using ring_ok_wf [OF wf] by (simp_all add: g1_def ring_ok_def scrollback_def)
  show ?thesis
  proof (cases "gr_History g = []")
    case True
    then have "gr_HistorySize g = 0"
      using ring_ok_wf [OF wf] by (simp add: ring_ok_def)
    then show ?thesis
      using that [of "gr_History g"] \<open>n < gr_Cols g\<close> True ring same
      by (simp add: blank_cuts_def Let_def cut g1_def [symmetric]) (simp add: g1_def scrollback_def)
  next
    case False
    obtain h where h: "fold (\<lambda>i g. g\<lparr>gr_History := (gr_History g)[(gr_HistoryStart g + i) mod gr_ScrollbackLimit g :=
      blank_cut (BlankCell g1) n (gr_History g ! ((gr_HistoryStart g + i) mod gr_ScrollbackLimit g))]\<rparr>)
        [0..<gr_HistorySize g] g1 = g1\<lparr>gr_History := h\<rparr>" "ring_ok (g1\<lparr>gr_History := h\<rparr>)"
      "scrollback (g1\<lparr>gr_History := h\<rparr>) = map (blank_cut (BlankCell g1) n) (scrollback g)"
      using cut_history [OF ring, of "gr_HistorySize g" "blank_cut (BlankCell g1) n"] same by auto
    have b: "BlankCell g1 = BlankCell g"
      by (simp add: g1_def BlankCell_def)
    have "blank_cuts n g = g1\<lparr>gr_History := h\<rparr>"
      using \<open>n < gr_Cols g\<close> False h(1) same
      by (simp add: blank_cuts_def Let_def b g1_def [symmetric])
    then show ?thesis
      using that [of h] h(2,3) by (simp add: cut b) (simp add: g1_def)
  qed
qed

lemma screen_ok_fit_screen:
  assumes "\<forall>l\<in>set lines. fits_row newCols cols l" and "length lines = oldRows"
  shows "screen_ok newCols newRows (fit_screen newCols newRows (min newCols cols) oldRows lines)"
  unfolding fit_screen_def Let_def
  by (rule wf_fold [where P = "screen_ok newCols newRows"])
     (use assms in \<open>auto intro!: screen_ok_update screen_ok_blank simp: fits_row_def split: if_splits\<close>)

lemma screen_ok_fit_history:
  assumes "\<forall>l\<in>set (scrollback g). fits_row newCols (gr_Cols g) l"
  shows "screen_ok newCols (gr_ScrollbackLimit g) (fit_history newCols (min newCols (gr_Cols g)) g)"
proof -
  have "row_ok newCols (fit_row newCols (min newCols (gr_Cols g))
      (gr_History g ! ((gr_HistoryStart g + i) mod gr_ScrollbackLimit g)))" if "i < gr_HistorySize g" for i
    using assms that by (auto simp: fits_row_def scrollback_def)
  then show ?thesis
    unfolding fit_history_def
    by (intro wf_fold [where P = "screen_ok newCols (gr_ScrollbackLimit g)"])
       (auto intro!: screen_ok_update screen_ok_blank)
qed

lemma in_tl: "x \<in> set (tl xs) \<Longrightarrow> x \<in> set xs"
  by (cases xs) auto

lemma PushScrollback_screens [simp]:
  "gr_Main (PushScrollback r g) = gr_Main g" "gr_Alt (PushScrollback r g) = gr_Alt g"
  by (simp_all add: PushScrollback_def Let_def)

lemma push_fits:
  assumes "ring_ok g" and "\<forall>l\<in>set (scrollback g). fits_row newCols (gr_Cols g) l"
    and "\<forall>l\<in>set (gr_Main g). fits_row newCols (gr_Cols g) l" and "k \<le> length (gr_Main g)"
  shows "ring_ok (fold PushScrollback [0..<k] g) \<and>
    (\<forall>l\<in>set (scrollback (fold PushScrollback [0..<k] g)). fits_row newCols (gr_Cols g) l) \<and>
    gr_Main (fold PushScrollback [0..<k] g) = gr_Main g \<and> gr_Alt (fold PushScrollback [0..<k] g) = gr_Alt g"
  (is "?P (fold PushScrollback [0..<k] g)")
proof -
  let ?Q = "\<lambda>g'. ?P g' \<and> gr_Cols g' = gr_Cols g"
  have "?Q (fold PushScrollback [0..<k] g)"
  proof (rule wf_fold [where P = ?Q])
    fix r g' assume r: "r \<in> set [0..<k]" and g': "?Q g'"
    then have row: "fits_row newCols (gr_Cols g) (gr_Main g' ! r)"
      using assms(3,4) by simp
    show "?Q (PushScrollback r g')"
    proof (cases "gr_ScrollbackLimit g' = 0")
      case False
      then show ?thesis
        using scrollback_push [of g' r] g' row
        by (auto simp: fits_row_def content_frameD [OF frame_PushScrollback] dest: in_tl split: if_splits)
    qed (use g' in \<open>simp add: PushScrollback_def\<close>)
  qed (use assms in simp)
  then show ?thesis by simp
qed

lemma clamp_saved_ok:
  "saved_ok cols rows sc \<Longrightarrow> dims_ok newCols newRows \<Longrightarrow> saved_ok newCols newRows (clamp_saved newCols newRows sc)"
  using dims_okD [of newCols newRows] by (auto simp: saved_ok_def clamp_saved_def Let_def)

lemma wf_resize_to:
  assumes wf: "grid_wf g" and dims: "dims_ok newCols newRows"
  shows "grid_wf (resize_to newCols newRows g)"
proof -
  let ?cols = "gr_Cols g" and ?rows = "gr_Rows g"
  have clamp: "(if newCols < ?cols then newCols else ?cols) = min newCols ?cols"
    by (simp add: min_def)
  obtain h where cuts: "blank_cuts newCols g = g\<lparr>
        gr_Main := map (cut_row (BlankCell g) newCols ?cols) (gr_Main g),
        gr_Alt := map (cut_row (BlankCell g) newCols ?cols) (gr_Alt g), gr_History := h\<rparr>"
    and ring1: "ring_ok (blank_cuts newCols g)"
    and back1: "scrollback (blank_cuts newCols g) = map (cut_row (BlankCell g) newCols ?cols) (scrollback g)"
    by (rule blank_cuts_spec [OF wf])
  define g1 where "g1 = blank_cuts newCols g"
  have fr1: "content_frame g g1"
    unfolding g1_def cuts using content_frame_update
      [where g = g and m = "map (cut_row (BlankCell g) newCols ?cols) (gr_Main g)"
        and a = "map (cut_row (BlankCell g) newCols ?cols) (gr_Alt g)" and h = h
        and st = "gr_HistoryStart g" and sz = "gr_HistorySize g"] by simp
  have fits: "fits_row newCols ?cols (cut_row (BlankCell g) newCols ?cols l)" if "row_ok ?cols l" for l
    using cut_row_fits [OF that grid_wf_blank [OF wf]] dims_okD [OF dims] by simp
  have rows_back: "\<forall>l\<in>set (scrollback g). row_ok ?cols l"
    using wf by (auto simp: scrollback_def wf_defs intro!: screen_ok_nth [of ?cols "gr_ScrollbackLimit g"])
  have main1: "\<forall>l\<in>set (gr_Main g1). fits_row newCols ?cols l" "length (gr_Main g1) = ?rows"
    and alt1: "\<forall>l\<in>set (gr_Alt g1). fits_row newCols ?cols l" "length (gr_Alt g1) = ?rows"
    and hist1: "\<forall>l\<in>set (scrollback g1). fits_row newCols ?cols l"
    using wf fits rows_back by (auto simp: g1_def back1) (auto simp: cuts wf_defs screen_ok_def)
  define g2 where "g2 = (if newRows < ?rows \<and> \<not> IsAltScreen g1
              then fold PushScrollback [0..<?rows - newRows] g1 else g1)"
  have fr2: "content_frame g g2"
    using content_frame_trans [OF fr1 content_frames(6)] fr1 by (simp add: g2_def)
  have p2: "ring_ok g2" "\<forall>l\<in>set (scrollback g2). fits_row newCols ?cols l" "gr_Main g2 = gr_Main g1"
      "gr_Alt g2 = gr_Alt g1"
    using push_fits [of g1 newCols "?rows - newRows"] ring1 hist1 main1
    by (auto simp: g2_def content_frameD [OF fr1] g1_def [symmetric])
  have same: "newCols = ?cols \<Longrightarrow> grid_wf g2"
  proof -
    assume "newCols = ?cols"
    then have "g1 = g" by (simp add: g1_def blank_cuts_def)
    moreover have "grid_wf (fold PushScrollback [0..<?rows - newRows] g) \<and>
        gr_Rows (fold PushScrollback [0..<?rows - newRows] g) = ?rows"
      using wf dims_okD [OF dims]
      by (intro wf_fold [where P = "\<lambda>g'. grid_wf g' \<and> gr_Rows g' = ?rows"])
         (auto simp: wf_PushScrollback content_frameD [OF frame_PushScrollback])
    ultimately show ?thesis using wf by (simp add: g2_def)
  qed
  define g3 where "g3 = g2\<lparr>gr_Main := fit_screen newCols newRows (min newCols ?cols) ?rows (gr_Main g2),
               gr_Alt := fit_screen newCols newRows (min newCols ?cols) ?rows (gr_Alt g2)\<rparr>"
  define g4 where "g4 = (if newCols \<noteq> ?cols \<and> gr_History g3 \<noteq> []
       then g3\<lparr>gr_History := fit_history newCols (min newCols ?cols) g3, gr_HistoryStart := 0\<rparr> else g3)"
  have fr3: "content_frame g g3" and fr4: "content_frame g g4"
  proof -
    have "content_frame g2 g3"
      unfolding g3_def using content_frame_trans [OF content_frameI(2) content_frameI(3)] by simp
    with fr2 show fr3: "content_frame g g3" by (rule content_frame_trans)
    have "content_frame g3 g4" by (simp add: g4_def content_frameI)
    with fr3 show "content_frame g g4" by (rule content_frame_trans)
  qed
  have screens: "screen_ok newCols newRows (gr_Main g4)" "screen_ok newCols newRows (gr_Alt g4)"
    using screen_ok_fit_screen [OF main1] screen_ok_fit_screen [OF alt1] p2 by (simp_all add: g4_def g3_def)
  have back3: "scrollback g3 = scrollback g2" "gr_History g3 = gr_History g2"
      "gr_HistorySize g3 = gr_HistorySize g2" "gr_HistoryStart g3 = gr_HistoryStart g2"
    by (simp_all add: g3_def scrollback_def)
  have lim: "gr_ScrollbackLimit g2 = gr_ScrollbackLimit g" "gr_ScrollbackLimit g3 = gr_ScrollbackLimit g"
      "gr_Cols g3 = ?cols" "gr_Cols g2 = ?cols"
    using content_frameD [OF fr2] content_frameD [OF fr3] by auto
  have ring: "length (gr_History g2) = gr_ScrollbackLimit g" "gr_HistorySize g2 \<le> gr_ScrollbackLimit g"
      "gr_ScrollbackLimit g > 0 \<longrightarrow> gr_HistoryStart g2 < gr_ScrollbackLimit g"
    using p2(1) by (simp_all add: ring_ok_def lim)
  have refit: "screen_ok newCols (gr_ScrollbackLimit g) (fit_history newCols (min newCols ?cols) g3)"
    using screen_ok_fit_history [of g3 newCols] p2(2) by (simp add: back3(1) lim)
  have keep: "screen_ok newCols (gr_ScrollbackLimit g) (gr_History g2)" if "newCols = ?cols \<or> gr_History g2 = []"
    using that
  proof
    assume "newCols = ?cols"
    then show ?thesis using same by (simp add: grid_wf_def content_ok_def lim)
  qed (use ring in \<open>simp add: screen_ok_def\<close>)
  have hist: "screen_ok newCols (gr_ScrollbackLimit g) (gr_History g4)"
    "gr_HistorySize g4 \<le> gr_ScrollbackLimit g"
    "gr_ScrollbackLimit g > 0 \<longrightarrow> gr_HistoryStart g4 < gr_ScrollbackLimit g"
    using refit keep ring by (simp_all add: g4_def back3)
  note f4 = content_frameD [OF fr4] and cur = grid_wf_cursor [OF wf] and d = dims_okD [OF dims]
  have rend: "rendition_ok g" using wf by (simp add: grid_wf_def)
  show ?thesis
    unfolding resize_to_def Let_def clamp g1_def [symmetric]
    unfolding g2_def [symmetric] g3_def [symmetric] g4_def [symmetric]
    using screens hist rend cur d dims
    by (auto simp: wf_defs f4 clamp_saved_ok)
qed

end
