(* ===== verification/Grid_Terminal.thy ===== *)
theory Grid_Terminal
  imports Grid_Parser Grid_Scrollback
begin

text \<open>
  Parser and grid together: whatever bytes the terminal is fed, and however it is resized in between, the
  invariant of the grid and that of the parser hold; and the parser finds its way back to the ground state.
\<close>

subsection \<open>The invariant of the parser\<close>

definition live_state :: "EParserState \<Rightarrow> bool" where
  "live_state st \<longleftrightarrow> st \<notin> {DcsParam, DcsIntermediate, DcsPassthrough, DcsIgnore, OscString, SosPmApcString}"

definition parser_wf :: "VtParser \<Rightarrow> bool" where
  "parser_wf p \<longleftrightarrow> live_state (vp_State p) \<and>
     length (vp_Params p) < MAX_PARAM_BYTES \<and> length (vp_Intermediates p) \<le> MAX_INTERMEDIATES \<and>
     (vp_Utf8Remaining p > 0 \<longrightarrow>
        vp_State p = Ground \<and> vp_Utf8Remaining p \<le> vp_Utf8SeqLen p \<and> vp_Utf8SeqLen p \<le> 3) \<and>
     (vp_State p \<notin> {EscapeIntermediate, CsiIntermediate, CsiIgnore} \<longrightarrow> vp_Intermediates p = []) \<and>
     vp_BypassBytes p < BYPASS_LIMIT_BYTES \<and>
     (vp_State p \<noteq> Bypass \<longrightarrow> \<not> vp_InOsc p \<and> vp_BypassBytes p = 0)"

definition terminal_wf :: "VtParser \<times> Grid \<Rightarrow> bool" where
  "terminal_wf pg \<longleftrightarrow> parser_wf (fst pg) \<and> grid_wf (snd pg)"

lemmas parser_ops = ClearParams_def AddParam_def CollectIntermediate_def EmitBypass_def CountUnknown_def
  clear_sequence_def TransitionTo_def leave_bypass_def enter_bypass_def vt_Reset_def

lemmas parser_limits = MAX_PARAM_BYTES_def MAX_INTERMEDIATES_def BYPASS_LIMIT_BYTES_def

lemma mk_VtParser_wf: "parser_wf mk_VtParser"
  by (simp add: mk_VtParser_def parser_wf_def vt_Reset_def live_state_def parser_limits)

lemma vt_Reset_wf: "parser_wf (vt_Reset p)"
  by (simp add: parser_wf_def vt_Reset_def live_state_def parser_limits)

lemmas wf_ops = wf_CarriageReturn wf_g_Index wf_LineFeed grid_wf_no_wrap wf_ReverseIndex wf_Backspace
  wf_HorizontalTab wf_HorizontalTabBack wf_MoveCursorUp wf_MoveCursorDown wf_MoveCursorRight
  wf_MoveCursorLeft wf_MoveCursorTo wf_MoveCursorToCol wf_MoveCursorToRow wf_CursorNextLine
  wf_CursorPrevLine wf_SaveCursor wf_RestoreCursor wf_EraseInLine wf_EraseInDisplay wf_EraseChars
  wf_DeleteChars wf_InsertChars wf_InsertLines wf_DeleteLines wf_ScrollRegionUp wf_ScrollRegionDown
  wf_RepeatChar wf_SetScrollRegion wf_SetMode wf_ApplySgr wf_g_Reset wf_SetCursorStyle wf_SetTabStop
  wf_ClearTabStop wf_ShiftCharset wf_DesignateCharset wf_SetPossiblyDiverged

lemma wf_funpow: "(\<And>g. P g \<Longrightarrow> P (f g)) \<Longrightarrow> P g \<Longrightarrow> P ((f ^^ n) g)"
  by (induction n) auto

lemma wf_HandleControl: "grid_wf g \<Longrightarrow> grid_wf (HandleControl c g)"
  by (simp add: HandleControl_def wf_ops)

lemma wf_modes_fold: "grid_wf g \<Longrightarrow> grid_wf (set_private_modes v ps g)"
    "grid_wf g \<Longrightarrow> grid_wf (set_ansi_modes v ps g)"
  unfolding set_private_modes_def set_ansi_modes_def
  by (rule wf_fold [where P = grid_wf], simp_all add: wf_ops Let_def)+

lemma grid_wf_DispatchEsc: "grid_wf (snd pg) \<Longrightarrow> grid_wf (snd (DispatchEsc fin pg))"
  by (simp add: DispatchEsc_def Let_def wf_ops)

lemma grid_wf_DispatchCsi: "grid_wf (snd pg) \<Longrightarrow> grid_wf (snd (DispatchCsi fin pg))"
  by (simp add: DispatchCsi_def csi_private_def csi_public_def Let_def wf_ops wf_modes_fold ScrollUp_def
      ScrollDown_def wf_funpow [where P = grid_wf and f = HorizontalTab])

text \<open>Dispatching a sequence changes nothing of the parser but the count of unknown sequences.\<close>

definition counted :: "VtParser \<Rightarrow> VtParser \<Rightarrow> bool" where
  "counted p p' \<longleftrightarrow> p' = p \<or> p' = CountUnknown p"

lemma counted_if:
  "counted p (fst x) \<Longrightarrow> counted p (fst y) \<Longrightarrow> counted p (fst (if c then x else y))"
  by simp

lemma counted_leaf:
  "counted (fst pg) (fst pg)" "counted (fst pg) (fst (apsnd f pg))" "counted (fst pg) (fst (unknown pg))"
  by (simp_all add: counted_def)

lemma counted_DispatchEsc: "counted (fst pg) (fst (DispatchEsc fin pg))"
  unfolding DispatchEsc_def Let_def by (intro counted_if counted_leaf)

lemma counted_DispatchCsi: "counted (fst pg) (fst (DispatchCsi fin pg))"
  unfolding DispatchCsi_def csi_private_def csi_public_def Let_def by (intro counted_if counted_leaf)

lemma ground_wf: "parser_wf p \<Longrightarrow> vp_State p \<noteq> Ground \<Longrightarrow> counted p p' \<Longrightarrow> parser_wf (TransitionTo Ground p')"
  by (auto simp: counted_def parser_wf_def parser_ops live_state_def)

lemma wf_dispatch_esc_ground:
  "terminal_wf pg \<Longrightarrow> vp_State (fst pg) \<noteq> Ground \<Longrightarrow> terminal_wf (dispatch_esc_ground b pg)"
  using ground_wf [OF _ _ counted_DispatchEsc, of pg]
  by (simp add: terminal_wf_def dispatch_esc_ground_def grid_wf_DispatchEsc)

lemma wf_dispatch_csi_ground:
  "terminal_wf pg \<Longrightarrow> vp_State (fst pg) \<noteq> Ground \<Longrightarrow> terminal_wf (dispatch_csi_ground b pg)"
  using ground_wf [OF _ _ counted_DispatchCsi, of pg]
  by (simp add: terminal_wf_def dispatch_csi_ground_def grid_wf_DispatchCsi)

subsection \<open>Every byte keeps both invariants\<close>

lemma wf_feed_bypass:
  assumes "terminal_wf pg" and "vp_State (fst pg) = Bypass"
  shows "terminal_wf (feed_bypass b pg)"
  using assms
  by (auto simp: terminal_wf_def feed_bypass_def Let_def parser_wf_def parser_ops live_state_def wf_ops)

lemma wf_apfst: "terminal_wf pg \<Longrightarrow> (parser_wf (fst pg) \<Longrightarrow> parser_wf (f (fst pg))) \<Longrightarrow> terminal_wf (apfst f pg)"
  by (simp add: terminal_wf_def)

lemma wf_apsnd: "terminal_wf pg \<Longrightarrow> (grid_wf (snd pg) \<Longrightarrow> grid_wf (f (snd pg))) \<Longrightarrow> terminal_wf (apsnd f pg)"
  by (simp add: terminal_wf_def)

lemma wf_feed_escape:
  assumes "terminal_wf pg" and "vp_State (fst pg) = Escape"
  shows "terminal_wf (feed_escape b pg)"
  using assms unfolding feed_escape_def Let_def
  by (auto intro!: wf_apfst wf_dispatch_esc_ground simp: parser_wf_def parser_ops live_state_def parser_limits)

lemma wf_feed_csi_entry:
  assumes "terminal_wf pg" and "vp_State (fst pg) = CsiEntry"
  shows "terminal_wf (feed_csi_entry b pg)"
  using assms unfolding feed_csi_entry_def Let_def
  by (auto intro!: wf_apfst wf_dispatch_csi_ground simp: parser_wf_def parser_ops live_state_def parser_limits)

lemma wf_print_ascii: "terminal_wf pg \<Longrightarrow> 0x20 \<le> n \<Longrightarrow> n \<le> 0x7E \<Longrightarrow> terminal_wf (apsnd (PutChar n 1) pg)"
  by (intro wf_apsnd wf_PutChar) (auto simp: put_ok_def printable_def)

lemma wf_feed_state:
  assumes wf: "terminal_wf pg" and "vp_State (fst pg) \<noteq> Bypass"
  shows "terminal_wf (feed_state b pg)"
proof -
  have live: "live_state (vp_State (fst pg))"
    using wf by (simp add: terminal_wf_def parser_wf_def)
  show ?thesis
    using wf assms(2) live wf_feed_escape [OF wf] wf_feed_csi_entry [OF wf]
    unfolding feed_state_def Let_def
    by (cases "vp_State (fst pg)")
       (auto intro!: wf_apfst wf_dispatch_csi_ground wf_dispatch_esc_ground wf_print_ascii [simplified]
          simp: parser_wf_def parser_ops live_state_def parser_limits)
qed

lemma LeadLength_le: "Utf8LeadLength b \<le> 3"
  by (simp add: Utf8LeadLength_def)

lemma wf_replacement: "terminal_wf pg \<Longrightarrow> terminal_wf (apsnd (PutChar 0xFFFD 1) pg)"
  by (intro wf_apsnd wf_PutChar) auto

lemma wf_feed_plain:
  assumes wf: "terminal_wf pg" and "vp_State (fst pg) \<noteq> Bypass" and "vp_Utf8Remaining (fst pg) = 0"
  shows "terminal_wf (feed_plain b pg)"
  using assms LeadLength_le [of b] unfolding feed_plain_def Let_def
  by (auto intro!: wf_feed_state wf_replacement [simplified] wf_apfst wf_apsnd wf_HandleControl
      simp: parser_wf_def live_state_def)

lemma utf8_value_printable:
  assumes "1 \<le> sl" and "\<not> (0x80 \<le> utf8_value sl cp \<and> utf8_value sl cp \<le> 0x9F)"
  shows "printable (utf8_value sl cp)"
proof -
  have "0x80 \<le> MIN_CP ! (if sl < 4 then sl else 3)"
  proof (cases "sl < 4")
    case True
    then have "sl = 1 \<or> sl = 2 \<or> sl = 3" using assms(1) by arith
    then show ?thesis by (auto simp: MIN_CP_def)
  qed (simp add: MIN_CP_def)
  then show ?thesis
    using assms(2) by (auto simp: utf8_value_def printable_def split: if_splits)
qed

lemma put_codepoint_wf: "grid_wf g \<Longrightarrow> printable cp \<Longrightarrow> grid_wf (put_codepoint cp g)"
proof -
  assume g: "grid_wf g" and cp: "printable cp"
  have "Wcwidth cp \<noteq> -1" using cp by (auto simp: Wcwidth_def printable_def)
  then have "put_ok cp (nat (Wcwidth cp))" "0 \<le> Wcwidth cp"
    using Wcwidth_cases [of cp] cp by (auto simp: put_ok_def)
  then show ?thesis using g by (simp add: put_codepoint_def Let_def wf_PutChar)
qed

lemma wf_utf8_continue:
  assumes wf: "terminal_wf pg" and "vp_Utf8Remaining (fst pg) > 0"
  shows "terminal_wf (utf8_continue b pg)"
  using assms utf8_value_printable [of "vp_Utf8SeqLen (fst pg)"]
  by (auto simp: terminal_wf_def utf8_continue_def Let_def parser_wf_def intro!: put_codepoint_wf)

lemma wf_FeedByte:
  assumes wf: "terminal_wf pg"
  shows "terminal_wf (FeedByte b pg)"
proof (cases "vp_State (fst pg) = Bypass")
  case True
  then show ?thesis using wf by (simp add: FeedByte_def wf_feed_bypass)
next
  case False
  have can: "terminal_wf (apfst (\<lambda>p. TransitionTo Ground (p\<lparr>vp_Utf8Remaining := 0\<rparr>)) pg)"
    using wf by (auto simp: terminal_wf_def parser_wf_def parser_ops live_state_def parser_limits)
  have esc: "terminal_wf (apfst (\<lambda>p. (clear_sequence (p\<lparr>vp_Utf8Remaining := 0\<rparr>))\<lparr>vp_State := Escape\<rparr>) pg)"
    using wf False by (auto simp: terminal_wf_def parser_wf_def parser_ops live_state_def parser_limits)
  have bad: "terminal_wf (apfst (\<lambda>p. p\<lparr>vp_Utf8Remaining := 0\<rparr>)
      (if vp_State (fst pg) = Ground then apsnd (PutChar 0xFFFD 1) pg else pg))"
    using wf wf_replacement [OF wf] by (auto simp: terminal_wf_def parser_wf_def)
  have plain: "terminal_wf (feed_plain b (apfst (\<lambda>p. p\<lparr>vp_Utf8Remaining := 0\<rparr>)
      (if vp_State (fst pg) = Ground then apsnd (PutChar 0xFFFD 1) pg else pg)))"
    using False by (intro wf_feed_plain [OF bad]) auto
  show ?thesis
    using False wf can wf_replacement [OF can] esc plain wf_utf8_continue [OF wf, of b] wf_feed_plain [OF wf, of b]
    unfolding FeedByte_def Let_def by auto
qed

lemma wf_Feed: "terminal_wf pg \<Longrightarrow> terminal_wf (Feed bs pg)"
  unfolding Feed_def by (rule wf_fold [where P = terminal_wf]) (simp_all add: wf_FeedByte)

subsection \<open>Any sequence of calls\<close>

text \<open>What the owner of a parser and a grid does with them: feed bytes, resize the grid (each request for
  memory may fail), reset the parser.\<close>

datatype term_op = Fed bytes | Resized "nat \<Rightarrow> bool" nat nat | ParserReset

fun term_step :: "term_op \<Rightarrow> VtParser \<times> Grid \<Rightarrow> VtParser \<times> Grid" where
  "term_step (Fed bs) pg = Feed bs pg"
| "term_step (Resized alloc cols rows) pg = apsnd (\<lambda>g. snd (g_Resize alloc cols rows g)) pg"
| "term_step ParserReset pg = apfst vt_Reset pg"

definition term_run :: "term_op list \<Rightarrow> VtParser \<times> Grid \<Rightarrow> VtParser \<times> Grid" where
  "term_run ops pg = fold term_step ops pg"

lemma wf_g_Resize: "grid_wf g \<Longrightarrow> grid_wf (snd (g_Resize alloc cols rows g))"
  using ClampScreenSize_ok [of cols rows] by (auto simp: g_Resize_def Let_def wf_resize_to split: prod.splits)

lemma wf_term_step: "terminal_wf pg \<Longrightarrow> terminal_wf (term_step op pg)"
  by (cases op) (auto simp: wf_Feed wf_g_Resize vt_Reset_wf intro!: wf_apfst wf_apsnd)

lemma wf_term_run: "terminal_wf pg \<Longrightarrow> terminal_wf (term_run ops pg)"
  unfolding term_run_def by (rule wf_fold [where P = terminal_wf]) (simp_all add: wf_term_step)

subsection \<open>The way back to the ground state\<close>

lemma Feed_simps [simp]: "Feed [] pg = pg" "Feed (b # bs) pg = Feed bs (FeedByte b pg)"
  "Feed (bs @ bs') pg = Feed bs' (Feed bs pg)"
  by (simp_all add: Feed_def)

text \<open>A parser in the ground state with nothing collected.\<close>

definition at_ground :: "VtParser \<Rightarrow> bool" where
  "at_ground p \<longleftrightarrow> vp_State p = Ground \<and> vp_Utf8Remaining p = 0 \<and> vp_Intermediates p = [] \<and> \<not> vp_InOsc p \<and>
     vp_BypassBytes p = 0"

lemma can_grounds:
  assumes "parser_wf (fst pg)"
  shows "at_ground (fst (FeedByte 0x18 pg))" "snd (FeedByte 0x18 pg) = snd pg"
  using assms by (auto simp: at_ground_def FeedByte_def feed_bypass_def Let_def parser_ops parser_wf_def)

text \<open>Inside a bypassed string every byte that does not end it is counted.\<close>

lemma bypass_counts:
  assumes "vp_State (fst pg) = Bypass" and "vp_State (fst (FeedByte b pg)) = Bypass"
  shows "vp_BypassBytes (fst (FeedByte b pg)) = vp_BypassBytes (fst pg) + 1"
  using assms by (auto simp: FeedByte_def feed_bypass_def Let_def parser_ops split: if_splits)

lemma bypass_run:
  assumes "\<forall>k\<le>length bs. vp_State (fst (Feed (take k bs) pg)) = Bypass"
  shows "vp_BypassBytes (fst (Feed bs pg)) = vp_BypassBytes (fst pg) + length bs"
  using assms
proof (induction bs rule: rev_induct)
  case (snoc b bs)
  have here: "vp_State (fst (Feed bs pg)) = Bypass" "vp_State (fst (Feed (bs @ [b]) pg)) = Bypass"
    using snoc.prems [rule_format, of "length bs"] snoc.prems [rule_format, of "Suc (length bs)"] by simp_all
  have "vp_State (fst (Feed (take k bs) pg)) = Bypass" if "k \<le> length bs" for k
    using snoc.prems [rule_format, of k] that by simp
  then show ?case
    using bypass_counts [of "Feed bs pg" b] here snoc.IH by simp
qed simp

lemma bypass_bounded:
  assumes "terminal_wf pg" and "\<forall>k\<le>length bs. vp_State (fst (Feed (take k bs) pg)) = Bypass"
  shows "length bs < BYPASS_LIMIT_BYTES"
  using bypass_run [OF assms(2)] wf_Feed [OF assms(1), of bs] by (simp add: terminal_wf_def parser_wf_def)

end
