(* ===== verification/Grid_Snapshot.thy ===== *)
theory Grid_Snapshot
  imports Grid_Parser
begin

text \<open>
  The snapshot serializer: \<^verbatim>\<open>grid/snapshot.hpp\<close> and \<^verbatim>\<open>grid/snapshot.cpp\<close>. A function of the source that
  writes to an \<open>EscWriter\<close> is modelled by the bytes it passes to \<open>WriteByte\<close>, in order; no function reads
  the writer back, apart from \<open>EncodeAll\<close>, which notes how much it has written so far. The writer itself is
  \<open>EscWriter\<close>, with its dry run. The pen threaded through the encoders is the record \<open>Pen\<close>.
\<close>

unbundle bit_operations_syntax

subsection \<open>The writer\<close>

record EscWriter =
  ew_Buf :: bytes
  ew_Cap :: nat
  ew_Pos :: nat
  ew_Overflow :: bool
  ew_DryRun :: bool

definition WriteByte :: "byte \<Rightarrow> EscWriter \<Rightarrow> EscWriter" where
  "WriteByte b w =
    (if ew_DryRun w then w\<lparr>ew_Pos := ew_Pos w + 1\<rparr>
     else if ew_Pos w < ew_Cap w then w\<lparr>ew_Buf := (ew_Buf w)[ew_Pos w := b], ew_Pos := ew_Pos w + 1\<rparr>
     else w\<lparr>ew_Overflow := True\<rparr>)"

definition write_all :: "bytes \<Rightarrow> EscWriter \<Rightarrow> EscWriter" where
  "write_all bs w = fold WriteByte bs w"

definition WriteLiteral :: "string \<Rightarrow> bytes" where
  "WriteLiteral s = map of_char s"

text \<open>The digits of \<open>tmp\<close>, least significant first.\<close>

function decimal_digits :: "nat \<Rightarrow> bytes" where
  "decimal_digits n = (if n > 0 then word_of_nat (0x30 + n mod 10) # decimal_digits (n div 10) else [])"
  by pat_completeness auto
termination
  by (relation "measure id") auto

declare decimal_digits.simps [simp del]

definition WriteDecimal :: "nat \<Rightarrow> bytes" where
  "WriteDecimal n = (if n = 0 then [0x30] else rev (decimal_digits n))"

definition WriteUtf8 :: "nat \<Rightarrow> bytes" where
  "WriteUtf8 cp =
    (let w = (\<lambda>n. word_of_nat n :: byte) in
     if cp < 0x80 then [w cp]
     else if cp < 0x800 then [0xC0 OR w (drop_bit 6 cp), 0x80 OR w (cp AND 0x3F)]
     else if cp < 0x10000 then
       [0xE0 OR w (drop_bit 12 cp), 0x80 OR w (drop_bit 6 cp AND 0x3F), 0x80 OR w (cp AND 0x3F)]
     else
       [0xF0 OR w (drop_bit 18 cp), 0x80 OR w (drop_bit 12 cp AND 0x3F),
        0x80 OR w (drop_bit 6 cp AND 0x3F), 0x80 OR w (cp AND 0x3F)])"

definition ESC :: byte where "ESC = 0x1B"

text \<open>\<open>w.WriteLiteral("\x1b[")\<close> followed by a literal.\<close>

definition esc_csi :: "string \<Rightarrow> bytes" where
  "esc_csi s = ESC # WriteLiteral (CHR ''['' # s)"

definition esc_lit :: "string \<Rightarrow> bytes" where
  "esc_lit s = ESC # WriteLiteral s"

definition CRLF :: bytes where "CRLF = [0x0D, 0x0A]"

subsection \<open>Colours\<close>

datatype EColorMode = Full | Indexed256 | NoColors

definition CUBE_STEPS :: "int list" where
  "CUBE_STEPS = [0, 95, 135, 175, 215, 255]"

fun cube_loop :: "int \<Rightarrow> nat \<Rightarrow> int list \<Rightarrow> nat \<Rightarrow> int \<Rightarrow> nat" where
  "cube_loop v i [] best bestDist = best"
| "cube_loop v i (s # ss) best bestDist =
    (let d = v - s in
     if d * d < bestDist then cube_loop v (i + 1) ss i (d * d)
     else cube_loop v (i + 1) ss best bestDist)"

definition cubeIdx :: "byte \<Rightarrow> nat" where
  "cubeIdx v = cube_loop (uint v) 0 CUBE_STEPS 0 (255 * 255 + 1)"

definition square_dist :: "int \<Rightarrow> int \<Rightarrow> int \<Rightarrow> int \<Rightarrow> int \<Rightarrow> int \<Rightarrow> int" where
  "square_dist r g b r' g' b' = (r' - r) * (r' - r) + (g' - g) * (g' - g) + (b' - b) * (b' - b)"

text \<open>The division of the source truncates towards zero; a negative quotient is clamped to 0 all the same.\<close>

definition grayIdx :: "int \<Rightarrow> nat" where
  "grayIdx gray =
    (let raw = (if gray - 8 + 5 \<ge> 0 then (gray - 8 + 5) div 10 else - ((- (gray - 8 + 5)) div 10)) in
     if raw < 0 then 0 else if raw > 23 then 23 else nat raw)"

definition TrueColorTo256 :: "color \<Rightarrow> byte" where
  "TrueColorTo256 c =
    (case c of (r, g, b) \<Rightarrow>
     let ri = cubeIdx r; gi = cubeIdx g; bi = cubeIdx b;
         cubeColor = 16 + 36 * ri + 6 * gi + bi;
         cubeDist = square_dist (uint r) (uint g) (uint b)
                      (CUBE_STEPS ! ri) (CUBE_STEPS ! gi) (CUBE_STEPS ! bi);
         gray = (uint r + uint g + uint b) div 3;
         grayVal = 8 + 10 * int (grayIdx gray);
         grayDist = square_dist (uint r) (uint g) (uint b) grayVal grayVal grayVal
     in word_of_nat (if grayDist < cubeDist then 232 + grayIdx gray else cubeColor))"

definition NormalizePen :: "EColorMode \<Rightarrow> Pen \<Rightarrow> Pen" where
  "NormalizePen cm c =
    (case cm of
       Full \<Rightarrow> c
     | Indexed256 \<Rightarrow>
         (let nc = (if p_FgKind c = TrueColor
                    then c\<lparr>p_FgKind := Indexed, p_Fg := (TrueColorTo256 (p_Fg c), 0, 0)\<rparr> else c)
          in if p_BgKind c = TrueColor
             then nc\<lparr>p_BgKind := Indexed, p_Bg := (TrueColorTo256 (p_Bg c), 0, 0)\<rparr> else nc)
     | NoColors \<Rightarrow>
         c\<lparr>p_FgKind := Default, p_BgKind := Default, p_Fg := (0, 0, 0), p_Bg := (0, 0, 0)\<rparr>)"

subsection \<open>Cells\<close>

definition SanitizeCp :: "nat \<Rightarrow> nat" where
  "SanitizeCp cp =
    (if cp = 0 then 0x20
     else if cp < 0x20 then 0x3F
     else if cp = 0x7F then 0x3F
     else if 0x80 \<le> cp \<and> cp \<le> 0x9F then 0x3F
     else if 0xD800 \<le> cp \<and> cp \<le> 0xDFFF then 0x3F
     else if cp > 0x10FFFF then 0x3F
     else cp)"

definition IsBlankCell :: "Cell \<Rightarrow> bool" where
  "IsBlankCell c =
    ((c_Codepoint c = 0 \<or> c_Codepoint c = 0x20) \<and> p_Attrs (c_Pen c) = 0 \<and> p_AttrEx (c_Pen c) = 0 \<and>
     p_UlIdx (c_Pen c) = 0 \<and> p_FgKind (c_Pen c) = Default \<and> p_BgKind (c_Pen c) = Default)"

definition MatchesCell :: "Pen \<Rightarrow> Pen \<Rightarrow> bool" where
  "MatchesCell pen c \<longleftrightarrow> pen = c"

definition has_attr :: "EAttr \<Rightarrow> Pen \<Rightarrow> bool" where
  "has_attr a pen = (p_Attrs pen AND attr_flag a \<noteq> 0)"

definition attr_bytes :: "EAttr \<Rightarrow> string \<Rightarrow> Pen \<Rightarrow> bytes" where
  "attr_bytes a s pen = (if has_attr a pen then WriteLiteral s else [])"

definition underline_bytes :: "Pen \<Rightarrow> bytes" where
  "underline_bytes c =
    (if has_attr Underline c then
       (if p_AttrEx c > 1 then WriteLiteral '';4:'' @ WriteDecimal (unat (p_AttrEx c))
        else WriteLiteral '';4'')
     else [])"

definition rgb_bytes :: "color \<Rightarrow> bytes" where
  "rgb_bytes c = (case c of (r, g, b) \<Rightarrow>
     WriteDecimal (unat r) @ [0x3B] @ WriteDecimal (unat g) @ [0x3B] @ WriteDecimal (unat b))"

definition fg_bytes :: "Pen \<Rightarrow> bytes" where
  "fg_bytes c =
    (case p_FgKind c of
       Default \<Rightarrow> []
     | Indexed \<Rightarrow>
         (let idx = unat (fst (p_Fg c)) in
          if idx < 8 then [0x3B] @ WriteDecimal (30 + idx)
          else if idx < 16 then [0x3B] @ WriteDecimal (90 + (idx - 8))
          else WriteLiteral '';38;5;'' @ WriteDecimal idx)
     | TrueColor \<Rightarrow> WriteLiteral '';38;2;'' @ rgb_bytes (p_Fg c))"

definition bg_bytes :: "Pen \<Rightarrow> bytes" where
  "bg_bytes c =
    (case p_BgKind c of
       Default \<Rightarrow> []
     | Indexed \<Rightarrow>
         (let idx = unat (fst (p_Bg c)) in
          if idx < 8 then WriteDecimal (40 + idx)
          else if idx < 16 then WriteDecimal (100 + (idx - 8))
          else WriteLiteral ''48;5;'' @ WriteDecimal idx)
     | TrueColor \<Rightarrow> WriteLiteral ''48;2;'' @ rgb_bytes (p_Bg c))"

text \<open>\<open>EmitSgr\<close>: the bytes, and the pen as the call leaves it.\<close>

definition sgr_sequence1 :: "Pen \<Rightarrow> bytes" where
  "sgr_sequence1 c =
    esc_csi ''0'' @ attr_bytes Bold '';1'' c @ attr_bytes Dim '';2'' c @ attr_bytes Italic '';3'' c @
    underline_bytes c @ attr_bytes Blink '';5'' c @ attr_bytes Inverse '';7'' c @
    attr_bytes Invisible '';8'' c @ attr_bytes StrikeThrough '';9'' c @ fg_bytes c @ [0x6D]"

definition sgr_sequence2 :: "Pen \<Rightarrow> bytes" where
  "sgr_sequence2 c =
    (if p_BgKind c \<noteq> Default \<or> p_UlIdx c \<noteq> 0 then
       esc_csi '''' @ bg_bytes c @
       (if p_UlIdx c \<noteq> 0 then
          (if p_BgKind c \<noteq> Default then [0x3B] else []) @
          WriteLiteral ''58;5;'' @ WriteDecimal (unat (p_UlIdx c))
        else []) @ [0x6D]
     else [])"

definition EmitSgr :: "Pen \<Rightarrow> Pen \<Rightarrow> bytes \<times> Pen" where
  "EmitSgr pen c =
    (if MatchesCell pen c then ([], pen) else (sgr_sequence1 c @ sgr_sequence2 c, c))"

definition EmitPrivateMode :: "nat \<Rightarrow> bool \<Rightarrow> bytes" where
  "EmitPrivateMode ps on = esc_csi ''?'' @ WriteDecimal ps @ [if on then 0x68 else 0x6C]"

definition EmitAnsiMode :: "nat \<Rightarrow> bool \<Rightarrow> bytes" where
  "EmitAnsiMode ps on = esc_csi '''' @ WriteDecimal ps @ [if on then 0x68 else 0x6C]"

text \<open>The character a cell is written as.\<close>

definition cell_char :: "Cell \<Rightarrow> nat" where
  "cell_char c =
    (let cp = SanitizeCp (c_Codepoint c) in
     if c_Width c = 1 \<and> cp \<noteq> 0x20 \<and> cp \<noteq> 0x3F \<and> Wcwidth cp = 2 then 0xFFFD else cp)"

text \<open>\<open>while (used > 0 && IsBlankCell(cells[used - 1])) --used;\<close>\<close>

fun used_extent :: "row \<Rightarrow> nat \<Rightarrow> nat" where
  "used_extent line 0 = 0"
| "used_extent line (Suc n) = (if IsBlankCell (line ! n) then used_extent line n else Suc n)"

text \<open>\<open>while (col < used)\<close>: the loop both encoders run over a row.\<close>

function encode_cells :: "EColorMode \<Rightarrow> row \<Rightarrow> nat \<Rightarrow> nat \<Rightarrow> Pen \<Rightarrow> bytes \<times> Pen" where
  "encode_cells cm line used col pen =
    (if col < used then
       (let c = line ! col in
        if c_Width c = 0 then encode_cells cm line used (col + 1) pen
        else
          let (sgr, pen) = EmitSgr pen (NormalizePen cm (c_Pen c));
              (rest, pen) = encode_cells cm line used (col + (if c_Width c \<ge> 2 then 2 else 1)) pen
          in (sgr @ WriteUtf8 (cell_char c) @ rest, pen))
     else ([], pen))"
  by pat_completeness auto
termination
  by (relation "measure (\<lambda>(cm, line, used, col, pen). used - col)") auto

declare encode_cells.simps [simp del]

subsection \<open>Sections\<close>

definition pen_dirty :: "Pen \<Rightarrow> bool" where
  "pen_dirty pen = (p_Attrs pen \<noteq> 0 \<or> p_FgKind pen \<noteq> Default \<or> p_BgKind pen \<noteq> Default \<or>
     p_AttrEx pen \<noteq> 0 \<or> p_UlIdx pen \<noteq> 0)"

definition encode_history_line :: "EColorMode \<Rightarrow> nat \<Rightarrow> row \<Rightarrow> Pen \<Rightarrow> bytes \<times> Pen" where
  "encode_history_line cm cols line pen =
    (let (bs, pen) = encode_cells cm line (used_extent line cols) 0 pen in
     if pen_dirty pen then (bs @ esc_csi ''0m'' @ CRLF, default_pen) else (bs @ CRLF, pen))"

fun encode_history_lines :: "EColorMode \<Rightarrow> Grid \<Rightarrow> nat list \<Rightarrow> Pen \<Rightarrow> bytes \<times> Pen" where
  "encode_history_lines cm g [] pen = ([], pen)"
| "encode_history_lines cm g (i # is) pen =
    (case ScrollbackLine g i of
       None \<Rightarrow> encode_history_lines cm g is pen
     | Some line \<Rightarrow>
         (let (bs, pen) = encode_history_line cm (gr_Cols g) line pen;
              (rest, pen) = encode_history_lines cm g is pen
          in (bs @ rest, pen)))"

definition EncodeHistory :: "EColorMode \<Rightarrow> Grid \<Rightarrow> nat \<Rightarrow> nat \<Rightarrow> Pen \<Rightarrow> bytes \<times> Pen" where
  "EncodeHistory cm g firstLine lineCount pen =
    encode_history_lines cm g [firstLine..<firstLine + lineCount] pen"

text \<open>\<open>EncodeAnyScreen\<close> over the rows it is given by number; \<open>lastRow\<close> is \<open>None\<close> for -1.\<close>

fun encode_screen_rows ::
  "EColorMode \<Rightarrow> nat \<Rightarrow> (nat \<Rightarrow> row) \<Rightarrow> nat list \<Rightarrow> nat option \<Rightarrow> Pen \<Rightarrow> bytes \<times> Pen" where
  "encode_screen_rows cm cols line_at [] lastRow pen = ([], pen)"
| "encode_screen_rows cm cols line_at (r # rs) lastRow pen =
    (let line = line_at r; used = used_extent line cols in
     if used = 0 then encode_screen_rows cm cols line_at rs lastRow pen
     else
       let move = (if lastRow \<noteq> None \<and> r = u16 (the lastRow + 1) then CRLF
                   else esc_csi '''' @ WriteDecimal (r + 1) @ WriteLiteral '';1H'');
           (bs, pen) = encode_cells cm line used 0 pen;
           (rest, pen) = encode_screen_rows cm cols line_at rs (Some r) pen
       in (move @ bs @ rest, pen))"

definition EncodeAnyScreen :: "EColorMode \<Rightarrow> Grid \<Rightarrow> (nat \<Rightarrow> row) \<Rightarrow> nat \<Rightarrow> nat \<Rightarrow> Pen \<Rightarrow> bytes \<times> Pen" where
  "EncodeAnyScreen cm g line_at firstRow endRow pen =
    encode_screen_rows cm (gr_Cols g) line_at [firstRow..<endRow] None pen"

definition cup_bytes :: "nat \<Rightarrow> nat \<Rightarrow> bytes" where
  "cup_bytes r c = esc_csi '''' @ WriteDecimal r @ [0x3B] @ WriteDecimal c @ [0x48]"

definition region_bytes :: "nat \<Rightarrow> nat \<Rightarrow> bytes" where
  "region_bytes t b = esc_csi '''' @ WriteDecimal t @ [0x3B] @ WriteDecimal b @ [0x72]"

definition charset_bytes :: "nat \<Rightarrow> nat \<Rightarrow> nat \<Rightarrow> bytes" where
  "charset_bytes g0 g1 active =
    esc_lit ''('' @ [if g0 = 0 then 0x42 else 0x30] @ esc_lit '')'' @ [if g1 = 0 then 0x42 else 0x30] @
    [if active = 1 then 0x0E else 0x0F]"

definition SlotNeedsState :: "SavedCursor \<Rightarrow> bool" where
  "SlotNeedsState sc = (sc_Decom sc \<or> sc_CharsetG0 sc \<noteq> 0 \<or> sc_CharsetG1 sc \<noteq> 0 \<or> sc_CharsetActive sc \<noteq> 0)"

definition SlotSetState :: "Grid \<Rightarrow> SavedCursor \<Rightarrow> bytes" where
  "SlotSetState g sc =
    charset_bytes (sc_CharsetG0 sc) (sc_CharsetG1 sc) (sc_CharsetActive sc) @
    (if sc_Decom sc then
       (let top = min (sc_Row sc) (gr_ScrollTop g); bot = max (sc_Row sc) (gr_ScrollBot g) in
        region_bytes (top + 1) (bot + 1) @ esc_csi ''?6h'' @
        cup_bytes (sc_Row sc - top + 1) (sc_Col sc + 1))
     else cup_bytes (sc_Row sc + 1) (sc_Col sc + 1))"

definition SlotUndoState :: bytes where
  "SlotUndoState = esc_csi ''?6l'' @ esc_csi ''r'' @ esc_lit ''(B'' @ esc_lit '')B'' @ [0x0F]"

text \<open>The saved cursor put in place: its pen, then its position with or without the slot's state.\<close>

definition slot_bytes :: "EColorMode \<Rightarrow> Grid \<Rightarrow> SavedCursor \<Rightarrow> bytes" where
  "slot_bytes cm g sc =
    esc_csi ''0m'' @ fst (EmitSgr default_pen (NormalizePen cm (sc_Pen sc))) @
    (if SlotNeedsState sc then SlotSetState g sc else cup_bytes (sc_Row sc + 1) (sc_Col sc + 1))"

definition tab_stop_bytes :: "Grid \<Rightarrow> bytes" where
  "tab_stop_bytes g =
    concat (map (\<lambda>col. if IsTabStop g col
        then esc_csi ''1;'' @ WriteDecimal (col + 1) @ [0x48] @ esc_lit ''H'' else []) [0..<gr_Cols g])"

definition mode_bytes :: "Grid \<Rightarrow> bytes" where
  "mode_bytes g =
    EmitPrivateMode 1 (ModeSet Decckm g) @ EmitPrivateMode 7 (ModeSet Awm g) @
    EmitAnsiMode 4 (ModeSet Irm g) @ EmitAnsiMode 20 (ModeSet Lnm g) @
    EmitPrivateMode 1000 (ModeSet Mouse1000 g) @ EmitPrivateMode 1002 (ModeSet Mouse1002 g) @
    EmitPrivateMode 1003 (ModeSet Mouse1003 g) @ EmitPrivateMode 1005 (ModeSet Mouse1005 g) @
    EmitPrivateMode 1006 (ModeSet Mouse1006 g) @ EmitPrivateMode 1015 (ModeSet Mouse1015 g) @
    EmitPrivateMode 2004 (ModeSet BracketedPaste g) @ EmitPrivateMode 1004 (ModeSet FocusEvents g)"

definition wrapLeadReposition :: "Grid \<Rightarrow> bool" where
  "wrapLeadReposition g =
    (gr_PendingWrap g \<and> gr_CursorCol g + 1 = gr_Cols g \<and> gr_CursorCol g > 0 \<and>
     c_Width (CellAt g (gr_CursorRow g) (gr_CursorCol g)) = 0)"

definition emitCol :: "Grid \<Rightarrow> nat" where
  "emitCol g = (if wrapLeadReposition g then gr_CursorCol g - 1 else gr_CursorCol g)"

definition cupRow :: "Grid \<Rightarrow> nat" where
  "cupRow g =
    (if ModeSet Decom g then
       (let inRegion = (if gr_CursorRow g < gr_ScrollTop g then gr_ScrollTop g
                        else if gr_CursorRow g > gr_ScrollBot g then gr_ScrollBot g
                        else gr_CursorRow g)
        in inRegion - gr_ScrollTop g + 1)
     else gr_CursorRow g + 1)"

text \<open>Step 12: the cell in the last column printed again, so that the wrap is pending.\<close>

definition wrap_bytes :: "EColorMode \<Rightarrow> Grid \<Rightarrow> Pen \<Rightarrow> bytes" where
  "wrap_bytes cm g pen =
    (if gr_PendingWrap g \<and> gr_CursorCol g + 1 = gr_Cols g then
       (let awmWasOff = (\<not> ModeSet Awm g);
            g0 = (gr_CharsetG0 g \<noteq> 0 \<and> gr_CharsetActive g = 0);
            g1 = (gr_CharsetG1 g \<noteq> 0 \<and> gr_CharsetActive g \<noteq> 0);
            wc = CellAt g (gr_CursorRow g) (emitCol g);
            (sgr1, pen) = EmitSgr pen (NormalizePen cm (c_Pen wc));
            (sgr2, pen) = EmitSgr pen (NormalizePen cm (gr_Pen g))
        in (if awmWasOff then EmitPrivateMode 7 True else []) @
           (if g0 then esc_lit ''(B'' else []) @ (if g1 then esc_lit '')B'' @ [0x0F] else []) @
           sgr1 @ WriteUtf8 (cell_char wc) @ sgr2 @
           (if g0 then esc_lit ''(0'' else []) @ (if g1 then esc_lit '')0'' @ [0x0E] else []) @
           (if awmWasOff then EmitPrivateMode 7 False else []))
     else [])"

definition EncodeModeRestore :: "EColorMode \<Rightarrow> Grid \<Rightarrow> bytes" where
  "EncodeModeRestore cm g =
    (let sc = (if IsAltScreen g then gr_SavedAlt g else gr_SavedMain g);
         (sgr, pen) = EmitSgr default_pen (NormalizePen cm (gr_Pen g))
     in slot_bytes cm g sc @ esc_lit ''7'' @
        (if SlotNeedsState sc then SlotUndoState else []) @
        esc_csi ''0m'' @ sgr @
        region_bytes (gr_ScrollTop g + 1) (gr_ScrollBot g + 1) @
        mode_bytes g @
        charset_bytes (gr_CharsetG0 g) (gr_CharsetG1 g) (gr_CharsetActive g) @
        esc_csi ''3g'' @ tab_stop_bytes g @
        esc_csi '''' @ WriteDecimal (gr_CursorStyle g) @ WriteLiteral '' q'' @
        EmitPrivateMode 6 (ModeSet Decom g) @
        cup_bytes (cupRow g) (emitCol g + 1) @
        wrap_bytes cm g pen @
        EmitPrivateMode 25 (ModeSet Dectcem g) @
        esc_csi ''?2026l'')"

subsection \<open>The whole encoding\<close>

record EncodeParams =
  ep_HistStart :: nat
  ep_HistCount :: nat
  ep_Color :: EColorMode
  ep_CropTop :: nat
  ep_CropBot :: nat

definition preamble_bytes :: bytes where
  "preamble_bytes = [0x18] @ esc_lit [CHR 0x5C] @ esc_csi ''!p'' @ esc_csi ''?1049l'' @
     esc_csi ''2J'' @ esc_csi ''H'' @ esc_csi ''?25l''"

definition clear_bytes :: bytes where
  "clear_bytes = esc_csi ''0m'' @ esc_csi ''2J'' @ esc_csi ''H''"

definition history_bytes :: "Grid \<Rightarrow> EncodeParams \<Rightarrow> bytes" where
  "history_bytes g ep =
    (if ep_HistCount ep > 0 then
       fst (EncodeHistory (ep_Color ep) g (ep_HistStart ep) (ep_HistCount ep) default_pen) @
       replicate (gr_Rows g - 1) 0x0A
     else [])"

definition endRow :: "Grid \<Rightarrow> EncodeParams \<Rightarrow> nat" where
  "endRow g ep = (if gr_Rows g > ep_CropBot ep then gr_Rows g - ep_CropBot ep else 0)"

definition alt_switch_bytes :: "Grid \<Rightarrow> EncodeParams \<Rightarrow> bytes" where
  "alt_switch_bytes g ep =
    (if IsAltScreen g then
       fst (EncodeAnyScreen (ep_Color ep) g (\<lambda>r. gr_Main g ! r) (ep_CropTop ep) (endRow g ep) default_pen) @
       slot_bytes (ep_Color ep) g (gr_SavedMain g) @ esc_csi ''?1049h'' @
       (if SlotNeedsState (gr_SavedMain g) then SlotUndoState else []) @
       clear_bytes
     else [])"

text \<open>The bytes before the sync window (\<open>outScrollbackLen\<close> is their number), and those from it on.\<close>

definition scrollback_section :: "Grid \<Rightarrow> EncodeParams \<Rightarrow> bytes" where
  "scrollback_section g ep = preamble_bytes @ history_bytes g ep @ clear_bytes @ alt_switch_bytes g ep"

definition screen_section :: "Grid \<Rightarrow> EncodeParams \<Rightarrow> bytes" where
  "screen_section g ep =
    esc_csi ''?2026h'' @
    fst (EncodeAnyScreen (ep_Color ep) g (ActiveLine g) (ep_CropTop ep) (endRow g ep) default_pen) @
    EncodeModeRestore (ep_Color ep) g"

definition EncodeAll :: "Grid \<Rightarrow> EncodeParams \<Rightarrow> EscWriter \<Rightarrow> EscWriter \<times> nat" where
  "EncodeAll g ep w =
    (let w = write_all (scrollback_section g ep) w;
         outScrollbackLen = ew_Pos w
     in (write_all (screen_section g ep) w, outScrollbackLen))"

definition MeasureEncoding :: "Grid \<Rightarrow> EncodeParams \<Rightarrow> nat \<Rightarrow> nat" where
  "MeasureEncoding g ep maxBytes =
    ew_Pos (fst (EncodeAll g ep \<lparr> ew_Buf = [0], ew_Cap = maxBytes, ew_Pos = 0, ew_Overflow = False,
                                  ew_DryRun = True \<rparr>))"

subsection \<open>The degrade ladder\<close>

definition GRID_SNAPSHOT_MAX_BYTES :: nat where "GRID_SNAPSHOT_MAX_BYTES = 4 * 1024 * 1024"

datatype EDegradation = NoDegradation | HistoryTrimmed | Colors256 | NoColor | RowsCropped

record Snapshot =
  sn_Bytes :: bytes
  sn_ScrollbackLen :: nat
  sn_Degradation :: EDegradation
  sn_PossiblyDiverged :: bool
  sn_AltScreen :: bool

definition full_params :: "nat \<Rightarrow> nat \<Rightarrow> EncodeParams" where
  "full_params start count = \<lparr> ep_HistStart = start, ep_HistCount = count, ep_Color = Full,
     ep_CropTop = 0, ep_CropBot = 0 \<rparr>"

text \<open>\<open>while (lo < hi)\<close>: the largest count in \<open>[lo, hi]\<close> that fits.\<close>

function trim_search :: "(nat \<Rightarrow> bool) \<Rightarrow> nat \<Rightarrow> nat \<Rightarrow> nat" where
  "trim_search fits lo hi =
    (if lo < hi then
       (let mid = lo + (hi - lo + 1) div 2 in
        if fits mid then trim_search fits mid hi else trim_search fits lo (mid - 1))
     else lo)"
  by pat_completeness auto
termination
  by (relation "measure (\<lambda>(fits, lo, hi). hi - lo)") auto

text \<open>\<open>while (lo < hi)\<close>: the smallest crop in \<open>[lo, hi]\<close> that fits. The bounds are 16-bit numbers and
  \<open>lo \<le> mid < hi\<close>, so the casts of \<open>mid\<close> and \<open>mid + 1\<close> change nothing.\<close>

function crop_search :: "(nat \<Rightarrow> bool) \<Rightarrow> nat \<Rightarrow> nat \<Rightarrow> nat" where
  "crop_search fits lo hi =
    (if lo < hi then
       (let mid = lo + (hi - lo) div 2 in
        if fits mid then crop_search fits lo mid else crop_search fits (mid + 1) hi)
     else lo)"
  by pat_completeness auto
termination
  by (relation "measure (\<lambda>(fits, lo, hi). hi - lo)") auto

declare trim_search.simps [simp del] crop_search.simps [simp del]

text \<open>The steps of the ladder, each with what it chose and whether that fits. \<open>fits\<close> is the dry run
  against the cap.\<close>

type_synonym rung = "EncodeParams \<times> EDegradation \<times> bool"

definition trim_history :: "(EncodeParams \<Rightarrow> bool) \<Rightarrow> nat \<Rightarrow> rung \<Rightarrow> rung" where
  "trim_history fits sz r =
    (case r of (chosen, deg, found) \<Rightarrow>
     if \<not> found \<and> sz > 0 then
       (let lo = trim_search (\<lambda>mid. fits (full_params (sz - mid) mid)) 0 (sz - 1);
            chosen = full_params (sz - lo) lo;
            found = fits chosen
        in (chosen, if found then HistoryTrimmed else deg, found))
     else r)"

definition reduce_colors :: "(EncodeParams \<Rightarrow> bool) \<Rightarrow> nat \<Rightarrow> rung \<Rightarrow> rung" where
  "reduce_colors fits sz r =
    (case r of (chosen, deg, found) \<Rightarrow>
     if \<not> found then
       (let chosen = (full_params sz 0)\<lparr>ep_Color := Indexed256\<rparr>; found = fits chosen
        in (chosen, if found then Colors256 else deg, found))
     else r)"

definition strip_colors :: "(EncodeParams \<Rightarrow> bool) \<Rightarrow> rung \<Rightarrow> rung" where
  "strip_colors fits r =
    (case r of (chosen, deg, found) \<Rightarrow>
     if \<not> found then
       (let chosen = chosen\<lparr>ep_Color := NoColors\<rparr>; found = fits chosen
        in (chosen, if found then NoColor else deg, found))
     else r)"

definition crop_rows :: "(EncodeParams \<Rightarrow> bool) \<Rightarrow> nat \<Rightarrow> nat \<Rightarrow> rung \<Rightarrow> rung" where
  "crop_rows fits rows curRow r =
    (case r of (chosen, deg, found) \<Rightarrow>
     if \<not> found then
       (let lo = crop_search (\<lambda>mid. fits (chosen\<lparr>ep_CropTop := mid\<rparr>)) 0 curRow;
            chosen = chosen\<lparr>ep_CropTop := lo\<rparr>;
            found = fits chosen;
            (chosen, found) =
              (if \<not> found \<and> rows > u16 (curRow + 1) then
                 (let chosen = chosen\<lparr>ep_CropTop := curRow\<rparr>;
                      blo = crop_search (\<lambda>mid. fits (chosen\<lparr>ep_CropBot := mid\<rparr>)) 1
                              (u16_minus rows (curRow + 1));
                      chosen = chosen\<lparr>ep_CropBot := blo\<rparr>
                  in (chosen, fits chosen))
               else (chosen, found))
        in (chosen, if found then RowsCropped else deg, found))
     else r)"

definition ladder :: "(EncodeParams \<Rightarrow> bool) \<Rightarrow> Grid \<Rightarrow> rung" where
  "ladder fits g =
    (let sz = gr_HistorySize g;
         chosen = full_params 0 sz;
         r = (chosen, NoDegradation, fits chosen);
         r = trim_history fits sz r;
         r = reduce_colors fits sz r;
         r = strip_colors fits r
     in crop_rows fits (gr_Rows g) (gr_CursorRow g) r)"

definition snapshot_cap :: "nat \<Rightarrow> nat" where
  "snapshot_cap maxBytes =
    (if maxBytes = 0 \<or> maxBytes > GRID_SNAPSHOT_MAX_BYTES then GRID_SNAPSHOT_MAX_BYTES else maxBytes)"

text \<open>\<open>Snapshot::Create\<close>; the two allocations are \<open>alloc 0\<close> and \<open>alloc 1\<close>.\<close>

definition sn_Create :: "(nat \<Rightarrow> bool) \<Rightarrow> Grid \<Rightarrow> nat \<Rightarrow> EGridError + Snapshot" where
  "sn_Create alloc g optMaxBytes =
    (let maxBytes = snapshot_cap optMaxBytes;
         fits = (\<lambda>ep. MeasureEncoding g ep maxBytes \<le> maxBytes);
         (chosen, deg, found) = ladder fits g
     in if \<not> found then Inl SnapshotTooLarge
        else
          let totalSize = MeasureEncoding g chosen maxBytes in
          if \<not> alloc 0 then Inl AllocationFailed
          else
            let (w, scrollbackLen) = EncodeAll g chosen
                  \<lparr> ew_Buf = replicate totalSize 0, ew_Cap = totalSize, ew_Pos = 0,
                    ew_Overflow = False, ew_DryRun = False \<rparr>
            in if \<not> alloc 1 then Inl AllocationFailed
               else Inr \<lparr> sn_Bytes = take (ew_Pos w) (ew_Buf w), sn_ScrollbackLen = scrollbackLen,
                          sn_Degradation = deg, sn_PossiblyDiverged = gr_PossiblyDiverged g,
                          sn_AltScreen = IsAltScreen g \<rparr>)"

end
