(* ===== verification/Grid_Codec.thy ===== *)
theory Grid_Codec
  imports Grid_Terminal Grid_Snapshot
begin

text \<open>
  What the snapshot serializer writes, the parser reads back: characters in UTF-8, numbers in decimal,
  control sequences with their parameters, and the rendition of a cell.
\<close>

unbundle bit_operations_syntax

subsection \<open>Feeding a whole string from the ground state\<close>

text \<open>\<open>feeds bs g g'\<close>: a parser in the ground state that is fed \<open>bs\<close> turns \<open>g\<close> into \<open>g'\<close> and is in the ground
  state again.\<close>

definition feeds :: "bytes \<Rightarrow> Grid \<Rightarrow> Grid \<Rightarrow> bool" where
  "feeds bs g g' \<longleftrightarrow> (\<forall>p. at_ground p \<longrightarrow> at_ground (fst (Feed bs (p, g))) \<and> snd (Feed bs (p, g)) = g')"

lemma feeds_Nil [simp]: "feeds [] g g"
  by (simp add: feeds_def)

lemma feeds_append: "feeds bs g g' \<Longrightarrow> feeds bs' g' g'' \<Longrightarrow> feeds (bs @ bs') g g''"
  by (auto simp: feeds_def) (metis prod.collapse)+

lemma feeds_unique: "feeds bs g g' \<Longrightarrow> feeds bs g g'' \<Longrightarrow> g' = g''"
proof -
  assume "feeds bs g g'" "feeds bs g g''"
  moreover have "at_ground mk_VtParser" by (simp add: at_ground_def mk_VtParser_def vt_Reset_def)
  ultimately show ?thesis by (auto simp: feeds_def)
qed

lemma feedsI:
  assumes "\<And>p. at_ground p \<Longrightarrow> at_ground (fst (Feed bs (p, g))) \<and> snd (Feed bs (p, g)) = g'"
  shows "feeds bs g g'"
  using assms by (simp add: feeds_def)

lemma feeds_control:
  assumes "unat b < 0x20" and "unat b \<notin> {0x18, 0x1A, 0x1B}"
  shows "feeds [b] g (HandleControl (unat b) g)"
  using assms by (auto simp: feeds_def at_ground_def FeedByte_def feed_plain_def Let_def)

lemma feeds_ascii:
  assumes "0x20 \<le> unat b" and "unat b \<le> 0x7E"
  shows "feeds [b] g (PutChar (unat b) 1 g)"
  using assms by (auto simp: feeds_def at_ground_def FeedByte_def feed_plain_def feed_state_def Let_def)

subsection \<open>UTF-8\<close>

lemma nat_and_low: "(n :: nat) AND 0x3F = n mod 64" "(n :: nat) AND 0x1F = n mod 32"
    "(n :: nat) AND 0x0F = n mod 16" "(n :: nat) AND 0x07 = n mod 8"
  using take_bit_eq_mask [of 6 n] take_bit_eq_mask [of 5 n] take_bit_eq_mask [of 4 n] take_bit_eq_mask [of 3 n]
  by (simp_all add: take_bit_eq_mod mask_eq_exp_minus_1)

lemma nat_and_high: "(n :: nat) AND push_bit k m = push_bit k (drop_bit k n AND m)"
  by (rule bit_eqI) (auto simp: bit_and_iff bit_push_bit_iff bit_drop_bit_eq)

lemma nat_or_disjoint: "m < 2 ^ k \<Longrightarrow> push_bit k a OR m = push_bit k a + (m :: nat)"
proof -
  assume m: "m < 2 ^ k"
  have low: "bit m n \<Longrightarrow> n < k" for n
  proof (rule ccontr)
    assume "bit m n" "\<not> n < k"
    then have "2 ^ k \<le> (2 :: nat) ^ n" by simp
    with m have "m < 2 ^ n" by (rule less_le_trans)
    then have "m div 2 ^ n = 0" by simp
    with \<open>bit m n\<close> show False by (simp add: bit_iff_odd)
  qed
  show ?thesis
    by (intro disjunctive_add [symmetric]) (auto simp: bit_push_bit_iff not_less dest: low leD)
qed

lemma byte_high_test:
  fixes b c d :: byte
  assumes "j + k = 8" and that: "unat c = push_bit k (mask j)" "unat d = push_bit k e"
  shows "b AND c = d \<longleftrightarrow> unat b div 2 ^ k = e"
proof -
  have lt: "unat b div 2 ^ k < 2 ^ j"
  proof -
    have "unat b < 2 ^ j * 2 ^ k"
      using unat_lt_u8 [of b] assms by (simp flip: power_add)
    then show ?thesis by (simp add: less_mult_imp_div_less)
  qed
  have "b AND c = d \<longleftrightarrow> unat b AND unat c = unat d"
    by (simp add: unsigned_and_eq [symmetric] word_unat_eq_iff)
  also have "\<dots> \<longleftrightarrow> push_bit k (drop_bit k (unat b) AND mask j) = push_bit k e"
    unfolding that nat_and_high [of "unat b" k] by (rule refl)
  also have "\<dots> \<longleftrightarrow> unat b div 2 ^ k = e"
    using lt by (simp add: drop_bit_eq_div push_bit_eq_mult take_bit_nat_eq_self flip: take_bit_eq_mask)
  finally show ?thesis .
qed

lemma byte_tests:
  "IsUtf8Continuation b \<longleftrightarrow> unat b div 64 = 2"
  "b AND 0xE0 = 0xC0 \<longleftrightarrow> unat b div 32 = 6"
  "b AND 0xF0 = 0xE0 \<longleftrightarrow> unat b div 16 = 14"
  "b AND 0xF8 = 0xF0 \<longleftrightarrow> unat b div 8 = 30"
  for b :: byte
  using byte_high_test [of 2 6 "0xC0" "0x80" 2 b] byte_high_test [of 3 5 "0xE0" "0xC0" 6 b]
    byte_high_test [of 4 4 "0xF0" "0xE0" 14 b] byte_high_test [of 5 3 "0xF8" "0xF0" 30 b]
  by (simp_all add: IsUtf8Continuation_def push_bit_eq_mult mask_eq_exp_minus_1)

lemma LeadLength_values:
  "unat b div 32 = 6 \<Longrightarrow> Utf8LeadLength b = 1"
  "unat b div 16 = 14 \<Longrightarrow> Utf8LeadLength b = 2"
  "unat b div 8 = 30 \<Longrightarrow> Utf8LeadLength b = 3"
  unfolding Utf8LeadLength_def byte_tests by auto

lemma lead_payload:
  "unat (b AND LEAD_MASK ! Suc 0) = unat b mod 32" "unat (b AND LEAD_MASK ! 2) = unat b mod 16"
  "unat (b AND LEAD_MASK ! 3) = unat b mod 8"
  by (simp_all add: LEAD_MASK_def unsigned_and_eq nat_and_low)

lemma marked_byte:
  "n < 64 \<Longrightarrow> unat (0x80 OR word_of_nat n :: byte) = 0x80 + n"
  "n < 32 \<Longrightarrow> unat (0xC0 OR word_of_nat n :: byte) = 0xC0 + n"
  "n < 16 \<Longrightarrow> unat (0xE0 OR word_of_nat n :: byte) = 0xE0 + n"
  "n < 8 \<Longrightarrow> unat (0xF0 OR word_of_nat n :: byte) = 0xF0 + n"
  using nat_or_disjoint [of n 6 2] nat_or_disjoint [of n 6 3] nat_or_disjoint [of n 5 7] nat_or_disjoint [of n 4 15]
  by (simp_all add: unsigned_or_eq unat_of_nat push_bit_eq_mult)

lemma marked_mod:
  "m < 64 \<Longrightarrow> (0x80 + m) mod 64 = m" "m < 32 \<Longrightarrow> (0xC0 + m) mod 32 = m"
  "m < 16 \<Longrightarrow> (0xE0 + m) mod 16 = m" "m < 8 \<Longrightarrow> (0xF0 + m) mod 8 = m" for m :: nat
  using mod_add_left_eq [of "0x80" 64 m] mod_add_left_eq [of "0xC0" 32 m] mod_add_left_eq [of "0xE0" 16 m]
    mod_add_left_eq [of "0xF0" 8 m] by simp_all

lemma base64_join:
  "cp div 4096 * 64 + cp div 64 mod 64 = cp div 64" "cp div 262144 * 64 + cp div 4096 mod 64 = cp div 4096" for cp :: nat
  using div_mult_mod_eq [of "cp div 64" 64] div_mult_mod_eq [of "cp div 4096" 64] by (simp_all flip: div_mult2_eq)

lemma accumulate: "acc < 2 ^ 24 \<Longrightarrow>
    take_bit 32 (push_bit 6 acc) OR (n AND 0x3F) = acc * 64 + (n mod 64 :: nat)"
proof -
  assume "acc < 2 ^ 24"
  then have "take_bit 32 (push_bit 6 acc) = push_bit 6 acc"
    by (intro take_bit_nat_eq_self) (simp add: push_bit_eq_mult)
  then show ?thesis
    using nat_or_disjoint [of "n mod 64" 6 acc] by (simp add: nat_and_low push_bit_eq_mult)
qed

lemma utf8_value_id: "printable cp \<Longrightarrow> MIN_CP ! sl \<le> cp \<Longrightarrow> sl < 4 \<Longrightarrow> utf8_value sl cp = cp"
  by (auto simp: utf8_value_def printable_def)

lemma FeedByte_lead:
  assumes "at_ground p" and "0xC0 \<le> unat b" and "Utf8LeadLength b = n" and "0 < n"
  shows "FeedByte b (p, g) = (p\<lparr>vp_Utf8Accumulator := unat (b AND LEAD_MASK ! n), vp_Utf8Remaining := n,
    vp_Utf8SeqLen := n\<rparr>, g)"
  using assms unat_lt_u8 [of b] by (simp add: at_ground_def FeedByte_def feed_plain_def Let_def)

lemma FeedByte_continue:
  assumes "vp_State p = Ground" and "vp_Utf8Remaining p = Suc n" and "unat b = 0x80 + m" and "m < 64"
    and "vp_Utf8Accumulator p < 2 ^ 24"
  shows "FeedByte b (p, g) =
    (let p' = p\<lparr>vp_Utf8Accumulator := vp_Utf8Accumulator p * 64 + m, vp_Utf8Remaining := n\<rparr>;
         cp = utf8_value (vp_Utf8SeqLen p) (vp_Utf8Accumulator p * 64 + m)
     in if n = 0 \<and> \<not> (0x80 \<le> cp \<and> cp \<le> 0x9F) then (p', put_codepoint cp g) else (p', g))"
proof -
  have "IsUtf8Continuation b" "unat b mod 64 = m"
    using assms(3,4) by (simp_all add: byte_tests marked_mod)
  then show ?thesis
    using assms accumulate [OF assms(5), of "unat b"]
    by (simp add: FeedByte_def utf8_continue_def Let_def)
qed

lemma feeds_utf8:
  assumes cp: "printable cp"
  shows "feeds (WriteUtf8 cp) g (put_codepoint cp g)"
proof (rule feedsI)
  fix p assume p: "at_ground p"
  have not_c1: "\<not> (0x80 \<le> cp \<and> cp \<le> 0x9F)" and max: "cp \<le> 0x10FFFF"
    using cp by (auto simp: printable_def)
  consider (one) "cp < 0x80" | (two) "0x80 \<le> cp" "cp < 0x800" | (three) "0x800 \<le> cp" "cp < 0x10000"
    | (four) "0x10000 \<le> cp" by linarith
  then show "at_ground (fst (Feed (WriteUtf8 cp) (p, g))) \<and> snd (Feed (WriteUtf8 cp) (p, g)) = put_codepoint cp g"
  proof cases
    case one
    then have "unat (word_of_nat cp :: byte) = cp" by (simp add: unat_of_nat)
    moreover have "put_codepoint cp g = PutChar cp 1 g"
      using one cp by (auto simp: put_codepoint_def Let_def printable_def)
    ultimately show ?thesis
      using feeds_ascii [of "word_of_nat cp" g] one cp p by (auto simp: WriteUtf8_def feeds_def printable_def)
  next
    case two
    define b0 b1 where "b0 = (0xC0 OR word_of_nat (cp div 64) :: byte)" and "b1 = (0x80 OR word_of_nat (cp mod 64) :: byte)"
    have b: "unat b0 = 0xC0 + cp div 64" "unat b1 = 0x80 + cp mod 64"
      using two by (auto simp: b0_def b1_def marked_byte)
    have "Utf8LeadLength b0 = 1" using two b by (intro LeadLength_values) auto
    then have "FeedByte b0 (p, g) = (p\<lparr>vp_Utf8Accumulator := cp div 64, vp_Utf8Remaining := 1, vp_Utf8SeqLen := 1\<rparr>, g)"
      using FeedByte_lead [OF p, of b0 1 g] two b by (simp add: lead_payload marked_mod)
    moreover have "utf8_value 1 (cp div 64 * 64 + cp mod 64) = cp"
      using two cp by (simp add: utf8_value_id MIN_CP_def)
    moreover have "WriteUtf8 cp = [b0, b1]"
      using two by (simp add: WriteUtf8_def Let_def b0_def b1_def nat_and_low drop_bit_eq_div)
    ultimately show ?thesis
      using p b two not_c1 by (simp add: FeedByte_continue Let_def at_ground_def)
  next
    case three
    define b0 b1 b2 where "b0 = (0xE0 OR word_of_nat (cp div 4096) :: byte)"
      and "b1 = (0x80 OR word_of_nat (cp div 64 mod 64) :: byte)" and "b2 = (0x80 OR word_of_nat (cp mod 64) :: byte)"
    have b: "unat b0 = 0xE0 + cp div 4096" "unat b1 = 0x80 + cp div 64 mod 64" "unat b2 = 0x80 + cp mod 64"
      using three by (auto simp: b0_def b1_def b2_def marked_byte)
    have "Utf8LeadLength b0 = 2" using three b by (intro LeadLength_values) auto
    then have "FeedByte b0 (p, g) = (p\<lparr>vp_Utf8Accumulator := cp div 4096, vp_Utf8Remaining := 2, vp_Utf8SeqLen := 2\<rparr>, g)"
      using FeedByte_lead [OF p, of b0 2 g] three b by (simp add: lead_payload marked_mod)
    moreover have "utf8_value 2 cp = cp"
      using three cp by (simp add: utf8_value_id MIN_CP_def)
    moreover have "WriteUtf8 cp = [b0, b1, b2]"
      using three by (simp add: WriteUtf8_def Let_def b0_def b1_def b2_def nat_and_low drop_bit_eq_div)
    ultimately show ?thesis
      using p b three not_c1 by (simp add: base64_join FeedByte_continue Let_def at_ground_def)
  next
    case four
    define b0 b1 b2 b3 where "b0 = (0xF0 OR word_of_nat (cp div 262144) :: byte)"
      and "b1 = (0x80 OR word_of_nat (cp div 4096 mod 64) :: byte)"
      and "b2 = (0x80 OR word_of_nat (cp div 64 mod 64) :: byte)" and "b3 = (0x80 OR word_of_nat (cp mod 64) :: byte)"
    have b: "unat b0 = 0xF0 + cp div 262144" "unat b1 = 0x80 + cp div 4096 mod 64" "unat b2 = 0x80 + cp div 64 mod 64"
        "unat b3 = 0x80 + cp mod 64"
      using max by (auto simp: b0_def b1_def b2_def b3_def marked_byte)
    have "Utf8LeadLength b0 = 3" using max b by (intro LeadLength_values) auto
    then have "FeedByte b0 (p, g) = (p\<lparr>vp_Utf8Accumulator := cp div 262144, vp_Utf8Remaining := 3, vp_Utf8SeqLen := 3\<rparr>, g)"
      using FeedByte_lead [OF p, of b0 3 g] max b by (simp add: lead_payload marked_mod)
    moreover have "utf8_value 3 cp = cp"
      using four cp by (simp add: utf8_value_id MIN_CP_def)
    moreover have "WriteUtf8 cp = [b0, b1, b2, b3]"
      using four by (simp add: WriteUtf8_def Let_def b0_def b1_def b2_def b3_def nat_and_low drop_bit_eq_div)
    ultimately show ?thesis
      using p b max not_c1 by (simp add: base64_join FeedByte_continue Let_def at_ground_def)
  qed
qed

end
