(* ===== verification/Grid_Sequences.thy ===== *)
theory Grid_Sequences
  imports Grid_Codec
begin

text \<open>
  Control sequences: the parameters the serializer writes are those the parser reads, and the sequence
  for a rendition gives the pen exactly that rendition.
\<close>

unbundle bit_operations_syntax

subsection \<open>Decimal numbers\<close>

lemma digit_byte:
  assumes "d < 10"
  shows "unat (word_of_nat (0x30 + d) :: byte) = 0x30 + d" "(0x30 :: byte) \<le> word_of_nat (0x30 + d)"
    "(word_of_nat (0x30 + d) :: byte) \<le> 0x39"
proof -
  show u: "unat (word_of_nat (0x30 + d) :: byte) = 0x30 + d"
    using assms by (simp add: unat_of_nat del: of_nat_add)
  show "(0x30 :: byte) \<le> word_of_nat (0x30 + d)" "(word_of_nat (0x30 + d) :: byte) \<le> 0x39"
    using assms by (simp_all add: word_le_nat_alt u del: of_nat_add)
qed

lemma parse_digit:
  assumes "d < 10" and "acc * 10 + d \<le> 0xFFFF"
  shows "parse_params_loop mx out acc hasDigit pc (word_of_nat (0x30 + d) # rest) =
    parse_params_loop mx out (acc * 10 + d) True pc rest"
  using assms digit_byte [OF assms(1)] by (simp add: Let_def del: of_nat_add)

lemma parse_digits:
  "0 < n \<Longrightarrow> n \<le> 0xFFFF \<Longrightarrow>
    parse_params_loop mx out 0 hasDigit pc (rev (decimal_digits n) @ rest) = parse_params_loop mx out n True pc rest"
proof (induction n arbitrary: hasDigit rest rule: decimal_digits.induct)
  case (1 n)
  have digits: "rev (decimal_digits n) = rev (decimal_digits (n div 10)) @ [word_of_nat (0x30 + n mod 10)]"
    using 1 by (subst decimal_digits.simps) simp
  show ?case
  proof (cases "n div 10 = 0")
    case True
    then have "rev (decimal_digits (n div 10)) = []"
      by (subst decimal_digits.simps) simp
    with True digits 1 parse_digit [of "n mod 10" 0 mx out hasDigit pc rest] show ?thesis by simp
  next
    case False
    with 1 parse_digit [of "n mod 10" "n div 10" mx out True pc rest] show ?thesis
      by (simp add: digits del: of_nat_add)
  qed
qed

lemma parse_decimal:
  "n \<le> 0xFFFF \<Longrightarrow>
    parse_params_loop mx out 0 hasDigit pc (WriteDecimal n @ rest) = parse_params_loop mx out n True pc rest"
  by (auto simp: WriteDecimal_def parse_digits)

lemma decimal_digits_range: "b \<in> set (decimal_digits n) \<Longrightarrow> 0x30 \<le> unat b \<and> unat b \<le> 0x39"
proof (induction n rule: decimal_digits.induct)
  case (1 n)
  then show ?case
    using digit_byte(1) [of "n mod 10"]
    by (subst (asm) decimal_digits.simps) (auto simp del: of_nat_add split: if_splits)
qed

lemma decimal_range: "b \<in> set (WriteDecimal n) \<Longrightarrow> 0x30 \<le> unat b \<and> unat b \<le> 0x39"
  by (auto simp: WriteDecimal_def dest: decimal_digits_range split: if_splits)

lemma decimal_digits_length: "n < 10 ^ k \<Longrightarrow> length (decimal_digits n) \<le> k"
proof (induction k arbitrary: n)
  case 0
  then show ?case by (subst decimal_digits.simps) simp
next
  case (Suc k)
  then have "n div 10 < 10 ^ k" by (simp add: less_mult_imp_div_less mult.commute)
  with Suc.IH [of "n div 10"] show ?case by (subst decimal_digits.simps) simp
qed

lemma decimal_length: "n \<le> 0xFFFF \<Longrightarrow> length (WriteDecimal n) \<le> 5"
  using decimal_digits_length [of n 5] by (auto simp: WriteDecimal_def)

subsection \<open>Parameters\<close>

text \<open>The bytes of a parameter list after its first value: each value with its separator.\<close>

definition tail_bytes :: "(nat \<times> bool) list \<Rightarrow> bytes" where
  "tail_bytes ps = concat (map (\<lambda>(n, c). (if c then 0x3A else 0x3B) # WriteDecimal n) ps)"

lemma tail_bytes_simps [simp]: "tail_bytes [] = []"
  "tail_bytes ((n, c) # ps) = (if c then 0x3A else 0x3B) # WriteDecimal n @ tail_bytes ps"
  "tail_bytes (ps @ qs) = tail_bytes ps @ tail_bytes qs"
  by (simp_all add: tail_bytes_def)

lemma parse_separator:
  "length out < mx \<Longrightarrow> n \<le> 0xFFFF \<Longrightarrow> parse_params_loop mx out n True pc ((if c then 0x3A else 0x3B) # rest) =
    parse_params_loop mx (out @ [(n, pc)]) 0 False c rest"
  by (simp add: u16_def word_le_nat_alt)

lemma parse_tail:
  assumes "n \<le> 0xFFFF" and "\<forall>p\<in>set ps. fst p \<le> 0xFFFF" and "length out + length ps < mx"
  shows "parse_params_loop mx out n True pc (tail_bytes ps) = out @ (n, pc) # ps"
  using assms
proof (induction ps arbitrary: out n pc)
  case Nil
  then show ?case by (simp add: u16_def)
next
  case (Cons p ps)
  obtain m c where p: "p = (m, c)" by (cases p)
  have "length out < mx" "m \<le> 0xFFFF" using Cons.prems p by auto
  then show ?case
    using Cons.prems Cons.IH [of m "out @ [(n, pc)]" c]
    by (simp only: p tail_bytes_simps append_Cons parse_separator parse_decimal) simp
qed

text \<open>A whole parameter list, and the bytes it may consist of.\<close>

definition param_bytes :: "nat \<Rightarrow> (nat \<times> bool) list \<Rightarrow> bytes" where
  "param_bytes n ps = WriteDecimal n @ tail_bytes ps"

lemma parse_param_bytes:
  assumes "n \<le> 0xFFFF" and "\<forall>p\<in>set ps. fst p \<le> 0xFFFF" and "length ps < mx"
  shows "parse_params_loop mx [] 0 False False (param_bytes n ps) = (n, False) # ps"
  using assms parse_tail [of n ps "[]" mx False] by (simp add: param_bytes_def parse_decimal)

lemma param_bytes_range: "b \<in> set (param_bytes n ps) \<Longrightarrow> 0x30 \<le> unat b \<and> unat b \<le> 0x3B"
proof -
  have "0x30 \<le> unat b \<and> unat b \<le> 0x3B" if "b \<in> set (tail_bytes ps)" for b
    using that decimal_range [of b] by (fastforce simp: tail_bytes_def split: if_splits)
  then show "b \<in> set (param_bytes n ps) \<Longrightarrow> ?thesis"
    using decimal_range [of b n] by (auto simp: param_bytes_def)
qed

lemma tail_bytes_length: "\<forall>p\<in>set ps. fst p \<le> 0xFFFF \<Longrightarrow> length (tail_bytes ps) \<le> 6 * length ps"
proof (induction ps)
  case (Cons p ps)
  then show ?case using decimal_length [of "fst p"] by (cases p) auto
qed simp

lemma param_bytes_length:
  assumes "n \<le> 0xFFFF" and "\<forall>p\<in>set ps. fst p \<le> 0xFFFF" and "length ps < 16"
  shows "length (param_bytes n ps) \<le> 95"
  using tail_bytes_length [OF assms(2)] decimal_length [OF assms(1)] assms(3) by (simp add: param_bytes_def)

subsection \<open>Control sequences\<close>

text \<open>A parser that has read the introducer, the parameter bytes \<open>ps\<close> and the intermediate bytes \<open>im\<close>.\<close>

definition in_csi :: "bytes \<Rightarrow> bytes \<Rightarrow> nat \<Rightarrow> VtParser \<Rightarrow> bool" where
  "in_csi ps im m p \<longleftrightarrow>
    vp_State p = (if im \<noteq> [] then CsiIntermediate else if ps \<noteq> [] then CsiParam else CsiEntry) \<and>
    vp_Params p = ps \<and> vp_Intermediates p = im \<and> vp_PrivateMarker p = m \<and> vp_Utf8Remaining p = 0 \<and>
    \<not> vp_InOsc p \<and> vp_BypassBytes p = 0"

definition becomes :: "bytes \<Rightarrow> VtParser \<times> Grid \<Rightarrow> (VtParser \<Rightarrow> bool) \<Rightarrow> bool" where
  "becomes bs pg Q \<longleftrightarrow> Q (fst (Feed bs pg)) \<and> snd (Feed bs pg) = snd pg"

lemma becomes_Nil: "Q (fst pg) \<Longrightarrow> becomes [] pg Q"
  by (simp add: becomes_def)

lemma becomes_append:
  "becomes bs (p, g) Q \<Longrightarrow> (\<And>p'. Q p' \<Longrightarrow> becomes bs' (p', g) R) \<Longrightarrow> becomes (bs @ bs') (p, g) R"
  by (cases "Feed bs (p, g)") (auto simp: becomes_def)

lemmas parser_step = FeedByte_def feed_plain_def feed_state_def feed_escape_def feed_csi_entry_def Let_def parser_ops
  apfst_def map_prod_def

lemma esc_step: "at_ground p \<Longrightarrow> becomes [ESC] (p, g) (\<lambda>p. vp_State p = Escape \<and> vp_Params p = [] \<and>
    vp_Intermediates p = [] \<and> vp_PrivateMarker p = 0 \<and> vp_Utf8Remaining p = 0 \<and> \<not> vp_InOsc p \<and> vp_BypassBytes p = 0)"
  by (simp add: becomes_def at_ground_def ESC_def parser_step)

lemma csi_start:
  assumes "at_ground p"
  shows "becomes [ESC, 0x5B] (p, g) (in_csi [] [] 0)"
proof -
  have "becomes ([ESC] @ [0x5B]) (p, g) (in_csi [] [] 0)"
    by (rule becomes_append [OF esc_step [OF assms]]) (simp add: becomes_def in_csi_def parser_step)
  then show ?thesis by simp
qed

lemma csi_param:
  assumes "in_csi ps [] m p" and "length ps < 255" and "0x30 \<le> unat b" and "unat b \<le> 0x3B"
  shows "becomes [b] (p, g) (in_csi (ps @ [b]) [] m)"
  using assms by (auto simp: becomes_def in_csi_def parser_step parser_limits split: if_splits)

lemma csi_marker: "in_csi [] [] 0 p \<Longrightarrow> becomes [0x3F] (p, g) (in_csi [0x3F] [] 0x3F)"
  by (simp add: becomes_def in_csi_def parser_step parser_limits)

lemma csi_intermediate:
  assumes "in_csi ps [] m p" and "0x20 \<le> unat b" and "unat b \<le> 0x2F"
  shows "becomes [b] (p, g) (in_csi ps [b] m)"
  using assms by (auto simp: becomes_def in_csi_def parser_step parser_limits split: if_splits)

lemma csi_params:
  assumes "in_csi ps [] m p" and "length ps + length bs \<le> 255" and "\<forall>b\<in>set bs. 0x30 \<le> unat b \<and> unat b \<le> 0x3B"
  shows "becomes bs (p, g) (in_csi (ps @ bs) [] m)"
  using assms
proof (induction bs arbitrary: ps p)
  case Nil
  then show ?case by (simp add: becomes_Nil)
next
  case (Cons b bs)
  have "becomes ([b] @ bs) (p, g) (in_csi (ps @ b # bs) [] m)"
  proof (rule becomes_append)
    show "becomes [b] (p, g) (in_csi (ps @ [b]) [] m)"
      using Cons.prems by (intro csi_param) auto
    show "becomes bs (p', g) (in_csi (ps @ b # bs) [] m)" if "in_csi (ps @ [b]) [] m p'" for p'
      using Cons.IH [OF that] Cons.prems by simp
  qed
  then show ?case by simp
qed

lemma csi_final:
  assumes "in_csi ps im m p" and "0x40 \<le> unat b" and "unat b \<le> 0x7E"
  shows "at_ground (fst (FeedByte b (p, g))) \<and> snd (FeedByte b (p, g)) = snd (DispatchCsi (unat b) (p, g))"
proof -
  have "FeedByte b (p, g) = dispatch_csi_ground b (p, g)"
    using assms by (auto simp: in_csi_def FeedByte_def feed_plain_def feed_state_def feed_csi_entry_def Let_def)
  moreover have "counted p (fst (DispatchCsi (unat b) (p, g)))"
    using counted_DispatchCsi [of "(p, g)"] by simp
  ultimately show ?thesis
    using assms by (auto simp: dispatch_csi_ground_def at_ground_def in_csi_def counted_def parser_ops)
qed

lemma feeds_csi:
  assumes "\<And>p. at_ground p \<Longrightarrow> becomes bs (p, g) (in_csi ps im m)"
    and "0x40 \<le> unat f" and "unat f \<le> 0x7E"
    and "\<And>p. in_csi ps im m p \<Longrightarrow> snd (DispatchCsi (unat f) (p, g)) = g'"
  shows "feeds (bs @ [f]) g g'"
proof (rule feedsI)
  fix p assume "at_ground p"
  then have "in_csi ps im m (fst (Feed bs (p, g)))" "snd (Feed bs (p, g)) = g"
    using assms(1) by (auto simp: becomes_def)
  then show "at_ground (fst (Feed (bs @ [f]) (p, g))) \<and> snd (Feed (bs @ [f]) (p, g)) = g'"
    using csi_final [OF _ assms(2,3)] assms(4) by (cases "Feed bs (p, g)") auto
qed

lemma csi_reaches:
  assumes "at_ground p" and "\<forall>b\<in>set ps. 0x30 \<le> unat b \<and> unat b \<le> 0x3B" and "length ps \<le> 255"
    and "im = [] \<or> im = [i] \<and> 0x20 \<le> unat i \<and> unat i \<le> 0x2F"
  shows "becomes ([ESC, 0x5B] @ ps @ im) (p, g) (in_csi ps im 0)"
proof (rule becomes_append [OF csi_start [OF assms(1)]], rule becomes_append)
  fix p assume p: "in_csi [] [] 0 p"
  show "becomes ps (p, g) (in_csi ps [] 0)"
    using csi_params [OF p, of ps g] assms(2,3) by simp
  show "becomes im (p', g) (in_csi ps im 0)" if "in_csi ps [] 0 p'" for p'
    using assms(4) that by (auto intro: csi_intermediate simp: becomes_Nil)
qed

text \<open>The three shapes the serializer uses: numbered parameters, no parameter at all, and a private mode.\<close>

lemma feeds_csi_params:
  assumes "n \<le> 0xFFFF" and "\<forall>p\<in>set ps. fst p \<le> 0xFFFF" and "length ps < 16"
    and "0x40 \<le> unat f" and "unat f \<le> 0x7E"
    and "im = [] \<or> im = [i] \<and> 0x20 \<le> unat i \<and> unat i \<le> 0x2F"
    and effect: "\<And>p. vp_Intermediates p = im \<Longrightarrow> vp_PrivateMarker p = 0 \<Longrightarrow>
      snd (csi_public (n # map fst ps) (False # map snd ps) (unat f) (p, g)) = g'"
  shows "feeds (ESC # 0x5B # param_bytes n ps @ im @ [f]) g g'"
proof -
  let ?ps = "param_bytes n ps"
  have first: "?ps \<noteq> [] \<Longrightarrow> \<not> 0x3C \<le> hd ?ps"
    using param_bytes_range [of "hd ?ps" n ps] by (simp add: word_le_nat_alt)
  have "snd (DispatchCsi (unat f) (p, g)) = g'" if "in_csi ?ps im 0 p" for p
  proof -
    have "ParseParams MAX_PARAMS p = (n, False) # ps"
      using that first assms(1-3)
      by (auto simp: ParseParams_def in_csi_def Let_def MAX_PARAMS_def parse_param_bytes hd_conv_nth)
    then show ?thesis using that effect [of p] by (simp add: DispatchCsi_def in_csi_def Let_def)
  qed
  moreover have "becomes ([ESC, 0x5B] @ ?ps @ im) (p, g) (in_csi ?ps im 0)" if "at_ground p" for p
    using that param_bytes_range [of _ n ps] param_bytes_length [OF assms(1-3)] assms(6)
    by (intro csi_reaches) auto
  ultimately show ?thesis
    using feeds_csi [of "[ESC, 0x5B] @ ?ps @ im" g ?ps im 0 f g'] assms(4,5) by simp
qed

lemma feeds_csi_empty:
  assumes "0x40 \<le> unat f" and "unat f \<le> 0x7E"
    and "im = [] \<or> im = [i] \<and> 0x20 \<le> unat i \<and> unat i \<le> 0x2F"
    and effect: "\<And>p. vp_Intermediates p = im \<Longrightarrow> vp_PrivateMarker p = 0 \<Longrightarrow>
      snd (csi_public [0] [False] (unat f) (p, g)) = g'"
  shows "feeds (ESC # 0x5B # im @ [f]) g g'"
proof -
  have "snd (DispatchCsi (unat f) (p, g)) = g'" if "in_csi [] im 0 p" for p
    using that effect [of p] by (simp add: DispatchCsi_def in_csi_def Let_def ParseParams_def MAX_PARAMS_def)
  moreover have "becomes ([ESC, 0x5B] @ [] @ im) (p, g) (in_csi [] im 0)" if "at_ground p" for p
    using that assms(3) by (intro csi_reaches) auto
  ultimately show ?thesis
    using feeds_csi [of "[ESC, 0x5B] @ im" g "[]" im 0 f g'] assms(1,2) by simp
qed

lemma feeds_csi_private:
  assumes "n \<le> 0xFFFF"
  shows "feeds (ESC # 0x5B # 0x3F # WriteDecimal n @ [if v then 0x68 else 0x6C]) g (set_private_modes v [n] g)"
proof -
  let ?ps = "0x3F # WriteDecimal n" and ?f = "if v then 0x68 else 0x6C :: byte"
  have "snd (DispatchCsi (unat ?f) (p, g)) = set_private_modes v [n] g" if "in_csi ?ps [] 0x3F p" for p
    using that assms parse_decimal [of n 16 "[]" False False "[]"]
    by (simp add: DispatchCsi_def csi_private_def in_csi_def Let_def ParseParams_def MAX_PARAMS_def u16_def
        word_le_nat_alt)
  moreover have "becomes ([ESC, 0x5B] @ [0x3F] @ WriteDecimal n) (p, g) (in_csi ?ps [] 0x3F)" if "at_ground p" for p
  proof (rule becomes_append [OF csi_start [OF that]], rule becomes_append [OF csi_marker])
    show "becomes (WriteDecimal n) (p', g) (in_csi ?ps [] 0x3F)" if "in_csi [0x3F] [] 0x3F p'" for p'
      using csi_params [OF that, of "WriteDecimal n" g] decimal_range [of _ n] decimal_length [OF assms] by fastforce
  qed
  ultimately show ?thesis
    using feeds_csi [of "[ESC, 0x5B] @ [0x3F] @ WriteDecimal n" g ?ps "[]" "0x3F" ?f "set_private_modes v [n] g"] by simp
qed

subsection \<open>The rendition loop over a list\<close>

text \<open>\<open>sgr_at params colon i ys\<close>: the parameters from index \<open>i\<close> on are \<open>ys\<close>; \<open>sgr_runs ys pen pen'\<close>: the loop
  takes the pen from \<open>pen\<close> to \<open>pen'\<close> over them, wherever they stand.\<close>

definition sgr_at :: "nat list \<Rightarrow> bool list \<Rightarrow> nat \<Rightarrow> (nat \<times> bool) list \<Rightarrow> bool" where
  "sgr_at params colon i ys \<longleftrightarrow> length params = i + length ys \<and> length colon = length params \<and>
     (\<forall>k<length ys. params ! (i + k) = fst (ys ! k) \<and> colon ! (i + k) = snd (ys ! k))"

definition sgr_runs :: "(nat \<times> bool) list \<Rightarrow> Pen \<Rightarrow> Pen \<Rightarrow> bool" where
  "sgr_runs ys pen pen' \<longleftrightarrow> (\<forall>params colon i. sgr_at params colon i ys \<longrightarrow> sgr_loop params colon i pen = pen')"

lemma sgr_at_drop: "sgr_at params colon i (xs @ ys) \<Longrightarrow> sgr_at params colon (i + length xs) ys"
  unfolding sgr_at_def
proof (intro conjI allI impI; elim conjE)
  fix k assume *: "\<forall>k<length (xs @ ys). params ! (i + k) = fst ((xs @ ys) ! k) \<and> colon ! (i + k) = snd ((xs @ ys) ! k)"
    and "k < length ys"
  then show "params ! (i + length xs + k) = fst (ys ! k)" "colon ! (i + length xs + k) = snd (ys ! k)"
    using *[rule_format, of "length xs + k"] by (simp_all add: add.assoc)
qed auto

lemma sgr_runs_Nil: "sgr_runs [] pen pen"
  by (auto simp: sgr_runs_def sgr_at_def sgr_loop.simps)

lemma sgr_runs_step:
  assumes step: "\<And>params colon i. sgr_at params colon i (seg @ xs) \<Longrightarrow>
      sgr_step params colon i pen = (pen1, i + length seg - 1)"
    and "seg \<noteq> []" and rest: "sgr_runs xs pen1 pen'"
  shows "sgr_runs (seg @ xs) pen pen'"
  unfolding sgr_runs_def
proof (intro allI impI)
  fix params colon i assume at: "sgr_at params colon i (seg @ xs)"
  then have "i < length params" using assms(2) by (auto simp: sgr_at_def)
  moreover have "i + length seg - 1 + 1 = i + length seg" using assms(2) by (cases seg) auto
  ultimately show "sgr_loop params colon i pen = pen'"
    using step [OF at] rest sgr_at_drop [OF at] by (subst sgr_loop.simps) (simp add: sgr_runs_def)
qed

text \<open>What one parameter, or one group of them, does.\<close>

lemma sgr_at_hd: "sgr_at params colon i ((n, c) # xs) \<Longrightarrow> params ! i = n"
  by (auto simp: sgr_at_def dest: spec [of _ 0])

lemma sgr_runs_single:
  assumes step: "\<And>params colon i. params ! i = n \<Longrightarrow> sgr_step params colon i pen = (pen1, i)" and "sgr_runs xs pen1 pen'"
  shows "sgr_runs ((n, c) # xs) pen pen'"
proof -
  have "sgr_step params colon i pen = (pen1, i + length [(n, c)] - 1)" if "sgr_at params colon i ([(n, c)] @ xs)" for params colon i
    using step sgr_at_hd [of params colon i n c xs] that by simp
  from sgr_runs_step [OF this _ assms(2)] show ?thesis by simp
qed

lemma sgr_runs_reset: "sgr_runs xs default_pen pen' \<Longrightarrow> sgr_runs ((0, c) # xs) pen pen'"
  by (rule sgr_runs_single) (auto simp: sgr_step_def)

lemma sgr_runs_attr:
  "sgr_runs xs (with_attr Bold pen) pen' \<Longrightarrow> sgr_runs ((1, c) # xs) pen pen'"
  "sgr_runs xs (with_attr Dim pen) pen' \<Longrightarrow> sgr_runs ((2, c) # xs) pen pen'"
  "sgr_runs xs (with_attr Italic pen) pen' \<Longrightarrow> sgr_runs ((3, c) # xs) pen pen'"
  "sgr_runs xs (with_attr Blink pen) pen' \<Longrightarrow> sgr_runs ((5, c) # xs) pen pen'"
  "sgr_runs xs (with_attr Inverse pen) pen' \<Longrightarrow> sgr_runs ((7, c) # xs) pen pen'"
  "sgr_runs xs (with_attr Invisible pen) pen' \<Longrightarrow> sgr_runs ((8, c) # xs) pen pen'"
  "sgr_runs xs (with_attr StrikeThrough pen) pen' \<Longrightarrow> sgr_runs ((9, c) # xs) pen pen'"
  by (rule sgr_runs_single; simp add: sgr_step_def)+

lemma sgr_runs_colors:
  "k < 8 \<Longrightarrow> sgr_runs xs (set_fg Indexed (word_of_nat k, 0, 0) pen) pen' \<Longrightarrow> sgr_runs ((30 + k, c) # xs) pen pen'"
  "k < 8 \<Longrightarrow> sgr_runs xs (set_fg Indexed (word_of_nat (k + 8), 0, 0) pen) pen' \<Longrightarrow> sgr_runs ((90 + k, c) # xs) pen pen'"
  "k < 8 \<Longrightarrow> sgr_runs xs (set_bg Indexed (word_of_nat k, 0, 0) pen) pen' \<Longrightarrow> sgr_runs ((40 + k, c) # xs) pen pen'"
  "k < 8 \<Longrightarrow> sgr_runs xs (set_bg Indexed (word_of_nat (k + 8), 0, 0) pen) pen' \<Longrightarrow> sgr_runs ((100 + k, c) # xs) pen pen'"
  by (rule sgr_runs_single; simp add: sgr_step_def)+

text \<open>A list that does not begin in the middle of a group.\<close>

definition fresh_start :: "(nat \<times> bool) list \<Rightarrow> bool" where
  "fresh_start xs \<longleftrightarrow> xs = [] \<or> \<not> snd (hd xs)"

lemma fresh_start_simps [simp]: "fresh_start []" "fresh_start ((n, c) # xs) \<longleftrightarrow> \<not> c"
  by (simp_all add: fresh_start_def)

lemma sgr_at_two: "sgr_at params colon i (x # y # xs) \<Longrightarrow>
    params ! i = fst x \<and> params ! Suc i = fst y \<and> colon ! Suc i = snd y \<and> Suc i < length params"
  by (auto simp: sgr_at_def dest: spec [of _ 0] spec [of _ "Suc 0"])

lemma sgr_at_one: "sgr_at params colon i [x] \<Longrightarrow> params ! i = fst x \<and> length params = Suc i"
  by (auto simp: sgr_at_def)

lemma sgr_runs_underline:
  assumes "fresh_start xs" and "sgr_runs xs ((with_attr Underline pen)\<lparr>p_AttrEx := 1\<rparr>) pen'"
  shows "sgr_runs ((4, c) # xs) pen pen'"
proof -
  have "sgr_step params colon i pen = ((with_attr Underline pen)\<lparr>p_AttrEx := 1\<rparr>, i)"
    if "sgr_at params colon i ((4, c) # xs)" for params colon i
    using that assms(1) by (cases xs) (auto simp: sgr_step_def dest: sgr_at_two sgr_at_one)
  then show ?thesis
    using sgr_runs_step [where seg = "[(4, c)]", OF _ _ assms(2)] by simp
qed

lemma sgr_runs_underline_style:
  assumes "0 < k" "k \<le> 5" and "sgr_runs xs ((with_attr Underline pen)\<lparr>p_AttrEx := word_of_nat k\<rparr>) pen'"
  shows "sgr_runs ((4, c) # (k, True) # xs) pen pen'"
proof -
  have "sgr_step params colon i pen = ((with_attr Underline pen)\<lparr>p_AttrEx := word_of_nat k\<rparr>, Suc i)"
    if "sgr_at params colon i ((4, c) # (k, True) # xs)" for params colon i
    using sgr_at_two [OF that] assms(1,2) by (auto simp: sgr_step_def)
  then show ?thesis
    using sgr_runs_step [where seg = "[(4, c), (k, True)]", OF _ _ assms(3)] by simp
qed

lemma sgr_at_nth: "sgr_at params colon i ys \<Longrightarrow> k < length ys \<Longrightarrow>
    params ! (i + k) = fst (ys ! k) \<and> colon ! (i + k) = snd (ys ! k) \<and> i + k < length params"
  by (simp add: sgr_at_def)

lemma sgr_at_indexed:
  assumes "sgr_at params colon i ((n, c) # (5, False) # (k, False) # xs)"
  shows "params ! i = n" "sgr_color params colon i = (Some (Indexed, (word_of_nat k, 0, 0)), i + 2)"
    "sgr_underline_color params colon i = (Some (word_of_nat k), i + 2)"
  using sgr_at_nth [OF assms, of 0] sgr_at_nth [OF assms, of 1] sgr_at_nth [OF assms, of 2]
  by (simp_all add: sgr_color_def sgr_underline_color_def Let_def)

lemma sgr_at_rgb:
  assumes "sgr_at params colon i ((n, c) # (2, False) # (r, False) # (g, False) # (b, False) # xs)"
  shows "params ! i = n"
    "sgr_color params colon i = (Some (TrueColor, (word_of_nat r, word_of_nat g, word_of_nat b)), i + 4)"
  using sgr_at_nth [OF assms, of 0] sgr_at_nth [OF assms, of 1] sgr_at_nth [OF assms, of 2]
    sgr_at_nth [OF assms, of 3] sgr_at_nth [OF assms, of 4]
  by (simp_all add: sgr_color_def Let_def)

lemma sgr_runs_indexed:
  "sgr_runs xs (set_fg Indexed (word_of_nat k, 0, 0) pen) pen' \<Longrightarrow>
    sgr_runs ((38, c) # (5, False) # (k, False) # xs) pen pen'"
  "sgr_runs xs (set_bg Indexed (word_of_nat k, 0, 0) pen) pen' \<Longrightarrow>
    sgr_runs ((48, c) # (5, False) # (k, False) # xs) pen pen'"
  "sgr_runs xs (pen\<lparr>p_UlIdx := word_of_nat k\<rparr>) pen' \<Longrightarrow>
    sgr_runs ((58, c) # (5, False) # (k, False) # xs) pen pen'"
  by (rule sgr_runs_step [where seg = "[(_, c), (5, False), (k, False)]", simplified],
      simp add: sgr_step_def sgr_at_indexed, assumption)+

lemma sgr_runs_rgb:
  "sgr_runs xs (set_fg TrueColor (word_of_nat r, word_of_nat g, word_of_nat b) pen) pen' \<Longrightarrow>
    sgr_runs ((38, c) # (2, False) # (r, False) # (g, False) # (b, False) # xs) pen pen'"
  "sgr_runs xs (set_bg TrueColor (word_of_nat r, word_of_nat g, word_of_nat b) pen) pen' \<Longrightarrow>
    sgr_runs ((48, c) # (2, False) # (r, False) # (g, False) # (b, False) # xs) pen pen'"
  by (rule sgr_runs_step [where seg = "[(_, c), (2, False), (r, False), (g, False), (b, False)]", simplified],
      simp add: sgr_step_def sgr_at_rgb, assumption)+

subsection \<open>The rendition of a cell\<close>

lemma small_decimals: "WriteDecimal 0 = [0x30]" "WriteDecimal (Suc 0) = [0x31]" "WriteDecimal 2 = [0x32]" "WriteDecimal 3 = [0x33]"
  "WriteDecimal 4 = [0x34]" "WriteDecimal 5 = [0x35]" "WriteDecimal 7 = [0x37]" "WriteDecimal 8 = [0x38]"
  "WriteDecimal 9 = [0x39]" "WriteDecimal 38 = [0x33, 0x38]" "WriteDecimal 48 = [0x34, 0x38]" "WriteDecimal 58 = [0x35, 0x38]"
  by (simp_all add: WriteDecimal_def decimal_digits.simps)

definition attr_param :: "EAttr \<Rightarrow> nat \<Rightarrow> Pen \<Rightarrow> (nat \<times> bool) list" where
  "attr_param a k c = (if has_attr a c then [(k, False)] else [])"

definition underline_params :: "Pen \<Rightarrow> (nat \<times> bool) list" where
  "underline_params c = (if has_attr Underline c then (4, False) # (if p_AttrEx c > 1 then [(unat (p_AttrEx c), True)] else []) else [])"

definition color_params :: "nat \<Rightarrow> nat \<Rightarrow> nat \<Rightarrow> EColorKind \<Rightarrow> color \<Rightarrow> (nat \<times> bool) list" where
  "color_params dark bright extended k c =
    (case k of Default \<Rightarrow> []
     | Indexed \<Rightarrow> (let idx = unat (fst c) in
         if idx < 8 then [(dark + idx, False)] else if idx < 16 then [(bright + (idx - 8), False)]
         else [(extended, False), (5, False), (idx, False)])
     | TrueColor \<Rightarrow> (case c of (r, g, b) \<Rightarrow>
         [(extended, False), (2, False), (unat r, False), (unat g, False), (unat b, False)]))"

definition sgr_params :: "Pen \<Rightarrow> (nat \<times> bool) list" where
  "sgr_params c = attr_param Bold 1 c @ attr_param Dim 2 c @ attr_param Italic 3 c @ underline_params c @
     attr_param Blink 5 c @ attr_param Inverse 7 c @ attr_param Invisible 8 c @ attr_param StrikeThrough 9 c @
     color_params 30 90 38 (p_FgKind c) (p_Fg c)"

lemma attr_bytes_params:
  "attr_bytes Bold '';1'' c = tail_bytes (attr_param Bold 1 c)"
  "attr_bytes Dim '';2'' c = tail_bytes (attr_param Dim 2 c)"
  "attr_bytes Italic '';3'' c = tail_bytes (attr_param Italic 3 c)"
  "attr_bytes Blink '';5'' c = tail_bytes (attr_param Blink 5 c)"
  "attr_bytes Inverse '';7'' c = tail_bytes (attr_param Inverse 7 c)"
  "attr_bytes Invisible '';8'' c = tail_bytes (attr_param Invisible 8 c)"
  "attr_bytes StrikeThrough '';9'' c = tail_bytes (attr_param StrikeThrough 9 c)"
  by (simp_all add: attr_bytes_def attr_param_def small_decimals WriteLiteral_def)

lemma underline_bytes_params: "underline_bytes c = tail_bytes (underline_params c)"
  by (simp add: underline_bytes_def underline_params_def small_decimals WriteLiteral_def)

lemma fg_bytes_params: "fg_bytes c = tail_bytes (color_params 30 90 38 (p_FgKind c) (p_Fg c))"
  by (cases "p_FgKind c"; cases "p_Fg c")
     (simp_all add: fg_bytes_def color_params_def rgb_bytes_def small_decimals WriteLiteral_def Let_def)

lemma sgr_sequence1_params: "sgr_sequence1 c = ESC # 0x5B # param_bytes 0 (sgr_params c) @ [0x6D]"
  by (simp add: sgr_sequence1_def sgr_params_def esc_csi_def param_bytes_def attr_bytes_params underline_bytes_params
      fg_bytes_params small_decimals) (simp add: WriteLiteral_def)

text \<open>The flags of an attribute byte, one by one, make up the byte.\<close>

definition give :: "EAttr \<Rightarrow> Pen \<Rightarrow> Pen \<Rightarrow> Pen" where
  "give a c pen = (if has_attr a c then with_attr a pen else pen)"

lemma flag_and: "w AND attr_flag a \<noteq> 0 \<Longrightarrow> w AND attr_flag a = attr_flag a"
proof -
  have single: "w AND push_bit k 1 = (if bit w k then push_bit k 1 else 0)" if "k < 8" for k
    using that by (intro bit_word_eqI) (auto simp: bit_and_iff push_bit_of_1 bit_exp_iff)
  have "\<exists>k<8. attr_flag a = push_bit k 1"
    by (cases a) (auto intro: exI [of _ 0] exI [of _ 1] exI [of _ 2] exI [of _ 3] exI [of _ 4] exI [of _ 5] exI [of _ 6] exI [of _ 7])
  then show "w AND attr_flag a \<noteq> 0 \<Longrightarrow> w AND attr_flag a = attr_flag a"
    using single by (auto split: if_splits)
qed

lemma give_alt: "give a c pen = pen\<lparr>p_Attrs := p_Attrs pen OR (p_Attrs c AND attr_flag a)\<rparr>"
  by (auto simp: give_def has_attr_def with_attr_def dest: flag_and)

lemma all_flags: "(w AND 1) OR (w AND 2) OR (w AND 4) OR (w AND 8) OR (w AND 16) OR (w AND 32) OR (w AND 64) OR (w AND 128) = w"
  for w :: byte
proof -
  have "(w AND 1) OR (w AND 2) OR (w AND 4) OR (w AND 8) OR (w AND 16) OR (w AND 32) OR (w AND 64) OR (w AND 128) =
      w AND (1 OR 2 OR 4 OR 8 OR 16 OR 32 OR 64 OR 128)"
    by (simp only: bit.conj_disj_distrib)
  also have "(1 OR 2 OR 4 OR 8 OR 16 OR 32 OR 64 OR 128 :: byte) = - 1" by simp
  finally show ?thesis by simp
qed

lemma sgr_runs_give:
  "sgr_runs xs (give Bold c pen) pen' \<Longrightarrow> sgr_runs (attr_param Bold 1 c @ xs) pen pen'"
  "sgr_runs xs (give Dim c pen) pen' \<Longrightarrow> sgr_runs (attr_param Dim 2 c @ xs) pen pen'"
  "sgr_runs xs (give Italic c pen) pen' \<Longrightarrow> sgr_runs (attr_param Italic 3 c @ xs) pen pen'"
  "sgr_runs xs (give Blink c pen) pen' \<Longrightarrow> sgr_runs (attr_param Blink 5 c @ xs) pen pen'"
  "sgr_runs xs (give Inverse c pen) pen' \<Longrightarrow> sgr_runs (attr_param Inverse 7 c @ xs) pen pen'"
  "sgr_runs xs (give Invisible c pen) pen' \<Longrightarrow> sgr_runs (attr_param Invisible 8 c @ xs) pen pen'"
  "sgr_runs xs (give StrikeThrough c pen) pen' \<Longrightarrow> sgr_runs (attr_param StrikeThrough 9 c @ xs) pen pen'"
  by (auto simp: attr_param_def give_def intro: sgr_runs_attr [simplified])

lemma sgr_runs_underline_params:
  assumes "pen_ok c" and "fresh_start xs" and "p_AttrEx pen = 0"
    and "sgr_runs xs ((give Underline c pen)\<lparr>p_AttrEx := p_AttrEx c\<rparr>) pen'"
  shows "sgr_runs (underline_params c @ xs) pen pen'"
proof (cases "has_attr Underline c")
  case True
  then have ne: "p_AttrEx c \<noteq> 0" and le: "unat (p_AttrEx c) \<le> 5"
    using assms(1) by (auto simp: pen_ok_def has_attr_def word_le_nat_alt)
  show ?thesis
  proof (cases "p_AttrEx c > 1")
    case True
    then have "0 < unat (p_AttrEx c)" using ne by (simp add: unat_gt_0)
    with True le \<open>has_attr Underline c\<close> assms(4) show ?thesis
      by (auto simp: underline_params_def give_def intro!: sgr_runs_underline_style)
  next
    case False
    then have "p_AttrEx c = 1"
      using ne by (metis not_less_iff_gr_or_eq word_less_1 word_coorder.extremum)
    with False \<open>has_attr Underline c\<close> assms(2,4) show ?thesis
      by (auto simp: underline_params_def give_def intro!: sgr_runs_underline)
  qed
next
  case False
  then have "p_AttrEx c = 0"
    using assms(1) by (auto simp: pen_ok_def has_attr_def)
  moreover have "pen\<lparr>p_AttrEx := 0\<rparr> = pen" using assms(3) by (cases pen) simp
  ultimately show ?thesis
    using False assms(4) by (simp add: underline_params_def give_def)
qed

lemma sgr_runs_fg:
  assumes "color_ok k c" and "sgr_runs xs (if k = Default then pen else set_fg k c pen) pen'"
  shows "sgr_runs (color_params 30 90 38 k c @ xs) pen pen'"
proof (cases k)
  case Indexed
  obtain i where c: "c = (i, 0, 0)" using assms(1) Indexed by (cases c) auto
  have "word_of_nat (unat i - 8 + 8) = i" if "\<not> unat i < 8" using that by simp
  then show ?thesis
    using assms(2) Indexed sgr_runs_colors(2) [of "unat i - 8" xs pen pen' False]
    by (auto simp: c color_params_def Let_def intro!: sgr_runs_colors(1) sgr_runs_indexed(1))
next
  case TrueColor
  then show ?thesis
    using assms(2) by (cases c) (auto simp: color_params_def intro!: sgr_runs_rgb(1))
qed (use assms in \<open>simp add: color_params_def\<close>)

lemma sgr_runs_bg:
  assumes "color_ok k c" and "sgr_runs xs (if k = Default then pen else set_bg k c pen) pen'"
  shows "sgr_runs (color_params 40 100 48 k c @ xs) pen pen'"
proof (cases k)
  case Indexed
  obtain i where c: "c = (i, 0, 0)" using assms(1) Indexed by (cases c) auto
  have "word_of_nat (unat i - 8 + 8) = i" if "\<not> unat i < 8" using that by simp
  then show ?thesis
    using assms(2) Indexed sgr_runs_colors(4) [of "unat i - 8" xs pen pen' False]
    by (auto simp: c color_params_def Let_def intro!: sgr_runs_colors(3) sgr_runs_indexed(2))
next
  case TrueColor
  then show ?thesis
    using assms(2) by (cases c) (auto simp: color_params_def intro!: sgr_runs_rgb(2))
qed (use assms in \<open>simp add: color_params_def\<close>)

lemma fresh_params:
  "fresh_start (color_params d b e k c)" "fresh_start xs \<Longrightarrow> fresh_start (attr_param a n c' @ xs)"
  by (auto simp: color_params_def attr_param_def Let_def split: EColorKind.splits prod.splits)

lemma sgr_runs_params:
  assumes "pen_ok c"
  shows "sgr_runs ((0, False) # sgr_params c) pen
    (default_pen\<lparr>p_Attrs := p_Attrs c, p_FgKind := p_FgKind c, p_Fg := p_Fg c, p_AttrEx := p_AttrEx c\<rparr>)"
proof -
  have fg: "color_ok (p_FgKind c) (p_Fg c)" using assms by (simp add: pen_ok_def)
  show ?thesis
    unfolding sgr_params_def
    apply (rule sgr_runs_reset sgr_runs_give)+
    apply (rule sgr_runs_underline_params [OF assms])
      apply (intro fresh_params)
     apply (simp add: give_alt default_pen_def)
    apply (rule sgr_runs_give)+
    apply (subst append_Nil2 [symmetric])
    apply (rule sgr_runs_fg [OF fg])
    using fg all_flags [of "p_Attrs c"]
    by (cases "p_FgKind c") (simp_all add: give_alt default_pen_def set_fg_def or.assoc or.left_commute sgr_runs_Nil)
qed

lemma sgr_params_ok:
  assumes "pen_ok c"
  shows "\<forall>p\<in>set (sgr_params c). fst p \<le> 0xFFFF" "length (sgr_params c) < 16"
proof -
  have byte: "unat b \<le> 65535" for b :: byte using unat_lt_u8 [of b] by simp
  show "\<forall>p\<in>set (sgr_params c). fst p \<le> 0xFFFF"
    using byte by (auto simp: sgr_params_def attr_param_def underline_params_def color_params_def Let_def
        split: EColorKind.splits prod.splits if_splits)
  have attr: "length (attr_param a k c) \<le> 1" for a k by (simp add: attr_param_def)
  have "length (underline_params c) \<le> 2" by (simp add: underline_params_def)
  moreover have "length (color_params 30 90 38 (p_FgKind c) (p_Fg c)) \<le> 5"
    by (simp add: color_params_def Let_def split: EColorKind.splits prod.splits)
  ultimately show "length (sgr_params c) < 16"
    using attr [of Bold 1] attr [of Dim 2] attr [of Italic 3] attr [of Blink 5] attr [of Inverse 7]
      attr [of Invisible 8] attr [of StrikeThrough 9] by (simp add: sgr_params_def)
qed

lemma feeds_sgr:
  assumes "\<forall>p\<in>set ps. fst p \<le> 0xFFFF" and "length ps < 16" and "n \<le> 0xFFFF" and "sgr_runs ((n, False) # ps) (gr_Pen g) pen'"
  shows "feeds (ESC # 0x5B # param_bytes n ps @ [0x6D]) g (g\<lparr>gr_Pen := pen'\<rparr>)"
proof -
  have "sgr_at (n # map fst ps) (False # map snd ps) 0 ((n, False) # ps)"
    by (auto simp: sgr_at_def nth_Cons split: nat.splits)
  then have "sgr_loop (n # map fst ps) (False # map snd ps) 0 (gr_Pen g) = pen'"
    using assms(4) by (simp add: sgr_runs_def)
  then show ?thesis
    using feeds_csi_params [of n ps "0x6D" "[]" 0 g "g\<lparr>gr_Pen := pen'\<rparr>"] assms(1-3)
    by (simp add: csi_public_def Let_def ApplySgr_def)
qed

definition sgr_params2 :: "Pen \<Rightarrow> (nat \<times> bool) list" where
  "sgr_params2 c = color_params 40 100 48 (p_BgKind c) (p_Bg c) @
     (if p_UlIdx c \<noteq> 0 then [(58, False), (5, False), (unat (p_UlIdx c), False)] else [])"

lemma bg_bytes_params: "p_BgKind c \<noteq> Default \<Longrightarrow> 0x3B # bg_bytes c = tail_bytes (color_params 40 100 48 (p_BgKind c) (p_Bg c))"
  by (cases "p_BgKind c"; cases "p_Bg c")
     (simp_all add: bg_bytes_def color_params_def rgb_bytes_def small_decimals WriteLiteral_def Let_def)

lemma tail_of_params: "ps \<noteq> [] \<Longrightarrow> fresh_start ps \<Longrightarrow> tail_bytes ps = 0x3B # param_bytes (fst (hd ps)) (tl ps)"
  by (cases ps) (auto simp: param_bytes_def fresh_start_def tail_bytes_def)

lemma fresh_params2: "fresh_start (sgr_params2 c)"
  using fresh_params(1) [of 40 100 48 "p_BgKind c" "p_Bg c"]
  by (cases "color_params 40 100 48 (p_BgKind c) (p_Bg c)") (auto simp: sgr_params2_def fresh_start_def)

lemma sgr_sequence2_params:
  "sgr_sequence2 c = (if sgr_params2 c = [] then []
     else ESC # 0x5B # param_bytes (fst (hd (sgr_params2 c))) (tl (sgr_params2 c)) @ [0x6D])"
proof -
  have nil: "sgr_params2 c = [] \<longleftrightarrow> p_BgKind c = Default \<and> p_UlIdx c = 0"
    by (auto simp: sgr_params2_def color_params_def Let_def split: EColorKind.splits prod.splits)
  let ?ul = "WriteLiteral ''58;5;'' @ WriteDecimal (unat (p_UlIdx c))"
  have ul: "0x3B # ?ul = tail_bytes [(58, False), (5, False), (unat (p_UlIdx c), False)]"
    by (simp add: small_decimals WriteLiteral_def)
  have body: "0x3B # bg_bytes c @ (if p_UlIdx c \<noteq> 0 then (if p_BgKind c \<noteq> Default then [0x3B] else []) @ ?ul else [])
      = tail_bytes (sgr_params2 c)" (is "?lhs = _") if "sgr_params2 c \<noteq> []"
  proof (cases "p_BgKind c = Default")
    case True
    then show ?thesis using that ul nil by (simp add: sgr_params2_def bg_bytes_def color_params_def)
  next
    case False
    then have "?lhs = (0x3B # bg_bytes c) @ (if p_UlIdx c \<noteq> 0 then 0x3B # ?ul else [])"
      by simp
    also have "\<dots> = tail_bytes (sgr_params2 c)"
      unfolding ul bg_bytes_params [OF False] by (simp add: sgr_params2_def)
    finally show ?thesis .
  qed
  then show ?thesis
    using tail_of_params [OF _ fresh_params2, of c] nil
    by (auto simp: sgr_sequence2_def esc_csi_def) (auto simp: WriteLiteral_def)
qed

lemma sgr_params2_ok: "\<forall>p\<in>set (sgr_params2 c). fst p \<le> 0xFFFF" "length (sgr_params2 c) \<le> 8"
proof -
  have byte: "unat b \<le> 65535" for b :: byte using unat_lt_u8 [of b] by simp
  show "\<forall>p\<in>set (sgr_params2 c). fst p \<le> 0xFFFF"
    using byte by (auto simp: sgr_params2_def color_params_def Let_def split: EColorKind.splits prod.splits if_splits)
  show "length (sgr_params2 c) \<le> 8"
    by (simp add: sgr_params2_def color_params_def Let_def split: EColorKind.splits prod.splits)
qed

lemma sgr_runs_params2:
  assumes "color_ok (p_BgKind c) (p_Bg c)" and "p_BgKind pen = Default" and "p_Bg pen = (0, 0, 0)" and "p_UlIdx pen = 0"
  shows "sgr_runs (sgr_params2 c) pen (pen\<lparr>p_BgKind := p_BgKind c, p_Bg := p_Bg c, p_UlIdx := p_UlIdx c\<rparr>)"
  unfolding sgr_params2_def
proof (rule sgr_runs_bg [OF assms(1)])
  have "(if p_BgKind c = Default then pen else set_bg (p_BgKind c) (p_Bg c) pen) = pen\<lparr>p_BgKind := p_BgKind c, p_Bg := p_Bg c\<rparr>"
    using assms by (cases pen; cases "p_BgKind c") (simp_all add: set_bg_def)
  moreover have "pen\<lparr>p_BgKind := k, p_Bg := b, p_UlIdx := 0\<rparr> = pen\<lparr>p_BgKind := k, p_Bg := b\<rparr>" for k b
    using assms(4) by (cases pen) simp
  ultimately show "sgr_runs (if p_UlIdx c \<noteq> 0 then [(58, False), (5, False), (unat (p_UlIdx c), False)] else [])
      (if p_BgKind c = Default then pen else set_bg (p_BgKind c) (p_Bg c) pen)
      (pen\<lparr>p_BgKind := p_BgKind c, p_Bg := p_Bg c, p_UlIdx := p_UlIdx c\<rparr>)"
    by (simp add: sgr_runs_Nil sgr_runs_indexed(3))
qed

lemma feeds_sequence2:
  assumes "pen_ok c" and pen: "gr_Pen g = default_pen\<lparr>p_Attrs := p_Attrs c, p_FgKind := p_FgKind c, p_Fg := p_Fg c, p_AttrEx := p_AttrEx c\<rparr>"
  shows "feeds (sgr_sequence2 c) g (g\<lparr>gr_Pen := c\<rparr>)"
proof -
  have whole: "(gr_Pen g)\<lparr>p_BgKind := p_BgKind c, p_Bg := p_Bg c, p_UlIdx := p_UlIdx c\<rparr> = c"
    by (cases c) (simp add: pen default_pen_def)
  have "p_BgKind (gr_Pen g) = Default" "p_Bg (gr_Pen g) = (0, 0, 0)" "p_UlIdx (gr_Pen g) = 0"
    by (simp_all add: pen default_pen_def)
  then have run: "sgr_runs (sgr_params2 c) (gr_Pen g) c"
    using sgr_runs_params2 [of c "gr_Pen g", unfolded whole] assms(1) by (simp add: pen_ok_def)
  show ?thesis
  proof (cases "sgr_params2 c")
    case Nil
    then have "p_BgKind c = Default \<and> p_UlIdx c = 0"
      by (auto simp: sgr_params2_def color_params_def Let_def split: EColorKind.splits prod.splits if_splits)
    then have "gr_Pen g = c"
      using assms(1) by (cases c) (simp add: pen default_pen_def pen_ok_def)
    then have "g\<lparr>gr_Pen := c\<rparr> = g" by (cases g) simp
    then show ?thesis by (simp add: sgr_sequence2_params Nil)
  next
    case (Cons p ps)
    then have "p = (fst p, False)" using fresh_params2 [of c] by (cases p) simp
    then show ?thesis
      using feeds_sgr [of ps "fst p" g c] sgr_params2_ok [of c] run by (simp add: sgr_sequence2_params Cons)
  qed
qed

text \<open>The rendition round trip: after the bytes \<open>EmitSgr\<close> writes for a cell the pen is the rendition of that cell.\<close>

lemma feeds_EmitSgr:
  assumes "pen_ok c"
  shows "feeds (fst (EmitSgr (gr_Pen g) c)) g (g\<lparr>gr_Pen := c\<rparr>)" "snd (EmitSgr pen c) = c"
proof -
  show "snd (EmitSgr pen c) = c" by (simp add: EmitSgr_def MatchesCell_def)
  let ?g = "g\<lparr>gr_Pen := default_pen\<lparr>p_Attrs := p_Attrs c, p_FgKind := p_FgKind c, p_Fg := p_Fg c, p_AttrEx := p_AttrEx c\<rparr>\<rparr>"
  have "feeds (sgr_sequence1 c) g ?g"
    unfolding sgr_sequence1_params
    by (intro feeds_sgr sgr_params_ok [OF assms] sgr_runs_params [OF assms]) simp
  moreover have "feeds (sgr_sequence2 c) ?g (g\<lparr>gr_Pen := c\<rparr>)"
    using feeds_sequence2 [OF assms, of ?g] by simp
  ultimately have "feeds (sgr_sequence1 c @ sgr_sequence2 c) g (g\<lparr>gr_Pen := c\<rparr>)"
    by (rule feeds_append)
  moreover have "gr_Pen g = c \<Longrightarrow> g\<lparr>gr_Pen := c\<rparr> = g" by (cases g) simp
  ultimately show "feeds (fst (EmitSgr (gr_Pen g) c)) g (g\<lparr>gr_Pen := c\<rparr>)"
    by (auto simp: EmitSgr_def MatchesCell_def)
qed

end
