(* ===== verification/Grid_Paint.thy ===== *)
theory Grid_Paint
  imports Grid_Sequences
begin

text \<open>
  Painting: what a terminal shows after the bytes the serializer writes for a row, and for a whole screen,
  is what the grid showed.
\<close>

unbundle bit_operations_syntax

subsection \<open>What a cell looks like\<close>

text \<open>The cell the encoding of a cell stands for: its character as written, its rendition in the colour mode.\<close>

definition look :: "EColorMode \<Rightarrow> Cell \<Rightarrow> Cell" where
  "look cm c = (if c_Width c = 0 then c else c\<lparr>c_Codepoint := cell_char c, c_Pen := NormalizePen cm (c_Pen c)\<rparr>)"

lemma look_width [simp]: "c_Width (look cm c) = c_Width c"
  by (simp add: look_def)

lemma NormalizePen_ok: "pen_ok c \<Longrightarrow> pen_ok (NormalizePen cm c)"
  by (cases cm) (auto simp: NormalizePen_def pen_ok_def Let_def)

lemma NormalizePen_default [simp]: "NormalizePen cm default_pen = default_pen"
  by (cases cm) (simp_all add: NormalizePen_def default_pen_def Let_def)

lemma NormalizePen_Full [simp]: "NormalizePen Full c = c"
  by (simp add: NormalizePen_def)

lemma SanitizeCp_printable: "printable cp \<Longrightarrow> SanitizeCp cp = cp"
  by (auto simp: SanitizeCp_def printable_def)

lemma Wcwidth_marks [simp]: "Wcwidth 0x20 = 1" "Wcwidth 0x3F = 1" "Wcwidth 0xFFFD = 1"
  using Wcwidth_ascii [of "0x20"] Wcwidth_ascii [of "0x3F"] replacement_narrow by simp_all

lemma cell_char_spec:
  assumes "cell_ok c" and "c_Width c \<noteq> 0"
  shows "printable (cell_char c)" "Wcwidth (cell_char c) = int (c_Width c)"
  using assms by (auto simp: cell_ok_def cell_char_def Let_def SanitizeCp_printable SanitizeCp_def [of 0] continuation_def printable_def)

lemma look_ok: "cell_ok c \<Longrightarrow> cell_ok (look cm c)"
  using cell_char_spec [of c] NormalizePen_ok [of "c_Pen c" cm]
  by (auto simp: look_def cell_ok_def continuation_def)

lemma look_look:
  assumes "cell_ok c"
  shows "look Full (look cm c) = look cm c"
proof (cases "c_Width c = 0")
  case False
  then have "cell_char (look cm c) = cell_char c"
    using cell_char_spec [OF assms] by (auto simp: look_def cell_char_def [of "c\<lparr>c_Codepoint := _, c_Pen := _\<rparr>"] Let_def SanitizeCp_printable)
  with False show ?thesis by (simp add: look_def)
qed (simp add: look_def)

lemma look_blank:
  assumes "cell_ok c" and "IsBlankCell c" and "c_Width c \<noteq> 0"
  shows "look cm c = look Full default_cell"
proof -
  have pen: "c_Pen c = default_pen"
    using assms by (cases "c_Pen c") (auto simp: IsBlankCell_def cell_ok_def pen_ok_def default_pen_def)
  have "c_Width c = 1"
    using assms by (auto simp: IsBlankCell_def cell_ok_def printable_def)
  moreover have "cell_char c = 0x20"
    using assms(2) by (auto simp: IsBlankCell_def cell_char_def Let_def SanitizeCp_def)
  ultimately show ?thesis
    using pen by (cases c) (simp add: look_def default_cell_def cell_char_def [of "\<lparr> c_Codepoint = 0, c_Width = _, c_Pen = _ \<rparr>"] SanitizeCp_def)
qed

subsection \<open>Everything but the picture\<close>

text \<open>The two screens, the cursor, the pen and the last character are the picture; \<open>backdrop\<close> is the rest.\<close>

definition active_screen :: "Grid \<Rightarrow> row list" where
  "active_screen g = (if IsAltScreen g then gr_Alt g else gr_Main g)"

definition other_screen :: "Grid \<Rightarrow> row list" where
  "other_screen g = (if IsAltScreen g then gr_Main g else gr_Alt g)"

definition backdrop :: "Grid \<Rightarrow> Grid" where
  "backdrop g = g\<lparr>gr_Main := [], gr_Alt := [], gr_CursorRow := 0, gr_CursorCol := 0, gr_PendingWrap := False,
     gr_Pen := default_pen, gr_LastChar := 0, gr_LastWidth := 0\<rparr>"

lemma backdrop_update [simp]:
  "backdrop (g\<lparr>gr_Main := m\<rparr>) = backdrop g" "backdrop (g\<lparr>gr_Alt := m\<rparr>) = backdrop g"
  "backdrop (g\<lparr>gr_CursorRow := n\<rparr>) = backdrop g" "backdrop (g\<lparr>gr_CursorCol := n\<rparr>) = backdrop g"
  "backdrop (g\<lparr>gr_PendingWrap := b\<rparr>) = backdrop g" "backdrop (g\<lparr>gr_Pen := pen\<rparr>) = backdrop g"
  "backdrop (g\<lparr>gr_LastChar := n\<rparr>) = backdrop g" "backdrop (g\<lparr>gr_LastWidth := n\<rparr>) = backdrop g"
  "backdrop (upd_line r f g) = backdrop g"
  by (simp_all add: backdrop_def upd_line_def)

lemma backdropD:
  assumes "backdrop g = backdrop g'"
  shows "gr_Cols g = gr_Cols g'" "gr_Rows g = gr_Rows g'" "gr_Modes g = gr_Modes g'" "gr_ScrollTop g = gr_ScrollTop g'"
    "gr_ScrollBot g = gr_ScrollBot g'" "gr_CharsetG0 g = gr_CharsetG0 g'" "gr_CharsetG1 g = gr_CharsetG1 g'"
    "gr_CharsetActive g = gr_CharsetActive g'" "gr_History g = gr_History g'" "gr_HistoryStart g = gr_HistoryStart g'"
    "gr_HistorySize g = gr_HistorySize g'" "gr_ScrollbackLimit g = gr_ScrollbackLimit g'" "gr_SavedMain g = gr_SavedMain g'"
    "gr_SavedAlt g = gr_SavedAlt g'" "gr_TabStops g = gr_TabStops g'" "gr_CursorStyle g = gr_CursorStyle g'"
    "gr_PossiblyDiverged g = gr_PossiblyDiverged g'"
  using assms by (cases g; cases g'; simp add: backdrop_def)+

lemma backdrop_modes: "backdrop g = backdrop g' \<Longrightarrow> ModeSet m g = ModeSet m g' \<and> IsAltScreen g = IsAltScreen g'"
  using backdropD(3) [of g g'] by (simp add: ModeSet_def IsAltScreen_def)

lemma active_update [simp]:
  "active_screen (g\<lparr>gr_CursorRow := n\<rparr>) = active_screen g" "active_screen (g\<lparr>gr_CursorCol := n\<rparr>) = active_screen g"
  "active_screen (g\<lparr>gr_PendingWrap := b\<rparr>) = active_screen g" "active_screen (g\<lparr>gr_Pen := pen\<rparr>) = active_screen g"
  "active_screen (g\<lparr>gr_LastChar := n\<rparr>) = active_screen g" "active_screen (g\<lparr>gr_LastWidth := n\<rparr>) = active_screen g"
  "active_screen (upd_line r f g) = (active_screen g)[r := f (active_screen g ! r)]"
  by (simp_all add: active_screen_def upd_line_def)

lemma other_update [simp]:
  "other_screen (g\<lparr>gr_CursorRow := n\<rparr>) = other_screen g" "other_screen (g\<lparr>gr_CursorCol := n\<rparr>) = other_screen g"
  "other_screen (g\<lparr>gr_PendingWrap := b\<rparr>) = other_screen g" "other_screen (g\<lparr>gr_Pen := pen\<rparr>) = other_screen g"
  "other_screen (g\<lparr>gr_LastChar := n\<rparr>) = other_screen g" "other_screen (g\<lparr>gr_LastWidth := n\<rparr>) = other_screen g"
  "other_screen (upd_line r f g) = other_screen g"
  by (simp_all add: other_screen_def upd_line_def)

lemma upd_line_fields [simp]:
  "gr_Cols (upd_line r f g) = gr_Cols g" "gr_CursorRow (upd_line r f g) = gr_CursorRow g"
  "gr_CursorCol (upd_line r f g) = gr_CursorCol g" "gr_PendingWrap (upd_line r f g) = gr_PendingWrap g"
  "gr_Pen (upd_line r f g) = gr_Pen g"
  by (simp_all add: upd_line_def)

subsection \<open>One row\<close>

text \<open>A terminal that prints characters as they are.\<close>

definition plain :: "Grid \<Rightarrow> bool" where
  "plain g \<longleftrightarrow> \<not> ModeSet Irm g \<and> (if gr_CharsetActive g = 0 then gr_CharsetG0 g else gr_CharsetG1 g) = 0 \<and>
     0 < gr_Cols g \<and> gr_Cols g \<le> MAX_COLS"

lemma plain_backdrop: "backdrop g = backdrop g' \<Longrightarrow> plain g = plain g'"
  using backdropD(1,6,7,8) [of g g'] backdrop_modes [of g g' Irm] by (simp add: plain_def)

text \<open>The cursor after \<open>col\<close> columns have been printed: behind them, or waiting to wrap.\<close>

definition cursor_after :: "nat \<Rightarrow> Grid \<Rightarrow> bool" where
  "cursor_after col g \<longleftrightarrow> (if col < gr_Cols g then gr_CursorCol g = col \<and> \<not> gr_PendingWrap g
     else gr_CursorCol g = gr_Cols g - 1 \<and> gr_PendingWrap g)"

lemma put_plain:
  assumes "plain g" and "cursor_after col g" and "w = 1 \<or> w = 2" and "col + w \<le> gr_Cols g"
  shows "PutChar cp w g = put_cell cp w g"
proof -
  have "gr_CursorCol g = col" "\<not> gr_PendingWrap g" using assms(2-4) by (auto simp: cursor_after_def)
  moreover from this have same: "g\<lparr>gr_PendingWrap := False\<rparr> = g" by (cases g) simp
  ultimately show ?thesis
    using assms by (auto simp: PutChar_def plain_def translate_charset_def Let_def same)
qed

lemma put_cell_row:
  assumes "plain g" and "cursor_after col g" and w: "w = 1 \<or> w = 2" and fit: "col + w \<le> gr_Cols g"
    and r: "gr_CursorRow g = r" "r < length (active_screen g)"
    and row: "active_screen g ! r = l @ replicate (gr_Cols g - col) default_cell" and len: "length l = col"
    and ok: "row_ok (gr_Cols g) (active_screen g ! r)" and pen: "pen_ok (gr_Pen g)"
    and whole: "l \<noteq> [] \<Longrightarrow> c_Width (last l) \<noteq> 2"
  shows "active_screen (put_cell cp w g) = (active_screen g)[r :=
      (l @ \<lparr> c_Codepoint = cp, c_Width = w, c_Pen = gr_Pen g \<rparr> # replicate (w - 1) continuation) @
      replicate (gr_Cols g - (col + w)) default_cell]"
    and "backdrop (put_cell cp w g) = backdrop g" and "other_screen (put_cell cp w g) = other_screen g"
    and "cursor_after (col + w) (put_cell cp w g)" and "gr_CursorRow (put_cell cp w g) = r"
    and "gr_Pen (put_cell cp w g) = gr_Pen g"
proof -
  have col: "gr_CursorCol g = col" "\<not> gr_PendingWrap g" "col < gr_Cols g"
    using assms(2) w fit by (auto simp: cursor_after_def)
  have small: "gr_Cols g < 65536" "0 < gr_Cols g" using assms(1) by (auto simp: plain_def MAX_COLS_def)
  have cuts: "cut_left x l = l" "cut_right x (replicate n default_cell) = replicate n default_cell" for x n
    using whole by (auto simp: cut_left_def cut_right_def default_cell_def)
  have glyph: "write_glyph (BlankCell g) (gr_Pen g) (gr_Cols g) col cp w (active_screen g ! r) =
      (l @ \<lparr> c_Codepoint = cp, c_Width = w, c_Pen = gr_Pen g \<rparr> # replicate (w - 1) continuation) @
      replicate (gr_Cols g - (col + w)) default_cell"
    using write_glyph_eq [OF ok col(3) small(1) BlankCell_ok [OF pen], of w "gr_Pen g" cp] w fit len
    by (auto simp: row cuts)
  show "active_screen (put_cell cp w g) = (active_screen g)[r :=
      (l @ \<lparr> c_Codepoint = cp, c_Width = w, c_Pen = gr_Pen g \<rparr> # replicate (w - 1) continuation) @
      replicate (gr_Cols g - (col + w)) default_cell]"
    using glyph by (simp add: put_cell_def Let_def col r)
  show "backdrop (put_cell cp w g) = backdrop g" "other_screen (put_cell cp w g) = other_screen g"
    "gr_CursorRow (put_cell cp w g) = r" "gr_Pen (put_cell cp w g) = gr_Pen g"
    by (simp_all add: put_cell_def Let_def r)
  show "cursor_after (col + w) (put_cell cp w g)"
    using small fit by (simp add: put_cell_def Let_def cursor_after_def col u16_def)
qed

text \<open>\<open>painting g0 r l pen g\<close>: on the way from \<open>g0\<close> the row \<open>r\<close> has been printed as far as \<open>l\<close>.\<close>

definition painting :: "Grid \<Rightarrow> nat \<Rightarrow> row \<Rightarrow> Pen \<Rightarrow> Grid \<Rightarrow> bool" where
  "painting g0 r l pen g \<longleftrightarrow> backdrop g = backdrop g0 \<and> other_screen g = other_screen g0 \<and>
     active_screen g = (active_screen g0)[r := l @ replicate (gr_Cols g0 - length l) default_cell] \<and>
     gr_CursorRow g = r \<and> cursor_after (length l) g \<and> gr_Pen g = pen"

definition boundary :: "row \<Rightarrow> nat \<Rightarrow> bool" where
  "boundary line col \<longleftrightarrow> col \<le> length line \<and> (col < length line \<longrightarrow> c_Width (line ! col) \<noteq> 0)"

lemma boundary_prefix:
  assumes "row_ok cols line" and "boundary line col" and "i < col" and "c_Width (line ! i) = 2"
  shows "i + 1 < col"
proof -
  have "i < cols" using assms(1-3) by (simp add: boundary_def row_okD(1))
  then have "i + 1 < cols" "c_Width (line ! (i + 1)) = 0"
    using row_okD(3,4) [OF assms(1), of i] assms(4) by auto
  then have "i + 1 \<noteq> col"
    using assms(1,2) by (auto simp: boundary_def row_okD(1))
  then show ?thesis using assms(3) by simp
qed

lemma prefix_ok:
  assumes ok: "row_ok cols line" and b: "boundary line col"
  shows "row_ok cols (map (look cm) (take col line) @ replicate (cols - col) default_cell)" (is "row_ok cols ?l")
proof -
  have len: "length line = cols" "col \<le> cols" using ok b by (auto simp: row_okD(1) boundary_def)
  have at: "?l ! i = (if i < col then look cm (line ! i) else default_cell)" if "i < cols" for i
    using that len by (simp add: nth_append)
  have blank: "cell_ok default_cell" "c_Width default_cell = 1"
    using default_cell_blank by (simp_all add: blank_ok_def default_cell_def)
  show ?thesis
  proof (rule row_okI)
    fix i assume i: "i < cols"
    show "cell_ok (?l ! i)"
      using i row_okD(2) [OF ok, of i] blank by (simp add: at look_ok)
    show "i + 1 < cols \<and> c_Width (?l ! (i + 1)) = 0" if "c_Width (?l ! i) = 2"
    proof -
      have *: "i < col" "c_Width (line ! i) = 2"
        using that i blank by (auto simp: at split: if_splits)
      then show ?thesis
        using boundary_prefix [OF ok b *] row_okD(3,4) [OF ok i] by (simp add: at)
    qed
    show "0 < i \<and> c_Width (?l ! (i - 1)) = 2" if "c_Width (?l ! i) = 0"
    proof -
      have "i < col" "c_Width (line ! i) = 0"
        using that i blank by (auto simp: at split: if_splits)
      then show ?thesis
        using row_okD(5,6) [OF ok i] i by (simp add: at)
    qed
  qed (use len in simp)
qed

lemma prefix_last:
  assumes "row_ok cols line" and "boundary line col" and "map (look cm) (take col line) \<noteq> []"
  shows "c_Width (last (map (look cm) (take col line))) \<noteq> 2"
proof -
  have "0 < col" "col \<le> length line" using assms(2,3) by (auto simp: boundary_def)
  then have "last (map (look cm) (take col line)) = look cm (line ! (col - 1))"
    using assms(3) by (simp add: last_conv_nth min_def)
  then show ?thesis
    using boundary_prefix [OF assms(1,2), of "col - 1"] \<open>0 < col\<close> by auto
qed

lemma glyph_cells:
  assumes ok: "row_ok cols line" and b: "boundary line col" and col: "col < cols"
  shows "map (look cm) (take col line) @ \<lparr> c_Codepoint = cell_char (line ! col), c_Width = c_Width (line ! col),
      c_Pen = NormalizePen cm (c_Pen (line ! col)) \<rparr> # replicate (c_Width (line ! col) - 1) continuation =
    map (look cm) (take (col + c_Width (line ! col)) line)"
    and "c_Width (line ! col) = 1 \<or> c_Width (line ! col) = 2" and "col + c_Width (line ! col) \<le> cols"
    and "boundary line (col + c_Width (line ! col))"
proof -
  let ?c = "line ! col"
  have len: "length line = cols" using ok by (rule row_okD(1))
  have w: "c_Width ?c \<noteq> 0" "cell_ok ?c"
    using b col row_okD(2) [OF ok col] by (simp_all add: boundary_def len)
  then show w12: "c_Width ?c = 1 \<or> c_Width ?c = 2" by (auto simp: cell_ok_def)
  have wide: "col + 1 < cols" "c_Width (line ! (col + 1)) = 0" if "c_Width ?c = 2"
    using row_okD(3,4) [OF ok col] that by auto
  then show "col + c_Width ?c \<le> cols" using w12 col by auto
  have look: "\<lparr> c_Codepoint = cell_char ?c, c_Width = c_Width ?c, c_Pen = NormalizePen cm (c_Pen ?c) \<rparr> = look cm ?c"
    using w(1) by (cases ?c) (simp add: look_def)
  have "look cm (line ! (col + 1)) = continuation" if "c_Width ?c = 2"
    using wide [OF that] row_okD(2) [OF ok, of "col + 1"] by (auto simp: cell_ok_def look_def continuation_def)
  then show "map (look cm) (take col line) @ \<lparr> c_Codepoint = cell_char ?c, c_Width = c_Width ?c,
      c_Pen = NormalizePen cm (c_Pen ?c) \<rparr> # replicate (c_Width ?c - 1) continuation =
    map (look cm) (take (col + c_Width ?c) line)"
    using w12 col wide unfolding look
    by (auto simp: take_Suc_conv_app_nth len numeral_2_eq_2)
  have "c_Width (line ! (col + c_Width ?c)) \<noteq> 0" if "col + c_Width ?c < cols"
  proof
    assume "c_Width (line ! (col + c_Width ?c)) = 0"
    from row_okD(6) [OF ok that this] w12 wide(2) show False by (auto simp: numeral_2_eq_2)
  qed
  then show "boundary line (col + c_Width ?c)"
    using \<open>col + c_Width ?c \<le> cols\<close> by (simp add: boundary_def len)
qed

lemma paint_glyph:
  assumes ok: "row_ok (gr_Cols g0) line" and b: "boundary line col" and col: "col < gr_Cols g0"
    and p: "painting g0 r (map (look cm) (take col line)) pen g" and g0: "plain g0" "r < length (active_screen g0)"
  defines "c \<equiv> line ! col"
  shows "\<exists>g'. feeds (fst (EmitSgr pen (NormalizePen cm (c_Pen c))) @ WriteUtf8 (cell_char c)) g g' \<and>
    painting g0 r (map (look cm) (take (col + c_Width c) line)) (NormalizePen cm (c_Pen c)) g'"
proof -
  let ?l = "map (look cm) (take col line)" and ?pen = "NormalizePen cm (c_Pen c)"
  let ?g1 = "g\<lparr>gr_Pen := ?pen\<rparr>" and ?w = "c_Width c"
  note cells = glyph_cells [OF ok b col, folded c_def]
  have c: "cell_ok c" "?w \<noteq> 0" using row_okD(2) [OF ok col] cells(2) by (auto simp: c_def)
  have pen: "pen_ok ?pen" using c(1) by (simp add: NormalizePen_ok cell_ok_def)
  have len: "length ?l = col" "length line = gr_Cols g0"
    using b by (simp_all add: boundary_def row_okD(1) [OF ok] min_def)
  have g: "backdrop ?g1 = backdrop g0" "other_screen ?g1 = other_screen g0" "gr_Cols ?g1 = gr_Cols g0"
      "active_screen ?g1 = (active_screen g0)[r := ?l @ replicate (gr_Cols ?g1 - col) default_cell]" "gr_CursorRow ?g1 = r"
      "cursor_after col ?g1" "plain ?g1"
    using p g0 plain_backdrop [of ?g1 g0] len backdropD(1) [of g g0] by (auto simp: painting_def cursor_after_def)
  have width: "Suc (col + (?w - Suc 0)) = col + ?w" using c(2) by simp
  have row: "active_screen ?g1 ! r = ?l @ replicate (gr_Cols ?g1 - col) default_cell"
    using g(4) g0(2) by simp
  have sgr: "feeds (fst (EmitSgr pen ?pen)) g ?g1"
    using feeds_EmitSgr(1) [OF pen, of g] p by (simp add: painting_def)
  have "put_codepoint (cell_char c) ?g1 = PutChar (cell_char c) ?w ?g1"
    using cell_char_spec [OF c] by (simp add: put_codepoint_def Let_def)
  also have "\<dots> = put_cell (cell_char c) ?w ?g1"
    using g cells(2,3) by (intro put_plain) auto
  finally have put: "feeds (WriteUtf8 (cell_char c)) ?g1 (put_cell (cell_char c) ?w ?g1)"
    using feeds_utf8 [OF cell_char_spec(1) [OF c], of ?g1] by simp
  have "r < length (active_screen ?g1)" "col + ?w \<le> gr_Cols ?g1" using g(4) g0(2) cells(3) g(3) by simp_all
  moreover have "row_ok (gr_Cols ?g1) (active_screen ?g1 ! r)"
    using prefix_ok [OF ok b, of cm] row g(3) by simp
  moreover have "pen_ok (gr_Pen ?g1)" using pen by simp
  ultimately have "painting g0 r (map (look cm) (take (col + ?w) line)) ?pen (put_cell (cell_char c) ?w ?g1)"
    using put_cell_row [OF g(7,6) cells(2) _ g(5) _ row len(1), of "cell_char c"] prefix_last [OF ok b, of cm]
      cells(3) g(1-4) len
    by (simp add: painting_def min_def width flip: cells(1))
  with feeds_append [OF sgr put] show ?thesis by blast
qed

lemma paint_cells:
  assumes ok: "row_ok (gr_Cols g0) line" and g0: "plain g0" "r < length (active_screen g0)" and used: "used \<le> gr_Cols g0"
  shows "boundary line col \<Longrightarrow> painting g0 r (map (look cm) (take col line)) pen g \<Longrightarrow> pen_ok pen \<Longrightarrow>
    \<exists>g' e. feeds (fst (encode_cells cm line used col pen)) g g' \<and> used \<le> e \<and> boundary line e \<and>
      pen_ok (snd (encode_cells cm line used col pen)) \<and>
      painting g0 r (map (look cm) (take e line)) (snd (encode_cells cm line used col pen)) g'"
proof (induction "used - col" arbitrary: col pen g rule: less_induct)
  case less
  show ?case
  proof (cases "col < used")
    case False
    then show ?thesis
      using less.prems by (subst (1 2 3) encode_cells.simps) (auto intro!: exI [of _ g] exI [of _ col])
  next
    case True
    define c where "c = line ! col"
    define pen' where "pen' = NormalizePen cm (c_Pen c)"
    have col: "col < gr_Cols g0" using True used by simp
    note cells = glyph_cells [OF ok less.prems(1) col, folded c_def]
    have step: "encode_cells cm line used col pen =
        (fst (EmitSgr pen pen') @ WriteUtf8 (cell_char c) @ fst (encode_cells cm line used (col + c_Width c) pen'),
         snd (encode_cells cm line used (col + c_Width c) pen'))"
    proof -
      have "(if 2 \<le> c_Width c then 2 else 1) = c_Width c" "c_Width c \<noteq> 0" using cells(2) by auto
      moreover have "snd (EmitSgr pen pen') = pen'" by (simp add: EmitSgr_def MatchesCell_def)
      ultimately show ?thesis
        using True by (subst encode_cells.simps) (simp add: Let_def case_prod_beta flip: c_def pen'_def)
    qed
    obtain g1 where g1: "feeds (fst (EmitSgr pen pen') @ WriteUtf8 (cell_char c)) g g1"
        "painting g0 r (map (look cm) (take (col + c_Width c) line)) pen' g1"
      using paint_glyph [OF ok less.prems(1) col less.prems(2) g0] by (auto simp: c_def pen'_def)
    have "pen_ok pen'"
      using row_okD(2) [OF ok col] by (simp add: pen'_def c_def NormalizePen_ok cell_ok_def)
    moreover have "used - (col + c_Width c) < used - col" using True cells(2) by auto
    ultimately obtain g' e where "feeds (fst (encode_cells cm line used (col + c_Width c) pen')) g1 g'" "used \<le> e"
        "boundary line e" "pen_ok (snd (encode_cells cm line used (col + c_Width c) pen'))"
        "painting g0 r (map (look cm) (take e line)) (snd (encode_cells cm line used (col + c_Width c) pen')) g'"
      using less.hyps [of "col + c_Width c"] cells(4) g1(2) by blast
    with feeds_append [OF g1(1)] show ?thesis
      by (intro exI [of _ g'] exI [of _ e]) (simp add: step)
  qed
qed

lemma used_extent_le: "used_extent line n \<le> n"
  by (induction n) auto

lemma used_extent_blank: "i < n \<Longrightarrow> used_extent line n \<le> i \<Longrightarrow> IsBlankCell (line ! i)"
  by (induction n) (auto simp: less_Suc_eq split: if_splits)

lemma painted_view:
  assumes ok: "row_ok cols line" and e: "used_extent line cols \<le> e" "boundary line e"
  shows "map (look Full) (map (look cm) (take e line) @ replicate (cols - e) default_cell) = map (look cm) line"
proof (rule nth_equalityI)
  have len: "length line = cols" "e \<le> cols" using ok e(2) by (simp_all add: row_okD(1) boundary_def)
  then show "length (map (look Full) (map (look cm) (take e line) @ replicate (cols - e) default_cell)) = length (map (look cm) line)"
    by simp
  fix i assume "i < length (map (look Full) (map (look cm) (take e line) @ replicate (cols - e) default_cell))"
  then have i: "i < cols" using len by simp
  have "c_Width (line ! i) \<noteq> 0" if "e \<le> i"
  proof
    assume 0: "c_Width (line ! i) = 0"
    then have "i \<noteq> e" using e(2) i len by (auto simp: boundary_def)
    moreover have "0 < i" "c_Width (line ! (i - 1)) = 2" using row_okD(5,6) [OF ok i 0] by simp_all
    ultimately have "IsBlankCell (line ! (i - 1))" "cell_ok (line ! (i - 1))"
      using used_extent_blank [of "i - 1" cols line] that e(1) i row_okD(2) [OF ok, of "i - 1"] by simp_all
    with \<open>c_Width (line ! (i - 1)) = 2\<close> show False
      by (auto simp: IsBlankCell_def cell_ok_def printable_def)
  qed
  then have "look Full default_cell = look cm (line ! i)" if "e \<le> i"
    using that look_blank [OF row_okD(2) [OF ok i] used_extent_blank [OF i], of cm] e(1) by simp
  then show "map (look Full) (map (look cm) (take e line) @ replicate (cols - e) default_cell) ! i = map (look cm) line ! i"
    using i len row_okD(2) [OF ok i] by (auto simp: nth_append look_look)
qed

subsection \<open>Moving about\<close>

lemma feeds_cup:
  assumes "0 < r" "r \<le> 0xFFFF" "0 < c" "c \<le> 0xFFFF"
  shows "feeds (cup_bytes r c) g (MoveCursorTo r c g)"
proof -
  have "cup_bytes r c = ESC # 0x5B # param_bytes r [(c, False)] @ [] @ [0x48]"
    by (simp add: cup_bytes_def esc_csi_def param_bytes_def) (simp add: WriteLiteral_def)
  then show ?thesis
    using assms feeds_csi_params [of r "[(c, False)]" "0x48" "[]" 0 g "MoveCursorTo r c g"]
    by (simp add: csi_public_def csi_p_def Let_def)
qed

lemma feeds_crlf: "feeds CRLF g (LineFeed (CarriageReturn g))"
  using feeds_append [OF feeds_control [of "0x0D" g] feeds_control [of "0x0A" "HandleControl (unat (0x0D :: byte)) g"]]
  by (simp add: CRLF_def HandleControl_def)

text \<open>A terminal whose scroll region is the whole screen and whose origin is its corner.\<close>

definition open_screen :: "Grid \<Rightarrow> bool" where
  "open_screen g \<longleftrightarrow> \<not> ModeSet Decom g \<and> gr_ScrollTop g = 0 \<and> gr_ScrollBot g = gr_Rows g - 1 \<and>
     0 < gr_Rows g \<and> gr_Rows g \<le> MAX_ROWS"

lemma open_backdrop: "backdrop g = backdrop g' \<Longrightarrow> open_screen g = open_screen g'"
  using backdropD(2,4,5) [of g g'] backdrop_modes [of g g' Decom] by (simp add: open_screen_def)

text \<open>\<open>at_line g r g'\<close>: \<open>g'\<close> is \<open>g\<close> with the cursor at the start of row \<open>r\<close>.\<close>

definition at_line :: "Grid \<Rightarrow> nat \<Rightarrow> Grid \<Rightarrow> bool" where
  "at_line g r g' \<longleftrightarrow> g' = g\<lparr>gr_CursorRow := r, gr_CursorCol := 0, gr_PendingWrap := False\<rparr>"

lemma cup_at_line:
  assumes "open_screen g" and "r < gr_Rows g" and "0 < gr_Cols g"
  shows "at_line g r (MoveCursorTo (r + 1) 1 g)"
  using assms by (auto simp: at_line_def MoveCursorTo_def origin_row_def open_screen_def ClampCol_def Let_def MAX_ROWS_def u16_def)

lemma crlf_at_line:
  assumes "open_screen g" and "gr_CursorRow g + 1 < gr_Rows g"
  shows "at_line g (gr_CursorRow g + 1) (LineFeed (CarriageReturn g))"
  using assms by (auto simp: at_line_def LineFeed_def CarriageReturn_def open_screen_def Let_def)

subsection \<open>A whole screen\<close>

text \<open>\<open>showing g0 S pen g\<close>: \<open>g\<close> is \<open>g0\<close> but for the picture: the screen \<open>S\<close>, the pen and the cursor.\<close>

definition showing :: "Grid \<Rightarrow> row list \<Rightarrow> Pen \<Rightarrow> Grid \<Rightarrow> bool" where
  "showing g0 S pen g \<longleftrightarrow> backdrop g = backdrop g0 \<and> other_screen g = other_screen g0 \<and> active_screen g = S \<and> gr_Pen g = pen"

lemma boundary_0: "row_ok cols line \<Longrightarrow> boundary line 0"
  using row_okD(5) [of cols line 0] row_okD(1) [of cols line] by (auto simp: boundary_def)

lemma paint_row:
  assumes g: "showing g0 S pen g" "gr_CursorRow g = r" "gr_CursorCol g = 0" "\<not> gr_PendingWrap g" and pen: "pen_ok pen"
    and g0: "plain g0" and r: "r < length S" "S ! r = replicate (gr_Cols g0) default_cell"
    and ok: "row_ok (gr_Cols g0) line" and used: "used = used_extent line (gr_Cols g0)"
  shows "\<exists>g' row. feeds (fst (encode_cells cm line used 0 pen)) g g' \<and> pen_ok (snd (encode_cells cm line used 0 pen)) \<and>
    showing g0 (S[r := row]) (snd (encode_cells cm line used 0 pen)) g' \<and> gr_CursorRow g' = r \<and>
    row_ok (gr_Cols g0) row \<and> map (look Full) row = map (look cm) line"
proof -
  have cols: "gr_Cols g = gr_Cols g0" "0 < gr_Cols g0"
    using g(1) g0 backdropD(1) [of g g0] by (auto simp: showing_def plain_def)
  note b = boundary_0 [OF ok]
  have same: "S[r := replicate (gr_Cols g0) default_cell] = S" using r(2) list_update_id [of S r] by simp
  have start: "painting g r (map (look cm) (take 0 line)) pen g"
    using g cols same by (auto simp: painting_def showing_def cursor_after_def)
  have "row_ok (gr_Cols g) line" "plain g" "r < length (active_screen g)" "used \<le> gr_Cols g"
    using ok cols g g0 r plain_backdrop [of g g0] used used_extent_le by (auto simp: showing_def)
  from paint_cells [OF this b start pen]
  obtain g' e where p: "feeds (fst (encode_cells cm line used 0 pen)) g g'" "used \<le> e" "boundary line e"
      "pen_ok (snd (encode_cells cm line used 0 pen))"
      "painting g r (map (look cm) (take e line)) (snd (encode_cells cm line used 0 pen)) g'"
    by blast
  let ?row = "map (look cm) (take e line) @ replicate (gr_Cols g0 - e) default_cell"
  have e: "e \<le> gr_Cols g0" using p(3) row_okD(1) [OF ok] by (simp add: boundary_def)
  then have "showing g0 (S[r := ?row]) (snd (encode_cells cm line used 0 pen)) g' \<and> gr_CursorRow g' = r"
    using p(5) g(1) cols row_okD(1) [OF ok] by (simp add: painting_def showing_def min_def)
  moreover have "map (look Full) ?row = map (look cm) line"
    using painted_view [OF ok _ p(3), of cm] p(2) used by simp
  ultimately show ?thesis
    using p(1,4) prefix_ok [OF ok p(3), of cm] by (intro exI [of _ g'] exI [of _ ?row]) blast
qed

definition row_move :: "nat option \<Rightarrow> nat \<Rightarrow> bytes" where
  "row_move lastRow r = (if lastRow \<noteq> None \<and> r = u16 (the lastRow + 1) then CRLF
     else esc_csi '''' @ WriteDecimal (r + 1) @ WriteLiteral '';1H'')"

lemma move_to_row:
  assumes g: "open_screen g" and r: "r < gr_Rows g" and "0 < gr_Cols g"
    and last: "\<And>q. lastRow = Some q \<Longrightarrow> gr_CursorRow g = q \<and> q < gr_Rows g"
  shows "\<exists>g'. feeds (row_move lastRow r) g g' \<and> at_line g r g'"
proof (cases "lastRow \<noteq> None \<and> r = u16 (the lastRow + 1)")
  case True
  then obtain q where q: "lastRow = Some q" by auto
  then have "gr_CursorRow g = q" "r = q + 1"
    using last [OF q] True g by (auto simp: open_screen_def MAX_ROWS_def u16_def)
  then show ?thesis
    using True crlf_at_line [OF g] r feeds_crlf [of g] by (auto simp: row_move_def)
next
  case False
  have "esc_csi '''' @ WriteDecimal (r + 1) @ WriteLiteral '';1H'' = cup_bytes (r + 1) 1"
    by (simp add: cup_bytes_def small_decimals WriteLiteral_def)
  then show ?thesis
    using False cup_at_line [OF g r assms(3)] feeds_cup [of "r + 1" 1 g] r g
    by (auto simp: row_move_def open_screen_def MAX_ROWS_def)
qed

text \<open>The rows that have been painted, and those that have not.\<close>

definition painted :: "EColorMode \<Rightarrow> nat \<Rightarrow> (nat \<Rightarrow> row) \<Rightarrow> nat list \<Rightarrow> row list \<Rightarrow> row list \<Rightarrow> bool" where
  "painted cm cols line_at rs S S' \<longleftrightarrow> length S' = length S \<and>
     (\<forall>r<length S. if r \<in> set rs then row_ok cols (S' ! r) \<and> map (look Full) (S' ! r) = map (look cm) (line_at r)
        else S' ! r = S ! r)"

lemma painted_Cons:
  assumes "painted cm cols line_at rs (S[r := row]) S'" and "r < length S" and "r \<notin> set rs"
    and "row_ok cols row" and "map (look Full) row = map (look cm) (line_at r)"
  shows "painted cm cols line_at (r # rs) S S'"
  unfolding painted_def
proof (intro conjI allI impI)
  show "length S' = length S" using assms(1) by (simp add: painted_def)
  fix r' assume "r' < length S"
  then show "if r' \<in> set (r # rs) then row_ok cols (S' ! r') \<and> map (look Full) (S' ! r') = map (look cm) (line_at r')
      else S' ! r' = S ! r'"
    using assms by (cases "r' = r") (auto simp: painted_def split: if_splits)
qed

lemma paint_screen:
  assumes g0: "plain g0" "open_screen g0" and rows: "\<forall>r\<in>set rs. r < gr_Rows g0 \<and> row_ok (gr_Cols g0) (line_at r)"
  shows "distinct rs \<Longrightarrow> showing g0 S pen g \<Longrightarrow> pen_ok pen \<Longrightarrow> length S = gr_Rows g0 \<Longrightarrow>
    (\<And>r. r \<in> set rs \<Longrightarrow> S ! r = replicate (gr_Cols g0) default_cell) \<Longrightarrow>
    (\<And>q. lastRow = Some q \<Longrightarrow> gr_CursorRow g = q \<and> q < gr_Rows g0) \<Longrightarrow>
    \<exists>g' S'. feeds (fst (encode_screen_rows cm (gr_Cols g0) line_at rs lastRow pen)) g g' \<and>
      pen_ok (snd (encode_screen_rows cm (gr_Cols g0) line_at rs lastRow pen)) \<and>
      showing g0 S' (snd (encode_screen_rows cm (gr_Cols g0) line_at rs lastRow pen)) g' \<and>
      painted cm (gr_Cols g0) line_at rs S S'"
  using rows
proof (induction rs arbitrary: lastRow S pen g)
  case Nil
  then show ?case by (auto simp: painted_def intro!: exI [of _ g] exI [of _ S])
next
  case (Cons r rs)
  define line where "line = line_at r"
  define used where "used = used_extent line (gr_Cols g0)"
  have r: "r < gr_Rows g0" "row_ok (gr_Cols g0) line" "S ! r = replicate (gr_Cols g0) default_cell" "r \<notin> set rs"
    using Cons.prems by (auto simp: line_def)
  show ?case
  proof (cases "used = 0")
    case True
    have view: "map (look Full) (S ! r) = map (look cm) (line_at r)" "row_ok (gr_Cols g0) (S ! r)"
      using painted_view [OF r(2) _ boundary_0 [OF r(2)], of cm] True r(3) default_cell_blank
      by (auto simp: used_def line_def)
    obtain g' S' where *: "feeds (fst (encode_screen_rows cm (gr_Cols g0) line_at rs lastRow pen)) g g'"
        "pen_ok (snd (encode_screen_rows cm (gr_Cols g0) line_at rs lastRow pen))"
        "showing g0 S' (snd (encode_screen_rows cm (gr_Cols g0) line_at rs lastRow pen)) g'"
        "painted cm (gr_Cols g0) line_at rs S S'"
      using Cons.IH [of S pen g lastRow] Cons.prems by auto
    then have "painted cm (gr_Cols g0) line_at (r # rs) S S'"
      using painted_Cons [where row = "S ! r" and S = S and r = r, unfolded list_update_id, OF *(4) _ r(4) view(2,1)] r(1) Cons.prems(4) by simp
    with * show ?thesis
      using True by (intro exI [of _ g'] exI [of _ S']) (auto simp: Let_def line_def used_def)
  next
    case False
    define bs pen1 where "bs = fst (encode_cells cm line used 0 pen)" and "pen1 = snd (encode_cells cm line used 0 pen)"
    have dims: "gr_Rows g = gr_Rows g0" "gr_Cols g = gr_Cols g0" "open_screen g" "0 < gr_Cols g"
      using Cons.prems(2) g0 open_backdrop [of g g0] backdropD(1,2) [of g g0] by (auto simp: showing_def plain_def)
    obtain g1 where g1: "feeds (row_move lastRow r) g g1" "at_line g r g1"
      using move_to_row [OF dims(3) _ dims(4), of r lastRow] r(1) dims Cons.prems(6) by auto
    have s1: "showing g0 S pen g1" "gr_CursorRow g1 = r" "gr_CursorCol g1 = 0" "\<not> gr_PendingWrap g1"
      using g1(2) Cons.prems(2) by (simp_all add: at_line_def showing_def)
    obtain g2 row where g2: "feeds bs g1 g2" "pen_ok pen1" "showing g0 (S[r := row]) pen1 g2" "gr_CursorRow g2 = r"
        "row_ok (gr_Cols g0) row" "map (look Full) row = map (look cm) line"
      using paint_row [OF s1 Cons.prems(3) g0(1) _ r(3,2) used_def, of cm] r(1) Cons.prems(4) by (auto simp: bs_def pen1_def)
    define bs' pen2 where "bs' = fst (encode_screen_rows cm (gr_Cols g0) line_at rs (Some r) pen1)"
      and "pen2 = snd (encode_screen_rows cm (gr_Cols g0) line_at rs (Some r) pen1)"
    have "S[r := row] ! r' = replicate (gr_Cols g0) default_cell" if "r' \<in> set rs" for r'
      using Cons.prems(5) [of r'] that r(4) by (cases "r' = r") auto
    then obtain g' S' where g': "feeds bs' g2 g'" "pen_ok pen2" "showing g0 S' pen2 g'"
        "painted cm (gr_Cols g0) line_at rs (S[r := row]) S'"
      using Cons.IH [of "S[r := row]" pen1 g2 "Some r"] Cons.prems g2 r(1) by (auto simp: bs'_def pen2_def)
    have enc: "encode_screen_rows cm (gr_Cols g0) line_at (r # rs) lastRow pen = (row_move lastRow r @ bs @ bs', pen2)"
      using False by (simp add: Let_def case_prod_beta row_move_def bs_def bs'_def pen1_def pen2_def flip: line_def used_def)
    have "feeds (row_move lastRow r @ bs @ bs') g g'"
      using feeds_append [OF g1(1) feeds_append [OF g2(1) g'(1)]] .
    moreover have "painted cm (gr_Cols g0) line_at (r # rs) S S'"
      using painted_Cons [OF g'(4) _ r(4) g2(5)] g2(6) r(1) Cons.prems(4) by (simp add: line_def)
    ultimately show ?thesis
      using g'(2,3) unfolding enc by (intro exI [of _ g'] exI [of _ S']) simp
  qed
qed

end
