(* ===== verification/Grid_Restore.thy ===== *)
theory Grid_Restore
  imports Grid_Paint
begin

text \<open>
  A snapshot restores the terminal: fed to a new terminal of the same size, the bytes of a snapshot bring
  back the screens, the scrollback, the cursor, the rendition, the modes and everything else the grid keeps.
\<close>

unbundle bit_operations_syntax

subsection \<open>The sequences one by one\<close>

lemma feeds_can: "feeds [0x18] g g"
  by (rule feedsI) (auto simp: at_ground_def FeedByte_def Let_def parser_ops)

lemma feeds_esc:
  assumes "unat f \<in> {0x30..0x4F} \<union> {0x51..0x57} \<union> {0x59, 0x5A, 0x5C} \<union> {0x60..0x7E}"
    and "\<And>p. vp_Intermediates p = [] \<Longrightarrow> snd (DispatchEsc (unat f) (p, g)) = g'"
  shows "feeds [ESC, f] g g'"
proof (rule feedsI)
  fix p assume "at_ground p"
  from esc_step [OF this, of g] obtain p1 where p1: "FeedByte ESC (p, g) = (p1, g)" "vp_State p1 = Escape"
      "vp_Intermediates p1 = []" "vp_Utf8Remaining p1 = 0"
    by (cases "FeedByte ESC (p, g)") (auto simp: becomes_def)
  have "FeedByte f (p1, g) = dispatch_esc_ground f (p1, g)"
    using assms(1) p1 by (auto simp: FeedByte_def feed_plain_def feed_state_def feed_escape_def Let_def)
  then show "at_ground (fst (Feed [ESC, f] (p, g))) \<and> snd (Feed [ESC, f] (p, g)) = g'"
    using p1 counted_DispatchEsc [of "(p1, g)" "unat f"] assms(2) [OF p1(3)]
    by (auto simp: dispatch_esc_ground_def at_ground_def counted_def parser_ops)
qed

lemma feeds_charset:
  assumes "i = 0x28 \<and> gs = 0 \<or> i = 0x29 \<and> gs = 1" and "unat f \<in> {0x30..0x7E}"
  shows "feeds [ESC, i, f] g (DesignateCharset gs (unat f) g)"
proof (rule feedsI)
  fix p assume "at_ground p"
  from esc_step [OF this, of g] obtain p1 where p1: "FeedByte ESC (p, g) = (p1, g)" "vp_State p1 = Escape"
      "vp_Intermediates p1 = []" "vp_Utf8Remaining p1 = 0"
    by (cases "FeedByte ESC (p, g)") (auto simp: becomes_def)
  define p2 where "p2 = (CollectIntermediate i p1)\<lparr>vp_State := EscapeIntermediate\<rparr>"
  have i: "0x20 \<le> unat i" "unat i \<le> 0x2F" using assms(1) by auto
  have p2: "FeedByte i (p1, g) = (p2, g)" "vp_Intermediates p2 = [i]" "vp_Utf8Remaining p2 = 0" "vp_State p2 = EscapeIntermediate"
    using i p1 by (simp_all add: p2_def FeedByte_def feed_plain_def feed_state_def feed_escape_def Let_def parser_ops parser_limits)
  have "FeedByte f (p2, g) = dispatch_esc_ground f (p2, g)"
    using assms(2) p2 by (auto simp: FeedByte_def feed_plain_def feed_state_def Let_def)
  moreover have "DispatchEsc (unat f) (p2, g) = (p2, DesignateCharset gs (unat f) g)"
    using assms(1) p2(2) by (auto simp: DispatchEsc_def Let_def)
  ultimately show "at_ground (fst (Feed [ESC, i, f] (p, g))) \<and> snd (Feed [ESC, i, f] (p, g)) = DesignateCharset gs (unat f) g"
    using p1 p2 by (auto simp: dispatch_esc_ground_def at_ground_def parser_ops)
qed

lemma esc_literals:
  "esc_csi ''0m'' = ESC # 0x5B # param_bytes 0 [] @ [0x6D]"
  "esc_csi ''2J'' = ESC # 0x5B # param_bytes 2 [] @ [] @ [0x4A]"
  "esc_csi ''3g'' = ESC # 0x5B # param_bytes 3 [] @ [] @ [0x67]"
  "esc_csi ''H'' = ESC # 0x5B # [] @ [0x48]" "esc_csi ''r'' = ESC # 0x5B # [] @ [0x72]"
  "esc_csi ''!p'' = ESC # 0x5B # [0x21] @ [0x70]"
  "esc_csi ''?6h'' = EmitPrivateMode 6 True" "esc_csi ''?6l'' = EmitPrivateMode 6 False"
  "esc_csi ''?25l'' = EmitPrivateMode 25 False" "esc_csi ''?1049l'' = EmitPrivateMode 1049 False"
  "esc_csi ''?1049h'' = EmitPrivateMode 1049 True" "esc_csi ''?2026h'' = EmitPrivateMode 2026 True"
  "esc_csi ''?2026l'' = EmitPrivateMode 2026 False"
  "esc_lit ''7'' = [ESC, 0x37]" "esc_lit ''H'' = [ESC, 0x48]" "esc_lit [CHR 0x5C] = [ESC, 0x5C]"
  "esc_lit ''('' = [ESC, 0x28]" "esc_lit '')'' = [ESC, 0x29]"
  "esc_lit ''(B'' = [ESC, 0x28, 0x42]" "esc_lit '')B'' = [ESC, 0x29, 0x42]"
  "esc_lit ''(0'' = [ESC, 0x28, 0x30]" "esc_lit '')0'' = [ESC, 0x29, 0x30]"
  by (simp_all add: esc_csi_def esc_lit_def WriteLiteral_def EmitPrivateMode_def param_bytes_def WriteDecimal_def decimal_digits.simps)

lemma feeds_private: "n \<le> 0xFFFF \<Longrightarrow> n \<noteq> 4 \<Longrightarrow> n \<noteq> 20 \<Longrightarrow> feeds (EmitPrivateMode n v) g (SetMode n v g)"
  using feeds_csi_private [of n v g] by (simp add: EmitPrivateMode_def esc_csi_def set_private_modes_def WriteLiteral_def)

lemma feeds_ansi: "n = 4 \<or> n = 20 \<Longrightarrow> feeds (EmitAnsiMode n v) g (SetMode n v g)"
proof -
  assume n: "n = 4 \<or> n = 20"
  have "EmitAnsiMode n v = ESC # 0x5B # param_bytes n [] @ [] @ [if v then 0x68 else 0x6C]"
    by (simp add: EmitAnsiMode_def esc_csi_def param_bytes_def WriteLiteral_def)
  then show ?thesis
    using feeds_csi_params [of n "[]" "if v then 0x68 else 0x6C" "[]" 0 g "SetMode n v g"] n
    by (auto simp: csi_public_def set_ansi_modes_def Let_def)
qed

lemma feeds_reset_pen: "feeds (esc_csi ''0m'') g (g\<lparr>gr_Pen := default_pen\<rparr>)"
  using feeds_sgr [of "[]" 0 g default_pen] sgr_runs_reset [OF sgr_runs_Nil] by (simp add: esc_literals)

lemma feeds_erase: "feeds (esc_csi ''2J'') g (EraseInDisplay 2 g)"
  using feeds_csi_params [of 2 "[]" "0x4A" "[]" 0 g "EraseInDisplay 2 g"]
  by (simp add: esc_literals csi_public_def csi_p0_def u8_def Let_def)

lemma feeds_home: "feeds (esc_csi ''H'') g (MoveCursorTo 1 1 g)"
  using feeds_csi_empty [of "0x48" "[]" 0 g "MoveCursorTo 1 1 g"]
  by (simp add: esc_literals csi_public_def csi_p_def Let_def)

lemma feeds_soft_reset: "feeds (esc_csi ''!p'') g (g_Reset False g)"
  using feeds_csi_empty [of "0x70" "[0x21]" "0x21" g "g_Reset False g"]
  by (simp add: esc_literals csi_public_def Let_def)

lemma feeds_region_reset: "gr_Rows g \<noteq> 0 \<Longrightarrow> feeds (esc_csi ''r'') g (SetScrollRegion 1 (gr_Rows g) g)"
  using feeds_csi_empty [of "0x72" "[]" 0 g "SetScrollRegion 1 (gr_Rows g) g"]
  by (simp add: esc_literals csi_public_def csi_p_def Let_def)

lemma feeds_region:
  assumes "0 < t" "t \<le> 0xFFFF" "0 < b" "b \<le> 0xFFFF"
  shows "feeds (region_bytes t b) g (SetScrollRegion t b g)"
proof -
  have "region_bytes t b = ESC # 0x5B # param_bytes t [(b, False)] @ [] @ [0x72]"
    by (simp add: region_bytes_def esc_csi_def param_bytes_def) (simp add: WriteLiteral_def)
  then show ?thesis
    using assms feeds_csi_params [of t "[(b, False)]" "0x72" "[]" 0 g "SetScrollRegion t b g"]
    by (simp add: csi_public_def csi_p_def Let_def)
qed

lemma feeds_style:
  assumes "n < 256"
  shows "feeds (esc_csi '''' @ WriteDecimal n @ WriteLiteral '' q'') g (SetCursorStyle n g)"
proof -
  have "esc_csi '''' @ WriteDecimal n @ WriteLiteral '' q'' = ESC # 0x5B # param_bytes n [] @ [0x20] @ [0x71]"
    by (simp add: esc_csi_def param_bytes_def WriteLiteral_def)
  then show ?thesis
    using assms feeds_csi_params [of n "[]" "0x71" "[0x20]" "0x20" g "SetCursorStyle n g"]
    by (simp add: csi_public_def csi_p0_def u8_def Let_def)
qed

lemma feeds_clear_tabs: "feeds (esc_csi ''3g'') g (ClearTabStop 3 g)"
  using feeds_csi_params [of 3 "[]" "0x67" "[]" 0 g "ClearTabStop 3 g"]
  by (simp add: esc_literals csi_public_def csi_p0_def u8_def Let_def)

lemma feeds_save: "feeds (esc_lit ''7'') g (SaveCursor g)" "feeds (esc_lit ''H'') g (SetTabStop g)" "feeds (esc_lit [CHR 0x5C]) g g"
  unfolding esc_literals by (rule feeds_esc; simp add: DispatchEsc_def)+

lemma feeds_charsets:
  "feeds (charset_bytes g0 g1 active) g
    (ShiftCharset (active = 1) (DesignateCharset 1 (if g1 = 0 then 0x42 else 0x30) (DesignateCharset 0 (if g0 = 0 then 0x42 else 0x30) g)))"
proof -
  have 1: "feeds [ESC, 0x28, if g0 = 0 then 0x42 else 0x30] g (DesignateCharset 0 (if g0 = 0 then 0x42 else 0x30) g)" for g
    using feeds_charset [of "0x28" 0 "if g0 = 0 then 0x42 else 0x30" g] by (cases "g0 = 0") simp_all
  have 2: "feeds [ESC, 0x29, if g1 = 0 then 0x42 else 0x30] g (DesignateCharset 1 (if g1 = 0 then 0x42 else 0x30) g)" for g
    using feeds_charset [of "0x29" 1 "if g1 = 0 then 0x42 else 0x30" g] by (cases "g1 = 0") simp_all
  have 3: "feeds [if active = 1 then 0x0E else 0x0F] g (ShiftCharset (active = 1) g)" for g
    using feeds_control [of "if active = 1 then 0x0E else 0x0F" g] 
    by (cases "active = 1") (simp_all add: HandleControl_def)
  show ?thesis
    using feeds_append [OF 1 feeds_append [OF 2 3]] by (simp add: charset_bytes_def esc_literals)
qed

subsection \<open>An empty screen\<close>

lemma BlankCell_default: "gr_Pen g = default_pen \<Longrightarrow> BlankCell g = default_cell"
  by (simp add: BlankCell_def default_pen_def default_cell_def)

lemma clear_active_picture:
  "backdrop (clear_active r g) = backdrop g" "other_screen (clear_active r g) = other_screen g"
  "gr_Pen (clear_active r g) = gr_Pen g" "gr_CursorRow (clear_active r g) = gr_CursorRow g"
  "gr_CursorCol (clear_active r g) = gr_CursorCol g" "gr_PendingWrap (clear_active r g) = gr_PendingWrap g"
  "gr_LastChar (clear_active r g) = gr_LastChar g" "gr_LastWidth (clear_active r g) = gr_LastWidth g"
  "active_screen (clear_active r g) = (active_screen g)[r := ClearLine (BlankCell g) (gr_Cols g) (active_screen g ! r)]"
  by (simp_all add: clear_active_def) (simp_all add: upd_line_def)

definition sized :: "Grid \<Rightarrow> bool" where
  "sized g \<longleftrightarrow> length (active_screen g) = gr_Rows g \<and> (\<forall>l\<in>set (active_screen g). length l = gr_Cols g)"

lemma fold_clear_active:
  assumes "gr_Pen g = default_pen" and "sized g" and "n \<le> gr_Rows g"
  shows "showing g (replicate n (replicate (gr_Cols g) default_cell) @ drop n (active_screen g)) default_pen (fold clear_active [0..<n] g) \<and>
    gr_CursorRow (fold clear_active [0..<n] g) = gr_CursorRow g"
  using assms(3)
proof (induction n)
  case 0
  then show ?case using assms(1) by (simp add: showing_def)
next
  case (Suc n)
  let ?g = "fold clear_active [0..<n] g" and ?row = "replicate (gr_Cols g) default_cell"
  have IH: "showing g (replicate n ?row @ drop n (active_screen g)) default_pen ?g" "gr_CursorRow ?g = gr_CursorRow g"
    using Suc by simp_all
  then have g: "gr_Cols ?g = gr_Cols g" "BlankCell ?g = default_cell"
    using backdropD(1) [of ?g g] by (auto simp: showing_def BlankCell_default)
  have len: "n < length (active_screen g)" "length (active_screen g ! n) = gr_Cols g"
    using assms(2) Suc.prems by (auto simp: sized_def)
  then have row: "active_screen ?g ! n = active_screen g ! n"
    using IH by (simp add: showing_def nth_append)
  have "(replicate n ?row @ drop n (active_screen g))[n := ?row] = replicate (Suc n) ?row @ drop (Suc n) (active_screen g)"
    using len(1) by (simp add: list_update_append drop_Suc_Cons replicate_append_same flip: Cons_nth_drop_Suc)
  moreover have "ClearLine default_cell (gr_Cols g) (active_screen g ! n) = ?row"
    using len(2) by (simp add: ClearLine_row)
  ultimately show ?case
    using IH row g by (simp add: showing_def clear_active_picture)
qed

lemma erase_screen:
  assumes "gr_Pen g = default_pen" and "sized g"
  shows "showing g (blank_screen (gr_Cols g) (gr_Rows g)) default_pen (EraseInDisplay 2 g)"
    and "gr_CursorRow (EraseInDisplay 2 g) = gr_CursorRow g"
proof -
  let ?g = "g\<lparr>gr_PendingWrap := False\<rparr>"
  have "sized ?g" using assms(2) by (simp add: sized_def)
  from fold_clear_active [of ?g, OF _ this, of "gr_Rows g"]
  show "showing g (blank_screen (gr_Cols g) (gr_Rows g)) default_pen (EraseInDisplay 2 g)"
    "gr_CursorRow (EraseInDisplay 2 g) = gr_CursorRow g"
    using assms by (simp_all add: EraseInDisplay_def Let_def showing_def blank_screen_def sized_def)
qed

text \<open>\<open>blank_from g g'\<close>: \<open>g'\<close> is \<open>g\<close> with an empty screen, the cursor in the corner and the default pen.\<close>

definition blank_from :: "Grid \<Rightarrow> Grid \<Rightarrow> bool" where
  "blank_from g g' \<longleftrightarrow> showing g (blank_screen (gr_Cols g) (gr_Rows g)) default_pen g' \<and>
     gr_CursorRow g' = 0 \<and> gr_CursorCol g' = 0 \<and> \<not> gr_PendingWrap g'"

lemma feeds_clear:
  assumes "sized g" and "open_screen g" and "0 < gr_Cols g"
  shows "\<exists>g'. feeds clear_bytes g g' \<and> blank_from g g'"
proof -
  let ?g0 = "g\<lparr>gr_Pen := default_pen\<rparr>"
  let ?g1 = "EraseInDisplay 2 ?g0"
  have "sized ?g0" using assms(1) by (simp add: sized_def)
  then have s: "showing g (blank_screen (gr_Cols g) (gr_Rows g)) default_pen ?g1"
    using erase_screen [of ?g0] by (simp add: showing_def)
  then have o: "open_screen ?g1" "0 < gr_Rows ?g1" "0 < gr_Cols ?g1"
    using assms open_backdrop [of ?g1 g] backdropD(1,2) [of ?g1 g] by (auto simp: showing_def open_screen_def)
  have "at_line ?g1 0 (MoveCursorTo 1 1 ?g1)"
    using cup_at_line [OF o] by simp
  then have "blank_from g (MoveCursorTo 1 1 ?g1)"
    using s by (simp add: at_line_def blank_from_def showing_def)
  then show ?thesis
    using feeds_append [OF feeds_reset_pen feeds_append [OF feeds_erase feeds_home]] unfolding clear_bytes_def by blast
qed

subsection \<open>Scrolling rows into the history\<close>

text \<open>As \<open>backdrop\<close>, without the scrollback.\<close>

definition hbackdrop :: "Grid \<Rightarrow> Grid" where
  "hbackdrop g = (backdrop g)\<lparr>gr_History := [], gr_HistoryStart := 0, gr_HistorySize := 0\<rparr>"

lemma backdrop_hbackdrop: "backdrop g = backdrop g' \<Longrightarrow> hbackdrop g = hbackdrop g'"
  by (simp add: hbackdrop_def)

lemma hbackdrop_update [simp]:
  "hbackdrop (g\<lparr>gr_Main := m\<rparr>) = hbackdrop g" "hbackdrop (g\<lparr>gr_Alt := m\<rparr>) = hbackdrop g"
  "hbackdrop (g\<lparr>gr_CursorRow := n\<rparr>) = hbackdrop g" "hbackdrop (g\<lparr>gr_CursorCol := n\<rparr>) = hbackdrop g"
  "hbackdrop (g\<lparr>gr_PendingWrap := b\<rparr>) = hbackdrop g" "hbackdrop (g\<lparr>gr_Pen := pen\<rparr>) = hbackdrop g"
  "hbackdrop (g\<lparr>gr_History := h\<rparr>) = hbackdrop g" "hbackdrop (g\<lparr>gr_HistoryStart := n\<rparr>) = hbackdrop g"
  "hbackdrop (g\<lparr>gr_HistorySize := n\<rparr>) = hbackdrop g"
  by (simp_all add: hbackdrop_def) (simp_all add: backdrop_def)

lemma hbackdropD:
  assumes "hbackdrop g = hbackdrop g'"
  shows "gr_Cols g = gr_Cols g'" "gr_Rows g = gr_Rows g'" "gr_Modes g = gr_Modes g'" "gr_ScrollTop g = gr_ScrollTop g'"
    "gr_ScrollBot g = gr_ScrollBot g'" "gr_CharsetG0 g = gr_CharsetG0 g'" "gr_CharsetG1 g = gr_CharsetG1 g'"
    "gr_CharsetActive g = gr_CharsetActive g'" "gr_ScrollbackLimit g = gr_ScrollbackLimit g'" "gr_SavedMain g = gr_SavedMain g'"
    "gr_SavedAlt g = gr_SavedAlt g'" "gr_CursorStyle g = gr_CursorStyle g'"
  using assms by (cases g; cases g'; simp add: hbackdrop_def backdrop_def)+

lemma hbackdrop_modes: "hbackdrop g = hbackdrop g' \<Longrightarrow> ModeSet m g = ModeSet m g' \<and> IsAltScreen g = IsAltScreen g'"
  using hbackdropD(3) [of g g'] by (simp add: ModeSet_def IsAltScreen_def)

lemma hbackdrop_kinds: "hbackdrop g = hbackdrop g' \<Longrightarrow> plain g = plain g' \<and> open_screen g = open_screen g'"
  using hbackdropD(1,2,4,5,6,7,8) [of g g'] hbackdrop_modes [of g g' Irm] hbackdrop_modes [of g g' Decom]
  by (simp add: plain_def open_screen_def)

lemma push_picture:
  "hbackdrop (PushScrollback r g) = hbackdrop g" "gr_Main (PushScrollback r g) = gr_Main g"
  "gr_Alt (PushScrollback r g) = gr_Alt g" "gr_CursorRow (PushScrollback r g) = gr_CursorRow g"
  "gr_CursorCol (PushScrollback r g) = gr_CursorCol g" "gr_PendingWrap (PushScrollback r g) = gr_PendingWrap g"
  "gr_Pen (PushScrollback r g) = gr_Pen g"
  by (simp_all add: PushScrollback_def Let_def)

lemma std_rotate_first: "xs \<noteq> [] \<Longrightarrow> std_rotate 0 1 (length xs) xs = tl xs @ [hd xs]"
  by (cases xs) (simp_all add: std_rotate_def)

text \<open>A line feed at the bottom of an open main screen.\<close>

lemma scroll_one:
  assumes "\<not> IsAltScreen g" and "open_screen g" and "sized g" and "gr_Pen g = default_pen"
    and "ring_ok g" and "gr_HistorySize g < gr_ScrollbackLimit g"
  shows "gr_Main (ScrollRegionUp 1 True g) = tl (gr_Main g) @ [replicate (gr_Cols g) default_cell]"
    and "scrollback (ScrollRegionUp 1 True g) = scrollback g @ [hd (gr_Main g)]"
    and "ring_ok (ScrollRegionUp 1 True g)" and "hbackdrop (ScrollRegionUp 1 True g) = hbackdrop g"
    and "gr_Alt (ScrollRegionUp 1 True g) = gr_Alt g" and "gr_CursorRow (ScrollRegionUp 1 True g) = gr_CursorRow g"
    and "gr_CursorCol (ScrollRegionUp 1 True g) = gr_CursorCol g" and "gr_PendingWrap (ScrollRegionUp 1 True g) = gr_PendingWrap g"
    and "gr_Pen (ScrollRegionUp 1 True g) = default_pen"
proof -
  let ?p = "PushScrollback 0 g" and ?rows = "gr_Rows g"
  have rows: "0 < ?rows" "?rows \<le> 1024" "gr_ScrollTop g = 0" "gr_ScrollBot g = ?rows - 1"
    using assms(2) by (auto simp: open_screen_def MAX_ROWS_def)
  have main: "length (gr_Main g) = ?rows" "gr_Main g \<noteq> []" "\<And>l. l \<in> set (gr_Main g) \<Longrightarrow> length l = gr_Cols g"
    using assms(1,3) rows by (auto simp: sized_def active_screen_def)
  note same = hbackdropD [OF push_picture(1), of 0 g]
  have alt: "\<not> IsAltScreen ?p" using assms(1) hbackdrop_modes [OF push_picture(1), of undefined 0 g] by simp
  define q where "q = ?p\<lparr>gr_Main := tl (gr_Main g) @ [hd (gr_Main g)]\<rparr>"
  have up: "ScrollRegionUp 1 True g = clear_active (?rows - 1) q"
  proof -
    have h: "region_height g = ?rows" "\<not> 1 > ?rows" "?rows - 1 + 1 = ?rows" "u16_minus ?rows 1 = ?rows - 1"
        "[?rows - 1..<?rows] = [?rows - 1]" "[0..<1 :: nat] = [0]"
      using rows upt_conv_Cons [of "?rows - 1" ?rows] by (simp_all add: region_height_def)
    have rot: "rotate_active 0 1 ?rows ?p = q"
      using alt std_rotate_first [OF main(2)] main(1) by (simp add: rotate_active_def push_picture q_def)
    have "gr_ScrollTop q = 0" "gr_ScrollBot q = ?rows - 1"
      using same(4,5) rows by (simp_all add: q_def)
    then show ?thesis
      using h rot rows(3,4) same(4,5) assms(1) by (simp add: ScrollRegionUp_def Let_def)
  qed
  have q: "\<not> IsAltScreen q" "gr_Cols q = gr_Cols g" "BlankCell q = default_cell" "gr_Main q = tl (gr_Main g) @ [hd (gr_Main g)]"
    using alt same assms(4) by (simp_all add: q_def push_picture BlankCell_default)
  have len: "length (tl (gr_Main g)) = ?rows - 1" "length (hd (gr_Main g)) = gr_Cols g" using main rows by auto
  have clear: "clear_active (?rows - 1) q = q\<lparr>gr_Main := tl (gr_Main g) @ [replicate (gr_Cols g) default_cell]\<rparr>"
    using q len by (simp add: clear_active_def upd_line_def list_update_append ClearLine_row nth_append)
  show "gr_Main (ScrollRegionUp 1 True g) = tl (gr_Main g) @ [replicate (gr_Cols g) default_cell]"
    "hbackdrop (ScrollRegionUp 1 True g) = hbackdrop g"
    "gr_Alt (ScrollRegionUp 1 True g) = gr_Alt g" "gr_CursorRow (ScrollRegionUp 1 True g) = gr_CursorRow g"
    "gr_CursorCol (ScrollRegionUp 1 True g) = gr_CursorCol g" "gr_PendingWrap (ScrollRegionUp 1 True g) = gr_PendingWrap g"
    "gr_Pen (ScrollRegionUp 1 True g) = default_pen"
    unfolding up clear using assms(4) by (simp_all add: q_def push_picture)
  have "length (gr_Main g ! 0) = gr_Cols g" "gr_Main g ! 0 = hd (gr_Main g)"
    using len main(2) by (simp_all add: hd_conv_nth)
  then have "scrollback ?p = scrollback g @ [hd (gr_Main g)]" "ring_ok ?p"
    using scrollback_push [OF assms(5), of 0] assms(6) by simp_all
  then show "scrollback (ScrollRegionUp 1 True g) = scrollback g @ [hd (gr_Main g)]" "ring_ok (ScrollRegionUp 1 True g)"
    unfolding up clear by (simp_all add: q_def scrollback_def ring_ok_def)
qed

text \<open>The tape: after \<open>n\<close> line feeds from the corner of an empty screen, the screen is a window on a tape of rows
  that ends at row \<open>n\<close> once it is full, and what has left the window at the top is the scrollback.\<close>

definition scrolled :: "Grid \<Rightarrow> nat \<Rightarrow> nat" where
  "scrolled g n = n - (gr_Rows g - 1)"

definition on_tape :: "Grid \<Rightarrow> (nat \<Rightarrow> row) \<Rightarrow> nat \<Rightarrow> Grid \<Rightarrow> bool" where
  "on_tape g0 T n g \<longleftrightarrow> hbackdrop g = hbackdrop g0 \<and> gr_Alt g = gr_Alt g0 \<and> ring_ok g \<and>
     gr_Main g = map (\<lambda>j. T (scrolled g0 n + j)) [0..<gr_Rows g0] \<and> scrollback g = map T [0..<scrolled g0 n] \<and>
     gr_CursorRow g = n - scrolled g0 n"

definition main_open :: "Grid \<Rightarrow> bool" where
  "main_open g \<longleftrightarrow> \<not> IsAltScreen g \<and> open_screen g \<and> plain g"

lemma main_open_hbackdrop: "hbackdrop g = hbackdrop g0 \<Longrightarrow> main_open g = main_open g0"
  using hbackdrop_modes [of g g0] hbackdrop_kinds [of g g0] by (simp add: main_open_def)

lemma line_feed_tape:
  assumes g0: "main_open g0" and T: "\<And>i. length (T i) = gr_Cols g0" "T (Suc n) = replicate (gr_Cols g0) default_cell"
    and g: "on_tape g0 T n g" "gr_CursorCol g = 0" "gr_Pen g = default_pen" and cap: "scrolled g0 (Suc n) \<le> gr_ScrollbackLimit g0"
  shows "on_tape g0 T (Suc n) (LineFeed g)" "gr_CursorCol (LineFeed g) = 0" "gr_Pen (LineFeed g) = default_pen"
    "\<not> gr_PendingWrap (LineFeed g)"
proof -
  define h where "h = g\<lparr>gr_PendingWrap := False\<rparr>"
  have col: "g\<lparr>gr_CursorCol := 0, gr_PendingWrap := False\<rparr> = h" using g(2) by (cases g) (simp add: h_def)
  have hb: "hbackdrop h = hbackdrop g0" using g(1) by (simp add: on_tape_def h_def)
  have rows: "gr_Rows h = gr_Rows g0" "gr_Cols h = gr_Cols g0" "gr_ScrollbackLimit h = gr_ScrollbackLimit g0"
      "0 < gr_Rows g0" "gr_ScrollBot h = gr_Rows g0 - 1"
    using hbackdropD [OF hb] g0 by (simp_all add: main_open_def open_screen_def)
  have open_h: "\<not> IsAltScreen h" "open_screen h"
    using main_open_hbackdrop [OF hb] g0 by (simp_all add: main_open_def)
  have lf: "LineFeed g = (if gr_CursorRow h = gr_Rows g0 - 1 then ScrollRegionUp 1 True h
      else if gr_CursorRow h < gr_Rows g0 - 1 then h\<lparr>gr_CursorRow := gr_CursorRow h + 1\<rparr> else h)"
    using rows col by (simp add: LineFeed_def Let_def h_def)
  have tape: "on_tape g0 T n h" "gr_CursorCol h = 0" "gr_Pen h = default_pen" "\<not> gr_PendingWrap h"
    using g by (simp_all add: on_tape_def h_def scrollback_def ring_ok_def)
  have "on_tape g0 T (Suc n) (LineFeed g) \<and> gr_CursorCol (LineFeed g) = 0 \<and> gr_Pen (LineFeed g) = default_pen \<and>
    \<not> gr_PendingWrap (LineFeed g)"
  proof (cases "n < gr_Rows g0 - 1")
    case True
    then have "scrolled g0 n = 0" "scrolled g0 (Suc n) = 0" "gr_CursorRow h = n"
      using tape(1) by (simp_all add: scrolled_def on_tape_def)
    then show ?thesis
      using True tape lf by (simp add: on_tape_def scrollback_def ring_ok_def)
  next
    case False
    then have s: "scrolled g0 (Suc n) = Suc (scrolled g0 n)" "gr_CursorRow h = gr_Rows g0 - 1"
        "scrolled g0 n + gr_Rows g0 = Suc n"
      using tape(1) rows(4) by (auto simp: scrolled_def on_tape_def)
    have sized: "sized h"
      using tape(1) open_h rows T(1) by (auto simp: sized_def active_screen_def on_tape_def)
    have "length (scrollback h) = scrolled g0 n" using tape(1) by (simp add: on_tape_def)
    then have room: "gr_HistorySize h < gr_ScrollbackLimit h" using cap s(1) rows(3) by simp
    note up = scroll_one [OF open_h sized tape(3) _ room]
    have ring: "ring_ok h" using tape(1) by (simp add: on_tape_def)
    have split: "[0..<gr_Rows g0] = 0 # map Suc [0..<gr_Rows g0 - 1]"
      using rows(4) by (simp add: upt_conv_Cons map_Suc_upt)
    have "gr_Main h = T (scrolled g0 n) # map (\<lambda>j. T (Suc (scrolled g0 n + j))) [0..<gr_Rows g0 - 1]"
      using tape(1) by (simp add: on_tape_def split)
    moreover have "map (\<lambda>j. T (scrolled g0 (Suc n) + j)) [0..<gr_Rows g0] =
        map (\<lambda>j. T (Suc (scrolled g0 n + j))) [0..<gr_Rows g0 - 1] @ [replicate (gr_Cols g0) default_cell]"
      using rows(4) s T(2) upt_Suc_append [of 0 "gr_Rows g0 - 1"] by simp
    ultimately show ?thesis
      using up [OF ring] lf s tape rows hb by (simp add: on_tape_def)
  qed
  then show "on_tape g0 T (Suc n) (LineFeed g)" "gr_CursorCol (LineFeed g) = 0" "gr_Pen (LineFeed g) = default_pen"
    "\<not> gr_PendingWrap (LineFeed g)" by simp_all
qed

lemma clean_pen: "pen_ok pen \<Longrightarrow> \<not> pen_dirty pen \<Longrightarrow> pen = default_pen"
  by (cases pen) (simp add: pen_ok_def pen_dirty_def default_pen_def)

definition blank_row :: "Grid \<Rightarrow> row" where
  "blank_row g = replicate (gr_Cols g) default_cell"

text \<open>A tape that is well formed, and empty from row \<open>n\<close> on.\<close>

definition tape_ok :: "Grid \<Rightarrow> (nat \<Rightarrow> row) \<Rightarrow> nat \<Rightarrow> bool" where
  "tape_ok g0 T n \<longleftrightarrow> (\<forall>i. row_ok (gr_Cols g0) (T i)) \<and> (\<forall>i\<ge>n. T i = blank_row g0)"

lemma tape_okD: "tape_ok g0 T n \<Longrightarrow> length (T i) = gr_Cols g0" "tape_ok g0 T n \<Longrightarrow> n \<le> i \<Longrightarrow> T i = replicate (gr_Cols g0) default_cell"
  by (auto simp: tape_ok_def row_okD(1) blank_row_def)

lemma history_line:
  assumes g0: "main_open g0" and T: "tape_ok g0 T n" and g: "on_tape g0 T n g" "gr_CursorCol g = 0" "\<not> gr_PendingWrap g" "gr_Pen g = default_pen"
    and cap: "scrolled g0 (Suc n) \<le> gr_ScrollbackLimit g0" and ok: "row_ok (gr_Cols g0) line"
  shows "\<exists>g' row. feeds (fst (encode_history_line cm (gr_Cols g0) line default_pen)) g g' \<and>
    tape_ok g0 (T(n := row)) (Suc n) \<and> on_tape g0 (T(n := row)) (Suc n) g' \<and> gr_CursorCol g' = 0 \<and> \<not> gr_PendingWrap g' \<and>
    gr_Pen g' = default_pen \<and> map (look Full) row = map (look cm) line"
    and "snd (encode_history_line cm (gr_Cols g0) line default_pen) = default_pen"
proof -
  define used where "used = used_extent line (gr_Cols g0)"
  define bs pen where "bs = fst (encode_cells cm line used 0 default_pen)" and "pen = snd (encode_cells cm line used 0 default_pen)"
  have hb: "hbackdrop g = hbackdrop g0" using g(1) by (simp add: on_tape_def)
  note dims = hbackdropD(1,2) [OF hb]
  have mo: "main_open g" using main_open_hbackdrop [OF hb] g0 by simp
  then have act: "active_screen g = map (\<lambda>j. T (scrolled g0 n + j)) [0..<gr_Rows g0]" "plain g" "0 < gr_Rows g0"
    using g(1) dims by (simp_all add: main_open_def active_screen_def on_tape_def open_screen_def)
  let ?r = "n - scrolled g0 n"
  have r: "?r < gr_Rows g0" "scrolled g0 n \<le> n" using act(3) by (auto simp: scrolled_def)
  have row: "?r < length (active_screen g)" "active_screen g ! ?r = replicate (gr_Cols g) default_cell"
    using act r tape_okD(2) [OF T, of n] dims by simp_all
  have s: "showing g (active_screen g) default_pen g" "gr_CursorRow g = ?r"
    using g by (simp_all add: showing_def on_tape_def)
  have ok': "row_ok (gr_Cols g) line" "used = used_extent line (gr_Cols g)" using ok dims by (simp_all add: used_def)
  from paint_row [OF s g(2,3) _ act(2) row ok', of cm]
  obtain g1 l where g1: "feeds bs g g1" "pen_ok pen" "showing g ((active_screen g)[?r := l]) pen g1" "gr_CursorRow g1 = ?r"
      "row_ok (gr_Cols g0) l" "map (look Full) l = map (look cm) line"
    using dims by (auto simp: bs_def pen_def default_pen_def pen_ok_def)
  let ?T = "T(n := l)"
  have T': "tape_ok g0 ?T (Suc n)" using T g1(5) by (auto simp: tape_ok_def)
  have bd: "backdrop g1 = backdrop g" using g1(3) by (simp add: showing_def)
  have alt: "\<not> IsAltScreen g" "\<not> IsAltScreen g1"
    using mo backdrop_modes [OF bd] by (simp_all add: main_open_def)
  have "on_tape g0 ?T n g1"
  proof -
    have "gr_Main g1 = (map (\<lambda>j. T (scrolled g0 n + j)) [0..<gr_Rows g0])[?r := l]"
      using g1(3) alt act(1) by (simp add: showing_def active_screen_def)
    also have "\<dots> = map (\<lambda>j. ?T (scrolled g0 n + j)) [0..<gr_Rows g0]"
      using r by (intro nth_equalityI) (auto simp: nth_list_update)
    finally have "gr_Main g1 = map (\<lambda>j. ?T (scrolled g0 n + j)) [0..<gr_Rows g0]" .
    moreover have "scrollback g1 = map ?T [0..<scrolled g0 n]" "ring_ok g1" "gr_Alt g1 = gr_Alt g0" "hbackdrop g1 = hbackdrop g0"
    proof -
      have "scrollback g1 = scrollback g" "ring_ok g1 = ring_ok g"
        using backdropD [OF bd] by (simp_all add: scrollback_def ring_ok_def)
      moreover have "map ?T [0..<scrolled g0 n] = map T [0..<scrolled g0 n]" using r(2) by simp
      ultimately show "scrollback g1 = map ?T [0..<scrolled g0 n]" "ring_ok g1" using g(1) by (simp_all add: on_tape_def)
      show "gr_Alt g1 = gr_Alt g0" using g(1) g1(3) alt by (simp add: on_tape_def showing_def other_screen_def)
      show "hbackdrop g1 = hbackdrop g0" using backdrop_hbackdrop [OF bd] hb by simp
    qed
    ultimately show ?thesis using g1(4) by (simp add: on_tape_def)
  qed
  then have tape: "on_tape g0 ?T n (g1\<lparr>gr_Pen := p, gr_CursorCol := 0, gr_PendingWrap := False\<rparr>)" for p
    by (simp add: on_tape_def scrollback_def ring_ok_def)
  have crlf: "\<exists>g'. feeds CRLF h g' \<and> on_tape g0 ?T (Suc n) g' \<and> gr_CursorCol g' = 0 \<and> \<not> gr_PendingWrap g' \<and> gr_Pen g' = default_pen"
    if "h = g1\<lparr>gr_Pen := default_pen\<rparr>" for h
    using line_feed_tape [OF g0 tape_okD(1) [OF T'] tape_okD(2) [OF T'] tape, of default_pen] cap feeds_crlf [of h] that
    by (auto simp: CarriageReturn_def intro!: exI [of _ "LineFeed (CarriageReturn h)"])
  have enc: "encode_history_line cm (gr_Cols g0) line default_pen =
      (bs @ (if pen_dirty pen then esc_csi ''0m'' else []) @ CRLF, if pen_dirty pen then default_pen else pen)"
    by (simp add: encode_history_line_def case_prod_beta bs_def pen_def used_def Let_def)
  have "\<exists>g'. feeds ((if pen_dirty pen then esc_csi ''0m'' else []) @ CRLF) g1 g' \<and> on_tape g0 ?T (Suc n) g' \<and>
      gr_CursorCol g' = 0 \<and> \<not> gr_PendingWrap g' \<and> gr_Pen g' = default_pen"
  proof (cases "pen_dirty pen")
    case True
    obtain g' where "feeds CRLF (g1\<lparr>gr_Pen := default_pen\<rparr>) g'" "on_tape g0 ?T (Suc n) g'" "gr_CursorCol g' = 0"
        "\<not> gr_PendingWrap g'" "gr_Pen g' = default_pen"
      using crlf [OF refl] by blast
    with feeds_append [OF feeds_reset_pen [of g1]] True show ?thesis by (intro exI [of _ g']) simp
  next
    case False
    have "g1\<lparr>gr_Pen := default_pen\<rparr> = g1"
      using g1(3) clean_pen [OF g1(2) False] by (cases g1) (simp add: showing_def)
    with crlf [of g1] False show ?thesis by simp
  qed
  then show "\<exists>g' row. feeds (fst (encode_history_line cm (gr_Cols g0) line default_pen)) g g' \<and>
    tape_ok g0 (T(n := row)) (Suc n) \<and> on_tape g0 (T(n := row)) (Suc n) g' \<and> gr_CursorCol g' = 0 \<and> \<not> gr_PendingWrap g' \<and>
    gr_Pen g' = default_pen \<and> map (look Full) row = map (look cm) line"
    using feeds_append [OF g1(1)] T' g1(6) unfolding enc fst_conv by blast
  show "snd (encode_history_line cm (gr_Cols g0) line default_pen) = default_pen"
    using clean_pen [OF g1(2)] by (simp add: enc)
qed

definition tape_ready :: "Grid \<Rightarrow> (nat \<Rightarrow> row) \<Rightarrow> nat \<Rightarrow> Grid \<Rightarrow> bool" where
  "tape_ready g0 T n g \<longleftrightarrow> on_tape g0 T n g \<and> gr_CursorCol g = 0 \<and> \<not> gr_PendingWrap g \<and> gr_Pen g = default_pen"

lemma ScrollbackLine_scrollback:
  "i < gr_HistorySize g \<Longrightarrow> gr_History g \<noteq> [] \<Longrightarrow> ScrollbackLine g i = Some (scrollback g ! i)"
  by (simp add: ScrollbackLine_def nth_scrollback)

lemma history_lines:
  assumes g0: "main_open g0" and src: "gr_Cols src = gr_Cols g0" "gr_History src \<noteq> []"
  shows "\<forall>i\<in>set is. i < gr_HistorySize src \<and> row_ok (gr_Cols g0) (scrollback src ! i) \<Longrightarrow> tape_ok g0 T n \<Longrightarrow> tape_ready g0 T n g \<Longrightarrow>
    n + length is \<le> gr_ScrollbackLimit g0 \<Longrightarrow>
    (\<exists>g' T'. feeds (fst (encode_history_lines cm src is default_pen)) g g' \<and> tape_ok g0 T' (n + length is) \<and>
      tape_ready g0 T' (n + length is) g' \<and> (\<forall>j<n. T' j = T j) \<and>
      (\<forall>k<length is. map (look Full) (T' (n + k)) = map (look cm) (scrollback src ! (is ! k))))"
proof (induction "is" arbitrary: T n g)
  case Nil
  then show ?case by (auto intro!: exI [of _ g] exI [of _ T])
next
  case (Cons i "is")
  let ?line = "scrollback src ! i"
  have line: "ScrollbackLine src i = Some ?line" "row_ok (gr_Cols g0) ?line"
    using Cons.prems(1) src(2) by (simp_all add: ScrollbackLine_scrollback)
  have cap: "scrolled g0 (Suc n) \<le> gr_ScrollbackLimit g0" using Cons.prems(4) by (simp add: scrolled_def)
  obtain g1 row where g1: "feeds (fst (encode_history_line cm (gr_Cols g0) ?line default_pen)) g g1"
      "tape_ok g0 (T(n := row)) (Suc n)" "tape_ready g0 (T(n := row)) (Suc n) g1" "map (look Full) row = map (look cm) ?line"
    using history_line(1) [OF g0 Cons.prems(2) _ _ _ _ cap line(2), of g cm] Cons.prems(3) by (auto simp: tape_ready_def)
  obtain g' T' where g': "feeds (fst (encode_history_lines cm src is default_pen)) g1 g'" "tape_ok g0 T' (Suc n + length is)"
      "tape_ready g0 T' (Suc n + length is) g'" "\<forall>j<Suc n. T' j = (T(n := row)) j"
      "\<forall>k<length is. map (look Full) (T' (Suc n + k)) = map (look cm) (scrollback src ! (is ! k))"
    using Cons.IH [OF _ g1(2,3)] Cons.prems(1,4) by auto
  have pen: "snd (encode_history_line cm (gr_Cols g0) ?line default_pen) = default_pen"
    using history_line(2) [OF g0 Cons.prems(2) _ _ _ _ cap line(2), of g cm] Cons.prems(3) by (simp add: tape_ready_def)
  then have "fst (encode_history_lines cm src (i # is) default_pen) =
      fst (encode_history_line cm (gr_Cols g0) ?line default_pen) @ fst (encode_history_lines cm src is default_pen)"
    using line(1) src(1) by (simp add: case_prod_beta Let_def)
  then have "feeds (fst (encode_history_lines cm src (i # is) default_pen)) g g'"
    using feeds_append [OF g1(1) g'(1)] by simp
  moreover have "map (look Full) (T' (n + k)) = map (look cm) (scrollback src ! ((i # is) ! k))" if "k < length (i # is)" for k
    using g'(4,5) g1(4) that by (cases k) auto
  moreover have "\<forall>j<n. T' j = T j" using g'(4) by simp
  ultimately show ?case
    using g'(2,3) by (intro exI [of _ g'] exI [of _ T']) simp
qed

lemma line_feeds:
  assumes "main_open g0" "tape_ok g0 T n"
  shows "n \<le> m \<Longrightarrow> tape_ready g0 T m g \<Longrightarrow> scrolled g0 (m + k) \<le> gr_ScrollbackLimit g0 \<Longrightarrow>
    \<exists>g'. feeds (replicate k 0x0A) g g' \<and> tape_ready g0 T (m + k) g'"
proof (induction k arbitrary: m g)
  case 0
  then show ?case by (auto intro!: exI [of _ g])
next
  case (Suc k)
  have "feeds [0x0A] g (LineFeed g)"
    using feeds_control [of "0x0A" g] by (simp add: HandleControl_def)
  moreover have "scrolled g0 (Suc m) \<le> gr_ScrollbackLimit g0" using Suc.prems(3) by (simp add: scrolled_def)
  then have "tape_ready g0 T (Suc m) (LineFeed g)"
    using line_feed_tape [of g0 T m g, OF assms(1) tape_okD(1) [OF assms(2)] tape_okD(2) [OF assms(2)]] Suc.prems
    by (simp add: tape_ready_def)
  ultimately show ?case
    using Suc.IH [of "Suc m" "LineFeed g"] Suc.prems feeds_append [of "[0x0A]" g "LineFeed g" "replicate k 0x0A"] by auto
qed

lemma empty_tape:
  assumes g: "main_open g" and "gr_Main g = blank_screen (gr_Cols g) (gr_Rows g)" and "gr_HistorySize g = 0" and "ring_ok g"
    and "gr_CursorRow g = 0" "gr_CursorCol g = 0" "\<not> gr_PendingWrap g" "gr_Pen g = default_pen"
  shows "tape_ok g (\<lambda>_. blank_row g) 0" "tape_ready g (\<lambda>_. blank_row g) 0 g"
  using assms default_cell_blank
  by (simp_all add: tape_ok_def tape_ready_def on_tape_def blank_row_def scrolled_def scrollback_def blank_screen_def map_replicate_const)

lemma wf_scrollback_row: "grid_wf g \<Longrightarrow> i < gr_HistorySize g \<Longrightarrow> row_ok (gr_Cols g) (scrollback g ! i)"
proof -
  assume g: "grid_wf g" and i: "i < gr_HistorySize g"
  then have "gr_ScrollbackLimit g > 0" "screen_ok (gr_Cols g) (gr_ScrollbackLimit g) (gr_History g)"
    by (auto simp: wf_defs)
  then show ?thesis
    using i by (simp add: nth_scrollback screen_ok_nth)
qed

lemma history_restored:
  assumes t: "main_open t" "gr_Main t = blank_screen (gr_Cols t) (gr_Rows t)" "gr_HistorySize t = 0" "ring_ok t"
      "gr_CursorRow t = 0" "gr_CursorCol t = 0" "\<not> gr_PendingWrap t" "gr_Pen t = default_pen"
    and g: "grid_wf g" "gr_Cols g = gr_Cols t" "gr_Rows g = gr_Rows t"
    and ep: "ep_HistStart ep + ep_HistCount ep \<le> gr_HistorySize g" "ep_HistCount ep \<le> gr_ScrollbackLimit t"
  shows "\<exists>t'. feeds (history_bytes g ep) t t' \<and> hbackdrop t' = hbackdrop t \<and> gr_Alt t' = gr_Alt t \<and> sized t' \<and> ring_ok t' \<and>
    map (map (look Full)) (scrollback t') =
    map (map (look (ep_Color ep))) (take (ep_HistCount ep) (drop (ep_HistStart ep) (scrollback g)))"
proof (cases "ep_HistCount ep = 0")
  case True
  have "sized t" using t(1,2) by (auto simp: sized_def active_screen_def main_open_def blank_screen_def)
  with True t(3,4) show ?thesis by (intro exI [of _ t]) (simp add: history_bytes_def scrollback_def)
next
  case False
  let ?is = "[ep_HistStart ep..<ep_HistStart ep + ep_HistCount ep]" and ?n = "ep_HistCount ep" and ?cm = "ep_Color ep"
  note start = empty_tape [OF t]
  have "gr_History g \<noteq> []" using False ep(1) g(1) by (auto simp: wf_defs screen_ok_def)
  moreover have "row_ok (gr_Cols t) (scrollback g ! i)" if "i < gr_HistorySize g" for i
    using wf_scrollback_row [OF g(1) that] g(2) by simp
  ultimately obtain t1 T where t1: "feeds (fst (encode_history_lines ?cm g ?is default_pen)) t t1" "tape_ok t T ?n" "tape_ready t T ?n t1"
      "\<forall>k<?n. map (look Full) (T k) = map (look ?cm) (scrollback g ! (ep_HistStart ep + k))"
    using history_lines [OF t(1) g(2) _ _ start, of ?is ?cm] ep by auto
  have cap: "scrolled t (?n + (gr_Rows t - 1)) = ?n" by (simp add: scrolled_def)
  with line_feeds [OF t(1) t1(2) le_refl t1(3), of "gr_Rows t - 1"] ep(2)
  obtain t2 where t2: "feeds (replicate (gr_Rows t - 1) 0x0A) t1 t2" "tape_ready t T (?n + (gr_Rows t - 1)) t2"
    by auto
  then have tape: "hbackdrop t2 = hbackdrop t" "gr_Alt t2 = gr_Alt t" "ring_ok t2" "scrollback t2 = map T [0..<?n]"
      "gr_Main t2 = map (\<lambda>j. T (?n + j)) [0..<gr_Rows t]"
    by (simp_all add: tape_ready_def on_tape_def scrolled_def)
  have "map (map (look Full)) (scrollback t2) = map (map (look ?cm)) (take ?n (drop (ep_HistStart ep) (scrollback g)))"
    using t1(4) ep(1) tape(4) by (intro nth_equalityI) auto
  moreover have "sized t2"
    using tape(1,5) t(1) main_open_hbackdrop [OF tape(1)] hbackdropD(1,2) [OF tape(1)] tape_okD(1) [OF t1(2)]
    by (auto simp: sized_def active_screen_def main_open_def)
  moreover have "feeds (history_bytes g ep) t t2"
    using feeds_append [OF t1(1) t2(1)] False g(3) by (simp add: history_bytes_def EncodeHistory_def)
  ultimately show ?thesis using tape(1-3) by blast
qed

subsection \<open>Everything but the contents\<close>

text \<open>The contents: the screens, the scrollback and the size; what is left is set by the sequences at the end of a snapshot.\<close>

definition contents :: "Grid \<Rightarrow> Grid" where
  "contents g = g\<lparr>gr_CursorRow := 0, gr_CursorCol := 0, gr_PendingWrap := False, gr_ScrollTop := 0, gr_ScrollBot := 0,
     gr_Modes := 0, gr_Pen := default_pen, gr_SavedMain := default_saved, gr_SavedAlt := default_saved,
     gr_CharsetG0 := 0, gr_CharsetG1 := 0, gr_CharsetActive := 0, gr_CursorStyle := 0, gr_TabStops := []\<rparr>"

lemma contentsD:
  assumes "contents g = contents g'"
  shows "gr_Main g = gr_Main g'" "gr_Alt g = gr_Alt g'" "gr_History g = gr_History g'" "gr_HistoryStart g = gr_HistoryStart g'"
    "gr_HistorySize g = gr_HistorySize g'" "gr_Cols g = gr_Cols g'" "gr_Rows g = gr_Rows g'" "gr_ScrollbackLimit g = gr_ScrollbackLimit g'"
  using assms by (cases g; cases g'; simp add: contents_def)+

lemma contents_set_mode [simp]: "contents (set_mode_bit m v g) = contents g"
  by (simp add: contents_def set_mode_bit_def)

lemma contents_update [simp]:
  "contents (g\<lparr>gr_CharsetG0 := n\<rparr>) = contents g" "contents (g\<lparr>gr_CharsetG1 := n\<rparr>) = contents g"
  "contents (g\<lparr>gr_CharsetActive := n\<rparr>) = contents g" "contents (g\<lparr>gr_ScrollTop := n\<rparr>) = contents g"
  "contents (g\<lparr>gr_ScrollBot := n\<rparr>) = contents g" "contents (g\<lparr>gr_CursorStyle := n\<rparr>) = contents g"
  "contents (g\<lparr>gr_SavedMain := sc\<rparr>) = contents g" "contents (g\<lparr>gr_SavedAlt := sc\<rparr>) = contents g"
  "contents (g\<lparr>gr_TabStops := ts\<rparr>) = contents g" "contents (g\<lparr>gr_Modes := w\<rparr>) = contents g"
  by (simp_all add: contents_def)

lemma contents_ops [simp]:
  "contents (g\<lparr>gr_Pen := pen\<rparr>) = contents g" "contents (g\<lparr>gr_CursorRow := n\<rparr>) = contents g"
  "contents (g\<lparr>gr_CursorCol := n\<rparr>) = contents g" "contents (g\<lparr>gr_PendingWrap := b\<rparr>) = contents g"
  "contents (MoveCursorTo r c g) = contents g" "contents (SetScrollRegion a b' g) = contents g"
  "contents (ShiftCharset out g) = contents g" "contents (DesignateCharset gs d g) = contents g"
  "contents (SaveCursor g) = contents g" "contents (SetTabStop g) = contents g" "contents (ClearTabStop k g) = contents g"
  "contents (SetCursorStyle k g) = contents g" "contents (SetMode 6 v g) = contents g"
  by (simp_all add: contents_def MoveCursorTo_def SetScrollRegion_def ShiftCharset_def DesignateCharset_def SaveCursor_def
      SetTabStop_def ClearTabStop_def SetCursorStyle_def SetMode_def set_mode_bit_def Let_def)

text \<open>What a saved cursor becomes when it has been put in place, saved, and the state it needed undone.\<close>

definition kept_slot :: "EColorMode \<Rightarrow> SavedCursor \<Rightarrow> SavedCursor" where
  "kept_slot cm sc = sc\<lparr>sc_Pen := NormalizePen cm (sc_Pen sc), sc_PendingWrap := False\<rparr>"

definition settled :: "Grid \<Rightarrow> bool" where
  "settled g \<longleftrightarrow> open_screen g \<and> gr_CharsetG0 g = 0 \<and> gr_CharsetG1 g = 0 \<and> gr_CharsetActive g = 0"

definition placed :: "Grid \<Rightarrow> SavedCursor \<Rightarrow> Grid \<Rightarrow> bool" where
  "placed t sc t' \<longleftrightarrow> contents t' = contents t \<and> gr_CursorRow t' = sc_Row sc \<and> gr_CursorCol t' = sc_Col sc \<and> \<not> gr_PendingWrap t' \<and>
     gr_Pen t' = sc_Pen sc \<and> gr_CharsetG0 t' = sc_CharsetG0 sc \<and> gr_CharsetG1 t' = sc_CharsetG1 sc \<and>
     gr_CharsetActive t' = sc_CharsetActive sc \<and> ModeSet Decom t' = sc_Decom sc \<and>
     (\<forall>m. m \<noteq> Decom \<longrightarrow> ModeSet m t' = ModeSet m t) \<and> gr_SavedMain t' = gr_SavedMain t \<and> gr_SavedAlt t' = gr_SavedAlt t \<and>
     gr_ScrollTop t' \<le> gr_ScrollBot t' \<and> gr_ScrollBot t' < gr_Rows t \<and> (\<not> SlotNeedsState sc \<longrightarrow> settled t')"

lemma mode_frames [simp]:
  "ModeSet m (MoveCursorTo r c g) = ModeSet m g" "ModeSet m (SetScrollRegion a b' g) = ModeSet m g"
  "ModeSet m (ShiftCharset out g) = ModeSet m g" "ModeSet m (DesignateCharset gs d g) = ModeSet m g"
  "ModeSet m (SaveCursor g) = ModeSet m g" "ModeSet m (SetMode 6 v g) = (if m = Decom then v else ModeSet m g)"
  by (simp_all add: MoveCursorTo_def SetScrollRegion_def ShiftCharset_def DesignateCharset_def SaveCursor_def SetMode_def Let_def)

lemma feeds_charsets3:
  assumes "a \<le> 1" "b \<le> 1" "c \<le> 1"
  shows "feeds (charset_bytes a b c) g (g\<lparr>gr_CharsetG0 := a, gr_CharsetG1 := b, gr_CharsetActive := c\<rparr>)"
proof -
  have "a = 0 \<or> a = 1" "b = 0 \<or> b = 1" "c = 0 \<or> c = 1" using assms by auto
  then have "ShiftCharset (c = 1) (DesignateCharset 1 (if b = 0 then 0x42 else 0x30) (DesignateCharset 0 (if a = 0 then 0x42 else 0x30) g)) =
      g\<lparr>gr_CharsetG0 := a, gr_CharsetG1 := b, gr_CharsetActive := c\<rparr>"
    by (elim disjE) (simp_all add: ShiftCharset_def DesignateCharset_def)
  then show ?thesis using feeds_charsets [of a b c g] by simp
qed

lemma feeds_region3:
  assumes "a < b" "b < gr_Rows g" "gr_Rows g \<le> MAX_ROWS"
  shows "feeds (region_bytes (a + 1) (b + 1)) g (g\<lparr>gr_ScrollTop := a, gr_ScrollBot := b,
    gr_CursorRow := (if ModeSet Decom g then a else 0), gr_CursorCol := 0, gr_PendingWrap := False\<rparr>)"
proof -
  have "\<not> gr_Rows g \<le> a" using assms by simp
  then show ?thesis
    using feeds_region [of "a + 1" "b + 1" g] assms
    by (cases "ModeSet Decom g") (simp_all add: SetScrollRegion_def Let_def MAX_ROWS_def)
qed

lemma no_region: "gr_Rows g = 1 \<Longrightarrow> SetScrollRegion a b g = g"
  by (auto simp: SetScrollRegion_def Let_def)

text \<open>The region of a grid is at least two rows high, unless the screen has only one.\<close>

definition region_ok :: "Grid \<Rightarrow> bool" where
  "region_ok g \<longleftrightarrow> gr_ScrollBot g < gr_Rows g \<and> (gr_ScrollTop g < gr_ScrollBot g \<or> gr_Rows g = 1 \<and> gr_ScrollTop g = 0)"

lemma feeds_region4:
  assumes "region_ok t'" "gr_Rows t' = gr_Rows t" "open_screen t"
  shows "\<exists>r c w. feeds (region_bytes (gr_ScrollTop t' + 1) (gr_ScrollBot t' + 1)) t
    (t\<lparr>gr_ScrollTop := gr_ScrollTop t', gr_ScrollBot := gr_ScrollBot t', gr_CursorRow := r, gr_CursorCol := c, gr_PendingWrap := w\<rparr>)"
proof (cases "gr_Rows t = 1")
  case True
  have same: "gr_ScrollTop t' = gr_ScrollTop t" "gr_ScrollBot t' = gr_ScrollBot t"
    using True assms by (auto simp: region_ok_def open_screen_def)
  have eq: "t\<lparr>gr_ScrollTop := gr_ScrollTop t', gr_ScrollBot := gr_ScrollBot t', gr_CursorRow := gr_CursorRow t, gr_CursorCol := gr_CursorCol t,
      gr_PendingWrap := gr_PendingWrap t\<rparr> = t"
    using same by (cases t) simp
  have "feeds (region_bytes (gr_ScrollTop t' + 1) (gr_ScrollBot t' + 1)) t t"
    using feeds_region [of "gr_ScrollTop t' + 1" "gr_ScrollBot t' + 1" t] no_region [of t] assms True
    by (auto simp: region_ok_def)
  then have "feeds (region_bytes (gr_ScrollTop t' + 1) (gr_ScrollBot t' + 1)) t
      (t\<lparr>gr_ScrollTop := gr_ScrollTop t', gr_ScrollBot := gr_ScrollBot t', gr_CursorRow := gr_CursorRow t, gr_CursorCol := gr_CursorCol t,
      gr_PendingWrap := gr_PendingWrap t\<rparr>)"
    by (simp only: eq)
  then show ?thesis by blast
next
  case False
  then show ?thesis
    using feeds_region3 [of "gr_ScrollTop t'" "gr_ScrollBot t'" t] assms
    by (auto simp: region_ok_def open_screen_def)
qed

lemma set_mode_fields [simp]:
  "gr_ScrollTop (set_mode_bit m v g) = gr_ScrollTop g" "gr_ScrollBot (set_mode_bit m v g) = gr_ScrollBot g"
  "gr_SavedMain (set_mode_bit m v g) = gr_SavedMain g" "gr_SavedAlt (set_mode_bit m v g) = gr_SavedAlt g"
  "gr_CharsetG0 (set_mode_bit m v g) = gr_CharsetG0 g" "gr_CharsetG1 (set_mode_bit m v g) = gr_CharsetG1 g"
  "gr_CharsetActive (set_mode_bit m v g) = gr_CharsetActive g" "gr_Pen (set_mode_bit m v g) = gr_Pen g"
  "gr_Rows (set_mode_bit m v g) = gr_Rows g" "gr_Cols (set_mode_bit m v g) = gr_Cols g"
  "gr_TabStops (set_mode_bit m v g) = gr_TabStops g" "gr_CursorStyle (set_mode_bit m v g) = gr_CursorStyle g"
  "gr_CursorRow (set_mode_bit m v g) = gr_CursorRow g" "gr_CursorCol (set_mode_bit m v g) = gr_CursorCol g"
  "gr_PendingWrap (set_mode_bit m v g) = gr_PendingWrap g"
  by (simp_all add: set_mode_bit_def)

lemma origin_mode: "feeds (EmitPrivateMode 6 v) g ((set_mode_bit Decom v g)\<lparr>gr_CursorRow := (if v then gr_ScrollTop g else 0),
    gr_CursorCol := 0, gr_PendingWrap := False\<rparr>)"
  using feeds_private [of 6 v g] by (simp add: SetMode_def)

text \<open>An absolute move reaches the cell it names, whether or not rows count from the scroll region.\<close>

lemma feeds_goto:
  assumes "r < gr_Rows g" "c < gr_Cols g" "gr_Rows g \<le> MAX_ROWS" "gr_Cols g \<le> MAX_COLS"
    and "ModeSet Decom g \<Longrightarrow> gr_ScrollTop g \<le> r \<and> r \<le> gr_ScrollBot g"
  shows "feeds (cup_bytes ((if ModeSet Decom g then r - gr_ScrollTop g else r) + 1) (c + 1)) g
    (g\<lparr>gr_PendingWrap := False, gr_CursorRow := r, gr_CursorCol := c\<rparr>)"
proof -
  let ?n = "(if ModeSet Decom g then r - gr_ScrollTop g else r) + 1"
  have "origin_row ?n g = r"
    using assms by (auto simp: origin_row_def Let_def MAX_ROWS_def u16_def)
  then have "MoveCursorTo ?n (c + 1) g = g\<lparr>gr_PendingWrap := False, gr_CursorRow := r, gr_CursorCol := c\<rparr>"
    using assms(2) by (simp add: MoveCursorTo_def ClampCol_def)
  moreover have "?n \<le> 0xFFFF" "c + 1 \<le> 0xFFFF" using assms(1-4) by (auto simp: MAX_ROWS_def MAX_COLS_def)
  ultimately show ?thesis using feeds_cup [of ?n "c + 1" g] by simp
qed

lemma slot_placed:
  assumes t: "settled t" "gr_Cols t \<le> MAX_COLS" and sc: "saved_ok (gr_Cols t) (gr_Rows t) sc" and g: "region_ok g" "gr_Rows g = gr_Rows t"
  shows "\<exists>t'. feeds (slot_bytes cm g sc) t t' \<and> placed t (kept_slot cm sc) t'"
proof -
  define pen where "pen = NormalizePen cm (sc_Pen sc)"
  define t1 where "t1 = t\<lparr>gr_Pen := pen\<rparr>"
  have rows: "0 < gr_Rows t" "gr_Rows t \<le> MAX_ROWS" "\<not> ModeSet Decom t" "gr_ScrollTop t = 0" "gr_ScrollBot t = gr_Rows t - 1"
    and cs: "gr_CharsetG0 t = 0" "gr_CharsetG1 t = 0" "gr_CharsetActive t = 0"
    using t(1) by (auto simp: settled_def open_screen_def)
  have slot: "sc_Row sc < gr_Rows t" "sc_Col sc < gr_Cols t" "pen_ok pen" "sc_CharsetG0 sc \<le> 1" "sc_CharsetG1 sc \<le> 1" "sc_CharsetActive sc \<le> 1"
    using sc by (simp_all add: saved_ok_def pen_def NormalizePen_ok)
  have pens: "feeds (esc_csi ''0m'' @ fst (EmitSgr default_pen pen)) t t1"
    using feeds_append [OF feeds_reset_pen feeds_EmitSgr(1) [OF slot(3)]] by (simp add: t1_def)
  have "\<exists>t'. feeds (if SlotNeedsState sc then SlotSetState g sc else cup_bytes (sc_Row sc + 1) (sc_Col sc + 1)) t1 t' \<and>
      placed t (kept_slot cm sc) t'"
  proof (cases "SlotNeedsState sc")
    case False
    then have "\<not> sc_Decom sc" "sc_CharsetG0 sc = 0" "sc_CharsetG1 sc = 0" "sc_CharsetActive sc = 0" by (auto simp: SlotNeedsState_def)
    then show ?thesis
      using False feeds_goto [of "sc_Row sc" t1 "sc_Col sc"] slot rows t(2) cs
      by (auto simp: t1_def placed_def kept_slot_def settled_def open_screen_def SlotNeedsState_def pen_def intro!: exI [of _ "t1\<lparr>gr_PendingWrap := False, gr_CursorRow := sc_Row sc, gr_CursorCol := sc_Col sc\<rparr>"])
  next
    case True
    define t2 where "t2 = t1\<lparr>gr_CharsetG0 := sc_CharsetG0 sc, gr_CharsetG1 := sc_CharsetG1 sc, gr_CharsetActive := sc_CharsetActive sc\<rparr>"
    have charsets: "feeds (charset_bytes (sc_CharsetG0 sc) (sc_CharsetG1 sc) (sc_CharsetActive sc)) t1 t2"
      using feeds_charsets3 [OF slot(4-6)] by (simp add: t2_def)
    show ?thesis
    proof (cases "sc_Decom sc")
      case False
      then show ?thesis
        using True feeds_append [OF charsets feeds_goto [of "sc_Row sc" t2 "sc_Col sc"]] slot rows t(2) cs
        by (auto simp: SlotSetState_def t1_def t2_def placed_def kept_slot_def SlotNeedsState_def pen_def
            intro!: exI [of _ "t2\<lparr>gr_PendingWrap := False, gr_CursorRow := sc_Row sc, gr_CursorCol := sc_Col sc\<rparr>"])
    next
      case decom: True
      let ?a = "min (sc_Row sc) (gr_ScrollTop g)" and ?b = "max (sc_Row sc) (gr_ScrollBot g)"
      have "region_ok (t2\<lparr>gr_ScrollTop := ?a, gr_ScrollBot := ?b\<rparr>)"
        using g slot(1) by (auto simp: region_ok_def t2_def t1_def)
      moreover have "open_screen t2" using t(1) by (simp add: t2_def t1_def settled_def open_screen_def)
      ultimately obtain r c w where region: "feeds (region_bytes (?a + 1) (?b + 1)) t2
          (t2\<lparr>gr_ScrollTop := ?a, gr_ScrollBot := ?b, gr_CursorRow := r, gr_CursorCol := c, gr_PendingWrap := w\<rparr>)" (is "feeds _ _ ?t3")
        using feeds_region4 [of "t2\<lparr>gr_ScrollTop := ?a, gr_ScrollBot := ?b\<rparr>" t2] by auto
      define t4 where "t4 = (set_mode_bit Decom True ?t3)\<lparr>gr_CursorRow := ?a, gr_CursorCol := 0, gr_PendingWrap := False\<rparr>"
      have on: "feeds (EmitPrivateMode 6 True) ?t3 t4" using origin_mode [of True ?t3] by (simp add: t4_def)
      have "feeds (cup_bytes (sc_Row sc - ?a + 1) (sc_Col sc + 1)) t4 (t4\<lparr>gr_PendingWrap := False, gr_CursorRow := sc_Row sc, gr_CursorCol := sc_Col sc\<rparr>)"
        using feeds_goto [of "sc_Row sc" t4 "sc_Col sc"] slot rows t(2) by (simp add: t4_def t2_def t1_def)
      with feeds_append [OF charsets feeds_append [OF region feeds_append [OF on]]] True decom show ?thesis
        using g slot rows
        by (intro exI [of _ "t4\<lparr>gr_PendingWrap := False, gr_CursorRow := sc_Row sc, gr_CursorCol := sc_Col sc\<rparr>"])
           (auto simp: SlotSetState_def Let_def esc_literals placed_def kept_slot_def SlotNeedsState_def region_ok_def t4_def t2_def t1_def pen_def)
    qed
  qed
  then obtain t' where "feeds (if SlotNeedsState sc then SlotSetState g sc else cup_bytes (sc_Row sc + 1) (sc_Col sc + 1)) t1 t'"
      "placed t (kept_slot cm sc) t'" by blast
  with feeds_append [OF pens] show ?thesis
    by (intro exI [of _ t']) (simp add: slot_bytes_def pen_def)
qed

text \<open>Undoing what the slot needed: rows count from the corner again, the region is the screen, the character sets plain.\<close>

definition unplaced :: "Grid \<Rightarrow> Grid \<Rightarrow> bool" where
  "unplaced t t' \<longleftrightarrow> contents t' = contents t \<and> settled t' \<and> (\<forall>m. m \<noteq> Decom \<longrightarrow> ModeSet m t' = ModeSet m t) \<and>
     gr_SavedMain t' = gr_SavedMain t \<and> gr_SavedAlt t' = gr_SavedAlt t"

lemma feeds_undo:
  assumes "0 < gr_Rows t" "gr_Rows t \<le> MAX_ROWS" "gr_ScrollTop t \<le> gr_ScrollBot t" "gr_ScrollBot t < gr_Rows t"
  shows "\<exists>t'. feeds SlotUndoState t t' \<and> unplaced t t'"
proof -
  define t1 where "t1 = (set_mode_bit Decom False t)\<lparr>gr_CursorRow := 0, gr_CursorCol := 0, gr_PendingWrap := False\<rparr>"
  define t2 where "t2 = SetScrollRegion 1 (gr_Rows t1) t1"
  have off: "feeds (EmitPrivateMode 6 False) t t1" using origin_mode [of False t] by (simp add: t1_def)
  have rows: "gr_Rows t1 = gr_Rows t" by (simp add: t1_def)
  have "feeds (esc_csi ''r'') t1 t2" using feeds_region_reset [of t1] assms(1) rows by (simp add: t2_def)
  moreover have "feeds (esc_lit ''(B'' @ esc_lit '')B'' @ [0x0F]) t2 (t2\<lparr>gr_CharsetG0 := 0, gr_CharsetG1 := 0, gr_CharsetActive := 0\<rparr>)" (is "feeds _ _ ?t3")
    using feeds_charsets3 [of 0 0 0 t2] by (simp add: charset_bytes_def esc_literals)
  ultimately have "feeds SlotUndoState t ?t3"
    using feeds_append [OF off feeds_append [of "esc_csi ''r''" t1 t2]] unfolding SlotUndoState_def esc_literals(8) by blast
  moreover have "gr_ScrollTop t2 = 0" "gr_ScrollBot t2 = gr_Rows t - 1"
    using assms rows by (auto simp: t2_def SetScrollRegion_def Let_def t1_def MAX_ROWS_def)
  then have "unplaced t ?t3"
    using assms(1,2) by (auto simp: unplaced_def settled_def open_screen_def t2_def t1_def SetScrollRegion_def Let_def)
  ultimately show ?thesis by blast
qed

lemma slot_saved:
  assumes t: "settled t" "gr_Cols t \<le> MAX_COLS" "0 < gr_Cols t" and sc: "saved_ok (gr_Cols t) (gr_Rows t) sc"
    and g: "region_ok g" "gr_Rows g = gr_Rows t"
  shows "\<exists>t'. feeds (slot_bytes cm g sc @ esc_lit ''7'' @ (if SlotNeedsState sc then SlotUndoState else [])) t t' \<and>
    contents t' = contents t \<and> settled t' \<and> (\<forall>m. ModeSet m t' = ModeSet m t) \<and>
    gr_SavedMain t' = (if IsAltScreen t then gr_SavedMain t else kept_slot cm sc) \<and>
    gr_SavedAlt t' = (if IsAltScreen t then kept_slot cm sc else gr_SavedAlt t)"
proof -
  obtain t1 where t1: "feeds (slot_bytes cm g sc) t t1" "placed t (kept_slot cm sc) t1"
    using slot_placed [OF t(1,2) sc g, of cm] by blast
  define t2 where "t2 = SaveCursor t1"
  have save: "feeds (esc_lit ''7'') t1 t2" using feeds_save(1) by (simp add: t2_def)
  have alt: "IsAltScreen t1 = IsAltScreen t" using t1(2) by (auto simp: placed_def IsAltScreen_def)
  have rec: "\<lparr> sc_Row = gr_CursorRow t1, sc_Col = gr_CursorCol t1, sc_Pen = gr_Pen t1, sc_Decom = ModeSet Decom t1,
      sc_PendingWrap = gr_PendingWrap t1, sc_CharsetG0 = gr_CharsetG0 t1, sc_CharsetG1 = gr_CharsetG1 t1,
      sc_CharsetActive = gr_CharsetActive t1 \<rparr> = kept_slot cm sc"
    using t1(2) by (cases sc) (simp add: placed_def kept_slot_def)
  have t2: "contents t2 = contents t" "gr_SavedMain t2 = (if IsAltScreen t then gr_SavedMain t else kept_slot cm sc)"
      "gr_SavedAlt t2 = (if IsAltScreen t then kept_slot cm sc else gr_SavedAlt t)" "ModeSet m t2 = ModeSet m t1" for m
    using t1(2) alt rec by (simp_all add: placed_def t2_def SaveCursor_def Let_def)
  have keep: "gr_Rows t2 = gr_Rows t" "gr_ScrollTop t2 = gr_ScrollTop t1" "gr_ScrollBot t2 = gr_ScrollBot t1" "gr_Rows t2 = gr_Rows t1"
    using contentsD(7) [OF t2(1)] contentsD(7) [of t1 t] t1(2) by (simp_all add: t2_def SaveCursor_def Let_def placed_def)
  have decom: "\<not> ModeSet Decom t" "0 < gr_Rows t" "gr_Rows t \<le> MAX_ROWS" using t(1) by (simp_all add: settled_def open_screen_def)
  show ?thesis
  proof (cases "SlotNeedsState sc")
    case True
    have "gr_ScrollTop t2 \<le> gr_ScrollBot t2" "gr_ScrollBot t2 < gr_Rows t2"
      using t1(2) keep by (simp_all add: placed_def)
    then obtain t3 where t3: "feeds SlotUndoState t2 t3" "unplaced t2 t3"
      using feeds_undo [of t2] decom keep by auto
    have "ModeSet m t3 = ModeSet m t" for m
      using t3(2) t2(4) t1(2) decom(1) by (cases "m = Decom") (auto simp: unplaced_def settled_def open_screen_def placed_def)
    then show ?thesis
      using True feeds_append [OF t1(1) feeds_append [OF save t3(1)]] t3(2) t2(1-3)
      by (intro exI [of _ t3]) (simp add: unplaced_def)
  next
    case False
    then have "\<not> SlotNeedsState (kept_slot cm sc)" by (simp add: SlotNeedsState_def kept_slot_def)
    then have "settled t1" using t1(2) by (simp add: placed_def)
    then have "settled t2" by (simp add: t2_def settled_def open_screen_def) (simp add: SaveCursor_def Let_def)
    moreover have "ModeSet m t2 = ModeSet m t" for m
      using t2(4) t1(2) decom(1) False by (cases "m = Decom") (auto simp: placed_def kept_slot_def SlotNeedsState_def)
    ultimately show ?thesis
      using False feeds_append [OF t1(1) save] t2(1-3) by (intro exI [of _ t2]) simp
  qed
qed

subsection \<open>Modes, tab stops and the pending wrap\<close>

lemma feeds_mode_list:
  assumes "\<forall>(bs, m, v)\<in>set l. \<forall>t. feeds bs t (set_mode_bit m v t)"
  shows "feeds (concat (map fst l)) t (fold (\<lambda>(bs, m, v). set_mode_bit m v) l t)"
  using assms
proof (induction l arbitrary: t)
  case (Cons x l)
  obtain bs m v where x: "x = (bs, m, v)" by (cases x)
  then have "feeds bs t (set_mode_bit m v t)" using Cons.prems by simp
  from feeds_append [OF this] Cons.IH [of "set_mode_bit m v t"] Cons.prems show ?case by (simp add: x)
qed simp

definition mode_list :: "Grid \<Rightarrow> (bytes \<times> EMode \<times> bool) list" where
  "mode_list g = [(EmitPrivateMode 1 (ModeSet Decckm g), Decckm, ModeSet Decckm g), (EmitPrivateMode 7 (ModeSet Awm g), Awm, ModeSet Awm g),
    (EmitAnsiMode 4 (ModeSet Irm g), Irm, ModeSet Irm g), (EmitAnsiMode 20 (ModeSet Lnm g), Lnm, ModeSet Lnm g),
    (EmitPrivateMode 1000 (ModeSet Mouse1000 g), Mouse1000, ModeSet Mouse1000 g), (EmitPrivateMode 1002 (ModeSet Mouse1002 g), Mouse1002, ModeSet Mouse1002 g),
    (EmitPrivateMode 1003 (ModeSet Mouse1003 g), Mouse1003, ModeSet Mouse1003 g), (EmitPrivateMode 1005 (ModeSet Mouse1005 g), Mouse1005, ModeSet Mouse1005 g),
    (EmitPrivateMode 1006 (ModeSet Mouse1006 g), Mouse1006, ModeSet Mouse1006 g), (EmitPrivateMode 1015 (ModeSet Mouse1015 g), Mouse1015, ModeSet Mouse1015 g),
    (EmitPrivateMode 2004 (ModeSet BracketedPaste g), BracketedPaste, ModeSet BracketedPaste g),
    (EmitPrivateMode 1004 (ModeSet FocusEvents g), FocusEvents, ModeSet FocusEvents g)]"

lemma SetMode_bits:
  "SetMode 1 v = set_mode_bit Decckm v" "SetMode 7 v = set_mode_bit Awm v" "SetMode 4 v = set_mode_bit Irm v"
  "SetMode 20 v = set_mode_bit Lnm v" "SetMode 25 v = set_mode_bit Dectcem v" "SetMode 1000 v = set_mode_bit Mouse1000 v"
  "SetMode 1002 v = set_mode_bit Mouse1002 v" "SetMode 1003 v = set_mode_bit Mouse1003 v" "SetMode 1005 v = set_mode_bit Mouse1005 v"
  "SetMode 1006 v = set_mode_bit Mouse1006 v" "SetMode 1015 v = set_mode_bit Mouse1015 v" "SetMode 2004 v = set_mode_bit BracketedPaste v"
  "SetMode 1004 v = set_mode_bit FocusEvents v" "SetMode 2026 v = set_mode_bit SyncOutput v"
  by (auto simp: SetMode_def fun_eq_iff)

lemma mode_list_feeds: "\<forall>(bs, m, v)\<in>set (mode_list g). \<forall>t. feeds bs t (set_mode_bit m v t)"
  using feeds_private [of 1] feeds_private [of 7] feeds_ansi [of 4] feeds_ansi [of 20] feeds_private [of 1000] feeds_private [of 1002]
    feeds_private [of 1003] feeds_private [of 1005] feeds_private [of 1006] feeds_private [of 1015] feeds_private [of 2004] feeds_private [of 1004]
  unfolding mode_list_def SetMode_bits by (simp del: One_nat_def)

definition listed_mode :: "EMode \<Rightarrow> bool" where
  "listed_mode m \<longleftrightarrow> m \<notin> {Decom, Dectcem, AltScreen, SyncOutput}"

lemma feeds_modes:
  "\<exists>w. feeds (mode_bytes g) t (t\<lparr>gr_Modes := w\<rparr>) \<and> (\<forall>m. ModeSet m (t\<lparr>gr_Modes := w\<rparr>) = (if listed_mode m then ModeSet m g else ModeSet m t))"
proof -
  let ?t = "fold (\<lambda>(bs, m, v). set_mode_bit m v) (mode_list g) t"
  have "feeds (mode_bytes g) t ?t"
    using feeds_mode_list [OF mode_list_feeds, of g t] by (simp add: mode_bytes_def mode_list_def)
  moreover have "?t = t\<lparr>gr_Modes := gr_Modes ?t\<rparr>" by (simp add: mode_list_def set_mode_bit_def)
  moreover have "ModeSet m ?t = (if listed_mode m then ModeSet m g else ModeSet m t)" for m
    by (cases m) (simp_all add: mode_list_def listed_mode_def)
  ultimately show ?thesis by metis
qed

lemma stop_at_bit: "stop_at ts c = bit (ts ! (c div 64)) (c mod 64)"
  by (simp add: stop_at_def bit_iff_odd_drop_bit and_one_eq odd_iff_mod_2_eq_one)

lemma stop_at_set:
  assumes "c div 64 < length ts"
  shows "stop_at (set_stop c ts) c' \<longleftrightarrow> c = c' \<or> stop_at ts c'"
proof (cases "c div 64 = c' div 64")
  case True
  have "c = c' \<longleftrightarrow> c mod 64 = c' mod 64" using True div_mult_mod_eq [of c 64] div_mult_mod_eq [of c' 64] by metis
  moreover have "bit (push_bit (c mod 64) (1 :: u64)) (c' mod 64) \<longleftrightarrow> c mod 64 = c' mod 64"
    by (auto simp: push_bit_of_1 bit_exp_iff possible_bit_word)
  ultimately show ?thesis
    using True assms by (auto simp: stop_at_bit set_stop_def bit_or_iff)
next
  case False
  then show ?thesis by (auto simp: stop_at_bit set_stop_def)
qed

lemma feeds_tab_stops:
  assumes t: "\<not> ModeSet Decom t" "0 < gr_Rows t" "gr_Rows t \<le> MAX_ROWS" "gr_Cols t \<le> MAX_COLS" "gr_TabStops t = no_stops"
  shows "n \<le> gr_Cols t \<Longrightarrow>
    \<exists>r c w ts. feeds (concat (map (\<lambda>col. if IsTabStop g col then esc_csi ''1;'' @ WriteDecimal (col + 1) @ [0x48] @ esc_lit ''H'' else []) [0..<n])) t
      (t\<lparr>gr_TabStops := ts, gr_CursorRow := r, gr_CursorCol := c, gr_PendingWrap := w\<rparr>) \<and>
      length ts = TAB_WORDS \<and> (\<forall>c<gr_Cols t. stop_at ts c \<longleftrightarrow> c < n \<and> IsTabStop g c)"
proof (induction n)
  case 0
  have same: "t\<lparr>gr_TabStops := no_stops, gr_CursorRow := gr_CursorRow t, gr_CursorCol := gr_CursorCol t, gr_PendingWrap := gr_PendingWrap t\<rparr> = t"
    using t(5) by (cases t) simp
  have "\<not> stop_at no_stops c" if "c < gr_Cols t" for c
    using that t(4) by (simp add: stop_at_bit no_stops_def TAB_WORDS_def MAX_COLS_def)
  moreover have "length no_stops = TAB_WORDS" by (simp add: no_stops_def)
  ultimately have "feeds [] t t \<and> length no_stops = TAB_WORDS \<and> (\<forall>c<gr_Cols t. stop_at no_stops c \<longleftrightarrow> c < 0 \<and> IsTabStop g c)"
    by simp
  then show ?case unfolding upt_0 list.map concat.simps by (subst (asm) (2) same [symmetric]) blast
next
  case (Suc n)
  then obtain r c w ts where IH: "feeds (concat (map (\<lambda>col. if IsTabStop g col then esc_csi ''1;'' @ WriteDecimal (col + 1) @ [0x48] @ esc_lit ''H'' else []) [0..<n])) t
      (t\<lparr>gr_TabStops := ts, gr_CursorRow := r, gr_CursorCol := c, gr_PendingWrap := w\<rparr>)" (is "feeds ?bs t ?t")
      "length ts = TAB_WORDS" "\<forall>c<gr_Cols t. stop_at ts c \<longleftrightarrow> c < n \<and> IsTabStop g c"
    by auto
  show ?case
  proof (cases "IsTabStop g n")
    case False
    then show ?thesis
      using IH by (intro exI [of _ r] exI [of _ c] exI [of _ w] exI [of _ ts]) (auto simp: less_Suc_eq)
  next
    case True
    let ?u = "?t\<lparr>gr_PendingWrap := False, gr_CursorRow := 0, gr_CursorCol := n\<rparr>"
    have "esc_csi ''1;'' @ WriteDecimal (n + 1) @ [0x48] = cup_bytes (0 + 1) (n + 1)"
      by (simp add: cup_bytes_def esc_csi_def small_decimals WriteLiteral_def)
    then have "feeds (esc_csi ''1;'' @ WriteDecimal (n + 1) @ [0x48]) ?t ?u"
      using feeds_goto [of 0 ?t n] t Suc.prems by simp
    then have step: "feeds (esc_csi ''1;'' @ WriteDecimal (n + 1) @ [0x48] @ esc_lit ''H'') ?t (SetTabStop ?u)"
      using feeds_append [OF _ feeds_save(2) [of ?u], of "esc_csi ''1;'' @ WriteDecimal (n + 1) @ [0x48]" ?t] by simp
    have "SetTabStop ?u = t\<lparr>gr_TabStops := set_stop n ts, gr_CursorRow := 0, gr_CursorCol := n, gr_PendingWrap := False\<rparr>"
      using Suc.prems by (simp add: SetTabStop_def)
    moreover have "stop_at (set_stop n ts) c' \<longleftrightarrow> c' < Suc n \<and> IsTabStop g c'" if "c' < gr_Cols t" for c'
      using stop_at_set [of n ts c'] IH(2,3) that True Suc.prems t(4) by (auto simp: TAB_WORDS_def MAX_COLS_def less_Suc_eq)
    moreover have "length (set_stop n ts) = TAB_WORDS" using IH(2) by (simp add: set_stop_def)
    ultimately show ?thesis
      using feeds_append [OF IH(1) step] True
      by (intro exI [of _ 0] exI [of _ n] exI [of _ False] exI [of _ "set_stop n ts"]) simp
  qed
qed

end
