(* ===== verification/Grid_Roundtrip.thy ===== *)
theory Grid_Roundtrip
  imports Grid_Restore
begin

text \<open>
  The whole snapshot: the pending wrap, the preamble, the two screens and the closing section put together.
\<close>

unbundle bit_operations_syntax

subsection \<open>The pending wrap\<close>

text \<open>The character set in use is ASCII.\<close>

definition ascii_set :: "Grid \<Rightarrow> bool" where
  "ascii_set g \<longleftrightarrow> (if gr_CharsetActive g = 0 then gr_CharsetG0 g else gr_CharsetG1 g) = 0"

text \<open>A character printed at the end of a row, where it fits exactly, replaces what is there: in insert mode too.\<close>

definition last_glyph :: "Grid \<Rightarrow> nat \<Rightarrow> nat \<Rightarrow> bool" where
  "last_glyph g col w \<longleftrightarrow> gr_Cols g \<le> MAX_COLS \<and> gr_CursorRow g < length (active_screen g) \<and>
     row_ok (gr_Cols g) (active_screen g ! gr_CursorRow g) \<and> gr_CursorCol g = col \<and> \<not> gr_PendingWrap g \<and> pen_ok (gr_Pen g) \<and>
     (w = 1 \<or> w = 2) \<and> col + w = gr_Cols g \<and> c_Width (active_screen g ! gr_CursorRow g ! col) \<noteq> 0"

lemma last_glyph_whole:
  assumes "row_ok cols l" and "col < cols" and "c_Width (l ! col) \<noteq> 0"
  shows "cut_left b (take col l) = take col l"
proof -
  have "c_Width (last (take col l)) \<noteq> 2" if "take col l \<noteq> []"
  proof -
    have "0 < col" "last (take col l) = l ! (col - 1)"
      using that assms(1,2) by (auto simp: last_conv_nth row_okD(1) min_def)
    then show ?thesis
      using row_okD(4) [OF assms(1), of "col - 1"] assms(2,3) by (cases col) auto
  qed
  then show ?thesis by (auto simp: cut_left_def)
qed

lemma insert_at_end:
  assumes g: "last_glyph g col w" and l: "l = active_screen g ! gr_CursorRow g"
  shows "last_glyph (InsertChars w g) col w" "backdrop (InsertChars w g) = backdrop g" "other_screen (InsertChars w g) = other_screen g"
    "active_screen (InsertChars w g) = (active_screen g)[gr_CursorRow g := take col l @ replicate w (BlankCell g)]"
    "gr_Pen (InsertChars w g) = gr_Pen g" "gr_CursorRow (InsertChars w g) = gr_CursorRow g"
proof -
  have ok: "row_ok (gr_Cols g) l" "col < gr_Cols g" "gr_Cols g < 65536" "blank_ok (BlankCell g)" "0 < w" "w = min w (gr_Cols g - col)"
      "c_Width (l ! col) \<noteq> 0"
    using g BlankCell_ok [of g] by (auto simp: last_glyph_def l MAX_COLS_def)
  have cells: "insert_cells (BlankCell g) (gr_Cols g) col w l = take col l @ replicate w (BlankCell g)"
    using insert_cells_eq [OF ok(1-6)] last_glyph_whole [OF ok(1,2,7)] g by (simp add: last_glyph_def cut_left_def)
  have ins: "row_ok (gr_Cols g) (take col l @ replicate w (BlankCell g))"
    using insert_cells_ok [OF ok(1-5)] cells by simp
  have same: "BlankCell (g\<lparr>gr_PendingWrap := False\<rparr>) = BlankCell g" by (simp add: BlankCell_def)
  show frames: "backdrop (InsertChars w g) = backdrop g" "other_screen (InsertChars w g) = other_screen g"
    "gr_Pen (InsertChars w g) = gr_Pen g" "gr_CursorRow (InsertChars w g) = gr_CursorRow g"
    by (simp_all add: InsertChars_def Let_def)
  show screen: "active_screen (InsertChars w g) = (active_screen g)[gr_CursorRow g := take col l @ replicate w (BlankCell g)]"
    using cells g ok(5) by (simp add: InsertChars_def Let_def same last_glyph_def l)
  have "(take col l @ replicate w (BlankCell g)) ! col = BlankCell g"
    using ok(1,2,5) by (simp add: nth_append row_okD(1))
  then show "last_glyph (InsertChars w g) col w"
    using g ins frames screen backdropD(1) [OF frames(1)] ok(4)
    by (simp add: last_glyph_def)
qed

lemma put_at_end:
  assumes g: "last_glyph g col w" and l: "l = active_screen g ! gr_CursorRow g"
  shows "showing g ((active_screen g)[gr_CursorRow g :=
      take col l @ \<lparr> c_Codepoint = cp, c_Width = w, c_Pen = gr_Pen g \<rparr> # replicate (w - 1) continuation]) (gr_Pen g) (put_cell cp w g)"
    "gr_CursorRow (put_cell cp w g) = gr_CursorRow g" "gr_CursorCol (put_cell cp w g) = gr_Cols g - 1" "gr_PendingWrap (put_cell cp w g)"
proof -
  have ok: "row_ok (gr_Cols g) l" "col < gr_Cols g" "gr_Cols g < 65536" "blank_ok (BlankCell g)" "w = 1 \<or> w = 2 \<and> col + 1 < gr_Cols g"
      "c_Width (l ! col) \<noteq> 0" "col + w = gr_Cols g" "gr_CursorCol g = col" "length l = gr_Cols g"
    using g BlankCell_ok [of g] by (auto simp: last_glyph_def l MAX_COLS_def row_okD(1))
  have "write_glyph (BlankCell g) (gr_Pen g) (gr_Cols g) col cp w l =
      take col l @ \<lparr> c_Codepoint = cp, c_Width = w, c_Pen = gr_Pen g \<rparr> # replicate (w - 1) continuation"
    using write_glyph_eq [OF ok(1-5)] last_glyph_whole [OF ok(1,2,6)] ok(7,9) by (simp add: cut_right_def)
  then show "showing g ((active_screen g)[gr_CursorRow g :=
      take col l @ \<lparr> c_Codepoint = cp, c_Width = w, c_Pen = gr_Pen g \<rparr> # replicate (w - 1) continuation]) (gr_Pen g) (put_cell cp w g)"
    using ok(7,8) by (simp add: put_cell_def Let_def showing_def l)
  show "gr_CursorRow (put_cell cp w g) = gr_CursorRow g" "gr_CursorCol (put_cell cp w g) = gr_Cols g - 1" "gr_PendingWrap (put_cell cp w g)"
    using ok(2,3,7,8) by (simp_all add: put_cell_def Let_def)
qed

lemma print_at_end:
  assumes g: "last_glyph g col w" "ascii_set g" and l: "l = active_screen g ! gr_CursorRow g"
  shows "showing g ((active_screen g)[gr_CursorRow g :=
      take col l @ \<lparr> c_Codepoint = cp, c_Width = w, c_Pen = gr_Pen g \<rparr> # replicate (w - 1) continuation]) (gr_Pen g) (PutChar cp w g)"
    "gr_CursorRow (PutChar cp w g) = gr_CursorRow g" "gr_CursorCol (PutChar cp w g) = gr_Cols g - 1" "gr_PendingWrap (PutChar cp w g)"
proof -
  define h where "h = (if ModeSet Irm g then InsertChars w g else g)"
  have idle: "g\<lparr>gr_PendingWrap := False\<rparr> = g" using g(1) by (cases g) (simp add: last_glyph_def)
  have cols: "gr_Cols (InsertChars w g) = gr_Cols g" using insert_at_end(2) [OF g(1) refl] by (rule backdropD(1))
  have h: "last_glyph h col w" using insert_at_end(1) [OF g(1) refl] g(1) by (simp add: h_def)
  have "u16 w = w" "\<not> gr_PendingWrap g" using g(1) by (auto simp: last_glyph_def)
  moreover have "gr_CursorCol h = col" "w = 1 \<or> w = 2 \<and> col + 1 < gr_Cols h" using h by (auto simp: last_glyph_def)
  ultimately have put: "PutChar cp w g = put_cell cp w h"
    using g(2) by (auto simp: PutChar_def ascii_set_def translate_charset_def Let_def idle h_def)
  have dims: "gr_Cols h = gr_Cols g" "gr_CursorRow h = gr_CursorRow g" "gr_Pen h = gr_Pen g" "backdrop h = backdrop g" "other_screen h = other_screen g"
    using insert_at_end [OF g(1) refl] cols by (simp_all add: h_def)
  have r: "gr_CursorRow g < length (active_screen g)" "col < gr_Cols g" "length l = gr_Cols g"
    using g(1) by (auto simp: last_glyph_def l row_okD(1))
  have "take col (active_screen h ! gr_CursorRow h) = take col l" "(active_screen h)[gr_CursorRow g := x] = (active_screen g)[gr_CursorRow g := x]" for x
    using insert_at_end(4) [OF g(1) l] r dims by (simp_all add: h_def l)
  with put_at_end [OF h refl, of cp] dims
  show "showing g ((active_screen g)[gr_CursorRow g :=
      take col l @ \<lparr> c_Codepoint = cp, c_Width = w, c_Pen = gr_Pen g \<rparr> # replicate (w - 1) continuation]) (gr_Pen g) (PutChar cp w g)"
    "gr_CursorRow (PutChar cp w g) = gr_CursorRow g" "gr_CursorCol (PutChar cp w g) = gr_Cols g - 1" "gr_PendingWrap (PutChar cp w g)"
    by (simp_all add: put showing_def)
qed


text \<open>The bytes around the character: automatic wrapping on, the character set in use ASCII, and both undone.\<close>

lemma feeds_designate:
  "feeds (esc_lit ''(B'') t (t\<lparr>gr_CharsetG0 := 0\<rparr>)" "feeds (esc_lit ''(0'') t (t\<lparr>gr_CharsetG0 := 1\<rparr>)"
  "feeds (esc_lit '')B'') t (t\<lparr>gr_CharsetG1 := 0\<rparr>)" "feeds (esc_lit '')0'') t (t\<lparr>gr_CharsetG1 := 1\<rparr>)"
  "feeds [0x0F] t (t\<lparr>gr_CharsetActive := 0\<rparr>)" "feeds [0x0E] t (t\<lparr>gr_CharsetActive := 1\<rparr>)"
  using feeds_charset [of "0x28" 0 "0x42" t] feeds_charset [of "0x28" 0 "0x30" t] feeds_charset [of "0x29" 1 "0x42" t]
    feeds_charset [of "0x29" 1 "0x30" t] feeds_control [of "0x0F" t] feeds_control [of "0x0E" t]
  by (simp_all add: esc_literals DesignateCharset_def HandleControl_def ShiftCharset_def)

definition dressed :: "Grid \<Rightarrow> Grid" where
  "dressed t =
    (let t = (if ModeSet Awm t then t else set_mode_bit Awm True t);
         g0 = (gr_CharsetG0 t \<noteq> 0 \<and> gr_CharsetActive t = 0);
         g1 = (gr_CharsetG1 t \<noteq> 0 \<and> gr_CharsetActive t \<noteq> 0);
         t = (if g0 then t\<lparr>gr_CharsetG0 := 0\<rparr> else t)
     in if g1 then t\<lparr>gr_CharsetG1 := 0, gr_CharsetActive := 0\<rparr> else t)"

definition undressed :: "Grid \<Rightarrow> Grid \<Rightarrow> Grid" where
  "undressed t t' = t'\<lparr>gr_Modes := gr_Modes t, gr_CharsetG0 := gr_CharsetG0 t, gr_CharsetG1 := gr_CharsetG1 t, gr_CharsetActive := gr_CharsetActive t\<rparr>"

definition dress_bytes :: "Grid \<Rightarrow> bytes" where
  "dress_bytes g = (if \<not> ModeSet Awm g then EmitPrivateMode 7 True else []) @
     (if gr_CharsetG0 g \<noteq> 0 \<and> gr_CharsetActive g = 0 then esc_lit ''(B'' else []) @
     (if gr_CharsetG1 g \<noteq> 0 \<and> gr_CharsetActive g \<noteq> 0 then esc_lit '')B'' @ [0x0F] else [])"

definition undress_bytes :: "Grid \<Rightarrow> bytes" where
  "undress_bytes g = (if gr_CharsetG0 g \<noteq> 0 \<and> gr_CharsetActive g = 0 then esc_lit ''(0'' else []) @
     (if gr_CharsetG1 g \<noteq> 0 \<and> gr_CharsetActive g \<noteq> 0 then esc_lit '')0'' @ [0x0E] else []) @
     (if \<not> ModeSet Awm g then EmitPrivateMode 7 False else [])"

lemma feeds_if: "(b \<Longrightarrow> feeds bs t t') \<Longrightarrow> feeds (if b then bs else []) t (if b then t' else t)"
  by simp

lemma feeds_dress: "feeds (dress_bytes t) t (dressed t)"
proof -
  let ?t1 = "if \<not> ModeSet Awm t then set_mode_bit Awm True t else t"
  let ?g0 = "gr_CharsetG0 t \<noteq> 0 \<and> gr_CharsetActive t = 0" and ?g1 = "gr_CharsetG1 t \<noteq> 0 \<and> gr_CharsetActive t \<noteq> 0"
  let ?t2 = "if ?g0 then ?t1\<lparr>gr_CharsetG0 := 0\<rparr> else ?t1"
  let ?t3 = "if ?g1 then ?t2\<lparr>gr_CharsetG1 := 0, gr_CharsetActive := 0\<rparr> else ?t2"
  have "feeds (EmitPrivateMode 7 True) t (set_mode_bit Awm True t)"
    using feeds_private [of 7 True t] by (simp add: SetMode_bits)
  then have 1: "feeds (if \<not> ModeSet Awm t then EmitPrivateMode 7 True else []) t ?t1" by (rule feeds_if)
  have 2: "feeds (if ?g0 then esc_lit ''(B'' else []) ?t1 ?t2" by (rule feeds_if) (rule feeds_designate)
  have 3: "feeds (if ?g1 then esc_lit '')B'' @ [0x0F] else []) ?t2 ?t3"
    by (rule feeds_if) (rule feeds_append [OF feeds_designate(3,5)])
  have "?t3 = dressed t" by (simp add: dressed_def Let_def)
  then show ?thesis using feeds_append [OF 1 feeds_append [OF 2 3]] unfolding dress_bytes_def by (simp only:)
qed

lemma set_clear_mode: "\<not> ModeSet m t \<Longrightarrow> gr_Modes (set_mode_bit m False (set_mode_bit m True t)) = gr_Modes t"
proof (intro bit_eqI)
  fix n assume t: "\<not> ModeSet m t" "possible_bit TYPE(32 word) n"
  have "bit (ModeFlag m) n \<longleftrightarrow> n = mode_bit m" using t(2) by (auto simp: ModeFlag_def push_bit_of_1 bit_exp_iff possible_bit_word)
  then show "bit (gr_Modes (set_mode_bit m False (set_mode_bit m True t))) n = bit (gr_Modes t) n"
    using t by (auto simp: ModeSet_bit set_mode_bit_def bit_and_iff bit_or_iff bit_not_iff)
qed

lemma dressed_kinds:
  assumes "gr_CharsetActive t \<noteq> 0 \<Longrightarrow> gr_CharsetG1 t \<noteq> 0 \<Longrightarrow> gr_CharsetG0 t = 0"
  shows "ascii_set (dressed t)" "IsAltScreen (dressed t) = IsAltScreen t" "gr_Main (dressed t) = gr_Main t" "gr_Alt (dressed t) = gr_Alt t"
    "gr_CursorRow (dressed t) = gr_CursorRow t" "gr_CursorCol (dressed t) = gr_CursorCol t" "gr_PendingWrap (dressed t) = gr_PendingWrap t"
    "gr_Pen (dressed t) = gr_Pen t" "gr_Cols (dressed t) = gr_Cols t" "undressed t (dressed t) = t"
proof -
  show "ascii_set (dressed t)" using assms by (auto simp: dressed_def Let_def ascii_set_def)
  show "IsAltScreen (dressed t) = IsAltScreen t" by (simp add: dressed_def Let_def IsAltScreen_def)
  show "undressed t (dressed t) = t"
    by (rule Grid.equality) (simp_all add: dressed_def Let_def undressed_def set_mode_bit_def)
qed (simp_all add: dressed_def Let_def set_mode_bit_def)

lemma feeds_undress:
  assumes t: "gr_CharsetG0 t \<le> 1" "gr_CharsetG1 t \<le> 1" "gr_CharsetActive t \<le> 1" and t': "backdrop t' = backdrop (dressed t)"
  shows "feeds (undress_bytes t) t' (undressed t t')"
proof -
  let ?g0 = "gr_CharsetG0 t \<noteq> 0 \<and> gr_CharsetActive t = 0" and ?g1 = "gr_CharsetG1 t \<noteq> 0 \<and> gr_CharsetActive t \<noteq> 0"
  let ?t1 = "if ?g0 then t'\<lparr>gr_CharsetG0 := 1\<rparr> else t'"
  let ?t2 = "if ?g1 then ?t1\<lparr>gr_CharsetG1 := 1, gr_CharsetActive := 1\<rparr> else ?t1"
  let ?t3 = "if \<not> ModeSet Awm t then set_mode_bit Awm False ?t2 else ?t2"
  have 1: "feeds (if ?g0 then esc_lit ''(0'' else []) t' ?t1" by (rule feeds_if) (rule feeds_designate)
  have 2: "feeds (if ?g1 then esc_lit '')0'' @ [0x0E] else []) ?t1 ?t2"
    by (rule feeds_if) (rule feeds_append [OF feeds_designate(4,6)])
  have "feeds (EmitPrivateMode 7 False) ?t2 (set_mode_bit Awm False ?t2)"
    using feeds_private [of 7 False ?t2] by (simp add: SetMode_bits)
  then have 3: "feeds (if \<not> ModeSet Awm t then EmitPrivateMode 7 False else []) ?t2 ?t3" by (rule feeds_if)
  note same = backdropD(3,6,7,8) [OF t']
  have modes: "(if ModeSet Awm t then gr_Modes t' else gr_Modes (set_mode_bit Awm False t')) = gr_Modes t"
    using same(1) set_clear_mode [of Awm t] by (auto simp: dressed_def Let_def set_mode_bit_def)
  have sets: "gr_CharsetG0 ?t2 = gr_CharsetG0 t" "gr_CharsetG1 ?t2 = gr_CharsetG1 t" "gr_CharsetActive ?t2 = gr_CharsetActive t"
    using same(2-4) t by (auto simp: dressed_def Let_def)
  have "?t3 = undressed t t'"
  proof (rule Grid.equality)
    show "gr_Modes ?t3 = gr_Modes (undressed t t')"
      using modes by (auto simp: undressed_def set_mode_bit_def)
    show "gr_CharsetG0 ?t3 = gr_CharsetG0 (undressed t t')" "gr_CharsetG1 ?t3 = gr_CharsetG1 (undressed t t')"
      "gr_CharsetActive ?t3 = gr_CharsetActive (undressed t t')"
      using sets by (auto simp: undressed_def)
  qed (auto simp: undressed_def set_mode_bit_def)
  then show ?thesis using feeds_append [OF 1 feeds_append [OF 2 3]] unfolding undress_bytes_def by (simp only:)
qed

lemma same_look_row:
  assumes ok: "row_ok cols l" "row_ok cols line" and eq: "map (look Full) l = map (look cm) line"
    and col: "col < cols" "c_Width (line ! col) \<noteq> 0"
  shows "row_ok cols (l[col := look cm (line ! col)])" and "map (look Full) (l[col := look cm (line ! col)]) = map (look cm) line"
    and "col + c_Width (line ! col) = cols \<Longrightarrow>
      l[col := look cm (line ! col)] = take col l @ look cm (line ! col) # replicate (c_Width (line ! col) - 1) continuation"
proof -
  let ?l = "l[col := look cm (line ! col)]"
  have len: "length l = cols" "length line = cols" using ok by (simp_all add: row_okD(1))
  have nth: "look Full (l ! i) = look cm (line ! i)" if "i < cols" for i
    using arg_cong [OF eq, of "\<lambda>x. x ! i"] that len by simp
  then have w: "c_Width (l ! i) = c_Width (line ! i)" if "i < cols" for i
    using that look_width by metis
  have at: "?l ! i = (if i = col then look cm (line ! col) else l ! i)" if "i < cols" for i
    using that len by simp
  then have w': "c_Width (?l ! i) = c_Width (l ! i)" if "i < cols" for i
    using that w by simp
  show "row_ok cols ?l"
    using ok(1) w' len at look_ok [OF row_okD(2) [OF ok(2) col(1)]] unfolding row_ok_def by simp
  show "map (look Full) ?l = map (look cm) line"
    using len nth col(1) look_look [OF row_okD(2) [OF ok(2) col(1)]] by (intro nth_equalityI) (auto simp: nth_list_update)
  assume fit: "col + c_Width (line ! col) = cols"
  have "drop (col + 1) l = replicate (c_Width (line ! col) - 1) continuation"
  proof (cases "c_Width (line ! col) = 1")
    case True
    then show ?thesis using fit len by simp
  next
    case False
    then have two: "c_Width (line ! col) = 2" using col row_okD(2) [OF ok(2) col(1)] by (auto simp: cell_ok_def)
    then have c: "Suc col < cols" "cols = Suc (Suc col)" "c_Width (l ! (col + 1)) = 0" using row_okD(4) [OF ok(1) col(1)] w [OF col(1)] fit by auto
    then have "l ! (col + 1) = continuation" using row_okD(2) [OF ok(1), of "col + 1"] by (simp add: cell_ok_def)
    then show ?thesis using c len two Cons_nth_drop_Suc [of "Suc col" l] by simp
  qed
  then show "?l = take col l @ look cm (line ! col) # replicate (c_Width (line ! col) - 1) continuation"
    using upd_conv_take_nth_drop [of col l] col(1) len by simp
qed


text \<open>Where the wrap is pending the cell that is printed again ends the row.\<close>

lemma wrap_cell:
  assumes "grid_wf g" "gr_PendingWrap g"
  shows "emitCol g < gr_Cols g" "c_Width (ActiveLine g (gr_CursorRow g) ! emitCol g) \<noteq> 0"
    "emitCol g + c_Width (ActiveLine g (gr_CursorRow g) ! emitCol g) = gr_Cols g" "row_ok (gr_Cols g) (ActiveLine g (gr_CursorRow g))"
proof -
  let ?line = "ActiveLine g (gr_CursorRow g)" and ?c = "gr_CursorCol g"
  have c: "?c + 1 = gr_Cols g" "gr_CursorRow g < gr_Rows g" using assms by (simp_all add: wf_defs)
  show ok: "row_ok (gr_Cols g) ?line"
    using assms(1) c(2) by (auto simp: ActiveLine_def wf_defs intro: screen_ok_nth)
  have "emitCol g < gr_Cols g \<and> c_Width (?line ! emitCol g) \<noteq> 0 \<and> emitCol g + c_Width (?line ! emitCol g) = gr_Cols g"
  proof (cases "c_Width (?line ! ?c) = 0")
    case True
    have "?c < gr_Cols g" using c(1) by simp
    then have "0 < ?c" "c_Width (?line ! (?c - 1)) = 2" using row_okD(5,6) [OF ok _ True] by simp_all
    moreover from this have "emitCol g = ?c - 1"
      using assms(2) c(1) True by (simp add: emitCol_def wrapLeadReposition_def CellAt_def)
    ultimately show ?thesis using c(1) by simp
  next
    case False
    then have "emitCol g = ?c" by (simp add: emitCol_def wrapLeadReposition_def CellAt_def)
    moreover have "c_Width (?line ! ?c) = 1"
      using False row_okD(2,3) [OF ok, of ?c] c(1) by (auto simp: cell_ok_def)
    ultimately show ?thesis using c(1) by simp
  qed
  then show "emitCol g < gr_Cols g" "c_Width (?line ! emitCol g) \<noteq> 0" "emitCol g + c_Width (?line ! emitCol g) = gr_Cols g" by simp_all
qed

text \<open>The one grid whose pending wrap is not printed faithfully: both character sets line drawing, and the second in use.\<close>

definition wrap_printable :: "Grid \<Rightarrow> bool" where
  "wrap_printable g \<longleftrightarrow> (gr_PendingWrap g \<and> gr_CharsetActive g \<noteq> 0 \<and> gr_CharsetG1 g \<noteq> 0 \<longrightarrow> gr_CharsetG0 g = 0)"

text \<open>\<open>at_rest cm g t\<close>: \<open>t\<close> agrees with \<open>g\<close> on what matters to the pending wrap, and its cursor waits at the cell to print.\<close>

definition at_rest :: "EColorMode \<Rightarrow> Grid \<Rightarrow> Grid \<Rightarrow> bool" where
  "at_rest cm g t \<longleftrightarrow> gr_Cols t = gr_Cols g \<and> gr_CursorRow t = gr_CursorRow g \<and> gr_CursorCol t = emitCol g \<and> \<not> gr_PendingWrap t \<and>
     gr_Pen t = NormalizePen cm (gr_Pen g) \<and> gr_CharsetG0 t = gr_CharsetG0 g \<and> gr_CharsetG1 t = gr_CharsetG1 g \<and>
     gr_CharsetActive t = gr_CharsetActive g \<and> ModeSet Awm t = ModeSet Awm g \<and> gr_CursorRow g < length (active_screen t) \<and>
     row_ok (gr_Cols g) (active_screen t ! gr_CursorRow g) \<and>
     map (look Full) (active_screen t ! gr_CursorRow g) = map (look cm) (ActiveLine g (gr_CursorRow g))"

lemma undressed_picture:
  assumes "backdrop t' = backdrop (dressed t)" "undressed t (dressed t) = t" "IsAltScreen (dressed t) = IsAltScreen t"
  shows "backdrop (undressed t t') = backdrop t" "active_screen (undressed t t') = active_screen t'" "other_screen (undressed t t') = other_screen t'"
    "gr_Pen (undressed t t') = gr_Pen t'" "gr_CursorRow (undressed t t') = gr_CursorRow t'" "gr_CursorCol (undressed t t') = gr_CursorCol t'"
    "gr_PendingWrap (undressed t t') = gr_PendingWrap t'"
proof -
  have "backdrop (undressed t x) = undressed t (backdrop x)" for x
    by (simp add: backdrop_def undressed_def)
  then show "backdrop (undressed t t') = backdrop t" using assms(1,2) by metis
  have "IsAltScreen (undressed t t') = IsAltScreen t" by (simp add: undressed_def IsAltScreen_def ModeSet_def)
  moreover have "IsAltScreen t' = IsAltScreen t" using backdrop_modes [OF assms(1)] assms(3) by simp
  ultimately show "active_screen (undressed t t') = active_screen t'" "other_screen (undressed t t') = other_screen t'"
    unfolding active_screen_def other_screen_def by (simp_all add: undressed_def)
qed (simp_all add: undressed_def)

lemma EmitSgr_pen: "snd (EmitSgr pen c) = c"
  by (simp add: EmitSgr_def MatchesCell_def)

lemma feeds_wrap:
  assumes g: "grid_wf g" "gr_PendingWrap g" "wrap_printable g" and t: "at_rest cm g t"
  shows "\<exists>t' row. feeds (wrap_bytes cm g (gr_Pen t)) t t' \<and> showing t ((active_screen t)[gr_CursorRow g := row]) (gr_Pen t) t' \<and>
    gr_CursorRow t' = gr_CursorRow g \<and> gr_CursorCol t' = gr_CursorCol g \<and> gr_PendingWrap t' \<and>
    row_ok (gr_Cols g) row \<and> map (look Full) row = map (look cm) (ActiveLine g (gr_CursorRow g))"
proof -
  define wc w r where "wc = ActiveLine g (gr_CursorRow g) ! emitCol g" and "w = c_Width wc" and "r = gr_CursorRow g"
  define pen1 pen2 l where "pen1 = NormalizePen cm (c_Pen wc)" and "pen2 = NormalizePen cm (gr_Pen g)" and "l = active_screen t ! r"
  define d where "d = dressed t"
  note wrap = wrap_cell [OF g(1,2), folded wc_def r_def, folded w_def]
  have rest: "gr_CharsetG0 t \<le> 1" "gr_CharsetG1 t \<le> 1" "gr_CharsetActive t \<le> 1" "gr_Cols t \<le> MAX_COLS" "pen_ok pen2" "gr_CursorCol g = gr_Cols g - 1"
      "gr_CharsetActive t \<noteq> 0 \<Longrightarrow> gr_CharsetG1 t \<noteq> 0 \<Longrightarrow> gr_CharsetG0 t = 0"
    using g t by (auto simp: at_rest_def wf_defs dims_ok_def wrap_printable_def pen2_def NormalizePen_ok)
  have ok: "cell_ok wc" "pen_ok pen1" "w \<noteq> 0"
    using row_okD(2) [OF wrap(4,1)] wrap(2) by (simp_all add: wc_def [symmetric] r_def pen1_def NormalizePen_ok cell_ok_def w_def)
  have row_t: "row_ok (gr_Cols g) l" "map (look Full) l = map (look cm) (ActiveLine g r)"
    using t by (simp_all add: at_rest_def l_def r_def)
  have row: "row_ok (gr_Cols g) (l[emitCol g := look cm wc])" "map (look Full) (l[emitCol g := look cm wc]) = map (look cm) (ActiveLine g r)"
      "l[emitCol g := look cm wc] = take (emitCol g) l @ look cm wc # replicate (w - 1) continuation"
    using same_look_row [OF row_t(1) wrap(4) row_t(2) wrap(1)] ok(3) wrap(3) by (simp_all add: wc_def w_def r_def)
  note kinds = dressed_kinds [OF rest(7), folded d_def]
  have scr: "active_screen d = active_screen t" "other_screen d = other_screen t" using kinds by (simp_all add: active_screen_def other_screen_def)
  let ?d1 = "d\<lparr>gr_Pen := pen1\<rparr>"
  have dress: "feeds (dress_bytes g) t d"
    using feeds_dress [of t] t by (simp add: at_rest_def dress_bytes_def d_def)
  have sgr1: "feeds (fst (EmitSgr (gr_Pen t) pen1)) d ?d1"
    using feeds_EmitSgr(1) [OF ok(2), of d] kinds by simp
  have "c_Width (l ! emitCol g) = w"
  proof -
    have "look Full (l ! emitCol g) = look cm (ActiveLine g r ! emitCol g)"
      using arg_cong [OF row_t(2), of "\<lambda>x. x ! emitCol g"] wrap(1) row_okD(1) [OF row_t(1)] row_okD(1) [OF wrap(4)] by (simp add: r_def)
    then show ?thesis using look_width by (metis w_def wc_def r_def)
  qed
  moreover have "w = 1 \<or> w = 2" using ok(1,3) by (auto simp: cell_ok_def w_def)
  moreover have rt: "gr_Cols t = gr_Cols g" "gr_CursorRow t = r" "gr_CursorCol t = emitCol g" "\<not> gr_PendingWrap t" "r < length (active_screen t)"
    using t by (simp_all add: at_rest_def r_def)
  ultimately have lg: "last_glyph ?d1 (emitCol g) w"
    using rest(4) kinds(5-9) scr(1) row_t(1) ok(2,3) wrap(3) by (simp add: last_glyph_def l_def)
  have d1: "ascii_set ?d1" "gr_CursorRow ?d1 = r" "active_screen ?d1 = active_screen t"
    using kinds(1,5) scr(1) rt(2) by (auto simp: ascii_set_def split: if_splits)
  have "put_codepoint (cell_char wc) ?d1 = PutChar (cell_char wc) w ?d1"
    using cell_char_spec [OF ok(1)] ok(3) by (simp add: put_codepoint_def Let_def w_def)
  then have put: "feeds (WriteUtf8 (cell_char wc)) ?d1 (PutChar (cell_char wc) w ?d1)"
    using feeds_utf8 [OF cell_char_spec(1) [OF ok(1)], of ?d1] ok(3) by (simp add: w_def)
  let ?d2 = "PutChar (cell_char wc) w ?d1"
  let ?row = "l[emitCol g := look cm wc]"
  have "\<lparr> c_Codepoint = cell_char wc, c_Width = w, c_Pen = pen1 \<rparr> = look cm wc"
    using ok(3) by (cases wc) (simp add: look_def w_def pen1_def)
  then have d2: "showing ?d1 ((active_screen t)[r := ?row]) pen1 ?d2" "gr_CursorRow ?d2 = r" "gr_CursorCol ?d2 = gr_Cols d - 1" "gr_PendingWrap ?d2"
    using print_at_end [OF lg d1(1) refl, of "cell_char wc"] d1 row(3) by (simp_all add: l_def)
  let ?d3 = "?d2\<lparr>gr_Pen := pen2\<rparr>"
  have sgr2: "feeds (fst (EmitSgr pen1 pen2)) ?d2 ?d3"
    using feeds_EmitSgr(1) [OF rest(5), of ?d2] d2(1) by (simp add: showing_def)
  have bd: "backdrop ?d3 = backdrop (dressed t)" using d2(1) by (simp add: showing_def d_def)
  have undress: "feeds (undress_bytes g) ?d3 (undressed t ?d3)"
    using feeds_undress [OF rest(1-3) bd] t by (simp add: at_rest_def undress_bytes_def)
  have "wrap_bytes cm g (gr_Pen t) = dress_bytes g @ fst (EmitSgr (gr_Pen t) pen1) @ WriteUtf8 (cell_char wc) @ fst (EmitSgr pen1 pen2) @ undress_bytes g"
    using g(1,2) by (simp add: wrap_bytes_def dress_bytes_def undress_bytes_def Let_def case_prod_beta CellAt_def EmitSgr_pen
        pen1_def pen2_def wc_def wf_defs)
  then have "feeds (wrap_bytes cm g (gr_Pen t)) t (undressed t ?d3)"
    using feeds_append [OF dress feeds_append [OF sgr1 feeds_append [OF put feeds_append [OF sgr2 undress]]]] by simp
  moreover note pic = undressed_picture [OF bd kinds(10) [unfolded d_def] kinds(2) [unfolded d_def]]
  have "showing t ((active_screen t)[r := ?row]) (gr_Pen t) (undressed t ?d3)"
    using pic d2(1) scr t by (simp add: showing_def at_rest_def pen2_def)
  moreover have "gr_CursorRow (undressed t ?d3) = r" "gr_CursorCol (undressed t ?d3) = gr_CursorCol g" "gr_PendingWrap (undressed t ?d3)"
    using pic d2 kinds rest(6) t by (simp_all add: at_rest_def)
  ultimately show ?thesis
    using row(1,2) unfolding r_def by blast
qed


subsection \<open>The closing section\<close>

text \<open>What a terminal that has been fed a snapshot has in common with the grid, screens and scrollback apart.\<close>

definition same_state :: "EColorMode \<Rightarrow> Grid \<Rightarrow> Grid \<Rightarrow> bool" where
  "same_state cm g t \<longleftrightarrow> gr_CursorRow t = gr_CursorRow g \<and> gr_CursorCol t = gr_CursorCol g \<and> gr_PendingWrap t = gr_PendingWrap g \<and>
     gr_Pen t = NormalizePen cm (gr_Pen g) \<and> gr_ScrollTop t = gr_ScrollTop g \<and> gr_ScrollBot t = gr_ScrollBot g \<and>
     gr_CharsetG0 t = gr_CharsetG0 g \<and> gr_CharsetG1 t = gr_CharsetG1 g \<and> gr_CharsetActive t = gr_CharsetActive g \<and>
     gr_CursorStyle t = gr_CursorStyle g \<and> (\<forall>m. ModeSet m t = (m \<noteq> SyncOutput \<and> ModeSet m g)) \<and>
     (\<forall>c. IsTabStop t c = IsTabStop g c) \<and>
     (if IsAltScreen g then gr_SavedAlt t = kept_slot cm (gr_SavedAlt g) else gr_SavedMain t = kept_slot cm (gr_SavedMain g))"

definition screen_view :: "EColorMode \<Rightarrow> row list \<Rightarrow> row list" where
  "screen_view cm S = map (map (look cm)) S"

text \<open>The grids whose state a snapshot carries.\<close>

definition restorable :: "Grid \<Rightarrow> bool" where
  "restorable g \<longleftrightarrow> grid_wf g \<and> region_ok g \<and> gr_CursorStyle g < 256 \<and> (ModeSet Decom g \<longrightarrow> gr_ScrollTop g \<le> gr_CursorRow g) \<and> wrap_printable g"

text \<open>Up to the last absolute move: everything but the pending wrap, the visibility of the cursor and the end of the sync window.\<close>

definition nearly :: "EColorMode \<Rightarrow> Grid \<Rightarrow> Grid \<Rightarrow> Grid \<Rightarrow> bool" where
  "nearly cm g t t' \<longleftrightarrow> contents t' = contents t \<and> gr_CursorRow t' = gr_CursorRow g \<and> gr_CursorCol t' = emitCol g \<and> \<not> gr_PendingWrap t' \<and>
     gr_Pen t' = NormalizePen cm (gr_Pen g) \<and> gr_ScrollTop t' = gr_ScrollTop g \<and> gr_ScrollBot t' = gr_ScrollBot g \<and>
     gr_CharsetG0 t' = gr_CharsetG0 g \<and> gr_CharsetG1 t' = gr_CharsetG1 g \<and> gr_CharsetActive t' = gr_CharsetActive g \<and>
     gr_CursorStyle t' = gr_CursorStyle g \<and> (\<forall>m. m \<notin> {Dectcem, AltScreen, SyncOutput} \<longrightarrow> ModeSet m t' = ModeSet m g) \<and>
     IsAltScreen t' = IsAltScreen t \<and> (\<forall>c. IsTabStop t' c = IsTabStop g c) \<and> gr_SavedMain t' = gr_SavedMain t \<and> gr_SavedAlt t' = gr_SavedAlt t"

definition state_bytes :: "EColorMode \<Rightarrow> Grid \<Rightarrow> bytes" where
  "state_bytes cm g = esc_csi ''0m'' @ fst (EmitSgr default_pen (NormalizePen cm (gr_Pen g))) @
     region_bytes (gr_ScrollTop g + 1) (gr_ScrollBot g + 1) @ mode_bytes g @
     charset_bytes (gr_CharsetG0 g) (gr_CharsetG1 g) (gr_CharsetActive g) @ esc_csi ''3g'' @ tab_stop_bytes g @
     esc_csi '''' @ WriteDecimal (gr_CursorStyle g) @ WriteLiteral '' q'' @ EmitPrivateMode 6 (ModeSet Decom g) @
     cup_bytes (cupRow g) (emitCol g + 1)"

lemma ClearTabStop_all: "ClearTabStop 3 t = t\<lparr>gr_TabStops := no_stops\<rparr>"
  by (simp add: ClearTabStop_def no_stops_def)

lemma emitCol_le: "emitCol g \<le> gr_CursorCol g"
  by (simp add: emitCol_def)

lemma feeds_state:
  assumes g: "restorable g" and t: "settled t" "gr_Cols t = gr_Cols g" "gr_Rows t = gr_Rows g"
  shows "\<exists>t'. feeds (state_bytes cm g) t t' \<and> nearly cm g t t'"
proof -
  have wf: "grid_wf g" "region_ok g" "gr_CursorStyle g < 256" "ModeSet Decom g \<Longrightarrow> gr_ScrollTop g \<le> gr_CursorRow g"
    using g by (simp_all add: restorable_def)
  note gs = grid_wf_dims [OF wf(1)]
  have cur: "gr_CursorRow g < gr_Rows g" "emitCol g < gr_Cols g" "ModeSet Decom g \<Longrightarrow> gr_CursorRow g \<le> gr_ScrollBot g"
      "pen_ok (NormalizePen cm (gr_Pen g))" "gr_CharsetG0 g \<le> 1" "gr_CharsetG1 g \<le> 1" "gr_CharsetActive g \<le> 1"
    using wf(1) emitCol_le [of g] by (auto simp: wf_defs NormalizePen_ok)
  define t1 where "t1 = t\<lparr>gr_Pen := NormalizePen cm (gr_Pen g)\<rparr>"
  have 1: "feeds (esc_csi ''0m'' @ fst (EmitSgr default_pen (NormalizePen cm (gr_Pen g)))) t t1"
    using feeds_append [OF feeds_reset_pen feeds_EmitSgr(1) [OF cur(4)]] by (simp add: t1_def)
  have "open_screen t1" using t(1) by (simp add: t1_def settled_def open_screen_def)
  then obtain r c w where 2: "feeds (region_bytes (gr_ScrollTop g + 1) (gr_ScrollBot g + 1)) t1
      (t1\<lparr>gr_ScrollTop := gr_ScrollTop g, gr_ScrollBot := gr_ScrollBot g, gr_CursorRow := r, gr_CursorCol := c, gr_PendingWrap := w\<rparr>)" (is "feeds _ _ ?t2")
    using feeds_region4 [of g t1] wf(2) t(3) by (auto simp: t1_def)
  obtain ms where 3: "feeds (mode_bytes g) ?t2 (?t2\<lparr>gr_Modes := ms\<rparr>)"
      "\<forall>m. ModeSet m (?t2\<lparr>gr_Modes := ms\<rparr>) = (if listed_mode m then ModeSet m g else ModeSet m ?t2)"
    using feeds_modes [of g ?t2] by blast
  define t3 where "t3 = ?t2\<lparr>gr_Modes := ms\<rparr>"
  define t4 where "t4 = t3\<lparr>gr_CharsetG0 := gr_CharsetG0 g, gr_CharsetG1 := gr_CharsetG1 g, gr_CharsetActive := gr_CharsetActive g, gr_TabStops := no_stops\<rparr>"
  have 4: "feeds (charset_bytes (gr_CharsetG0 g) (gr_CharsetG1 g) (gr_CharsetActive g) @ esc_csi ''3g'') t3 t4"
    using feeds_append [OF feeds_charsets3 [OF cur(5-7)] feeds_clear_tabs] by (simp add: t4_def ClearTabStop_all)
  have m3: "ModeSet m t3 = (if listed_mode m then ModeSet m g else ModeSet m t)" for m using 3(2) by (simp add: t3_def t1_def)
  have t4: "\<not> ModeSet Decom t4" "gr_Rows t4 = gr_Rows g" "gr_Cols t4 = gr_Cols g" "gr_TabStops t4 = no_stops"
    using m3 [of Decom] t by (simp_all add: t4_def listed_mode_def settled_def open_screen_def) (simp_all add: t3_def t1_def)
  obtain r' c' w' ts where 5: "feeds (tab_stop_bytes g) t4 (t4\<lparr>gr_TabStops := ts, gr_CursorRow := r', gr_CursorCol := c', gr_PendingWrap := w'\<rparr>)" (is "feeds _ _ ?t5")
      "length ts = TAB_WORDS" "\<forall>c<gr_Cols g. stop_at ts c \<longleftrightarrow> IsTabStop g c"
    using feeds_tab_stops [OF t4(1) _ _ _ t4(4), of "gr_Cols g" g] t4 gs unfolding tab_stop_bytes_def MAX_ROWS_def MAX_COLS_def by auto
  define t6 where "t6 = ?t5\<lparr>gr_CursorStyle := gr_CursorStyle g\<rparr>"
  have 6: "feeds (esc_csi '''' @ WriteDecimal (gr_CursorStyle g) @ WriteLiteral '' q'') ?t5 t6"
    using feeds_style [OF wf(3), of ?t5] by (simp add: t6_def SetCursorStyle_def)
  define t7 where "t7 = (set_mode_bit Decom (ModeSet Decom g) t6)\<lparr>gr_CursorRow := (if ModeSet Decom g then gr_ScrollTop t6 else 0), gr_CursorCol := 0, gr_PendingWrap := False\<rparr>"
  have 7: "feeds (EmitPrivateMode 6 (ModeSet Decom g)) t6 t7" using origin_mode by (simp add: t7_def)
  have f7: "contents t7 = contents t" "gr_Rows t7 = gr_Rows g" "gr_Cols t7 = gr_Cols g" "gr_ScrollTop t7 = gr_ScrollTop g" "gr_ScrollBot t7 = gr_ScrollBot g"
      "gr_Pen t7 = NormalizePen cm (gr_Pen g)" "gr_CharsetG0 t7 = gr_CharsetG0 g" "gr_CharsetG1 t7 = gr_CharsetG1 g" "gr_CharsetActive t7 = gr_CharsetActive g"
      "gr_CursorStyle t7 = gr_CursorStyle g" "gr_TabStops t7 = ts" "gr_SavedMain t7 = gr_SavedMain t" "gr_SavedAlt t7 = gr_SavedAlt t"
    using t(2,3) by (simp_all add: t7_def t6_def t4_def t3_def t1_def)
  have m7: "ModeSet m t7 = (if m = Decom then ModeSet Decom g else ModeSet m t3)" for m
    by (simp add: t7_def t6_def t4_def)
  define t8 where "t8 = t7\<lparr>gr_PendingWrap := False, gr_CursorRow := gr_CursorRow g, gr_CursorCol := emitCol g\<rparr>"
  have "cupRow g = (if ModeSet Decom t7 then gr_CursorRow g - gr_ScrollTop t7 else gr_CursorRow g) + 1"
    using wf(4) cur(3) m7 f7 by (auto simp: cupRow_def Let_def)
  then have 8: "feeds (cup_bytes (cupRow g) (emitCol g + 1)) t7 t8"
    using feeds_goto [of "gr_CursorRow g" t7 "emitCol g"] f7 gs cur wf(4) m7 by (simp add: t8_def MAX_ROWS_def MAX_COLS_def)
  have "feeds (state_bytes cm g) t t8"
    using feeds_append [OF 1 feeds_append [OF 2 feeds_append [OF 3(1) [folded t3_def] feeds_append [OF 4 feeds_append [OF 5(1) feeds_append [OF 6 feeds_append [OF 7 8]]]]]]]
    by (simp add: state_bytes_def)
  moreover have "nearly cm g t t8"
    using f7 m7 m3 5(3) by (auto simp: nearly_def t8_def listed_mode_def IsTabStop_def IsAltScreen_def)
  ultimately show ?thesis by blast
qed


text \<open>\<open>pictured cm cols rows line_at S\<close>: the screen \<open>S\<close> shows the rows \<open>line_at\<close>.\<close>

definition pictured :: "EColorMode \<Rightarrow> nat \<Rightarrow> nat \<Rightarrow> (nat \<Rightarrow> row) \<Rightarrow> row list \<Rightarrow> bool" where
  "pictured cm cols rows line_at S \<longleftrightarrow> length S = rows \<and>
     (\<forall>r<rows. row_ok cols (S ! r) \<and> map (look Full) (S ! r) = map (look cm) (line_at r))"

lemma pictured_update:
  assumes "pictured cm cols rows line_at S" "row_ok cols row" "map (look Full) row = map (look cm) (line_at r)"
  shows "pictured cm cols rows line_at (S[r := row])"
  using assms by (cases "r < length S") (auto simp: pictured_def nth_list_update)

lemma pictured_view:
  assumes "pictured cm cols rows line_at S" "length S' = rows" "\<And>r. r < rows \<Longrightarrow> line_at r = S' ! r"
  shows "screen_view Full S = screen_view cm S'"
  using assms by (intro nth_equalityI) (auto simp: pictured_def screen_view_def)

lemma wrap_step:
  assumes g: "restorable g" and t: "nearly cm g t0 t" "gr_Cols t = gr_Cols g" "pictured cm (gr_Cols g) (gr_Rows g) (ActiveLine g) (active_screen t)"
  shows "\<exists>t' S. feeds (wrap_bytes cm g (NormalizePen cm (gr_Pen g))) t t' \<and> showing t S (gr_Pen t) t' \<and>
    pictured cm (gr_Cols g) (gr_Rows g) (ActiveLine g) S \<and> gr_CursorRow t' = gr_CursorRow g \<and> gr_CursorCol t' = gr_CursorCol g \<and>
    gr_PendingWrap t' = gr_PendingWrap g"
proof (cases "gr_PendingWrap g")
  case False
  then have "emitCol g = gr_CursorCol g" "wrap_bytes cm g (NormalizePen cm (gr_Pen g)) = []"
    by (simp_all add: emitCol_def wrapLeadReposition_def wrap_bytes_def)
  then show ?thesis
    using t False by (intro exI [of _ t] exI [of _ "active_screen t"]) (simp add: nearly_def showing_def)
next
  case True
  have "gr_CursorRow g < gr_Rows g" using g by (simp add: restorable_def wf_defs)
  then have "at_rest cm g t"
    using t by (auto simp: at_rest_def nearly_def pictured_def)
  moreover have "gr_Pen t = NormalizePen cm (gr_Pen g)" using t(1) by (simp add: nearly_def)
  ultimately obtain t' row where t': "feeds (wrap_bytes cm g (NormalizePen cm (gr_Pen g))) t t'"
      "showing t ((active_screen t)[gr_CursorRow g := row]) (gr_Pen t) t'" "gr_CursorRow t' = gr_CursorRow g" "gr_CursorCol t' = gr_CursorCol g"
      "gr_PendingWrap t'" "row_ok (gr_Cols g) row" "map (look Full) row = map (look cm) (ActiveLine g (gr_CursorRow g))"
    using feeds_wrap [of g cm t] g True by (auto simp: restorable_def)
  then show ?thesis
    using pictured_update [OF t(3) t'(6,7)] True by (intro exI [of _ t'] exI [of _ "(active_screen t)[gr_CursorRow g := row]"]) simp
qed

lemma closing_bytes:
  "EncodeModeRestore cm g = (let sc = (if IsAltScreen g then gr_SavedAlt g else gr_SavedMain g) in
    (slot_bytes cm g sc @ esc_lit ''7'' @ (if SlotNeedsState sc then SlotUndoState else [])) @ state_bytes cm g @
    wrap_bytes cm g (NormalizePen cm (gr_Pen g)) @ EmitPrivateMode 25 (ModeSet Dectcem g) @ EmitPrivateMode 2026 False)"
  by (simp add: EncodeModeRestore_def state_bytes_def case_prod_beta Let_def EmitSgr_pen esc_literals(13))

lemma same_contents:
  assumes "contents t' = contents t" "IsAltScreen t' = IsAltScreen t"
  shows "active_screen t' = active_screen t" "other_screen t' = other_screen t" "scrollback t' = scrollback t" "gr_Cols t' = gr_Cols t" "gr_Rows t' = gr_Rows t"
  using contentsD [OF assms(1)] assms(2) by (simp_all add: active_screen_def other_screen_def scrollback_def)

lemma feeds_closing:
  assumes g: "restorable g" and t: "settled t" "gr_Cols t = gr_Cols g" "gr_Rows t = gr_Rows g" "IsAltScreen t = IsAltScreen g"
    "pictured cm (gr_Cols g) (gr_Rows g) (ActiveLine g) (active_screen t)"
  shows "\<exists>t'. feeds (EncodeModeRestore cm g) t t' \<and> same_state cm g t' \<and> pictured cm (gr_Cols g) (gr_Rows g) (ActiveLine g) (active_screen t') \<and>
    other_screen t' = other_screen t \<and> scrollback t' = scrollback t \<and> (IsAltScreen g \<longrightarrow> gr_SavedMain t' = gr_SavedMain t)"
proof -
  let ?sc = "if IsAltScreen g then gr_SavedAlt g else gr_SavedMain g"
  have wf: "grid_wf g" "region_ok g" using g by (simp_all add: restorable_def)
  note dims = grid_wf_dims [OF wf(1)]
  have sc: "saved_ok (gr_Cols t) (gr_Rows t) ?sc" using wf(1) t(2,3) by (simp add: wf_defs)
  have size: "gr_Cols t \<le> MAX_COLS" "0 < gr_Cols t" using dims t(2) by (simp_all add: MAX_COLS_def)
  obtain t1 where 1: "feeds (slot_bytes cm g ?sc @ esc_lit ''7'' @ (if SlotNeedsState ?sc then SlotUndoState else [])) t t1"
      "contents t1 = contents t" "settled t1" "\<forall>m. ModeSet m t1 = ModeSet m t"
      "gr_SavedMain t1 = (if IsAltScreen t then gr_SavedMain t else kept_slot cm ?sc)"
      "gr_SavedAlt t1 = (if IsAltScreen t then kept_slot cm ?sc else gr_SavedAlt t)"
    using slot_saved [OF t(1) size sc wf(2) t(3) [symmetric], of cm] by blast
  have alt1: "IsAltScreen t1 = IsAltScreen t" using 1(4) by (simp add: IsAltScreen_def)
  note c1 = same_contents [OF 1(2) alt1]
  obtain t2 where 2: "feeds (state_bytes cm g) t1 t2" "nearly cm g t1 t2"
    using feeds_state [OF g 1(3), of cm] c1(4,5) t(2,3) by auto
  then have n2: "contents t2 = contents t1" "IsAltScreen t2 = IsAltScreen t1" by (simp_all add: nearly_def)
  note c2 = same_contents [OF n2]
  have shown: "gr_Cols t2 = gr_Cols g" "pictured cm (gr_Cols g) (gr_Rows g) (ActiveLine g) (active_screen t2)"
    using c1 c2 t(2,5) by simp_all
  obtain t3 S where 3: "feeds (wrap_bytes cm g (NormalizePen cm (gr_Pen g))) t2 t3" "showing t2 S (gr_Pen t2) t3"
      "pictured cm (gr_Cols g) (gr_Rows g) (ActiveLine g) S" "gr_CursorRow t3 = gr_CursorRow g" "gr_CursorCol t3 = gr_CursorCol g"
      "gr_PendingWrap t3 = gr_PendingWrap g"
    using wrap_step [OF g 2(2) shown] by blast
  have bd: "backdrop t3 = backdrop t2" using 3(2) by (simp add: showing_def)
  define t5 where "t5 = set_mode_bit SyncOutput False (set_mode_bit Dectcem (ModeSet Dectcem g) t3)"
  have "feeds (EmitPrivateMode 25 (ModeSet Dectcem g) @ EmitPrivateMode 2026 False) t3 t5"
    using feeds_append [OF feeds_private [of 25 "ModeSet Dectcem g" t3] feeds_private [of 2026 False]] by (simp add: t5_def SetMode_bits)
  then have "feeds (EncodeModeRestore cm g) t t5"
    using feeds_append [OF 1(1) feeds_append [OF 2(1) feeds_append [OF 3(1)]]] unfolding closing_bytes Let_def by blast
  moreover have modes: "ModeSet m t5 = (if m = SyncOutput then False else if m = Dectcem then ModeSet m g else ModeSet m t2)" for m
    using backdrop_modes [OF bd, of m] by (auto simp: t5_def)
  moreover have alt: "IsAltScreen t5 = IsAltScreen g" "IsAltScreen t3 = IsAltScreen g"
    using modes [of AltScreen] n2(2) alt1 t(4) backdrop_modes [OF bd, of AltScreen] by (simp_all add: IsAltScreen_def)
  moreover have "active_screen t5 = S" "other_screen t5 = other_screen t" "scrollback t5 = scrollback t"
  proof -
    have "active_screen t5 = active_screen t3" "other_screen t5 = other_screen t3"
      using alt unfolding active_screen_def other_screen_def by (simp_all add: t5_def set_mode_bit_def)
    then show "active_screen t5 = S" "other_screen t5 = other_screen t" using 3(2) c2(2) c1(2) by (simp_all add: showing_def)
    show "scrollback t5 = scrollback t"
      using backdropD(9-12) [OF bd] c1(3) c2(3) by (simp add: scrollback_def t5_def set_mode_bit_def)
  qed
  moreover have "same_state cm g t5"
  proof -
    have "ModeSet m t5 = (m \<noteq> SyncOutput \<and> ModeSet m g)" for m
      using modes [of m] alt(1) 2(2) n2(2) alt1 t(4) by (cases m) (simp_all add: nearly_def IsAltScreen_def)
    moreover have "IsTabStop t5 c = IsTabStop t2 c" for c
      using backdropD(1,15) [OF bd] by (simp add: IsTabStop_def t5_def)
    moreover have "gr_Pen t5 = gr_Pen t2" using 3(2) by (simp add: showing_def t5_def)
    ultimately show ?thesis
      using 2(2) 3(4-6) backdropD [OF bd] 1(5,6) t(4) by (simp add: same_state_def nearly_def t5_def)
  qed
  moreover have "IsAltScreen g \<longrightarrow> gr_SavedMain t5 = gr_SavedMain t"
    using 2(2) backdropD(13) [OF bd] 1(5) t(4) by (simp add: nearly_def t5_def)
  ultimately show ?thesis using 3(3) by blast
qed


subsection \<open>The opening section\<close>

text \<open>A terminal as \<open>Grid::Create\<close> leaves it.\<close>

definition new_terminal :: "Grid \<Rightarrow> bool" where
  "new_terminal t \<longleftrightarrow> grid_wf t \<and> gr_Main t = blank_screen (gr_Cols t) (gr_Rows t) \<and> gr_HistorySize t = 0 \<and>
     gr_CursorRow t = 0 \<and> gr_CursorCol t = 0 \<and> \<not> gr_PendingWrap t \<and> gr_ScrollTop t = 0 \<and> gr_ScrollBot t = gr_Rows t - 1 \<and>
     gr_Modes t = default_modes \<and> gr_Pen t = default_pen \<and> gr_SavedMain t = default_saved \<and>
     gr_CharsetG0 t = 0 \<and> gr_CharsetG1 t = 0 \<and> gr_CharsetActive t = 0"

lemma default_modes_set: "gr_Modes t = default_modes \<Longrightarrow> ModeSet m t \<longleftrightarrow> m = Awm \<or> m = Dectcem"
  using ModeSet_default [of m t] by (simp add: ModeSet_def)

lemma new_terminal_modes:
  assumes "new_terminal t"
  shows "ModeSet m t \<longleftrightarrow> m = Awm \<or> m = Dectcem" "\<not> IsAltScreen t"
  using assms default_modes_set [of t] by (simp_all add: new_terminal_def IsAltScreen_def)

lemma new_terminal_kinds:
  assumes "new_terminal t"
  shows "main_open t" "settled t" "sized t" "0 < gr_Cols t" "0 < gr_Rows t" "gr_Rows t \<le> 1024"
  using assms new_terminal_modes [OF assms] grid_wf_dims [of t]
  by (auto simp: main_open_def open_screen_def plain_def settled_def sized_def active_screen_def new_terminal_def blank_screen_def
      MAX_ROWS_def MAX_COLS_def)

lemma feeds_preamble_resets:
  assumes t: "new_terminal t"
  shows "feeds ([0x18] @ esc_lit [CHR 0x5C] @ esc_csi ''!p'' @ esc_csi ''?1049l'') t t"
proof -
  have rows: "u16_minus (gr_Rows t) 1 = gr_Rows t - 1" "ClampRow t 0 = 0" "ClampCol t 0 = 0"
    using new_terminal_kinds(4-6) [OF t] by (simp_all add: ClampRow_def ClampCol_def)
  have "g_Reset False t = t"
    by (rule Grid.equality) (use t rows new_terminal_modes(1) [OF t] in \<open>simp_all add: g_Reset_def Let_def new_terminal_def ModeSet_def\<close>)
  then have 1: "feeds (esc_csi ''!p'') t t" using feeds_soft_reset [of t] by simp
  have off: "default_modes AND NOT (ModeFlag Decom) = default_modes" by (simp add: default_modes_def ModeFlag_def)
  have "SetMode 1049 False t = RestoreCursor t"
    using new_terminal_modes(2) [OF t] by (simp add: SetMode_def SwitchAltScreen_def)
  also have "\<dots> = t"
    by (rule Grid.equality) (use t rows off new_terminal_modes(2) [OF t] in
        \<open>simp_all add: RestoreCursor_def Let_def new_terminal_def default_saved_def set_mode_bit_def\<close>)
  finally have 2: "feeds (esc_csi ''?1049l'') t t" using feeds_private [of 1049 False t] by (simp add: esc_literals)
  show ?thesis using feeds_append [OF feeds_can feeds_append [OF feeds_save(3) feeds_append [OF 1 2]]] .
qed

lemma feeds_blank:
  assumes "sized g" "open_screen g" "0 < gr_Cols g" "gr_Pen g = default_pen"
  shows "\<exists>g'. feeds (esc_csi ''2J'' @ esc_csi ''H'') g g' \<and> blank_from g g'"
proof -
  let ?g1 = "EraseInDisplay 2 g"
  note s = erase_screen(1) [OF assms(4,1)]
  then have o: "open_screen ?g1" "0 < gr_Rows ?g1" "0 < gr_Cols ?g1"
    using assms open_backdrop [of ?g1 g] backdropD(1,2) [of ?g1 g] by (auto simp: showing_def open_screen_def)
  have "at_line ?g1 0 (MoveCursorTo 1 1 ?g1)"
    using cup_at_line [OF o] by simp
  then have "blank_from g (MoveCursorTo 1 1 ?g1)"
    using s by (simp add: at_line_def blank_from_def showing_def)
  then show ?thesis using feeds_append [OF feeds_erase feeds_home] by blast
qed

text \<open>An empty canvas of the size of \<open>g\<close>.\<close>

definition canvas :: "Grid \<Rightarrow> Grid \<Rightarrow> bool" where
  "canvas g t \<longleftrightarrow> settled t \<and> plain t \<and> gr_Cols t = gr_Cols g \<and> gr_Rows t = gr_Rows g \<and>
     active_screen t = blank_screen (gr_Cols g) (gr_Rows g) \<and> gr_Pen t = default_pen"

lemma settled_hbackdrop: "hbackdrop g = hbackdrop g' \<Longrightarrow> settled g = settled g'"
  using hbackdropD(6,7,8) [of g g'] hbackdrop_kinds [of g g'] by (simp add: settled_def)

lemma settled_backdrop: "backdrop g = backdrop g' \<Longrightarrow> settled g = settled g'"
  using settled_hbackdrop [OF backdrop_hbackdrop] .

lemma preamble:
  assumes t: "new_terminal t"
  shows "\<exists>t'. feeds preamble_bytes t t' \<and> main_open t' \<and> gr_Main t' = blank_screen (gr_Cols t') (gr_Rows t') \<and> gr_HistorySize t' = 0 \<and> ring_ok t' \<and>
    gr_CursorRow t' = 0 \<and> gr_CursorCol t' = 0 \<and> \<not> gr_PendingWrap t' \<and> gr_Pen t' = default_pen \<and> settled t' \<and>
    gr_Alt t' = gr_Alt t \<and> gr_Cols t' = gr_Cols t \<and> gr_Rows t' = gr_Rows t \<and> gr_ScrollbackLimit t' = gr_ScrollbackLimit t"
proof -
  note k = new_terminal_kinds [OF t]
  have pen: "gr_Pen t = default_pen" "open_screen t" using t k(1) by (simp_all add: new_terminal_def main_open_def)
  obtain t1 where t1: "feeds (esc_csi ''2J'' @ esc_csi ''H'') t t1" "blank_from t t1"
    using feeds_blank [OF k(3) pen(2) k(4) pen(1)] by blast
  define t2 where "t2 = set_mode_bit Dectcem False t1"
  have "feeds (esc_csi ''?25l'') t1 t2" using feeds_private [of 25 False t1] by (simp add: esc_literals SetMode_bits t2_def)
  then have "feeds preamble_bytes t t2"
    using feeds_append [OF feeds_preamble_resets [OF t] feeds_append [OF t1(1)]] by (simp add: preamble_bytes_def)
  moreover have bd: "backdrop t1 = backdrop t" using t1(2) by (simp add: blank_from_def showing_def)
  note d = backdropD [OF bd]
  have alt: "\<not> IsAltScreen t1" "\<not> IsAltScreen t" "main_open t1" "settled t1"
    using backdrop_modes [OF bd] k(1,2) settled_backdrop [OF bd] main_open_hbackdrop [OF backdrop_hbackdrop [OF bd]] by (auto simp: main_open_def)
  have "ring_ok t" using t by (simp add: new_terminal_def ring_ok_wf)
  then have "ring_ok t2" using d by (simp add: ring_ok_def t2_def)
  moreover have "gr_Main t1 = blank_screen (gr_Cols t) (gr_Rows t)" "gr_Alt t1 = gr_Alt t" "gr_Pen t1 = default_pen"
      "gr_CursorRow t1 = 0" "gr_CursorCol t1 = 0" "\<not> gr_PendingWrap t1"
    using t1(2) alt by (simp_all add: blank_from_def showing_def active_screen_def other_screen_def)
  moreover have "main_open t2" "settled t2"
    using alt(3,4) by (simp_all add: main_open_def open_screen_def plain_def settled_def t2_def IsAltScreen_def)
  moreover have "gr_Main t2 = gr_Main t1" "gr_Alt t2 = gr_Alt t1" "gr_HistorySize t2 = gr_HistorySize t1" "gr_ScrollbackLimit t2 = gr_ScrollbackLimit t1"
    by (simp_all add: t2_def set_mode_bit_def)
  moreover have "gr_HistorySize t = 0" using t by (simp add: new_terminal_def)
  ultimately show ?thesis using d by (intro exI [of _ t2]) (simp add: t2_def)
qed

lemma feeds_opening:
  assumes t: "new_terminal t" and g: "grid_wf g" "gr_Cols g = gr_Cols t" "gr_Rows g = gr_Rows t"
    and ep: "ep_HistStart ep + ep_HistCount ep \<le> gr_HistorySize g" "ep_HistCount ep \<le> gr_ScrollbackLimit t"
  shows "\<exists>t'. feeds (preamble_bytes @ history_bytes g ep @ clear_bytes) t t' \<and> canvas g t' \<and> \<not> IsAltScreen t' \<and> gr_Alt t' = gr_Alt t \<and>
    screen_view Full (scrollback t') = screen_view (ep_Color ep) (take (ep_HistCount ep) (drop (ep_HistStart ep) (scrollback g)))"
proof -
  obtain t1 where t1: "feeds preamble_bytes t t1" "main_open t1" "gr_Main t1 = blank_screen (gr_Cols t1) (gr_Rows t1)" "gr_HistorySize t1 = 0" "ring_ok t1"
      "gr_CursorRow t1 = 0" "gr_CursorCol t1 = 0" "\<not> gr_PendingWrap t1" "gr_Pen t1 = default_pen" "settled t1"
      "gr_Alt t1 = gr_Alt t" "gr_Cols t1 = gr_Cols t" "gr_Rows t1 = gr_Rows t" "gr_ScrollbackLimit t1 = gr_ScrollbackLimit t"
    using preamble [OF t] by blast
  have dims: "gr_Cols g = gr_Cols t1" "gr_Rows g = gr_Rows t1" "ep_HistCount ep \<le> gr_ScrollbackLimit t1" using g ep(2) t1 by simp_all
  obtain t2 where t2: "feeds (history_bytes g ep) t1 t2" "hbackdrop t2 = hbackdrop t1" "gr_Alt t2 = gr_Alt t1" "sized t2"
      "map (map (look Full)) (scrollback t2) = map (map (look (ep_Color ep))) (take (ep_HistCount ep) (drop (ep_HistStart ep) (scrollback g)))"
    using history_restored [OF t1(2-9) g(1) dims(1,2) ep(1) dims(3)] by blast
  have k2: "main_open t2" "settled t2" "gr_Cols t2 = gr_Cols t1" "gr_Rows t2 = gr_Rows t1"
    using main_open_hbackdrop [OF t2(2)] settled_hbackdrop [OF t2(2)] hbackdropD(1,2) [OF t2(2)] t1 by simp_all
  then obtain t3 where t3: "feeds clear_bytes t2 t3" "blank_from t2 t3"
    using feeds_clear [OF t2(4)] by (auto simp: main_open_def plain_def)
  have bd: "backdrop t3 = backdrop t2" "other_screen t3 = other_screen t2" using t3(2) by (simp_all add: blank_from_def showing_def)
  have k3: "settled t3" "\<not> IsAltScreen t3" "plain t3" "\<not> IsAltScreen t2" "gr_Cols t3 = gr_Cols t2" "gr_Rows t3 = gr_Rows t2"
    using settled_backdrop [OF bd(1)] backdrop_modes [OF bd(1)] plain_backdrop [OF bd(1)] backdropD(1,2) [OF bd(1)] k2(1,2) by (simp_all add: main_open_def)
  have "scrollback t3 = scrollback t2" using backdropD(9-12) [OF bd(1)] by (simp add: scrollback_def)
  moreover have "canvas g t3"
    using k3 k2 t3(2) dims by (simp add: canvas_def blank_from_def showing_def)
  moreover have "gr_Alt t3 = gr_Alt t" using bd(2) k3 t2(3) t1(11) by (simp add: other_screen_def)
  ultimately show ?thesis
    using feeds_append [OF t1(1) feeds_append [OF t2(1) t3(1)]] k3(2) t2(5) by (intro exI [of _ t3]) (simp add: screen_view_def)
qed


subsection \<open>The two screens\<close>

lemma paint_canvas:
  assumes t: "canvas g t" and lines: "\<And>r. r < gr_Rows g \<Longrightarrow> row_ok (gr_Cols g) (line_at r)"
  shows "\<exists>t' S pen. feeds (fst (EncodeAnyScreen cm g line_at 0 (gr_Rows g) default_pen)) t t' \<and> showing t S pen t' \<and>
    pictured cm (gr_Cols g) (gr_Rows g) line_at S"
proof -
  let ?rs = "[0..<gr_Rows g]" and ?S = "blank_screen (gr_Cols g) (gr_Rows g)"
  have k: "plain t" "open_screen t" "gr_Cols t = gr_Cols g" "gr_Rows t = gr_Rows g" "showing t ?S default_pen t"
    using t by (simp_all add: canvas_def settled_def showing_def)
  have rows: "\<forall>r\<in>set ?rs. r < gr_Rows t \<and> row_ok (gr_Cols t) (line_at r)" using lines k by simp
  have "pen_ok default_pen" by (simp add: pen_ok_def default_pen_def)
  then obtain t' S' where *: "feeds (fst (encode_screen_rows cm (gr_Cols t) line_at ?rs None default_pen)) t t'"
      "showing t S' (snd (encode_screen_rows cm (gr_Cols t) line_at ?rs None default_pen)) t'" "painted cm (gr_Cols t) line_at ?rs ?S S'"
    using paint_screen [OF k(1,2) rows _ k(5), of None cm] k(3,4) by (auto simp: blank_screen_def)
  then show ?thesis
    using k(3) by (intro exI [of _ t'] exI [of _ S']) (auto simp: EncodeAnyScreen_def painted_def pictured_def blank_screen_def)
qed

text \<open>Entering the alternate screen saves the cursor and clears that screen; nothing else changes.\<close>

definition clear_alt_rows :: "nat \<Rightarrow> Grid \<Rightarrow> Grid" where
  "clear_alt_rows n g = fold (\<lambda>r g. g\<lparr>gr_Alt := (gr_Alt g)[r := ClearLine (BlankCell g) (gr_Cols g) (gr_Alt g ! r)]\<rparr>) [0..<n] g"

lemma clear_alt_rows_Suc: "clear_alt_rows (Suc n) g =
    (let g = clear_alt_rows n g in g\<lparr>gr_Alt := (gr_Alt g)[n := ClearLine (BlankCell g) (gr_Cols g) (gr_Alt g ! n)]\<rparr>)"
  by (simp add: clear_alt_rows_def Let_def)

lemma clear_alt_rows:
  assumes "\<forall>l\<in>set (gr_Alt g). length l = gr_Cols g"
  shows "n \<le> length (gr_Alt g) \<Longrightarrow> \<exists>A. clear_alt_rows n g = g\<lparr>gr_Alt := A\<rparr> \<and> length A = length (gr_Alt g) \<and> (\<forall>l\<in>set A. length l = gr_Cols g)"
proof (induction n)
  case 0
  then show ?case using assms by (intro exI [of _ "gr_Alt g"]) (simp add: clear_alt_rows_def)
next
  case (Suc n)
  then obtain A where A: "clear_alt_rows n g = g\<lparr>gr_Alt := A\<rparr>" "length A = length (gr_Alt g)" "\<forall>l\<in>set A. length l = gr_Cols g"
    by auto
  have "length (A ! n) = gr_Cols g" using A Suc.prems by simp
  then have "\<forall>l\<in>set (A[n := replicate (gr_Cols g) b]). length l = gr_Cols g" for b
    using A(3) set_update_subset_insert [of A n] by fastforce
  then show ?case
    using A \<open>length (A ! n) = gr_Cols g\<close> by (auto simp: clear_alt_rows_Suc Let_def ClearLine_row)
qed

definition entered :: "Grid \<Rightarrow> Grid \<Rightarrow> bool" where
  "entered t t' \<longleftrightarrow> IsAltScreen t' \<and> gr_Main t' = gr_Main t \<and> sized t' \<and> scrollback t' = scrollback t \<and> gr_Cols t' = gr_Cols t \<and> gr_Rows t' = gr_Rows t \<and>
     gr_ScrollTop t' = gr_ScrollTop t \<and> gr_ScrollBot t' = gr_ScrollBot t \<and> gr_CharsetG0 t' = gr_CharsetG0 t \<and> gr_CharsetG1 t' = gr_CharsetG1 t \<and>
     gr_CharsetActive t' = gr_CharsetActive t \<and> (\<forall>m. m \<noteq> AltScreen \<longrightarrow> ModeSet m t' = ModeSet m t) \<and> gr_SavedMain t' = gr_SavedMain (SaveCursor t)"

lemma enter_alt:
  assumes "\<not> IsAltScreen t" "length (gr_Alt t) = gr_Rows t" "\<forall>l\<in>set (gr_Alt t). length l = gr_Cols t"
  shows "entered t (SetMode 1049 True t)"
proof -
  define s where "s = set_mode_bit AltScreen True (SaveCursor t)"
  have fields: "gr_Alt s = gr_Alt t" "gr_Cols s = gr_Cols t" "gr_Rows s = gr_Rows t" "gr_Main s = gr_Main t"
      "gr_ScrollTop s = gr_ScrollTop t" "gr_ScrollBot s = gr_ScrollBot t" "gr_CharsetG0 s = gr_CharsetG0 t" "gr_CharsetG1 s = gr_CharsetG1 t"
      "gr_CharsetActive s = gr_CharsetActive t" "scrollback s = scrollback t" "gr_SavedMain s = gr_SavedMain (SaveCursor t)"
    by (simp_all add: s_def SaveCursor_def Let_def) (simp_all add: set_mode_bit_def scrollback_def)
  have modes: "ModeSet m s = (if m = AltScreen then True else ModeSet m t)" for m by (simp add: s_def)
  have "\<not> IsAltScreen (SaveCursor t)" using assms(1) by (simp add: IsAltScreen_def)
  then have set: "SetMode 1049 True t = ClearAltScreen s"
    by (simp add: SetMode_def SwitchAltScreen_def s_def)
  have clear: "ClearAltScreen s = (clear_alt_rows (gr_Rows t) s)\<lparr>gr_PendingWrap := False\<rparr>"
    by (simp add: ClearAltScreen_def clear_alt_rows_def fields)
  obtain A where A: "ClearAltScreen s = s\<lparr>gr_Alt := A, gr_PendingWrap := False\<rparr>" "length A = gr_Rows t" "\<forall>l\<in>set A. length l = gr_Cols t"
    using clear_alt_rows [of s "gr_Rows t"] assms(2,3) fields(1,2) unfolding clear by auto
  have alt: "IsAltScreen (ClearAltScreen s)" unfolding A(1) using modes [of AltScreen] by (simp add: IsAltScreen_def)
  then have "sized (ClearAltScreen s)" using A by (simp add: sized_def active_screen_def fields)
  then show ?thesis
    unfolding set using alt A(1) fields modes by (simp add: entered_def scrollback_def)
qed

lemma alt_switch:
  assumes g: "grid_wf g" "region_ok g" "IsAltScreen g" and t: "canvas g t" "\<not> IsAltScreen t" "length (gr_Alt t) = gr_Rows t"
      "\<forall>l\<in>set (gr_Alt t). length l = gr_Cols t" and ep: "ep_CropTop ep = 0" "ep_CropBot ep = 0"
  shows "\<exists>t'. feeds (alt_switch_bytes g ep) t t' \<and> canvas g t' \<and> IsAltScreen t' \<and>
    pictured (ep_Color ep) (gr_Cols g) (gr_Rows g) (\<lambda>r. gr_Main g ! r) (gr_Main t') \<and>
    gr_SavedMain t' = kept_slot (ep_Color ep) (gr_SavedMain g) \<and> scrollback t' = scrollback t"
proof -
  let ?cm = "ep_Color ep" and ?sc = "gr_SavedMain g"
  have "row_ok (gr_Cols g) (gr_Main g ! r)" if "r < gr_Rows g" for r using g(1) that by (auto simp: wf_defs intro: screen_ok_nth)
  then obtain t1 S pen where t1: "feeds (fst (EncodeAnyScreen ?cm g (\<lambda>r. gr_Main g ! r) 0 (gr_Rows g) default_pen)) t t1" "showing t S pen t1"
      "pictured ?cm (gr_Cols g) (gr_Rows g) (\<lambda>r. gr_Main g ! r) S"
    using paint_canvas [OF t(1), of "\<lambda>r. gr_Main g ! r" ?cm] by blast
  have bd: "backdrop t1 = backdrop t" using t1(2) by (simp add: showing_def)
  have k: "settled t" "plain t" "gr_Cols t = gr_Cols g" "gr_Rows t = gr_Rows g" using t(1) by (simp_all add: canvas_def)
  have k1: "settled t1" "plain t1" "gr_Cols t1 = gr_Cols g" "gr_Rows t1 = gr_Rows g" "\<not> IsAltScreen t1" "gr_Main t1 = S" "gr_Alt t1 = gr_Alt t"
    using settled_backdrop [OF bd] plain_backdrop [OF bd] backdropD(1,2) [OF bd] backdrop_modes [OF bd] k t(2) t1(2)
    by (simp_all add: showing_def active_screen_def other_screen_def)
  have sb1: "scrollback t1 = scrollback t" using backdropD(9-12) [OF bd] by (simp add: scrollback_def)
  have sc: "saved_ok (gr_Cols t1) (gr_Rows t1) ?sc" using g(1) k1(3,4) by (simp add: wf_defs)
  have "gr_Cols t1 \<le> MAX_COLS" "gr_Rows g = gr_Rows t1" using k1(2,4) by (simp_all add: plain_def)
  then obtain t2 where t2: "feeds (slot_bytes ?cm g ?sc) t1 t2" "placed t1 (kept_slot ?cm ?sc) t2"
    using slot_placed [OF k1(1) _ sc g(2), of ?cm] by blast
  have alt2: "\<not> IsAltScreen t2" using t2(2) k1(5) by (auto simp: placed_def IsAltScreen_def)
  have c2: "contents t2 = contents t1" using t2(2) by (simp add: placed_def)
  have d2: "gr_Alt t2 = gr_Alt t" "gr_Main t2 = S" "gr_Cols t2 = gr_Cols g" "gr_Rows t2 = gr_Rows g" "scrollback t2 = scrollback t"
    using contentsD [OF c2] k1 sb1 by (simp_all add: scrollback_def)
  define t3 where "t3 = SetMode 1049 True t2"
  have e: "entered t2 t3" using enter_alt [OF alt2] d2 t(3,4) k(3,4) by (simp add: t3_def)
  have feed3: "feeds (esc_csi ''?1049h'') t2 t3" using feeds_private [of 1049 True t2] by (simp add: esc_literals t3_def)
  have slot: "gr_SavedMain t3 = kept_slot ?cm ?sc"
    using e t2(2) alt2 by (cases ?sc) (simp add: entered_def placed_def SaveCursor_def Let_def kept_slot_def)
  have needs: "SlotNeedsState (kept_slot ?cm ?sc) = SlotNeedsState ?sc" by (simp add: SlotNeedsState_def kept_slot_def)
  have "\<exists>t4. feeds (if SlotNeedsState ?sc then SlotUndoState else []) t3 t4 \<and> contents t4 = contents t3 \<and> settled t4 \<and>
      (\<forall>m. m \<noteq> Decom \<longrightarrow> ModeSet m t4 = ModeSet m t3) \<and> gr_SavedMain t4 = gr_SavedMain t3"
  proof (cases "SlotNeedsState ?sc")
    case True
    have "0 < gr_Rows t3" "gr_Rows t3 \<le> MAX_ROWS" "gr_ScrollTop t3 \<le> gr_ScrollBot t3" "gr_ScrollBot t3 < gr_Rows t3"
      using e t2(2) d2(4) k1(1,4) by (simp_all add: entered_def placed_def settled_def open_screen_def)
    from feeds_undo [OF this] True show ?thesis by (auto simp: unplaced_def)
  next
    case False
    then have "settled t2" using t2(2) needs by (simp add: placed_def)
    then have "settled t3" using e by (simp add: entered_def settled_def open_screen_def)
    then show ?thesis using False by (intro exI [of _ t3]) simp
  qed
  then obtain t4 where t4: "feeds (if SlotNeedsState ?sc then SlotUndoState else []) t3 t4" "contents t4 = contents t3" "settled t4"
      "\<forall>m. m \<noteq> Decom \<longrightarrow> ModeSet m t4 = ModeSet m t3" "gr_SavedMain t4 = gr_SavedMain t3" by blast
  have alt4: "IsAltScreen t4 = IsAltScreen t3" "IsAltScreen t3" using t4(4) e by (simp_all add: IsAltScreen_def entered_def)
  note c4 = same_contents [OF t4(2) alt4(1)]
  have irm: "\<not> ModeSet Irm t4" using t4(4) e t2(2) k1(2) by (simp add: entered_def placed_def plain_def)
  have k4: "sized t4" "0 < gr_Cols t4" "gr_Cols t4 = gr_Cols g" "gr_Rows t4 = gr_Rows g" "plain t4" "open_screen t4"
    using c4 e d2 k1(2,3) t4(3) irm by (simp_all add: entered_def sized_def plain_def settled_def)
  obtain t5 where t5: "feeds clear_bytes t4 t5" "blank_from t4 t5"
    using feeds_clear [OF k4(1,6,2)] by blast
  have bd5: "backdrop t5 = backdrop t4" using t5(2) by (simp add: blank_from_def showing_def)
  have alt5: "IsAltScreen t5" using backdrop_modes [OF bd5] alt4 by simp
  have "canvas g t5"
    using t5(2) k4 settled_backdrop [OF bd5] plain_backdrop [OF bd5] backdropD(1,2) [OF bd5] t4(3)
    by (simp add: canvas_def blank_from_def showing_def)
  moreover have "gr_Main t5 = S"
    using t5(2) alt5 alt4 contentsD(1) [OF t4(2)] e d2(2) by (simp add: blank_from_def showing_def other_screen_def entered_def)
  moreover have "gr_SavedMain t5 = kept_slot ?cm ?sc" using backdropD(13) [OF bd5] t4(5) slot by simp
  moreover have "scrollback t5 = scrollback t"
    using backdropD(9-12) [OF bd5] c4(3) e d2(5) by (simp add: scrollback_def entered_def)
  moreover have "endRow g ep = gr_Rows g" using ep(2) by (simp add: endRow_def)
  then have "feeds (alt_switch_bytes g ep) t t5"
    using feeds_append [OF t1(1) feeds_append [OF t2(1) feeds_append [OF feed3 feeds_append [OF t4(1) t5(1)]]]] ep(1) g(3)
    by (simp add: alt_switch_bytes_def)
  ultimately show ?thesis using t1(3) alt5 by blast
qed


subsection \<open>The whole encoding\<close>

text \<open>\<open>restored cm n g t\<close>: \<open>t\<close> shows what \<open>g\<close> shows in the colour mode \<open>cm\<close>, with the last \<open>n\<close> lines of its scrollback.\<close>

definition restored :: "EColorMode \<Rightarrow> nat \<Rightarrow> Grid \<Rightarrow> Grid \<Rightarrow> bool" where
  "restored cm n g t \<longleftrightarrow> same_state cm g t \<and> screen_view Full (active_screen t) = screen_view cm (active_screen g) \<and>
     (IsAltScreen g \<longrightarrow> screen_view Full (gr_Main t) = screen_view cm (gr_Main g) \<and> gr_SavedMain t = kept_slot cm (gr_SavedMain g)) \<and>
     screen_view Full (scrollback t) = screen_view cm (drop (gr_HistorySize g - n) (scrollback g))"

text \<open>The parameters of an encoding that leaves no row out and ends with the newest line of the scrollback.\<close>

definition uncropped :: "Grid \<Rightarrow> EncodeParams \<Rightarrow> bool" where
  "uncropped g ep \<longleftrightarrow> ep_CropTop ep = 0 \<and> ep_CropBot ep = 0 \<and> ep_HistStart ep + ep_HistCount ep = gr_HistorySize g"

lemma scrollback_section_canvas:
  assumes g: "restorable g" and t: "new_terminal t" "gr_Cols t = gr_Cols g" "gr_Rows t = gr_Rows g"
    and ep: "uncropped g ep" "ep_HistCount ep \<le> gr_ScrollbackLimit t"
  shows "\<exists>t'. feeds (scrollback_section g ep) t t' \<and> canvas g t' \<and> IsAltScreen t' = IsAltScreen g \<and>
    (IsAltScreen g \<longrightarrow> pictured (ep_Color ep) (gr_Cols g) (gr_Rows g) (\<lambda>r. gr_Main g ! r) (gr_Main t') \<and>
      gr_SavedMain t' = kept_slot (ep_Color ep) (gr_SavedMain g)) \<and>
    screen_view Full (scrollback t') = screen_view (ep_Color ep) (drop (gr_HistorySize g - ep_HistCount ep) (scrollback g))"
proof -
  have wf: "grid_wf g" "region_ok g" using g by (simp_all add: restorable_def)
  have ep': "ep_HistStart ep + ep_HistCount ep \<le> gr_HistorySize g" "ep_CropTop ep = 0" "ep_CropBot ep = 0"
      "ep_HistStart ep = gr_HistorySize g - ep_HistCount ep" "take (ep_HistCount ep) (drop (ep_HistStart ep) (scrollback g)) = drop (ep_HistStart ep) (scrollback g)"
    using ep(1) by (auto simp: uncropped_def)
  obtain t1 where t1: "feeds (preamble_bytes @ history_bytes g ep @ clear_bytes) t t1" "canvas g t1" "\<not> IsAltScreen t1" "gr_Alt t1 = gr_Alt t"
      "screen_view Full (scrollback t1) = screen_view (ep_Color ep) (drop (gr_HistorySize g - ep_HistCount ep) (scrollback g))"
    using feeds_opening [OF t(1) wf(1) t(2) [symmetric] t(3) [symmetric] ep'(1) ep(2)] ep'(4,5) by auto
  have "screen_ok (gr_Cols t) (gr_Rows t) (gr_Alt t)" using t(1) by (simp add: new_terminal_def wf_defs)
  then have alt: "length (gr_Alt t1) = gr_Rows t1" "\<forall>l\<in>set (gr_Alt t1). length l = gr_Cols t1"
    using t1(2,4) t(2,3) by (auto simp: screen_ok_def canvas_def row_okD(1))
  have sec: "scrollback_section g ep = (preamble_bytes @ history_bytes g ep @ clear_bytes) @ alt_switch_bytes g ep"
    by (simp add: scrollback_section_def)
  show ?thesis
  proof (cases "IsAltScreen g")
    case True
    obtain t2 where "feeds (alt_switch_bytes g ep) t1 t2" "canvas g t2" "IsAltScreen t2"
        "pictured (ep_Color ep) (gr_Cols g) (gr_Rows g) (\<lambda>r. gr_Main g ! r) (gr_Main t2)"
        "gr_SavedMain t2 = kept_slot (ep_Color ep) (gr_SavedMain g)" "scrollback t2 = scrollback t1"
      using alt_switch [OF wf True t1(2,3) alt ep'(2,3)] by blast
    then show ?thesis
      using feeds_append [OF t1(1), of "alt_switch_bytes g ep" t2] t1(5) True unfolding sec by (intro exI [of _ t2]) simp
  next
    case False
    then show ?thesis using t1 unfolding sec by (intro exI [of _ t1]) (simp add: alt_switch_bytes_def)
  qed
qed

lemma encoding_restores:
  assumes g: "restorable g" and t: "new_terminal t" "gr_Cols t = gr_Cols g" "gr_Rows t = gr_Rows g"
    and ep: "uncropped g ep" "ep_HistCount ep \<le> gr_ScrollbackLimit t"
  shows "\<exists>t'. feeds (scrollback_section g ep @ screen_section g ep) t t' \<and> restored (ep_Color ep) (ep_HistCount ep) g t'"
proof -
  let ?cm = "ep_Color ep"
  obtain t1 where t1: "feeds (scrollback_section g ep) t t1" "canvas g t1" "IsAltScreen t1 = IsAltScreen g"
      "IsAltScreen g \<longrightarrow> pictured ?cm (gr_Cols g) (gr_Rows g) (\<lambda>r. gr_Main g ! r) (gr_Main t1) \<and> gr_SavedMain t1 = kept_slot ?cm (gr_SavedMain g)"
      "screen_view Full (scrollback t1) = screen_view ?cm (drop (gr_HistorySize g - ep_HistCount ep) (scrollback g))"
    using scrollback_section_canvas [OF g t ep] by blast
  define t2 where "t2 = set_mode_bit SyncOutput True t1"
  have f2: "feeds (esc_csi ''?2026h'') t1 t2" using feeds_private [of 2026 True t1] by (simp add: esc_literals SetMode_bits t2_def)
  have alt2: "IsAltScreen t2 = IsAltScreen g" using t1(3) by (simp add: t2_def IsAltScreen_def)
  have same2: "active_screen t2 = active_screen t1" "gr_Main t2 = gr_Main t1" "gr_SavedMain t2 = gr_SavedMain t1" "scrollback t2 = scrollback t1"
    using alt2 t1(3) unfolding active_screen_def by (simp_all add: t2_def set_mode_bit_def scrollback_def)
  have c2: "canvas g t2" using t1(2) same2(1) by (simp add: canvas_def settled_def open_screen_def plain_def t2_def)
  have wf: "grid_wf g" using g by (simp add: restorable_def)
  have line: "row_ok (gr_Cols g) (ActiveLine g r)" if "r < gr_Rows g" for r
    using wf that by (auto simp: ActiveLine_def wf_defs intro: screen_ok_nth)
  obtain t3 S pen where t3: "feeds (fst (EncodeAnyScreen ?cm g (ActiveLine g) 0 (gr_Rows g) default_pen)) t2 t3" "showing t2 S pen t3"
      "pictured ?cm (gr_Cols g) (gr_Rows g) (ActiveLine g) S"
    using paint_canvas [OF c2, of "ActiveLine g" ?cm] line by blast
  have bd: "backdrop t3 = backdrop t2" "active_screen t3 = S" "other_screen t3 = other_screen t2" using t3(2) by (simp_all add: showing_def)
  have k3: "settled t3" "gr_Cols t3 = gr_Cols g" "gr_Rows t3 = gr_Rows g" "IsAltScreen t3 = IsAltScreen g"
    using settled_backdrop [OF bd(1)] backdropD(1,2) [OF bd(1)] backdrop_modes [OF bd(1)] c2 alt2 by (simp_all add: canvas_def)
  have pic: "pictured ?cm (gr_Cols g) (gr_Rows g) (ActiveLine g) (active_screen t3)" using t3(3) bd(2) by simp
  obtain t4 where t4: "feeds (EncodeModeRestore ?cm g) t3 t4" "same_state ?cm g t4"
      "pictured ?cm (gr_Cols g) (gr_Rows g) (ActiveLine g) (active_screen t4)"
      "other_screen t4 = other_screen t3" "scrollback t4 = scrollback t3" "IsAltScreen g \<longrightarrow> gr_SavedMain t4 = gr_SavedMain t3"
    using feeds_closing [OF g k3 pic] by blast
  have "endRow g ep = gr_Rows g" "ep_CropTop ep = 0" using ep(1) by (simp_all add: endRow_def uncropped_def)
  then have "feeds (scrollback_section g ep @ screen_section g ep) t t4"
    using feeds_append [OF t1(1) feeds_append [OF f2 feeds_append [OF t3(1) t4(1)]]] by (simp add: screen_section_def)
  moreover have "restored ?cm (ep_HistCount ep) g t4"
  proof -
    have alt4: "IsAltScreen t4 = IsAltScreen g" using t4(2) by (auto simp: same_state_def IsAltScreen_def)
    have len: "length (active_screen g) = gr_Rows g" "length (gr_Main g) = gr_Rows g"
      using wf by (simp_all add: active_screen_def wf_defs screen_ok_def)
    have act: "screen_view Full (active_screen t4) = screen_view ?cm (active_screen g)"
      using pictured_view [OF t4(3) len(1)] by (simp add: ActiveLine_def active_screen_def)
    have "scrollback t4 = scrollback t1"
      using t4(5) backdropD(9-12) [OF bd(1)] same2(4) by (simp add: scrollback_def)
    moreover have "gr_Main t4 = gr_Main t1" "gr_SavedMain t4 = gr_SavedMain t1" if "IsAltScreen g"
      using that t4(4,6) bd(3) alt4 k3(4) alt2 same2(2,3) backdropD(13) [OF bd(1)] by (simp_all add: other_screen_def)
    moreover have "screen_view Full (gr_Main t1) = screen_view ?cm (gr_Main g)" if "IsAltScreen g"
      using t1(4) that by (intro pictured_view [OF _ len(2), where cols = "gr_Cols g" and line_at = "\<lambda>r. gr_Main g ! r"]) simp_all
    ultimately show ?thesis
      using t4(2) act t1(4,5) by (simp add: restored_def)
  qed
  ultimately show ?thesis by blast
qed

lemma ClampScreenSize_id:
  assumes "dims_ok cols rows"
  shows "ClampScreenSize cols rows = (cols, rows)"
proof -
  have "rows \<le> MAX_SCREEN_CELLS div cols"
    using assms by (simp add: dims_ok_def less_eq_div_iff_mult_less_eq mult.commute)
  then show ?thesis using assms by (auto simp: ClampScreenSize_def Let_def dims_ok_def)
qed

lemma created_new:
  assumes "g_Create alloc cols rows limit = Inr t" "dims_ok cols rows"
  shows "new_terminal t" "gr_Cols t = cols" "gr_Rows t = rows" "gr_ScrollbackLimit t = limit"
proof -
  have rows: "u16_minus rows (Suc 0) = rows - Suc 0" using dims_okD [OF assms(2)] by simp
  have t: "Allocate alloc cols rows limit = Some t"
    using assms(1) by (auto simp: g_Create_def ClampScreenSize_id [OF assms(2)] split: if_splits option.splits)
  then show "new_terminal t" "gr_Cols t = cols" "gr_Rows t = rows" "gr_ScrollbackLimit t = limit"
    using wf_g_Create [OF assms(1)] by (auto simp: Allocate_def new_terminal_def rows split: if_splits)
qed

end
