(* ===== verification/Grid_Ladder.thy ===== *)
theory Grid_Ladder
  imports Grid_Roundtrip
begin

text \<open>
  The ladder of degradations: what \<open>Snapshot::Create\<close> chooses, that what it measured is what it writes, and when it
  gives up.
\<close>

subsection \<open>Measuring and writing\<close>

definition encoding :: "Grid \<Rightarrow> EncodeParams \<Rightarrow> bytes" where
  "encoding g ep = scrollback_section g ep @ screen_section g ep"

lemma write_dry: "ew_DryRun w \<Longrightarrow> write_all bs w = w\<lparr>ew_Pos := ew_Pos w + length bs\<rparr>"
  unfolding write_all_def by (induction bs arbitrary: w) (simp_all add: WriteByte_def)

lemma write_fits:
  assumes "\<not> ew_DryRun w" "length (ew_Buf w) = ew_Cap w"
  shows "ew_Pos w + length bs \<le> ew_Cap w \<Longrightarrow>
    write_all bs w = w\<lparr>ew_Buf := take (ew_Pos w) (ew_Buf w) @ bs @ drop (ew_Pos w + length bs) (ew_Buf w), ew_Pos := ew_Pos w + length bs\<rparr>"
  unfolding write_all_def using assms
proof (induction bs arbitrary: w)
  case (Cons b bs)
  let ?w = "WriteByte b w" and ?p = "ew_Pos w"
  have p: "?p < length (ew_Buf w)" using Cons.prems by simp
  have w: "?w = w\<lparr>ew_Buf := (ew_Buf w)[?p := b], ew_Pos := ?p + 1\<rparr>" using Cons.prems by (simp add: WriteByte_def)
  have buf: "take (?p + 1) ((ew_Buf w)[?p := b]) = take ?p (ew_Buf w) @ [b]"
      "drop (?p + 1 + n) ((ew_Buf w)[?p := b]) = drop (?p + 1 + n) (ew_Buf w)" for n
    using p by (simp_all add: take_Suc_conv_app_nth)
  show ?case
    using Cons.IH [of ?w] Cons.prems by (simp add: w buf [simplified])
qed simp

lemma MeasureEncoding_length: "MeasureEncoding g ep n = length (encoding g ep)"
  by (simp add: MeasureEncoding_def EncodeAll_def Let_def write_dry encoding_def)

lemma EncodeAll_exact:
  assumes "n = length (encoding g ep)"
  shows "EncodeAll g ep \<lparr> ew_Buf = replicate n 0, ew_Cap = n, ew_Pos = 0, ew_Overflow = False, ew_DryRun = False \<rparr> =
    (\<lparr> ew_Buf = encoding g ep, ew_Cap = n, ew_Pos = n, ew_Overflow = False, ew_DryRun = False \<rparr>, length (scrollback_section g ep))"
  using assms by (simp add: EncodeAll_def Let_def write_fits encoding_def)

lemma snapshot_cap_pos: "0 < snapshot_cap n" "snapshot_cap n \<le> GRID_SNAPSHOT_MAX_BYTES"
  by (simp_all add: snapshot_cap_def GRID_SNAPSHOT_MAX_BYTES_def)

text \<open>\<open>Snapshot::Create\<close>, with what it measures and writes filled in.\<close>

definition cap_fits :: "Grid \<Rightarrow> nat \<Rightarrow> EncodeParams \<Rightarrow> bool" where
  "cap_fits g maxBytes ep \<longleftrightarrow> length (encoding g ep) \<le> snapshot_cap maxBytes"

lemma sn_Create_ladder:
  "sn_Create alloc g maxBytes = (case ladder (cap_fits g maxBytes) g of (ep, deg, found) \<Rightarrow>
    if \<not> found then Inl SnapshotTooLarge else if \<not> (alloc 0 \<and> alloc 1) then Inl AllocationFailed
    else Inr \<lparr> sn_Bytes = encoding g ep, sn_ScrollbackLen = length (scrollback_section g ep), sn_Degradation = deg,
      sn_PossiblyDiverged = gr_PossiblyDiverged g, sn_AltScreen = IsAltScreen g \<rparr>)"
proof -
  have "(\<lambda>ep. MeasureEncoding g ep (snapshot_cap maxBytes) \<le> snapshot_cap maxBytes) = cap_fits g maxBytes"
    by (simp add: fun_eq_iff MeasureEncoding_length cap_fits_def)
  then show ?thesis
    by (simp add: sn_Create_def Let_def MeasureEncoding_length EncodeAll_exact split: prod.splits)
qed

subsection \<open>The two searches\<close>

lemma trim_search_spec:
  "lo \<le> hi \<Longrightarrow> \<not> fits (hi + 1) \<Longrightarrow> lo \<le> trim_search fits lo hi \<and> trim_search fits lo hi \<le> hi \<and>
     (fits (trim_search fits lo hi) \<or> trim_search fits lo hi = lo) \<and> \<not> fits (trim_search fits lo hi + 1)"
proof (induction fits lo hi rule: trim_search.induct)
  case (1 fits lo hi)
  let ?mid = "lo + (hi - lo + 1) div 2"
  show ?case
  proof (cases "lo < hi")
    case False
    then show ?thesis using "1.prems" by (simp add: trim_search.simps)
  next
    case True
    then have mid: "lo < ?mid" "?mid \<le> hi" by auto
    show ?thesis
    proof (cases "fits ?mid")
      case fit: True
      then have "trim_search fits lo hi = trim_search fits ?mid hi" using True by (subst trim_search.simps) (simp add: Let_def)
      then show ?thesis using "1.IH"(1) [OF True refl fit mid(2) "1.prems"(2)] fit mid by auto
    next
      case False
      then have eq: "trim_search fits lo hi = trim_search fits lo (?mid - 1)" using True by (subst trim_search.simps) (simp add: Let_def)
      have "lo \<le> ?mid - 1" "\<not> fits (?mid - 1 + 1)" using mid False by auto
      with "1.IH"(2) [OF True refl False] have "lo \<le> trim_search fits lo (?mid - 1) \<and> trim_search fits lo (?mid - 1) \<le> ?mid - 1 \<and>
          (fits (trim_search fits lo (?mid - 1)) \<or> trim_search fits lo (?mid - 1) = lo) \<and> \<not> fits (trim_search fits lo (?mid - 1) + 1)"
        by blast
      then show ?thesis using diff_le_self [of ?mid 1] mid(2) unfolding eq by (meson order_trans)
    qed
  qed
qed

lemma crop_search_spec:
  "lo \<le> hi \<Longrightarrow> lo \<le> crop_search fits lo hi \<and> crop_search fits lo hi \<le> hi \<and> (fits hi \<longrightarrow> fits (crop_search fits lo hi))"
proof (induction fits lo hi rule: crop_search.induct)
  case (1 fits lo hi)
  let ?mid = "lo + (hi - lo) div 2"
  show ?case
  proof (cases "lo < hi")
    case False
    then show ?thesis using "1.prems" by (simp add: crop_search.simps)
  next
    case True
    then have mid: "lo \<le> ?mid" "?mid < hi" by auto
    show ?thesis
    proof (cases "fits ?mid")
      case fit: True
      then have "crop_search fits lo hi = crop_search fits lo ?mid" using True by (subst crop_search.simps) (simp add: Let_def)
      then show ?thesis using "1.IH"(1) [OF True refl fit mid(1)] fit mid by auto
    next
      case False
      then have eq: "crop_search fits lo hi = crop_search fits (?mid + 1) hi" using True by (subst crop_search.simps) (simp add: Let_def)
      have "?mid + 1 \<le> hi" using mid by auto
      then show ?thesis using "1.IH"(2) [OF True refl False] mid unfolding eq by auto
    qed
  qed
qed

subsection \<open>What the ladder chooses\<close>

text \<open>Everything that can be left out left out: no history, no colours, no row but that of the cursor.\<close>

definition least_params :: "Grid \<Rightarrow> EncodeParams" where
  "least_params g = \<lparr> ep_HistStart = gr_HistorySize g, ep_HistCount = 0, ep_Color = NoColors,
     ep_CropTop = gr_CursorRow g, ep_CropBot = gr_Rows g - (gr_CursorRow g + 1) \<rparr>"

text \<open>The encodings each degradation stands for, with the rungs above it that did not fit.\<close>

fun degraded :: "(EncodeParams \<Rightarrow> bool) \<Rightarrow> Grid \<Rightarrow> EDegradation \<Rightarrow> EncodeParams \<Rightarrow> bool" where
  "degraded fits g NoDegradation ep = (ep = full_params 0 (gr_HistorySize g))"
| "degraded fits g HistoryTrimmed ep = (\<exists>n < gr_HistorySize g. ep = full_params (gr_HistorySize g - n) n \<and>
     \<not> fits (full_params (gr_HistorySize g - (n + 1)) (n + 1)))"
| "degraded fits g Colors256 ep = (ep = (full_params (gr_HistorySize g) 0)\<lparr>ep_Color := Indexed256\<rparr> \<and> \<not> fits (full_params (gr_HistorySize g) 0))"
| "degraded fits g NoColor ep = (ep = (full_params (gr_HistorySize g) 0)\<lparr>ep_Color := NoColors\<rparr> \<and>
     \<not> fits ((full_params (gr_HistorySize g) 0)\<lparr>ep_Color := Indexed256\<rparr>))"
| "degraded fits g RowsCropped ep = (\<exists>t b. ep = (full_params (gr_HistorySize g) 0)\<lparr>ep_Color := NoColors, ep_CropTop := t, ep_CropBot := b\<rparr> \<and>
     t \<le> gr_CursorRow g \<and> gr_CursorRow g + 1 + b \<le> gr_Rows g \<and> \<not> fits ((full_params (gr_HistorySize g) 0)\<lparr>ep_Color := NoColors\<rparr>))"

lemma crop_rows_outcome:
  assumes g: "gr_CursorRow g < gr_Rows g" "gr_Rows g \<le> 1024" and not: "\<not> fits chosen"
    and chosen: "chosen = (full_params (gr_HistorySize g) 0)\<lparr>ep_Color := NoColors\<rparr>"
  shows "case crop_rows fits (gr_Rows g) (gr_CursorRow g) (chosen, deg, False) of (ep, deg', found) \<Rightarrow>
    (if found then deg' = RowsCropped \<and> fits ep \<and> degraded fits g RowsCropped ep else \<not> fits (least_params g))"
proof -
  let ?r = "gr_CursorRow g" and ?n = "gr_Rows g"
  define lo where "lo = crop_search (\<lambda>mid. fits (chosen\<lparr>ep_CropTop := mid\<rparr>)) 0 ?r"
  define blo where "blo = crop_search (\<lambda>mid. fits (chosen\<lparr>ep_CropTop := ?r, ep_CropBot := mid\<rparr>)) 1 (?n - (?r + 1))"
  have nums: "u16 (Suc ?r) = Suc ?r" "u16_minus ?n (Suc ?r) = ?n - Suc ?r" using g by simp_all
  have lo: "lo \<le> ?r" "fits (chosen\<lparr>ep_CropTop := ?r\<rparr>) \<Longrightarrow> fits (chosen\<lparr>ep_CropTop := lo\<rparr>)"
    using crop_search_spec [of 0 ?r "\<lambda>mid. fits (chosen\<lparr>ep_CropTop := mid\<rparr>)"] by (simp_all add: lo_def)
  have blo: "blo \<le> ?n - (?r + 1)" "fits (least_params g) \<Longrightarrow> fits (chosen\<lparr>ep_CropTop := ?r, ep_CropBot := blo\<rparr>)" if "?r + 1 < ?n"
    using that crop_search_spec [of 1 "?n - (?r + 1)" "\<lambda>mid. fits (chosen\<lparr>ep_CropTop := ?r, ep_CropBot := mid\<rparr>)"]
    by (simp_all add: blo_def least_params_def chosen full_params_def)
  have last: "fits (least_params g) \<Longrightarrow> fits (chosen\<lparr>ep_CropTop := lo\<rparr>)" if "\<not> ?r + 1 < ?n"
  proof -
    have "?n - (?r + 1) = 0" using that by simp
    then have "least_params g = chosen\<lparr>ep_CropTop := ?r\<rparr>" by (simp add: least_params_def chosen full_params_def)
    then show "fits (least_params g) \<Longrightarrow> fits (chosen\<lparr>ep_CropTop := lo\<rparr>)" using lo(2) by simp
  qed
  show ?thesis
  proof (cases "fits (chosen\<lparr>ep_CropTop := lo\<rparr>)")
    case True
    then have "crop_rows fits ?n ?r (chosen, deg, False) = (chosen\<lparr>ep_CropTop := lo\<rparr>, RowsCropped, True)"
      by (simp add: crop_rows_def Let_def flip: lo_def)
    moreover have "degraded fits g RowsCropped (chosen\<lparr>ep_CropTop := lo\<rparr>)"
      unfolding degraded.simps
      by (rule exI [where x = lo], rule exI [where x = 0]) (use lo(1) g(1) not in \<open>simp add: chosen full_params_def\<close>)
    ultimately show ?thesis using True by simp
  next
    case no: False
    show ?thesis
    proof (cases "?r + 1 < ?n")
      case False
      then show ?thesis
        using no last by (auto simp: crop_rows_def Let_def nums simp flip: lo_def)
    next
      case True
      let ?ep = "chosen\<lparr>ep_CropTop := ?r, ep_CropBot := blo\<rparr>"
      have "crop_rows fits ?n ?r (chosen, deg, False) = (?ep, if fits ?ep then RowsCropped else deg, fits ?ep)"
        using no True nums by (simp add: crop_rows_def Let_def blo_def flip: lo_def)
      moreover have "degraded fits g RowsCropped ?ep"
        unfolding degraded.simps
        by (rule exI [where x = ?r], rule exI [where x = blo]) (use blo(1) [OF True] g(1) not True in \<open>simp add: chosen full_params_def\<close>)
      ultimately show ?thesis using blo(2) [OF True] by auto
    qed
  qed
qed

lemma ladder_outcome:
  assumes "gr_CursorRow g < gr_Rows g" "gr_Rows g \<le> 1024"
  shows "case ladder fits g of (ep, deg, found) \<Rightarrow>
    (if found then fits ep \<and> degraded fits g deg ep else \<not> fits (least_params g))"
proof -
  let ?sz = "gr_HistorySize g"
  define n where "n = trim_search (\<lambda>mid. fits (full_params (?sz - mid) mid)) 0 (?sz - Suc 0)"
  let ?full = "full_params 0 ?sz" and ?trim = "full_params (?sz - n) n" and ?idx = "(full_params ?sz 0)\<lparr>ep_Color := Indexed256\<rparr>"
  let ?none = "(full_params ?sz 0)\<lparr>ep_Color := NoColors\<rparr>"
  have n: "n < ?sz" "fits ?trim \<or> n = 0" "\<not> fits (full_params (?sz - (n + 1)) (n + 1))" if "\<not> fits ?full" "0 < ?sz"
    using trim_search_spec [of 0 "?sz - 1" "\<lambda>mid. fits (full_params (?sz - mid) mid)"] that by (auto simp: n_def)
  have zero: "\<not> fits (full_params ?sz 0)" if "\<not> fits ?full" "0 < ?sz \<longrightarrow> \<not> fits ?trim"
  proof (cases "?sz = 0")
    case True
    then show ?thesis using that by simp
  next
    case False
    then have "n = 0" "\<not> fits ?trim" using n(2) that by auto
    then show ?thesis by simp
  qed
  consider (full) "fits ?full" | (trim) "\<not> fits ?full" "0 < ?sz" "fits ?trim"
    | (rest) "\<not> fits ?full" "\<not> fits (full_params ?sz 0)" "0 < ?sz \<longrightarrow> \<not> fits ?trim"
    using zero by (cases "fits ?full"; cases "0 < ?sz \<and> fits ?trim") auto
  then show ?thesis
  proof cases
    case full
    then show ?thesis by (simp add: ladder_def Let_def trim_history_def reduce_colors_def strip_colors_def crop_rows_def)
  next
    case trim
    then have "ladder fits g = (?trim, HistoryTrimmed, True)"
      by (simp add: ladder_def Let_def trim_history_def reduce_colors_def strip_colors_def crop_rows_def flip: n_def)
    then show ?thesis using trim n by auto
  next
    case rest
    have "\<exists>c. trim_history fits ?sz (?full, NoDegradation, False) = (c, NoDegradation, False)"
      using rest by (auto simp: trim_history_def Let_def simp flip: n_def)
    then obtain c where c: "trim_history fits ?sz (?full, NoDegradation, False) = (c, NoDegradation, False)" ..
    have lad: "ladder fits g = crop_rows fits (gr_Rows g) (gr_CursorRow g) (strip_colors fits (reduce_colors fits ?sz (c, NoDegradation, False)))"
      using rest(1) c by (simp add: ladder_def Let_def)
    show ?thesis
    proof (cases "fits ?idx")
      case True
      then show ?thesis using rest(2) by (simp add: lad reduce_colors_def strip_colors_def crop_rows_def Let_def)
    next
      case idx: False
      have strip: "strip_colors fits (reduce_colors fits ?sz (c, NoDegradation, False)) = (?none, if fits ?none then NoColor else NoDegradation, fits ?none)"
        using idx by (simp add: reduce_colors_def strip_colors_def Let_def)
      show ?thesis
      proof (cases "fits ?none")
        case True
        then show ?thesis using idx by (simp add: lad strip crop_rows_def)
      next
        case False
        then show ?thesis
          using crop_rows_outcome [of g fits ?none NoDegradation] assms False by (auto simp: lad strip split: prod.splits if_splits)
      qed
    qed
  qed
qed

subsection \<open>A snapshot restores the terminal\<close>

text \<open>The colours a degradation leaves.\<close>

fun degraded_colors :: "EDegradation \<Rightarrow> EColorMode" where
  "degraded_colors NoDegradation = Full" | "degraded_colors HistoryTrimmed = Full" | "degraded_colors Colors256 = Indexed256"
| "degraded_colors NoColor = NoColors" | "degraded_colors RowsCropped = NoColors"

lemma degraded_uncropped:
  assumes "degraded fits g deg ep" "deg \<noteq> RowsCropped"
  shows "uncropped g ep" "ep_Color ep = degraded_colors deg" "ep_HistCount ep \<le> gr_HistorySize g" "deg = NoDegradation \<Longrightarrow> ep_HistCount ep = gr_HistorySize g"
  using assms by (cases deg; auto simp: uncropped_def full_params_def)+

lemma created_snapshot:
  assumes "grid_wf g" "sn_Create alloc g maxBytes = Inr s"
  shows "\<exists>ep. sn_Bytes s = encoding g ep \<and> sn_ScrollbackLen s = length (scrollback_section g ep) \<and> cap_fits g maxBytes ep \<and>
    degraded (cap_fits g maxBytes) g (sn_Degradation s) ep"
proof -
  obtain ep deg found where l: "ladder (cap_fits g maxBytes) g = (ep, deg, found)" by (cases "ladder (cap_fits g maxBytes) g")
  have "gr_CursorRow g < gr_Rows g" "gr_Rows g \<le> 1024" using assms(1) grid_wf_dims(4) [OF assms(1)] by (simp_all add: wf_defs)
  from ladder_outcome [OF this, of "cap_fits g maxBytes"] l assms(2) show ?thesis
    by (auto simp: sn_Create_ladder split: if_splits intro!: exI [of _ ep])
qed

lemma snapshot_restores:
  assumes "restorable g" and "sn_Create alloc g maxBytes = Inr s" and "sn_Degradation s \<noteq> RowsCropped"
    and "g_Create alloc' (gr_Cols g) (gr_Rows g) limit = Inr t" and "gr_HistorySize g \<le> limit"
  shows "\<exists>n \<le> gr_HistorySize g. (sn_Degradation s = NoDegradation \<longrightarrow> n = gr_HistorySize g) \<and>
    at_ground (fst (Feed (sn_Bytes s) (mk_VtParser, t))) \<and>
    restored (degraded_colors (sn_Degradation s)) n g (snd (Feed (sn_Bytes s) (mk_VtParser, t)))"
proof -
  have wf: "grid_wf g" "dims_ok (gr_Cols g) (gr_Rows g)" using assms(1) by (simp_all add: restorable_def wf_defs)
  obtain ep where ep: "sn_Bytes s = encoding g ep" "degraded (cap_fits g maxBytes) g (sn_Degradation s) ep"
    using created_snapshot [OF wf(1) assms(2)] by blast
  note chosen = degraded_uncropped [OF ep(2) assms(3)]
  note t = created_new [OF assms(4) wf(2)]
  have "ep_HistCount ep \<le> gr_ScrollbackLimit t" using chosen(3) assms(5) t(4) by simp
  from encoding_restores [OF assms(1) t(1-3) chosen(1) this]
  obtain t' where "feeds (sn_Bytes s) t t'" "restored (ep_Color ep) (ep_HistCount ep) g t'" unfolding ep(1) encoding_def by blast
  moreover have "at_ground mk_VtParser" by (simp add: at_ground_def mk_VtParser_def vt_Reset_def)
  ultimately show ?thesis using chosen by (intro exI [of _ "ep_HistCount ep"]) (simp add: feeds_def)
qed

end
