(* ===== verification/Grid_Queue.thy ===== *)
theory Grid_Queue
  imports Grid_Restore
begin

text \<open>
  The scrollback as a bounded queue: what scrolls off the top of the main screen is appended to it, and the
  oldest lines make room.
\<close>

definition newest :: "nat \<Rightarrow> 'a list \<Rightarrow> 'a list" where
  "newest n q = drop (length q - n) q"

lemma newest_all: "length q \<le> n \<Longrightarrow> newest n q = q"
  by (simp add: newest_def)

lemma newest_append: "newest n (newest n q @ xs) = newest n (q @ xs)"
  by (cases "length q \<le> n") (auto simp: newest_def not_le add.commute)

lemma push_queue:
  assumes "ring_ok g" "length (gr_Main g ! r) = gr_Cols g"
  shows "scrollback (PushScrollback r g) = newest (gr_ScrollbackLimit g) (scrollback g @ [gr_Main g ! r])"
    and "ring_ok (PushScrollback r g)"
proof -
  have "scrollback (PushScrollback r g) = newest (gr_ScrollbackLimit g) (scrollback g @ [gr_Main g ! r]) \<and> ring_ok (PushScrollback r g)"
  proof (cases "gr_ScrollbackLimit g = 0")
    case True
    then have "PushScrollback r g = g" "scrollback g = []" using assms(1) by (simp_all add: PushScrollback_def ring_ok_def scrollback_def)
    then show ?thesis using True assms(1) by (simp add: newest_def)
  next
    case False
    have size: "gr_HistorySize g \<le> gr_ScrollbackLimit g" using assms(1) by (simp add: ring_ok_def)
    have "newest (gr_ScrollbackLimit g) (scrollback g @ [gr_Main g ! r]) =
        (if gr_HistorySize g < gr_ScrollbackLimit g then scrollback g else tl (scrollback g)) @ [gr_Main g ! r]"
      using False size by (cases "scrollback g") (auto simp: newest_def length_scrollback [symmetric] simp del: length_scrollback)
    then show ?thesis using scrollback_push [OF assms(1) _ assms(2)] False by simp
  qed
  then show "scrollback (PushScrollback r g) = newest (gr_ScrollbackLimit g) (scrollback g @ [gr_Main g ! r])"
    "ring_ok (PushScrollback r g)" by simp_all
qed

lemma push_rows:
  assumes "ring_ok g" "\<And>r. r < n \<Longrightarrow> length (gr_Main g ! r) = gr_Cols g" "n \<le> length (gr_Main g)"
  shows "scrollback (fold PushScrollback [0..<n] g) = newest (gr_ScrollbackLimit g) (scrollback g @ take n (gr_Main g)) \<and>
    ring_ok (fold PushScrollback [0..<n] g) \<and> hbackdrop (fold PushScrollback [0..<n] g) = hbackdrop g \<and> gr_Main (fold PushScrollback [0..<n] g) = gr_Main g"
  using assms(2,3)
proof (induction n)
  case 0
  have "gr_HistorySize g \<le> gr_ScrollbackLimit g" using assms(1) by (simp add: ring_ok_def)
  then show ?case using assms(1) by (simp add: newest_all)
next
  case (Suc n)
  let ?g = "fold PushScrollback [0..<n] g"
  have IH: "scrollback ?g = newest (gr_ScrollbackLimit g) (scrollback g @ take n (gr_Main g))" "ring_ok ?g" "hbackdrop ?g = hbackdrop g" "gr_Main ?g = gr_Main g"
    using Suc by simp_all
  note same = hbackdropD(1,9) [OF IH(3)]
  have len: "length (gr_Main ?g ! n) = gr_Cols ?g" using Suc.prems(1) [of n] IH(4) same by simp
  have "fold PushScrollback [0..<Suc n] g = PushScrollback n ?g" by simp
  moreover have "take (Suc n) (gr_Main g) = take n (gr_Main g) @ [gr_Main g ! n]" using Suc.prems(2) by (simp add: take_Suc_conv_app_nth)
  ultimately show ?case
    using push_queue [OF IH(2) len] push_picture [of n ?g] IH same by (simp add: newest_append)
qed

lemma scrollback_frames:
  "scrollback (clear_active r g) = scrollback g" "scrollback (rotate_active a b c g) = scrollback g"
  by (simp_all add: scrollback_def clear_active_def rotate_active_def upd_line_def)

lemma scrollback_fold_clear: "scrollback (fold clear_active rs g) = scrollback g"
  by (induction rs arbitrary: g) (simp_all add: scrollback_frames)

lemma scroll_queue:
  assumes g: "grid_wf g"
  shows "scrollback (ScrollRegionUp n True g) =
    (if gr_ScrollTop g = 0 \<and> \<not> IsAltScreen g
     then newest (gr_ScrollbackLimit g) (scrollback g @ take (min n (gr_ScrollBot g + 1)) (gr_Main g)) else scrollback g)"
proof -
  have wf: "gr_ScrollBot g < gr_Rows g" "length (gr_Main g) = gr_Rows g" "\<And>r. r < gr_Rows g \<Longrightarrow> length (gr_Main g ! r) = gr_Cols g"
      "gr_HistorySize g \<le> gr_ScrollbackLimit g" "gr_Rows g \<le> 1024"
    using g grid_wf_dims [OF g] screen_ok_nth [of "gr_Cols g" "gr_Rows g" "gr_Main g"] by (auto simp: wf_defs screen_ok_def row_okD(1))
  have height: "region_height g = gr_ScrollBot g + 1" if "gr_ScrollTop g = 0" using that wf(1,5) by (simp add: region_height_def)
  define m where "m = min n (gr_ScrollBot g + 1)"
  have m: "m \<le> gr_Rows g" using wf(1) by (simp add: m_def)
  have "newest (gr_ScrollbackLimit g) (scrollback g) = scrollback g" using wf(4) by (simp add: newest_all)
  moreover have "(if n > region_height g then region_height g else n) = m" if "gr_ScrollTop g = 0"
    using height [OF that] by (simp add: m_def)
  moreover have "scrollback (fold PushScrollback [0..<m] g) = newest (gr_ScrollbackLimit g) (scrollback g @ take m (gr_Main g))"
    using push_rows [OF ring_ok_wf [OF g], of m] wf(2,3) m by simp
  moreover have "m = 0" if "n = 0" using that by (simp add: m_def)
  ultimately show ?thesis
    unfolding m_def [symmetric] by (auto simp: ScrollRegionUp_def Let_def scrollback_fold_clear scrollback_frames)
qed

end
