(* ===== verification/Grid_Resize.thy ===== *)
theory Grid_Resize
  imports Grid_Queue
begin

text \<open>
  What a resize keeps (\<open>Grid::Resize\<close>): every row keeps its cells as far as they fit, the rows that no longer fit leave at the
  top of the screen, and those of the main screen go into the scrollback.
\<close>

text \<open>A row in the new width: cut, with a blank in place of the head of a wide character that is cut in two, or filled up.\<close>

definition resized_row :: "Cell \<Rightarrow> nat \<Rightarrow> row \<Rightarrow> row" where
  "resized_row blank newCols l =
     (if newCols < length l then take (newCols - 1) l @ [if c_Width (l ! (newCols - 1)) = 2 then blank else l ! (newCols - 1)]
      else l @ replicate (newCols - length l) default_cell)"

lemma resized_row_same: "length l = n \<Longrightarrow> resized_row blank n l = l"
  by (simp add: resized_row_def)

lemma fit_cut_row:
  assumes "length l = cols" "0 < newCols"
  shows "fit_row newCols (min newCols cols) (cut_row blank newCols cols l) = resized_row blank newCols l"
proof (cases "newCols < cols")
  case True
  have len: "length (cut_row blank newCols cols l) = cols" using assms by (simp add: cut_row_def blank_cut_def)
  have "fit_row newCols newCols (cut_row blank newCols cols l) = take newCols (cut_row blank newCols cols l)"
    using True len by (intro fit_row_shrink) simp
  also have "\<dots> = resized_row blank newCols l"
    using True assms by (intro nth_equalityI) (auto simp: resized_row_def cut_row_def blank_cut_def nth_append nth_list_update less_Suc_eq)
  finally show ?thesis using True by (simp add: min_def)
next
  case False
  then show ?thesis using assms fit_row_grow [of l cols newCols] by (auto simp: cut_row_def resized_row_def min_def)
qed

lemma fold_assign: "n \<le> length xs \<Longrightarrow> fold (\<lambda>r ys. ys[r := f r]) [0..<n] xs = map f [0..<n] @ drop n xs"
proof (induction n)
  case (Suc n)
  then have "fold (\<lambda>r ys. ys[r := f r]) [0..<Suc n] xs = (map f [0..<n] @ drop n xs)[n := f n]" by simp
  also have "\<dots> = map f [0..<Suc n] @ drop (Suc n) xs"
    using Suc.prems by (simp add: list_update_append Cons_nth_drop_Suc [symmetric])
  finally show ?case .
qed simp

lemma fit_screen_rows:
  assumes "length lines = oldRows"
  shows "fit_screen newCols newRows n oldRows lines =
    map (fit_row newCols n) (drop (oldRows - newRows) lines) @ replicate (newRows - oldRows) (replicate newCols default_cell)"
proof (cases "newRows < oldRows")
  case True
  have "map (\<lambda>r. fit_row newCols n (lines ! (oldRows - newRows + r))) [0..<newRows] = map (fit_row newCols n) (drop (oldRows - newRows) lines)"
    using True assms by (intro nth_equalityI) auto
  then show ?thesis using True by (simp add: fit_screen_def fold_assign blank_screen_def)
next
  case False
  have "map (\<lambda>r. fit_row newCols n (lines ! r)) [0..<oldRows] = map (fit_row newCols n) lines"
    using assms by (intro nth_equalityI) auto
  then show ?thesis using False by (simp add: fit_screen_def fold_assign blank_screen_def)
qed

lemma scrollback_fit_history:
  assumes "ring_ok g"
  shows "scrollback (g\<lparr>gr_History := fit_history newCols n g, gr_HistoryStart := 0\<rparr>) = map (fit_row newCols n) (scrollback g)"
proof (rule nth_equalityI)
  have size: "gr_HistorySize g \<le> gr_ScrollbackLimit g" using assms by (simp add: ring_ok_def)
  fix i assume "i < length (scrollback (g\<lparr>gr_History := fit_history newCols n g, gr_HistoryStart := 0\<rparr>))"
  then have i: "i < gr_HistorySize g" by simp
  then have "fit_history newCols n g ! i = fit_row newCols n (scrollback g ! i)"
    using size by (simp add: fit_history_def fold_assign blank_screen_def nth_append nth_scrollback min_def)
  then show "scrollback (g\<lparr>gr_History := fit_history newCols n g, gr_HistoryStart := 0\<rparr>) ! i = map (fit_row newCols n) (scrollback g) ! i"
    using i size by (simp add: nth_scrollback)
qed simp

lemma newest_map: "newest n (map f q) = map f (newest n q)"
  by (simp add: newest_def drop_map)

lemma newest_subset: "x \<in> set (newest n q) \<Longrightarrow> x \<in> set q"
  by (auto simp: newest_def dest: in_set_dropD)

text \<open>The parts of \<open>resize_to\<close> that hold text, and the cursor.\<close>

lemma resize_to_text:
  assumes g: "grid_wf g" and dims: "dims_ok newCols newRows"
  defines "row \<equiv> resized_row (BlankCell g) newCols" and "lost \<equiv> gr_Rows g - newRows"
  shows "gr_Main (resize_to newCols newRows g) = map row (drop lost (gr_Main g)) @ replicate (newRows - gr_Rows g) (replicate newCols default_cell)"
    and "gr_Alt (resize_to newCols newRows g) = map row (drop lost (gr_Alt g)) @ replicate (newRows - gr_Rows g) (replicate newCols default_cell)"
    and "scrollback (resize_to newCols newRows g) =
      map row (newest (gr_ScrollbackLimit g) (scrollback g @ (if IsAltScreen g then [] else take lost (gr_Main g))))"
    and "gr_CursorRow (resize_to newCols newRows g) = gr_CursorRow g - lost"
    and "gr_CursorCol (resize_to newCols newRows g) = min (gr_CursorCol g) (newCols - 1)"
proof -
  let ?cols = "gr_Cols g" and ?rows = "gr_Rows g" and ?n = "min newCols (gr_Cols g)" and ?cut = "cut_row (BlankCell g) newCols (gr_Cols g)"
  have clamp: "(if newCols < ?cols then newCols else ?cols) = ?n" by (simp add: min_def)
  note d = dims_okD [OF dims]
  have len: "length (gr_Main g) = ?rows" "length (gr_Alt g) = ?rows" "\<And>l. l \<in> set (gr_Main g) \<Longrightarrow> length l = ?cols"
      "\<And>l. l \<in> set (gr_Alt g) \<Longrightarrow> length l = ?cols" "\<And>l. l \<in> set (scrollback g) \<Longrightarrow> length l = ?cols"
    using g ring_ok_wf [OF g] by (auto simp: wf_defs screen_ok_def row_okD(1) ring_ok_def scrollback_def) 
  obtain h where cuts: "blank_cuts newCols g = g\<lparr>gr_Main := map ?cut (gr_Main g), gr_Alt := map ?cut (gr_Alt g), gr_History := h\<rparr>"
    and ring1: "ring_ok (blank_cuts newCols g)" and back1: "scrollback (blank_cuts newCols g) = map ?cut (scrollback g)"
    by (rule blank_cuts_spec [OF g])
  define g1 where "g1 = blank_cuts newCols g"
  define g2 where "g2 = (if newRows < ?rows \<and> \<not> IsAltScreen g1 then fold PushScrollback [0..<?rows - newRows] g1 else g1)"
  define kept where "kept = newest (gr_ScrollbackLimit g) (scrollback g @ (if IsAltScreen g then [] else take lost (gr_Main g)))"
  have g1: "gr_Main g1 = map ?cut (gr_Main g)" "gr_Alt g1 = map ?cut (gr_Alt g)" "gr_ScrollbackLimit g1 = gr_ScrollbackLimit g" "gr_Cols g1 = ?cols"
      "IsAltScreen g1 = IsAltScreen g" "gr_CursorRow g1 = gr_CursorRow g" "gr_CursorCol g1 = gr_CursorCol g" "ring_ok g1" "scrollback g1 = map ?cut (scrollback g)"
    using ring1 back1 unfolding g1_def cuts by (simp_all add: IsAltScreen_def)
  have cut_len: "length (?cut l) = length l" for l by (simp add: cut_row_def blank_cut_def)
  have size: "length (scrollback g) \<le> gr_ScrollbackLimit g" using ring_ok_wf [OF g] by (simp add: ring_ok_def)
  have g2: "gr_Main g2 = gr_Main g1" "gr_Alt g2 = gr_Alt g1" "ring_ok g2" "scrollback g2 = map ?cut kept" "content_frame g1 g2"
  proof -
    have rows: "length (gr_Main g1 ! r) = gr_Cols g1" if "r < lost" for r
      using that len(1,3) g1(1,4) cut_len by (simp add: lost_def)
    note push = push_rows [OF g1(8), of lost, OF rows]
    have "gr_Alt (fold PushScrollback [0..<m] g') = gr_Alt g'" for m g' by (induction m) simp_all
    moreover have "content_frame g1 (fold PushScrollback [0..<m] g1)" for m by (rule content_frames(6))
    moreover have "content_frame g1 g1" using content_frames(6) [of g1 "[]"] by simp
    ultimately show "gr_Main g2 = gr_Main g1" "gr_Alt g2 = gr_Alt g1" "ring_ok g2" "scrollback g2 = map ?cut kept" "content_frame g1 g2"
      using push size len(1) g1 by (auto simp: g2_def kept_def lost_def newest_map [symmetric] newest_all take_map)
  qed
  define g3 where "g3 = g2\<lparr>gr_Main := fit_screen newCols newRows ?n ?rows (gr_Main g2), gr_Alt := fit_screen newCols newRows ?n ?rows (gr_Alt g2)\<rparr>"
  define g4 where "g4 = (if newCols \<noteq> ?cols \<and> gr_History g3 \<noteq> [] then g3\<lparr>gr_History := fit_history newCols ?n g3, gr_HistoryStart := 0\<rparr> else g3)"
  have fit: "map (fit_row newCols ?n) (map ?cut ls) = map row ls" if "\<And>l. l \<in> set ls \<Longrightarrow> length l = ?cols" for ls
    using that fit_cut_row d by (simp add: row_def)
  have main: "fit_screen newCols newRows ?n ?rows (gr_Main g2) = map row (drop lost (gr_Main g)) @ replicate (newRows - ?rows) (replicate newCols default_cell)"
    using fit_screen_rows [of "gr_Main g2" ?rows newCols newRows ?n] fit [of "drop lost (gr_Main g)"] len(1,3) g2(1) g1(1)
    by (auto simp: lost_def drop_map dest: in_set_dropD)
  have alt: "fit_screen newCols newRows ?n ?rows (gr_Alt g2) = map row (drop lost (gr_Alt g)) @ replicate (newRows - ?rows) (replicate newCols default_cell)"
    using fit_screen_rows [of "gr_Alt g2" ?rows newCols newRows ?n] fit [of "drop lost (gr_Alt g)"] len(2,4) g2(2) g1(2)
    by (auto simp: lost_def drop_map dest: in_set_dropD)
  have kept_len: "length l = ?cols" if "l \<in> set kept" for l
    using newest_subset [OF that [unfolded kept_def]] len(3,5) by (auto dest: in_set_takeD split: if_splits)
  have "ring_ok g3" "scrollback g3 = scrollback g2" using g2(3) by (simp_all add: g3_def ring_ok_def scrollback_def)
  then have sb: "scrollback g4 = map row kept"
  proof (cases "newCols = ?cols")
    case True
    then have "?cut = (\<lambda>l. l)" by (auto simp: cut_row_def)
    moreover have "map row kept = kept" using kept_len True by (intro map_idI) (simp add: row_def resized_row_same)
    ultimately show ?thesis using True \<open>scrollback g3 = scrollback g2\<close> g2(4) by (simp add: g4_def)
  next
    case False
    show ?thesis
    proof (cases "gr_History g3 = []")
      case True
      then have "scrollback g3 = []" using \<open>ring_ok g3\<close> by (simp add: ring_ok_def scrollback_def)
      then show ?thesis using True \<open>scrollback g3 = scrollback g2\<close> g2(4) by (simp add: g4_def)
    next
      case hist: False
      then show ?thesis
        using False scrollback_fit_history [OF \<open>ring_ok g3\<close>, of newCols ?n] \<open>scrollback g3 = scrollback g2\<close> g2(4) fit [OF kept_len] by (simp add: g4_def)
    qed
  qed
  have cur: "gr_CursorRow g < ?rows" "gr_CursorCol g < ?cols" using grid_wf_cursor [OF g] by simp_all
  have g4: "gr_Main g4 = gr_Main g3" "gr_Alt g4 = gr_Alt g3" "gr_CursorRow g4 = gr_CursorRow g" "gr_CursorCol g4 = gr_CursorCol g"
    using content_frameD(4,5) [OF g2(5)] g1 by (simp_all add: g4_def g3_def)
  note shape = resize_to_def [of newCols newRows g, unfolded Let_def clamp, folded g1_def, folded g2_def, folded g3_def, folded g4_def]
  show "gr_Main (resize_to newCols newRows g) = map row (drop lost (gr_Main g)) @ replicate (newRows - gr_Rows g) (replicate newCols default_cell)"
    using main g4(1) by (simp add: shape g3_def)
  show "gr_Alt (resize_to newCols newRows g) = map row (drop lost (gr_Alt g)) @ replicate (newRows - gr_Rows g) (replicate newCols default_cell)"
    using alt g4(2) by (simp add: shape g3_def)
  show "scrollback (resize_to newCols newRows g) =
      map row (newest (gr_ScrollbackLimit g) (scrollback g @ (if IsAltScreen g then [] else take lost (gr_Main g))))"
    using sb unfolding kept_def by (simp add: shape scrollback_def)
  show "gr_CursorRow (resize_to newCols newRows g) = gr_CursorRow g - lost"
    using g4(3) cur(1) d by (auto simp: shape lost_def)
  show "gr_CursorCol (resize_to newCols newRows g) = min (gr_CursorCol g) (newCols - 1)"
    using g4(4) d by (auto simp: shape)
qed

text \<open>A resize that succeeds, also the one to the same size.\<close>

lemma g_Resize_text:
  assumes g: "grid_wf g" and r: "g_Resize alloc cols rows g = (Inr (), g')" and size: "ClampScreenSize cols rows = (newCols, newRows)"
  defines "row \<equiv> resized_row (BlankCell g) newCols" and "lost \<equiv> gr_Rows g - newRows"
  shows "gr_Cols g' = newCols" "gr_Rows g' = newRows"
    and "gr_Main g' = map row (drop lost (gr_Main g)) @ replicate (newRows - gr_Rows g) (replicate newCols default_cell)"
    and "gr_Alt g' = map row (drop lost (gr_Alt g)) @ replicate (newRows - gr_Rows g) (replicate newCols default_cell)"
    and "scrollback g' = map row (newest (gr_ScrollbackLimit g) (scrollback g @ (if IsAltScreen g then [] else take lost (gr_Main g))))"
    and "gr_CursorRow g' = gr_CursorRow g - lost" and "gr_CursorCol g' = min (gr_CursorCol g) (newCols - 1)"
proof -
  have "gr_Cols g' = newCols \<and> gr_Rows g' = newRows \<and>
    gr_Main g' = map row (drop lost (gr_Main g)) @ replicate (newRows - gr_Rows g) (replicate newCols default_cell) \<and>
    gr_Alt g' = map row (drop lost (gr_Alt g)) @ replicate (newRows - gr_Rows g) (replicate newCols default_cell) \<and>
    scrollback g' = map row (newest (gr_ScrollbackLimit g) (scrollback g @ (if IsAltScreen g then [] else take lost (gr_Main g)))) \<and>
    gr_CursorRow g' = gr_CursorRow g - lost \<and> gr_CursorCol g' = min (gr_CursorCol g) (newCols - 1)"
  proof (cases "newCols = gr_Cols g \<and> newRows = gr_Rows g")
    case True
    then have "g' = g" using r size by (simp add: g_Resize_def)
    have len: "\<And>l. l \<in> set (gr_Main g) \<Longrightarrow> length l = gr_Cols g" "\<And>l. l \<in> set (gr_Alt g) \<Longrightarrow> length l = gr_Cols g"
        "\<And>l. l \<in> set (scrollback g) \<Longrightarrow> length l = gr_Cols g" "length (scrollback g) \<le> gr_ScrollbackLimit g"
      using g ring_ok_wf [OF g] by (auto simp: wf_defs screen_ok_def row_okD(1) ring_ok_def scrollback_def)
    have "map row (gr_Main g) = gr_Main g" "map row (gr_Alt g) = gr_Alt g" "map row (scrollback g) = scrollback g"
      using len True by (auto intro!: map_idI simp: row_def resized_row_same)
    then show ?thesis
      using True \<open>g' = g\<close> len(4) grid_wf_cursor [OF g] by (auto simp: lost_def newest_all)
  next
    case False
    then have g': "g' = resize_to newCols newRows g" using r size by (auto simp: g_Resize_def split: if_splits)
    have "gr_Cols g' = newCols" "gr_Rows g' = newRows" by (simp_all add: g' resize_to_def Let_def)
    then show ?thesis
      using resize_to_text [OF g ClampScreenSize_ok [OF size]] unfolding g' row_def lost_def by simp
  qed
  then show "gr_Cols g' = newCols" "gr_Rows g' = newRows"
    "gr_Main g' = map row (drop lost (gr_Main g)) @ replicate (newRows - gr_Rows g) (replicate newCols default_cell)"
    "gr_Alt g' = map row (drop lost (gr_Alt g)) @ replicate (newRows - gr_Rows g) (replicate newCols default_cell)"
    "scrollback g' = map row (newest (gr_ScrollbackLimit g) (scrollback g @ (if IsAltScreen g then [] else take lost (gr_Main g))))"
    "gr_CursorRow g' = gr_CursorRow g - lost" "gr_CursorCol g' = min (gr_CursorCol g) (newCols - 1)" by blast+
qed

end
