(* ===== verification/Grid_Properties.thy ===== *)
theory Grid_Properties
  imports Grid_Ladder Grid_Resize
begin

text \<open>
  What the terminal grid promises, stated over the model of the parser, the grid and the snapshot
  serializer. Each property whose statement has hypotheses is followed by an instance in which they hold.
\<close>

subsection \<open>The terminal\<close>

text \<open>A small terminal: eight columns, four rows, two lines of scrollback.\<close>

definition example_grid :: Grid where
  "example_grid = projr (g_Create (\<lambda>_. True) 8 4 2)"

lemma example_grid_created: "g_Create (\<lambda>_. True) 8 4 2 = Inr example_grid"
proof -
  have "\<exists>g. g_Create (\<lambda>_. True) 8 4 2 = Inr g"
    by (simp add: g_Create_def Allocate_def ClampScreenSize_def MAX_COLS_def MAX_ROWS_def MAX_SCREEN_CELLS_def
        CELL_SIZE_def MAX_SCROLLBACK_BYTES_def)
  then show ?thesis by (auto simp: example_grid_def)
qed

lemma example_grid_fields:
  "gr_Cols example_grid = 8" "gr_Rows example_grid = 4" "gr_ScrollbackLimit example_grid = 2"
  "gr_CursorRow example_grid = 0" "gr_CursorCol example_grid = 0" "gr_Pen example_grid = default_pen"
  "gr_Main example_grid = blank_screen 8 4" "gr_HistorySize example_grid = 0" "gr_HistoryStart example_grid = 0"
  "gr_ScrollTop example_grid = 0" "gr_ScrollBot example_grid = 3" "gr_Modes example_grid = default_modes"
  "gr_SavedMain example_grid = default_saved" "gr_CharsetG0 example_grid = 0" "gr_CharsetG1 example_grid = 0" "gr_CharsetActive example_grid = 0"
  "gr_CursorStyle example_grid = 0" "\<not> gr_PendingWrap example_grid"
  by (simp_all add: example_grid_def g_Create_def Allocate_def ClampScreenSize_def MAX_COLS_def MAX_ROWS_def
      MAX_SCREEN_CELLS_def CELL_SIZE_def MAX_SCROLLBACK_BYTES_def u16_minus_def)

lemma example_modes: "ModeSet m example_grid \<longleftrightarrow> m = Awm \<or> m = Dectcem" "\<not> IsAltScreen example_grid"
  using default_modes_set [of example_grid] example_grid_fields by (simp_all add: IsAltScreen_def)

lemma example_terminal_wf: "terminal_wf (mk_VtParser, example_grid)"
  using wf_g_Create [OF example_grid_created] by (simp add: terminal_wf_def mk_VtParser_wf)

text \<open>C4 (invariant). Whatever bytes a terminal is fed, and however it is resized in between (with any of its
  requests for memory failing), the cursor stays on the screen, the scroll region inside it, every row has the
  width of the screen with each wide character beside its continuation cell, every cell holds a printable
  character and a rendition an escape sequence can select, and the buffers of the parser stay within bounds.\<close>

theorem terminal_stays_well_formed:
  assumes "g_Create alloc cols rows limit = Inr g"
  shows "terminal_wf (term_run ops (mk_VtParser, g))"
  using wf_g_Create [OF assms] by (intro wf_term_run) (simp add: terminal_wf_def mk_VtParser_wf)

theorem terminal_stays_well_formed_witness:
  "terminal_wf (term_run [Fed [0x1B, 0x5B, 0x39, 0x40, 0xE4], Resized (\<lambda>_. True) 3 70000, Fed [0xBD, 0xA0]] (mk_VtParser, example_grid))"
  by (rule terminal_stays_well_formed [OF example_grid_created])



text \<open>C39 (liveness). No string sequence swallows the terminal: a parser inside a device control, operating
  system command or similar string leaves it within \<open>BYPASS_LIMIT_BYTES\<close> bytes, whatever they are.\<close>

theorem string_sequences_end:
  assumes "terminal_wf pg" and "length bs = BYPASS_LIMIT_BYTES"
  shows "\<exists>k\<le>length bs. vp_State (fst (Feed (take k bs) pg)) \<noteq> Bypass"
  using bypass_bounded [OF assms(1), of bs] assms(2) by auto

theorem string_sequences_end_witness:
  "\<exists>k\<le>BYPASS_LIMIT_BYTES. vp_State (fst (Feed (take k (replicate BYPASS_LIMIT_BYTES 0x41))
     (Feed [0x1B, 0x5D] (mk_VtParser, example_grid)))) \<noteq> Bypass"
  using string_sequences_end [OF wf_Feed [OF example_terminal_wf], of "replicate BYPASS_LIMIT_BYTES 0x41" "[0x1B, 0x5D]"]
  by simp

text \<open>The byte CAN, with which every snapshot begins, brings the parser to the ground state from
  whatever it was in the middle of, and leaves the grid alone.\<close>

theorem can_returns_to_ground:
  assumes "terminal_wf pg"
  shows "at_ground (fst (FeedByte 0x18 pg)) \<and> snd (FeedByte 0x18 pg) = snd pg"
  using can_grounds [of pg] assms by (simp add: terminal_wf_def)

theorem can_returns_to_ground_witness:
  "at_ground (fst (FeedByte 0x18 (Feed [0x1B, 0x5D, 0xE4] (mk_VtParser, example_grid)))) \<and>
   snd (FeedByte 0x18 (Feed [0x1B, 0x5D, 0xE4] (mk_VtParser, example_grid))) = snd (Feed [0x1B, 0x5D, 0xE4] (mk_VtParser, example_grid))"
  by (rule can_returns_to_ground [OF wf_Feed [OF example_terminal_wf]])

text \<open>Characters: what the snapshot writes for a code point the parser decodes to that code
  point, one to four bytes of UTF-8, and prints with its width.\<close>

theorem utf8_roundtrip:
  assumes "printable cp" and "at_ground p"
  shows "at_ground (fst (Feed (WriteUtf8 cp) (p, g))) \<and> snd (Feed (WriteUtf8 cp) (p, g)) = put_codepoint cp g"
  using feeds_utf8 [OF assms(1), of g] assms(2) by (simp add: feeds_def)

theorem utf8_roundtrip_witness:
  "at_ground (fst (Feed (WriteUtf8 0x1F600) (mk_VtParser, example_grid))) \<and>
   snd (Feed (WriteUtf8 0x1F600) (mk_VtParser, example_grid)) = put_codepoint 0x1F600 example_grid"
  by (rule utf8_roundtrip) (simp_all add: printable_def at_ground_def mk_VtParser_def vt_Reset_def)

subsection \<open>Snapshots\<close>

lemma length_tab_stop_bytes: "gr_Cols g \<le> 0xFFFF \<Longrightarrow> length (tab_stop_bytes g) \<le> 16 * gr_Cols g"
proof -
  assume g: "gr_Cols g \<le> 0xFFFF"
  have "length (concat (map f [0..<n])) \<le> 16 * n" if "\<And>c. c < n \<Longrightarrow> length (f c) \<le> 16" for f :: "nat \<Rightarrow> bytes" and n
    using that
  proof (induction n)
    case (Suc n)
    from Suc.IH Suc.prems Suc.prems [of n] show ?case by fastforce
  qed simp
  moreover have "length (esc_csi ''1;'' @ WriteDecimal (c + 1) @ [0x48] @ esc_lit ''H'') \<le> 16" if "c < gr_Cols g" for c
    using decimal_length [of "c + 1"] that g by (simp add: esc_csi_def esc_lit_def WriteLiteral_def)
  ultimately show ?thesis by (simp add: tab_stop_bytes_def)
qed

lemma used_extent_blank_row: "n \<le> cols \<Longrightarrow> used_extent (replicate cols default_cell) n = 0"
  by (induction n) (simp_all add: IsBlankCell_def default_cell_def default_pen_def)

lemma example_encoding: "length (encoding example_grid (full_params 0 0)) \<le> 1000"
proof -
  have line: "encode_screen_rows cm 8 (ActiveLine example_grid) [0..<4] None pen = ([], pen)" for cm pen
  proof -
    have "ActiveLine example_grid r = replicate 8 default_cell" if "r < 4" for r
      using that example_modes by (simp add: ActiveLine_def example_grid_fields blank_screen_def)
    then show ?thesis by (simp add: used_extent_blank_row upt_rec)
  qed
  have "length (tab_stop_bytes example_grid) \<le> 128" using length_tab_stop_bytes [of example_grid] by (simp add: example_grid_fields)
  then show ?thesis
    by (simp add: encoding_def scrollback_section_def screen_section_def preamble_bytes_def clear_bytes_def history_bytes_def
      alt_switch_bytes_def EncodeAnyScreen_def endRow_def full_params_def EncodeModeRestore_def slot_bytes_def mode_bytes_def EmitPrivateMode_def
      EmitAnsiMode_def esc_csi_def esc_lit_def WriteLiteral_def WriteDecimal_def decimal_digits.simps example_grid_fields example_modes
      EmitSgr_def MatchesCell_def default_saved_def SlotNeedsState_def region_bytes_def cup_bytes_def charset_bytes_def cupRow_def emitCol_def
      wrapLeadReposition_def wrap_bytes_def Let_def line)
qed

lemma example_ladder: "ladder (cap_fits example_grid 0) example_grid = (full_params 0 0, NoDegradation, True)"
proof -
  have "cap_fits example_grid 0 (full_params 0 0)"
    using example_encoding by (simp add: cap_fits_def snapshot_cap_def GRID_SNAPSHOT_MAX_BYTES_def)
  then show ?thesis
    by (simp add: ladder_def Let_def trim_history_def reduce_colors_def strip_colors_def crop_rows_def example_grid_fields)
qed

lemma example_snapshot:
  "sn_Create (\<lambda>_. True) example_grid 0 = Inr \<lparr> sn_Bytes = encoding example_grid (full_params 0 0),
     sn_ScrollbackLen = length (scrollback_section example_grid (full_params 0 0)), sn_Degradation = NoDegradation,
     sn_PossiblyDiverged = gr_PossiblyDiverged example_grid, sn_AltScreen = IsAltScreen example_grid \<rparr>"
  by (simp add: sn_Create_ladder example_ladder)

lemma example_restorable: "restorable example_grid"
  using wf_g_Create [OF example_grid_created] by (simp add: restorable_def region_ok_def wrap_printable_def example_grid_fields)

text \<open>C3 (roundtrip). A snapshot brings the terminal back: fed to a new parser and grid of the same size, with room for
  the scrollback, the bytes of a snapshot that crops no rows reproduce the screen and, from the alternate screen, the
  main screen behind it, cell by cell, the newest lines of the scrollback (all of them when nothing was degraded), the
  cursor with its pending wrap, the rendition, the scroll region, the character sets, the tab stops, the cursor style,
  every mode but the synchronised output the snapshot itself uses, and the saved cursors, in the colours the
  degradation leaves. The parser ends in its ground state.\<close>

theorem snapshot_restores_terminal:
  assumes "restorable g" and "sn_Create alloc g maxBytes = Inr s" and "sn_Degradation s \<noteq> RowsCropped"
    and "g_Create alloc' (gr_Cols g) (gr_Rows g) limit = Inr t" and "gr_HistorySize g \<le> limit"
  shows "\<exists>n \<le> gr_HistorySize g. (sn_Degradation s = NoDegradation \<longrightarrow> n = gr_HistorySize g) \<and>
    at_ground (fst (Feed (sn_Bytes s) (mk_VtParser, t))) \<and>
    restored (degraded_colors (sn_Degradation s)) n g (snd (Feed (sn_Bytes s) (mk_VtParser, t)))"
  using snapshot_restores [OF assms] .

theorem snapshot_restores_terminal_witness:
  "restored Full 0 example_grid (snd (Feed (encoding example_grid (full_params 0 0)) (mk_VtParser, example_grid)))"
  using snapshot_restores_terminal [OF example_restorable example_snapshot, of "\<lambda>_. True" 2 example_grid] example_grid_created
  by (simp add: example_grid_fields)

text \<open>C16 (bounds). \<open>Snapshot::Create\<close> succeeds whenever it can, and never beyond its cap: what it writes is what it
  measured and fits the cap; the degradation it names is the one it applied, one step less would not have fitted, and
  rows are only cropped around the row of the cursor; it answers \<open>SnapshotTooLarge\<close> only when the cursor's row alone,
  without colours and history, does not fit.\<close>

theorem snapshot_least_degraded:
  assumes "grid_wf g"
  shows "case sn_Create alloc g maxBytes of
     Inl e \<Rightarrow> (e = SnapshotTooLarge \<and> snapshot_cap maxBytes < length (encoding g (least_params g))) \<or>
              (e = AllocationFailed \<and> \<not> (alloc 0 \<and> alloc 1))
   | Inr s \<Rightarrow> length (sn_Bytes s) \<le> snapshot_cap maxBytes \<and> sn_ScrollbackLen s \<le> length (sn_Bytes s) \<and>
       (\<exists>ep. sn_Bytes s = encoding g ep \<and> degraded (\<lambda>ep. length (encoding g ep) \<le> snapshot_cap maxBytes) g (sn_Degradation s) ep)"
proof (cases "sn_Create alloc g maxBytes")
  case (Inr s)
  have fits: "cap_fits g maxBytes = (\<lambda>ep. length (encoding g ep) \<le> snapshot_cap maxBytes)" by (simp add: fun_eq_iff cap_fits_def)
  show ?thesis
    using created_snapshot [OF assms Inr] unfolding fits by (auto simp: Inr) (simp add: encoding_def)
next
  case (Inl e)
  have "gr_CursorRow g < gr_Rows g" "gr_Rows g \<le> 1024" using assms grid_wf_dims(4) [OF assms] by (simp_all add: wf_defs)
  from ladder_outcome [OF this, of "cap_fits g maxBytes"] Inl show ?thesis
    by (auto simp: sn_Create_ladder cap_fits_def split: prod.splits if_splits)
qed

theorem snapshot_least_degraded_witness:
  "length (encoding example_grid (full_params 0 0)) \<le> GRID_SNAPSHOT_MAX_BYTES"
  using snapshot_least_degraded [OF wf_g_Create [OF example_grid_created], where alloc = "\<lambda>_. True" and maxBytes = 0]
  by (simp add: example_snapshot snapshot_cap_def example_grid_fields)

text \<open>C19 (refinement). The scrollback ring is a bounded queue: scrolling the main screen up appends the rows that leave
  at the top, oldest first, and keeps the newest \<open>ScrollbackLimit\<close> lines; on the alternate screen, or below a fixed
  header, scrolling leaves the scrollback alone.\<close>

theorem scrollback_is_a_bounded_queue:
  assumes "grid_wf g"
  shows "scrollback (ScrollRegionUp n True g) =
    (if gr_ScrollTop g = 0 \<and> \<not> IsAltScreen g
     then newest (gr_ScrollbackLimit g) (scrollback g @ take (min n (gr_ScrollBot g + 1)) (gr_Main g)) else scrollback g)"
  by (rule scroll_queue [OF assms])

theorem scrollback_is_a_bounded_queue_witness:
  "scrollback (ScrollRegionUp 3 True example_grid) = replicate 2 (replicate 8 default_cell)"
  using scrollback_is_a_bounded_queue [OF wf_g_Create [OF example_grid_created], of 3] example_modes(2)
  by (simp add: example_grid_fields blank_screen_def newest_def scrollback_def)

end
