(* ===== verification/Agent_Grid_Pump.thy ===== *)
theory Agent_Grid_Pump
  imports Core_Time Grid_Ladder
begin

text \<open>
  \<^verbatim>\<open>agent/grid_pump.cpp\<close>: the terminal an agent keeps of its session. It is fed what the shell writes; when a client needs
  a snapshot the pump waits, within bounds, until the parser is between sequences, and builds one. Whether the requests
  for memory of a resize and of a snapshot succeed are the arguments \<open>ralloc\<close> and \<open>salloc\<close>.
\<close>

subsection \<open>State\<close>

definition GROUND_WAIT_TIMEOUT :: Duration where "GROUND_WAIT_TIMEOUT = 5 * 1000000000"

definition GROUND_WAIT_BYTES :: nat where "GROUND_WAIT_BYTES = 1 * 1024 * 1024"

record SnapReady =
  sr_Bytes :: bytes
  sr_ScrollbackLen :: nat
  sr_Flags :: nat

record SnapWait =
  sw_Deadline :: Timestamp
  sw_BytesCap :: nat
  sw_Rows :: nat
  sw_Cols :: nat

record GridPump =
  gp_Grid :: Grid
  gp_Parser :: VtParser
  gp_TotalGridBytes :: nat
  gp_SnapWait :: "SnapWait option"
  gp_Snap :: "Snapshot option"

subsection \<open>Operations\<close>

definition gp_Create :: "(nat \<Rightarrow> bool) \<Rightarrow> nat \<Rightarrow> nat \<Rightarrow> nat \<Rightarrow> EGridError + GridPump" where
  "gp_Create alloc cols rows scrollbackLimit =
    (case g_Create alloc cols rows scrollbackLimit of
       Inl e \<Rightarrow> Inl e
     | Inr g \<Rightarrow> Inr \<lparr> gp_Grid = g, gp_Parser = mk_VtParser, gp_TotalGridBytes = 0, gp_SnapWait = None, gp_Snap = None \<rparr>)"

definition FeedBytes :: "bytes \<Rightarrow> GridPump \<Rightarrow> GridPump" where
  "FeedBytes data gp =
    (if length data = 0 then gp
     else let (p, g) = Feed data (gp_Parser gp, gp_Grid gp)
          in gp\<lparr>gp_Parser := p, gp_Grid := g, gp_TotalGridBytes := gp_TotalGridBytes gp + length data\<rparr>)"

definition HandleResize :: "(nat \<Rightarrow> bool) \<Rightarrow> nat \<Rightarrow> nat \<Rightarrow> GridPump \<Rightarrow> (EGridError + unit) \<times> GridPump" where
  "HandleResize ralloc cols rows gp =
    (let (r, g) = g_Resize ralloc cols rows (gp_Grid gp) in (r, gp\<lparr>gp_Grid := g\<rparr>))"

definition InGround :: "GridPump \<Rightarrow> bool" where
  "InGround gp \<longleftrightarrow> vp_State (gp_Parser gp) = Ground"

text \<open>The end of \<open>DoBuild\<close>: the snapshot itself, of a grid that has the size it should have.\<close>

definition take_snapshot :: "(nat \<Rightarrow> bool) \<Rightarrow> GridPump \<Rightarrow> (EGridError + SnapReady option) \<times> GridPump" where
  "take_snapshot salloc gp =
    (case sn_Create salloc (gp_Grid gp) 0 of
       Inl e \<Rightarrow> (Inl e, gp\<lparr>gp_SnapWait := None\<rparr>)
     | Inr snap \<Rightarrow>
         (Inr (Some \<lparr> sr_Bytes = sn_Bytes snap, sr_ScrollbackLen = sn_ScrollbackLen snap mod 2 ^ 32,
             sr_Flags = (if sn_PossiblyDiverged snap then 1 else 0) \<rparr>),
          gp\<lparr>gp_Snap := Some snap, gp_SnapWait := None, gp_Grid := SetPossiblyDiverged False (gp_Grid gp)\<rparr>))"

definition DoBuild :: "(nat \<Rightarrow> bool) \<Rightarrow> (nat \<Rightarrow> bool) \<Rightarrow> GridPump \<Rightarrow> (EGridError + SnapReady option) \<times> GridPump" where
  "DoBuild ralloc salloc gp =
    (case gp_SnapWait gp of
       None \<Rightarrow> (Inr None, gp)
     | Some sw \<Rightarrow>
         (let gp = (if InGround gp then gp
                    else gp\<lparr>gp_Parser := vt_Reset (gp_Parser gp), gp_Grid := SetPossiblyDiverged True (gp_Grid gp)\<rparr>)
          in if sw_Cols sw \<noteq> 0 \<and> sw_Rows sw \<noteq> 0 \<and> (gr_Cols (gp_Grid gp) \<noteq> sw_Cols sw \<or> gr_Rows (gp_Grid gp) \<noteq> sw_Rows sw)
             then (case g_Resize ralloc (sw_Cols sw) (sw_Rows sw) (gp_Grid gp) of
                     (Inl e, g) \<Rightarrow> (Inl e, gp\<lparr>gp_Grid := g, gp_SnapWait := None\<rparr>)
                   | (Inr _, g) \<Rightarrow> take_snapshot salloc (gp\<lparr>gp_Grid := g\<rparr>))
             else take_snapshot salloc gp))"

definition OnNeedsSnapshot ::
  "(nat \<Rightarrow> bool) \<Rightarrow> (nat \<Rightarrow> bool) \<Rightarrow> nat \<Rightarrow> nat \<Rightarrow> Timestamp \<Rightarrow> GridPump \<Rightarrow> SnapReady option \<times> GridPump" where
  "OnNeedsSnapshot ralloc salloc rows cols now gp =
    (let targetRows = (if rows = 0 then gr_Rows (gp_Grid gp) else rows);
         targetCols = (if cols = 0 then gr_Cols (gp_Grid gp) else cols);
         gp = gp\<lparr>gp_SnapWait := Some \<lparr> sw_Deadline = now + GROUND_WAIT_TIMEOUT,
           sw_BytesCap = gp_TotalGridBytes gp + GROUND_WAIT_BYTES, sw_Rows = targetRows, sw_Cols = targetCols \<rparr>\<rparr>
     in if \<not> InGround gp then (None, gp)
        else case DoBuild ralloc salloc gp of
          (Inl e, gp) \<Rightarrow> (None, gp)
        | (Inr r, gp) \<Rightarrow> (r, gp))"

definition TryBuild :: "(nat \<Rightarrow> bool) \<Rightarrow> (nat \<Rightarrow> bool) \<Rightarrow> Timestamp \<Rightarrow> GridPump \<Rightarrow> (EGridError + SnapReady option) \<times> GridPump" where
  "TryBuild ralloc salloc now gp =
    (case gp_SnapWait gp of
       None \<Rightarrow> (Inr None, gp)
     | Some sw \<Rightarrow>
         if \<not> InGround gp \<and> \<not> now \<ge> sw_Deadline sw \<and> \<not> gp_TotalGridBytes gp \<ge> sw_BytesCap sw then (Inr None, gp)
         else DoBuild ralloc salloc gp)"

definition ReleaseSnapshot :: "GridPump \<Rightarrow> GridPump" where
  "ReleaseSnapshot gp = gp\<lparr>gp_Snap := None\<rparr>"

definition CancelPendingSnap :: "GridPump \<Rightarrow> GridPump" where
  "CancelPendingSnap gp = gp\<lparr>gp_SnapWait := None\<rparr>"

definition HasSnapshot :: "GridPump \<Rightarrow> bool" where
  "HasSnapshot gp \<longleftrightarrow> gp_Snap gp \<noteq> None"

definition HasPendingSnap :: "GridPump \<Rightarrow> bool" where
  "HasPendingSnap gp \<longleftrightarrow> gp_SnapWait gp \<noteq> None"

definition gp_NextDeadline :: "GridPump \<Rightarrow> Deadline" where
  "gp_NextDeadline gp = (case gp_SnapWait gp of None \<Rightarrow> no_deadline | Some sw \<Rightarrow> deadline_at (sw_Deadline sw))"

subsection \<open>Any sequence of calls\<close>

text \<open>What the agent does with its pump.\<close>

datatype pump_call = PFeed bytes | PResize "nat \<Rightarrow> bool" nat nat | PNeeds "nat \<Rightarrow> bool" "nat \<Rightarrow> bool" nat nat Timestamp
  | PTry "nat \<Rightarrow> bool" "nat \<Rightarrow> bool" Timestamp | PRelease | PCancel

fun pump_step :: "pump_call \<Rightarrow> GridPump \<Rightarrow> GridPump" where
  "pump_step (PFeed bs) gp = FeedBytes bs gp"
| "pump_step (PResize ralloc cols rows) gp = snd (HandleResize ralloc cols rows gp)"
| "pump_step (PNeeds ralloc salloc rows cols now) gp = snd (OnNeedsSnapshot ralloc salloc rows cols now gp)"
| "pump_step (PTry ralloc salloc now) gp = snd (TryBuild ralloc salloc now gp)"
| "pump_step PRelease gp = ReleaseSnapshot gp"
| "pump_step PCancel gp = CancelPendingSnap gp"

definition pump_wf :: "GridPump \<Rightarrow> bool" where
  "pump_wf gp \<longleftrightarrow> terminal_wf (gp_Parser gp, gp_Grid gp)"

lemma pump_wf_update [simp]: "pump_wf (gp\<lparr>gp_SnapWait := w\<rparr>) = pump_wf gp" "pump_wf (gp\<lparr>gp_Snap := s\<rparr>) = pump_wf gp"
  by (simp_all add: pump_wf_def)

lemma diverged_wf: "grid_wf (SetPossiblyDiverged v g) = grid_wf g"
  by (simp add: SetPossiblyDiverged_def wf_defs ModeSet_def)

lemma pump_wf_parts: "pump_wf gp \<longleftrightarrow> parser_wf (gp_Parser gp) \<and> grid_wf (gp_Grid gp)"
  by (simp add: pump_wf_def terminal_wf_def)

lemma wf_FeedBytes: "pump_wf gp \<Longrightarrow> pump_wf (FeedBytes bs gp)"
  using wf_Feed [of "(gp_Parser gp, gp_Grid gp)" bs] by (auto simp: pump_wf_def FeedBytes_def split: prod.splits)

lemma wf_take_snapshot: "pump_wf gp \<Longrightarrow> pump_wf (snd (take_snapshot salloc gp))"
  by (auto simp: take_snapshot_def pump_wf_parts diverged_wf split: sum.splits)

text \<open>The terminal a snapshot is taken of: the parser between sequences, the grid of the size asked for.\<close>

definition grounded :: "GridPump \<Rightarrow> GridPump" where
  "grounded gp = (if InGround gp then gp else gp\<lparr>gp_Parser := vt_Reset (gp_Parser gp), gp_Grid := SetPossiblyDiverged True (gp_Grid gp)\<rparr>)"

definition snap_resize :: "SnapWait \<Rightarrow> (nat \<Rightarrow> bool) \<Rightarrow> Grid \<Rightarrow> (EGridError + unit) \<times> Grid" where
  "snap_resize sw ralloc g = (if sw_Cols sw \<noteq> 0 \<and> sw_Rows sw \<noteq> 0 \<and> (gr_Cols g \<noteq> sw_Cols sw \<or> gr_Rows g \<noteq> sw_Rows sw)
     then g_Resize ralloc (sw_Cols sw) (sw_Rows sw) g else (Inr (), g))"

lemma DoBuild_steps:
  "DoBuild ralloc salloc gp = (case gp_SnapWait gp of None \<Rightarrow> (Inr None, gp)
    | Some sw \<Rightarrow> (case snap_resize sw ralloc (gp_Grid (grounded gp)) of
        (Inl e, g) \<Rightarrow> (Inl e, (grounded gp)\<lparr>gp_Grid := g, gp_SnapWait := None\<rparr>)
      | (Inr _, g) \<Rightarrow> take_snapshot salloc ((grounded gp)\<lparr>gp_Grid := g\<rparr>)))"
proof -
  have same: "x\<lparr>gp_Grid := gp_Grid x\<rparr> = x" for x :: GridPump by simp
  show ?thesis
    unfolding DoBuild_def Let_def grounded_def [symmetric] snap_resize_def by (simp add: same split: option.split)
qed

lemma wf_grounded: "pump_wf gp \<Longrightarrow> pump_wf (grounded gp)" "InGround (grounded gp)"
  subgoal by (simp add: grounded_def pump_wf_parts vt_Reset_wf diverged_wf)
  subgoal by (simp add: grounded_def InGround_def vt_Reset_def)
  done

lemma wf_snap_resize: "grid_wf g \<Longrightarrow> grid_wf (snd (snap_resize sw ralloc g))"
  by (simp add: snap_resize_def wf_g_Resize)

text \<open>The outcomes of \<open>DoBuild\<close> with a request pending.\<close>

lemma DoBuild_cases:
  assumes "gp_SnapWait gp = Some sw"
  obtains (failed) e g where "snap_resize sw ralloc (gp_Grid (grounded gp)) = (Inl e, g)"
      "DoBuild ralloc salloc gp = (Inl e, (grounded gp)\<lparr>gp_Grid := g, gp_SnapWait := None\<rparr>)"
    | (sized) g where "snap_resize sw ralloc (gp_Grid (grounded gp)) = (Inr (), g)"
      "DoBuild ralloc salloc gp = take_snapshot salloc ((grounded gp)\<lparr>gp_Grid := g\<rparr>)"
proof (cases "snap_resize sw ralloc (gp_Grid (grounded gp))")
  case (Pair r g)
  then show ?thesis using assms failed sized by (cases r) (simp_all add: DoBuild_steps)
qed

lemma wf_DoBuild:
  assumes "pump_wf gp"
  shows "pump_wf (snd (DoBuild ralloc salloc gp))"
proof (cases "gp_SnapWait gp")
  case None
  then show ?thesis using assms by (simp add: DoBuild_steps)
next
  case (Some sw)
  have g: "pump_wf (grounded gp)" "grid_wf (snd (snap_resize sw ralloc (gp_Grid (grounded gp))))"
    using wf_grounded(1) [OF assms] by (simp_all add: pump_wf_parts wf_snap_resize)
  from Some show ?thesis
  proof (cases rule: DoBuild_cases [of gp sw ralloc salloc])
    case (failed e h)
    then show ?thesis using g by (simp add: pump_wf_parts)
  next
    case (sized h)
    then show ?thesis using g wf_take_snapshot [of "(grounded gp)\<lparr>gp_Grid := h\<rparr>" salloc] by (simp add: pump_wf_parts)
  qed
qed

lemma wf_pump_step: "pump_wf gp \<Longrightarrow> pump_wf (pump_step c gp)"
proof (cases c)
  case (PNeeds ralloc salloc rows cols now)
  assume "pump_wf gp"
  then have "pump_wf (snd (DoBuild ralloc salloc (gp\<lparr>gp_SnapWait := w\<rparr>)))" for w by (simp add: wf_DoBuild)
  with \<open>pump_wf gp\<close> show ?thesis
    by (auto simp: PNeeds OnNeedsSnapshot_def Let_def split: prod.splits sum.splits) (metis snd_conv)+
qed (auto simp: wf_FeedBytes [unfolded pump_wf_parts] HandleResize_def pump_wf_parts wf_g_Resize TryBuild_def wf_DoBuild [unfolded pump_wf_parts] ReleaseSnapshot_def CancelPendingSnap_def
    case_prod_beta split: option.split)

lemma wf_pump_run: "pump_wf gp \<Longrightarrow> pump_wf (fold pump_step cs gp)"
  by (induction cs arbitrary: gp) (simp_all add: wf_pump_step)


subsection \<open>Waiting for the ground state\<close>

lemma take_snapshot_decides: "fst (take_snapshot salloc gp) \<noteq> Inr None" "gp_SnapWait (snd (take_snapshot salloc gp)) = None"
  by (simp_all add: take_snapshot_def split: sum.split)

lemma DoBuild_decides:
  assumes "HasPendingSnap gp"
  shows "fst (DoBuild ralloc salloc gp) \<noteq> Inr None" "\<not> HasPendingSnap (snd (DoBuild ralloc salloc gp))"
proof -
  obtain sw where "gp_SnapWait gp = Some sw" using assms by (auto simp: HasPendingSnap_def)
  then have "fst (DoBuild ralloc salloc gp) \<noteq> Inr None \<and> \<not> HasPendingSnap (snd (DoBuild ralloc salloc gp))"
    by (cases rule: DoBuild_cases [of gp sw ralloc salloc]) (simp_all add: take_snapshot_decides HasPendingSnap_def)
  then show "fst (DoBuild ralloc salloc gp) \<noteq> Inr None" "\<not> HasPendingSnap (snd (DoBuild ralloc salloc gp))" by simp_all
qed

lemma TryBuild_decides:
  assumes "gp_SnapWait gp = Some sw" "InGround gp \<or> sw_Deadline sw \<le> now \<or> sw_BytesCap sw \<le> gp_TotalGridBytes gp"
  shows "fst (TryBuild ralloc salloc now gp) \<noteq> Inr None" "\<not> HasPendingSnap (snd (TryBuild ralloc salloc now gp))"
proof -
  have "TryBuild ralloc salloc now gp = DoBuild ralloc salloc gp" using assms by (auto simp: TryBuild_def)
  moreover have "HasPendingSnap gp" using assms(1) by (simp add: HasPendingSnap_def)
  ultimately show "fst (TryBuild ralloc salloc now gp) \<noteq> Inr None" "\<not> HasPendingSnap (snd (TryBuild ralloc salloc now gp))"
    using DoBuild_decides by simp_all
qed

lemma FeedBytes_fields: "gp_SnapWait (FeedBytes bs gp) = gp_SnapWait gp" "gp_TotalGridBytes (FeedBytes bs gp) = gp_TotalGridBytes gp + length bs"
  by (auto simp: FeedBytes_def split: prod.split)

lemma fold_FeedBytes_fields:
  "gp_SnapWait (fold FeedBytes bss gp) = gp_SnapWait gp"
  "gp_TotalGridBytes (fold FeedBytes bss gp) = gp_TotalGridBytes gp + sum_list (map length bss)"
  by (induction bss arbitrary: gp) (simp_all add: FeedBytes_fields)

lemma OnNeedsSnapshot_pending:
  assumes "HasPendingSnap (snd (OnNeedsSnapshot ralloc salloc rows cols now gp))"
  shows "\<not> InGround gp" "\<exists>sw. gp_SnapWait (snd (OnNeedsSnapshot ralloc salloc rows cols now gp)) = Some sw \<and>
      sw_Deadline sw = now + GROUND_WAIT_TIMEOUT \<and> sw_BytesCap sw = gp_TotalGridBytes gp + GROUND_WAIT_BYTES"
    "gp_TotalGridBytes (snd (OnNeedsSnapshot ralloc salloc rows cols now gp)) = gp_TotalGridBytes gp"
proof -
  let ?w = "\<lparr> sw_Deadline = now + GROUND_WAIT_TIMEOUT, sw_BytesCap = gp_TotalGridBytes gp + GROUND_WAIT_BYTES,
     sw_Rows = (if rows = 0 then gr_Rows (gp_Grid gp) else rows), sw_Cols = (if cols = 0 then gr_Cols (gp_Grid gp) else cols) \<rparr>"
  let ?gp = "gp\<lparr>gp_SnapWait := Some ?w\<rparr>"
  have ground: "InGround ?gp = InGround gp" "HasPendingSnap ?gp" by (simp_all add: InGround_def HasPendingSnap_def)
  have on: "snd (OnNeedsSnapshot ralloc salloc rows cols now gp) = (if InGround gp then snd (DoBuild ralloc salloc ?gp) else ?gp)"
    using ground by (simp add: OnNeedsSnapshot_def Let_def split: prod.split sum.split)
  show no: "\<not> InGround gp" using assms DoBuild_decides(2) [OF ground(2), of ralloc salloc] unfolding on by auto
  then show "\<exists>sw. gp_SnapWait (snd (OnNeedsSnapshot ralloc salloc rows cols now gp)) = Some sw \<and>
      sw_Deadline sw = now + GROUND_WAIT_TIMEOUT \<and> sw_BytesCap sw = gp_TotalGridBytes gp + GROUND_WAIT_BYTES"
    "gp_TotalGridBytes (snd (OnNeedsSnapshot ralloc salloc rows cols now gp)) = gp_TotalGridBytes gp"
    unfolding on by simp_all
qed

text \<open>A snapshot that cannot be built at once is forgotten: the caller is told nothing, and nothing is pending.\<close>

lemma OnNeedsSnapshot_failed:
  assumes "InGround gp"
  shows "\<not> HasPendingSnap (snd (OnNeedsSnapshot ralloc salloc rows cols now gp))"
  using OnNeedsSnapshot_pending(1) assms by blast

fun asks :: "pump_call \<Rightarrow> bool" where
  "asks (PNeeds ralloc salloc rows cols now) = True" | "asks _ = False"

lemma idle_step: "\<not> HasPendingSnap gp \<Longrightarrow> \<not> asks c \<Longrightarrow> \<not> HasPendingSnap (pump_step c gp)"
  by (cases c) (auto simp: HasPendingSnap_def FeedBytes_fields HandleResize_def TryBuild_def ReleaseSnapshot_def CancelPendingSnap_def case_prod_beta)

lemma idle_run: "\<not> HasPendingSnap gp \<Longrightarrow> \<forall>c\<in>set cs. \<not> asks c \<Longrightarrow> \<not> HasPendingSnap (fold pump_step cs gp)"
  by (induction cs arbitrary: gp) (simp_all add: idle_step)

lemma TryBuild_idle: "\<not> HasPendingSnap gp \<Longrightarrow> TryBuild ralloc salloc now gp = (Inr None, gp)"
  by (simp add: TryBuild_def HasPendingSnap_def)

subsection \<open>What is supplied\<close>

lemma diverged_irrelevant:
  "restorable (SetPossiblyDiverged v g) = restorable g" "restored cm n (SetPossiblyDiverged v g) t = restored cm n g t"
  "gr_Cols (SetPossiblyDiverged v g) = gr_Cols g" "gr_Rows (SetPossiblyDiverged v g) = gr_Rows g" "gr_HistorySize (SetPossiblyDiverged v g) = gr_HistorySize g"
proof -
  let ?g = "SetPossiblyDiverged v g"
  have modes: "ModeSet m ?g = ModeSet m g" "IsAltScreen ?g = IsAltScreen g" for m by (simp_all add: SetPossiblyDiverged_def ModeSet_def IsAltScreen_def)
  have views: "active_screen ?g = active_screen g" "scrollback ?g = scrollback g" "IsTabStop ?g c = IsTabStop g c" for c
    using modes by (simp_all add: active_screen_def scrollback_def IsTabStop_def) (simp_all add: SetPossiblyDiverged_def)
  show "restorable ?g = restorable g"
    using modes by (simp add: restorable_def diverged_wf) (simp add: SetPossiblyDiverged_def region_ok_def wrap_printable_def)
  show "restored cm n ?g t = restored cm n g t"
    using modes views by (simp add: restored_def same_state_def) (simp add: SetPossiblyDiverged_def)
qed (simp_all add: SetPossiblyDiverged_def)

lemma take_snapshot_ready:
  assumes "take_snapshot salloc gp = (Inr (Some r), gp')"
  shows "\<exists>s. sn_Create salloc (gp_Grid gp) 0 = Inr s \<and> sr_Bytes r = sn_Bytes s \<and> gp_Snap gp' = Some s \<and>
    gp_Grid gp' = SetPossiblyDiverged False (gp_Grid gp) \<and> gp_Parser gp' = gp_Parser gp"
  using assms by (auto simp: take_snapshot_def split: sum.splits)

lemma TryBuild_ready:
  assumes "TryBuild ralloc salloc now gp = (Inr (Some r), gp')"
  shows "\<exists>s g. sn_Create salloc g 0 = Inr s \<and> sr_Bytes r = sn_Bytes s \<and> gp_Snap gp' = Some s \<and>
    gp_Grid gp' = SetPossiblyDiverged False g \<and> InGround gp' \<and> \<not> HasPendingSnap gp'"
proof -
  obtain sw where sw: "gp_SnapWait gp = Some sw" "DoBuild ralloc salloc gp = (Inr (Some r), gp')"
    using assms by (auto simp: TryBuild_def split: option.splits if_splits)
  then obtain g where "take_snapshot salloc ((grounded gp)\<lparr>gp_Grid := g\<rparr>) = (Inr (Some r), gp')"
    by (cases rule: DoBuild_cases [of gp sw ralloc salloc]) auto
  from take_snapshot_ready [OF this] wf_grounded(2) [of gp] arg_cong [OF this, of snd] take_snapshot_decides(2) show ?thesis
    by (auto simp: InGround_def HasPendingSnap_def)
qed

end
