(* ===== verification/App_Helpers.thy ===== *)
theory App_Helpers
  imports Wire_Session_Message Crypto
begin

text \<open>
  The parts of the three programs that are pure: the client's escape (\<^verbatim>\<open>client/escape.cpp\<close>), the queue of bytes a
  descriptor has not taken yet (\<^verbatim>\<open>app/byte_queue.cpp\<close>), the frames on the router's socket (\<^verbatim>\<open>app/mux_frames.cpp\<close>),
  numbers from the environment (\<^verbatim>\<open>app/env.cpp\<close>) and the printed digest of a binary (\<^verbatim>\<open>client/deliver.cpp\<close>).
\<close>

subsection \<open>The client's escape\<close>

definition TILDE :: byte where "TILDE = 0x7E"
definition DOT :: byte where "DOT = 0x2E"
definition CR :: byte where "CR = 0x0D"
definition LF :: byte where "LF = 0x0A"

record EscapeScanner =
  es_AtLineStart :: bool
  es_Held :: bool

definition mk_EscapeScanner :: EscapeScanner where
  "mk_EscapeScanner = \<lparr> es_AtLineStart = True, es_Held = False \<rparr>"

text \<open>\<open>put\<close>: a byte that does not fit into \<open>out\<close> is dropped. \<open>cap\<close> is the size of \<open>out\<close>.\<close>

definition es_put :: "nat \<Rightarrow> byte \<Rightarrow> bytes \<Rightarrow> bytes" where
  "es_put cap b out = (if length out < cap then out @ [b] else out)"

fun es_Feed :: "nat \<Rightarrow> bytes \<Rightarrow> bytes \<Rightarrow> EscapeScanner \<Rightarrow> bytes \<times> bool \<times> EscapeScanner" where
  "es_Feed cap out [] es = (out, False, es)"
| "es_Feed cap out (b # bs) es =
    (if es_Held es then
       (let es = es\<lparr>es_Held := False\<rparr> in
        if b = DOT then (out, True, es)
        else let out = es_put cap TILDE out in
          if b = TILDE then es_Feed cap out bs (es\<lparr>es_AtLineStart := False\<rparr>)
          else es_Feed cap (es_put cap b out) bs (es\<lparr>es_AtLineStart := (b = CR \<or> b = LF)\<rparr>))
     else if es_AtLineStart es \<and> b = TILDE then es_Feed cap out bs (es\<lparr>es_Held := True\<rparr>)
     else es_Feed cap (es_put cap b out) bs (es\<lparr>es_AtLineStart := (b = CR \<or> b = LF)\<rparr>))"

text \<open>The escape as its description has it, on a whole input: what the session gets, and whether it ends.\<close>

fun unescape :: "bool \<Rightarrow> bytes \<Rightarrow> bytes \<times> bool" where
  "unescape start [] = ([], False)"
| "unescape start (b # bs) =
    (if start \<and> b = TILDE then
       (case bs of
          [] \<Rightarrow> ([], False)
        | c # cs \<Rightarrow>
            if c = DOT then ([], True)
            else if c = TILDE then apfst (\<lambda>r. TILDE # r) (unescape False cs)
            else apfst (\<lambda>r. TILDE # c # r) (unescape (c = CR \<or> c = LF) cs))
     else apfst (\<lambda>r. b # r) (unescape (b = CR \<or> b = LF) bs))"

text \<open>The scanner without an output buffer.\<close>

fun es_run :: "bytes \<Rightarrow> EscapeScanner \<Rightarrow> bytes \<times> bool \<times> EscapeScanner" where
  "es_run [] es = ([], False, es)"
| "es_run (b # bs) es =
    (if es_Held es then
       (if b = DOT then ([], True, es\<lparr>es_Held := False\<rparr>)
        else if b = TILDE then apfst (\<lambda>r. TILDE # r) (es_run bs \<lparr> es_AtLineStart = False, es_Held = False \<rparr>)
        else apfst (\<lambda>r. TILDE # b # r) (es_run bs \<lparr> es_AtLineStart = (b = CR \<or> b = LF), es_Held = False \<rparr>))
     else if es_AtLineStart es \<and> b = TILDE then es_run bs (es\<lparr>es_Held := True\<rparr>)
     else apfst (\<lambda>r. b # r) (es_run bs \<lparr> es_AtLineStart = (b = CR \<or> b = LF), es_Held = False \<rparr>))"

lemma scanner_update:
  "es\<lparr>es_Held := h, es_AtLineStart := a\<rparr> = \<lparr> es_AtLineStart = a, es_Held = h \<rparr>"
  "\<not> es_Held es \<Longrightarrow> es\<lparr>es_AtLineStart := a\<rparr> = \<lparr> es_AtLineStart = a, es_Held = False \<rparr>"
  by (cases es; simp)+

lemma es_Feed_run:
  "length out + length bs + (if es_Held es then 1 else 0) \<le> cap \<Longrightarrow> es_Feed cap out bs es = apfst (\<lambda>r. out @ r) (es_run bs es)"
proof (induction bs arbitrary: out es)
  case (Cons b bs)
  have put: "es_put cap x out = out @ [x]" "es_put cap y (out @ [x]) = out @ [x, y]" if "length out + 2 \<le> cap" for x y
    using that by (simp_all add: es_put_def)
  show ?case
  proof (cases "es_Held es")
    case True
    then show ?thesis
      using Cons.prems Cons.IH [of "out @ [TILDE]" "\<lparr> es_AtLineStart = False, es_Held = False \<rparr>"]
        Cons.IH [of "out @ [TILDE, b]" "\<lparr> es_AtLineStart = (b = CR \<or> b = LF), es_Held = False \<rparr>"]
      by (simp add: put scanner_update Let_def apfst_def map_prod_def split: prod.split)
  next
    case False
    then show ?thesis
      using Cons.prems Cons.IH [of out "es\<lparr>es_Held := True\<rparr>"]
        Cons.IH [of "out @ [b]" "\<lparr> es_AtLineStart = (b = CR \<or> b = LF), es_Held = False \<rparr>"]
      by (simp add: es_put_def scanner_update apfst_def map_prod_def split: prod.split)
  qed
qed simp

lemma es_run_append:
  "es_run (a @ b) es = (case es_run a es of (r, quit, es') \<Rightarrow> if quit then (r, quit, es') else apfst (\<lambda>r'. r @ r') (es_run b es'))"
  by (induction a es rule: es_run.induct) (auto simp: apfst_def map_prod_def split: prod.splits)

lemma es_run_unescape:
  "unescape start bs = (fst (es_run bs \<lparr> es_AtLineStart = start, es_Held = False \<rparr>), fst (snd (es_run bs \<lparr> es_AtLineStart = start, es_Held = False \<rparr>)))"
  by (induction start bs rule: unescape.induct) (auto simp: apfst_def map_prod_def split: list.split prod.splits)

text \<open>Keys as they arrive, each read scanned into a buffer of the size the scanner asks for.\<close>

fun scan_reads :: "nat \<Rightarrow> bytes list \<Rightarrow> EscapeScanner \<Rightarrow> bytes \<times> bool" where
  "scan_reads stdinChunk [] es = ([], False)"
| "scan_reads stdinChunk (c # cs) es =
    (case es_Feed (2 * stdinChunk + 1) [] c es of
       (out, quit, es') \<Rightarrow> if quit then (out, True) else apfst (\<lambda>r. out @ r) (scan_reads stdinChunk cs es'))"

lemma scan_reads_run:
  "\<forall>c\<in>set cs. length c \<le> stdinChunk \<Longrightarrow> scan_reads stdinChunk cs es = (fst (es_run (concat cs) es), fst (snd (es_run (concat cs) es)))"
proof (induction cs arbitrary: es)
  case (Cons c cs)
  have "es_Feed (2 * stdinChunk + 1) [] c es = es_run c es"
    using es_Feed_run [of "[]" c es "2 * stdinChunk + 1"] Cons.prems by (simp add: apfst_def map_prod_def split: prod.split)
  then show ?case
    using Cons.prems by (simp add: es_run_append Cons.IH split: prod.split)
qed simp

subsection \<open>A queue of bytes\<close>

record ByteQueue =
  bq_Limit :: nat
  bq_Bytes :: bytes
  bq_Head :: nat

definition mk_ByteQueue :: "nat \<Rightarrow> ByteQueue" where
  "mk_ByteQueue limit = \<lparr> bq_Limit = limit, bq_Bytes = [], bq_Head = 0 \<rparr>"

definition bq_Front :: "ByteQueue \<Rightarrow> bytes" where
  "bq_Front q = drop (bq_Head q) (bq_Bytes q)"

definition bq_Size :: "ByteQueue \<Rightarrow> nat" where
  "bq_Size q = length (bq_Bytes q) - bq_Head q"

definition bq_Empty :: "ByteQueue \<Rightarrow> bool" where
  "bq_Empty q \<longleftrightarrow> bq_Size q = 0"

definition bq_Room :: "ByteQueue \<Rightarrow> nat" where
  "bq_Room q = (if bq_Size q < bq_Limit q then bq_Limit q - bq_Size q else 0)"

definition bq_AppendTo :: "bytes \<Rightarrow> nat \<Rightarrow> ByteQueue \<Rightarrow> bool \<times> ByteQueue" where
  "bq_AppendTo bs ceiling q =
    (if bq_Size q > ceiling \<or> length bs > ceiling - bq_Size q then (False, q)
     else (True, q\<lparr>bq_Bytes := bq_Bytes q @ bs\<rparr>))"

definition bq_Append :: "bytes \<Rightarrow> ByteQueue \<Rightarrow> bool \<times> ByteQueue" where
  "bq_Append bs q = bq_AppendTo bs (bq_Limit q) q"

definition bq_Consume :: "nat \<Rightarrow> ByteQueue \<Rightarrow> ByteQueue" where
  "bq_Consume count q =
    (let q = q\<lparr>bq_Head := bq_Head q + min count (bq_Size q)\<rparr> in
     if bq_Head q = length (bq_Bytes q) then q\<lparr>bq_Bytes := [], bq_Head := 0\<rparr>
     else if bq_Head q > length (bq_Bytes q) div 2 then q\<lparr>bq_Bytes := drop (bq_Head q) (bq_Bytes q), bq_Head := 0\<rparr>
     else q)"

definition bq_ok :: "ByteQueue \<Rightarrow> bool" where
  "bq_ok q \<longleftrightarrow> bq_Head q \<le> length (bq_Bytes q) \<and> 2 * bq_Head q \<le> length (bq_Bytes q)"

lemma bq_Size_Front: "bq_Size q = length (bq_Front q)"
  by (simp add: bq_Size_def bq_Front_def)

lemma bq_AppendTo_queue:
  assumes "bq_ok q"
  shows "case bq_AppendTo bs ceiling q of (ok, q') \<Rightarrow> bq_ok q' \<and> (ok \<longleftrightarrow> length (bq_Front q) + length bs \<le> ceiling) \<and>
    bq_Front q' = (if ok then bq_Front q @ bs else bq_Front q) \<and> bq_Limit q' = bq_Limit q"
  using assms by (auto simp: bq_AppendTo_def bq_ok_def bq_Size_def bq_Front_def)

lemma bq_Consume_queue:
  assumes "bq_ok q"
  shows "bq_ok (bq_Consume n q)" "bq_Front (bq_Consume n q) = drop n (bq_Front q)" "bq_Limit (bq_Consume n q) = bq_Limit q"
  using assms by (auto simp: bq_Consume_def bq_ok_def bq_Size_def bq_Front_def Let_def min_def add.commute)

subsection \<open>Frames on the router's socket\<close>

definition MUX_MAX_BODY :: nat where
  "MUX_MAX_BODY = 1 + 2 + MAX_HANDOFF_PREFIX"

definition MUX_MAX_FRAME :: nat where
  "MUX_MAX_FRAME = HEADER_SIZE + MUX_MAX_BODY"

definition CleartextFrame :: "writer \<Rightarrow> bytes" where
  "CleartextFrame write =
    (let frame = replicate MUX_MAX_FRAME 0 in
     case write (mk_writer (drop HEADER_SIZE frame)) of
       (Inl e, body) \<Rightarrow> []
     | (Inr _, body) \<Rightarrow>
         (let len = length (Written body) in
          case WriteFrameHeader \<lparr> fh_Length = of_nat len, fh_Epoch = 0 \<rparr> (mk_writer (take HEADER_SIZE frame)) of
            (Inl e, hdr) \<Rightarrow> []
          | (Inr _, hdr) \<Rightarrow> take (HEADER_SIZE + len) (wr_Out hdr @ wr_Out body)))"

lemma CleartextFrame_bytes:
  assumes "writes W bs" "length bs \<le> MUX_MAX_BODY"
  shows "CleartextFrame W = frame_bytes \<lparr> fh_Length = of_nat (length bs), fh_Epoch = 0 \<rparr> bs"
proof -
  have body: "W (mk_writer (drop HEADER_SIZE (replicate MUX_MAX_FRAME 0))) = (Inr (), wr_at bs (drop (length bs) (replicate MUX_MAX_BODY 0)))"
    using writes_ok [OF assms(1), of "replicate MUX_MAX_BODY 0"] assms(2) by (simp add: MUX_MAX_FRAME_def)
  have hdr: "WriteFrameHeader h (mk_writer (take HEADER_SIZE (replicate MUX_MAX_FRAME 0))) = (Inr (), wr_at (header_bytes h) [])" for h
    using writes_ok [OF writes_WriteFrameHeader [of h], of "replicate HEADER_SIZE 0"] by (simp add: MUX_MAX_FRAME_def min_def)
  show ?thesis by (simp add: CleartextFrame_def Let_def body hdr frame_bytes_def del: drop_replicate take_replicate)
qed

text \<open>The reader is the bytes it holds.\<close>

definition CAPACITY :: nat where "CAPACITY = 2 * MUX_MAX_FRAME"

definition mfr_Room :: "bytes \<Rightarrow> nat" where
  "mfr_Room buf = CAPACITY - length buf"

definition mfr_Append :: "bytes \<Rightarrow> bytes \<Rightarrow> bytes" where
  "mfr_Append bs buf = buf @ bs"

definition mfr_Next :: "bytes \<Rightarrow> (bytes option) proto_result \<times> bytes" where
  "mfr_Next buf =
    (case ReadFrame buf (of_nat MUX_MAX_BODY) of
       Inl e \<Rightarrow> if e = Truncated then (Inr None, buf) else (Inl e, buf)
     | Inr frame \<Rightarrow>
         if fh_Epoch (fv_Header frame) \<noteq> 0 then (Inl UnexpectedMessage, buf)
         else (Inr (Some (fv_Body frame)), drop (fv_Consumed frame) buf))"

lemma mfr_Next_frame:
  assumes "body \<noteq> []" "length body \<le> MUX_MAX_BODY"
  shows "mfr_Next (frame_bytes \<lparr> fh_Length = of_nat (length body), fh_Epoch = 0 \<rparr> body @ rest) = (Inr (Some body), rest)"
proof -
  have len: "unat (of_nat (length body) :: u32) = length body" "MUX_MAX_BODY < 2 ^ 32"
    using assms(2) by (auto simp: MUX_MAX_BODY_def size_defs unat_of_nat)
  then have "(of_nat (length body) :: u32) \<noteq> 0" "\<not> (of_nat (length body) :: u32) > of_nat MUX_MAX_BODY"
    using assms by (auto simp: word_le_nat_alt unat_of_nat not_less) (metis len(1) length_0_conv unat_0)
  then show ?thesis
    using len by (simp add: mfr_Next_def frame_bytes_def ReadFrame_header)
qed

subsection \<open>Numbers from the environment\<close>

text \<open>\<open>std::from_chars\<close> into an unsigned 64-bit number, on a text that must be used up: digits and nothing else.\<close>

definition digit_value :: "char \<Rightarrow> nat option" where
  "digit_value c = (let n = of_char c :: nat in if 48 \<le> n \<and> n \<le> 57 then Some (n - 48) else None)"

fun digits_value :: "nat \<Rightarrow> string \<Rightarrow> nat option" where
  "digits_value acc [] = Some acc"
| "digits_value acc (c # cs) = (case digit_value c of None \<Rightarrow> None | Some d \<Rightarrow> digits_value (acc * 10 + d) cs)"

definition whole_number :: "string \<Rightarrow> nat option" where
  "whole_number s = (if s = [] then None else case digits_value 0 s of None \<Rightarrow> None | Some n \<Rightarrow> if n < 2 ^ 64 then Some n else None)"

text \<open>The environment is a map; what is ignored is reported, which is not modelled.\<close>

definition SizeFromEnv :: "(string \<Rightarrow> string option) \<Rightarrow> string \<Rightarrow> nat \<Rightarrow> nat option" where
  "SizeFromEnv env name mx =
    (case env name of
       None \<Rightarrow> None
     | Some s \<Rightarrow> (case whole_number s of None \<Rightarrow> None | Some n \<Rightarrow> if n = 0 \<or> n > mx then None else Some n))"

definition CountFromEnv :: "(string \<Rightarrow> string option) \<Rightarrow> string \<Rightarrow> nat \<Rightarrow> nat option" where
  "CountFromEnv env name mx =
    (case env name of
       None \<Rightarrow> None
     | Some s \<Rightarrow> (case whole_number s of None \<Rightarrow> None | Some n \<Rightarrow> if n > mx then None else Some n))"

definition ChoiceFromEnv :: "(string \<Rightarrow> string option) \<Rightarrow> string \<Rightarrow> string list \<Rightarrow> string option" where
  "ChoiceFromEnv env name allowed =
    (case env name of None \<Rightarrow> None | Some s \<Rightarrow> find (\<lambda>choice. s = choice) allowed)"

definition StringFromEnv :: "(string \<Rightarrow> string option) \<Rightarrow> string \<Rightarrow> string option" where
  "StringFromEnv env name = env name"

lemma digits_value_Some:
  "digits_value acc s = Some n \<longleftrightarrow> (\<forall>c\<in>set s. digit_value c \<noteq> None) \<and> n = foldl (\<lambda>a c. a * 10 + the (digit_value c)) acc s"
  by (induction acc s rule: digits_value.induct) (auto split: option.splits)

subsection \<open>The digest of a binary\<close>

definition HASH256_SIZE :: nat where "HASH256_SIZE = 32"

definition HEX_CHARS :: string where "HEX_CHARS = ''0123456789abcdef''"

definition HashHex :: "sodium \<Rightarrow> bytes \<Rightarrow> string" where
  "HashHex S data =
    concat (map (\<lambda>b. [HEX_CHARS ! (unat b div 16), HEX_CHARS ! (unat b mod 16)]) (Hash S HASH256_SIZE data))"

end
