(* ===== verification/Agent_Mux_Link.thy ===== *)
theory Agent_Mux_Link
  imports Core_Time App_Helpers
begin

text \<open>
  \<^verbatim>\<open>agent/mux_link.cpp\<close>: the agent's registration with the router. What the system calls answer (a connection, bytes and a
  descriptor received, bytes written, the poller's consent) is an argument of the operations; descriptors are numbers, and
  the socket is whether there is one. The log is left out.
\<close>

subsection \<open>State\<close>

definition BACKOFF_MIN :: Duration where "BACKOFF_MIN = 250 * 1000000"
definition BACKOFF_MAX :: Duration where "BACKOFF_MAX = 30 * 1000000000"
definition MAX_WAITING_DESCRIPTORS :: nat where "MAX_WAITING_DESCRIPTORS = 2"
definition OUTPUT_MAX :: nat where "OUTPUT_MAX = MUX_MAX_FRAME"

record HandedOver =
  ho_Socket :: nat
  ho_Prefix :: bytes

record MuxLink =
  ml_Registration :: bytes
  ml_Port :: u16
  ml_Socket :: bool
  ml_Watch :: bool
  ml_Reader :: bytes
  ml_Output :: ByteQueue
  ml_Descriptors :: "nat list"
  ml_Registered :: bool
  ml_RetryAt :: Deadline
  ml_Attempts :: u32

definition mk_MuxLink :: "bytes \<Rightarrow> MuxLink" where
  "mk_MuxLink registration = \<lparr> ml_Registration = registration, ml_Port = 0, ml_Socket = False, ml_Watch = False, ml_Reader = [],
     ml_Output = mk_ByteQueue OUTPUT_MAX, ml_Descriptors = [], ml_Registered = False, ml_RetryAt = no_deadline, ml_Attempts = 0 \<rparr>"

subsection \<open>Connecting\<close>

text \<open>\<open>CheckPeer\<close>, on what \<open>lstat\<close> and \<open>SO_PEERCRED\<close> report; \<open>None\<close> is a failed call.\<close>

record FileStat =
  st_IsSocket :: bool
  st_IsDir :: bool
  st_Uid :: u32
  st_ForeignWrite :: bool

definition CheckPeer :: "FileStat option \<Rightarrow> FileStat option \<Rightarrow> u32 option \<Rightarrow> bool" where
  "CheckPeer socketStat directoryStat peer =
    (case socketStat of None \<Rightarrow> False | Some s \<Rightarrow>
       if \<not> st_IsSocket s then False
       else case directoryStat of None \<Rightarrow> False | Some d \<Rightarrow>
         if \<not> st_IsDir d then False
         else if (st_Uid d \<noteq> 0 \<and> st_Uid d \<noteq> st_Uid s) \<or> st_ForeignWrite d then False
         else case peer of None \<Rightarrow> False | Some uid \<Rightarrow> \<not> (uid \<noteq> st_Uid s \<and> uid \<noteq> 0))"

text \<open>What connecting meets: whether there is a connection, and the files and the peer it shows.\<close>

record Dialled =
  di_Connected :: bool
  di_SocketStat :: "FileStat option"
  di_DirectoryStat :: "FileStat option"
  di_Peer :: "u32 option"

definition ml_Connect :: "Dialled \<Rightarrow> MuxLink \<Rightarrow> bool \<times> MuxLink" where
  "ml_Connect d ml =
    (if \<not> di_Connected d then (False, ml)
     else if \<not> CheckPeer (di_SocketStat d) (di_DirectoryStat d) (di_Peer d) then (False, ml)
     else let frame = CleartextFrame (WriteMuxRegister \<lparr> mr_Registration = ml_Registration ml \<rparr>) in
       if frame = [] then (False, ml)
       else case bq_Append frame (ml_Output ml) of
         (False, q) \<Rightarrow> (False, ml\<lparr>ml_Output := q\<rparr>)
       | (True, q) \<Rightarrow> (True, ml\<lparr>ml_Output := q, ml_Socket := True, ml_Reader := [], ml_Descriptors := [], ml_Registered := False\<rparr>))"

subsection \<open>Messages\<close>

definition ml_Take :: "bytes \<Rightarrow> MuxLink \<Rightarrow> bool \<times> HandedOver list \<times> MuxLink" where
  "ml_Take body ml =
    (case ParseMessageType (mk_reader body) of
       (Inl e, reader) \<Rightarrow> (False, [], ml)
     | (Inr ty, reader) \<Rightarrow>
         if ty = MuxRegistered then
           (case fst (ParseMuxRegistered reader) of
              Inl e \<Rightarrow> (False, [], ml)
            | Inr message \<Rightarrow>
                if ml_Registered ml then (False, [], ml)
                else (True, [], ml\<lparr>ml_Port := md_Port message, ml_Registered := True, ml_Attempts := 0\<rparr>))
         else if ty = MuxHandoff then
           (case fst (ParseMuxHandoff reader) of
              Inl e \<Rightarrow> (False, [], ml)
            | Inr message \<Rightarrow>
                if \<not> ml_Registered ml \<or> ml_Descriptors ml = [] then (False, [], ml)
                else (True, [\<lparr> ho_Socket = hd (ml_Descriptors ml), ho_Prefix = mh_Prefix message \<rparr>],
                      ml\<lparr>ml_Descriptors := tl (ml_Descriptors ml)\<rparr>))
         else (False, [], ml))"

lemma mfr_Next_shrinks: "mfr_Next buf = (Inr (Some body), rest) \<Longrightarrow> length rest < length buf"
  using ReadFrame_consumed [of buf "of_nat MUX_MAX_BODY"]
  by (auto simp: mfr_Next_def split: sum.splits if_splits)

lemma ml_Take_reader: "ml_Take body ml = (ok, out, ml') \<Longrightarrow> ml_Reader ml' = ml_Reader ml"
  by (auto simp: ml_Take_def split: prod.splits sum.splits if_splits)

text \<open>\<open>for (;;)\<close> over the frames that are in: false when the mux breaks the protocol.\<close>

function ml_take_all :: "MuxLink \<Rightarrow> bool \<times> HandedOver list \<times> MuxLink" where
  "ml_take_all ml =
    (case mfr_Next (ml_Reader ml) of
       (Inl e, rest) \<Rightarrow> (False, [], ml\<lparr>ml_Reader := rest\<rparr>)
     | (Inr None, rest) \<Rightarrow> (True, [], ml\<lparr>ml_Reader := rest\<rparr>)
     | (Inr (Some body), rest) \<Rightarrow>
         (case ml_Take body (ml\<lparr>ml_Reader := rest\<rparr>) of
            (ok, out, ml') \<Rightarrow>
              if ok then (case ml_take_all ml' of (ok', out', ml'') \<Rightarrow> (ok', out @ out', ml'')) else (False, out, ml')))"
  by pat_completeness auto

termination
  by (relation "measure (length \<circ> ml_Reader)") (auto dest!: ml_Take_reader [OF sym] mfr_Next_shrinks [OF sym])

declare ml_take_all.simps [simp del]

subsection \<open>Losing the link and coming back\<close>

text \<open>\<open>for (i = 0; i < Attempts_ && delay < BACKOFF_MAX; ++i) delay *= 2;\<close>\<close>

fun backoff_delay :: "nat \<Rightarrow> Duration \<Rightarrow> Duration" where
  "backoff_delay 0 delay = delay"
| "backoff_delay (Suc n) delay = (if delay < BACKOFF_MAX then backoff_delay n (delay * 2) else delay)"

definition ml_Backoff :: "u64 \<Rightarrow> MuxLink \<Rightarrow> Duration \<times> MuxLink" where
  "ml_Backoff noise ml =
    (let delay = min (backoff_delay (unat (ml_Attempts ml)) BACKOFF_MIN) BACKOFF_MAX;
         half = delay div 2
     in (half + uint noise mod (half + 1), ml\<lparr>ml_Attempts := ml_Attempts ml + 1\<rparr>))"

definition ml_Close :: "MuxLink \<Rightarrow> MuxLink" where
  "ml_Close ml = ml\<lparr>ml_Watch := False, ml_Socket := False, ml_Descriptors := [],
     ml_Output := bq_Consume (bq_Size (ml_Output ml)) (ml_Output ml), ml_Registered := False\<rparr>"

definition ml_retry :: "Timestamp \<Rightarrow> u64 \<Rightarrow> MuxLink \<Rightarrow> MuxLink" where
  "ml_retry now noise ml = (let (delay, ml) = ml_Backoff noise ml in ml\<lparr>ml_RetryAt := deadline_at (now + delay)\<rparr>)"

definition ml_Lose :: "Timestamp \<Rightarrow> u64 \<Rightarrow> MuxLink \<Rightarrow> MuxLink" where
  "ml_Lose now noise ml = ml_retry now noise (ml_Close ml)"

definition ml_OnTimer :: "Dialled \<Rightarrow> Timestamp \<Rightarrow> u64 \<Rightarrow> MuxLink \<Rightarrow> MuxLink" where
  "ml_OnTimer d now noise ml =
    (if ml_Socket ml \<or> \<not> HasExpired (ml_RetryAt ml) now then ml
     else let ml = ml\<lparr>ml_RetryAt := no_deadline\<rparr> in
       case ml_Connect d ml of
         (True, ml) \<Rightarrow> ml
       | (False, ml) \<Rightarrow> ml_retry now noise (ml_Close ml))"

definition ml_UpdateInterest :: "bool \<Rightarrow> Timestamp \<Rightarrow> u64 \<Rightarrow> MuxLink \<Rightarrow> MuxLink" where
  "ml_UpdateInterest wanted now noise ml =
    (if \<not> ml_Socket ml then ml
     else let ml = ml\<lparr>ml_Watch := True\<rparr> in if wanted then ml else ml_Lose now noise ml)"

definition ml_NextDeadline :: "MuxLink \<Rightarrow> Deadline" where
  "ml_NextDeadline ml = (if ml_Socket ml then no_deadline else ml_RetryAt ml)"

subsection \<open>Reading and writing\<close>

text \<open>What \<open>ReceiveWithFd\<close> answers: an error that may pass, another, or bytes (none at the end) with a descriptor or without.\<close>

datatype Received = RecvBlocked | RecvFailed | RecvBytes "nat option" bytes

definition ml_Read :: "Received \<Rightarrow> Timestamp \<Rightarrow> u64 \<Rightarrow> MuxLink \<Rightarrow> HandedOver list \<times> MuxLink" where
  "ml_Read got now noise ml =
    (if min MUX_MAX_FRAME (mfr_Room (ml_Reader ml)) = 0 then ([], ml_Lose now noise ml)
     else case got of
       RecvBlocked \<Rightarrow> ([], ml)
     | RecvFailed \<Rightarrow> ([], ml_Lose now noise ml)
     | RecvBytes fd bs \<Rightarrow>
         (let ml = (case fd of None \<Rightarrow> ml | Some f \<Rightarrow> ml\<lparr>ml_Descriptors := ml_Descriptors ml @ [f]\<rparr>) in
          if bs = [] then ([], ml_Lose now noise ml)
          else case ml_take_all (ml\<lparr>ml_Reader := mfr_Append bs (ml_Reader ml)\<rparr>) of
            (ok, out, ml) \<Rightarrow>
              if \<not> ok then (out, ml_Lose now noise ml)
              else if length (ml_Descriptors ml) > MAX_WAITING_DESCRIPTORS then (out, ml_Lose now noise ml)
              else (out, ml)))"

text \<open>What one \<open>WriteSome\<close> answers. The list of the answers one \<open>Write\<close> gets ends where the descriptor would block.\<close>

datatype Wrote = WroteBlocked | WroteFailed | WroteSome nat

fun ml_Write :: "Wrote list \<Rightarrow> Timestamp \<Rightarrow> u64 \<Rightarrow> MuxLink \<Rightarrow> MuxLink" where
  "ml_Write [] now noise ml = ml"
| "ml_Write (r # rs) now noise ml =
    (if bq_Empty (ml_Output ml) then ml
     else case r of
       WroteBlocked \<Rightarrow> ml
     | WroteFailed \<Rightarrow> ml_Lose now noise ml
     | WroteSome n \<Rightarrow> ml_Write rs now noise (ml\<lparr>ml_Output := bq_Consume n (ml_Output ml)\<rparr>))"

record PollEvent =
  pe_Readable :: bool
  pe_Writable :: bool
  pe_Hangup :: bool
  pe_Error :: bool

definition ml_OnEvent :: "PollEvent \<Rightarrow> Wrote list \<Rightarrow> Received \<Rightarrow> Timestamp \<Rightarrow> u64 \<Rightarrow> u64 \<Rightarrow> MuxLink \<Rightarrow> HandedOver list \<times> MuxLink" where
  "ml_OnEvent event wrote got now noise noise' ml =
    (if \<not> ml_Socket ml then ([], ml)
     else let ml = (if pe_Writable event then ml_Write wrote now noise ml else ml) in
       if ml_Socket ml \<and> (pe_Readable event \<or> pe_Hangup event \<or> pe_Error event) then ml_Read got now noise' ml else ([], ml))"


subsection \<open>What the operations keep\<close>

lemma ml_Take_spec:
  assumes "ml_Take body ml = (ok, out, ml')"
  shows "map ho_Socket out @ ml_Descriptors ml' = ml_Descriptors ml" "ml_Socket ml' = ml_Socket ml" "ml_Output ml' = ml_Output ml"
    "ml_RetryAt ml' = ml_RetryAt ml" "ml_Registration ml' = ml_Registration ml" "ml_Registered ml \<longrightarrow> ml_Registered ml'"
    "out \<noteq> [] \<longrightarrow> ml_Registered ml'"
  using assms by (auto simp: ml_Take_def split: prod.splits sum.splits if_splits)

lemma ml_take_all_spec:
  "case ml_take_all ml of (ok, out, ml') \<Rightarrow> map ho_Socket out @ ml_Descriptors ml' = ml_Descriptors ml \<and> ml_Socket ml' = ml_Socket ml \<and>
    ml_Output ml' = ml_Output ml \<and> ml_RetryAt ml' = ml_RetryAt ml \<and> ml_Registration ml' = ml_Registration ml \<and>
    (ml_Registered ml \<longrightarrow> ml_Registered ml') \<and> (out \<noteq> [] \<longrightarrow> ml_Registered ml')"
proof (induction ml rule: ml_take_all.induct)
  case (1 ml)
  consider (error) e rest where "mfr_Next (ml_Reader ml) = (Inl e, rest)" | (none) rest where "mfr_Next (ml_Reader ml) = (Inr None, rest)"
    | (some) body rest where "mfr_Next (ml_Reader ml) = (Inr (Some body), rest)"
    by (metis not_None_eq surj_pair sumE)
  then show ?case
  proof cases
    case (some body rest)
    obtain ok out ml1 where t: "ml_Take body (ml\<lparr>ml_Reader := rest\<rparr>) = (ok, out, ml1)" by (cases "ml_Take body (ml\<lparr>ml_Reader := rest\<rparr>)")
    note s = ml_Take_spec [OF t]
    show ?thesis
    proof (cases ok)
      case True
      obtain ok2 out2 ml2 where u: "ml_take_all ml1 = (ok2, out2, ml2)" by (cases "ml_take_all ml1")
      have "ml_take_all ml = (ok2, out @ out2, ml2)"
        using True some t u by (subst ml_take_all.simps) simp
      moreover have "map ho_Socket out2 @ ml_Descriptors ml2 = ml_Descriptors ml1 \<and> ml_Socket ml2 = ml_Socket ml1 \<and>
          ml_Output ml2 = ml_Output ml1 \<and> ml_RetryAt ml2 = ml_RetryAt ml1 \<and> ml_Registration ml2 = ml_Registration ml1 \<and>
          (ml_Registered ml1 \<longrightarrow> ml_Registered ml2) \<and> (out2 \<noteq> [] \<longrightarrow> ml_Registered ml2)"
        using "1.IH" [OF some [symmetric] refl refl t [symmetric] refl True] u by simp
      ultimately show ?thesis using s by auto
    next
      case False
      have "ml_take_all ml = (False, out, ml1)" using False some t by (subst ml_take_all.simps) simp
      then show ?thesis using s by simp
    qed
  qed (subst ml_take_all.simps, simp)+
qed

text \<open>The link is connected, or it is empty and knows when to try again.\<close>

definition link_ok :: "MuxLink \<Rightarrow> bool" where
  "link_ok ml \<longleftrightarrow> bq_ok (ml_Output ml) \<and> bq_Limit (ml_Output ml) = OUTPUT_MAX \<and> length (ml_Registration ml) = KEY_SIZE \<and>
     (\<not> ml_Socket ml \<longrightarrow> dl_IsSet (ml_RetryAt ml) \<and> ml_Descriptors ml = [] \<and> \<not> ml_Registered ml \<and> bq_Front (ml_Output ml) = [])"

lemma backoff_delay_bounds: "0 < d \<Longrightarrow> d \<le> BACKOFF_MAX \<Longrightarrow> d \<le> backoff_delay n d"
proof (induction n d rule: backoff_delay.induct)
  case (2 n delay)
  show ?case
  proof (cases "delay < BACKOFF_MAX \<and> delay * 2 \<le> BACKOFF_MAX")
    case True
    then show ?thesis using "2.IH" "2.prems" by simp
  next
    case False
    have "x \<le> backoff_delay m x" if "BACKOFF_MAX \<le> x" for m x using that by (cases m) simp_all
    from this [of "delay * 2" n] False "2.prems" show ?thesis by auto
  qed
qed simp

lemma Backoff_bounds: "BACKOFF_MIN div 2 \<le> fst (ml_Backoff noise ml)" "fst (ml_Backoff noise ml) \<le> BACKOFF_MAX"
proof -
  define delay where "delay = min (backoff_delay (unat (ml_Attempts ml)) BACKOFF_MIN) BACKOFF_MAX"
  have d: "BACKOFF_MIN \<le> delay" "delay \<le> BACKOFF_MAX"
    using backoff_delay_bounds [of BACKOFF_MIN] by (simp_all add: delay_def BACKOFF_MIN_def BACKOFF_MAX_def)
  then have half: "BACKOFF_MIN div 2 \<le> delay div 2" "0 < delay div 2 + 1" "delay div 2 + delay div 2 \<le> delay"
    by (simp_all add: zdiv_mono1 BACKOFF_MIN_def)
  have m: "0 \<le> uint noise mod (delay div 2 + 1)" "uint noise mod (delay div 2 + 1) < delay div 2 + 1"
    by (rule pos_mod_sign [OF half(2)], rule pos_mod_bound [OF half(2)])
  have f: "fst (ml_Backoff noise ml) = delay div 2 + uint noise mod (delay div 2 + 1)" by (simp add: ml_Backoff_def Let_def delay_def)
  show "BACKOFF_MIN div 2 \<le> fst (ml_Backoff noise ml)" "fst (ml_Backoff noise ml) \<le> BACKOFF_MAX"
    using half m d unfolding f by linarith+
qed

lemma ml_retry_fields:
  "ml_Registration (ml_retry now noise ml) = ml_Registration ml" "ml_Socket (ml_retry now noise ml) = ml_Socket ml"
  "ml_Output (ml_retry now noise ml) = ml_Output ml" "ml_Descriptors (ml_retry now noise ml) = ml_Descriptors ml"
  "ml_Registered (ml_retry now noise ml) = ml_Registered ml"
  "ml_RetryAt (ml_retry now noise ml) = deadline_at (now + fst (ml_Backoff noise ml))"
  by (simp_all add: ml_retry_def ml_Backoff_def Let_def)

lemma ml_Close_fields:
  assumes "bq_ok (ml_Output ml)"
  shows "\<not> ml_Socket (ml_Close ml)" "ml_Descriptors (ml_Close ml) = []" "\<not> ml_Registered (ml_Close ml)" "bq_ok (ml_Output (ml_Close ml))"
    "bq_Front (ml_Output (ml_Close ml)) = []" "bq_Limit (ml_Output (ml_Close ml)) = bq_Limit (ml_Output ml)" "ml_Registration (ml_Close ml) = ml_Registration ml"
  using bq_Consume_queue [OF assms] by (simp_all add: ml_Close_def bq_Size_Front)

text \<open>Enough of \<open>link_ok\<close> to lose the link.\<close>

definition losable :: "MuxLink \<Rightarrow> bool" where
  "losable ml \<longleftrightarrow> bq_ok (ml_Output ml) \<and> bq_Limit (ml_Output ml) = OUTPUT_MAX \<and> length (ml_Registration ml) = KEY_SIZE"

lemma link_ok_losable: "link_ok ml \<Longrightarrow> losable ml" "losable ml \<Longrightarrow> ml_Socket ml \<Longrightarrow> link_ok ml"
  by (simp_all add: link_ok_def losable_def)

lemma link_ok_Close_retry: "losable ml \<Longrightarrow> link_ok (ml_retry now noise (ml_Close ml))"
  using ml_Close_fields [of ml] by (simp add: link_ok_def losable_def ml_retry_fields deadline_at_def)

lemma link_ok_Lose: "losable ml \<Longrightarrow> link_ok (ml_Lose now noise ml)" "losable ml \<Longrightarrow> \<not> ml_Socket (ml_Lose now noise ml)"
  using ml_Close_fields(1) [of ml] by (simp_all add: ml_Lose_def link_ok_Close_retry ml_retry_fields losable_def)

lemma register_frame:
  assumes "length reg = KEY_SIZE"
  shows "CleartextFrame (WriteMuxRegister \<lparr> mr_Registration = reg \<rparr>) =
      frame_bytes \<lparr> fh_Length = of_nat (Suc KEY_SIZE), fh_Epoch = 0 \<rparr> (type_code MuxRegister # reg)"
    and "length (frame_bytes \<lparr> fh_Length = of_nat (Suc KEY_SIZE), fh_Epoch = 0 \<rparr> (type_code MuxRegister # reg)) \<le> OUTPUT_MAX"
  using CleartextFrame_bytes [OF writes_WriteMuxRegister, of "\<lparr> mr_Registration = reg \<rparr>"] assms
  by (simp_all add: MUX_MAX_BODY_def MUX_MAX_FRAME_def OUTPUT_MAX_def size_defs frame_bytes_def)

text \<open>A peer that passes the check is registered with.\<close>

definition trusted :: "Dialled \<Rightarrow> bool" where
  "trusted d \<longleftrightarrow> di_Connected d \<and> CheckPeer (di_SocketStat d) (di_DirectoryStat d) (di_Peer d)"

lemma ml_Connect_trusted:
  assumes "losable ml" "bq_Front (ml_Output ml) = []" "trusted d"
  shows "\<exists>q. ml_Connect d ml = (True, ml\<lparr>ml_Output := q, ml_Socket := True, ml_Reader := [], ml_Descriptors := [], ml_Registered := False\<rparr>) \<and>
    bq_ok q \<and> bq_Limit q = OUTPUT_MAX \<and>
    bq_Front q = frame_bytes \<lparr> fh_Length = of_nat (Suc KEY_SIZE), fh_Epoch = 0 \<rparr> (type_code MuxRegister # ml_Registration ml)"
proof -
  let ?f = "frame_bytes \<lparr> fh_Length = of_nat (Suc KEY_SIZE), fh_Epoch = 0 \<rparr> (type_code MuxRegister # ml_Registration ml)"
  note f = register_frame [of "ml_Registration ml"]
  have ok: "bq_ok (ml_Output ml)" "bq_Limit (ml_Output ml) = OUTPUT_MAX" "length (ml_Registration ml) = KEY_SIZE" using assms(1) by (simp_all add: losable_def)
  obtain a q where q: "bq_Append ?f (ml_Output ml) = (a, q)" by (cases "bq_Append ?f (ml_Output ml)")
  have "a" "bq_ok q" "bq_Limit q = OUTPUT_MAX" "bq_Front q = ?f"
    using bq_AppendTo_queue [OF ok(1), of ?f "bq_Limit (ml_Output ml)"] q f(2) [OF ok(3)] assms(2) ok(2) by (auto simp: bq_Append_def)
  moreover have "?f \<noteq> []" by (simp add: frame_bytes_def)
  ultimately show ?thesis
    using assms(3) q f(1) [OF ok(3)] by (intro exI [of _ q]) (simp add: ml_Connect_def trusted_def Let_def)
qed

lemma ml_Connect_losable: "losable ml \<Longrightarrow> losable (snd (ml_Connect d ml)) \<and> (fst (ml_Connect d ml) \<longrightarrow> ml_Socket (snd (ml_Connect d ml)))"
  using bq_AppendTo_queue [of "ml_Output ml" "CleartextFrame (WriteMuxRegister \<lparr> mr_Registration = ml_Registration ml \<rparr>)" "bq_Limit (ml_Output ml)"]
  by (auto simp: ml_Connect_def losable_def Let_def bq_Append_def split: prod.splits bool.splits)

lemma link_ok_OnTimer: "link_ok ml \<Longrightarrow> link_ok (ml_OnTimer d now noise ml)"
proof -
  assume ok: "link_ok ml"
  let ?ml = "ml\<lparr>ml_RetryAt := no_deadline\<rparr>"
  have l: "losable ?ml" using ok by (simp add: link_ok_def losable_def)
  obtain b ml' where c: "ml_Connect d ?ml = (b, ml')" by (cases "ml_Connect d ?ml")
  then have "losable ml'" "b \<longrightarrow> ml_Socket ml'" using ml_Connect_losable [OF l, of d] by simp_all
  then show ?thesis
    using ok c link_ok_Close_retry [of ml'] link_ok_losable(2) [of ml'] by (cases b) (simp_all add: ml_OnTimer_def Let_def)
qed

lemma link_ok_UpdateInterest: "link_ok ml \<Longrightarrow> link_ok (ml_UpdateInterest wanted now noise ml)"
  using link_ok_Lose(1) [of "ml\<lparr>ml_Watch := True\<rparr>"] by (auto simp: ml_UpdateInterest_def Let_def link_ok_def losable_def)

lemma losable_Write: "losable ml \<Longrightarrow> ml_Socket ml \<Longrightarrow> link_ok (ml_Write rs now noise ml)"
proof (induction rs now noise ml rule: ml_Write.induct)
  case (2 r rs now noise ml)
  have "losable (ml\<lparr>ml_Output := bq_Consume n (ml_Output ml)\<rparr>)" for n
    using bq_Consume_queue [of "ml_Output ml"] "2.prems" by (simp add: losable_def)
  then show ?case
    using 2 link_ok_Lose(1) link_ok_losable(2) by (auto split: Wrote.split)
qed (simp add: link_ok_losable(2))

text \<open>What a read hands over: the descriptors in the order they came, each with the next handoff, and nothing before the
  registration is confirmed.\<close>

definition waiting :: "Received \<Rightarrow> nat list" where
  "waiting got = (case got of RecvBytes (Some f) bs \<Rightarrow> [f] | _ \<Rightarrow> [])"

lemma ml_Read_spec:
  assumes "losable ml" "ml_Socket ml" "ml_Read got now noise ml = (out, ml')"
  shows "link_ok ml'" "\<exists>rest. map ho_Socket out @ rest = ml_Descriptors ml @ waiting got \<and> (ml_Socket ml' \<longrightarrow> rest = ml_Descriptors ml')"
    "out \<noteq> [] \<Longrightarrow> ml_Socket ml' \<Longrightarrow> ml_Registered ml'"
proof -
  have "link_ok ml' \<and> (\<exists>rest. map ho_Socket out @ rest = ml_Descriptors ml @ waiting got \<and> (ml_Socket ml' \<longrightarrow> rest = ml_Descriptors ml')) \<and>
    (out \<noteq> [] \<longrightarrow> ml_Socket ml' \<longrightarrow> ml_Registered ml')"
  proof (cases "min MUX_MAX_FRAME (mfr_Room (ml_Reader ml)) = 0")
    case True
    then show ?thesis using assms link_ok_Lose [of ml] by (auto simp: ml_Read_def)
  next
    case room: False
    show ?thesis
    proof (cases got)
      case RecvBlocked
      then show ?thesis using assms room link_ok_losable(2) [of ml] by (auto simp: ml_Read_def waiting_def)
    next
      case RecvFailed
      then show ?thesis using assms room link_ok_Lose [of ml] by (auto simp: ml_Read_def waiting_def)
    next
      case (RecvBytes fd bs)
      define ml1 where "ml1 = (case fd of None \<Rightarrow> ml | Some f \<Rightarrow> ml\<lparr>ml_Descriptors := ml_Descriptors ml @ [f]\<rparr>)"
      have ml1: "losable ml1" "ml_Socket ml1" "ml_Descriptors ml1 = ml_Descriptors ml @ waiting got"
        using assms(1,2) RecvBytes by (simp_all add: ml1_def losable_def waiting_def split: option.split)
      obtain ok out2 ml2 where t: "ml_take_all (ml1\<lparr>ml_Reader := mfr_Append bs (ml_Reader ml1)\<rparr>) = (ok, out2, ml2)"
        by (cases "ml_take_all (ml1\<lparr>ml_Reader := mfr_Append bs (ml_Reader ml1)\<rparr>)")
      have s: "map ho_Socket out2 @ ml_Descriptors ml2 = ml_Descriptors ml1" "losable ml2" "ml_Socket ml2" "out2 \<noteq> [] \<longrightarrow> ml_Registered ml2"
        using ml_take_all_spec [of "ml1\<lparr>ml_Reader := mfr_Append bs (ml_Reader ml1)\<rparr>"] t ml1(1,2) by (simp_all add: losable_def)
      have r: "ml_Read got now noise ml = (if bs = [] then ([], ml_Lose now noise ml1)
          else if \<not> ok \<or> length (ml_Descriptors ml2) > MAX_WAITING_DESCRIPTORS then (out2, ml_Lose now noise ml2) else (out2, ml2))"
        unfolding ml_Read_def if_not_P [OF room] Let_def RecvBytes Received.case ml1_def [symmetric] by (simp add: t)
      show ?thesis
        using assms(3) r s ml1 link_ok_Lose [of ml1] link_ok_Lose [of ml2] link_ok_losable(2) [OF s(2,3)]
        by (auto split: if_splits)
    qed
  qed
  then show "link_ok ml'" "\<exists>rest. map ho_Socket out @ rest = ml_Descriptors ml @ waiting got \<and> (ml_Socket ml' \<longrightarrow> rest = ml_Descriptors ml')"
    "out \<noteq> [] \<Longrightarrow> ml_Socket ml' \<Longrightarrow> ml_Registered ml'" by blast+
qed

lemma link_ok_OnEvent: "link_ok ml \<Longrightarrow> link_ok (snd (ml_OnEvent event wrote got now noise noise' ml))"
proof (cases "ml_Socket ml")
  case True
  assume "link_ok ml"
  define ml1 where "ml1 = (if pe_Writable event then ml_Write wrote now noise ml else ml)"
  have "link_ok ml1" using \<open>link_ok ml\<close> losable_Write [OF link_ok_losable(1) True] by (simp add: ml1_def)
  then show ?thesis
    using True ml_Read_spec(1) [OF link_ok_losable(1), of ml1] by (simp add: ml_OnEvent_def Let_def flip: ml1_def) (metis surjective_pairing)
qed (simp add: ml_OnEvent_def)

subsection \<open>Any sequence of calls\<close>

datatype link_call = LEvent PollEvent "Wrote list" Received Timestamp u64 u64 | LTimer Dialled Timestamp u64 | LInterest bool Timestamp u64

fun ml_step :: "link_call \<Rightarrow> MuxLink \<Rightarrow> MuxLink" where
  "ml_step (LEvent event wrote got now noise noise') ml = snd (ml_OnEvent event wrote got now noise noise' ml)"
| "ml_step (LTimer d now noise) ml = ml_OnTimer d now noise ml"
| "ml_step (LInterest wanted now noise) ml = ml_UpdateInterest wanted now noise ml"

lemma link_ok_run: "link_ok ml \<Longrightarrow> link_ok (fold ml_step cs ml)"
proof (induction cs arbitrary: ml)
  case (Cons c cs)
  have "link_ok (ml_step c ml)"
    using Cons.prems by (cases c) (simp_all add: link_ok_OnEvent link_ok_OnTimer link_ok_UpdateInterest)
  then show ?case using Cons.IH by simp
qed simp


subsection \<open>When a lost link is tried again\<close>

definition scheduled :: "Timestamp \<Rightarrow> MuxLink \<Rightarrow> bool" where
  "scheduled now ml \<longleftrightarrow> (\<exists>d. ml_RetryAt ml = deadline_at d \<and> now + BACKOFF_MIN div 2 \<le> d \<and> d \<le> now + BACKOFF_MAX)"

lemma scheduled_retry [simp]: "scheduled now (ml_retry now noise ml)" "scheduled now (ml_Lose now noise ml)"
  using Backoff_bounds by (auto simp: scheduled_def ml_retry_fields ml_Lose_def)

lemma ml_Write_lost: "ml_Socket ml \<Longrightarrow> ml_Socket (ml_Write rs now noise ml) \<or> scheduled now (ml_Write rs now noise ml)"
  by (induction rs now noise ml rule: ml_Write.induct) (auto split: Wrote.split)

lemma ml_Read_lost:
  assumes "ml_Socket ml"
  shows "ml_Socket (snd (ml_Read got now noise ml)) \<or> scheduled now (snd (ml_Read got now noise ml))"
proof -
  have "ml_Socket ml'" if "ml_take_all ml1 = (ok, out, ml')" "ml_Socket ml1" for ml1 ok out ml'
    using ml_take_all_spec [of ml1] that by simp
  with assms show ?thesis
    by (auto simp: ml_Read_def Let_def split: Received.split prod.split option.split)
qed

lemma ml_OnEvent_lost:
  assumes "ml_Socket ml"
  shows "ml_Socket (snd (ml_OnEvent event wrote got now noise noise' ml)) \<or> scheduled now (snd (ml_OnEvent event wrote got now noise noise' ml))"
  using assms ml_Write_lost [OF assms, of wrote now noise] ml_Read_lost by (auto simp: ml_OnEvent_def Let_def)

fun call_time :: "link_call \<Rightarrow> Timestamp" where
  "call_time (LEvent event wrote got now noise noise') = now"
| "call_time (LTimer d now noise) = now"
| "call_time (LInterest wanted now noise) = now"

lemma link_step_lost:
  assumes "\<not> ml_Socket (ml_step c ml)"
  shows "(\<not> ml_Socket ml \<and> ml_RetryAt (ml_step c ml) = ml_RetryAt ml) \<or> scheduled (call_time c) (ml_step c ml)"
proof (cases c)
  case (LEvent event wrote got now noise noise')
  show ?thesis
  proof (cases "ml_Socket ml")
    case True
    then show ?thesis using ml_OnEvent_lost [OF True] assms LEvent by force
  next
    case False
    then show ?thesis using LEvent by (simp add: ml_OnEvent_def)
  qed
next
  case (LTimer d now noise)
  have "ml_Socket ml'" if "ml_Connect d ml1 = (True, ml')" for ml1 ml'
    using that by (auto simp: ml_Connect_def Let_def split: prod.splits if_splits bool.splits)
  then show ?thesis using assms LTimer by (auto simp: ml_OnTimer_def Let_def split: prod.splits bool.splits if_splits)
next
  case (LInterest wanted now noise)
  then show ?thesis using assms by (auto simp: ml_UpdateInterest_def Let_def)
qed

lemma link_run_scheduled:
  assumes "ml_Socket ml" "\<not> ml_Socket (fold ml_step cs ml)"
  shows "\<exists>c\<in>set cs. scheduled (call_time c) (fold ml_step cs ml)"
  using assms(2)
proof (induction cs rule: rev_induct)
  case (snoc c cs)
  then show ?case using link_step_lost [of c "fold ml_step cs ml"] by (auto simp: scheduled_def)
qed (simp add: assms(1))

lemma ml_Read_registration: "ml_Registration (snd (ml_Read got now noise ml)) = ml_Registration ml"
proof -
  have "ml_Registration (ml_Lose now noise ml1) = ml_Registration ml1" for ml1 by (simp add: ml_Lose_def ml_retry_fields ml_Close_def)
  moreover have "ml_Registration ml' = ml_Registration ml1" if "ml_take_all ml1 = (ok, out, ml')" for ml1 ok out ml'
    using ml_take_all_spec [of ml1] that by simp
  ultimately show ?thesis
    by (auto simp: ml_Read_def Let_def split: Received.split prod.split option.split)
qed

lemma ml_Write_registration: "ml_Registration (ml_Write rs now noise ml) = ml_Registration ml"
  by (induction rs now noise ml rule: ml_Write.induct) (auto simp: ml_Lose_def ml_retry_fields ml_Close_def split: Wrote.split)

lemma link_step_registration: "ml_Registration (ml_step c ml) = ml_Registration ml"
proof (cases c)
  case (LTimer d now noise)
  have "ml_Registration (snd (ml_Connect d ml1)) = ml_Registration ml1" for ml1
    by (auto simp: ml_Connect_def Let_def split: prod.splits bool.splits)
  from this [of "ml\<lparr>ml_RetryAt := no_deadline\<rparr>"] show ?thesis
    unfolding LTimer by (auto simp: ml_OnTimer_def Let_def ml_retry_fields ml_Close_def split: prod.splits bool.splits)
qed (simp_all add: ml_OnEvent_def ml_UpdateInterest_def Let_def ml_Read_registration ml_Write_registration ml_Lose_def ml_retry_fields ml_Close_def)

lemma link_run_registration: "ml_Registration (fold ml_step cs ml) = ml_Registration ml"
  by (induction cs arbitrary: ml) (simp_all add: link_step_registration)

text \<open>The link as it is once it has reached a router.\<close>

lemma connected_ok:
  assumes "length reg = KEY_SIZE" "trusted d"
  shows "link_ok (snd (ml_Connect d (mk_MuxLink reg)))" "ml_Socket (snd (ml_Connect d (mk_MuxLink reg)))"
    "ml_Registration (snd (ml_Connect d (mk_MuxLink reg))) = reg"
proof -
  have "losable (mk_MuxLink reg)" "bq_Front (ml_Output (mk_MuxLink reg)) = []"
    using assms(1) by (simp_all add: losable_def mk_MuxLink_def mk_ByteQueue_def bq_ok_def bq_Front_def)
  from ml_Connect_trusted [OF this assms(2)] show "link_ok (snd (ml_Connect d (mk_MuxLink reg)))" "ml_Socket (snd (ml_Connect d (mk_MuxLink reg)))"
    "ml_Registration (snd (ml_Connect d (mk_MuxLink reg))) = reg"
    using assms(1) by (auto simp: link_ok_def mk_MuxLink_def)
qed


subsection \<open>A connection handed over\<close>

text \<open>Reads of a connected link, one after another, with what they hand over.\<close>

fun link_reads :: "(Received \<times> Timestamp \<times> u64) list \<Rightarrow> MuxLink \<Rightarrow> HandedOver list \<times> MuxLink" where
  "link_reads [] ml = ([], ml)"
| "link_reads ((got, now, noise) # rs) ml =
    (if \<not> ml_Socket ml then ([], ml)
     else case ml_Read got now noise ml of (out, ml) \<Rightarrow> case link_reads rs ml of (out', ml) \<Rightarrow> (out @ out', ml))"

lemma link_reads_order:
  assumes "link_ok ml" "ml_Socket ml"
  shows "\<exists>rest. map ho_Socket (fst (link_reads rs ml)) @ rest = ml_Descriptors ml @ concat (map (\<lambda>r. waiting (fst r)) rs)"
  using assms
proof (induction rs arbitrary: ml)
  case (Cons r rs)
  obtain got now noise where r: "r = (got, now, noise)" by (cases r)
  obtain out ml1 where m: "ml_Read got now noise ml = (out, ml1)" by (cases "ml_Read got now noise ml")
  from ml_Read_spec(1,2) [OF link_ok_losable(1) [OF Cons.prems(1)] Cons.prems(2) m]
  obtain rest where s: "link_ok ml1" "map ho_Socket out @ rest = ml_Descriptors ml @ waiting got" "ml_Socket ml1 \<longrightarrow> rest = ml_Descriptors ml1"
    by blast
  show ?case
  proof (cases "ml_Socket ml1")
    case True
    from Cons.IH [OF s(1) True] obtain rest' where
      "map ho_Socket (fst (link_reads rs ml1)) @ rest' = ml_Descriptors ml1 @ concat (map (\<lambda>r. waiting (fst r)) rs)" by blast
    then have "map ho_Socket (fst (link_reads (r # rs) ml)) @ rest' = ml_Descriptors ml @ waiting got @ concat (map (\<lambda>r. waiting (fst r)) rs)"
      using s True Cons.prems(2) m r by (simp add: case_prod_unfold)
    then show ?thesis using r by auto
  next
    case False
    then have "link_reads rs ml1 = ([], ml1)" by (cases rs) auto
    then have "map ho_Socket (fst (link_reads (r # rs) ml)) @ rest @ concat (map (\<lambda>r. waiting (fst r)) rs) = ml_Descriptors ml @ waiting got @ concat (map (\<lambda>r. waiting (fst r)) rs)"
      using s(2) Cons.prems(2) m r by (simp add: append_assoc [symmetric] del: append_assoc)
    then show ?thesis unfolding r list.map concat.simps fst_conv by blast
  qed
qed simp

lemma mfr_Next_prefix:
  assumes "frame_bytes \<lparr> fh_Length = of_nat (length body), fh_Epoch = 0 \<rparr> body = p @ q" "q \<noteq> []" "length body \<le> MUX_MAX_BODY"
  shows "mfr_Next p = (Inr None, p)"
proof -
  have len: "unat (of_nat (length body) :: u32) = length body" "MUX_MAX_BODY < 2 ^ 32"
    using assms(3) by (auto simp: MUX_MAX_BODY_def size_defs unat_of_nat)
  have "ReadFrame p (of_nat MUX_MAX_BODY) = Inl Truncated"
  proof (cases "length p < HEADER_SIZE")
    case False
    let ?h = "\<lparr> fh_Length = of_nat (length body), fh_Epoch = 0 \<rparr>"
    define r where "r = drop HEADER_SIZE p"
    have t: "take HEADER_SIZE (frame_bytes ?h body) = take HEADER_SIZE p" and d: "drop HEADER_SIZE (frame_bytes ?h body) = r @ q"
      unfolding assms(1) r_def using False by simp_all
    from t have "header_bytes ?h = take HEADER_SIZE p" by (simp add: frame_bytes_def)
    then have r: "p = header_bytes ?h @ r" by (simp add: r_def)
    from d have body: "body = r @ q" by (simp add: frame_bytes_def)
    have "body \<noteq> []" using body assms(2) by simp
    then have "(of_nat (length body) :: u32) \<noteq> 0" using len(1) by (metis length_0_conv unat_0)
    moreover have "\<not> (of_nat (length body) :: u32) > of_nat MUX_MAX_BODY"
      using assms(3) len by (simp add: word_less_nat_alt unat_of_nat)
    moreover have "length r < length body" using body assms(2) by simp
    ultimately show ?thesis unfolding r ReadFrame_header using len(1) by simp
  qed (rule ReadFrame_short)
  then show ?thesis by (simp add: mfr_Next_def)
qed


text \<open>The frame of a handoff, and what the link makes of it.\<close>

abbreviation handoff_body :: "MuxHandoffMessage \<Rightarrow> bytes" where
  "handoff_body m \<equiv> type_code MuxHandoff # MuxHandoff_body m"

lemma handoff_frame:
  assumes "MuxHandoff_ok m"
  shows "CleartextFrame (WriteMuxHandoff m) = frame_bytes \<lparr> fh_Length = of_nat (length (handoff_body m)), fh_Epoch = 0 \<rparr> (handoff_body m)"
    and "length (handoff_body m) \<le> MUX_MAX_BODY"
proof -
  show l: "length (handoff_body m) \<le> MUX_MAX_BODY"
    using assms by (simp add: MuxHandoff_ok_def MuxHandoff_body_def MUX_MAX_BODY_def)
  show "CleartextFrame (WriteMuxHandoff m) = frame_bytes \<lparr> fh_Length = of_nat (length (handoff_body m)), fh_Epoch = 0 \<rparr> (handoff_body m)"
    by (rule CleartextFrame_bytes [OF writes_WriteMuxHandoff [OF assms] l])
qed

lemma handoff_length:
  assumes "MuxHandoff_ok m" "r @ c = CleartextFrame (WriteMuxHandoff m)"
  shows "length r < CAPACITY"
proof -
  have "length (r @ c) \<le> MUX_MAX_FRAME"
    unfolding assms(2) using handoff_frame [OF assms(1)] by (simp add: frame_bytes_def MUX_MAX_FRAME_def)
  then show ?thesis by (simp add: CAPACITY_def MUX_MAX_FRAME_def MUX_MAX_BODY_def)
qed

lemma ml_Take_handoff:
  assumes "MuxHandoff_ok m" "ml_Registered ml" "ml_Descriptors ml = fd # fds"
  shows "ml_Take (handoff_body m) ml = (True, [\<lparr> ho_Socket = fd, ho_Prefix = mh_Prefix m \<rparr>], ml\<lparr>ml_Descriptors := fds\<rparr>)"
proof -
  have ty: "ParseMessageType (mk_reader (handoff_body m)) = (Inr MuxHandoff, rd_at [type_code MuxHandoff] (MuxHandoff_body m))"
    using parses_ParseMessageType [of MuxHandoff] unfolding parses_def mk_reader_rd_at by (metis append_Cons append_Nil)
  have "ParseMuxHandoff (rd_at [type_code MuxHandoff] (MuxHandoff_body m)) = (Inr m, rd_at ([type_code MuxHandoff] @ MuxHandoff_body m) [])"
    using muxhandoff.parse_ok [OF assms(1)] unfolding parses_all_def by blast
  then show ?thesis unfolding ml_Take_def ty using assms(2,3) by simp
qed

lemma ml_take_all_handoff:
  assumes "MuxHandoff_ok m" "ml_Registered ml" "ml_Descriptors ml = [fd]" "ml_Reader ml = CleartextFrame (WriteMuxHandoff m)"
  shows "ml_take_all ml = (True, [\<lparr> ho_Socket = fd, ho_Prefix = mh_Prefix m \<rparr>], ml\<lparr>ml_Reader := [], ml_Descriptors := []\<rparr>)"
proof -
  have n: "mfr_Next (ml_Reader ml) = (Inr (Some (handoff_body m)), [])"
    using mfr_Next_frame [of "handoff_body m" "[]"] handoff_frame [OF assms(1)] by (simp add: assms(4))
  have e: "mfr_Next [] = (Inr None, [])" by (simp add: mfr_Next_def ReadFrame_short size_defs)
  have "ml_take_all (ml\<lparr>ml_Reader := [], ml_Descriptors := []\<rparr>) = (True, [], ml\<lparr>ml_Reader := [], ml_Descriptors := []\<rparr>)"
    by (subst ml_take_all.simps) (simp add: e)
  then show ?thesis
    using ml_Take_handoff [OF assms(1), of "ml\<lparr>ml_Reader := []\<rparr>" fd "[]"] assms(2,3) by (subst ml_take_all.simps) (simp add: n)
qed

lemma ml_take_all_partial:
  assumes "MuxHandoff_ok m" "CleartextFrame (WriteMuxHandoff m) = ml_Reader ml @ q" "q \<noteq> []"
  shows "ml_take_all ml = (True, [], ml)"
  using mfr_Next_prefix [OF _ assms(3), of "handoff_body m" "ml_Reader ml"] handoff_frame [OF assms(1)] assms(2)
  by (subst ml_take_all.simps) simp

text \<open>One read that leaves the link connected.\<close>

lemma ml_Read_bytes:
  assumes "bs \<noteq> []" "length (ml_Reader ml) < CAPACITY"
    and "ml_take_all (ml\<lparr>ml_Descriptors := ml_Descriptors ml @ waiting (RecvBytes fdo bs), ml_Reader := ml_Reader ml @ bs\<rparr>) = (True, out, ml')"
    and "length (ml_Descriptors ml') \<le> MAX_WAITING_DESCRIPTORS"
  shows "ml_Read (RecvBytes fdo bs) now noise ml = (out, ml')"
proof -
  have room: "\<not> min MUX_MAX_FRAME (mfr_Room (ml_Reader ml)) = 0"
    using assms(2) by (simp add: mfr_Room_def MUX_MAX_FRAME_def MUX_MAX_BODY_def)
  show ?thesis
    unfolding ml_Read_def if_not_P [OF room] using assms(1,3,4) by (cases fdo) (simp_all add: Let_def waiting_def mfr_Append_def)
qed

text \<open>The descriptor rides on the first read; the frame may come in any number of pieces.\<close>

lemma handoff_pieces:
  assumes "MuxHandoff_ok m" "ml_Socket ml" "ml_Registered ml" "ml_Descriptors ml @ waiting (RecvBytes fdo c) = [fd]"
    and "ml_Reader ml @ concat (c # cs) = CleartextFrame (WriteMuxHandoff m)" "[] \<notin> set (c # cs)"
    and "map fst rs = RecvBytes fdo c # map (RecvBytes None) cs"
  shows "link_reads rs ml = ([\<lparr> ho_Socket = fd, ho_Prefix = mh_Prefix m \<rparr>], ml\<lparr>ml_Reader := [], ml_Descriptors := []\<rparr>)"
  using assms(2-)
proof (induction cs arbitrary: ml fdo c rs)
  case (Nil ml fdo c rs)
  then obtain now noise where rs: "rs = [(RecvBytes fdo c, now, noise)]" by auto
  let ?ml = "ml\<lparr>ml_Descriptors := ml_Descriptors ml @ waiting (RecvBytes fdo c), ml_Reader := ml_Reader ml @ c\<rparr>"
  have "ml_take_all ?ml = (True, [\<lparr> ho_Socket = fd, ho_Prefix = mh_Prefix m \<rparr>], ml\<lparr>ml_Reader := [], ml_Descriptors := []\<rparr>)"
    using ml_take_all_handoff [OF assms(1), of ?ml fd] Nil.prems by simp
  from ml_Read_bytes [OF _ _ this] have "ml_Read (RecvBytes fdo c) now noise ml = ([\<lparr> ho_Socket = fd, ho_Prefix = mh_Prefix m \<rparr>], ml\<lparr>ml_Reader := [], ml_Descriptors := []\<rparr>)"
    using Nil.prems handoff_length [OF assms(1)] by simp
  then show ?case using rs Nil.prems by simp
next
  case (Cons c' cs ml fdo c rs)
  then obtain now noise rs' where rs: "rs = (RecvBytes fdo c, now, noise) # rs'" "map fst rs' = RecvBytes None c' # map (RecvBytes None) cs" by auto
  let ?ml = "ml\<lparr>ml_Descriptors := ml_Descriptors ml @ waiting (RecvBytes fdo c), ml_Reader := ml_Reader ml @ c\<rparr>"
  have "ml_take_all ?ml = (True, [], ?ml)"
    using ml_take_all_partial [OF assms(1), of ?ml "concat (c' # cs)"] Cons.prems by auto
  from ml_Read_bytes [OF _ _ this] have "ml_Read (RecvBytes fdo c) now noise ml = ([], ?ml)"
    using Cons.prems handoff_length [OF assms(1)] by (auto simp: MAX_WAITING_DESCRIPTORS_def)
  moreover have "link_reads rs' ?ml = ([\<lparr> ho_Socket = fd, ho_Prefix = mh_Prefix m \<rparr>], ?ml\<lparr>ml_Reader := [], ml_Descriptors := []\<rparr>)"
    using Cons.prems rs by (intro Cons.IH [of ?ml None c']) (simp_all add: waiting_def)
  ultimately show ?case using rs Cons.prems by simp
qed

end
