(* ===== verification/Agent_Properties.thy ===== *)
theory Agent_Properties
  imports Agent_Grid_Pump Agent_Mux_Link Grid_Properties
begin

text \<open>
  What the agent's terminal and the pure parts of the programs promise.
\<close>

subsection \<open>Snapshots for clients\<close>

definition example_pump :: "SnapWait option \<Rightarrow> VtParser \<Rightarrow> GridPump" where
  "example_pump sw p = \<lparr> gp_Grid = example_grid, gp_Parser = p, gp_TotalGridBytes = 0, gp_SnapWait = sw, gp_Snap = None \<rparr>"

text \<open>What a client is sent is what the agent's terminal shows: when a snapshot is supplied the parser is
  between sequences, and a new terminal of the size of the agent's grid that is fed the supplied bytes shows what the
  agent's grid shows.\<close>

theorem supplied_snapshot_restores:
  assumes "TryBuild ralloc salloc now gp = (Inr (Some r), gp')" and "gp_Snap gp' = Some s" and "sn_Degradation s \<noteq> RowsCropped"
    and "restorable (gp_Grid gp')" and "g_Create alloc (gr_Cols (gp_Grid gp')) (gr_Rows (gp_Grid gp')) limit = Inr t"
    and "gr_HistorySize (gp_Grid gp') \<le> limit"
  shows "InGround gp' \<and> \<not> HasPendingSnap gp' \<and> (\<exists>n \<le> gr_HistorySize (gp_Grid gp').
    (sn_Degradation s = NoDegradation \<longrightarrow> n = gr_HistorySize (gp_Grid gp')) \<and>
    restored (degraded_colors (sn_Degradation s)) n (gp_Grid gp') (snd (Feed (sr_Bytes r) (mk_VtParser, t))))"
proof -
  obtain s' g where *: "sn_Create salloc g 0 = Inr s'" "sr_Bytes r = sn_Bytes s'" "gp_Snap gp' = Some s'"
      "gp_Grid gp' = SetPossiblyDiverged False g" "InGround gp'" "\<not> HasPendingSnap gp'"
    using TryBuild_ready [OF assms(1)] by blast
  then have s: "s' = s" using assms(2) by simp
  from snapshot_restores [of g salloc 0 s alloc limit t] show ?thesis
    using assms(3-6) * unfolding s by (simp add: diverged_irrelevant) blast
qed

theorem supplied_snapshot_restores_witness:
  "InGround (snd (TryBuild (\<lambda>_. True) (\<lambda>_. True) 0 (example_pump (Some \<lparr> sw_Deadline = 5, sw_BytesCap = 9, sw_Rows = 4, sw_Cols = 8 \<rparr>) mk_VtParser)))"
proof -
  let ?sw = "\<lparr> sw_Deadline = 5, sw_BytesCap = 9, sw_Rows = 4, sw_Cols = 8 \<rparr>"
  let ?gp = "example_pump (Some ?sw) mk_VtParser"
  have ground: "InGround ?gp" by (simp add: InGround_def example_pump_def mk_VtParser_def vt_Reset_def)
  then have t: "TryBuild (\<lambda>_. True) (\<lambda>_. True) 0 ?gp = take_snapshot (\<lambda>_. True) ?gp"
    by (simp add: TryBuild_def DoBuild_def example_pump_def example_grid_fields)
  obtain r gp' s where *: "take_snapshot (\<lambda>_. True) ?gp = (Inr (Some r), gp')" "gp_Snap gp' = Some s" "sn_Degradation s = NoDegradation"
      "gp_Grid gp' = SetPossiblyDiverged False example_grid"
    using example_snapshot by (simp add: take_snapshot_def example_pump_def)
  then have "restorable (gp_Grid gp')" "g_Create (\<lambda>_. True) (gr_Cols (gp_Grid gp')) (gr_Rows (gp_Grid gp')) 2 = Inr example_grid"
      "gr_HistorySize (gp_Grid gp') \<le> 2"
    using example_restorable example_grid_created by (simp_all add: diverged_irrelevant example_grid_fields)
  with supplied_snapshot_restores [of "\<lambda>_. True" "\<lambda>_. True" 0 ?gp r gp' s] * t show ?thesis by simp
qed






subsection \<open>The client's escape\<close>

text \<open>However the keys a user types are cut into reads, the client sends the session exactly what the
  description of the escape says of the whole input: a tilde at the start of a line is held until the next key, \<open>~.\<close>
  ends the session there, \<open>~~\<close> is one tilde, and everything else passes unchanged; no key is lost to the buffer.\<close>

theorem escape_whatever_the_reads:
  assumes "\<forall>c\<in>set reads. length c \<le> stdinChunk"
  shows "scan_reads stdinChunk reads mk_EscapeScanner = unescape True (concat reads)"
  using scan_reads_run [OF assms] es_run_unescape [of True "concat reads"] by (simp add: mk_EscapeScanner_def)

theorem escape_whatever_the_reads_witness:
  "scan_reads 4 [[0x61, 0x0D, 0x7E], [0x7E, 0x62], [0x0D], [0x7E], [0x2E, 0x63]] mk_EscapeScanner = ([0x61, 0x0D, 0x7E, 0x62, 0x0D], True)"
proof -
  have "unescape True (concat [[0x61, 0x0D, 0x7E], [0x7E, 0x62], [0x0D], [0x7E], [0x2E, 0x63]]) = ([0x61, 0x0D, 0x7E, 0x62, 0x0D], True)"
    by (simp add: TILDE_def DOT_def CR_def LF_def)
  then show ?thesis
    using escape_whatever_the_reads [of "[[0x61, 0x0D, 0x7E], [0x7E, 0x62], [0x0D], [0x7E], [0x2E, 0x63]]" 4] by simp
qed

subsection \<open>The link to the router\<close>

definition example_dial :: Dialled where
  "example_dial = \<lparr> di_Connected = True, di_SocketStat = Some \<lparr> st_IsSocket = True, st_IsDir = False, st_Uid = 7, st_ForeignWrite = False \<rparr>,
     di_DirectoryStat = Some \<lparr> st_IsSocket = False, st_IsDir = True, st_Uid = 0, st_ForeignWrite = False \<rparr>, di_Peer = Some 7 \<rparr>"

lemma example_dial_trusted: "trusted example_dial"
  by (simp add: trusted_def example_dial_def CheckPeer_def)

abbreviation connected :: "bytes \<Rightarrow> Dialled \<Rightarrow> MuxLink" where
  "connected reg d \<equiv> snd (ml_Connect d (mk_MuxLink reg))"

text \<open>A link that has reached the router is never given up: whatever the socket, the poller and the router
  do afterwards, the link has a socket, or it is empty, unregistered and the event loop is given a deadline to try again,
  which is at least half the smallest and at most the largest backoff after the call that lost it or failed to bring it back.\<close>

theorem link_never_given_up:
  fixes cs :: "link_call list"
  assumes "length reg = KEY_SIZE" and "trusted d"
  defines "ml \<equiv> fold ml_step cs (connected reg d)"
  shows "ml_Socket ml \<or> (\<not> ml_Registered ml \<and> ml_Descriptors ml = [] \<and> bq_Front (ml_Output ml) = [] \<and>
    (\<exists>c\<in>set cs. \<exists>t. ml_NextDeadline ml = deadline_at t \<and> call_time c + BACKOFF_MIN div 2 \<le> t \<and> t \<le> call_time c + BACKOFF_MAX))"
proof (cases "ml_Socket ml")
  case False
  have "link_ok ml" unfolding ml_def by (rule link_ok_run [OF connected_ok(1) [OF assms(1,2)]])
  moreover have "\<exists>c\<in>set cs. scheduled (call_time c) ml"
    using link_run_scheduled [OF connected_ok(2) [OF assms(1,2)]] False by (simp add: ml_def)
  ultimately show ?thesis using False by (auto simp: link_ok_def scheduled_def ml_NextDeadline_def)
qed simp

theorem link_never_given_up_witness:
  "let ml = fold ml_step [LInterest False 100 0] (connected (replicate 32 7) example_dial)
   in ml_Socket ml \<or> ml_NextDeadline ml \<noteq> no_deadline"
  using link_never_given_up [where reg = "replicate 32 7" and d = example_dial and cs = "[LInterest False 100 0]"] example_dial_trusted
  by (auto simp: Let_def KEY_SIZE_def deadline_at_def no_deadline_def)

text \<open>C28 (liveness). A lost link comes back: after any history, once the deadline the link gave has passed, a router that
  answers and passes the check of its peer is connected to at once, and what goes out first is the registration, as one
  frame, with nothing left of the connection before.\<close>

theorem lost_link_comes_back:
  fixes cs :: "link_call list"
  assumes "length reg = KEY_SIZE" and "trusted d" and "trusted d'"
  defines "ml \<equiv> fold ml_step cs (connected reg d)"
  assumes "\<not> ml_Socket ml" and "HasExpired (ml_NextDeadline ml) now"
  shows "ml_Socket (ml_OnTimer d' now noise ml) \<and> ml_Reader (ml_OnTimer d' now noise ml) = [] \<and> ml_Descriptors (ml_OnTimer d' now noise ml) = [] \<and>
    bq_Front (ml_Output (ml_OnTimer d' now noise ml)) = CleartextFrame (WriteMuxRegister \<lparr> mr_Registration = reg \<rparr>)"
proof -
  have "link_ok ml" unfolding ml_def by (rule link_ok_run [OF connected_ok(1) [OF assms(1,2)]])
  then have ok: "losable (ml\<lparr>ml_RetryAt := no_deadline\<rparr>)" "bq_Front (ml_Output (ml\<lparr>ml_RetryAt := no_deadline\<rparr>)) = []"
    using assms(5) by (simp_all add: link_ok_def losable_def)
  have reg: "ml_Registration ml = reg"
    unfolding ml_def using link_run_registration connected_ok(3) [OF assms(1,2)] by simp
  from ml_Connect_trusted [OF ok assms(3)] show ?thesis
    using assms(5,6) register_frame(1) [OF assms(1)] by (auto simp: ml_OnTimer_def ml_NextDeadline_def Let_def reg)
qed

theorem lost_link_comes_back_witness:
  "ml_Socket (ml_OnTimer example_dial (10 ^ 12) 3 (fold ml_step [LInterest False 100 0] (connected (replicate 32 7) example_dial)))"
proof -
  let ?c = "connected (replicate 32 7) example_dial"
  let ?ml = "fold ml_step [LInterest False 100 0] ?c"
  have k: "length (replicate 32 (7 :: byte)) = KEY_SIZE" by (simp add: KEY_SIZE_def)
  note c = connected_ok [OF k example_dial_trusted]
  have ml: "?ml = ml_Lose 100 0 (?c\<lparr>ml_Watch := True\<rparr>)" using c(2) by (simp add: ml_UpdateInterest_def Let_def)
  have "losable (?c\<lparr>ml_Watch := True\<rparr>)" using link_ok_losable(1) [OF c(1)] by (simp add: losable_def)
  then have lost: "\<not> ml_Socket ?ml" unfolding ml by (rule link_ok_Lose(2))
  obtain t where "ml_RetryAt ?ml = deadline_at t" "t \<le> 100 + BACKOFF_MAX"
    using scheduled_retry(2) [of 100 0 "?c\<lparr>ml_Watch := True\<rparr>"] unfolding ml by (auto simp: scheduled_def)
  then have "HasExpired (ml_NextDeadline ?ml) (10 ^ 12)" using lost by (simp add: ml_NextDeadline_def BACKOFF_MAX_def)
  with lost_link_comes_back [OF k example_dial_trusted example_dial_trusted lost] show ?thesis by blast
qed

text \<open>C26 (functional). A connection the router hands over arrives: on a registered link with nothing pending, the frame of
  the handoff in any pieces, with the descriptor on the first of them, makes the link hand over exactly that descriptor
  with exactly the bytes the router had read from the client, and leaves nothing behind.\<close>

theorem handoff_arrives:
  assumes "ml_Socket ml" and "ml_Registered ml" and "ml_Reader ml = []" and "ml_Descriptors ml = []" and "MuxHandoff_ok m"
    and "concat (c # cs) = CleartextFrame (WriteMuxHandoff m)" and "[] \<notin> set (c # cs)"
    and "map fst reads = RecvBytes (Some fd) c # map (RecvBytes None) cs"
  shows "link_reads reads ml = ([\<lparr> ho_Socket = fd, ho_Prefix = mh_Prefix m \<rparr>], ml)"
proof -
  have "ml\<lparr>ml_Reader := [], ml_Descriptors := []\<rparr> = ml" using assms(3,4) by (cases ml) simp
  then show ?thesis
    using handoff_pieces [OF assms(5,1,2) _ _ assms(7,8), of fd] assms(3,4,6) by (simp add: waiting_def)
qed

theorem handoff_arrives_witness:
  "let ml = (mk_MuxLink [])\<lparr>ml_Socket := True, ml_Registered := True\<rparr>; frame = CleartextFrame (WriteMuxHandoff \<lparr> mh_Prefix = [1, 2] \<rparr>)
   in link_reads [(RecvBytes (Some 9) (take 3 frame), 0, 0), (RecvBytes None (drop 3 frame), 1, 0)] ml =
     ([\<lparr> ho_Socket = 9, ho_Prefix = [1, 2] \<rparr>], ml)"
proof -
  let ?m = "\<lparr> mh_Prefix = [1, 2] \<rparr>" and ?ml = "(mk_MuxLink [])\<lparr>ml_Socket := True, ml_Registered := True\<rparr>"
  have ok: "MuxHandoff_ok ?m" by (simp add: MuxHandoff_ok_def size_defs)
  have "length (CleartextFrame (WriteMuxHandoff ?m)) = 10"
    unfolding handoff_frame(1) [OF ok] by (simp add: frame_bytes_def MuxHandoff_body_def HEADER_SIZE_def)
  then have "take 3 (CleartextFrame (WriteMuxHandoff ?m)) \<noteq> []" "drop 3 (CleartextFrame (WriteMuxHandoff ?m)) \<noteq> []" by auto
  with handoff_arrives [of ?ml ?m "take 3 (CleartextFrame (WriteMuxHandoff ?m))" "[drop 3 (CleartextFrame (WriteMuxHandoff ?m))]"
      "[(RecvBytes (Some 9) (take 3 (CleartextFrame (WriteMuxHandoff ?m))), 0, 0), (RecvBytes None (drop 3 (CleartextFrame (WriteMuxHandoff ?m))), 1, 0)]" 9] ok
  show ?thesis by (simp add: Let_def mk_MuxLink_def)
qed

end
