(* ===== verification/Spec2Isabelle.thy ===== *)
theory Spec2Isabelle
  imports Wire_Properties Session_Properties Bootstrap_Properties Connection_Properties Grid_Properties Agent_Properties
begin

text \<open>
  A verification library of \<^verbatim>\<open>zet\<close>, a resumable terminal session over TCP: a client and an agent
  share a session that survives the loss of its connections; every byte of each direction is
  delivered exactly once and in order, over connections authenticated and sealed with keys derived
  from the session's secret, and a client that lost too much output is resynchronised with a snapshot
  of the terminal. A session is set up over a login shell (the bootstrap) and, on a host with many
  agents, its connections reach their agent through a router that reads only the session id.

  \<^bold>\<open>The program and the theories.\<close> The sources are under \<^verbatim>\<open>src/\<close>, one directory per layer, each using
  only those before it.

  \<^item> \<open>Prelude\<close>: byte strings, buffers, the state-and-error results all operations share.
  \<^item> \<^verbatim>\<open>core\<close>: \<open>Core_Bytes\<close> (\<^verbatim>\<open>byte_reader.cpp\<close>, \<^verbatim>\<open>byte_writer.cpp\<close>, \<^verbatim>\<open>error.hpp\<close>), \<open>Core_Time\<close>
    (\<^verbatim>\<open>time.hpp\<close>), \<open>Core_Shell\<close> (\<^verbatim>\<open>shell_quote.cpp\<close>).
  \<^item> \<^verbatim>\<open>crypto\<close>: \<open>Crypto\<close> (\<^verbatim>\<open>crypto.cpp\<close>, and \<^verbatim>\<open>wire/key_schedule.cpp\<close> on top of it). libsodium is the
    record \<open>sodium\<close>, an argument of every definition that calls it; \<open>Example_Sodium\<close> is an instance
    that meets the laws assumed of it.
  \<^item> \<^verbatim>\<open>wire\<close>: \<open>Wire_Frame\<close> (frames and their reassembly), \<open>Wire_Message\<close> and
    \<open>Wire_Session_Message\<close> (every message with its writer and parser, as interpretations of the locales
    \<open>message_codec\<close> and \<open>checked_codec\<close>), \<open>Wire_Armor\<close> and \<open>Wire_Probe\<close> (what crosses a login shell
    amid its noise), \<open>Wire_Seal\<close> (sealed frames), \<open>Wire_Handshake\<close> and \<open>Wire_Automata\<close> (the handshake).
  \<^item> \<^verbatim>\<open>session\<close>: \<open>Session_Buffer\<close> (the resend ring and the receive cursor), \<open>Session_Stream\<close> (the life of
    a session), \<open>Session_Link\<close> (one direction over connections that come and go, as a step relation;
    the locale \<open>resend_queue\<close> is what it relies on), \<open>Session_Channel\<close> (the sealed traffic of one
    connection), \<open>Session_Transfer\<close> (two channels talking to each other), \<open>Session_Ends\<close>
    (\<^verbatim>\<open>agent_session.cpp\<close> and \<^verbatim>\<open>client_session.cpp\<close>: what each end keeps across connections, and the
    ratchet of the seed as a step relation), \<open>Session_Connection\<close> (\<^verbatim>\<open>connection.cpp\<close>: one connection from
    its first byte to its last, on either end), \<open>Session_Guard\<close> (what an agent's connection can do to its
    session over arbitrary sequences of calls), \<open>Session_Admission\<close> (what the peer of an agent's connection must have sent before
    the session changes), \<open>Session_Resume\<close> (a whole reconnection of two honest
    ends), \<open>Session_Bootstrap\<close> (\<^verbatim>\<open>bootstrap.cpp\<close>) and \<open>Session_Mux\<close> (\<^verbatim>\<open>mux_router.cpp\<close>).
  \<^item> \<^verbatim>\<open>grid\<close>, the terminal the agent keeps of its session: \<open>Grid_Unicode\<close> (\<^verbatim>\<open>unicode_tables.cpp\<close>), \<open>Grid_Screen\<close>
    (\<^verbatim>\<open>grid.cpp\<close>: the cells, both screens, the scrollback ring and every operation on them), \<open>Grid_Parser\<close>
    (\<^verbatim>\<open>vt_parser.cpp\<close>) and \<open>Grid_Snapshot\<close> (\<^verbatim>\<open>snapshot.cpp\<close>: the escape sequences a snapshot consists of, and the
    ladder of degradations that keeps it under its cap). \<open>Grid_Rows\<close> and \<open>Grid_Invariant\<close> hold the invariant of
    a row and of a grid, \<open>Grid_Scrollback\<close> the ring as a bounded queue and the resize, \<open>Grid_Terminal\<close> parser
    and grid together. That a snapshot restores the terminal is built up in steps: \<open>Grid_Codec\<close> (characters),
    \<open>Grid_Sequences\<close> (control sequences and renditions), \<open>Grid_Paint\<close> (rows and screens), \<open>Grid_Restore\<close> (the scrollback,
    saved cursors, modes and tab stops) and \<open>Grid_Roundtrip\<close> (the pending wrap, the alternate screen and the whole
    encoding). \<open>Grid_Ladder\<close> is about the choice of a degradation, \<open>Grid_Queue\<close> about scrolling into the scrollback,
    \<open>Grid_Resize\<close> about the text a resize keeps.
  \<^item> The programs, as far as they are not system calls: \<open>App_Helpers\<close> (\<^verbatim>\<open>client/escape.cpp\<close>, \<^verbatim>\<open>app/byte_queue.cpp\<close>,
    \<^verbatim>\<open>app/mux_frames.cpp\<close>, \<^verbatim>\<open>app/env.cpp\<close>, the digest of \<^verbatim>\<open>client/deliver.cpp\<close>), \<open>Agent_Grid_Pump\<close> (\<^verbatim>\<open>agent/grid_pump.cpp\<close>: when a
    snapshot is taken for a client) and \<open>Agent_Mux_Link\<close> (\<^verbatim>\<open>agent/mux_link.cpp\<close>: the agent's link to the router, with what the
    system calls answer as arguments).
  \<^item> \<open>Wire_Properties\<close>, \<open>Session_Properties\<close>, \<open>Connection_Properties\<close>, \<open>Bootstrap_Properties\<close>,
    \<open>Grid_Properties\<close> and \<open>Agent_Properties\<close> state what the layers promise.

  \<^bold>\<open>What is shown.\<close> Delivery is exactly once and in order over any interleaving of losses and reconnections,
  and the ring buffer is a queue. Parsers accept exactly what the writers write; frames, armor and probe
  lines are found however the stream is cut. The handshake and the bootstrap make honest ends agree, and
  a whole reconnection of two resumable sessions succeeds: the agent's answer is the output the client misses, from exactly
  its offset, unless the snapshot path is due. Nothing of a session changes before the peer of the connection has sent a proof of the
  key made for that connection's challenge, nor through a decoy or a superseded connection. The seeds of the two ends never drift
  apart as long as connections are confirmed one after the other. The router's tables stay sound, each
  Hello reaches its agent, and overdue connections are swept. No two
  frames of a sealer share both key and nonce as long as the keys of its generations, each derived from the one before, differ.
  Whatever bytes the terminal is fed, its grid and its parser stay well formed, and the parser finds its
  way back from any string sequence; a resize keeps the text that fits and moves the rows that do not into the scrollback,
  or changes nothing when it cannot have its memory. A snapshot fed to a new terminal brings back
  everything the terminal shows and keeps, degraded no further than its cap demands, and the scrollback is a bounded
  queue. The agent waits for the end of an escape sequence no longer than its bounds before it takes a snapshot; a lost link to the
  router is dialled again and registers first, and a connection the router hands over arrives with the bytes it was read with.

  \<^bold>\<open>Correspondence.\<close> A class is a record with its members under a two- or three-letter prefix; a member
  function takes the record last and hands it back updated. A derived class extends the record of its
  base. Machine integers are words of their width; sizes are natural numbers, with the guards of the
  source written out. A result that can fail is \<open>Inl\<close> of the error. Borrowed spans are the bytes they
  point to; where the source writes through one, the definition returns the buffer after the call. An
  object that points to another, as a connection points to its session, takes it as an argument and
  hands it back. A callback is a function on the state its closure captures. Dereferencing an optional
  is a case distinction; \<open>agent_wf\<close> shows that its other branch is not reached. In the grid, rows are lists
  of cells, the 16-bit coordinates are natural numbers with their wrap-around written out, and whether an
  allocation succeeds is an argument.

  \<^bold>\<open>Bounds and fuel.\<close> Loops are recursive functions with termination proofs; the one fuel argument is
  that of \<open>grid_pump\<close>, the pump of a snapshot between two channels, for which one step per byte and two
  more are shown to be enough.

  \<^bold>\<open>Limits of the round trip.\<close> \<open>restored\<close> compares cells as they are written (\<open>look\<close>): a cell never written and a
  space are the same, and half of an overwritten wide character is shown as a replacement character. \<open>restorable\<close> names
  the states a snapshot carries: in origin mode the cursor is inside the scroll region, and a wrap is not pending with
  both character sets line drawing and the second in use. Snapshots that crop rows are not covered by it, and
  an alternate screen that is not the active one is not part of a snapshot.

  \<^bold>\<open>Not modelled.\<close> The session layer carries a snapshot as an opaque string of bytes. The event loops of the three programs and everything that is a system call (\<^verbatim>\<open>io\<close>,
  \<^verbatim>\<open>mux\<close> and the rest of \<^verbatim>\<open>agent\<close>, \<^verbatim>\<open>client\<close> and \<^verbatim>\<open>app\<close>): they appear as the arbitrary order in which the operations are
  called. The log, random numbers (nonces and seeds are arguments) and the wiping of memory.
\<close>

end
